(* ===== verification/CString.thy ===== *)
theory CString
  imports Memory
begin

text \<open>
  The string library of \<open>src/src/kernel/string.c\<close>.  \<open>strlen\<close>, \<open>strcmp\<close>, \<open>strcpy\<close> and
  \<open>strncpy\<close> are pointer loops over the address space; a loop over bytes that never meets a NUL
  does not return, so these are \<open>partial_function\<close>s whose \<^const>\<open>None\<close> is that
  case, and each is proved to return on a real string.  \<open>strcmp_l\<close> is the comparison on strings
  held in arrays of the program; \<open>strcmp_refines\<close> shows it is the same comparison.  \<open>itoa\<close>,
  \<open>vsprintf\<close> and \<open>snprintf\<close> build their text in local buffers and are functions on lists
  of bytes.
\<close>

section \<open>Strings in memory\<close>

fun cstr_at :: "mem \<Rightarrow> u32 \<Rightarrow> u8 list \<Rightarrow> bool" where
  "cstr_at m p [] \<longleftrightarrow> m p = 0"
| "cstr_at m p (c # s) \<longleftrightarrow> c \<noteq> 0 \<and> m p = c \<and> cstr_at m (p + 1) s"

lemma cstr_at_is_cstr: "cstr_at m p s \<Longrightarrow> is_cstr s"
  by (induction s arbitrary: p) auto

lemma cstr_at_unique: "cstr_at m p s \<Longrightarrow> cstr_at m p t \<Longrightarrow> s = t"
proof (induction s arbitrary: p t)
  case Nil
  then show ?case by (cases t) auto
next
  case (Cons c s)
  then show ?case by (cases t) auto
qed

lemma cstr_at_cong:
  "cstr_at m p s \<Longrightarrow> (\<And>b. b \<in> region p (Suc (length s)) \<Longrightarrow> m' b = m b) \<Longrightarrow> cstr_at m' p s"
proof (induction s arbitrary: p)
  case Nil
  have "p \<in> region p 1" by (simp add: region_def)
  with Nil show ?case by simp
next
  case (Cons c s)
  have "p \<in> region p (Suc (length (c # s)))"
    by (auto simp: region_def intro!: image_eqI [of _ _ 0])
  moreover have "b \<in> region p (Suc (length (c # s)))" if "b \<in> region (p + 1) (Suc (length s))" for b
  proof -
    from that obtain i where "i < Suc (length s)" "b = p + of_nat (Suc i)"
      by (auto simp: region_def)
    then show ?thesis by (simp only: region_mem length_Cons Suc_less_eq)
  qed
  ultimately show ?case using Cons by auto
qed

text \<open>The bytes a \<open>const char*\<close> argument stands for, as every consumer reads them.\<close>

partial_function (option) read_cstr :: "mem \<Rightarrow> u32 \<Rightarrow> u8 list option" where
  "read_cstr m p =
     (if m p = 0 then Some []
      else do { s \<leftarrow> read_cstr m (p + 1); Some (m p # s) })"

lemma read_cstr_at: "cstr_at m p s \<Longrightarrow> read_cstr m p = Some s"
  by (induction s arbitrary: p) (auto simp: read_cstr.simps)

lemma read_cstr_Some_at:
  assumes "read_cstr m p = Some s"
  shows "cstr_at m p s"
proof (rule read_cstr.raw_induct [where P = "\<lambda>m p s. cstr_at m p s", OF _ assms])
  fix f m p s
  assume "\<And>m p s. f m p = Some s \<Longrightarrow> cstr_at m p s"
    and "(if m p = 0 then Some [] else do { s \<leftarrow> f m (p + 1); Some (m p # s) }) = Some s"
  then show "cstr_at m p s"
    by (auto split: if_splits Option.bind_splits)
qed

section \<open>strlen, strcmp, strcpy, strncpy\<close>

partial_function (option) strlen_loop :: "mem \<Rightarrow> u32 \<Rightarrow> u32 \<Rightarrow> u32 option" where
  "strlen_loop m str len =
     (if m (str + len) \<noteq> 0 then strlen_loop m str (len + 1) else Some len)"

definition strlen :: "mem \<Rightarrow> u32 \<Rightarrow> u32 option" where
  "strlen m str = strlen_loop m str 0"

text \<open>\<open>char\<close> is signed on this target, so the difference is of the sign-extended bytes.\<close>

partial_function (option) strcmp :: "mem \<Rightarrow> u32 \<Rightarrow> u32 \<Rightarrow> s32 option" where
  "strcmp m a b =
     (if m a \<noteq> 0 \<and> m b \<noteq> 0 \<and> m a = m b then strcmp m (a + 1) (b + 1)
      else Some (scast (m a) - scast (m b)))"

partial_function (option) strcpy_loop :: "mem \<Rightarrow> u32 \<Rightarrow> u32 \<Rightarrow> mem option" where
  "strcpy_loop m dst src =
     (if m src \<noteq> 0 then strcpy_loop (m(dst := m src)) (dst + 1) (src + 1)
      else Some (m(dst := 0)))"

definition strcpy :: "mem \<Rightarrow> u32 \<Rightarrow> u32 \<Rightarrow> (mem \<times> u32) option" where
  "strcpy m dst src =
     (if dst = 0 then Some (m, 0)
      else if src = 0 then Some (m(dst := 0), dst)
      else do { m' \<leftarrow> strcpy_loop m dst src; Some (m', dst) })"

function strncpy_copy :: "mem \<Rightarrow> u32 \<Rightarrow> u32 \<Rightarrow> nat \<Rightarrow> nat \<Rightarrow> mem \<times> nat" where
  "strncpy_copy m dest src i n =
     (if i < n \<and> m (src + of_nat i) \<noteq> 0
      then strncpy_copy (m(dest + of_nat i := m (src + of_nat i))) dest src (Suc i) n
      else (m, i))"
  by pat_completeness auto
termination
  by (relation "measure (\<lambda>(m, dest, src, i, n). n - i)") auto

declare strncpy_copy.simps [simp del]

definition strncpy :: "mem \<Rightarrow> u32 \<Rightarrow> u32 \<Rightarrow> u32 \<Rightarrow> mem \<times> u32" where
  "strncpy m dest src n =
     (case strncpy_copy m dest src 0 (unat n) of
        (m1, i) \<Rightarrow> (fold (\<lambda>j m. m(dest + of_nat j := 0)) [i..<unat n] m1, dest))"

text \<open>On strings that lie in arrays of the program (names, arguments).\<close>

fun strcmp_l :: "u8 list \<Rightarrow> u8 list \<Rightarrow> s32" where
  "strcmp_l (a # as) (b # bs) =
     (if a \<noteq> 0 \<and> b \<noteq> 0 \<and> a = b then strcmp_l as bs else scast a - scast b)"
| "strcmp_l (a # as) [] = scast a"
| "strcmp_l [] (b # bs) = - scast b"
| "strcmp_l [] [] = 0"

lemma scast_u8_0_iff: "(scast (a :: u8) :: s32) = 0 \<longleftrightarrow> a = 0"
proof -
  have "(scast (scast a :: s32) :: u8) = a" by (rule bit_word_eqI) (auto simp: bit_simps)
  then show ?thesis by (metis scast_0)
qed

lemma scast_u8_inj: "(scast (a :: u8) :: s32) = scast b \<longleftrightarrow> a = b"
proof -
  have "(scast (scast x :: s32) :: u8) = x" for x :: u8
    by (rule bit_word_eqI) (auto simp: bit_simps)
  then show ?thesis by metis
qed

lemma strlen_at: "cstr_at m p s \<Longrightarrow> strlen m p = Some (of_nat (length s))"
proof -
  have "cstr_at m (p + of_nat k) t \<Longrightarrow>
      strlen_loop m p (of_nat k) = Some (of_nat (k + length t))" for k t
  proof (induction t arbitrary: k)
    case Nil
    then show ?case by (subst strlen_loop.simps) simp
  next
    case (Cons c t)
    then have "strlen_loop m p (of_nat (Suc k)) = Some (of_nat (Suc k + length t))"
      by (intro Cons.IH) (simp add: add_ac)
    with Cons.prems show ?case by (subst strlen_loop.simps) (simp add: add_ac)
  qed
  from this [of 0 s] show "cstr_at m p s \<Longrightarrow> ?thesis" by (simp add: strlen_def)
qed

lemma strcmp_refines:
  "cstr_at m a s \<Longrightarrow> cstr_at m b t \<Longrightarrow> strcmp m a b = Some (strcmp_l s t)"
proof (induction s t arbitrary: a b rule: strcmp_l.induct)
  case (1 x xs y ys)
  then show ?case
    by (subst strcmp.simps) auto
next
  case (2 x xs)
  then show ?case by (subst strcmp.simps) auto
next
  case (3 y ys)
  then show ?case by (subst strcmp.simps) auto
next
  case 4
  then show ?case by (subst strcmp.simps) auto
qed

lemma strcmp_l_eq_0: "is_cstr s \<Longrightarrow> is_cstr t \<Longrightarrow> strcmp_l s t = 0 \<longleftrightarrow> s = t"
  by (induction s t rule: strcmp_l.induct) (auto simp: scast_u8_0_iff scast_u8_inj)

lemma strcpy_loop_at:
  assumes "cstr_at m src s" and "length s < 2 ^ 32"
    and "region dst (Suc (length s)) \<inter> region src (Suc (length s)) = {}"
  shows "\<exists>m'. strcpy_loop m dst src = Some m' \<and> cstr_at m' dst s \<and>
    (\<forall>b. b \<notin> region dst (Suc (length s)) \<longrightarrow> m' b = m b)"
  using assms
proof (induction s arbitrary: m dst src)
  case Nil
  have "dst \<in> region dst 1" by (simp add: region_def)
  with Nil show ?case by (subst strcpy_loop.simps) auto
next
  case (Cons c s)
  let ?n = "Suc (length s)"
  have tail: "b \<in> region p (Suc ?n)" if "b \<in> region (p + 1) ?n" for b p
  proof -
    from that obtain i where "i < ?n" "b = p + of_nat (Suc i)" by (auto simp: region_def)
    then show ?thesis by (simp only: region_mem Suc_less_eq)
  qed
  have head: "p \<in> region p (Suc ?n)" for p
    by (auto simp: region_def intro!: image_eqI [of _ _ 0])
  have fresh: "dst \<notin> region (dst + 1) ?n"
  proof
    assume "dst \<in> region (dst + 1) ?n"
    then obtain i where i: "i < ?n" and e: "dst = dst + 1 + of_nat i"
      unfolding region_def by (elim imageE) (simp only: lessThan_iff)
    from e have "dst + 0 = dst + of_nat (Suc i)" by (simp only: of_nat_Suc add.assoc add_0_right)
    then have "(of_nat (Suc i) :: u32) = of_nat 0" by (simp del: of_nat_Suc)
    then show False using i Cons.prems(2) by (subst (asm) of_nat_u32_eq_iff) auto
  qed
  let ?m = "m(dst := m src)"
  have at1: "cstr_at ?m (src + 1) s"
  proof (rule cstr_at_cong [of m])
    show "cstr_at m (src + 1) s" using Cons.prems(1) by simp
    fix b assume "b \<in> region (src + 1) ?n"
    then have "b \<in> region src (Suc ?n)" by (rule tail)
    with head [of dst] Cons.prems(3) have "b \<noteq> dst" by auto
    then show "?m b = m b" by simp
  qed
  have disj: "region (dst + 1) ?n \<inter> region (src + 1) ?n = {}"
    using Cons.prems(3) tail by auto
  have "length s < 2 ^ 32" using Cons.prems(2) by simp
  from Cons.IH [OF at1 this disj] obtain m' where m': "strcpy_loop ?m (dst + 1) (src + 1) = Some m'"
    and at: "cstr_at m' (dst + 1) s" and out: "\<forall>b. b \<notin> region (dst + 1) ?n \<longrightarrow> m' b = ?m b"
    by blast
  have "m' dst = c" using out fresh Cons.prems(1) by auto
  moreover have "strcpy_loop m dst src = Some m'"
    using m' Cons.prems(1) by (subst strcpy_loop.simps) auto
  moreover have "m' b = m b" if "b \<notin> region dst (Suc ?n)" for b
    using that out tail head by (metis fun_upd_apply)
  ultimately show ?case using at Cons.prems(1) by auto
qed

section \<open>itoa, vsprintf, snprintf\<close>

text \<open>
  \<open>itoa\<close> peels digits off with C's truncating \<open>%\<close> and \<open>/\<close>, so a negative number in a base
  other than 10 yields characters below \<open>'0'\<close>.  Bases below 2 do not occur in the callers; the
  guard makes the recursion total.
\<close>

definition itoa_char :: "int \<Rightarrow> u8" where
  "itoa_char rem = (if rem > 9 then word_of_int (rem - 10 + 97) else word_of_int (rem + 48))"

function itoa_digits :: "int \<Rightarrow> int \<Rightarrow> u8 list" where
  "itoa_digits num base =
     (if num = 0 \<or> base < 2 then []
      else itoa_char (num smod base) # itoa_digits (num sdiv base) base)"
  by pat_completeness auto
termination
proof (relation "measure (\<lambda>(num, base). nat \<bar>num\<bar>)", simp)
  fix num base :: int
  assume a: "\<not> (num = 0 \<or> base < 2)"
  then have "\<bar>num\<bar> div base < \<bar>num\<bar>" by (intro int_div_less_self) auto
  moreover have "\<bar>num sdiv base\<bar> = \<bar>num\<bar> div base"
    using a by (auto simp: signed_divide_int_def abs_mult pos_imp_zdiv_nonneg_iff)
  ultimately show "((num sdiv base, base), num, base) \<in> measure (\<lambda>(num, base). nat \<bar>num\<bar>)"
    using a by auto
qed

declare itoa_digits.simps [simp del]

text \<open>The swapping loop that reverses the digits in place.\<close>

function reverse_loop :: "u8 list \<Rightarrow> nat \<Rightarrow> nat \<Rightarrow> u8 list" where
  "reverse_loop str start end =
     (if start < end then reverse_loop (str[start := str ! end, end := str ! start]) (Suc start) (end - 1)
      else str)"
  by pat_completeness auto
termination
  by (relation "measure (\<lambda>(str, start, end). end - start)") auto

declare reverse_loop.simps [simp del]

definition itoa :: "s32 \<Rightarrow> int \<Rightarrow> u8 list" where
  "itoa num base =
     (if num = 0 then [48]
      else let isNegative = sint num < 0 \<and> base = 10;
               num' = (if isNegative then - num else num);
               str = itoa_digits (sint num') base @ (if isNegative then [45] else [])
           in reverse_loop str 0 (length str - 1))"

text \<open>
  A variadic argument is a 32-bit word, a 64-bit word or a string.  Reading an argument as a
  type it does not have, or past the last one, is undefined in C; no caller does it, and the
  accessors give 0 and the empty string there.
\<close>

datatype va = VI u32 | VLL u64 | VS "u8 list"

definition va_word :: "va list \<Rightarrow> u32 \<times> va list" where
  "va_word args = (case args of
      VI w # r \<Rightarrow> (w, r) | VLL w # r \<Rightarrow> (ucast w, r) | VS _ # r \<Rightarrow> (0, r) | [] \<Rightarrow> (0, []))"

definition va_ll :: "va list \<Rightarrow> u64 \<times> va list" where
  "va_ll args = (case args of
      VI w # r \<Rightarrow> (ucast w, r) | VLL w # r \<Rightarrow> (w, r) | VS _ # r \<Rightarrow> (0, r) | [] \<Rightarrow> (0, []))"

definition va_str :: "va list \<Rightarrow> u8 list \<times> va list" where
  "va_str args = (case args of VS s # r \<Rightarrow> (s, r) | _ # r \<Rightarrow> ([], r) | [] \<Rightarrow> ([], []))"

text \<open>
  The bytes \<open>vsprintf\<close> writes before the final NUL.  A format that ends in a lone \<open>%\<close> makes
  the loop step over the terminator (\<^const>\<open>None\<close>).
\<close>

fun vsprintf :: "u8 list \<Rightarrow> va list \<Rightarrow> u8 list option" where
  "vsprintf [] args = Some []"
| "vsprintf [c] args = (if c \<noteq> 37 then Some [c] else None)"
| "vsprintf (c # d # fmt) args =
     (if c \<noteq> 37 then do { r \<leftarrow> vsprintf (d # fmt) args; Some (c # r) }
      else if d = 115 then
        (case va_str args of (s, args') \<Rightarrow> do { r \<leftarrow> vsprintf fmt args'; Some (s @ r) })
      else if d = 100 then
        (case va_word args of (w, args') \<Rightarrow> do { r \<leftarrow> vsprintf fmt args'; Some (itoa w 10 @ r) })
      else if d = 120 then
        (case va_word args of (w, args') \<Rightarrow> do { r \<leftarrow> vsprintf fmt args'; Some (itoa w 16 @ r) })
      else if d = 99 then
        (case va_word args of (w, args') \<Rightarrow> do { r \<leftarrow> vsprintf fmt args'; Some (ucast w # r) })
      else if d = 37 then do { r \<leftarrow> vsprintf fmt args; Some (37 # r) }
      else do { r \<leftarrow> vsprintf fmt args; Some (37 # d # r) })"

text \<open>
  \<open>snprintf\<close> formats into \<open>temp[1024]\<close> with no bound (\<^const>\<open>None\<close> when the text does not
  fit) and copies at most \<open>size - 1\<close> bytes; the result is the returned length and the bytes
  stored at \<open>str\<close>, the NUL included.  \<open>size = 0\<close> is refused with \<open>-1\<close>.
\<close>

definition snprintf :: "nat \<Rightarrow> u8 list \<Rightarrow> va list \<Rightarrow> (int \<times> u8 list) option" where
  "snprintf sz format args =
     (if sz = 0 then Some (-1, [])
      else do {
        temp \<leftarrow> vsprintf format args;
        if length temp < 1024
        then (let result = length temp;
                  to_copy = (if result < sz - 1 then result else sz - 1);
                  src = cstr_of temp
              in Some (int result, take to_copy (src @ replicate (to_copy - length src) 0) @ [0]))
        else None })"

lemma reverse_loop_length [simp]: "length (reverse_loop str i j) = length str"
proof (induction str i j rule: reverse_loop.induct)
  case (1 str i j)
  then show ?case by (subst reverse_loop.simps) auto
qed

lemma reverse_loop_nth:
  "j < length str \<Longrightarrow> k < length str \<Longrightarrow>
   reverse_loop str i j ! k = (if i \<le> k \<and> k \<le> j then str ! (i + j - k) else str ! k)"
proof (induction str i j rule: reverse_loop.induct)
  case (1 str i j)
  show ?case
  proof (cases "i < j")
    case True
    with 1 have "reverse_loop str i j ! k =
        (if Suc i \<le> k \<and> k \<le> j - 1 then str[i := str ! j, j := str ! i] ! (Suc i + (j - 1) - k)
         else str[i := str ! j, j := str ! i] ! k)"
      by (subst reverse_loop.simps) simp
    then show ?thesis using True 1(2,3) by (auto simp: nth_list_update)
  next
    case False
    then show ?thesis by (subst reverse_loop.simps) (auto intro!: arg_cong [of _ _ "(!) str"])
  qed
qed

lemma reverse_loop_rev: "reverse_loop str 0 (length str - 1) = rev str"
proof (rule nth_equalityI)
  fix k assume "k < length (reverse_loop str 0 (length str - 1))"
  then have k: "k < length str" by simp
  then show "reverse_loop str 0 (length str - 1) ! k = rev str ! k"
    by (subst reverse_loop_nth) (auto simp: rev_nth)
qed simp

end
