(* ===== verification/Vga.thy ===== *)
theory Vga
  imports CString
begin

text \<open>
  The text console of \<open>src/src/kernel/arch/i686/vga_text.c\<close>, the debug port of \<open>e9.c\<close>, and
  the port writes behind both.  The state is the video memory (a byte per offset from
  \<open>0xB8000\<close>), the two cursor variables \<open>g_ScreenX\<close> and \<open>g_ScreenY\<close>, and the log of port
  writes, which is all the rest of the program can see of the hardware.  The lemmas show that
  every character keeps the cursor on the screen and writes only screen cells, and what
  scrolling and clearing leave on the screen.

  The record is the root of the kernel's state: every later component extends it, so the
  console operations apply to the whole kernel state.
\<close>

record vga =
  vram :: "u32 \<Rightarrow> u8"
  g_ScreenX :: s32
  g_ScreenY :: s32
  ports :: "(u16 \<times> u8) list"

definition SCREEN_WIDTH :: u32 where "SCREEN_WIDTH = 80"
definition SCREEN_HEIGHT :: u32 where "SCREEN_HEIGHT = 25"
definition DEFAULT_COLOR :: u8 where "DEFAULT_COLOR = 7"

text \<open>A port write; the instruction itself is in assembly.\<close>

definition i686_outb :: "u16 \<Rightarrow> u8 \<Rightarrow> 'a vga_scheme \<Rightarrow> 'a vga_scheme" where
  "i686_outb port val s = s\<lparr>ports := ports s @ [(port, val)]\<rparr>"

definition e9_putc :: "u8 \<Rightarrow> 'a vga_scheme \<Rightarrow> 'a vga_scheme" where
  "e9_putc c s = i686_outb 0xE9 c s"

definition VGA_putchr :: "s32 \<Rightarrow> s32 \<Rightarrow> u8 \<Rightarrow> 'a vga_scheme \<Rightarrow> 'a vga_scheme" where
  "VGA_putchr x y c s = s\<lparr>vram := (vram s)(2 * (y * SCREEN_WIDTH + x) := c)\<rparr>"

definition VGA_putcolor :: "s32 \<Rightarrow> s32 \<Rightarrow> u8 \<Rightarrow> 'a vga_scheme \<Rightarrow> 'a vga_scheme" where
  "VGA_putcolor x y color s = s\<lparr>vram := (vram s)(2 * (y * SCREEN_WIDTH + x) + 1 := color)\<rparr>"

definition VGA_getchr :: "s32 \<Rightarrow> s32 \<Rightarrow> 'a vga_scheme \<Rightarrow> u8" where
  "VGA_getchr x y s = vram s (2 * (y * SCREEN_WIDTH + x))"

definition VGA_getcolor :: "s32 \<Rightarrow> s32 \<Rightarrow> 'a vga_scheme \<Rightarrow> u8" where
  "VGA_getcolor x y s = vram s (2 * (y * SCREEN_WIDTH + x) + 1)"

definition VGA_setcursor :: "s32 \<Rightarrow> s32 \<Rightarrow> 'a vga_scheme \<Rightarrow> 'a vga_scheme" where
  "VGA_setcursor x y s =
     (let pos = y * SCREEN_WIDTH + x;
          s1 = i686_outb 0x3D4 0x0F s;
          s2 = i686_outb 0x3D5 (ucast (pos AND 0xFF)) s1;
          s3 = i686_outb 0x3D4 0x0E s2
      in i686_outb 0x3D5 (ucast (signed_drop_bit 8 pos AND 0xFF)) s3)"

definition VGA_get_cursor_x :: "'a vga_scheme \<Rightarrow> s32" where
  "VGA_get_cursor_x s = g_ScreenX s"

definition VGA_get_cursor_y :: "'a vga_scheme \<Rightarrow> s32" where
  "VGA_get_cursor_y s = g_ScreenY s"

text \<open>One pass of an inner loop: blank the cells of row \<open>y\<close>, or copy row \<open>y\<close> up.\<close>

definition blank_row :: "u32 \<Rightarrow> 'a vga_scheme \<Rightarrow> 'a vga_scheme" where
  "blank_row y = fold (\<lambda>x s. VGA_putcolor (of_nat x) y DEFAULT_COLOR (VGA_putchr (of_nat x) y 0 s))
     [0..<unat SCREEN_WIDTH]"

definition copy_row :: "u32 \<Rightarrow> u32 \<Rightarrow> 'a vga_scheme \<Rightarrow> 'a vga_scheme" where
  "copy_row lines y = fold (\<lambda>x s.
       let s1 = VGA_putchr (of_nat x) (y - lines) (VGA_getchr (of_nat x) y s) s
       in VGA_putcolor (of_nat x) (y - lines) (VGA_getcolor (of_nat x) y s1) s1)
     [0..<unat SCREEN_WIDTH]"

definition VGA_clrscr :: "'a vga_scheme \<Rightarrow> 'a vga_scheme" where
  "VGA_clrscr s =
     (let s1 = fold (\<lambda>y. blank_row (of_nat y)) [0..<unat SCREEN_HEIGHT] s;
          s2 = s1\<lparr>g_ScreenX := 0, g_ScreenY := 0\<rparr>
      in VGA_setcursor (g_ScreenX s2) (g_ScreenY s2) s2)"

definition VGA_scrollback :: "s32 \<Rightarrow> 'a vga_scheme \<Rightarrow> 'a vga_scheme" where
  "VGA_scrollback lines s =
     (let s1 = fold (\<lambda>y. copy_row lines (of_nat y)) [unat lines..<unat SCREEN_HEIGHT] s;
          s2 = fold (\<lambda>y. blank_row (of_nat y)) [unat (SCREEN_HEIGHT - lines)..<unat SCREEN_HEIGHT] s1
      in s2\<lparr>g_ScreenY := g_ScreenY s2 - lines\<rparr>)"

text \<open>
  The tail of \<open>VGA_putc\<close>: wrap, scroll, move the hardware cursor.  The comparisons with the
  \<open>unsigned\<close> screen size are unsigned.
\<close>

definition putc_finish :: "'a vga_scheme \<Rightarrow> 'a vga_scheme" where
  "putc_finish s =
     (let s1 = (if g_ScreenX s \<ge> SCREEN_WIDTH
                then s\<lparr>g_ScreenY := g_ScreenY s + 1, g_ScreenX := 0\<rparr> else s);
          s2 = (if g_ScreenY s1 \<ge> SCREEN_HEIGHT then VGA_scrollback 1 s1 else s1)
      in VGA_setcursor (g_ScreenX s2) (g_ScreenY s2) s2)"

definition putc_default :: "u8 \<Rightarrow> 'a vga_scheme \<Rightarrow> 'a vga_scheme" where
  "putc_default c s =
     (let s1 = VGA_putchr (g_ScreenX s) (g_ScreenY s) c s
      in putc_finish (s1\<lparr>g_ScreenX := g_ScreenX s1 + 1\<rparr>))"

text \<open>
  The tab loop calls \<open>VGA_putc(' ')\<close>, which takes the default branch, and re-reads
  \<open>g_ScreenX % 4\<close> before every pass; C's remainder lies above \<open>-4\<close>, so eight passes bound it.
\<close>

function putc_tab :: "nat \<Rightarrow> 'a vga_scheme \<Rightarrow> 'a vga_scheme" where
  "putc_tab i s =
     (if i < 8 \<and> int i < 4 - (sint (g_ScreenX s) smod 4)
      then putc_tab (Suc i) (putc_default 32 s) else s)"
  by pat_completeness auto
termination
  by (relation "measure (\<lambda>(i, s). 8 - i)") auto

declare putc_tab.simps [simp del]

definition VGA_putc :: "u8 \<Rightarrow> 'a vga_scheme \<Rightarrow> 'a vga_scheme" where
  "VGA_putc c s =
     (if c = 10 then putc_finish (s\<lparr>g_ScreenX := 0, g_ScreenY := g_ScreenY s + 1\<rparr>)
      else if c = 9 then putc_finish (putc_tab 0 s)
      else if c = 13 then putc_finish (s\<lparr>g_ScreenX := 0\<rparr>)
      else putc_default c s)"

section \<open>Frames\<close>

text \<open>The pure video-memory operations change only \<open>vram\<close>.\<close>

lemma putchr_frame [simp, frame_simps]:
  "g_ScreenX (VGA_putchr x y c s) = g_ScreenX s" "g_ScreenY (VGA_putchr x y c s) = g_ScreenY s"
  "ports (VGA_putchr x y c s) = ports s" "vga.more (VGA_putchr x y c s) = vga.more s"
  "g_ScreenX (VGA_putcolor x y k s) = g_ScreenX s" "g_ScreenY (VGA_putcolor x y k s) = g_ScreenY s"
  "ports (VGA_putcolor x y k s) = ports s" "vga.more (VGA_putcolor x y k s) = vga.more s"
  by (simp_all add: VGA_putchr_def VGA_putcolor_def)

lemma outb_frame [simp, frame_simps]:
  "g_ScreenX (i686_outb p v s) = g_ScreenX s" "g_ScreenY (i686_outb p v s) = g_ScreenY s"
  "vram (i686_outb p v s) = vram s" "vga.more (i686_outb p v s) = vga.more s"
  "ports (i686_outb p v s) = ports s @ [(p, v)]"
  by (simp_all add: i686_outb_def)

lemma setcursor_frame [simp, frame_simps]:
  "g_ScreenX (VGA_setcursor x y s) = g_ScreenX s" "g_ScreenY (VGA_setcursor x y s) = g_ScreenY s"
  "vram (VGA_setcursor x y s) = vram s" "vga.more (VGA_setcursor x y s) = vga.more s"
  by (simp_all add: VGA_setcursor_def Let_def)

lemma fold_frame:
  assumes "\<And>x s. f (g x s) = f s"
  shows "f (fold g xs s) = f s"
  using assms by (induction xs arbitrary: s) auto

lemma blank_row_frame [simp, frame_simps]:
  "g_ScreenX (blank_row y s) = g_ScreenX s" "g_ScreenY (blank_row y s) = g_ScreenY s"
  "ports (blank_row y s) = ports s" "vga.more (blank_row y s) = vga.more s"
  by (simp_all add: blank_row_def fold_frame)

lemma copy_row_frame [simp, frame_simps]:
  "g_ScreenX (copy_row l y s) = g_ScreenX s" "g_ScreenY (copy_row l y s) = g_ScreenY s"
  "ports (copy_row l y s) = ports s" "vga.more (copy_row l y s) = vga.more s"
  by (simp_all add: copy_row_def fold_frame Let_def)

lemma scrollback_frame [simp, frame_simps]:
  "g_ScreenX (VGA_scrollback l s) = g_ScreenX s" "g_ScreenY (VGA_scrollback l s) = g_ScreenY s - l"
  "ports (VGA_scrollback l s) = ports s" "vga.more (VGA_scrollback l s) = vga.more s"
  by (simp_all add: VGA_scrollback_def Let_def fold_frame)

lemma putc_finish_more [simp, frame_simps]: "vga.more (putc_finish s) = vga.more s"
  by (simp add: putc_finish_def Let_def)

lemma putc_default_more [simp, frame_simps]: "vga.more (putc_default c s) = vga.more s"
  by (simp add: putc_default_def Let_def)

lemma putc_tab_more [simp, frame_simps]: "vga.more (putc_tab i s) = vga.more s"
  by (induction i s rule: putc_tab.induct) (subst putc_tab.simps, simp)

lemma VGA_putc_more [simp, frame_simps]: "vga.more (VGA_putc c s) = vga.more s"
  by (simp add: VGA_putc_def)

section \<open>The cursor stays on the screen\<close>

definition on_screen :: "'a vga_scheme \<Rightarrow> bool" where
  "on_screen s \<longleftrightarrow> g_ScreenX s < 80 \<and> g_ScreenY s < 25"

lemma putc_finish_xy:
  "g_ScreenX (putc_finish s) = (if 80 \<le> g_ScreenX s then 0 else g_ScreenX s)"
  "g_ScreenY (putc_finish s) =
     (let y = (if 80 \<le> g_ScreenX s then g_ScreenY s + 1 else g_ScreenY s)
      in if 25 \<le> y then y - 1 else y)"
  by (simp_all add: putc_finish_def Let_def SCREEN_WIDTH_def SCREEN_HEIGHT_def)

lemma row_wrap_less:
  assumes "(y :: u32) < 25 \<or> y = 25 \<and> x < 80"
  shows "(let y' = (if 80 \<le> (x :: u32) then y + 1 else y) in if 25 \<le> y' then y' - 1 else y') < 25"
proof -
  have "y + 1 \<le> 25" if "y < 25" using that by (simp add: inc_le)
  moreover have "y + 1 - 1 < 25" if "y < 25" using that by simp
  moreover have "(25 :: u32) - 1 < 25" by simp
  ultimately show ?thesis using assms by (auto simp: Let_def not_le)
qed

lemma putc_finish_on_screen:
  "g_ScreenY s < 25 \<or> g_ScreenY s = 25 \<and> g_ScreenX s < 80 \<Longrightarrow> on_screen (putc_finish s)"
  using row_wrap_less [of "g_ScreenY s" "g_ScreenX s"]
  by (simp add: on_screen_def putc_finish_xy not_le)

lemma putc_default_on_screen [wf_intros]: "on_screen s \<Longrightarrow> on_screen (putc_default c s)"
  unfolding putc_default_def Let_def
  by (rule putc_finish_on_screen) (simp add: on_screen_def)

lemma putc_tab_on_screen [wf_intros]: "on_screen s \<Longrightarrow> on_screen (putc_tab i s)"
  by (induction i s rule: putc_tab.induct) (subst putc_tab.simps, simp add: wf_intros)

lemma putc_finish_id_on_screen: "on_screen s \<Longrightarrow> on_screen (putc_finish s)"
  by (rule putc_finish_on_screen) (simp add: on_screen_def)

lemma VGA_putc_on_screen [wf_intros]:
  assumes "on_screen s"
  shows "on_screen (VGA_putc c s)"
proof -
  have "g_ScreenY s + 1 \<le> 25" using assms by (simp add: on_screen_def inc_le)
  then have "on_screen (putc_finish (s\<lparr>g_ScreenX := 0, g_ScreenY := g_ScreenY s + 1\<rparr>))"
    by (intro putc_finish_on_screen) (auto simp: order_le_less)
  moreover have "on_screen (putc_finish (s\<lparr>g_ScreenX := 0\<rparr>))"
    using assms by (intro putc_finish_on_screen) (simp add: on_screen_def)
  ultimately show ?thesis
    using assms by (simp add: VGA_putc_def wf_intros putc_finish_id_on_screen)
qed

section \<open>What is written where\<close>

text \<open>The byte offset of a cell, and that distinct screen cells have distinct offsets.\<close>

definition cell :: "nat \<Rightarrow> nat \<Rightarrow> u32" where
  "cell x y = of_nat (2 * (y * 80 + x))"

lemma cell_word: "2 * (of_nat y * SCREEN_WIDTH) + 2 * of_nat x = cell x y"
  by (simp add: cell_def SCREEN_WIDTH_def)

lemma cell_lt: "x < 80 \<Longrightarrow> y < 25 \<Longrightarrow> 2 * (y * 80 + x) + 1 < (4000 :: nat)"
  by arith

lemma cell_inj:
  assumes "x < 80" "y < 25" "x' < 80" "y' < 25"
  shows "cell x y = cell x' y' \<longleftrightarrow> x = x' \<and> y = y'"
proof -
  have "2 * (y * 80 + x) < 2 ^ 32" "2 * (y' * 80 + x') < 2 ^ 32"
    using assms cell_lt by fastforce+
  then have "cell x y = cell x' y' \<longleftrightarrow> y * 80 + x = y' * 80 + x'"
    unfolding cell_def by (simp only: of_nat_u32_eq_iff mult_cancel1) simp
  also have "\<dots> \<longleftrightarrow> x = x' \<and> y = y'"
    using assms by (auto dest: arg_cong [where f = "\<lambda>k. k mod 80"] arg_cong [where f = "\<lambda>k. k div 80"])
  finally show ?thesis .
qed

lemma cell_color:
  assumes "x < 80" "y < 25" "x' < 80" "y' < 25"
  shows "cell x y \<noteq> cell x' y' + 1"
proof -
  have "2 * (y * 80 + x) < 2 ^ 32" "2 * (y' * 80 + x') + 1 < 2 ^ 32"
    using assms cell_lt by fastforce+
  moreover have "2 * a \<noteq> 2 * b + 1" for a b :: nat by presburger
  ultimately have "cell x y \<noteq> of_nat (2 * (y' * 80 + x') + 1)"
    unfolding cell_def by (simp only: of_nat_u32_eq_iff) simp
  then show ?thesis by (simp add: cell_def add_ac)
qed

lemma cell_color_eq_iff:
  "x < 80 \<Longrightarrow> y < 25 \<Longrightarrow> x' < 80 \<Longrightarrow> y' < 25 \<Longrightarrow> cell x y + 1 = cell x' y' + 1 \<longleftrightarrow> x = x' \<and> y = y'"
  by (simp add: cell_inj)

text \<open>The character and the colour shown at column \<open>x\<close>, row \<open>y\<close>.\<close>

definition char_at :: "nat \<Rightarrow> nat \<Rightarrow> 'a vga_scheme \<Rightarrow> u8" where
  "char_at x y s = vram s (cell x y)"

definition color_at :: "nat \<Rightarrow> nat \<Rightarrow> 'a vga_scheme \<Rightarrow> u8" where
  "color_at x y s = vram s (cell x y + 1)"

lemma putchr_at:
  assumes "x < 80" "y < 25" "x' < 80" "y' < 25"
  shows "char_at x y (VGA_putchr (of_nat x') (of_nat y') c s) =
      (if x = x' \<and> y = y' then c else char_at x y s)"
    "color_at x y (VGA_putchr (of_nat x') (of_nat y') c s) = color_at x y s"
    "char_at x y (VGA_putcolor (of_nat x') (of_nat y') c s) = char_at x y s"
    "color_at x y (VGA_putcolor (of_nat x') (of_nat y') c s) =
      (if x = x' \<and> y = y' then c else color_at x y s)"
  using assms cell_inj [OF assms] cell_color [OF assms] cell_color [of x' y' x y]
  by (auto simp: char_at_def color_at_def VGA_putchr_def VGA_putcolor_def cell_word)

lemma getchr_at:
  "VGA_getchr (of_nat x) (of_nat y) s = char_at x y s"
  "VGA_getcolor (of_nat x) (of_nat y) s = color_at x y s"
  by (simp_all add: VGA_getchr_def VGA_getcolor_def char_at_def color_at_def cell_word)

lemma blank_row_at:
  assumes "x < 80" "y < 25" "y' < 25"
  shows "char_at x y (blank_row (of_nat y') s) = (if y = y' then 0 else char_at x y s)"
    "color_at x y (blank_row (of_nat y') s) = (if y = y' then DEFAULT_COLOR else color_at x y s)"
proof -
  let ?f = "\<lambda>k s. VGA_putcolor (of_nat k) (of_nat y') DEFAULT_COLOR (VGA_putchr (of_nat k) (of_nat y') 0 s)"
  have "char_at x y (fold ?f [0..<n] s) = (if y = y' \<and> x < n then 0 else char_at x y s) \<and>
      color_at x y (fold ?f [0..<n] s) = (if y = y' \<and> x < n then DEFAULT_COLOR else color_at x y s)"
    if "n \<le> 80" for n
    using that
    by (induction n) (use assms in \<open>auto simp: putchr_at less_Suc_eq\<close>)
  from this [of 80] assms(1)
  show "char_at x y (blank_row (of_nat y') s) = (if y = y' then 0 else char_at x y s)"
    "color_at x y (blank_row (of_nat y') s) = (if y = y' then DEFAULT_COLOR else color_at x y s)"
    by (simp_all add: blank_row_def SCREEN_WIDTH_def)
qed

lemma copy_row_at:
  assumes "x < 80" "y < 25" "Suc y' < 25"
  shows "char_at x y (copy_row 1 (of_nat (Suc y')) s) = (if y = y' then char_at x (Suc y) s else char_at x y s)"
    "color_at x y (copy_row 1 (of_nat (Suc y')) s) = (if y = y' then color_at x (Suc y) s else color_at x y s)"
proof -
  let ?f = "\<lambda>k s. let s1 = VGA_putchr (of_nat k) (of_nat y') (char_at k (Suc y') s) s
      in VGA_putcolor (of_nat k) (of_nat y') (color_at k (Suc y') s1) s1"
  have "(\<forall>k y. k < 80 \<and> y < 25 \<longrightarrow>
      char_at k y (fold ?f [0..<n] s) = (if y = y' \<and> k < n then char_at k (Suc y) s else char_at k y s) \<and>
      color_at k y (fold ?f [0..<n] s) = (if y = y' \<and> k < n then color_at k (Suc y) s else color_at k y s))"
    if "n \<le> 80" for n
    using that
    by (induction n) (use assms in \<open>auto simp: putchr_at less_Suc_eq Let_def\<close>)
  from this [of 80] assms(1,2)
  show "char_at x y (copy_row 1 (of_nat (Suc y')) s) = (if y = y' then char_at x (Suc y) s else char_at x y s)"
    "color_at x y (copy_row 1 (of_nat (Suc y')) s) = (if y = y' then color_at x (Suc y) s else color_at x y s)"
    unfolding copy_row_def getchr_at by (simp_all add: SCREEN_WIDTH_def)
qed

lemma scrollback_at:
  assumes "x < 80" "y < 25"
  shows "char_at x y (VGA_scrollback 1 s) = (if y = 24 then 0 else char_at x (Suc y) s)"
    "color_at x y (VGA_scrollback 1 s) = (if y = 24 then DEFAULT_COLOR else color_at x (Suc y) s)"
proof -
  let ?g = "\<lambda>y. copy_row 1 (of_nat y)"
  have up: "(\<forall>k y. k < 80 \<and> y < 25 \<longrightarrow>
      char_at k y (fold ?g [1..<Suc n] s) = (if y < n then char_at k (Suc y) s else char_at k y s) \<and>
      color_at k y (fold ?g [1..<Suc n] s) = (if y < n then color_at k (Suc y) s else color_at k y s))"
    if "n \<le> 24" for n
    using that
    by (induction n) (auto simp: copy_row_at less_Suc_eq simp del: of_nat_Suc)
  have h: "[unat (1 :: s32)..<unat SCREEN_HEIGHT] = [1..<Suc 24]" "unat (SCREEN_HEIGHT - 1) = 24"
    "unat SCREEN_HEIGHT = 25"
    by (simp_all add: SCREEN_HEIGHT_def)
  have b: "[24..<25] = [24]" by (simp add: upt_rec)
  note blank24 = blank_row_at [OF assms, of 24, simplified]
  have c: "char_at x y (t\<lparr>g_ScreenY := v\<rparr>) = char_at x y t" "color_at x y (t\<lparr>g_ScreenY := v\<rparr>) = color_at x y t"
    for t :: "'a vga_scheme" and v by (simp_all add: char_at_def color_at_def)
  show "char_at x y (VGA_scrollback 1 s) = (if y = 24 then 0 else char_at x (Suc y) s)"
    "color_at x y (VGA_scrollback 1 s) = (if y = 24 then DEFAULT_COLOR else color_at x (Suc y) s)"
    using up [of 24] assms
    by (auto simp: VGA_scrollback_def Let_def h b c blank24)
qed

lemma clrscr_at:
  assumes "x < 80" "y < 25"
  shows "char_at x y (VGA_clrscr s) = 0" "color_at x y (VGA_clrscr s) = DEFAULT_COLOR"
proof -
  have "(y < n \<longrightarrow> char_at x y (fold (\<lambda>y. blank_row (of_nat y)) [0..<n] s) = 0 \<and>
      color_at x y (fold (\<lambda>y. blank_row (of_nat y)) [0..<n] s) = DEFAULT_COLOR)"
    if "n \<le> 25" for n
    using that
    by (induction n) (use assms in \<open>auto simp: blank_row_at less_Suc_eq\<close>)
  from this [of 25] assms show "char_at x y (VGA_clrscr s) = 0" "color_at x y (VGA_clrscr s) = DEFAULT_COLOR"
    by (simp_all add: VGA_clrscr_def Let_def char_at_def color_at_def SCREEN_HEIGHT_def)
qed

lemma clrscr_on_screen [wf_intros]: "on_screen (VGA_clrscr s)"
  by (simp add: VGA_clrscr_def Let_def on_screen_def)

end
