(* ===== verification/Stdio.thy ===== *)
theory Stdio
  imports Vga
begin

text \<open>
  Formatted output: \<open>src/src/kernel/hal/vfs.c\<close>, \<open>src/src/kernel/stdio.c\<close> and
  \<open>src/src/kernel/debug.c\<close>.  The format interpreter is one definition over an output function
  (\<open>vprintf_core\<close>), instantiated with the kernel's \<open>fputc\<close> and, for the boot loader's copy of
  the code, with its own \<open>putc\<close>.

  The locale \<open>byte_sink\<close> states what a client of such an output function relies on (a state
  invariant kept by every byte); what it proves, that a whole formatted print keeps the
  invariant and emits exactly the bytes of the format's expansion, is used through its
  interpretations on the kernel's console and on the debug port.
\<close>

section \<open>The file layer: VFS\_Write, fputc, fputs\<close>

type_synonym fd_t = int

definition VFS_FD_STDIN :: fd_t where "VFS_FD_STDIN = 0"
definition VFS_FD_STDOUT :: fd_t where "VFS_FD_STDOUT = 1"
definition VFS_FD_STDERR :: fd_t where "VFS_FD_STDERR = 2"
definition VFS_FD_DEBUG :: fd_t where "VFS_FD_DEBUG = 3"

definition VFS_Write :: "fd_t \<Rightarrow> u8 list \<Rightarrow> 'a vga_scheme \<Rightarrow> int \<times> 'a vga_scheme" where
  "VFS_Write file data s =
     (if file = VFS_FD_STDIN then (0, s)
      else if file = VFS_FD_STDOUT \<or> file = VFS_FD_STDERR then (int (length data), fold VGA_putc data s)
      else if file = VFS_FD_DEBUG then (int (length data), fold e9_putc data s)
      else (-1, s))"

definition fputc :: "u8 \<Rightarrow> fd_t \<Rightarrow> 'a vga_scheme \<Rightarrow> 'a vga_scheme" where
  "fputc c file s = snd (VFS_Write file [c] s)"

definition fputs :: "u8 list \<Rightarrow> fd_t \<Rightarrow> 'a vga_scheme \<Rightarrow> 'a vga_scheme" where
  "fputs str file s = fold (\<lambda>c. fputc c file) str s"

section \<open>Numbers\<close>

definition g_HexChars :: "u8 list" where
  "g_HexChars = bytes ''0123456789abcdef''"

text \<open>
  The \<open>do\<close> loop of \<open>fprintf_unsigned\<close>: the digits, least significant first, as \<open>buffer\<close>
  holds them.  The callers pass radix 8, 10 or 16; a radix below 2 would loop or divide by
  zero, and the guard only makes the function total there.
\<close>

function digit_loop :: "nat \<Rightarrow> nat \<Rightarrow> u8 list" where
  "digit_loop number radix =
     (if radix < 2 then []
      else g_HexChars ! (number mod radix) #
        (if number div radix > 0 then digit_loop (number div radix) radix else []))"
  by pat_completeness auto
termination
  by (relation "measure fst") (auto intro!: div_less_dividend intro: gr0I)

declare digit_loop.simps [simp del]

definition print_unsigned :: "(u8 \<Rightarrow> 's \<Rightarrow> 's) \<Rightarrow> u64 \<Rightarrow> nat \<Rightarrow> 's \<Rightarrow> 's" where
  "print_unsigned put number radix s = fold put (rev (digit_loop (unat number) radix)) s"

definition print_signed :: "(u8 \<Rightarrow> 's \<Rightarrow> 's) \<Rightarrow> u64 \<Rightarrow> nat \<Rightarrow> 's \<Rightarrow> 's" where
  "print_signed put number radix s =
     (if number <s 0 then print_unsigned put (- number) radix (put 45 s)
      else print_unsigned put number radix s)"

definition fprintf_unsigned :: "fd_t \<Rightarrow> u64 \<Rightarrow> nat \<Rightarrow> 'a vga_scheme \<Rightarrow> 'a vga_scheme" where
  "fprintf_unsigned file = print_unsigned (\<lambda>c. fputc c file)"

definition fprintf_signed :: "fd_t \<Rightarrow> u64 \<Rightarrow> nat \<Rightarrow> 'a vga_scheme \<Rightarrow> 'a vga_scheme" where
  "fprintf_signed file = print_signed (\<lambda>c. fputc c file)"

section \<open>The format interpreter\<close>

datatype pf_state = ST_NORMAL | ST_LENGTH | ST_LENGTH_SHORT | ST_LENGTH_LONG | ST_SPEC
datatype pf_length = LEN_DEFAULT | LEN_SHORT_SHORT | LEN_SHORT | LEN_LONG | LEN_LONG_LONG

text \<open>Reading the numeric argument: only \<open>ll\<close> takes 64 bits; \<open>long\<close> is 32 bits here.\<close>

definition number_arg :: "bool \<Rightarrow> pf_length \<Rightarrow> va list \<Rightarrow> u64 \<times> va list" where
  "number_arg sign len args =
     (if len = LEN_LONG_LONG then va_ll args
      else (case va_word args of (w, r) \<Rightarrow> (if sign then scast w else ucast w, r)))"

text \<open>The code at label \<open>PRINTF_STATE_SPEC_\<close> for the character \<open>c\<close>.\<close>

definition print_spec ::
    "(u8 \<Rightarrow> 's \<Rightarrow> 's) \<Rightarrow> u8 \<Rightarrow> pf_length \<Rightarrow> va list \<Rightarrow> 's \<Rightarrow> va list \<times> 's" where
  "print_spec put c len args s =
     (if c = 99 then (case va_word args of (w, r) \<Rightarrow> (r, put (ucast w) s))
      else if c = 115 then (case va_str args of (str, r) \<Rightarrow> (r, fold put str s))
      else if c = 37 then (args, put 37 s)
      else if c = 100 \<or> c = 105 then
        (case number_arg True len args of (n, r) \<Rightarrow> (r, print_signed put n 10 s))
      else if c = 117 then
        (case number_arg False len args of (n, r) \<Rightarrow> (r, print_unsigned put n 10 s))
      else if c = 88 \<or> c = 120 \<or> c = 112 then
        (case number_arg False len args of (n, r) \<Rightarrow> (r, print_unsigned put n 16 s))
      else if c = 111 then
        (case number_arg False len args of (n, r) \<Rightarrow> (r, print_unsigned put n 8 s))
      else (args, s))"

fun vprintf_core ::
    "(u8 \<Rightarrow> 's \<Rightarrow> 's) \<Rightarrow> pf_state \<Rightarrow> pf_length \<Rightarrow> u8 list \<Rightarrow> va list \<Rightarrow> 's \<Rightarrow> 's" where
  "vprintf_core put st len [] args s = s"
| "vprintf_core put st len (c # fmt) args s =
     (let spec = (case print_spec put c len args s of
                    (args', s') \<Rightarrow> vprintf_core put ST_NORMAL LEN_DEFAULT fmt args' s')
      in case st of
           ST_NORMAL \<Rightarrow>
             if c = 37 then vprintf_core put ST_LENGTH len fmt args s
             else vprintf_core put ST_NORMAL len fmt args (put c s)
         | ST_LENGTH \<Rightarrow>
             if c = 104 then vprintf_core put ST_LENGTH_SHORT LEN_SHORT fmt args s
             else if c = 108 then vprintf_core put ST_LENGTH_LONG LEN_LONG fmt args s
             else spec
         | ST_LENGTH_SHORT \<Rightarrow>
             if c = 104 then vprintf_core put ST_SPEC LEN_SHORT_SHORT fmt args s else spec
         | ST_LENGTH_LONG \<Rightarrow>
             if c = 108 then vprintf_core put ST_SPEC LEN_LONG_LONG fmt args s else spec
         | ST_SPEC \<Rightarrow> spec)"

definition vfprintf :: "fd_t \<Rightarrow> u8 list \<Rightarrow> va list \<Rightarrow> 'a vga_scheme \<Rightarrow> 'a vga_scheme" where
  "vfprintf file fmt args s = vprintf_core (\<lambda>c. fputc c file) ST_NORMAL LEN_DEFAULT fmt args s"

definition fprintf :: "fd_t \<Rightarrow> string \<Rightarrow> va list \<Rightarrow> 'a vga_scheme \<Rightarrow> 'a vga_scheme" where
  "fprintf file fmt args s = vfprintf file (bytes fmt) args s"

definition putc :: "u8 \<Rightarrow> 'a vga_scheme \<Rightarrow> 'a vga_scheme" where
  "putc c s = fputc c VFS_FD_STDOUT s"

definition puts :: "string \<Rightarrow> 'a vga_scheme \<Rightarrow> 'a vga_scheme" where
  "puts str s = fputs (bytes str) VFS_FD_STDOUT s"

definition printf :: "string \<Rightarrow> va list \<Rightarrow> 'a vga_scheme \<Rightarrow> 'a vga_scheme" where
  "printf fmt args s = vfprintf VFS_FD_STDOUT (bytes fmt) args s"

definition debugf :: "string \<Rightarrow> va list \<Rightarrow> 'a vga_scheme \<Rightarrow> 'a vga_scheme" where
  "debugf fmt args s = vfprintf VFS_FD_DEBUG (bytes fmt) args s"

text \<open>
  The loop counter of \<open>fprint_buffer\<close> is 16 bits wide and compared with a 32-bit count: with
  a count above 65535 it never ends.
\<close>

definition fprint_buffer :: "fd_t \<Rightarrow> u8 list \<Rightarrow> mem \<Rightarrow> u32 \<Rightarrow> u32 \<Rightarrow> 'a vga_scheme \<Rightarrow> 'a vga_scheme option" where
  "fprint_buffer file msg m buffer count s =
     (if unat count \<ge> 2 ^ 16 then None
      else Some (fputs [10] file (fold (\<lambda>i s.
          let b = m (buffer + of_nat i)
          in fputc (g_HexChars ! unat (b AND 0xF)) file (fputc (g_HexChars ! unat (drop_bit 4 b)) file s))
        [0..<unat count] (fputs msg file s))))"

definition print_buffer :: "u8 list \<Rightarrow> mem \<Rightarrow> u32 \<Rightarrow> u32 \<Rightarrow> 'a vga_scheme \<Rightarrow> 'a vga_scheme option" where
  "print_buffer msg m buffer count s = fprint_buffer VFS_FD_STDOUT msg m buffer count s"

definition debugc :: "u8 \<Rightarrow> 'a vga_scheme \<Rightarrow> 'a vga_scheme" where
  "debugc c s = fputc c VFS_FD_DEBUG s"

definition debugs :: "u8 list \<Rightarrow> 'a vga_scheme \<Rightarrow> 'a vga_scheme" where
  "debugs str s = fputs str VFS_FD_DEBUG s"

definition debug_buffer :: "u8 list \<Rightarrow> mem \<Rightarrow> u32 \<Rightarrow> u32 \<Rightarrow> 'a vga_scheme \<Rightarrow> 'a vga_scheme option" where
  "debug_buffer msg m buffer count s = fprint_buffer VFS_FD_DEBUG msg m buffer count s"

section \<open>The log\<close>

datatype DebugLevel = LVL_DEBUG | LVL_INFO | LVL_WARN | LVL_ERROR | LVL_CRITICAL

text \<open>\<open>MIN_LOG_LEVEL\<close> is \<open>LVL_DEBUG\<close>, the least level, so no message is dropped.\<close>

definition g_LogSeverityColors :: "DebugLevel \<Rightarrow> u8 list" where
  "g_LogSeverityColors level = 27 # bytes (case level of
      LVL_DEBUG \<Rightarrow> ''[2;37m'' | LVL_INFO \<Rightarrow> ''[37m'' | LVL_WARN \<Rightarrow> ''[1;33m''
    | LVL_ERROR \<Rightarrow> ''[1;31m'' | LVL_CRITICAL \<Rightarrow> ''[1;37;41m'')"

definition g_ColorReset :: "u8 list" where
  "g_ColorReset = 27 # bytes ''[0m''"

definition logf :: "string \<Rightarrow> DebugLevel \<Rightarrow> string \<Rightarrow> va list \<Rightarrow> 'a vga_scheme \<Rightarrow> 'a vga_scheme" where
  "logf module level fmt args s =
     (let s1 = fputs (g_LogSeverityColors level) VFS_FD_DEBUG s;
          s2 = fprintf VFS_FD_DEBUG ''[%s] '' [VS (bytes module)] s1;
          s3 = vfprintf VFS_FD_DEBUG (bytes fmt) args s2;
          s4 = fputs g_ColorReset VFS_FD_DEBUG s3
      in fputc 10 VFS_FD_DEBUG s4)"

section \<open>The output function as an interface\<close>

lemma fputc_cases:
  "fputc c VFS_FD_STDOUT s = VGA_putc c s" "fputc c VFS_FD_DEBUG s = e9_putc c s"
  by (simp_all add: fputc_def VFS_Write_def VFS_FD_STDIN_def VFS_FD_STDOUT_def VFS_FD_STDERR_def
      VFS_FD_DEBUG_def)

text \<open>The bytes a format and its arguments stand for: the interpreter run on a list.\<close>

fun app :: "u8 \<Rightarrow> u8 list \<Rightarrow> u8 list" where
  "app c acc = acc @ [c]"

definition expand :: "u8 list \<Rightarrow> va list \<Rightarrow> u8 list" where
  "expand fmt args = vprintf_core app ST_NORMAL LEN_DEFAULT fmt args []"

declare app.simps [simp del]

lemma fold_app: "fold app xs acc = acc @ xs"
  by (induction xs arbitrary: acc) (simp_all add: app.simps)

lemma print_unsigned_fold: "print_unsigned put n r s = fold put (print_unsigned app n r []) s"
  by (simp add: print_unsigned_def fold_app)

lemma print_signed_fold: "print_signed put n r s = fold put (print_signed app n r []) s"
  by (simp add: print_signed_def print_unsigned_def fold_app app.simps)

lemma print_spec_fold:
  "print_spec put c len args s =
    (case print_spec app c len args [] of (args', out) \<Rightarrow> (args', fold put out s))"
  unfolding print_spec_def
  by (simp add: print_unsigned_fold [of put] print_signed_fold [of put] fold_app app.simps
      split: prod.splits)

lemma print_spec_app:
  "print_spec app c len args acc =
    (case print_spec app c len args [] of (args', out) \<Rightarrow> (args', acc @ out))"
  using print_spec_fold [of app c len args acc] by (simp add: fold_app split: prod.splits)

lemma vprintf_core_app:
  "vprintf_core app st len fmt args acc = acc @ vprintf_core app st len fmt args []"
proof (induction fmt arbitrary: st len args acc)
  case Nil
  show ?case by simp
next
  case (Cons c fmt)
  obtain args' out where sp: "print_spec app c len args [] = (args', out)" by force
  have spec: "(case print_spec app c len args acc of (args', s') \<Rightarrow>
      vprintf_core app ST_NORMAL LEN_DEFAULT fmt args' s') =
      acc @ out @ vprintf_core app ST_NORMAL LEN_DEFAULT fmt args' []" for acc
    using Cons.IH [of ST_NORMAL LEN_DEFAULT args' "acc @ out"]
    by (simp add: print_spec_app [of c len args acc] sp)
  show ?case
    using Cons.IH [of _ _ _ "app c acc"] Cons.IH [of _ _ _ "app c []"] Cons.IH [of _ _ _ acc]
      spec [of acc] spec [of "[]"]
    by (cases st) (simp_all add: Let_def app.simps [of c])
qed

lemma vprintf_core_fold:
  "vprintf_core put st len fmt args s = fold put (vprintf_core app st len fmt args []) s"
proof (induction fmt arbitrary: st len args s)
  case Nil
  show ?case by simp
next
  case (Cons c fmt)
  obtain args' out where sp: "print_spec app c len args [] = (args', out)" by force
  have spec: "(case print_spec put c len args s of (args', s') \<Rightarrow>
        vprintf_core put ST_NORMAL LEN_DEFAULT fmt args' s') =
      fold put (case print_spec app c len args [] of (args', s') \<Rightarrow>
        vprintf_core app ST_NORMAL LEN_DEFAULT fmt args' s') s"
    using Cons.IH [of ST_NORMAL LEN_DEFAULT args' "fold put out s"]
    by (simp add: print_spec_fold [of put] sp vprintf_core_app [of _ _ _ _ out])
  show ?case
    using Cons.IH [of _ _ _ s] Cons.IH [of _ _ _ "put c s"] spec
    by (cases st) (simp_all add: Let_def app.simps [of c] vprintf_core_app [of _ _ _ _ "[c]"])
qed

lemma vfprintf_expand: "vfprintf file fmt args s = fputs (expand fmt args) file s"
  unfolding vfprintf_def fputs_def expand_def by (rule vprintf_core_fold)

text \<open>What a client of an output function relies on: every byte keeps the invariant.\<close>

locale byte_sink =
  fixes put :: "u8 \<Rightarrow> 's \<Rightarrow> 's" and inv :: "'s \<Rightarrow> bool"
  assumes put_inv: "inv s \<Longrightarrow> inv (put c s)"
begin

lemma fold_put_inv: "inv s \<Longrightarrow> inv (fold put cs s)"
  by (rule fold_inv) (auto intro: put_inv)

lemma print_unsigned_inv: "inv s \<Longrightarrow> inv (print_unsigned put n radix s)"
  by (simp add: print_unsigned_def fold_put_inv)

lemma print_signed_inv: "inv s \<Longrightarrow> inv (print_signed put n radix s)"
  by (simp add: print_signed_def print_unsigned_inv put_inv)

lemma vprintf_inv: "inv s \<Longrightarrow> inv (vprintf_core put st len fmt args s)"
  by (subst vprintf_core_fold) (rule fold_put_inv)

end

text \<open>A sink whose whole output can be read back, and what a formatted print adds to it.\<close>

locale observed_sink = byte_sink +
  fixes out :: "'a \<Rightarrow> u8 list"
  assumes out_put: "inv s \<Longrightarrow> out (put c s) = out s @ [c]"
begin

lemma out_fold: "inv s \<Longrightarrow> out (fold put cs s) = out s @ cs"
  by (induction cs arbitrary: s) (simp_all add: out_put put_inv)

lemma out_vprintf: "inv s \<Longrightarrow> out (vprintf_core put ST_NORMAL LEN_DEFAULT fmt args s) = out s @ expand fmt args"
  by (subst vprintf_core_fold) (simp add: out_fold expand_def)

end

interpretation screen: byte_sink "\<lambda>c. fputc c VFS_FD_STDOUT" on_screen
  by unfold_locales (simp add: fputc_cases wf_intros)

text \<open>The bytes sent to the debug port.\<close>

definition debug_out :: "'a vga_scheme \<Rightarrow> u8 list" where
  "debug_out s = map snd (filter (\<lambda>(p, v). p = 0xE9) (ports s))"

interpretation debug: observed_sink "\<lambda>c. fputc c VFS_FD_DEBUG" on_screen debug_out
  by unfold_locales (simp_all add: fputc_cases e9_putc_def debug_out_def on_screen_def)

lemma printf_on_screen [wf_intros]: "on_screen s \<Longrightarrow> on_screen (printf fmt args s)"
  unfolding printf_def vfprintf_def by (rule screen.vprintf_inv)

lemma puts_on_screen [wf_intros]: "on_screen s \<Longrightarrow> on_screen (puts str s)"
  unfolding puts_def fputs_def by (rule screen.fold_put_inv)

lemma putc_on_screen [wf_intros]: "on_screen s \<Longrightarrow> on_screen (putc c s)"
  unfolding putc_def by (rule screen.put_inv)

lemma logf_on_screen [wf_intros]: "on_screen s \<Longrightarrow> on_screen (logf m l fmt args s)"
  by (simp add: logf_def Let_def fputs_def fprintf_def vfprintf_def debug.fold_put_inv
      debug.vprintf_inv debug.put_inv)

lemma debug_out_logf:
  assumes "on_screen s"
  shows "debug_out (logf m l fmt args s) = debug_out s @ g_LogSeverityColors l @
    expand (bytes ''[%s] '') [VS (bytes m)] @ expand (bytes fmt) args @ g_ColorReset @ [10]"
  using assms
  by (simp add: logf_def Let_def fputs_def fprintf_def vfprintf_def debug.fold_put_inv
      debug.vprintf_inv debug.put_inv debug.out_fold debug.out_vprintf debug.out_put)

text \<open>Printing reaches neither memory nor any component's state beyond the console.\<close>

lemma fputc_more [simp, frame_simps]: "vga.more (fputc c file s) = vga.more s"
  by (simp add: fputc_def VFS_Write_def e9_putc_def)

lemma fputs_more [simp, frame_simps]: "vga.more (fputs str file s) = vga.more s"
  unfolding fputs_def by (rule fold_frame) simp

lemma vfprintf_more [simp, frame_simps]: "vga.more (vfprintf file fmt args s) = vga.more s"
  by (simp add: vfprintf_expand)

lemma stdio_more [simp, frame_simps]:
  "vga.more (printf fmt args s) = vga.more s" "vga.more (puts str s) = vga.more s"
  "vga.more (putc c s) = vga.more s" "vga.more (debugf fmt args s) = vga.more s"
  "vga.more (fprintf file fmt args s) = vga.more s" "vga.more (logf m l fmt args s) = vga.more s"
  by (simp_all add: printf_def puts_def putc_def debugf_def fprintf_def logf_def Let_def)

section \<open>Numbers print as they read\<close>

definition hex_val :: "u8 \<Rightarrow> nat" where
  "hex_val c = (if 97 \<le> c then unat c - 87 else unat c - 48)"

definition digits_val :: "nat \<Rightarrow> u8 list \<Rightarrow> nat" where
  "digits_val radix ds = foldl (\<lambda>v d. v * radix + hex_val d) 0 ds"

lemma hex_char_val: "d < 16 \<Longrightarrow> hex_val (g_HexChars ! d) = d"
proof -
  assume "d < 16"
  then have "d \<in> set [0..<16]" by simp
  moreover have "\<forall>d \<in> set [0..<16]. hex_val (g_HexChars ! d) = d"
    by (simp add: upt_rec hex_val_def g_HexChars_def bytes_def)
  ultimately show ?thesis by blast
qed

lemma digit_loop_value:
  "2 \<le> radix \<Longrightarrow> radix \<le> 16 \<Longrightarrow> digits_val radix (rev (digit_loop n radix)) = n"
proof (induction n radix rule: digit_loop.induct)
  case (1 n radix)
  have d: "hex_val (g_HexChars ! (n mod radix)) = n mod radix"
    using 1(2,3) by (intro hex_char_val) (auto intro: less_le_trans [OF mod_less_divisor])
  show ?case
  proof (cases "n div radix > 0")
    case True
    with 1 have "digits_val radix (rev (digit_loop (n div radix) radix)) = n div radix" by simp
    with True 1(2) d show ?thesis
      by (subst digit_loop.simps) (simp add: digits_val_def)
  next
    case False
    with 1(2) d show ?thesis
      by (subst digit_loop.simps) (simp add: digits_val_def div_eq_0_iff)
  qed
qed

text \<open>The 32-byte buffer of \<open>fprintf_unsigned\<close> is long enough: 22 digits suffice.\<close>

lemma digit_loop_length:
  "2 \<le> radix \<Longrightarrow> 0 < k \<Longrightarrow> n < radix ^ k \<Longrightarrow> length (digit_loop n radix) \<le> k"
proof (induction n radix arbitrary: k rule: digit_loop.induct)
  case (1 n radix)
  show ?case
  proof (cases "n div radix > 0")
    case True
    then have "radix \<le> n" using 1(2) by (simp add: div_greater_zero_iff)
    with 1(4) have "k \<noteq> 1" by auto
    with 1(3) obtain j where k: "k = Suc j" "0 < j" by (cases k) auto
    with 1(4) have "n div radix < radix ^ j"
      using 1(2) by (simp add: less_mult_imp_div_less mult.commute)
    with 1 k True have "length (digit_loop (n div radix) radix) \<le> j" by simp
    with k True 1(2) show ?thesis by (subst digit_loop.simps) simp
  next
    case False
    with 1(3) show ?thesis by (subst digit_loop.simps) simp
  qed
qed

end
