(* ===== verification/LineEdit.thy ===== *)
theory LineEdit
  imports Prelude
begin

text \<open>
  The two array-shifting loops that every line editor of the program uses (the kernel's
  multi-line input in \<open>keyboard.c\<close>, the shell's command line in \<open>shell.c\<close>), and the contract
  of such an editor as a locale: a text, a cursor into it, insertion at the cursor, and
  deletion before it.  Both editors interpret the locale on their own definitions; the facts
  proved from the contract (an insertion undone by a backspace, typing a whole word) are shared.
\<close>

text \<open>\<open>for (i = a; i < b; i++) buf[i] = buf[i + 1];\<close>\<close>

definition shift_left :: "int \<Rightarrow> int \<Rightarrow> 'a list \<Rightarrow> 'a list option" where
  "shift_left a b = foldM (\<lambda>i buf. do { c \<leftarrow> arr_get buf (i + 1); arr_set buf i c }) [a..b - 1]"

text \<open>\<open>for (i = a; i > b; i--) buf[i] = buf[i - 1];\<close>\<close>

definition shift_right :: "int \<Rightarrow> int \<Rightarrow> 'a list \<Rightarrow> 'a list option" where
  "shift_right a b = foldM (\<lambda>i buf. do { c \<leftarrow> arr_get buf (i - 1); arr_set buf i c }) (rev [b + 1..a])"

lemma shift_left_step:
  "a < b \<Longrightarrow> shift_left a b buf =
    do { c \<leftarrow> arr_get buf (a + 1); buf' \<leftarrow> arr_set buf a c; shift_left (a + 1) b buf' }"
  by (simp add: shift_left_def upto_rec1 split: Option.bind_splits)

lemma shift_left_done: "b \<le> a \<Longrightarrow> shift_left a b buf = Some buf"
  by (simp add: shift_left_def)

lemma shift_right_step:
  "b < a \<Longrightarrow> shift_right a b buf =
    do { c \<leftarrow> arr_get buf (a - 1); buf' \<leftarrow> arr_set buf a c; shift_right (a - 1) b buf' }"
  by (simp add: shift_right_def upto_rec2 split: Option.bind_splits)

lemma shift_right_done: "a \<le> b \<Longrightarrow> shift_right a b buf = Some buf"
  by (simp add: shift_right_def)

lemma shift_left_Some:
  assumes "a \<le> b" "b < length buf"
  shows "shift_left (int a) (int b) buf =
    Some (take a buf @ take (b - a) (drop (Suc a) buf) @ drop b buf)"
  using assms
proof (induction "b - a" arbitrary: a buf)
  case 0
  then show ?case by (simp add: shift_left_done)
next
  case (Suc n)
  let ?buf = "buf[a := buf ! Suc a]"
  have "shift_left (int a) (int b) buf = shift_left (int (Suc a)) (int b) ?buf"
    using Suc.hyps(2) Suc.prems
    by (subst shift_left_step) (auto simp: arr_get_def arr_set_def nat_add_distrib add.commute)
  also have "\<dots> = Some (take (Suc a) ?buf @ take (b - Suc a) (drop (Suc (Suc a)) ?buf) @ drop b ?buf)"
    using Suc.hyps Suc.prems by (intro Suc.hyps(1)) auto
  also have "take (Suc a) ?buf = take a buf @ [buf ! Suc a]"
    using Suc.hyps(2) Suc.prems by (simp add: take_Suc_conv_app_nth)
  also have "drop (Suc (Suc a)) ?buf = drop (Suc (Suc a)) buf" by simp
  also have "drop b ?buf = drop b buf" using Suc.hyps(2) by simp
  finally have *: "shift_left (int a) (int b) buf =
    Some (take a buf @ (buf ! Suc a # take (b - Suc a) (drop (Suc (Suc a)) buf)) @ drop b buf)"
    by simp
  have "buf ! Suc a # take (b - Suc a) (drop (Suc (Suc a)) buf) = take (b - a) (drop (Suc a) buf)"
    using Suc.hyps(2) Suc.prems
    by (subst Cons_nth_drop_Suc [symmetric, of "Suc a"]) (auto simp: take_Cons' Suc_diff_Suc)
  with * show ?case by simp
qed

lemma shift_right_Some:
  assumes "b \<le> a" "a < length buf"
  shows "shift_right (int a) (int b) buf =
    Some (take (Suc b) buf @ take (a - b) (drop b buf) @ drop (Suc a) buf)"
  using assms
proof (induction "a - b" arbitrary: a buf)
  case 0
  then show ?case by (simp add: shift_right_done)
next
  case (Suc n)
  then obtain k where a: "a = Suc k" "b \<le> k" by (cases a) auto
  let ?buf = "buf[Suc k := buf ! k]"
  have "shift_right (int a) (int b) buf = shift_right (int k) (int b) ?buf"
    using a Suc.prems
    by (subst shift_right_step) (auto simp: arr_get_def arr_set_def nat_add_distrib add.commute)
  also have "\<dots> = Some (take (Suc b) ?buf @ take (k - b) (drop b ?buf) @ drop (Suc k) ?buf)"
    using Suc.hyps Suc.prems a by (intro Suc.hyps(1)) auto
  also have "take (Suc b) ?buf = take (Suc b) buf" using a by simp
  also have "take (k - b) (drop b ?buf) = take (k - b) (drop b buf)"
    using a by (simp add: take_drop)
  also have "drop (Suc k) ?buf = buf ! k # drop (Suc (Suc k)) buf"
    using a Suc.prems by (subst Cons_nth_drop_Suc [symmetric]) auto
  finally have *: "shift_right (int a) (int b) buf =
    Some (take (Suc b) buf @ (take (k - b) (drop b buf) @ [buf ! k]) @ drop (Suc a) buf)"
    using a by simp
  have "take (k - b) (drop b buf) @ [buf ! k] = take (a - b) (drop b buf)"
    using a Suc.prems by (simp add: Suc_diff_le take_Suc_conv_app_nth)
  with * show ?case by simp
qed

text \<open>
  Insertion of \<open>c\<close> at \<open>p\<close> into the first \<open>n\<close> cells: shift up, store.  Deletion of the cell at
  \<open>p\<close>: shift down, clear the last cell.
\<close>

lemma insert_text:
  assumes "p \<le> n" "n < length buf"
  shows "\<exists>buf'. shift_right (int n) (int p) buf = Some buf' \<and> length buf' = length buf \<and>
    take (Suc n) (buf'[p := c]) = take p buf @ c # drop p (take n buf)"
proof -
  let ?buf = "take (Suc p) buf @ take (n - p) (drop p buf) @ drop (Suc n) buf"
  have len: "length ?buf = length buf" using assms by simp
  have "take (Suc p) buf = take p buf @ [buf ! p]"
    using assms by (simp add: take_Suc_conv_app_nth)
  then have "?buf[p := c] = take p buf @ c # take (n - p) (drop p buf) @ drop (Suc n) buf"
    using assms by (simp add: list_update_append)
  then have "take (Suc n) (?buf[p := c]) = take p buf @ c # drop p (take n buf)"
    using assms by (simp add: take_Cons' drop_take min_def Suc_diff_le) arith
  with shift_right_Some [OF assms] len show ?thesis by blast
qed

lemma delete_text:
  assumes "p < n" "n \<le> length buf"
  shows "\<exists>buf'. shift_left (int p) (int n - 1) buf = Some buf' \<and> length buf' = length buf \<and>
    take (n - 1) (buf'[n - 1 := c]) = take p buf @ drop (Suc p) (take n buf)"
proof -
  let ?buf = "take p buf @ take (n - 1 - p) (drop (Suc p) buf) @ drop (n - 1) buf"
  have "shift_left (int p) (int (n - 1)) buf = Some ?buf"
    using assms by (intro shift_left_Some) auto
  moreover have "int (n - 1) = int n - 1" using assms by simp
  moreover have "length ?buf = length buf" using assms by simp
  moreover have "take (n - 1) (?buf[n - 1 := c]) = take p buf @ drop (Suc p) (take n buf)"
  proof -
    have e: "n - 1 \<le> p \<longleftrightarrow> n - 1 = p" "\<not> length buf - Suc p \<le> n - Suc p \<longleftrightarrow> n < length buf"
      using assms by auto
    show ?thesis using assms e by (auto simp: drop_take min_def)
  qed
  ultimately show ?thesis by auto
qed

section \<open>The contract of a line editor\<close>

locale line_editor =
  fixes inv :: "'s \<Rightarrow> bool"
    and line :: "'s \<Rightarrow> u8 list"
    and cursor :: "'s \<Rightarrow> nat"
    and cap :: nat
    and ins :: "u8 \<Rightarrow> 's \<Rightarrow> 's option"
    and del :: "'s \<Rightarrow> 's option"
  assumes cursor_le: "inv s \<Longrightarrow> cursor s \<le> length (line s)"
    and line_le: "inv s \<Longrightarrow> length (line s) \<le> cap"
    and ins_room: "inv s \<Longrightarrow> length (line s) < cap \<Longrightarrow>
      \<exists>s'. ins c s = Some s' \<and> inv s' \<and> cursor s' = Suc (cursor s) \<and>
        line s' = take (cursor s) (line s) @ c # drop (cursor s) (line s)"
    and ins_full: "inv s \<Longrightarrow> length (line s) = cap \<Longrightarrow> ins c s = Some s"
    and del_pos: "inv s \<Longrightarrow> 0 < cursor s \<Longrightarrow>
      \<exists>s'. del s = Some s' \<and> inv s' \<and> cursor s' = cursor s - 1 \<and>
        line s' = take (cursor s - 1) (line s) @ drop (cursor s) (line s)"
    and del_zero: "inv s \<Longrightarrow> cursor s = 0 \<Longrightarrow> del s = Some s"
begin

lemma ins_inv: "inv s \<Longrightarrow> \<exists>s'. ins c s = Some s' \<and> inv s'"
  using line_le [of s] ins_room [of s c] ins_full [of s c] by (metis order_le_less)

lemma del_inv: "inv s \<Longrightarrow> \<exists>s'. del s = Some s' \<and> inv s'"
  using del_pos [of s] del_zero [of s] by (metis not_gr_zero)

text \<open>A backspace right after an insertion restores the text and the cursor.\<close>

lemma ins_del:
  assumes "inv s" "length (line s) < cap"
  shows "\<exists>s'. do { s1 \<leftarrow> ins c s; del s1 } = Some s' \<and> inv s' \<and> line s' = line s \<and> cursor s' = cursor s"
proof -
  from ins_room [OF assms, of c] obtain s1 where s1: "ins c s = Some s1" "inv s1"
    "cursor s1 = Suc (cursor s)" "line s1 = take (cursor s) (line s) @ c # drop (cursor s) (line s)"
    by blast
  from del_pos [OF s1(2)] s1(3) obtain s2 where s2: "del s1 = Some s2" "inv s2"
    "cursor s2 = cursor s" "line s2 = take (cursor s) (line s1) @ drop (Suc (cursor s)) (line s1)"
    by auto
  from s1(4) s2(4) cursor_le [OF assms(1)] have "line s2 = line s" by simp
  with s1(1) s2 show ?thesis by auto
qed

text \<open>Typing a word inserts it at the cursor, if it fits.\<close>

lemma type_word:
  assumes "inv s" "length (line s) + length w \<le> cap"
  shows "\<exists>s'. foldM ins w s = Some s' \<and> inv s' \<and> cursor s' = cursor s + length w \<and>
    line s' = take (cursor s) (line s) @ w @ drop (cursor s) (line s)"
  using assms
proof (induction w arbitrary: s)
  case Nil
  then show ?case by simp
next
  case (Cons c w)
  from Cons.prems have "length (line s) < cap" by simp
  from ins_room [OF Cons.prems(1) this, of c] obtain s1 where s1: "ins c s = Some s1" "inv s1"
    "cursor s1 = Suc (cursor s)" "line s1 = take (cursor s) (line s) @ c # drop (cursor s) (line s)"
    by blast
  have len: "length (line s1) = Suc (length (line s))"
    using s1(4) cursor_le [OF Cons.prems(1)] by simp
  then obtain s2 where "foldM ins w s1 = Some s2" "inv s2" "cursor s2 = cursor s1 + length w"
    "line s2 = take (cursor s1) (line s1) @ w @ drop (cursor s1) (line s1)"
    using Cons.IH [OF s1(2)] Cons.prems(2) by auto
  with s1 cursor_le [OF Cons.prems(1)] show ?case by simp
qed

end

end
