(* ===== verification/Keyboard.thy ===== *)
theory Keyboard
  imports Stdio LineEdit
begin

text \<open>
  The PS/2 keyboard driver, \<open>src/src/kernel/drivers/keyboard.c\<close>: the Spanish key map and the
  dead-key table, the modifier state machine of the interrupt handler, the 256-byte ring of
  typed characters, and the kernel's own multi-line input.  The scancode is what the handler
  reads from port \<open>0x60\<close>, so it is an argument here: an interrupt of the keyboard means that the
  controller holds a byte, and the wait for it in \<open>keyboard_get_scancode\<close> is over at once.

  The ring interprets the queue contract \<open>bounded_queue\<close> (order of arrival, capacity 255, a full
  ring drops the character), the multi-line input interprets \<open>line_editor\<close>; the handler is shown
  to stay inside its arrays for every scancode.
\<close>

section \<open>Tables\<close>

definition KEY_RELEASE :: u8 where "KEY_RELEASE = 0x80"
definition KEY_SHIFT :: u8 where "KEY_SHIFT = 0x2A"
definition KEY_RSHIFT :: u8 where "KEY_RSHIFT = 0x36"
definition KEY_ALT :: u8 where "KEY_ALT = 0x38"
definition KEY_CAPS :: u8 where "KEY_CAPS = 0x3A"
definition KEY_UP :: u8 where "KEY_UP = 0x48"
definition KEY_DOWN :: u8 where "KEY_DOWN = 0x50"
definition KEY_LEFT :: u8 where "KEY_LEFT = 0x4B"
definition KEY_RIGHT :: u8 where "KEY_RIGHT = 0x4D"
definition KEY_DELETE :: u8 where "KEY_DELETE = 0x53"
definition KEY_ALTGR :: u8 where "KEY_ALTGR = 0x38"

lemmas key_defs = KEY_RELEASE_def KEY_SHIFT_def KEY_RSHIFT_def KEY_ALT_def KEY_CAPS_def KEY_UP_def
  KEY_DOWN_def KEY_LEFT_def KEY_RIGHT_def KEY_DELETE_def KEY_ALTGR_def

definition DEAD_NONE :: u8 where "DEAD_NONE = 0"
definition DEAD_ACUTE :: u8 where "DEAD_ACUTE = 1"
definition DEAD_DIERESIS :: u8 where "DEAD_DIERESIS = 2"
definition DEAD_GRAVE :: u8 where "DEAD_GRAVE = 3"
definition DEAD_TILDE :: u8 where "DEAD_TILDE = 4"
definition DEAD_CIRCUMFLEX :: u8 where "DEAD_CIRCUMFLEX = 5"

definition MAX_LINES :: int where "MAX_LINES = 25"
definition LINE_LENGTH :: int where "LINE_LENGTH = 80"
definition KEYBOARD_BUFFER_SIZE :: nat where "KEYBOARD_BUFFER_SIZE = 256"

record key_mapping =
  km_scancode :: u8
  km_normal :: u8
  km_shift :: u8
  km_altgr :: u8
  km_is_dead_key :: bool

abbreviation KM :: "u8 \<Rightarrow> u8 \<Rightarrow> u8 \<Rightarrow> u8 \<Rightarrow> bool \<Rightarrow> key_mapping" where
  "KM sc n sh ag dead \<equiv> \<lparr>km_scancode = sc, km_normal = n, km_shift = sh, km_altgr = ag, km_is_dead_key = dead\<rparr>"

definition keymap :: "key_mapping list" where
  "keymap = [
     KM 0x02 0x31 0x21 0x7C False, KM 0x03 0x32 0x22 0x40 False,
     KM 0x04 0x33 0xFA 0x23 False, KM 0x05 0x34 0x24 0x7E False,
     KM 0x06 0x35 0x25 0xEE False, KM 0x07 0x36 0x26 0xAA False,
     KM 0x08 0x37 0x2F 0 False, KM 0x09 0x38 0x28 0 False,
     KM 0x0A 0x39 0x29 0 False, KM 0x0B 0x30 0x3D 0 False,
     KM 0x0C 0x27 0x3F 0 False, KM 0x0D 0xAD 0xA8 0 False,
     KM 0x0E 0x08 0x08 0x08 False, KM 0x0F 0x09 0x09 0x09 False,
     KM 0x10 0x71 0x51 0 False, KM 0x11 0x77 0x57 0 False,
     KM 0x12 0x65 0x45 0xEE False, KM 0x13 0x72 0x52 0 False,
     KM 0x14 0x74 0x54 0 False, KM 0x15 0x79 0x59 0 False,
     KM 0x16 0x75 0x55 0 False, KM 0x17 0x69 0x49 0 False,
     KM 0x18 0x6F 0x4F 0 False, KM 0x19 0x70 0x50 0 False,
     KM 0x1B 0x2B 0x2A 0x5D False, KM 0x1C 0x0A 0x0A 0x0A False,
     KM 0x1E 0x61 0x41 0 False, KM 0x1F 0x73 0x53 0 False,
     KM 0x20 0x64 0x44 0 False, KM 0x21 0x66 0x46 0 False,
     KM 0x22 0x67 0x47 0 False, KM 0x23 0x68 0x48 0 False,
     KM 0x24 0x6A 0x4A 0 False, KM 0x25 0x6B 0x4B 0 False,
     KM 0x26 0x6C 0x4C 0 False, KM 0x27 0xA4 0xA5 0 False,
     KM 0x29 0xF8 0xA6 0x5C False, KM 0x56 0x3C 0x3E 0 False,
     KM 0x2C 0x7A 0x5A 0 False, KM 0x2D 0x78 0x58 0 False,
     KM 0x2E 0x63 0x43 0 False, KM 0x2F 0x76 0x56 0 False,
     KM 0x30 0x62 0x42 0 False, KM 0x31 0x6E 0x4E 0 False,
     KM 0x32 0x6D 0x4D 0 False, KM 0x33 0x2C 0x3B 0 False,
     KM 0x34 0x2E 0x3A 0 False, KM 0x35 0x2D 0x5F 0 False,
     KM 0x37 0x2A 0x2A 0x2A False, KM 0x39 0x20 0x20 0x20 False]"

text \<open>Entries \<open>(dead_type, base_char, result)\<close>.\<close>

definition dead_compositions :: "(u8 \<times> u8 \<times> u8) list" where
  "dead_compositions = [
     (0x01, 0x61, 0xA0), (0x01, 0x41, 0xB5), (0x01, 0x65, 0x82), (0x01, 0x45, 0x90),
     (0x01, 0x69, 0xA1), (0x01, 0x49, 0xD6), (0x01, 0x6F, 0xA2), (0x01, 0x4F, 0xE0),
     (0x01, 0x75, 0xA3), (0x01, 0x55, 0xE9), (0x02, 0x75, 0x81), (0x02, 0x55, 0x9A),
     (0x03, 0x61, 0x85), (0x03, 0x41, 0x85), (0x03, 0x65, 0x8A), (0x03, 0x45, 0x8A),
     (0x03, 0x69, 0x8D), (0x03, 0x49, 0x8D), (0x03, 0x6F, 0x93), (0x03, 0x4F, 0x93),
     (0x03, 0x75, 0x97), (0x03, 0x55, 0x97), (0x04, 0x6E, 0xA4), (0x04, 0x4E, 0xA5),
     (0x04, 0x61, 0xC6), (0x04, 0x41, 0xC6), (0x04, 0x6F, 0xE4), (0x04, 0x4F, 0xE4),
     (0x05, 0x61, 0x83), (0x05, 0x41, 0x83), (0x05, 0x65, 0x88), (0x05, 0x45, 0x88),
     (0x05, 0x69, 0x8C), (0x05, 0x49, 0x8C), (0x05, 0x6F, 0x93), (0x05, 0x4F, 0x93),
     (0x05, 0x75, 0x96), (0x05, 0x55, 0x96)]"

section \<open>State\<close>

record kbd = vga +
  input_lines :: "u8 list list"
  line_lengths :: "int list"
  total_lines_used :: int
  cursor_line :: int
  cursor_pos :: int
  shift_pressed :: int
  altgr_pressed :: int
  caps_lock :: int
  extended_key :: int
  dead_key_state :: u8
  key_buffer :: "u8 list"
  kb_head :: nat
  kb_tail :: nat
  shell_mode :: bool

section \<open>Modifiers and dead keys\<close>

definition get_dead_key_type :: "u8 \<Rightarrow> 'a kbd_scheme \<Rightarrow> u8" where
  "get_dead_key_type scancode s =
     (if scancode = 0x1A then (if shift_pressed s \<noteq> 0 then DEAD_CIRCUMFLEX else DEAD_GRAVE)
      else if scancode = 0x28 then (if shift_pressed s \<noteq> 0 then DEAD_DIERESIS else DEAD_ACUTE)
      else DEAD_NONE)"

definition find_dead_key_composition :: "u8 \<Rightarrow> u8 \<Rightarrow> u8" where
  "find_dead_key_composition dead_type base_char =
     (case find (\<lambda>(d, b, r). d = dead_type \<and> b = base_char) dead_compositions of
        Some (d, b, r) \<Rightarrow> r | None \<Rightarrow> 0)"

definition output_dead_key_symbol :: "u8 \<Rightarrow> 'a kbd_scheme \<Rightarrow> 'a kbd_scheme" where
  "output_dead_key_symbol dead_type s =
     (if dead_type = DEAD_ACUTE then putc 0xEF s
      else if dead_type = DEAD_DIERESIS then putc 0xF9 s
      else if dead_type = DEAD_GRAVE then putc 0x60 s
      else if dead_type = DEAD_TILDE then putc 0x7E s
      else if dead_type = DEAD_CIRCUMFLEX then putc 0x5E s
      else s)"

text \<open>\<open>char\<close> is signed, so the letter ranges are compared as signed bytes.\<close>

definition apply_caps_lock :: "u8 \<Rightarrow> 'a kbd_scheme \<Rightarrow> u8" where
  "apply_caps_lock ascii s =
     (if caps_lock s \<noteq> 0 \<and> 0x61 \<le>s ascii \<and> ascii \<le>s 0x7A then ascii - 0x61 + 0x41
      else if caps_lock s \<noteq> 0 \<and> 0x41 \<le>s ascii \<and> ascii \<le>s 0x5A then ascii - 0x41 + 0x61
      else ascii)"

section \<open>The ring of typed characters\<close>

definition keyboard_buffer_push :: "u8 \<Rightarrow> 'a kbd_scheme \<Rightarrow> bool \<times> 'a kbd_scheme" where
  "keyboard_buffer_push c s =
     (let nxt = (kb_head s + 1) mod KEYBOARD_BUFFER_SIZE
      in if nxt = kb_tail s then (False, s)
         else (True, s\<lparr>key_buffer := (key_buffer s)[kb_head s := c], kb_head := nxt\<rparr>))"

definition keyboard_buffer_pop :: "'a kbd_scheme \<Rightarrow> u8 option \<times> 'a kbd_scheme" where
  "keyboard_buffer_pop s =
     (if kb_head s = kb_tail s then (None, s)
      else (Some (key_buffer s ! kb_tail s),
            s\<lparr>kb_tail := (kb_tail s + 1) mod KEYBOARD_BUFFER_SIZE\<rparr>))"

definition keyboard_buffer_empty :: "'a kbd_scheme \<Rightarrow> bool" where
  "keyboard_buffer_empty s \<longleftrightarrow> kb_head s = kb_tail s"

section \<open>Multi-line input\<close>

text \<open>One cell of the loop in \<open>redraw_input_line\<close>.\<close>

definition redraw_cell :: "int \<Rightarrow> int \<Rightarrow> u8 list \<Rightarrow> int \<Rightarrow> 'a kbd_scheme \<Rightarrow> 'a kbd_scheme option" where
  "redraw_cell y len row x s =
     (if x < len then do { c \<leftarrow> arr_get row x; Some (VGA_putchr (of_int x) (of_int y) c s) }
      else Some (VGA_putchr (of_int x) (of_int y) 0x20 s))"

definition redraw_input_line :: "'a kbd_scheme \<Rightarrow> 'a kbd_scheme option" where
  "redraw_input_line s = do {
     let y = cursor_line s;
     len \<leftarrow> arr_get (line_lengths s) y;
     row \<leftarrow> arr_get (input_lines s) y;
     s1 \<leftarrow> foldM (redraw_cell y len row) [0..LINE_LENGTH - 1] s;
     let s2 = s1\<lparr>g_ScreenX := of_int (cursor_pos s1), g_ScreenY := of_int y\<rparr>;
     Some (VGA_setcursor (g_ScreenX s2) (g_ScreenY s2) s2) }"

text \<open>Store a line and its length back: the writes through \<open>input_lines[cursor_line]\<close>.\<close>

definition set_line :: "u8 list \<Rightarrow> int \<Rightarrow> 'a kbd_scheme \<Rightarrow> 'a kbd_scheme option" where
  "set_line row len s = do {
     rows \<leftarrow> arr_set (input_lines s) (cursor_line s) row;
     lens \<leftarrow> arr_set (line_lengths s) (cursor_line s) len;
     Some (s\<lparr>input_lines := rows, line_lengths := lens\<rparr>) }"

definition handle_delete_key :: "'a kbd_scheme \<Rightarrow> 'a kbd_scheme option" where
  "handle_delete_key s = do {
     len \<leftarrow> arr_get (line_lengths s) (cursor_line s);
     if cursor_pos s \<ge> len then Some s
     else do {
       row \<leftarrow> arr_get (input_lines s) (cursor_line s);
       row1 \<leftarrow> shift_left (cursor_pos s) (len - 1) row;
       row2 \<leftarrow> arr_set row1 (len - 1) 0;
       s1 \<leftarrow> set_line row2 (len - 1) s;
       redraw_input_line s1 } }"

definition handle_enter_multiline :: "'a kbd_scheme \<Rightarrow> 'a kbd_scheme option" where
  "handle_enter_multiline s = do {
     s1 \<leftarrow>
       (if cursor_line s < MAX_LINES - 1 then
          (let s0 = s\<lparr>cursor_line := cursor_line s + 1\<rparr>
           in if cursor_line s0 \<ge> total_lines_used s0
              then set_line (replicate (nat LINE_LENGTH) 0) 0 (s0\<lparr>total_lines_used := cursor_line s0 + 1\<rparr>)
              else Some s0)
        else Some s);
     redraw_input_line (s1\<lparr>cursor_pos := 0\<rparr>) }"

definition backspace_multiline :: "'a kbd_scheme \<Rightarrow> 'a kbd_scheme option" where
  "backspace_multiline s =
     (if cursor_pos s = 0 then Some s
      else do {
        len \<leftarrow> arr_get (line_lengths s) (cursor_line s);
        row \<leftarrow> arr_get (input_lines s) (cursor_line s);
        row1 \<leftarrow> shift_left (cursor_pos s - 1) (len - 1) row;
        row2 \<leftarrow> arr_set row1 (len - 1) 0;
        s1 \<leftarrow> set_line row2 (len - 1) s;
        redraw_input_line (s1\<lparr>cursor_pos := cursor_pos s1 - 1\<rparr>) })"

definition insert_char_multiline :: "u8 \<Rightarrow> 'a kbd_scheme \<Rightarrow> 'a kbd_scheme option" where
  "insert_char_multiline ascii s = do {
     len \<leftarrow> arr_get (line_lengths s) (cursor_line s);
     if len \<ge> LINE_LENGTH - 1 then Some s
     else do {
       row \<leftarrow> arr_get (input_lines s) (cursor_line s);
       row1 \<leftarrow> shift_right len (cursor_pos s) row;
       row2 \<leftarrow> arr_set row1 (cursor_pos s) ascii;
       s1 \<leftarrow> set_line row2 (len + 1) s;
       redraw_input_line (s1\<lparr>cursor_pos := cursor_pos s1 + 1\<rparr>) } }"

section \<open>The interrupt handler\<close>

text \<open>The switch after an \<open>0xE0\<close> prefix; the prefix flag is already cleared.\<close>

definition handle_extended :: "u8 \<Rightarrow> 'a kbd_scheme \<Rightarrow> 'a kbd_scheme option" where
  "handle_extended scancode s =
     (if scancode = KEY_ALTGR then Some (s\<lparr>altgr_pressed := 1\<rparr>)
      else if scancode = 0xB8 then Some (s\<lparr>altgr_pressed := 0\<rparr>)
      else if scancode = KEY_UP then Some (snd (keyboard_buffer_push 0x01 s))
      else if scancode = KEY_DOWN then Some (snd (keyboard_buffer_push 0x02 s))
      else if scancode = KEY_LEFT then Some (snd (keyboard_buffer_push 0x03 s))
      else if scancode = KEY_RIGHT then Some (snd (keyboard_buffer_push 0x04 s))
      else if scancode = KEY_DELETE then handle_delete_key s
      else Some s)"

text \<open>The part after the modifiers: look the key up, translate it, push it.\<close>

definition handle_key :: "u8 \<Rightarrow> 'a kbd_scheme \<Rightarrow> 'a kbd_scheme" where
  "handle_key scancode s =
     (case find (\<lambda>k. km_scancode k = scancode) keymap of
        None \<Rightarrow> s
      | Some mapping \<Rightarrow>
          if km_is_dead_key mapping then
            (if altgr_pressed s \<noteq> 0 \<and> km_altgr mapping \<noteq> 0
             then snd (keyboard_buffer_push (km_altgr mapping) s)
             else (let new_dead = get_dead_key_type scancode s;
                       s1 = (if dead_key_state s \<noteq> DEAD_NONE
                             then output_dead_key_symbol (dead_key_state s) s else s)
                   in s1\<lparr>dead_key_state := new_dead\<rparr>))
          else
            (let ascii0 = (if altgr_pressed s \<noteq> 0 \<and> km_altgr mapping \<noteq> 0 then km_altgr mapping
                           else if shift_pressed s \<noteq> 0 \<and> km_shift mapping \<noteq> 0 then km_shift mapping
                           else km_normal mapping)
             in if ascii0 = 0 then s
                else (let ascii = (if shift_pressed s = 0 \<and> altgr_pressed s = 0
                                   then apply_caps_lock ascii0 s else ascii0)
                      in if dead_key_state s \<noteq> DEAD_NONE then
                           (let composed = find_dead_key_composition (dead_key_state s) ascii;
                                s1 = (if composed \<noteq> 0 then snd (keyboard_buffer_push composed s)
                                      else snd (keyboard_buffer_push ascii
                                             (output_dead_key_symbol (dead_key_state s) s)))
                            in s1\<lparr>dead_key_state := DEAD_NONE\<rparr>)
                         else snd (keyboard_buffer_push ascii s))))"

definition keyboard_handler :: "u8 \<Rightarrow> 'a kbd_scheme \<Rightarrow> 'a kbd_scheme option" where
  "keyboard_handler scancode s =
     (if scancode = 0xE0 then Some (s\<lparr>extended_key := 1\<rparr>)
      else if extended_key s \<noteq> 0 then handle_extended scancode (s\<lparr>extended_key := 0\<rparr>)
      else if scancode AND KEY_RELEASE \<noteq> 0 then
        (let key = scancode AND NOT KEY_RELEASE
         in if key = KEY_SHIFT \<or> key = KEY_RSHIFT then Some (s\<lparr>shift_pressed := 0\<rparr>)
            else if key = KEY_ALT then Some (s\<lparr>altgr_pressed := 0\<rparr>)
            else Some s)
      else if scancode = KEY_SHIFT \<or> scancode = KEY_RSHIFT then Some (s\<lparr>shift_pressed := 1\<rparr>)
      else if scancode = KEY_ALT then Some s
      else if scancode = KEY_CAPS then Some (s\<lparr>caps_lock := (if caps_lock s = 0 then 1 else 0)\<rparr>)
      else Some (handle_key scancode s))"

section \<open>The rest of the driver's interface\<close>

definition keyboard_reset_dead_state :: "'a kbd_scheme \<Rightarrow> 'a kbd_scheme" where
  "keyboard_reset_dead_state s = s\<lparr>dead_key_state := DEAD_NONE\<rparr>"

definition keyboard_clear_buffer :: "'a kbd_scheme \<Rightarrow> 'a kbd_scheme" where
  "keyboard_clear_buffer s = s\<lparr>kb_head := 0, kb_tail := 0, dead_key_state := DEAD_NONE\<rparr>"

definition keyboard_is_caps_lock_on :: "'a kbd_scheme \<Rightarrow> int" where
  "keyboard_is_caps_lock_on s = caps_lock s"

definition keyboard_set_caps_lock :: "int \<Rightarrow> 'a kbd_scheme \<Rightarrow> 'a kbd_scheme" where
  "keyboard_set_caps_lock state s = s\<lparr>caps_lock := state\<rparr>"

definition keyboard_set_shell_mode :: "bool \<Rightarrow> 'a kbd_scheme \<Rightarrow> 'a kbd_scheme" where
  "keyboard_set_shell_mode enabled s = s\<lparr>shell_mode := enabled\<rparr>"

text \<open>
  The consumer loop outside shell mode.  Each pass takes one character out of the ring, so the
  number of characters in it bounds the passes; the fuel is that number and the loop stops on
  the empty ring.
\<close>

fun process_loop :: "nat \<Rightarrow> 'a kbd_scheme \<Rightarrow> 'a kbd_scheme option" where
  "process_loop 0 s = Some s"
| "process_loop (Suc fuel) s =
     (case keyboard_buffer_pop s of
        (None, s1) \<Rightarrow> Some s1
      | (Some c, s1) \<Rightarrow> do {
          s2 \<leftarrow> (if c = 8 then backspace_multiline s1
                else if c = 10 then handle_enter_multiline s1
                else insert_char_multiline c s1);
          process_loop fuel s2 })"

definition kb_count :: "'a kbd_scheme \<Rightarrow> nat" where
  "kb_count s = (kb_head s + KEYBOARD_BUFFER_SIZE - kb_tail s) mod KEYBOARD_BUFFER_SIZE"

definition keyboard_process_buffer :: "'a kbd_scheme \<Rightarrow> 'a kbd_scheme option" where
  "keyboard_process_buffer s = (if shell_mode s then Some s else process_loop (kb_count s) s)"

definition keyboard_scancode_to_ascii :: "u8 \<Rightarrow> 'a kbd_scheme \<Rightarrow> u8" where
  "keyboard_scancode_to_ascii scancode s =
     (if scancode \<ge> 0x80 then 0
      else (case find (\<lambda>k. km_scancode k = scancode) keymap of
              Some k \<Rightarrow> (if shift_pressed s = 0 \<and> altgr_pressed s = 0
                         then apply_caps_lock (km_normal k) s else km_normal k)
            | None \<Rightarrow> (if scancode = 0x01 then 27 else 0)))"

section \<open>The ring as a bounded queue\<close>

text \<open>Taking elements out until the queue is empty, at most \<open>n\<close> of them.\<close>

fun drain :: "('q \<Rightarrow> 'a option \<times> 'q) \<Rightarrow> nat \<Rightarrow> 'q \<Rightarrow> 'a list \<times> 'q" where
  "drain pop 0 q = ([], q)"
| "drain pop (Suc n) q =
     (case pop q of (None, q') \<Rightarrow> ([], q')
      | (Some x, q') \<Rightarrow> (case drain pop n q' of (xs, q'') \<Rightarrow> (x # xs, q'')))"

locale bounded_queue =
  fixes inv :: "'q \<Rightarrow> bool"
    and items :: "'q \<Rightarrow> 'a list"
    and cap :: nat
    and push :: "'a \<Rightarrow> 'q \<Rightarrow> bool \<times> 'q"
    and pop :: "'q \<Rightarrow> 'a option \<times> 'q"
  assumes items_le: "inv q \<Longrightarrow> length (items q) \<le> cap"
    and push_room: "inv q \<Longrightarrow> length (items q) < cap \<Longrightarrow>
      \<exists>q'. push c q = (True, q') \<and> inv q' \<and> items q' = items q @ [c]"
    and push_full: "inv q \<Longrightarrow> length (items q) = cap \<Longrightarrow> push c q = (False, q)"
    and pop_Cons: "inv q \<Longrightarrow> items q = x # xs \<Longrightarrow> \<exists>q'. pop q = (Some x, q') \<and> inv q' \<and> items q' = xs"
    and pop_Nil: "inv q \<Longrightarrow> items q = [] \<Longrightarrow> pop q = (None, q)"
begin

lemma push_take: "inv q \<Longrightarrow> inv (snd (push c q)) \<and> items (snd (push c q)) = take cap (items q @ [c])"
  using items_le [of q] push_room [of q c] push_full [of q c]
  by (cases "length (items q) < cap") auto

lemma push_inv: "inv q \<Longrightarrow> inv (snd (push c q))"
  using push_take by blast

lemma push_all_take:
  "inv q \<Longrightarrow> inv (fold (\<lambda>c q. snd (push c q)) cs q) \<and>
    items (fold (\<lambda>c q. snd (push c q)) cs q) = take cap (items q @ cs)"
proof (induction cs arbitrary: q)
  case Nil
  then show ?case using items_le by simp
next
  case (Cons c cs)
  from push_take [OF Cons.prems, of c] Cons.IH [of "snd (push c q)"]
  have "inv (fold (\<lambda>c q. snd (push c q)) (c # cs) q)"
    "items (fold (\<lambda>c q. snd (push c q)) (c # cs) q) = take cap (take cap (items q @ [c]) @ cs)"
    by auto
  moreover have "take cap (take cap (items q @ [c]) @ cs) = take cap (items q @ c # cs)"
    using items_le [OF Cons.prems] by (cases "length (items q) = cap") auto
  ultimately show ?case by simp
qed

lemma drain_all:
  "inv q \<Longrightarrow> length (items q) \<le> n \<Longrightarrow>
    \<exists>q'. drain pop n q = (items q, q') \<and> inv q' \<and> items q' = []"
proof (induction n arbitrary: q)
  case 0
  then show ?case by simp
next
  case (Suc n)
  show ?case
  proof (cases "items q")
    case Nil
    with Suc.prems pop_Nil [of q] show ?thesis by simp
  next
    case (Cons x xs)
    with pop_Cons [OF Suc.prems(1)] obtain q1 where q1: "pop q = (Some x, q1)" "inv q1" "items q1 = xs"
      by blast
    with Suc Cons obtain q2 where "drain pop n q1 = (xs, q2)" "inv q2" "items q2 = []" by fastforce
    with q1 Cons show ?thesis by simp
  qed
qed

lemma fifo:
  assumes "inv q"
  shows "fst (drain pop cap (fold (\<lambda>c q. snd (push c q)) cs q)) = take cap (items q @ cs)"
proof -
  from push_all_take [OF assms, of cs] have
    "inv (fold (\<lambda>c q. snd (push c q)) cs q)"
    "items (fold (\<lambda>c q. snd (push c q)) cs q) = take cap (items q @ cs)" by auto
  with drain_all [of _ cap] show ?thesis by fastforce
qed

end

definition ring_ok :: "'a kbd_scheme \<Rightarrow> bool" where
  "ring_ok s \<longleftrightarrow> length (key_buffer s) = 256 \<and> kb_head s < 256 \<and> kb_tail s < 256"

definition ring_items :: "'a kbd_scheme \<Rightarrow> u8 list" where
  "ring_items s = map (\<lambda>i. key_buffer s ! ((kb_tail s + i) mod 256)) [0..<kb_count s]"

lemma kb_count_eq:
  "ring_ok s \<Longrightarrow> kb_count s = (if kb_tail s \<le> kb_head s then kb_head s - kb_tail s
     else kb_head s + 256 - kb_tail s)"
  by (auto simp: kb_count_def KEYBOARD_BUFFER_SIZE_def ring_ok_def mod_if)

lemma ring_head: "ring_ok s \<Longrightarrow> (kb_tail s + kb_count s) mod 256 = kb_head s"
  by (auto simp: kb_count_eq ring_ok_def)

lemma ring_index_ne:
  assumes "ring_ok s" "i < kb_count s"
  shows "(kb_tail s + i) mod 256 \<noteq> kb_head s"
proof -
  have "kb_count s < 256" by (simp add: kb_count_def KEYBOARD_BUFFER_SIZE_def)
  with assms have "(kb_tail s + i) mod 256 \<noteq> (kb_tail s + kb_count s) mod 256"
    by (auto simp: mod_if ring_ok_def split: if_splits)
  with ring_head [OF assms(1)] show ?thesis by simp
qed

lemma ring_push_ok:
  assumes "ring_ok s" "kb_count s < 255"
  shows "keyboard_buffer_push c s =
      (True, s\<lparr>key_buffer := (key_buffer s)[kb_head s := c], kb_head := (kb_head s + 1) mod 256\<rparr>)"
    "ring_ok (snd (keyboard_buffer_push c s))"
    "kb_count (snd (keyboard_buffer_push c s)) = Suc (kb_count s)"
    "ring_items (snd (keyboard_buffer_push c s)) = ring_items s @ [c]"
proof -
  have ne: "(kb_head s + 1) mod 256 \<noteq> kb_tail s"
    using assms by (auto simp: kb_count_eq ring_ok_def mod_if split: if_splits)
  let ?s = "s\<lparr>key_buffer := (key_buffer s)[kb_head s := c], kb_head := (kb_head s + 1) mod 256\<rparr>"
  show push: "keyboard_buffer_push c s = (True, ?s)"
    using ne by (simp add: keyboard_buffer_push_def Let_def KEYBOARD_BUFFER_SIZE_def)
  have ok: "ring_ok ?s" using assms(1) by (simp add: ring_ok_def)
  then show "ring_ok (snd (keyboard_buffer_push c s))" by (simp add: push)
  have cnt: "kb_count ?s = Suc (kb_count s)"
    using assms ne ok by (auto simp: kb_count_eq ring_ok_def mod_if split: if_splits)
  then show "kb_count (snd (keyboard_buffer_push c s)) = Suc (kb_count s)" by (simp add: push)
  have "map (\<lambda>i. (key_buffer s)[kb_head s := c] ! ((kb_tail s + i) mod 256)) [0..<kb_count s] = ring_items s"
    using ring_index_ne [OF assms(1), THEN not_sym] by (auto simp: ring_items_def)
  then have "ring_items ?s = ring_items s @ [c]"
    using assms(1) ring_head [OF assms(1)] cnt
    by (simp add: ring_items_def ring_ok_def)
  then show "ring_items (snd (keyboard_buffer_push c s)) = ring_items s @ [c]" by (simp add: push)
qed

lemma ring_push_full:
  "ring_ok s \<Longrightarrow> kb_count s = 255 \<Longrightarrow> keyboard_buffer_push c s = (False, s)"
  by (auto simp: keyboard_buffer_push_def Let_def KEYBOARD_BUFFER_SIZE_def kb_count_eq ring_ok_def
      mod_if split: if_splits)

lemma ring_pop_ok:
  assumes "ring_ok s" "ring_items s = x # xs"
  shows "\<exists>s'. keyboard_buffer_pop s = (Some x, s') \<and> ring_ok s' \<and> ring_items s' = xs"
proof -
  let ?s = "s\<lparr>kb_tail := (kb_tail s + 1) mod 256\<rparr>"
  have pos: "0 < kb_count s" using assms(2) by (auto simp: ring_items_def intro: gr0I)
  then have ne: "kb_head s \<noteq> kb_tail s" using assms(1) by (auto simp: kb_count_eq)
  have ok: "ring_ok ?s" using assms(1) by (simp add: ring_ok_def)
  then have cnt: "kb_count s = Suc (kb_count ?s)"
    using assms(1) ne by (auto simp: kb_count_eq ring_ok_def mod_if split: if_splits)
  have "[0..<kb_count s] = 0 # map Suc [0..<kb_count ?s]"
    by (simp add: cnt upt_conv_Cons map_Suc_upt del: upt_Suc)
  then have "ring_items s = key_buffer s ! kb_tail s # ring_items ?s"
    using assms(1) by (simp add: ring_items_def ring_ok_def mod_simps o_def)
  with assms(2) ne ok show ?thesis
    by (auto simp: keyboard_buffer_pop_def KEYBOARD_BUFFER_SIZE_def)
qed

lemma length_ring_items [simp]: "length (ring_items s) = kb_count s"
  by (simp add: ring_items_def)

lemma kb_count_le: "kb_count s \<le> 255"
  using mod_less_divisor [of 256 "kb_head s + 256 - kb_tail s"]
  by (simp add: kb_count_def KEYBOARD_BUFFER_SIZE_def)

interpretation ring: bounded_queue ring_ok ring_items 255 keyboard_buffer_push keyboard_buffer_pop
proof unfold_locales
  fix s :: "'a kbd_scheme" and c
  assume ok: "ring_ok s"
  show "length (ring_items s) \<le> 255" by (simp add: kb_count_le)
  show "length (ring_items s) < 255 \<Longrightarrow>
      \<exists>q'. keyboard_buffer_push c s = (True, q') \<and> ring_ok q' \<and> ring_items q' = ring_items s @ [c]"
    using ring_push_ok [OF ok, of c] by simp
  show "length (ring_items s) = 255 \<Longrightarrow> keyboard_buffer_push c s = (False, s)"
    using ring_push_full [OF ok] by simp
  show "ring_items s = x # xs \<Longrightarrow>
      \<exists>q'. keyboard_buffer_pop s = (Some x, q') \<and> ring_ok q' \<and> ring_items q' = xs" for x xs
    using ring_pop_ok [OF ok] by blast
  show "ring_items s = [] \<Longrightarrow> keyboard_buffer_pop s = (None, s)"
    using ok length_ring_items [of s]
    by (auto simp: keyboard_buffer_pop_def kb_count_eq ring_ok_def split: if_splits)
qed

section \<open>The multi-line input as a line editor\<close>

text \<open>
  \<open>kbd_arrays\<close> is what the interrupt handler needs: the arrays have their declared sizes, every
  length fits its row and the cursor variables are in range.  \<open>edit_inv\<close> adds that the cursor
  is inside the text, which holds while the driver edits (the shell's prompt breaks it when it
  places the cursor past an empty line).
\<close>

definition kbd_arrays :: "'a kbd_scheme \<Rightarrow> bool" where
  "kbd_arrays s \<longleftrightarrow>
     length (input_lines s) = 25 \<and> (\<forall>row \<in> set (input_lines s). length row = 80) \<and>
     length (line_lengths s) = 25 \<and> (\<forall>n \<in> set (line_lengths s). 0 \<le> n \<and> n < 80) \<and>
     0 \<le> cursor_line s \<and> cursor_line s < 25 \<and> 0 \<le> cursor_pos s"

definition kb_len :: "'a kbd_scheme \<Rightarrow> int" where
  "kb_len s = line_lengths s ! nat (cursor_line s)"

definition kb_row :: "'a kbd_scheme \<Rightarrow> u8 list" where
  "kb_row s = input_lines s ! nat (cursor_line s)"

definition edit_inv :: "'a kbd_scheme \<Rightarrow> bool" where
  "edit_inv s \<longleftrightarrow> kbd_arrays s \<and> cursor_pos s \<le> kb_len s"

definition kb_line :: "'a kbd_scheme \<Rightarrow> u8 list" where
  "kb_line s = take (nat (kb_len s)) (kb_row s)"

definition kb_cursor :: "'a kbd_scheme \<Rightarrow> nat" where
  "kb_cursor s = nat (cursor_pos s)"

text \<open>Every field of the driver lies in the part of the record that the console leaves alone.\<close>

lemma more_fields:
  fixes s s' :: "'a kbd_scheme"
  assumes "vga.more s' = vga.more s"
  shows "input_lines s' = input_lines s" "line_lengths s' = line_lengths s"
    "total_lines_used s' = total_lines_used s" "cursor_line s' = cursor_line s"
    "cursor_pos s' = cursor_pos s" "shift_pressed s' = shift_pressed s"
    "altgr_pressed s' = altgr_pressed s" "caps_lock s' = caps_lock s"
    "extended_key s' = extended_key s" "dead_key_state s' = dead_key_state s"
    "key_buffer s' = key_buffer s" "kb_head s' = kb_head s" "kb_tail s' = kb_tail s"
    "shell_mode s' = shell_mode s" "kbd.more s' = kbd.more s"
  using assms by (cases s; cases s'; simp)+

lemma more_kbd_arrays: "vga.more s' = vga.more s \<Longrightarrow> kbd_arrays s' = kbd_arrays s"
  by (simp add: kbd_arrays_def more_fields [of s' s])

lemma more_edit:
  assumes "vga.more s' = vga.more s"
  shows "edit_inv s' = edit_inv s" "kb_line s' = kb_line s" "kb_cursor s' = kb_cursor s"
    "kb_len s' = kb_len s"
  using assms
  by (simp_all add: edit_inv_def kb_line_def kb_cursor_def kb_len_def kb_row_def
      more_fields [OF assms] more_kbd_arrays [OF assms])

lemma kbd_arrays_current:
  assumes "kbd_arrays s"
  shows "arr_get (line_lengths s) (cursor_line s) = Some (kb_len s)"
    "arr_get (input_lines s) (cursor_line s) = Some (kb_row s)"
    "length (kb_row s) = 80" "0 \<le> kb_len s" "kb_len s < 80"
  using assms by (auto simp: kbd_arrays_def kb_len_def kb_row_def)

lemma redraw_Some:
  assumes "kbd_arrays s"
  shows "\<exists>s'. redraw_input_line s = Some s' \<and> vga.more s' = vga.more s"
proof -
  let ?y = "cursor_line s"
  note cur = kbd_arrays_current [OF assms]
  have "\<exists>t'. redraw_cell ?y (kb_len s) (kb_row s) x t = Some t' \<and> vga.more t' = vga.more s"
    if "x \<in> set [0..LINE_LENGTH - 1]" "vga.more t = vga.more s" for x t
    using that cur(3,5) by (auto simp: redraw_cell_def LINE_LENGTH_def)
  then have "\<exists>s1. foldM (redraw_cell ?y (kb_len s) (kb_row s)) [0..LINE_LENGTH - 1] s = Some s1 \<and>
      vga.more s1 = vga.more s"
    by (intro foldM_inv) auto
  then show ?thesis using cur by (auto simp: redraw_input_line_def Let_def)
qed

lemma set_line_Some:
  assumes "kbd_arrays s" "length row = 80" "0 \<le> len" "len < 80"
  shows "\<exists>s'. set_line row len s = Some s' \<and> kbd_arrays s' \<and> kb_row s' = row \<and> kb_len s' = len \<and>
    cursor_pos s' = cursor_pos s \<and> cursor_line s' = cursor_line s"
  using assms
  by (auto simp: set_line_def kbd_arrays_def kb_row_def kb_len_def dest!: set_update_subset_insert [THEN subsetD])

lemma insert_char_room:
  assumes "edit_inv s" "kb_len s < 79"
  shows "\<exists>s'. insert_char_multiline c s = Some s' \<and> edit_inv s' \<and> kb_cursor s' = Suc (kb_cursor s) \<and>
    kb_line s' = take (kb_cursor s) (kb_line s) @ c # drop (kb_cursor s) (kb_line s)"
proof -
  from assms(1) have arr: "kbd_arrays s" and cp: "0 \<le> cursor_pos s" "cursor_pos s \<le> kb_len s"
    by (auto simp: edit_inv_def kbd_arrays_def)
  note cur = kbd_arrays_current [OF arr]
  define n p where "n = nat (kb_len s)" and "p = kb_cursor s"
  have np: "kb_len s = int n" "cursor_pos s = int p" "p \<le> n" "n < 79"
    using cp cur(4) assms(2) by (auto simp: n_def p_def kb_cursor_def)
  obtain row1 where row1: "shift_right (int n) (int p) (kb_row s) = Some row1" "length row1 = 80"
    "take (Suc n) (row1[p := c]) = take p (kb_row s) @ c # drop p (take n (kb_row s))"
    using insert_text [of p n "kb_row s" c] np cur(3) by auto
  obtain s1 where s1: "set_line (row1[p := c]) (int n + 1) s = Some s1" "kbd_arrays s1"
    "kb_row s1 = row1[p := c]" "kb_len s1 = int n + 1" "cursor_pos s1 = int p" "cursor_line s1 = cursor_line s"
    using set_line_Some [OF arr, of "row1[p := c]" "int n + 1"] row1(2) np by auto
  let ?s2 = "s1\<lparr>cursor_pos := cursor_pos s1 + 1\<rparr>"
  have arr2: "kbd_arrays ?s2" using s1(2) by (simp add: kbd_arrays_def)
  then obtain s3 where s3: "redraw_input_line ?s2 = Some s3" "vga.more s3 = vga.more ?s2"
    using redraw_Some by blast
  have f: "kb_row ?s2 = row1[p := c]" "kb_len ?s2 = int (Suc n)" "kb_cursor ?s2 = Suc p"
    using s1 by (auto simp: kb_row_def kb_len_def kb_cursor_def)
  have "insert_char_multiline c s = Some s3"
    using cur(1,2) np row1 s1(1) s3(1)
    by (simp add: insert_char_multiline_def LINE_LENGTH_def)
  moreover have "edit_inv ?s2" unfolding edit_inv_def f(2) using arr2 s1(5) np by simp
  then have "edit_inv s3" by (simp only: more_edit(1) [OF s3(2)])
  moreover have "kb_cursor s3 = Suc p" by (simp add: more_edit(3) [OF s3(2)] f)
  moreover have "kb_line s3 = take p (kb_line s) @ c # drop p (kb_line s)"
  proof -
    have "kb_line s3 = kb_line ?s2" by (rule more_edit(2) [OF s3(2)])
    also have "\<dots> = take (Suc n) (row1[p := c])" unfolding kb_line_def f by (simp only: nat_int)
    also have "\<dots> = take p (kb_line s) @ c # drop p (kb_line s)"
      using row1(3) np by (simp add: kb_line_def min_def)
    finally show ?thesis .
  qed
  ultimately show ?thesis by (simp add: p_def)
qed

lemma delete_line:
  assumes "kbd_arrays s" "int p < kb_len s" "0 \<le> k"
  shows "\<exists>s'. do { row1 \<leftarrow> shift_left (int p) (kb_len s - 1) (kb_row s);
            row2 \<leftarrow> arr_set row1 (kb_len s - 1) 0;
            s1 \<leftarrow> set_line row2 (kb_len s - 1) s;
            redraw_input_line (s1\<lparr>cursor_pos := k\<rparr>) } = Some s' \<and>
    kbd_arrays s' \<and> kb_len s' = kb_len s - 1 \<and> cursor_pos s' = k \<and>
    kb_line s' = take p (kb_line s) @ drop (Suc p) (kb_line s)"
proof -
  note cur = kbd_arrays_current [OF assms(1)]
  define n where "n = nat (kb_len s)"
  have n: "kb_len s = int n" "p < n" "n \<le> length (kb_row s)" "0 < n" "n < 80"
    using assms(2) cur by (auto simp: n_def)
  from delete_text [OF n(2,3), of 0] obtain row1 where row1:
    "shift_left (int p) (int n - 1) (kb_row s) = Some row1" "length row1 = 80"
    "take (n - 1) (row1[n - 1 := 0]) = take p (kb_row s) @ drop (Suc p) (take n (kb_row s))"
    using cur(3) by auto
  have upd: "arr_set row1 (int n - 1) 0 = Some (row1[n - 1 := 0])"
    using n row1(2) by (simp add: nat_diff_distrib')
  obtain s1 where s1: "set_line (row1[n - 1 := 0]) (int n - 1) s = Some s1" "kbd_arrays s1"
    "kb_row s1 = row1[n - 1 := 0]" "kb_len s1 = int n - 1" "cursor_line s1 = cursor_line s"
    using set_line_Some [OF assms(1), of "row1[n - 1 := 0]" "int n - 1"] row1(2) n by auto
  let ?s2 = "s1\<lparr>cursor_pos := k\<rparr>"
  have arr2: "kbd_arrays ?s2" using s1(2) assms(3) by (simp add: kbd_arrays_def)
  then obtain s3 where s3: "redraw_input_line ?s2 = Some s3" "vga.more s3 = vga.more ?s2"
    using redraw_Some by blast
  have f: "kb_row ?s2 = row1[n - 1 := 0]" "kb_len ?s2 = int n - 1"
    using s1 by (auto simp: kb_row_def kb_len_def)
  have "kb_line s3 = take p (kb_line s) @ drop (Suc p) (kb_line s)"
  proof -
    have "kb_line s3 = kb_line ?s2" by (rule more_edit(2) [OF s3(2)])
    also have "\<dots> = take (n - 1) (row1[n - 1 := 0])" unfolding kb_line_def f by (simp add: nat_diff_distrib')
    also have "\<dots> = take p (kb_line s) @ drop (Suc p) (kb_line s)"
      using row1(3) n by (simp add: kb_line_def min_def)
    finally show ?thesis .
  qed
  moreover have "kbd_arrays s3" using arr2 by (simp add: more_kbd_arrays [OF s3(2)])
  moreover have "kb_len s3 = kb_len s - 1" "cursor_pos s3 = k"
    using f n by (simp_all add: more_edit(4) [OF s3(2)] more_fields [OF s3(2)])
  ultimately show ?thesis using row1(1) upd s1(1) s3(1) n(1) by simp
qed

lemma backspace_pos:
  assumes "edit_inv s" "0 < kb_cursor s"
  shows "\<exists>s'. backspace_multiline s = Some s' \<and> edit_inv s' \<and> kb_cursor s' = kb_cursor s - 1 \<and>
    kb_line s' = take (kb_cursor s - 1) (kb_line s) @ drop (kb_cursor s) (kb_line s)"
proof -
  from assms have arr: "kbd_arrays s" and cp: "0 < cursor_pos s" "cursor_pos s \<le> kb_len s"
    by (auto simp: edit_inv_def kbd_arrays_def kb_cursor_def)
  note cur = kbd_arrays_current [OF arr]
  define p where "p = nat (cursor_pos s - 1)"
  have p: "cursor_pos s - 1 = int p" "int p < kb_len s" "kb_cursor s = Suc p"
    using cp by (auto simp: p_def kb_cursor_def)
  from delete_line [OF arr p(2), of "int p"] obtain s' where s':
    "do { row1 \<leftarrow> shift_left (int p) (kb_len s - 1) (kb_row s);
            row2 \<leftarrow> arr_set row1 (kb_len s - 1) 0;
            s1 \<leftarrow> set_line row2 (kb_len s - 1) s;
            redraw_input_line (s1\<lparr>cursor_pos := int p\<rparr>) } = Some s'"
    "kbd_arrays s'" "kb_len s' = kb_len s - 1" "cursor_pos s' = int p"
    "kb_line s' = take p (kb_line s) @ drop (Suc p) (kb_line s)" by auto
  have sl: "set_line row len s = Some s1 \<Longrightarrow> cursor_pos s1 - 1 = int p" for row len s1
    using p(1) by (auto simp: set_line_def split: Option.bind_splits)
  have "backspace_multiline s = Some s'"
    using cp(1) cur(1,2) s'(1) p(1) sl
    by (auto simp: backspace_multiline_def split: Option.bind_splits)
  moreover have "edit_inv s'" using s'(2-4) p(2) by (simp add: edit_inv_def)
  ultimately show ?thesis using s'(4,5) p(3) by (auto simp: kb_cursor_def)
qed

lemma insert_char_full:
  "edit_inv s \<Longrightarrow> kb_len s = 79 \<Longrightarrow> insert_char_multiline c s = Some s"
  by (simp add: insert_char_multiline_def LINE_LENGTH_def edit_inv_def kbd_arrays_current)

lemma kb_line_length: "kbd_arrays s \<Longrightarrow> int (length (kb_line s)) = kb_len s"
  using kbd_arrays_current(3-5) [of s] by (simp add: kb_line_def)

interpretation multiline: line_editor edit_inv kb_line kb_cursor 79 insert_char_multiline backspace_multiline
proof unfold_locales
  fix s :: "'a kbd_scheme" and c
  assume inv: "edit_inv s"
  then have arr: "kbd_arrays s" by (simp add: edit_inv_def)
  note cur = kbd_arrays_current [OF arr]
  have len: "int (length (kb_line s)) = kb_len s" using arr by (rule kb_line_length)
  show "kb_cursor s \<le> length (kb_line s)"
    using inv len by (auto simp: edit_inv_def kb_cursor_def nat_le_iff)
  show "length (kb_line s) \<le> 79" using len cur(5) by simp
  show "length (kb_line s) < 79 \<Longrightarrow> \<exists>s'. insert_char_multiline c s = Some s' \<and> edit_inv s' \<and>
      kb_cursor s' = Suc (kb_cursor s) \<and>
      kb_line s' = take (kb_cursor s) (kb_line s) @ c # drop (kb_cursor s) (kb_line s)"
    using insert_char_room [OF inv, of c] len by simp
  show "length (kb_line s) = 79 \<Longrightarrow> insert_char_multiline c s = Some s"
    using insert_char_full [OF inv] len by simp
  show "0 < kb_cursor s \<Longrightarrow> \<exists>s'. backspace_multiline s = Some s' \<and> edit_inv s' \<and>
      kb_cursor s' = kb_cursor s - 1 \<and>
      kb_line s' = take (kb_cursor s - 1) (kb_line s) @ drop (kb_cursor s) (kb_line s)"
    by (rule backspace_pos [OF inv])
  show "kb_cursor s = 0 \<Longrightarrow> backspace_multiline s = Some s"
    using inv by (simp add: backspace_multiline_def kb_cursor_def edit_inv_def kbd_arrays_def)
qed

section \<open>Safety of the interrupt handler\<close>

definition kbd_wf :: "'a kbd_scheme \<Rightarrow> bool" where
  "kbd_wf s \<longleftrightarrow> kbd_arrays s \<and> ring_ok s \<and> dead_key_state s = DEAD_NONE"

lemma more_ring: "vga.more s' = vga.more s \<Longrightarrow> ring_ok s' = ring_ok s \<and> ring_items s' = ring_items s"
  by (simp add: ring_ok_def ring_items_def kb_count_def more_fields [of s' s])

lemma push_fields [simp]:
  "kbd_arrays (snd (keyboard_buffer_push c s)) = kbd_arrays s"
  "dead_key_state (snd (keyboard_buffer_push c s)) = dead_key_state s"
  "shell_mode (snd (keyboard_buffer_push c s)) = shell_mode s"
  "kbd.more (snd (keyboard_buffer_push c s)) = kbd.more s"
  by (auto simp: keyboard_buffer_push_def Let_def kbd_arrays_def)

lemma push_wf [wf_intros]: "kbd_wf s \<Longrightarrow> kbd_wf (snd (keyboard_buffer_push c s))"
  using ring.push_inv by (auto simp: kbd_wf_def)

lemma set_line_fields:
  "set_line row len s = Some s' \<Longrightarrow> ring_ok s' = ring_ok s \<and> ring_items s' = ring_items s \<and>
    dead_key_state s' = dead_key_state s \<and> shell_mode s' = shell_mode s \<and> kbd.more s' = kbd.more s"
  by (auto simp: set_line_def ring_ok_def ring_items_def kb_count_def split: Option.bind_splits)

lemma redraw_more:
  assumes "redraw_input_line s = Some s'"
  shows "vga.more s' = vga.more s"
proof -
  from assms obtain len row s1 where
    "foldM (redraw_cell (cursor_line s) len row) [0..LINE_LENGTH - 1] s = Some s1"
    "vga.more s' = vga.more s1"
    by (auto simp: redraw_input_line_def Let_def split: Option.bind_splits)
  moreover from this(1) have "vga.more s1 = vga.more s"
    by (rule foldM_keeps) (auto simp: redraw_cell_def split: Option.bind_splits if_splits)
  ultimately show ?thesis by simp
qed

lemma more_wf: "vga.more s' = vga.more s \<Longrightarrow> kbd_wf s' = kbd_wf s"
  using more_kbd_arrays [of s' s] more_ring [of s' s] more_fields(10) [of s' s]
  by (simp add: kbd_wf_def)

lemma redraw_wf:
  assumes "kbd_wf s"
  shows "\<exists>s'. redraw_input_line s = Some s' \<and> kbd_wf s' \<and> vga.more s' = vga.more s"
proof -
  from assms obtain s' where "redraw_input_line s = Some s'" "vga.more s' = vga.more s"
    using redraw_Some [of s] by (auto simp: kbd_wf_def)
  with assms more_wf show ?thesis by blast
qed

text \<open>The three edits that store a line and redraw it: with the storing step known to keep the
  driver well formed, the whole operation does.\<close>

lemma set_line_wf:
  assumes "kbd_wf s" "length row = 80" "0 \<le> len" "len < 80" "0 \<le> k"
  shows "\<exists>s1 s'. set_line row len s = Some s1 \<and> redraw_input_line (s1\<lparr>cursor_pos := k\<rparr>) = Some s' \<and>
    kbd_wf s' \<and> ring_items s' = ring_items s \<and> cursor_pos s1 = cursor_pos s"
proof -
  from assms have arr: "kbd_arrays s" by (simp add: kbd_wf_def)
  from set_line_Some [OF this assms(2-4)] obtain s1 where s1: "set_line row len s = Some s1"
    "kbd_arrays s1" "cursor_pos s1 = cursor_pos s" by blast
  let ?s2 = "s1\<lparr>cursor_pos := k\<rparr>"
  have "kbd_wf ?s2" "ring_items ?s2 = ring_items s"
    using assms(1,5) s1(2) set_line_fields [OF s1(1)]
    by (auto simp: kbd_wf_def kbd_arrays_def ring_ok_def ring_items_def kb_count_def)
  with redraw_wf [of ?s2] s1 show ?thesis by (metis more_ring)
qed

lemma handle_delete_key_wf:
  assumes "kbd_wf s"
  shows "\<exists>s'. handle_delete_key s = Some s' \<and> kbd_wf s' \<and> ring_items s' = ring_items s"
proof (cases "cursor_pos s \<ge> kb_len s")
  case True
  then show ?thesis
    using assms kbd_arrays_current [of s] by (auto simp: handle_delete_key_def kbd_wf_def)
next
  case False
  from assms have arr: "kbd_arrays s" by (simp add: kbd_wf_def)
  note cur = kbd_arrays_current [OF arr]
  obtain p n where p: "cursor_pos s = int p" "kb_len s = int n" "p < n" "n < 80"
    using False arr cur by (metis kbd_arrays_def nonneg_int_cases not_less of_nat_less_iff of_nat_numeral)
  from delete_text [OF p(3), of "kb_row s" 0] obtain row1 where row1:
    "shift_left (int p) (int n - 1) (kb_row s) = Some row1" "length row1 = 80"
    using cur(3) p(4) by auto
  have upd: "arr_set row1 (int n - 1) 0 = Some (row1[n - 1 := 0])"
    using p row1(2) by (simp add: nat_diff_distrib')
  from set_line_wf [OF assms, of "row1[n - 1 := 0]" "int n - 1" "int p"] row1(2) p obtain s1 s' where
    "set_line (row1[n - 1 := 0]) (int n - 1) s = Some s1"
    "redraw_input_line (s1\<lparr>cursor_pos := int p\<rparr>) = Some s'" "kbd_wf s'" "ring_items s' = ring_items s"
    "cursor_pos s1 = int p" by auto
  moreover from this(5) have "s1\<lparr>cursor_pos := int p\<rparr> = s1" by simp
  ultimately show ?thesis
    using cur(1,2) p(1,2,3) row1(1) upd by (simp add: handle_delete_key_def)
qed

text \<open>No entry of the key map is a dead key, so the composition branches are never taken.\<close>

lemma keymap_no_dead: "\<forall>k \<in> set keymap. \<not> km_is_dead_key k"
  by (simp add: keymap_def)

lemma find_keymap_not_dead: "find (\<lambda>k. km_scancode k = sc) keymap = Some k \<Longrightarrow> \<not> km_is_dead_key k"
  using keymap_no_dead by (auto simp: find_Some_iff)

text \<open>What a key that is neither a modifier nor a prefix pushes.\<close>

definition key_char :: "u8 \<Rightarrow> 'a kbd_scheme \<Rightarrow> u8" where
  "key_char scancode s =
     (case find (\<lambda>k. km_scancode k = scancode) keymap of
        None \<Rightarrow> 0
      | Some k \<Rightarrow>
          (let c = (if altgr_pressed s \<noteq> 0 \<and> km_altgr k \<noteq> 0 then km_altgr k
                    else if shift_pressed s \<noteq> 0 \<and> km_shift k \<noteq> 0 then km_shift k else km_normal k)
           in if c \<noteq> 0 \<and> shift_pressed s = 0 \<and> altgr_pressed s = 0 then apply_caps_lock c s else c))"

lemma apply_caps_lock_nonzero:
  assumes "c \<noteq> 0"
  shows "apply_caps_lock c s \<noteq> 0"
proof
  assume z: "apply_caps_lock c s = 0"
  have "\<not> (0x61 \<le>s c \<and> c - 0x61 + 0x41 = 0)"
  proof
    assume a: "0x61 \<le>s c \<and> c - 0x61 + 0x41 = 0"
    then have "c = 0x20" by (simp add: eq_diff_eq [symmetric] diff_add_eq)
    with a show False by simp
  qed
  moreover have "\<not> (0x41 \<le>s c \<and> c - 0x41 + 0x61 = 0)"
  proof
    assume a: "0x41 \<le>s c \<and> c - 0x41 + 0x61 = 0"
    then have "c = - 0x20" by (simp add: eq_neg_iff_add_eq_0 add.commute)
    with a show False by simp
  qed
  ultimately show False using z assms by (auto simp: apply_caps_lock_def split: if_splits)
qed

lemma handle_key_eq:
  assumes "dead_key_state s = DEAD_NONE"
  shows "handle_key scancode s =
    (if key_char scancode s = 0 then s else snd (keyboard_buffer_push (key_char scancode s) s))"
proof (cases "find (\<lambda>k. km_scancode k = scancode) keymap")
  case None
  then show ?thesis by (simp add: handle_key_def key_char_def)
next
  case (Some k)
  then show ?thesis
    using find_keymap_not_dead [OF Some] assms
    by (auto simp: handle_key_def key_char_def Let_def apply_caps_lock_nonzero)
qed

lemma handle_key_wf: "kbd_wf s \<Longrightarrow> kbd_wf (handle_key scancode s)"
  using handle_key_eq [of s scancode] by (auto simp: kbd_wf_def push_wf intro: ring.push_inv)

lemma kbd_wf_fields [simp]:
  "kbd_wf (s\<lparr>extended_key := e\<rparr>) = kbd_wf s"
  "kbd_wf (s\<lparr>shift_pressed := e\<rparr>) = kbd_wf s"
  "kbd_wf (s\<lparr>altgr_pressed := e\<rparr>) = kbd_wf s"
  "kbd_wf (s\<lparr>caps_lock := e\<rparr>) = kbd_wf s"
  by (simp_all add: kbd_wf_def kbd_arrays_def ring_ok_def)

lemma handle_extended_wf: "kbd_wf s \<Longrightarrow> \<exists>s'. handle_extended scancode s = Some s' \<and> kbd_wf s'"
  using handle_delete_key_wf [of s] by (auto simp: handle_extended_def push_wf)

lemma keyboard_handler_wf:
  assumes "kbd_wf s"
  shows "\<exists>s'. keyboard_handler scancode s = Some s' \<and> kbd_wf s'"
proof -
  note ext = handle_extended_wf [of "s\<lparr>extended_key := 0\<rparr>" scancode]
  consider "scancode = 0xE0" | "scancode \<noteq> 0xE0" "extended_key s \<noteq> 0"
    | "scancode \<noteq> 0xE0" "extended_key s = 0" by blast
  then show ?thesis
  proof cases
    case 3
    then have "\<exists>e. keyboard_handler scancode s \<in> {Some s, Some (s\<lparr>shift_pressed := e\<rparr>),
        Some (s\<lparr>altgr_pressed := e\<rparr>), Some (s\<lparr>caps_lock := e\<rparr>), Some (handle_key scancode s)}"
      unfolding keyboard_handler_def Let_def
      by (simp only: if_False not_False_eq_True simp_thms split: if_split) blast
    then show ?thesis using assms handle_key_wf [OF assms, of scancode] by auto
  qed (use assms ext in \<open>simp_all add: keyboard_handler_def\<close>)
qed

lemma keyboard_handler_sequence:
  "kbd_wf s \<Longrightarrow> \<exists>s'. foldM keyboard_handler scancodes s = Some s' \<and> kbd_wf s'"
  by (rule foldM_inv) (use keyboard_handler_wf in blast)+

text \<open>Presses of ordinary keys: each one pushes the character its key gives under the current
  modifiers, and nothing else of the ring changes.\<close>

definition ordinary :: "u8 \<Rightarrow> bool" where
  "ordinary sc \<longleftrightarrow> sc \<noteq> 0xE0 \<and> sc AND KEY_RELEASE = 0 \<and> sc \<noteq> KEY_SHIFT \<and> sc \<noteq> KEY_RSHIFT \<and>
    sc \<noteq> KEY_ALT \<and> sc \<noteq> KEY_CAPS"

lemma handler_ordinary:
  "ordinary sc \<Longrightarrow> extended_key s = 0 \<Longrightarrow> keyboard_handler sc s = Some (handle_key sc s)"
  unfolding keyboard_handler_def ordinary_def Let_def
  by (simp only: if_False not_True_eq_False simp_thms)

lemma key_char_cong:
  "altgr_pressed s' = altgr_pressed s \<Longrightarrow> shift_pressed s' = shift_pressed s \<Longrightarrow>
    caps_lock s' = caps_lock s \<Longrightarrow> key_char sc s' = key_char sc s"
  by (cases "find (\<lambda>k. km_scancode k = sc) keymap") (simp_all add: key_char_def apply_caps_lock_def Let_def)

lemma push_modifiers [simp]:
  "extended_key (snd (keyboard_buffer_push c s)) = extended_key s"
  "altgr_pressed (snd (keyboard_buffer_push c s)) = altgr_pressed s"
  "shift_pressed (snd (keyboard_buffer_push c s)) = shift_pressed s"
  "caps_lock (snd (keyboard_buffer_push c s)) = caps_lock s"
  by (simp_all add: keyboard_buffer_push_def Let_def)

lemma key_char_push [simp]: "key_char sc (snd (keyboard_buffer_push c s)) = key_char sc s"
  by (rule key_char_cong) simp_all

lemma handle_key_ring:
  assumes "kbd_wf s"
  shows "ring_items (handle_key sc s) = take 255 (ring_items s @ filter (\<lambda>c. c \<noteq> 0) [key_char sc s])"
    "extended_key (handle_key sc s) = extended_key s" "key_char sc' (handle_key sc s) = key_char sc' s"
  using assms handle_key_eq [of s sc] ring.push_take [of s "key_char sc s"] kb_count_le [of s]
  by (auto simp: kbd_wf_def)

lemma typing_order:
  "kbd_wf s \<Longrightarrow> extended_key s = 0 \<Longrightarrow> \<forall>sc \<in> set scs. ordinary sc \<Longrightarrow>
    \<exists>s'. foldM keyboard_handler scs s = Some s' \<and> kbd_wf s' \<and>
      ring_items s' = take 255 (ring_items s @ filter (\<lambda>c. c \<noteq> 0) (map (\<lambda>sc. key_char sc s) scs))"
proof (induction scs arbitrary: s)
  case Nil
  then show ?case using kb_count_le [of s] by simp
next
  case (Cons sc scs)
  let ?s1 = "handle_key sc s"
  have h: "keyboard_handler sc s = Some ?s1" using Cons.prems by (simp add: handler_ordinary)
  have "\<exists>s'. foldM keyboard_handler scs ?s1 = Some s' \<and> kbd_wf s' \<and>
      ring_items s' = take 255 (ring_items ?s1 @ filter (\<lambda>c. c \<noteq> 0) (map (\<lambda>sc. key_char sc ?s1) scs))"
    using Cons.prems handle_key_ring(2) [OF Cons.prems(1), of sc] by (intro Cons.IH) (auto simp: handle_key_wf)
  then obtain s' where s': "foldM keyboard_handler scs ?s1 = Some s'" "kbd_wf s'"
    "ring_items s' = take 255 (ring_items ?s1 @ filter (\<lambda>c. c \<noteq> 0) (map (\<lambda>sc. key_char sc ?s1) scs))"
    by blast
  have tt: "take 255 (take 255 xs @ ys) = take 255 (xs @ ys)" for xs ys :: "u8 list"
    by (cases "length xs \<le> 255") (auto simp: min_def)
  have keys: "map (\<lambda>sc. key_char sc ?s1) scs = map (\<lambda>sc. key_char sc s) scs"
    using handle_key_ring(3) [OF Cons.prems(1), of _ sc] by simp
  have "ring_items s' = take 255 (ring_items s @ filter (\<lambda>c. c \<noteq> 0) [key_char sc s] @
      filter (\<lambda>c. c \<noteq> 0) (map (\<lambda>sc. key_char sc s) scs))"
    unfolding s'(3) handle_key_ring(1) [OF Cons.prems(1)] keys tt append_assoc ..
  also have "filter (\<lambda>c. c \<noteq> 0) [key_char sc s] @ filter (\<lambda>c. c \<noteq> 0) (map (\<lambda>sc. key_char sc s) scs) =
      filter (\<lambda>c. c \<noteq> 0) (map (\<lambda>sc. key_char sc s) (sc # scs))"
    by simp
  finally have "ring_items s' = take 255 (ring_items s @
      filter (\<lambda>c. c \<noteq> 0) (map (\<lambda>sc. key_char sc s) (sc # scs)))" .
  with h s'(1,2) show ?case by (metis (no_types, lifting) bind.bind_lunit foldM.simps(2))
qed

section \<open>The consumer loop\<close>

text \<open>The edits of the multi-line input leave the ring and the shell's state alone.\<close>

definition ring_view :: "'a kbd_scheme \<Rightarrow> u8 list \<times> nat \<times> nat \<times> u8 \<times> bool \<times> 'a" where
  "ring_view s = (key_buffer s, kb_head s, kb_tail s, dead_key_state s, shell_mode s, kbd.more s)"

lemma ring_view_ring:
  "ring_view s' = ring_view s \<Longrightarrow> ring_ok s' = ring_ok s \<and> ring_items s' = ring_items s \<and>
    dead_key_state s' = dead_key_state s \<and> keyboard_buffer_empty s' = keyboard_buffer_empty s"
  by (simp add: ring_view_def ring_ok_def ring_items_def kb_count_def keyboard_buffer_empty_def)

lemma redraw_view [simp]: "redraw_input_line s = Some s' \<Longrightarrow> ring_view s' = ring_view s"
  by (simp add: ring_view_def more_fields [OF redraw_more])

lemma set_line_view [simp]: "set_line row len s = Some s' \<Longrightarrow> ring_view s' = ring_view s"
  by (auto simp: set_line_def ring_view_def split: Option.bind_splits)

lemma ring_view_fields [simp]:
  "ring_view (s\<lparr>cursor_pos := p\<rparr>) = ring_view s"
  "ring_view (s\<lparr>cursor_line := l\<rparr>) = ring_view s"
  "ring_view (s\<lparr>total_lines_used := l\<rparr>) = ring_view s"
  by (simp_all add: ring_view_def)

lemma backspace_view: "backspace_multiline s = Some s' \<Longrightarrow> ring_view s' = ring_view s"
  by (auto simp: backspace_multiline_def split: Option.bind_splits if_splits dest!: redraw_view set_line_view)

lemma insert_view: "insert_char_multiline c s = Some s' \<Longrightarrow> ring_view s' = ring_view s"
  by (auto simp: insert_char_multiline_def split: Option.bind_splits if_splits dest!: redraw_view set_line_view)

lemma enter_view: "handle_enter_multiline s = Some s' \<Longrightarrow> ring_view s' = ring_view s"
  by (auto simp: handle_enter_multiline_def Let_def split: Option.bind_splits if_splits
      dest!: redraw_view set_line_view)

lemma enter_inv:
  assumes "edit_inv s"
  shows "\<exists>s'. handle_enter_multiline s = Some s' \<and> edit_inv s'"
proof -
  from assms have arr: "kbd_arrays s" by (simp add: edit_inv_def)
  have "\<exists>s1. (if cursor_line s < MAX_LINES - 1 then
          (let s0 = s\<lparr>cursor_line := cursor_line s + 1\<rparr>
           in if cursor_line s0 \<ge> total_lines_used s0
              then set_line (replicate (nat LINE_LENGTH) 0) 0 (s0\<lparr>total_lines_used := cursor_line s0 + 1\<rparr>)
              else Some s0)
        else Some s) = Some s1 \<and> kbd_arrays s1" (is "\<exists>s1. ?step = Some s1 \<and> _")
  proof (cases "cursor_line s < MAX_LINES - 1")
    case False
    then show ?thesis using arr by simp
  next
    case True
    let ?s0 = "s\<lparr>cursor_line := cursor_line s + 1\<rparr>"
    let ?t = "?s0\<lparr>total_lines_used := cursor_line ?s0 + 1\<rparr>"
    have "kbd_arrays ?s0" "kbd_arrays ?t"
      using arr True by (simp_all add: kbd_arrays_def MAX_LINES_def)
    with set_line_Some [OF this(2), of "replicate (nat LINE_LENGTH) 0" 0] True show ?thesis
      by (auto simp: Let_def LINE_LENGTH_def)
  qed
  then obtain s1 where s1: "?step = Some s1" "kbd_arrays s1" by blast
  let ?s2 = "s1\<lparr>cursor_pos := 0\<rparr>"
  have "kbd_arrays ?s2" using s1(2) by (simp add: kbd_arrays_def)
  moreover from this have "edit_inv ?s2" using kbd_arrays_current(4) [of ?s2] by (simp add: edit_inv_def)
  moreover obtain s3 where "redraw_input_line ?s2 = Some s3" "vga.more s3 = vga.more ?s2"
    using redraw_Some [OF calculation(1)] by blast
  ultimately show ?thesis using s1(1) more_edit(1) [of s3 ?s2]
    unfolding handle_enter_multiline_def by auto
qed

definition consume :: "u8 \<Rightarrow> 'a kbd_scheme \<Rightarrow> 'a kbd_scheme option" where
  "consume c s = (if c = 8 then backspace_multiline s
                  else if c = 10 then handle_enter_multiline s else insert_char_multiline c s)"

lemma consume_inv:
  assumes "edit_inv s"
  shows "\<exists>s'. consume c s = Some s' \<and> edit_inv s' \<and> ring_view s' = ring_view s"
  using multiline.del_inv [OF assms] multiline.ins_inv [OF assms, of c] enter_inv [OF assms]
  by (auto simp: consume_def backspace_view insert_view enter_view)

lemma pop_edit: "keyboard_buffer_pop s = (r, s') \<Longrightarrow> edit_inv s' = edit_inv s"
  by (auto simp: keyboard_buffer_pop_def edit_inv_def kbd_arrays_def kb_len_def split: if_splits)

lemma process_loop_consumes:
  "ring_ok s \<Longrightarrow> edit_inv s \<Longrightarrow> kb_count s \<le> n \<Longrightarrow>
    \<exists>s'. process_loop n s = Some s' \<and> ring_ok s' \<and> edit_inv s' \<and> keyboard_buffer_empty s' \<and>
      ring_items s' = []"
proof (induction n arbitrary: s)
  case 0
  then have "ring_items s = []" by (simp add: ring_items_def)
  with 0 show ?case
    by (auto simp: keyboard_buffer_empty_def kb_count_eq ring_ok_def split: if_splits)
next
  case (Suc n)
  show ?case
  proof (cases "ring_items s")
    case Nil
    with Suc.prems show ?thesis using ring.pop_Nil [OF Suc.prems(1) Nil] length_ring_items [of s]
      by (auto simp: keyboard_buffer_empty_def kb_count_eq ring_ok_def split: if_splits)
  next
    case (Cons x xs)
    from ring.pop_Cons [OF Suc.prems(1) Cons] obtain s1 where s1:
      "keyboard_buffer_pop s = (Some x, s1)" "ring_ok s1" "ring_items s1 = xs" by blast
    from consume_inv [of s1 x] pop_edit [OF s1(1)] Suc.prems(2) obtain s2 where s2:
      "consume x s1 = Some s2" "edit_inv s2" "ring_view s2 = ring_view s1" by blast
    have ok2: "ring_ok s2" "ring_items s2 = xs" using ring_view_ring [OF s2(3)] s1 by auto
    with Suc.prems(3) Cons have "kb_count s2 \<le> n"
      using length_ring_items [of s] length_ring_items [of s2] by simp
    from Suc.IH [OF ok2(1) s2(2) this] s1(1) s2(1) show ?thesis
      by (simp add: consume_def)
  qed
qed

end
