(* ===== verification/Heap.thy ===== *)
theory Heap
  imports Keyboard CString
begin

text \<open>
  The kernel heap of \<open>src/src/kernel/syscall.c\<close>: 1 MB at \<open>0x400000\<close>, a singly linked chain of
  blocks, each a 12-byte header (\<open>size\<close>, \<open>is_free\<close>, \<open>next\<close>) in front of its payload, first-fit
  allocation with splitting, and a coalescing pass after every release.  The headers live in the
  modelled address space, so the two loops are \<open>partial_function\<close>s over it: a chain that was
  overwritten need not end.

  \<open>chain m a bs\<close> says that memory holds the block list \<open>bs\<close> from address \<open>a\<close>.  On the block
  list allocation and release are the functions \<open>a_malloc\<close> and \<open>a_free\<close>; the refinement lemmas
  show that the C loops terminate on every chain and compute them, touching headers only.  The
  client's view is the locale \<open>allocator\<close>, interpreted on the model at the end.
\<close>

section \<open>Block headers\<close>

definition HEAP_START :: u32 where "HEAP_START = 0x400000"
definition HEAP_SIZE :: u32 where "HEAP_SIZE = 0x100000"
definition BLOCK_SIZE :: u32 where "BLOCK_SIZE = 32"
definition SIZEOF_HEAP_BLOCK :: u32 where "SIZEOF_HEAP_BLOCK = 12"

lemmas heap_consts = HEAP_START_def HEAP_SIZE_def BLOCK_SIZE_def SIZEOF_HEAP_BLOCK_def

definition blk_size :: "mem \<Rightarrow> u32 \<Rightarrow> u32" where "blk_size m p = ld32 m p"
definition blk_is_free :: "mem \<Rightarrow> u32 \<Rightarrow> u32" where "blk_is_free m p = ld32 m (p + 4)"
definition blk_next :: "mem \<Rightarrow> u32 \<Rightarrow> u32" where "blk_next m p = ld32 m (p + 8)"

definition set_size :: "u32 \<Rightarrow> u32 \<Rightarrow> mem \<Rightarrow> mem" where "set_size p v m = st32 m p v"
definition set_is_free :: "u32 \<Rightarrow> u32 \<Rightarrow> mem \<Rightarrow> mem" where "set_is_free p v m = st32 m (p + 4) v"
definition set_next :: "u32 \<Rightarrow> u32 \<Rightarrow> mem \<Rightarrow> mem" where "set_next p v m = st32 m (p + 8) v"

lemmas blk_defs = blk_size_def blk_is_free_def blk_next_def set_size_def set_is_free_def set_next_def

record kheap = kbd +
  mem :: mem
  heap_start :: u32
  heap_initialized :: u32

section \<open>The allocator's code\<close>

definition heap_init :: "'a kheap_scheme \<Rightarrow> 'a kheap_scheme" where
  "heap_init s =
     (if heap_initialized s \<noteq> 0 then s
      else (let m = set_next HEAP_START 0 (set_is_free HEAP_START 1
                      (set_size HEAP_START (HEAP_SIZE - SIZEOF_HEAP_BLOCK) (mem s)))
            in logf ''Syscall'' LVL_INFO ''Heap initialized at 0x%X, size: %d bytes''
                 [VI HEAP_START, VI HEAP_SIZE]
                 (s\<lparr>mem := m, heap_start := HEAP_START, heap_initialized := 1\<rparr>)))"

text \<open>The body of the search loop on the block it found: take it, split it if it is much larger.\<close>

definition malloc_take :: "u32 \<Rightarrow> u32 \<Rightarrow> mem \<Rightarrow> mem" where
  "malloc_take n current m =
     (let m1 = set_is_free current 0 m
      in if blk_size m1 current > n + SIZEOF_HEAP_BLOCK + BLOCK_SIZE then
           (let new_block = current + SIZEOF_HEAP_BLOCK + n;
                m2 = set_size new_block (blk_size m1 current - n - SIZEOF_HEAP_BLOCK) m1;
                m3 = set_is_free new_block 1 m2;
                m4 = set_next new_block (blk_next m3 current) m3;
                m5 = set_next current new_block m4
            in set_size current n m5)
         else m1)"

partial_function (option) malloc_loop :: "u32 \<Rightarrow> mem \<Rightarrow> u32 \<Rightarrow> (u32 \<times> mem) option" where
  "malloc_loop n m current =
     (if current = 0 then Some (0, m)
      else if blk_is_free m current \<noteq> 0 \<and> blk_size m current \<ge> n
      then Some (current + SIZEOF_HEAP_BLOCK, malloc_take n current m)
      else malloc_loop n m (blk_next m current))"

definition align_block :: "u32 \<Rightarrow> u32" where
  "align_block n = (n + BLOCK_SIZE - 1) AND NOT (BLOCK_SIZE - 1)"

definition sys_handler_malloc :: "u32 \<Rightarrow> 'a kheap_scheme \<Rightarrow> (u32 \<times> 'a kheap_scheme) option" where
  "sys_handler_malloc n s =
     (let s1 = (if heap_initialized s = 0 then heap_init s else s)
      in if n = 0 then Some (0, s1)
         else do {
           (p, m) \<leftarrow> malloc_loop (align_block n) (mem s1) (heap_start s1);
           Some (p, s1\<lparr>mem := m\<rparr>) })"

partial_function (option) coalesce_loop :: "mem \<Rightarrow> u32 \<Rightarrow> mem option" where
  "coalesce_loop m current =
     (if current = 0 \<or> blk_next m current = 0 then Some m
      else if blk_is_free m current \<noteq> 0 \<and> blk_is_free m (blk_next m current) \<noteq> 0 then
        (let m1 = set_size current
                    (blk_size m current + (blk_size m (blk_next m current) + SIZEOF_HEAP_BLOCK)) m;
             m2 = set_next current (blk_next m1 (blk_next m1 current)) m1
         in coalesce_loop m2 current)
      else coalesce_loop m (blk_next m current))"

definition SYSCALL_OK :: s32 where "SYSCALL_OK = 0"
definition SYSCALL_INVALID_PARAMS :: s32 where "SYSCALL_INVALID_PARAMS = - 3"

definition sys_handler_free :: "u32 \<Rightarrow> 'a kheap_scheme \<Rightarrow> (s32 \<times> 'a kheap_scheme) option" where
  "sys_handler_free ptr s =
     (if ptr = 0 \<or> heap_initialized s = 0 then Some (SYSCALL_INVALID_PARAMS, s)
      else do {
        m \<leftarrow> coalesce_loop (set_is_free (ptr - SIZEOF_HEAP_BLOCK) 1 (mem s)) (heap_start s);
        Some (SYSCALL_OK, s\<lparr>mem := m\<rparr>) })"

section \<open>Headers do not overlap\<close>

definition sep :: "u32 \<Rightarrow> u32 \<Rightarrow> bool" where
  "sep p q \<longleftrightarrow> region p 12 \<inter> region q 12 = {}"

lemma sep_sym: "sep p q \<Longrightarrow> sep q p"
  by (auto simp: sep_def)

lemma region_field: "region p 4 \<subseteq> region p 12" "region (p + 4) 4 \<subseteq> region p 12" "region (p + 8) 4 \<subseteq> region p 12"
proof -
  show "region p 4 \<subseteq> region p 12" by (rule region_mono) simp
  have "region (p + of_nat k) 4 \<subseteq> region p 12" if "k + 4 \<le> 12" for k
  proof
    fix b assume "b \<in> region (p + of_nat k) 4"
    then obtain i where "i < 4" "b = p + of_nat (k + i)" by (auto simp: region_def)
    with that show "b \<in> region p 12" by (simp only:) (intro region_mem, simp)
  qed
  from this [of 4] this [of 8] show "region (p + 4) 4 \<subseteq> region p 12" "region (p + 8) 4 \<subseteq> region p 12" by simp_all
qed

lemma field_same [simp]:
  "blk_size (set_size p v m) p = v" "blk_is_free (set_is_free p v m) p = v"
  "blk_next (set_next p v m) p = v"
  by (simp_all add: blk_defs)

lemma fields_disjoint:
  "region p 4 \<inter> region (p + 4) 4 = {}" "region p 4 \<inter> region (p + 8) 4 = {}"
  "region (p + 4) 4 \<inter> region (p + 8) 4 = {}"
  by (auto simp: region_4 add.assoc)

lemma field_distinct [simp]:
  "blk_size (set_is_free p v m) p = blk_size m p" "blk_size (set_next p v m) p = blk_size m p"
  "blk_is_free (set_size p v m) p = blk_is_free m p" "blk_is_free (set_next p v m) p = blk_is_free m p"
  "blk_next (set_size p v m) p = blk_next m p" "blk_next (set_is_free p v m) p = blk_next m p"
  unfolding blk_defs
  by (rule ld32_st32_other, use fields_disjoint [of p] in blast)+

lemma field_other:
  assumes "sep p q"
  shows "blk_size (set_size p v m) q = blk_size m q" "blk_size (set_is_free p v m) q = blk_size m q"
    "blk_size (set_next p v m) q = blk_size m q"
    "blk_is_free (set_size p v m) q = blk_is_free m q" "blk_is_free (set_is_free p v m) q = blk_is_free m q"
    "blk_is_free (set_next p v m) q = blk_is_free m q"
    "blk_next (set_size p v m) q = blk_next m q" "blk_next (set_is_free p v m) q = blk_next m q"
    "blk_next (set_next p v m) q = blk_next m q"
  unfolding blk_defs
  by (rule ld32_st32_other, use assms region_field [of p] region_field [of q] in \<open>simp add: sep_def; blast\<close>)+

lemma set_outside:
  assumes "b \<notin> region p 12"
  shows "set_size p v m b = m b" "set_is_free p v m b = m b" "set_next p v m b = m b"
  unfolding blk_defs
  by (rule st32_outside, use assms region_field [of p] in blast)+

lemma sep_nat: "x + 12 \<le> y \<Longrightarrow> y + 12 \<le> 2 ^ 32 \<Longrightarrow> sep (of_nat x) (of_nat y)"
  unfolding sep_def by (intro region_disjoint_nat) auto

section \<open>The block list in memory\<close>

text \<open>A block is its payload size and whether it is free; blocks are contiguous.\<close>

type_synonym block = "nat \<times> bool"

definition total :: "block list \<Rightarrow> nat" where
  "total bs = sum_list (map (\<lambda>(sz, fr). sz + 12) bs)"

lemma total_simps [simp]: "total [] = 0" "total ((sz, fr) # bs) = sz + 12 + total bs"
  by (simp_all add: total_def)

lemma total_append [simp]: "total (bs @ cs) = total bs + total cs"
  by (simp add: total_def)

definition head_addr :: "nat \<Rightarrow> block list \<Rightarrow> nat" where
  "head_addr a bs = (if bs = [] then 0 else a)"

lemma head_addr_simps [simp]: "head_addr a [] = 0" "head_addr a (b # bs) = a"
  by (simp_all add: head_addr_def)

fun chain :: "mem \<Rightarrow> nat \<Rightarrow> block list \<Rightarrow> bool" where
  "chain m a [] \<longleftrightarrow> True"
| "chain m a ((sz, fr) # bs) \<longleftrightarrow>
     blk_size m (of_nat a) = of_nat sz \<and> (blk_is_free m (of_nat a) \<noteq> 0) = fr \<and>
     blk_next m (of_nat a) = of_nat (head_addr (a + 12 + sz) bs) \<and> chain m (a + 12 + sz) bs"

text \<open>The addresses of the headers, as sets of bytes.\<close>

fun headers :: "nat \<Rightarrow> block list \<Rightarrow> nat set" where
  "headers a [] = {}"
| "headers a ((sz, fr) # bs) = {a..<a + 12} \<union> headers (a + 12 + sz) bs"

lemma headers_range: "headers a bs \<subseteq> {a..<a + total bs}"
  by (induction bs arbitrary: a) (auto, fastforce+)

lemma blk_cong:
  assumes "a + 12 \<le> 2 ^ 32" "\<And>b. a \<le> unat b \<Longrightarrow> unat b < a + 12 \<Longrightarrow> m' b = m b"
  shows "blk_size m' (of_nat a) = blk_size m (of_nat a)"
    "blk_is_free m' (of_nat a) = blk_is_free m (of_nat a)"
    "blk_next m' (of_nat a) = blk_next m (of_nat a)"
proof -
  have in12: "m' b = m b" if "b \<in> region (of_nat a) 12" for b
    using that assms by (simp add: region_of_nat)
  show "blk_size m' (of_nat a) = blk_size m (of_nat a)"
    "blk_is_free m' (of_nat a) = blk_is_free m (of_nat a)"
    "blk_next m' (of_nat a) = blk_next m (of_nat a)"
    unfolding blk_defs by (rule ld32_cong, use region_field [of "of_nat a"] in12 in blast)+
qed

lemma chain_cong:
  assumes "chain m a bs" "a + total bs \<le> 2 ^ 32" "\<And>b. unat b \<in> headers a bs \<Longrightarrow> m' b = m b"
  shows "chain m' a bs"
  using assms
proof (induction bs arbitrary: a)
  case Nil
  then show ?case by simp
next
  case (Cons bk bs)
  obtain sz fr where b: "bk = (sz, fr)" by (cases bk)
  have "chain m' (a + 12 + sz) bs" using Cons.prems b by (intro Cons.IH) auto
  moreover have "a + 12 \<le> 2 ^ 32" "\<And>b. a \<le> unat b \<Longrightarrow> unat b < a + 12 \<Longrightarrow> m' b = m b"
    using Cons.prems b by auto
  note blk_cong [OF this]
  ultimately show ?case using Cons.prems(1) b by simp
qed

text \<open>Memory determines the block list.\<close>

lemma chain_unique:
  "chain m a bs \<Longrightarrow> chain m a cs \<Longrightarrow> (bs = [] \<longleftrightarrow> cs = []) \<Longrightarrow> a + total bs \<le> 2 ^ 32 \<Longrightarrow>
    a + total cs \<le> 2 ^ 32 \<Longrightarrow> bs = cs"
proof (induction bs arbitrary: a cs)
  case Nil
  then show ?case by simp
next
  case (Cons b bs)
  then obtain c cs' where cs: "cs = c # cs'" by (cases cs) auto
  obtain sz fr sz' fr' where p: "b = (sz, fr)" "c = (sz', fr')" by (cases b, cases c)
  have lt: "sz < 2 ^ 32" "sz' < 2 ^ 32" using Cons.prems(4,5) cs p by auto
  have "(of_nat sz :: u32) = of_nat sz'" "fr = fr'" using Cons.prems(1,2) cs p by auto
  with lt have eq: "sz = sz'" "fr = fr'" by (simp_all add: of_nat_u32_eq_iff)
  let ?a = "a + 12 + sz"
  have "(of_nat (head_addr ?a bs) :: u32) = of_nat (head_addr ?a cs')"
    using Cons.prems(1,2) cs p eq by simp
  moreover have "head_addr ?a bs < 2 ^ 32" "head_addr ?a cs' < 2 ^ 32"
    using Cons.prems(4,5) cs p eq by (cases bs; cases cs'; auto)+
  ultimately have "head_addr ?a bs = head_addr ?a cs'" by (simp add: of_nat_u32_eq_iff)
  then have "bs = [] \<longleftrightarrow> cs' = []" by (auto simp: head_addr_def split: if_splits)
  then have "bs = cs'" using Cons cs p eq by (intro Cons.IH [of ?a]) auto
  with cs p eq show ?case by simp
qed

section \<open>Allocation and release on the block list\<close>

fun a_malloc :: "nat \<Rightarrow> nat \<Rightarrow> block list \<Rightarrow> nat \<times> block list" where
  "a_malloc n a [] = (0, [])"
| "a_malloc n a ((sz, fr) # bs) =
     (if fr \<and> n \<le> sz
      then (a + 12, (if sz > n + 44 then (n, False) # (sz - n - 12, True) # bs else (sz, False) # bs))
      else (case a_malloc n (a + 12 + sz) bs of (p, bs') \<Rightarrow> (p, (sz, fr) # bs')))"

fun a_mark :: "nat \<Rightarrow> nat \<Rightarrow> block list \<Rightarrow> block list" where
  "a_mark p a [] = []"
| "a_mark p a ((sz, fr) # bs) = (sz, fr \<or> p = a + 12) # a_mark p (a + 12 + sz) bs"

fun a_merge :: "block list \<Rightarrow> block list" where
  "a_merge ((s1, f1) # (s2, f2) # bs) =
     (if f1 \<and> f2 then a_merge ((s1 + s2 + 12, True) # bs) else (s1, f1) # a_merge ((s2, f2) # bs))"
| "a_merge [b] = [b]"
| "a_merge [] = []"

definition a_free :: "nat \<Rightarrow> nat \<Rightarrow> block list \<Rightarrow> block list" where
  "a_free p a bs = a_merge (a_mark p a bs)"

text \<open>No two neighbours are both free.\<close>

fun coalesced :: "block list \<Rightarrow> bool" where
  "coalesced ((s1, f1) # (s2, f2) # bs) \<longleftrightarrow> \<not> (f1 \<and> f2) \<and> coalesced ((s2, f2) # bs)"
| "coalesced _ \<longleftrightarrow> True"

text \<open>The blocks in use, as pairs of payload address and size.\<close>

fun used :: "nat \<Rightarrow> block list \<Rightarrow> (nat \<times> nat) set" where
  "used a [] = {}"
| "used a ((sz, fr) # bs) = (if fr then {} else {(a + 12, sz)}) \<union> used (a + 12 + sz) bs"

lemma a_malloc_total: "a_malloc n a bs = (p, bs') \<Longrightarrow> total bs' = total bs \<and> (bs' = [] \<longleftrightarrow> bs = [])"
  by (induction bs arbitrary: a p bs') (auto split: prod.splits if_splits)

lemma a_mark_total [simp]: "total (a_mark p a bs) = total bs" "a_mark p a bs = [] \<longleftrightarrow> bs = []"
  by (induction bs arbitrary: a) auto

lemma a_merge_total [simp]: "total (a_merge bs) = total bs" "a_merge bs = [] \<longleftrightarrow> bs = []"
  by (induction bs rule: a_merge.induct) auto

lemma a_merge_Cons_free:
  "\<exists>k f bs'. a_merge ((sz, fr) # bs) = (k, f) # bs' \<and> f = fr"
  by (induction "(sz, fr) # bs" arbitrary: sz fr bs rule: a_merge.induct) auto

lemma coalesced_merge: "coalesced (a_merge bs)"
proof (induction bs rule: a_merge.induct)
  case (1 s1 f1 s2 f2 bs)
  then show ?case using a_merge_Cons_free [of s2 f2 bs] by (cases "f1 \<and> f2") auto
qed simp_all

lemma coalesced_tl: "coalesced (b # bs) \<Longrightarrow> coalesced bs"
  by (cases b; cases bs) (auto)

lemma a_merge_coalesced: "coalesced bs \<Longrightarrow> a_merge bs = bs"
  by (induction bs rule: a_merge.induct) auto

lemma a_malloc_head:
  "a_malloc n a ((sz, fr) # bs) = (p, bs') \<Longrightarrow> \<exists>k f cs. bs' = (k, f) # cs \<and> (f \<longrightarrow> fr)"
  by (auto split: if_splits prod.splits)

lemma a_malloc_coalesced:
  "coalesced bs \<Longrightarrow> a_malloc n a bs = (p, bs') \<Longrightarrow> coalesced bs'"
proof (induction bs arbitrary: a p bs')
  case Nil
  then show ?case by simp
next
  case (Cons b bs)
  obtain sz fr where b: "b = (sz, fr)" by (cases b)
  show ?case
  proof (cases "fr \<and> n \<le> sz")
    case True
    with Cons.prems b show ?thesis by (cases bs) (auto split: if_splits)
  next
    case False
    then obtain cs where cs: "a_malloc n (a + 12 + sz) bs = (p, cs)" "bs' = b # cs"
      using Cons.prems b by (auto split: prod.splits)
    have "coalesced cs" using Cons.IH [OF coalesced_tl [OF Cons.prems(1)] cs(1)] .
    then show ?thesis
    proof (cases bs)
      case Nil
      with cs show ?thesis by simp
    next
      case (Cons d ds)
      obtain s2 f2 where d: "d = (s2, f2)" by (cases d)
      from a_malloc_head [of n "a + 12 + sz" s2 f2 ds p cs] cs(1) Cons d
      obtain k f es where "cs = (k, f) # es" "f \<longrightarrow> f2" by auto
      then show ?thesis using \<open>coalesced cs\<close> cs(2) b Cons d Cons.prems by auto
    qed
  qed
qed

text \<open>Blocks in use: inside the heap, apart from each other, apart from the headers.\<close>

lemma used_range: "(x, k) \<in> used a bs \<Longrightarrow> a + 12 \<le> x \<and> x + k \<le> a + total bs"
  by (induction a bs rule: used.induct) (auto split: if_splits)

lemma used_disjoint:
  "(x, k) \<in> used a bs \<Longrightarrow> (y, l) \<in> used a bs \<Longrightarrow> (x, k) \<noteq> (y, l) \<Longrightarrow> x + k \<le> y \<or> y + l \<le> x"
proof (induction a bs rule: used.induct)
  case (1 a)
  then show ?case by simp
next
  case (2 a sz fr bs)
  then show ?case
    using used_range [of x k "a + 12 + sz" bs] used_range [of y l "a + 12 + sz" bs]
    by (auto split: if_splits)
qed

lemma used_inj: "(x, k) \<in> used a bs \<Longrightarrow> (x, l) \<in> used a bs \<Longrightarrow> k = l"
proof (induction a bs rule: used.induct)
  case (1 a)
  then show ?case by simp
next
  case (2 a sz fr bs)
  then show ?case
    using used_range [of x k "a + 12 + sz" bs] used_range [of x l "a + 12 + sz" bs]
    by (auto split: if_splits)
qed

lemma used_headers:
  "(x, k) \<in> used a bs \<Longrightarrow> x \<le> i \<Longrightarrow> i < x + k \<Longrightarrow> i \<notin> headers a bs"
proof (induction a bs rule: used.induct)
  case (1 a)
  then show ?case by simp
next
  case (2 a sz fr bs)
  then show ?case
    using used_range [of x k "a + 12 + sz" bs] headers_range [of "a + 12 + sz" bs]
    by (auto split: if_splits)
qed

text \<open>Allocation adds one fresh block, or there is no block to give and nothing changes.\<close>

lemma a_malloc_pos: "a_malloc n a bs = (p, bs') \<Longrightarrow> p \<noteq> 0 \<Longrightarrow> a + 12 \<le> p"
proof (induction a bs arbitrary: bs' rule: used.induct)
  case (2 a sz fr bs)
  show ?case
  proof (cases "fr \<and> n \<le> sz")
    case False
    then obtain cs where "a_malloc n (a + 12 + sz) bs = (p, cs)"
      using 2(2) by (auto split: prod.splits)
    with 2(1,3) False show ?thesis by auto
  qed (use 2(2) in simp)
qed simp

lemma a_malloc_used:
  "a_malloc n a bs = (p, bs') \<Longrightarrow> p \<noteq> 0 \<Longrightarrow>
    \<exists>k \<ge> n. used a bs' = insert (p, k) (used a bs) \<and> p \<notin> fst ` used a bs"
proof (induction bs arbitrary: a p bs')
  case Nil
  then show ?case by simp
next
  case (Cons b bs)
  obtain sz fr where b: "b = (sz, fr)" by (cases b)
  show ?case
  proof (cases "fr \<and> n \<le> sz")
    case True
    then have "p = a + 12" using Cons.prems b by simp
    moreover have "p \<notin> fst ` used (a + 12 + sz) bs"
      using calculation used_range [of p _ "a + 12 + sz" bs] by force
    moreover have "\<exists>k\<ge>n. used a bs' = insert (p, k) (used a (b # bs))"
      using True Cons.prems b
      by (cases "sz > n + 44") (auto simp: add_ac intro: exI [of _ n] exI [of _ sz])
    ultimately show ?thesis using b True by auto
  next
    case False
    then obtain cs where cs: "a_malloc n (a + 12 + sz) bs = (p, cs)" "bs' = b # cs"
      using Cons.prems b by (auto split: prod.splits)
    then have "a + 12 + sz + 12 \<le> p" using a_malloc_pos Cons.prems(2) by blast
    with Cons.IH [OF cs(1) Cons.prems(2)] cs(2) b show ?thesis by auto
  qed
qed

lemma a_malloc_fail:
  "a_malloc n a bs = (0, bs') \<Longrightarrow> bs' = bs \<and> (\<forall>(sz, fr) \<in> set bs. fr \<longrightarrow> sz < n)"
proof (induction a bs arbitrary: bs' rule: used.induct)
  case (2 a sz fr bs)
  then have nf: "\<not> (fr \<and> n \<le> sz)" by auto
  then obtain cs where "a_malloc n (a + 12 + sz) bs = (0, cs)" "bs' = (sz, fr) # cs"
    using 2(2) by (auto split: prod.splits)
  with 2(1) nf show ?case by auto
qed simp

lemma used_mark: "used a (a_mark p a bs) = {(x, k) \<in> used a bs. x \<noteq> p}"
  by (induction a bs rule: used.induct) (auto)

lemma used_merge [simp]: "used a (a_merge bs) = used a bs"
proof (induction bs arbitrary: a rule: a_merge.induct)
  case (1 s1 f1 s2 f2 bs)
  then show ?case by (cases "f1 \<and> f2") (auto simp: add.assoc add.commute add.left_commute)
qed simp_all

lemma headers_mark [simp]: "headers a (a_mark p a bs) = headers a bs"
  by (induction a bs rule: used.induct) auto

lemma headers_merge: "headers a (a_merge bs) \<subseteq> headers a bs"
proof (induction bs arbitrary: a rule: a_merge.induct)
  case (1 s1 f1 s2 f2 bs)
  show ?case
  proof (cases "f1 \<and> f2")
    case True
    then show ?thesis using 1(1) [OF True, of a]
      by (auto simp: add.assoc add.commute add.left_commute)
  next
    case False
    then show ?thesis using 1(2) [OF False, of "a + 12 + s1"] by auto
  qed
qed simp_all

text \<open>On a coalesced heap a release undoes the allocation.\<close>

lemma a_merge_keep_head:
  "a_merge X = bs \<Longrightarrow> coalesced (x # bs) \<Longrightarrow> a_merge (x # X) = x # bs"
proof (cases X)
  case Nil
  moreover assume "a_merge X = bs"
  ultimately show ?thesis by simp
next
  case (Cons y Y)
  assume m: "a_merge X = bs" and c: "coalesced (x # bs)"
  obtain s1 f1 s2 f2 where p: "x = (s1, f1)" "y = (s2, f2)" by (cases x, cases y)
  from a_merge_Cons_free [of s2 f2 Y] obtain k cs where "bs = (k, f2) # cs" using m Cons p by auto
  with c p have "\<not> (f1 \<and> f2)" by auto
  then have "a_merge (x # X) = x # a_merge X" using p Cons by auto
  with m show ?thesis by simp
qed

lemma a_mark_out: "p < a + 12 \<Longrightarrow> a_mark p a bs = bs"
  by (induction bs arbitrary: a) auto

lemma a_malloc_free:
  "coalesced bs \<Longrightarrow> a_malloc n a bs = (p, bs') \<Longrightarrow> p \<noteq> 0 \<Longrightarrow> a_free p a bs' = bs"
proof (induction bs arbitrary: a bs')
  case Nil
  then show ?case by simp
next
  case (Cons b bs)
  obtain sz fr where b: "b = (sz, fr)" by (cases b)
  show ?case
  proof (cases "fr \<and> n \<le> sz")
    case True
    then have "p = a + 12" using Cons.prems b by simp
    moreover have "a_merge ((sz, True) # bs) = (sz, True) # bs"
      using a_merge_coalesced [OF Cons.prems(1)] b True by simp
    ultimately show ?thesis
      using True Cons.prems b by (cases "sz > n + 44") (auto simp: a_free_def a_mark_out)
  next
    case False
    then obtain cs where cs: "a_malloc n (a + 12 + sz) bs = (p, cs)" "bs' = b # cs"
      using Cons.prems b by (auto split: prod.splits)
    then have "a + 12 + sz + 12 \<le> p" using a_malloc_pos Cons.prems(3) by blast
    then have "a_free p a bs' = a_merge (b # a_mark p (a + 12 + sz) cs)"
      using cs(2) b by (simp add: a_free_def)
    also have "\<dots> = b # bs"
      using Cons.IH [OF coalesced_tl [OF Cons.prems(1)] cs(1) Cons.prems(3)] Cons.prems(1)
      by (intro a_merge_keep_head) (simp_all add: a_free_def)
    finally show ?thesis .
  qed
qed

section \<open>The C loops compute the block-list functions\<close>

lemma malloc_take_refines:
  assumes "chain m a ((sz, True) # bs)" "n \<le> sz" "a + total ((sz, True) # bs) \<le> 2 ^ 31"
  defines "cs \<equiv> (if sz > n + 44 then (n, False) # (sz - n - 12, True) # bs else (sz, False) # bs)"
  shows "chain (malloc_take (of_nat n) (of_nat a) m) a cs"
    "unat b \<notin> headers a cs \<Longrightarrow> malloc_take (of_nat n) (of_nat a) m b = m b"
proof -
  let ?p = "of_nat a :: u32" and ?q = "of_nat (a + 12 + n) :: u32"
  have bnd: "sz + 12 + a \<le> 2 ^ 31" "n + 44 < 2 ^ 32" "sz < 2 ^ 32" using assms(2,3) by auto
  have q: "?p + SIZEOF_HEAP_BLOCK + of_nat n = ?q" by (simp add: heap_consts add_ac)
  have size0: "blk_size m ?p = of_nat sz" using assms(1) by simp
  then have size1: "blk_size (set_is_free ?p 0 m) ?p = of_nat sz" by simp
  have cond: "(of_nat n :: u32) + SIZEOF_HEAP_BLOCK + BLOCK_SIZE < of_nat sz \<longleftrightarrow> n + 44 < sz"
    using of_nat_u32_less_iff [OF bnd(2,3)] by (simp add: heap_consts add_ac)
  have tail: "chain m (a + 12 + sz) bs" using assms(1) by simp
  have "chain (malloc_take (of_nat n) ?p m) a cs \<and>
    (\<forall>b. unat b \<notin> headers a cs \<longrightarrow> malloc_take (of_nat n) ?p m b = m b)"
  proof (cases "n + 44 < sz")
    case False
    then have eq: "malloc_take (of_nat n) ?p m = set_is_free ?p 0 m"
      using cond size1 by (simp only: malloc_take_def Let_def if_False)
    have out: "set_is_free ?p 0 m b = m b" if "\<not> (a \<le> unat b \<and> unat b < a + 12)" for b
      using that bnd by (intro set_outside) (simp add: region_of_nat)
    have "chain (set_is_free ?p 0 m) (a + 12 + sz) bs"
      by (rule chain_cong [OF tail]) (use assms(3) headers_range [of "a + 12 + sz" bs] out in force)+
    with assms(1) have "chain (set_is_free ?p 0 m) a cs" using False by (simp add: cs_def)
    moreover have "set_is_free ?p 0 m b = m b" if "unat b \<notin> headers a cs" for b
      using that False by (intro out) (auto simp: cs_def)
    ultimately show ?thesis by (simp add: eq)
  next
    case True
    have sp: "sep ?p ?q" using bnd assms(2) True by (intro sep_nat) auto
    note other = field_other [OF sp] field_other [OF sep_sym [OF sp]]
    have diff: "of_nat sz - of_nat n - SIZEOF_HEAP_BLOCK = (of_nat (sz - n - 12) :: u32)"
      using True by (simp add: heap_consts of_nat_diff)
    define m' where "m' = malloc_take (of_nat n) ?p m"
    have m': "m' = set_size ?p (of_nat n) (set_next ?p ?q (set_next ?q (blk_next m ?p)
      (set_is_free ?q 1 (set_size ?q (of_nat (sz - n - 12)) (set_is_free ?p 0 m)))))"
      using True cond
      by (simp add: m'_def malloc_take_def Let_def size0 q diff other del: of_nat_add of_nat_diff)
    have out: "m' b = m b" if "\<not> (a \<le> unat b \<and> unat b < a + 12)"
        "\<not> (a + 12 + n \<le> unat b \<and> unat b < a + 12 + n + 12)" for b
    proof -
      have "b \<notin> region ?p 12" "b \<notin> region ?q 12"
        using that bnd True by (simp_all add: region_of_nat del: of_nat_add)
      then show ?thesis by (simp add: m' set_outside del: of_nat_add)
    qed
    have "chain m' (a + 12 + sz) bs"
      by (rule chain_cong [OF tail]) (use assms(3) headers_range [of "a + 12 + sz" bs] True out in force)+
    moreover have "blk_size m' ?p = of_nat n" "blk_is_free m' ?p = 0" "blk_next m' ?p = ?q"
      "blk_size m' ?q = of_nat (sz - n - 12)" "blk_is_free m' ?q = 1" "blk_next m' ?q = blk_next m ?p"
      unfolding m' by (simp_all add: other del: of_nat_add of_nat_diff)
    moreover have "blk_next m ?p = of_nat (head_addr (a + 12 + sz) bs)" using assms(1) by simp
    moreover have e: "a + 12 + n + 12 + (sz - n - 12) = a + 12 + sz" using True by simp
    ultimately have "chain m' a cs"
      using True by (simp only: cs_def if_True chain.simps head_addr_simps e) simp
    moreover have "m' b = m b" if "unat b \<notin> headers a cs" for b
      using that True by (intro out) (auto simp: cs_def)
    ultimately show ?thesis by (simp add: m'_def)
  qed
  then show "chain (malloc_take (of_nat n) ?p m) a cs"
    "unat b \<notin> headers a cs \<Longrightarrow> malloc_take (of_nat n) ?p m b = m b" by blast+
qed

lemma malloc_loop_refines:
  assumes "chain m a bs" "a + total bs \<le> 2 ^ 31" "0 < a" "n < 2 ^ 32" "a_malloc n a bs = (p, cs)"
  shows "\<exists>m'. malloc_loop (of_nat n) m (of_nat (head_addr a bs)) = Some (of_nat p, m') \<and> chain m' a cs \<and>
    (\<forall>b. unat b \<notin> headers a cs \<longrightarrow> m' b = m b)"
  using assms
proof (induction bs arbitrary: a p cs)
  case Nil
  then show ?case by (subst malloc_loop.simps) simp
next
  case (Cons b bs)
  obtain sz fr where b: "b = (sz, fr)" by (cases b)
  let ?p = "of_nat a :: u32"
  have bnd: "sz < 2 ^ 32" "a < 2 ^ 32" "a \<noteq> 0" using Cons.prems b by auto
  have nz: "?p \<noteq> 0" using of_nat_u32_eq_iff [of a 0] bnd by simp
  have sz: "blk_size m ?p = of_nat sz" "(blk_is_free m ?p \<noteq> 0) = fr"
    "blk_next m ?p = of_nat (head_addr (a + 12 + sz) bs)"
    using Cons.prems(1) b by auto
  have le: "(of_nat n :: u32) \<le> of_nat sz \<longleftrightarrow> n \<le> sz"
    using of_nat_u32_le_iff Cons.prems(4) bnd by blast
  show ?case
  proof (cases "fr \<and> n \<le> sz")
    case True
    have eq: "malloc_loop (of_nat n) m ?p = Some (?p + SIZEOF_HEAP_BLOCK, malloc_take (of_nat n) ?p m)"
      using True nz sz le by (subst malloc_loop.simps) simp
    have res: "p = a + 12"
      "cs = (if sz > n + 44 then (n, False) # (sz - n - 12, True) # bs else (sz, False) # bs)"
      using Cons.prems(5) True b by auto
    have "chain m a ((sz, True) # bs)" "n \<le> sz" "a + total ((sz, True) # bs) \<le> 2 ^ 31"
      using Cons.prems(1,2) True b by simp_all
    note take = malloc_take_refines [OF this, folded res(2)]
    have "chain (malloc_take (of_nat n) ?p m) a cs"
      "\<forall>b. unat b \<notin> headers a cs \<longrightarrow> malloc_take (of_nat n) ?p m b = m b"
      using take by blast+
    with eq res(1) b show ?thesis by (simp add: heap_consts)
  next
    case False
    then obtain ds where ds: "a_malloc n (a + 12 + sz) bs = (p, ds)" "cs = (sz, fr) # ds"
      using Cons.prems(5) b by (auto split: prod.splits)
    have "chain m (a + 12 + sz) bs" "a + 12 + sz + total bs \<le> 2 ^ 31" using Cons.prems(1,2) b by auto
    from Cons.IH [OF this _ Cons.prems(4) ds(1)] obtain m' where m':
      "malloc_loop (of_nat n) m (of_nat (head_addr (a + 12 + sz) bs)) = Some (of_nat p, m')"
      "chain m' (a + 12 + sz) ds" "\<forall>b. unat b \<notin> headers (a + 12 + sz) ds \<longrightarrow> m' b = m b" by auto
    have eq: "malloc_loop (of_nat n) m ?p = Some (of_nat p, m')"
      using False nz sz le m'(1) by (subst malloc_loop.simps) auto
    have "m' b = m b" if "unat b < a + 12" for b
      using that m'(3) headers_range [of "a + 12 + sz" ds] by force
    then have blk: "blk_size m' ?p = blk_size m ?p" "blk_is_free m' ?p = blk_is_free m ?p"
      "blk_next m' ?p = blk_next m ?p"
      using Cons.prems(2) b by (auto intro!: blk_cong)
    have "head_addr (a + 12 + sz) ds = head_addr (a + 12 + sz) bs"
      using a_malloc_total [OF ds(1)] by (simp add: head_addr_def)
    then have "chain m' a cs" using m'(2) ds(2) blk sz by simp
    moreover have "\<forall>b. unat b \<notin> headers a cs \<longrightarrow> m' b = m b" using m'(3) ds(2) by simp
    ultimately show ?thesis using eq b by simp
  qed
qed

text \<open>Marking a block free through its payload address.\<close>

lemma a_mark_refines:
  assumes "chain m a bs" "a + total bs \<le> 2 ^ 31" "(p, k) \<in> used a bs"
  shows "chain (set_is_free (of_nat (p - 12)) 1 m) a (a_mark p a bs) \<and>
    (\<forall>b. unat b \<notin> headers a bs \<longrightarrow> set_is_free (of_nat (p - 12)) 1 m b = m b)"
  using assms
proof (induction bs arbitrary: a)
  case Nil
  then show ?case by simp
next
  case (Cons b bs)
  obtain sz fr where b: "b = (sz, fr)" by (cases b)
  let ?m = "set_is_free (of_nat (p - 12)) 1 m"
  have out: "?m b = m b" if "\<not> (p - 12 \<le> unat b \<and> unat b < p)" for b
  proof -
    have "p \<le> 2 ^ 31" "12 \<le> p" using used_range [OF Cons.prems(3)] Cons.prems(2) by auto
    with that show ?thesis by (intro set_outside) (simp add: region_of_nat del: of_nat_diff)
  qed
  show ?case
  proof (cases "p = a + 12")
    case True
    have "chain ?m (a + 12 + sz) bs"
      by (rule chain_cong [of m]) (use Cons.prems b headers_range [of "a + 12 + sz" bs] True out in force)+
    moreover have "a_mark p (a + 12 + sz) bs = bs" using True by (simp add: a_mark_out)
    ultimately have "chain ?m a (a_mark p a (b # bs))" using Cons.prems(1) True b by simp
    with True b out show ?thesis by simp
  next
    case False
    then have "(p, k) \<in> used (a + 12 + sz) bs" using Cons.prems(3) b by (auto split: if_splits)
    with Cons.IH [of "a + 12 + sz"] Cons.prems b
    have IH: "chain ?m (a + 12 + sz) (a_mark p (a + 12 + sz) bs)"
      "\<forall>b. unat b \<notin> headers (a + 12 + sz) bs \<longrightarrow> ?m b = m b" by auto
    have "?m b = m b" if "unat b < a + 12" for b
      using that IH(2) headers_range [of "a + 12 + sz" bs] by force
    then have "blk_size ?m (of_nat a) = blk_size m (of_nat a)"
      "blk_is_free ?m (of_nat a) = blk_is_free m (of_nat a)"
      "blk_next ?m (of_nat a) = blk_next m (of_nat a)"
      using Cons.prems(2) b by (auto intro!: blk_cong)
    with IH Cons.prems(1) False b show ?thesis by (simp add: head_addr_def)
  qed
qed

lemma coalesce_refines:
  assumes "chain m a bs" "a + total bs \<le> 2 ^ 31" "0 < a"
  shows "\<exists>m'. coalesce_loop m (of_nat (head_addr a bs)) = Some m' \<and> chain m' a (a_merge bs) \<and>
    (\<forall>b. unat b \<notin> headers a bs \<longrightarrow> m' b = m b)"
  using assms
proof (induction bs arbitrary: a m rule: a_merge.induct)
  case (1 s1 f1 s2 f2 bs)
  let ?p = "of_nat a :: u32" and ?q = "of_nat (a + 12 + s1) :: u32"
  have bnd: "a + 12 + s1 + 12 + s2 + total bs \<le> 2 ^ 31" using 1(4) by simp
  have nz: "?p \<noteq> 0" "?q \<noteq> 0"
    using of_nat_u32_eq_iff [of a 0] of_nat_u32_eq_iff [of "a + 12 + s1" 0] bnd 1(5) by simp_all
  have c: "blk_size m ?p = of_nat s1" "(blk_is_free m ?p \<noteq> 0) = f1" "blk_next m ?p = ?q"
    "blk_size m ?q = of_nat s2" "(blk_is_free m ?q \<noteq> 0) = f2"
    "blk_next m ?q = of_nat (head_addr (a + 12 + s1 + 12 + s2) bs)"
    "chain m (a + 12 + s1 + 12 + s2) bs"
    using 1(3) by simp_all
  have sp: "sep ?p ?q" using bnd by (intro sep_nat) auto
  note other = field_other [OF sp] field_other [OF sep_sym [OF sp]]
  show ?case
  proof (cases "f1 \<and> f2")
    case True
    define m2 where "m2 = set_next ?p (blk_next m ?q) (set_size ?p (of_nat (s1 + s2 + 12)) m)"
    have "of_nat s1 + (of_nat s2 + SIZEOF_HEAP_BLOCK) = (of_nat (s1 + s2 + 12) :: u32)"
      by (simp add: heap_consts)
    then have eq: "coalesce_loop m ?p = coalesce_loop m2 ?p"
      using True nz c
      by (subst coalesce_loop.simps) (simp add: Let_def m2_def other del: of_nat_add)
    have out: "m2 b = m b" if "\<not> (a \<le> unat b \<and> unat b < a + 12)" for b
      using that bnd by (simp add: m2_def set_outside region_of_nat)
    have "chain m2 (a + 12 + s1 + 12 + s2) bs"
      by (rule chain_cong [OF c(7)]) (use bnd headers_range [of "a + 12 + s1 + 12 + s2" bs] out in force)+
    moreover have e: "a + 12 + (s1 + s2 + 12) = a + 12 + s1 + 12 + s2" by simp
    moreover have "blk_size m2 ?p = of_nat (s1 + s2 + 12)" "blk_is_free m2 ?p \<noteq> 0"
      "blk_next m2 ?p = of_nat (head_addr (a + 12 + s1 + 12 + s2) bs)"
      using True c by (simp_all add: m2_def)
    ultimately have "chain m2 a ((s1 + s2 + 12, True) # bs)"
      by (simp only: chain.simps e simp_thms)
    from 1(1) [OF True this] bnd 1(5) obtain m' where m':
      "coalesce_loop m2 ?p = Some m'" "chain m' a (a_merge ((s1 + s2 + 12, True) # bs))"
      "\<forall>b. unat b \<notin> headers a ((s1 + s2 + 12, True) # bs) \<longrightarrow> m' b = m2 b" by auto
    have "m' b = m b" if "unat b \<notin> headers a ((s1, f1) # (s2, f2) # bs)" for b
      using that m'(3) out e by (simp del: of_nat_add)
    with m' eq True show ?thesis by auto
  next
    case False
    have eq: "coalesce_loop m ?p = coalesce_loop m ?q"
      using False nz c by (subst coalesce_loop.simps) auto
    have "chain m (a + 12 + s1) ((s2, f2) # bs)" using 1(3) by simp
    from 1(2) [OF False this] bnd obtain m' where m':
      "coalesce_loop m ?q = Some m'" "chain m' (a + 12 + s1) (a_merge ((s2, f2) # bs))"
      "\<forall>b. unat b \<notin> headers (a + 12 + s1) ((s2, f2) # bs) \<longrightarrow> m' b = m b" by auto
    have "m' b = m b" if "unat b < a + 12" for b
      using that m'(3) headers_range [of "a + 12 + s1" "(s2, f2) # bs"] by force
    then have "blk_size m' ?p = blk_size m ?p" "blk_is_free m' ?p = blk_is_free m ?p"
      "blk_next m' ?p = blk_next m ?p"
      using bnd by (auto intro!: blk_cong)
    moreover have "head_addr (a + 12 + s1) (a_merge ((s2, f2) # bs)) = a + 12 + s1"
      by (simp add: head_addr_def del: a_merge.simps)
    moreover have "a_merge ((s1, f1) # (s2, f2) # bs) = (s1, f1) # a_merge ((s2, f2) # bs)"
      using False by auto
    ultimately have "chain m' a (a_merge ((s1, f1) # (s2, f2) # bs))"
      using m'(2) c(1-3) by (simp del: a_merge.simps)
    with m'(1,3) eq show ?thesis by auto
  qed
next
  case (2 b)
  then show ?case by (cases b) (subst coalesce_loop.simps, simp)
next
  case 3
  then show ?case by (subst coalesce_loop.simps) simp
qed

section \<open>The heap in the kernel's state\<close>

definition heap_rel :: "'a kheap_scheme \<Rightarrow> block list \<Rightarrow> bool" where
  "heap_rel s bs \<longleftrightarrow> heap_initialized s \<noteq> 0 \<and> heap_start s = HEAP_START \<and> bs \<noteq> [] \<and>
     chain (mem s) 0x400000 bs \<and> total bs = 0x100000 \<and> coalesced bs"

definition heap_ok :: "'a kheap_scheme \<Rightarrow> bool" where
  "heap_ok s \<longleftrightarrow> heap_initialized s = 0 \<or> (\<exists>bs. heap_rel s bs)"

definition heap_live :: "'a kheap_scheme \<Rightarrow> (nat \<times> nat) set" where
  "heap_live s = {b. \<exists>bs. heap_rel s bs \<and> b \<in> used 0x400000 bs}"

lemma heap_rel_unique:
  assumes "heap_rel s bs" "heap_rel s cs"
  shows "bs = cs"
proof (rule chain_unique)
  show "chain (mem s) 0x400000 bs" "chain (mem s) 0x400000 cs" "bs = [] \<longleftrightarrow> cs = []"
    "0x400000 + total bs \<le> 2 ^ 32" "0x400000 + total cs \<le> 2 ^ 32"
    using assms by (simp_all add: heap_rel_def)
qed

lemma heap_live_eq: "heap_rel s bs \<Longrightarrow> heap_live s = used 0x400000 bs"
  using heap_rel_unique unfolding heap_live_def by blast

lemma heap_live_uninit: "heap_initialized s = 0 \<Longrightarrow> heap_live s = {}"
  by (simp add: heap_live_def heap_rel_def)

lemma and_not_31: "unat ((x :: u32) AND NOT 31) = unat x div 32 * 32"
proof -
  have "x AND NOT (mask 5) = push_bit 5 (drop_bit 5 x)"
    by (rule bit_word_eqI) (auto simp: bit_simps)
  also have "\<dots> = x div 32 * 32" by (simp add: push_bit_eq_mult drop_bit_eq_div)
  finally have "unat (x AND NOT 31) = unat (x div 32 * 32)" by (simp add: mask_eq_exp_minus_1)
  also have "\<dots> = (unat x div 32 * 32) mod 2 ^ 32" by (simp only: unat_word_ariths(2) unat_div) simp
  also have "\<dots> = unat x div 32 * 32"
    by (rule mod_less) (rule le_less_trans [OF div_times_less_eq_dividend unat_u32_less])
  finally show ?thesis .
qed

lemma align_block_nat: "n \<le> 0xFFFFFFE0 \<Longrightarrow> unat (align_block n) = (unat n + 31) div 32 * 32"
proof -
  assume "n \<le> 0xFFFFFFE0"
  then have "unat n + 31 < 2 ^ 32" by (simp add: word_le_nat_alt)
  then have "unat (n + 31) = unat n + 31" by (simp add: unat_word_ariths)
  moreover have "align_block n = (n + 31) AND NOT 31" by (simp add: align_block_def heap_consts add.commute)
  ultimately show ?thesis by (simp only: and_not_31)
qed

lemma align_block_ge: "n \<le> 0xFFFFFFE0 \<Longrightarrow> unat n \<le> unat (align_block n)"
  by (subst align_block_nat) (simp, presburger)

lemma logf_kheap [simp]:
  "mem (logf md l fmt args s) = mem s" "heap_start (logf md l fmt args s) = heap_start s"
  "heap_initialized (logf md l fmt args s) = heap_initialized s"
  "kheap.more (logf md l fmt args s) = kheap.more s"
proof -
  have "vga.more (logf md l fmt args s) = vga.more s" by simp
  then show "mem (logf md l fmt args s) = mem s" "heap_start (logf md l fmt args s) = heap_start s"
    "heap_initialized (logf md l fmt args s) = heap_initialized s"
    "kheap.more (logf md l fmt args s) = kheap.more s"
    by (cases s; cases "logf md l fmt args s"; simp)+
qed

lemma heap_init_rel:
  assumes "heap_initialized s = 0"
  shows "heap_rel (heap_init s) [(0xFFFF4, True)]"
    "unat b \<notin> {0x400000..<0x500000} \<Longrightarrow> mem (heap_init s) b = mem s b"
proof -
  define m where "m = set_next HEAP_START 0 (set_is_free HEAP_START 1
    (set_size HEAP_START (HEAP_SIZE - SIZEOF_HEAP_BLOCK) (mem s)))"
  have st: "mem (heap_init s) = m" "heap_start (heap_init s) = HEAP_START"
    "heap_initialized (heap_init s) = 1"
    using assms by (simp_all add: heap_init_def m_def)
  have "chain m 0x400000 [(0xFFFF4, True)]"
    by (simp add: m_def heap_consts)
  with st show "heap_rel (heap_init s) [(0xFFFF4, True)]" by (simp add: heap_rel_def)
  assume b: "unat b \<notin> {0x400000..<0x500000}"
  have "b \<notin> region (of_nat 0x400000) 12" using b by (subst region_of_nat) auto
  then show "mem (heap_init s) b = mem s b"
    unfolding st m_def by (simp add: set_outside heap_consts)
qed

text \<open>The two system calls on a heap whose block list is known.\<close>

lemma malloc_refines:
  assumes "heap_rel s bs" "n \<noteq> 0" "a_malloc (unat (align_block n)) 0x400000 bs = (p, cs)"
  shows "\<exists>m'. sys_handler_malloc n s = Some (of_nat p, s\<lparr>mem := m'\<rparr>) \<and> heap_rel (s\<lparr>mem := m'\<rparr>) cs \<and>
    (\<forall>b. unat b \<notin> headers 0x400000 cs \<longrightarrow> m' b = mem s b)"
proof -
  from assms(1) have h: "heap_initialized s \<noteq> 0" "heap_start s = of_nat (head_addr 0x400000 bs)"
    "bs \<noteq> []" "chain (mem s) 0x400000 bs" "total bs = 0x100000" "coalesced bs"
    by (simp_all add: heap_rel_def head_addr_def heap_consts)
  from malloc_loop_refines [OF h(4) _ _ unat_u32_less assms(3)] h(5) obtain m' where m':
    "malloc_loop (align_block n) (mem s) (heap_start s) = Some (of_nat p, m')" "chain m' 0x400000 cs"
    "\<forall>b. unat b \<notin> headers 0x400000 cs \<longrightarrow> m' b = mem s b"
    by (auto simp: h(2))
  have "heap_rel (s\<lparr>mem := m'\<rparr>) cs"
    using assms(1) m'(2) a_malloc_total [OF assms(3)] a_malloc_coalesced [OF h(6) assms(3)]
    by (simp add: heap_rel_def)
  with m' h(1) assms(2) show ?thesis by (auto simp: sys_handler_malloc_def)
qed

lemma free_refines:
  assumes "heap_rel s bs" "(p, k) \<in> used 0x400000 bs"
  shows "\<exists>m'. sys_handler_free (of_nat p) s = Some (SYSCALL_OK, s\<lparr>mem := m'\<rparr>) \<and>
    heap_rel (s\<lparr>mem := m'\<rparr>) (a_free p 0x400000 bs) \<and>
    (\<forall>b. unat b \<notin> headers 0x400000 bs \<longrightarrow> m' b = mem s b)"
proof -
  from assms(1) have h: "heap_initialized s \<noteq> 0" "heap_start s = of_nat (head_addr 0x400000 bs)"
    "bs \<noteq> []" "chain (mem s) 0x400000 bs" "total bs = 0x100000" "coalesced bs"
    by (simp_all add: heap_rel_def head_addr_def heap_consts)
  have rng: "12 \<le> p" "p \<noteq> 0" "p < 2 ^ 32" using used_range [OF assms(2)] h(5) by auto
  then have p: "of_nat p - SIZEOF_HEAP_BLOCK = (of_nat (p - 12) :: u32)" "(of_nat p :: u32) \<noteq> 0"
    using of_nat_u32_eq_iff [of p 0] by (simp_all add: heap_consts of_nat_diff)
  let ?m = "set_is_free (of_nat (p - 12)) 1 (mem s)"
  from a_mark_refines [OF h(4) _ assms(2)] h(5)
  have mk: "chain ?m 0x400000 (a_mark p 0x400000 bs)"
    "\<forall>b. unat b \<notin> headers 0x400000 bs \<longrightarrow> ?m b = mem s b" by auto
  have start: "heap_start s = of_nat (head_addr 0x400000 (a_mark p 0x400000 bs))"
    using h(2) by (simp add: head_addr_def)
  from coalesce_refines [OF mk(1)] h(5) obtain m' where m':
    "coalesce_loop ?m (heap_start s) = Some m'" "chain m' 0x400000 (a_free p 0x400000 bs)"
    "\<forall>b. unat b \<notin> headers 0x400000 bs \<longrightarrow> m' b = ?m b"
    unfolding start a_free_def by auto
  have "heap_rel (s\<lparr>mem := m'\<rparr>) (a_free p 0x400000 bs)"
    using assms(1) m'(2) by (simp add: heap_rel_def a_free_def coalesced_merge)
  with m' mk(2) h(1) p show ?thesis by (auto simp: sys_handler_free_def)
qed

text \<open>A block given out by \<open>malloc\<close> and returned by \<open>free\<close> leaves the heap as it was.\<close>

lemma malloc_free_undo:
  assumes "heap_rel s bs" "n \<noteq> 0" "sys_handler_malloc n s = Some (q, s1)" "q \<noteq> 0"
  shows "\<exists>s2. sys_handler_free q s1 = Some (SYSCALL_OK, s2) \<and> heap_rel s2 bs"
proof -
  obtain p cs where a: "a_malloc (unat (align_block n)) 0x400000 bs = (p, cs)" by fastforce
  from malloc_refines [OF assms(1,2) a] assms(3) have q: "q = of_nat p" "heap_rel s1 cs" by auto
  with assms(4) have p: "p \<noteq> 0" using q(1) by (intro notI) simp
  from a_malloc_used [OF a p] obtain k where "(p, k) \<in> used 0x400000 cs" by auto
  from free_refines [OF q(2) this] obtain m' where
    "sys_handler_free q s1 = Some (SYSCALL_OK, s1\<lparr>mem := m'\<rparr>)"
    "heap_rel (s1\<lparr>mem := m'\<rparr>) (a_free p 0x400000 cs)" unfolding q(1) by blast
  moreover have "a_free p 0x400000 cs = bs" using a_malloc_free [OF _ a p] assms(1) by (simp add: heap_rel_def)
  ultimately show ?thesis by auto
qed

section \<open>The contract of an allocator\<close>

text \<open>
  What the file system relies on.  \<open>live\<close> is the set of blocks handed out (payload address and
  size), \<open>rd\<close> the memory, \<open>wr m s\<close> the state with memory \<open>m\<close>, and \<open>arena\<close> the addresses the
  allocator may touch.
\<close>

definition payload :: "nat \<times> nat \<Rightarrow> nat set" where
  "payload b = {fst b..<fst b + snd b}"

definition same_on :: "(nat \<times> nat) set \<Rightarrow> nat set \<Rightarrow> mem \<Rightarrow> mem \<Rightarrow> bool" where
  "same_on L A m m' \<longleftrightarrow> (\<forall>b. unat b \<in> \<Union> (payload ` L) \<or> unat b \<notin> A \<longrightarrow> m' b = m b)"

lemma same_on_D: "same_on L A m m' \<Longrightarrow> bl \<in> L \<Longrightarrow> unat b \<in> payload bl \<Longrightarrow> m' b = m b"
  unfolding same_on_def by blast

lemma same_on_out: "same_on L A m m' \<Longrightarrow> unat b \<notin> A \<Longrightarrow> m' b = m b"
  unfolding same_on_def by blast

lemma same_onI:
  "(\<And>b bl. bl \<in> L \<Longrightarrow> unat b \<in> payload bl \<Longrightarrow> m' b = m b) \<Longrightarrow> (\<And>b. unat b \<notin> A \<Longrightarrow> m' b = m b) \<Longrightarrow>
    same_on L A m m'"
  unfolding same_on_def by blast

lemma same_on_trans:
  assumes "same_on L A m m'" "same_on L' A m' m''" "L \<subseteq> L'"
  shows "same_on L A m m''"
proof (rule same_onI)
  fix b :: u32 and bl assume "bl \<in> L" "unat b \<in> payload bl"
  then have "m' b = m b" by (rule same_on_D [OF assms(1)])
  moreover have "m'' b = m' b"
    using \<open>bl \<in> L\<close> \<open>unat b \<in> payload bl\<close> assms(3) by (intro same_on_D [OF assms(2)]) auto
  ultimately show "m'' b = m b" by simp
next
  fix b :: u32 assume "unat b \<notin> A"
  with assms show "m'' b = m b" using same_on_out [of L A m m'] same_on_out [of L' A m' m''] by auto
qed

lemma same_on_mono: "same_on L A m m' \<Longrightarrow> L' \<subseteq> L \<Longrightarrow> same_on L' A m m'"
  unfolding same_on_def by blast

locale allocator =
  fixes inv :: "'s \<Rightarrow> bool"
    and live :: "'s \<Rightarrow> (nat \<times> nat) set"
    and arena :: "nat set"
    and rd :: "'s \<Rightarrow> mem"
    and wr :: "mem \<Rightarrow> 's \<Rightarrow> 's"
    and alloc :: "u32 \<Rightarrow> 's \<Rightarrow> (u32 \<times> 's) option"
    and dealloc :: "u32 \<Rightarrow> 's \<Rightarrow> (s32 \<times> 's) option"
  assumes arena_low: "arena \<subseteq> {0<..<2 ^ 32}"
    and live_arena: "inv s \<Longrightarrow> (x, k) \<in> live s \<Longrightarrow> 0 < x \<and> x < 2 ^ 32 \<and> payload (x, k) \<subseteq> arena"
    and live_disjoint: "inv s \<Longrightarrow> (x, k) \<in> live s \<Longrightarrow> (y, l) \<in> live s \<Longrightarrow> (x, k) \<noteq> (y, l) \<Longrightarrow>
      payload (x, k) \<inter> payload (y, l) = {}"
    and alloc_spec: "inv s \<Longrightarrow> n \<noteq> 0 \<Longrightarrow> n \<le> 0xFFFFFFE0 \<Longrightarrow>
      \<exists>p s'. alloc n s = Some (p, s') \<and> inv s' \<and> same_on (live s) arena (rd s) (rd s') \<and>
        (if p = 0 then live s' = live s
         else unat p \<notin> fst ` live s \<and> (\<exists>k \<ge> unat n. live s' = insert (unat p, k) (live s)))"
    and dealloc_spec: "inv s \<Longrightarrow> (unat p, k) \<in> live s \<Longrightarrow>
      \<exists>s'. dealloc p s = Some (0, s') \<and> inv s' \<and> live s' = {b \<in> live s. fst b \<noteq> unat p} \<and>
        same_on (live s) arena (rd s) (rd s')"
    and write_spec: "inv s \<Longrightarrow> b \<in> live s \<Longrightarrow> (\<And>a. unat a \<notin> payload b \<Longrightarrow> m a = rd s a) \<Longrightarrow>
      inv (wr m s) \<and> live (wr m s) = live s \<and> rd (wr m s) = m"
begin

lemma live_top:
  assumes "inv s" "(x, k) \<in> live s" "l \<le> k"
  shows "x + l \<le> 2 ^ 32"
proof (cases l)
  case 0
  then show ?thesis using live_arena [OF assms(1,2)] by simp
next
  case (Suc j)
  then have "x + j \<in> payload (x, k)" using assms(3) by (simp add: payload_def)
  then have "x + j < 2 ^ 32" using live_arena [OF assms(1,2)] arena_low by auto
  with Suc show ?thesis by simp
qed

lemma write_others:
  assumes "inv s" "b \<in> live s" "\<And>a. unat a \<notin> payload b \<Longrightarrow> m a = rd s a"
  shows "same_on (live s - {b}) arena (rd s) m"
proof -
  obtain x k where b: "b = (x, k)" by (cases b)
  show ?thesis
  proof (rule same_onI)
    fix a :: u32 and bl assume "bl \<in> live s - {b}" "unat a \<in> payload bl"
    with live_disjoint [OF assms(1), of x k "fst bl" "snd bl"] assms(2) b
    have "unat a \<notin> payload b" by auto
    then show "m a = rd s a" by (rule assms(3))
  next
    fix a :: u32 assume "unat a \<notin> arena"
    with live_arena [OF assms(1), of x k] assms(2) b have "unat a \<notin> payload b" by auto
    then show "m a = rd s a" by (rule assms(3))
  qed
qed

text \<open>
  Replacing a block: allocate a new one, fill it, release the old one.  The new block holds what
  was written and every other block is as before.
\<close>

lemma replace_block:
  assumes s: "inv s" "(unat p, k) \<in> live s" and n: "n \<noteq> 0" "n \<le> 0xFFFFFFE0"
    and al: "alloc n s = Some (q, s1)" "q \<noteq> 0"
    and m: "\<And>a. unat a \<notin> payload (unat q, unat n) \<Longrightarrow> m a = rd s1 a"
  shows "\<exists>s3 k'. dealloc p (wr m s1) = Some (0, s3) \<and> inv s3 \<and> unat n \<le> k' \<and>
    live s3 = insert (unat q, k') {b \<in> live s. fst b \<noteq> unat p} \<and>
    unat q \<notin> fst ` live s \<and> unat q + k' \<le> 2 ^ 32 \<and>
    (\<forall>a. unat a \<in> payload (unat q, k') \<longrightarrow> rd s3 a = m a) \<and>
    same_on {b \<in> live s. fst b \<noteq> unat p} arena (rd s) (rd s3)"
proof -
  from alloc_spec [OF s(1) n] al obtain k' where s1: "inv s1" "same_on (live s) arena (rd s) (rd s1)"
    "unat q \<notin> fst ` live s" "unat n \<le> k'" "live s1 = insert (unat q, k') (live s)" by auto
  have pq: "(unat p, k) \<in> live s1" "(unat q, k') \<in> live s1" using s(2) s1(5) by auto
  have "m a = rd s1 a" if "unat a \<notin> payload (unat q, k')" for a
    using that s1(4) by (intro m) (auto simp: payload_def)
  note wr = write_spec [OF s1(1) pq(2) this] write_others [OF s1(1) pq(2) this]
  from wr(1) pq(1) obtain s3 where s3: "dealloc p (wr m s1) = Some (0, s3)" "inv s3"
    "live s3 = {b \<in> live s1. fst b \<noteq> unat p}" "same_on (live s1) arena m (rd s3)"
    using dealloc_spec [of "wr m s1" p k] by auto
  have "unat q \<noteq> unat p" using s(2) s1(3) by force
  then have live3: "live s3 = insert (unat q, k') {b \<in> live s. fst b \<noteq> unat p}"
    using s3(3) s1(5) by auto
  moreover have "rd s3 a = m a" if "unat a \<in> payload (unat q, k')" for a
    by (rule same_on_D [OF s3(4) pq(2) that])
  moreover have "same_on {b \<in> live s. fst b \<noteq> unat p} arena (rd s) (rd s3)"
  proof -
    have "{b \<in> live s. fst b \<noteq> unat p} \<subseteq> live s1 - {(unat q, k')}" using s1(3,5) by force
    then show ?thesis
      by (intro same_on_trans [OF same_on_trans [OF same_on_mono [OF s1(2)] wr(2)] s3(4)]) auto
  qed
  moreover have "unat q + k' \<le> 2 ^ 32" using live_top [OF s1(1) pq(2)] by simp
  ultimately show ?thesis using s3(1,2) s1(3,4) by blast
qed

text \<open>
  Moving a block: allocate, copy the first \<open>len\<close> bytes, release the old block.  The new block
  holds the old bytes and every other block is as before.
\<close>

lemma relocate:
  fixes len :: nat
  assumes s: "inv s" "(unat p, k) \<in> live s" and n: "n \<noteq> 0" "n \<le> 0xFFFFFFE0"
    and len: "len \<le> k" "len \<le> unat n"
    and al: "alloc n s = Some (q, s1)" "q \<noteq> 0"
  defines "m \<equiv> fold (\<lambda>i m. m(q + of_nat i := m (p + of_nat i))) [0..<len] (rd s1)"
  shows "\<exists>s3 k'. dealloc p (wr m s1) = Some (0, s3) \<and> inv s3 \<and>
    unat n \<le> k' \<and> live s3 = insert (unat q, k') {b \<in> live s. fst b \<noteq> unat p} \<and>
    unat q \<notin> fst ` live s \<and> (\<forall>i < len. rd s3 (q + of_nat i) = rd s (p + of_nat i)) \<and>
    same_on {b \<in> live s. fst b \<noteq> unat p} arena (rd s) (rd s3)"
proof -
  from alloc_spec [OF s(1) n] al obtain k1 where s1: "inv s1" "same_on (live s) arena (rd s) (rd s1)"
    "unat q \<notin> fst ` live s" "unat n \<le> k1" "live s1 = insert (unat q, k1) (live s)" by auto
  have ne: "(unat p, k) \<noteq> (unat q, k1)" using s(2) s1(3) by force
  have pq: "(unat p, k) \<in> live s1" "(unat q, k1) \<in> live s1" using s(2) s1(5) by auto
  have top: "unat p + len \<le> 2 ^ 32" "unat q + len \<le> 2 ^ 32"
    using live_top [OF s1(1) pq(1)] live_top [OF s1(1) pq(2)] len s1(4) by auto
  note inq = region_of_nat [OF top(2), unfolded of_nat_unat ucast_id]
    and inp = region_of_nat [OF top(1), unfolded of_nat_unat ucast_id]
  have disj: "region q len \<inter> region p len = {}"
    using live_disjoint [OF s1(1) pq ne] inp inq len s1(4) by (force simp: payload_def disjoint_iff)
  have m: "m a = (if a \<in> region q len then rd s1 (p + (a - q)) else rd s1 a)" for a
    using top unfolding m_def by (subst copy_loop [OF _ disj]) auto
  have "m a = rd s1 a" if "unat a \<notin> payload (unat q, unat n)" for a
    using that len by (auto simp: m inq payload_def)
  from replace_block [OF s n al this] obtain s3 k' where s3: "dealloc p (wr m s1) = Some (0, s3)" "inv s3"
    "unat n \<le> k'" "live s3 = insert (unat q, k') {b \<in> live s. fst b \<noteq> unat p}"
    "\<forall>a. unat a \<in> payload (unat q, k') \<longrightarrow> rd s3 a = m a" "unat q + k' \<le> 2 ^ 32"
    "same_on {b \<in> live s. fst b \<noteq> unat p} arena (rd s) (rd s3)" by blast
  have "rd s3 (q + of_nat i) = rd s (p + of_nat i)" if i: "i < len" for i
  proof -
    have up: "unat (q + of_nat i) = unat q + i" "unat (p + of_nat i) = unat p + i"
      using i top unat_of_nat_u32 [of "unat q + i"] unat_of_nat_u32 [of "unat p + i"] by simp_all
    have "rd s3 (q + of_nat i) = m (q + of_nat i)"
      using s3(3,5) up(1) i len(2) by (simp add: payload_def)
    also have "\<dots> = rd s1 (p + of_nat i)" using i by (auto simp: m)
    also have "\<dots> = rd s (p + of_nat i)"
      by (rule same_on_D [OF s1(2) s(2)]) (use up(2) i len in \<open>simp add: payload_def\<close>)
    finally show ?thesis .
  qed
  with s3 s1(3) show ?thesis by blast
qed

lemmas relocate_memcpy = relocate [where len = "unat l" for l :: u16, folded memcpy_def]

end

abbreviation heap_arena :: "nat set" where
  "heap_arena \<equiv> {0x400000..<0x500000}"

definition set_mem :: "mem \<Rightarrow> 'a kheap_scheme \<Rightarrow> 'a kheap_scheme" where
  "set_mem m s = s\<lparr>mem := m\<rparr>"

lemma same_on_headers:
  assumes "heap_rel s bs" "\<forall>b. unat b \<notin> headers 0x400000 cs \<longrightarrow> m' b = mem s b"
    "used 0x400000 bs \<subseteq> used 0x400000 cs" "total cs = 0x100000"
  shows "same_on (heap_live s) heap_arena (mem s) m'"
proof (rule same_onI)
  fix b :: u32 and bl assume "bl \<in> heap_live s" "unat b \<in> payload bl"
  then have "unat b \<notin> headers 0x400000 cs"
    using used_headers [where a = "0x400000" and bs = cs and x = "fst bl" and k = "snd bl" and i = "unat b"]
      assms(3) heap_live_eq [OF assms(1)] by (auto simp: payload_def)
  then show "m' b = mem s b" using assms(2) by blast
next
  fix b :: u32 assume "unat b \<notin> heap_arena"
  then have "unat b \<notin> headers 0x400000 cs" using headers_range [of "0x400000" cs] assms(4) by auto
  then show "m' b = mem s b" using assms(2) by blast
qed

lemma heap_ok_cases:
  assumes "heap_ok s"
  obtains "heap_initialized s = 0" "heap_live s = {}" | bs where "heap_rel s bs" "heap_live s = used 0x400000 bs"
  using assms heap_live_uninit heap_live_eq unfolding heap_ok_def by metis

lemma used_total: "(x, k) \<in> used 0x400000 bs \<Longrightarrow> total bs = 0x100000 \<Longrightarrow> 0x40000C \<le> x \<and> x + k \<le> 0x500000"
  using used_range [of x k "0x400000" bs] by auto

lemma heap_live_range: "(x, k) \<in> heap_live s \<Longrightarrow> 0x40000C \<le> x \<and> x + k \<le> 0x500000"
  using used_total unfolding heap_live_def heap_rel_def by blast

lemma heap_live_disjoint:
  assumes "(x, k) \<in> heap_live s" "(y, l) \<in> heap_live s" "(x, k) \<noteq> (y, l)"
  shows "x + k \<le> y \<or> y + l \<le> x"
proof -
  from assms(1) obtain bs where "heap_rel s bs" by (auto simp: heap_live_def)
  from heap_live_eq [OF this] show ?thesis using used_disjoint [of x k "0x400000" bs y l] assms by simp
qed

lemma malloc_spec_init:
  assumes "heap_rel s bs" "n \<noteq> 0" "n \<le> 0xFFFFFFE0"
  shows "\<exists>p s'. sys_handler_malloc n s = Some (p, s') \<and> heap_ok s' \<and>
    same_on (heap_live s) heap_arena (mem s) (mem s') \<and>
    (if p = 0 then heap_live s' = heap_live s
     else unat p \<notin> fst ` heap_live s \<and> (\<exists>k \<ge> unat n. heap_live s' = insert (unat p, k) (heap_live s)))"
proof -
  obtain p cs where a: "a_malloc (unat (align_block n)) 0x400000 bs = (p, cs)" by fastforce
  from malloc_refines [OF assms(1,2) a] obtain m' where m':
    "sys_handler_malloc n s = Some (of_nat p, s\<lparr>mem := m'\<rparr>)" "heap_rel (s\<lparr>mem := m'\<rparr>) cs"
    "\<forall>b. unat b \<notin> headers 0x400000 cs \<longrightarrow> m' b = mem s b" by blast
  have tot: "total cs = 0x100000" using m'(2) by (simp add: heap_rel_def)
  have live: "heap_live s = used 0x400000 bs" "heap_live (s\<lparr>mem := m'\<rparr>) = used 0x400000 cs"
    using heap_live_eq assms(1) m'(2) by blast+
  have ok: "heap_ok (s\<lparr>mem := m'\<rparr>)" using m'(2) unfolding heap_ok_def by blast
  show ?thesis
  proof (cases "p = 0")
    case True
    then have "cs = bs" using a_malloc_fail a by blast
    then show ?thesis
      using True m' live ok same_on_headers [OF assms(1) m'(3) _ tot] by auto
  next
    case False
    from a_malloc_used [OF a False] obtain k where k: "unat (align_block n) \<le> k"
      "used 0x400000 cs = insert (p, k) (used 0x400000 bs)" "p \<notin> fst ` used 0x400000 bs" by blast
    then have "p < 2 ^ 32" using used_total [of p k cs] tot by auto
    then have p: "unat (of_nat p :: u32) = p" "(of_nat p :: u32) \<noteq> 0"
      using False unat_of_nat_u32 by (auto simp: unat_eq_0 [symmetric])
    have "unat n \<le> k" using k(1) align_block_ge [OF assms(3)] by simp
    then show ?thesis
      using p m' live ok k same_on_headers [OF assms(1) m'(3) _ tot] by auto
  qed
qed

lemma malloc_uninit:
  "heap_initialized s = 0 \<Longrightarrow> sys_handler_malloc n s = sys_handler_malloc n (heap_init s)"
  by (simp add: sys_handler_malloc_def heap_init_def)

lemma free_spec:
  assumes "heap_rel s bs" "(unat p, k) \<in> used 0x400000 bs"
  shows "\<exists>s'. sys_handler_free p s = Some (0, s') \<and> heap_ok s' \<and>
    heap_live s' = {b \<in> heap_live s. fst b \<noteq> unat p} \<and> same_on (heap_live s) heap_arena (mem s) (mem s')"
proof -
  from free_refines [OF assms] obtain m' where m': "sys_handler_free p s = Some (SYSCALL_OK, s\<lparr>mem := m'\<rparr>)"
    "heap_rel (s\<lparr>mem := m'\<rparr>) (a_free (unat p) 0x400000 bs)"
    "\<forall>b. unat b \<notin> headers 0x400000 bs \<longrightarrow> m' b = mem s b" by auto
  have "heap_ok (s\<lparr>mem := m'\<rparr>)" using m'(2) unfolding heap_ok_def by blast
  moreover have "heap_live (s\<lparr>mem := m'\<rparr>) = {b \<in> heap_live s. fst b \<noteq> unat p}"
    unfolding heap_live_eq [OF m'(2)] heap_live_eq [OF assms(1)] a_free_def used_merge used_mark by auto
  moreover have "same_on (heap_live s) heap_arena (mem s) (mem (s\<lparr>mem := m'\<rparr>))"
    using same_on_headers [OF assms(1) m'(3)] assms(1) by (simp add: heap_rel_def)
  ultimately show ?thesis using m'(1) by (simp add: SYSCALL_OK_def)
qed

lemma set_mem_spec:
  assumes "heap_rel s bs" "(x, k) \<in> used 0x400000 bs" "\<And>a. unat a \<notin> payload (x, k) \<Longrightarrow> m a = mem s a"
  shows "heap_rel (set_mem m s) bs"
proof -
  have "chain m 0x400000 bs"
  proof (rule chain_cong [of "mem s"])
    fix b :: u32 assume "unat b \<in> headers 0x400000 bs"
    then show "m b = mem s b" using used_headers [OF assms(2), of "unat b"] assms(3) [of b] by (force simp: payload_def)
  qed (use assms(1) in \<open>simp_all add: heap_rel_def\<close>)
  with assms(1) show ?thesis by (simp add: heap_rel_def set_mem_def)
qed

interpretation kmalloc: allocator heap_ok heap_live heap_arena mem set_mem sys_handler_malloc sys_handler_free
proof unfold_locales
  show "heap_arena \<subseteq> {0<..<2 ^ 32}" by auto
next
  fix s :: "'a kheap_scheme" and x k assume ok: "heap_ok s" and l: "(x, k) \<in> heap_live s"
  then show "0 < x \<and> x < 2 ^ 32 \<and> payload (x, k) \<subseteq> heap_arena"
    using heap_live_range [of x k s] by (auto simp: payload_def)
  fix y l assume "(y, l) \<in> heap_live s" "(x, k) \<noteq> (y, l)"
  with ok l show "payload (x, k) \<inter> payload (y, l) = {}"
    using heap_live_disjoint [of x k s y l] by (auto simp: payload_def)
next
  fix s :: "'a kheap_scheme" and n :: u32
  assume ok: "heap_ok s" and n: "n \<noteq> 0" "n \<le> 0xFFFFFFE0"
  from ok show "\<exists>p s'. sys_handler_malloc n s = Some (p, s') \<and> heap_ok s' \<and>
      same_on (heap_live s) heap_arena (mem s) (mem s') \<and>
      (if p = 0 then heap_live s' = heap_live s
       else unat p \<notin> fst ` heap_live s \<and> (\<exists>k \<ge> unat n. heap_live s' = insert (unat p, k) (heap_live s)))"
  proof (cases rule: heap_ok_cases)
    case 1
    have e: "heap_live (heap_init s) = heap_live s" unfolding heap_live_eq [OF heap_init_rel(1) [OF 1(1)]] 1(2) by simp
    have i: "same_on {} heap_arena (mem s) (mem (heap_init s))"
      by (rule same_onI) (use heap_init_rel(2) [OF 1(1)] in auto)
    obtain p s' where r: "sys_handler_malloc n (heap_init s) = Some (p, s')" "heap_ok s'"
      "same_on (heap_live (heap_init s)) heap_arena (mem (heap_init s)) (mem s')"
      "if p = 0 then heap_live s' = heap_live (heap_init s)
       else unat p \<notin> fst ` heap_live (heap_init s) \<and>
         (\<exists>k \<ge> unat n. heap_live s' = insert (unat p, k) (heap_live (heap_init s)))"
      using malloc_spec_init [OF heap_init_rel(1) [OF 1(1)] n] by blast
    have "same_on (heap_live s) heap_arena (mem s) (mem s')"
      unfolding 1(2) by (rule same_on_trans [OF i r(3)]) (rule empty_subsetI)
    moreover have "sys_handler_malloc n s = Some (p, s')" by (rule trans [OF malloc_uninit [OF 1(1)] r(1)])
    ultimately show ?thesis using r(2,4) unfolding e by (intro exI conjI)
  next
    case (2 bs)
    then show ?thesis using malloc_spec_init n by blast
  qed
next
  fix s :: "'a kheap_scheme" and p :: u32 and k
  assume "heap_ok s" "(unat p, k) \<in> heap_live s"
  then show "\<exists>s'. sys_handler_free p s = Some (0, s') \<and> heap_ok s' \<and>
      heap_live s' = {b \<in> heap_live s. fst b \<noteq> unat p} \<and> same_on (heap_live s) heap_arena (mem s) (mem s')"
    using free_spec [of s _ p k] by (auto elim!: heap_ok_cases)
next
  fix s :: "'a kheap_scheme" and b m
  assume ok: "heap_ok s" and b: "b \<in> heap_live s" and m: "\<And>a. unat a \<notin> payload b \<Longrightarrow> m a = mem s a"
  from ok b obtain bs where bs: "heap_rel s bs" "b \<in> used 0x400000 bs" by (auto elim!: heap_ok_cases)
  with set_mem_spec [of s bs "fst b" "snd b" m] m have r: "heap_rel (set_mem m s) bs" by simp
  with bs(1) show "heap_ok (set_mem m s) \<and> heap_live (set_mem m s) = heap_live s \<and> mem (set_mem m s) = m"
    unfolding heap_live_eq [OF r] heap_live_eq [OF bs(1)] heap_ok_def by (auto simp: set_mem_def)
qed

text \<open>Allocation and release leave the rest of the kernel's state alone.\<close>

lemma malloc_more: "sys_handler_malloc n s = Some (p, s') \<Longrightarrow> kheap.more s' = kheap.more s"
  by (auto simp: sys_handler_malloc_def heap_init_def Let_def split: if_splits Option.bind_splits)

lemma free_more: "sys_handler_free p s = Some (r, s') \<Longrightarrow> kheap.more s' = kheap.more s"
  by (auto simp: sys_handler_free_def split: if_splits Option.bind_splits)

end
