(* ===== verification/Interrupts.thy ===== *)
theory Interrupts
  imports Heap
begin

text \<open>
  Descriptor tables, interrupt dispatch, the interrupt controller and the timer:
  \<open>src/src/kernel/arch/i686/{gdt,idt,isr,isrs_gen,irq,i8259,pit}.c\<close> and \<open>time.c\<close>.  A handler
  pointer is a name (\<open>isr_id\<close>, \<open>irq_id\<close>); the functions behind the names that belong to other
  components are arguments of the dispatchers.  \<open>i686_inb\<close> reads the hardware and is a
  parameter; what a driver relies on there is a hypothesis of its lemma.  The addresses of the
  256 assembly stubs are the parameter \<open>isr_addr\<close>.
\<close>

section \<open>Descriptor tables\<close>

record GDTEntry =
  LimitLow :: u16
  BaseLow16 :: u16
  BaseMiddle :: u8
  Access :: u8
  FlagsLimitHi :: u8
  BaseHigh8 :: u8

definition GDT_ENTRY :: "u32 \<Rightarrow> u32 \<Rightarrow> u8 \<Rightarrow> u32 \<Rightarrow> GDTEntry" where
  "GDT_ENTRY base limit acc flags =
     \<lparr>LimitLow = ucast (limit AND 0xFFFF), BaseLow16 = ucast (base AND 0xFFFF),
      BaseMiddle = ucast (drop_bit 16 base AND 0xFF), Access = acc,
      FlagsLimitHi = ucast ((drop_bit 16 limit AND 0xF) OR (flags AND 0xF0)),
      BaseHigh8 = ucast (drop_bit 24 base AND 0xFF)\<rparr>"

definition g_GDT :: "GDTEntry list" where
  "g_GDT = [GDT_ENTRY 0 0 0 0,
     GDT_ENTRY 0 0xFFFFF (0x80 OR 0x00 OR 0x18 OR 0x02) (0x40 OR 0x80),
     GDT_ENTRY 0 0xFFFFF (0x80 OR 0x00 OR 0x10 OR 0x02) (0x40 OR 0x80)]"

record IDTEntry =
  BaseLow :: u16
  SegmentSelector :: u16
  Reserved :: u8
  Flags :: u8
  BaseHigh :: u16

definition IDT_FLAG_GATE_32BIT_INT :: u8 where "IDT_FLAG_GATE_32BIT_INT = 0xE"
definition IDT_FLAG_RING0 :: u8 where "IDT_FLAG_RING0 = 0"
definition IDT_FLAG_PRESENT :: u8 where "IDT_FLAG_PRESENT = 0x80"
definition i686_GDT_CODE_SEGMENT :: u16 where "i686_GDT_CODE_SEGMENT = 0x08"
definition SYSCALL_INTERRUPT :: int where "SYSCALL_INTERRUPT = 0x80"
definition PIC_REMAP_OFFSET :: int where "PIC_REMAP_OFFSET = 0x20"

section \<open>State\<close>

record Registers =
  r_ds :: u32
  r_edi :: u32
  r_esi :: u32
  r_ebp :: u32
  r_useless :: u32
  r_ebx :: u32
  r_edx :: u32
  r_ecx :: u32
  r_eax :: u32
  r_interrupt :: u32
  r_error :: u32
  r_eip :: u32
  r_cs :: u32
  r_eflags :: u32
  r_esp :: u32
  r_ss :: u32

datatype isr_id = ISR_irq | ISR_syscall
datatype irq_id = IRQ_timer | IRQ_keyboard

record kirq = kheap +
  s_ticks :: u64
  g_IDT :: "IDTEntry list"
  g_ISRHandlers :: "isr_id option list"
  g_IRQHandlers :: "irq_id option list"
  g_PicMask :: u16
  g_Driver :: bool
  interrupts_on :: bool
  halted :: bool

section \<open>Interrupt descriptor table\<close>

definition i686_IDT_SetGate :: "int \<Rightarrow> u32 \<Rightarrow> u16 \<Rightarrow> u8 \<Rightarrow> 'a kirq_scheme \<Rightarrow> 'a kirq_scheme option" where
  "i686_IDT_SetGate interrupt base seg flags s = do {
     t \<leftarrow> arr_set (g_IDT s) interrupt
            \<lparr>BaseLow = ucast (base AND 0xFFFF), SegmentSelector = seg, Reserved = 0, Flags = flags,
             BaseHigh = ucast (drop_bit 16 base AND 0xFFFF)\<rparr>;
     Some (s\<lparr>g_IDT := t\<rparr>) }"

definition i686_IDT_EnableGate :: "int \<Rightarrow> 'a kirq_scheme \<Rightarrow> 'a kirq_scheme option" where
  "i686_IDT_EnableGate interrupt s = do {
     e \<leftarrow> arr_get (g_IDT s) interrupt;
     t \<leftarrow> arr_set (g_IDT s) interrupt (e\<lparr>Flags := Flags e OR IDT_FLAG_PRESENT\<rparr>);
     Some (s\<lparr>g_IDT := t\<rparr>) }"

definition i686_IDT_DisableGate :: "int \<Rightarrow> 'a kirq_scheme \<Rightarrow> 'a kirq_scheme option" where
  "i686_IDT_DisableGate interrupt s = do {
     e \<leftarrow> arr_get (g_IDT s) interrupt;
     t \<leftarrow> arr_set (g_IDT s) interrupt (e\<lparr>Flags := Flags e AND NOT IDT_FLAG_PRESENT\<rparr>);
     Some (s\<lparr>g_IDT := t\<rparr>) }"

text \<open>The generated \<open>i686_ISR_InitializeGates\<close> is one such call per vector, in order.\<close>

definition i686_ISR_InitializeGates :: "(int \<Rightarrow> u32) \<Rightarrow> 'a kirq_scheme \<Rightarrow> 'a kirq_scheme option" where
  "i686_ISR_InitializeGates isr_addr =
     foldM (\<lambda>i. i686_IDT_SetGate i (isr_addr i) i686_GDT_CODE_SEGMENT
                  (IDT_FLAG_RING0 OR IDT_FLAG_GATE_32BIT_INT)) [0..255]"

definition i686_ISR_Initialize :: "(int \<Rightarrow> u32) \<Rightarrow> 'a kirq_scheme \<Rightarrow> 'a kirq_scheme option" where
  "i686_ISR_Initialize isr_addr s = do {
     s1 \<leftarrow> i686_ISR_InitializeGates isr_addr s;
     s2 \<leftarrow> foldM i686_IDT_EnableGate [0..255] s1;
     i686_IDT_DisableGate 0x80 s2 }"

definition i686_ISR_RegisterHandler :: "int \<Rightarrow> isr_id \<Rightarrow> 'a kirq_scheme \<Rightarrow> 'a kirq_scheme option" where
  "i686_ISR_RegisterHandler interrupt handler s = do {
     hs \<leftarrow> arr_set (g_ISRHandlers s) interrupt (Some handler);
     i686_IDT_EnableGate interrupt (s\<lparr>g_ISRHandlers := hs\<rparr>) }"

definition g_Exceptions :: "string list" where
  "g_Exceptions = [''Divide by zero error'', ''Debug'', ''Non-maskable Interrupt'', ''Breakpoint'',
     ''Overflow'', ''Bound Range Exceeded'', ''Invalid Opcode'', ''Device Not Available'',
     ''Double Fault'', ''Coprocessor Segment Overrun'', ''Invalid TSS'', ''Segment Not Present'',
     ''Stack-Segment Fault'', ''General Protection Fault'', ''Page Fault'', '''',
     ''x87 Floating-Point Exception'', ''Alignment Check'', ''Machine Check'',
     ''SIMD Floating-Point Exception'', ''Virtualization Exception'', ''Control Protection Exception '',
     '''', '''', '''', '''', '''', '''', ''Hypervisor Injection Exception'',
     ''VMM Communication Exception'', ''Security Exception'', '''']"

text \<open>\<open>i686_Panic\<close> (assembly) masks interrupts and halts the processor for good.\<close>

definition i686_Panic :: "'a kirq_scheme \<Rightarrow> 'a kirq_scheme" where
  "i686_Panic s = s\<lparr>interrupts_on := False, halted := True\<rparr>"

definition log_crit_regs :: "Registers \<Rightarrow> 'a kirq_scheme \<Rightarrow> 'a kirq_scheme" where
  "log_crit_regs regs s =
     (let s1 = logf ''ISR'' LVL_CRITICAL ''  eax=%x  ebx=%x  ecx=%x  edx=%x  esi=%x  edi=%x''
                 [VI (r_eax regs), VI (r_ebx regs), VI (r_ecx regs), VI (r_edx regs), VI (r_esi regs), VI (r_edi regs)] s;
          s2 = logf ''ISR'' LVL_CRITICAL ''  esp=%x  ebp=%x  eip=%x  eflags=%x  cs=%x  ds=%x  ss=%x''
                 [VI (r_esp regs), VI (r_ebp regs), VI (r_eip regs), VI (r_eflags regs), VI (r_cs regs),
                  VI (r_ds regs), VI (r_ss regs)] s1
      in logf ''ISR'' LVL_CRITICAL ''  interrupt=%x  errorcode=%x'' [VI (r_interrupt regs), VI (r_error regs)] s2)"

definition i686_ISR_Handler ::
    "(isr_id \<Rightarrow> Registers \<Rightarrow> 'a kirq_scheme \<Rightarrow> (Registers \<times> 'a kirq_scheme) option) \<Rightarrow>
      Registers \<Rightarrow> 'a kirq_scheme \<Rightarrow> (Registers \<times> 'a kirq_scheme) option" where
  "i686_ISR_Handler run regs s = do {
     h \<leftarrow> arr_get (g_ISRHandlers s) (uint (r_interrupt regs));
     (case h of
        Some f \<Rightarrow> run f regs s
      | None \<Rightarrow>
          if r_interrupt regs \<ge> 32 then
            Some (regs, logf ''ISR'' LVL_ERROR ''Unhandled interrupt %d!'' [VI (r_interrupt regs)] s)
          else do {
            name \<leftarrow> arr_get g_Exceptions (uint (r_interrupt regs));
            Some (regs, i686_Panic (printf ''KERNEL PANIC!'' []
              (logf ''ISR'' LVL_CRITICAL ''KERNEL PANIC!'' []
              (log_crit_regs regs
              (logf ''ISR'' LVL_CRITICAL ''Unhandled exception %d %s''
                 [VI (r_interrupt regs), VS (bytes name)] s))))) }) }"

section \<open>The 8259 interrupt controller\<close>

definition PIC1_COMMAND_PORT :: u16 where "PIC1_COMMAND_PORT = 0x20"
definition PIC1_DATA_PORT :: u16 where "PIC1_DATA_PORT = 0x21"
definition PIC2_COMMAND_PORT :: u16 where "PIC2_COMMAND_PORT = 0xA0"
definition PIC2_DATA_PORT :: u16 where "PIC2_DATA_PORT = 0xA1"
definition UNUSED_PORT :: u16 where "UNUSED_PORT = 0x80"
definition PIC_CMD_END_OF_INTERRUPT :: u8 where "PIC_CMD_END_OF_INTERRUPT = 0x20"
definition PIC_CMD_READ_IRR :: u8 where "PIC_CMD_READ_IRR = 0x0A"
definition PIC_CMD_READ_ISR :: u8 where "PIC_CMD_READ_ISR = 0x0B"

lemmas pic_defs = PIC1_COMMAND_PORT_def PIC1_DATA_PORT_def PIC2_COMMAND_PORT_def PIC2_DATA_PORT_def
  UNUSED_PORT_def PIC_CMD_END_OF_INTERRUPT_def PIC_CMD_READ_IRR_def PIC_CMD_READ_ISR_def

definition i686_iowait :: "'a vga_scheme \<Rightarrow> 'a vga_scheme" where
  "i686_iowait s = i686_outb UNUSED_PORT 0 s"

text \<open>A port write followed by a wait.\<close>

definition outb_wait :: "u16 \<Rightarrow> u8 \<Rightarrow> 'a vga_scheme \<Rightarrow> 'a vga_scheme" where
  "outb_wait port v s = i686_iowait (i686_outb port v s)"

definition i8259_SetMask :: "u16 \<Rightarrow> 'a kirq_scheme \<Rightarrow> 'a kirq_scheme" where
  "i8259_SetMask newMask s =
     (let s1 = s\<lparr>g_PicMask := newMask\<rparr>;
          s2 = outb_wait PIC1_DATA_PORT (ucast (newMask AND 0xFF)) s1
      in outb_wait PIC2_DATA_PORT (ucast (drop_bit 8 newMask)) s2)"

definition i8259_GetMask :: "(u16 \<Rightarrow> 'a kirq_scheme \<Rightarrow> u8) \<Rightarrow> 'a kirq_scheme \<Rightarrow> u16" where
  "i8259_GetMask inb s = ucast (inb PIC1_DATA_PORT s) OR push_bit 8 (ucast (inb PIC2_DATA_PORT s))"

definition i8259_Configure :: "u8 \<Rightarrow> u8 \<Rightarrow> bool \<Rightarrow> 'a kirq_scheme \<Rightarrow> 'a kirq_scheme" where
  "i8259_Configure offsetPic1 offsetPic2 autoEoi s =
     (let s1 = i8259_SetMask 0xFFFF s;
          s2 = outb_wait PIC2_COMMAND_PORT (0x01 OR 0x10) (outb_wait PIC1_COMMAND_PORT (0x01 OR 0x10) s1);
          s3 = outb_wait PIC2_DATA_PORT offsetPic2 (outb_wait PIC1_DATA_PORT offsetPic1 s2);
          s4 = outb_wait PIC2_DATA_PORT 0x2 (outb_wait PIC1_DATA_PORT 0x4 s3);
          icw4 = (if autoEoi then 0x1 OR 0x2 else 0x1);
          s5 = outb_wait PIC2_DATA_PORT icw4 (outb_wait PIC1_DATA_PORT icw4 s4)
      in i8259_SetMask 0xFFFF s5)"

definition i8259_SendEndOfInterrupt :: "int \<Rightarrow> 'a vga_scheme \<Rightarrow> 'a vga_scheme" where
  "i8259_SendEndOfInterrupt irq s =
     i686_outb PIC1_COMMAND_PORT PIC_CMD_END_OF_INTERRUPT
       (if irq \<ge> 8 then i686_outb PIC2_COMMAND_PORT PIC_CMD_END_OF_INTERRUPT s else s)"

definition i8259_Disable :: "'a kirq_scheme \<Rightarrow> 'a kirq_scheme" where
  "i8259_Disable s = i8259_SetMask 0xFFFF s"

definition i8259_Mask :: "nat \<Rightarrow> 'a kirq_scheme \<Rightarrow> 'a kirq_scheme" where
  "i8259_Mask irq s = i8259_SetMask (g_PicMask s OR push_bit irq 1) s"

definition i8259_Unmask :: "nat \<Rightarrow> 'a kirq_scheme \<Rightarrow> 'a kirq_scheme" where
  "i8259_Unmask irq s = i8259_SetMask (g_PicMask s AND NOT (push_bit irq 1)) s"

definition i8259_ReadIrqRequestRegister ::
    "(u16 \<Rightarrow> 'a kirq_scheme \<Rightarrow> u8) \<Rightarrow> 'a kirq_scheme \<Rightarrow> u16 \<times> 'a kirq_scheme" where
  "i8259_ReadIrqRequestRegister inb s =
     (let s1 = i686_outb PIC2_COMMAND_PORT PIC_CMD_READ_IRR (i686_outb PIC1_COMMAND_PORT PIC_CMD_READ_IRR s)
      in (ucast (inb PIC2_COMMAND_PORT s1) OR push_bit 8 (ucast (inb PIC2_COMMAND_PORT s1)), s1))"

definition i8259_ReadInServiceRegister ::
    "(u16 \<Rightarrow> 'a kirq_scheme \<Rightarrow> u8) \<Rightarrow> 'a kirq_scheme \<Rightarrow> u16 \<times> 'a kirq_scheme" where
  "i8259_ReadInServiceRegister inb s =
     (let s1 = i686_outb PIC2_COMMAND_PORT PIC_CMD_READ_ISR (i686_outb PIC1_COMMAND_PORT PIC_CMD_READ_ISR s)
      in (ucast (inb PIC2_COMMAND_PORT s1) OR push_bit 8 (ucast (inb PIC2_COMMAND_PORT s1)), s1))"

definition i8259_Probe :: "(u16 \<Rightarrow> 'a kirq_scheme \<Rightarrow> u8) \<Rightarrow> 'a kirq_scheme \<Rightarrow> bool \<times> 'a kirq_scheme" where
  "i8259_Probe inb s =
     (let s1 = i8259_SetMask 0x1337 (i8259_Disable s) in (i8259_GetMask inb s1 = 0x1337, s1))"

section \<open>Interrupt requests\<close>

definition i686_IRQ_Handler ::
    "(irq_id \<Rightarrow> Registers \<Rightarrow> 'a kirq_scheme \<Rightarrow> 'a kirq_scheme option) \<Rightarrow>
      Registers \<Rightarrow> 'a kirq_scheme \<Rightarrow> 'a kirq_scheme option" where
  "i686_IRQ_Handler run regs s = do {
     let irq = sint (r_interrupt regs - of_int PIC_REMAP_OFFSET);
     h \<leftarrow> arr_get (g_IRQHandlers s) irq;
     s1 \<leftarrow> (case h of
              Some f \<Rightarrow> run f regs s
            | None \<Rightarrow> Some (logf ''PIC'' LVL_WARN ''Unhandled IRQ %d...'' [VI (of_int irq)] s));
     (if g_Driver s1 then Some (i8259_SendEndOfInterrupt irq s1) else None) }"

definition i686_IRQ_RegisterHandler :: "int \<Rightarrow> irq_id \<Rightarrow> 'a kirq_scheme \<Rightarrow> 'a kirq_scheme option" where
  "i686_IRQ_RegisterHandler irq handler s = do {
     hs \<leftarrow> arr_set (g_IRQHandlers s) irq (Some handler);
     Some (s\<lparr>g_IRQHandlers := hs\<rparr>) }"

definition i686_EnableInterrupts :: "'a kirq_scheme \<Rightarrow> 'a kirq_scheme" where
  "i686_EnableInterrupts s = s\<lparr>interrupts_on := True\<rparr>"

definition i686_IRQ_Initialize ::
    "(u16 \<Rightarrow> 'a kirq_scheme \<Rightarrow> u8) \<Rightarrow> 'a kirq_scheme \<Rightarrow> 'a kirq_scheme option" where
  "i686_IRQ_Initialize inb s =
     (let (found, s1) = i8259_Probe inb s;
          s2 = (if found then s1\<lparr>g_Driver := True\<rparr> else s1)
      in if \<not> g_Driver s2 then Some (logf ''PIC'' LVL_WARN ''No PIC found!'' [] s2)
         else do {
           let s3 = logf ''PIC'' LVL_INFO ''Found %s PIC.'' [VS (bytes ''8259 PIC'')] s2;
           let s4 = i8259_Configure (of_int PIC_REMAP_OFFSET) (of_int (PIC_REMAP_OFFSET + 8)) False s3;
           s5 \<leftarrow> foldM (\<lambda>i. i686_ISR_RegisterHandler (PIC_REMAP_OFFSET + i) ISR_irq) [0..15] s4;
           Some (i686_EnableInterrupts s5) })"

section \<open>The timer\<close>

definition pit_tick_handler :: "'a kirq_scheme \<Rightarrow> 'a kirq_scheme" where
  "pit_tick_handler s = s\<lparr>s_ticks := s_ticks s + 1\<rparr>"

definition time_get_ticks :: "'a kirq_scheme \<Rightarrow> u64" where
  "time_get_ticks s = s_ticks s"

definition sys_time :: "'a kirq_scheme \<Rightarrow> u32" where
  "sys_time s = ucast (s_ticks s)"

definition PIT_INPUT_HZ :: u32 where "PIT_INPUT_HZ = 1193182"
definition HZ :: u32 where "HZ = 1000"

definition pit_init :: "u32 \<Rightarrow> 'a vga_scheme \<Rightarrow> 'a vga_scheme" where
  "pit_init frequency s =
     (if frequency < 19 \<or> frequency > PIT_INPUT_HZ then
        logf ''PIT'' LVL_DEBUG ''Invalid frequency %d Hz (must be between 19 and %d)''
          [VI frequency, VI PIT_INPUT_HZ] s
      else
        (let divisor = (ucast (PIT_INPUT_HZ div frequency) :: u16);
             d = (ucast divisor :: u32);
             s1 = logf ''PIT'' LVL_DEBUG ''Input frequency: %d Hz'' [VI PIT_INPUT_HZ] s;
             s2 = logf ''PIT'' LVL_DEBUG ''Requested frequency: %d Hz'' [VI frequency] s1;
             s3 = logf ''PIT'' LVL_DEBUG ''Calculated divisor: %d (0x%X)'' [VI d, VI d] s2;
             s4 = logf ''PIT'' LVL_DEBUG ''Actual frequency will be: %d Hz'' [VI (PIT_INPUT_HZ div d)] s3;
             s5 = (if frequency = 1000
                   then logf ''PIT'' LVL_DEBUG ''DEBUG: For 1000Hz, expected divisor ~1193, got %d'' [VI d] s4
                   else s4);
             s6 = logf ''PIT'' LVL_DEBUG
                    ''Command byte: 0x36 (channel 0, lobyte/hibyte, mode 3, binary)'' [] s5;
             s7 = i686_outb 0x43 0x36 s6;
             s8 = i686_outb 0x40 (ucast (divisor AND 0xFF)) s7;
             s9 = i686_outb 0x40 (ucast (drop_bit 8 divisor AND 0xFF)) s8
         in logf ''PIT'' LVL_DEBUG ''Configuration complete'' [] s9))"

definition time_init :: "'a kirq_scheme \<Rightarrow> 'a kirq_scheme option" where
  "time_init s = do {
     let s1 = logf ''Time'' LVL_DEBUG ''Initializing PIT with frequency %d Hz'' [VI HZ] s;
     let s2 = logf ''Time'' LVL_DEBUG ''Registering PIT handler for IRQ 0'' [] (pit_init HZ s1);
     s3 \<leftarrow> i686_IRQ_RegisterHandler 0 IRQ_timer s2;
     let s4 = logf ''Time'' LVL_DEBUG ''Timer initialized with HZ=%d'' [VI HZ] s3;
     Some (logf ''Time'' LVL_DEBUG ''Timer initialization completed'' [] s4) }"

section \<open>Bringing the hardware layer up\<close>

text \<open>\<open>i686_GDT_Load\<close> and \<open>i686_IDT_Load\<close> are assembly that loads a processor register.\<close>

definition HAL_Initialize ::
    "(u16 \<Rightarrow> 'a kirq_scheme \<Rightarrow> u8) \<Rightarrow> (int \<Rightarrow> u32) \<Rightarrow> 'a kirq_scheme \<Rightarrow> 'a kirq_scheme option" where
  "HAL_Initialize inb isr_addr s = do {
     s1 \<leftarrow> i686_ISR_Initialize isr_addr (VGA_clrscr s);
     s2 \<leftarrow> i686_IRQ_Initialize inb s1;
     time_init s2 }"

section \<open>Descriptors say what was put in\<close>

text \<open>Reading the fields the way the processor does.\<close>

definition gdt_base :: "GDTEntry \<Rightarrow> u32" where
  "gdt_base e = ucast (BaseLow16 e) OR push_bit 16 (ucast (BaseMiddle e)) OR push_bit 24 (ucast (BaseHigh8 e))"

definition gdt_limit :: "GDTEntry \<Rightarrow> u32" where
  "gdt_limit e = ucast (LimitLow e) OR push_bit 16 (ucast (FlagsLimitHi e) AND 0xF)"

definition gate_base :: "IDTEntry \<Rightarrow> u32" where
  "gate_base e = ucast (BaseLow e) OR push_bit 16 (ucast (BaseHigh e))"

lemma mask_words: "(0xFF :: 'a::len word) = mask 8" "(0xFFFF :: 'a::len word) = mask 16"
  "(0xF :: 'a::len word) = mask 4"
  by (simp_all add: mask_eq_exp_minus_1)

lemma gdt_base_entry: "gdt_base (GDT_ENTRY base limit acc flags) = base"
  unfolding gdt_base_def GDT_ENTRY_def GDTEntry.select_convs mask_words
proof (rule bit_word_eqI)
  fix n assume "n < LENGTH(32)"
  then consider "n < 16" | "16 \<le> n" "n < 24" | "24 \<le> n" "n < 32" by fastforce
  then show "bit ((ucast (ucast (base AND mask 16) :: u16) :: u32)
      OR push_bit 16 (ucast (ucast (drop_bit 16 base AND mask 8) :: u8))
      OR push_bit 24 (ucast (ucast (drop_bit 24 base AND mask 8) :: u8))) n = bit base n"
    by cases (auto simp: bit_simps)
qed

lemma gate_base_entry:
  fixes base :: u32
  shows "(ucast (ucast (base AND 0xFFFF) :: u16) :: u32) OR
    push_bit 16 (ucast (ucast (drop_bit 16 base AND 0xFFFF) :: u16)) = base"
  unfolding mask_words
proof (rule bit_word_eqI)
  fix n assume "n < LENGTH(32)"
  then consider "n < 16" | "16 \<le> n" "n < 32" by fastforce
  then show "bit ((ucast (ucast (base AND mask 16) :: u16) :: u32) OR
      push_bit 16 (ucast (ucast (drop_bit 16 base AND mask 16) :: u16))) n = bit base n"
    by cases (auto simp: bit_simps)
qed

section \<open>The interrupt table after start-up\<close>

definition gate :: "u32 \<Rightarrow> IDTEntry" where
  "gate base = \<lparr>BaseLow = ucast (base AND 0xFFFF), SegmentSelector = i686_GDT_CODE_SEGMENT, Reserved = 0,
     Flags = IDT_FLAG_RING0 OR IDT_FLAG_GATE_32BIT_INT, BaseHigh = ucast (drop_bit 16 base AND 0xFFFF)\<rparr>"

definition present :: "IDTEntry \<Rightarrow> IDTEntry" where
  "present e = e\<lparr>Flags := Flags e OR IDT_FLAG_PRESENT\<rparr>"

lemma upto_snoc: "[0..int (Suc n) - 1] = [0..int n - 1] @ [int n]"
  by (simp add: upto_rec2)

lemma set_gates:
  fixes s :: "'a kirq_scheme" and f :: "int \<Rightarrow> u32"
  defines "step \<equiv> \<lambda>i. i686_IDT_SetGate i (f i) i686_GDT_CODE_SEGMENT (IDT_FLAG_RING0 OR IDT_FLAG_GATE_32BIT_INT)"
  shows "n \<le> length (g_IDT s) \<Longrightarrow> foldM step [0..int n - 1] s =
    Some (s\<lparr>g_IDT := map (\<lambda>i. gate (f (int i))) [0..<n] @ drop n (g_IDT s)\<rparr>)"
proof (induction n)
  case 0
  then show ?case by simp
next
  case (Suc n)
  let ?t = "s\<lparr>g_IDT := map (\<lambda>i. gate (f (int i))) [0..<n] @ drop n (g_IDT s)\<rparr>"
  have "drop n (g_IDT s) = g_IDT s ! n # drop (Suc n) (g_IDT s)"
    using Suc.prems by (simp add: Cons_nth_drop_Suc)
  then have "step (int n) ?t = Some (s\<lparr>g_IDT := map (\<lambda>i. gate (f (int i))) [0..<Suc n] @ drop (Suc n) (g_IDT s)\<rparr>)"
    by (simp add: step_def i686_IDT_SetGate_def gate_def list_update_append)
  with Suc show ?case unfolding upto_snoc foldM_append by simp
qed

lemma enable_gates:
  "n \<le> length (g_IDT s) \<Longrightarrow> foldM i686_IDT_EnableGate [0..int n - 1] s =
    Some (s\<lparr>g_IDT := map present (take n (g_IDT s)) @ drop n (g_IDT s)\<rparr>)"
proof (induction n)
  case 0
  then show ?case by simp
next
  case (Suc n)
  let ?t = "s\<lparr>g_IDT := map present (take n (g_IDT s)) @ drop n (g_IDT s)\<rparr>"
  have "drop n (g_IDT s) = g_IDT s ! n # drop (Suc n) (g_IDT s)"
    "take (Suc n) (g_IDT s) = take n (g_IDT s) @ [g_IDT s ! n]"
    using Suc.prems by (simp_all add: Cons_nth_drop_Suc take_Suc_conv_app_nth)
  then have "i686_IDT_EnableGate (int n) ?t =
      Some (s\<lparr>g_IDT := map present (take (Suc n) (g_IDT s)) @ drop (Suc n) (g_IDT s)\<rparr>)"
    using Suc.prems by (simp add: i686_IDT_EnableGate_def present_def list_update_append nth_append min_def)
  with Suc show ?case unfolding upto_snoc foldM_append by simp
qed

lemma ISR_Initialize_table:
  assumes "length (g_IDT s) = 256"
  shows "\<exists>s'. i686_ISR_Initialize isr_addr s = Some s' \<and> length (g_IDT s') = 256 \<and>
    (\<forall>i < 256. gate_base (g_IDT s' ! i) = isr_addr (int i) \<and>
      SegmentSelector (g_IDT s' ! i) = i686_GDT_CODE_SEGMENT \<and>
      Flags (g_IDT s' ! i) = (if i = 0x80 then 0x0E else 0x8E))"
proof -
  let ?t = "map (\<lambda>i. present (gate (isr_addr (int i)))) [0..<256]"
  have r: "[0..(255::int)] = [0..int 256 - 1]" by simp
  have "i686_ISR_InitializeGates isr_addr s = Some (s\<lparr>g_IDT := map (\<lambda>i. gate (isr_addr (int i))) [0..<256]\<rparr>)"
    unfolding i686_ISR_InitializeGates_def r using set_gates [of 256 s isr_addr] assms by simp
  moreover have "foldM i686_IDT_EnableGate [0..255] (s\<lparr>g_IDT := map (\<lambda>i. gate (isr_addr (int i))) [0..<256]\<rparr>) =
      Some (s\<lparr>g_IDT := ?t\<rparr>)"
    unfolding r by (subst enable_gates) (simp_all add: o_def)
  ultimately have "i686_ISR_Initialize isr_addr s = i686_IDT_DisableGate 0x80 (s\<lparr>g_IDT := ?t\<rparr>)"
    by (simp add: i686_ISR_Initialize_def)
  also have "\<dots> = Some (s\<lparr>g_IDT := ?t[0x80 := (?t ! 0x80)\<lparr>Flags := Flags (?t ! 0x80) AND NOT IDT_FLAG_PRESENT\<rparr>]\<rparr>)"
    by (simp add: i686_IDT_DisableGate_def)
  finally show ?thesis
    by (auto simp: nth_list_update present_def gate_def gate_base_def gate_base_entry IDT_FLAG_PRESENT_def
        IDT_FLAG_RING0_def IDT_FLAG_GATE_32BIT_INT_def)
qed

text \<open>The dispatcher is total on the 256 vectors, and an exception without a handler halts.\<close>

lemma g_Exceptions_length [simp]: "length g_Exceptions = 32"
  by (simp add: g_Exceptions_def)

lemma more_kirq:
  fixes s s' :: "'a kirq_scheme"
  assumes "vga.more s' = vga.more s"
  shows "s_ticks s' = s_ticks s" "g_IDT s' = g_IDT s" "g_ISRHandlers s' = g_ISRHandlers s"
    "g_IRQHandlers s' = g_IRQHandlers s" "g_PicMask s' = g_PicMask s" "g_Driver s' = g_Driver s"
    "interrupts_on s' = interrupts_on s" "halted s' = halted s" "kirq.more s' = kirq.more s"
  using assms by (cases s; cases s'; simp)+

lemmas stdio_kirq [simp] = stdio_more [THEN more_kirq(1)] stdio_more [THEN more_kirq(2)]
  stdio_more [THEN more_kirq(3)] stdio_more [THEN more_kirq(4)] stdio_more [THEN more_kirq(5)]
  stdio_more [THEN more_kirq(6)] stdio_more [THEN more_kirq(7)] stdio_more [THEN more_kirq(8)]
  stdio_more [THEN more_kirq(9)]

lemma ISR_Handler_unhandled:
  assumes "length (g_ISRHandlers s) = 256" "r_interrupt regs < 256"
    "g_ISRHandlers s ! unat (r_interrupt regs) = None"
  shows "\<exists>s'. i686_ISR_Handler run regs s = Some (regs, s') \<and>
    halted s' = (halted s \<or> r_interrupt regs < 32)"
proof -
  let ?i = "uint (r_interrupt regs)"
  have i: "?i < 256" "0 \<le> ?i" "nat ?i = unat (r_interrupt regs)" "r_interrupt regs < 32 \<Longrightarrow> ?i < 32"
    using assms(2) by (simp_all add: word_less_def)
  show ?thesis
  proof (cases "r_interrupt regs < 32")
    case True
    then have "\<not> 32 \<le> r_interrupt regs" by simp
    with True i assms(1,3) show ?thesis
      by (simp add: i686_ISR_Handler_def i686_Panic_def log_crit_regs_def)
  next
    case False
    then have "32 \<le> r_interrupt regs" by simp
    with False i assms(1,3) show ?thesis by (simp add: i686_ISR_Handler_def)
  qed
qed

section \<open>The interrupt controller's protocol\<close>

text \<open>What the drivers rely on: a data port reads back the mask last written to it.\<close>

definition last_out :: "u16 \<Rightarrow> 'a vga_scheme \<Rightarrow> u8" where
  "last_out p s = foldl (\<lambda>v (q, w). if q = p then w else v) 0 (ports s)"

definition masks_read_back :: "(u16 \<Rightarrow> 'a kirq_scheme \<Rightarrow> u8) \<Rightarrow> bool" where
  "masks_read_back inb \<longleftrightarrow> (\<forall>s. \<forall>p \<in> {PIC1_DATA_PORT, PIC2_DATA_PORT}. inb p s = last_out p s)"

lemma outb_wait_ports [simp]:
  "ports (outb_wait p v s) = ports s @ [(p, v), (UNUSED_PORT, 0)]"
  "vga.more (outb_wait p v s) = vga.more s"
  by (simp_all add: outb_wait_def i686_iowait_def i686_outb_def)

lemma last_out_outb_wait:
  "last_out p (outb_wait q v s) = (if UNUSED_PORT = p then 0 else if q = p then v else last_out p s)"
  by (simp add: last_out_def)

lemma SetMask_fields [simp]:
  "g_PicMask (i8259_SetMask k s) = k" "g_Driver (i8259_SetMask k s) = g_Driver s"
  "g_ISRHandlers (i8259_SetMask k s) = g_ISRHandlers s" "g_IDT (i8259_SetMask k s) = g_IDT s"
  "ports (i8259_SetMask k s) = ports s @ [(PIC1_DATA_PORT, ucast (k AND 0xFF)), (UNUSED_PORT, 0),
     (PIC2_DATA_PORT, ucast (drop_bit 8 k)), (UNUSED_PORT, 0)]"
  by (simp_all add: i8259_SetMask_def Let_def more_kirq [OF outb_wait_ports(2)])

lemma SetMask_GetMask:
  assumes "masks_read_back inb"
  shows "i8259_GetMask inb (i8259_SetMask k s) = k"
proof -
  have "inb PIC1_DATA_PORT (i8259_SetMask k s) = ucast (k AND 0xFF)"
    "inb PIC2_DATA_PORT (i8259_SetMask k s) = ucast (drop_bit 8 k)"
    using assms by (simp_all add: masks_read_back_def i8259_SetMask_def last_out_outb_wait pic_defs)
  moreover have "(ucast (ucast (k AND mask 8) :: u8) :: u16) OR push_bit 8 (ucast (ucast (drop_bit 8 k) :: u8)) = k"
  proof (rule bit_word_eqI)
    fix n assume "n < LENGTH(16)"
    then consider "n < 8" | "8 \<le> n" "n < 16" by fastforce
    then show "bit ((ucast (ucast (k AND mask 8) :: u8) :: u16) OR
        push_bit 8 (ucast (ucast (drop_bit 8 k) :: u8))) n = bit k n"
      by cases (auto simp: bit_simps)
  qed
  ultimately show ?thesis by (simp add: i8259_GetMask_def mask_words)
qed

text \<open>The commands of the initialization, without the waits on the unused port.\<close>

definition pic_commands :: "'a vga_scheme \<Rightarrow> (u16 \<times> u8) list" where
  "pic_commands s = filter (\<lambda>(p, v). p \<in> {PIC1_COMMAND_PORT, PIC1_DATA_PORT, PIC2_COMMAND_PORT, PIC2_DATA_PORT}) (ports s)"

lemma Configure_commands:
  "pic_commands (i8259_Configure o1 o2 False s) = pic_commands s @
     [(0x21, 0xFF), (0xA1, 0xFF), (0x20, 0x11), (0xA0, 0x11), (0x21, o1), (0xA1, o2),
      (0x21, 4), (0xA1, 2), (0x21, 1), (0xA1, 1), (0x21, 0xFF), (0xA1, 0xFF)]"
  by (simp add: pic_commands_def i8259_Configure_def Let_def pic_defs)

lemma EOI_commands:
  "pic_commands (i8259_SendEndOfInterrupt irq s) =
     pic_commands s @ (if irq \<ge> 8 then [(0xA0, 0x20)] else []) @ [(0x20, 0x20)]"
  by (simp add: pic_commands_def i8259_SendEndOfInterrupt_def pic_defs i686_outb_def)

text \<open>Both status registers are read from the second controller only.\<close>

lemma ReadIrr_pic2_only:
  "fst (i8259_ReadIrqRequestRegister (\<lambda>p s. if p = PIC2_COMMAND_PORT then x else y) s) =
    ucast x OR push_bit 8 (ucast x)"
  by (simp add: i8259_ReadIrqRequestRegister_def Let_def)

lemma RegisterHandler_Some:
  assumes "length (g_ISRHandlers s) = 256" "length (g_IDT s) = 256" "k < 256"
  shows "i686_ISR_RegisterHandler (int k) h s =
    Some (s\<lparr>g_ISRHandlers := (g_ISRHandlers s)[k := Some h], g_IDT := (g_IDT s)[k := present (g_IDT s ! k)]\<rparr>)"
  using assms by (simp add: i686_ISR_RegisterHandler_def i686_IDT_EnableGate_def present_def)

lemma register_irqs:
  assumes "length (g_ISRHandlers s) = 256" "length (g_IDT s) = 256" "n \<le> 16"
  shows "\<exists>hs t. foldM (\<lambda>i. i686_ISR_RegisterHandler (PIC_REMAP_OFFSET + i) ISR_irq) [0..int n - 1] s =
      Some (s\<lparr>g_ISRHandlers := hs, g_IDT := t\<rparr>) \<and> length hs = 256 \<and> length t = 256 \<and>
    (\<forall>i < 256. hs ! i = (if 32 \<le> i \<and> i < 32 + n then Some ISR_irq else g_ISRHandlers s ! i))"
  using assms(3)
proof (induction n)
  case 0
  have "s = s\<lparr>g_ISRHandlers := g_ISRHandlers s, g_IDT := g_IDT s\<rparr>" by simp
  with assms(1,2) show ?case by (intro exI [of _ "g_ISRHandlers s"] exI [of _ "g_IDT s"]) auto
next
  case (Suc n)
  then obtain hs t where IH:
    "foldM (\<lambda>i. i686_ISR_RegisterHandler (PIC_REMAP_OFFSET + i) ISR_irq) [0..int n - 1] s =
      Some (s\<lparr>g_ISRHandlers := hs, g_IDT := t\<rparr>)" "length hs = 256" "length t = 256"
    "\<forall>i < 256. hs ! i = (if 32 \<le> i \<and> i < 32 + n then Some ISR_irq else g_ISRHandlers s ! i)" by auto
  have "PIC_REMAP_OFFSET + int n = int (32 + n)" by (simp add: PIC_REMAP_OFFSET_def)
  moreover have "i686_ISR_RegisterHandler (int (32 + n)) ISR_irq (s\<lparr>g_ISRHandlers := hs, g_IDT := t\<rparr>) =
      Some (s\<lparr>g_ISRHandlers := hs[32 + n := Some ISR_irq], g_IDT := t[32 + n := present (t ! (32 + n))]\<rparr>)"
    using IH(2,3) Suc.prems by (subst RegisterHandler_Some) simp_all
  ultimately have "foldM (\<lambda>i. i686_ISR_RegisterHandler (PIC_REMAP_OFFSET + i) ISR_irq) [0..int (Suc n) - 1] s =
      Some (s\<lparr>g_ISRHandlers := hs[32 + n := Some ISR_irq], g_IDT := t[32 + n := present (t ! (32 + n))]\<rparr>)"
    unfolding upto_snoc foldM_append IH(1) by simp
  then show ?case using IH(2-4) Suc.prems
    by (intro exI [of _ "hs[32 + n := Some ISR_irq]"] exI [of _ "t[32 + n := present (t ! (32 + n))]"])
      (auto simp: nth_list_update less_Suc_eq)
qed

lemma pic_commands_simps:
  "pic_commands (i8259_SetMask k s) =
    pic_commands s @ [(0x21, ucast (k AND 0xFF)), (0xA1, ucast (drop_bit 8 k))]"
  "pic_commands (s\<lparr>g_ISRHandlers := hs, g_IDT := t\<rparr>) = pic_commands s"
  "pic_commands (s\<lparr>interrupts_on := b\<rparr>) = pic_commands s"
  "pic_commands (s\<lparr>g_Driver := b\<rparr>) = pic_commands s"
  by (simp_all add: pic_commands_def pic_defs)

text \<open>The debug port is no command of the controller.\<close>

lemma pic_commands_fputc [simp]: "pic_commands (fputc c VFS_FD_DEBUG s) = pic_commands s"
  by (simp add: fputc_cases e9_putc_def pic_commands_def pic_defs)

lemma pic_commands_fputs [simp]: "pic_commands (fputs str VFS_FD_DEBUG s) = pic_commands s"
  unfolding fputs_def by (rule fold_inv) simp_all

lemma pic_commands_logf [simp]: "pic_commands (logf md l fmt args s) = pic_commands s"
  by (simp add: logf_def Let_def fprintf_def vfprintf_expand)

lemma Configure_fields [simp]:
  "g_PicMask (i8259_Configure o1 o2 b s) = 0xFFFF" "g_Driver (i8259_Configure o1 o2 b s) = g_Driver s"
  "g_ISRHandlers (i8259_Configure o1 o2 b s) = g_ISRHandlers s" "g_IDT (i8259_Configure o1 o2 b s) = g_IDT s"
  by (simp_all add: i8259_Configure_def Let_def more_kirq [OF outb_wait_ports(2)])

lemma IRQ_Initialize_ok:
  assumes "masks_read_back inb" "length (g_ISRHandlers s) = 256" "length (g_IDT s) = 256"
  shows "\<exists>s'. i686_IRQ_Initialize inb s = Some s' \<and> g_Driver s' \<and> interrupts_on s' \<and> g_PicMask s' = 0xFFFF \<and>
    (\<forall>i < 256. g_ISRHandlers s' ! i = (if 32 \<le> i \<and> i < 48 then Some ISR_irq else g_ISRHandlers s ! i)) \<and>
    pic_commands s' = pic_commands s @
     [(0x21, 0xFF), (0xA1, 0xFF), (0x21, 0x37), (0xA1, 0x13),
      (0x21, 0xFF), (0xA1, 0xFF), (0x20, 0x11), (0xA0, 0x11), (0x21, 0x20), (0xA1, 0x28),
      (0x21, 4), (0xA1, 2), (0x21, 1), (0xA1, 1), (0x21, 0xFF), (0xA1, 0xFF)]"
proof -
  let ?s1 = "i8259_SetMask 0x1337 (i8259_Disable s)"
  have probe: "i8259_Probe inb s = (True, ?s1)"
    using SetMask_GetMask [OF assms(1)] by (simp add: i8259_Probe_def Let_def)
  define s3 where "s3 = logf ''PIC'' LVL_INFO ''Found %s PIC.'' [VS (bytes ''8259 PIC'')] (?s1\<lparr>g_Driver := True\<rparr>)"
  define s4 where "s4 = i8259_Configure (of_int PIC_REMAP_OFFSET) (of_int (PIC_REMAP_OFFSET + 8)) False s3"
  have len: "length (g_ISRHandlers s4) = 256" "length (g_IDT s4) = 256"
    using assms(2,3) by (simp_all add: s4_def s3_def i8259_Disable_def)
  have old: "g_ISRHandlers s4 = g_ISRHandlers s" by (simp add: s4_def s3_def i8259_Disable_def)
  have r: "[0..(15::int)] = [0..int 16 - 1]" by simp
  from register_irqs [OF len order_refl] obtain hs t where reg:
    "foldM (\<lambda>i. i686_ISR_RegisterHandler (PIC_REMAP_OFFSET + i) ISR_irq) [0..15] s4 =
      Some (s4\<lparr>g_ISRHandlers := hs, g_IDT := t\<rparr>)"
    "\<forall>i < 256. hs ! i = (if 32 \<le> i \<and> i < 48 then Some ISR_irq else g_ISRHandlers s4 ! i)"
    unfolding r by auto
  let ?s' = "i686_EnableInterrupts (s4\<lparr>g_ISRHandlers := hs, g_IDT := t\<rparr>)"
  have "i686_IRQ_Initialize inb s = Some ?s'"
    unfolding i686_IRQ_Initialize_def probe Let_def prod.case if_True s3_def [symmetric] s4_def [symmetric] reg(1)
    by (simp only: kirq.select_convs kirq.surjective not_True_eq_False if_False bind.bind_lunit) simp
  moreover have "pic_commands ?s' = pic_commands s @
     [(0x21, 0xFF), (0xA1, 0xFF), (0x21, 0x37), (0xA1, 0x13),
      (0x21, 0xFF), (0xA1, 0xFF), (0x20, 0x11), (0xA0, 0x11), (0x21, 0x20), (0xA1, 0x28),
      (0x21, 4), (0xA1, 2), (0x21, 1), (0xA1, 1), (0x21, 0xFF), (0xA1, 0xFF)]"
    by (simp add: i686_EnableInterrupts_def pic_commands_simps s4_def Configure_commands s3_def
        i8259_Disable_def PIC_REMAP_OFFSET_def)
  moreover have "g_Driver ?s' \<and> interrupts_on ?s' \<and> g_PicMask ?s' = 0xFFFF \<and> g_ISRHandlers ?s' = hs"
    by (simp add: i686_EnableInterrupts_def s4_def s3_def)
  ultimately show ?thesis using reg(2) unfolding old by (intro exI [of _ ?s'] conjI) simp_all
qed

end
