(* ===== verification/Syscall.thy ===== *)
theory Syscall
  imports Interrupts
begin

text \<open>
  The system-call layer of \<open>src/src/kernel/syscall.c\<close>: the virtual file system (32 files, 32
  descriptors, file contents on the heap), the twelve handlers, the handler table and the
  dispatcher.

  The kernel's own tables are arrays of records; user pointers and file contents are addresses
  of the modelled memory.  The two default files point at string literals of the image, whose
  link-time addresses are the parameters \<open>lit_welcome\<close> and \<open>lit_info\<close> of the state.  \<open>sleep\<close>
  waits for timer interrupts, so the number of ticks that arrive during pass \<open>i\<close> of its loop is
  the parameter \<open>irqs\<close>.
\<close>

section \<open>State\<close>

definition SYSCALL_COUNT :: u32 where "SYSCALL_COUNT = 27"
definition SYSCALL_INVALID_SYSCALL :: s32 where "SYSCALL_INVALID_SYSCALL = - 2"
definition SYSCALL_PERMISSION_DENIED :: s32 where "SYSCALL_PERMISSION_DENIED = - 4"
definition SYSCALL_NOT_FOUND :: s32 where "SYSCALL_NOT_FOUND = - 5"
definition SYSCALL_OUT_OF_MEMORY :: s32 where "SYSCALL_OUT_OF_MEMORY = - 6"

lemmas syscall_codes = SYSCALL_OK_def SYSCALL_INVALID_SYSCALL_def SYSCALL_INVALID_PARAMS_def
  SYSCALL_PERMISSION_DENIED_def SYSCALL_NOT_FOUND_def SYSCALL_OUT_OF_MEMORY_def

definition OPEN_WRITE :: u32 where "OPEN_WRITE = 0x02"
definition OPEN_CREATE :: u32 where "OPEN_CREATE = 0x04"
definition OPEN_TRUNCATE :: u32 where "OPEN_TRUNCATE = 0x08"
definition OPEN_APPEND :: u32 where "OPEN_APPEND = 0x10"

definition MAX_OPEN_FILES :: nat where "MAX_OPEN_FILES = 32"
definition MAX_FILENAME :: nat where "MAX_FILENAME = 64"

record vfile =
  vf_name :: "u8 list"
  vf_data :: u32
  vf_size :: u32
  vf_capacity :: u32
  vf_is_directory :: u32
  vf_in_use :: u32

text \<open>The \<open>file\<close> pointer of a descriptor points into the file table: its index, or NULL.\<close>

record fdesc =
  fd_file :: "nat option"
  fd_position :: u32
  fd_flags :: u32
  fd_in_use :: u32

datatype syscall_fn =
    H_exit | H_print | H_read | H_malloc | H_free | H_open | H_close | H_write
  | H_getpid | H_time | H_sleep | H_yield

record ksys = kirq +
  virtual_files :: "vfile list"
  file_descriptors :: "fdesc list"
  fs_initialized :: u32
  syscall_handlers :: "syscall_fn option list"
  lit_welcome :: u32
  lit_info :: u32

section \<open>The virtual file system\<close>

definition zero_file :: vfile where
  "zero_file = \<lparr>vf_name = replicate MAX_FILENAME 0, vf_data = 0, vf_size = 0, vf_capacity = 0,
     vf_is_directory = 0, vf_in_use = 0\<rparr>"

definition zero_desc :: fdesc where
  "zero_desc = \<lparr>fd_file = None, fd_position = 0, fd_flags = 0, fd_in_use = 0\<rparr>"

text \<open>\<open>strcpy\<close> into a \<open>char\<close> array: the string and its NUL must fit.\<close>

definition strcpy_arr :: "u8 list \<Rightarrow> u8 list \<Rightarrow> u8 list option" where
  "strcpy_arr buf str =
     (if length str < length buf then Some (str @ 0 # drop (Suc (length str)) buf) else None)"

definition welcome_text :: "u8 list" where
  "welcome_text = bytes (''Welcome to MiqOSoft!'' @ [CHR 0x0A] @ ''This is a virtual file system.'' @ [CHR 0x0A])"

definition info_text :: "u8 list" where
  "info_text = bytes (''System calls are working!'' @ [CHR 0x0A] @ ''You can use the syscall interface.'' @ [CHR 0x0A])"

definition default_file :: "string \<Rightarrow> u32 \<Rightarrow> u8 list \<Rightarrow> vfile option" where
  "default_file nm lit text = do {
     name \<leftarrow> strcpy_arr (vf_name zero_file) (bytes nm);
     Some (zero_file\<lparr>vf_name := name, vf_data := lit, vf_size := of_nat (length text),
       vf_capacity := of_nat (length text), vf_is_directory := 0, vf_in_use := 1\<rparr>) }"

definition vfs_init :: "'a ksys_scheme \<Rightarrow> 'a ksys_scheme option" where
  "vfs_init s =
     (if fs_initialized s \<noteq> 0 then Some s
      else do {
        f0 \<leftarrow> default_file ''welcome.txt'' (lit_welcome s) welcome_text;
        f1 \<leftarrow> default_file ''info.txt'' (lit_info s) info_text;
        Some (logf ''Syscall'' LVL_INFO ''Virtual file system initialized'' []
          (s\<lparr>virtual_files := f0 # f1 # replicate (MAX_OPEN_FILES - 2) zero_file,
             file_descriptors := replicate MAX_OPEN_FILES zero_desc, fs_initialized := 1\<rparr>)) })"

definition set_file :: "nat \<Rightarrow> vfile \<Rightarrow> 'a ksys_scheme \<Rightarrow> 'a ksys_scheme" where
  "set_file i f s = s\<lparr>virtual_files := (virtual_files s)[i := f]\<rparr>"

definition set_desc :: "nat \<Rightarrow> fdesc \<Rightarrow> 'a ksys_scheme \<Rightarrow> 'a ksys_scheme" where
  "set_desc i d s = s\<lparr>file_descriptors := (file_descriptors s)[i := d]\<rparr>"

text \<open>The two scans of the file table and the scan for a descriptor.\<close>

definition find_file :: "u8 list \<Rightarrow> vfile list \<Rightarrow> nat option" where
  "find_file path files =
     find (\<lambda>i. vf_in_use (files ! i) \<noteq> 0 \<and> strcmp_l (cstr_of (vf_name (files ! i))) path = 0)
       [0..<MAX_OPEN_FILES]"

definition find_free_file :: "vfile list \<Rightarrow> nat option" where
  "find_free_file files = find (\<lambda>i. vf_in_use (files ! i) = 0) [0..<MAX_OPEN_FILES]"

definition find_free_desc :: "fdesc list \<Rightarrow> nat option" where
  "find_free_desc ds = find (\<lambda>i. fd_in_use (ds ! i) = 0) [3..<MAX_OPEN_FILES]"

section \<open>Handlers\<close>

definition sys_handler_exit :: "u32 \<Rightarrow> 'a ksys_scheme \<Rightarrow> (s32 \<times> 'a ksys_scheme) option" where
  "sys_handler_exit code s =
     Some (SYSCALL_OK, printf (''Process exited with code: %d'' @ [CHR 0x0A]) [VI code]
       (logf ''Syscall'' LVL_INFO ''Process exit with code: %d'' [VI code] s))"

definition sys_handler_print :: "u32 \<Rightarrow> 'a ksys_scheme \<Rightarrow> (s32 \<times> 'a ksys_scheme) option" where
  "sys_handler_print msg_ptr s =
     (if msg_ptr = 0 then Some (SYSCALL_INVALID_PARAMS, s)
      else do {
        msg \<leftarrow> read_cstr (mem s) msg_ptr;
        len \<leftarrow> strlen (mem s) msg_ptr;
        Some (len, printf ''%s'' [VS msg] s) })"

definition sys_handler_read :: "u32 \<Rightarrow> u32 \<Rightarrow> u32 \<Rightarrow> 'a ksys_scheme \<Rightarrow> (s32 \<times> 'a ksys_scheme) option" where
  "sys_handler_read fd buffer count s =
     (if fd \<ge> of_nat MAX_OPEN_FILES \<or> fd_in_use (file_descriptors s ! unat fd) = 0
      then Some (SYSCALL_INVALID_PARAMS, s)
      else (let desc = file_descriptors s ! unat fd
            in case fd_file desc of
                 None \<Rightarrow> Some (SYSCALL_INVALID_PARAMS, s)
               | Some k \<Rightarrow>
                   if buffer = 0 then Some (SYSCALL_INVALID_PARAMS, s)
                   else (let file = virtual_files s ! k;
                             to_read = (if fd_position desc + count > vf_size file
                                        then vf_size file - fd_position desc else count);
                             m = memcpy (mem s) buffer (vf_data file + fd_position desc) (ucast to_read)
                         in Some (to_read, set_desc (unat fd)
                              (desc\<lparr>fd_position := fd_position desc + to_read\<rparr>) (s\<lparr>mem := m\<rparr>)))))"

text \<open>The part of \<open>open\<close> that creates the file: NULL, an error code, or the file.\<close>

definition open_create :: "u8 list \<Rightarrow> 'a ksys_scheme \<Rightarrow> ((s32 + nat option) \<times> 'a ksys_scheme) option" where
  "open_create path s =
     (case find_free_file (virtual_files s) of
        None \<Rightarrow> Some (Inr None, s)
      | Some i \<Rightarrow> do {
          let file = virtual_files s ! i;
          name \<leftarrow> strcpy_arr (vf_name file) path;
          (p, s1) \<leftarrow> sys_handler_malloc 256 (set_file i (file\<lparr>vf_name := name\<rparr>) s);
          (if p = 0 then Some (Inl SYSCALL_OUT_OF_MEMORY, set_file i (file\<lparr>vf_name := name, vf_data := 0\<rparr>) s1)
           else Some (Inr (Some i), set_file i (file\<lparr>vf_name := name, vf_data := p, vf_size := 0,
                  vf_capacity := 256, vf_is_directory := 0, vf_in_use := 1\<rparr>) s1)) })"

text \<open>The part that gives out a descriptor.\<close>

definition open_desc :: "nat \<Rightarrow> u32 \<Rightarrow> 'a ksys_scheme \<Rightarrow> s32 \<times> 'a ksys_scheme" where
  "open_desc k flags s =
     (case find_free_desc (file_descriptors s) of
        None \<Rightarrow> (SYSCALL_OUT_OF_MEMORY, s)
      | Some i \<Rightarrow>
          (let file = virtual_files s ! k;
               desc = \<lparr>fd_file = Some k,
                       fd_position = (if flags AND OPEN_APPEND \<noteq> 0 then vf_size file else 0),
                       fd_flags = flags, fd_in_use = 1\<rparr>;
               s1 = set_desc i desc s
           in if flags AND OPEN_TRUNCATE \<noteq> 0
              then (of_nat i, set_desc i (desc\<lparr>fd_position := 0\<rparr>) (set_file k (file\<lparr>vf_size := 0\<rparr>) s1))
              else (of_nat i, s1)))"

definition sys_handler_open :: "u32 \<Rightarrow> u32 \<Rightarrow> 'a ksys_scheme \<Rightarrow> (s32 \<times> 'a ksys_scheme) option" where
  "sys_handler_open path_ptr flags s =
     (if path_ptr = 0 then Some (SYSCALL_INVALID_PARAMS, s)
      else do {
        s1 \<leftarrow> vfs_init s;
        path \<leftarrow> read_cstr (mem s1) path_ptr;
        (r, s2) \<leftarrow> (case find_file path (virtual_files s1) of
                      Some k \<Rightarrow> Some (Inr (Some k), s1)
                    | None \<Rightarrow> if flags AND OPEN_CREATE \<noteq> 0 then open_create path s1
                              else Some (Inr None, s1));
        (case r of
           Inl e \<Rightarrow> Some (e, s2)
         | Inr None \<Rightarrow> Some (SYSCALL_NOT_FOUND, s2)
         | Inr (Some k) \<Rightarrow> Some (open_desc k flags s2)) })"

definition sys_handler_close :: "u32 \<Rightarrow> 'a ksys_scheme \<Rightarrow> (s32 \<times> 'a ksys_scheme) option" where
  "sys_handler_close fd s =
     (if fd \<ge> of_nat MAX_OPEN_FILES \<or> fd_in_use (file_descriptors s ! unat fd) = 0
      then Some (SYSCALL_INVALID_PARAMS, s)
      else Some (SYSCALL_OK, set_desc (unat fd)
             \<lparr>fd_file = None, fd_position = 0, fd_flags = 0, fd_in_use = 0\<rparr> s))"

text \<open>The growth step of \<open>write\<close>; the result is the error code, or nothing.\<close>

definition write_grow :: "nat \<Rightarrow> u32 \<Rightarrow> 'a ksys_scheme \<Rightarrow> (s32 option \<times> 'a ksys_scheme) option" where
  "write_grow k needed s =
     (let file = virtual_files s ! k
      in if needed > vf_capacity file then do {
           let new_capacity = (needed + 255) AND NOT 255;
           (q, s1) \<leftarrow> sys_handler_malloc new_capacity s;
           (if q = 0 then Some (Some SYSCALL_OUT_OF_MEMORY, s1)
            else do {
              let m = memcpy (mem s1) q (vf_data file) (ucast (vf_size file));
              (r, s2) \<leftarrow> sys_handler_free (vf_data file) (set_mem m s1);
              Some (None, set_file k (file\<lparr>vf_data := q, vf_capacity := new_capacity\<rparr>) s2) }) }
         else Some (None, s))"

definition sys_handler_write :: "u32 \<Rightarrow> u32 \<Rightarrow> u32 \<Rightarrow> 'a ksys_scheme \<Rightarrow> (s32 \<times> 'a ksys_scheme) option" where
  "sys_handler_write fd buffer count s =
     (if fd \<ge> of_nat MAX_OPEN_FILES \<or> buffer = 0 \<or> count = 0 then Some (SYSCALL_INVALID_PARAMS, s)
      else if fd = 1 \<or> fd = 2 then
        Some (count, fold (\<lambda>i. putc (mem s (buffer + of_nat i))) [0..<unat count] s)
      else if fd_in_use (file_descriptors s ! unat fd) = 0 then Some (SYSCALL_INVALID_PARAMS, s)
      else (let desc = file_descriptors s ! unat fd
            in case fd_file desc of
                 None \<Rightarrow> Some (SYSCALL_PERMISSION_DENIED, s)
               | Some k \<Rightarrow>
                   if fd_flags desc AND OPEN_WRITE = 0 then Some (SYSCALL_PERMISSION_DENIED, s)
                   else do {
                     (e, s1) \<leftarrow> write_grow k (fd_position desc + count) s;
                     (case e of
                        Some err \<Rightarrow> Some (err, s1)
                      | None \<Rightarrow>
                          (let file = virtual_files s1 ! k;
                               m = memcpy (mem s1) (vf_data file + fd_position desc) buffer (ucast count);
                               pos = fd_position desc + count;
                               s2 = set_desc (unat fd) (desc\<lparr>fd_position := pos\<rparr>) (set_mem m s1)
                           in Some (count, if pos > vf_size file
                                           then set_file k (file\<lparr>vf_size := pos\<rparr>) s2 else s2))) }))"

definition sys_handler_getpid :: "'a ksys_scheme \<Rightarrow> (s32 \<times> 'a ksys_scheme) option" where
  "sys_handler_getpid s = Some (1, s)"

definition sys_handler_time :: "'a ksys_scheme \<Rightarrow> (s32 \<times> 'a ksys_scheme) option" where
  "sys_handler_time s = Some (ucast (time_get_ticks s), s)"

text \<open>
  The busy wait.  \<open>it\<close> is the loop's \<open>iteration\<close>, below \<open>2 ^ 32\<close> throughout because the loop
  gives up at the first multiple of 100000 past 100000000.
\<close>

function sleep_loop :: "(nat \<Rightarrow> nat) \<Rightarrow> u64 \<Rightarrow> nat \<Rightarrow> 'a ksys_scheme \<Rightarrow> 'a ksys_scheme" where
  "sleep_loop irqs target it s =
     (let current = time_get_ticks s
      in if current \<ge> target then s
         else (let s1 = (pit_tick_handler ^^ irqs it) (s\<lparr>interrupts_on := True\<rparr>)
               in if Suc it mod 100000 = 0 then
                    (let s2 = logf ''Syscall'' LVL_DEBUG ''Sleep iteration %u, current ticks: %llu, target: %llu''
                                [VI (of_nat (Suc it)), VLL current, VLL target] s1
                     in if Suc it > 100000000
                        then logf ''Syscall'' LVL_WARN ''Sleep timeout - breaking infinite loop'' [] s2
                        else sleep_loop irqs target (Suc it) s2)
                  else sleep_loop irqs target (Suc it) s1))"
  by pat_completeness auto

definition sleep_limit :: "nat \<Rightarrow> nat" where
  "sleep_limit it = (max it 100000000 div 100000 + 1) * 100000"

lemma sleep_limit_step:
  assumes "Suc it mod 100000 \<noteq> 0 \<or> Suc it \<le> 100000000"
  shows "sleep_limit (Suc it) = sleep_limit it" "it < sleep_limit it"
proof -
  have "max it 100000000 < (max it 100000000 div 100000 + 1) * 100000"
    using dividend_less_div_times [of 100000 "max it 100000000"] by (simp add: algebra_simps)
  then show "it < sleep_limit it" unfolding sleep_limit_def by linarith
  show "sleep_limit (Suc it) = sleep_limit it"
    using assms by (auto simp: sleep_limit_def max_def div_Suc)
qed

termination sleep_loop
proof (relation "measure (\<lambda>(irqs, target, it, s). sleep_limit it - it)", goal_cases)
  case 1
  show ?case by simp
next
  case (2 irqs target it s current s1 s2)
  then have "Suc it \<le> 100000000" by simp
  with sleep_limit_step [of it] show ?case by auto
next
  case (3 irqs target it s current s1)
  with sleep_limit_step [of it] show ?case by auto
qed

declare sleep_loop.simps [simp del]

definition sys_handler_sleep :: "(nat \<Rightarrow> nat) \<Rightarrow> u32 \<Rightarrow> 'a ksys_scheme \<Rightarrow> (s32 \<times> 'a ksys_scheme) option" where
  "sys_handler_sleep irqs ms s =
     (if ms = 0 then Some (SYSCALL_OK, s)
      else (let s1 = logf ''Syscall'' LVL_INFO ''Sleep called for %u ms'' [VI ms] s;
                start_ticks = time_get_ticks s1;
                target_ticks = start_ticks + ucast ms;
                s2 = logf ''Syscall'' LVL_INFO ''Start ticks: %llu, Target ticks: %llu''
                       [VLL start_ticks, VLL target_ticks] s1;
                s3 = sleep_loop irqs target_ticks 0 s2;
                end_ticks = time_get_ticks s3
            in Some (SYSCALL_OK, logf ''Syscall'' LVL_INFO ''Sleep completed: start=%llu, end=%llu, diff=%llu''
                 [VLL start_ticks, VLL end_ticks, VLL (end_ticks - start_ticks)] s3)))"

definition sys_handler_yield :: "'a ksys_scheme \<Rightarrow> (s32 \<times> 'a ksys_scheme) option" where
  "sys_handler_yield s = Some (SYSCALL_OK, logf ''Syscall'' LVL_INFO ''Yield requested'' [] s)"

section \<open>Dispatch\<close>

text \<open>A call through the handler table.\<close>

fun run_handler ::
    "(nat \<Rightarrow> nat) \<Rightarrow> syscall_fn \<Rightarrow> u32 \<Rightarrow> u32 \<Rightarrow> u32 \<Rightarrow> 'a ksys_scheme \<Rightarrow> (s32 \<times> 'a ksys_scheme) option" where
  "run_handler irqs H_exit a b c s = sys_handler_exit a s"
| "run_handler irqs H_print a b c s = sys_handler_print a s"
| "run_handler irqs H_read a b c s = sys_handler_read a b c s"
| "run_handler irqs H_malloc a b c s = sys_handler_malloc a s"
| "run_handler irqs H_free a b c s = sys_handler_free a s"
| "run_handler irqs H_open a b c s = sys_handler_open a b s"
| "run_handler irqs H_close a b c s = sys_handler_close a s"
| "run_handler irqs H_write a b c s = sys_handler_write a b c s"
| "run_handler irqs H_getpid a b c s = sys_handler_getpid s"
| "run_handler irqs H_time a b c s = sys_handler_time s"
| "run_handler irqs H_sleep a b c s = sys_handler_sleep irqs a s"
| "run_handler irqs H_yield a b c s = sys_handler_yield s"

definition syscall_dispatch ::
    "(nat \<Rightarrow> nat) \<Rightarrow> u32 \<Rightarrow> u32 \<Rightarrow> u32 \<Rightarrow> u32 \<Rightarrow> u32 \<Rightarrow> 'a ksys_scheme \<Rightarrow> (s32 \<times> 'a ksys_scheme) option" where
  "syscall_dispatch irqs num arg1 arg2 arg3 arg4 s =
     (if num \<ge> SYSCALL_COUNT then
        Some (SYSCALL_INVALID_SYSCALL, logf ''Syscall'' LVL_WARN ''Invalid syscall number: %d'' [VI num] s)
      else (case syscall_handlers s ! unat num of
              None \<Rightarrow> Some (SYSCALL_INVALID_SYSCALL,
                        logf ''Syscall'' LVL_WARN ''Unimplemented syscall: %d'' [VI num] s)
            | Some h \<Rightarrow> run_handler irqs h arg1 arg2 arg3
                (logf ''Syscall'' LVL_DEBUG ''Calling syscall %d with args: %x, %x, %x, %x''
                   [VI num, VI arg1, VI arg2, VI arg3, VI arg4] s)))"

definition syscall_invoke ::
    "(nat \<Rightarrow> nat) \<Rightarrow> u32 \<Rightarrow> u32 \<Rightarrow> u32 \<Rightarrow> u32 \<Rightarrow> u32 \<Rightarrow> 'a ksys_scheme \<Rightarrow> (s32 \<times> 'a ksys_scheme) option" where
  "syscall_invoke = syscall_dispatch"

text \<open>The interrupt handler behind \<open>int 0x80\<close>: arguments from the registers, result in \<open>eax\<close>.\<close>

definition syscall_handler ::
    "(nat \<Rightarrow> nat) \<Rightarrow> Registers \<Rightarrow> 'a ksys_scheme \<Rightarrow> (Registers \<times> 'a ksys_scheme) option" where
  "syscall_handler irqs regs s = do {
     (result, s1) \<leftarrow> syscall_dispatch irqs (r_eax regs) (r_ebx regs) (r_ecx regs) (r_edx regs) (r_esi regs) s;
     Some (regs\<lparr>r_eax := result\<rparr>, s1) }"

definition syscall_register_handler :: "u32 \<Rightarrow> syscall_fn \<Rightarrow> 'a ksys_scheme \<Rightarrow> 'a ksys_scheme" where
  "syscall_register_handler num handler s =
     (if num < SYSCALL_COUNT
      then s\<lparr>syscall_handlers := (syscall_handlers s)[unat num := Some handler]\<rparr> else s)"

definition syscall_initialize :: "'a ksys_scheme \<Rightarrow> 'a ksys_scheme option" where
  "syscall_initialize s = do {
     let s1 = logf ''Syscall'' LVL_INFO ''Initializing system call interface...'' [] s;
     let s2 = s1\<lparr>syscall_handlers := replicate (unat SYSCALL_COUNT) None\<rparr>;
     let s3 = fold (\<lambda>(n, h). syscall_register_handler n h)
                [(0, H_exit), (1, H_print), (2, H_read), (3, H_malloc), (4, H_free), (5, H_open), (6, H_close),
                 (7, H_write), (9, H_getpid), (10, H_time), (11, H_sleep), (12, H_yield)] s2;
     s4 \<leftarrow> i686_ISR_RegisterHandler SYSCALL_INTERRUPT ISR_syscall s3;
     s5 \<leftarrow> vfs_init (heap_init s4);
     let s6 = logf ''Syscall'' LVL_INFO ''System call interface initialized successfully'' [] s5;
     Some (logf ''Syscall'' LVL_INFO ''Registered %d system calls'' [VI SYSCALL_COUNT] s6) }"

section \<open>What the lower layers leave alone\<close>

lemma more_ksys:
  fixes s s' :: "'a ksys_scheme"
  assumes "kheap.more s' = kheap.more s"
  shows "virtual_files s' = virtual_files s" "file_descriptors s' = file_descriptors s"
    "fs_initialized s' = fs_initialized s" "syscall_handlers s' = syscall_handlers s"
    "lit_welcome s' = lit_welcome s" "lit_info s' = lit_info s" "ksys.more s' = ksys.more s"
    "g_ISRHandlers s' = g_ISRHandlers s" "g_IDT s' = g_IDT s" "s_ticks s' = s_ticks s"
  using assms by (cases s; cases s'; simp)+

lemma more_kheap:
  fixes s s' :: "'a kheap_scheme"
  assumes "vga.more s' = vga.more s"
  shows "kheap.more s' = kheap.more s" "mem s' = mem s" "heap_start s' = heap_start s"
    "heap_initialized s' = heap_initialized s"
  using assms by (cases s; cases s'; simp)+

lemma stdio_kheap [simp]:
  fixes s :: "'a kheap_scheme"
  shows "kheap.more (printf fmt args s) = kheap.more s" "kheap.more (putc c s) = kheap.more s"
    "mem (printf fmt args s) = mem s" "mem (putc c s) = mem s"
    "heap_start (printf fmt args s) = heap_start s" "heap_start (putc c s) = heap_start s"
    "heap_initialized (printf fmt args s) = heap_initialized s" "heap_initialized (putc c s) = heap_initialized s"
  by (rule more_kheap, rule stdio_more)+

lemmas logf_ksys [simp] = logf_kheap(4) [THEN more_ksys(1)] logf_kheap(4) [THEN more_ksys(2)]
  logf_kheap(4) [THEN more_ksys(3)] logf_kheap(4) [THEN more_ksys(4)] logf_kheap(4) [THEN more_ksys(5)]
  logf_kheap(4) [THEN more_ksys(6)] logf_kheap(4) [THEN more_ksys(7)]

lemma heap_frame:
  assumes "mem s' = mem s" "heap_start s' = heap_start s" "heap_initialized s' = heap_initialized s"
  shows "heap_ok s' = heap_ok s" "heap_live s' = heap_live s"
  using assms by (simp_all add: heap_ok_def heap_live_def heap_rel_def)

lemma set_file_frame [simp]:
  "mem (set_file k f s) = mem s" "heap_ok (set_file k f s) = heap_ok s" "heap_live (set_file k f s) = heap_live s"
  "file_descriptors (set_file k f s) = file_descriptors s" "fs_initialized (set_file k f s) = fs_initialized s"
  "virtual_files (set_file k f s) = (virtual_files s)[k := f]"
  "lit_welcome (set_file k f s) = lit_welcome s" "lit_info (set_file k f s) = lit_info s"
  by (simp_all add: set_file_def heap_frame [of "s\<lparr>virtual_files := (virtual_files s)[k := f]\<rparr>" s])

lemma set_desc_frame [simp]:
  "mem (set_desc k d s) = mem s" "heap_ok (set_desc k d s) = heap_ok s" "heap_live (set_desc k d s) = heap_live s"
  "virtual_files (set_desc k d s) = virtual_files s" "fs_initialized (set_desc k d s) = fs_initialized s"
  "file_descriptors (set_desc k d s) = (file_descriptors s)[k := d]"
  "lit_welcome (set_desc k d s) = lit_welcome s" "lit_info (set_desc k d s) = lit_info s"
  by (simp_all add: set_desc_def heap_frame [of "s\<lparr>file_descriptors := (file_descriptors s)[k := d]\<rparr>" s])

lemma set_mem_frame [simp]:
  "mem (set_mem m s) = m" "kheap.more (set_mem m s) = kheap.more s"
  by (simp_all add: set_mem_def)

lemmas set_mem_ksys [simp] = set_mem_frame(2) [THEN more_ksys(1)] set_mem_frame(2) [THEN more_ksys(2)]
  set_mem_frame(2) [THEN more_ksys(3)] set_mem_frame(2) [THEN more_ksys(5)] set_mem_frame(2) [THEN more_ksys(6)]

text \<open>Writes outside the heap leave it alone.\<close>

lemma heap_set_mem_outside:
  assumes "\<And>b. unat b \<in> heap_arena \<Longrightarrow> m b = mem s b"
  shows "heap_ok (set_mem m s) = heap_ok s" "heap_live (set_mem m s) = heap_live s"
proof -
  have "chain m 0x400000 bs = chain (mem s) 0x400000 bs" if tot: "total bs = 0x100000" for bs
  proof -
    have "m b = mem s b" if "unat b \<in> headers 0x400000 bs" for b
      using that headers_range [of "0x400000" bs] tot by (intro assms) auto
    then show ?thesis
      using chain_cong [of "mem s" "0x400000" bs m] chain_cong [of m "0x400000" bs "mem s"] tot by auto
  qed
  then have "heap_rel (set_mem m s) bs = heap_rel s bs" for bs
    by (auto simp: heap_rel_def set_mem_def)
  then show "heap_ok (set_mem m s) = heap_ok s" "heap_live (set_mem m s) = heap_live s"
    by (simp_all add: heap_ok_def heap_live_def) (simp add: set_mem_def)
qed

section \<open>The dispatcher\<close>

text \<open>A number without a handler is refused with \<open>-2\<close> and leaves all kernel state but the log alone.\<close>

lemma dispatch_refused:
  assumes "num \<ge> SYSCALL_COUNT \<or> syscall_handlers s ! unat num = None"
  shows "\<exists>s'. syscall_dispatch irqs num a b c d s = Some (SYSCALL_INVALID_SYSCALL, s') \<and> vga.more s' = vga.more s"
  using assms by (cases "num \<ge> SYSCALL_COUNT") (auto simp: syscall_dispatch_def)

definition handler_table :: "syscall_fn option list" where
  "handler_table = [Some H_exit, Some H_print, Some H_read, Some H_malloc, Some H_free, Some H_open, Some H_close,
     Some H_write, None, Some H_getpid, Some H_time, Some H_sleep, Some H_yield] @ replicate 14 None"

lemma handler_table_eq:
  "fold (\<lambda>(n, h) t. t[n := Some h])
      [(0, H_exit), (1, H_print), (2, H_read), (3, H_malloc), (4, H_free), (5, H_open), (6, H_close),
       (7, H_write), (9, H_getpid), (10, H_time), (11, H_sleep), (12, H_yield)] (replicate 27 None) = handler_table"
  by code_simp

lemma register_step:
  "num < SYSCALL_COUNT \<Longrightarrow>
    syscall_register_handler num h s = s\<lparr>syscall_handlers := (syscall_handlers s)[unat num := Some h]\<rparr>"
  by (simp add: syscall_register_handler_def)

lemma register_all:
  assumes "syscall_handlers s = replicate 27 None"
  shows "fold (\<lambda>(n, h). syscall_register_handler n h)
      [(0, H_exit), (1, H_print), (2, H_read), (3, H_malloc), (4, H_free), (5, H_open), (6, H_close),
       (7, H_write), (9, H_getpid), (10, H_time), (11, H_sleep), (12, H_yield)] s = s\<lparr>syscall_handlers := handler_table\<rparr>"
  by (simp add: register_step SYSCALL_COUNT_def assms flip: handler_table_eq)

section \<open>The busy wait\<close>

lemma ticks_power [simp]: "s_ticks ((pit_tick_handler ^^ n) s) = s_ticks s + of_nat n"
  by (induction n) (simp_all add: pit_tick_handler_def)

lemma logf_ticks [simp]: "s_ticks (logf md l fmt args (s :: 'a kirq_scheme)) = s_ticks s"
  by (rule stdio_kirq)

lemma sleep_loop_reaches:
  assumes "it \<le> j" "j \<le> 100000000" "unat target \<le> unat (s_ticks s) + sum irqs {it..<j}"
    "unat (s_ticks s) + sum irqs {it..<j} < 2 ^ 64"
  shows "target \<le> s_ticks (sleep_loop irqs target it s)"
  using assms
proof (induction "j - it" arbitrary: it s)
  case 0
  then show ?case by (subst sleep_loop.simps) (simp add: time_get_ticks_def word_le_nat_alt)
next
  case (Suc n)
  let ?s1 = "(pit_tick_handler ^^ irqs it) (s\<lparr>interrupts_on := True\<rparr>)"
  have split: "sum irqs {it..<j} = irqs it + sum irqs {Suc it..<j}"
    using Suc.hyps(2) by (intro sum.atLeast_Suc_lessThan) simp
  have step: "target \<le> s_ticks (sleep_loop irqs target (Suc it) t)" if t: "s_ticks t = s_ticks s + of_nat (irqs it)" for t :: "'a ksys_scheme"
  proof (rule Suc.hyps(1))
    have "unat (of_nat (irqs it) :: u64) = irqs it"
      using Suc.prems(4) split by (simp add: unat_of_nat take_bit_nat_eq_self)
    then have "unat (s_ticks t) = unat (s_ticks s) + irqs it"
      using Suc.prems(4) split t by (simp add: unat_word_ariths)
    then show "unat target \<le> unat (s_ticks t) + sum irqs {Suc it..<j}"
      "unat (s_ticks t) + sum irqs {Suc it..<j} < 2 ^ 64" using Suc.prems(3,4) split by simp_all
  qed (use Suc.hyps(2) Suc.prems in auto)
  have "Suc it \<le> 100000000" using Suc.hyps(2) Suc.prems(2) by linarith
  then show ?case
    by (subst sleep_loop.simps) (simp add: Let_def time_get_ticks_def step not_less)
qed

text \<open>
  \<open>sleep\<close> returns at a tick count that is \<open>ms\<close> past the start, whenever the timer delivers that
  many ticks within the loop's hundred million passes.
\<close>

lemma sleep_waits:
  assumes "j \<le> 100000000" "unat ms \<le> sum irqs {0..<j}" "unat (s_ticks s) + sum irqs {0..<j} < 2 ^ 64"
  shows "\<exists>s'. sys_handler_sleep irqs ms s = Some (SYSCALL_OK, s') \<and>
    unat (s_ticks s) + unat ms \<le> unat (s_ticks s')"
proof (cases "ms = 0")
  case True
  then show ?thesis by (simp add: sys_handler_sleep_def)
next
  case False
  have "unat ms < 2 ^ 64" using unat_u32_less [of ms] by simp
  then have "unat (ucast ms :: u64) = unat ms" by (simp add: unsigned_ucast_eq take_bit_nat_eq_self)
  then have t: "unat (s_ticks s + ucast ms) = unat (s_ticks s) + unat ms"
    using assms(2,3) by (simp add: unat_word_ariths)
  have "s_ticks s + ucast ms \<le> s_ticks (sleep_loop irqs (s_ticks s + ucast ms) 0 t)" if "s_ticks t = s_ticks s" for t :: "'a ksys_scheme"
    using assms t that by (intro sleep_loop_reaches [where j = j]) auto
  with False t show ?thesis
    by (simp add: sys_handler_sleep_def Let_def time_get_ticks_def word_le_nat_alt)
qed

end
