(* ===== verification/VirtualFs.thy ===== *)
theory VirtualFs
  imports Syscall
begin

text \<open>
  Correctness of the virtual file system of \<open>src/src/kernel/syscall.c\<close>.  \<open>fs_ok\<close> is the
  invariant: names are terminated, descriptors in use point at files in use, every file lies in
  a heap block of its own that is as large as its capacity (or is one of the two read-only
  defaults), and the heap is well formed.  \<open>content s k\<close> is the byte string a file stands for.
  The lemmas show that \<open>read\<close>, \<open>write\<close>, \<open>open\<close> and \<open>close\<close> keep the invariant and act on contents
  as on byte strings: \<open>read\<close> delivers a slice, \<open>write\<close> overwrites at the position, no other file
  changes.  The growth step of \<open>write\<close> rests on the allocator's contract (\<open>kmalloc.relocate_memcpy\<close>).

  User buffers lie outside the heap (\<open>user_buf\<close>); \<open>memcpy\<close>'s 16-bit length limits the sizes.
\<close>

section \<open>The file table invariant\<close>

text \<open>
  A file is backed when its contents lie in a heap block of its own that is as large as its
  capacity.  Files 0 and 1 may still be the read-only defaults.
\<close>

definition backed :: "'a ksys_scheme \<Rightarrow> nat \<Rightarrow> bool" where
  "backed s k \<longleftrightarrow> (\<exists>c. (unat (vf_data (virtual_files s ! k)), c) \<in> heap_live s \<and>
     unat (vf_capacity (virtual_files s ! k)) \<le> c)"

definition is_default :: "'a ksys_scheme \<Rightarrow> nat \<Rightarrow> bool" where
  "is_default s k \<longleftrightarrow> (k = 0 \<and> vf_data (virtual_files s ! k) = lit_welcome s \<or>
     k = 1 \<and> vf_data (virtual_files s ! k) = lit_info s)"

definition tables_ok :: "'a ksys_scheme \<Rightarrow> bool" where
  "tables_ok s \<longleftrightarrow> fs_initialized s \<noteq> 0 \<and> length (virtual_files s) = 32 \<and> length (file_descriptors s) = 32 \<and>
     (\<forall>f \<in> set (virtual_files s). length (vf_name f) = 64 \<and> 0 \<in> set (vf_name f)) \<and>
     (\<forall>i < 3. fd_in_use (file_descriptors s ! i) = 0) \<and>
     (\<forall>d \<in> set (file_descriptors s). fd_in_use d \<noteq> 0 \<longrightarrow>
        (\<exists>k < 32. fd_file d = Some k \<and> vf_in_use (virtual_files s ! k) \<noteq> 0))"

definition files_ok :: "'a ksys_scheme \<Rightarrow> bool" where
  "files_ok s \<longleftrightarrow>
     (\<forall>k < 32. vf_in_use (virtual_files s ! k) \<noteq> 0 \<longrightarrow>
        vf_size (virtual_files s ! k) \<le> vf_capacity (virtual_files s ! k) \<and> (backed s k \<or> is_default s k)) \<and>
     (\<forall>j < 32. \<forall>k < 32. j \<noteq> k \<and> vf_in_use (virtual_files s ! j) \<noteq> 0 \<and> vf_in_use (virtual_files s ! k) \<noteq> 0 \<and>
        backed s j \<and> backed s k \<longrightarrow> vf_data (virtual_files s ! j) \<noteq> vf_data (virtual_files s ! k))"

text \<open>The literals of the image lie outside the heap.\<close>

definition lits_ok :: "'a ksys_scheme \<Rightarrow> bool" where
  "lits_ok s \<longleftrightarrow> unat (lit_welcome s) \<notin> {0x40000C..0x500000} \<and> unat (lit_info s) \<notin> {0x40000C..0x500000}"

definition fs_ok :: "'a ksys_scheme \<Rightarrow> bool" where
  "fs_ok s \<longleftrightarrow> heap_ok s \<and> tables_ok s \<and> files_ok s \<and> lits_ok s"

lemma default_not_backed: "lits_ok s \<Longrightarrow> is_default s k \<Longrightarrow> \<not> backed s k"
  using heap_live_range by (fastforce simp: lits_ok_def is_default_def backed_def)

text \<open>The bytes of a file.\<close>

definition bytes_at :: "mem \<Rightarrow> u32 \<Rightarrow> nat \<Rightarrow> u8 list" where
  "bytes_at m a n = map (\<lambda>i. m (a + of_nat i)) [0..<n]"

lemma length_bytes_at [simp]: "length (bytes_at m a n) = n"
  by (simp add: bytes_at_def)

lemma nth_bytes_at [simp]: "i < n \<Longrightarrow> bytes_at m a n ! i = m (a + of_nat i)"
  by (simp add: bytes_at_def)

lemma bytes_at_same_on:
  assumes "same_on L A m m'" "(unat d, c) \<in> L" "unat d + c \<le> 2 ^ 32" "n \<le> c"
  shows "bytes_at m' d n = bytes_at m d n"
proof -
  have "m' (d + of_nat i) = m (d + of_nat i)" if i: "i < n" for i
  proof (rule same_on_D [OF assms(1,2)])
    have "unat (d + of_nat i) = unat d + i" using unat_of_nat_u32 [of "unat d + i"] i assms(3,4) by simp
    then show "unat (d + of_nat i) \<in> payload (unat d, c)" using i assms(4) by (simp add: payload_def)
  qed
  then show ?thesis by (simp add: bytes_at_def)
qed

definition content :: "'a ksys_scheme \<Rightarrow> nat \<Rightarrow> u8 list" where
  "content s k = bytes_at (mem s) (vf_data (virtual_files s ! k)) (unat (vf_size (virtual_files s ! k)))"

lemma length_content [simp]: "length (content s k) = unat (vf_size (virtual_files s ! k))"
  by (simp add: content_def)

lemma content_same_on:
  assumes "same_on L heap_arena (mem s) (mem s')" "L \<subseteq> heap_live s"
    "(unat (vf_data (virtual_files s ! j)), c) \<in> L"
    "unat (vf_size (virtual_files s ! j)) \<le> c"
    "vf_data (virtual_files s' ! j) = vf_data (virtual_files s ! j)"
    "vf_size (virtual_files s' ! j) = vf_size (virtual_files s ! j)"
  shows "content s' j = content s j"
proof -
  have "unat (vf_data (virtual_files s ! j)) + c \<le> 0x500000" using assms(2,3) heap_live_range by blast
  then show ?thesis
    using bytes_at_same_on [OF assms(1,3) _ assms(4)] by (simp add: content_def assms(5,6))
qed

text \<open>User buffers: a range of addresses outside the heap.\<close>

definition user_buf :: "u32 \<Rightarrow> nat \<Rightarrow> bool" where
  "user_buf b n \<longleftrightarrow> b \<noteq> 0 \<and> unat b + n \<le> 2 ^ 32 \<and> (unat b + n \<le> 0x400000 \<or> 0x500000 \<le> unat b)"

lemma user_buf_outside: "user_buf b n \<Longrightarrow> a \<in> region b n \<Longrightarrow> unat a \<notin> heap_arena"
  using region_of_nat [of "unat b" n a] by (auto simp: user_buf_def)

text \<open>Updates that keep the file table keep the invariant.\<close>

lemma fs_ok_transfer:
  assumes "fs_ok s" "heap_ok s'" "heap_live s' = heap_live s" "virtual_files s' = virtual_files s"
    "lit_welcome s' = lit_welcome s" "lit_info s' = lit_info s" "tables_ok s'"
  shows "fs_ok s'"
  using assms by (simp add: fs_ok_def files_ok_def lits_ok_def backed_def is_default_def)

lemma tables_ok_set_desc:
  assumes "tables_ok s" "3 \<le> i" "i < 32"
    "fd_in_use d \<noteq> 0 \<longrightarrow> (\<exists>k < 32. fd_file d = Some k \<and> vf_in_use (virtual_files s ! k) \<noteq> 0)"
  shows "tables_ok (set_desc i d s)"
proof -
  have "d' = d \<or> d' \<in> set (file_descriptors s)" if "d' \<in> set ((file_descriptors s)[i := d])" for d'
    using that set_update_subset_insert by fastforce
  with assms show ?thesis by (fastforce simp: tables_ok_def)
qed

lemma desc_in_use:
  assumes "tables_ok s" "fd < 32" "fd_in_use (file_descriptors s ! fd) \<noteq> 0"
  shows "3 \<le> fd \<and> (\<exists>k < 32. fd_file (file_descriptors s ! fd) = Some k \<and> vf_in_use (virtual_files s ! k) \<noteq> 0)"
proof -
  have "file_descriptors s ! fd \<in> set (file_descriptors s)" using assms by (simp add: tables_ok_def)
  with assms show ?thesis by (auto simp: tables_ok_def) (metis not_less)
qed

lemma strcpy_arr_zero:
  "length str < 64 \<Longrightarrow> strcpy_arr (replicate 64 0) str = Some (str @ 0 # replicate (63 - length str) 0)"
  by (simp add: strcpy_arr_def)

definition default_vfile :: "string \<Rightarrow> u32 \<Rightarrow> u8 list \<Rightarrow> vfile" where
  "default_vfile nm lit text = zero_file\<lparr>vf_name := bytes nm @ 0 # replicate (63 - length nm) 0, vf_data := lit,
     vf_size := of_nat (length text), vf_capacity := of_nat (length text), vf_is_directory := 0, vf_in_use := 1\<rparr>"

lemma default_file_eq: "length nm < 64 \<Longrightarrow> default_file nm lit text = Some (default_vfile nm lit text)"
  by (simp add: default_file_def default_vfile_def zero_file_def MAX_FILENAME_def bytes_def strcpy_arr_zero)

definition initial_files :: "u32 \<Rightarrow> u32 \<Rightarrow> vfile list" where
  "initial_files w i = default_vfile ''welcome.txt'' w welcome_text # default_vfile ''info.txt'' i info_text #
     replicate 30 zero_file"

lemma initial_files_nth:
  "k < 32 \<Longrightarrow> initial_files w i ! k = (if k = 0 then default_vfile ''welcome.txt'' w welcome_text
     else if k = 1 then default_vfile ''info.txt'' i info_text else zero_file)"
  by (auto simp: initial_files_def nth_Cons split: nat.splits)

lemma initial_files_find:
  "find_file (bytes ''welcome.txt'') (initial_files w i) = Some 0"
  "find_file (bytes ''info.txt'') (initial_files w i) = Some 1"
proof -
  have upt: "[0..<MAX_OPEN_FILES] = 0 # 1 # [2..<32]"
    by (simp add: MAX_OPEN_FILES_def upt_rec [of 0] upt_rec [of "Suc 0"] numeral_2_eq_2 [symmetric])
  have name: "cstr_of (vf_name (default_vfile nm l t)) = bytes nm" if "is_cstr (bytes nm)" for nm l t
    using that by (simp add: default_vfile_def cstr_of_pad)
  have cs: "is_cstr (bytes ''welcome.txt'')" "is_cstr (bytes ''info.txt'')" by (simp_all add: bytes_def)
  show "find_file (bytes ''welcome.txt'') (initial_files w i) = Some 0"
    "find_file (bytes ''info.txt'') (initial_files w i) = Some 1"
    unfolding find_file_def upt
    by (simp_all add: initial_files_nth name [OF cs(1)] name [OF cs(2)])
      (simp_all add: default_vfile_def bytes_def)
qed

lemma vfs_init_ok:
  assumes "heap_ok s" "lits_ok s" "fs_initialized s = 0"
  shows "\<exists>s'. vfs_init s = Some s' \<and> fs_ok s' \<and> mem s' = mem s \<and>
    virtual_files s' = initial_files (lit_welcome s) (lit_info s)"
proof -
  let ?s0 = "s\<lparr>virtual_files := initial_files (lit_welcome s) (lit_info s),
    file_descriptors := replicate 32 zero_desc, fs_initialized := 1\<rparr>"
  let ?s = "logf ''Syscall'' LVL_INFO ''Virtual file system initialized'' [] ?s0"
  have eq: "vfs_init s = Some ?s"
    using assms(3) by (simp add: vfs_init_def default_file_eq initial_files_def MAX_OPEN_FILES_def)
  have files: "virtual_files ?s = initial_files (lit_welcome s) (lit_info s)" by simp
  have "heap_ok ?s" using assms(1) heap_frame [of ?s s] by simp
  moreover have lits: "lits_ok ?s" using assms(2) by (simp add: lits_ok_def)
  moreover have "tables_ok ?s"
  proof -
    have "length (vf_name f) = 64 \<and> 0 \<in> set (vf_name f)"
      if "f \<in> set (initial_files w i)" for f w i
      using that by (auto simp: initial_files_def default_vfile_def zero_file_def MAX_FILENAME_def bytes_def)
    then show ?thesis by (auto simp: tables_ok_def zero_desc_def) (simp add: initial_files_def)
  qed
  moreover have "files_ok ?s"
  proof -
    have use: "k = 0 \<or> k = 1" if "k < 32" "vf_in_use (virtual_files ?s ! k) \<noteq> 0" for k
      using that unfolding files by (auto simp: initial_files_nth zero_file_def split: if_splits)
    have dflt: "is_default ?s k" if "k = 0 \<or> k = 1" for k
      using that by (auto simp: is_default_def initial_files_def default_vfile_def)
    have "vf_size (virtual_files ?s ! k) = vf_capacity (virtual_files ?s ! k)" if "k = 0 \<or> k = 1" for k
      using that by (auto simp: initial_files_def default_vfile_def)
    with use dflt default_not_backed [OF lits] show ?thesis unfolding files_ok_def by (metis order_refl)
  qed
  ultimately have "fs_ok ?s" by (simp add: fs_ok_def)
  with eq files show ?thesis by (intro exI [of _ ?s]) simp
qed

section \<open>close\<close>

lemma close_ok:
  assumes "fs_ok s"
  shows "\<exists>r s'. sys_handler_close fd s = Some (r, s') \<and> fs_ok s' \<and>
    (if fd < 32 \<and> fd_in_use (file_descriptors s ! unat fd) \<noteq> 0
     then r = SYSCALL_OK \<and> file_descriptors s' = (file_descriptors s)[unat fd := zero_desc]
     else r = SYSCALL_INVALID_PARAMS \<and> s' = s)"
proof (cases "fd < 32 \<and> fd_in_use (file_descriptors s ! unat fd) \<noteq> 0")
  case False
  then show ?thesis using assms
    by (auto simp: sys_handler_close_def MAX_OPEN_FILES_def not_less)
next
  case True
  then have fd: "unat fd < 32" by (simp add: word_less_nat_alt)
  have tab: "tables_ok s" using assms by (simp add: fs_ok_def)
  let ?s = "set_desc (unat fd) zero_desc s"
  have "3 \<le> unat fd" using desc_in_use [OF tab fd] True by blast
  then have "tables_ok ?s" using tab fd by (intro tables_ok_set_desc) (auto simp: zero_desc_def)
  then have "fs_ok ?s" by (intro fs_ok_transfer [OF assms]) (use assms in \<open>simp_all add: fs_ok_def\<close>)
  moreover have "sys_handler_close fd s = Some (SYSCALL_OK, ?s)"
    using True by (auto simp: sys_handler_close_def MAX_OPEN_FILES_def not_less zero_desc_def)
  ultimately show ?thesis using True by simp
qed

section \<open>read\<close>

text \<open>A file whose contents the theorems speak about: in use and on the heap.\<close>

definition heap_file :: "'a ksys_scheme \<Rightarrow> nat \<Rightarrow> bool" where
  "heap_file s k \<longleftrightarrow> k < 32 \<and> vf_in_use (virtual_files s ! k) \<noteq> 0 \<and> backed s k"

lemma heap_file_block:
  assumes "fs_ok s" "heap_file s k"
  obtains c where "(unat (vf_data (virtual_files s ! k)), c) \<in> heap_live s"
    "unat (vf_capacity (virtual_files s ! k)) \<le> c" "unat (vf_size (virtual_files s ! k)) \<le> c"
    "unat (vf_data (virtual_files s ! k)) + c \<le> 0x500000" "0x40000C \<le> unat (vf_data (virtual_files s ! k))"
proof -
  from assms(2) obtain c where c: "(unat (vf_data (virtual_files s ! k)), c) \<in> heap_live s"
    "unat (vf_capacity (virtual_files s ! k)) \<le> c" by (auto simp: heap_file_def backed_def)
  moreover have "vf_size (virtual_files s ! k) \<le> vf_capacity (virtual_files s ! k)"
    using assms by (simp add: fs_ok_def files_ok_def heap_file_def)
  then have "unat (vf_size (virtual_files s ! k)) \<le> c" using c(2) by (simp add: word_le_nat_alt)
  ultimately show ?thesis using heap_live_range [OF c(1)] by (intro that) auto
qed

definition open_file :: "'a ksys_scheme \<Rightarrow> u32 \<Rightarrow> nat \<Rightarrow> bool" where
  "open_file s fd k \<longleftrightarrow> fd < 32 \<and> fd_in_use (file_descriptors s ! unat fd) \<noteq> 0 \<and>
     fd_file (file_descriptors s ! unat fd) = Some k \<and>
     fd_position (file_descriptors s ! unat fd) \<le> vf_size (virtual_files s ! k)"

definition fd_pos :: "'a ksys_scheme \<Rightarrow> u32 \<Rightarrow> nat" where
  "fd_pos s fd = unat (fd_position (file_descriptors s ! unat fd))"

lemma content_outside:
  assumes "fs_ok s" "heap_file s j" "\<And>b. unat b \<in> heap_arena \<Longrightarrow> mem s' b = mem s b"
    "virtual_files s' ! j = virtual_files s ! j"
  shows "content s' j = content s j"
proof (rule heap_file_block [OF assms(1,2)])
  fix c assume c: "(unat (vf_data (virtual_files s ! j)), c) \<in> heap_live s"
    "unat (vf_size (virtual_files s ! j)) \<le> c" "unat (vf_data (virtual_files s ! j)) + c \<le> 0x500000"
    "0x40000C \<le> unat (vf_data (virtual_files s ! j))"
  have "mem s' (vf_data (virtual_files s ! j) + of_nat i) = mem s (vf_data (virtual_files s ! j) + of_nat i)"
    if i: "i < unat (vf_size (virtual_files s ! j))" for i
  proof (rule assms(3))
    have "unat (vf_data (virtual_files s ! j) + of_nat i) = unat (vf_data (virtual_files s ! j)) + i"
      using unat_of_nat_u32 [of "unat (vf_data (virtual_files s ! j)) + i"] i c by simp
    then show "unat (vf_data (virtual_files s ! j) + of_nat i) \<in> heap_arena" using i c by simp
  qed
  then show ?thesis by (simp add: content_def bytes_at_def assms(4))
qed

lemma tables_ok_desc_pos:
  assumes "tables_ok s" "unat fd < 32" "fd_in_use (file_descriptors s ! unat fd) \<noteq> 0"
  shows "tables_ok (set_desc (unat fd) ((file_descriptors s ! unat fd)\<lparr>fd_position := p\<rparr>) s)"
  using desc_in_use [OF assms] by (intro tables_ok_set_desc [OF assms(1)]) (auto simp: assms(2))

lemma read_ok:
  fixes s :: "'a ksys_scheme" and count fd :: u32
  defines "n \<equiv> \<lambda>k. min (unat count) (unat (vf_size (virtual_files s ! k)) - fd_pos s fd)"
  assumes "fs_ok s" "open_file s fd k" "heap_file s k" "user_buf buffer (n k)" "unat count < 2 ^ 31" "n k < 2 ^ 16"
  shows "\<exists>s'. sys_handler_read fd buffer count s = Some (of_nat (n k), s') \<and> fs_ok s' \<and>
    bytes_at (mem s') buffer (n k) = take (unat count) (drop (fd_pos s fd) (content s k)) \<and>
    fd_pos s' fd = fd_pos s fd + n k \<and> open_file s' fd k \<and>
    (\<forall>j. heap_file s j \<longrightarrow> heap_file s' j \<and> content s' j = content s j)"
proof -
  let ?d = "file_descriptors s ! unat fd" and ?f = "virtual_files s ! k"
  from assms(3) have fd: "unat fd < 32" "fd < 32" "fd_in_use ?d \<noteq> 0" "fd_file ?d = Some k"
    "unat (fd_position ?d) \<le> unat (vf_size ?f)"
    by (auto simp: open_file_def word_less_nat_alt word_le_nat_alt)
  from heap_file_block [OF assms(2,4)] obtain c where c: "(unat (vf_data ?f), c) \<in> heap_live s"
    "unat (vf_size ?f) \<le> c" "unat (vf_data ?f) + c \<le> 0x500000" "0x40000C \<le> unat (vf_data ?f)" by blast
  have posn: "unat (fd_position ?d + count) = unat (fd_position ?d) + unat count"
    using fd(5) c assms(6) by (simp add: unat_word_ariths)
  define rd where "rd = (if fd_position ?d + count > vf_size ?f then vf_size ?f - fd_position ?d else count)"
  have rd: "unat rd = n k" "rd = of_nat (n k)"
  proof -
    show "unat rd = n k"
      using fd(5) posn by (auto simp: rd_def n_def fd_pos_def word_less_nat_alt unat_sub word_le_nat_alt)
    then show "rd = of_nat (n k)" by (metis of_nat_unat ucast_id)
  qed
  have len: "unat (ucast rd :: u16) = n k"
    using rd(1) assms(7) by (simp add: unsigned_ucast_eq take_bit_nat_eq_self)
  define m where "m = memcpy (mem s) buffer (vf_data ?f + fd_position ?d) (ucast rd)"
  let ?s = "set_desc (unat fd) (?d\<lparr>fd_position := fd_position ?d + rd\<rparr>) (set_mem m s)"
  have run: "sys_handler_read fd buffer count s = Some (of_nat (n k), ?s)"
    using fd assms(5) fd(2) [unfolded not_le [symmetric]]
    by (simp add: sys_handler_read_def MAX_OPEN_FILES_def Let_def rd_def [symmetric] m_def
        set_mem_def [symmetric] rd(2) user_buf_def)
  have nk: "fd_pos s fd + n k \<le> unat (vf_size ?f)" using fd(5) by (simp add: n_def fd_pos_def)
  have src: "vf_data ?f + fd_position ?d = of_nat (unat (vf_data ?f) + fd_pos s fd)"
    by (simp add: fd_pos_def)
  have outm: "m b = mem s b" if "unat b \<in> heap_arena" for b
    unfolding m_def using user_buf_outside [OF assms(5), of b] that len by (intro memcpy_outside) auto
  have disj: "region buffer (unat (ucast rd :: u16)) \<inter> region (vf_data ?f + fd_position ?d) (unat (ucast rd :: u16)) = {}"
  proof -
    have "unat b \<in> heap_arena" if "b \<in> region (vf_data ?f + fd_position ?d) (n k)" for b
      using that nk c unfolding src by (subst (asm) region_of_nat) auto
    then show ?thesis using user_buf_outside [OF assms(5)] len by fastforce
  qed
  have "mem ?s (buffer + of_nat i) = content s k ! (fd_pos s fd + i)" if i: "i < n k" for i
    using memcpy_at [OF disj, of i "mem s", folded m_def] len i nk
    by (simp add: content_def fd_pos_def add.assoc)
  moreover have "n k \<le> unat count" by (simp add: n_def)
  ultimately have "bytes_at (mem ?s) buffer (n k) = take (unat count) (drop (fd_pos s fd) (content s k))"
    using nk by (intro nth_equalityI) (auto simp: n_def)
  moreover have hp: "heap_ok ?s = heap_ok s" "heap_live ?s = heap_live s"
    using heap_set_mem_outside [of m s] outm by simp_all
  moreover have tab: "tables_ok ?s"
  proof -
    have "tables_ok (set_mem m s)" using assms(2) by (simp add: fs_ok_def tables_ok_def)
    from tables_ok_desc_pos [OF this, of fd "fd_position ?d + rd"] fd show ?thesis by simp
  qed
  moreover have ok: "fs_ok ?s"
    by (rule fs_ok_transfer [OF assms(2)]) (use hp tab assms(2) in \<open>simp_all add: fs_ok_def\<close>)
  moreover have "unat (fd_position ?d + rd) = fd_pos s fd + n k"
    using nk c rd(1) by (simp add: unat_word_ariths fd_pos_def)
  moreover have "length (file_descriptors s) = 32" using assms(2) by (simp add: fs_ok_def tables_ok_def)
  moreover have "heap_file ?s j \<and> content ?s j = content s j" if "heap_file s j" for j
    using that hp content_outside [OF assms(2) that, of ?s] outm by (simp add: heap_file_def backed_def)
  ultimately show ?thesis
    using run fd nk by (intro exI [of _ ?s]) (auto simp: fd_pos_def open_file_def word_le_nat_alt)
qed

section \<open>write\<close>

lemma and_not_255: "unat ((x :: u32) AND NOT 255) = unat x div 256 * 256"
proof -
  have "x AND NOT (mask 8) = push_bit 8 (drop_bit 8 x)"
    by (rule bit_word_eqI) (auto simp: bit_simps)
  also have "\<dots> = x div 256 * 256" by (simp add: push_bit_eq_mult drop_bit_eq_div)
  finally have "unat (x AND NOT 255) = unat (x div 256 * 256)" by (simp add: mask_eq_exp_minus_1)
  also have "\<dots> = (unat x div 256 * 256) mod 2 ^ 32" by (simp only: unat_word_ariths(2) unat_div) simp
  also have "\<dots> = unat x div 256 * 256"
    by (rule mod_less) (rule le_less_trans [OF div_times_less_eq_dividend unat_u32_less])
  finally show ?thesis .
qed

lemma round_up_256:
  assumes "unat (n :: u32) \<le> 0x100000" "n \<noteq> 0"
  shows "n \<le> (n + 255) AND NOT 255" "(n + 255) AND NOT 255 \<noteq> 0" "(n + 255) AND NOT 255 \<le> 0xFFFFFFE0"
proof -
  have "unat (n + 255) = unat n + 255" using assms(1) by (simp add: unat_word_ariths)
  then have "unat ((n + 255) AND NOT 255) = (unat n + 255) div 256 * 256" by (simp only: and_not_255)
  moreover have "0 < unat n" using assms(2) by (simp add: unat_gt_0)
  moreover have "unat n \<le> (unat n + 255) div 256 * 256" "(unat n + 255) div 256 * 256 \<le> 0x1000FF"
    using assms(1) minus_mod_eq_div_mult [of "unat n + 255" 256] mod_less_divisor [of 256 "unat n + 255"]
    by linarith+
  ultimately show "n \<le> (n + 255) AND NOT 255" "(n + 255) AND NOT 255 \<noteq> 0"
      "(n + 255) AND NOT 255 \<le> 0xFFFFFFE0"
    by (auto simp: word_le_nat_alt unat_eq_0 [symmetric] simp del: unat_eq_0)
qed

text \<open>Moving the contents of file \<open>k\<close> to a fresh block keeps the file table consistent.\<close>

lemma files_ok_moved:
  assumes "fs_ok s" "heap_file s k" "lits_ok s'"
    "virtual_files s' = (virtual_files s)[k := (virtual_files s ! k)\<lparr>vf_data := q, vf_capacity := cap\<rparr>]"
    "heap_live s' = insert (unat q, c) {b \<in> heap_live s. fst b \<noteq> unat (vf_data (virtual_files s ! k))}"
    "unat q \<notin> fst ` heap_live s" "unat cap \<le> c" "vf_capacity (virtual_files s ! k) \<le> cap"
    "lit_welcome s' = lit_welcome s" "lit_info s' = lit_info s"
  shows "files_ok s' \<and> (\<forall>j. heap_file s j \<longrightarrow> heap_file s' j)"
proof -
  from assms(1) have fs: "files_ok s" "length (virtual_files s) = 32" by (auto simp: fs_ok_def tables_ok_def)
  have k: "k < 32" "vf_in_use (virtual_files s ! k) \<noteq> 0" "backed s k" using assms(2) by (auto simp: heap_file_def)
  have nk: "virtual_files s' ! j = virtual_files s ! j" if "j \<noteq> k" for j using that assms(4) by simp
  have atk: "virtual_files s' ! k = (virtual_files s ! k)\<lparr>vf_data := q, vf_capacity := cap\<rparr>"
    using assms(4) fs(2) k(1) by simp
  have use: "vf_in_use (virtual_files s' ! j) = vf_in_use (virtual_files s ! j)" for j
    by (cases "j = k") (simp_all add: atk nk)
  have bk: "backed s' k" using assms(5,7) by (auto simp: backed_def atk)
  have keep: "backed s' j" if "j < 32" "vf_in_use (virtual_files s ! j) \<noteq> 0" "backed s j" for j
  proof (cases "j = k")
    case False
    have "vf_data (virtual_files s ! j) \<noteq> vf_data (virtual_files s ! k)"
      using fs(1) that k False by (simp add: files_ok_def)
    then have "unat (vf_data (virtual_files s ! j)) \<noteq> unat (vf_data (virtual_files s ! k))"
      by (simp add: word_unat_eq_iff)
    with that(3) show ?thesis unfolding backed_def nk [OF False] assms(5) by auto
  qed (simp add: bk)
  have dflt: "is_default s' j" if "is_default s j" "j \<noteq> k" for j
    using that assms(9,10) by (simp add: is_default_def nk)
  have bck: "backed s j" if "j < 32" "vf_in_use (virtual_files s ! j) \<noteq> 0" "j \<noteq> k" "backed s' j" for j
    using that fs(1) dflt default_not_backed [OF assms(3)] by (auto simp: files_ok_def)
  have neq: "vf_data (virtual_files s' ! j) \<noteq> q" if "j < 32" "vf_in_use (virtual_files s ! j) \<noteq> 0" "j \<noteq> k" "backed s' j" for j
    using bck [OF that] assms(6) nk [OF that(3)] by (force simp: backed_def)
  have sz: "vf_size (virtual_files s' ! j) \<le> vf_capacity (virtual_files s' ! j)"
    if "j < 32" "vf_in_use (virtual_files s ! j) \<noteq> 0" for j
    using that fs(1) assms(8) by (cases "j = k") (auto simp: files_ok_def atk nk intro: order_trans)
  have "files_ok s'"
    unfolding files_ok_def use
  proof (intro conjI allI impI)
    fix j assume j: "j < 32" "vf_in_use (virtual_files s ! j) \<noteq> 0"
    then show "vf_size (virtual_files s' ! j) \<le> vf_capacity (virtual_files s' ! j)" by (rule sz)
    show "backed s' j \<or> is_default s' j"
      using j fs(1) keep dflt bk by (cases "j = k") (auto simp: files_ok_def)
  next
    fix i j assume a: "i < 32" "j < 32" "i \<noteq> j \<and> vf_in_use (virtual_files s ! i) \<noteq> 0 \<and>
        vf_in_use (virtual_files s ! j) \<noteq> 0 \<and> backed s' i \<and> backed s' j"
    consider "i = k" | "j = k" | "i \<noteq> k" "j \<noteq> k" by blast
    then show "vf_data (virtual_files s' ! i) \<noteq> vf_data (virtual_files s' ! j)"
    proof cases
      case 1
      then show ?thesis using a neq [of j] by (auto simp: atk)
    next
      case 2
      then show ?thesis using a neq [of i] by (auto simp: atk)
    next
      case 3
      then show ?thesis using a bck [of i] bck [of j] fs(1) by (simp add: nk files_ok_def)
    qed
  qed
  moreover have "heap_file s' j" if "heap_file s j" for j
    using that keep use by (simp add: heap_file_def)
  ultimately show ?thesis by blast
qed

lemma tables_ok_same_use:
  assumes "tables_ok s" "fs_initialized s' = fs_initialized s" "file_descriptors s' = file_descriptors s"
    "virtual_files s' = (virtual_files s)[k := f]" "k < 32" "length (vf_name f) = 64" "0 \<in> set (vf_name f)"
    "vf_in_use (virtual_files s ! k) \<noteq> 0 \<longrightarrow> vf_in_use f \<noteq> 0"
  shows "tables_ok s'"
proof -
  have use: "vf_in_use ((virtual_files s)[k := f] ! j) \<noteq> 0" if "vf_in_use (virtual_files s ! j) \<noteq> 0" for j
    using that assms(1,5,8) by (cases "j = k") (auto simp: tables_ok_def)
  have mem: "g = f \<or> g \<in> set (virtual_files s)" if "g \<in> set ((virtual_files s)[k := f])" for g
    using that set_update_subset_insert by fastforce
  have "\<forall>g \<in> set ((virtual_files s)[k := f]). length (vf_name g) = 64 \<and> 0 \<in> set (vf_name g)"
    using mem assms(1,6,7) unfolding tables_ok_def by blast
  moreover have "\<forall>d \<in> set (file_descriptors s). fd_in_use d \<noteq> 0 \<longrightarrow>
      (\<exists>j < 32. fd_file d = Some j \<and> vf_in_use ((virtual_files s)[k := f] ! j) \<noteq> 0)"
    using use assms(1) unfolding tables_ok_def by blast
  ultimately show ?thesis using assms(1-4) by (simp add: tables_ok_def)
qed

lemma heap_file_name:
  "fs_ok s \<Longrightarrow> k < 32 \<Longrightarrow> length (vf_name (virtual_files s ! k)) = 64 \<and> 0 \<in> set (vf_name (virtual_files s ! k))"
  by (simp add: fs_ok_def tables_ok_def)

definition grown :: "'a ksys_scheme \<Rightarrow> nat \<Rightarrow> u32 \<Rightarrow> s32 option \<Rightarrow> 'a ksys_scheme \<Rightarrow> bool" where
  "grown s k needed e s1 \<longleftrightarrow> fs_ok s1 \<and> file_descriptors s1 = file_descriptors s \<and>
     vf_size (virtual_files s1 ! k) = vf_size (virtual_files s ! k) \<and>
     (e = Some SYSCALL_OUT_OF_MEMORY \<or> e = None \<and> needed \<le> vf_capacity (virtual_files s1 ! k)) \<and>
     (\<forall>j. heap_file s j \<longrightarrow> heap_file s1 j \<and> content s1 j = content s j) \<and>
     (\<forall>b. unat b \<notin> heap_arena \<longrightarrow> mem s1 b = mem s b)"

lemma grow_fail:
  assumes "fs_ok s" "sys_handler_malloc n s = Some (0, s1)" "heap_ok s1"
    "heap_live s1 = heap_live s" "same_on (heap_live s) heap_arena (mem s) (mem s1)"
  shows "grown s k needed (Some SYSCALL_OUT_OF_MEMORY) s1"
proof -
  note more = malloc_more [OF assms(2), THEN more_ksys(1)] malloc_more [OF assms(2), THEN more_ksys(2)]
    malloc_more [OF assms(2), THEN more_ksys(3)] malloc_more [OF assms(2), THEN more_ksys(5)]
    malloc_more [OF assms(2), THEN more_ksys(6)]
  have "tables_ok s1" using assms(1) more by (simp add: fs_ok_def tables_ok_def)
  then have ok: "fs_ok s1" by (intro fs_ok_transfer [OF assms(1,3,4)]) (simp_all add: more)
  have "heap_file s1 j \<and> content s1 j = content s j" if hf: "heap_file s j" for j
  proof (rule heap_file_block [OF assms(1) hf])
    fix c assume "(unat (vf_data (virtual_files s ! j)), c) \<in> heap_live s"
      "unat (vf_size (virtual_files s ! j)) \<le> c"
    from content_same_on [OF assms(5) subset_refl this] hf assms(4) more
    show ?thesis by (simp add: heap_file_def backed_def)
  qed
  with ok more same_on_out [OF assms(5)] show ?thesis by (simp add: grown_def)
qed

lemma grow_ok:
  assumes "fs_ok s" "heap_file s k" "unat needed \<le> 0x100000" "unat (vf_size (virtual_files s ! k)) < 2 ^ 16"
  shows "\<exists>e s1. write_grow k needed s = Some (e, s1) \<and> grown s k needed e s1"
proof (cases "needed > vf_capacity (virtual_files s ! k)")
  case False
  then show ?thesis using assms(1) by (auto simp: write_grow_def grown_def Let_def not_less)
next
  case True
  let ?f = "virtual_files s ! k"
  define cap where "cap = (needed + 255) AND NOT 255"
  have "needed \<noteq> 0" using True by auto
  note cap = round_up_256 [OF assms(3) this, folded cap_def]
  have inv: "heap_ok s" using assms(1) by (simp add: fs_ok_def)
  from kmalloc.alloc_spec [OF inv cap(2,3)] obtain q s1 where s1: "sys_handler_malloc cap s = Some (q, s1)"
    "heap_ok s1" "same_on (heap_live s) heap_arena (mem s) (mem s1)"
    "if q = 0 then heap_live s1 = heap_live s
     else unat q \<notin> fst ` heap_live s \<and> (\<exists>k \<ge> unat cap. heap_live s1 = insert (unat q, k) (heap_live s))" by blast
  show ?thesis
  proof (cases "q = 0")
    case q: True
    have "write_grow k needed s = Some (Some SYSCALL_OUT_OF_MEMORY, s1)"
      using True s1(1) q unfolding write_grow_def Let_def cap_def [symmetric] by simp
    with grow_fail [OF assms(1), of cap s1 k needed] s1 q show ?thesis by auto
  next
    case q: False
    from heap_file_block [OF assms(1,2)] obtain c where c: "(unat (vf_data ?f), c) \<in> heap_live s"
      "unat (vf_capacity ?f) \<le> c" "unat (vf_size ?f) \<le> c" by blast
    have len: "unat (ucast (vf_size ?f) :: u16) = unat (vf_size ?f)"
      using assms(4) by (simp add: unsigned_ucast_eq take_bit_nat_eq_self)
    have k32: "k < 32" using assms(2) by (simp add: heap_file_def)
    have szcap: "vf_size ?f \<le> vf_capacity ?f" using assms(1,2) by (simp add: fs_ok_def files_ok_def heap_file_def)
    then have "vf_size ?f \<le> cap" using True cap(1) by simp
    then have le: "unat (ucast (vf_size ?f) :: u16) \<le> unat cap" by (simp add: len word_le_nat_alt)
    from kmalloc.relocate_memcpy [OF inv c(1) cap(2,3) _ le s1(1) q] c(3) len obtain s3 c' where s3:
      "sys_handler_free (vf_data ?f) (set_mem (memcpy (mem s1) q (vf_data ?f) (ucast (vf_size ?f))) s1) = Some (0, s3)"
      "heap_ok s3" "unat cap \<le> c'"
      "heap_live s3 = insert (unat q, c') {b \<in> heap_live s. fst b \<noteq> unat (vf_data ?f)}"
      "\<forall>i < unat (vf_size ?f). mem s3 (q + of_nat i) = mem s (vf_data ?f + of_nat i)"
      "same_on {b \<in> heap_live s. fst b \<noteq> unat (vf_data ?f)} heap_arena (mem s) (mem s3)"
      by auto
    have "kheap.more s3 = kheap.more s" using free_more [OF s3(1)] malloc_more [OF s1(1)] by simp
    note more = this [THEN more_ksys(1)] this [THEN more_ksys(2)] this [THEN more_ksys(3)]
      this [THEN more_ksys(5)] this [THEN more_ksys(6)]
    let ?g = "?f\<lparr>vf_data := q, vf_capacity := cap\<rparr>"
    let ?s = "set_file k ?g s3"
    have run: "write_grow k needed s = Some (None, ?s)"
      using True s1(1) q s3(1) unfolding write_grow_def Let_def cap_def [symmetric] by simp
    have lits: "lits_ok ?s" using assms(1) by (simp add: fs_ok_def lits_ok_def more)
    have vf: "virtual_files ?s = (virtual_files s)[k := ?g]" by (simp add: more)
    have moved: "files_ok ?s \<and> (\<forall>j. heap_file s j \<longrightarrow> heap_file ?s j)"
    proof (rule files_ok_moved [OF assms(1,2) lits vf])
      show "heap_live ?s = insert (unat q, c') {b \<in> heap_live s. fst b \<noteq> unat (vf_data ?f)}"
        using s3(4) by simp
      show "unat q \<notin> fst ` heap_live s" using s1(4) q by simp
      show "vf_capacity ?f \<le> cap" using True cap(1) by simp
    qed (use s3(3) more in simp_all)
    have "tables_ok ?s"
      by (rule tables_ok_same_use [where s = s and k = k and f = ?g])
        (use assms(1) more heap_file_name [OF assms(1) k32] k32 in \<open>simp_all add: fs_ok_def\<close>)
    then have ok: "fs_ok ?s" using moved lits s3(2) by (simp add: fs_ok_def)
    have "content ?s j = content s j" if hf: "heap_file s j" for j
    proof (cases "j = k")
      case True
      with s3(5) k32 assms(1) show ?thesis
        by (simp add: content_def bytes_at_def more fs_ok_def tables_ok_def)
    next
      case False
      from heap_file_block [OF assms(1) hf] obtain cj where cj:
        "(unat (vf_data (virtual_files s ! j)), cj) \<in> heap_live s" "unat (vf_size (virtual_files s ! j)) \<le> cj" by blast
      have "vf_data (virtual_files s ! j) \<noteq> vf_data ?f"
        using assms(1,2) hf False by (simp add: fs_ok_def files_ok_def heap_file_def)
      then have "unat (vf_data (virtual_files s ! j)) \<noteq> unat (vf_data ?f)" by (simp add: word_unat_eq_iff)
      with cj show ?thesis
        by (intro content_same_on [OF s3(6)[folded set_file_frame(1) [of k ?g s3]], of j cj])
          (auto simp: more False [THEN not_sym])
    qed
    moreover have "vf_size (virtual_files ?s ! k) = vf_size ?f" "needed \<le> vf_capacity (virtual_files ?s ! k)"
      using cap(1) k32 assms(1) by (simp_all add: more fs_ok_def tables_ok_def)
    ultimately have "grown s k needed None ?s"
      using ok moved more same_on_out [OF s3(6)] by (simp add: grown_def)
    with run show ?thesis by blast
  qed
qed

lemma set_file_same [simp]: "set_file k (virtual_files s ! k) s = s"
  by (simp add: set_file_def)

text \<open>Changing a size within the capacity.\<close>

lemma fs_ok_resize:
  fixes s :: "'a ksys_scheme"
  assumes "fs_ok s" "k < 32" "z \<le> vf_capacity (virtual_files s ! k)"
  defines "s' \<equiv> set_file k ((virtual_files s ! k)\<lparr>vf_size := z\<rparr>) s"
  shows "fs_ok s'" "heap_file s' j = heap_file s j"
proof -
  have nth: "virtual_files s' ! i = (if i = k then (virtual_files s ! k)\<lparr>vf_size := z\<rparr> else virtual_files s ! i)" for i
    using assms(1,2) by (auto simp: s'_def fs_ok_def tables_ok_def nth_list_update)
  have b: "backed s' i = backed s i" "is_default s' i = is_default s i" for i
    by (simp_all add: backed_def is_default_def nth) (simp_all add: s'_def)
  have "tables_ok s'"
    by (rule tables_ok_same_use [where s = s and k = k and f = "(virtual_files s ! k)\<lparr>vf_size := z\<rparr>"])
      (use assms(1,2) heap_file_name [OF assms(1,2)] in \<open>simp_all add: fs_ok_def s'_def\<close>)
  moreover have "files_ok s'"
    using assms(1,3) unfolding fs_ok_def files_ok_def b nth by auto
  ultimately show "fs_ok s'" using assms(1) by (simp add: fs_ok_def lits_ok_def s'_def)
  show "heap_file s' j = heap_file s j" by (simp add: heap_file_def b nth)
qed

text \<open>Overwriting \<open>data\<close> at position \<open>p\<close> of a byte list, extending it if needed.\<close>

definition overwrite :: "nat \<Rightarrow> u8 list \<Rightarrow> u8 list \<Rightarrow> u8 list" where
  "overwrite p data c = take p c @ data @ drop (p + length data) c"

lemma overwrite_nth:
  assumes "p \<le> length c" "i < max (length c) (p + length data)"
  shows "overwrite p data c ! i = (if p \<le> i \<and> i < p + length data then data ! (i - p) else c ! i)"
  using assms by (auto simp: overwrite_def nth_append)

lemma length_overwrite: "p \<le> length c \<Longrightarrow> length (overwrite p data c) = max (length c) (p + length data)"
  by (auto simp: overwrite_def)

text \<open>The bytes of a block after a copy into it.\<close>

lemma copy_into_block:
  assumes "heap_ok s" "(unat d, c) \<in> heap_live s" "p + unat n \<le> c" "user_buf buf (unat n)"
  defines "m \<equiv> memcpy (mem s) (d + of_nat p) buf n"
  shows "unat a \<notin> payload (unat d, c) \<Longrightarrow> m a = mem s a"
    "z \<le> c \<Longrightarrow> i < z \<Longrightarrow>
      m (d + of_nat i) = (if p \<le> i \<and> i < p + unat n then mem s (buf + of_nat (i - p)) else mem s (d + of_nat i))"
proof -
  have rng: "unat d + c \<le> 0x500000" "0x400000 \<le> unat d" using heap_live_range [OF assms(2)] by auto
  have dst: "d + of_nat p = of_nat (unat d + p)" by simp
  have reg: "a \<in> region (d + of_nat p) (unat n) \<longleftrightarrow> unat d + p \<le> unat a \<and> unat a < unat d + p + unat n" for a
    unfolding dst using rng assms(3) by (subst region_of_nat) auto
  have "unat a \<in> heap_arena" if "a \<in> region (d + of_nat p) (unat n)" for a
    using that rng assms(3) unfolding reg by auto
  then have disj: "region (d + of_nat p) (unat n) \<inter> region buf (unat n) = {}"
    using user_buf_outside [OF assms(4)] by blast
  show "m a = mem s a" if "unat a \<notin> payload (unat d, c)"
    unfolding m_def using that assms(3) by (intro memcpy_outside) (auto simp: reg payload_def)
  assume i: "z \<le> c" "i < z"
  have ui: "unat (d + of_nat i) = unat d + i" using unat_of_nat_u32 [of "unat d + i"] i rng by simp
  show "m (d + of_nat i) = (if p \<le> i \<and> i < p + unat n then mem s (buf + of_nat (i - p)) else mem s (d + of_nat i))"
  proof (cases "p \<le> i \<and> i < p + unat n")
    case True
    then have "d + of_nat i = d + of_nat p + of_nat (i - p)" "i - p < unat n" by (auto simp: of_nat_diff)
    then show ?thesis unfolding m_def using True memcpy_at [OF disj, of "i - p" "mem s"] by simp
  next
    case False
    then show ?thesis unfolding m_def by (subst memcpy_outside) (auto simp: reg ui)
  qed
qed

lemma write_ok:
  fixes s :: "'a ksys_scheme" and count fd buffer :: u32
  assumes "fs_ok s" "open_file s fd k" "heap_file s k" "fd_flags (file_descriptors s ! unat fd) AND OPEN_WRITE \<noteq> 0"
    "user_buf buffer (unat count)" "count \<noteq> 0" "unat count < 2 ^ 16" "length (content s k) < 2 ^ 16"
  shows "\<exists>r s'. sys_handler_write fd buffer count s = Some (r, s') \<and> fs_ok s' \<and> heap_file s' k \<and>
    (\<forall>j. heap_file s j \<and> j \<noteq> k \<longrightarrow> heap_file s' j \<and> content s' j = content s j) \<and>
    (\<forall>i. i \<noteq> unat fd \<longrightarrow> file_descriptors s' ! i = file_descriptors s ! i) \<and>
    (if r = count
     then content s' k = overwrite (fd_pos s fd) (bytes_at (mem s) buffer (unat count)) (content s k) \<and>
       fd_pos s' fd = fd_pos s fd + unat count \<and> open_file s' fd k
     else r = SYSCALL_OUT_OF_MEMORY \<and> content s' k = content s k \<and> fd_pos s' fd = fd_pos s fd)"
proof -
  let ?d = "file_descriptors s ! unat fd" and ?pos = "fd_pos s fd" and ?f = "virtual_files s ! k"
  from assms(2) have fd: "unat fd < 32" "\<not> 32 \<le> fd" "fd_in_use ?d \<noteq> 0" "fd_file ?d = Some k"
    "?pos \<le> unat (vf_size ?f)"
    by (auto simp: open_file_def word_less_nat_alt word_le_nat_alt fd_pos_def)
  have fd12: "fd \<noteq> 1" "fd \<noteq> 2"
    using desc_in_use [of s "unat fd"] fd assms(1) by (auto simp: fs_ok_def)
  have size16: "unat (vf_size ?f) < 2 ^ 16" using assms(8) by simp
  have needed: "unat (fd_position ?d + count) = ?pos + unat count"
    using fd(5) size16 assms(7) by (simp add: unat_word_ariths fd_pos_def)
  then have "unat (fd_position ?d + count) \<le> 0x100000" using fd(5) size16 assms(7) by simp
  from grow_ok [OF assms(1,3) this size16] obtain e s1 where
    g: "write_grow k (fd_position ?d + count) s = Some (e, s1)" "grown s k (fd_position ?d + count) e s1" by blast
  from g(2) have g1: "fs_ok s1" "file_descriptors s1 = file_descriptors s"
    "vf_size (virtual_files s1 ! k) = vf_size ?f"
    "\<And>j. heap_file s j \<Longrightarrow> heap_file s1 j \<and> content s1 j = content s j"
    "\<And>b. unat b \<notin> heap_arena \<Longrightarrow> mem s1 b = mem s b"
    by (auto simp: grown_def)
  have neq: "count \<noteq> SYSCALL_OUT_OF_MEMORY"
  proof
    assume "count = SYSCALL_OUT_OF_MEMORY"
    then have "unat count = 0xFFFFFFFA" by (simp add: SYSCALL_OUT_OF_MEMORY_def)
    with assms(7) show False by simp
  qed
  have unfold: "sys_handler_write fd buffer count s =
      (case e of Some err \<Rightarrow> Some (err, s1)
       | None \<Rightarrow>
          (let file = virtual_files s1 ! k;
               m = memcpy (mem s1) (vf_data file + fd_position ?d) buffer (ucast count);
               pos = fd_position ?d + count;
               s2 = set_desc (unat fd) (?d\<lparr>fd_position := pos\<rparr>) (set_mem m s1)
           in Some (count, if pos > vf_size file then set_file k (file\<lparr>vf_size := pos\<rparr>) s2 else s2)))"
    using fd fd12 assms(4-6) g(1)
    by (simp add: sys_handler_write_def MAX_OPEN_FILES_def user_buf_def Let_def)
  show ?thesis
  proof (cases e)
    case (Some err)
    then have "err = SYSCALL_OUT_OF_MEMORY" using g(2) by (simp add: grown_def)
    then show ?thesis using unfold Some g1 assms(3) neq
      by (intro exI [of _ SYSCALL_OUT_OF_MEMORY] exI [of _ s1]) (simp add: fd_pos_def)
  next
    case None
    let ?f1 = "virtual_files s1 ! k"
    have cap: "fd_position ?d + count \<le> vf_capacity ?f1" using g(2) None by (simp add: grown_def)
    have hf1: "heap_file s1 k" "content s1 k = content s k" using g1(4) [OF assms(3)] by auto
    from heap_file_block [OF g1(1) hf1(1)] obtain c where c: "(unat (vf_data ?f1), c) \<in> heap_live s1"
      "unat (vf_capacity ?f1) \<le> c" "unat (vf_size ?f1) \<le> c" "unat (vf_data ?f1) + c \<le> 0x500000" by blast
    have cnt: "unat (ucast count :: u16) = unat count"
      using assms(7) by (simp add: unsigned_ucast_eq take_bit_nat_eq_self)
    have fit: "?pos + unat count \<le> c" using cap c(2) needed by (simp add: word_le_nat_alt)
    define m where "m = memcpy (mem s1) (vf_data ?f1 + of_nat ?pos) buffer (ucast count)"
    have ok1: "heap_ok s1" using g1(1) by (simp add: fs_ok_def)
    note copy = copy_into_block [OF ok1 c(1), where p = ?pos and n = "ucast count" and buf = buffer,
        folded m_def, unfolded cnt, OF fit assms(5)]
    have wr: "heap_ok (set_mem m s1)" "heap_live (set_mem m s1) = heap_live s1"
      using kmalloc.write_spec [OF ok1 c(1), of m] copy(1) by blast+
    have others: "same_on (heap_live s1 - {(unat (vf_data ?f1), c)}) heap_arena (mem s1) m"
      using kmalloc.write_others [OF ok1 c(1), of m] copy(1) by blast
    let ?s2 = "set_desc (unat fd) (?d\<lparr>fd_position := fd_position ?d + count\<rparr>) (set_mem m s1)"
    define z where "z = max (vf_size ?f1) (fd_position ?d + count)"
    let ?s3 = "set_file k ((virtual_files ?s2 ! k)\<lparr>vf_size := z\<rparr>) ?s2"
    have run: "sys_handler_write fd buffer count s = Some (count, ?s3)"
    proof -
      have at: "vf_data ?f1 + fd_position ?d = vf_data ?f1 + of_nat ?pos" by (simp add: fd_pos_def)
      have vf: "virtual_files ?s2 = virtual_files s1" by simp
      have same: "set_file k ?f1 ?s2 = ?s2" using set_file_same [of k ?s2] unfolding vf .
      show ?thesis
      proof (cases "vf_size ?f1 < fd_position ?d + count")
        case True
        then have "z = fd_position ?d + count" by (simp add: z_def)
        then show ?thesis unfolding unfold None Let_def at m_def [symmetric] vf using True by simp
      next
        case False
        then have "?f1\<lparr>vf_size := z\<rparr> = ?f1" by (simp add: z_def not_less)
        then show ?thesis unfolding unfold None Let_def at m_def [symmetric] vf using False same by simp
      qed
    qed
    have tab2: "tables_ok ?s2"
    proof -
      have "tables_ok (set_mem m s1)" using g1(1) by (simp add: fs_ok_def tables_ok_def)
      from tables_ok_desc_pos [OF this, of fd "fd_position ?d + count"] fd g1(2) show ?thesis by simp
    qed
    have ok2: "fs_ok ?s2" by (rule fs_ok_transfer [OF g1(1)]) (use wr tab2 g1(1) in \<open>simp_all add: fs_ok_def\<close>)
    have k32: "k < 32" using assms(3) by (simp add: heap_file_def)
    have szcap: "vf_size ?f1 \<le> vf_capacity ?f1" using g1(1) hf1(1) by (simp add: fs_ok_def files_ok_def heap_file_def)
    have zcap: "z \<le> vf_capacity (virtual_files ?s2 ! k)" using szcap cap by (simp add: z_def)
    note ok3 = fs_ok_resize [OF ok2 k32 zcap]
    have len1: "length (virtual_files s1) = 32" "length (file_descriptors s) = 32"
      using g1(1,2) by (auto simp: fs_ok_def tables_ok_def)
    have hf3: "heap_file ?s3 j = heap_file s1 j" for j
      unfolding ok3(2) using wr by (simp add: heap_file_def backed_def)
    have uz: "unat z = max (length (content s k)) (?pos + unat count)"
      using needed g1(3) by (auto simp: z_def max_def word_le_nat_alt)
    have pos_le: "?pos \<le> length (content s k)" using fd(5) by simp
    have zc: "unat z \<le> c" using uz c(3) fit g1(3) by simp
    have buf: "mem s1 (buffer + of_nat i) = mem s (buffer + of_nat i)" if "i < unat count" for i
      using user_buf_outside [OF assms(5)] that by (intro g1(5)) blast
    have "content ?s3 k = overwrite ?pos (bytes_at (mem s) buffer (unat count)) (content s k)"
    proof (rule nth_equalityI)
      show "length (content ?s3 k) = length (overwrite ?pos (bytes_at (mem s) buffer (unat count)) (content s k))"
        using uz length_overwrite [OF pos_le] k32 len1 by simp
      fix i assume "i < length (content ?s3 k)"
      then have i: "i < unat z" using k32 len1 by simp
      have "content ?s3 k ! i = m (vf_data ?f1 + of_nat i)"
        using i k32 len1 by (simp add: content_def)
      also have "\<dots> = (if ?pos \<le> i \<and> i < ?pos + unat count then mem s (buffer + of_nat (i - ?pos))
          else mem s1 (vf_data ?f1 + of_nat i))"
        using copy(2) [OF zc i] buf [of "i - ?pos"] by auto
      also have "\<dots> = overwrite ?pos (bytes_at (mem s) buffer (unat count)) (content s k) ! i"
      proof -
        have "mem s1 (vf_data ?f1 + of_nat i) = content s k ! i" if "\<not> (?pos \<le> i \<and> i < ?pos + unat count)"
        proof -
          have "i < unat (vf_size ?f1)" using that i uz pos_le g1(3) by auto
          then show ?thesis unfolding hf1(2) [symmetric] by (simp add: content_def)
        qed
        then show ?thesis using overwrite_nth [OF pos_le, of i "bytes_at (mem s) buffer (unat count)"] i uz by auto
      qed
      finally show "content ?s3 k ! i = overwrite ?pos (bytes_at (mem s) buffer (unat count)) (content s k) ! i" .
    qed
    moreover have "content ?s3 j = content s j \<and> heap_file ?s3 j" if j: "heap_file s j" "j \<noteq> k" for j
    proof -
      have hj: "heap_file s1 j" "content s1 j = content s j" using g1(4) [OF j(1)] by auto
      from heap_file_block [OF g1(1) hj(1)] obtain cj where cj:
        "(unat (vf_data (virtual_files s1 ! j)), cj) \<in> heap_live s1" "unat (vf_size (virtual_files s1 ! j)) \<le> cj" by blast
      have "vf_data (virtual_files s1 ! j) \<noteq> vf_data ?f1"
        using g1(1) hj(1) hf1(1) j(2) by (simp add: fs_ok_def files_ok_def heap_file_def)
      then have "unat (vf_data (virtual_files s1 ! j)) \<noteq> unat (vf_data ?f1)" by (simp add: word_unat_eq_iff)
      with cj(1) have "(unat (vf_data (virtual_files s1 ! j)), cj) \<in> heap_live s1 - {(unat (vf_data ?f1), c)}" by simp
      from content_same_on [OF _ _ this, where s' = ?s3] others cj(2) j(2) have "content ?s3 j = content s1 j" by auto
      with hj hf3 show ?thesis by simp
    qed
    moreover have "fd_pos ?s3 fd = ?pos + unat count" "open_file ?s3 fd k"
      using needed fd k32 len1 g1(2) by (auto simp: fd_pos_def open_file_def z_def)
    moreover have "file_descriptors ?s3 ! i = file_descriptors s ! i" if "i \<noteq> unat fd" for i
      using that g1(2) by simp
    ultimately show ?thesis using run ok3(1) hf3 hf1(1)
      by (intro exI [of _ count] exI [of _ ?s3]) auto
  qed
qed

section \<open>open\<close>

text \<open>Filling a slot of the file table that is not in use.\<close>

lemma fs_ok_fill:
  assumes "fs_ok s" "i < 32" "vf_in_use (virtual_files s ! i) = 0"
    "heap_ok s'" "heap_live s \<subseteq> heap_live s'" "virtual_files s' = (virtual_files s)[i := f]"
    "file_descriptors s' = file_descriptors s" "fs_initialized s' = fs_initialized s"
    "lit_welcome s' = lit_welcome s" "lit_info s' = lit_info s"
    "length (vf_name f) = 64" "0 \<in> set (vf_name f)"
    "vf_in_use f \<noteq> 0 \<Longrightarrow> vf_size f \<le> vf_capacity f \<and> unat (vf_data f) \<notin> fst ` heap_live s \<and>
       (\<exists>c. (unat (vf_data f), c) \<in> heap_live s' \<and> unat (vf_capacity f) \<le> c)"
  shows "fs_ok s'" "\<And>j. heap_file s j \<Longrightarrow> heap_file s' j"
proof -
  have len: "length (virtual_files s) = 32" using assms(1) by (simp add: fs_ok_def tables_ok_def)
  have nth: "virtual_files s' ! j = (if j = i then f else virtual_files s ! j)" for j
    using assms(2,6) len by (auto simp: nth_list_update)
  have lits: "lits_ok s'" using assms(1,9,10) by (simp add: fs_ok_def lits_ok_def)
  have fs: "files_ok s" using assms(1) by (simp add: fs_ok_def)
  have keep: "backed s' j" if "backed s j" "j \<noteq> i" for j
    using that assms(5) by (auto simp: backed_def nth)
  have dflt: "is_default s' j" if "is_default s j" "j \<noteq> i" for j
    using that assms(9,10) by (simp add: is_default_def nth)
  have bck: "backed s j" if "j < 32" "vf_in_use (virtual_files s ! j) \<noteq> 0" "j \<noteq> i" "backed s' j" for j
    using that fs dflt default_not_backed [OF lits] by (auto simp: files_ok_def)
  have fi: "backed s' i" if "vf_in_use f \<noteq> 0" using assms(13) [OF that] by (auto simp: backed_def nth)
  have neq: "vf_data (virtual_files s ! j) \<noteq> vf_data f"
    if "vf_in_use f \<noteq> 0" "j < 32" "vf_in_use (virtual_files s ! j) \<noteq> 0" "j \<noteq> i" "backed s' j" for j
    using bck [OF that(2-5)] assms(13) [OF that(1)] by (force simp: backed_def)
  have use_ne: "j \<noteq> i" if "vf_in_use (virtual_files s ! j) \<noteq> 0" for j using that assms(3) by auto
  have "files_ok s'"
    unfolding files_ok_def nth
  proof (intro conjI allI impI)
    fix j assume j: "j < 32" "vf_in_use (if j = i then f else virtual_files s ! j) \<noteq> 0"
    show "vf_size (if j = i then f else virtual_files s ! j) \<le> vf_capacity (if j = i then f else virtual_files s ! j)"
      using j fs assms(13) by (auto simp: files_ok_def)
    show "backed s' j \<or> is_default s' j"
      using j fs fi keep dflt by (cases "j = i") (auto simp: files_ok_def)
  next
    fix a b assume ab: "a < 32" "b < 32" "a \<noteq> b \<and> vf_in_use (if a = i then f else virtual_files s ! a) \<noteq> 0 \<and>
      vf_in_use (if b = i then f else virtual_files s ! b) \<noteq> 0 \<and> backed s' a \<and> backed s' b"
    consider "a = i" | "b = i" | "a \<noteq> i" "b \<noteq> i" by blast
    then show "vf_data (if a = i then f else virtual_files s ! a) \<noteq> vf_data (if b = i then f else virtual_files s ! b)"
    proof cases
      case 1
      then show ?thesis using ab neq [of b] by auto
    next
      case 2
      then show ?thesis using ab neq [of a] by auto
    next
      case 3
      then show ?thesis using ab bck [of a] bck [of b] fs by (simp add: files_ok_def)
    qed
  qed
  moreover have "tables_ok s'"
    by (rule tables_ok_same_use [where s = s and k = i and f = f]) (use assms in \<open>simp_all add: fs_ok_def\<close>)
  ultimately show "fs_ok s'" using lits assms(4) by (simp add: fs_ok_def)
  show "heap_file s' j" if "heap_file s j" for j
    using that keep use_ne by (auto simp: heap_file_def nth)
qed

lemma strcpy_arr_name:
  assumes "length buf = 64" "length path < 64" "is_cstr path"
  shows "\<exists>name. strcpy_arr buf path = Some name \<and> length name = 64 \<and> 0 \<in> set name \<and> cstr_of name = path"
  using assms by (auto simp: strcpy_arr_def cstr_of_pad)

definition created :: "u8 list \<Rightarrow> 'a ksys_scheme \<Rightarrow> s32 + nat option \<Rightarrow> 'a ksys_scheme \<Rightarrow> bool" where
  "created path s r s' \<longleftrightarrow> fs_ok s' \<and> file_descriptors s' = file_descriptors s \<and>
     (\<forall>j. heap_file s j \<longrightarrow> heap_file s' j \<and> content s' j = content s j) \<and>
     (case r of Inl e \<Rightarrow> e = SYSCALL_OUT_OF_MEMORY
      | Inr None \<Rightarrow> s' = s \<and> (\<forall>k < 32. vf_in_use (virtual_files s ! k) \<noteq> 0)
      | Inr (Some k) \<Rightarrow> heap_file s' k \<and> cstr_of (vf_name (virtual_files s' ! k)) = path \<and> content s' k = [] \<and>
          vf_in_use (virtual_files s ! k) = 0)"

lemma open_create_ok:
  assumes "fs_ok s" "length path < 64" "is_cstr path"
  shows "\<exists>r s'. open_create path s = Some (r, s') \<and> created path s r s'"
proof (cases "find_free_file (virtual_files s)")
  case None
  then have "\<forall>k < 32. vf_in_use (virtual_files s ! k) \<noteq> 0"
    unfolding find_free_file_def MAX_OPEN_FILES_def using find_upt_None_D by blast
  then show ?thesis using None assms(1) by (simp add: open_create_def created_def)
next
  case (Some i)
  then have i: "i < 32" "vf_in_use (virtual_files s ! i) = 0"
    unfolding find_free_file_def MAX_OPEN_FILES_def using find_upt_Some_D by blast+
  let ?f = "virtual_files s ! i"
  from strcpy_arr_name [OF _ assms(2,3)] heap_file_name [OF assms(1) i(1)] obtain name where
    name: "strcpy_arr (vf_name ?f) path = Some name" "length name = 64" "0 \<in> set name" "cstr_of name = path" by blast
  let ?s0 = "set_file i (?f\<lparr>vf_name := name\<rparr>) s"
  have inv: "heap_ok ?s0" using assms(1) by (simp add: fs_ok_def)
  have "(256 :: u32) \<noteq> 0" "(256 :: u32) \<le> 0xFFFFFFE0" by simp_all
  from kmalloc.alloc_spec [OF inv this, unfolded set_file_frame] obtain q s1 where s1: "sys_handler_malloc 256 ?s0 = Some (q, s1)"
    "heap_ok s1" "same_on (heap_live s) heap_arena (mem s) (mem s1)"
    "if q = 0 then heap_live s1 = heap_live s
     else unat q \<notin> fst ` heap_live s \<and> (\<exists>k \<ge> unat (256 :: u32). heap_live s1 = insert (unat q, k) (heap_live s))"
    by blast
  note more = malloc_more [OF s1(1), THEN more_ksys(1)] malloc_more [OF s1(1), THEN more_ksys(2)]
    malloc_more [OF s1(1), THEN more_ksys(3)] malloc_more [OF s1(1), THEN more_ksys(5)]
    malloc_more [OF s1(1), THEN more_ksys(6)]
  have len: "length (virtual_files s) = 32" using assms(1) by (simp add: fs_ok_def tables_ok_def)
  have sub: "heap_live s \<subseteq> heap_live s1" using s1(4) by (auto split: if_splits)
  have cont: "content (set_file i g s1) j = content s j" if hf: "heap_file s j" for j g
  proof -
    have "j \<noteq> i" using hf i(2) by (auto simp: heap_file_def)
    moreover from heap_file_block [OF assms(1) hf] obtain c where
      "(unat (vf_data (virtual_files s ! j)), c) \<in> heap_live s" "unat (vf_size (virtual_files s ! j)) \<le> c" by blast
    ultimately show ?thesis using s1(3) by (intro content_same_on [where L = "heap_live s"]) (auto simp: more)
  qed
  show ?thesis
  proof (cases "q = 0")
    case True
    let ?g = "?f\<lparr>vf_name := name, vf_data := 0\<rparr>"
    have "open_create path s = Some (Inl SYSCALL_OUT_OF_MEMORY, set_file i ?g s1)"
      using Some name(1) s1(1) True by (simp add: open_create_def)
    moreover have "fs_ok (set_file i ?g s1)" "\<And>j. heap_file s j \<Longrightarrow> heap_file (set_file i ?g s1) j"
      by (rule fs_ok_fill [OF assms(1) i, where f = ?g]; use s1(2) sub more name i in simp)+
    ultimately show ?thesis using cont more by (simp add: created_def)
  next
    case False
    let ?g = "?f\<lparr>vf_name := name, vf_data := q, vf_size := 0, vf_capacity := 256, vf_is_directory := 0, vf_in_use := 1\<rparr>"
    let ?s = "set_file i ?g s1"
    from s1(4) False obtain k where k: "unat q \<notin> fst ` heap_live s" "256 \<le> k"
      "heap_live s1 = insert (unat q, k) (heap_live s)" by auto
    have "open_create path s = Some (Inr (Some i), ?s)"
      using Some name(1) s1(1) False by (simp add: open_create_def)
    moreover have "fs_ok ?s" "\<And>j. heap_file s j \<Longrightarrow> heap_file ?s j"
      by (rule fs_ok_fill [OF assms(1) i, where f = ?g]; use s1(2) sub more name k in auto)+
    moreover have "heap_file ?s i" "content ?s i = []"
      using i(1) len k by (auto simp: heap_file_def backed_def more content_def bytes_at_def)
    ultimately show ?thesis using cont more name(4) i len by (simp add: created_def)
  qed
qed

lemma open_desc_ok:
  assumes "fs_ok s" "k < 32" "vf_in_use (virtual_files s ! k) \<noteq> 0" "open_desc k flags s = (r, s')"
  shows "fs_ok s'"
    "(\<exists>i. r = of_nat i \<and> 3 \<le> i \<and> i < 32 \<and> fd_in_use (file_descriptors s ! i) = 0 \<and> open_file s' r k \<and>
        fd_flags (file_descriptors s' ! i) = flags \<and>
        fd_pos s' r = (if flags AND OPEN_TRUNCATE \<noteq> 0 then 0
                       else if flags AND OPEN_APPEND \<noteq> 0 then length (content s k) else 0)) \<or>
      r = SYSCALL_OUT_OF_MEMORY \<and> s' = s \<and> (\<forall>i. 3 \<le> i \<and> i < 32 \<longrightarrow> fd_in_use (file_descriptors s ! i) \<noteq> 0)"
    "vf_name (virtual_files s' ! k) = vf_name (virtual_files s ! k)" "heap_file s' j = heap_file s j"
    "j \<noteq> k \<or> flags AND OPEN_TRUNCATE = 0 \<Longrightarrow> content s' j = content s j"
proof -
  have "fs_ok s' \<and> ((\<exists>i. r = of_nat i \<and> 3 \<le> i \<and> i < 32 \<and> fd_in_use (file_descriptors s ! i) = 0 \<and> open_file s' r k \<and>
        fd_flags (file_descriptors s' ! i) = flags \<and>
        fd_pos s' r = (if flags AND OPEN_TRUNCATE \<noteq> 0 then 0
                       else if flags AND OPEN_APPEND \<noteq> 0 then length (content s k) else 0)) \<or>
      r = SYSCALL_OUT_OF_MEMORY \<and> s' = s \<and> (\<forall>i. 3 \<le> i \<and> i < 32 \<longrightarrow> fd_in_use (file_descriptors s ! i) \<noteq> 0)) \<and>
    vf_name (virtual_files s' ! k) = vf_name (virtual_files s ! k) \<and> heap_file s' j = heap_file s j \<and>
    (j \<noteq> k \<or> flags AND OPEN_TRUNCATE = 0 \<longrightarrow> content s' j = content s j)"
  proof (cases "find_free_desc (file_descriptors s)")
    case None
    then have "\<forall>i. 3 \<le> i \<and> i < 32 \<longrightarrow> fd_in_use (file_descriptors s ! i) \<noteq> 0"
      unfolding find_free_desc_def MAX_OPEN_FILES_def using find_upt_None_D by blast
    with None assms show ?thesis by (simp add: open_desc_def)
  next
    case (Some i)
    then have i: "3 \<le> i" "i < 32" "fd_in_use (file_descriptors s ! i) = 0"
      unfolding find_free_desc_def MAX_OPEN_FILES_def using find_upt_Some_D by blast+
    have len: "length (virtual_files s) = 32" "length (file_descriptors s) = 32"
      using assms(1) by (simp_all add: fs_ok_def tables_ok_def)
    have ui: "unat (of_nat i :: u32) = i" "(of_nat i :: u32) < 32"
      using i(2) unat_of_nat_u32 [of i] by (simp_all add: word_less_nat_alt)
    have desc: "fs_ok (set_desc i d s)" if "fd_file d = Some k" for d
    proof -
      have "tables_ok (set_desc i d s)"
        using assms(1-3) i that by (intro tables_ok_set_desc) (auto simp: fs_ok_def)
      then show ?thesis by (intro fs_ok_transfer [OF assms(1)]) (use assms(1) in \<open>simp_all add: fs_ok_def\<close>)
    qed
    have hf: "heap_file (set_desc i d s) j = heap_file s j" "content (set_desc i d s) j = content s j" for d j
      by (simp_all add: heap_file_def backed_def content_def)
    define d where "d = \<lparr>fd_file = Some k,
       fd_position = (if flags AND OPEN_APPEND \<noteq> 0 then vf_size (virtual_files s ! k) else 0),
       fd_flags = flags, fd_in_use = 1\<rparr>"
    show ?thesis
    proof (cases "flags AND OPEN_TRUNCATE = 0")
      case True
      then have "r = of_nat i" "s' = set_desc i d s" using assms(4) Some by (simp_all add: open_desc_def d_def Let_def)
      then show ?thesis using desc [of d] hf i ui len True
        by (auto simp: d_def open_file_def fd_pos_def)
    next
      case False
      let ?d = "d\<lparr>fd_position := 0\<rparr>"
      have r: "r = of_nat i" "s' = set_file k ((virtual_files (set_desc i ?d s) ! k)\<lparr>vf_size := 0\<rparr>) (set_desc i ?d s)"
      proof -
        have "open_desc k flags s = (of_nat i,
            set_file k ((virtual_files (set_desc i ?d s) ! k)\<lparr>vf_size := 0\<rparr>) (set_desc i ?d s))"
          using Some False by (simp add: open_desc_def d_def Let_def set_file_def set_desc_def)
        with assms(4) show "r = of_nat i"
          "s' = set_file k ((virtual_files (set_desc i ?d s) ! k)\<lparr>vf_size := 0\<rparr>) (set_desc i ?d s)" by simp_all
      qed
      have "fs_ok (set_desc i ?d s)" by (rule desc) (simp add: d_def)
      from fs_ok_resize [OF this assms(2), of 0] have ok: "fs_ok s'" "heap_file s' j = heap_file s j"
        unfolding r by (simp_all add: hf)
      have "content s' j = content s j" if "j \<noteq> k"
        using that by (simp add: r content_def)
      with ok i ui len False assms(2) r show ?thesis
        by (auto simp: d_def open_file_def fd_pos_def)
    qed
  qed
  then show "fs_ok s'"
    "(\<exists>i. r = of_nat i \<and> 3 \<le> i \<and> i < 32 \<and> fd_in_use (file_descriptors s ! i) = 0 \<and> open_file s' r k \<and>
        fd_flags (file_descriptors s' ! i) = flags \<and>
        fd_pos s' r = (if flags AND OPEN_TRUNCATE \<noteq> 0 then 0
                       else if flags AND OPEN_APPEND \<noteq> 0 then length (content s k) else 0)) \<or>
      r = SYSCALL_OUT_OF_MEMORY \<and> s' = s \<and> (\<forall>i. 3 \<le> i \<and> i < 32 \<longrightarrow> fd_in_use (file_descriptors s ! i) \<noteq> 0)"
    "vf_name (virtual_files s' ! k) = vf_name (virtual_files s ! k)" "heap_file s' j = heap_file s j"
    "j \<noteq> k \<or> flags AND OPEN_TRUNCATE = 0 \<Longrightarrow> content s' j = content s j"
    by blast+
qed

lemma find_file_Some:
  assumes "find_file path files = Some k" "is_cstr path"
  shows "k < 32 \<and> vf_in_use (files ! k) \<noteq> 0 \<and> cstr_of (vf_name (files ! k)) = path"
proof -
  from assms(1) have "k < 32 \<and> vf_in_use (files ! k) \<noteq> 0 \<and> strcmp_l (cstr_of (vf_name (files ! k))) path = 0"
    unfolding find_file_def MAX_OPEN_FILES_def using find_upt_Some_D by blast
  then show ?thesis using strcmp_l_eq_0 assms(2) is_cstr_cstr_of by blast
qed

lemma find_file_None:
  assumes "find_file path files = None" "is_cstr path" "k < 32" "vf_in_use (files ! k) \<noteq> 0"
  shows "cstr_of (vf_name (files ! k)) \<noteq> path"
proof -
  have "\<not> (vf_in_use (files ! k) \<noteq> 0 \<and> strcmp_l (cstr_of (vf_name (files ! k))) path = 0)"
    using find_upt_None_D [OF assms(1)[unfolded find_file_def MAX_OPEN_FILES_def] _ assms(3)] by simp
  then show ?thesis using strcmp_l_eq_0 [OF is_cstr_cstr_of assms(2)] assms(4) by blast
qed

definition has_file :: "'a ksys_scheme \<Rightarrow> u8 list \<Rightarrow> bool" where
  "has_file s path \<longleftrightarrow>
     (\<exists>k < 32. vf_in_use (virtual_files s ! k) \<noteq> 0 \<and> cstr_of (vf_name (virtual_files s ! k)) = path)"

definition opened :: "u8 list \<Rightarrow> u32 \<Rightarrow> 'a ksys_scheme \<Rightarrow> s32 \<Rightarrow> 'a ksys_scheme \<Rightarrow> bool" where
  "opened path flags s r s' \<longleftrightarrow>
     (\<exists>k. 3 \<le> unat r \<and> r < 32 \<and> fd_in_use (file_descriptors s ! unat r) = 0 \<and> open_file s' r k \<and>
        cstr_of (vf_name (virtual_files s' ! k)) = path \<and> fd_flags (file_descriptors s' ! unat r) = flags \<and>
        (has_file s path \<or> heap_file s' k \<and> content s' k = [] \<and> flags AND OPEN_CREATE \<noteq> 0) \<and>
        fd_pos s' r = (if flags AND (OPEN_TRUNCATE) \<noteq> 0 \<or> flags AND OPEN_APPEND = 0 then 0
                       else length (content s' k)))"

lemma open_ok:
  assumes "fs_ok s" "path_ptr \<noteq> 0" "cstr_at (mem s) path_ptr path" "length path < 64"
  shows "\<exists>r s'. sys_handler_open path_ptr flags s = Some (r, s') \<and> fs_ok s' \<and>
    (opened path flags s r s' \<or>
     r = SYSCALL_OUT_OF_MEMORY \<and> file_descriptors s' = file_descriptors s \<or>
     r = SYSCALL_NOT_FOUND \<and> s' = s \<and> \<not> has_file s path) \<and>
    (\<forall>j. heap_file s j \<longrightarrow> heap_file s' j) \<and>
    (flags AND OPEN_TRUNCATE = 0 \<longrightarrow> (\<forall>j. heap_file s j \<longrightarrow> content s' j = content s j))"
proof -
  have init: "vfs_init s = Some s" using assms(1) by (simp add: vfs_init_def fs_ok_def tables_ok_def)
  have rd: "read_cstr (mem s) path_ptr = Some path" by (rule read_cstr_at [OF assms(3)])
  have cs: "is_cstr path" by (rule cstr_at_is_cstr [OF assms(3)])
  have step: "\<exists>r s'. Some (open_desc k flags s1) = Some (r, s') \<and> fs_ok s' \<and>
      (opened path flags s r s' \<or> r = SYSCALL_OUT_OF_MEMORY \<and> file_descriptors s' = file_descriptors s) \<and>
      (\<forall>j. heap_file s j \<longrightarrow> heap_file s' j) \<and>
      (flags AND OPEN_TRUNCATE = 0 \<longrightarrow> (\<forall>j. heap_file s j \<longrightarrow> content s' j = content s j))"
    if "fs_ok s1" "k < 32" "vf_in_use (virtual_files s1 ! k) \<noteq> 0" "file_descriptors s1 = file_descriptors s"
      "cstr_of (vf_name (virtual_files s1 ! k)) = path"
      "has_file s path \<or> heap_file s1 k \<and> content s1 k = [] \<and> flags AND OPEN_CREATE \<noteq> 0"
      "\<And>j. heap_file s j \<Longrightarrow> heap_file s1 j \<and> content s1 j = content s j" for k s1
  proof -
    obtain r s' where rs: "open_desc k flags s1 = (r, s')" by fastforce
    note od = open_desc_ok [OF that(1-3) rs]
    have new: "content s' k = []" if "content s1 k = []"
    proof (cases "flags AND OPEN_TRUNCATE = 0")
      case True
      then show ?thesis using od(5) [of k] that by simp
    next
      case False
      have len: "length (virtual_files s1) = 32" using \<open>fs_ok s1\<close> by (simp add: fs_ok_def tables_ok_def)
      show ?thesis
      proof (cases "find_free_desc (file_descriptors s1)")
        case None
        then show ?thesis using rs that by (auto simp: open_desc_def)
      next
        case (Some i)
        then show ?thesis using rs False len \<open>k < 32\<close>
          by (auto simp: open_desc_def Let_def content_def bytes_at_def)
      qed
    qed
    have "opened path flags s r s' \<or> r = SYSCALL_OUT_OF_MEMORY \<and> file_descriptors s' = file_descriptors s"
      using od(2)
    proof (elim disjE exE conjE)
      fix i assume i: "r = of_nat i" "3 \<le> i" "i < 32" "fd_in_use (file_descriptors s1 ! i) = 0" "open_file s' r k"
        "fd_flags (file_descriptors s' ! i) = flags"
        "fd_pos s' r = (if flags AND OPEN_TRUNCATE \<noteq> 0 then 0
           else if flags AND OPEN_APPEND \<noteq> 0 then length (content s1 k) else 0)"
      have ui: "unat r = i" "r < 32" using i(1,3) unat_of_nat_u32 [of i] by (simp_all add: word_less_nat_alt)
      have "heap_file s' k \<and> content s' k = []" if "heap_file s1 k" "content s1 k = []"
        using that new od(4) by simp
      moreover have "content s' k = content s1 k" if "flags AND OPEN_TRUNCATE = 0"
        using od(5) that by blast
      ultimately show ?thesis
        using i ui that(4,5,6) od(3) unfolding opened_def by (intro disjI1 exI [of _ k]) auto
    qed (use that(4) in simp)
    moreover have "\<forall>j. heap_file s j \<longrightarrow> heap_file s' j" using od(4) that(7) by simp
    moreover have "content s' j = content s j" if "flags AND OPEN_TRUNCATE = 0" "heap_file s j" for j
      using od(5) [of j] \<open>\<And>j. heap_file s j \<Longrightarrow> heap_file s1 j \<and> content s1 j = content s j\<close> that by simp
    ultimately show ?thesis using rs od(1) by (intro exI [of _ r] exI [of _ s']) simp
  qed
  show ?thesis
  proof (cases "find_file path (virtual_files s)")
    case (Some k)
    from find_file_Some [OF Some cs] have k: "k < 32" "vf_in_use (virtual_files s ! k) \<noteq> 0"
      "cstr_of (vf_name (virtual_files s ! k)) = path" by auto
    then have hp: "has_file s path" unfolding has_file_def by blast
    have "sys_handler_open path_ptr flags s = Some (open_desc k flags s)"
      using assms(2) Some by (simp add: sys_handler_open_def init rd)
    with step [OF assms(1) k(1,2) refl k(3)] hp show ?thesis by auto
  next
    case None
    then have no: "\<not> has_file s path" using find_file_None [OF None cs] by (auto simp: has_file_def)
    show ?thesis
    proof (cases "flags AND OPEN_CREATE = 0")
      case True
      then have "sys_handler_open path_ptr flags s = Some (SYSCALL_NOT_FOUND, s)"
        using assms(2) None by (simp add: sys_handler_open_def init rd)
      then show ?thesis using assms(1) no by auto
    next
      case False
      from open_create_ok [OF assms(1,4) cs] obtain q s1 where c: "open_create path s = Some (q, s1)"
        "created path s q s1" by blast
      note cr = c(2) [unfolded created_def]
      have run: "sys_handler_open path_ptr flags s = (case q of Inl e \<Rightarrow> Some (e, s1)
          | Inr None \<Rightarrow> Some (SYSCALL_NOT_FOUND, s1) | Inr (Some k) \<Rightarrow> Some (open_desc k flags s1))"
        using assms(2) None False by (simp add: sys_handler_open_def init rd c(1))
      show ?thesis
      proof (cases q)
        case (Inl e)
        with run cr show ?thesis by auto
      next
        case (Inr opt)
        show ?thesis
        proof (cases opt)
          case None
          with run cr Inr no assms(1) show ?thesis by auto
        next
          case (Some k)
          have "heap_file s1 k" "cstr_of (vf_name (virtual_files s1 ! k)) = path" "content s1 k = []"
            using cr Inr Some by auto
          moreover have "k < 32" "vf_in_use (virtual_files s1 ! k) \<noteq> 0" using calculation by (auto simp: heap_file_def)
          ultimately have "\<exists>r s'. Some (open_desc k flags s1) = Some (r, s') \<and> fs_ok s' \<and>
      (opened path flags s r s' \<or> r = SYSCALL_OUT_OF_MEMORY \<and> file_descriptors s' = file_descriptors s) \<and>
      (\<forall>j. heap_file s j \<longrightarrow> heap_file s' j) \<and>
      (flags AND OPEN_TRUNCATE = 0 \<longrightarrow> (\<forall>j. heap_file s j \<longrightarrow> content s' j = content s j))"
            using cr False by (intro step) auto
          then show ?thesis using run Inr Some by auto
        qed
      qed
    qed
  qed
qed

section \<open>Round trip\<close>

text \<open>What one descriptor writes, another descriptor of the same file at the same position reads.\<close>

lemma write_read:
  fixes s :: "'a ksys_scheme"
  assumes "fs_ok s" "open_file s fd k" "open_file s fd' k" "fd \<noteq> fd'" "heap_file s k" "fd_pos s fd' = fd_pos s fd"
    "fd_flags (file_descriptors s ! unat fd) AND OPEN_WRITE \<noteq> 0" "count \<noteq> 0" "unat count < 2 ^ 16"
    "length (content s k) < 2 ^ 16" "user_buf src (unat count)" "user_buf dst (unat count)"
    "sys_handler_write fd src count s = Some (count, s1)"
  shows "\<exists>s2. sys_handler_read fd' dst count s1 = Some (count, s2) \<and> fs_ok s2 \<and>
    bytes_at (mem s2) dst (unat count) = bytes_at (mem s) src (unat count)"
proof -
  let ?data = "bytes_at (mem s) src (unat count)"
  have pos: "fd_pos s fd \<le> length (content s k)"
    using assms(2) by (simp add: open_file_def fd_pos_def word_le_nat_alt)
  from write_ok [OF assms(1,2,5,7,11,8,9,10)] assms(13) have w: "fs_ok s1" "heap_file s1 k"
    "content s1 k = overwrite (fd_pos s fd) ?data (content s k)"
    "\<forall>i. i \<noteq> unat fd \<longrightarrow> file_descriptors s1 ! i = file_descriptors s ! i" by auto
  have "unat fd' \<noteq> unat fd" using assms(4) by (simp add: word_unat_eq_iff)
  then have d': "file_descriptors s1 ! unat fd' = file_descriptors s ! unat fd'" using w(4) by simp
  have p': "fd_pos s1 fd' = fd_pos s fd" using d' assms(6) by (simp add: fd_pos_def)
  have size: "unat (vf_size (virtual_files s1 ! k)) = max (length (content s k)) (fd_pos s fd + unat count)"
    using arg_cong [OF w(3), of length] length_overwrite [OF pos, of ?data] by simp
  have op: "open_file s1 fd' k"
    using assms(3) d' p' size by (simp add: open_file_def word_le_nat_alt fd_pos_def)
  have n: "min (unat count) (unat (vf_size (virtual_files s1 ! k)) - fd_pos s1 fd') = unat count"
    using size p' by simp
  have cnt: "unat count < 2 ^ 31" using assms(9) by simp
  from read_ok [OF w(1) op w(2), of dst count, unfolded n, OF assms(12) cnt assms(9)] obtain s2 where s2:
    "sys_handler_read fd' dst count s1 = Some (count, s2)" "fs_ok s2"
    "bytes_at (mem s2) dst (unat count) = take (unat count) (drop (fd_pos s fd) (content s1 k))"
    unfolding p' by (auto simp: of_nat_unat)
  moreover have "take (unat count) (drop (fd_pos s fd) (content s1 k)) = ?data"
    using pos unfolding w(3) overwrite_def by simp
  ultimately show ?thesis by auto
qed

section \<open>After initialization\<close>

lemma syscall_initialize_ok:
  assumes "heap_initialized s = 0" "fs_initialized s = 0" "lits_ok s"
    "length (g_ISRHandlers s) = 256" "length (g_IDT s) = 256"
  shows "\<exists>s'. syscall_initialize s = Some s' \<and> fs_ok s' \<and> heap_live s' = {} \<and>
    syscall_handlers s' = handler_table \<and> g_ISRHandlers s' ! 0x80 = Some ISR_syscall \<and>
    Flags (g_IDT s' ! 0x80) AND IDT_FLAG_PRESENT \<noteq> 0 \<and> has_file s' (bytes ''welcome.txt'') \<and>
    has_file s' (bytes ''info.txt'')"
proof -
  define s1 where "s1 = logf ''Syscall'' LVL_INFO ''Initializing system call interface...'' [] s"
  define s3 where "s3 = s1\<lparr>syscall_handlers := handler_table\<rparr>"
  have reg: "fold (\<lambda>(n, h). syscall_register_handler n h)
      [(0, H_exit), (1, H_print), (2, H_read), (3, H_malloc), (4, H_free), (5, H_open), (6, H_close),
       (7, H_write), (9, H_getpid), (10, H_time), (11, H_sleep), (12, H_yield)]
      (s1\<lparr>syscall_handlers := replicate (unat SYSCALL_COUNT) None\<rparr>) = s3"
    by (subst register_all) (simp_all add: SYSCALL_COUNT_def s3_def)
  have len: "length (g_ISRHandlers s3) = 256" "length (g_IDT s3) = 256"
    using assms(4,5) by (simp_all add: s3_def s1_def)
  define s4 where "s4 = s3\<lparr>g_ISRHandlers := (g_ISRHandlers s3)[0x80 := Some ISR_syscall],
    g_IDT := (g_IDT s3)[0x80 := present (g_IDT s3 ! 0x80)]\<rparr>"
  have s4: "i686_ISR_RegisterHandler SYSCALL_INTERRUPT ISR_syscall s3 = Some s4"
    using RegisterHandler_Some [OF len, of "0x80" ISR_syscall] by (simp add: SYSCALL_INTERRUPT_def s4_def)
  have f4: "fs_initialized s4 = 0" "lit_welcome s4 = lit_welcome s" "lit_info s4 = lit_info s"
    "syscall_handlers s4 = handler_table" "heap_initialized s4 = 0"
    using assms(1,2) by (simp_all add: s4_def s3_def s1_def)
  note rel = heap_init_rel(1) [OF f4(5)]
  have more: "kheap.more (heap_init s4) = kheap.more s4" by (simp add: heap_init_def Let_def)
  have "heap_ok (heap_init s4)" using rel unfolding heap_ok_def by blast
  moreover have "lits_ok (heap_init s4)" "fs_initialized (heap_init s4) = 0"
    using assms(3) by (simp_all add: lits_ok_def more_ksys [OF more] f4)
  ultimately obtain s5 where s5: "vfs_init (heap_init s4) = Some s5" "fs_ok s5"
    "virtual_files s5 = initial_files (lit_welcome (heap_init s4)) (lit_info (heap_init s4))"
    using vfs_init_ok by blast
  have keep: "mem s5 = mem (heap_init s4)" "heap_start s5 = heap_start (heap_init s4)"
    "heap_initialized s5 = heap_initialized (heap_init s4)" "g_ISRHandlers s5 = g_ISRHandlers s4"
    "g_IDT s5 = g_IDT s4" "syscall_handlers s5 = handler_table"
    using s5(1) \<open>fs_initialized (heap_init s4) = 0\<close> more_ksys [OF more] f4(4)
    by (auto simp: vfs_init_def split: Option.bind_splits)
  let ?s' = "logf ''Syscall'' LVL_INFO ''Registered %d system calls'' [VI SYSCALL_COUNT]
    (logf ''Syscall'' LVL_INFO ''System call interface initialized successfully'' [] s5)"
  have run: "syscall_initialize s = Some ?s'"
    unfolding syscall_initialize_def Let_def s1_def [symmetric] reg s4 by (simp add: s5(1))
  have live: "heap_live ?s' = {}"
    using heap_frame(2) [of ?s' "heap_init s4"] heap_live_eq [OF rel] by (simp add: keep)
  have "fs_ok ?s'"
  proof (rule fs_ok_transfer [OF s5(2)])
    show "tables_ok ?s'" using s5(2) by (simp add: fs_ok_def tables_ok_def)
    show "heap_ok ?s'" "heap_live ?s' = heap_live s5"
      using heap_frame [of ?s' s5] s5(2) by (simp_all add: fs_ok_def)
  qed simp_all
  moreover have "has_file ?s' (bytes ''welcome.txt'') \<and> has_file ?s' (bytes ''info.txt'')"
  proof -
    have vf: "virtual_files ?s' = initial_files (lit_welcome (heap_init s4)) (lit_info (heap_init s4))"
      by (simp add: s5(3))
    have "is_cstr (bytes ''welcome.txt'')" "is_cstr (bytes ''info.txt'')" by (simp_all add: bytes_def)
    note find_file_Some [OF initial_files_find(1) this(1)] find_file_Some [OF initial_files_find(2) this(2)]
    then show ?thesis unfolding has_file_def vf by blast
  qed
  ultimately show ?thesis using run live len
    by (intro exI [of _ ?s']) (simp add: keep s4_def present_def IDT_FLAG_PRESENT_def)
qed

end
