(* ===== verification/Kernel.thy ===== *)
theory Kernel
  imports VirtualFs
begin

text \<open>
  The way into the kernel: an interrupt vector runs \<open>i686_ISR_Handler\<close>, which calls the
  registered handler (\<open>src/src/kernel/arch/i686/isr_asm.asm\<close>, \<open>isr.c\<close>); the hardware vectors
  lead to the timer and the keyboard, vector \<open>0x80\<close> to the system-call dispatcher.  The
  \<open>SYSCALLn\<close> macros and the \<open>sys_\<close> wrappers of \<open>src/include/syscall.h\<close> are the callers of the
  latter.

  \<open>kernel_ok\<close> is the invariant of the running kernel: file system, heap, keyboard driver and
  dispatch tables together.  \<open>kstep\<close> is one interrupt, hardware or system call, and every
  reachable state satisfies the invariant.
\<close>

section \<open>Interrupt entry\<close>

text \<open>
  What surrounds the kernel during a call: how many timer interrupts arrive in each pass of a
  waiting loop, and the registers that the caller of a system call leaves as they are.
\<close>

record env =
  env_irqs :: "nat \<Rightarrow> nat"
  env_regs :: Registers

definition run_irq :: "u8 \<Rightarrow> irq_id \<Rightarrow> Registers \<Rightarrow> 'a ksys_scheme \<Rightarrow> 'a ksys_scheme option" where
  "run_irq scancode i r s =
     (case i of IRQ_timer \<Rightarrow> Some (pit_tick_handler s) | IRQ_keyboard \<Rightarrow> keyboard_handler scancode s)"

definition run_isr ::
    "env \<Rightarrow> u8 \<Rightarrow> isr_id \<Rightarrow> Registers \<Rightarrow> 'a ksys_scheme \<Rightarrow> (Registers \<times> 'a ksys_scheme) option" where
  "run_isr e scancode i r s =
     (case i of
        ISR_irq \<Rightarrow> do { s' \<leftarrow> i686_IRQ_Handler (run_irq scancode) r s; Some (r, s') }
      | ISR_syscall \<Rightarrow> syscall_handler (env_irqs e) r s)"

text \<open>
  \<open>isr_common\<close>: the gates are interrupt gates, so the processor clears the interrupt flag on
  entry, and \<open>iret\<close> restores the one that was saved.
\<close>

definition isr_common :: "env \<Rightarrow> u8 \<Rightarrow> Registers \<Rightarrow> 'a ksys_scheme \<Rightarrow> (Registers \<times> 'a ksys_scheme) option" where
  "isr_common e scancode r s = do {
     (r', s') \<leftarrow> i686_ISR_Handler (run_isr e scancode) r (s\<lparr>interrupts_on := False\<rparr>);
     Some (r', if halted s' then s' else s'\<lparr>interrupts_on := interrupts_on s\<rparr>) }"

section \<open>System calls from kernel code\<close>

definition SYSCALL_INT :: "env \<Rightarrow> Registers \<Rightarrow> 'a ksys_scheme \<Rightarrow> (u32 \<times> 'a ksys_scheme) option" where
  "SYSCALL_INT e r s = do { (r', s') \<leftarrow> isr_common e 0 (r\<lparr>r_interrupt := 0x80\<rparr>) s; Some (r_eax r', s') }"

definition SYSCALL0 :: "env \<Rightarrow> u32 \<Rightarrow> 'a ksys_scheme \<Rightarrow> (u32 \<times> 'a ksys_scheme) option" where
  "SYSCALL0 e num = SYSCALL_INT e ((env_regs e)\<lparr>r_eax := num\<rparr>)"

definition SYSCALL1 :: "env \<Rightarrow> u32 \<Rightarrow> u32 \<Rightarrow> 'a ksys_scheme \<Rightarrow> (u32 \<times> 'a ksys_scheme) option" where
  "SYSCALL1 e num arg1 = SYSCALL_INT e ((env_regs e)\<lparr>r_eax := num, r_ebx := arg1\<rparr>)"

definition SYSCALL2 :: "env \<Rightarrow> u32 \<Rightarrow> u32 \<Rightarrow> u32 \<Rightarrow> 'a ksys_scheme \<Rightarrow> (u32 \<times> 'a ksys_scheme) option" where
  "SYSCALL2 e num arg1 arg2 = SYSCALL_INT e ((env_regs e)\<lparr>r_eax := num, r_ebx := arg1, r_ecx := arg2\<rparr>)"

definition SYSCALL3 :: "env \<Rightarrow> u32 \<Rightarrow> u32 \<Rightarrow> u32 \<Rightarrow> u32 \<Rightarrow> 'a ksys_scheme \<Rightarrow> (u32 \<times> 'a ksys_scheme) option" where
  "SYSCALL3 e num arg1 arg2 arg3 =
     SYSCALL_INT e ((env_regs e)\<lparr>r_eax := num, r_ebx := arg1, r_ecx := arg2, r_edx := arg3\<rparr>)"

definition sys_print :: "env \<Rightarrow> u32 \<Rightarrow> 'a ksys_scheme \<Rightarrow> (u32 \<times> 'a ksys_scheme) option" where
  "sys_print e msg = SYSCALL1 e 1 msg"

definition sys_malloc :: "env \<Rightarrow> u32 \<Rightarrow> 'a ksys_scheme \<Rightarrow> (u32 \<times> 'a ksys_scheme) option" where
  "sys_malloc e n = SYSCALL1 e 3 n"

definition sys_free :: "env \<Rightarrow> u32 \<Rightarrow> 'a ksys_scheme \<Rightarrow> (u32 \<times> 'a ksys_scheme) option" where
  "sys_free e p = SYSCALL1 e 4 p"

definition sys_getpid :: "env \<Rightarrow> 'a ksys_scheme \<Rightarrow> (u32 \<times> 'a ksys_scheme) option" where
  "sys_getpid e = SYSCALL0 e 9"

text \<open>
  The wrapper of the header; the function of the same name in \<open>time.c\<close> is \<^const>\<open>sys_time\<close>.
\<close>

definition syscall_time :: "env \<Rightarrow> 'a ksys_scheme \<Rightarrow> (u32 \<times> 'a ksys_scheme) option" where
  "syscall_time e = SYSCALL0 e 10"

definition sys_sleep :: "env \<Rightarrow> u32 \<Rightarrow> 'a ksys_scheme \<Rightarrow> (u32 \<times> 'a ksys_scheme) option" where
  "sys_sleep e ms = SYSCALL1 e 11 ms"

section \<open>What a system call leaves alone\<close>

text \<open>The keyboard driver's state and the dispatch tables.\<close>

definition kbd_part where
  "kbd_part s = (input_lines s, line_lengths s, (total_lines_used s, cursor_line s, cursor_pos s),
     (shift_pressed s, altgr_pressed s, caps_lock s, extended_key s), dead_key_state s, key_buffer s,
     kb_head s, kb_tail s, shell_mode s)"

definition irq_part where
  "irq_part s = (g_IDT s, g_ISRHandlers s, g_IRQHandlers s, g_PicMask s, g_Driver s, halted s)"

definition syscall_frame :: "'a ksys_scheme \<Rightarrow> 'a ksys_scheme \<Rightarrow> bool" where
  "syscall_frame s s' \<longleftrightarrow> kbd_part s' = kbd_part s \<and> irq_part s' = irq_part s \<and>
     syscall_handlers s' = syscall_handlers s \<and> lit_welcome s' = lit_welcome s \<and> lit_info s' = lit_info s \<and>
     ksys.more s' = ksys.more s \<and> (on_screen s \<longrightarrow> on_screen s')"

named_theorems sframe \<open>what system calls leave alone\<close>

lemma sframe_refl [sframe]: "syscall_frame s s"
  by (simp add: syscall_frame_def)

lemma sframe_trans: "syscall_frame s s1 \<Longrightarrow> syscall_frame s1 s2 \<Longrightarrow> syscall_frame s s2"
  by (simp add: syscall_frame_def)

lemma sframe_more:
  fixes s s' :: "'a ksys_scheme"
  assumes "vga.more s' = vga.more s" "on_screen s \<Longrightarrow> on_screen s'"
  shows "syscall_frame s s'"
  using assms more_fields [OF assms(1)] more_kirq [OF assms(1)] more_ksys [OF more_kheap(1) [OF assms(1)]]
  by (simp add: syscall_frame_def kbd_part_def irq_part_def)

lemma sframe_console [sframe]:
  fixes s s0 :: "'a ksys_scheme"
  shows "syscall_frame s0 s \<Longrightarrow> syscall_frame s0 (logf md l fmt args s)"
    "syscall_frame s0 s \<Longrightarrow> syscall_frame s0 (printf fmt args s)"
    "syscall_frame s0 s \<Longrightarrow> syscall_frame s0 (putc c s)"
  by (rule sframe_trans, assumption, rule sframe_more, simp, intro wf_intros, assumption)+

lemma on_screen_fields:
  "g_ScreenX s' = g_ScreenX s \<Longrightarrow> g_ScreenY s' = g_ScreenY s \<Longrightarrow> on_screen s' = on_screen s"
  by (simp add: on_screen_def)

lemma sframe_upd [sframe]:
  fixes s s0 :: "'a ksys_scheme"
  assumes "syscall_frame s0 s"
  shows "syscall_frame s0 (s\<lparr>mem := m\<rparr>)" "syscall_frame s0 (set_mem m s)" "syscall_frame s0 (set_file k f s)"
    "syscall_frame s0 (set_desc k d s)" "syscall_frame s0 (s\<lparr>interrupts_on := b\<rparr>)"
    "syscall_frame s0 (pit_tick_handler s)" "syscall_frame s0 (s\<lparr>s_ticks := t\<rparr>)"
    "syscall_frame s0 (s\<lparr>mem := m, heap_start := a, heap_initialized := h\<rparr>)"
    "syscall_frame s0 (s\<lparr>virtual_files := vf, file_descriptors := ds, fs_initialized := i\<rparr>)"
  using assms
  by (simp_all add: syscall_frame_def kbd_part_def irq_part_def set_mem_def set_file_def set_desc_def
      pit_tick_handler_def on_screen_def)

lemma sframe_heap_init [sframe]:
  fixes s s0 :: "'a ksys_scheme"
  shows "syscall_frame s0 s \<Longrightarrow> syscall_frame s0 (heap_init s)"
  by (simp add: heap_init_def Let_def sframe)

lemma sframe_malloc: 
  fixes s s' :: "'a ksys_scheme"
  shows "sys_handler_malloc n s = Some (p, s') \<Longrightarrow> syscall_frame s s'"
  by (auto simp: sys_handler_malloc_def Let_def split: if_splits Option.bind_splits intro!: sframe)

lemma sframe_free: 
  fixes s s' :: "'a ksys_scheme"
  shows "sys_handler_free p s = Some (r, s') \<Longrightarrow> syscall_frame s s'"
  by (auto simp: sys_handler_free_def split: if_splits Option.bind_splits intro!: sframe)

lemma sframe_fold [sframe]:
  assumes "\<And>x s. syscall_frame s0 s \<Longrightarrow> syscall_frame s0 (f x s)" "syscall_frame s0 s"
  shows "syscall_frame s0 (fold f xs s)"
  using assms(2) by (induction xs arbitrary: s) (auto intro: assms(1))

lemma sframe_ticks [sframe]: "syscall_frame s0 s \<Longrightarrow> syscall_frame s0 ((pit_tick_handler ^^ n) s)"
  by (induction n) (auto intro: sframe)

lemma sframe_sleep_loop: "syscall_frame s0 s \<Longrightarrow> syscall_frame s0 (sleep_loop irqs target it s)"
proof (induction irqs target it s rule: sleep_loop.induct)
  case (1 irqs target it s)
  let ?s1 = "(pit_tick_handler ^^ irqs it) (s\<lparr>interrupts_on := True\<rparr>)"
  have s1: "syscall_frame s0 ?s1" using 1(3) by (intro sframe)
  have "syscall_frame s0 (sleep_loop irqs target (Suc it) (logf ''Syscall'' LVL_DEBUG
      ''Sleep iteration %u, current ticks: %llu, target: %llu''
      [VI (of_nat (Suc it)), VLL (time_get_ticks s), VLL target] ?s1))"
    if "Suc it mod 100000 = 0" "\<not> 100000000 < Suc it" "\<not> target \<le> time_get_ticks s"
    by (rule 1(1)) (use that s1 in \<open>auto intro: sframe\<close>)
  moreover have "syscall_frame s0 (sleep_loop irqs target (Suc it) ?s1)"
    if "Suc it mod 100000 \<noteq> 0" "\<not> target \<le> time_get_ticks s"
    by (rule 1(2)) (use that s1 in auto)
  ultimately show ?case
    using 1(3) s1 by (subst sleep_loop.simps) (auto simp: Let_def sframe simp del: of_nat_Suc)
qed

lemma sframe_vfs_init: "vfs_init s = Some s' \<Longrightarrow> syscall_frame s s'"
  by (auto simp: vfs_init_def split: if_splits Option.bind_splits intro!: sframe)

lemma sframe_open_create: "open_create path s = Some (r, s') \<Longrightarrow> syscall_frame s s'"
  by (auto simp: open_create_def Let_def split: if_splits option.splits Option.bind_splits prod.splits
      dest!: sframe_malloc intro!: sframe elim: sframe_trans [rotated] intro: sframe_trans [OF sframe_upd(3) [OF sframe_refl]])

lemma sframe_open_desc: "open_desc k flags s = (r, s') \<Longrightarrow> syscall_frame s s'"
  by (auto simp: open_desc_def Let_def split: if_splits option.splits intro!: sframe)

lemma sframe_write_grow: "write_grow k needed s = Some (r, s') \<Longrightarrow> syscall_frame s s'"
  by (auto simp: write_grow_def Let_def split: if_splits Option.bind_splits prod.splits
      dest!: sframe_malloc sframe_free intro!: sframe) (meson sframe_trans sframe_upd sframe_refl)+

lemma sframe_open: "sys_handler_open p flags s = Some (r, s') \<Longrightarrow> syscall_frame s s'"
  by (auto simp: sys_handler_open_def split: if_splits option.splits Option.bind_splits sum.splits prod.splits
      dest!: sframe_vfs_init sframe_open_create sframe_open_desc intro: sframe_refl)
    (meson sframe_trans)+

lemma sframe_close: "sys_handler_close fd s = Some (r, s') \<Longrightarrow> syscall_frame s s'"
  by (auto simp: sys_handler_close_def split: if_splits intro!: sframe)

lemma sframe_read: "sys_handler_read fd b n s = Some (r, s') \<Longrightarrow> syscall_frame s s'"
  by (auto simp: sys_handler_read_def Let_def split: if_splits option.splits intro!: sframe)

lemma sframe_write: "sys_handler_write fd b n s = Some (r, s') \<Longrightarrow> syscall_frame s s'"
  by (auto simp: sys_handler_write_def Let_def split: if_splits option.splits Option.bind_splits prod.splits
      dest!: sframe_write_grow intro!: sframe)

lemma sframe_sleep: "sys_handler_sleep irqs ms s = Some (r, s') \<Longrightarrow> syscall_frame s s'"
  by (auto simp: sys_handler_sleep_def Let_def split: if_splits intro!: sframe sframe_sleep_loop)

lemma sframe_handler: "run_handler irqs h a b c s = Some (r, s') \<Longrightarrow> syscall_frame s s'"
  by (cases h) (auto simp: sys_handler_exit_def sys_handler_print_def sys_handler_getpid_def sys_handler_time_def
      sys_handler_yield_def split: if_splits Option.bind_splits
      dest: sframe_malloc sframe_free sframe_open sframe_close sframe_read sframe_write sframe_sleep intro!: sframe)

lemma sframe_dispatch: "syscall_dispatch irqs num a b c d s = Some (r, s') \<Longrightarrow> syscall_frame s s'"
  by (auto simp: syscall_dispatch_def split: if_splits option.splits intro!: sframe
      dest!: sframe_handler elim!: sframe_trans [rotated])

section \<open>The invariant of the running kernel\<close>

definition tables_set :: "'a ksys_scheme \<Rightarrow> bool" where
  "tables_set s \<longleftrightarrow> length (g_ISRHandlers s) = 256 \<and> g_ISRHandlers s ! 0x80 = Some ISR_syscall \<and>
     (\<forall>i. 32 \<le> i \<and> i < 48 \<longrightarrow> g_ISRHandlers s ! i = Some ISR_irq) \<and>
     length (g_IRQHandlers s) = 16 \<and> g_IRQHandlers s ! 0 = Some IRQ_timer \<and> g_IRQHandlers s ! 1 = Some IRQ_keyboard \<and>
     g_Driver s \<and> \<not> halted s \<and> syscall_handlers s = handler_table"

definition kernel_ok :: "'a ksys_scheme \<Rightarrow> bool" where
  "kernel_ok s \<longleftrightarrow> fs_ok s \<and> kbd_wf s \<and> on_screen s \<and> tables_set s"

lemma fs_ok_cong:
  assumes "mem s' = mem s" "heap_start s' = heap_start s" "heap_initialized s' = heap_initialized s"
    "virtual_files s' = virtual_files s" "file_descriptors s' = file_descriptors s"
    "fs_initialized s' = fs_initialized s" "lit_welcome s' = lit_welcome s" "lit_info s' = lit_info s"
  shows "fs_ok s' = fs_ok s" "heap_file s' = heap_file s" "content s' = content s" "open_file s' = open_file s"
    "fd_pos s' = fd_pos s"
  using assms heap_frame [OF assms(1-3)]
  by (simp_all add: fs_ok_def tables_ok_def files_ok_def lits_ok_def backed_def is_default_def
      heap_file_def [abs_def] content_def [abs_def] open_file_def [abs_def] fd_pos_def [abs_def])

lemma fs_ok_log [simp]:
  "fs_ok (logf md l fmt args s) = fs_ok s" "fs_ok (s\<lparr>interrupts_on := b\<rparr>) = fs_ok s"
  "fs_ok (pit_tick_handler s) = fs_ok s"
  by (rule fs_ok_cong; simp add: pit_tick_handler_def)+

lemma kbd_part_wf: "kbd_part s' = kbd_part s \<Longrightarrow> kbd_wf s' = kbd_wf s"
  by (simp add: kbd_part_def kbd_wf_def kbd_arrays_def ring_ok_def)

lemma irq_part_tables:
  "irq_part s' = irq_part s \<Longrightarrow> syscall_handlers s' = syscall_handlers s \<Longrightarrow> tables_set s' = tables_set s"
  by (simp add: irq_part_def tables_set_def)

text \<open>A system call that keeps the file system keeps the whole invariant.\<close>

lemma kernel_ok_frame:
  "kernel_ok s \<Longrightarrow> syscall_frame s s' \<Longrightarrow> fs_ok s' \<Longrightarrow> kernel_ok s'"
  using kbd_part_wf [of s' s] irq_part_tables [of s' s] by (simp add: kernel_ok_def syscall_frame_def)

text \<open>The heap may gain blocks, or lose one that no file lies in.\<close>

lemma fs_ok_heap_change:
  assumes "fs_ok s" "heap_ok s'"
    "\<And>k c. k < 32 \<Longrightarrow> vf_in_use (virtual_files s ! k) \<noteq> 0 \<Longrightarrow> (unat (vf_data (virtual_files s ! k)), c) \<in> heap_live s \<Longrightarrow>
       (unat (vf_data (virtual_files s ! k)), c) \<in> heap_live s'"
    "virtual_files s' = virtual_files s" "file_descriptors s' = file_descriptors s" "fs_initialized s' = fs_initialized s"
    "lit_welcome s' = lit_welcome s" "lit_info s' = lit_info s"
  shows "fs_ok s'"
proof -
  have lits: "lits_ok s'" and def: "is_default s' k = is_default s k" for k
    using assms(1,4,7,8) by (simp_all add: fs_ok_def lits_ok_def is_default_def)
  have up: "backed s' k" if "k < 32" "vf_in_use (virtual_files s ! k) \<noteq> 0" "backed s k" for k
    using assms(3) [OF that(1,2)] that(3) assms(4) unfolding backed_def by metis
  have down: "backed s k" if "k < 32" "vf_in_use (virtual_files s ! k) \<noteq> 0" "backed s' k" for k
    using that assms(1) default_not_backed [OF lits, of k] def by (auto simp: fs_ok_def files_ok_def)
  have "files_ok s'"
    using assms(1,4) up down def unfolding fs_ok_def files_ok_def by metis
  moreover have "tables_ok s'" using assms by (simp add: fs_ok_def tables_ok_def)
  ultimately show ?thesis using assms(2) lits by (simp add: fs_ok_def)
qed

section \<open>Calls that respect the interface\<close>

text \<open>
  The arguments a correct caller passes: strings that end and paths below 64 bytes, sizes that
  do not wrap, buffers outside the heap that are as long as the count says, and only pointers
  from \<open>malloc\<close> that belong to no file are freed.
\<close>

definition call_ok :: "u32 \<Rightarrow> u32 \<Rightarrow> u32 \<Rightarrow> u32 \<Rightarrow> 'a ksys_scheme \<Rightarrow> bool" where
  "call_ok num a b c s \<longleftrightarrow>
     (num = 1 \<longrightarrow> a = 0 \<or> (\<exists>str. cstr_at (mem s) a str)) \<and>
     (num = 2 \<longrightarrow> 32 \<le> a \<or> fd_in_use (file_descriptors s ! unat a) = 0 \<or> b = 0 \<or>
        (\<exists>k. open_file s a k \<and> heap_file s k \<and> user_buf b (unat c) \<and> unat c < 2 ^ 16)) \<and>
     (num = 3 \<longrightarrow> a \<le> 0xFFFFFFE0) \<and>
     (num = 4 \<longrightarrow> a = 0 \<or> (\<exists>k. (unat a, k) \<in> heap_live s) \<and>
        (\<forall>k < 32. vf_in_use (virtual_files s ! k) \<noteq> 0 \<longrightarrow> vf_data (virtual_files s ! k) \<noteq> a)) \<and>
     (num = 5 \<longrightarrow> a = 0 \<or> (\<exists>path. cstr_at (mem s) a path \<and> length path < 64)) \<and>
     (num = 7 \<longrightarrow> 32 \<le> a \<or> b = 0 \<or> c = 0 \<or> a = 1 \<or> a = 2 \<or> fd_in_use (file_descriptors s ! unat a) = 0 \<or>
        fd_flags (file_descriptors s ! unat a) AND OPEN_WRITE = 0 \<or>
        (\<exists>k. open_file s a k \<and> heap_file s k \<and> length (content s k) < 2 ^ 16 \<and> user_buf b (unat c) \<and> unat c < 2 ^ 16))"

lemma malloc_ok:
  assumes "fs_ok s" "n \<le> 0xFFFFFFE0"
  shows "\<exists>p s'. sys_handler_malloc n s = Some (p, s') \<and> fs_ok s'"
proof (cases "n = 0")
  case True
  have "heap_ok (heap_init s)" if "heap_initialized s = 0"
    using heap_init_rel(1) [OF that] unfolding heap_ok_def by blast
  moreover have "virtual_files (heap_init s) = virtual_files s" "file_descriptors (heap_init s) = file_descriptors s"
    "fs_initialized (heap_init s) = fs_initialized s" "lit_welcome (heap_init s) = lit_welcome s"
    "lit_info (heap_init s) = lit_info s" by (simp_all add: heap_init_def Let_def)
  ultimately have "fs_ok (heap_init s)" if "heap_initialized s = 0"
    using that heap_live_uninit [OF that] by (intro fs_ok_heap_change [OF assms(1)]) simp_all
  then have "fs_ok (if heap_initialized s = 0 then heap_init s else s)" using assms(1) by simp
  with True show ?thesis by (simp add: sys_handler_malloc_def)
next
  case False
  from assms(1) have "heap_ok s" by (simp add: fs_ok_def)
  from kmalloc.alloc_spec [OF this False assms(2)] obtain p s' where r:
    "sys_handler_malloc n s = Some (p, s')" "heap_ok s'"
    "if p = 0 then heap_live s' = heap_live s
     else unat p \<notin> fst ` heap_live s \<and> (\<exists>k \<ge> unat n. heap_live s' = insert (unat p, k) (heap_live s))" by blast
  then have "heap_live s \<subseteq> heap_live s'" by (auto split: if_splits)
  with r(2) more_ksys [OF malloc_more [OF r(1)]] have "fs_ok s'" by (intro fs_ok_heap_change [OF assms(1)]) auto
  with r(1) show ?thesis by blast
qed

lemma free_ok:
  assumes "fs_ok s" "(unat a, c) \<in> heap_live s"
    "\<forall>k < 32. vf_in_use (virtual_files s ! k) \<noteq> 0 \<longrightarrow> vf_data (virtual_files s ! k) \<noteq> a"
  shows "\<exists>r s'. sys_handler_free a s = Some (r, s') \<and> fs_ok s'"
proof -
  from assms(1) have "heap_ok s" by (simp add: fs_ok_def)
  from kmalloc.dealloc_spec [OF this assms(2)] obtain s' where r: "sys_handler_free a s = Some (0, s')" "heap_ok s'"
    "heap_live s' = {b \<in> heap_live s. fst b \<noteq> unat a}" by blast
  have "fs_ok s'"
    using assms(3) r(2,3) more_ksys [OF free_more [OF r(1)]]
    by (intro fs_ok_heap_change [OF assms(1)]) (auto simp: word_unat_eq_iff)
  with r(1) show ?thesis by blast
qed

definition syscall_num :: "syscall_fn \<Rightarrow> nat" where
  "syscall_num h = (case h of H_exit \<Rightarrow> 0 | H_print \<Rightarrow> 1 | H_read \<Rightarrow> 2 | H_malloc \<Rightarrow> 3 | H_free \<Rightarrow> 4 | H_open \<Rightarrow> 5
     | H_close \<Rightarrow> 6 | H_write \<Rightarrow> 7 | H_getpid \<Rightarrow> 9 | H_time \<Rightarrow> 10 | H_sleep \<Rightarrow> 11 | H_yield \<Rightarrow> 12)"

lemma handler_table_num:
  assumes "handler_table ! n = Some h" "n < 27"
  shows "n = syscall_num h"
proof -
  have "list_all (\<lambda>n. case handler_table ! n of None \<Rightarrow> True | Some h \<Rightarrow> n = syscall_num h) [0..<27]"
    by code_simp
  with assms show ?thesis by (auto simp: list_all_iff split: option.splits)
qed

lemma fs_ok_console:
  assumes "fs_ok s" "vga.more s' = vga.more s"
  shows "fs_ok s'"
  using assms(1) more_ksys [OF more_kheap(1) [OF assms(2)]] more_kheap [OF assms(2)]
  by (subst fs_ok_cong [of s' s]) simp_all

lemma fs_ok_ticks [simp]: "fs_ok ((pit_tick_handler ^^ n) s) = fs_ok s"
  by (induction n) simp_all

lemma fs_ok_sleep_loop: "fs_ok s \<Longrightarrow> fs_ok (sleep_loop irqs target it s)"
proof (induction irqs target it s rule: sleep_loop.induct)
  case (1 irqs target it s)
  let ?s1 = "(pit_tick_handler ^^ irqs it) (s\<lparr>interrupts_on := True\<rparr>)"
  have s1: "fs_ok ?s1" using 1(3) by simp
  have "fs_ok (sleep_loop irqs target (Suc it) (logf ''Syscall'' LVL_DEBUG
      ''Sleep iteration %u, current ticks: %llu, target: %llu''
      [VI (of_nat (Suc it)), VLL (time_get_ticks s), VLL target] ?s1))"
    if "Suc it mod 100000 = 0" "\<not> 100000000 < Suc it" "\<not> target \<le> time_get_ticks s"
    by (rule 1(1)) (use that s1 in auto)
  moreover have "fs_ok (sleep_loop irqs target (Suc it) ?s1)"
    if "Suc it mod 100000 \<noteq> 0" "\<not> target \<le> time_get_ticks s"
    by (rule 1(2)) (use that s1 in auto)
  ultimately show ?case
    using 1(3) s1 by (subst sleep_loop.simps) (auto simp: Let_def simp del: of_nat_Suc)
qed

text \<open>Each handler, called with such arguments, returns and keeps the file system.\<close>

lemma print_safe:
  assumes "fs_ok s" "a = 0 \<or> (\<exists>str. cstr_at (mem s) a str)"
  shows "\<exists>r s'. sys_handler_print a s = Some (r, s') \<and> fs_ok s'"
proof (cases "a = 0")
  case False
  with assms(2) obtain str where "cstr_at (mem s) a str" by blast
  then have "sys_handler_print a s = Some (of_nat (length str), printf ''%s'' [VS str] s)"
    using False by (simp add: sys_handler_print_def read_cstr_at strlen_at)
  then show ?thesis using fs_ok_console [OF assms(1), of "printf ''%s'' [VS str] s"] by auto
qed (use assms(1) in \<open>simp add: sys_handler_print_def\<close>)

lemma read_safe:
  assumes "fs_ok s" "call_ok 2 a b c s"
  shows "\<exists>r s'. sys_handler_read a b c s = Some (r, s') \<and> fs_ok s'"
proof (cases "32 \<le> a \<or> fd_in_use (file_descriptors s ! unat a) = 0 \<or> b = 0")
  case True
  then show ?thesis
    using assms(1) by (auto simp: sys_handler_read_def MAX_OPEN_FILES_def Let_def split: option.splits)
next
  case False
  with assms(2) obtain k where k: "open_file s a k" "heap_file s k" "user_buf b (unat c)" "unat c < 2 ^ 16"
    by (auto simp: call_ok_def)
  let ?n = "min (unat c) (unat (vf_size (virtual_files s ! k)) - fd_pos s a)"
  have "user_buf b ?n" "?n < 2 ^ 16" "unat c < 2 ^ 31" using k(3,4) by (auto simp: user_buf_def)
  from read_ok [OF assms(1) k(1,2) this(1,3,2)] show ?thesis by blast
qed

lemma write_safe:
  assumes "fs_ok s" "call_ok 7 a b c s"
  shows "\<exists>r s'. sys_handler_write a b c s = Some (r, s') \<and> fs_ok s'"
proof -
  consider "32 \<le> a \<or> b = 0 \<or> c = 0" | "\<not> (32 \<le> a \<or> b = 0 \<or> c = 0)" "a = 1 \<or> a = 2"
    | "\<not> (32 \<le> a \<or> b = 0 \<or> c = 0)" "a \<noteq> 1" "a \<noteq> 2"
      "fd_in_use (file_descriptors s ! unat a) = 0 \<or> fd_flags (file_descriptors s ! unat a) AND OPEN_WRITE = 0"
    | "\<not> (32 \<le> a \<or> b = 0 \<or> c = 0)" "a \<noteq> 1" "a \<noteq> 2"
      "\<not> (fd_in_use (file_descriptors s ! unat a) = 0 \<or> fd_flags (file_descriptors s ! unat a) AND OPEN_WRITE = 0)"
    by blast
  then show ?thesis
  proof cases
    case 1
    with assms(1) show ?thesis by (auto simp: sys_handler_write_def MAX_OPEN_FILES_def)
  next
    case 2
    have "vga.more (fold (\<lambda>i. putc (mem s (b + of_nat i))) xs t) = vga.more t" for xs and t :: "'a ksys_scheme"
      by (induction xs arbitrary: t) simp_all
    from fs_ok_console [OF assms(1) this] 2 show ?thesis by (auto simp: sys_handler_write_def MAX_OPEN_FILES_def)
  next
    case 3
    with assms(1) show ?thesis
      by (auto simp: sys_handler_write_def MAX_OPEN_FILES_def Let_def split: option.splits)
  next
    case 4
    with assms(2) obtain k where k: "open_file s a k" "heap_file s k" "length (content s k) < 2 ^ 16"
      "user_buf b (unat c)" "unat c < 2 ^ 16" by (auto simp: call_ok_def simp del: length_content)
    have f: "fd_flags (file_descriptors s ! unat a) AND OPEN_WRITE \<noteq> 0" "c \<noteq> 0" using 4 by blast+
    from write_ok [OF assms(1) k(1,2) f(1) k(4) f(2) k(5,3)] show ?thesis by blast
  qed
qed

lemma handler_ok:
  assumes "fs_ok s" "call_ok num a b c s" "unat num = syscall_num h"
  shows "\<exists>r s'. run_handler irqs h a b c s = Some (r, s') \<and> fs_ok s'"
proof -
  have num: "num = of_nat (syscall_num h)" by (simp flip: assms(3) add: of_nat_unat)
  show ?thesis
  proof (cases h)
    case H_print
    then show ?thesis using print_safe [OF assms(1), of a] assms(2) num by (simp add: call_ok_def syscall_num_def)
  next
    case H_read
    then show ?thesis using read_safe [OF assms(1), of a b c] assms(2) num by (simp add: syscall_num_def)
  next
    case H_malloc
    then show ?thesis using malloc_ok [OF assms(1), of a] assms(2) num by (simp add: call_ok_def syscall_num_def)
  next
    case H_free
    then have "a = 0 \<or> (\<exists>k. (unat a, k) \<in> heap_live s) \<and>
        (\<forall>k < 32. vf_in_use (virtual_files s ! k) \<noteq> 0 \<longrightarrow> vf_data (virtual_files s ! k) \<noteq> a)"
      using assms(2) num by (simp add: call_ok_def syscall_num_def)
    then show ?thesis using free_ok [OF assms(1), of a] assms(1) H_free
      by (auto simp: sys_handler_free_def)
  next
    case H_open
    then show ?thesis using open_ok [OF assms(1), of a _ b] assms(1,2) num
      by (cases "a = 0") (fastforce simp: call_ok_def syscall_num_def sys_handler_open_def)+
  next
    case H_close
    then show ?thesis using close_ok [OF assms(1), of a] by auto
  next
    case H_write
    then show ?thesis using write_safe [OF assms(1), of a b c] assms(2) num by (simp add: syscall_num_def)
  next
    case H_sleep
    then show ?thesis using assms(1) by (simp add: sys_handler_sleep_def Let_def fs_ok_sleep_loop)
  qed (use fs_ok_console [OF assms(1)] assms(1) in
      \<open>auto simp: sys_handler_exit_def sys_handler_getpid_def sys_handler_time_def sys_handler_yield_def\<close>)
qed

section \<open>The keyboard interrupt and the rest of the kernel\<close>

lemma redraw_xy:
  assumes "redraw_input_line s = Some s'"
  shows "g_ScreenX s' = of_int (cursor_pos s)" "g_ScreenY s' = of_int (cursor_line s)"
proof -
  from assms obtain len row s1 where s1: "foldM (redraw_cell (cursor_line s) len row) [0..LINE_LENGTH - 1] s = Some s1"
    and s': "s' = VGA_setcursor (of_int (cursor_pos s1)) (of_int (cursor_line s))
      (s1\<lparr>g_ScreenX := of_int (cursor_pos s1), g_ScreenY := of_int (cursor_line s)\<rparr>)"
    by (auto simp: redraw_input_line_def Let_def split: Option.bind_splits)
  from s1 have "vga.more s1 = vga.more s"
    by (rule foldM_keeps) (auto simp: redraw_cell_def split: if_splits Option.bind_splits)
  then have "cursor_pos s1 = cursor_pos s" by (rule more_fields)
  with s' show "g_ScreenX s' = of_int (cursor_pos s)" "g_ScreenY s' = of_int (cursor_line s)" by simp_all
qed

lemma of_int_less_word:
  assumes "0 \<le> (i :: int)" "i < int n" "n < 2 ^ 32"
  shows "(of_int i :: u32) < of_nat n"
proof -
  from assms obtain k where k: "i = int k" "k < n" by (metis nonneg_int_cases of_nat_less_iff)
  have "(of_nat k :: u32) < of_nat n" using k assms(3) by (subst of_nat_u32_less_iff) auto
  with k(1) show ?thesis by (metis of_int_of_nat_eq)
qed

lemma handle_delete_key_kernel:
  assumes "handle_delete_key s = Some s'" "kbd_arrays s"
  shows "kbd.more s' = kbd.more s" "on_screen s \<Longrightarrow> on_screen s'"
proof -
  have "kbd.more s' = kbd.more s \<and> (on_screen s \<longrightarrow> on_screen s')"
  proof (cases "kb_len s \<le> cursor_pos s")
    case True
    with assms kbd_arrays_current [OF assms(2)] show ?thesis by (simp add: handle_delete_key_def)
  next
    case False
    with assms(1) kbd_arrays_current [OF assms(2)] obtain row s1 where s1:
      "set_line row (kb_len s - 1) s = Some s1" "redraw_input_line s1 = Some s'"
      by (auto simp: handle_delete_key_def split: Option.bind_splits)
    have f: "cursor_pos s1 = cursor_pos s" "cursor_line s1 = cursor_line s" "kbd.more s1 = kbd.more s"
      using s1(1) by (auto simp: set_line_def split: Option.bind_splits)
    have "0 \<le> cursor_pos s" "cursor_pos s < int 80" "0 \<le> cursor_line s" "cursor_line s < int 25"
      using False assms(2) kbd_arrays_current [OF assms(2)] by (auto simp: kbd_arrays_def)
    then have "(of_int (cursor_pos s) :: u32) < of_nat 80" "(of_int (cursor_line s) :: u32) < of_nat 25"
      by (intro of_int_less_word; simp)+
    then have "on_screen s'" using redraw_xy [OF s1(2)] f by (simp add: on_screen_def)
    with redraw_more [OF s1(2)] more_fields(15) [of s' s1] f(3) show ?thesis by simp
  qed
  then show "kbd.more s' = kbd.more s" "on_screen s \<Longrightarrow> on_screen s'" by blast+
qed

lemma push_screen [simp]:
  "g_ScreenX (snd (keyboard_buffer_push c t)) = g_ScreenX t" "g_ScreenY (snd (keyboard_buffer_push c t)) = g_ScreenY t"
  by (simp_all add: keyboard_buffer_push_def Let_def)

lemma keyboard_handler_kernel:
  assumes "keyboard_handler sc s = Some s'" "kbd_wf s"
  shows "kbd.more s' = kbd.more s" "on_screen s \<Longrightarrow> on_screen s'"
proof -
  have key: "kbd.more (handle_key sc s) = kbd.more s" "g_ScreenX (handle_key sc s) = g_ScreenX s"
    "g_ScreenY (handle_key sc s) = g_ScreenY s"
    using assms(2) by (simp_all add: handle_key_eq kbd_wf_def)
  have fields: "on_screen (s\<lparr>extended_key := x\<rparr>) = on_screen s" "kbd_arrays (s\<lparr>extended_key := x\<rparr>)" for x
    using assms(2) by (simp_all add: on_screen_def kbd_wf_def kbd_arrays_def)
  have "kbd.more s' = kbd.more s \<and> (on_screen s \<longrightarrow> on_screen s')"
    using assms(1) key handle_delete_key_kernel [of "s\<lparr>extended_key := 0\<rparr>" s', OF _ fields(2)]
    by (auto simp: keyboard_handler_def handle_extended_def Let_def on_screen_def split: if_splits)
  then show "kbd.more s' = kbd.more s" "on_screen s \<Longrightarrow> on_screen s'" by blast+
qed

section \<open>Interrupts keep the invariant\<close>

lemma kernel_ok_upd:
  "kernel_ok (s\<lparr>interrupts_on := b\<rparr>) = kernel_ok s" "kernel_ok (pit_tick_handler s) = kernel_ok s"
  by (simp_all add: kernel_ok_def kbd_wf_def kbd_arrays_def ring_ok_def on_screen_def tables_set_def pit_tick_handler_def)
    (simp_all flip: pit_tick_handler_def)

lemma call_ok_cong:
  assumes "mem s' = mem s" "heap_start s' = heap_start s" "heap_initialized s' = heap_initialized s"
    "virtual_files s' = virtual_files s" "file_descriptors s' = file_descriptors s"
    "fs_initialized s' = fs_initialized s" "lit_welcome s' = lit_welcome s" "lit_info s' = lit_info s"
  shows "call_ok num a b c s' = call_ok num a b c s"
  using fs_ok_cong [OF assms] heap_frame [OF assms(1-3)] assms by (simp add: call_ok_def)

lemma dispatch_ok:
  assumes "kernel_ok s" "call_ok num a b c s"
  shows "\<exists>r s'. syscall_dispatch irqs num a b c d s = Some (r, s') \<and> kernel_ok s'"
proof -
  have t: "syscall_handlers s = handler_table" "fs_ok s" using assms(1) by (simp_all add: kernel_ok_def tables_set_def)
  have "\<exists>r s'. syscall_dispatch irqs num a b c d s = Some (r, s') \<and> fs_ok s'"
  proof (cases "num \<ge> SYSCALL_COUNT \<or> handler_table ! unat num = None")
    case True
    then show ?thesis using t by (auto simp: syscall_dispatch_def)
  next
    case False
    then obtain h where h: "handler_table ! unat num = Some h" "unat num < 27"
      by (auto simp: SYSCALL_COUNT_def word_le_nat_alt)
    let ?s = "logf ''Syscall'' LVL_DEBUG ''Calling syscall %d with args: %x, %x, %x, %x''
                [VI num, VI a, VI b, VI c, VI d] s"
    have "call_ok num a b c ?s" using assms(2) by (subst call_ok_cong [of ?s s]) simp_all
    from handler_ok [OF _ this handler_table_num [OF h]] t(2) obtain r s' where
      "run_handler irqs h a b c ?s = Some (r, s')" "fs_ok s'" by (metis fs_ok_log(1))
    with False h t(1) show ?thesis by (auto simp: syscall_dispatch_def)
  qed
  with sframe_dispatch kernel_ok_frame [OF assms(1)] show ?thesis by blast
qed

lemma kernel_ok_console:
  assumes "kernel_ok s" "vga.more s' = vga.more s" "on_screen s'"
  shows "kernel_ok s'"
  using kernel_ok_frame [OF assms(1) sframe_more [OF assms(2) assms(3)]] fs_ok_console [OF _ assms(2)] assms(1)
  by (simp add: kernel_ok_def)

lemma EOI_ok [simp]: "kernel_ok s \<Longrightarrow> kernel_ok (i8259_SendEndOfInterrupt irq s)"
  by (rule kernel_ok_console [of s]) (simp_all add: i8259_SendEndOfInterrupt_def kernel_ok_def on_screen_def)

lemma keyboard_irq_ok:
  assumes "kernel_ok s"
  shows "\<exists>s'. keyboard_handler sc s = Some s' \<and> kernel_ok s'"
proof -
  from assms have wf: "kbd_wf s" "on_screen s" by (simp_all add: kernel_ok_def)
  from keyboard_handler_wf [OF wf(1), of sc] obtain s' where s': "keyboard_handler sc s = Some s'" "kbd_wf s'" by blast
  note more = keyboard_handler_kernel [OF s'(1) wf(1)]
  have k: "mem s' = mem s" "heap_start s' = heap_start s" "heap_initialized s' = heap_initialized s"
    "kheap.more s' = kheap.more s" using more(1) by (cases s; cases s'; simp)+
  have "fs_ok s' = fs_ok s" using more_ksys [OF k(4)] k by (intro fs_ok_cong) simp_all
  moreover have "tables_set s' = tables_set s"
    using k(4) by (intro irq_part_tables) (cases s; cases s'; simp add: irq_part_def)+
  ultimately show ?thesis using assms s' more(2) wf by (simp add: kernel_ok_def)
qed

lemma irq_handler_ok:
  assumes "kernel_ok s" "r_interrupt r = 32 \<or> r_interrupt r = 33"
  shows "\<exists>s'. i686_IRQ_Handler (run_irq sc) r s = Some s' \<and> kernel_ok s'"
proof -
  have t: "length (g_IRQHandlers s) = 16" "g_IRQHandlers s ! 0 = Some IRQ_timer" "g_IRQHandlers s ! 1 = Some IRQ_keyboard"
    using assms(1) by (simp_all add: kernel_ok_def tables_set_def)
  have drv: "kernel_ok t \<Longrightarrow> g_Driver t" for t :: "'a ksys_scheme" by (simp add: kernel_ok_def tables_set_def)
  from assms(2) show ?thesis
  proof
    assume r: "r_interrupt r = 32"
    have "kernel_ok (pit_tick_handler s)" using assms(1) by (simp add: kernel_ok_upd)
    with drv [OF this] t r show ?thesis
      by (simp add: i686_IRQ_Handler_def PIC_REMAP_OFFSET_def run_irq_def Let_def)
  next
    assume r: "r_interrupt r = 33"
    from keyboard_irq_ok [OF assms(1), of sc] obtain s' where s': "keyboard_handler sc s = Some s'" "kernel_ok s'" by blast
    with drv [OF this(2)] t r show ?thesis
      by (simp add: i686_IRQ_Handler_def PIC_REMAP_OFFSET_def run_irq_def Let_def)
  qed
qed

text \<open>Entry through the gate: the processor's part does not matter for the invariant.\<close>

lemma isr_common_ok:
  assumes "kernel_ok s"
    "r_interrupt r = 32 \<or> r_interrupt r = 33 \<or>
     r_interrupt r = 0x80 \<and> call_ok (r_eax r) (r_ebx r) (r_ecx r) (r_edx r) s"
  shows "\<exists>r' s'. isr_common e sc r s = Some (r', s') \<and> kernel_ok s'"
proof -
  let ?s = "s\<lparr>interrupts_on := False\<rparr>"
  have k: "kernel_ok ?s" using assms(1) by (simp add: kernel_ok_upd)
  have h: "length (g_ISRHandlers s) = 256" "g_ISRHandlers s ! 0x80 = Some ISR_syscall"
    "g_ISRHandlers s ! 32 = Some ISR_irq" "g_ISRHandlers s ! 33 = Some ISR_irq"
    using assms(1) by (simp_all add: kernel_ok_def tables_set_def)
  have "\<exists>r' s'. i686_ISR_Handler (run_isr e sc) r ?s = Some (r', s') \<and> kernel_ok s'"
  proof (cases "r_interrupt r = 0x80")
    case True
    with assms(2) have "call_ok (r_eax r) (r_ebx r) (r_ecx r) (r_edx r) s" by auto
    then have "call_ok (r_eax r) (r_ebx r) (r_ecx r) (r_edx r) ?s" by (subst call_ok_cong [of ?s s]) simp_all
    from dispatch_ok [OF k this] obtain x s' where "syscall_dispatch (env_irqs e) (r_eax r) (r_ebx r) (r_ecx r) (r_edx r) (r_esi r) ?s
      = Some (x, s')" "kernel_ok s'" by blast
    with True h show ?thesis by (simp add: i686_ISR_Handler_def run_isr_def syscall_handler_def)
  next
    case False
    with assms(2) have r: "r_interrupt r = 32 \<or> r_interrupt r = 33" by auto
    from irq_handler_ok [OF k this, of sc] obtain s' where "i686_IRQ_Handler (run_irq sc) r ?s = Some s'" "kernel_ok s'"
      by blast
    with r h show ?thesis by (auto simp: i686_ISR_Handler_def run_isr_def)
  qed
  then show ?thesis by (auto simp: isr_common_def kernel_ok_upd)
qed

section \<open>Reachable states\<close>

text \<open>
  One step of the machine: a timer or keyboard interrupt, a system call with acceptable
  arguments, or stores of the running program outside the heap or into a block it owns.
\<close>

definition own_stores :: "mem \<Rightarrow> 'a ksys_scheme \<Rightarrow> bool" where
  "own_stores m s \<longleftrightarrow> (\<forall>a. unat a \<in> heap_arena \<longrightarrow> m a = mem s a) \<or>
     (\<exists>x c. (x, c) \<in> heap_live s \<and> (\<forall>a. unat a \<notin> payload (x, c) \<longrightarrow> m a = mem s a) \<and>
       (\<forall>k < 32. vf_in_use (virtual_files s ! k) \<noteq> 0 \<longrightarrow> unat (vf_data (virtual_files s ! k)) \<noteq> x))"

inductive kstep :: "env \<Rightarrow> 'a ksys_scheme \<Rightarrow> 'a ksys_scheme \<Rightarrow> bool" for e where
  timer: "r_interrupt r = 32 \<Longrightarrow> isr_common e sc r s = Some (r', s') \<Longrightarrow> kstep e s s'"
| key: "r_interrupt r = 33 \<Longrightarrow> isr_common e sc r s = Some (r', s') \<Longrightarrow> kstep e s s'"
| call: "r_interrupt r = 0x80 \<Longrightarrow> call_ok (r_eax r) (r_ebx r) (r_ecx r) (r_edx r) s \<Longrightarrow>
    isr_common e sc r s = Some (r', s') \<Longrightarrow> kstep e s s'"
| store: "own_stores m s \<Longrightarrow> kstep e s (set_mem m s)"

inductive kreach :: "env \<Rightarrow> 'a ksys_scheme \<Rightarrow> 'a ksys_scheme \<Rightarrow> bool" for e where
  start: "kreach e s s"
| step: "kreach e s0 s \<Longrightarrow> kstep e s s' \<Longrightarrow> kreach e s0 s'"

lemma store_ok:
  assumes "kernel_ok s" "own_stores m s"
  shows "kernel_ok (set_mem m s)"
proof -
  have fs: "fs_ok s" "heap_ok s" using assms(1) by (simp_all add: kernel_ok_def fs_ok_def)
  have "heap_ok (set_mem m s) \<and> heap_live (set_mem m s) = heap_live s"
    using assms(2) unfolding own_stores_def
  proof
    assume "\<forall>a. unat a \<in> heap_arena \<longrightarrow> m a = mem s a"
    then show ?thesis using heap_set_mem_outside [of m s] fs(2) by simp
  next
    assume "\<exists>x c. (x, c) \<in> heap_live s \<and> (\<forall>a. unat a \<notin> payload (x, c) \<longrightarrow> m a = mem s a) \<and>
       (\<forall>k < 32. vf_in_use (virtual_files s ! k) \<noteq> 0 \<longrightarrow> unat (vf_data (virtual_files s ! k)) \<noteq> x)"
    then show ?thesis using kmalloc.write_spec [OF fs(2)] by blast
  qed
  then have "fs_ok (set_mem m s)" by (intro fs_ok_heap_change [OF fs(1)]) (simp_all add: set_mem_def)
  then show ?thesis using kernel_ok_frame [OF assms(1)] sframe_upd(2) [OF sframe_refl] by blast
qed

inductive_cases kstepE: "kstep e s s'"

lemma kstep_ok: "kstep e s s' \<Longrightarrow> kernel_ok s \<Longrightarrow> kernel_ok s'"
proof (induction rule: kstep.induct)
  case (timer r sc s r' s')
  then show ?case using isr_common_ok [of s r e sc] by auto
next
  case (key r sc s r' s')
  then show ?case using isr_common_ok [of s r e sc] by auto
next
  case (call r s sc r' s')
  then show ?case using isr_common_ok [of s r e sc] by auto
next
  case (store m s)
  then show ?case by (intro store_ok)
qed

lemma kreach_ok: "kreach e s0 s \<Longrightarrow> kernel_ok s0 \<Longrightarrow> kernel_ok s"
  by (induction rule: kreach.induct) (auto intro: kstep_ok)

end
