(* ===== verification/Example.thy ===== *)
theory Example
  imports Kernel
begin

text \<open>
  Two concrete states of the kernel, at which the theorems of the development are applied:
  \<open>boot\<close>, the zeroed memory image before any initialisation, and \<open>demo\<close>, a running kernel with
  one heap block in use, a five-byte file \<open>a\<close> in it and two descriptors open on that file.
\<close>

section \<open>The image at power-on\<close>

definition boot :: ksys where
  "boot = \<lparr>vram = (\<lambda>_. 0), g_ScreenX = 0, g_ScreenY = 0, ports = [],
     input_lines = replicate 25 (replicate 80 0), line_lengths = replicate 25 0, total_lines_used = 1,
     cursor_line = 2, cursor_pos = 0, shift_pressed = 0, altgr_pressed = 0, caps_lock = 0,
     extended_key = 0, dead_key_state = 0, key_buffer = replicate 256 0, kb_head = 0, kb_tail = 0,
     shell_mode = False,
     mem = (\<lambda>_. 0), heap_start = 0, heap_initialized = 0,
     s_ticks = 0, g_IDT = replicate 256 \<lparr>BaseLow = 0, SegmentSelector = 0, Reserved = 0, Flags = 0, BaseHigh = 0\<rparr>,
     g_ISRHandlers = replicate 256 None, g_IRQHandlers = replicate 16 None, g_PicMask = 0xFFFF,
     g_Driver = False, interrupts_on = False, halted = False,
     virtual_files = replicate 32 zero_file, file_descriptors = replicate 32 zero_desc, fs_initialized = 0,
     syscall_handlers = replicate 27 None, lit_welcome = 0x110000, lit_info = 0x110040\<rparr>"

definition no_regs :: Registers where
  "no_regs = \<lparr>r_ds = 0, r_edi = 0, r_esi = 0, r_ebp = 0, r_useless = 0, r_ebx = 0, r_edx = 0, r_ecx = 0,
     r_eax = 0, r_interrupt = 0, r_error = 0, r_eip = 0, r_cs = 0, r_eflags = 0, r_esp = 0, r_ss = 0\<rparr>"

lemma boot_on_screen: "on_screen boot"
  by (simp add: boot_def on_screen_def SCREEN_WIDTH_def SCREEN_HEIGHT_def)

lemma boot_ring: "ring_ok boot" "ring_items boot = []"
  by (simp_all add: boot_def ring_ok_def ring_items_def kb_count_def KEYBOARD_BUFFER_SIZE_def)

lemma boot_kbd_wf: "kbd_wf boot" "edit_inv boot" "kb_line boot = []" "kb_cursor boot = 0" "extended_key boot = 0"
  using boot_ring(1)
  by (simp_all add: boot_def kbd_wf_def kbd_arrays_def edit_inv_def kb_line_def kb_cursor_def kb_len_def DEAD_NONE_def)

lemma boot_tables: "length (g_ISRHandlers boot) = 256" "length (g_IDT boot) = 256"
    "heap_initialized boot = 0" "fs_initialized boot = 0" "lits_ok boot"
  by (simp_all add: boot_def lits_ok_def)

section \<open>A running kernel\<close>

text \<open>
  The heap holds a used block of 256 bytes and one free block; the file lies in the first.  At
  \<open>0x1000\<close> is the path \<open>a\<close>, at \<open>0x2000\<close> a buffer with \<open>Hi\<close>.
\<close>

definition demo_mem :: mem where
  "demo_mem =
     set_next 0x40010C 0 (set_is_free 0x40010C 1 (set_size 0x40010C 0xFFEE8
       (set_next 0x400000 0x40010C (set_is_free 0x400000 0 (set_size 0x400000 256
         ((\<lambda>_. 0)(0x1000 := 97, 0x2000 := 72, 0x2001 := 105, 0x40000C := 104, 0x40000D := 101,
            0x40000E := 108, 0x40000F := 108, 0x400010 := 111)))))))"

definition demo_file :: vfile where
  "demo_file = \<lparr>vf_name = 97 # replicate 63 0, vf_data = 0x40000C, vf_size = 5, vf_capacity = 256,
     vf_is_directory = 0, vf_in_use = 1\<rparr>"

definition demo_desc :: fdesc where
  "demo_desc = \<lparr>fd_file = Some 0, fd_position = 0, fd_flags = 3, fd_in_use = 1\<rparr>"

definition demo :: ksys where
  "demo = boot\<lparr>mem := demo_mem, heap_start := HEAP_START, heap_initialized := 1,
     virtual_files := demo_file # replicate 31 zero_file,
     file_descriptors := replicate 3 zero_desc @ [demo_desc, demo_desc] @ replicate 27 zero_desc,
     fs_initialized := 1, syscall_handlers := handler_table,
     g_ISRHandlers := replicate 32 None @ replicate 16 (Some ISR_irq) @ replicate 80 None @
       Some ISR_syscall # replicate 127 None,
     g_IRQHandlers := [Some IRQ_timer, Some IRQ_keyboard] @ replicate 14 None, g_Driver := True,
     interrupts_on := True\<rparr>"

lemma demo_fields:
  "mem demo = demo_mem" "heap_start demo = 0x400000" "heap_initialized demo = 1"
  "virtual_files demo = demo_file # replicate 31 zero_file"
  "file_descriptors demo = replicate 3 zero_desc @ [demo_desc, demo_desc] @ replicate 27 zero_desc"
  "fs_initialized demo = 1" "lit_welcome demo = 0x110000" "lit_info demo = 0x110040"
  "syscall_handlers demo = handler_table" "s_ticks demo = 0"
  by (simp_all add: demo_def boot_def HEAP_START_def)

lemma demo_heap_rel: "heap_rel demo [(256, False), (0xFFEE8, True)]"
  by (simp add: heap_rel_def demo_fields HEAP_START_def demo_mem_def blk_defs set_size_def set_is_free_def
      set_next_def ld32_st32_other region_4)

lemma demo_live: "heap_live demo = {(0x40000C, 256)}"
  using heap_live_eq [OF demo_heap_rel] by simp

lemma demo_heap_ok: "heap_ok demo"
  using demo_heap_rel unfolding heap_ok_def by blast

lemma demo_nth_files: "k < 32 \<Longrightarrow> virtual_files demo ! k = (if k = 0 then demo_file else zero_file)"
  by (cases k) (simp_all add: demo_fields)

lemma demo_backed: "backed demo 0" "k < 32 \<Longrightarrow> k \<noteq> 0 \<Longrightarrow> vf_in_use (virtual_files demo ! k) = 0"
  by (simp_all add: backed_def demo_live demo_nth_files demo_file_def zero_file_def)

lemma demo_tables_ok: "tables_ok demo"
  by (auto simp: tables_ok_def demo_fields demo_nth_files demo_file_def demo_desc_def zero_file_def
      zero_desc_def MAX_FILENAME_def nth_Cons numeral_3_eq_3 less_Suc_eq split: nat.splits)

lemma demo_files_ok: "files_ok demo"
proof -
  have z: "k = 0" if "k < 32" "vf_in_use (virtual_files demo ! k) \<noteq> 0" for k
    using demo_backed(2) that by blast
  show ?thesis
    unfolding files_ok_def
  proof (intro conjI allI impI)
    fix k assume "k < 32" "vf_in_use (virtual_files demo ! k) \<noteq> 0"
    then have "k = 0" by (rule z)
    then show "vf_size (virtual_files demo ! k) \<le> vf_capacity (virtual_files demo ! k)"
      "backed demo k \<or> is_default demo k"
      using demo_backed(1) by (simp_all add: demo_nth_files demo_file_def)
  qed (use z in blast)
qed

lemma demo_fs_ok: "fs_ok demo"
  using demo_heap_ok demo_tables_ok demo_files_ok by (simp add: fs_ok_def lits_ok_def demo_fields)

lemma demo_heap_file: "heap_file demo 0"
  using demo_backed(1) by (simp add: heap_file_def demo_nth_files demo_file_def)

lemma demo_open: "open_file demo 3 0" "open_file demo 4 0" "fd_pos demo 3 = 0" "fd_pos demo 4 = 0"
  by (simp_all add: open_file_def fd_pos_def demo_fields demo_desc_def demo_file_def nth_append)

lemma demo_flags: "fd_flags (file_descriptors demo ! 3) AND OPEN_WRITE \<noteq> 0"
  by (simp add: demo_fields demo_desc_def OPEN_WRITE_def nth_append)

lemma demo_content: "length (content demo 0) = 5"
  by (simp add: demo_nth_files demo_file_def)

lemma demo_path: "cstr_at (mem demo) 0x1000 [97]"
  by (simp add: demo_fields demo_mem_def set_size_def set_is_free_def set_next_def st32_outside region_4)

lemma demo_write: "\<exists>s1. sys_handler_write 3 0x2000 2 demo = Some (2, s1)"
  by (simp add: sys_handler_write_def write_grow_def MAX_OPEN_FILES_def demo_fields demo_desc_def demo_file_def
      OPEN_WRITE_def nth_append Let_def)

lemma demo_kernel_ok: "kernel_ok demo"
proof -
  have "kbd_wf demo" using boot_kbd_wf(1) kbd_part_wf [of demo boot] by (simp add: demo_def kbd_part_def)
  moreover have "on_screen demo" using boot_on_screen by (simp add: demo_def on_screen_def)
  moreover have "tables_set demo"
    by (auto simp: tables_set_def demo_def boot_def nth_append nth_Cons')
  ultimately show ?thesis using demo_fs_ok by (simp add: kernel_ok_def)
qed

end
