(* ===== verification/UserHeap.thy ===== *)
theory UserHeap
  imports Kernel
begin

text \<open>
  The kernel's services as its clients see them, through \<open>int 0x80\<close>: what \<open>sys_malloc\<close>,
  \<open>sys_free\<close> and \<open>sys_time\<close> of \<open>src/include/syscall.h\<close> return in a well-formed kernel, and what
  they leave alone.

  A client owns the heap blocks that hold no file of the kernel's own file system
  (\<open>user_live\<close>).  On these the three calls are an \<open>allocator\<close> again, with the whole kernel
  invariant in the place of the heap's.
\<close>

section \<open>One system call\<close>

lemma SYSCALL_INT_eq:
  assumes "kernel_ok s"
    "syscall_dispatch (env_irqs e) (r_eax r) (r_ebx r) (r_ecx r) (r_edx r) (r_esi r) (s\<lparr>interrupts_on := False\<rparr>) = Some (x, t)"
  shows "SYSCALL_INT e r s = Some (x, t\<lparr>interrupts_on := interrupts_on s\<rparr>)"
proof -
  have "length (g_ISRHandlers s) = 256" "g_ISRHandlers s ! 0x80 = Some ISR_syscall" "\<not> halted s"
    using assms(1) by (simp_all add: kernel_ok_def tables_set_def)
  moreover from sframe_dispatch [OF assms(2)] have "halted t = halted s"
    by (simp add: syscall_frame_def irq_part_def)
  ultimately show ?thesis
    using assms(2) by (simp add: SYSCALL_INT_def isr_common_def i686_ISR_Handler_def run_isr_def syscall_handler_def)
qed

text \<open>The state in which the handler of call \<open>num\<close> runs.\<close>

definition in_call :: "u32 \<Rightarrow> u32 \<Rightarrow> u32 \<Rightarrow> u32 \<Rightarrow> u32 \<Rightarrow> 'a ksys_scheme \<Rightarrow> 'a ksys_scheme" where
  "in_call num a b c d s = logf ''Syscall'' LVL_DEBUG ''Calling syscall %d with args: %x, %x, %x, %x''
     [VI num, VI a, VI b, VI c, VI d] (s\<lparr>interrupts_on := False\<rparr>)"

lemma in_call_fields [simp]:
  "mem (in_call num a b c d s) = mem s" "heap_start (in_call num a b c d s) = heap_start s"
  "heap_initialized (in_call num a b c d s) = heap_initialized s"
  "virtual_files (in_call num a b c d s) = virtual_files s" "s_ticks (in_call num a b c d s) = s_ticks s"
  "heap_ok (in_call num a b c d s) = heap_ok s" "heap_live (in_call num a b c d s) = heap_live s"
  "syscall_frame s (in_call num a b c d s)"
  by (simp_all add: in_call_def sframe heap_frame [of "logf md l fmt args (s\<lparr>interrupts_on := False\<rparr>)" s for md l fmt args])

lemma in_call_kernel_ok [simp]: "kernel_ok s \<Longrightarrow> kernel_ok (in_call num a b c d s)"
  by (rule kernel_ok_frame [OF _ in_call_fields(8)]) (simp_all add: in_call_def kernel_ok_def)

lemma SYSCALL_INT_handler:
  assumes "kernel_ok s" "r_eax r < 27" "handler_table ! unat (r_eax r) = Some h"
    "run_handler (env_irqs e) h (r_ebx r) (r_ecx r) (r_edx r)
       (in_call (r_eax r) (r_ebx r) (r_ecx r) (r_edx r) (r_esi r) s) = Some (x, t)"
  shows "SYSCALL_INT e r s = Some (x, t\<lparr>interrupts_on := interrupts_on s\<rparr>)"
proof (rule SYSCALL_INT_eq [OF assms(1)])
  have "syscall_handlers s = handler_table" using assms(1) by (simp add: kernel_ok_def tables_set_def)
  then show "syscall_dispatch (env_irqs e) (r_eax r) (r_ebx r) (r_ecx r) (r_edx r) (r_esi r) (s\<lparr>interrupts_on := False\<rparr>) = Some (x, t)"
    using assms(2-4) leD by (fastforce simp: syscall_dispatch_def in_call_def SYSCALL_COUNT_def)
qed

section \<open>The calls\<close>

definition user_live :: "'a ksys_scheme \<Rightarrow> (nat \<times> nat) set" where
  "user_live s = {b \<in> heap_live s. \<forall>k < 32. vf_in_use (virtual_files s ! k) \<noteq> 0 \<longrightarrow>
     unat (vf_data (virtual_files s ! k)) \<noteq> fst b}"

text \<open>What a call keeps besides \<^const>\<open>syscall_frame\<close>: the file tables, and whether interrupts are on.\<close>

definition client_frame :: "'a ksys_scheme \<Rightarrow> 'a ksys_scheme \<Rightarrow> bool" where
  "client_frame s s' \<longleftrightarrow> syscall_frame s s' \<and> virtual_files s' = virtual_files s \<and>
     file_descriptors s' = file_descriptors s \<and> fs_initialized s' = fs_initialized s \<and>
     interrupts_on s' = interrupts_on s"

lemma client_frame_refl [simp]: "client_frame s s"
  by (simp add: client_frame_def sframe)

lemma client_frame_trans: "client_frame s s1 \<Longrightarrow> client_frame s1 s2 \<Longrightarrow> client_frame s s2"
  unfolding client_frame_def using sframe_trans by auto

lemma client_frame_more: "client_frame s s' \<Longrightarrow> ksys.more s' = ksys.more s"
  by (simp add: client_frame_def syscall_frame_def)

lemma sframe_irq_flag: "syscall_frame s t \<Longrightarrow> syscall_frame s (t\<lparr>interrupts_on := b\<rparr>)"
  by (rule sframe_upd(5))

lemma sys_malloc_ok:
  assumes "kernel_ok s" "n \<noteq> 0" "n \<le> 0xFFFFFFE0"
  shows "\<exists>p s'. sys_malloc e n s = Some (p, s') \<and> kernel_ok s' \<and> client_frame s s' \<and>
    same_on (heap_live s) heap_arena (mem s) (mem s') \<and>
    (if p = 0 then heap_live s' = heap_live s
     else unat p \<notin> fst ` heap_live s \<and> (\<exists>k \<ge> unat n. heap_live s' = insert (unat p, k) (heap_live s)))"
proof -
  let ?r = "(env_regs e)\<lparr>r_eax := 3, r_ebx := n\<rparr>"
  let ?s = "in_call 3 n (r_ecx ?r) (r_edx ?r) (r_esi ?r) s"
  have ok: "kernel_ok ?s" "fs_ok ?s" "heap_ok ?s" using in_call_kernel_ok [OF assms(1)]
    by (simp_all add: kernel_ok_def fs_ok_def)
  from kmalloc.alloc_spec [OF ok(3) assms(2,3)] obtain p t where r: "sys_handler_malloc n ?s = Some (p, t)"
    "same_on (heap_live ?s) heap_arena (mem ?s) (mem t)"
    "if p = 0 then heap_live t = heap_live ?s
     else unat p \<notin> fst ` heap_live ?s \<and> (\<exists>k \<ge> unat n. heap_live t = insert (unat p, k) (heap_live ?s))" by blast
  from malloc_ok [OF ok(2) assms(3)] r(1) have "fs_ok t" by simp
  from kernel_ok_frame [OF ok(1) sframe_malloc [OF r(1)] this] have k: "kernel_ok t" .
  let ?t = "t\<lparr>interrupts_on := interrupts_on s\<rparr>"
  have "sys_malloc e n s = Some (p, ?t)"
    unfolding sys_malloc_def SYSCALL1_def
    using r(1) by (intro SYSCALL_INT_handler [OF assms(1), of _ H_malloc]) (simp_all add: handler_table_def)
  moreover have "client_frame s ?t"
    using sframe_irq_flag [OF sframe_trans [OF in_call_fields(8) sframe_malloc [OF r(1)]]]
      more_ksys [OF malloc_more [OF r(1)]] more_ksys(2,3) [of ?s s]
    by (simp add: client_frame_def in_call_def)
  moreover have "heap_live ?t = heap_live t" by (rule heap_frame) simp_all
  ultimately show ?thesis using k r(2,3) [unfolded in_call_fields]
    by (intro exI [of _ p] exI [of _ ?t]) (simp add: kernel_ok_upd)
qed

lemma sys_free_ok:
  assumes "kernel_ok s" "(unat p, k) \<in> user_live s"
  shows "\<exists>s'. sys_free e p s = Some (0, s') \<and> kernel_ok s' \<and> client_frame s s' \<and>
    heap_live s' = {b \<in> heap_live s. fst b \<noteq> unat p} \<and> same_on (heap_live s) heap_arena (mem s) (mem s')"
proof -
  let ?r = "(env_regs e)\<lparr>r_eax := 4, r_ebx := p\<rparr>"
  let ?s = "in_call 4 p (r_ecx ?r) (r_edx ?r) (r_esi ?r) s"
  have ok: "kernel_ok ?s" "fs_ok ?s" "heap_ok ?s" using in_call_kernel_ok [OF assms(1)]
    by (simp_all add: kernel_ok_def fs_ok_def)
  have l: "(unat p, k) \<in> heap_live ?s" "\<forall>j < 32. vf_in_use (virtual_files ?s ! j) \<noteq> 0 \<longrightarrow> vf_data (virtual_files ?s ! j) \<noteq> p"
    using assms(2) by (auto simp: user_live_def)
  from kmalloc.dealloc_spec [OF ok(3) l(1)] obtain t where r: "sys_handler_free p ?s = Some (0, t)"
    "heap_live t = {b \<in> heap_live ?s. fst b \<noteq> unat p}" "same_on (heap_live ?s) heap_arena (mem ?s) (mem t)" by blast
  from free_ok [OF ok(2) l] r(1) have "fs_ok t" by simp
  from kernel_ok_frame [OF ok(1) sframe_free [OF r(1)] this] have k: "kernel_ok t" .
  let ?t = "t\<lparr>interrupts_on := interrupts_on s\<rparr>"
  have "sys_free e p s = Some (0, ?t)"
    unfolding sys_free_def SYSCALL1_def
    using r(1) by (intro SYSCALL_INT_handler [OF assms(1), of _ H_free]) (simp_all add: handler_table_def)
  moreover have "client_frame s ?t"
    using sframe_irq_flag [OF sframe_trans [OF in_call_fields(8) sframe_free [OF r(1)]]]
      more_ksys [OF free_more [OF r(1)]]
    by (simp add: client_frame_def in_call_def)
  moreover have "heap_live ?t = heap_live t" by (rule heap_frame) simp_all
  ultimately show ?thesis using k r(2,3) by (intro exI [of _ ?t]) (simp add: kernel_ok_upd)
qed

lemma syscall_time_ok:
  assumes "kernel_ok s"
  shows "\<exists>s'. syscall_time e s = Some (ucast (s_ticks s), s') \<and> kernel_ok s' \<and> client_frame s s' \<and>
    mem s' = mem s \<and> heap_live s' = heap_live s"
proof -
  let ?r = "(env_regs e)\<lparr>r_eax := 10\<rparr>"
  let ?s = "in_call 10 (r_ebx ?r) (r_ecx ?r) (r_edx ?r) (r_esi ?r) s"
  let ?t = "?s\<lparr>interrupts_on := interrupts_on s\<rparr>"
  have "syscall_time e s = Some (ucast (s_ticks s), ?t)"
    unfolding syscall_time_def SYSCALL0_def
    by (rule SYSCALL_INT_handler [OF assms, of _ H_time])
      (simp_all add: handler_table_def sys_handler_time_def sys_time_def time_get_ticks_def)
  moreover have "client_frame s ?t"
    using sframe_irq_flag [OF in_call_fields(8)] by (simp add: client_frame_def in_call_def)
  moreover have "heap_live ?t = heap_live s" by (rule heap_frame) simp_all
  ultimately show ?thesis using assms by (simp add: kernel_ok_upd)
qed

section \<open>The allocator of the clients\<close>

lemma user_live_frame:
  assumes "client_frame s s'" "heap_live s' = H"
  shows "user_live s' = {b \<in> H. \<forall>k < 32. vf_in_use (virtual_files s ! k) \<noteq> 0 \<longrightarrow>
     unat (vf_data (virtual_files s ! k)) \<noteq> fst b}"
  using assms by (simp add: user_live_def client_frame_def)

text \<open>A block of a file is not given out again, so a new block belongs to the client.\<close>

lemma user_live_new:
  assumes "kernel_ok s" "client_frame s s'" "unat p \<notin> fst ` heap_live s" "heap_live s' = insert (unat p, k) (heap_live s)"
    "p \<noteq> 0" "same_on (heap_live s) heap_arena (mem s) (mem s')" "kernel_ok s'"
  shows "user_live s' = insert (unat p, k) (user_live s)"
proof -
  have p: "0x40000C \<le> unat p" "unat p + k \<le> 0x500000" using heap_live_range [of "unat p" k s'] assms(4) by simp_all
  have "unat (vf_data (virtual_files s ! j)) \<noteq> unat p" if j: "j < 32" "vf_in_use (virtual_files s ! j) \<noteq> 0" for j
  proof -
    have "backed s j \<or> is_default s j" "lits_ok s"
      using assms(1) j by (simp_all add: kernel_ok_def fs_ok_def files_ok_def)
    then show ?thesis
    proof (elim disjE)
      assume "backed s j"
      then show ?thesis using assms(3) unfolding backed_def by force
    next
      assume "is_default s j"
      then show ?thesis using \<open>lits_ok s\<close> p by (auto simp: is_default_def lits_ok_def)
    qed
  qed
  with assms(4) show ?thesis unfolding user_live_frame [OF assms(2,4)] by (auto simp: user_live_def)
qed

interpretation umalloc: allocator kernel_ok user_live heap_arena mem set_mem "sys_malloc e" "sys_free e" for e
proof unfold_locales
  show "heap_arena \<subseteq> {0<..<2 ^ 32}" by (rule kmalloc.arena_low)
next
  fix s :: "'a ksys_scheme" and x k assume ok: "kernel_ok s" and l: "(x, k) \<in> user_live s"
  then have h: "heap_ok s" "(x, k) \<in> heap_live s" by (simp_all add: kernel_ok_def fs_ok_def user_live_def)
  then show "0 < x \<and> x < 2 ^ 32 \<and> payload (x, k) \<subseteq> heap_arena" by (rule kmalloc.live_arena)
  fix y l assume "(y, l) \<in> user_live s" "(x, k) \<noteq> (y, l)"
  then show "payload (x, k) \<inter> payload (y, l) = {}"
    using kmalloc.live_disjoint [OF h, of y l] by (simp add: user_live_def)
next
  fix s :: "'a ksys_scheme" and n :: u32
  assume "kernel_ok s" "n \<noteq> 0" "n \<le> 0xFFFFFFE0"
  from sys_malloc_ok [OF this] obtain p s' where r: "sys_malloc e n s = Some (p, s')" "kernel_ok s'" "client_frame s s'"
    "same_on (heap_live s) heap_arena (mem s) (mem s')"
    "if p = 0 then heap_live s' = heap_live s
     else unat p \<notin> fst ` heap_live s \<and> (\<exists>k \<ge> unat n. heap_live s' = insert (unat p, k) (heap_live s))" by blast
  have sub: "user_live s \<subseteq> heap_live s" by (auto simp: user_live_def)
  have "if p = 0 then user_live s' = user_live s
    else unat p \<notin> fst ` user_live s \<and> (\<exists>k \<ge> unat n. user_live s' = insert (unat p, k) (user_live s))"
  proof (cases "p = 0")
    case True
    with user_live_frame [OF r(3)] r(5) show ?thesis by (simp add: user_live_def)
  next
    case False
    with r(5) obtain k where k: "unat p \<notin> fst ` heap_live s" "unat n \<le> k" "heap_live s' = insert (unat p, k) (heap_live s)"
      by auto
    with user_live_new [OF \<open>kernel_ok s\<close> r(3) k(1,3) False r(4,2)] sub False show ?thesis by auto
  qed
  with r same_on_mono [OF r(4) sub] show "\<exists>p s'. sys_malloc e n s = Some (p, s') \<and> kernel_ok s' \<and>
      same_on (user_live s) heap_arena (mem s) (mem s') \<and>
      (if p = 0 then user_live s' = user_live s
       else unat p \<notin> fst ` user_live s \<and> (\<exists>k \<ge> unat n. user_live s' = insert (unat p, k) (user_live s)))" by blast
next
  fix s :: "'a ksys_scheme" and p :: u32 and k
  assume "kernel_ok s" "(unat p, k) \<in> user_live s"
  from sys_free_ok [OF this] obtain s' where r: "sys_free e p s = Some (0, s')" "kernel_ok s'" "client_frame s s'"
    "heap_live s' = {b \<in> heap_live s. fst b \<noteq> unat p}" "same_on (heap_live s) heap_arena (mem s) (mem s')" by blast
  have sub: "user_live s \<subseteq> heap_live s" by (auto simp: user_live_def)
  have "user_live s' = {b \<in> user_live s. fst b \<noteq> unat p}"
    unfolding user_live_frame [OF r(3,4)] by (auto simp: user_live_def)
  with r same_on_mono [OF r(5) sub] show "\<exists>s'. sys_free e p s = Some (0, s') \<and> kernel_ok s' \<and>
      user_live s' = {b \<in> user_live s. fst b \<noteq> unat p} \<and> same_on (user_live s) heap_arena (mem s) (mem s')" by blast
next
  fix s :: "'a ksys_scheme" and b m
  assume ok: "kernel_ok s" and b: "b \<in> user_live s" and m: "\<And>a. unat a \<notin> payload b \<Longrightarrow> m a = mem s a"
  have h: "heap_ok s" "b \<in> heap_live s" using ok b by (simp_all add: kernel_ok_def fs_ok_def user_live_def)
  have "own_stores m s" unfolding own_stores_def using b m by (cases b) (force simp: user_live_def)
  from store_ok [OF ok this] kmalloc.write_spec [OF h m]
  show "kernel_ok (set_mem m s) \<and> user_live (set_mem m s) = user_live s \<and> mem (set_mem m s) = m"
    by (simp add: user_live_def)
qed

text \<open>The allocator's laws together with what the calls leave alone.\<close>

lemma umalloc_call:
  assumes "kernel_ok s" "n \<noteq> 0" "n \<le> 0xFFFFFFE0"
  shows "\<exists>p s'. sys_malloc e n s = Some (p, s') \<and> kernel_ok s' \<and> client_frame s s' \<and>
    same_on (user_live s) heap_arena (mem s) (mem s') \<and>
    (if p = 0 then user_live s' = user_live s
     else unat p \<notin> fst ` user_live s \<and> (\<exists>k \<ge> unat n. user_live s' = insert (unat p, k) (user_live s)))"
  using sys_malloc_ok [OF assms, of e] umalloc.alloc_spec [OF assms, of e] by (elim exE conjE) (intro exI conjI, auto)

lemma ufree_call:
  assumes "kernel_ok s" "(unat p, k) \<in> user_live s"
  shows "\<exists>s'. sys_free e p s = Some (0, s') \<and> kernel_ok s' \<and> client_frame s s' \<and>
    user_live s' = {b \<in> user_live s. fst b \<noteq> unat p} \<and> same_on (user_live s) heap_arena (mem s) (mem s')"
  using sys_free_ok [OF assms, of e] umalloc.dealloc_spec [OF assms, of e] by auto

lemma user_live_cong:
  "heap_live s' = heap_live s \<Longrightarrow> virtual_files s' = virtual_files s \<Longrightarrow> user_live s' = user_live s"
  by (simp add: user_live_def)

lemma utime_call:
  assumes "kernel_ok s"
  shows "\<exists>s'. syscall_time e s = Some (ucast (s_ticks s), s') \<and> kernel_ok s' \<and> client_frame s s' \<and>
    mem s' = mem s \<and> user_live s' = user_live s"
  using syscall_time_ok [OF assms, of e] by (auto simp: client_frame_def intro!: user_live_cong)

end
