(* ===== verification/ShellStr.thy ===== *)
theory ShellStr
  imports CString "HOL-Library.Sublist"
begin

text \<open>
  The string and number routines of the shell (\<open>src/src/kernel/shell/shell.c\<close> and the first part
  of \<open>shell_commands.c\<close>), and what they compute: substring search finds the first occurrence,
  the bounded copy writes one byte too many when the source is short, and the two number
  parsers read back what the formatter prints.

  A \<open>const char*\<close> argument is the string it points to, without its NUL; a \<open>char[]\<close> of the
  program is the whole array, and an access past its end is \<^const>\<open>None\<close>.
\<close>

section \<open>shell.c\<close>

fun shell_strlen :: "u8 list \<Rightarrow> int option" where
  "shell_strlen [] = None"
| "shell_strlen (c # str) = (if c \<noteq> 0 then do { n \<leftarrow> shell_strlen str; Some (n + 1) } else Some 0)"

fun shell_strcmp :: "u8 list \<Rightarrow> u8 list \<Rightarrow> s32" where
  "shell_strcmp (a # s1) (b # s2) =
     (if a \<noteq> 0 \<and> b \<noteq> 0 \<and> a = b then shell_strcmp s1 s2 else scast a - scast b)"
| "shell_strcmp (a # s1) [] = scast a"
| "shell_strcmp [] (b # s2) = - scast b"
| "shell_strcmp [] [] = 0"

text \<open>The result is the index of the match, or NULL.\<close>

fun shell_strchr :: "u8 list \<Rightarrow> s32 \<Rightarrow> nat option" where
  "shell_strchr [] c = (if c = 0 then Some 0 else None)"
| "shell_strchr (x # str) c = (if scast x = c then Some 0 else map_option Suc (shell_strchr str c))"

text \<open>The inner loop of \<open>shell_strstr\<close> and its test \<open>!*n\<close>.\<close>

fun strstr_match :: "u8 list \<Rightarrow> u8 list \<Rightarrow> bool" where
  "strstr_match (h # hs) (n # ns) = (if h = n then strstr_match hs ns else False)"
| "strstr_match hs ns = (ns = [])"

fun strstr_loop :: "u8 list \<Rightarrow> u8 list \<Rightarrow> nat option" where
  "strstr_loop [] needle = None"
| "strstr_loop (c # haystack) needle =
     (if strstr_match (c # haystack) needle then Some 0 else map_option Suc (strstr_loop haystack needle))"

definition shell_strstr :: "u8 list \<Rightarrow> u8 list \<Rightarrow> nat option" where
  "shell_strstr haystack needle = (if needle = [] then Some 0 else strstr_loop haystack needle)"

text \<open>
  \<open>while (n && (*d++ = *src++)) n--;\<close> and \<open>while (n--) *d++ = 0;\<close>.  The second loop is entered
  with the \<open>n\<close> that the first one left: when the copy ended at the source's NUL, that NUL has
  not been counted.  A negative \<open>n\<close> never reaches zero before the end of the array.
\<close>

fun strncpy_chars :: "u8 list \<Rightarrow> int \<Rightarrow> u8 list \<Rightarrow> int \<Rightarrow> (u8 list \<times> int \<times> int) option" where
  "strncpy_chars dest d [] n =
     (if n = 0 then Some (dest, d, n) else do { dest' \<leftarrow> arr_set dest d 0; Some (dest', d + 1, n) })"
| "strncpy_chars dest d (c # src) n =
     (if n = 0 then Some (dest, d, n)
      else do { dest' \<leftarrow> arr_set dest d c; strncpy_chars dest' (d + 1) src (n - 1) })"

function strncpy_pad :: "u8 list \<Rightarrow> int \<Rightarrow> int \<Rightarrow> u8 list option" where
  "strncpy_pad dest d n =
     (if n = 0 then Some dest
      else do { dest' \<leftarrow> arr_set dest d 0; strncpy_pad dest' (d + 1) (n - 1) })"
  by pat_completeness auto
termination
  by (relation "measure (\<lambda>(dest, d, n). nat (int (length dest) - d))")
    (auto simp: arr_set_def split: if_splits)

declare strncpy_pad.simps [simp del]

definition shell_strncpy :: "u8 list \<Rightarrow> u8 list \<Rightarrow> int \<Rightarrow> u8 list option" where
  "shell_strncpy dest src n = do {
     (dest1, d, m) \<leftarrow> strncpy_chars dest 0 src n;
     strncpy_pad dest1 d m }"

section \<open>shell_commands.c\<close>

definition shell_memcpy :: "mem \<Rightarrow> u32 \<Rightarrow> u32 \<Rightarrow> u32 \<Rightarrow> mem" where
  "shell_memcpy m dest src n = fold (\<lambda>i m. m(dest + of_nat i := m (src + of_nat i))) [0..<unat n] m"

text \<open>\<open>while (temp_num > 0)\<close>: the digits, last one first.\<close>

fun format_digits :: "nat \<Rightarrow> u8 list" where
  "format_digits n = (if n > 0 then of_nat (n mod 10 + 48) # format_digits (n div 10) else [])"

declare format_digits.simps [simp del]

definition format_number :: "s32 \<Rightarrow> u8 list" where
  "format_number num = (if num = 0 then [48] else rev (format_digits (nat (sint num))))"

text \<open>The digit of a hexadecimal character; any other character adds nothing.\<close>

definition hex_digit :: "u8 \<Rightarrow> u32" where
  "hex_digit c =
     (if 48 \<le> c \<and> c \<le> 57 then ucast c - 48
      else if 97 \<le> c \<and> c \<le> 102 then ucast c - 97 + 10
      else if 65 \<le> c \<and> c \<le> 70 then ucast c - 65 + 10 else 0)"

definition hex_str_to_int :: "u8 list \<Rightarrow> u32" where
  "hex_str_to_int hex_str =
     (let hex = (if take 2 hex_str = [48, 120] then drop 2 hex_str else hex_str)
      in foldl (\<lambda>result c. push_bit 4 result + hex_digit c) 0 hex)"

fun dec_loop :: "u32 \<Rightarrow> u8 list \<Rightarrow> u32" where
  "dec_loop result [] = result"
| "dec_loop result (c # str) =
     (if 48 \<le> c \<and> c \<le> 57 then dec_loop (result * 10 + (ucast c - 48)) str else result)"

definition dec_str_to_int :: "u8 list \<Rightarrow> u32" where
  "dec_str_to_int dec_str = dec_loop 0 dec_str"

section \<open>What they compute\<close>

lemma shell_strlen_cstr: "0 \<in> set buf \<Longrightarrow> shell_strlen buf = Some (int (length (cstr_of buf)))"
  by (induction buf) (auto simp: cstr_of_def)

lemma shell_strlen_pad: "is_cstr s \<Longrightarrow> shell_strlen (s @ 0 # rest) = Some (int (length s))"
  by (induction s) auto

lemma shell_strcmp_eq_0: "is_cstr s \<Longrightarrow> is_cstr t \<Longrightarrow> shell_strcmp s t = 0 \<longleftrightarrow> s = t"
  by (induction s t rule: shell_strcmp.induct) (auto simp: scast_u8_0_iff scast_u8_inj)

lemma strstr_match_prefix: "strstr_match h n = prefix n h"
  by (induction h n rule: strstr_match.induct) auto

text \<open>The search returns the first place at which the needle occurs, and NULL only when there is none.\<close>

lemma strstr_loop_Some:
  "needle \<noteq> [] \<Longrightarrow> strstr_loop h needle = Some i \<longleftrightarrow>
    prefix needle (drop i h) \<and> (\<forall>j < i. \<not> prefix needle (drop j h))"
proof (induction h arbitrary: i)
  case Nil
  then show ?case by auto
next
  case (Cons c h)
  then show ?case
    by (cases i) (auto simp: strstr_match_prefix less_Suc_eq_0_disj split: if_splits)
qed

lemma strstr_Some:
  "shell_strstr h needle = Some i \<longleftrightarrow> prefix needle (drop i h) \<and> (\<forall>j < i. \<not> prefix needle (drop j h))"
  by (cases "needle = []") (auto simp: shell_strstr_def strstr_loop_Some)

lemma strstr_loop_None: "needle \<noteq> [] \<Longrightarrow> strstr_loop h needle = None \<longleftrightarrow> \<not> sublist needle h"
  by (induction h) (auto simp: strstr_match_prefix sublist_Cons_right)

lemma strstr_None: "shell_strstr h needle = None \<longleftrightarrow> \<not> sublist needle h"
  by (auto simp: shell_strstr_def strstr_loop_None)

text \<open>
  The bounded copy.  A source of at least \<open>n\<close> bytes is cut to \<open>n\<close>, without a NUL; a shorter one
  is padded, and \<open>n + 1\<close> bytes are written, so that an array of exactly \<open>n\<close> bytes is overrun.
\<close>

lemma list_update_mid: "d < length dest \<Longrightarrow> dest[d := c] = take d dest @ c # drop (Suc d) dest"
  by (simp add: upd_conv_take_nth_drop)

lemma strncpy_chars_long:
  "n \<le> length src \<Longrightarrow> d + n \<le> length dest \<Longrightarrow>
    strncpy_chars dest (int d) src (int n) = Some (take d dest @ take n src @ drop (d + n) dest, int (d + n), 0)"
proof (induction src arbitrary: dest d n)
  case Nil
  then show ?case by simp
next
  case (Cons c src)
  show ?case
  proof (cases n)
    case 0
    then show ?thesis by simp
  next
    case (Suc m)
    let ?dest = "dest[d := c]"
    have "strncpy_chars ?dest (int (Suc d)) src (int m) =
        Some (take (Suc d) ?dest @ take m src @ drop (Suc d + m) ?dest, int (Suc d + m), 0)"
      using Cons.prems Suc by (intro Cons.IH) auto
    then show ?thesis using Cons.prems Suc by (simp add: add.commute take_Suc_conv_app_nth)
  qed
qed

lemma strncpy_chars_short:
  "length src < n \<Longrightarrow> d + length src < length dest \<Longrightarrow>
    strncpy_chars dest (int d) src (int n) =
      Some (take d dest @ src @ 0 # drop (Suc (d + length src)) dest, int (Suc (d + length src)), int (n - length src))"
proof (induction src arbitrary: dest d n)
  case Nil
  then show ?case by (simp add: list_update_mid)
next
  case (Cons c src)
  from Cons.prems obtain m where m: "n = Suc m" by (cases n) auto
  let ?dest = "dest[d := c]"
  have "strncpy_chars ?dest (int (Suc d)) src (int m) =
      Some (take (Suc d) ?dest @ src @ 0 # drop (Suc (Suc d + length src)) ?dest,
            int (Suc (Suc d + length src)), int (m - length src))"
    using Cons.prems m by (intro Cons.IH) auto
  then show ?case using Cons.prems m by (simp add: add.commute take_Suc_conv_app_nth)
qed

lemma strncpy_chars_over:
  "length src < n \<Longrightarrow> length dest = d + k \<Longrightarrow> k \<le> length src \<Longrightarrow> strncpy_chars dest (int d) src (int n) = None"
proof (induction src arbitrary: dest d n k)
  case Nil
  then show ?case by (simp add: arr_set_def)
next
  case (Cons c src)
  from Cons.prems obtain m where m: "n = Suc m" by (cases n) auto
  show ?case
  proof (cases k)
    case 0
    then show ?thesis using Cons.prems by (simp add: arr_set_def)
  next
    case (Suc j)
    have "strncpy_chars (dest[d := c]) (int (Suc d)) src (int m) = None"
      using Cons.prems m Suc by (intro Cons.IH [of _ _ _ j]) auto
    then show ?thesis using Cons.prems m Suc by (simp add: add.commute)
  qed
qed

lemma strncpy_pad_Some:
  "d + n \<le> length dest \<Longrightarrow>
    strncpy_pad dest (int d) (int n) = Some (take d dest @ replicate n 0 @ drop (d + n) dest)"
proof (induction n arbitrary: dest d)
  case 0
  then show ?case by (subst strncpy_pad.simps) simp
next
  case (Suc n)
  have "strncpy_pad (dest[d := 0]) (int (Suc d)) (int n) =
      Some (take (Suc d) (dest[d := 0]) @ replicate n 0 @ drop (Suc d + n) (dest[d := 0]))"
    using Suc.prems by (intro Suc.IH) simp
  then show ?case
    using Suc.prems by (subst strncpy_pad.simps) (simp add: add.commute take_Suc_conv_app_nth)
qed

lemma strncpy_pad_None:
  "length dest < d + n \<Longrightarrow> d \<le> length dest \<Longrightarrow> strncpy_pad dest (int d) (int n) = None"
proof (induction n arbitrary: dest d)
  case 0
  then show ?case by simp
next
  case (Suc n)
  show ?case
  proof (cases "d < length dest")
    case True
    then have "strncpy_pad (dest[d := 0]) (int (Suc d)) (int n) = None"
      using Suc.prems by (intro Suc.IH) auto
    then show ?thesis using True by (subst strncpy_pad.simps) (simp add: add.commute)
  next
    case False
    then show ?thesis by (subst strncpy_pad.simps) (simp add: arr_set_def)
  qed
qed

lemma shell_strncpy_cut:
  assumes "n \<le> length src" "n \<le> length dest"
  shows "shell_strncpy dest src (int n) = Some (take n src @ drop n dest)"
  using strncpy_chars_long [of n src 0 dest] assms
  by (simp add: shell_strncpy_def strncpy_pad.simps)

lemma shell_strncpy_padded:
  assumes "length src < n"
  shows "shell_strncpy dest src (int n) =
    (if n < length dest then Some (src @ replicate (Suc n - length src) 0 @ drop (Suc n) dest) else None)"
proof (cases "length src < length dest")
  case True
  let ?dest = "src @ 0 # drop (Suc (length src)) dest"
  have first: "strncpy_chars dest 0 src (int n) = Some (?dest, int (Suc (length src)), int (n - length src))"
    using strncpy_chars_short [of src n 0 dest] True assms by simp
  have len: "length ?dest = length dest" using True by simp
  have rep: "replicate (Suc n - length src) 0 = 0 # replicate (n - length src) (0 :: u8)"
    using assms by (simp add: Suc_diff_le)
  show ?thesis
  proof (cases "n < length dest")
    case fits: True
    have "strncpy_pad ?dest (int (Suc (length src))) (int (n - length src)) =
        Some (take (Suc (length src)) ?dest @ replicate (n - length src) 0 @ drop (Suc (length src) + (n - length src)) ?dest)"
      using assms fits len by (intro strncpy_pad_Some) linarith
    moreover have "Suc n - length src = Suc (n - length src)" using assms by simp
    ultimately show ?thesis using fits assms by (simp add: shell_strncpy_def first rep)
  next
    case False
    have "strncpy_pad ?dest (int (Suc (length src))) (int (n - length src)) = None"
      using assms False len True by (intro strncpy_pad_None) linarith+
    then show ?thesis using False by (simp add: shell_strncpy_def first)
  qed
next
  case False
  then have "strncpy_chars dest 0 src (int n) = None"
    using strncpy_chars_over [of src n dest 0 "length dest"] assms by simp
  then show ?thesis using False assms by (simp add: shell_strncpy_def)
qed

section \<open>Numbers\<close>

lemma dec_loop_append:
  "\<forall>c \<in> set ds. 48 \<le> c \<and> c \<le> 57 \<Longrightarrow>
    dec_loop r (ds @ s) = dec_loop (foldl (\<lambda>v c. v * 10 + (ucast c - 48)) r ds) s"
  by (induction ds arbitrary: r) auto

definition dec_val :: "u8 list \<Rightarrow> nat" where
  "dec_val ds = foldl (\<lambda>v c. v * 10 + (unat c - 48)) 0 ds"

lemma digit_word:
  assumes "48 \<le> (c :: u8)"
  shows "(ucast c - 48 :: u32) = of_nat (unat c - 48)"
proof -
  have "48 \<le> unat c" using assms by (simp add: word_le_nat_alt)
  then have "(of_nat (unat c - 48) :: u32) = of_nat (unat c) - 48" by (simp add: of_nat_diff)
  also have "(of_nat (unat c) :: u32) = ucast c" by (simp add: of_nat_unat)
  finally show ?thesis ..
qed

lemma dec_foldl:
  "\<forall>c \<in> set ds. 48 \<le> (c :: u8) \<Longrightarrow>
    foldl (\<lambda>v c. v * 10 + (ucast c - 48)) (of_nat r :: u32) ds =
    of_nat (foldl (\<lambda>v c. v * 10 + (unat c - 48)) r ds)"
proof (induction ds arbitrary: r)
  case (Cons c ds)
  have "(of_nat r :: u32) * 10 + (ucast c - 48) = of_nat (r * 10 + (unat c - 48))"
    using Cons.prems digit_word [of c] by simp
  with Cons show ?case by (simp del: of_nat_add of_nat_mult)
qed simp

text \<open>The parser reads the leading digits, modulo \<open>2 ^ 32\<close>, and stops at the first other character.\<close>

lemma dec_str_to_int_value:
  assumes "\<forall>c \<in> set ds. 48 \<le> c \<and> c \<le> 57" "rest = [] \<or> \<not> (48 \<le> hd rest \<and> hd rest \<le> 57)"
  shows "dec_str_to_int (ds @ rest) = of_nat (dec_val ds)"
proof -
  have "dec_str_to_int (ds @ rest) = dec_loop (foldl (\<lambda>v c. v * 10 + (ucast c - 48)) 0 ds) rest"
    using dec_loop_append [OF assms(1)] by (simp add: dec_str_to_int_def)
  also have "\<dots> = foldl (\<lambda>v c. v * 10 + (ucast c - 48)) 0 ds"
    using assms(2) by (cases rest) auto
  also have "\<dots> = of_nat (dec_val ds)" using dec_foldl [of ds 0] assms(1) by (simp add: dec_val_def)
  finally show ?thesis .
qed

lemma digit_char:
  "48 \<le> (of_nat (n mod 10 + 48) :: u8)" "(of_nat (n mod 10 + 48) :: u8) \<le> 57" "unat (of_nat (n mod 10 + 48) :: u8) = n mod 10 + 48"
proof -
  have "unat (of_nat (n mod 10 + 48) :: u8) = n mod 10 + 48"
    by (simp only: unat_of_nat) (simp add: take_bit_nat_eq_self)
  moreover have "n mod 10 < 10" by simp
  ultimately show "48 \<le> (of_nat (n mod 10 + 48) :: u8)" "(of_nat (n mod 10 + 48) :: u8) \<le> 57"
    "unat (of_nat (n mod 10 + 48) :: u8) = n mod 10 + 48"
    by (simp_all only: word_le_nat_alt) simp_all
qed

lemma format_digits_ok:
  "(\<forall>c \<in> set (format_digits n). 48 \<le> c \<and> c \<le> 57) \<and> dec_val (rev (format_digits n)) = n"
proof (induction n rule: format_digits.induct)
  case (1 n)
  show ?case
  proof (cases "n > 0")
    case True
    with 1 have IH: "\<forall>c \<in> set (format_digits (n div 10)). 48 \<le> c \<and> c \<le> 57"
      "dec_val (rev (format_digits (n div 10))) = n div 10" by blast+
    have "format_digits n = of_nat (n mod 10 + 48) # format_digits (n div 10)"
      using True by (subst format_digits.simps) simp
    moreover have "unat (of_nat (n mod 10 + 48) :: u8) - 48 = n mod 10" using digit_char(3) by simp
    ultimately show ?thesis
      using IH digit_char(1,2) [of n] by (simp add: dec_val_def del: of_nat_add)
  next
    case False
    then show ?thesis by (subst (1 2) format_digits.simps) (simp add: dec_val_def)
  qed
qed

text \<open>Printing a non-negative number and parsing it again gives it back.\<close>

lemma format_number_parse:
  assumes "0 \<le> sint num"
  shows "dec_str_to_int (format_number num) = num"
proof (cases "num = 0")
  case True
  then show ?thesis by (simp add: format_number_def dec_str_to_int_def)
next
  case False
  have "(of_nat (nat (sint num)) :: u32) = of_int (sint num)" using assms by (rule of_nat_nat)
  also have "\<dots> = num" by (simp add: of_int_sint scast_id)
  finally have "of_nat (nat (sint num)) = num" .
  moreover have "dec_str_to_int (rev (format_digits (nat (sint num))) @ []) = of_nat (nat (sint num))"
    using format_digits_ok [of "nat (sint num)"] by (subst dec_str_to_int_value) auto
  ultimately show ?thesis using False by (simp only: format_number_def if_False append_Nil2)
qed

end
