(* ===== verification/Ramfs.thy ===== *)
theory Ramfs
  imports UserHeap ShellStr
begin

text \<open>
  The shell's RAM file system (\<open>src/src/kernel/shell/shell_commands.c\<close>, lines 180 to 401): 64
  entries in one table, a directory tree through the entries' parent indices, and the contents of
  files in heap blocks that the system calls \<open>malloc\<close> and \<open>free\<close> hand out.

  The table is part of the kernel image and a list of records; the contents lie in the modelled
  memory.  \<open>ramfs_ok\<close> is the invariant (the table is a tree with its root in slot 0, every file
  has a heap block of its own) and every operation is shown to keep it and to do what its name
  says.
\<close>

section \<open>State\<close>

definition MAX_FILES :: nat where "MAX_FILES = 64"
definition MAX_FILENAME_LEN :: nat where "MAX_FILENAME_LEN = 32"
definition MAX_FILE_SIZE :: nat where "MAX_FILE_SIZE = 4096"

record ram_file =
  rf_name :: "u8 list"
  rf_data :: u32
  rf_size :: u32
  rf_capacity :: u32
  rf_is_directory :: u32
  rf_parent_index :: u32
  rf_in_use :: u32
  rf_created_time :: u32

record ram_fs = ksys +
  ram_files :: "ram_file list"
  ram_file_count :: u32
  ram_current_dir :: u32
  ram_initialized :: u32

definition zero_ram_file :: ram_file where
  "zero_ram_file = \<lparr>rf_name = replicate MAX_FILENAME_LEN 0, rf_data = 0, rf_size = 0, rf_capacity = 0,
     rf_is_directory = 0, rf_parent_index = 0, rf_in_use = 0, rf_created_time = 0\<rparr>"

definition set_rfile :: "nat \<Rightarrow> ram_file \<Rightarrow> 'a ram_fs_scheme \<Rightarrow> 'a ram_fs_scheme" where
  "set_rfile i f s = s\<lparr>ram_files := (ram_files s)[i := f]\<rparr>"

text \<open>\<open>shell_memcpy\<close> between the address space and an array of the caller.\<close>

definition shell_memcpy_out :: "mem \<Rightarrow> u32 \<Rightarrow> u8 list \<Rightarrow> u32 \<Rightarrow> mem option" where
  "shell_memcpy_out m dest src n =
     (if unat n \<le> length src then Some (fold (\<lambda>i m. m(dest + of_nat i := src ! i)) [0..<unat n] m) else None)"

definition shell_memcpy_in :: "u8 list \<Rightarrow> mem \<Rightarrow> u32 \<Rightarrow> u32 \<Rightarrow> u8 list option" where
  "shell_memcpy_in dest m src n =
     foldM (\<lambda>i d. arr_set d (int i) (m (src + of_nat i))) [0..<unat n] dest"

text \<open>Between two arrays: \<open>shell_memcpy(&dest[at], src, n)\<close>.\<close>

definition shell_memcpy_arr :: "u8 list \<Rightarrow> int \<Rightarrow> u8 list \<Rightarrow> nat \<Rightarrow> u8 list option" where
  "shell_memcpy_arr dest at src n =
     foldM (\<lambda>i d. do { c \<leftarrow> arr_get src (int i); arr_set d (at + int i) c }) [0..<n] dest"

section \<open>Operations\<close>

definition ramfs_init :: "env \<Rightarrow> 'a ram_fs_scheme \<Rightarrow> 'a ram_fs_scheme option" where
  "ramfs_init e s =
     (if ram_initialized s \<noteq> 0 then Some s
      else do {
        let root = zero_ram_file\<lparr>rf_name := (replicate MAX_FILENAME_LEN 0)[0 := 47, 1 := 0],
          rf_is_directory := 1, rf_parent_index := 0, rf_in_use := 1\<rparr>;
        let s1 = s\<lparr>ram_files := (replicate MAX_FILES zero_ram_file)[0 := root], ram_file_count := 0,
          ram_current_dir := 0, ram_initialized := 0\<rparr>;
        (t, s2) \<leftarrow> syscall_time e s1;
        let s3 = set_rfile 0 ((ram_files s2 ! 0)\<lparr>rf_created_time := t\<rparr>) s2;
        Some (printf (''RAM File System initialized'' @ [CHR 0x0A]) []
          (s3\<lparr>ram_file_count := 1, ram_current_dir := 0, ram_initialized := 1\<rparr>)) })"

text \<open>The two searches; \<^const>\<open>None\<close> stands for their result \<open>-1\<close>.\<close>

definition ramfs_find_file :: "u8 list \<Rightarrow> u32 \<Rightarrow> 'a ram_fs_scheme \<Rightarrow> nat option" where
  "ramfs_find_file name parent_dir s =
     find (\<lambda>i. rf_in_use (ram_files s ! i) \<noteq> 0 \<and> rf_parent_index (ram_files s ! i) = parent_dir \<and>
       shell_strcmp (cstr_of (rf_name (ram_files s ! i))) name = 0) [0..<MAX_FILES]"

definition ramfs_find_free_slot :: "'a ram_fs_scheme \<Rightarrow> nat option" where
  "ramfs_find_free_slot s = find (\<lambda>i. rf_in_use (ram_files s ! i) = 0) [0..<MAX_FILES]"

text \<open>
  The part of \<open>ramfs_create\<close> that prepares the contents of entry \<open>slot\<close>; false when no memory is
  left.
\<close>

definition create_data :: "env \<Rightarrow> nat \<Rightarrow> u32 \<Rightarrow> 'a ram_fs_scheme \<Rightarrow> (bool \<times> 'a ram_fs_scheme) option" where
  "create_data e slot is_directory s =
     (if is_directory = 0 then do {
        (p, s1) \<leftarrow> sys_malloc e 256 s;
        let s2 = set_rfile slot ((ram_files s1 ! slot)\<lparr>rf_data := p\<rparr>) s1;
        if p = 0 then Some (False, s2)
        else (let s3 = set_rfile slot ((ram_files s2 ! slot)\<lparr>rf_capacity := 256, rf_size := 0\<rparr>) s2
              in Some (True, set_mem ((mem s3)(p := 0)) s3)) }
      else Some (True, set_rfile slot
        ((ram_files s ! slot)\<lparr>rf_data := 0, rf_capacity := 0, rf_size := 0\<rparr>) s))"

definition ramfs_create :: "env \<Rightarrow> u8 list \<Rightarrow> u32 \<Rightarrow> 'a ram_fs_scheme \<Rightarrow> (int \<times> 'a ram_fs_scheme) option" where
  "ramfs_create e name is_directory s = do {
     s0 \<leftarrow> (if ram_initialized s = 0 then ramfs_init e s else Some s);
     case ramfs_find_file name (ram_current_dir s0) s0 of
       Some _ \<Rightarrow> Some (- 1, s0)
     | None \<Rightarrow>
         (case ramfs_find_free_slot s0 of
            None \<Rightarrow> Some (- 2, s0)
          | Some slot \<Rightarrow> do {
              nm \<leftarrow> shell_strncpy (rf_name (ram_files s0 ! slot)) name (int MAX_FILENAME_LEN - 1);
              nm' \<leftarrow> arr_set nm (int MAX_FILENAME_LEN - 1) 0;
              (ok, s1) \<leftarrow> create_data e slot is_directory
                (set_rfile slot ((ram_files s0 ! slot)\<lparr>rf_name := nm'\<rparr>) s0);
              if \<not> ok then Some (- 3, s1)
              else do {
                let s2 = set_rfile slot ((ram_files s1 ! slot)\<lparr>rf_is_directory := is_directory,
                  rf_parent_index := ram_current_dir s1, rf_in_use := 1\<rparr>) s1;
                (t, s3) \<leftarrow> syscall_time e s2;
                let s4 = set_rfile slot ((ram_files s3 ! slot)\<lparr>rf_created_time := t\<rparr>) s3;
                Some (int slot, s4\<lparr>ram_file_count := ram_file_count s4 + 1\<rparr>) } }) }"

definition ramfs_delete :: "env \<Rightarrow> u8 list \<Rightarrow> 'a ram_fs_scheme \<Rightarrow> (int \<times> 'a ram_fs_scheme) option" where
  "ramfs_delete e name s =
     (case ramfs_find_file name (ram_current_dir s) s of
        None \<Rightarrow> Some (- 1, s)
      | Some k \<Rightarrow>
          if rf_is_directory (ram_files s ! k) \<noteq> 0 \<and>
             (\<exists>i \<in> set [0..<MAX_FILES]. rf_in_use (ram_files s ! i) \<noteq> 0 \<and> rf_parent_index (ram_files s ! i) = of_nat k)
          then Some (- 2, s)
          else do {
            s1 \<leftarrow> (if rf_data (ram_files s ! k) \<noteq> 0
                   then do { (r, s1) \<leftarrow> sys_free e (rf_data (ram_files s ! k)) s; Some s1 } else Some s);
            let s2 = set_rfile k zero_ram_file s1;
            Some (0, s2\<lparr>ram_file_count := ram_file_count s2 - 1\<rparr>) })"

text \<open>The buffer of file \<open>k\<close> made large enough; \<^const>\<open>False\<close> when no memory is left.\<close>

definition write_expand :: "env \<Rightarrow> nat \<Rightarrow> u32 \<Rightarrow> 'a ram_fs_scheme \<Rightarrow> (bool \<times> 'a ram_fs_scheme) option" where
  "write_expand e k sz s =
     (if sz > rf_capacity (ram_files s ! k) then do {
        let new_capacity = ((sz + 255) div 256) * 256;
        (new_data, s1) \<leftarrow> sys_malloc e new_capacity s;
        if new_data = 0 then Some (False, s1)
        else do {
          s2 \<leftarrow> (if rf_data (ram_files s1 ! k) \<noteq> 0 then do {
              let m = shell_memcpy (mem s1) new_data (rf_data (ram_files s1 ! k)) (rf_size (ram_files s1 ! k));
              (r, s2) \<leftarrow> sys_free e (rf_data (ram_files s1 ! k)) (set_mem m s1);
              Some s2 }
            else Some s1);
          Some (True, set_rfile k ((ram_files s2 ! k)\<lparr>rf_data := new_data, rf_capacity := new_capacity\<rparr>) s2) } }
      else Some (True, s))"

text \<open>The rest of \<open>ramfs_write_file\<close>, on the entry found or created.\<close>

definition write_data :: "env \<Rightarrow> nat \<Rightarrow> u8 list \<Rightarrow> u32 \<Rightarrow> 'a ram_fs_scheme \<Rightarrow> (int \<times> 'a ram_fs_scheme) option" where
  "write_data e k data sz s =
     (if rf_is_directory (ram_files s ! k) \<noteq> 0 then Some (- 1, s)
      else do {
        (ok, s1) \<leftarrow> write_expand e k sz s;
        if \<not> ok then Some (- 3, s1)
        else do {
          let p = rf_data (ram_files s1 ! k);
          m \<leftarrow> shell_memcpy_out (mem s1) p data sz;
          let s2 = set_rfile k ((ram_files s1 ! k)\<lparr>rf_size := sz\<rparr>) (set_mem m s1);
          Some (sint sz, if sz > 0 then set_mem ((mem s2)(p + sz := 0)) s2 else s2) } })"

definition ramfs_write_file ::
    "env \<Rightarrow> u8 list \<Rightarrow> u8 list \<Rightarrow> u32 \<Rightarrow> 'a ram_fs_scheme \<Rightarrow> (int \<times> 'a ram_fs_scheme) option" where
  "ramfs_write_file e name data sz s =
     (case ramfs_find_file name (ram_current_dir s) s of
        Some k \<Rightarrow> write_data e k data sz s
      | None \<Rightarrow> do {
          (r, s1) \<leftarrow> ramfs_create e name 0 s;
          if r < 0 then Some (r, s1) else write_data e (nat r) data sz s1 })"

text \<open>The buffer is an array of the caller; the result is the status and the buffer afterwards.\<close>

definition ramfs_read_file ::
    "u8 list \<Rightarrow> u8 list \<Rightarrow> u32 \<Rightarrow> 'a ram_fs_scheme \<Rightarrow> (int \<times> u8 list) option" where
  "ramfs_read_file name buffer buffer_size s =
     (case ramfs_find_file name (ram_current_dir s) s of
        None \<Rightarrow> Some (- 1, buffer)
      | Some k \<Rightarrow>
          if rf_is_directory (ram_files s ! k) \<noteq> 0 then Some (- 2, buffer)
          else do {
            let to_read = (if rf_size (ram_files s ! k) < buffer_size then rf_size (ram_files s ! k) else buffer_size);
            buffer' \<leftarrow> shell_memcpy_in buffer (mem s) (rf_data (ram_files s ! k)) to_read;
            Some (sint to_read, buffer') })"

lemma shell_strlen_nonneg: "shell_strlen buf = Some n \<Longrightarrow> 0 \<le> n"
  by (induction buf arbitrary: n) (auto split: if_splits Option.bind_splits)

text \<open>
  The walk to the root: the path is laid out from the end of \<open>temp_path\<close> backwards, and \<open>pos\<close>
  goes down in every pass.
\<close>

function path_loop :: "ram_file list \<Rightarrow> u32 \<Rightarrow> u8 list \<Rightarrow> int \<Rightarrow> (u8 list \<times> int) option" where
  "path_loop files dir_index temp_path pos =
     (if dir_index = 0 then Some (temp_path, pos)
      else do {
        dir \<leftarrow> arr_get files (uint dir_index);
        name_len \<leftarrow> shell_strlen (rf_name dir);
        let pos1 = pos - name_len;
        if pos1 < 0 then Some (temp_path, pos1)
        else do {
          temp1 \<leftarrow> shell_memcpy_arr temp_path pos1 (rf_name dir) (nat name_len);
          let pos2 = pos1 - 1;
          if pos2 < 0 then Some (temp1, pos2)
          else do {
            temp2 \<leftarrow> arr_set temp1 pos2 47;
            path_loop files (rf_parent_index dir) temp2 pos2 } } })"
  by pat_completeness auto
termination
  by (relation "measure (\<lambda>(files, d, t, pos). nat pos)") (auto dest: shell_strlen_nonneg)

declare path_loop.simps [simp del]

text \<open>
  \<open>temp_path\<close> is not initialised by the code; the bytes in front of the path are never read, and
  are zero here.
\<close>

definition ramfs_get_current_path :: "u8 list \<Rightarrow> nat \<Rightarrow> 'a ram_fs_scheme \<Rightarrow> u8 list option" where
  "ramfs_get_current_path buffer buffer_size s =
     (if ram_current_dir s = 0 then shell_strncpy buffer [47] (int buffer_size)
      else do {
        (temp_path, pos) \<leftarrow> path_loop (ram_files s) (ram_current_dir s) (replicate 256 0) 255;
        if pos < 0 then None
        else shell_strncpy buffer (cstr_of (drop (nat pos) temp_path)) (int buffer_size) })"

section \<open>The invariant\<close>

definition taken :: "ram_file list \<Rightarrow> nat set" where
  "taken fs = {i. i < length fs \<and> rf_in_use (fs ! i) \<noteq> 0}"

definition dirs :: "ram_file list \<Rightarrow> nat set" where
  "dirs fs = {i \<in> taken fs. rf_is_directory (fs ! i) \<noteq> 0}"

definition parent :: "ram_file list \<Rightarrow> nat \<Rightarrow> nat" where
  "parent fs i = unat (rf_parent_index (fs ! i))"

inductive to_root :: "ram_file list \<Rightarrow> nat \<Rightarrow> bool" for fs where
  root: "to_root fs 0"
| up: "to_root fs (parent fs i) \<Longrightarrow> to_root fs i"

definition tree_ok :: "ram_file list \<Rightarrow> bool" where
  "tree_ok fs \<longleftrightarrow> length fs = 64 \<and> (\<forall>i < 64. length (rf_name (fs ! i)) = 32 \<and> 0 \<in> set (rf_name (fs ! i))) \<and>
     0 \<in> dirs fs \<and> parent fs 0 = 0 \<and> (\<forall>i \<in> taken fs. parent fs i \<in> dirs fs \<and> to_root fs i)"

definition blocks_ok :: "ram_file list \<Rightarrow> (nat \<times> nat) set \<Rightarrow> bool" where
  "blocks_ok fs L \<longleftrightarrow>
     (\<forall>i \<in> taken fs - dirs fs. rf_size (fs ! i) \<le> rf_capacity (fs ! i) \<and> unat (rf_capacity (fs ! i)) mod 256 = 0 \<and>
        (\<exists>c. (unat (rf_data (fs ! i)), c) \<in> L \<and> unat (rf_capacity (fs ! i)) \<le> c)) \<and>
     (\<forall>i \<in> dirs fs. rf_data (fs ! i) = 0) \<and> inj_on (\<lambda>i. rf_data (fs ! i)) (taken fs - dirs fs)"

definition ramfs_ok :: "'a ram_fs_scheme \<Rightarrow> bool" where
  "ramfs_ok s \<longleftrightarrow> kernel_ok s \<and> ram_initialized s \<noteq> 0 \<and> tree_ok (ram_files s) \<and>
     unat (ram_current_dir s) \<in> dirs (ram_files s) \<and> blocks_ok (ram_files s) (user_live s) \<and>
     ram_file_count s = of_nat (card (taken (ram_files s)))"

text \<open>The bytes of file \<open>i\<close>.\<close>

definition file_bytes :: "'a ram_fs_scheme \<Rightarrow> nat \<Rightarrow> u8 list" where
  "file_bytes s i = bytes_at (mem s) (rf_data (ram_files s ! i)) (unat (rf_size (ram_files s ! i)))"

section \<open>What the operations leave alone\<close>

lemma more_ram:
  fixes s s' :: "'a ram_fs_scheme"
  assumes "ksys.more s' = ksys.more s"
  shows "ram_files s' = ram_files s" "ram_file_count s' = ram_file_count s"
    "ram_current_dir s' = ram_current_dir s" "ram_initialized s' = ram_initialized s"
  using assms by (cases s; cases s'; simp)+

lemmas client_ram = client_frame_more [THEN more_ram(1)] client_frame_more [THEN more_ram(2)]
  client_frame_more [THEN more_ram(3)] client_frame_more [THEN more_ram(4)]

lemma kernel_ok_ram [simp]:
  fixes s :: "'a ram_fs_scheme"
  shows "kernel_ok (s\<lparr>ram_files := a\<rparr>) = kernel_ok s" "kernel_ok (s\<lparr>ram_file_count := b\<rparr>) = kernel_ok s"
    "kernel_ok (s\<lparr>ram_current_dir := b\<rparr>) = kernel_ok s" "kernel_ok (s\<lparr>ram_initialized := b\<rparr>) = kernel_ok s"
  by (simp_all add: kernel_ok_def fs_ok_def tables_ok_def files_ok_def lits_ok_def backed_def is_default_def
      heap_ok_def heap_live_def heap_rel_def kbd_wf_def kbd_arrays_def ring_ok_def on_screen_def tables_set_def)

lemma user_live_ram [simp]:
  fixes s :: "'a ram_fs_scheme"
  shows "user_live (s\<lparr>ram_files := a\<rparr>) = user_live s" "user_live (s\<lparr>ram_file_count := b\<rparr>) = user_live s"
    "user_live (s\<lparr>ram_current_dir := b\<rparr>) = user_live s" "user_live (s\<lparr>ram_initialized := b\<rparr>) = user_live s"
  by (simp_all add: user_live_def heap_live_def heap_rel_def)

lemma set_rfile_frame [simp]:
  fixes s :: "'a ram_fs_scheme"
  shows "kernel_ok (set_rfile i f s) = kernel_ok s" "user_live (set_rfile i f s) = user_live s"
    "mem (set_rfile i f s) = mem s" "ram_files (set_rfile i f s) = (ram_files s)[i := f]"
    "ram_file_count (set_rfile i f s) = ram_file_count s" "ram_current_dir (set_rfile i f s) = ram_current_dir s"
    "ram_initialized (set_rfile i f s) = ram_initialized s"
  by (simp_all add: set_rfile_def)

lemma set_mem_ram [simp]:
  fixes s :: "'a ram_fs_scheme"
  shows "ram_files (set_mem m s) = ram_files s" "ram_file_count (set_mem m s) = ram_file_count s"
    "ram_current_dir (set_mem m s) = ram_current_dir s" "ram_initialized (set_mem m s) = ram_initialized s"
  by (simp_all add: set_mem_def)

section \<open>The tree\<close>

lemma taken_0: "tree_ok fs \<Longrightarrow> 0 \<in> taken fs"
  by (simp add: tree_ok_def dirs_def)

lemma taken_less: "tree_ok fs \<Longrightarrow> i \<in> taken fs \<Longrightarrow> i < 64"
  by (simp add: tree_ok_def taken_def)

lemma taken_upd: "k < length fs \<Longrightarrow>
    taken (fs[k := f]) = (if rf_in_use f = 0 then taken fs - {k} else insert k (taken fs))"
  by (auto simp: taken_def nth_list_update)

lemma dirs_upd: "k < length fs \<Longrightarrow>
    dirs (fs[k := f]) = (if rf_in_use f = 0 \<or> rf_is_directory f = 0 then dirs fs - {k} else insert k (dirs fs))"
  by (auto simp: dirs_def taken_def nth_list_update)

lemma parent_upd: "k < length fs \<Longrightarrow> parent (fs[k := f]) i = (if i = k then unat (rf_parent_index f) else parent fs i)"
  by (simp add: parent_def)

lemma to_root_upd:
  assumes "to_root fs i" "i \<in> taken fs" "i \<noteq> k" "tree_ok fs" "k < 64" "\<And>j. j \<in> taken fs \<Longrightarrow> j \<noteq> k \<Longrightarrow> parent fs j \<noteq> k"
  shows "to_root (fs[k := f]) i"
  using assms(1-3)
proof (induction rule: to_root.induct)
  case root
  show ?case by (rule to_root.root)
next
  case (up i)
  have "parent fs i \<in> taken fs" using up.prems(1) assms(4) by (auto simp: tree_ok_def dirs_def)
  with up assms(6) have "to_root (fs[k := f]) (parent fs i)" by blast
  moreover have "parent (fs[k := f]) i = parent fs i" using up.prems(2) assms(4,5) by (simp add: parent_upd tree_ok_def)
  ultimately show ?case using to_root.up [of "fs[k := f]" i] by simp
qed

text \<open>A new entry in a directory.\<close>

lemma tree_ok_add:
  assumes "tree_ok fs" "k < 64" "k \<notin> taken fs" "unat (rf_parent_index f) \<in> dirs fs" "rf_in_use f \<noteq> 0"
    "length (rf_name f) = 32" "0 \<in> set (rf_name f)"
  shows "tree_ok (fs[k := f])"
proof -
  have len: "length fs = 64" using assms(1) by (simp add: tree_ok_def)
  have np: "parent fs j \<noteq> k" if "j \<in> taken fs" for j
    using that assms(1,3) by (auto simp: tree_ok_def dirs_def)
  have k0: "k \<noteq> 0" using taken_0 [OF assms(1)] assms(3) by metis
  have "k \<notin> dirs fs" using assms(3) by (simp add: dirs_def)
  then have sub: "dirs fs \<subseteq> dirs (fs[k := f])" using assms(2) len by (auto simp: dirs_upd)
  have tr: "to_root (fs[k := f]) j" if "j \<in> taken fs" for j
    using that assms(1,3) np by (intro to_root_upd [OF _ that _ assms(1,2)]) (auto simp: tree_ok_def)
  have "to_root (fs[k := f]) (parent (fs[k := f]) k)"
    using assms(2,4) len by (intro tr) (simp add: parent_upd dirs_def)
  then have trk: "to_root (fs[k := f]) k" by (rule to_root.up)
  have "parent (fs[k := f]) i \<in> dirs (fs[k := f]) \<and> to_root (fs[k := f]) i" if "i \<in> taken (fs[k := f])" for i
  proof (cases "i = k")
    case True
    with trk sub assms(2,4) len show ?thesis by (auto simp: parent_upd)
  next
    case False
    with that assms(2,5) len have i: "i \<in> taken fs" by (simp add: taken_upd)
    with False tr [OF i] sub assms(1,2) len show ?thesis by (auto simp: parent_upd tree_ok_def)
  qed
  moreover have "0 \<in> dirs (fs[k := f])" "parent (fs[k := f]) 0 = 0"
    using sub assms(1,2) k0 len by (auto simp: tree_ok_def parent_upd)
  moreover have "length (rf_name (fs[k := f] ! i)) = 32 \<and> 0 \<in> set (rf_name (fs[k := f] ! i))" if "i < 64" for i
    using that assms(1,2,6,7) len by (simp add: nth_list_update tree_ok_def)
  ultimately show ?thesis using len unfolding tree_ok_def by simp
qed

text \<open>An entry without children removed.\<close>

lemma tree_ok_remove:
  assumes "tree_ok fs" "k < 64" "\<And>i. i \<in> taken fs \<Longrightarrow> parent fs i \<noteq> k"
    "rf_in_use f = 0" "length (rf_name f) = 32" "0 \<in> set (rf_name f)"
  shows "tree_ok (fs[k := f])" "k \<noteq> 0"
proof -
  have len: "length fs = 64" using assms(1) by (simp add: tree_ok_def)
  note k = assms(2)
  show k0: "k \<noteq> 0" using assms(3) [of 0] taken_0 [OF assms(1)] assms(1) by (metis tree_ok_def)
  have tk: "taken (fs[k := f]) = taken fs - {k}" "dirs (fs[k := f]) = dirs fs - {k}"
    using k len assms(4) by (simp_all add: taken_upd dirs_upd)
  have "parent (fs[k := f]) i \<in> dirs (fs[k := f]) \<and> to_root (fs[k := f]) i" if i: "i \<in> taken fs" "i \<noteq> k" for i
    using i assms(1) assms(3) [OF i(1)] k len to_root_upd [OF _ i assms(1) k, of f] assms(3)
    by (auto simp: tk parent_upd tree_ok_def)
  moreover have "0 \<in> dirs (fs[k := f])" "parent (fs[k := f]) 0 = 0"
    using assms(1) k k0 len by (auto simp: tk tree_ok_def parent_upd)
  moreover have "length (rf_name (fs[k := f] ! i)) = 32 \<and> 0 \<in> set (rf_name (fs[k := f] ! i))" if "i < 64" for i
    using that assms(1,5,6) k len by (simp add: nth_list_update tree_ok_def)
  ultimately show "tree_ok (fs[k := f])" using len tk unfolding tree_ok_def by simp
qed

text \<open>A change of an entry's contents.\<close>

lemma tree_ok_data:
  assumes "tree_ok fs" "k < 64" "rf_name f = rf_name (fs ! k)" "rf_in_use f = rf_in_use (fs ! k)"
    "rf_is_directory f = rf_is_directory (fs ! k)" "rf_parent_index f = rf_parent_index (fs ! k)"
  shows "tree_ok (fs[k := f])" "taken (fs[k := f]) = taken fs" "dirs (fs[k := f]) = dirs fs"
proof -
  have len: "length fs = 64" using assms(1) by (simp add: tree_ok_def)
  show tk: "taken (fs[k := f]) = taken fs" "dirs (fs[k := f]) = dirs fs"
    using assms(2,4,5) len by (auto simp: taken_def dirs_def nth_list_update)
  have par: "parent (fs[k := f]) = parent fs"
    using assms(2,6) len by (auto simp: parent_def nth_list_update)
  have "to_root (fs[k := f]) i" if "to_root fs i" for i
    using that by (induction rule: to_root.induct) (auto intro: to_root.intros simp: par)
  then show "tree_ok (fs[k := f])"
    using assms(1-3) len by (auto simp: tree_ok_def tk par nth_list_update)
qed

section \<open>The blocks\<close>

lemma blocks_ok_upd:
  assumes "blocks_ok fs L" "k < length fs"
    and keep: "\<And>j c. j \<in> taken fs - dirs fs \<Longrightarrow> j \<noteq> k \<Longrightarrow> (unat (rf_data (fs ! j)), c) \<in> L \<Longrightarrow>
      (unat (rf_data (fs ! j)), c) \<in> L'"
    and new: "rf_in_use f \<noteq> 0 \<Longrightarrow> rf_is_directory f \<noteq> 0 \<Longrightarrow> rf_data f = 0"
      "rf_in_use f \<noteq> 0 \<Longrightarrow> rf_is_directory f = 0 \<Longrightarrow> rf_size f \<le> rf_capacity f \<and> unat (rf_capacity f) mod 256 = 0 \<and>
        (\<exists>c. (unat (rf_data f), c) \<in> L' \<and> unat (rf_capacity f) \<le> c)"
      "\<And>j. rf_in_use f \<noteq> 0 \<Longrightarrow> rf_is_directory f = 0 \<Longrightarrow> j \<in> taken fs - dirs fs \<Longrightarrow> j \<noteq> k \<Longrightarrow> rf_data (fs ! j) \<noteq> rf_data f"
  shows "blocks_ok (fs[k := f]) L'"
proof -
  let ?fs = "fs[k := f]"
  have old: "i \<in> taken fs - dirs fs" if "i \<in> taken ?fs - dirs ?fs" "i \<noteq> k" for i
    using that assms(2) by (auto simp: taken_upd dirs_upd split: if_splits)
  have atk: "rf_in_use f \<noteq> 0" "rf_is_directory f = 0" if "k \<in> taken ?fs - dirs ?fs"
    using that assms(2) by (auto simp: taken_upd dirs_upd split: if_splits)
  have "rf_size (?fs ! i) \<le> rf_capacity (?fs ! i) \<and> unat (rf_capacity (?fs ! i)) mod 256 = 0 \<and>
      (\<exists>c. (unat (rf_data (?fs ! i)), c) \<in> L' \<and> unat (rf_capacity (?fs ! i)) \<le> c)" if "i \<in> taken ?fs - dirs ?fs" for i
  proof (cases "i = k")
    case True
    with that atk new(2) assms(2) show ?thesis by simp
  next
    case False
    from old [OF that False] assms(1) obtain c where "rf_size (fs ! i) \<le> rf_capacity (fs ! i)" "unat (rf_capacity (fs ! i)) mod 256 = 0"
      "(unat (rf_data (fs ! i)), c) \<in> L" "unat (rf_capacity (fs ! i)) \<le> c" by (auto simp: blocks_ok_def)
    with keep [OF old [OF that False] False] False show ?thesis by auto
  qed
  moreover have "rf_data (?fs ! i) = 0" if "i \<in> dirs ?fs" for i
    using that new(1) assms(1,2)
    by (cases "i = k") (auto simp: dirs_upd blocks_ok_def split: if_splits)
  moreover have "inj_on (\<lambda>i. rf_data (?fs ! i)) (taken ?fs - dirs ?fs)"
  proof (rule inj_onI)
    fix i j assume ij: "i \<in> taken ?fs - dirs ?fs" "j \<in> taken ?fs - dirs ?fs" "rf_data (?fs ! i) = rf_data (?fs ! j)"
    have diff: "rf_data (fs ! a) \<noteq> rf_data f" if "a \<in> taken ?fs - dirs ?fs" "a \<noteq> k" "k \<in> taken ?fs - dirs ?fs" for a
      using new(3) [OF atk [OF that(3)] old [OF that(1,2)] that(2)] .
    consider "i = k" "j = k" | "i = k" "j \<noteq> k" | "i \<noteq> k" "j = k" | "i \<noteq> k" "j \<noteq> k" by blast
    then show "i = j"
    proof cases
      case 4
      with ij old [OF ij(1)] old [OF ij(2)] assms(1) show ?thesis by (auto simp: blocks_ok_def dest: inj_onD)
    qed (use ij diff assms(2) in auto)
  qed
  ultimately show ?thesis by (simp add: blocks_ok_def)
qed

text \<open>The bytes of a file whose entry and block are untouched.\<close>

lemma file_bytes_same:
  assumes "ramfs_ok s" "j \<in> taken (ram_files s) - dirs (ram_files s)" "same_on L heap_arena (mem s) (mem s')"
    "\<And>c. (unat (rf_data (ram_files s ! j)), c) \<in> user_live s \<Longrightarrow> (unat (rf_data (ram_files s ! j)), c) \<in> L"
    "ram_files s' ! j = ram_files s ! j"
  shows "file_bytes s' j = file_bytes s j"
proof -
  from assms(1,2) obtain c where c: "rf_size (ram_files s ! j) \<le> rf_capacity (ram_files s ! j)"
    "(unat (rf_data (ram_files s ! j)), c) \<in> user_live s" "unat (rf_capacity (ram_files s ! j)) \<le> c"
    by (auto simp: ramfs_ok_def blocks_ok_def)
  then have "unat (rf_size (ram_files s ! j)) \<le> c" by (simp add: word_le_nat_alt)
  moreover have "kernel_ok s" using assms(1) by (simp add: ramfs_ok_def)
  ultimately show ?thesis
    using bytes_at_same_on [OF assms(3) assms(4) [OF c(2)]] umalloc.live_top [OF _ c(2)]
    by (simp add: file_bytes_def assms(5))
qed

section \<open>Searches\<close>

lemma find_file_SomeD:
  assumes "ramfs_find_file name d s = Some i" "ramfs_ok s" "is_cstr name"
  shows "i \<in> taken (ram_files s)" "i < 64" "rf_parent_index (ram_files s ! i) = d"
    "cstr_of (rf_name (ram_files s ! i)) = name"
proof -
  have "length (ram_files s) = 64" using assms(2) by (simp add: ramfs_ok_def tree_ok_def)
  with find_upt_Some_D [OF assms(1) [unfolded ramfs_find_file_def]] assms(3)
  show "i \<in> taken (ram_files s)" "i < 64" "rf_parent_index (ram_files s ! i) = d"
    "cstr_of (rf_name (ram_files s ! i)) = name"
    by (simp_all add: taken_def MAX_FILES_def shell_strcmp_eq_0)
qed

lemma find_file_NoneD:
  assumes "ramfs_find_file name d s = None" "ramfs_ok s" "is_cstr name" "i \<in> taken (ram_files s)"
    "rf_parent_index (ram_files s ! i) = d"
  shows "cstr_of (rf_name (ram_files s ! i)) \<noteq> name"
proof -
  have "i < MAX_FILES" "rf_in_use (ram_files s ! i) \<noteq> 0"
    using assms(2,4) by (auto simp: ramfs_ok_def tree_ok_def taken_def MAX_FILES_def)
  with find_upt_None_D [OF assms(1) [unfolded ramfs_find_file_def], of i] assms(3,5)
  show ?thesis by (auto simp: shell_strcmp_eq_0)
qed

lemma find_free_SomeD:
  assumes "ramfs_find_free_slot s = Some k"
  shows "k < 64" "k \<notin> taken (ram_files s)"
  using find_upt_Some_D [OF assms [unfolded ramfs_find_free_slot_def]] by (auto simp: taken_def MAX_FILES_def)

lemma find_free_NoneD:
  assumes "ramfs_find_free_slot s = None" "ramfs_ok s"
  shows "taken (ram_files s) = {0..<64}"
  using find_upt_None_D [OF assms(1) [unfolded ramfs_find_free_slot_def]] assms(2)
  by (auto simp: taken_def MAX_FILES_def ramfs_ok_def tree_ok_def)

lemma find_file_cong:
  assumes "ram_files s' = ram_files s"
  shows "ramfs_find_file name d s' = ramfs_find_file name d s"
  using assms by (simp add: ramfs_find_file_def)

end
