(* ===== verification/RamfsOps.thy ===== *)
theory RamfsOps
  imports Ramfs
begin

text \<open>
  What the operations of the RAM file system do (\<open>ramfs_create\<close>, \<open>ramfs_delete\<close>,
  \<open>ramfs_write_file\<close>, \<open>ramfs_read_file\<close>, \<open>ramfs_get_current_path\<close>), case by case, and that each
  keeps \<open>ramfs_ok\<close>.  A theorem about one entry also says that the other entries and the bytes of
  the other files are as before.
\<close>

section \<open>Creating an entry\<close>

lemma name_copied:
  assumes "is_cstr name" "length buf = 32"
  shows "\<exists>nm. shell_strncpy buf name 31 = Some nm \<and> length nm = 32 \<and> cstr_of (nm[31 := 0]) = take 31 name \<and>
    0 \<in> set (nm[31 := 0])"
proof (cases "31 \<le> length name")
  case True
  let ?nm = "take 31 name @ drop 31 buf"
  have "shell_strncpy buf name (int 31) = Some ?nm" by (rule shell_strncpy_cut) (use True assms(2) in auto)
  moreover have "?nm[31 := 0] = take 31 name @ 0 # []"
    using True assms(2) by (intro nth_equalityI) (auto simp: nth_append nth_list_update)
  moreover have "cstr_of (take 31 name @ 0 # []) = take 31 name" by (intro takeWhile_nul_take is_cstr_take assms(1))
  ultimately show ?thesis using True assms(2) by auto
next
  case False
  let ?nm = "name @ replicate (32 - length name) 0 @ drop 32 buf"
  have "shell_strncpy buf name (int 31) = Some ?nm" using False assms(2) by (subst shell_strncpy_padded) auto
  moreover have rep: "replicate (32 - length name) (0 :: u8) = 0 # replicate (31 - length name) 0"
    using False by (simp flip: replicate_Suc add: Suc_diff_le)
  have "?nm[31 := 0] = name @ 0 # replicate (31 - length name) 0"
    using False assms(2) rep by (intro nth_equalityI) (auto simp: nth_append nth_list_update nth_Cons')
  moreover have "cstr_of (name @ 0 # replicate (31 - length name) 0) = name" by (rule cstr_of_pad [OF assms(1)])
  moreover have "length ?nm = 32" using False assms(2) by simp
  ultimately show ?thesis using False by (intro exI [of _ ?nm]) simp
qed

text \<open>What \<open>ramfs_create\<close> leaves when it took slot \<open>k\<close>, or ran out of memory with slot \<open>k\<close> in hand.\<close>

definition new_entry :: "u8 list \<Rightarrow> u32 \<Rightarrow> u32 \<Rightarrow> ram_file \<Rightarrow> bool" where
  "new_entry name d par f \<longleftrightarrow> length (rf_name f) = 32 \<and> 0 \<in> set (rf_name f) \<and> cstr_of (rf_name f) = take 31 name \<and>
     rf_is_directory f = d \<and> rf_parent_index f = par \<and> rf_in_use f = 1 \<and> rf_size f = 0 \<and>
     (if d = 0 then rf_capacity f = 256 \<and> rf_data f \<noteq> 0 else rf_capacity f = 0 \<and> rf_data f = 0)"

definition others_same :: "nat \<Rightarrow> 'a ram_fs_scheme \<Rightarrow> 'a ram_fs_scheme \<Rightarrow> bool" where
  "others_same k s s' \<longleftrightarrow> ram_current_dir s' = ram_current_dir s \<and> (\<forall>j < 64. j \<noteq> k \<longrightarrow> ram_files s' ! j = ram_files s ! j) \<and>
     (\<forall>j \<in> taken (ram_files s) - dirs (ram_files s). j \<noteq> k \<longrightarrow> file_bytes s' j = file_bytes s j)"

lemma others_sameI:
  assumes "ramfs_ok s" "ram_current_dir s' = ram_current_dir s" "ram_files s' = (ram_files s)[k := f]" "k < 64"
    "same_on L heap_arena (mem s) (mem s')"
    "\<And>j c. j \<in> taken (ram_files s) - dirs (ram_files s) \<Longrightarrow> j \<noteq> k \<Longrightarrow>
      (unat (rf_data (ram_files s ! j)), c) \<in> user_live s \<Longrightarrow> (unat (rf_data (ram_files s ! j)), c) \<in> L"
  shows "others_same k s s'"
proof -
  have "file_bytes s' j = file_bytes s j" if "j \<in> taken (ram_files s) - dirs (ram_files s)" "j \<noteq> k" for j
    using file_bytes_same [OF assms(1) that(1) assms(5) assms(6) [OF that]] assms(3) that(2) by simp
  with assms(2,3) show ?thesis by (simp add: others_same_def)
qed

lemma ramfs_ok_add:
  assumes "ramfs_ok s" "k < 64" "k \<notin> taken (ram_files s)" "new_entry name d (ram_current_dir s) f"
    "kernel_ok s'" "ram_initialized s' = ram_initialized s" "ram_files s' = (ram_files s)[k := f]"
    "ram_current_dir s' = ram_current_dir s" "ram_file_count s' = ram_file_count s + 1"
    "if d = 0 then \<exists>c \<ge> 256. user_live s' = insert (unat (rf_data f), c) (user_live s) \<and> unat (rf_data f) \<notin> fst ` user_live s
     else user_live s' = user_live s"
  shows "ramfs_ok s'"
proof -
  let ?fs = "ram_files s"
  have t: "tree_ok ?fs" "unat (ram_current_dir s) \<in> dirs ?fs" "blocks_ok ?fs (user_live s)" "length ?fs = 64"
    "ram_file_count s = of_nat (card (taken ?fs))"
    using assms(1) by (auto simp: ramfs_ok_def tree_ok_def)
  have f: "rf_in_use f \<noteq> 0" "rf_parent_index f = ram_current_dir s" "length (rf_name f) = 32" "0 \<in> set (rf_name f)"
    "rf_is_directory f = d" using assms(4) by (simp_all add: new_entry_def)
  have tree: "tree_ok (ram_files s')" unfolding assms(7) using t f by (intro tree_ok_add [OF t(1) assms(2,3)]) auto
  have "k \<notin> dirs ?fs" using assms(3) by (simp add: dirs_def)
  then have tk: "taken (ram_files s') = insert k (taken ?fs)" "dirs ?fs \<subseteq> dirs (ram_files s')"
    using assms(2,3,7) f t(4) by (auto simp: taken_upd dirs_upd)
  have "blocks_ok (ram_files s') (user_live s')"
    unfolding assms(7)
  proof (rule blocks_ok_upd [OF t(3)])
    show "rf_size f \<le> rf_capacity f \<and> unat (rf_capacity f) mod 256 = 0 \<and>
        (\<exists>c. (unat (rf_data f), c) \<in> user_live s' \<and> unat (rf_capacity f) \<le> c)"
      if "rf_is_directory f = 0" using that assms(4,10) f by (auto simp: new_entry_def)
    show "rf_data (?fs ! j) \<noteq> rf_data f" if "rf_is_directory f = 0" "j \<in> taken ?fs - dirs ?fs" for j
      using that t(3) assms(10) f(5) by (force simp: blocks_ok_def)
  qed (use assms(2,4,10) t(4) f in \<open>auto simp: new_entry_def split: if_splits\<close>)
  moreover have "finite (taken ?fs)" by (simp add: taken_def)
  then have "ram_file_count s' = of_nat (card (taken (ram_files s')))"
    using assms(3,9) t(5) tk(1) by (simp add: card_insert_disjoint add.commute)
  ultimately show ?thesis using tree tk(2) t(2) assms(1,5,6,8) by (auto simp: ramfs_ok_def)
qed

lemma ramfs_ok_untaken:
  assumes "ramfs_ok s" "k < 64" "k \<notin> taken (ram_files s)" "rf_in_use f = 0" "length (rf_name f) = 32" "0 \<in> set (rf_name f)"
    "kernel_ok s'" "ram_initialized s' = ram_initialized s" "ram_files s' = (ram_files s)[k := f]"
    "ram_current_dir s' = ram_current_dir s" "ram_file_count s' = ram_file_count s" "user_live s' = user_live s"
  shows "ramfs_ok s'" "taken (ram_files s') = taken (ram_files s)"
proof -
  let ?fs = "ram_files s"
  have t: "tree_ok ?fs" "blocks_ok ?fs (user_live s)" "length ?fs = 64" using assms(1) by (auto simp: ramfs_ok_def tree_ok_def)
  have "parent ?fs i \<noteq> k" if "i \<in> taken ?fs" for i using that t(1) assms(3) by (auto simp: tree_ok_def dirs_def)
  then have "tree_ok (ram_files s')" unfolding assms(9) by (rule tree_ok_remove [OF t(1) assms(2) _ assms(4-6)])
  moreover show tk: "taken (ram_files s') = taken ?fs" using assms(2-4,9) t(3) by (auto simp: taken_upd)
  have "k \<notin> dirs ?fs" using assms(3) by (simp add: dirs_def)
  then have "dirs (ram_files s') = dirs ?fs" using assms(2-4,9) t(3) by (simp add: dirs_upd)
  moreover have "blocks_ok (ram_files s') (user_live s')"
    unfolding assms(9,12) by (rule blocks_ok_upd [OF t(2)]) (use assms(2,4) t(3) in auto)
  ultimately show "ramfs_ok s'" using assms(1,7,8,10,11) tk by (simp add: ramfs_ok_def)
qed

definition data_made :: "u32 \<Rightarrow> nat \<Rightarrow> 'a ram_fs_scheme \<Rightarrow> 'a ram_fs_scheme \<Rightarrow> bool" where
  "data_made d k s s' \<longleftrightarrow> (\<exists>p cap.
     ram_files s' = (ram_files s)[k := (ram_files s ! k)\<lparr>rf_data := p, rf_capacity := cap, rf_size := 0\<rparr>] \<and>
     (if d = 0 then cap = 256 \<and> p \<noteq> 0 \<and>
        (\<exists>c \<ge> 256. user_live s' = insert (unat p, c) (user_live s) \<and> unat p \<notin> fst ` user_live s)
      else cap = 0 \<and> p = 0 \<and> user_live s' = user_live s))"

definition ram_frame :: "'a ram_fs_scheme \<Rightarrow> 'a ram_fs_scheme \<Rightarrow> bool" where
  "ram_frame s s' \<longleftrightarrow> ram_initialized s' = ram_initialized s \<and> ram_current_dir s' = ram_current_dir s \<and>
     ram_file_count s' = ram_file_count s \<and> same_on (user_live s) heap_arena (mem s) (mem s')"

lemma create_data_ok:
  assumes "kernel_ok s" "k < length (ram_files s)"
  shows "\<exists>ok s'. create_data e k d s = Some (ok, s') \<and> kernel_ok s' \<and> ram_frame s s' \<and>
    (if ok then data_made d k s s'
     else d = 0 \<and> ram_files s' = (ram_files s)[k := (ram_files s ! k)\<lparr>rf_data := 0\<rparr>] \<and> user_live s' = user_live s)"
proof (cases "d = 0")
  case False
  then show ?thesis using assms
    by (intro exI [of _ True]) (simp add: create_data_def data_made_def ram_frame_def same_on_def Let_def)
next
  case True
  from umalloc_call [OF assms(1), of 256 e] obtain p s1 where s1: "sys_malloc e 256 s = Some (p, s1)" "kernel_ok s1"
    "client_frame s s1" "same_on (user_live s) heap_arena (mem s) (mem s1)"
    "if p = 0 then user_live s1 = user_live s
     else unat p \<notin> fst ` user_live s \<and> (\<exists>k \<ge> unat (256 :: u32). user_live s1 = insert (unat p, k) (user_live s))"
    by auto
  note ram = client_ram [OF s1(3)]
  show ?thesis
  proof (cases "p = 0")
    case p: True
    then show ?thesis using True s1 ram
      by (intro exI [of _ False]) (simp add: create_data_def ram_frame_def Let_def)
  next
    case p: False
    with s1(5) obtain c where c: "unat p \<notin> fst ` user_live s" "256 \<le> c" "user_live s1 = insert (unat p, c) (user_live s)"
      by auto
    let ?f = "(ram_files s ! k)\<lparr>rf_data := p, rf_capacity := 256, rf_size := 0\<rparr>"
    let ?s2 = "set_rfile k ?f s1"
    let ?m = "(mem s1)(p := 0)"
    have blk: "(unat p, c) \<in> user_live ?s2" "kernel_ok ?s2" using c(3) s1(2) by simp_all
    have out: "?m a = mem ?s2 a" if "unat a \<notin> payload (unat p, c)" for a
      using that c(2) by (auto simp: payload_def)
    note w = umalloc.write_spec [where m = ?m, OF blk(2,1) out] umalloc.write_others [where m = ?m, OF blk(2,1) out]
    have "user_live s \<subseteq> user_live ?s2 - {(unat p, c)}" using c by force
    from same_on_trans [OF s1(4) _ this] w(2) have "same_on (user_live s) heap_arena (mem s) ?m" by simp
    moreover have "create_data e k d s = Some (True, set_mem ?m ?s2)"
      using True p s1(1) ram assms(2) by (simp add: create_data_def Let_def set_rfile_def set_mem_def)
    moreover have "data_made d k s (set_mem ?m ?s2)"
      unfolding data_made_def using True p c w(1) ram
      by (intro exI [of _ p] exI [of _ 256]) (auto intro!: exI [of _ c])
    ultimately show ?thesis using w(1) ram by (intro exI [of _ True]) (simp add: ram_frame_def)
  qed
qed

lemma ramfs_create_free:
  assumes ok: "ramfs_ok s" and name: "is_cstr name" and new: "ramfs_find_file name (ram_current_dir s) s = None"
    and free: "ramfs_find_free_slot s = Some k"
  shows "\<exists>r s'. ramfs_create e name d s = Some (r, s') \<and> ramfs_ok s' \<and> others_same k s s' \<and>
    (r = - 3 \<and> d = 0 \<and> taken (ram_files s') = taken (ram_files s) \<or>
     r = int k \<and> new_entry name d (ram_current_dir s) (ram_files s' ! k))"
proof -
  note k = find_free_SomeD [OF free]
  have s: "kernel_ok s" "ram_initialized s \<noteq> 0" "length (ram_files s) = 64" "length (rf_name (ram_files s ! k)) = 32"
    using ok k(1) by (auto simp: ramfs_ok_def tree_ok_def)
  from name_copied [OF name s(4)] obtain nm where nm: "shell_strncpy (rf_name (ram_files s ! k)) name 31 = Some nm"
    "length nm = 32" "cstr_of (nm[31 := 0]) = take 31 name" "0 \<in> set (nm[31 := 0])" by blast
  let ?f = "(ram_files s ! k)\<lparr>rf_name := nm[31 := 0]\<rparr>"
  let ?s0 = "set_rfile k ?f s"
  from create_data_ok [of ?s0 k e d] s(1,3) k(1) obtain b s1 where s1: "create_data e k d ?s0 = Some (b, s1)"
    "kernel_ok s1" "ram_frame ?s0 s1" "if b then data_made d k ?s0 s1 else d = 0 \<and>
      ram_files s1 = (ram_files ?s0)[k := (ram_files ?s0 ! k)\<lparr>rf_data := 0\<rparr>] \<and> user_live s1 = user_live ?s0"
    by auto
  have ram: "ram_initialized s1 = ram_initialized s" "ram_current_dir s1 = ram_current_dir s"
    "ram_file_count s1 = ram_file_count s" "same_on (user_live s) heap_arena (mem s) (mem s1)"
    using s1(3) by (simp_all add: ram_frame_def)
  have start: "ramfs_create e name d s = (if \<not> b then Some (- 3, s1) else do {
      let s2 = set_rfile k ((ram_files s1 ! k)\<lparr>rf_is_directory := d, rf_parent_index := ram_current_dir s1, rf_in_use := 1\<rparr>) s1;
      (t, s3) \<leftarrow> syscall_time e s2;
      let s4 = set_rfile k ((ram_files s3 ! k)\<lparr>rf_created_time := t\<rparr>) s3;
      Some (int k, s4\<lparr>ram_file_count := ram_file_count s4 + 1\<rparr>) })"
    using s(2) new free nm(1,2) s1(1) by (simp add: ramfs_create_def MAX_FILENAME_LEN_def)
  show ?thesis
  proof (cases b)
    case False
    let ?g = "?f\<lparr>rf_data := 0\<rparr>"
    have fs: "ram_files s1 = (ram_files s)[k := ?g]" "user_live s1 = user_live s" "d = 0"
      using s1(4) False s(3) k(1) by simp_all
    have "rf_in_use ?g = 0" using k s(3) by (simp add: taken_def)
    from ramfs_ok_untaken [OF ok k this _ _ s1(2) ram(1) fs(1) ram(2,3) fs(2)] nm(2,4)
    have "ramfs_ok s1" "taken (ram_files s1) = taken (ram_files s)" by simp_all
    moreover have "others_same k s s1" by (rule others_sameI [OF ok ram(2) fs(1) k(1) ram(4)])
    ultimately show ?thesis using start False fs(3) by auto
  next
    case True
    with s1(4) have "data_made d k ?s0 s1" by simp
    moreover have "(ram_files s)[k := ?f] ! k = ?f" using s(3) k(1) by simp
    ultimately obtain p cap where dm: "ram_files s1 = (ram_files s)[k := ?f\<lparr>rf_data := p, rf_capacity := cap, rf_size := 0\<rparr>]"
      "if d = 0 then cap = 256 \<and> p \<noteq> 0 \<and>
         (\<exists>c \<ge> 256. user_live s1 = insert (unat p, c) (user_live s) \<and> unat p \<notin> fst ` user_live s)
       else cap = 0 \<and> p = 0 \<and> user_live s1 = user_live s"
      unfolding data_made_def set_rfile_frame list_update_overwrite by force
    let ?s2 = "set_rfile k ((ram_files s1 ! k)\<lparr>rf_is_directory := d, rf_parent_index := ram_current_dir s1, rf_in_use := 1\<rparr>) s1"
    from utime_call [of ?s2 e] s1(2) obtain t s3 where s3: "syscall_time e ?s2 = Some (t, s3)" "kernel_ok s3"
      "client_frame ?s2 s3" "mem s3 = mem s1" "user_live s3 = user_live s1" by auto
    note ram3 = client_ram [OF s3(3)]
    let ?g = "?f\<lparr>rf_data := p, rf_capacity := cap, rf_size := 0, rf_is_directory := d,
      rf_parent_index := ram_current_dir s, rf_in_use := 1, rf_created_time := t\<rparr>"
    let ?s4 = "(set_rfile k ?g s3)\<lparr>ram_file_count := ram_file_count s3 + 1\<rparr>"
    have fin: "ramfs_create e name d s = Some (int k, ?s4)"
      using start True s3(1) ram3(1) dm(1) ram(2) s(3) k(1) by (simp add: set_rfile_def)
    have fs4: "ram_files ?s4 = (ram_files s)[k := ?g]" using ram3(1) dm(1) s(3) k(1) by simp
    have entry: "new_entry name d (ram_current_dir s) ?g"
      using nm dm(2) by (auto simp: new_entry_def split: if_splits)
    have "ramfs_ok ?s4"
    proof (rule ramfs_ok_add [OF ok k entry _ _ fs4])
      show "if d = 0 then \<exists>c\<ge>256. user_live ?s4 = insert (unat (rf_data ?g), c) (user_live s) \<and>
          unat (rf_data ?g) \<notin> fst ` user_live s else user_live ?s4 = user_live s"
        using dm(2) s3(5) by (auto split: if_splits)
    qed (use ram3 ram s3(2) in simp_all)
    moreover have "others_same k s ?s4"
      by (rule others_sameI [OF ok _ fs4 k(1), of "user_live s"]) (use ram ram3 s3(4) in simp_all)
    ultimately show ?thesis using fin entry fs4 s(3) k(1) by auto
  qed
qed

section \<open>Deleting an entry\<close>

lemma ramfs_ok_remove:
  assumes "ramfs_ok s" "k \<in> taken (ram_files s)" "\<And>i. i \<in> taken (ram_files s) \<Longrightarrow> parent (ram_files s) i \<noteq> k"
    "unat (ram_current_dir s) \<noteq> k"
    "kernel_ok s'" "ram_initialized s' = ram_initialized s" "ram_files s' = (ram_files s)[k := zero_ram_file]"
    "ram_current_dir s' = ram_current_dir s" "ram_file_count s' = ram_file_count s - 1"
    "\<And>j c. j \<in> taken (ram_files s) - dirs (ram_files s) \<Longrightarrow> j \<noteq> k \<Longrightarrow>
      (unat (rf_data (ram_files s ! j)), c) \<in> user_live s \<Longrightarrow> (unat (rf_data (ram_files s ! j)), c) \<in> user_live s'"
  shows "ramfs_ok s'" "taken (ram_files s') = taken (ram_files s) - {k}"
proof -
  let ?fs = "ram_files s"
  have t: "tree_ok ?fs" "blocks_ok ?fs (user_live s)" "length ?fs = 64" "ram_file_count s = of_nat (card (taken ?fs))"
    using assms(1) by (auto simp: ramfs_ok_def tree_ok_def)
  have k: "k < 64" using taken_less [OF t(1) assms(2)] .
  have z: "rf_in_use zero_ram_file = 0" "length (rf_name zero_ram_file) = 32" "0 \<in> set (rf_name zero_ram_file)"
    by (simp_all add: zero_ram_file_def MAX_FILENAME_LEN_def)
  have tree: "tree_ok (ram_files s')" unfolding assms(7) by (rule tree_ok_remove [OF t(1) k assms(3) z])
  show tk: "taken (ram_files s') = taken ?fs - {k}" using k t(3) z by (simp add: assms(7) taken_upd)
  have dk: "dirs (ram_files s') = dirs ?fs - {k}" using k t(3) z by (simp add: assms(7) dirs_upd)
  have "blocks_ok (ram_files s') (user_live s')"
    unfolding assms(7) by (rule blocks_ok_upd [OF t(2)]) (use k t(3) z assms(10) in auto)
  moreover have "ram_file_count s' = of_nat (card (taken (ram_files s')))"
  proof -
    have fin: "finite (taken ?fs)" by (simp add: taken_def)
    then have "0 < card (taken ?fs)" using assms(2) by (auto simp: card_gt_0_iff)
    then show ?thesis using assms(2,9) t(4) fin by (simp add: tk card_Diff_singleton of_nat_diff)
  qed
  ultimately show "ramfs_ok s'" using tree dk assms(1,4-6,8) by (simp add: ramfs_ok_def)
qed

text \<open>Entries with children, which are the directories in use, are refused; the root is its own child.\<close>

definition has_child :: "ram_file list \<Rightarrow> nat \<Rightarrow> bool" where
  "has_child fs k \<longleftrightarrow> (\<exists>i \<in> taken fs. parent fs i = k)"

lemma has_child_code:
  assumes "length fs = 64" "k < 64"
  shows "(\<exists>i \<in> set [0..<MAX_FILES]. rf_in_use (fs ! i) \<noteq> 0 \<and> rf_parent_index (fs ! i) = of_nat k) = has_child fs k"
proof -
  have "rf_parent_index f = of_nat k \<longleftrightarrow> unat (rf_parent_index f) = k" for f :: ram_file
    using assms(2) unat_of_nat_u32 [of k] by (auto simp: word_unat_eq_iff)
  with assms show ?thesis by (auto simp: has_child_def taken_def parent_def MAX_FILES_def)
qed

lemma has_child_dir: "tree_ok fs \<Longrightarrow> has_child fs k \<Longrightarrow> k \<in> dirs fs"
  by (auto simp: has_child_def tree_ok_def)

lemma ramfs_delete_cases:
  assumes ok: "ramfs_ok s" and name: "is_cstr name" and k: "ramfs_find_file name (ram_current_dir s) s = Some k"
  shows "if has_child (ram_files s) k then ramfs_delete e name s = Some (- 2, s)
    else \<exists>s'. ramfs_delete e name s = Some (0, s') \<and> ramfs_ok s' \<and> others_same k s s' \<and>
      taken (ram_files s') = taken (ram_files s) - {k}"
proof -
  let ?fs = "ram_files s" and ?p = "rf_data (ram_files s ! k)"
  note f = find_file_SomeD [OF k ok name]
  have s: "kernel_ok s" "tree_ok ?fs" "length ?fs = 64" "blocks_ok ?fs (user_live s)"
    using ok by (auto simp: ramfs_ok_def tree_ok_def)
  note child = has_child_code [OF s(3) f(2)]
  show ?thesis
  proof (cases "has_child ?fs k")
    case True
    then have "rf_is_directory (?fs ! k) \<noteq> 0" using has_child_dir [OF s(2)] by (simp add: dirs_def)
    with True child show ?thesis by (simp add: ramfs_delete_def k)
  next
    case False
    then have np: "parent ?fs i \<noteq> k" if "i \<in> taken ?fs" for i using that by (auto simp: has_child_def)
    have cur: "unat (ram_current_dir s) \<noteq> k" using np [OF f(1)] f(3) by (simp add: parent_def)
    have "\<exists>s1. (if ?p \<noteq> 0 then do { (r, s1) \<leftarrow> sys_free e ?p s; Some s1 } else Some s) = Some s1 \<and>
      kernel_ok s1 \<and> client_frame s s1 \<and> same_on {b \<in> user_live s. fst b \<noteq> unat ?p} heap_arena (mem s) (mem s1) \<and>
      {b \<in> user_live s. fst b \<noteq> unat ?p} \<subseteq> user_live s1"
    proof (cases "?p = 0")
      case True
      then show ?thesis using s(1) by (auto simp: same_on_def)
    next
      case p: False
      with s(4) f(1) have "k \<in> taken ?fs - dirs ?fs" by (auto simp: blocks_ok_def)
      with s(4) obtain c where "(unat ?p, c) \<in> user_live s" by (auto simp: blocks_ok_def)
      from ufree_call [OF s(1) this, of e] p same_on_mono [of "user_live s"] show ?thesis by fastforce
    qed
    then obtain s1 where s1: "(if ?p \<noteq> 0 then do { (r, s1) \<leftarrow> sys_free e ?p s; Some s1 } else Some s) = Some s1"
      "kernel_ok s1" "client_frame s s1" "same_on {b \<in> user_live s. fst b \<noteq> unat ?p} heap_arena (mem s) (mem s1)"
      "{b \<in> user_live s. fst b \<noteq> unat ?p} \<subseteq> user_live s1" by blast
    note ram = client_ram [OF s1(3)]
    let ?s2 = "(set_rfile k zero_ram_file s1)\<lparr>ram_file_count := ram_file_count s1 - 1\<rparr>"
    have fin: "ramfs_delete e name s = Some (0, ?s2)"
      using False s1(1) child by (simp add: ramfs_delete_def k)
    have keep: "(unat (rf_data (?fs ! j)), c) \<in> {b \<in> user_live s. fst b \<noteq> unat ?p}"
      if j: "j \<in> taken ?fs - dirs ?fs" "j \<noteq> k" "(unat (rf_data (?fs ! j)), c) \<in> user_live s" for j c
    proof (cases "k \<in> dirs ?fs")
      case True
      then have "?p = 0" using s(4) by (simp add: blocks_ok_def)
      then show ?thesis using j(3) umalloc.live_arena [OF s(1) j(3)] by simp
    next
      case False
      then have "rf_data (?fs ! j) \<noteq> ?p" using s(4) f(1) j(1,2) by (auto simp: blocks_ok_def dest: inj_onD)
      then show ?thesis using j(3) by (simp add: word_unat_eq_iff)
    qed
    have fs2: "ram_files ?s2 = ?fs[k := zero_ram_file]" using ram by simp
    have "ramfs_ok ?s2" "taken (ram_files ?s2) = taken ?fs - {k}"
      by (rule ramfs_ok_remove [OF ok f(1) np cur _ _ fs2]; use ram s1(2,5) keep in force)+
    moreover have "others_same k s ?s2"
      by (rule others_sameI [OF ok _ fs2 f(2) _ keep]) (use ram s1(4) in simp_all)
    ultimately show ?thesis using fin False by auto
  qed
qed

end
