(* ===== verification/RamfsData.thy ===== *)
theory RamfsData
  imports RamfsOps
begin

text \<open>
  Reading, writing and naming files of the RAM file system: \<open>ramfs_write_file\<close> with the growth of
  its buffer, \<open>ramfs_read_file\<close>, the round trip of the two, and \<open>ramfs_get_current_path\<close>.
\<close>

section \<open>Copies between arrays and memory\<close>

lemma copy_out_loop:
  "n \<le> 2 ^ 32 \<Longrightarrow> fold (\<lambda>i m. m(dest + of_nat i := src ! i)) [0..<n] m =
    (\<lambda>b. if b \<in> region dest n then src ! unat (b - dest) else m b)"
proof (induction n)
  case 0
  then show ?case by simp
next
  case (Suc n)
  have IH: "fold (\<lambda>i m. m(dest + of_nat i := src ! i)) [0..<n] m =
    (\<lambda>b. if b \<in> region dest n then src ! unat (b - dest) else m b)" using Suc.prems by (intro Suc.IH) simp
  have "region dest (Suc n) = insert (dest + of_nat n) (region dest n)" by (auto simp: region_def less_Suc_eq)
  moreover have "dest + of_nat n \<notin> region dest n" using Suc.prems by (auto simp: region_def of_nat_u32_eq_iff)
  moreover have "unat (of_nat n :: u32) = n" using Suc.prems by (intro unat_of_nat_u32) simp
  ultimately have "fold (\<lambda>i m. m(dest + of_nat i := src ! i)) [0..<Suc n] m b =
      (if b \<in> region dest (Suc n) then src ! unat (b - dest) else m b)" for b
    by (cases "b = dest + of_nat n") (simp_all add: IH)
  then show ?case by (rule ext)
qed

lemma memcpy_out_ok:
  assumes "unat n \<le> length src"
  shows "\<exists>m'. shell_memcpy_out m dest src n = Some m' \<and> (\<forall>b. b \<notin> region dest (unat n) \<longrightarrow> m' b = m b) \<and>
    bytes_at m' dest (unat n) = take (unat n) src"
proof -
  have le: "unat n \<le> 2 ^ 32" using unat_u32_less [of n] by simp
  let ?m = "fold (\<lambda>i m. m(dest + of_nat i := src ! i)) [0..<unat n] m"
  have "?m (dest + of_nat i) = src ! i" if i: "i < unat n" for i
    using i le unat_of_nat_u32 [of i] unfolding copy_out_loop [OF le] by (auto simp: region_mem)
  then have "bytes_at ?m dest (unat n) = take (unat n) src" using assms by (intro nth_equalityI) simp_all
  moreover have "?m b = m b" if "b \<notin> region dest (unat n)" for b using that unfolding copy_out_loop [OF le] by simp
  ultimately show ?thesis using assms by (simp add: shell_memcpy_out_def)
qed

lemma bytes_at_Suc: "bytes_at m p (Suc n) = bytes_at m p n @ [m (p + of_nat n)]"
  by (simp add: bytes_at_def)

lemma memcpy_in_ok:
  "unat n \<le> length dest \<Longrightarrow> shell_memcpy_in dest m src n = Some (bytes_at m src (unat n) @ drop (unat n) dest)"
proof -
  have "foldM (\<lambda>i d. arr_set d (int i) (m (src + of_nat i))) [0..<k] dest = Some (bytes_at m src k @ drop k dest)"
    if "k \<le> length dest" for k
    using that
  proof (induction k)
    case 0
    then show ?case by (simp add: bytes_at_def)
  next
    case (Suc k)
    then have "foldM (\<lambda>i d. arr_set d (int i) (m (src + of_nat i))) [0..<k] dest = Some (bytes_at m src k @ drop k dest)"
      by simp
    then show ?case
      using Suc.prems by (simp add: foldM_append bytes_at_Suc list_update_append Cons_nth_drop_Suc [symmetric])
  qed
  then show "unat n \<le> length dest \<Longrightarrow> ?thesis" by (simp add: shell_memcpy_in_def)
qed

section \<open>Growing a file\<close>

lemma SYSCALL_INT_frame:
  assumes "tables_set s" "SYSCALL_INT e r s = Some (x, s')"
  shows "syscall_frame s s'"
proof -
  have "length (g_ISRHandlers s) = 256" "g_ISRHandlers s ! 0x80 = Some ISR_syscall"
    using assms(1) by (simp_all add: tables_set_def)
  with assms(2) obtain t where t: "syscall_frame (s\<lparr>interrupts_on := False\<rparr>) t"
    "s' = (if halted t then t else t\<lparr>interrupts_on := interrupts_on s\<rparr>)"
    by (auto simp: SYSCALL_INT_def isr_common_def i686_ISR_Handler_def run_isr_def syscall_handler_def
        split: Option.bind_splits dest!: sframe_dispatch)
  from t(1) have "syscall_frame s t" by (rule sframe_trans [OF sframe_upd(5) [OF sframe_refl]])
  then show ?thesis using t(2) by (simp add: sframe)
qed

lemma sys_free_ram:
  fixes s s' :: "'a ram_fs_scheme"
  assumes "tables_set s" "sys_free e p s = Some (r, s')"
  shows "ram_files s' = ram_files s" "ram_file_count s' = ram_file_count s"
    "ram_current_dir s' = ram_current_dir s" "ram_initialized s' = ram_initialized s"
proof -
  have "syscall_frame s s'"
    using assms by (auto simp: sys_free_def SYSCALL1_def intro: SYSCALL_INT_frame)
  then have "ksys.more s' = ksys.more s" by (simp add: syscall_frame_def)
  from more_ram [OF this] show "ram_files s' = ram_files s" "ram_file_count s' = ram_file_count s"
    "ram_current_dir s' = ram_current_dir s" "ram_initialized s' = ram_initialized s" by simp_all
qed

lemma round_block:
  fixes sz :: u32
  assumes "unat sz \<le> 0xFFFFFF00" "sz \<noteq> 0"
  defines "n \<equiv> (sz + 255) div 256 * 256"
  shows "sz \<le> n" "n \<noteq> 0" "n \<le> 0xFFFFFFE0" "unat n mod 256 = 0"
proof -
  have "unat (sz + 255) = unat sz + 255" using assms(1) by (simp add: unat_word_ariths)
  then have d: "unat ((sz + 255) div 256) = (unat sz + 255) div 256" by (simp add: unat_div)
  have e: "unat sz \<le> (unat sz + 255) div 256 * 256" "(unat sz + 255) div 256 * 256 \<le> 0xFFFFFF00"
    using minus_mod_eq_div_mult [of "unat sz + 255" 256] mod_less_divisor [of 256 "unat sz + 255"]
      div_le_mono [of "unat sz + 255" "0xFFFFFFFF" 256] assms(1) by simp_all
  then have u: "unat n = (unat sz + 255) div 256 * 256"
    unfolding n_def by (simp only: unat_word_ariths(2) d) simp
  have "0 < unat sz" using assms(2) by (simp add: unat_gt_0)
  with u e show "sz \<le> n" "n \<noteq> 0" "n \<le> 0xFFFFFFE0" "unat n mod 256 = 0"
    by (auto simp: word_le_nat_alt unat_eq_0 [symmetric] simp del: unat_eq_0)
qed

lemma ramfs_ok_data:
  assumes "ramfs_ok s" "k \<in> taken (ram_files s) - dirs (ram_files s)"
    "ram_files s' = (ram_files s)[k := (ram_files s ! k)\<lparr>rf_data := p, rf_size := z, rf_capacity := cap\<rparr>]"
    "kernel_ok s'" "ram_initialized s' = ram_initialized s" "ram_current_dir s' = ram_current_dir s"
    "ram_file_count s' = ram_file_count s" "z \<le> cap" "unat cap mod 256 = 0" "(unat p, c) \<in> user_live s'" "unat cap \<le> c"
    "\<And>j c. j \<in> taken (ram_files s) - dirs (ram_files s) \<Longrightarrow> j \<noteq> k \<Longrightarrow>
      (unat (rf_data (ram_files s ! j)), c) \<in> user_live s \<Longrightarrow> (unat (rf_data (ram_files s ! j)), c) \<in> user_live s'"
    "\<And>j. j \<in> taken (ram_files s) - dirs (ram_files s) \<Longrightarrow> j \<noteq> k \<Longrightarrow> rf_data (ram_files s ! j) \<noteq> p"
  shows "ramfs_ok s'" "taken (ram_files s') = taken (ram_files s)" "dirs (ram_files s') = dirs (ram_files s)"
proof -
  have t: "tree_ok (ram_files s)" "blocks_ok (ram_files s) (user_live s)" "length (ram_files s) = 64"
    using assms(1) by (auto simp: ramfs_ok_def tree_ok_def)
  have k: "k < 64" using taken_less [OF t(1)] assms(2) by blast
  note tree = tree_ok_data [OF t(1) k, where f = "(ram_files s ! k)\<lparr>rf_data := p, rf_size := z, rf_capacity := cap\<rparr>"]
  show "taken (ram_files s') = taken (ram_files s)" "dirs (ram_files s') = dirs (ram_files s)"
    unfolding assms(3) by (rule tree; simp)+
  moreover have "blocks_ok (ram_files s') (user_live s')"
    unfolding assms(3)
  proof (rule blocks_ok_upd [OF t(2)])
    show "rf_data ((ram_files s ! k)\<lparr>rf_data := p, rf_size := z, rf_capacity := cap\<rparr>) = 0"
      if "rf_in_use ((ram_files s ! k)\<lparr>rf_data := p, rf_size := z, rf_capacity := cap\<rparr>) \<noteq> 0"
        "rf_is_directory ((ram_files s ! k)\<lparr>rf_data := p, rf_size := z, rf_capacity := cap\<rparr>) \<noteq> 0"
      using that assms(2) by (auto simp: dirs_def)
  qed (use assms(8-13) k t(3) in auto)
  moreover have "tree_ok (ram_files s')" unfolding assms(3) by (rule tree; simp)
  ultimately show "ramfs_ok s'" using assms(1,4-7) by (simp add: ramfs_ok_def)
qed

lemma file_block:
  assumes "ramfs_ok s" "k \<in> taken (ram_files s) - dirs (ram_files s)"
  shows "\<exists>c. (unat (rf_data (ram_files s ! k)), c) \<in> user_live s \<and> unat (rf_capacity (ram_files s ! k)) \<le> c \<and>
    rf_size (ram_files s ! k) \<le> rf_capacity (ram_files s ! k) \<and> unat (rf_capacity (ram_files s ! k)) mod 256 = 0 \<and>
    rf_data (ram_files s ! k) \<noteq> 0"
proof -
  from assms obtain c where c: "(unat (rf_data (ram_files s ! k)), c) \<in> user_live s" "unat (rf_capacity (ram_files s ! k)) \<le> c"
    "rf_size (ram_files s ! k) \<le> rf_capacity (ram_files s ! k)" "unat (rf_capacity (ram_files s ! k)) mod 256 = 0"
    by (auto simp: ramfs_ok_def blocks_ok_def)
  have "kernel_ok s" using assms(1) by (simp add: ramfs_ok_def)
  from umalloc.live_arena [OF this c(1)] have "0 < unat (rf_data (ram_files s ! k))" by blast
  then have "rf_data (ram_files s ! k) \<noteq> 0" by (simp add: unat_gt_0)
  with c show ?thesis by (intro exI [of _ c] conjI)
qed

lemma other_data:
  assumes "ramfs_ok s" "k \<in> taken (ram_files s) - dirs (ram_files s)" "j \<in> taken (ram_files s) - dirs (ram_files s)" "j \<noteq> k"
  shows "rf_data (ram_files s ! j) \<noteq> rf_data (ram_files s ! k)"
  using assms by (auto simp: ramfs_ok_def blocks_ok_def dest: inj_onD)

lemma others_same_trans:
  assumes "others_same k s s1" "others_same k s1 s2" "taken (ram_files s1) - {k} = taken (ram_files s) - {k}"
    "length (ram_files s) = 64"
  shows "others_same k s s2"
proof -
  have "j \<in> dirs (ram_files s1) \<longleftrightarrow> j \<in> dirs (ram_files s)" if "j \<in> taken (ram_files s)" "j \<noteq> k" for j
  proof -
    have "j < 64" using that(1) assms(4) by (simp add: taken_def)
    then have "ram_files s1 ! j = ram_files s ! j" using assms(1) that(2) by (simp add: others_same_def)
    then show ?thesis using that assms(3) by (auto simp: dirs_def)
  qed
  with assms(1-3) show ?thesis unfolding others_same_def by (metis (no_types, lifting) DiffD1 DiffD2 DiffI singletonD)
qed

text \<open>What a call on file \<open>k\<close> keeps: the shape of the tree and everything about the other files.\<close>

definition same_tree :: "nat \<Rightarrow> 'a ram_fs_scheme \<Rightarrow> 'a ram_fs_scheme \<Rightarrow> bool" where
  "same_tree k s s' \<longleftrightarrow> others_same k s s' \<and> taken (ram_files s') = taken (ram_files s) \<and>
     dirs (ram_files s') = dirs (ram_files s) \<and> rf_name (ram_files s' ! k) = rf_name (ram_files s ! k) \<and>
     rf_parent_index (ram_files s' ! k) = rf_parent_index (ram_files s ! k)"

lemma same_tree_trans:
  assumes "same_tree k s s1" "same_tree k s1 s2" "length (ram_files s) = 64"
  shows "same_tree k s s2"
  using assms others_same_trans [of k s s1 s2] by (simp add: same_tree_def)

lemma same_treeI:
  assumes "ramfs_ok s" "k \<in> taken (ram_files s) - dirs (ram_files s)"
    "ram_files s' = (ram_files s)[k := (ram_files s ! k)\<lparr>rf_data := p, rf_size := z, rf_capacity := cap\<rparr>]"
    "kernel_ok s'" "ram_initialized s' = ram_initialized s" "ram_current_dir s' = ram_current_dir s"
    "ram_file_count s' = ram_file_count s" "z \<le> cap" "unat cap mod 256 = 0" "(unat p, c) \<in> user_live s'" "unat cap \<le> c"
    "\<And>j c. j \<in> taken (ram_files s) - dirs (ram_files s) \<Longrightarrow> j \<noteq> k \<Longrightarrow>
      (unat (rf_data (ram_files s ! j)), c) \<in> user_live s \<Longrightarrow> (unat (rf_data (ram_files s ! j)), c) \<in> L"
    "\<And>j. j \<in> taken (ram_files s) - dirs (ram_files s) \<Longrightarrow> j \<noteq> k \<Longrightarrow> rf_data (ram_files s ! j) \<noteq> p"
    "same_on L heap_arena (mem s) (mem s')" "L \<subseteq> user_live s'"
  shows "ramfs_ok s'" "same_tree k s s'"
proof -
  have k: "k < 64" "length (ram_files s) = 64" using assms(1,2) by (auto simp: ramfs_ok_def tree_ok_def taken_def)
  note r = ramfs_ok_data [OF assms(1-11) _ assms(13)]
  show "ramfs_ok s'" using assms(12,15) by (intro r) blast
  have "taken (ram_files s') = taken (ram_files s)" "dirs (ram_files s') = dirs (ram_files s)"
    using assms(12,15) by (intro r; blast)+
  moreover have "others_same k s s'" by (rule others_sameI [OF assms(1,6,3) k(1) assms(14) assms(12)])
  ultimately show "same_tree k s s'" using assms(3) k by (simp add: same_tree_def)
qed

lemma write_expand_ok:
  assumes ok: "ramfs_ok s" and k: "k \<in> taken (ram_files s) - dirs (ram_files s)" and sz: "unat sz \<le> 0xFFFFFF00"
  shows "\<exists>b s'. write_expand e k sz s = Some (b, s') \<and> ramfs_ok s' \<and> same_tree k s s' \<and>
    file_bytes s' k = file_bytes s k \<and> (b \<longrightarrow> sz \<le> rf_capacity (ram_files s' ! k))"
proof (cases "sz > rf_capacity (ram_files s ! k)")
  case False
  moreover have "same_tree k s s" by (simp add: same_tree_def others_same_def)
  ultimately show ?thesis using ok by (intro exI [of _ True] exI [of _ s]) (simp add: write_expand_def)
next
  case True
  let ?f = "ram_files s ! k" and ?n = "(sz + 255) div 256 * 256"
  have s: "kernel_ok s" "length (ram_files s) = 64" using ok by (simp_all add: ramfs_ok_def tree_ok_def)
  have k64: "k < 64" using k s(2) by (auto simp: taken_def)
  from file_block [OF ok k] obtain c where c: "(unat (rf_data ?f), c) \<in> user_live s" "unat (rf_capacity ?f) \<le> c"
    "rf_size ?f \<le> rf_capacity ?f" "unat (rf_capacity ?f) mod 256 = 0" "rf_data ?f \<noteq> 0" by (elim exE conjE)
  have "sz \<noteq> 0" using True by auto
  note n = round_block [OF sz this]
  from umalloc_call [OF s(1) n(2,3), of e] obtain q s1 where s1: "sys_malloc e ?n s = Some (q, s1)" "kernel_ok s1"
    "client_frame s s1" "same_on (user_live s) heap_arena (mem s) (mem s1)"
    "if q = 0 then user_live s1 = user_live s
     else unat q \<notin> fst ` user_live s \<and> (\<exists>k \<ge> unat ?n. user_live s1 = insert (unat q, k) (user_live s))"
    by blast
  note ram = client_ram [OF s1(3)]
  show ?thesis
  proof (cases "q = 0")
    case q: True
    have fs: "ram_files s1 = (ram_files s)[k := ?f\<lparr>rf_data := rf_data ?f, rf_size := rf_size ?f, rf_capacity := rf_capacity ?f\<rparr>]"
      using ram by simp
    have "ramfs_ok s1" "same_tree k s s1"
      by (rule same_treeI [OF ok k fs s1(2) ram(4,3,2) c(3,4) _ c(2) _ other_data [OF ok k] s1(4)]; use c(1) s1(5) q in simp)+
    moreover have "file_bytes s1 k = file_bytes s k" by (rule file_bytes_same [OF ok k s1(4)]) (simp_all add: ram)
    ultimately show ?thesis using True q s1(1) by (intro exI [of _ False] exI [of _ s1]) (simp add: write_expand_def)
  next
    case q: False
    have "rf_size ?f \<le> ?n" using c(3) True n(1) by (meson order.strict_implies_order order.trans)
    then have len: "unat (rf_size ?f) \<le> c" "unat (rf_size ?f) \<le> unat ?n"
      using c(2,3) by (simp_all add: word_le_nat_alt)
    let ?m = "shell_memcpy (mem s1) q (rf_data ?f) (rf_size ?f)"
    from umalloc.relocate [OF s(1) c(1) n(2,3) len s1(1) q] obtain s3 k' where s3:
      "sys_free e (rf_data ?f) (set_mem ?m s1) = Some (0, s3)" "kernel_ok s3" "unat ?n \<le> k'"
      "user_live s3 = insert (unat q, k') {b \<in> user_live s. fst b \<noteq> unat (rf_data ?f)}" "unat q \<notin> fst ` user_live s"
      "\<forall>i < unat (rf_size ?f). mem s3 (q + of_nat i) = mem s (rf_data ?f + of_nat i)"
      "same_on {b \<in> user_live s. fst b \<noteq> unat (rf_data ?f)} heap_arena (mem s) (mem s3)"
      unfolding shell_memcpy_def [symmetric] by blast
    have "tables_set (set_mem ?m s1)" using s1(2) by (simp add: kernel_ok_def tables_set_def set_mem_def)
    note ram3 = sys_free_ram [OF this s3(1)]
    let ?g = "?f\<lparr>rf_data := q, rf_size := rf_size ?f, rf_capacity := ?n\<rparr>"
    let ?s4 = "set_rfile k ?g s3"
    have fin: "write_expand e k sz s = Some (True, ?s4)"
      using True q s1(1) s3(1) ram ram3 c(5) by (simp add: write_expand_def Let_def)
    have fs: "ram_files ?s4 = (ram_files s)[k := ?g]" using ram ram3 by simp
    have q_new: "rf_data (ram_files s ! j) \<noteq> q" if j: "j \<in> taken (ram_files s) - dirs (ram_files s)" "j \<noteq> k" for j
      using file_block [OF ok j(1)] s3(5) by force
    have keep: "(unat (rf_data (ram_files s ! j)), d) \<in> {b \<in> user_live s. fst b \<noteq> unat (rf_data ?f)}"
      if "j \<in> taken (ram_files s) - dirs (ram_files s)" "j \<noteq> k" "(unat (rf_data (ram_files s ! j)), d) \<in> user_live s" for j d
      using that(3) other_data [OF ok k that(1,2)] by (simp add: word_unat_eq_iff)
    have "ramfs_ok ?s4" "same_tree k s ?s4"
      by (rule same_treeI [OF ok k fs _ _ _ _ \<open>rf_size ?f \<le> ?n\<close> n(4) _ s3(3) keep q_new];
          use s3 ram ram3 in auto)+
    moreover have "file_bytes ?s4 k = file_bytes s k"
      using s3(6) fs s(2) k64 by (simp add: file_bytes_def bytes_at_def)
    ultimately show ?thesis using fin fs s(2) k64 n(1) by (intro exI [of _ True] exI [of _ ?s4]) simp
  qed
qed

section \<open>Writing\<close>

text \<open>
  The terminating NUL goes to \<open>data[size]\<close>, so a size that fills the buffer exactly, a multiple of
  256, is excluded: there the code writes past the block.
\<close>

definition good_size :: "u32 \<Rightarrow> bool" where
  "good_size sz \<longleftrightarrow> unat sz < 2 ^ 31 \<and> (sz = 0 \<or> unat sz mod 256 \<noteq> 0)"

lemma sint_small: "unat (w :: u32) < 2 ^ 31 \<Longrightarrow> sint w = int (unat w)"
  by (simp add: sint_uint) (subst signed_take_bit_int_eq_self, simp_all add: order.trans [OF _ uint_ge_0] nat_less_iff flip: nat_uint_eq)

text \<open>The memory after the two stores of \<open>ramfs_write_file\<close> into a block of \<open>c\<close> bytes.\<close>

lemma write_block:
  assumes "(unat p, c) \<in> user_live s" "kernel_ok s" "unat sz \<le> length data" "sz = 0 \<or> unat sz < c" "unat sz \<le> c"
  shows "\<exists>m. shell_memcpy_out (mem s) p data sz = Some m \<and>
    bytes_at (if sz > 0 then m(p + sz := 0) else m) p (unat sz) = take (unat sz) data \<and>
    (\<forall>a. unat a \<notin> payload (unat p, c) \<longrightarrow> (if sz > 0 then m(p + sz := 0) else m) a = mem s a)"
proof -
  from memcpy_out_ok [OF assms(3)] obtain m where m: "shell_memcpy_out (mem s) p data sz = Some m"
    "\<forall>b. b \<notin> region p (unat sz) \<longrightarrow> m b = mem s b" "bytes_at m p (unat sz) = take (unat sz) data" by blast
  have top: "unat p + unat sz \<le> 2 ^ 32" by (rule umalloc.live_top [OF assms(2,1,5)])
  have ps: "unat (p + sz) = unat p + unat sz" if "sz > 0"
  proof -
    have "sz \<noteq> 0" using that by auto
    then have "Suc (unat sz) \<le> c" using assms(4) by simp
    from umalloc.live_top [OF assms(2,1) this] have "unat p + unat sz < 2 ^ 32" by simp
    then show ?thesis by (simp add: unat_word_ariths)
  qed
  note inr = region_of_nat [OF top, unfolded of_nat_unat ucast_id]
  have "bytes_at (if sz > 0 then m(p + sz := 0) else m) p (unat sz) = bytes_at m p (unat sz)"
  proof (rule nth_equalityI)
    fix i assume "i < length (bytes_at (if sz > 0 then m(p + sz := 0) else m) p (unat sz))"
    then have i: "i < unat sz" by simp
    then have "unat (p + of_nat i) = unat p + i" using top unat_of_nat_u32 [of "unat p + i"] by simp
    then have "p + of_nat i \<noteq> p + sz" if "sz > 0" using ps [OF that] i by auto
    then show "bytes_at (if sz > 0 then m(p + sz := 0) else m) p (unat sz) ! i = bytes_at m p (unat sz) ! i"
      using i by auto
  qed simp
  moreover have "(if sz > 0 then m(p + sz := 0) else m) a = mem s a" if a: "unat a \<notin> payload (unat p, c)" for a
  proof -
    have "a \<notin> region p (unat sz)" using a assms(5) by (auto simp: inr payload_def)
    moreover have "a \<noteq> p + sz" if "sz > 0" using a ps [OF that] assms(4) that by (auto simp: payload_def)
    ultimately show ?thesis using m(2) by auto
  qed
  ultimately show ?thesis using m(1,3) by auto
qed

lemma write_data_ok:
  assumes ok: "ramfs_ok s" and k: "k \<in> taken (ram_files s) - dirs (ram_files s)"
    and sz: "good_size sz" "unat sz \<le> length data"
  shows "\<exists>r s'. write_data e k data sz s = Some (r, s') \<and> ramfs_ok s' \<and> same_tree k s s' \<and>
    (r = - 3 \<and> file_bytes s' k = file_bytes s k \<or> r = int (unat sz) \<and> file_bytes s' k = take (unat sz) data)"
proof -
  have sz1: "unat sz \<le> 0xFFFFFF00" using sz(1) by (simp add: good_size_def)
  have k64: "k < 64" "length (ram_files s) = 64" using ok k by (auto simp: ramfs_ok_def tree_ok_def taken_def)
  from write_expand_ok [OF ok k sz1, of e] obtain b s1 where s1: "write_expand e k sz s = Some (b, s1)" "ramfs_ok s1"
    "same_tree k s s1" "file_bytes s1 k = file_bytes s k" "b \<longrightarrow> sz \<le> rf_capacity (ram_files s1 ! k)" by blast
  have dir: "rf_is_directory (ram_files s ! k) = 0" using k by (simp add: dirs_def)
  show ?thesis
  proof (cases b)
    case False
    then show ?thesis using s1 dir by (simp add: write_data_def)
  next
    case True
    let ?f = "ram_files s1 ! k"
    have k1: "k \<in> taken (ram_files s1) - dirs (ram_files s1)" using k s1(3) by (simp add: same_tree_def)
    have kok: "kernel_ok s1" "length (ram_files s1) = 64" using s1(2) by (simp_all add: ramfs_ok_def tree_ok_def)
    from file_block [OF s1(2) k1] obtain c where c: "(unat (rf_data ?f), c) \<in> user_live s1" "unat (rf_capacity ?f) \<le> c"
      "rf_size ?f \<le> rf_capacity ?f" "unat (rf_capacity ?f) mod 256 = 0" "rf_data ?f \<noteq> 0" by (elim exE conjE)
    have le: "unat sz \<le> unat (rf_capacity ?f)" using s1(5) True by (simp add: word_le_nat_alt)
    have "sz = 0 \<or> unat sz \<noteq> unat (rf_capacity ?f)" using sz(1) c(4) unfolding good_size_def by metis
    then have fits: "sz = 0 \<or> unat sz < c" "unat sz \<le> c" using le c(2) by linarith+
    from write_block [OF c(1) kok(1) sz(2) fits] obtain m where m: "shell_memcpy_out (mem s1) (rf_data ?f) data sz = Some m"
      "bytes_at (if sz > 0 then m(rf_data ?f + sz := 0) else m) (rf_data ?f) (unat sz) = take (unat sz) data"
      "\<forall>a. unat a \<notin> payload (unat (rf_data ?f), c) \<longrightarrow> (if sz > 0 then m(rf_data ?f + sz := 0) else m) a = mem s1 a"
      by (elim exE conjE)
    let ?m = "if sz > 0 then m(rf_data ?f + sz := 0) else m"
    have out: "?m a = mem s1 a" if "unat a \<notin> payload (unat (rf_data ?f), c)" for a using m(3) that by blast
    note w = umalloc.write_spec [where m = ?m, OF kok(1) c(1) out] umalloc.write_others [where m = ?m, OF kok(1) c(1) out]
    let ?s2 = "set_rfile k (?f\<lparr>rf_size := sz\<rparr>) (set_mem ?m s1)"
    have size: "sint sz = int (unat sz)" using sz(1) unfolding good_size_def by (intro sint_small) simp
    have fin: "write_data e k data sz s = Some (sint sz, ?s2)"
      using dir s1(1) True m(1) by (simp add: write_data_def Let_def set_mem_def set_rfile_def)
    have live: "user_live ?s2 = user_live s1" "kernel_ok ?s2" "mem ?s2 = ?m" using w(1) by simp_all
    have fs: "ram_files ?s2 = (ram_files s1)[k := ?f\<lparr>rf_data := rf_data ?f, rf_size := sz, rf_capacity := rf_capacity ?f\<rparr>]"
      by simp
    have "sz \<le> rf_capacity ?f" using le by (simp add: word_le_nat_alt)
    have keep: "(unat (rf_data (ram_files s1 ! j)), d) \<in> user_live s1 - {(unat (rf_data ?f), c)}"
      if "j \<in> taken (ram_files s1) - dirs (ram_files s1)" "j \<noteq> k" "(unat (rf_data (ram_files s1 ! j)), d) \<in> user_live s1" for j d
      using that(3) other_data [OF s1(2) k1 that(1,2)] by (simp add: word_unat_eq_iff)
    have "ramfs_ok ?s2" "same_tree k s1 ?s2"
      by (rule same_treeI [OF s1(2) k1 fs live(2) _ _ _ \<open>sz \<le> rf_capacity ?f\<close> c(4) _ c(2) keep other_data [OF s1(2) k1]];
          use w(2) c(1) live in \<open>simp; blast?\<close>)+
    moreover have "file_bytes ?s2 k = take (unat sz) data"
      using m(2) live(3) k64(1) kok(2) by (simp add: file_bytes_def)
    ultimately show ?thesis using fin size same_tree_trans [OF s1(3) _ k64(2)] by auto
  qed
qed

text \<open>The whole of \<open>ramfs_write_file\<close>.\<close>

definition wrote :: "nat \<Rightarrow> u8 list \<Rightarrow> u32 \<Rightarrow> int \<Rightarrow> 'a ram_fs_scheme \<Rightarrow> bool" where
  "wrote k data sz r s' \<longleftrightarrow> r = int (unat sz) \<and> k \<in> taken (ram_files s') - dirs (ram_files s') \<and>
     file_bytes s' k = take (unat sz) data"

lemma ramfs_write_file_ok:
  assumes ok: "ramfs_ok s" and name: "is_cstr name" and sz: "good_size sz" "unat sz \<le> length data"
  shows "\<exists>r s'. ramfs_write_file e name data sz s = Some (r, s') \<and> ramfs_ok s' \<and>
    (case ramfs_find_file name (ram_current_dir s) s of
       Some k \<Rightarrow>
         if k \<in> dirs (ram_files s) then r = - 1 \<and> s' = s
         else same_tree k s s' \<and> (r = - 3 \<and> file_bytes s' k = file_bytes s k \<or> wrote k data sz r s')
     | None \<Rightarrow>
         (case ramfs_find_free_slot s of
            None \<Rightarrow> r = - 2 \<and> s' = s
          | Some k \<Rightarrow> others_same k s s' \<and> (r = - 3 \<or> wrote k data sz r s' \<and>
              cstr_of (rf_name (ram_files s' ! k)) = take 31 name \<and>
              rf_parent_index (ram_files s' ! k) = ram_current_dir s)))"
proof (cases "ramfs_find_file name (ram_current_dir s) s")
  case (Some k)
  note f = find_file_SomeD [OF Some ok name]
  show ?thesis
  proof (cases "k \<in> dirs (ram_files s)")
    case True
    then show ?thesis using ok Some by (simp add: ramfs_write_file_def write_data_def dirs_def)
  next
    case False
    with f(1) have k: "k \<in> taken (ram_files s) - dirs (ram_files s)" by simp
    from write_data_ok [OF ok k sz, of e] obtain r s' where r: "write_data e k data sz s = Some (r, s')" "ramfs_ok s'"
      "same_tree k s s'" "r = - 3 \<and> file_bytes s' k = file_bytes s k \<or> r = int (unat sz) \<and> file_bytes s' k = take (unat sz) data"
      by blast
    moreover have "k \<in> taken (ram_files s') - dirs (ram_files s')" using k r(3) by (simp add: same_tree_def)
    ultimately show ?thesis using Some False
      by (intro exI [of _ r] exI [of _ s']) (auto simp: ramfs_write_file_def wrote_def)
  qed
next
  case None
  show ?thesis
  proof (cases "ramfs_find_free_slot s")
    case full: None
    have "ram_initialized s \<noteq> 0" using ok by (simp add: ramfs_ok_def)
    then show ?thesis using None full ok by (simp add: ramfs_write_file_def ramfs_create_def)
  next
    case (Some k)
    note fk = find_free_SomeD [OF Some]
    from ramfs_create_free [OF ok name None Some, of e 0] obtain r1 s1 where c: "ramfs_create e name 0 s = Some (r1, s1)"
      "ramfs_ok s1" "others_same k s s1"
      "r1 = - 3 \<and> taken (ram_files s1) = taken (ram_files s) \<or> r1 = int k \<and> new_entry name 0 (ram_current_dir s) (ram_files s1 ! k)"
      by blast
    show ?thesis
    proof (cases "r1 = - 3")
      case True
      then show ?thesis using None Some c by (simp add: ramfs_write_file_def)
    next
      case False
      with c(4) have r1: "r1 = int k" and e: "new_entry name 0 (ram_current_dir s) (ram_files s1 ! k)" by auto
      have len: "length (ram_files s1) = 64" "length (ram_files s) = 64" using c(2) ok by (simp_all add: ramfs_ok_def tree_ok_def)
      have k: "k \<in> taken (ram_files s1) - dirs (ram_files s1)"
        using e fk(1) len by (simp add: new_entry_def taken_def dirs_def)
      have tk: "taken (ram_files s1) - {k} = taken (ram_files s) - {k}"
        using c(3) len by (auto simp: others_same_def taken_def)
      from write_data_ok [OF c(2) k sz, of e] obtain r s' where r: "write_data e k data sz s1 = Some (r, s')" "ramfs_ok s'"
        "same_tree k s1 s'" "r = - 3 \<and> file_bytes s' k = file_bytes s1 k \<or> r = int (unat sz) \<and> file_bytes s' k = take (unat sz) data"
        by blast
      have "others_same k s s'" using others_same_trans [OF c(3) _ tk len(2)] r(3) by (simp add: same_tree_def)
      moreover have "k \<in> taken (ram_files s') - dirs (ram_files s')" using k r(3) by (simp add: same_tree_def)
      moreover have "cstr_of (rf_name (ram_files s' ! k)) = take 31 name" "rf_parent_index (ram_files s' ! k) = ram_current_dir s"
        using r(3) e by (simp_all add: same_tree_def new_entry_def)
      moreover have "ramfs_write_file e name data sz s = Some (r, s')"
        using None c(1) r1 r(1) by (simp add: ramfs_write_file_def)
      ultimately show ?thesis using r(2,4) None Some
        by (intro exI [of _ r] exI [of _ s']) (auto simp: wrote_def)
    qed
  qed
qed

section \<open>Reading\<close>

lemma length_file_bytes [simp]: "length (file_bytes s k) = unat (rf_size (ram_files s ! k))"
  by (simp add: file_bytes_def)

lemma ramfs_read_file_ok:
  assumes "ramfs_ok s" "is_cstr name" "ramfs_find_file name (ram_current_dir s) s = Some k" "k \<notin> dirs (ram_files s)"
    "n = min (length (file_bytes s k)) (unat bs)" "n \<le> length buf" "n < 2 ^ 31"
  shows "ramfs_read_file name buf bs s = Some (int n, take n (file_bytes s k) @ drop n buf)"
proof -
  let ?f = "ram_files s ! k"
  have "rf_is_directory ?f = 0" using find_file_SomeD(1) [OF assms(3,1,2)] assms(4) by (simp add: dirs_def)
  moreover have n: "unat (if rf_size ?f < bs then rf_size ?f else bs) = n" using assms(5) by (auto simp: word_less_nat_alt)
  moreover have "sint (if rf_size ?f < bs then rf_size ?f else bs) = int n" using sint_small n assms(7) by metis
  moreover have "bytes_at (mem s) (rf_data ?f) n = take n (file_bytes s k)"
    using assms(5) by (intro nth_equalityI) (simp_all add: file_bytes_def)
  ultimately show ?thesis using assms(3,6) memcpy_in_ok [of _ buf "mem s" "rf_data ?f"]
    by (simp add: ramfs_read_file_def Let_def)
qed

text \<open>Where a search ends up after a write.\<close>

lemma find_upt_SomeI:
  assumes "k < n" "P k" "\<And>j. j < k \<Longrightarrow> \<not> P j"
  shows "find P [0..<n] = Some k"
proof (cases "find P [0..<n]")
  case None
  with find_upt_None_D [OF None, of k] assms show ?thesis by simp
next
  case (Some i)
  with find_upt_Some_D [OF Some] assms show ?thesis by (metis linorder_neqE_nat zero_le)
qed

lemma find_file_SomeI:
  assumes "ramfs_ok s" "is_cstr name" "k \<in> taken (ram_files s)" "rf_parent_index (ram_files s ! k) = d"
    "cstr_of (rf_name (ram_files s ! k)) = name"
    "\<And>j. j < k \<Longrightarrow> j \<in> taken (ram_files s) \<Longrightarrow> rf_parent_index (ram_files s ! j) = d \<Longrightarrow>
      cstr_of (rf_name (ram_files s ! j)) \<noteq> name"
  shows "ramfs_find_file name d s = Some k"
proof -
  have len: "length (ram_files s) = 64" using assms(1) by (simp add: ramfs_ok_def tree_ok_def)
  show ?thesis
    unfolding ramfs_find_file_def
    by (rule find_upt_SomeI) (use assms len in \<open>auto simp: taken_def shell_strcmp_eq_0 MAX_FILES_def\<close>)
qed

lemma find_file_same_tree:
  assumes "same_tree k s s'" "ramfs_ok s" "ramfs_ok s'" "is_cstr name" "ramfs_find_file name d s = Some i"
  shows "ramfs_find_file name d s' = Some i"
proof (rule find_file_SomeI [OF assms(3,4)])
  have eq: "rf_parent_index (ram_files s' ! j) = rf_parent_index (ram_files s ! j)"
    "rf_name (ram_files s' ! j) = rf_name (ram_files s ! j)" if "j < 64" for j
    using assms(1) that by (cases "j = k"; simp add: same_tree_def others_same_def)+
  note f = find_file_SomeD [OF assms(5,2,4)]
  have tk: "taken (ram_files s') = taken (ram_files s)" "length (ram_files s) = 64"
    using assms(1,2) by (simp_all add: same_tree_def ramfs_ok_def tree_ok_def)
  show "i \<in> taken (ram_files s')" "rf_parent_index (ram_files s' ! i) = d" "cstr_of (rf_name (ram_files s' ! i)) = name"
    using f tk eq by simp_all
  fix j assume j: "j < i" "j \<in> taken (ram_files s')" "rf_parent_index (ram_files s' ! j) = d"
  have "j < 64" using j(1) f(2) by simp
  with j eq tk find_upt_Some_D [OF assms(5) [unfolded ramfs_find_file_def]] assms(4)
  show "cstr_of (rf_name (ram_files s' ! j)) \<noteq> name" by (auto simp: taken_def shell_strcmp_eq_0)
qed

lemma find_file_new:
  assumes "others_same k s s'" "ramfs_ok s" "ramfs_ok s'" "is_cstr name" "ramfs_find_file name d s = None"
    "k \<in> taken (ram_files s')" "rf_parent_index (ram_files s' ! k) = d" "cstr_of (rf_name (ram_files s' ! k)) = name"
  shows "ramfs_find_file name d s' = Some k"
proof (rule find_file_SomeI [OF assms(3,4,6-8)])
  fix j assume j: "j < k" "j \<in> taken (ram_files s')" "rf_parent_index (ram_files s' ! j) = d"
  have len: "length (ram_files s) = 64" "length (ram_files s') = 64" using assms(2,3) by (simp_all add: ramfs_ok_def tree_ok_def)
  have eq: "ram_files s' ! j = ram_files s ! j" using assms(1) j(1,2) len by (simp add: others_same_def taken_def)
  then have "j \<in> taken (ram_files s)" using j(2) len by (simp add: taken_def)
  from find_file_NoneD [OF assms(5,2,4) this] j(3) eq show "cstr_of (rf_name (ram_files s' ! j)) \<noteq> name" by simp
qed

text \<open>What was written is what is read.\<close>

lemma write_file_read_file:
  assumes ok: "ramfs_ok s" and name: "is_cstr name" "length name \<le> 31" and sz: "good_size sz" "unat sz \<le> length data"
    and w: "ramfs_write_file e name data sz s = Some (r, s')" "0 \<le> r"
    and buf: "unat sz \<le> unat bs" "unat sz \<le> length buf"
  shows "r = int (unat sz) \<and> ramfs_read_file name buf bs s' = Some (r, take (unat sz) data @ drop (unat sz) buf)"
proof -
  from ramfs_write_file_ok [OF ok name(1) sz, of e] w(1) have ok': "ramfs_ok s'" and c:
    "case ramfs_find_file name (ram_current_dir s) s of
       Some k \<Rightarrow> if k \<in> dirs (ram_files s) then r = - 1 \<and> s' = s
         else same_tree k s s' \<and> (r = - 3 \<and> file_bytes s' k = file_bytes s k \<or> wrote k data sz r s')
     | None \<Rightarrow> (case ramfs_find_free_slot s of None \<Rightarrow> r = - 2 \<and> s' = s
          | Some k \<Rightarrow> others_same k s s' \<and> (r = - 3 \<or> wrote k data sz r s' \<and>
              cstr_of (rf_name (ram_files s' ! k)) = take 31 name \<and> rf_parent_index (ram_files s' ! k) = ram_current_dir s))"
    by auto
  have "\<exists>k. ramfs_find_file name (ram_current_dir s') s' = Some k \<and> wrote k data sz r s'"
  proof (cases "ramfs_find_file name (ram_current_dir s) s")
    case None
    with c w(2) obtain k where k: "others_same k s s'" "wrote k data sz r s'" "cstr_of (rf_name (ram_files s' ! k)) = name"
      "rf_parent_index (ram_files s' ! k) = ram_current_dir s" using name(2) by (auto split: option.splits)
    have "ramfs_find_file name (ram_current_dir s) s' = Some k"
      by (rule find_file_new [OF k(1) ok ok' name(1) None]) (use k in \<open>simp_all add: wrote_def\<close>)
    with k show ?thesis by (auto simp: others_same_def)
  next
    case (Some k)
    with c w(2) have k: "same_tree k s s'" "wrote k data sz r s'" by (auto split: if_splits)
    with find_file_same_tree [OF k(1) ok ok' name(1) Some] show ?thesis by (auto simp: same_tree_def others_same_def)
  qed
  then obtain k where k: "ramfs_find_file name (ram_current_dir s') s' = Some k" "wrote k data sz r s'" by blast
  then have b: "file_bytes s' k = take (unat sz) data" "k \<notin> dirs (ram_files s')" "r = int (unat sz)"
    by (simp_all add: wrote_def)
  have "ramfs_read_file name buf bs s' = Some (int (unat sz), take (unat sz) (file_bytes s' k) @ drop (unat sz) buf)"
    by (rule ramfs_read_file_ok [OF ok' name(1) k(1) b(2)]) (use b(1) sz buf in \<open>simp_all add: good_size_def\<close>)
  with b show ?thesis by simp
qed

section \<open>The current path\<close>

text \<open>The names on the way from the root to entry \<open>i\<close>, and the path they make.\<close>

inductive path_to :: "ram_file list \<Rightarrow> nat \<Rightarrow> u8 list list \<Rightarrow> bool" for fs where
  root: "path_to fs 0 []"
| down: "path_to fs (parent fs i) ns \<Longrightarrow> i \<noteq> 0 \<Longrightarrow> path_to fs i (ns @ [cstr_of (rf_name (fs ! i))])"

definition path_str :: "u8 list list \<Rightarrow> u8 list" where
  "path_str ns = concat (map (\<lambda>n. 47 # n) ns)"

lemma to_root_path: "to_root fs i \<Longrightarrow> \<exists>ns. path_to fs i ns"
proof (induction rule: to_root.induct)
  case root
  show ?case by (blast intro: path_to.root)
next
  case (up i)
  then show ?case by (cases "i = 0") (blast intro: path_to.intros)+
qed

lemma path_str_snoc [simp]: "path_str (ns @ [n]) = path_str ns @ 47 # n"
  by (simp add: path_str_def)

lemma path_to_cstr: "path_to fs i ns \<Longrightarrow> is_cstr (path_str ns)"
  by (induction rule: path_to.induct) (simp_all add: path_str_def [of "[]"])

lemma memcpy_arr_ok:
  "n \<le> length src \<Longrightarrow> at + n \<le> length dest \<Longrightarrow>
    shell_memcpy_arr dest (int at) src n = Some (take at dest @ take n src @ drop (at + n) dest)"
proof -
  have "foldM (\<lambda>i d. do { c \<leftarrow> arr_get src (int i); arr_set d (int at + int i) c }) [0..<k] dest =
      Some (take at dest @ take k src @ drop (at + k) dest)"
    if "k \<le> length src" "at + k \<le> length dest" for k
    using that
  proof (induction k)
    case 0
    then show ?case by simp
  next
    case (Suc k)
    let ?d = "take at dest @ take k src @ drop (at + k) dest"
    have "foldM (\<lambda>i d. do { c \<leftarrow> arr_get src (int i); arr_set d (int at + int i) c }) [0..<k] dest = Some ?d"
      using Suc by simp
    moreover have "arr_set ?d (int at + int k) (src ! k) = Some (?d[at + k := src ! k])"
      using Suc.prems arr_set_nat [of "at + k" ?d "src ! k"] by simp
    moreover have "?d[at + k := src ! k] = take at dest @ take (Suc k) src @ drop (at + Suc k) dest"
      using Suc.prems
      by (intro nth_equalityI) (auto simp: nth_append nth_list_update min_def not_less less_Suc_eq)
    ultimately show ?case using Suc.prems by (simp add: foldM_append)
  qed
  then show "n \<le> length src \<Longrightarrow> at + n \<le> length dest \<Longrightarrow> ?thesis" by (simp add: shell_memcpy_arr_def)
qed

text \<open>
  The walk lays the path out in front of position \<open>pos\<close>; when there is not room enough it stops
  with a negative position.
\<close>

lemma path_loop_ok:
  assumes "path_to fs i ns" "length fs = 64" "\<And>j. j < 64 \<Longrightarrow> 0 \<in> set (rf_name (fs ! j))"
    "i \<in> taken fs" "\<And>j. j \<in> taken fs \<Longrightarrow> parent fs j \<in> taken fs" "pos < length t"
  shows "if length (path_str ns) \<le> pos
    then path_loop fs (of_nat i) t (int pos) =
      Some (take (pos - length (path_str ns)) t @ path_str ns @ drop pos t, int (pos - length (path_str ns)))
    else \<exists>t' p. path_loop fs (of_nat i) t (int pos) = Some (t', p) \<and> p < 0"
  using assms(1,4,6)
proof (induction arbitrary: t pos rule: path_to.induct)
  case root
  then show ?case by (simp add: path_loop.simps path_str_def)
next
  case (down i ns)
  let ?f = "fs ! i"
  let ?n = "cstr_of (rf_name ?f)"
  have i: "i < 64" using down.prems(1) assms(2) by (simp add: taken_def)
  then have "unat (of_nat i :: u32) = i" using unat_of_nat_u32 [of i] by simp
  then have iu: "uint (of_nat i :: u32) = int i" "(of_nat i :: u32) \<noteq> 0"
    using down.hyps(2) by (simp_all add: uint_nat unat_eq_0 [symmetric] del: unat_eq_0)
  have n: "length ?n < length (rf_name ?f)" "take (length ?n) (rf_name ?f) = ?n"
    using length_cstr_of_less [OF assms(3) [OF i]] by (simp_all add: cstr_of_def takeWhile_eq_take [symmetric])
  have len: "shell_strlen (rf_name ?f) = Some (int (length ?n))" by (rule shell_strlen_cstr [OF assms(3) [OF i]])
  have step: "path_loop fs (of_nat i) t (int pos) =
      (if int pos - int (length ?n) < 0 then Some (t, int pos - int (length ?n))
       else do {
         t1 \<leftarrow> shell_memcpy_arr t (int pos - int (length ?n)) (rf_name ?f) (length ?n);
         if int pos - int (length ?n) - 1 < 0 then Some (t1, int pos - int (length ?n) - 1)
         else do {
           t2 \<leftarrow> arr_set t1 (int pos - int (length ?n) - 1) 47;
           path_loop fs (rf_parent_index ?f) t2 (int pos - int (length ?n) - 1) } })"
    using iu len i assms(2) by (subst path_loop.simps) (simp add: Let_def)
  show ?case
  proof (cases "length ?n < pos")
    case False
    show ?thesis
    proof (cases "pos < length ?n")
      case True
      then show ?thesis using step by simp
    next
      case eq: False
      then have "pos = length ?n" using False by simp
      moreover have "shell_memcpy_arr t (int 0) (rf_name ?f) (length ?n) = Some (take 0 t @ take (length ?n) (rf_name ?f) @ drop (0 + length ?n) t)"
        using n(1) down.prems(2) \<open>pos = length ?n\<close> by (intro memcpy_arr_ok) simp_all
      ultimately show ?thesis using step by simp
    qed
  next
    case True
    then obtain q where q: "pos = length ?n + Suc q" using less_imp_Suc_add by fastforce
    let ?t1 = "take (Suc q) t @ ?n @ drop pos t"
    let ?t2 = "?t1[q := 47]"
    have ints: "int pos - int (length ?n) = int (Suc q)" "int (Suc q) - 1 = int q" by (simp_all add: q)
    have "shell_memcpy_arr t (int (Suc q)) (rf_name ?f) (length ?n) = Some ?t1"
      using memcpy_arr_ok [of "length ?n" "rf_name ?f" "Suc q" t] n q down.prems(2) by (simp add: add.commute)
    moreover have "arr_set ?t1 (int q) 47 = Some ?t2" using q down.prems(2) by (intro arr_set_nat) simp
    ultimately have loop: "path_loop fs (of_nat i) t (int pos) = path_loop fs (of_nat (parent fs i)) ?t2 (int q)"
      using step [unfolded ints] by (simp add: parent_def del: of_nat_Suc)
    have tl: "take m ?t2 = take m t" if "m \<le> q" for m using that q down.prems(2) by (simp add: take_update_cancel)
    have dr: "drop q ?t2 = 47 # ?n @ drop pos t"
    proof -
      have "q < length ?t1" "drop (Suc q) ?t1 = ?n @ drop pos t" using q down.prems(2) by simp_all
      then show ?thesis by (simp add: drop_update_cancel Cons_nth_drop_Suc [symmetric])
    qed
    have "q < length ?t2" using q down.prems(2) by simp
    note IH = down.IH [OF assms(5) [OF down.prems(1)] this]
    show ?thesis
    proof (cases "length (path_str ns) \<le> q")
      case True
      with IH have "path_loop fs (of_nat (parent fs i)) ?t2 (int q) =
        Some (take (q - length (path_str ns)) ?t2 @ path_str ns @ drop q ?t2, int (q - length (path_str ns)))" by simp
      moreover have "q - length (path_str ns) = pos - length (path_str (ns @ [?n]))" by (simp add: q)
      moreover have "length (path_str (ns @ [?n])) \<le> pos" using True q by simp
      ultimately show ?thesis unfolding loop dr using tl [of "q - length (path_str ns)"] by simp
    next
      case False
      then show ?thesis unfolding loop using IH q by auto
    qed
  qed
qed

text \<open>
  The path of the current directory reaches the caller's buffer through \<open>shell_strncpy\<close>.  A path
  of more than 255 bytes is read from in front of \<open>temp_path\<close>.
\<close>

lemma current_path_ok:
  assumes "ramfs_ok s" "path_to (ram_files s) (unat (ram_current_dir s)) ns" "ram_current_dir s \<noteq> 0"
  shows "ramfs_get_current_path buf n s =
    (if length (path_str ns) \<le> 255 then shell_strncpy buf (path_str ns) (int n) else None)"
proof -
  let ?fs = "ram_files s" and ?t = "replicate 256 (0 :: u8)"
  have t: "length ?fs = 64" "0 \<in> set (rf_name (?fs ! j))" "unat (ram_current_dir s) \<in> taken ?fs"
    "i \<in> taken ?fs \<Longrightarrow> parent ?fs i \<in> taken ?fs" if "j < 64" for i j
    using assms(1) that by (auto simp: ramfs_ok_def tree_ok_def dirs_def)
  have loop: "if length (path_str ns) \<le> 255
    then path_loop ?fs (of_nat (unat (ram_current_dir s))) ?t (int 255) =
      Some (take (255 - length (path_str ns)) ?t @ path_str ns @ drop 255 ?t, int (255 - length (path_str ns)))
    else \<exists>t' p. path_loop ?fs (of_nat (unat (ram_current_dir s))) ?t (int 255) = Some (t', p) \<and> p < 0"
    using t [of 0] t(2) by (intro path_loop_ok [OF assms(2)]) simp_all
  show ?thesis
  proof (cases "length (path_str ns) \<le> 255")
    case True
    let ?k = "255 - length (path_str ns)"
    let ?p = "take ?k ?t @ path_str ns @ drop 255 ?t"
    have p: "path_loop ?fs (ram_current_dir s) ?t 255 = Some (?p, int ?k)" using loop True by simp
    have "drop ?k ?p = path_str ns @ 0 # []" using True by (simp add: numeral_eq_Suc)
    then have "cstr_of (drop ?k ?p) = path_str ns" using cstr_of_pad [OF path_to_cstr [OF assms(2)]] by simp
    then show ?thesis unfolding ramfs_get_current_path_def p using assms(3) True by simp
  next
    case False
    then obtain t' p where "path_loop ?fs (ram_current_dir s) ?t 255 = Some (t', p)" "p < 0" using loop by auto
    then show ?thesis unfolding ramfs_get_current_path_def using assms(3) False by simp
  qed
qed

lemma current_path_root: "ram_current_dir s = 0 \<Longrightarrow> ramfs_get_current_path buf n s = shell_strncpy buf [47] (int n)"
  by (simp add: ramfs_get_current_path_def)

text \<open>
  A caller that passes the size of its buffer has the buffer overrun whenever the path is shorter
  than that, because \<open>shell_strncpy\<close> then writes one byte more.
\<close>

lemma current_path_overruns:
  assumes "ramfs_ok s" "path_to (ram_files s) (unat (ram_current_dir s)) ns" "length (path_str ns) < length buf" "1 < length buf"
  shows "ramfs_get_current_path buf (length buf) s = None"
proof (cases "ram_current_dir s = 0")
  case True
  then show ?thesis using shell_strncpy_padded [of "[47]" "length buf" buf] assms(4) by (simp add: current_path_root)
next
  case False
  then show ?thesis using shell_strncpy_padded [of "path_str ns" "length buf" buf] assms(3)
    by (simp add: current_path_ok [OF assms(1,2)])
qed

section \<open>Initialisation\<close>

text \<open>Output to the console leaves the file system alone.\<close>

lemma console_ram:
  fixes s s' :: "'a ram_fs_scheme"
  assumes "vga.more s' = vga.more s"
  shows "ram_files s' = ram_files s" "ram_file_count s' = ram_file_count s" "ram_current_dir s' = ram_current_dir s"
    "ram_initialized s' = ram_initialized s" "mem s' = mem s" "user_live s' = user_live s" "file_bytes s' k = file_bytes s k"
proof -
  note m = more_kheap [OF assms]
  note k = more_ksys [OF m(1)]
  show r: "ram_files s' = ram_files s" "ram_file_count s' = ram_file_count s" "ram_current_dir s' = ram_current_dir s"
    "ram_initialized s' = ram_initialized s" "mem s' = mem s" using more_ram [OF k(7)] m by simp_all
  show "user_live s' = user_live s" using heap_frame(2) [OF m(2-4)] k(1) by (rule user_live_cong)
  show "file_bytes s' k = file_bytes s k" by (simp add: file_bytes_def r)
qed

lemma ramfs_ok_console:
  fixes s s' :: "'a ram_fs_scheme"
  assumes "ramfs_ok s" "vga.more s' = vga.more s" "on_screen s'"
  shows "ramfs_ok s'"
  using assms kernel_ok_console [OF _ assms(2,3)] console_ram [OF assms(2)] by (simp add: ramfs_ok_def)

lemma ramfs_ok_printf [wf_intros]: "ramfs_ok s \<Longrightarrow> ramfs_ok (printf fmt args s)"
  by (rule ramfs_ok_console [of s]) (simp_all add: ramfs_ok_def kernel_ok_def wf_intros)

lemma ramfs_init_ok:
  assumes "kernel_ok s" "ram_initialized s = 0"
  shows "\<exists>s'. ramfs_init e s = Some s' \<and> ramfs_ok s' \<and> taken (ram_files s') = {0} \<and> ram_current_dir s' = 0 \<and>
    user_live s' = user_live s \<and> mem s' = mem s"
proof -
  let ?root = "zero_ram_file\<lparr>rf_name := (replicate MAX_FILENAME_LEN 0)[0 := 47, 1 := 0],
          rf_is_directory := 1, rf_parent_index := 0, rf_in_use := 1\<rparr>"
  let ?s1 = "s\<lparr>ram_files := (replicate MAX_FILES zero_ram_file)[0 := ?root], ram_file_count := 0,
          ram_current_dir := 0, ram_initialized := 0\<rparr>"
  from utime_call [of ?s1 e] assms(1) obtain t s2 where s2: "syscall_time e ?s1 = Some (t, s2)" "kernel_ok s2"
    "client_frame ?s1 s2" "mem s2 = mem s" "user_live s2 = user_live s" by auto
  note ram = client_ram [OF s2(3)]
  let ?r = "?root\<lparr>rf_created_time := t\<rparr>"
  let ?s3 = "(set_rfile 0 ?r s2)\<lparr>ram_file_count := 1, ram_current_dir := 0, ram_initialized := 1\<rparr>"
  let ?s4 = "printf (''RAM File System initialized'' @ [CHR 0x0A]) [] ?s3"
  have fin: "ramfs_init e s = Some ?s4"
    using assms(2) s2(1) ram by (simp add: ramfs_init_def Let_def MAX_FILES_def)
  have root: "rf_in_use ?r = 1" "rf_is_directory ?r = 1" "rf_parent_index ?r = 0" "rf_data ?r = 0"
    "length (rf_name ?r) = 32" "0 \<in> set (rf_name ?r)"
    by (simp_all add: zero_ram_file_def MAX_FILENAME_LEN_def numeral_eq_Suc)
  have fs: "ram_files ?s3 = ?r # replicate 63 zero_ram_file"
    using ram by (simp add: MAX_FILES_def numeral_eq_Suc)
  have nth: "ram_files ?s3 ! i = (if i = 0 then ?r else zero_ram_file)" if "i < 64" for i
    using that unfolding fs by (cases i) simp_all
  have len: "length (ram_files ?s3) = 64" unfolding fs by simp
  have tk: "taken (ram_files ?s3) = {0}" "dirs (ram_files ?s3) = {0}"
    using root(1,2) nth len by (auto simp: taken_def dirs_def zero_ram_file_def split: if_splits)
  have "tree_ok (ram_files ?s3)"
    using root nth len tk by (auto simp: tree_ok_def parent_def zero_ram_file_def MAX_FILENAME_LEN_def intro: to_root.root)
  moreover have "blocks_ok (ram_files ?s3) (user_live ?s3)" 
    unfolding blocks_ok_def tk using root(4) nth [of 0] by simp
  ultimately have ok: "ramfs_ok ?s3" using s2(2) tk by (simp add: ramfs_ok_def)
  have "vga.more ?s4 = vga.more ?s3" by simp
  note m = console_ram [OF this]
  have "ramfs_ok ?s4" using ok by (rule ramfs_ok_printf)
  with fin m tk s2(4,5) show ?thesis by (intro exI [of _ ?s4]) simp
qed

end
