(* ===== verification/Dmesg.thy ===== *)
theory Dmesg
  imports RamfsData
begin

text \<open>
  The kernel message log of \<open>src/src/kernel/main.c\<close> (lines 22 to 228): a table of 20 messages of
  50 bytes, filled by \<open>kernel_add_message\<close> and shown by \<open>dmesg\<close>.

  The specification of a stored message is \<open>message_text\<close>: the letters and digits of the
  component's first twelve characters, a colon, a blank, and what is printable of the message,
  cut to 49 bytes.  The listing is compared with a function that computes it as one string.
\<close>

section \<open>State\<close>

definition SIMPLE_MSG_COUNT :: nat where "SIMPLE_MSG_COUNT = 20"
definition SIMPLE_MSG_LEN :: nat where "SIMPLE_MSG_LEN = 50"

record ultra_msg =
  um_msg :: "u8 list"
  um_valid :: u32

record dmesg = ram_fs +
  ultra_messages :: "ultra_msg list"
  ultra_msg_idx :: int
  ultra_initialized :: u32

definition zero_msg :: ultra_msg where
  "zero_msg = \<lparr>um_msg = replicate SIMPLE_MSG_LEN 0, um_valid = 0\<rparr>"

section \<open>Adding a message\<close>

definition is_alnum :: "u8 \<Rightarrow> bool" where
  "is_alnum c \<longleftrightarrow> 97 \<le> c \<and> c \<le> 122 \<or> 65 \<le> c \<and> c \<le> 90 \<or> 48 \<le> c \<and> c \<le> 57"

text \<open>\<open>while (component[i] && i < 12 && pos < SIMPLE_MSG_LEN - 3)\<close>\<close>

fun copy_component :: "u8 list \<Rightarrow> nat \<Rightarrow> u8 list \<Rightarrow> int \<Rightarrow> (u8 list \<times> int) option" where
  "copy_component [] i msg pos = Some (msg, pos)"
| "copy_component (c # cs) i msg pos =
     (if i < 12 \<and> pos < int SIMPLE_MSG_LEN - 3 then
        if is_alnum c then do { msg' \<leftarrow> arr_set msg pos c; copy_component cs (Suc i) msg' (pos + 1) }
        else copy_component cs (Suc i) msg pos
      else Some (msg, pos))"

definition safe_char :: "u8 \<Rightarrow> bool" where
  "safe_char c \<longleftrightarrow> is_alnum c \<or> c = 32 \<or> c = 46 \<or> c = 45 \<or> c = 95"

fun copy_message :: "u8 list \<Rightarrow> u8 list \<Rightarrow> int \<Rightarrow> (u8 list \<times> int) option" where
  "copy_message [] msg pos = Some (msg, pos)"
| "copy_message (c # cs) msg pos =
     (if pos < int SIMPLE_MSG_LEN - 1 then
        if safe_char c then do { msg' \<leftarrow> arr_set msg pos c; copy_message cs msg' (pos + 1) }
        else if c = 47 \<or> c = 92 then do { msg' \<leftarrow> arr_set msg pos 47; copy_message cs msg' (pos + 1) }
        else copy_message cs msg pos
      else Some (msg, pos))"

text \<open>The text of one message; a NULL argument is \<^const>\<open>None\<close>.\<close>

definition build_message :: "u8 list option \<Rightarrow> u8 list option \<Rightarrow> u8 list option" where
  "build_message component message = do {
     let msg0 = replicate SIMPLE_MSG_LEN 0;
     (msg1, pos1) \<leftarrow> (case component of None \<Rightarrow> Some (msg0, 0) | Some str \<Rightarrow> do {
         (msg, pos) \<leftarrow> copy_component str 0 msg0 0;
         if pos < int SIMPLE_MSG_LEN - 2 then do {
           msg' \<leftarrow> arr_set msg pos 58;
           msg'' \<leftarrow> arr_set msg' (pos + 1) 32;
           Some (msg'', pos + 2) }
         else Some (msg, pos) });
     (msg2, pos2) \<leftarrow> (case message of None \<Rightarrow> Some (msg1, pos1) | Some str \<Rightarrow> copy_message str msg1 pos1);
     arr_set msg2 pos2 0 }"

definition kernel_add_message ::
    "u8 \<Rightarrow> u8 list option \<Rightarrow> u8 list option \<Rightarrow> 'a dmesg_scheme \<Rightarrow> 'a dmesg_scheme option" where
  "kernel_add_message level component message s = do {
     let s1 = (if ultra_initialized s = 0
               then s\<lparr>ultra_messages := replicate SIMPLE_MSG_COUNT zero_msg, ultra_initialized := 1, ultra_msg_idx := 0\<rparr>
               else s);
     if ultra_msg_idx s1 \<ge> int SIMPLE_MSG_COUNT then Some s1
     else do {
       msg \<leftarrow> build_message component message;
       entries \<leftarrow> arr_set (ultra_messages s1) (ultra_msg_idx s1) \<lparr>um_msg = msg, um_valid = 12345\<rparr>;
       Some (s1\<lparr>ultra_messages := entries, ultra_msg_idx := ultra_msg_idx s1 + 1\<rparr>) } }"

section \<open>Showing the log\<close>

definition shown_char :: "u8 \<Rightarrow> bool" where
  "shown_char c \<longleftrightarrow> is_alnum c \<or> c = 32 \<or> c = 46 \<or> c = 58 \<or> c = 45 \<or> c = 95 \<or> c = 47"

text \<open>A number of at most two digits, the way every function here prints one.\<close>

definition put_count :: "int \<Rightarrow> 'a vga_scheme \<Rightarrow> 'a vga_scheme" where
  "put_count n s = (if n < 10 then putc (of_int (48 + n)) s else putc (of_int (48 + (n - 10))) (putc 49 s))"

definition display_entry :: "int \<Rightarrow> ultra_msg \<Rightarrow> 'a vga_scheme \<Rightarrow> 'a vga_scheme" where
  "display_entry i entry s =
     (if um_valid entry \<noteq> 12345 then puts ''Invalid entry'' s
      else
        let s1 = (if i < 10 then putc (of_int (48 + i)) (putc 48 s) else putc (of_int (48 + (i - 10))) (putc 49 s));
            s2 = putc 32 (putc 58 s1);
            s3 = fold (\<lambda>c s. if shown_char c then putc c s else putc 63 s)
                   (takeWhile (\<lambda>c. c \<noteq> 0) (take SIMPLE_MSG_LEN (um_msg entry))) s2
        in putc 10 s3)"

definition display_kernel_messages :: "'a dmesg_scheme \<Rightarrow> 'a dmesg_scheme option" where
  "display_kernel_messages s =
     (if ultra_initialized s = 0 then Some (puts ''dmesg not initialized'' s)
      else if ultra_msg_idx s = 0 then Some (puts ''No kernel messages recorded'' s)
      else do {
        let s1 = puts (''=== Kernel Messages ==='' @ [CHR 0x0A]) s;
        s2 \<leftarrow> foldM (\<lambda>i t. do { entry \<leftarrow> arr_get (ultra_messages t) i; Some (display_entry i entry t) })
                [0..min (ultra_msg_idx s) (int SIMPLE_MSG_COUNT) - 1] s1;
        let s3 = put_count (ultra_msg_idx s) (puts ''=== End Messages ('' s2);
        Some (puts ('' shown) ==='' @ [CHR 0x0A]) s3) })"

definition dmesg_clear :: "'a dmesg_scheme \<Rightarrow> 'a dmesg_scheme" where
  "dmesg_clear s = puts ''dmesg: Message buffer cleared''
     (s\<lparr>ultra_messages := replicate SIMPLE_MSG_COUNT zero_msg, ultra_msg_idx := 0\<rparr>)"

definition dmesg_stats :: "'a dmesg_scheme \<Rightarrow> 'a dmesg_scheme option" where
  "dmesg_stats s =
     (if ultra_initialized s = 0 then Some (puts ''dmesg: System not initialized'' s)
      else do {
        let s1 = puts ''  Buffer size: '' (puts ''dmesg Statistics:'' s);
        let s2 = (if int SIMPLE_MSG_COUNT < 10 then putc (of_int (48 + int SIMPLE_MSG_COUNT)) s1 else putc 48 (putc 50 s1));
        let s3 = put_count (ultra_msg_idx s) (puts ''  Used entries: '' (puts '' entries'' s2));
        let s4 = puts ''  Free entries: '' (putc 10 s3);
        let s5 = putc 10 (put_count (int SIMPLE_MSG_COUNT - ultra_msg_idx s) s4);
        valid_count \<leftarrow> foldM (\<lambda>i n. do { entry \<leftarrow> arr_get (ultra_messages s) i;
            Some (if um_valid entry = 12345 then n + 1 else n) }) [0..ultra_msg_idx s - 1] 0;
        Some (putc 10 (put_count valid_count (puts ''  Valid entries: '' s5))) })"

section \<open>What a message becomes\<close>

definition component_text :: "u8 list option \<Rightarrow> u8 list" where
  "component_text component = (case component of None \<Rightarrow> [] | Some str \<Rightarrow> filter is_alnum (take 12 str) @ [58, 32])"

definition message_text :: "u8 list option \<Rightarrow> u8 list option \<Rightarrow> u8 list" where
  "message_text component message = take 49 (component_text component @
     (case message of None \<Rightarrow> [] | Some str \<Rightarrow>
        map (\<lambda>c. if c = 92 then 47 else c) (filter (\<lambda>c. safe_char c \<or> c = 47 \<or> c = 92) str)))"

text \<open>An array of 50 bytes that holds \<open>t\<close> and zeros.\<close>

definition holds :: "u8 list \<Rightarrow> u8 list \<Rightarrow> bool" where
  "holds msg t \<longleftrightarrow> length t \<le> 50 \<and> msg = t @ replicate (50 - length t) 0"

lemma holds_snoc:
  assumes "holds msg t" "length t < 50"
  shows "\<exists>msg'. arr_set msg (int (length t)) c = Some msg' \<and> holds msg' (t @ [c])"
proof -
  have "replicate (50 - length t) (0 :: u8) = 0 # replicate (49 - length t) 0"
    using assms(2) by (simp flip: replicate_Suc add: Suc_diff_le)
  then show ?thesis using assms by (simp add: holds_def list_update_append)
qed

lemma copy_component_ok:
  "holds msg t \<Longrightarrow> length t \<le> i \<Longrightarrow> i \<le> 12 \<Longrightarrow>
    \<exists>msg'. copy_component str i msg (int (length t)) =
        Some (msg', int (length (t @ filter is_alnum (take (12 - i) str)))) \<and>
      holds msg' (t @ filter is_alnum (take (12 - i) str))"
proof (induction str arbitrary: i msg t)
  case Nil
  then show ?case by simp
next
  case (Cons c str)
  show ?case
  proof (cases "i < 12")
    case False
    then show ?thesis using Cons.prems by simp
  next
    case True
    then have step: "take (12 - i) (c # str) = c # take (12 - Suc i) str" by (simp add: take_Cons')
    show ?thesis
    proof (cases "is_alnum c")
      case False
      then show ?thesis using Cons.IH [of msg t "Suc i"] Cons.prems True step by (simp add: SIMPLE_MSG_LEN_def)
    next
      case al: True
      obtain m where m: "arr_set msg (int (length t)) c = Some m" "holds m (t @ [c])"
        using holds_snoc [OF Cons.prems(1)] Cons.prems(2,3) by fastforce
      from Cons.IH [OF m(2), of "Suc i"] Cons.prems True m(1) al step show ?thesis
        by (simp add: SIMPLE_MSG_LEN_def add.commute)
    qed
  qed
qed

lemma copy_message_ok:
  "holds msg t \<Longrightarrow> length t \<le> 49 \<Longrightarrow>
    \<exists>msg'. copy_message str msg (int (length t)) =
        Some (msg', int (length (take 49 (t @ map (\<lambda>c. if c = 92 then 47 else c) (filter (\<lambda>c. safe_char c \<or> c = 47 \<or> c = 92) str))))) \<and>
      holds msg' (take 49 (t @ map (\<lambda>c. if c = 92 then 47 else c) (filter (\<lambda>c. safe_char c \<or> c = 47 \<or> c = 92) str)))"
proof (induction str arbitrary: msg t)
  case Nil
  then show ?case by simp
next
  case (Cons c str)
  have not92: "\<not> safe_char 92" "(47 :: u8) \<noteq> 92" by (simp_all add: safe_char_def is_alnum_def)
  show ?case
  proof (cases "length t < 49")
    case False
    then have "length t = 49" using Cons.prems(2) by simp
    then show ?thesis using Cons.prems by (simp add: SIMPLE_MSG_LEN_def)
  next
    case True
    define d where "d = (if c = 92 then 47 else c)"
    show ?thesis
    proof (cases "safe_char c \<or> c = 47 \<or> c = 92")
      case False
      then show ?thesis using Cons.IH [of msg t] Cons.prems True by (simp add: SIMPLE_MSG_LEN_def)
    next
      case sc: True
      obtain m where m: "arr_set msg (int (length t)) d = Some m" "holds m (t @ [d])"
        using holds_snoc [OF Cons.prems(1), of d] True by fastforce
      have "copy_message (c # str) msg (int (length t)) = copy_message str m (int (length (t @ [d])))"
        using sc True m(1) not92
        by (cases "c = 92"; cases "safe_char c") (simp_all add: SIMPLE_MSG_LEN_def d_def add.commute)
      with Cons.IH [OF m(2)] True sc show ?thesis by (simp add: d_def)
    qed
  qed
qed

lemma build_message_ok: "\<exists>msg. build_message component message = Some msg \<and> holds msg (message_text component message)"
proof -
  have zero: "holds (replicate SIMPLE_MSG_LEN 0) []" by (simp add: holds_def SIMPLE_MSG_LEN_def)
  let ?t = "component_text component"
  have "\<exists>m. (case component of None \<Rightarrow> Some (replicate SIMPLE_MSG_LEN 0, 0) | Some str \<Rightarrow> do {
         (msg, pos) \<leftarrow> copy_component str 0 (replicate SIMPLE_MSG_LEN 0) 0;
         if pos < int SIMPLE_MSG_LEN - 2 then do {
           msg' \<leftarrow> arr_set msg pos 58;
           msg'' \<leftarrow> arr_set msg' (pos + 1) 32;
           Some (msg'', pos + 2) }
         else Some (msg, pos) }) = Some (m, int (length ?t)) \<and> holds m ?t \<and> length ?t \<le> 49"
  proof (cases component)
    case None
    then show ?thesis using zero by (simp add: component_text_def)
  next
    case (Some str)
    let ?u = "filter is_alnum (take 12 str)"
    have len: "length ?u \<le> 12" by (rule order.trans [OF length_filter_le]) simp
    from copy_component_ok [OF zero, of 0 str] obtain m where m:
      "copy_component str 0 (replicate SIMPLE_MSG_LEN 0) 0 = Some (m, int (length ?u))" "holds m ?u" by auto
    obtain m1 where m1: "arr_set m (int (length ?u)) 58 = Some m1" "holds m1 (?u @ [58])"
      using holds_snoc [OF m(2)] len by fastforce
    obtain m2 where m2: "arr_set m1 (int (length ?u) + 1) 32 = Some m2" "holds m2 (?u @ [58, 32])"
      using holds_snoc [OF m1(2), of 32] len by (auto simp: add.commute)
    show ?thesis using m(1) m1(1) m2 len Some by (simp add: component_text_def SIMPLE_MSG_LEN_def)
  qed
  then obtain m where m: "(case component of None \<Rightarrow> Some (replicate SIMPLE_MSG_LEN 0, 0) | Some str \<Rightarrow> do {
         (msg, pos) \<leftarrow> copy_component str 0 (replicate SIMPLE_MSG_LEN 0) 0;
         if pos < int SIMPLE_MSG_LEN - 2 then do {
           msg' \<leftarrow> arr_set msg pos 58;
           msg'' \<leftarrow> arr_set msg' (pos + 1) 32;
           Some (msg'', pos + 2) }
         else Some (msg, pos) }) = Some (m, int (length ?t))" "holds m ?t" "length ?t \<le> 49" by (elim exE conjE)
  have "\<exists>m'. (case message of None \<Rightarrow> Some (m, int (length ?t)) | Some str \<Rightarrow> copy_message str m (int (length ?t))) =
      Some (m', int (length (message_text component message))) \<and> holds m' (message_text component message)"
    using m(2,3) copy_message_ok [OF m(2,3)] by (cases message) (simp_all add: message_text_def)
  then obtain m' where m': "(case message of None \<Rightarrow> Some (m, int (length ?t)) | Some str \<Rightarrow> copy_message str m (int (length ?t))) =
      Some (m', int (length (message_text component message)))" "holds m' (message_text component message)" by (elim exE conjE)
  have len: "length (message_text component message) \<le> 49" by (simp add: message_text_def)
  then have rep: "replicate (50 - length (message_text component message)) (0 :: u8) =
      0 # replicate (49 - length (message_text component message)) 0"
    by (simp flip: replicate_Suc add: Suc_diff_le)
  have "arr_set m' (int (length (message_text component message))) 0 = Some m'"
    using m'(2) len rep by (simp add: holds_def list_update_append)
  then show ?thesis unfolding build_message_def Let_def m(1) using m'
    by (simp add: m'(1) split: prod.splits)
qed

section \<open>The log as a list of texts\<close>

lemma more_dmesg:
  fixes s s' :: "'a dmesg_scheme"
  assumes "vga.more s' = vga.more s"
  shows "ultra_messages s' = ultra_messages s" "ultra_msg_idx s' = ultra_msg_idx s" "ultra_initialized s' = ultra_initialized s"
  using assms by (cases s; cases s'; simp)+

definition dmesg_ok :: "'a dmesg_scheme \<Rightarrow> bool" where
  "dmesg_ok s \<longleftrightarrow> ultra_initialized s \<noteq> 0 \<longrightarrow> length (ultra_messages s) = 20 \<and> 0 \<le> ultra_msg_idx s \<and> ultra_msg_idx s \<le> 20 \<and>
     (\<forall>i < nat (ultra_msg_idx s). um_valid (ultra_messages s ! i) = 12345 \<and>
        (\<exists>t. holds (um_msg (ultra_messages s ! i)) t \<and> length t \<le> 49 \<and> (\<forall>c \<in> set t. shown_char c)))"

definition dmesg_texts :: "'a dmesg_scheme \<Rightarrow> u8 list list" where
  "dmesg_texts s = (if ultra_initialized s = 0 then []
     else map (\<lambda>e. cstr_of (um_msg e)) (take (nat (ultra_msg_idx s)) (ultra_messages s)))"

lemma shown_nonzero: "shown_char c \<Longrightarrow> c \<noteq> 0"
  by (auto simp: shown_char_def is_alnum_def)

lemma holds_cstr:
  assumes "holds msg t" "length t \<le> 49" "\<forall>c \<in> set t. shown_char c"
  shows "cstr_of msg = t" "length msg = 50"
proof -
  have "replicate (50 - length t) (0 :: u8) = 0 # replicate (49 - length t) 0"
    using assms(2) by (simp flip: replicate_Suc add: Suc_diff_le)
  moreover have "is_cstr t" using assms(3) shown_nonzero by (auto simp: is_cstr_def)
  ultimately show "cstr_of msg = t" "length msg = 50" using assms cstr_of_pad by (simp_all add: holds_def)
qed

lemma message_text_shown: "\<forall>c \<in> set (message_text component message). shown_char c"
  by (auto simp: message_text_def component_text_def shown_char_def safe_char_def is_alnum_def
      dest!: in_set_takeD split: option.splits)

text \<open>A message is appended to the log; when the table is full it is dropped.\<close>

lemma build_text:
  "\<exists>msg. build_message component message = Some msg \<and> cstr_of msg = message_text component message \<and>
    holds msg (message_text component message) \<and> length (message_text component message) \<le> 49"
proof -
  have "length (message_text component message) \<le> 49" by (simp add: message_text_def)
  with build_message_ok holds_cstr(1) message_text_shown show ?thesis by metis
qed

definition dmesg_frame :: "'a dmesg_scheme \<Rightarrow> 'a dmesg_scheme \<Rightarrow> bool" where
  "dmesg_frame s s' \<longleftrightarrow> (\<exists>ms i n. s' = s\<lparr>ultra_messages := ms, ultra_msg_idx := i, ultra_initialized := n\<rparr>)"

lemma dmesg_frameI:
  "dmesg_frame s s" "dmesg_frame s (s\<lparr>ultra_messages := ms, ultra_msg_idx := i\<rparr>)"
  "dmesg_frame s (s\<lparr>ultra_messages := ms, ultra_initialized := n, ultra_msg_idx := i\<rparr>)"
proof -
  have "s = s\<lparr>ultra_messages := ultra_messages s, ultra_msg_idx := ultra_msg_idx s, ultra_initialized := ultra_initialized s\<rparr>"
    by simp
  then show "dmesg_frame s s" unfolding dmesg_frame_def by blast
  have "s\<lparr>ultra_messages := ms, ultra_msg_idx := i\<rparr> = s\<lparr>ultra_messages := ms, ultra_msg_idx := i, ultra_initialized := ultra_initialized s\<rparr>"
    by simp
  then show "dmesg_frame s (s\<lparr>ultra_messages := ms, ultra_msg_idx := i\<rparr>)" unfolding dmesg_frame_def by blast
  have "s\<lparr>ultra_messages := ms, ultra_initialized := n, ultra_msg_idx := i\<rparr> = s\<lparr>ultra_messages := ms, ultra_msg_idx := i, ultra_initialized := n\<rparr>"
    by simp
  then show "dmesg_frame s (s\<lparr>ultra_messages := ms, ultra_initialized := n, ultra_msg_idx := i\<rparr>)"
    unfolding dmesg_frame_def by blast
qed

lemma dmesg_frame_trans: "dmesg_frame s s1 \<Longrightarrow> dmesg_frame s1 s2 \<Longrightarrow> dmesg_frame s s2"
  unfolding dmesg_frame_def by (elim exE) (simp, blast)

lemma add_message_ready:
  assumes "dmesg_ok s" "ultra_initialized s \<noteq> 0"
  shows "\<exists>s'. kernel_add_message level component message s = Some s' \<and> dmesg_ok s' \<and> dmesg_frame s s' \<and>
    dmesg_texts s' = (if length (dmesg_texts s) < 20 then dmesg_texts s @ [message_text component message] else dmesg_texts s)"
proof -
  from assms have ok: "length (ultra_messages s) = 20" "0 \<le> ultra_msg_idx s" "ultra_msg_idx s \<le> 20"
    by (auto simp: dmesg_ok_def)
  then have len: "length (dmesg_texts s) = nat (ultra_msg_idx s)" using assms(2) by (simp add: dmesg_texts_def)
  show ?thesis
  proof (cases "ultra_msg_idx s < 20")
    case False
    then show ?thesis using assms len by (simp add: kernel_add_message_def SIMPLE_MSG_COUNT_def dmesg_frameI)
  next
    case True
    define n where "n = nat (ultra_msg_idx s)"
    have n: "ultra_msg_idx s = int n" "n < 20" using True ok(2) by (simp_all add: n_def)
    obtain msg where msg: "build_message component message = Some msg" "cstr_of msg = message_text component message"
      "holds msg (message_text component message)" "length (message_text component message) \<le> 49"
      using build_text by blast
    let ?e = "\<lparr>um_msg = msg, um_valid = 12345\<rparr>"
    let ?s' = "s\<lparr>ultra_messages := (ultra_messages s)[n := ?e], ultra_msg_idx := int n + 1\<rparr>"
    have "kernel_add_message level component message s = Some ?s'"
      using assms(2) n ok(1) msg(1) by (simp add: kernel_add_message_def SIMPLE_MSG_COUNT_def)
    moreover have "dmesg_ok ?s'"
      using assms n ok(1) msg(3,4) message_text_shown
      by (auto simp: dmesg_ok_def nth_list_update less_Suc_eq nat_add_distrib)
    moreover have "dmesg_texts ?s' = dmesg_texts s @ [message_text component message]"
      using assms(2) n ok(1) msg(2) by (simp add: dmesg_texts_def nat_add_distrib take_Suc_conv_app_nth take_update_cancel)
    moreover have "dmesg_frame s ?s'" by (rule dmesg_frameI)
    ultimately show ?thesis using len n by auto
  qed
qed

lemma kernel_add_message_ok:
  assumes "dmesg_ok s"
  shows "\<exists>s'. kernel_add_message level component message s = Some s' \<and> dmesg_ok s' \<and> dmesg_frame s s' \<and>
    dmesg_texts s' = (if length (dmesg_texts s) < 20 then dmesg_texts s @ [message_text component message] else dmesg_texts s)"
proof (cases "ultra_initialized s = 0")
  case False
  then show ?thesis using add_message_ready [OF assms] by simp
next
  case True
  let ?s1 = "s\<lparr>ultra_messages := replicate SIMPLE_MSG_COUNT zero_msg, ultra_initialized := 1, ultra_msg_idx := 0\<rparr>"
  have "dmesg_ok ?s1" by (simp add: dmesg_ok_def SIMPLE_MSG_COUNT_def)
  from add_message_ready [OF this, of level component message] obtain s' where s':
    "kernel_add_message level component message ?s1 = Some s'" "dmesg_ok s'" "dmesg_frame ?s1 s'"
    "dmesg_texts s' = [message_text component message]" by (auto simp: dmesg_texts_def)
  have "kernel_add_message level component message s = Some s'"
    using s'(1) True by (simp add: kernel_add_message_def)
  moreover have "dmesg_texts s = []" using True by (simp add: dmesg_texts_def)
  ultimately show ?thesis using s'(2-4) dmesg_frame_trans [OF dmesg_frameI(3) s'(3)] by simp
qed

section \<open>The listing\<close>

definition count_text :: "int \<Rightarrow> u8 list" where
  "count_text n = (if n < 10 then [of_int (48 + n)] else [49, of_int (48 + (n - 10))])"

definition line_text :: "nat \<Rightarrow> u8 list \<Rightarrow> u8 list" where
  "line_text i t = (if i < 10 then [48, of_nat (48 + i)] else [49, of_nat (48 + (i - 10))]) @ [58, 32] @ t @ [10]"

definition dmesg_listing :: "u8 list list \<Rightarrow> u8 list" where
  "dmesg_listing texts =
     bytes (''=== Kernel Messages ==='' @ [CHR 0x0A]) @
     concat (map (\<lambda>i. line_text i (texts ! i)) [0..<length texts]) @
     bytes ''=== End Messages ('' @ count_text (int (length texts)) @ bytes ('' shown) ==='' @ [CHR 0x0A])"

lemma puts_fold: "puts str s = fold putc (bytes str) s"
  by (simp add: puts_def fputs_def putc_def [abs_def])

lemma put_count_fold: "put_count n s = fold putc (count_text n) s"
  by (simp add: put_count_def count_text_def)

lemma display_entry_fold:
  fixes s :: "'a vga_scheme"
  assumes "holds (um_msg e) t" "length t \<le> 49" "\<forall>c \<in> set t. shown_char c" "um_valid e = 12345"
  shows "display_entry (int i) e s = fold putc (line_text i t) s"
proof -
  have "takeWhile (\<lambda>c. c \<noteq> 0) (take SIMPLE_MSG_LEN (um_msg e)) = t"
    using holds_cstr [OF assms(1-3)] by (simp add: cstr_of_def SIMPLE_MSG_LEN_def)
  moreover have "fold (\<lambda>c s. if shown_char c then putc c s else putc 63 s) t s = fold putc t s" for s :: "'a vga_scheme"
    using assms(3) by (intro fold_cong) simp_all
  moreover have "of_int (48 + (int i - 10)) = (of_nat (48 + (i - 10)) :: u8)" if "\<not> i < 10"
  proof -
    have "48 + (int i - 10) = int (48 + (i - 10))" using that by simp
    then show ?thesis by (simp only: of_int_of_nat_eq)
  qed
  moreover have "of_int (48 + int i) = (of_nat (48 + i) :: u8)" by simp
  ultimately show ?thesis using assms(4)
    by (simp add: display_entry_def line_text_def Let_def del: of_int_add of_int_diff of_nat_add)
qed

lemma display_lists:
  assumes "dmesg_ok s" "dmesg_texts s \<noteq> []"
  shows "display_kernel_messages s = Some (fold putc (dmesg_listing (dmesg_texts s)) s)"
proof -
  have init: "ultra_initialized s \<noteq> 0" "ultra_msg_idx s \<noteq> 0" using assms(2) by (auto simp: dmesg_texts_def)
  with assms(1) have ok: "length (ultra_messages s) = 20" "0 \<le> ultra_msg_idx s" "ultra_msg_idx s \<le> 20"
    by (auto simp: dmesg_ok_def)
  define n where "n = nat (ultra_msg_idx s)"
  have n: "ultra_msg_idx s = int n" "n \<le> 20" "n \<noteq> 0" using ok init(2) by (simp_all add: n_def)
  have len: "length (dmesg_texts s) = n" using init(1) ok n by (simp add: dmesg_texts_def)
  let ?t = "dmesg_texts s"
  have entry: "um_valid (ultra_messages s ! i) = 12345 \<and> holds (um_msg (ultra_messages s ! i)) (?t ! i) \<and>
      length (?t ! i) \<le> 49 \<and> (\<forall>c \<in> set (?t ! i). shown_char c)" if i: "i < n" for i
  proof -
    from assms(1) init(1) i n obtain t where t: "um_valid (ultra_messages s ! i) = 12345"
      "holds (um_msg (ultra_messages s ! i)) t" "length t \<le> 49" "\<forall>c \<in> set t. shown_char c"
      by (auto simp: dmesg_ok_def)
    moreover have "?t ! i = t" using holds_cstr(1) [OF t(2-4)] i n ok(1) init(1) by (simp add: dmesg_texts_def)
    ultimately show ?thesis by simp
  qed
  define f where "f = (\<lambda>i t :: 'a dmesg_scheme. do { entry \<leftarrow> arr_get (ultra_messages t) i; Some (display_entry i entry t) })"
  have loop: "foldM f [0..int k - 1] s1 = Some (fold putc (concat (map (\<lambda>i. line_text i (?t ! i)) [0..<k])) s1)"
    if "k \<le> n" "vga.more s1 = vga.more s" for k s1
    using that
  proof (induction k)
    case 0
    then show ?case by simp
  next
    case (Suc k)
    have e: "[0..int (Suc k) - 1] = [0..int k - 1] @ [int k]" by (rule upto_snoc)
    let ?s = "fold putc (concat (map (\<lambda>i. line_text i (?t ! i)) [0..<k])) s1"
    have more: "vga.more ?s = vga.more s1"
      by (rule fold_frame) simp
    have "ultra_messages ?s = ultra_messages s" using more_dmesg(1) [of ?s s] more Suc.prems(2) by simp
    then have "arr_get (ultra_messages ?s) (int k) = Some (ultra_messages s ! k)" using Suc.prems(1) n ok(1) by simp
    then have "f (int k) ?s = Some (fold putc (line_text k (?t ! k)) ?s)"
      using display_entry_fold [of "ultra_messages s ! k" "?t ! k"] entry [of k] Suc.prems(1) by (simp add: f_def)
    then show ?case using Suc unfolding e foldM_append by simp
  qed
  let ?s1 = "puts (''=== Kernel Messages ==='' @ [CHR 0x0A]) s"
  have "foldM f [0..int n - 1] ?s1 = Some (fold putc (concat (map (\<lambda>i. line_text i (?t ! i)) [0..<n])) ?s1)"
    by (rule loop) simp_all
  moreover have "min (ultra_msg_idx s) (int SIMPLE_MSG_COUNT) = int n" using n by (simp add: SIMPLE_MSG_COUNT_def)
  ultimately show ?thesis using init n
    unfolding display_kernel_messages_def f_def [symmetric] Let_def
    by (simp add: dmesg_listing_def len puts_fold put_count_fold)
qed

end
