(* ===== verification/SyscallTest.thy ===== *)
theory SyscallTest
  imports UserHeap
begin

text \<open>
  The kernel's self tests (\<open>src/src/kernel/syscall_test.c\<close>), which the shell's \<open>syscall_test\<close>
  runs: clients of every system call.  The main result is about the heap test: in a well-formed
  kernel it always reports success and gives back all it allocated.

  The string literals and stack buffers whose addresses the tests pass to system calls lie in the
  modelled memory at the addresses of the record \<open>test_addr\<close>.
\<close>

section \<open>The remaining wrappers of syscall.h\<close>

definition sys_read :: "env \<Rightarrow> u32 \<Rightarrow> u32 \<Rightarrow> u32 \<Rightarrow> 'a ksys_scheme \<Rightarrow> (u32 \<times> 'a ksys_scheme) option" where
  "sys_read e fd buffer count = SYSCALL3 e 2 fd buffer count"

definition sys_open :: "env \<Rightarrow> u32 \<Rightarrow> u32 \<Rightarrow> 'a ksys_scheme \<Rightarrow> (u32 \<times> 'a ksys_scheme) option" where
  "sys_open e path flags = SYSCALL2 e 5 path flags"

definition sys_close :: "env \<Rightarrow> u32 \<Rightarrow> 'a ksys_scheme \<Rightarrow> (u32 \<times> 'a ksys_scheme) option" where
  "sys_close e fd = SYSCALL1 e 6 fd"

definition sys_write :: "env \<Rightarrow> u32 \<Rightarrow> u32 \<Rightarrow> u32 \<Rightarrow> 'a ksys_scheme \<Rightarrow> (u32 \<times> 'a ksys_scheme) option" where
  "sys_write e fd buffer count = SYSCALL3 e 7 fd buffer count"

definition sys_yield :: "env \<Rightarrow> 'a ksys_scheme \<Rightarrow> (u32 \<times> 'a ksys_scheme) option" where
  "sys_yield e = SYSCALL0 e 12"

definition OPEN_READ :: u32 where "OPEN_READ = 0x01"

section \<open>The tests\<close>

record test_addr =
  ta_hello :: u32
  ta_welcome :: u32
  ta_test_file :: u32
  ta_test_data :: u32
  ta_buffer :: u32
  ta_read_buffer :: u32
  ta_filename :: u32
  ta_data :: u32

text \<open>\<open>strcpy\<close> of a literal, and a string that \<open>snprintf\<close> left in a buffer.\<close>

definition put_cstr :: "u32 \<Rightarrow> u8 list \<Rightarrow> 'a kheap_scheme \<Rightarrow> 'a kheap_scheme" where
  "put_cstr p str s = set_mem (fold (\<lambda>i m. m(p + of_nat i := (str @ [0]) ! i)) [0..<length str + 1] (mem s)) s"

definition syscall_test_basic :: "env \<Rightarrow> test_addr \<Rightarrow> 'a ksys_scheme \<Rightarrow> 'a ksys_scheme option" where
  "syscall_test_basic e ta s = do {
     let s = printf ''=== Testing Basic System Calls ===\<newline>\<newline>'' [] s;
     let s = printf ''1. Testing sys_print():\<newline>'' [] s;
     (result, s) \<leftarrow> sys_print e (ta_hello ta) s;
     let s = printf ''   Result: %d\<newline>\<newline>'' [VI result] s;
     let s = printf ''2. Testing sys_getpid():\<newline>'' [] s;
     (pid, s) \<leftarrow> sys_getpid e s;
     let s = printf ''   PID: %d\<newline>\<newline>'' [VI pid] s;
     let s = printf ''3. Testing sys_time():\<newline>'' [] s;
     (time1, s) \<leftarrow> syscall_time e s;
     (time2, s) \<leftarrow> syscall_time e s;
     Some (printf ''   Time1: %u, Time2: %u\<newline>\<newline>'' [VI time1, VI time2] s) }"

definition syscall_test_memory :: "env \<Rightarrow> 'a ksys_scheme \<Rightarrow> 'a ksys_scheme option" where
  "syscall_test_memory e s = do {
     let s = printf ''=== Testing Memory Management ===\<newline>\<newline>'' [] s;
     let s = printf ''1. Testing sys_malloc():\<newline>'' [] s;
     (ptr1, s) \<leftarrow> sys_malloc e 256 s;
     (ptr2, s) \<leftarrow> sys_malloc e 512 s;
     (ptr3, s) \<leftarrow> sys_malloc e 128 s;
     let s = printf ''   Allocated ptr1: 0x%08X (256 bytes)\<newline>'' [VI ptr1] s;
     let s = printf ''   Allocated ptr2: 0x%08X (512 bytes)\<newline>'' [VI ptr2] s;
     let s = printf ''   Allocated ptr3: 0x%08X (128 bytes)\<newline>'' [VI ptr3] s;
     s \<leftarrow> (if ptr1 \<noteq> 0 \<and> ptr2 \<noteq> 0 \<and> ptr3 \<noteq> 0 then do {
         let s = put_cstr ptr1 (bytes ''Test data 1'') s;
         let s = put_cstr ptr2 (bytes ''This is a longer test string for the 512-byte buffer'') s;
         let s = put_cstr ptr3 (bytes ''Short test'') s;
         data1 \<leftarrow> read_cstr (mem s) ptr1;
         let s = printf ''   Data1: %s\<newline>'' [VS data1] s;
         data2 \<leftarrow> read_cstr (mem s) ptr2;
         let s = printf ''   Data2: %s\<newline>'' [VS data2] s;
         data3 \<leftarrow> read_cstr (mem s) ptr3;
         let s = printf ''   Data3: %s\<newline>'' [VS data3] s;
         let s = printf ''\<newline>2. Testing sys_free():\<newline>'' [] s;
         (free_result1, s) \<leftarrow> sys_free e ptr1 s;
         (free_result2, s) \<leftarrow> sys_free e ptr2 s;
         (free_result3, s) \<leftarrow> sys_free e ptr3 s;
         let s = printf ''   Free ptr1 result: %d\<newline>'' [VI free_result1] s;
         let s = printf ''   Free ptr2 result: %d\<newline>'' [VI free_result2] s;
         Some (printf ''   Free ptr3 result: %d\<newline>'' [VI free_result3] s) }
       else Some (printf ''   ERROR: Memory allocation failed!\<newline>'' [] s));
     Some (printf ''\<newline>'' [] s) }"

definition syscall_test_files :: "env \<Rightarrow> test_addr \<Rightarrow> 'a ksys_scheme \<Rightarrow> 'a ksys_scheme option" where
  "syscall_test_files e ta s = do {
     let s = printf ''=== Testing File System ===\<newline>\<newline>'' [] s;
     let s = printf ''1. Testing sys_open() on existing file:\<newline>'' [] s;
     (fd1, s) \<leftarrow> sys_open e (ta_welcome ta) OPEN_READ s;
     let s = printf ''   File descriptor for 'welcome.txt': %d\<newline>'' [VI fd1] s;
     s \<leftarrow> (if sint fd1 \<ge> 0 then do {
         let s = printf ''\<newline>2. Testing sys_read():\<newline>'' [] s;
         let s = set_mem (memset (mem s) (ta_buffer ta) 0 256) s;
         (bytes_read, s) \<leftarrow> sys_read e fd1 (ta_buffer ta) 255 s;
         let s = printf ''   Bytes read: %d\<newline>'' [VI bytes_read] s;
         text \<leftarrow> read_cstr (mem s) (ta_buffer ta);
         let s = printf ''   Content: %s\<newline>'' [VS text] s;
         let s = printf ''\<newline>3. Testing sys_close():\<newline>'' [] s;
         (close_result, s) \<leftarrow> sys_close e fd1 s;
         Some (printf ''   Close result: %d\<newline>'' [VI close_result] s) }
       else Some s);
     let s = printf ''\<newline>4. Testing file creation:\<newline>'' [] s;
     (fd2, s) \<leftarrow> sys_open e (ta_test_file ta) (OPEN_CREATE OR OPEN_WRITE) s;
     let s = printf ''   Created file descriptor: %d\<newline>'' [VI fd2] s;
     s \<leftarrow> (if sint fd2 \<ge> 0 then do {
         let s = printf ''\<newline>5. Testing sys_write():\<newline>'' [] s;
         len \<leftarrow> strlen (mem s) (ta_test_data ta);
         (bytes_written, s) \<leftarrow> sys_write e fd2 (ta_test_data ta) len s;
         let s = printf ''   Bytes written: %d\<newline>'' [VI bytes_written] s;
         (r, s) \<leftarrow> sys_close e fd2 s;
         let s = printf ''\<newline>6. Testing read back created file:\<newline>'' [] s;
         (fd3, s) \<leftarrow> sys_open e (ta_test_file ta) OPEN_READ s;
         (if sint fd3 \<ge> 0 then do {
            let s = set_mem (memset (mem s) (ta_read_buffer ta) 0 256) s;
            (read_bytes, s) \<leftarrow> sys_read e fd3 (ta_read_buffer ta) 255 s;
            text \<leftarrow> read_cstr (mem s) (ta_read_buffer ta);
            let s = printf ''   Read back %d bytes:\<newline>%s'' [VI read_bytes, VS text] s;
            (r, s) \<leftarrow> sys_close e fd3 s;
            Some s }
          else Some s) }
       else Some s);
     Some (printf ''\<newline>'' [] s) }"

text \<open>The loops of \<open>syscall_test_advanced\<close>.\<close>

definition advanced_alloc :: "env \<Rightarrow> nat \<Rightarrow> u32 list \<times> 'a ksys_scheme \<Rightarrow> (u32 list \<times> 'a ksys_scheme) option" where
  "advanced_alloc e i = (\<lambda>(ptrs, s). do {
     (p, s) \<leftarrow> sys_malloc e (of_nat (64 + i * 32)) s;
     ptrs \<leftarrow> arr_set ptrs (int i) p;
     Some (ptrs, printf ''   Allocated block %d: 0x%08X (%d bytes)\<newline>'' [VI (of_nat i), VI p, VI (of_nat (64 + i * 32))] s) })"

definition advanced_free :: "env \<Rightarrow> nat \<Rightarrow> u32 list \<times> 'a ksys_scheme \<Rightarrow> (u32 list \<times> 'a ksys_scheme) option" where
  "advanced_free e i = (\<lambda>(ptrs, s). do {
     p \<leftarrow> arr_get ptrs (int i);
     (r, s) \<leftarrow> sys_free e p s;
     ptrs \<leftarrow> arr_set ptrs (int i) 0;
     Some (ptrs, printf ''   Freed block %d\<newline>'' [VI (of_nat i)] s) })"

definition free_left :: "env \<Rightarrow> u32 \<Rightarrow> 'a ksys_scheme \<Rightarrow> 'a ksys_scheme option" where
  "free_left e p s = (if p \<noteq> 0 then do { (r, s) \<leftarrow> sys_free e p s; Some s } else Some s)"

definition syscall_test_advanced :: "env \<Rightarrow> 'a ksys_scheme \<Rightarrow> 'a ksys_scheme option" where
  "syscall_test_advanced e s = do {
     let s = printf ''=== Testing Advanced Features ===\<newline>\<newline>'' [] s;
     let s = printf ''1. Testing memory fragmentation:\<newline>'' [] s;
     (ptrs, s) \<leftarrow> foldM (advanced_alloc e) [0..<10] (replicate 10 0, s);
     let s = printf ''\<newline>2. Creating fragmentation by freeing alternate blocks:\<newline>'' [] s;
     (ptrs, s) \<leftarrow> foldM (advanced_free e) [1, 3, 5, 7, 9] (ptrs, s);
     let s = printf ''\<newline>3. Trying to allocate large block after fragmentation:\<newline>'' [] s;
     (large_ptr, s) \<leftarrow> sys_malloc e 1024 s;
     let s = printf ''   Large allocation result: 0x%08X\<newline>'' [VI large_ptr] s;
     s \<leftarrow> foldM (free_left e) ptrs s;
     s \<leftarrow> free_left e large_ptr s;
     let s = printf ''\<newline>4. Testing sys_sleep():\<newline>'' [] s;
     let s = printf ''   Sleeping for 100ms...\<newline>'' [] s;
     (r, s) \<leftarrow> sys_sleep e 100 s;
     let s = printf ''   Sleep completed\<newline>'' [] s;
     let s = printf ''\<newline>5. Testing sys_yield():\<newline>'' [] s;
     (yield_result, s) \<leftarrow> sys_yield e s;
     let s = printf ''   Yield result: %d\<newline>'' [VI yield_result] s;
     Some (printf ''\<newline>'' [] s) }"

definition stress_malloc :: "env \<Rightarrow> nat \<Rightarrow> (int \<times> int) \<times> 'a ksys_scheme \<Rightarrow> ((int \<times> int) \<times> 'a ksys_scheme) option" where
  "stress_malloc e i = (\<lambda>((success, fail), s). do {
     (ptr, s) \<leftarrow> sys_malloc e 128 s;
     if ptr \<noteq> 0 then do {
       (r, s) \<leftarrow> sys_free e ptr (set_mem (memset (mem s) ptr 0xAA 128) s);
       Some ((success + 1, fail), s) }
     else Some ((success, fail + 1), s) })"

text \<open>\<open>snprintf\<close> into a buffer whose size is given.\<close>

definition snprintf_at :: "u32 \<Rightarrow> nat \<Rightarrow> string \<Rightarrow> va list \<Rightarrow> 'a kheap_scheme \<Rightarrow> 'a kheap_scheme option" where
  "snprintf_at p sz fmt args s = do {
     (n, text) \<leftarrow> snprintf sz (bytes fmt) args;
     Some (put_cstr p text s) }"

definition stress_file :: "env \<Rightarrow> test_addr \<Rightarrow> nat \<Rightarrow> (int \<times> int) \<times> 'a ksys_scheme \<Rightarrow> ((int \<times> int) \<times> 'a ksys_scheme) option" where
  "stress_file e ta i = (\<lambda>((success, fail), s). do {
     s \<leftarrow> snprintf_at (ta_filename ta) 32 ''stress_test_%d.txt'' [VI (of_nat i)] s;
     (fd, s) \<leftarrow> sys_open e (ta_filename ta) (OPEN_CREATE OR OPEN_WRITE) s;
     if sint fd \<ge> 0 then do {
       s \<leftarrow> snprintf_at (ta_data ta) 64 ''Stress test file number %d\<newline>'' [VI (of_nat i)] s;
       len \<leftarrow> strlen (mem s) (ta_data ta);
       (r, s) \<leftarrow> sys_write e fd (ta_data ta) len s;
       (r, s) \<leftarrow> sys_close e fd s;
       Some ((success + 1, fail), s) }
     else Some ((success, fail + 1), s) })"

definition syscall_stress_test :: "env \<Rightarrow> test_addr \<Rightarrow> 'a ksys_scheme \<Rightarrow> 'a ksys_scheme option" where
  "syscall_stress_test e ta s = do {
     let s = printf ''=== Stress Testing ===\<newline>\<newline>'' [] s;
     let s = printf ''1. Memory allocation stress test:\<newline>'' [] s;
     ((success_count, fail_count), s) \<leftarrow> foldM (stress_malloc e) [0..<50] ((0, 0), s);
     let s = printf ''   Successful allocations: %d\<newline>'' [VI (of_int success_count)] s;
     let s = printf ''   Failed allocations: %d\<newline>'' [VI (of_int fail_count)] s;
     let s = printf ''\<newline>2. File system stress test:\<newline>'' [] s;
     ((file_success, file_fail), s) \<leftarrow> foldM (stress_file e ta) [0..<20] ((0, 0), s);
     let s = printf ''   Successful file operations: %d\<newline>'' [VI (of_int file_success)] s;
     let s = printf ''   Failed file operations: %d\<newline>'' [VI (of_int file_fail)] s;
     Some (printf ''\<newline>'' [] s) }"

definition syscall_run_all_tests :: "env \<Rightarrow> test_addr \<Rightarrow> 'a ksys_scheme \<Rightarrow> 'a ksys_scheme option" where
  "syscall_run_all_tests e ta s = do {
     let s = printf ''====================================\<newline>'' [] s;
     let s = printf ''    SYSCALL COMPREHENSIVE TEST\<newline>'' [] s;
     let s = printf ''====================================\<newline>\<newline>'' [] s;
     s \<leftarrow> syscall_test_basic e ta s;
     s \<leftarrow> syscall_test_memory e s;
     s \<leftarrow> syscall_test_files e ta s;
     s \<leftarrow> syscall_test_advanced e s;
     s \<leftarrow> syscall_stress_test e ta s;
     let s = printf ''====================================\<newline>'' [] s;
     let s = printf ''         ALL TESTS COMPLETED\<newline>'' [] s;
     Some (printf ''====================================\<newline>'' [] s) }"

section \<open>The heap integrity test\<close>

definition test_size :: "nat \<Rightarrow> nat" where "test_size i = 32 + i * 16"
definition test_byte :: "nat \<Rightarrow> u8" where "test_byte i = of_nat (0x55 + i)"

definition integrity_alloc :: "env \<Rightarrow> nat \<Rightarrow> u32 list \<times> 'a ksys_scheme \<Rightarrow> (u32 list \<times> 'a ksys_scheme) option" where
  "integrity_alloc e i = (\<lambda>(ptrs, s). do {
     (p, s) \<leftarrow> sys_malloc e (of_nat (test_size i)) s;
     ptrs \<leftarrow> arr_set ptrs (int i) p;
     if p \<noteq> 0 then
       Some (ptrs, printf ''  Block %d: 0x%08X (%d bytes)\<newline>'' [VI (of_nat i), VI p, VI (of_nat (test_size i))]
         (set_mem (memset (mem s) p (of_nat (0x55 + i)) (of_nat (test_size i))) s))
     else Some (ptrs, printf ''  Block %d: ALLOCATION FAILED\<newline>'' [VI (of_nat i)] s) })"

definition block_ok :: "mem \<Rightarrow> u32 \<Rightarrow> nat \<Rightarrow> bool" where
  "block_ok m p i \<longleftrightarrow> list_all (\<lambda>j. m (p + of_nat j) = test_byte i) [0..<test_size i]"

definition integrity_check :: "u32 list \<Rightarrow> nat \<Rightarrow> bool \<times> 'a ksys_scheme \<Rightarrow> (bool \<times> 'a ksys_scheme) option" where
  "integrity_check ptrs i = (\<lambda>(integrity_ok, s). do {
     p \<leftarrow> arr_get ptrs (int i);
     if p \<noteq> 0 then
       (let ok = block_ok (mem s) p i
        in Some (if ok then integrity_ok else False,
             printf ''  Block %d integrity: %s\<newline>'' [VI (of_nat i), VS (bytes (if ok then ''OK'' else ''CORRUPTED''))] s))
     else Some (integrity_ok, s) })"

definition integrity_free :: "env \<Rightarrow> nat \<Rightarrow> u32 list \<times> 'a ksys_scheme \<Rightarrow> (u32 list \<times> 'a ksys_scheme) option" where
  "integrity_free e i = (\<lambda>(ptrs, s). do {
     p \<leftarrow> arr_get ptrs (int i);
     if p \<noteq> 0 then do {
       (r, s) \<leftarrow> sys_free e p s;
       ptrs \<leftarrow> arr_set ptrs (int i) 0;
       Some (ptrs, printf ''  Freed block %d\<newline>'' [VI (of_nat i)] s) }
     else Some (ptrs, s) })"

definition integrity_clean :: "env \<Rightarrow> u32 list \<Rightarrow> nat \<Rightarrow> 'a ksys_scheme \<Rightarrow> 'a ksys_scheme option" where
  "integrity_clean e ptrs i s = do {
     p \<leftarrow> arr_get ptrs (int i);
     if p \<noteq> 0 then do { (r, s) \<leftarrow> sys_free e p s; Some (printf ''  Freed block %d\<newline>'' [VI (of_nat i)] s) }
     else Some s }"

definition odd_blocks :: "nat list" where "odd_blocks = [1, 3, 5, 7, 9, 11, 13, 15, 17, 19]"
definition even_blocks :: "nat list" where "even_blocks = [0, 2, 4, 6, 8, 10, 12, 14, 16, 18]"

text \<open>Phases 1 to 5; the result is \<open>integrity_ok\<close>.\<close>

definition integrity_phases :: "env \<Rightarrow> 'a ksys_scheme \<Rightarrow> (bool \<times> 'a ksys_scheme) option" where
  "integrity_phases e s = do {
     let s = printf ''=== Heap Integrity Test ===\<newline>\<newline>'' [] s;
     let s = printf ''Phase 1: Allocating various sized blocks\<newline>'' [] s;
     (test_ptrs, s) \<leftarrow> foldM (integrity_alloc e) [0..<20] (replicate 20 0, s);
     let s = printf ''\<newline>Phase 2: Verifying data integrity\<newline>'' [] s;
     (integrity_ok, s) \<leftarrow> foldM (integrity_check test_ptrs) [0..<20] (True, s);
     let s = printf ''\<newline>Phase 3: Freeing alternate blocks\<newline>'' [] s;
     (test_ptrs, s) \<leftarrow> foldM (integrity_free e) odd_blocks (test_ptrs, s);
     let s = printf ''\<newline>Phase 4: Verifying remaining blocks\<newline>'' [] s;
     (integrity_ok, s) \<leftarrow> foldM (integrity_check test_ptrs) even_blocks (integrity_ok, s);
     let s = printf ''\<newline>Phase 5: Cleaning up remaining blocks\<newline>'' [] s;
     s \<leftarrow> foldM (integrity_clean e test_ptrs) even_blocks s;
     Some (integrity_ok, s) }"

definition syscall_test_heap_integrity :: "env \<Rightarrow> 'a ksys_scheme \<Rightarrow> 'a ksys_scheme option" where
  "syscall_test_heap_integrity e s = do {
     (integrity_ok, s) \<leftarrow> integrity_phases e s;
     let s = printf ''\<newline>Heap integrity test: %s\<newline>'' [VS (bytes (if integrity_ok then ''PASSED'' else ''FAILED''))] s;
     Some (printf ''\<newline>'' [] s) }"

section \<open>The heap test succeeds\<close>

text \<open>
  The state in the middle of the test: \<open>L\<close> are the blocks of other clients, \<open>m0\<close> the memory at the
  start, and every non-null test pointer has a block with its pattern in it.
\<close>

definition pattern_at :: "mem \<Rightarrow> u32 \<Rightarrow> nat \<Rightarrow> bool" where
  "pattern_at m p i \<longleftrightarrow> (\<forall>j < test_size i. m (p + of_nat j) = test_byte i)"

definition tested :: "(nat \<times> nat) set \<Rightarrow> mem \<Rightarrow> u32 list \<Rightarrow> 'a ksys_scheme \<Rightarrow> bool" where
  "tested L m0 ptrs s \<longleftrightarrow> kernel_ok s \<and> length ptrs = 20 \<and>
     {b \<in> user_live s. fst b \<notin> unat ` (set ptrs - {0})} = L \<and> same_on L heap_arena m0 (mem s) \<and>
     (\<forall>i < 20. ptrs ! i \<noteq> 0 \<longrightarrow> (\<exists>k \<ge> test_size i. (unat (ptrs ! i), k) \<in> user_live s) \<and> pattern_at (mem s) (ptrs ! i) i) \<and>
     (\<forall>i < 20. \<forall>j < 20. i \<noteq> j \<and> ptrs ! i \<noteq> 0 \<longrightarrow> ptrs ! i \<noteq> ptrs ! j)"

lemma test_size_bounds: "i < 20 \<Longrightarrow> 0 < test_size i \<and> test_size i < 1000"
  by (simp add: test_size_def)

lemma test_byte_word: "i < 20 \<Longrightarrow> ucast (of_nat (0x55 + i) :: u32) = test_byte i"
  by (simp add: test_byte_def unsigned_of_nat take_bit_nat_eq_self del: of_nat_add)

lemma pattern_same_on:
  assumes "same_on M A m m'" "(unat p, k) \<in> M" "unat p + k \<le> 2 ^ 32" "test_size i \<le> k" "pattern_at m p i"
  shows "pattern_at m' p i"
  using bytes_at_same_on [OF assms(1-4)] assms(5) unfolding pattern_at_def by (metis nth_bytes_at)

lemma user_live_console: "vga.more s' = vga.more s \<Longrightarrow> user_live s' = user_live s" for s s' :: "'a ksys_scheme"
  using heap_frame(2) [OF more_kheap(2-4)] more_ksys(1) [OF more_kheap(1)] by (rule user_live_cong)

lemma tested_block:
  assumes "tested L m0 ptrs s" "j < 20" "ptrs ! j \<noteq> 0"
  shows "\<exists>k. test_size j \<le> k \<and> (unat (ptrs ! j), k) \<in> user_live s \<and> pattern_at (mem s) (ptrs ! j) j"
  using assms unfolding tested_def by blast

lemma tested_printf [simp]: "tested L m0 ptrs s \<Longrightarrow> tested L m0 ptrs (printf fmt args s)"
proof -
  assume t: "tested L m0 ptrs s"
  have m: "vga.more (printf fmt args s) = vga.more s" by simp
  have "kernel_ok s" using t by (simp add: tested_def)
  then have "kernel_ok (printf fmt args s)"
    by (rule kernel_ok_console [OF _ m]) (use t in \<open>simp add: tested_def kernel_ok_def wf_intros\<close>)
  with t show ?thesis by (simp add: tested_def user_live_console [OF m])
qed

lemma set_fill:
  assumes "i < length xs" "xs ! i = (0 :: u32)" "p \<noteq> 0"
  shows "set (xs[i := p]) - {0} = insert p (set xs - {0})"
proof -
  have xs: "set xs = set (take i xs) \<union> {0} \<union> set (drop (Suc i) xs)"
    using id_take_nth_drop [OF assms(1)] assms(2) by (metis Un_assoc list.simps(15) insert_is_Un set_append)
  show ?thesis using assms(1,3) unfolding xs by (auto simp: upd_conv_take_nth_drop)
qed

lemma set_clear:
  assumes "i < length xs" "xs ! i \<noteq> (0 :: u32)" "\<And>j. j < length xs \<Longrightarrow> j \<noteq> i \<Longrightarrow> xs ! j \<noteq> xs ! i"
  shows "set (xs[i := 0]) - {0} = set xs - {0} - {xs ! i}"
proof -
  have "xs ! i \<notin> set (xs[i := 0])"
    using assms by (auto simp: in_set_conv_nth nth_list_update split: if_splits)
  moreover have "set xs = insert (xs ! i) (set (take i xs) \<union> set (drop (Suc i) xs))"
    using id_take_nth_drop [OF assms(1)] by (metis Un_insert_right list.simps(15) set_append)
  moreover have "set (xs[i := 0]) = insert 0 (set (take i xs) \<union> set (drop (Suc i) xs))"
    using assms(1) by (simp add: upd_conv_take_nth_drop)
  ultimately show ?thesis using assms(2) by auto
qed

lemma live_new: "x \<notin> fst ` U \<Longrightarrow> {b \<in> insert (x, k) U. fst b \<notin> insert x T} = {b \<in> U. fst b \<notin> T}"
  by force

lemma tested_alloc:
  assumes t: "tested L m0 ptrs s" and i: "i < 20" "ptrs ! i = 0"
  shows "\<exists>ptrs' s'. integrity_alloc e i (ptrs, s) = Some (ptrs', s') \<and> tested L m0 ptrs' s' \<and>
    (\<forall>j. j \<noteq> i \<longrightarrow> ptrs' ! j = ptrs ! j)"
proof -
  have s: "kernel_ok s" "length ptrs = 20" using t by (simp_all add: tested_def)
  let ?n = "of_nat (test_size i) :: u32"
  have n: "unat ?n = test_size i" using test_size_bounds [OF i(1)] unat_of_nat_u32 [of "test_size i"] by simp
  then have n0: "?n \<noteq> 0" "?n \<le> 0xFFFFFFE0"
    using test_size_bounds [OF i(1)] by (auto simp: word_le_nat_alt)
  from umalloc_call [OF s(1) n0, of e] obtain p s1 where s1: "sys_malloc e ?n s = Some (p, s1)" "kernel_ok s1"
    "same_on (user_live s) heap_arena (mem s) (mem s1)"
    "if p = 0 then user_live s1 = user_live s
     else unat p \<notin> fst ` user_live s \<and> (\<exists>k \<ge> unat ?n. user_live s1 = insert (unat p, k) (user_live s))" by blast
  have L: "L \<subseteq> user_live s" using t by (auto simp: tested_def)
  have old: "pattern_at m (ptrs ! j) j"
    if "j < 20" "ptrs ! j \<noteq> 0" "same_on (user_live s) heap_arena (mem s) m" for j m
  proof -
    from tested_block [OF t that(1,2)] obtain k where "test_size j \<le> k" "(unat (ptrs ! j), k) \<in> user_live s"
      "pattern_at (mem s) (ptrs ! j) j" by blast
    then show ?thesis using pattern_same_on [OF that(3)] umalloc.live_top [OF s(1)] by blast
  qed
  show ?thesis
  proof (cases "p = 0")
    case True
    have "tested L m0 ptrs s1"
      using t s1 True old [OF _ _ s1(3)] same_on_trans [of L heap_arena m0 "mem s" "user_live s" "mem s1"] L
      by (simp add: tested_def)
    moreover have "ptrs[i := 0] = ptrs" using i(2) by (metis list_update_id)
    ultimately show ?thesis using True s1(1) s(2) i
      by (intro exI [of _ ptrs] exI) (auto simp: integrity_alloc_def)
  next
    case False
    with s1(4) n obtain k where k: "unat p \<notin> fst ` user_live s" "test_size i \<le> k" "user_live s1 = insert (unat p, k) (user_live s)"
      by auto
    let ?m = "memset (mem s1) p (of_nat (0x55 + i)) ?n"
    let ?ptrs = "ptrs[i := p]"
    have blk: "(unat p, k) \<in> user_live s1" using k(3) by simp
    have top: "unat p + test_size i \<le> 2 ^ 32" using umalloc.live_top [OF s1(2) blk k(2)] .
    have out: "?m a = mem s1 a" if "unat a \<notin> payload (unat p, k)" for a
      using that k(2) region_of_nat [OF top, of a] by (intro memset_outside) (auto simp: n payload_def)
    have w: "kernel_ok (set_mem ?m s1) \<and> user_live (set_mem ?m s1) = user_live s1 \<and> mem (set_mem ?m s1) = ?m"
      by (rule umalloc.write_spec [OF s1(2) blk]) (rule out)
    have wo: "same_on (user_live s1 - {(unat p, k)}) heap_arena (mem s1) ?m"
      by (rule umalloc.write_others [OF s1(2) blk]) (rule out)
    have sub: "user_live s \<subseteq> user_live s1 - {(unat p, k)}" using k by force
    have same: "same_on (user_live s) heap_arena (mem s) ?m" by (rule same_on_trans [OF s1(3) wo sub])
    have new: "pattern_at ?m p i"
      using memset_inside [of _ p ?n "mem s1" "of_nat (0x55 + i)"] i(1) test_byte_word [of i]
      by (simp add: pattern_at_def n region_mem del: of_nat_add)
    have pn: "p \<noteq> ptrs ! j" if "j < 20" "ptrs ! j \<noteq> 0" for j
    proof -
      from tested_block [OF t that] obtain c where "(unat (ptrs ! j), c) \<in> user_live s" by blast
      then have "unat (ptrs ! j) \<in> fst ` user_live s" by force
      with k(1) show ?thesis by metis
    qed
    have "set ?ptrs - {0} = insert p (set ptrs - {0})"
      using i s(2) False by (intro set_fill) simp_all
    then have "{b \<in> user_live (set_mem ?m s1). fst b \<notin> unat ` (set ?ptrs - {0})} = {b \<in> user_live s. fst b \<notin> unat ` (set ptrs - {0})}"
      using w live_new [OF k(1), of k "unat ` (set ptrs - {0})"] k(3) by (simp only: image_insert simp_thms)
    then have "{b \<in> user_live (set_mem ?m s1). fst b \<notin> unat ` (set ?ptrs - {0})} = L"
      using t by (simp only: tested_def)
    moreover have "same_on L heap_arena m0 ?m"
      using t same same_on_trans [of L heap_arena m0 "mem s" "user_live s" ?m] L by (simp add: tested_def)
    moreover have "\<exists>c \<ge> test_size j. (unat (?ptrs ! j), c) \<in> user_live (set_mem ?m s1)"
      if "j < 20" "?ptrs ! j \<noteq> 0" for j
    proof (cases "j = i")
      case True
      then have "(unat (?ptrs ! j), k) \<in> user_live (set_mem ?m s1)" using w blk s(2) i by simp
      then show ?thesis using k(2) True by blast
    next
      case False
      then have "?ptrs ! j = ptrs ! j" by simp
      then have "(\<exists>c \<ge> test_size j. (unat (?ptrs ! j), c) \<in> user_live s)"
        using tested_block [OF t that(1)] that(2) by metis
      then show ?thesis using w k(3) by blast
    qed
    moreover have "pattern_at ?m (?ptrs ! j) j" if "j < 20" "?ptrs ! j \<noteq> 0" for j
      using that new old [OF _ _ same, of j] s(2) i(1) by (cases "j = i") simp_all
    moreover have "?ptrs ! a \<noteq> ?ptrs ! b" if "a < 20" "b < 20" "a \<noteq> b" "?ptrs ! a \<noteq> 0" for a b
    proof -
      have tt: "ptrs ! a \<noteq> ptrs ! b" if "ptrs ! a \<noteq> 0"
        using t \<open>a < 20\<close> \<open>b < 20\<close> \<open>a \<noteq> b\<close> that by (simp add: tested_def)
      show ?thesis
      proof (cases "a = i")
        case True
        then show ?thesis using that pn [of b] False s(2) by (cases "ptrs ! b = 0") simp_all
      next
        case a: False
        then show ?thesis using that pn [of a] tt s(2) by (cases "b = i") simp_all
      qed
    qed
    ultimately have "tested L m0 ?ptrs (set_mem ?m s1)" using w s(2) by (simp add: tested_def)
    then show ?thesis using False s1(1) s(2) i(1)
      by (intro exI [of _ ?ptrs] exI) (auto simp: integrity_alloc_def)
  qed
qed

text \<open>Freeing one block, and the two loops that free: both keep \<open>tested\<close>, the second one's pointers included.\<close>

lemma tested_free:
  assumes t: "tested L m0 ptrs s" and i: "i < 20" "ptrs ! i \<noteq> 0"
  shows "\<exists>s'. sys_free e (ptrs ! i) s = Some (0, s') \<and> tested L m0 (ptrs[i := 0]) s'"
proof -
  let ?p = "ptrs ! i" and ?ptrs = "ptrs[i := 0]"
  have s: "kernel_ok s" "length ptrs = 20" using t by (simp_all add: tested_def)
  from tested_block [OF t i] obtain k where k: "(unat ?p, k) \<in> user_live s" by blast
  from ufree_call [OF s(1) k, of e] obtain s1 where s1: "sys_free e ?p s = Some (0, s1)" "kernel_ok s1"
    "user_live s1 = {b \<in> user_live s. fst b \<noteq> unat ?p}" "same_on (user_live s) heap_arena (mem s) (mem s1)"
    by blast
  have L: "L \<subseteq> user_live s" using t by (auto simp: tested_def)
  have other: "ptrs ! j \<noteq> ?p" if "j < 20" "j \<noteq> i" for j
    using t that i by (metis tested_def)
  have "set ?ptrs - {0} = set ptrs - {0} - {?p}" using s(2) i other by (intro set_clear) simp_all
  then have "{b \<in> user_live s1. fst b \<notin> unat ` (set ?ptrs - {0})} =
      {b \<in> user_live s. fst b \<noteq> unat ?p \<and> fst b \<notin> unat ` (set ptrs - {0} - {?p})}"
    using s1(3) by simp
  also have "\<dots> = {b \<in> user_live s. fst b \<notin> unat ` (set ptrs - {0})}"
    using i s(2) by (auto simp: image_iff)
  finally have "{b \<in> user_live s1. fst b \<notin> unat ` (set ?ptrs - {0})} = L" using t by (simp only: tested_def)
  moreover have "same_on L heap_arena m0 (mem s1)"
    using t s1(4) same_on_trans [of L heap_arena m0 "mem s" "user_live s" "mem s1"] L by (simp add: tested_def)
  moreover have "(\<exists>c \<ge> test_size j. (unat (?ptrs ! j), c) \<in> user_live s1) \<and> pattern_at (mem s1) (?ptrs ! j) j"
    if "j < 20" "?ptrs ! j \<noteq> 0" for j
  proof -
    have j: "j \<noteq> i" using that s(2) by (cases "j = i") simp_all
    then have p: "?ptrs ! j = ptrs ! j" by simp
    with tested_block [OF t that(1)] that(2) obtain c where c: "test_size j \<le> c" "(unat (ptrs ! j), c) \<in> user_live s"
      "pattern_at (mem s) (ptrs ! j) j" by metis
    have "unat (ptrs ! j) \<noteq> unat ?p" using other [OF that(1) j] by (simp add: word_unat_eq_iff)
    with c s1(3) have "(unat (?ptrs ! j), c) \<in> user_live s1" using p by simp
    moreover have "pattern_at (mem s1) (ptrs ! j) j"
      using pattern_same_on [OF s1(4) c(2) _ c(1,3)] umalloc.live_top [OF s(1) c(2) order.refl] by blast
    ultimately show ?thesis using c(1) p by metis
  qed
  moreover have "?ptrs ! a \<noteq> ?ptrs ! b" if "a < 20" "b < 20" "a \<noteq> b" "?ptrs ! a \<noteq> 0" for a b
  proof -
    have "a \<noteq> i" using that s(2) by (cases "a = i") simp_all
    then show ?thesis using that t s(2) by (cases "b = i") (simp_all add: tested_def)
  qed
  ultimately have "tested L m0 ?ptrs s1" using s1(2) s(2) by (simp add: tested_def)
  with s1(1) show ?thesis by blast
qed

lemma block_ok_iff: "block_ok m p i = pattern_at m p i"
  by (auto simp: block_ok_def pattern_at_def list_all_iff)

lemma tested_check:
  assumes "tested L m0 ptrs s" "i < 20"
  shows "\<exists>s'. integrity_check ptrs i (True, s) = Some (True, s') \<and> tested L m0 ptrs s'"
proof (cases "ptrs ! i = 0")
  case False
  have "length ptrs = 20" using assms(1) by (simp add: tested_def)
  moreover have "pattern_at (mem s) (ptrs ! i) i" using tested_block [OF assms False] by blast
  ultimately show ?thesis using False assms by (simp add: integrity_check_def block_ok_iff arr_get_def)
next
  case True
  have "length ptrs = 20" using assms(1) by (simp add: tested_def)
  then show ?thesis using True assms by (simp add: integrity_check_def arr_get_def)
qed

lemma tested_free_step:
  assumes "tested L m0 ptrs s" "i < 20"
  shows "\<exists>s'. integrity_free e i (ptrs, s) = Some (ptrs[i := 0], s') \<and> tested L m0 (ptrs[i := 0]) s'"
proof (cases "ptrs ! i = 0")
  case False
  have l: "length ptrs = 20" using assms(1) by (simp add: tested_def)
  from tested_free [OF assms False] obtain s1 where "sys_free e (ptrs ! i) s = Some (0, s1)" "tested L m0 (ptrs[i := 0]) s1"
    by blast
  then show ?thesis using False assms(2) l by (simp add: integrity_free_def arr_get_def arr_set_def)
next
  case True
  have "length ptrs = 20" using assms(1) by (simp add: tested_def)
  moreover have "ptrs[i := 0] = ptrs" using True by (metis list_update_id)
  ultimately show ?thesis using True assms by (simp add: integrity_free_def arr_get_def)
qed

text \<open>The last loop frees without clearing the pointer, so its invariant is about the cleared array.\<close>

lemma tested_clean_step:
  assumes "tested L m0 (cur) s" "i < 20" "cur ! i = ptrs ! i" "length ptrs = 20"
  shows "\<exists>s'. integrity_clean e ptrs i s = Some s' \<and> tested L m0 (cur[i := 0]) s'"
proof (cases "ptrs ! i = 0")
  case False
  with tested_free [OF assms(1,2)] assms(3) obtain s1 where "sys_free e (ptrs ! i) s = Some (0, s1)"
    "tested L m0 (cur[i := 0]) s1" by metis
  then show ?thesis using False assms(2,4) by (simp add: integrity_clean_def arr_get_def)
next
  case True
  have "cur[i := 0] = cur" using True assms(3) by (metis list_update_id)
  then show ?thesis using True assms by (simp add: integrity_clean_def arr_get_def)
qed

text \<open>The loops.\<close>

lemma alloc_phase:
  "tested L m0 ptrs s \<Longrightarrow> distinct is \<Longrightarrow> \<forall>i \<in> set is. i < 20 \<and> ptrs ! i = 0 \<Longrightarrow>
    \<exists>ptrs' s'. foldM (integrity_alloc e) is (ptrs, s) = Some (ptrs', s') \<and> tested L m0 ptrs' s'"
proof (induction "is" arbitrary: ptrs s)
  case (Cons i js)
  then have "i < 20" "ptrs ! i = 0" by simp_all
  from tested_alloc [OF Cons.prems(1) this, of e] obtain ptrs1 s1
    where 1: "integrity_alloc e i (ptrs, s) = Some (ptrs1, s1)" "tested L m0 ptrs1 s1"
      "\<forall>j. j \<noteq> i \<longrightarrow> ptrs1 ! j = ptrs ! j" by blast
  have "\<forall>j \<in> set js. j < 20 \<and> ptrs1 ! j = 0" using Cons.prems(2,3) 1(3) by (metis distinct.simps(2) list.set_intros(2))
  with Cons.IH [OF 1(2)] Cons.prems(2) 1(1) show ?case by simp
qed simp

lemma check_phase:
  assumes "tested L m0 ptrs s" "\<forall>i \<in> set is. i < 20"
  shows "\<exists>s'. foldM (integrity_check ptrs) is (True, s) = Some (True, s') \<and> tested L m0 ptrs s'"
proof -
  have "\<exists>y. foldM (integrity_check ptrs) is (True, s) = Some y \<and> (fst y \<and> tested L m0 ptrs (snd y))"
    by (rule foldM_inv) (use assms tested_check in \<open>auto, blast\<close>)
  then show ?thesis by auto
qed

lemma free_phase:
  "tested L m0 ptrs s \<Longrightarrow> \<forall>i \<in> set is. i < 20 \<Longrightarrow>
    \<exists>s'. foldM (integrity_free e) is (ptrs, s) = Some (fold (\<lambda>i p. p[i := 0]) is ptrs, s') \<and>
      tested L m0 (fold (\<lambda>i p. p[i := 0]) is ptrs) s'"
proof (induction "is" arbitrary: ptrs s)
  case (Cons i js)
  then have "i < 20" by simp
  from tested_free_step [OF Cons.prems(1) this, of e] obtain s1
    where 1: "integrity_free e i (ptrs, s) = Some (ptrs[i := 0], s1)" "tested L m0 (ptrs[i := 0]) s1" by blast
  with Cons.IH [OF 1(2)] Cons.prems(2) show ?case by simp
qed simp

lemma clean_phase:
  "tested L m0 cur s \<Longrightarrow> distinct is \<Longrightarrow> \<forall>i \<in> set is. i < 20 \<and> cur ! i = ptrs ! i \<Longrightarrow> length ptrs = 20 \<Longrightarrow>
    \<exists>s'. foldM (integrity_clean e ptrs) is s = Some s' \<and> tested L m0 (fold (\<lambda>i p. p[i := 0]) is cur) s'"
proof (induction "is" arbitrary: cur s)
  case (Cons i js)
  then have i: "i < 20" "cur ! i = ptrs ! i" by simp_all
  from tested_clean_step [OF Cons.prems(1) i Cons.prems(4), of e] obtain s1
    where 1: "integrity_clean e ptrs i s = Some s1" "tested L m0 (cur[i := 0]) s1" by blast
  have "\<forall>j \<in> set js. j < 20 \<and> cur[i := 0] ! j = ptrs ! j"
    using Cons.prems(2,3) by (metis distinct.simps(2) list.set_intros(2) nth_list_update_neq)
  with Cons.IH [OF 1(2)] Cons.prems(2,4) 1(1) show ?case by simp
qed simp

lemma all_cleared:
  assumes "length ptrs = 20"
  shows "fold (\<lambda>i p. p[i := 0]) even_blocks (fold (\<lambda>i p. p[i := 0]) odd_blocks ptrs) = replicate 20 (0 :: u32)"
  using assms by (simp add: even_blocks_def odd_blocks_def eval_nat_numeral length_Suc_conv) auto

lemma tested_start: "kernel_ok s \<Longrightarrow> tested (user_live s) (mem s) (replicate 20 0) s"
  by (simp add: tested_def same_on_def)

lemma tested_end: "tested L m0 (replicate 20 0) s \<Longrightarrow> kernel_ok s \<and> user_live s = L \<and> same_on L heap_arena m0 (mem s)"
  by (simp add: tested_def)

lemma integrity_phases_ok:
  assumes "kernel_ok s"
  shows "\<exists>s'. integrity_phases e s = Some (True, s') \<and> kernel_ok s' \<and> user_live s' = user_live s \<and>
    same_on (user_live s) heap_arena (mem s) (mem s')"
proof -
  let ?T = "tested (user_live s) (mem s)"
  let ?s1 = "printf ''Phase 1: Allocating various sized blocks\<newline>'' [] (printf ''=== Heap Integrity Test ===\<newline>\<newline>'' [] s)"
  have "?T (replicate 20 0) ?s1" using tested_start [OF assms] by (intro tested_printf)
  then obtain ptrs s2 where 2: "foldM (integrity_alloc e) [0..<20] (replicate 20 0, ?s1) = Some (ptrs, s2)" "?T ptrs s2"
    using alloc_phase [of "user_live s" "mem s" "replicate 20 0" ?s1 "[0..<20]" e] by auto
  let ?s3 = "printf ''\<newline>Phase 2: Verifying data integrity\<newline>'' [] s2"
  from check_phase [OF tested_printf [OF 2(2)], of "[0..<20]"] obtain s4
    where 4: "foldM (integrity_check ptrs) [0..<20] (True, ?s3) = Some (True, s4)" "?T ptrs s4" by auto
  let ?s5 = "printf ''\<newline>Phase 3: Freeing alternate blocks\<newline>'' [] s4"
  let ?ptrs = "fold (\<lambda>i p. p[i := 0]) odd_blocks ptrs"
  from free_phase [OF tested_printf [OF 4(2)], of odd_blocks e] obtain s6
    where 6: "foldM (integrity_free e) odd_blocks (ptrs, ?s5) = Some (?ptrs, s6)" "?T ?ptrs s6"
    by (auto simp: odd_blocks_def)
  let ?s7 = "printf ''\<newline>Phase 4: Verifying remaining blocks\<newline>'' [] s6"
  from check_phase [OF tested_printf [OF 6(2)], of even_blocks] obtain s8
    where 8: "foldM (integrity_check ?ptrs) even_blocks (True, ?s7) = Some (True, s8)" "?T ?ptrs s8"
    by (auto simp: even_blocks_def)
  let ?s9 = "printf ''\<newline>Phase 5: Cleaning up remaining blocks\<newline>'' [] s8"
  have "length ?ptrs = 20" "length ptrs = 20" using 6(2) 2(2) by (simp_all add: tested_def)
  moreover have "distinct even_blocks" "\<forall>i \<in> set even_blocks. i < 20" by (simp_all add: even_blocks_def)
  ultimately obtain t where t: "foldM (integrity_clean e ?ptrs) even_blocks ?s9 = Some t" "?T (replicate 20 0) t"
    using clean_phase [OF tested_printf [OF 8(2)], of even_blocks ?ptrs] all_cleared by metis
  have "integrity_phases e s = Some (True, t)"
    unfolding integrity_phases_def Let_def using 2(1) 4(1) 6(1) 8(1) t(1) by simp
  with tested_end [OF t(2)] show ?thesis by blast
qed

end
