(* ===== verification/Console.thy ===== *)
theory Console
  imports Dmesg SyscallTest
begin

text \<open>
  What surrounds a shell command (\<open>src/src/kernel/shell/shell_commands.c\<close>): the machine's answers
  that the code asks for, and keyboard input that arrives while a command waits.

  A waiting loop of the code polls the keyboard's ring buffer, which the keyboard interrupt fills.
  The future input is a list of batches: the scancodes that interrupt the loop between two of its
  polls.  When the list is used up no further key is pressed, and a loop that still waits never
  returns, which is the value \<^const>\<open>None\<close>.
\<close>

section \<open>The machine\<close>

text \<open>
  \<open>m_behind\<close> are the bytes behind a local buffer on the stack.  \<open>m_resets\<close>: does the keyboard
  controller reset the processor when told to.  \<open>m_tests\<close> and \<open>m_hello\<close>: addresses of the literals
  that the commands pass to system calls.
\<close>

record machine =
  m_env :: env
  m_cpuid :: "u32 \<Rightarrow> u32 \<times> u32 \<times> u32 \<times> u32"
  m_regs :: Registers
  m_behind :: "u8 list"
  m_resets :: bool
  m_tests :: test_addr
  m_hello :: u32

record console = dmesg +
  scancodes :: "u8 list list"
  polled :: "u8 option list"

section \<open>Input while waiting\<close>

definition key_irq :: "env \<Rightarrow> u8 \<Rightarrow> 'a ksys_scheme \<Rightarrow> 'a ksys_scheme option" where
  "key_irq e scancode s =
     (if interrupts_on s then do { (r, s') \<leftarrow> isr_common e scancode ((env_regs e)\<lparr>r_interrupt := 33\<rparr>) s; Some s' }
      else Some s)"

definition deliver :: "env \<Rightarrow> u8 list \<Rightarrow> 'a ksys_scheme \<Rightarrow> 'a ksys_scheme option" where
  "deliver e batch s = foldM (key_irq e) batch s"

text \<open>\<open>while (!keyboard_buffer_pop(&c));\<close>\<close>

fun key_loop :: "env \<Rightarrow> u8 list list \<Rightarrow> 'a ksys_scheme \<Rightarrow> (u8 \<times> u8 list list \<times> 'a ksys_scheme) option" where
  "key_loop e [] s =
     (case keyboard_buffer_pop s of (Some c, s') \<Rightarrow> Some (c, [], s') | (None, s') \<Rightarrow> None)"
| "key_loop e (b # bs) s = do {
     s1 \<leftarrow> deliver e b s;
     (case keyboard_buffer_pop s1 of (Some c, s2) \<Rightarrow> Some (c, bs, s2) | (None, s2) \<Rightarrow> key_loop e bs s2) }"

definition wait_key :: "machine \<Rightarrow> 'a console_scheme \<Rightarrow> (u8 \<times> 'a console_scheme) option" where
  "wait_key m s = do { (c, bs, s') \<leftarrow> key_loop (m_env m) (scancodes s) s; Some (c, s'\<lparr>scancodes := bs\<rparr>) }"

text \<open>
  \<open>shell_getc\<close>: a pass of its loop takes two batches, one before the poll and one between the
  failed poll and \<open>keyboard_process_buffer\<close>, which does nothing in the shell's mode and otherwise
  removes whatever the second one brought.
\<close>

fun getc_loop :: "env \<Rightarrow> u8 list list \<Rightarrow> 'a ksys_scheme \<Rightarrow> (u8 \<times> u8 list list \<times> 'a ksys_scheme) option" where
  "getc_loop e [] s =
     (case keyboard_buffer_pop s of (Some c, s') \<Rightarrow> Some (c, [], s') | (None, s') \<Rightarrow> None)"
| "getc_loop e [b] s = do {
     s1 \<leftarrow> deliver e b s;
     (case keyboard_buffer_pop s1 of (Some c, s2) \<Rightarrow> Some (c, [], s2) | (None, s2) \<Rightarrow> None) }"
| "getc_loop e (b1 # b2 # bs) s = do {
     s1 \<leftarrow> deliver e b1 s;
     (case keyboard_buffer_pop s1 of
        (Some c, s2) \<Rightarrow> Some (c, b2 # bs, s2)
      | (None, s2) \<Rightarrow> do { s3 \<leftarrow> deliver e b2 s2; s4 \<leftarrow> keyboard_process_buffer s3; getc_loop e bs s4 }) }"

definition shell_getc :: "machine \<Rightarrow> 'a console_scheme \<Rightarrow> (u8 \<times> 'a console_scheme) option" where
  "shell_getc m s = do { (c, bs, s') \<leftarrow> getc_loop (m_env m) (scancodes s) s; Some (c, s'\<lparr>scancodes := bs\<rparr>) }"

text \<open>A string in a local array of the caller: without a NUL, reading it leaves the array.\<close>

definition arr_str :: "u8 list \<Rightarrow> u8 list option" where
  "arr_str buf = (if 0 \<in> set buf then Some (cstr_of buf) else None)"

section \<open>Waiting keeps the kernel well formed\<close>

lemma key_irq_ok:
  assumes "kernel_ok s"
  shows "\<exists>s'. key_irq e sc s = Some s' \<and> kernel_ok s'"
  using isr_common_ok [OF assms, of "(env_regs e)\<lparr>r_interrupt := 33\<rparr>" e sc] assms
  by (auto simp: key_irq_def)

lemma deliver_ok:
  assumes "kernel_ok s"
  shows "\<exists>s'. deliver e batch s = Some s' \<and> kernel_ok s'"
  unfolding deliver_def by (rule foldM_inv [where P = kernel_ok, OF assms]) (rule key_irq_ok)

end
