(* ===== verification/Commands.thy ===== *)
theory Commands
  imports Console
begin

text \<open>
  The shell commands that do not touch the RAM file system
  (\<open>src/src/kernel/shell/shell_commands.c\<close>, lines 404 to 712 and 1136 to 1636): the command table
  with its categories, and one definition per command.  A command gets its arguments as a list, the
  first one its own name, and returns the number that the C function returns.
\<close>

section \<open>The table\<close>

datatype command =
    CMD_help | CMD_clear | CMD_echo | CMD_version
  | CMD_memory | CMD_uptime | CMD_cpuinfo | CMD_cpuid | CMD_dmesg
  | CMD_ls | CMD_cd | CMD_pwd | CMD_mkdir | CMD_rm | CMD_cat | CMD_edit | CMD_touch | CMD_find | CMD_grep | CMD_wc
  | CMD_memtest | CMD_interrupt | CMD_hexdump | CMD_keytest | CMD_benchmark | CMD_registers
  | CMD_syscall_test | CMD_malloc_test | CMD_heap_info | CMD_sleep_test
  | CMD_reboot | CMD_panic | CMD_exit

record ShellCommandEntry =
  sc_name :: string
  sc_description :: string
  sc_function :: command

definition entry :: "string \<Rightarrow> string \<Rightarrow> command \<Rightarrow> ShellCommandEntry" where
  "entry n d f = \<lparr>sc_name = n, sc_description = d, sc_function = f\<rparr>"

text \<open>The terminating NULL entry is the end of the list.\<close>

definition shell_commands :: "ShellCommandEntry list" where
  "shell_commands = [
     entry ''help'' ''Show available commands'' CMD_help,
     entry ''clear'' ''Clear the screen'' CMD_clear,
     entry ''echo'' ''Display a line of text'' CMD_echo,
     entry ''version'' ''Show OS version information'' CMD_version,
     entry ''memory'' ''Show memory information'' CMD_memory,
     entry ''uptime'' ''Show system uptime'' CMD_uptime,
     entry ''cpuinfo'' ''Show CPU information'' CMD_cpuinfo,
     entry ''cpuid'' ''Show detailed CPU information via CPUID'' CMD_cpuid,
     entry ''dmesg'' ''Show kernel messages'' CMD_dmesg,
     entry ''ls'' ''List directory contents'' CMD_ls,
     entry ''cd'' ''Change directory'' CMD_cd,
     entry ''pwd'' ''Print working directory'' CMD_pwd,
     entry ''mkdir'' ''Create directory'' CMD_mkdir,
     entry ''rm'' ''Remove file or directory'' CMD_rm,
     entry ''cat'' ''Display file contents'' CMD_cat,
     entry ''edit'' ''Edit text file'' CMD_edit,
     entry ''touch'' ''Create empty file'' CMD_touch,
     entry ''find'' ''Find files by name pattern'' CMD_find,
     entry ''grep'' ''Search text in files'' CMD_grep,
     entry ''wc'' ''Count lines, words and characters'' CMD_wc,
     entry ''memtest'' ''Run basic memory test'' CMD_memtest,
     entry ''interrupt'' ''Control interrupt state'' CMD_interrupt,
     entry ''hexdump'' ''Display file/memory in hexadecimal'' CMD_hexdump,
     entry ''keytest'' ''Test keyboard input (shows scancodes)'' CMD_keytest,
     entry ''benchmark'' ''Run CPU benchmark'' CMD_benchmark,
     entry ''registers'' ''Show CPU register values'' CMD_registers,
     entry ''syscall_test'' ''Test system call functionality'' CMD_syscall_test,
     entry ''malloc_test'' ''Test memory allocation via syscall'' CMD_malloc_test,
     entry ''heap_info'' ''Show heap information and test'' CMD_heap_info,
     entry ''sleep'' ''Test sleep syscall'' CMD_sleep_test,
     entry ''reboot'' ''Restart the system'' CMD_reboot,
     entry ''panic'' ''Trigger a kernel panic (for testing)'' CMD_panic,
     entry ''exit'' ''Power off / halt the system'' CMD_exit]"

definition get_shell_command_count :: nat where
  "get_shell_command_count = length shell_commands"

text \<open>\<open>shell_strcmp\<close> against a literal.\<close>

definition is_arg :: "u8 list \<Rightarrow> string \<Rightarrow> bool" where
  "is_arg a lit \<longleftrightarrow> shell_strcmp a (bytes lit) = 0"

definition find_shell_command :: "u8 list \<Rightarrow> ShellCommandEntry option" where
  "find_shell_command name = find (\<lambda>c. shell_strcmp (bytes (sc_name c)) name = 0) shell_commands"

definition get_command_category :: "u8 list \<Rightarrow> string" where
  "get_command_category name =
     (if is_arg name ''help'' \<or> is_arg name ''clear'' \<or> is_arg name ''echo'' \<or> is_arg name ''version''
      then ''Basic Commands''
      else if is_arg name ''memory'' \<or> is_arg name ''uptime'' \<or> is_arg name ''cpuinfo'' \<or> is_arg name ''cpuid'' \<or>
        is_arg name ''dmesg''
      then ''System Information''
      else if is_arg name ''ls'' \<or> is_arg name ''cd'' \<or> is_arg name ''pwd'' \<or> is_arg name ''mkdir'' \<or>
        is_arg name ''rm'' \<or> is_arg name ''cat'' \<or> is_arg name ''edit'' \<or> is_arg name ''touch'' \<or>
        is_arg name ''find'' \<or> is_arg name ''grep'' \<or> is_arg name ''wc''
      then ''File System''
      else if is_arg name ''memtest'' \<or> is_arg name ''ports'' \<or> is_arg name ''interrupt'' \<or> is_arg name ''hexdump'' \<or>
        is_arg name ''keytest'' \<or> is_arg name ''benchmark'' \<or> is_arg name ''registers''
      then ''Hardware & Debug''
      else if is_arg name ''syscall_test'' \<or> is_arg name ''malloc_test'' \<or> is_arg name ''heap_info'' \<or>
        is_arg name ''syscall_info'' \<or> is_arg name ''sleep''
      then ''System Calls''
      else if is_arg name ''reboot'' \<or> is_arg name ''panic'' \<or> is_arg name ''exit''
      then ''System Control''
      else ''Other Commands'')"

section \<open>Basic commands\<close>

definition categories :: "string list" where
  "categories = [''Basic Commands'', ''System Information'', ''File System'', ''Hardware & Debug'',
     ''System Calls'', ''System Control'']"

definition in_category :: "string \<Rightarrow> ShellCommandEntry \<Rightarrow> bool" where
  "in_category cat c \<longleftrightarrow> shell_strcmp (bytes (get_command_category (bytes (sc_name c)))) (bytes cat) = 0"

definition LINES_PER_PAGE :: int where "LINES_PER_PAGE = 20"

text \<open>
  One command of the listing: the number of lines on the page and whether the listing goes on.  A
  full page waits for a key.
\<close>

definition help_line ::
    "machine \<Rightarrow> ShellCommandEntry \<Rightarrow> bool \<times> int \<times> 'a console_scheme \<Rightarrow> (bool \<times> int \<times> 'a console_scheme) option" where
  "help_line m c = (\<lambda>(run, line_count, s).
     if \<not> run then Some (run, line_count, s)
     else
       let s = printf ''  %s - %s\<newline>'' [VS (bytes (sc_name c)), VS (bytes (sc_description c))] s;
           line_count = line_count + 1
       in if line_count \<ge> LINES_PER_PAGE then do {
            let s = printf ''\<newline>Press any key to continue (q to quit)...'' [] s;
            (key, s) \<leftarrow> wait_key m s;
            if key = 113 \<or> key = 81 then Some (False, line_count, printf ''\<newline>'' [] s)
            else Some (True, 0, printf ([CHR 0x0D] @ ''                                           '' @ [CHR 0x0D]) [] s) }
          else Some (True, line_count, s))"

definition help_category ::
    "machine \<Rightarrow> string \<Rightarrow> bool \<times> int \<times> 'a console_scheme \<Rightarrow> (bool \<times> int \<times> 'a console_scheme) option" where
  "help_category m cat = (\<lambda>(run, line_count, s).
     if \<not> run \<or> filter (in_category cat) shell_commands = [] then Some (run, line_count, s)
     else do {
       let s = printf ''[%s]\<newline>'' [VS (bytes cat)] s;
       (run, line_count, s) \<leftarrow> foldM (help_line m) (filter (in_category cat) shell_commands) (True, line_count + 1, s);
       if run then Some (True, line_count + 1, printf ''\<newline>'' [] s) else Some (False, line_count, s) })"

definition cmd_help :: "machine \<Rightarrow> u8 list list \<Rightarrow> 'a console_scheme \<Rightarrow> (int \<times> 'a console_scheme) option" where
  "cmd_help m argv s = do {
     let s = printf ''=== MiqOSoft Shell Commands ===\<newline>\<newline>'' [] s;
     (run, line_count, s) \<leftarrow> foldM (help_category m) categories (True, 0, s);
     Some (0, s) }"

definition cmd_clear :: "u8 list list \<Rightarrow> 'a vga_scheme \<Rightarrow> int \<times> 'a vga_scheme" where
  "cmd_clear argv s = (0, VGA_clrscr s)"

fun echo_args :: "u8 list list \<Rightarrow> 'a vga_scheme \<Rightarrow> 'a vga_scheme" where
  "echo_args [] s = s"
| "echo_args (a # as) s =
     (let s = printf ''%s'' [VS a] s in echo_args as (if as \<noteq> [] then printf '' '' [] s else s))"

definition cmd_echo :: "u8 list list \<Rightarrow> 'a vga_scheme \<Rightarrow> int \<times> 'a vga_scheme" where
  "cmd_echo argv s = (0, printf ''\<newline>'' [] (echo_args (drop 1 argv) s))"

definition cmd_version :: "u8 list list \<Rightarrow> 'a vga_scheme \<Rightarrow> int \<times> 'a vga_scheme" where
  "cmd_version argv s =
     (let s = printf ''MiqOSoft Kernel v1.0\<newline>'' [] s;
          s = printf ''Architecture: i686 (32-bit)\<newline>'' [] s;
          s = printf ''Built with: GCC cross-compiler\<newline>'' [] s;
          s = printf ''Shell: MiqOSoft Shell v1.0\<newline>'' [] s
      in (0, printf ''Features: RAM File System, System calls, Memory management\<newline>'' [] s))"

section \<open>System information\<close>

definition cmd_memory :: "machine \<Rightarrow> u8 list list \<Rightarrow> 'a ksys_scheme \<Rightarrow> (int \<times> 'a ksys_scheme) option" where
  "cmd_memory m argv s = do {
     let s = printf ''Memory Information:\<newline>'' [] s;
     let s = printf ''  Kernel Memory Range: 0x100000 - 0x200000 (1MB)\<newline>'' [] s;
     let s = printf ''  Heap Start: 0x%X (%dMB)\<newline>'' [VI 0x400000, VI (0x400000 div 1048576)] s;
     let s = printf ''  Heap Size: %dKB (%d bytes)\<newline>'' [VI (0x100000 div 1024), VI 0x100000] s;
     let s = printf ''  Block Size: %d bytes\<newline>'' [VI 32] s;
     (test_ptr1, s) \<leftarrow> sys_malloc (m_env m) 1024 s;
     (test_ptr2, s) \<leftarrow> sys_malloc (m_env m) 2048 s;
     (test_ptr3, s) \<leftarrow> sys_malloc (m_env m) 4096 s;
     let s = printf ''  Memory Management: Simple block allocator\<newline>'' [] s;
     let s = printf ''\<newline>Heap Status Test:\<newline>'' [] s;
     if test_ptr1 \<noteq> 0 \<and> test_ptr2 \<noteq> 0 \<and> test_ptr3 \<noteq> 0 then do {
       let s = printf ''  Test allocation 1: 0x%X (1KB)\<newline>'' [VI test_ptr1] s;
       let s = printf ''  Test allocation 2: 0x%X (2KB)\<newline>'' [VI test_ptr2] s;
       let s = printf ''  Test allocation 3: 0x%X (4KB)\<newline>'' [VI test_ptr3] s;
       let block_overhead = (if test_ptr2 > test_ptr1 then test_ptr2 - test_ptr1 - 1024 else 0);
       let s = printf ''  Block overhead: ~%d bytes\<newline>'' [VI block_overhead] s;
       (r, s) \<leftarrow> sys_free (m_env m) test_ptr1 s;
       (r, s) \<leftarrow> sys_free (m_env m) test_ptr2 s;
       (r, s) \<leftarrow> sys_free (m_env m) test_ptr3 s;
       Some (0, printf ''  Memory test successful - allocations freed\<newline>'' [] s) }
     else do {
       let s = printf ''  Memory test failed - could not allocate test blocks\<newline>'' [] s;
       let s = printf ''  Heap may be full or corrupted\<newline>'' [] s;
       s \<leftarrow> free_left (m_env m) test_ptr1 s;
       s \<leftarrow> free_left (m_env m) test_ptr2 s;
       s \<leftarrow> free_left (m_env m) test_ptr3 s;
       Some (0, s) } }"

definition cmd_uptime :: "machine \<Rightarrow> u8 list list \<Rightarrow> 'a ksys_scheme \<Rightarrow> (int \<times> 'a ksys_scheme) option" where
  "cmd_uptime m argv s = do {
     (milliseconds, s) \<leftarrow> syscall_time (m_env m) s;
     let seconds = milliseconds div 1000;
     let minutes = seconds div 60;
     let hours = minutes div 60;
     Some (0, printf ''System has been up for: %u:%u:%u\<newline>'' [VI hours, VI (minutes mod 60), VI (seconds mod 60)] s) }"

definition cmd_cpuinfo :: "u8 list list \<Rightarrow> 'a vga_scheme \<Rightarrow> int \<times> 'a vga_scheme" where
  "cmd_cpuinfo argv s =
     (let s = printf ''CPU Information:\<newline>'' [] s;
          s = printf ''  Architecture: i686 (32-bit x86)\<newline>'' [] s;
          s = printf ''  Instruction Set: x86\<newline>'' [] s;
          s = printf ''  Protected Mode: Enabled\<newline>'' [] s;
          s = printf ''  Paging: Disabled\<newline>'' [] s;
          s = printf ''  Interrupts: Available\<newline>'' [] s;
          s = printf ''  FPU: Available (if present)\<newline>'' [] s
      in (0, printf ''  For detailed info use: cpuid\<newline>'' [] s))"

text \<open>A word's bytes in memory order, and a flag that prints its name when it is set.\<close>

definition word_bytes :: "u32 \<Rightarrow> u8 list" where
  "word_bytes w = map (\<lambda>i. ucast (drop_bit (8 * i) w)) [0, 1, 2, 3]"

definition show_flag :: "u32 \<Rightarrow> nat \<times> string \<Rightarrow> 'a vga_scheme \<Rightarrow> 'a vga_scheme" where
  "show_flag w = (\<lambda>(i, name) s. if bit w i then printf name [] s else s)"

definition cmd_cpuid :: "machine \<Rightarrow> u8 list list \<Rightarrow> 'a vga_scheme \<Rightarrow> int \<times> 'a vga_scheme" where
  "cmd_cpuid m argv s =
     (case m_cpuid m 0 of (eax, ebx, ecx, edx) \<Rightarrow>
       (let vendor = cstr_of (word_bytes ebx @ word_bytes edx @ word_bytes ecx @ [0]);
            s = printf ''CPU Information:\<newline>'' [] s;
            s = printf ''  Vendor: %s\<newline>'' [VS vendor] s;
            s = printf ''  Max CPUID level: %u\<newline>'' [VI eax] s
        in if eax \<ge> 1 then
             (case m_cpuid m 1 of (eax, ebx, ecx, edx) \<Rightarrow>
               (let s = printf ''  Family: %u\<newline>'' [VI (drop_bit 8 eax AND 0xF)] s;
                    s = printf ''  Model: %u\<newline>'' [VI (drop_bit 4 eax AND 0xF)] s;
                    s = printf ''  Stepping: %u\<newline>'' [VI (eax AND 0xF)] s;
                    s = printf ''  Features (EDX): '' [] s;
                    s = fold (show_flag edx)
                      [(0, ''FPU ''), (4, ''TSC ''), (15, ''CMOV ''), (23, ''MMX ''), (25, ''SSE ''), (26, ''SSE2 '')] s;
                    s = printf ''\<newline>'' [] s;
                    s = printf ''  Features (ECX): '' [] s;
                    s = fold (show_flag ecx) [(0, ''SSE3 ''), (9, ''SSSE3 ''), (19, ''SSE4.1 ''), (20, ''SSE4.2 '')] s
                in (0, printf ''\<newline>'' [] s)))
           else (0, s)))"

definition cmd_dmesg :: "u8 list list \<Rightarrow> 'a dmesg_scheme \<Rightarrow> (int \<times> 'a dmesg_scheme) option" where
  "cmd_dmesg argv s =
     (if length argv = 1 then do { s \<leftarrow> display_kernel_messages s; Some (0, s) }
      else if length argv = 2 then
        (let a = argv ! 1
         in if is_arg a ''--help'' \<or> is_arg a ''-h'' then
              (let s = printf ''dmesg - Display kernel boot messages\<newline>'' [] s;
                   s = printf ''Usage:\<newline>'' [] s;
                   s = printf ''  dmesg           Show boot messages\<newline>'' [] s;
                   s = printf ''  dmesg --clear   Clear message buffer\<newline>'' [] s;
                   s = printf ''  dmesg --stats   Show buffer statistics\<newline>'' [] s;
                   s = printf ''  dmesg --test    Add test message\<newline>'' [] s
               in Some (0, printf ''  dmesg --help    Show this help\<newline>'' [] s))
            else if is_arg a ''--clear'' then Some (0, dmesg_clear s)
            else if is_arg a ''--stats'' then do { s \<leftarrow> dmesg_stats s; Some (0, s) }
            else if is_arg a ''--test'' then do {
              s \<leftarrow> kernel_add_message 84 (Some (bytes ''test'')) (Some (bytes ''This is a test message from shell'')) s;
              Some (0, printf ''Test message added to dmesg buffer\<newline>'' [] s) }
            else
              (let s = printf ''dmesg: Unknown option '%s'\<newline>'' [VS a] s
               in Some (1, printf ''Use 'dmesg --help' for help\<newline>'' [] s)))
      else Some (1, printf ''dmesg: Too many arguments\<newline>'' [] s))"

section \<open>Hardware and debugging\<close>

definition test_patterns :: "u8 list" where "test_patterns = [0x00, 0xFF, 0xAA, 0x55, 0xCC, 0x33]"
definition TEST_PTR :: u32 where "TEST_PTR = 0x200000"

definition memtest_pattern :: "u8 \<Rightarrow> bool \<times> 'a kheap_scheme \<Rightarrow> bool \<times> 'a kheap_scheme" where
  "memtest_pattern p = (\<lambda>(all_passed, s).
     let s = printf ''  Testing pattern 0x%X... '' [VI (ucast p)] s;
         s = set_mem (fold (\<lambda>i m. m(TEST_PTR + of_nat i := p)) [0..<1024] (mem s)) s;
         success = list_all (\<lambda>i. mem s (TEST_PTR + of_nat i) = p) [0..<1024];
         s = printf ''%s\<newline>'' [VS (bytes (if success then ''PASS'' else ''FAIL''))] s
     in (if success then all_passed else False, s))"

definition cmd_memtest :: "u8 list list \<Rightarrow> 'a kheap_scheme \<Rightarrow> int \<times> 'a kheap_scheme" where
  "cmd_memtest argv s =
     (let s = printf ''Basic memory test...\<newline>'' [] s;
          (all_passed, s) = fold memtest_pattern test_patterns (True, s);
          s = printf ''Memory test %s\<newline>'' [VS (bytes (if all_passed then ''PASSED'' else ''FAILED''))] s
      in (if all_passed then 0 else 1, s))"

text \<open>The interrupt flag in the flags register.\<close>

definition eflags :: "machine \<Rightarrow> 'a kirq_scheme \<Rightarrow> u32" where
  "eflags m s = (if interrupts_on s then set_bit 9 (r_eflags (m_regs m)) else unset_bit 9 (r_eflags (m_regs m)))"

definition i686_DisableInterrupts :: "'a kirq_scheme \<Rightarrow> 'a kirq_scheme" where
  "i686_DisableInterrupts s = s\<lparr>interrupts_on := False\<rparr>"

definition cmd_interrupt :: "machine \<Rightarrow> u8 list list \<Rightarrow> 'a kirq_scheme \<Rightarrow> int \<times> 'a kirq_scheme" where
  "cmd_interrupt m argv s =
     (if length argv < 2 then (1, printf ''Usage: interrupt <enable|disable|status>\<newline>'' [] s)
      else if is_arg (argv ! 1) ''enable'' then (0, printf ''Interrupts enabled\<newline>'' [] (i686_EnableInterrupts s))
      else if is_arg (argv ! 1) ''disable'' then (0, printf ''Interrupts disabled\<newline>'' [] (i686_DisableInterrupts s))
      else if is_arg (argv ! 1) ''status'' then
        (0, printf ''Interrupts: %s\<newline>'' [VS (bytes (if eflags m s AND 0x200 \<noteq> 0 then ''ENABLED'' else ''DISABLED''))] s)
      else (1, printf ''Invalid option: %s\<newline>'' [VS (argv ! 1)] s))"

text \<open>
  The two dumps of \<open>cmd_hexdump\<close> run the same loop; \<open>get i\<close> is byte \<open>i\<close> of what is dumped, \<open>base\<close>
  the number of the first.
\<close>

definition hex_cell :: "(nat \<Rightarrow> u8) \<Rightarrow> nat \<Rightarrow> nat \<Rightarrow> 'a vga_scheme \<Rightarrow> 'a vga_scheme" where
  "hex_cell get offset i s =
     (let s = printf ''%x '' [VI (ucast (get (offset + i)))] s in if i = 7 then printf '' '' [] s else s)"

definition pad_cell :: "nat \<Rightarrow> 'a vga_scheme \<Rightarrow> 'a vga_scheme" where
  "pad_cell i s = (let s = printf ''   '' [] s in if i = 7 then printf '' '' [] s else s)"

definition text_cell :: "(nat \<Rightarrow> u8) \<Rightarrow> nat \<Rightarrow> nat \<Rightarrow> 'a vga_scheme \<Rightarrow> 'a vga_scheme" where
  "text_cell get offset i s =
     (let byte = get (offset + i) in printf ''%c'' [VI (ucast (if 32 \<le> byte \<and> byte \<le> 126 then byte else 46))] s)"

definition hexdump_row :: "u32 \<Rightarrow> (nat \<Rightarrow> u8) \<Rightarrow> nat \<Rightarrow> nat \<Rightarrow> 'a vga_scheme \<Rightarrow> 'a vga_scheme" where
  "hexdump_row base get len offset s =
     (let s = printf ''%x  '' [VI (base + of_nat offset)] s;
          n = min 16 (len - offset);
          s = fold (hex_cell get offset) [0..<n] s;
          s = fold pad_cell [if offset + 16 > len then len - offset else 16..<16] s;
          s = printf '' |'' [] s;
          s = fold (text_cell get offset) [0..<n] s
      in printf ''|\<newline>'' [] s)"

function hexdump_loop :: "u32 \<Rightarrow> (nat \<Rightarrow> u8) \<Rightarrow> nat \<Rightarrow> nat \<Rightarrow> 'a vga_scheme \<Rightarrow> 'a vga_scheme" where
  "hexdump_loop base get len offset s =
     (if offset < len then hexdump_loop base get len (offset + 16) (hexdump_row base get len offset s) else s)"
  by pat_completeness auto
termination by (relation "measure (\<lambda>(base, get, len, offset, s). len - offset)") auto

declare hexdump_loop.simps [simp del]

definition hexdump_memory :: "u8 list list \<Rightarrow> 'a kheap_scheme \<Rightarrow> int \<times> 'a kheap_scheme" where
  "hexdump_memory argv s =
     (let address = hex_str_to_int (argv ! 1);
          length' = (if length argv > 2 then dec_str_to_int (argv ! 2) else 256);
          s = (if length' > 4096 then printf ''Warning: Length limited to 4096 bytes\<newline>'' [] s else s);
          length' = (if length' > 4096 then 4096 else length');
          s = printf ''Hexdump of memory at 0x%X (%d bytes):\<newline>\<newline>'' [VI address, VI length'] s
      in (0, hexdump_loop address (\<lambda>i. mem s (address + of_nat i)) (unat length') 0 s))"

text \<open>The buffer of the file dump is not initialised; only bytes that the file put there are read.\<close>

definition hexdump_file :: "u8 list list \<Rightarrow> 'a ram_fs_scheme \<Rightarrow> (int \<times> 'a ram_fs_scheme) option" where
  "hexdump_file argv s = do {
     (bytes_read, buffer) \<leftarrow> ramfs_read_file (argv ! 1) (replicate MAX_FILE_SIZE 0) (of_nat MAX_FILE_SIZE) s;
     if bytes_read < 0 then Some (1, printf ''hexdump: Cannot read '%s'\<newline>'' [VS (argv ! 1)] s)
     else
       let s = printf ''Hexdump of file '%s' (%d bytes):\<newline>\<newline>'' [VS (argv ! 1), VI (of_int bytes_read)] s
       in Some (0, hexdump_loop 0 (\<lambda>i. buffer ! i) (nat bytes_read) 0 s) }"

definition cmd_hexdump :: "machine \<Rightarrow> u8 list list \<Rightarrow> 'a ram_fs_scheme \<Rightarrow> (int \<times> 'a ram_fs_scheme) option" where
  "cmd_hexdump m argv s =
     (if length argv < 2 then
        (let s = printf ''Usage: hexdump <filename_or_address> [length]\<newline>'' [] s;
             s = printf ''Examples:\<newline>'' [] s;
             s = printf ''  hexdump test.txt     - Dump file content\<newline>'' [] s
         in Some (1, printf ''  hexdump 0x100000     - Dump 256 bytes from memory\<newline>'' [] s))
      else do {
        s \<leftarrow> (if ram_initialized s = 0 then ramfs_init (m_env m) s else Some s);
        if take 2 (argv ! 1) = [48, 120] then Some (hexdump_memory argv s) else hexdump_file argv s })"

text \<open>A pass of \<open>cmd_keytest\<close>: one batch of interrupts, then one look at the controller.\<close>

definition keytest_show :: "u8 \<Rightarrow> 'a kbd_scheme \<Rightarrow> 'a kbd_scheme" where
  "keytest_show scancode s =
     (let s = printf ''Scancode: 0x%X'' [VI (ucast scancode)] s;
          s = printf (if scancode AND 0x80 \<noteq> 0 then '' (key released)'' else '' (key pressed)'') [] s;
          ascii = keyboard_scancode_to_ascii scancode s;
          s = (if scancode AND 0x80 = 0 \<and> 32 \<le> ascii \<and> ascii \<le> 126
               then printf ('' = '' @ [CHR 0x27] @ ''%c'' @ [CHR 0x27]) [VI (ucast ascii)] s else s)
      in printf ''\<newline>'' [] s)"

fun keytest_loop :: "machine \<Rightarrow> u8 option list \<Rightarrow> 'a console_scheme \<Rightarrow> (u8 option list \<times> 'a console_scheme) option" where
  "keytest_loop m [] s = None"
| "keytest_loop m (p # ps) s = do {
     s \<leftarrow> deliver (m_env m) (concat (take 1 (scancodes s))) (s\<lparr>scancodes := drop 1 (scancodes s)\<rparr>);
     s \<leftarrow> keyboard_process_buffer s;
     (case p of
        None \<Rightarrow> keytest_loop m ps s
      | Some scancode \<Rightarrow>
          if scancode = 0x01 then
            Some (ps, printf ''\<newline>Exiting keyboard test\<newline>'' [] (keyboard_reset_dead_state (keyboard_clear_buffer s)))
          else keytest_loop m ps (keytest_show scancode s)) }"

definition cmd_keytest :: "machine \<Rightarrow> u8 list list \<Rightarrow> 'a console_scheme \<Rightarrow> (int \<times> 'a console_scheme) option" where
  "cmd_keytest m argv s = do {
     let s = printf ''Keyboard test mode - press keys to see scancodes\<newline>'' [] s;
     let s = printf ''Press ESC to exit\<newline>\<newline>'' [] s;
     (ps, s) \<leftarrow> keytest_loop m (polled s) s;
     Some (0, s\<lparr>polled := ps\<rparr>) }"

text \<open>The loops of the benchmark; \<open>result\<close> is a 32-bit counter.\<close>

definition bench_arith :: "nat \<Rightarrow> u32 \<Rightarrow> u32" where
  "bench_arith n result = fold (\<lambda>i r. r + (of_nat i * 2 + 1)) [0..<n] result"

definition bench_mem :: "nat \<Rightarrow> mem \<times> u32 \<Rightarrow> mem \<times> u32" where
  "bench_mem n =
     fold (\<lambda>i (m, r). let a = TEST_PTR + of_nat (i mod 1024); m = m(a := of_nat i) in (m, r + ucast (m a))) [0..<n]"

definition bench_logic :: "nat \<Rightarrow> u32 \<Rightarrow> u32" where
  "bench_logic n =
     fold (\<lambda>i r. ((r XOR (push_bit 1 (of_nat i) OR drop_bit 1 (of_nat i))) AND 0xAAAAAAAA) OR 0x55555555) [0..<n]"

definition cmd_benchmark :: "u8 list list \<Rightarrow> 'a kheap_scheme \<Rightarrow> int \<times> 'a kheap_scheme" where
  "cmd_benchmark argv s =
     (let s = printf ''Running CPU benchmark suite...\<newline>\<newline>'' [] s;
          s = printf ''1. Arithmetic operations test: '' [] s;
          result = bench_arith 1000000 0;
          s = printf ''DONE (result: %u)\<newline>'' [VI result] s;
          s = printf ''2. Memory access test: '' [] s;
          (m, result) = bench_mem 100000 (mem s, result);
          s = printf ''DONE\<newline>'' [] (set_mem m s);
          s = printf ''3. Function call test: '' [] s;
          s = printf ''DONE\<newline>'' [] s;
          s = printf ''4. Logical operations test: '' [] s;
          result = bench_logic 500000 result;
          s = printf ''DONE\<newline>'' [] s
      in (0, printf ''\<newline>Benchmark completed successfully\<newline>'' [] s))"

definition cmd_registers :: "machine \<Rightarrow> u8 list list \<Rightarrow> 'a kirq_scheme \<Rightarrow> int \<times> 'a kirq_scheme" where
  "cmd_registers m argv s =
     (let r = m_regs m;
          flags = eflags m s;
          s = printf ''CPU Registers:\<newline>'' [] s;
          s = printf ''  General Purpose:\<newline>'' [] s;
          s = printf ''    EAX: 0x%X    EBX: 0x%X\<newline>'' [VI (r_eax r), VI (r_ebx r)] s;
          s = printf ''    ECX: 0x%X    EDX: 0x%X\<newline>'' [VI (r_ecx r), VI (r_edx r)] s;
          s = printf ''  Index Registers:\<newline>'' [] s;
          s = printf ''    ESI: 0x%X    EDI: 0x%X\<newline>'' [VI (r_esi r), VI (r_edi r)] s;
          s = printf ''  Stack Pointers:\<newline>'' [] s;
          s = printf ''    ESP: 0x%X    EBP: 0x%X\<newline>'' [VI (r_esp r), VI (r_ebp r)] s;
          s = printf ''  Flags:\<newline>'' [] s;
          s = printf ''    EFLAGS: 0x%X\<newline>'' [VI flags] s;
          s = printf ''  Flag Bits: '' [] s;
          s = fold (show_flag flags) [(0, ''CF ''), (2, ''PF ''), (4, ''AF ''), (6, ''ZF ''), (7, ''SF ''), (9, ''IF ''),
            (10, ''DF ''), (11, ''OF '')] s
      in (0, printf ''\<newline>'' [] s))"

section \<open>System calls\<close>

definition stress_alloc :: "machine \<Rightarrow> nat \<Rightarrow> (int \<times> int) \<times> 'a ksys_scheme \<Rightarrow> ((int \<times> int) \<times> 'a ksys_scheme) option" where
  "stress_alloc m i = (\<lambda>((success, failed), s). do {
     (ptr, s) \<leftarrow> sys_malloc (m_env m) (of_nat (64 + i mod 200)) s;
     if ptr \<noteq> 0 then do { (r, s) \<leftarrow> sys_free (m_env m) ptr s; Some ((success + 1, failed), s) }
     else Some ((success, failed + 1), s) })"

definition syscall_test_usage :: "'a vga_scheme \<Rightarrow> 'a vga_scheme" where
  "syscall_test_usage s =
     (let s = printf ''Usage: syscall_test <test_type>\<newline>'' [] s;
          s = printf ''Available tests:\<newline>'' [] s;
          s = printf ''  all       - Run comprehensive test suite\<newline>'' [] s;
          s = printf ''  basic     - Test basic syscalls (print, getpid, time)\<newline>'' [] s;
          s = printf ''  memory    - Test malloc/free operations\<newline>'' [] s;
          s = printf ''  heap      - Test heap integrity\<newline>'' [] s
      in printf ''  stress    - Run stress tests\<newline>'' [] s)"

definition basic_test :: "machine \<Rightarrow> 'a ksys_scheme \<Rightarrow> 'a ksys_scheme option" where
  "basic_test m s = do {
     let s = printf ''=== Basic Syscall Test ===\<newline>\<newline>'' [] s;
     let s = printf ''Testing sys_print: '' [] s;
     (result, s) \<leftarrow> sys_print (m_env m) (m_hello m) s;
     let s = printf ''Result: %d\<newline>\<newline>'' [VI result] s;
     (pid, s) \<leftarrow> sys_getpid (m_env m) s;
     let s = printf ''Current PID: %d\<newline>\<newline>'' [VI pid] s;
     (time, s) \<leftarrow> syscall_time (m_env m) s;
     Some (printf ''Current time: %u\<newline>\<newline>'' [VI time] s) }"

definition memory_test :: "machine \<Rightarrow> 'a ksys_scheme \<Rightarrow> 'a ksys_scheme option" where
  "memory_test m s = do {
     let s = printf ''=== Memory Syscall Test ===\<newline>\<newline>'' [] s;
     let s = printf ''Testing malloc:\<newline>'' [] s;
     (ptr1, s) \<leftarrow> sys_malloc (m_env m) 256 s;
     (ptr2, s) \<leftarrow> sys_malloc (m_env m) 512 s;
     let s = printf ''  Allocated 256 bytes at: 0x%X\<newline>'' [VI ptr1] s;
     let s = printf ''  Allocated 512 bytes at: 0x%X\<newline>'' [VI ptr2] s;
     if ptr1 \<noteq> 0 \<and> ptr2 \<noteq> 0 then do {
       let s = put_cstr ptr1 (bytes ''Test data 1'') s;
       let s = put_cstr ptr2 (bytes ''Test data 2 - longer string'') s;
       text1 \<leftarrow> read_cstr (mem s) ptr1;
       let s = printf ''  Data in ptr1: %s\<newline>'' [VS text1] s;
       text2 \<leftarrow> read_cstr (mem s) ptr2;
       let s = printf ''  Data in ptr2: %s\<newline>'' [VS text2] s;
       let s = printf ''\<newline>Testing free:\<newline>'' [] s;
       (free1, s) \<leftarrow> sys_free (m_env m) ptr1 s;
       (free2, s) \<leftarrow> sys_free (m_env m) ptr2 s;
       let s = printf ''  Free ptr1 result: %d\<newline>'' [VI free1] s;
       Some (printf ''  Free ptr2 result: %d\<newline>'' [VI free2] s) }
     else Some s }"

definition stress_test :: "machine \<Rightarrow> 'a ksys_scheme \<Rightarrow> 'a ksys_scheme option" where
  "stress_test m s = do {
     let s = printf ''=== Stress Test ===\<newline>\<newline>'' [] s;
     let s = printf ''Memory stress test (100 allocations):\<newline>'' [] s;
     ((success, failed), s) \<leftarrow> foldM (stress_alloc m) [0..<100] ((0, 0), s);
     Some (printf ''  Success: %d, Failed: %d\<newline>\<newline>'' [VI (of_int success), VI (of_int failed)] s) }"

definition cmd_syscall_test :: "machine \<Rightarrow> u8 list list \<Rightarrow> 'a ksys_scheme \<Rightarrow> (int \<times> 'a ksys_scheme) option" where
  "cmd_syscall_test m argv s =
     (if length argv < 2 then Some (1, syscall_test_usage s)
      else if is_arg (argv ! 1) ''all'' then do { s \<leftarrow> syscall_run_all_tests (m_env m) (m_tests m) s; Some (0, s) }
      else if is_arg (argv ! 1) ''basic'' then do { s \<leftarrow> basic_test m s; Some (0, s) }
      else if is_arg (argv ! 1) ''memory'' then do { s \<leftarrow> memory_test m s; Some (0, s) }
      else if is_arg (argv ! 1) ''heap'' then do { s \<leftarrow> syscall_test_heap_integrity (m_env m) s; Some (0, s) }
      else if is_arg (argv ! 1) ''stress'' then do { s \<leftarrow> stress_test m s; Some (0, s) }
      else Some (1, printf ''Unknown test type: %s\<newline>'' [VS (argv ! 1)] s))"

text \<open>The letters that \<open>cmd_malloc_test\<close> writes, and the NUL behind them.\<close>

definition alphabet :: "u32 \<Rightarrow> s32 \<Rightarrow> mem \<Rightarrow> mem" where
  "alphabet p sz m =
     (let n = (if sint sz < 100 then unat sz else 100)
      in (fold (\<lambda>i m. m(p + of_nat i := 65 + of_nat (i mod 26))) [0..<n] m)
           (p + (if sint sz < 100 then sz - 1 else 99) := 0))"

definition cmd_malloc_test :: "machine \<Rightarrow> u8 list list \<Rightarrow> 'a ksys_scheme \<Rightarrow> (int \<times> 'a ksys_scheme) option" where
  "cmd_malloc_test m argv s =
     (if length argv < 2 then
        (let s = printf ''Usage: malloc_test <size_in_bytes>\<newline>'' [] s
         in Some (1, printf ''Example: malloc_test 1024\<newline>'' [] s))
      else
        let sz = dec_str_to_int (argv ! 1)
        in if sint sz \<le> 0 then Some (1, printf ''Invalid size: %s\<newline>'' [VS (argv ! 1)] s)
           else do {
             let s = printf ''Allocating %d bytes...\<newline>'' [VI sz] s;
             (ptr, s) \<leftarrow> sys_malloc (m_env m) sz s;
             if ptr \<noteq> 0 then do {
               let s = printf ''Success! Allocated at address: 0x%X\<newline>'' [VI ptr] s;
               let s = set_mem (alphabet ptr sz (mem s)) s;
               data \<leftarrow> read_cstr (mem s) ptr;
               let s = printf ''Test data written: %.50s%s\<newline>''
                 [VS data, VS (bytes (if sint sz > 50 then ''...'' else ''''))] s;
               let s = printf ''Freeing memory...\<newline>'' [] s;
               (result, s) \<leftarrow> sys_free (m_env m) ptr s;
               Some (0, printf ''Free result: %d\<newline>'' [VI result] s) }
             else Some (0, printf ''Allocation failed - out of memory\<newline>'' [] s) })"

definition heap_info_alloc :: "machine \<Rightarrow> nat \<Rightarrow> u32 list \<times> 'a ksys_scheme \<Rightarrow> (u32 list \<times> 'a ksys_scheme) option" where
  "heap_info_alloc m sz = (\<lambda>(test_ptrs, s). do {
     (p, s) \<leftarrow> sys_malloc (m_env m) (of_nat sz) s;
     Some (test_ptrs @ [p],
       if p \<noteq> 0 then printf ''  Allocated %d bytes at 0x%X\<newline>'' [VI (of_nat sz), VI p] s
       else printf ''  Failed to allocate %d bytes\<newline>'' [VI (of_nat sz)] s) })"

definition heap_info_free :: "machine \<Rightarrow> u32 \<Rightarrow> 'a ksys_scheme \<Rightarrow> 'a ksys_scheme option" where
  "heap_info_free m p s =
     (if p \<noteq> 0 then do { (r, s) \<leftarrow> sys_free (m_env m) p s; Some (printf ''  Freed block at 0x%X\<newline>'' [VI p] s) } else Some s)"

definition cmd_heap_info :: "machine \<Rightarrow> u8 list list \<Rightarrow> 'a ksys_scheme \<Rightarrow> (int \<times> 'a ksys_scheme) option" where
  "cmd_heap_info m argv s = do {
     let s = printf ''=== Heap Information ===\<newline>\<newline>'' [] s;
     let s = printf ''Heap configuration:\<newline>'' [] s;
     let s = printf ''  Start address: 0x%X\<newline>'' [VI 0x400000] s;
     let s = printf ''  Size: %d KB (%d bytes)\<newline>'' [VI (0x100000 div 1024), VI 0x100000] s;
     let s = printf ''  Block size: %d bytes\<newline>'' [VI 32] s;
     let s = printf ''  Management: Simple block allocator\<newline>'' [] s;
     let s = printf ''\<newline>Testing current heap state:\<newline>'' [] s;
     (test_ptrs, s) \<leftarrow> foldM (heap_info_alloc m) [64, 128, 256, 512, 1024] ([], s);
     let s = printf ''\<newline>Cleaning up test allocations:\<newline>'' [] s;
     s \<leftarrow> foldM (heap_info_free m) test_ptrs s;
     Some (0, s) }"

definition cmd_sleep_test :: "machine \<Rightarrow> u8 list list \<Rightarrow> 'a ksys_scheme \<Rightarrow> (int \<times> 'a ksys_scheme) option" where
  "cmd_sleep_test m argv s = do {
     let milliseconds = (if length argv > 1 then dec_str_to_int (argv ! 1) else 1000);
     let milliseconds = (if sint milliseconds \<le> 0 then 1000 else milliseconds);
     let s = printf ''Sleeping for %d milliseconds...\<newline>'' [VI milliseconds] s;
     (start_time, s) \<leftarrow> syscall_time (m_env m) s;
     (result, s) \<leftarrow> sys_sleep (m_env m) milliseconds s;
     (end_time, s) \<leftarrow> syscall_time (m_env m) s;
     let s = printf ''Sleep completed (result: %d)\<newline>'' [VI result] s;
     Some (0, printf ''Time difference: %u units\<newline>'' [VI (end_time - start_time)] s) }"

section \<open>System control\<close>

text \<open>
  The commands that stop the machine.  \<open>int 3\<close> through an empty interrupt table is a triple fault,
  which resets the processor.
\<close>

definition cmd_reboot :: "machine \<Rightarrow> u8 list list \<Rightarrow> 'a kirq_scheme \<Rightarrow> int \<times> 'a kirq_scheme" where
  "cmd_reboot m argv s =
     (let s = printf ''Rebooting system...\<newline>'' [] s;
          s = printf ''Goodbye!\<newline>'' [] s;
          s = i686_outb 0x64 0xFE s
      in if m_resets m then (0, s\<lparr>halted := True\<rparr>)
         else (let s = printf ''Primary reboot method failed, trying alternative...\<newline>'' [] s
               in (0, s\<lparr>interrupts_on := False, halted := True\<rparr>)))"

definition cmd_panic :: "u8 list list \<Rightarrow> 'a kirq_scheme \<Rightarrow> int \<times> 'a kirq_scheme" where
  "cmd_panic argv s =
     (let message = (if length argv > 1 then argv ! 1 else bytes ''Manual kernel panic triggered from shell'');
          s = printf ''Triggering kernel panic: %s\<newline>'' [VS message] s;
          s = printf ''This will halt the system...\<newline>'' [] s
      in (0, i686_Panic s))"

definition cmd_exit :: "u8 list list \<Rightarrow> 'a kirq_scheme \<Rightarrow> int \<times> 'a kirq_scheme" where
  "cmd_exit argv s =
     (let s = printf ''Shutting down...\<newline>'' [] s;
          s = i686_outb 0x605 0x20 (i686_outb 0x604 0x00 s)
      in (0, (i686_DisableInterrupts s)\<lparr>halted := True\<rparr>))"

end
