(* ===== verification/FsCommands.thy ===== *)
theory FsCommands
  imports Commands
begin

text \<open>
  The shell commands on the RAM file system (\<open>src/src/kernel/shell/shell_commands.c\<close>, lines 718 to
  1133).  Local buffers are lists, and a command that reads or writes behind one has the value
  \<^const>\<open>None\<close>.  \<open>ls\<close>, \<open>cd\<close> and \<open>pwd\<close> hand a 64-byte array to \<^const>\<open>ramfs_get_current_path\<close>, which writes
  one byte behind a buffer that the path does not fill; the stack behind that array is \<open>m_behind\<close>.
\<close>

section \<open>Definitions\<close>

definition ensure_init :: "machine \<Rightarrow> 'a ram_fs_scheme \<Rightarrow> 'a ram_fs_scheme option" where
  "ensure_init m s = (if ram_initialized s = 0 then ramfs_init (m_env m) s else Some s)"

definition current_path :: "machine \<Rightarrow> 'a ram_fs_scheme \<Rightarrow> u8 list option" where
  "current_path m s = do {
     buf \<leftarrow> ramfs_get_current_path (replicate 64 0 @ m_behind m) 64 s;
     arr_str buf }"

definition ls_entry :: "nat \<Rightarrow> int \<times> 'a ram_fs_scheme \<Rightarrow> int \<times> 'a ram_fs_scheme" where
  "ls_entry i = (\<lambda>(count, s).
     let f = ram_files s ! i
     in if rf_in_use f \<noteq> 0 \<and> rf_parent_index f = ram_current_dir s then
          (count + 1, printf ''%s %s\<newline>''
            [VS (bytes (if rf_is_directory f \<noteq> 0 then ''DIR       '' else ''FILE      '')), VS (cstr_of (rf_name f))] s)
        else (count, s))"

definition cmd_ls :: "machine \<Rightarrow> u8 list list \<Rightarrow> 'a ram_fs_scheme \<Rightarrow> (int \<times> 'a ram_fs_scheme) option" where
  "cmd_ls m argv s = do {
     s \<leftarrow> ensure_init m s;
     path \<leftarrow> current_path m s;
     let s = printf ''Directory listing for %s:\<newline>'' [VS path] s;
     let s = printf ''%s %s\<newline>'' [VS (bytes ''Type      ''), VS (bytes ''Name      '')] s;
     let s = printf ''------------------------------------------------------------\<newline>'' [] s;
     let (count, s) = fold ls_entry [0..<MAX_FILES] (0, s);
     Some (0, if count = 0 then printf ''Directory is empty\<newline>'' [] s else s) }"

definition cmd_cd :: "machine \<Rightarrow> u8 list list \<Rightarrow> 'a ram_fs_scheme \<Rightarrow> (int \<times> 'a ram_fs_scheme) option" where
  "cmd_cd m argv s = do {
     s \<leftarrow> ensure_init m s;
     if length argv < 2 then do {
       path \<leftarrow> current_path m s;
       Some (0, printf ''Current directory: %s\<newline>'' [VS path] s) }
     else if is_arg (argv ! 1) ''..'' then
       (if ram_current_dir s \<noteq> 0 then do {
          dir \<leftarrow> arr_get (ram_files s) (uint (ram_current_dir s));
          Some (0, s\<lparr>ram_current_dir := rf_parent_index dir\<rparr>) }
        else Some (0, s))
     else if is_arg (argv ! 1) ''/'' then Some (0, s\<lparr>ram_current_dir := 0\<rparr>)
     else
       (case ramfs_find_file (argv ! 1) (ram_current_dir s) s of
          None \<Rightarrow> Some (1, printf ''cd: Directory '%s' not found\<newline>'' [VS (argv ! 1)] s)
        | Some dir_index \<Rightarrow>
            if rf_is_directory (ram_files s ! dir_index) = 0
            then Some (1, printf ''cd: '%s' is not a directory\<newline>'' [VS (argv ! 1)] s)
            else Some (0, s\<lparr>ram_current_dir := of_nat dir_index\<rparr>)) }"

definition cmd_pwd :: "machine \<Rightarrow> u8 list list \<Rightarrow> 'a ram_fs_scheme \<Rightarrow> (int \<times> 'a ram_fs_scheme) option" where
  "cmd_pwd m argv s = do {
     s \<leftarrow> ensure_init m s;
     path \<leftarrow> current_path m s;
     Some (0, printf ''%s\<newline>'' [VS path] s) }"

definition cmd_mkdir :: "machine \<Rightarrow> u8 list list \<Rightarrow> 'a ram_fs_scheme \<Rightarrow> (int \<times> 'a ram_fs_scheme) option" where
  "cmd_mkdir m argv s =
     (if length argv < 2 then Some (1, printf ''Usage: mkdir <directory_name>\<newline>'' [] s)
      else do {
        s \<leftarrow> ensure_init m s;
        (result, s) \<leftarrow> ramfs_create (m_env m) (argv ! 1) 1 s;
        if result = - 1 then Some (1, printf ''mkdir: Directory '%s' already exists\<newline>'' [VS (argv ! 1)] s)
        else if result = - 2 then Some (1, printf ''mkdir: No free slots available\<newline>'' [] s)
        else if result = - 3 then Some (1, printf ''mkdir: Out of memory\<newline>'' [] s)
        else if result \<ge> 0 then Some (0, printf ''Directory '%s' created successfully\<newline>'' [VS (argv ! 1)] s)
        else Some (1, printf ''mkdir: Unknown error (%d)\<newline>'' [VI (of_int result)] s) })"

definition cmd_rm :: "machine \<Rightarrow> u8 list list \<Rightarrow> 'a ram_fs_scheme \<Rightarrow> (int \<times> 'a ram_fs_scheme) option" where
  "cmd_rm m argv s =
     (if length argv < 2 then Some (1, printf ''Usage: rm <filename>\<newline>'' [] s)
      else do {
        s \<leftarrow> ensure_init m s;
        (result, s) \<leftarrow> ramfs_delete (m_env m) (argv ! 1) s;
        if result = 0 then Some (0, printf ([CHR 0x27] @ ''%s' deleted successfully\<newline>'') [VS (argv ! 1)] s)
        else if result = - 1 then Some (1, printf (''rm: '%s' not found\<newline>'') [VS (argv ! 1)] s)
        else if result = - 2 then Some (1, printf (''rm: Directory '%s' is not empty\<newline>'') [VS (argv ! 1)] s)
        else Some (1, printf ''rm: Unknown error (%d)\<newline>'' [VI (of_int result)] s) })"

text \<open>
  \<open>ramfs_read_file(name, buffer, sizeof(buffer) - 1)\<close> into a local buffer, and the NUL that the
  callers put behind what was read.  The bytes behind that NUL are not initialised and not read.
\<close>

definition load_file :: "u8 list \<Rightarrow> 'a ram_fs_scheme \<Rightarrow> (int \<times> u8 list) option" where
  "load_file name s = do {
     (bytes_read, buffer) \<leftarrow> ramfs_read_file name (replicate MAX_FILE_SIZE 0) (of_nat MAX_FILE_SIZE - 1) s;
     if bytes_read < 0 then Some (bytes_read, buffer)
     else do { buffer \<leftarrow> arr_set buffer bytes_read 0; Some (bytes_read, buffer) } }"

definition cmd_cat :: "machine \<Rightarrow> u8 list list \<Rightarrow> 'a ram_fs_scheme \<Rightarrow> (int \<times> 'a ram_fs_scheme) option" where
  "cmd_cat m argv s =
     (if length argv < 2 then Some (1, printf ''Usage: cat <filename>\<newline>'' [] s)
      else do {
        s \<leftarrow> ensure_init m s;
        (bytes_read, buffer) \<leftarrow> load_file (argv ! 1) s;
        if bytes_read < 0 then
          Some (1, printf ''cat: Cannot read '%s' (error %d)\<newline>'' [VS (argv ! 1), VI (of_int bytes_read)] s)
        else do { text \<leftarrow> arr_str buffer; Some (0, printf ''%s'' [VS text] s) } })"

definition find_entry :: "u8 list \<Rightarrow> nat \<Rightarrow> bool \<times> 'a ram_fs_scheme \<Rightarrow> bool \<times> 'a ram_fs_scheme" where
  "find_entry pattern i = (\<lambda>(found, s).
     let f = ram_files s ! i
     in if rf_in_use f \<noteq> 0 \<and> shell_strstr (cstr_of (rf_name f)) pattern \<noteq> None then
          (True, printf ''%s %s\<newline>''
            [VS (bytes (if rf_is_directory f \<noteq> 0 then ''[DIR] '' else ''[FILE] '')), VS (cstr_of (rf_name f))] s)
        else (found, s))"

definition cmd_find :: "machine \<Rightarrow> u8 list list \<Rightarrow> 'a ram_fs_scheme \<Rightarrow> (int \<times> 'a ram_fs_scheme) option" where
  "cmd_find m argv s =
     (if length argv < 2 then Some (1, printf ''Usage: find <pattern>\<newline>'' [] s)
      else do {
        s \<leftarrow> ensure_init m s;
        let s = printf ''Searching for files matching '%s':\<newline>'' [VS (argv ! 1)] s;
        let (found, s) = fold (find_entry (argv ! 1)) [0..<MAX_FILES] (False, s);
        Some (0, if found then s else printf ''No files found matching '%s'\<newline>'' [VS (argv ! 1)] s) })"

text \<open>
  The loop of \<open>grep\<close>: \<open>text\<close> is the rest of the buffer up to its NUL.  The newline that ends the
  line is overwritten with a NUL for the comparison and restored afterwards.
\<close>

function grep_loop :: "u8 list \<Rightarrow> u8 list \<Rightarrow> int \<Rightarrow> bool \<times> 'a vga_scheme \<Rightarrow> bool \<times> 'a vga_scheme" where
  "grep_loop pattern text line_num st =
     (if text = [] then st
      else
        let line_end = shell_strchr text 10;
            line = (case line_end of None \<Rightarrow> text | Some n \<Rightarrow> take n text);
            st' = (if shell_strstr line pattern \<noteq> None
                   then (True, printf ''%d: %s\<newline>'' [VI (of_int line_num), VS line] (snd st)) else st)
        in case line_end of None \<Rightarrow> st'
           | Some n \<Rightarrow> grep_loop pattern (drop (Suc n) text) (line_num + 1) st')"
  by pat_completeness auto
termination by (relation "measure (\<lambda>(p, text, n, st). length text)") auto

declare grep_loop.simps [simp del]

definition cmd_grep :: "machine \<Rightarrow> u8 list list \<Rightarrow> 'a ram_fs_scheme \<Rightarrow> (int \<times> 'a ram_fs_scheme) option" where
  "cmd_grep m argv s =
     (if length argv < 3 then Some (1, printf ''Usage: grep <pattern> <filename>\<newline>'' [] s)
      else do {
        s \<leftarrow> ensure_init m s;
        (bytes_read, buffer) \<leftarrow> load_file (argv ! 2) s;
        if bytes_read < 0 then Some (1, printf ''grep: Cannot read '%s'\<newline>'' [VS (argv ! 2)] s)
        else do {
          text \<leftarrow> arr_str buffer;
          let (found, s) = grep_loop (argv ! 1) text 1 (False, s);
          Some (0, if found then s
            else printf ''Pattern '%s' not found in '%s'\<newline>'' [VS (argv ! 1), VS (argv ! 2)] s) } })"

text \<open>One character of \<open>wc\<close>: lines, words and whether the text is inside a word.\<close>

definition wc_char :: "u8 \<Rightarrow> int \<times> int \<times> bool \<Rightarrow> int \<times> int \<times> bool" where
  "wc_char c = (\<lambda>(lines, words, in_word).
     let lines = (if c = 10 then lines + 1 else lines)
     in if c = 32 \<or> c = 9 \<or> c = 10 then (if in_word then (lines, words + 1, False) else (lines, words, in_word))
        else (lines, words, True))"

definition wc_count :: "u8 list \<Rightarrow> int \<times> int" where
  "wc_count text =
     (case fold wc_char text (0, 0, False) of (lines, words, in_word) \<Rightarrow> (lines, if in_word then words + 1 else words))"

definition cmd_wc :: "machine \<Rightarrow> u8 list list \<Rightarrow> 'a ram_fs_scheme \<Rightarrow> (int \<times> 'a ram_fs_scheme) option" where
  "cmd_wc m argv s =
     (if length argv < 2 then Some (1, printf ''Usage: wc <filename>\<newline>'' [] s)
      else do {
        s \<leftarrow> ensure_init m s;
        (bytes_read, buffer) \<leftarrow> load_file (argv ! 1) s;
        if bytes_read < 0 then Some (1, printf ''wc: Cannot read '%s'\<newline>'' [VS (argv ! 1)] s)
        else
          let (lines, words) = wc_count (take (nat bytes_read) buffer)
          in Some (0, printf ''  %d lines, %d words, %d characters, Filename: %s\<newline>''
               [VI (of_int lines), VI (of_int words), VI (of_int bytes_read), VS (argv ! 1)] s) })"

definition cmd_touch :: "machine \<Rightarrow> u8 list list \<Rightarrow> 'a ram_fs_scheme \<Rightarrow> (int \<times> 'a ram_fs_scheme) option" where
  "cmd_touch m argv s =
     (if length argv < 2 then Some (1, printf ''Usage: touch <filename>\<newline>'' [] s)
      else do {
        s \<leftarrow> ensure_init m s;
        if ramfs_find_file (argv ! 1) (ram_current_dir s) s \<noteq> None then
          Some (0, printf ''File '%s' already exists\<newline>'' [VS (argv ! 1)] s)
        else do {
          (result, s) \<leftarrow> ramfs_write_file (m_env m) (argv ! 1) [] 0 s;
          if result \<ge> 0 then Some (0, printf ''Empty file '%s' created\<newline>'' [VS (argv ! 1)] s)
          else Some (1, printf ''touch: Cannot create '%s' (error %d)\<newline>'' [VS (argv ! 1), VI (of_int result)] s) } })"

section \<open>The editor\<close>

definition edit_backspace :: "'a vga_scheme \<Rightarrow> 'a vga_scheme" where
  "edit_backspace s =
     (let cur_x = VGA_get_cursor_x s; cur_y = VGA_get_cursor_y s
      in if sint cur_x > 0 then
           let s = VGA_putchr (cur_x - 1) cur_y 32 s
           in VGA_setcursor (cur_x - 1) cur_y (s\<lparr>g_ScreenX := cur_x - 1, g_ScreenY := cur_y\<rparr>)
         else s)"

text \<open>
  Reading one line.  A wait that never ends makes the whole loop \<^const>\<open>None\<close>, and so does a line
  that is never finished.
\<close>

partial_function (option) read_line ::
    "machine \<Rightarrow> int \<Rightarrow> u8 list \<Rightarrow> 'a console_scheme \<Rightarrow> (u8 list \<times> 'a console_scheme) option" where
  "read_line m i line_buffer s =
     (if i < 255 then do {
        (c, s) \<leftarrow> shell_getc m s;
        if c = 10 then do { line_buffer \<leftarrow> arr_set line_buffer i 0; Some (line_buffer, putc 10 s) }
        else if c = 8 then
          (if i > 0 then read_line m (i - 1) line_buffer (edit_backspace s) else read_line m i line_buffer s)
        else do {
          line_buffer \<leftarrow> arr_set line_buffer i c;
          read_line m (i + 1) line_buffer (if 32 \<le> c \<and> c \<le> 126 then putc c s else s) } }
      else do { line_buffer \<leftarrow> arr_set line_buffer i 0; Some (line_buffer, s) })"

text \<open>\<open>shell_memcpy(&edit_buffer[content_length], line, n)\<close> and the newline.\<close>

definition append_line :: "u8 list \<Rightarrow> int \<Rightarrow> u8 list \<Rightarrow> (u8 list \<times> int) option" where
  "append_line edit_buffer content_length line = do {
     edit_buffer \<leftarrow> shell_memcpy_arr edit_buffer content_length line (length line);
     let content_length = content_length + int (length line);
     edit_buffer \<leftarrow> arr_set edit_buffer content_length 10;
     edit_buffer \<leftarrow> arr_set edit_buffer (content_length + 1) 0;
     Some (edit_buffer, content_length + 1) }"

partial_function (option) edit_loop ::
    "machine \<Rightarrow> u8 list \<Rightarrow> u8 list \<Rightarrow> int \<Rightarrow> 'a console_scheme \<Rightarrow> 'a console_scheme option" where
  "edit_loop m filename edit_buffer content_length s = do {
     (line_buffer, s) \<leftarrow> read_line m 0 (replicate 256 0) (printf ''> '' [] s);
     let line = cstr_of line_buffer;
     if is_arg line ''SAVE'' then do {
       (result, s) \<leftarrow> ramfs_write_file (m_env m) filename edit_buffer (of_int content_length) s;
       Some (if result \<ge> 0 then printf ''File '%s' saved (%d bytes)\<newline>'' [VS filename, VI (of_int result)] s
             else printf ''Error saving file: %d\<newline>'' [VI (of_int result)] s) }
     else if is_arg line ''QUIT'' then Some (printf ''Editor exited without saving\<newline>'' [] s)
     else if content_length + int (length line) + 2 < int MAX_FILE_SIZE then do {
       (edit_buffer, content_length) \<leftarrow> append_line edit_buffer content_length line;
       edit_loop m filename edit_buffer content_length s }
     else Some (printf ''Error: File size limit reached (%d bytes)\<newline>'' [VI (of_nat MAX_FILE_SIZE)] s) }"

definition cmd_edit :: "machine \<Rightarrow> u8 list list \<Rightarrow> 'a console_scheme \<Rightarrow> (int \<times> 'a console_scheme) option" where
  "cmd_edit m argv s =
     (if length argv < 2 then Some (1, printf ''Usage: edit <filename>\<newline>'' [] s)
      else do {
        s \<leftarrow> ensure_init m s;
        (bytes_read, buffer) \<leftarrow> load_file (argv ! 1) s;
        s \<leftarrow> (if bytes_read \<ge> 0 then do {
            text \<leftarrow> arr_str buffer;
            let s = printf ''Editing existing file '%s' (%d bytes)\<newline>'' [VS (argv ! 1), VI (of_int bytes_read)] s;
            Some (printf ''Current content:\<newline>%s\<newline>'' [VS text] s) }
          else Some (printf ''Creating new file '%s'\<newline>'' [VS (argv ! 1)] s));
        let s = printf ''\<newline>=== Simple Editor ===\<newline>'' [] s;
        let s = printf ''Enter text (type 'SAVE' on new line to save, 'QUIT' to exit):\<newline>\<newline>'' [] s;
        (edit_buffer, content_length) \<leftarrow> (if bytes_read > 0 then do {
            b \<leftarrow> shell_memcpy_arr (replicate MAX_FILE_SIZE 0) 0 buffer (nat bytes_read);
            Some (b, bytes_read) }
          else Some (replicate MAX_FILE_SIZE 0, 0));
        s \<leftarrow> edit_loop m (argv ! 1) edit_buffer content_length s;
        Some (0, s) })"

end
