(* ===== verification/Words.thy ===== *)
theory Words
  imports ShellStr
begin

text \<open>
  Reference definitions for what the shell does to text: the words of a text (\<open>words_by\<close>) and its
  lines (\<open>lines_of\<close>).  The scanners of the code that count words, split a command line and search
  line by line are compared with them.
\<close>

section \<open>Words\<close>

text \<open>The maximal runs of non-separators.\<close>

function words_by :: "('a \<Rightarrow> bool) \<Rightarrow> 'a list \<Rightarrow> 'a list list" where
  "words_by sep xs =
     (case dropWhile sep xs of [] \<Rightarrow> []
      | y # ys \<Rightarrow> (y # takeWhile (\<lambda>c. \<not> sep c) ys) # words_by sep (dropWhile (\<lambda>c. \<not> sep c) ys))"
  by pat_completeness auto
termination
proof (relation "measure (\<lambda>(sep, xs). length xs)", goal_cases)
  case (2 sep xs y ys)
  have "length (dropWhile (\<lambda>c. \<not> sep c) ys) \<le> length ys" by (rule length_dropWhile_le)
  also have "\<dots> < length (dropWhile sep xs)" using 2 by simp
  also have "\<dots> \<le> length xs" by (rule length_dropWhile_le)
  finally show ?case by simp
qed simp

declare words_by.simps [simp del]

lemma words_by_Nil [simp]: "words_by sep [] = []"
  by (simp add: words_by.simps)

lemma words_by_sep [simp]: "sep c \<Longrightarrow> words_by sep (c # xs) = words_by sep xs"
  by (simp add: words_by.simps [of sep "c # xs"] words_by.simps [of sep xs])

lemma words_by_word [simp]:
  "\<not> sep c \<Longrightarrow> words_by sep (c # xs) =
    (c # takeWhile (\<lambda>c. \<not> sep c) xs) # words_by sep (dropWhile (\<lambda>c. \<not> sep c) xs)"
  by (simp add: words_by.simps [of sep "c # xs"])

lemma words_induct [case_names Nil sep word]:
  assumes "P []" "\<And>c xs. sep c \<Longrightarrow> P xs \<Longrightarrow> P (c # xs)"
    "\<And>c xs. \<not> sep c \<Longrightarrow> P (dropWhile (\<lambda>c. \<not> sep c) xs) \<Longrightarrow> P (c # xs)"
  shows "P xs"
proof (induction "length xs" arbitrary: xs rule: less_induct)
  case less
  show ?case
  proof (cases xs)
    case (Cons c ys)
    moreover have "length (dropWhile (\<lambda>c. \<not> sep c) ys) \<le> length ys" by (rule length_dropWhile_le)
    ultimately show ?thesis using assms(2,3) less by (cases "sep c") auto
  qed (use assms(1) in simp)
qed

lemma words_by_sound: "w \<in> set (words_by sep xs) \<Longrightarrow> w \<noteq> [] \<and> (\<forall>c \<in> set w. \<not> sep c)"
proof (induction xs rule: words_induct [where sep = sep])
  case (word c xs)
  have "\<forall>d \<in> set (takeWhile (\<lambda>c. \<not> sep c) xs). \<not> sep d" by (metis set_takeWhileD)
  moreover from word(1,3) have "w = c # takeWhile (\<lambda>c. \<not> sep c) xs \<or>
    w \<in> set (words_by sep (dropWhile (\<lambda>c. \<not> sep c) xs))" by simp
  ultimately show ?case using word(1) by (elim disjE) (simp, rule word(2))
qed simp_all

text \<open>Words joined by single separators split into themselves.\<close>

lemma words_by_append_word:
  assumes "\<forall>c \<in> set w. \<not> sep c" "w \<noteq> []" "xs = [] \<or> sep (hd xs)"
  shows "words_by sep (w @ xs) = w # words_by sep xs"
proof -
  from assms(2) obtain y ys where w: "w = y # ys" by (cases w) auto
  have "takeWhile (\<lambda>c. \<not> sep c) (ys @ xs) = ys" "dropWhile (\<lambda>c. \<not> sep c) (ys @ xs) = xs"
    using assms(1,3) w by (auto simp: takeWhile_append dropWhile_append takeWhile_eq_Nil_iff dropWhile_eq_self_iff)
  with assms(1) w show ?thesis by simp
qed

section \<open>Lines\<close>

function lines_of :: "u8 list \<Rightarrow> u8 list list" where
  "lines_of xs = (if xs = [] then [] else takeWhile (\<lambda>c. c \<noteq> 10) xs # lines_of (tl (dropWhile (\<lambda>c. c \<noteq> 10) xs)))"
  by pat_completeness auto
termination
proof (relation "measure length", goal_cases)
  case (2 xs)
  have "length (dropWhile (\<lambda>c. c \<noteq> 10) xs) \<le> length xs" by (rule length_dropWhile_le)
  moreover have "0 < length xs" using 2 by simp
  ultimately show ?case unfolding in_measure length_tl by linarith
qed simp

declare lines_of.simps [simp del]

lemma lines_of_Nil [simp]: "lines_of [] = []"
  by (simp add: lines_of.simps)

lemma lines_of_line: "10 \<notin> set l \<Longrightarrow> lines_of (l @ 10 # rest) = l # lines_of rest"
  by (subst lines_of.simps) (auto simp: takeWhile_append dropWhile_append)

lemma lines_of_last: "10 \<notin> set l \<Longrightarrow> l \<noteq> [] \<Longrightarrow> lines_of l = [l]"
proof -
  assume l: "10 \<notin> set l" "l \<noteq> []"
  then have n: "\<forall>x \<in> set l. x \<noteq> 10" by metis
  have "takeWhile (\<lambda>c. c \<noteq> 10) l = l" using n by (simp only: takeWhile_eq_all_conv)
  moreover have "dropWhile (\<lambda>c. c \<noteq> 10) l = []" using n by (simp only: dropWhile_eq_Nil_conv)
  ultimately show ?thesis using l(2) by (simp only: lines_of.simps [of l]) simp
qed

text \<open>A text that a newline ends is its lines, each with its newline.\<close>

lemma lines_of_concat: "\<forall>l \<in> set ls. 10 \<notin> set l \<Longrightarrow> lines_of (concat (map (\<lambda>l. l @ [10]) ls)) = ls"
  by (induction ls) (simp_all add: lines_of_line)

section \<open>The search for a character\<close>

lemma shell_strchr_newline:
  "shell_strchr xs 10 =
    (if 10 \<in> set xs then Some (length (takeWhile (\<lambda>c. c \<noteq> 10) xs)) else None)"
proof (induction xs)
  case (Cons c xs)
  have "scast c = (10 :: s32) \<longleftrightarrow> c = 10"
    using scast_u8_inj [of c 10] by simp
  with Cons show ?case by auto
qed simp

end
