(* ===== verification/Output.thy ===== *)
theory Output
  imports Dmesg
begin

text \<open>
  Console output as one operation: \<open>say t\<close> prints the bytes \<open>t\<close>.  A sequence of formatted prints is
  one \<open>say\<close>, and saying something changes nothing but the screen and the debug port.
\<close>

definition say :: "u8 list \<Rightarrow> 'a vga_scheme \<Rightarrow> 'a vga_scheme" where
  "say t s = fold putc t s"

lemma say_Nil [simp]: "say [] s = s"
  by (simp add: say_def)

lemma say_say [simp]: "say t2 (say t1 s) = say (t1 @ t2) s"
  by (simp add: say_def)

lemma putc_say: "putc c s = say [c] s"
  by (simp add: say_def)

lemma printf_say: "printf fmt args s = say (expand (bytes fmt) args) s"
  by (simp add: printf_def say_def vfprintf_expand fputs_def putc_def [abs_def])

lemma say_if: "(if b then say t s else s) = say (if b then t else []) s"
  by simp

lemma say_more [simp]: "vga.more (say t s) = vga.more s"
  by (simp add: say_def fold_inv [of "\<lambda>u. vga.more u = vga.more s"])

lemma say_screen [wf_intros]: "on_screen s \<Longrightarrow> on_screen (say t s)"
  unfolding say_def by (rule fold_inv) (simp_all add: wf_intros)

lemma ramfs_ok_say [wf_intros]: "ramfs_ok s \<Longrightarrow> ramfs_ok (say t s)"
  by (rule ramfs_ok_console [of s]) (simp_all add: wf_intros ramfs_ok_def kernel_ok_def)

lemma kernel_ok_say [wf_intros]: "kernel_ok s \<Longrightarrow> kernel_ok (say t s)"
  by (rule kernel_ok_console [of s]) (simp_all add: wf_intros kernel_ok_def)

lemmas say_ram [simp] = say_more [THEN console_ram(1)] say_more [THEN console_ram(2)] say_more [THEN console_ram(3)]
  say_more [THEN console_ram(4)] say_more [THEN console_ram(5)] say_more [THEN console_ram(6)]
  say_more [THEN console_ram(7)]

text \<open>Formats with the conversions that the commands use.\<close>

named_theorems fmt \<open>formats expanded\<close>

definition dec_text :: "u32 \<Rightarrow> u8 list" where "dec_text w = print_signed app (scast w) 10 []"
definition udec_text :: "u32 \<Rightarrow> u8 list" where "udec_text w = print_unsigned app (ucast w) 10 []"
definition hex_text :: "u32 \<Rightarrow> u8 list" where "hex_text w = print_unsigned app (ucast w) 16 []"

lemma expand_Nil [fmt]: "expand [] args = []"
  by (simp add: expand_def)

lemma expand_plain [fmt]: "c \<noteq> 37 \<Longrightarrow> expand (c # cs) args = c # expand cs args"
  by (simp add: expand_def app.simps vprintf_core_app [of _ _ _ _ "[c]"] Let_def)

lemma expand_spec:
  assumes "c \<noteq> 104" "c \<noteq> 108" "print_spec app c LEN_DEFAULT args [] = (rest, out)"
  shows "expand (37 # c # cs) args = out @ expand cs rest"
  using assms vprintf_core_app [of ST_NORMAL LEN_DEFAULT cs rest out] by (simp add: expand_def Let_def)

lemma expand_conv [fmt]:
  "expand (37 # 115 # cs) (VS t # args) = t @ expand cs args"
  "expand (37 # 100 # cs) (VI w # args) = dec_text w @ expand cs args"
  "expand (37 # 117 # cs) (VI w # args) = udec_text w @ expand cs args"
  "expand (37 # 120 # cs) (VI w # args) = hex_text w @ expand cs args"
  "expand (37 # 88 # cs) (VI w # args) = hex_text w @ expand cs args"
  by (subst expand_spec; simp add: print_spec_def number_arg_def va_word_def va_str_def fold_app dec_text_def
      udec_text_def hex_text_def app.simps; fail)+

lemma expand_char [fmt]: "expand (37 # 99 # cs) (VI w # args) = ucast w # expand cs args"
  using expand_spec [of 99 "VI w # args" args "[ucast w]" cs] by (simp add: print_spec_def va_word_def app.simps)

lemma bytes_Nil [fmt]: "bytes [] = []" and bytes_Cons [fmt]: "bytes (c # cs) = of_char c # bytes cs"
  by (simp_all add: bytes_def)

lemmas show_fmt = fmt say_Nil

end
