(* ===== verification/FsCommandsOk.thy ===== *)
theory FsCommandsOk
  imports FsCommands Words Output
begin

text \<open>
  What the file commands of the shell do, on every branch: each keeps the invariant of the RAM file
  system, returns 0 or 1 as described, and prints a text that is computed from the files.  The
  counters of \<open>wc\<close> and the search of \<open>grep\<close> are compared with the reference definitions of lines
  and words.
\<close>

section \<open>Before the first command\<close>

text \<open>The file system is set up by the first command that needs it.\<close>

definition fs_ready :: "'a ram_fs_scheme \<Rightarrow> bool" where
  "fs_ready s \<longleftrightarrow> ramfs_ok s \<or> kernel_ok s \<and> ram_initialized s = 0"

lemma ensure_init_ok:
  assumes "fs_ready s"
  shows "\<exists>s'. ensure_init m s = Some s' \<and> ramfs_ok s' \<and> (ram_initialized s \<noteq> 0 \<longrightarrow> s' = s)"
  using assms ramfs_init_ok [of s "m_env m"]
  by (cases "ram_initialized s = 0") (auto simp: ensure_init_def fs_ready_def ramfs_ok_def)

lemma ensure_init_done [simp]: "ramfs_ok s \<Longrightarrow> ensure_init m s = Some s"
  by (simp add: ensure_init_def ramfs_ok_def)

lemma ensure_init_idem: "ensure_init m s = Some s' \<Longrightarrow> ramfs_ok s' \<Longrightarrow> ensure_init m s' = Some s'"
  by simp

text \<open>Changing the directory.\<close>

lemma ramfs_ok_cd:
  assumes "ramfs_ok s" "unat d \<in> dirs (ram_files s)"
  shows "ramfs_ok (s\<lparr>ram_current_dir := d\<rparr>)"
  using assms by (simp add: ramfs_ok_def)

section \<open>mkdir and rm\<close>

lemma cmd_mkdir_ok:
  assumes ok: "ramfs_ok s" and argv: "length argv \<ge> 2" "is_cstr (argv ! 1)"
  shows "\<exists>r s'. cmd_mkdir m argv s = Some (r, s') \<and> ramfs_ok s' \<and> ram_current_dir s' = ram_current_dir s \<and>
    (case ramfs_find_file (argv ! 1) (ram_current_dir s) s of
       Some k \<Rightarrow> r = 1 \<and> ram_files s' = ram_files s
     | None \<Rightarrow>
         (case ramfs_find_free_slot s of
            None \<Rightarrow> r = 1 \<and> ram_files s' = ram_files s
          | Some k \<Rightarrow> r = 0 \<and> others_same k s s' \<and> new_entry (argv ! 1) 1 (ram_current_dir s) (ram_files s' ! k)))"
proof -
  have len: "\<not> length argv < 2" using argv(1) by simp
  have init: "ram_initialized s \<noteq> 0" using ok by (simp add: ramfs_ok_def)
  show ?thesis
  proof (cases "ramfs_find_file (argv ! 1) (ram_current_dir s) s")
    case (Some k)
    then have "ramfs_create (m_env m) (argv ! 1) 1 s = Some (- 1, s)" using init by (simp add: ramfs_create_def)
    then show ?thesis using Some len ok by (simp add: cmd_mkdir_def printf_say wf_intros)
  next
    case None
    show ?thesis
    proof (cases "ramfs_find_free_slot s")
      case no: None
      then have "ramfs_create (m_env m) (argv ! 1) 1 s = Some (- 2, s)"
        using init None by (simp add: ramfs_create_def)
      then show ?thesis using None no len ok by (simp add: cmd_mkdir_def printf_say wf_intros)
    next
      case (Some k)
      from ramfs_create_free [OF ok argv(2) None Some, of "m_env m" 1] obtain s'
        where s': "ramfs_create (m_env m) (argv ! 1) 1 s = Some (int k, s')" "ramfs_ok s'" "others_same k s s'"
          "new_entry (argv ! 1) 1 (ram_current_dir s) (ram_files s' ! k)" by auto
      then show ?thesis using None Some len ok
        by (simp add: cmd_mkdir_def printf_say wf_intros others_same_def)
    qed
  qed
qed

lemma cmd_rm_ok:
  assumes ok: "ramfs_ok s" and argv: "length argv \<ge> 2" "is_cstr (argv ! 1)"
  shows "\<exists>r s'. cmd_rm m argv s = Some (r, s') \<and> ramfs_ok s' \<and> ram_current_dir s' = ram_current_dir s \<and>
    (case ramfs_find_file (argv ! 1) (ram_current_dir s) s of
       None \<Rightarrow> r = 1 \<and> ram_files s' = ram_files s
     | Some k \<Rightarrow>
         if has_child (ram_files s) k then r = 1 \<and> ram_files s' = ram_files s
         else r = 0 \<and> others_same k s s' \<and> taken (ram_files s') = taken (ram_files s) - {k})"
proof -
  have len: "\<not> length argv < 2" using argv(1) by simp
  show ?thesis
  proof (cases "ramfs_find_file (argv ! 1) (ram_current_dir s) s")
    case None
    then have "ramfs_delete (m_env m) (argv ! 1) s = Some (- 1, s)" by (simp add: ramfs_delete_def)
    then show ?thesis using None len ok by (simp add: cmd_rm_def printf_say wf_intros)
  next
    case (Some k)
    note d = ramfs_delete_cases [OF ok argv(2) Some, of "m_env m"]
    show ?thesis
    proof (cases "has_child (ram_files s) k")
      case True
      with d have "ramfs_delete (m_env m) (argv ! 1) s = Some (- 2, s)" by simp
      then show ?thesis using Some True len ok by (simp add: cmd_rm_def printf_say wf_intros)
    next
      case False
      with d obtain s' where s': "ramfs_delete (m_env m) (argv ! 1) s = Some (0, s')" "ramfs_ok s'" "others_same k s s'"
        "taken (ram_files s') = taken (ram_files s) - {k}" by auto
      then show ?thesis using Some False len ok by (simp add: cmd_rm_def printf_say wf_intros others_same_def)
    qed
  qed
qed

section \<open>cd, pwd and ls\<close>

definition cd_target :: "u8 list \<Rightarrow> 'a ram_fs_scheme \<Rightarrow> u32 option" where
  "cd_target name s =
     (if name = bytes ''..'' then Some (if ram_current_dir s = 0 then 0 else rf_parent_index (ram_files s ! unat (ram_current_dir s)))
      else if name = bytes ''/'' then Some 0
      else (case ramfs_find_file name (ram_current_dir s) s of
          None \<Rightarrow> None
        | Some k \<Rightarrow> if k \<in> dirs (ram_files s) then Some (of_nat k) else None))"

lemma is_arg_iff: "is_cstr a \<Longrightarrow> is_cstr (bytes lit) \<Longrightarrow> is_arg a lit \<longleftrightarrow> a = bytes lit"
  by (simp add: is_arg_def shell_strcmp_eq_0)

lemma cstr_dots [simp]: "is_cstr (bytes ''..'')" "is_cstr (bytes ''/'')"
  by (simp_all add: is_cstr_def bytes_def)

lemma cmd_cd_ok:
  assumes ok: "ramfs_ok s" and argv: "length argv \<ge> 2" "is_cstr (argv ! 1)"
  shows "\<exists>r s'. cmd_cd m argv s = Some (r, s') \<and> ramfs_ok s' \<and> ram_files s' = ram_files s \<and> mem s' = mem s \<and>
    (case cd_target (argv ! 1) s of None \<Rightarrow> r = 1 \<and> ram_current_dir s' = ram_current_dir s
     | Some d \<Rightarrow> r = 0 \<and> ram_current_dir s' = d)"
proof -
  have len: "\<not> length argv < 2" using argv(1) by simp
  let ?fs = "ram_files s" and ?d = "ram_current_dir s"
  have t: "tree_ok ?fs" "unat ?d \<in> dirs ?fs" "length ?fs = 64" "0 \<in> dirs ?fs"
    using ok by (simp_all add: ramfs_ok_def tree_ok_def)
  have par: "unat (rf_parent_index (?fs ! unat ?d)) \<in> dirs ?fs"
    using t(1,2) by (auto simp: tree_ok_def dirs_def parent_def)
  have d64: "unat ?d < 64" using t(2,3) by (simp add: dirs_def taken_def)
  have get: "arr_get ?fs (uint ?d) = Some (?fs ! unat ?d)"
    using d64 t(3) arr_get_nat [of "unat ?d" ?fs] by simp
  show ?thesis
  proof (cases "argv ! 1 = bytes ''..''")
    case up: True
    show ?thesis
    proof (cases "?d = 0")
      case True
      then have "cmd_cd m argv s = Some (0, s)" using up len ok argv(2) by (simp add: cmd_cd_def is_arg_iff)
      then show ?thesis using up True ok by (simp add: cd_target_def)
    next
      case False
      then have "cmd_cd m argv s = Some (0, s\<lparr>ram_current_dir := rf_parent_index (?fs ! unat ?d)\<rparr>)"
        using up len ok argv(2) get by (simp add: cmd_cd_def is_arg_iff)
      then show ?thesis using up False ramfs_ok_cd [OF ok par] by (simp add: cd_target_def)
    qed
  next
    case no_up: False
    show ?thesis
    proof (cases "argv ! 1 = bytes ''/''")
      case True
      then have "cmd_cd m argv s = Some (0, s\<lparr>ram_current_dir := 0\<rparr>)"
        using no_up len ok argv(2) by (simp add: cmd_cd_def is_arg_iff)
      then show ?thesis using no_up True ramfs_ok_cd [OF ok, of 0] t(4) by (simp add: cd_target_def)
    next
      case no_root: False
      show ?thesis
      proof (cases "ramfs_find_file (argv ! 1) ?d s")
        case None
        then show ?thesis using no_up no_root len ok argv(2)
          by (simp add: cmd_cd_def is_arg_iff cd_target_def printf_say wf_intros)
      next
        case (Some k)
        note f = find_file_SomeD [OF Some ok argv(2)]
        have k: "unat (of_nat k :: u32) = k" using f(2) unat_of_nat_u32 [of k] by simp
        have dir: "k \<in> dirs ?fs \<longleftrightarrow> rf_is_directory (?fs ! k) \<noteq> 0" using f(1) by (simp add: dirs_def)
        show ?thesis
        proof (cases "k \<in> dirs ?fs")
          case True
          then have "cmd_cd m argv s = Some (0, s\<lparr>ram_current_dir := of_nat k\<rparr>)"
            using no_up no_root len ok argv(2) Some dir by (simp add: cmd_cd_def is_arg_iff)
          then show ?thesis using no_up no_root Some True ramfs_ok_cd [OF ok, of "of_nat k"] k
            by (simp add: cd_target_def)
        next
          case False
          then show ?thesis using no_up no_root len ok argv(2) Some dir
            by (simp add: cmd_cd_def is_arg_iff cd_target_def printf_say wf_intros)
        qed
      qed
    qed
  qed
qed

text \<open>The path that the commands show.\<close>

definition shown_path :: "u8 list list \<Rightarrow> u8 list" where
  "shown_path ns = (if ns = [] then bytes ''/'' else path_str ns)"

lemma path_to_root_iff: "path_to fs i ns \<Longrightarrow> i = 0 \<longleftrightarrow> ns = []"
  by (induction rule: path_to.induct) simp_all

lemma current_path_text:
  assumes "ramfs_ok s" "path_to (ram_files s) (unat (ram_current_dir s)) ns" "length (path_str ns) < 64"
  shows "current_path m s = (if m_behind m = [] then None else Some (shown_path ns))"
proof -
  have z: "ram_current_dir s = 0 \<longleftrightarrow> ns = []" using path_to_root_iff [OF assms(2)] by (simp add: unat_eq_0)
  define p where "p = shown_path ns"
  have get: "ramfs_get_current_path buf 64 s = shell_strncpy buf p (int 64)" for buf
  proof (cases "ns = []")
    case True
    then show ?thesis using z by (simp add: p_def shown_path_def current_path_root bytes_def)
  next
    case False
    then show ?thesis using z assms(3) by (simp add: p_def shown_path_def current_path_ok [OF assms(1,2)])
  qed
  have p: "length p < 64" "is_cstr p" using assms(3) path_to_cstr [OF assms(2)]
    by (simp_all add: p_def shown_path_def bytes_def is_cstr_def)
  show ?thesis
  proof (cases "m_behind m = []")
    case True
    then show ?thesis using shell_strncpy_padded [OF p(1), of "replicate 64 0"] by (simp add: current_path_def get)
  next
    case False
    then have b: "64 < length (replicate 64 0 @ m_behind m)" by simp
    have "Suc 64 - length p = Suc (64 - length p)" using p(1) by linarith
    then have rep: "replicate (Suc 64 - length p) (0 :: u8) = 0 # replicate (64 - length p) 0"
      by (simp only: replicate_Suc)
    have "arr_str (p @ replicate (Suc 64 - length p) 0 @ rest) = Some p" for rest
      unfolding rep arr_str_def using cstr_of_pad [OF p(2)] by simp
    then show ?thesis using shell_strncpy_padded [OF p(1), of "replicate 64 0 @ m_behind m"] b False
      by (simp add: current_path_def get p_def)
  qed
qed

lemma cmd_pwd_ok:
  assumes "ramfs_ok s" "path_to (ram_files s) (unat (ram_current_dir s)) ns" "length (path_str ns) < 64"
  shows "cmd_pwd m argv s = (if m_behind m = [] then None else Some (0, say (shown_path ns @ [10]) s))"
  using current_path_text [OF assms, of m] assms(1) by (simp add: cmd_pwd_def printf_say fmt)

text \<open>\<open>ls\<close> lists the entries whose parent is the current directory.\<close>

definition entry_line :: "string \<Rightarrow> string \<Rightarrow> ram_file \<Rightarrow> u8 list" where
  "entry_line d f r = bytes (if rf_is_directory r \<noteq> 0 then d else f) @ 32 # cstr_of (rf_name r) @ [10]"

definition children :: "ram_file list \<Rightarrow> u32 \<Rightarrow> ram_file list" where
  "children fs d = filter (\<lambda>f. rf_in_use f \<noteq> 0 \<and> rf_parent_index f = d) (take 64 fs)"

lemma ls_fold:
  assumes "n \<le> length (ram_files s)" "n \<le> 64"
  shows "fold ls_entry [0..<n] (c, s) =
    (let fs = filter (\<lambda>f. rf_in_use f \<noteq> 0 \<and> rf_parent_index f = ram_current_dir s) (take n (ram_files s))
     in (c + int (length fs), say (concat (map (entry_line ''DIR       '' ''FILE      '') fs)) s))"
  using assms
  by (induction n) (simp_all add: ls_entry_def take_Suc_conv_app_nth printf_say fmt entry_line_def Let_def)

lemma cmd_ls_ok:
  assumes ok: "ramfs_ok s" and p: "path_to (ram_files s) (unat (ram_current_dir s)) ns" "length (path_str ns) < 64"
    and slack: "m_behind m \<noteq> []"
  shows "cmd_ls m argv s = Some (0, say (expand (bytes ''Directory listing for %s:\<newline>'') [VS (shown_path ns)] @
     bytes ''Type       Name      \<newline>'' @ bytes ''------------------------------------------------------------\<newline>'' @
     (if children (ram_files s) (ram_current_dir s) = [] then bytes ''Directory is empty\<newline>''
      else concat (map (entry_line ''DIR       '' ''FILE      '') (children (ram_files s) (ram_current_dir s))))) s)"
proof -
  have len: "length (ram_files s) = 64" using ok by (simp add: ramfs_ok_def tree_ok_def)
  have path: "current_path m s = Some (shown_path ns)" using current_path_text [OF ok p, of m] slack by simp
  have fold: "fold ls_entry [0..<MAX_FILES] (0, say t s) =
      (int (length (children (ram_files s) (ram_current_dir s))),
       say (concat (map (entry_line ''DIR       '' ''FILE      '') (children (ram_files s) (ram_current_dir s)))) (say t s))" for t
    using ls_fold [of 64 "say t s" 0] len by (simp add: MAX_FILES_def children_def Let_def)
  have plain: "expand (bytes ''------------------------------------------------------------\<newline>'') [] =
      bytes ''------------------------------------------------------------\<newline>''"
    "expand (bytes ''Directory is empty\<newline>'') [] = bytes ''Directory is empty\<newline>''"
    "expand (bytes ''%s %s\<newline>'') [VS (bytes ''Type      ''), VS (bytes ''Name      '')] = bytes ''Type       Name      \<newline>''"
    by (simp_all add: fmt)
  show ?thesis
    using ok by (simp add: cmd_ls_def path printf_say fold plain split del: if_split) (simp add: printf_say plain)
qed

section \<open>Reading a file\<close>

text \<open>What the commands see of file \<open>k\<close>: at most 4095 bytes.\<close>

definition file_view :: "'a ram_fs_scheme \<Rightarrow> nat \<Rightarrow> u8 list" where
  "file_view s k = take 4095 (file_bytes s k)"

text \<open>The file that \<open>name\<close> means in the current directory, if there is one to read.\<close>

definition text_file :: "u8 list \<Rightarrow> 'a ram_fs_scheme \<Rightarrow> nat option" where
  "text_file name s =
     (case ramfs_find_file name (ram_current_dir s) s of
        None \<Rightarrow> None | Some k \<Rightarrow> if k \<in> dirs (ram_files s) then None else Some k)"

lemma cstr_of_append_nul: "cstr_of (xs @ 0 # ys) = cstr_of xs"
  by (induction xs) (simp_all add: cstr_of_def)

lemma load_file_ok:
  assumes ok: "ramfs_ok s" and name: "is_cstr name"
  shows "case text_file name s of
      None \<Rightarrow> \<exists>r b. load_file name s = Some (r, b) \<and> r < 0
    | Some k \<Rightarrow> load_file name s =
        Some (int (length (file_view s k)), file_view s k @ 0 # replicate (4095 - length (file_view s k)) 0)"
proof (cases "ramfs_find_file name (ram_current_dir s) s")
  case None
  then show ?thesis by (simp add: text_file_def load_file_def ramfs_read_file_def)
next
  case (Some k)
  note f = find_file_SomeD [OF Some ok name]
  show ?thesis
  proof (cases "k \<in> dirs (ram_files s)")
    case True
    then have "rf_is_directory (ram_files s ! k) \<noteq> 0" by (simp add: dirs_def)
    then show ?thesis using Some True by (simp add: text_file_def load_file_def ramfs_read_file_def)
  next
    case False
    let ?t = "file_view s k" and ?b = "replicate 4096 (0 :: u8)"
    have n: "length ?t = min (length (file_bytes s k)) (unat (of_nat MAX_FILE_SIZE - 1 :: u32))"
      by (simp add: file_view_def MAX_FILE_SIZE_def)
    then have n': "length ?t \<le> 4095" by (simp add: file_view_def)
    have "ramfs_read_file name ?b (of_nat MAX_FILE_SIZE - 1) s =
        Some (int (length ?t), take (length ?t) (file_bytes s k) @ drop (length ?t) ?b)"
      by (rule ramfs_read_file_ok [OF ok name Some False n]) (use n' in simp_all)
    moreover have "take (length (take m ys)) ys = take m ys" for m and ys :: "u8 list" by (simp add: min_def)
    then have "take (length ?t) (file_bytes s k) = ?t" unfolding file_view_def .
    moreover have "4096 - length ?t = Suc (4095 - length ?t)" using n' by linarith
    then have "drop (length ?t) ?b = 0 # replicate (4095 - length ?t) 0" by (simp only: drop_replicate replicate_Suc)
    ultimately have "ramfs_read_file name ?b (of_nat MAX_FILE_SIZE - 1) s =
        Some (int (length ?t), ?t @ 0 # replicate (4095 - length ?t) 0)" by simp
    then show ?thesis using Some False by (simp add: text_file_def load_file_def MAX_FILE_SIZE_def list_update_append)
  qed
qed

lemma arr_str_view: "arr_str (t @ 0 # r) = Some (cstr_of t)"
  by (simp add: arr_str_def cstr_of_append_nul)

lemma cmd_cat_ok:
  assumes ok: "ramfs_ok s" and argv: "length argv \<ge> 2" "is_cstr (argv ! 1)"
  shows "case text_file (argv ! 1) s of
      None \<Rightarrow> \<exists>t. cmd_cat m argv s = Some (1, say t s)
    | Some k \<Rightarrow> cmd_cat m argv s = Some (0, say (cstr_of (file_view s k)) s)"
  using load_file_ok [OF ok argv(2)] argv(1) ok
  by (cases "text_file (argv ! 1) s") (auto simp: cmd_cat_def printf_say arr_str_view fmt not_less)

section \<open>wc\<close>

definition blank :: "u8 \<Rightarrow> bool" where
  "blank c \<longleftrightarrow> c = 32 \<or> c = 9 \<or> c = 10"

definition words_left :: "bool \<Rightarrow> u8 list \<Rightarrow> int" where
  "words_left inw xs =
     (if inw then 1 + int (length (words_by blank (dropWhile (\<lambda>c. \<not> blank c) xs))) else int (length (words_by blank xs)))"

lemma words_left_simps:
  "words_left inw [] = (if inw then 1 else 0)"
  "blank c \<Longrightarrow> words_left inw (c # xs) = words_left False xs + (if inw then 1 else 0)"
  "\<not> blank c \<Longrightarrow> words_left inw (c # xs) = words_left True xs"
  by (simp_all add: words_left_def)

lemma wc_char_eq:
  "wc_char c (l, w, inw) = (l + (if c = 10 then 1 else 0), w + (if blank c \<and> inw then 1 else 0), \<not> blank c)"
  by (auto simp: wc_char_def blank_def)

lemma wc_fold:
  "(case fold wc_char xs (l, w, inw) of (l', w', inw') \<Rightarrow> (l', w' + (if inw' then 1 else 0))) =
    (l + int (count_list xs 10), w + words_left inw xs)"
proof (induction xs arbitrary: l w inw)
  case (Cons c xs)
  show ?case
    by (cases "blank c") (simp_all add: wc_char_eq Cons.IH words_left_simps blank_def)
qed (simp add: words_left_simps)

lemma wc_count_ok: "wc_count xs = (int (count_list xs 10), int (length (words_by blank xs)))"
proof -
  have "wc_count xs = (case fold wc_char xs (0, 0, False) of (l, w, inw) \<Rightarrow> (l, w + (if inw then 1 else 0)))"
    by (simp add: wc_count_def split: prod.split)
  then show ?thesis using wc_fold [of xs 0 0 False] by (simp add: words_left_def)
qed

lemma cmd_wc_ok:
  assumes ok: "ramfs_ok s" and argv: "length argv \<ge> 2" "is_cstr (argv ! 1)"
  shows "case text_file (argv ! 1) s of
      None \<Rightarrow> \<exists>t. cmd_wc m argv s = Some (1, say t s)
    | Some k \<Rightarrow> cmd_wc m argv s = Some (0, say (expand (bytes ''  %d lines, %d words, %d characters, Filename: %s\<newline>'')
        [VI (of_nat (count_list (file_view s k) 10)), VI (of_nat (length (words_by blank (file_view s k)))),
         VI (of_nat (length (file_view s k))), VS (argv ! 1)]) s)"
  using load_file_ok [OF ok argv(2)] argv(1) ok
  by (cases "text_file (argv ! 1) s") (auto simp: cmd_wc_def printf_say wc_count_ok not_less)

section \<open>grep and find\<close>

text \<open>The lines that contain the pattern, with their numbers.\<close>

fun matching_lines :: "u8 list \<Rightarrow> int \<Rightarrow> u8 list list \<Rightarrow> (int \<times> u8 list) list" where
  "matching_lines p n [] = []"
| "matching_lines p n (l # ls) = (if sublist p l then [(n, l)] else []) @ matching_lines p (n + 1) ls"

definition numbered :: "int \<times> u8 list \<Rightarrow> u8 list" where
  "numbered = (\<lambda>(n, l). dec_text (of_int n) @ bytes '': '' @ l @ [10])"

lemma grep_loop_ok:
  "grep_loop p xs n (found, s) =
    (found \<or> matching_lines p n (lines_of xs) \<noteq> [], say (concat (map numbered (matching_lines p n (lines_of xs)))) s)"
proof (induction "length xs" arbitrary: xs n found s rule: less_induct)
  case less
  show ?case
  proof (cases "xs = []")
    case True
    then show ?thesis by (simp add: grep_loop.simps)
  next
    case False
    let ?l = "takeWhile (\<lambda>c. c \<noteq> 10) xs" and ?r = "tl (dropWhile (\<lambda>c. c \<noteq> 10) xs)"
    have lines: "lines_of xs = ?l # lines_of ?r" using False by (subst lines_of.simps) simp
    let ?st = "(found \<or> sublist p ?l, if sublist p ?l then say (numbered (n, ?l)) s else s)"
    have print: "printf ''%d: %s\<newline>'' [VI (of_int n), VS l] s = say (numbered (n, l)) s" for l
      by (simp add: printf_say fmt numbered_def)
    show ?thesis
    proof (cases "10 \<in> set xs")
      case True
      have tk: "take (length ?l) xs = ?l" by (metis takeWhile_eq_take)
      have dr: "drop (Suc (length ?l)) xs = ?r" by (simp add: drop_Suc tl_drop dropWhile_eq_drop)
      have "grep_loop p xs n (found, s) = grep_loop p ?r (n + 1) ?st"
        using False True by (subst grep_loop.simps) (simp add: shell_strchr_newline tk dr strstr_None print)
      moreover have "length ?r < length xs"
      proof -
        have "0 < length xs" using False by simp
        then show ?thesis using length_dropWhile_le [of "\<lambda>c. c \<noteq> 10" xs] unfolding length_tl by linarith
      qed
      ultimately show ?thesis using less [of ?r "n + 1" "fst ?st" "snd ?st"] lines by simp
    next
      case no: False
      then have "\<forall>x \<in> set xs. x \<noteq> 10" by metis
      then have "?l = xs" "dropWhile (\<lambda>c. c \<noteq> 10) xs = []"
        by (simp_all only: takeWhile_eq_all_conv dropWhile_eq_Nil_conv)
      then have l: "?l = xs" "?r = []" by (simp_all only: list.sel)
      have one: "lines_of xs = [xs]" by (simp only: lines l lines_of_Nil)
      have "grep_loop p xs n (found, s) = (found \<or> sublist p xs, if sublist p xs then say (numbered (n, xs)) s else s)"
        using False no by (subst grep_loop.simps) (simp add: shell_strchr_newline strstr_None print)
      then show ?thesis by (simp add: one)
    qed
  qed
qed

lemma cmd_grep_ok:
  assumes ok: "ramfs_ok s" and argv: "length argv \<ge> 3" "is_cstr (argv ! 2)"
  shows "case text_file (argv ! 2) s of
      None \<Rightarrow> \<exists>t. cmd_grep m argv s = Some (1, say t s)
    | Some k \<Rightarrow>
        (let found = matching_lines (argv ! 1) 1 (lines_of (cstr_of (file_view s k)))
         in cmd_grep m argv s = Some (0, say (if found = []
              then expand (bytes ''Pattern '%s' not found in '%s'\<newline>'') [VS (argv ! 1), VS (argv ! 2)]
              else concat (map numbered found)) s))"
  using load_file_ok [OF ok argv(2)] argv(1) ok
  by (cases "text_file (argv ! 2) s")
    (auto simp: cmd_grep_def printf_say arr_str_view grep_loop_ok not_less Let_def)

lemma find_fold:
  assumes "n \<le> length (ram_files s)" "n \<le> 64"
  shows "fold (find_entry p) [0..<n] (found, s) =
    (let fs = filter (\<lambda>f. rf_in_use f \<noteq> 0 \<and> sublist p (cstr_of (rf_name f))) (take n (ram_files s))
     in (found \<or> fs \<noteq> [], say (concat (map (entry_line ''[DIR] '' ''[FILE] '') fs)) s))"
  using assms
  by (induction n)
    (simp_all add: find_entry_def take_Suc_conv_app_nth printf_say fmt entry_line_def Let_def strstr_None, blast)

lemma cmd_find_ok:
  assumes ok: "ramfs_ok s" and argv: "length argv \<ge> 2"
  shows "cmd_find m argv s =
    (let fs = filter (\<lambda>f. rf_in_use f \<noteq> 0 \<and> sublist (argv ! 1) (cstr_of (rf_name f))) (take 64 (ram_files s))
     in Some (0, say (expand (bytes ''Searching for files matching '%s':\<newline>'') [VS (argv ! 1)] @
       (if fs = [] then expand (bytes ''No files found matching '%s'\<newline>'') [VS (argv ! 1)]
        else concat (map (entry_line ''[DIR] '' ''[FILE] '') fs))) s))"
proof -
  have len: "length (ram_files s) = 64" using ok by (simp add: ramfs_ok_def tree_ok_def)
  show ?thesis using find_fold [of 64 "say t s" "argv ! 1" False for t] len ok argv
    by (simp add: cmd_find_def printf_say MAX_FILES_def Let_def not_less)
qed

section \<open>touch\<close>

lemma cmd_touch_ok:
  assumes ok: "ramfs_ok s" and argv: "length argv \<ge> 2" "is_cstr (argv ! 1)"
  shows "\<exists>r s'. cmd_touch m argv s = Some (r, s') \<and> ramfs_ok s' \<and>
    (case ramfs_find_file (argv ! 1) (ram_current_dir s) s of
       Some k \<Rightarrow> r = 0 \<and> ram_files s' = ram_files s \<and> mem s' = mem s
     | None \<Rightarrow>
         (case ramfs_find_free_slot s of
            None \<Rightarrow> r = 1 \<and> ram_files s' = ram_files s
          | Some k \<Rightarrow> others_same k s s' \<and> (r = 1 \<or> r = 0 \<and> k \<in> taken (ram_files s') - dirs (ram_files s') \<and>
              file_bytes s' k = [] \<and> cstr_of (rf_name (ram_files s' ! k)) = take 31 (argv ! 1) \<and>
              rf_parent_index (ram_files s' ! k) = ram_current_dir s)))"
proof -
  have len: "\<not> length argv < 2" using argv(1) by simp
  show ?thesis
  proof (cases "ramfs_find_file (argv ! 1) (ram_current_dir s) s")
    case (Some k)
    then show ?thesis using len ok by (simp add: cmd_touch_def printf_say wf_intros)
  next
    case None
    have g: "good_size 0" "unat (0 :: u32) \<le> length ([] :: u8 list)" by (simp_all add: good_size_def)
    from ramfs_write_file_ok [OF ok argv(2) g, of "m_env m"] None obtain r s1 where w:
      "ramfs_write_file (m_env m) (argv ! 1) [] 0 s = Some (r, s1)" "ramfs_ok s1"
      "case ramfs_find_free_slot s of None \<Rightarrow> r = - 2 \<and> s1 = s
       | Some k \<Rightarrow> others_same k s s1 \<and> (r = - 3 \<or> wrote k [] 0 r s1 \<and>
           cstr_of (rf_name (ram_files s1 ! k)) = take 31 (argv ! 1) \<and> rf_parent_index (ram_files s1 ! k) = ram_current_dir s)"
      by auto
    show ?thesis
    proof (cases "ramfs_find_free_slot s")
      case no: None
      with w None len ok show ?thesis by (simp add: cmd_touch_def printf_say wf_intros)
    next
      case (Some k)
      with w(3) have c: "others_same k s s1" "r = - 3 \<or> wrote k [] 0 r s1 \<and>
           cstr_of (rf_name (ram_files s1 ! k)) = take 31 (argv ! 1) \<and> rf_parent_index (ram_files s1 ! k) = ram_current_dir s"
        by auto
      from c(2) show ?thesis
      proof (elim disjE)
        assume "r = - 3"
        with w(1,2) c(1) None Some len ok show ?thesis
          by (simp add: cmd_touch_def printf_say wf_intros others_same_def)
      next
        assume "wrote k [] 0 r s1 \<and> cstr_of (rf_name (ram_files s1 ! k)) = take 31 (argv ! 1) \<and>
          rf_parent_index (ram_files s1 ! k) = ram_current_dir s"
        with w(1,2) c(1) None Some len ok show ?thesis
          by (simp add: cmd_touch_def printf_say wf_intros others_same_def wrote_def)
      qed
    qed
  qed
qed

section \<open>A new directory can be entered and left\<close>

lemma path_to_keeps:
  assumes "path_to fs i ns" "tree_ok fs" "i \<in> taken fs" "\<And>j. j \<in> taken fs \<Longrightarrow> fs' ! j = fs ! j"
  shows "path_to fs' i ns"
  using assms(1,3)
proof (induction rule: path_to.induct)
  case root
  show ?case by (rule path_to.root)
next
  case (down i ns)
  have "parent fs i \<in> taken fs" using assms(2) down.prems by (auto simp: tree_ok_def dirs_def)
  then have "path_to fs' (parent fs i) ns" by (rule down.IH)
  moreover have "fs' ! i = fs ! i" using assms(4) down.prems by blast
  ultimately show ?case using path_to.down [of fs' i ns] down.hyps(2) by (simp add: parent_def)
qed

lemma mkdir_then_cd:
  assumes ok: "ramfs_ok s" and name: "is_cstr name" "length name \<le> 31" "name \<noteq> bytes ''..''" "name \<noteq> bytes ''/''"
    and new: "ramfs_find_file name (ram_current_dir s) s = None" "ramfs_find_free_slot s = Some k"
    and path: "path_to (ram_files s) (unat (ram_current_dir s)) ns"
  shows "\<exists>s1 s2 s3. cmd_mkdir m [a, name] s = Some (0, s1) \<and> cmd_cd m [b, name] s1 = Some (0, s2) \<and>
    cmd_cd m [c, bytes ''..''] s2 = Some (0, s3) \<and> ramfs_ok s3 \<and>
    path_to (ram_files s2) (unat (ram_current_dir s2)) (ns @ [name]) \<and> ram_current_dir s3 = ram_current_dir s"
proof -
  from cmd_mkdir_ok [OF ok, of "[a, name]" m] name(1) new obtain s1 where s1: "cmd_mkdir m [a, name] s = Some (0, s1)"
    "ramfs_ok s1" "ram_current_dir s1 = ram_current_dir s" "others_same k s s1"
    "new_entry name 1 (ram_current_dir s) (ram_files s1 ! k)" by auto
  note k = find_free_SomeD [OF new(2)]
  have len: "length (ram_files s) = 64" "length (ram_files s1) = 64" "tree_ok (ram_files s)"
    using ok s1(2) by (simp_all add: ramfs_ok_def tree_ok_def)
  have dir: "k \<in> dirs (ram_files s1)" using s1(5) k(1) len by (simp add: new_entry_def dirs_def taken_def)
  have nm: "cstr_of (rf_name (ram_files s1 ! k)) = name" "rf_parent_index (ram_files s1 ! k) = ram_current_dir s"
    using s1(5) name(2) by (simp_all add: new_entry_def)
  have f: "ramfs_find_file name (ram_current_dir s1) s1 = Some k"
    using find_file_new [OF s1(4) ok s1(2) name(1) new(1) _ nm(2,1)] dir s1(3) by (simp add: dirs_def)
  have target: "cd_target name s1 = Some (of_nat k)" using f dir name(3,4) by (simp add: cd_target_def)
  from cmd_cd_ok [OF s1(2), of "[b, name]" m] name(1) target obtain s2 where s2: "cmd_cd m [b, name] s1 = Some (0, s2)"
    "ramfs_ok s2" "ram_files s2 = ram_files s1" "ram_current_dir s2 = of_nat k" by auto
  have kk: "unat (of_nat k :: u32) = k" using k(1) unat_of_nat_u32 [of k] by simp
  have k0: "k \<noteq> 0" using k(2) taken_0 [OF len(3)] by metis
  then have kw: "(of_nat k :: u32) \<noteq> 0" using kk by (metis unat_0)
  have "cd_target (bytes ''..'') s2 = Some (ram_current_dir s)"
    using s2(3,4) kk kw nm(2) by (simp add: cd_target_def)
  with cmd_cd_ok [OF s2(2), of "[c, bytes ''..'']" m] obtain s3 where s3: "cmd_cd m [c, bytes ''..''] s2 = Some (0, s3)"
    "ramfs_ok s3" "ram_current_dir s3 = ram_current_dir s" by auto
  have cur: "unat (ram_current_dir s) \<in> taken (ram_files s)" using ok by (simp add: ramfs_ok_def dirs_def)
  have same: "ram_files s1 ! j = ram_files s ! j" if "j \<in> taken (ram_files s)" for j
    using s1(4) that k(2) len by (auto simp: others_same_def taken_def)
  have "path_to (ram_files s1) (unat (ram_current_dir s)) ns" by (rule path_to_keeps [OF path len(3) cur same])
  then have "path_to (ram_files s1) k (ns @ [name])"
    using path_to.down [of "ram_files s1" k ns] k0 nm by (simp add: parent_def)
  then show ?thesis using s1(1) s2 s3 kk by auto
qed

section \<open>The invariant through the file commands\<close>

lemma fold_ls_ok: "ramfs_ok t \<Longrightarrow> ramfs_ok (snd (fold ls_entry xs (c, t)))"
  by (induction xs arbitrary: c t) (simp_all add: ls_entry_def Let_def wf_intros)

lemma cmd_ls_keeps:
  assumes "ramfs_ok s" "cmd_ls m argv s = Some (r, s')"
  shows "ramfs_ok s'"
proof -
  from assms obtain path where p: "current_path m s = Some path"
    by (auto simp: cmd_ls_def split: Option.bind_splits)
  define t where "t = printf ''------------------------------------------------------------\<newline>'' []
    (printf ''%s %s\<newline>'' [VS (bytes ''Type      ''), VS (bytes ''Name      '')]
      (printf ''Directory listing for %s:\<newline>'' [VS path] s))"
  have "ramfs_ok t" using assms(1) by (simp add: t_def wf_intros)
  obtain c u where cu: "fold ls_entry [0..<MAX_FILES] (0, t) = (c, u)" by force
  then have "ramfs_ok u" using fold_ls_ok [OF \<open>ramfs_ok t\<close>, of "[0..<MAX_FILES]" 0] by simp
  moreover have "s' = (if c = 0 then printf ''Directory is empty\<newline>'' [] u else u)"
    using assms by (simp add: cmd_ls_def p t_def [symmetric] cu)
  ultimately show ?thesis by (simp add: wf_intros)
qed

end
