(* ===== verification/ConsoleOk.thy ===== *)
theory ConsoleOk
  imports Console Output
begin

text \<open>
  Waiting for input.  The specification is a stream: what the ring buffer holds followed by the
  characters of the scancodes that are still to come (\<open>typed\<close>).  \<open>shell_getc\<close> and the wait in
  \<open>help\<close> take its first character, however the interrupts are distributed over the polls, and
  console output leaves it alone.
\<close>

section \<open>What an interrupt of the keyboard changes\<close>

text \<open>Only the keyboard driver's own fields, the screen and the port trace.\<close>

lemma kbd_more_kheap:
  fixes s s' :: "'a ksys_scheme"
  assumes "kbd.more s' = kbd.more s"
  shows "mem s' = mem s" "heap_start s' = heap_start s" "heap_initialized s' = heap_initialized s"
    "kheap.more s' = kheap.more s" "interrupts_on s' = interrupts_on s" "halted s' = halted s"
  using assms by (cases s; cases s'; simp)+

lemma kbd_more_live:
  fixes s s' :: "'a ksys_scheme"
  assumes "kbd.more s' = kbd.more s"
  shows "user_live s' = user_live s" "ksys.more s' = ksys.more s"
  using user_live_cong [OF heap_frame(2) [OF kbd_more_kheap(1-3) [OF assms]] more_ksys(1) [OF kbd_more_kheap(4) [OF assms]]]
    more_ksys(7) [OF kbd_more_kheap(4) [OF assms]] by simp_all

lemma ramfs_ok_kbd:
  fixes s s' :: "'a ram_fs_scheme"
  assumes "ramfs_ok s" "kernel_ok s'" "kbd.more s' = kbd.more s"
  shows "ramfs_ok s'" "ram_files s' = ram_files s" "ram_current_dir s' = ram_current_dir s"
    "file_bytes s' k = file_bytes s k"
  using assms(1,2) kbd_more_live(1) [OF assms(3)] kbd_more_kheap(1) [OF assms(3)] more_ram [OF kbd_more_live(2) [OF assms(3)]]
  by (simp_all add: ramfs_ok_def file_bytes_def)

lemma keyboard_irq_frame:
  assumes "kernel_ok s"
  shows "\<exists>s'. keyboard_handler sc s = Some s' \<and> kernel_ok s' \<and> kbd.more s' = kbd.more s"
  using keyboard_irq_ok [OF assms, of sc] keyboard_handler_kernel(1) [of sc s] assms by (auto simp: kernel_ok_def)

lemma EOI_more [simp]: "vga.more (i8259_SendEndOfInterrupt irq s) = vga.more s"
  by (simp add: i8259_SendEndOfInterrupt_def)

lemma key_irq_eq:
  assumes ok: "kernel_ok s" and on: "interrupts_on s" and h: "keyboard_handler sc (s\<lparr>interrupts_on := False\<rparr>) = Some t"
  shows "key_irq e sc s = Some ((i8259_SendEndOfInterrupt 1 t)\<lparr>interrupts_on := True\<rparr>)"
    "kernel_ok ((i8259_SendEndOfInterrupt 1 t)\<lparr>interrupts_on := True\<rparr>)"
    "kbd.more ((i8259_SendEndOfInterrupt 1 t)\<lparr>interrupts_on := True\<rparr>) = kbd.more s"
proof -
  let ?s = "s\<lparr>interrupts_on := False\<rparr>"
  have k: "kernel_ok ?s" using ok by (simp add: kernel_ok_upd)
  from keyboard_irq_frame [OF k, of sc] h have t: "kernel_ok t" "kbd.more t = kbd.more ?s" by simp_all
  let ?u = "i8259_SendEndOfInterrupt 1 t"
  have u: "kernel_ok ?u" "kbd.more ?u = kbd.more ?s"
    using t more_fields [OF EOI_more [of 1 t]] by simp_all
  have tab: "g_ISRHandlers s ! 33 = Some ISR_irq" "length (g_ISRHandlers s) = 256" "length (g_IRQHandlers s) = 16"
    "g_IRQHandlers s ! 1 = Some IRQ_keyboard" "g_Driver t" "\<not> halted ?u"
    using ok t(1) u(1) by (simp_all add: kernel_ok_def tables_set_def)
  show "key_irq e sc s = Some (?u\<lparr>interrupts_on := True\<rparr>)"
    using on tab h
    by (simp add: key_irq_def isr_common_def i686_ISR_Handler_def run_isr_def i686_IRQ_Handler_def run_irq_def
        PIC_REMAP_OFFSET_def Let_def)
  show "kernel_ok (?u\<lparr>interrupts_on := True\<rparr>)" using u(1) by (simp add: kernel_ok_upd)
  show "kbd.more (?u\<lparr>interrupts_on := True\<rparr>) = kbd.more s"
    using u(2) on by (cases s; cases ?u; simp)
qed

lemma key_irq_frame:
  assumes "kernel_ok s"
  shows "\<exists>t. key_irq e sc s = Some t \<and> kernel_ok t \<and> kbd.more t = kbd.more s"
proof (cases "interrupts_on s")
  case False
  then show ?thesis using assms by (simp add: key_irq_def)
next
  case True
  from keyboard_irq_ok [of "s\<lparr>interrupts_on := False\<rparr>" sc] assms obtain t
    where "keyboard_handler sc (s\<lparr>interrupts_on := False\<rparr>) = Some t" by (auto simp: kernel_ok_upd)
  from key_irq_eq [OF assms True this] show ?thesis by blast
qed

lemma deliver_frame:
  assumes "kernel_ok s"
  shows "\<exists>t. deliver e batch s = Some t \<and> kernel_ok t \<and> kbd.more t = kbd.more s"
  unfolding deliver_def
  by (rule foldM_inv [where P = "\<lambda>t. kernel_ok t \<and> kbd.more t = kbd.more s"])
    (use assms key_irq_frame in \<open>simp, metis\<close>)

lemma pop_frame:
  assumes "keyboard_buffer_pop s = (r, s')"
  shows "kbd.more s' = kbd.more s" "kernel_ok s \<Longrightarrow> kernel_ok s'" "on_screen s' = on_screen s"
    "extended_key s' = extended_key s" "shell_mode s' = shell_mode s" "key_char sc s' = key_char sc s"
proof -
  have e: "s' = s \<or> s' = s\<lparr>kb_tail := (kb_tail s + 1) mod KEYBOARD_BUFFER_SIZE\<rparr>"
    using assms by (auto simp: keyboard_buffer_pop_def split: if_splits)
  then show "kbd.more s' = kbd.more s" "on_screen s' = on_screen s" "extended_key s' = extended_key s"
    "shell_mode s' = shell_mode s" by (auto simp: on_screen_def)
  have "key_char sc s' = key_char sc s" by (rule key_char_cong) (use e in auto)
  then show "key_char sc s' = key_char sc s" .
  assume "kernel_ok s"
  then show "kernel_ok s'" using e
    by (elim disjE) (simp_all add: kernel_ok_def kbd_wf_def kbd_arrays_def ring_ok_def on_screen_def tables_set_def
        fs_ok_def tables_ok_def files_ok_def lits_ok_def backed_def is_default_def heap_ok_def heap_live_def heap_rel_def
        KEYBOARD_BUFFER_SIZE_def)
qed

section \<open>The stream of typed characters\<close>

definition chars_of :: "'a kbd_scheme \<Rightarrow> u8 list \<Rightarrow> u8 list" where
  "chars_of s scs = filter (\<lambda>c. c \<noteq> 0) (map (\<lambda>sc. key_char sc s) scs)"

definition typed :: "'a console_scheme \<Rightarrow> u8 list" where
  "typed s = ring_items s @ chars_of s (concat (scancodes s))"

text \<open>Only plain key presses are to come, interrupts are on, and nothing overflows the ring.\<close>

definition input_ok :: "'a console_scheme \<Rightarrow> bool" where
  "input_ok s \<longleftrightarrow> kernel_ok s \<and> interrupts_on s \<and> shell_mode s \<and> extended_key s = 0 \<and>
     (\<forall>sc \<in> set (concat (scancodes s)). ordinary sc) \<and> length (typed s) \<le> 255"

text \<open>The part of a state that a batch of key presses may change, and how.\<close>

definition typed_more :: "u8 list \<Rightarrow> 'a ksys_scheme \<Rightarrow> 'a ksys_scheme \<Rightarrow> bool" where
  "typed_more cs s t \<longleftrightarrow> kernel_ok t \<and> kbd.more t = kbd.more s \<and> shell_mode t = shell_mode s \<and>
     extended_key t = extended_key s \<and> (\<forall>sc. key_char sc t = key_char sc s) \<and> ring_items t = ring_items s @ cs"

lemma chars_of_typed: "typed_more cs s t \<Longrightarrow> chars_of t scs = chars_of s scs"
  by (simp add: typed_more_def chars_of_def)

lemma typed_more_trans: "typed_more cs s t \<Longrightarrow> typed_more ds t u \<Longrightarrow> typed_more (cs @ ds) s u"
  by (simp add: typed_more_def)

lemma handle_key_shell_mode: "dead_key_state s = DEAD_NONE \<Longrightarrow> shell_mode (handle_key sc s) = shell_mode s"
  by (simp add: handle_key_eq)

lemma EOI_key [simp]: "key_char sc (i8259_SendEndOfInterrupt i t) = key_char sc t"
  by (rule key_char_cong) (simp_all add: more_fields [OF EOI_more])

lemma EOI_kbd [simp]:
  "ring_items (i8259_SendEndOfInterrupt i t) = ring_items t" "shell_mode (i8259_SendEndOfInterrupt i t) = shell_mode t"
  "extended_key (i8259_SendEndOfInterrupt i t) = extended_key t"
  using more_ring [OF EOI_more [of i t]] more_fields [OF EOI_more [of i t]] by simp_all

lemma ion_key [simp]: "key_char sc (t\<lparr>interrupts_on := b\<rparr>) = key_char sc t"
  by (rule key_char_cong) simp_all

lemma ion_ring [simp]: "ring_items (t\<lparr>interrupts_on := b\<rparr>) = ring_items t"
  by (simp add: ring_items_def kb_count_def)

lemma key_irq_typed:
  assumes ok: "kernel_ok s" "interrupts_on s" "extended_key s = 0" "ordinary sc"
    and room: "length (ring_items s @ chars_of s [sc]) \<le> 255"
  shows "\<exists>t. key_irq e sc s = Some t \<and> typed_more (chars_of s [sc]) s t"
proof -
  let ?s = "s\<lparr>interrupts_on := False\<rparr>"
  have wf: "kbd_wf ?s" "extended_key ?s = 0" "dead_key_state ?s = DEAD_NONE"
    using ok by (simp_all add: kernel_ok_def kbd_wf_def kbd_arrays_def ring_ok_def)
  have h: "keyboard_handler sc ?s = Some (handle_key sc ?s)" by (rule handler_ordinary [OF ok(4) wf(2)])
  note k = key_irq_eq(1) [where e = e, OF ok(1,2) h] key_irq_eq(2,3) [OF ok(1,2) h]
  note r = handle_key_ring [OF wf(1), of sc]
  have "filter (\<lambda>c. c \<noteq> 0) [key_char sc ?s] = chars_of s [sc]" by (simp add: chars_of_def)
  then have "ring_items (handle_key sc ?s) = ring_items s @ chars_of s [sc]" using r(1) room by simp
  moreover have "key_char x (handle_key sc ?s) = key_char x ?s" for x by (rule handle_key_ring(3) [OF wf(1)])
  ultimately show ?thesis using k r(2) handle_key_shell_mode [OF wf(3), of sc]
    by (intro exI conjI) (assumption, simp add: typed_more_def)
qed

lemma deliver_typed:
  "kernel_ok s \<Longrightarrow> interrupts_on s \<Longrightarrow> extended_key s = 0 \<Longrightarrow> \<forall>sc \<in> set b. ordinary sc \<Longrightarrow>
    length (ring_items s @ chars_of s b) \<le> 255 \<Longrightarrow> \<exists>t. deliver e b s = Some t \<and> typed_more (chars_of s b) s t"
proof (induction b arbitrary: s)
  case Nil
  then show ?case by (simp add: deliver_def typed_more_def chars_of_def)
next
  case (Cons sc b)
  have split: "chars_of s (sc # b) = chars_of s [sc] @ chars_of s b" by (simp add: chars_of_def)
  from Cons.prems split have "ordinary sc" "length (ring_items s @ chars_of s [sc]) \<le> 255" by simp_all
  from key_irq_typed [OF Cons.prems(1-3) this, of e] obtain t where t: "key_irq e sc s = Some t"
    "typed_more (chars_of s [sc]) s t" by blast
  have t': "kernel_ok t" "interrupts_on t" "extended_key t = 0" "ring_items t = ring_items s @ chars_of s [sc]"
    using t(2) Cons.prems(2,3) kbd_more_kheap(5) [of t s] by (simp_all add: typed_more_def)
  have "\<exists>u. deliver e b t = Some u \<and> typed_more (chars_of t b) t u"
    by (rule Cons.IH) (use t' Cons.prems(4,5) split chars_of_typed [OF t(2), of b] in simp_all)
  then obtain u where u: "deliver e b t = Some u" "typed_more (chars_of t b) t u" by blast
  have "deliver e (sc # b) s = Some u" using t(1) u(1) by (simp add: deliver_def)
  moreover have "typed_more (chars_of s (sc # b)) s u"
    using typed_more_trans [OF t(2) u(2)] chars_of_typed [OF t(2), of b] split by simp
  ultimately show ?case by blast
qed

text \<open>Both waiting loops take the first character of the stream.\<close>

definition takes :: "u8 \<Rightarrow> u8 list \<Rightarrow> u8 list list \<Rightarrow> 'a ksys_scheme \<Rightarrow> 'a ksys_scheme \<Rightarrow> bool" where
  "takes c rest bs s t \<longleftrightarrow> kernel_ok t \<and> kbd.more t = kbd.more s \<and> shell_mode t = shell_mode s \<and>
     extended_key t = extended_key s \<and> (\<forall>sc. key_char sc t = key_char sc s) \<and>
     ring_items t @ chars_of s (concat bs) = rest"

lemma pop_takes:
  assumes "kernel_ok s" "ring_items s = c # xs"
  shows "\<exists>t. keyboard_buffer_pop s = (Some c, t) \<and> takes c (xs @ chars_of s (concat bs)) bs s t"
proof -
  have "ring_ok s" using assms(1) by (simp add: kernel_ok_def kbd_wf_def)
  from ring.pop_Cons [OF this assms(2)] obtain t where t: "keyboard_buffer_pop s = (Some c, t)" "ring_items t = xs" by blast
  with pop_frame [OF t(1)] assms(1) show ?thesis by (simp add: takes_def)
qed

lemma takes_after:
  "typed_more ds s t \<Longrightarrow> takes c rest bs t u \<Longrightarrow> takes c rest bs s u"
  by (simp add: typed_more_def takes_def chars_of_def)

lemma pop_empty: "kernel_ok s \<Longrightarrow> ring_items s = [] \<Longrightarrow> keyboard_buffer_pop s = (None, s)"
  using ring.pop_Nil [of s] by (simp add: kernel_ok_def kbd_wf_def)

lemma loops_take:
  "kernel_ok s \<Longrightarrow> interrupts_on s \<Longrightarrow> extended_key s = 0 \<Longrightarrow> \<forall>sc \<in> set (concat bs). ordinary sc \<Longrightarrow>
    length (ring_items s @ chars_of s (concat bs)) \<le> 255 \<Longrightarrow> ring_items s @ chars_of s (concat bs) = c # rest \<Longrightarrow>
    (\<exists>bs' t. key_loop e bs s = Some (c, bs', t) \<and> takes c rest bs' s t \<and> set (concat bs') \<subseteq> set (concat bs)) \<and>
    (shell_mode s \<longrightarrow> (\<exists>bs' t. getc_loop e bs s = Some (c, bs', t) \<and> takes c rest bs' s t \<and> set (concat bs') \<subseteq> set (concat bs)))"
proof (induction "length bs" arbitrary: bs s rule: less_induct)
  case less
  note ok = less.prems(1-3)
  show ?case
  proof (cases bs)
    case Nil
    then have "ring_items s = c # rest" using less.prems(6) by (simp add: chars_of_def)
    from pop_takes [OF ok(1) this, of "[]"] Nil show ?thesis by (auto simp: chars_of_def)
  next
    case (Cons b bs1)
    have split: "chars_of s (concat bs) = chars_of s b @ chars_of s (concat bs1)" by (simp add: chars_of_def Cons)
    have b: "\<forall>sc \<in> set b. ordinary sc" "length (ring_items s @ chars_of s b) \<le> 255"
      using less.prems(4,5) Cons split by simp_all
    from deliver_typed [OF ok b, of e] obtain s1 where s1: "deliver e b s = Some s1" "typed_more (chars_of s b) s s1" by blast
    have s1': "kernel_ok s1" "interrupts_on s1" "extended_key s1 = 0" "shell_mode s1 = shell_mode s"
      "ring_items s1 = ring_items s @ chars_of s b"
      using s1(2) ok kbd_more_kheap(5) [of s1 s] by (simp_all add: typed_more_def)
    have ch: "chars_of s1 scs = chars_of s scs" for scs by (rule chars_of_typed [OF s1(2)])
    show ?thesis
    proof (cases "ring_items s1")
      case (Cons d xs)
      have "ring_items s1 @ chars_of s (concat bs1) = c # rest" using less.prems(6) s1'(5) split by simp
      with Cons have d: "d = c" "xs @ chars_of s (concat bs1) = rest" by simp_all
      from pop_takes [OF s1'(1) Cons, of bs1] obtain t where t: "keyboard_buffer_pop s1 = (Some c, t)"
        "takes c rest bs1 s1 t" using d ch by auto
      have "key_loop e bs s = Some (c, bs1, t)" using s1(1) t(1) \<open>bs = b # bs1\<close> by simp
      moreover have "getc_loop e bs s = Some (c, bs1, t)" using s1(1) t(1) \<open>bs = b # bs1\<close> by (cases bs1) simp_all
      ultimately show ?thesis using takes_after [OF s1(2) t(2)] \<open>bs = b # bs1\<close> by auto
    next
      case Nil
      have pop: "keyboard_buffer_pop s1 = (None, s1)" by (rule pop_empty [OF s1'(1) Nil])
      have left: "ring_items s1 @ chars_of s1 (concat bs1) = c # rest" using less.prems(6) s1'(5) split ch by simp
      have IH: "(\<exists>bs' t. key_loop e bs1 s1 = Some (c, bs', t) \<and> takes c rest bs' s1 t \<and> set (concat bs') \<subseteq> set (concat bs1))"
        using less.hyps [of bs1 s1] s1' left less.prems(4,5) \<open>bs = b # bs1\<close> split ch by auto
      then obtain bs' t where t: "key_loop e bs1 s1 = Some (c, bs', t)" "takes c rest bs' s1 t"
        "set (concat bs') \<subseteq> set (concat bs1)" by blast
      have "key_loop e bs s = Some (c, bs', t)" using s1(1) pop t(1) \<open>bs = b # bs1\<close> by simp
      moreover have "set (concat bs') \<subseteq> set (concat bs)"
        using t(3) unfolding \<open>bs = b # bs1\<close> concat.simps set_append by (rule le_supI2)
      ultimately have key: "\<exists>bs' t. key_loop e bs s = Some (c, bs', t) \<and> takes c rest bs' s t \<and>
          set (concat bs') \<subseteq> set (concat bs)"
        using takes_after [OF s1(2) t(2)] by blast
      have "\<exists>bs' t. getc_loop e bs s = Some (c, bs', t) \<and> takes c rest bs' s t \<and> set (concat bs') \<subseteq> set (concat bs)"
        if mode: "shell_mode s"
      proof (cases bs1)
        case none: Nil
        with left Nil show ?thesis by (simp add: chars_of_def)
      next
        case (Cons b2 bs2)
        have split2: "chars_of s1 (concat bs1) = chars_of s1 b2 @ chars_of s1 (concat bs2)" by (simp add: chars_of_def Cons)
        have b2: "\<forall>sc \<in> set b2. ordinary sc" "length (ring_items s1 @ chars_of s1 b2) \<le> 255"
          using less.prems(4,5) Cons \<open>bs = b # bs1\<close> split split2 ch s1'(5) by simp_all
        from deliver_typed [OF s1'(1-3) b2, of e] obtain s2 where s2: "deliver e b2 s1 = Some s2"
          "typed_more (chars_of s1 b2) s1 s2" by blast
        have s2': "kernel_ok s2" "interrupts_on s2" "extended_key s2 = 0" "shell_mode s2"
          "ring_items s2 = ring_items s1 @ chars_of s1 b2"
          using s2(2) s1' mode kbd_more_kheap(5) [of s2 s1] by (simp_all add: typed_more_def)
        have ch2: "chars_of s2 scs = chars_of s scs" for scs using chars_of_typed [OF s2(2), of scs] ch by simp
        have left2: "ring_items s2 @ chars_of s2 (concat bs2) = c # rest" using left s2'(5) split2 ch ch2 by simp
        have len2: "length (ring_items s2 @ chars_of s2 (concat bs2)) \<le> 255"
          using left2 less.prems(5,6) by simp
        have "\<exists>bs' t. getc_loop e bs2 s2 = Some (c, bs', t) \<and> takes c rest bs' s2 t \<and> set (concat bs') \<subseteq> set (concat bs2)"
        proof -
          have "length bs2 < length bs" "\<forall>sc \<in> set (concat bs2). ordinary sc"
            using less.prems(4) unfolding \<open>bs = b # bs1\<close> Cons by simp_all
          from less.hyps [OF this(1) s2'(1-3) this(2) len2 left2] s2'(4) show ?thesis by blast
        qed
        then obtain bs' t where t: "getc_loop e bs2 s2 = Some (c, bs', t)" "takes c rest bs' s2 t"
          "set (concat bs') \<subseteq> set (concat bs2)" by blast
        have "getc_loop e bs s = Some (c, bs', t)"
          using s1(1) pop s2(1) s2'(4) t(1) \<open>bs = b # bs1\<close> Cons by (simp add: keyboard_process_buffer_def)
        moreover have "set (concat bs') \<subseteq> set (concat bs)"
          using t(3) unfolding \<open>bs = b # bs1\<close> Cons concat.simps set_append by (intro le_supI2)
        ultimately show ?thesis using takes_after [OF s1(2) takes_after [OF s2(2) t(2)]] by blast
      qed
      with key show ?thesis by blast
    qed
  qed
qed

section \<open>Reading one character\<close>

text \<open>Two states that differ only in the keyboard, the screen and the input still to come.\<close>

definition same_rest :: "'a console_scheme \<Rightarrow> 'a console_scheme \<Rightarrow> bool" where
  "same_rest s t \<longleftrightarrow> kbd.more (t\<lparr>scancodes := scancodes s\<rparr>) = kbd.more s"

lemma same_rest_refl [simp]: "same_rest s s"
  by (simp add: same_rest_def)

lemma same_rest_trans:
  fixes s t u :: "'a console_scheme"
  shows "same_rest s t \<Longrightarrow> same_rest t u \<Longrightarrow> same_rest s u"
  unfolding same_rest_def by (cases s; cases t; cases u; simp)

lemma scancodes_upd [simp]:
  fixes s :: "'a console_scheme"
  shows "kernel_ok (s\<lparr>scancodes := b\<rparr>) = kernel_ok s" "user_live (s\<lparr>scancodes := b\<rparr>) = user_live s"
    "ramfs_ok (s\<lparr>scancodes := b\<rparr>) = ramfs_ok s" "ring_items (s\<lparr>scancodes := b\<rparr>) = ring_items s"
    "file_bytes (s\<lparr>scancodes := b\<rparr>) k = file_bytes s k" "on_screen (s\<lparr>scancodes := b\<rparr>) = on_screen s"
  by (simp_all add: ramfs_ok_def kernel_ok_def fs_ok_def tables_ok_def files_ok_def lits_ok_def backed_def is_default_def
      heap_ok_def heap_live_def heap_rel_def kbd_wf_def kbd_arrays_def ring_ok_def on_screen_def tables_set_def
      user_live_def ring_items_def kb_count_def file_bytes_def)

lemma scancodes_key [simp]: "key_char sc (s\<lparr>scancodes := b\<rparr>) = key_char sc s"
  by (rule key_char_cong) simp_all

lemma same_rest_ramfs:
  fixes s t :: "'a console_scheme"
  assumes "same_rest s t" "ramfs_ok s" "kernel_ok t"
  shows "ramfs_ok t" "ram_files t = ram_files s" "ram_current_dir t = ram_current_dir s" "file_bytes t k = file_bytes s k"
  using ramfs_ok_kbd(1-3) [of s "t\<lparr>scancodes := scancodes s\<rparr>"] ramfs_ok_kbd(4) [of s "t\<lparr>scancodes := scancodes s\<rparr>" k] assms
  by (simp_all add: same_rest_def)

lemma more_console:
  fixes s s' :: "'a console_scheme"
  assumes "vga.more s' = vga.more s"
  shows "scancodes s' = scancodes s" "same_rest s s'"
  using assms unfolding same_rest_def by (cases s; cases s'; simp)+

text \<open>Output in between does not matter.\<close>

lemma input_console:
  fixes s s' :: "'a console_scheme"
  assumes "input_ok s" "vga.more s' = vga.more s" "on_screen s'"
  shows "input_ok s'" "typed s' = typed s" "same_rest s s'"
proof -
  note f = more_fields [OF assms(2)] more_console [OF assms(2)] more_ring [OF assms(2)]
  have key: "key_char sc s' = key_char sc s" for sc by (rule key_char_cong) (simp_all add: f)
  show t: "typed s' = typed s" by (simp add: typed_def chars_of_def f key)
  have "kernel_ok s'" by (rule kernel_ok_console [of s]) (use assms in \<open>simp_all add: input_ok_def\<close>)
  moreover have "interrupts_on s' = interrupts_on s" using more_kirq [OF assms(2)] by simp
  ultimately show "input_ok s'" using assms(1) t f by (simp add: input_ok_def)
  show "same_rest s s'" by (rule f)
qed

lemma input_say:
  "input_ok s \<Longrightarrow> input_ok (say t s)" "input_ok s \<Longrightarrow> typed (say t s) = typed s" "input_ok s \<Longrightarrow> same_rest s (say t s)"
  using input_console [of s "say t s"] say_screen [of s t] by (auto simp: input_ok_def kernel_ok_def)

lemma input_ok_takes:
  assumes "input_ok s" "takes c rest bs s t" "set (concat bs) \<subseteq> set (concat (scancodes s))" "typed s = c # rest"
  shows "input_ok (t\<lparr>scancodes := bs\<rparr>)" "typed (t\<lparr>scancodes := bs\<rparr>) = rest" "same_rest s (t\<lparr>scancodes := bs\<rparr>)"
proof -
  have t: "kbd.more t = kbd.more s" "kernel_ok t" "shell_mode t = shell_mode s" "extended_key t = extended_key s"
    "ring_items t @ chars_of s (concat bs) = rest" "key_char sc t = key_char sc s" for sc
    using assms(2) by (simp_all add: takes_def)
  show ty: "typed (t\<lparr>scancodes := bs\<rparr>) = rest" using t(5) by (simp add: typed_def chars_of_def t(6))
  show "same_rest s (t\<lparr>scancodes := bs\<rparr>)"
    using t(1) unfolding same_rest_def by (cases s; cases t; simp)
  have ion: "interrupts_on t" using kbd_more_kheap(5) [OF t(1)] assms(1) by (simp add: input_ok_def)
  have "\<forall>sc \<in> set (concat bs). ordinary sc" using assms(1,3) unfolding input_ok_def by blast
  moreover have "length rest \<le> 255" using assms(1,4) by (simp add: input_ok_def)
  ultimately show "input_ok (t\<lparr>scancodes := bs\<rparr>)"
    using t ion ty assms(1) unfolding input_ok_def by simp
qed

lemma getc_typed:
  assumes "input_ok s" "typed s = c # rest"
  shows "\<exists>t. shell_getc m s = Some (c, t) \<and> input_ok t \<and> typed t = rest \<and> same_rest s t"
    "\<exists>t. wait_key m s = Some (c, t) \<and> input_ok t \<and> typed t = rest \<and> same_rest s t"
proof -
  have "\<forall>sc \<in> set (concat (scancodes s)). ordinary sc" "shell_mode s" "length (typed s) \<le> 255"
    "kernel_ok s" "interrupts_on s" "extended_key s = 0"
    using assms(1) unfolding input_ok_def by blast+
  note l = loops_take [where e = "m_env m", OF this(4-6) this(1) this(3) [unfolded typed_def] assms(2) [unfolded typed_def]]
  from l \<open>shell_mode s\<close> obtain bs t where "getc_loop (m_env m) (scancodes s) s = Some (c, bs, t)" "takes c rest bs s t"
    "set (concat bs) \<subseteq> set (concat (scancodes s))" by blast
  then show "\<exists>t. shell_getc m s = Some (c, t) \<and> input_ok t \<and> typed t = rest \<and> same_rest s t"
    using input_ok_takes [OF assms(1) _ _ assms(2), of bs t] by (simp add: shell_getc_def)
  from l obtain bs t where "key_loop (m_env m) (scancodes s) s = Some (c, bs, t)" "takes c rest bs s t"
    "set (concat bs) \<subseteq> set (concat (scancodes s))" by blast
  then show "\<exists>t. wait_key m s = Some (c, t) \<and> input_ok t \<and> typed t = rest \<and> same_rest s t"
    using input_ok_takes [OF assms(1) _ _ assms(2), of bs t] by (simp add: wait_key_def)
qed

end
