(* ===== verification/RamfsRoom.thy ===== *)
theory RamfsRoom
  imports RamfsData
begin

text \<open>
  When a write to an existing file of the RAM file system finds room: the file's block is large enough, or
  the heap has a free block that is.
\<close>

section \<open>Room in the heap\<close>

definition heap_room :: "nat \<Rightarrow> 'a kheap_scheme \<Rightarrow> bool" where
  "heap_room n s \<longleftrightarrow> (\<exists>bs sz. heap_rel s bs \<and> (sz, True) \<in> set bs \<and> n \<le> sz)"

lemma heap_room_cong:
  "mem s' = mem s \<Longrightarrow> heap_start s' = heap_start s \<Longrightarrow> heap_initialized s' = heap_initialized s \<Longrightarrow> heap_room n s' = heap_room n s"
  by (simp add: heap_room_def heap_rel_def)

lemma a_malloc_found: "a_malloc n a bs = (p, cs) \<Longrightarrow> p \<noteq> 0 \<Longrightarrow> \<exists>sz. (sz, True) \<in> set bs \<and> n \<le> sz"
proof (induction bs arbitrary: a cs)
  case (Cons b bs)
  obtain sz fr where b: "b = (sz, fr)" by (cases b)
  show ?case
  proof (cases "fr \<and> n \<le> sz")
    case False
    with Cons.prems b obtain ds where "a_malloc n (a + 12 + sz) bs = (p, ds)" by (auto split: prod.splits)
    from Cons.IH [OF this Cons.prems(2)] show ?thesis by auto
  qed (use b in auto)
qed simp

text \<open>A call of \<open>sys_malloc\<close> succeeds exactly when there is room.\<close>

lemma sys_malloc_room:
  assumes "kernel_ok s" "heap_initialized s \<noteq> 0" "n \<noteq> 0" "n \<le> 0xFFFFFFE0" "unat n mod 32 = 0" "sys_malloc e n s = Some (q, s1)"
  shows "q \<noteq> 0 \<longleftrightarrow> heap_room (unat n) s"
proof -
  from assms(1,2) obtain bs where bs: "heap_rel s bs" by (auto simp: kernel_ok_def fs_ok_def heap_ok_def)
  let ?r = "(env_regs e)\<lparr>r_eax := 3, r_ebx := n\<rparr>"
  let ?s = "in_call 3 n (r_ecx ?r) (r_edx ?r) (r_esi ?r) s"
  have rel: "heap_rel ?s bs" using bs by (simp add: heap_rel_def)
  have "(unat n + 31) div 32 * 32 = unat n" using assms(5) by presburger
  then have al: "unat (align_block n) = unat n" using align_block_nat [OF assms(4)] by simp
  obtain p cs where a: "a_malloc (unat n) 0x400000 bs = (p, cs)" by force
  from malloc_refines [OF rel assms(3)] a al obtain m' where m': "sys_handler_malloc n ?s = Some (of_nat p, ?s\<lparr>mem := m'\<rparr>)"
    "heap_rel (?s\<lparr>mem := m'\<rparr>) cs" by auto
  have "sys_malloc e n s = Some (of_nat p, (?s\<lparr>mem := m'\<rparr>)\<lparr>interrupts_on := interrupts_on s\<rparr>)"
    unfolding sys_malloc_def SYSCALL1_def
    using m'(1) by (intro SYSCALL_INT_handler [OF assms(1), of _ H_malloc]) (simp_all add: handler_table_def)
  with assms(6) have q: "q = of_nat p" by simp
  show ?thesis
  proof (cases "p = 0")
    case True
    with a a_malloc_fail [of "unat n" "0x400000" bs cs] have "\<forall>(sz, fr) \<in> set bs. fr \<longrightarrow> sz < unat n" by simp
    then have "\<not> heap_room (unat n) s" using heap_rel_unique [OF bs] by (fastforce simp: heap_room_def)
    with True q show ?thesis by simp
  next
    case False
    from a_malloc_used [OF a False] obtain k where "(p, k) \<in> used 0x400000 cs" by auto
    then have "p \<le> 0x500000" using used_total [of p k cs] m'(2) by (auto simp: heap_rel_def)
    then have "unat (of_nat p :: u32) = p" by (simp add: unat_of_nat_u32)
    then have "q \<noteq> 0" using False q by (metis unat_0)
    with a_malloc_found [OF a False] bs show ?thesis by (auto simp: heap_room_def)
  qed
qed

section \<open>Room for a file\<close>

definition room_for :: "nat \<Rightarrow> nat \<Rightarrow> 'a ram_fs_scheme \<Rightarrow> bool" where
  "room_for k n s \<longleftrightarrow> n \<le> unat (rf_capacity (ram_files s ! k)) \<or> heap_room ((n + 255) div 256 * 256) s"

lemma round_unat:
  fixes sz :: u32
  assumes "unat sz \<le> 0xFFFFFF00"
  shows "unat ((sz + 255) div 256 * 256) = (unat sz + 255) div 256 * 256"
proof -
  have "unat (sz + 255) = unat sz + 255" using assms by (simp add: unat_word_ariths)
  then have d: "unat ((sz + 255) div 256) = (unat sz + 255) div 256" by (simp add: unat_div)
  have "(unat sz + 255) div 256 * 256 \<le> 0xFFFFFF00"
    using div_le_mono [of "unat sz + 255" "0xFFFFFFFF" 256] assms by simp
  then show ?thesis by (simp only: unat_word_ariths(2) d) simp
qed

lemma write_expand_room:
  assumes ok: "ramfs_ok s" and k: "k \<in> taken (ram_files s) - dirs (ram_files s)" and sz: "unat sz \<le> 0xFFFFFF00"
    and w: "write_expand e k sz s = Some (b, s')"
  shows "b \<longleftrightarrow> room_for k (unat sz) s"
proof (cases "sz > rf_capacity (ram_files s ! k)")
  case False
  then show ?thesis using w by (auto simp: write_expand_def room_for_def word_less_nat_alt)
next
  case True
  let ?n = "(sz + 255) div 256 * 256"
  have "sz \<noteq> 0" using True by auto
  note n = round_block [OF sz this]
  from file_block [OF ok k] obtain c where "(unat (rf_data (ram_files s ! k)), c) \<in> user_live s" by blast
  then have init: "heap_initialized s \<noteq> 0" by (auto simp: user_live_def heap_live_def heap_rel_def)
  from w True obtain q s1 where q: "sys_malloc e ?n s = Some (q, s1)" by (auto simp: write_expand_def Let_def split: Option.bind_splits)
  have "unat ?n mod 32 = 0" using n(4) by presburger
  from sys_malloc_room [OF _ init n(2,3) this q] ok have "q \<noteq> 0 \<longleftrightarrow> heap_room (unat ?n) s" by (simp add: ramfs_ok_def)
  moreover have "b \<longleftrightarrow> q \<noteq> 0" using w True q by (auto simp: write_expand_def Let_def split: Option.bind_splits if_splits)
  ultimately show ?thesis using True round_unat [OF sz] by (simp add: room_for_def word_less_nat_alt)
qed

text \<open>What a write to an existing file does, with and without room.\<close>

lemma write_file_room:
  assumes ok: "ramfs_ok s" and name: "is_cstr name" and f: "ramfs_find_file name (ram_current_dir s) s = Some k" "k \<notin> dirs (ram_files s)"
    and sz: "good_size sz" "unat sz \<le> length data"
  shows "\<exists>s'. ramfs_write_file e name data sz s = Some (if room_for k (unat sz) s then int (unat sz) else - 3, s') \<and> ramfs_ok s' \<and>
    same_tree k s s' \<and> file_bytes s' k = (if room_for k (unat sz) s then take (unat sz) data else file_bytes s k)"
proof -
  have k: "k \<in> taken (ram_files s) - dirs (ram_files s)" using find_file_SomeD(1) [OF f(1) ok name] f(2) by simp
  have sz1: "unat sz \<le> 0xFFFFFF00" using sz(1) by (simp add: good_size_def)
  from write_data_ok [OF ok k sz, of e] obtain r s' where r: "write_data e k data sz s = Some (r, s')" "ramfs_ok s'" "same_tree k s s'"
    "r = - 3 \<and> file_bytes s' k = file_bytes s k \<or> r = int (unat sz) \<and> file_bytes s' k = take (unat sz) data" by blast
  from write_expand_ok [OF ok k sz1, of e] obtain b s1 where b: "write_expand e k sz s = Some (b, s1)" by blast
  have "rf_is_directory (ram_files s ! k) = 0" using k by (simp add: dirs_def)
  moreover have neg: "uint sz \<noteq> - 3" using uint_ge_0 [of sz] by linarith
  moreover have "sint sz = uint sz" using sint_small [of sz] sz(1) by (simp add: good_size_def)
  ultimately have "b \<longleftrightarrow> r \<noteq> - 3" using r(1) b by (auto simp: write_data_def Let_def split: Option.bind_splits if_splits)
  with write_expand_room [OF ok k sz1 b] r f(1) neg show ?thesis by (auto simp: ramfs_write_file_def)
qed

end
