(* ===== verification/EditOk.thy ===== *)
theory EditOk
  imports FsCommandsOk ConsoleOk RamfsRoom
begin

text \<open>
  The editor of the shell: a line typed with corrections becomes the line that the corrections mean,
  and typing lines and \<open>SAVE\<close> writes the old content and the lines to the file.
\<close>

section \<open>One line\<close>

text \<open>What a sequence of key strokes means: a backspace removes the last character.\<close>

fun edited :: "u8 list \<Rightarrow> u8 list \<Rightarrow> u8 list" where
  "edited acc [] = acc"
| "edited acc (c # cs) = edited (if c = 8 then butlast acc else acc @ [c]) cs"

text \<open>Key strokes that stay inside a line of \<open>n\<close> characters.\<close>

fun fits :: "nat \<Rightarrow> u8 list \<Rightarrow> u8 list \<Rightarrow> bool" where
  "fits n acc [] \<longleftrightarrow> length acc < n"
| "fits n acc (c # cs) \<longleftrightarrow> length acc < n \<and> (c = 8 \<or> 32 \<le> c \<and> c \<le> 126) \<and>
     fits n (if c = 8 then butlast acc else acc @ [c]) cs"

lemma putc_input: "input_ok s \<Longrightarrow> input_ok (putc c s) \<and> typed (putc c s) = typed s \<and> same_rest s (putc c s)"
  unfolding putc_say using input_say [of s "[c]"] by blast

lemma pred_less_80: "x < 80 \<Longrightarrow> 0 < sint x \<Longrightarrow> x - 1 < (80 :: s32)"
proof -
  assume "x < 80" "0 < sint x"
  then have "x \<noteq> 0" by auto
  with \<open>x < 80\<close> show ?thesis by unat_arith
qed

lemma backspace_console: "on_screen s \<Longrightarrow> on_screen (edit_backspace s)" "vga.more (edit_backspace s) = vga.more s"
  by (auto simp: edit_backspace_def Let_def VGA_putchr_def VGA_setcursor_def i686_outb_def on_screen_def
      VGA_get_cursor_x_def VGA_get_cursor_y_def pred_less_80)

lemma take_set: "i < length buf \<Longrightarrow> take (Suc i) (buf[i := c]) = take i buf @ [c]"
  by (simp add: take_Suc_conv_app_nth)

lemma edited_no_nul: "is_cstr acc \<Longrightarrow> fits n acc cs \<Longrightarrow> is_cstr (edited acc cs)"
proof (induction cs arbitrary: acc)
  case (Cons c cs)
  then have "is_cstr (if c = 8 then butlast acc else acc @ [c])"
    by (auto simp: is_cstr_def dest: in_set_butlastD)
  with Cons show ?case by simp
qed simp

lemma edited_length: "fits n acc cs \<Longrightarrow> length (edited acc cs) < n"
  by (induction cs arbitrary: acc) simp_all

lemma read_line_typed:
  "input_ok s \<Longrightarrow> typed s = cs @ 10 # rest \<Longrightarrow> fits 255 (take i buf) cs \<Longrightarrow> length buf = 256 \<Longrightarrow> i < 255 \<Longrightarrow>
    is_cstr (take i buf) \<Longrightarrow>
    \<exists>buf' t. read_line m (int i) buf s = Some (buf', t) \<and> cstr_of buf' = edited (take i buf) cs \<and>
      input_ok t \<and> typed t = rest \<and> same_rest s t"
proof (induction cs arbitrary: s i buf)
  case Nil
  from getc_typed(1) [OF Nil(1), of 10 rest m] Nil(2) obtain s1 where s1: "shell_getc m s = Some (10, s1)"
    "input_ok s1" "typed s1 = rest" "same_rest s s1" by auto
  have "buf[i := 0] = take i buf @ 0 # drop (Suc i) buf" using Nil(4,5) by (simp add: upd_conv_take_nth_drop)
  then have "cstr_of (buf[i := 0]) = take i buf" using cstr_of_pad [OF Nil(6)] by simp
  moreover have "read_line m (int i) buf s = Some (buf[i := 0], putc 10 s1)"
    using Nil(4,5) s1(1) by (subst read_line.simps) simp
  ultimately show ?case using putc_input [OF s1(2), of 10] s1(3,4) same_rest_trans by auto
next
  case (Cons c cs)
  from getc_typed(1) [OF Cons.prems(1), of c "cs @ 10 # rest" m] Cons.prems(2) obtain s1
    where s1: "shell_getc m s = Some (c, s1)" "input_ok s1" "typed s1 = cs @ 10 # rest" "same_rest s s1" by auto
  have c: "c \<noteq> 10" "c = 8 \<or> 32 \<le> c \<and> c \<le> 126" using Cons.prems(3) by auto
  have on: "on_screen s1" using s1(2) by (simp add: input_ok_def kernel_ok_def)
  show ?case
  proof (cases "c = 8")
    case True
    show ?thesis
    proof (cases "i = 0")
      case i: True
      have e: "read_line m (int i) buf s = read_line m (int i) buf s1"
        using Cons.prems(5) s1(1) True i by (subst read_line.simps) simp
      show ?thesis using Cons.IH [OF s1(2,3), of i buf] Cons.prems True i same_rest_trans [OF s1(4)]
        unfolding e by auto
    next
      case i: False
      let ?s = "edit_backspace s1"
      note b = input_console [OF s1(2) backspace_console(2) backspace_console(1) [OF on]]
      have e: "read_line m (int i) buf s = read_line m (int (i - 1)) buf ?s"
        using Cons.prems(5) s1(1) True i by (subst read_line.simps) (simp add: of_nat_diff)
      have bl: "butlast (take i buf) = take (i - 1) buf" using Cons.prems(4,5) i by (simp add: butlast_take)
      have "\<exists>buf' t. read_line m (int (i - 1)) buf ?s = Some (buf', t) \<and> cstr_of buf' = edited (take (i - 1) buf) cs \<and>
          input_ok t \<and> typed t = rest \<and> same_rest ?s t"
      proof (rule Cons.IH [OF b(1)])
        show "fits 255 (take (i - 1) buf) cs" using Cons.prems(3) True bl by simp
        show "is_cstr (take (i - 1) buf)"
          using Cons.prems(6) bl by (metis is_cstr_def in_set_butlastD)
      qed (use b s1(3) Cons.prems(4,5) in simp_all)
      then show ?thesis unfolding e using True bl same_rest_trans [OF s1(4) same_rest_trans [OF b(3)]] by auto
    qed
  next
    case False
    with c(2) have p: "32 \<le> c \<and> c \<le> 126" by simp
    let ?s = "putc c s1" and ?buf = "buf[i := c]"
    note q = putc_input [OF s1(2), of c]
    have e: "read_line m (int i) buf s = read_line m (int (Suc i)) ?buf ?s"
      using Cons.prems(4,5) s1(1) False c(1) p by (subst read_line.simps) (simp add: add.commute)
    have tk: "take (Suc i) ?buf = take i buf @ [c]" using Cons.prems(4,5) by (intro take_set) simp
    have fit: "fits 255 (take i buf @ [c]) cs" using Cons.prems(3) False by simp
    then have "length (take i buf @ [c]) < 255" by (cases cs) simp_all
    then have i: "Suc i < 255" using Cons.prems(4,5) by simp
    have "\<exists>buf' t. read_line m (int (Suc i)) ?buf ?s = Some (buf', t) \<and> cstr_of buf' = edited (take (Suc i) ?buf) cs \<and>
        input_ok t \<and> typed t = rest \<and> same_rest ?s t"
    proof (rule Cons.IH)
      show "is_cstr (take (Suc i) ?buf)" unfolding tk using Cons.prems(6) p by (auto simp: is_cstr_def)
    qed (use q s1(3) fit i Cons.prems(4) tk in simp_all)
    then show ?thesis unfolding e using False tk same_rest_trans [OF s1(4)] q same_rest_trans by auto blast
  qed
qed

section \<open>A session\<close>

text \<open>The key strokes of an editing session: lines, then \<open>SAVE\<close>.\<close>

definition session :: "u8 list list \<Rightarrow> u8 list \<Rightarrow> u8 list" where
  "session ls rest = concat (map (\<lambda>l. l @ [10]) ls) @ bytes ''SAVE'' @ 10 # rest"

definition text_of :: "u8 list list \<Rightarrow> u8 list" where
  "text_of ls = concat (map (\<lambda>l. edited [] l @ [10]) ls)"

definition line_ok :: "u8 list \<Rightarrow> bool" where
  "line_ok l \<longleftrightarrow> fits 255 [] l \<and> edited [] l \<noteq> bytes ''SAVE'' \<and> edited [] l \<noteq> bytes ''QUIT''"

lemma save_line: "fits 255 [] (bytes ''SAVE'')" "edited [] (bytes ''SAVE'') = bytes ''SAVE''" "is_cstr (bytes ''SAVE'')"
    "is_cstr (bytes ''QUIT'')"
  by (simp_all add: bytes_def is_cstr_def)

lemma append_line_ok:
  assumes "length buf = 4096" "n + length l + 2 < 4096"
  shows "\<exists>buf'. append_line buf (int n) l = Some (buf', int (n + length l + 1)) \<and> length buf' = 4096 \<and>
    take (n + length l + 1) buf' = take n buf @ l @ [10]"
proof -
  let ?b = "take n buf @ l @ drop (n + length l) buf"
  let ?k = "n + length l"
  have cp: "shell_memcpy_arr buf (int n) l (length l) = Some ?b"
    using memcpy_arr_ok [of "length l" l n buf] assms by simp
  have len: "length ?b = 4096" using assms by simp
  have "append_line buf (int n) l = Some ((?b[?k := 10])[?k + 1 := 0], int (?k + 1))"
    using assms len arr_set_nat [of ?k ?b 10] arr_set_nat [of "?k + 1" "?b[?k := 10]" 0]
    by (simp add: append_line_def cp Let_def ac_simps del: arr_set_nat)
  moreover have "take (?k + 1) ((?b[?k := 10])[?k + 1 := 0]) = take ?k ?b @ [10]"
    using take_set [of ?k ?b 10] len assms(2) by simp
  moreover have "take ?k ?b = take n buf @ l" using assms by simp
  ultimately show ?thesis using len by auto
qed

lemma fits_cons: "line_ok l \<Longrightarrow> fits 255 (take 0 buf) l \<and> is_cstr (take 0 buf)"
  by (simp add: line_ok_def is_cstr_def)

lemma prompt_line:
  assumes "input_ok s" "typed s = cs @ 10 # rest" "fits 255 [] cs"
  shows "\<exists>b t. read_line m 0 (replicate 256 0) (printf ''> '' [] s) = Some (b, t) \<and> cstr_of b = edited [] cs \<and>
    input_ok t \<and> typed t = rest \<and> same_rest s t"
proof -
  let ?s = "printf ''> '' [] s"
  have p: "input_ok ?s" "typed ?s = cs @ 10 # rest" "same_rest s ?s"
    using input_say [OF assms(1)] assms(2) by (simp_all add: printf_say)
  show ?thesis
    using read_line_typed [OF p(1,2), of 0 "replicate 256 0" m] assms(3) same_rest_trans [OF p(3)] by (auto simp: is_cstr_def)
qed

lemma edit_loop_typed:
  "input_ok s \<Longrightarrow> typed s = session ls rest \<Longrightarrow> list_all line_ok ls \<Longrightarrow> length buf = 4096 \<Longrightarrow>
    n + length (text_of ls) + 1 < 4096 \<Longrightarrow>
    \<exists>buf' t. edit_loop m fn buf (int n) s = do {
        (result, u) \<leftarrow> ramfs_write_file (m_env m) fn buf' (of_nat (n + length (text_of ls))) t;
        Some (if result \<ge> 0 then printf ''File '%s' saved (%d bytes)\<newline>'' [VS fn, VI (of_int result)] u
              else printf ''Error saving file: %d\<newline>'' [VI (of_int result)] u) } \<and>
      length buf' = 4096 \<and> take (n + length (text_of ls)) buf' = take n buf @ text_of ls \<and>
      input_ok t \<and> typed t = rest \<and> same_rest s t"
proof (induction ls arbitrary: s buf n)
  case Nil
  have ty: "typed s = bytes ''SAVE'' @ 10 # rest" using Nil(2) by (simp add: session_def)
  from prompt_line [OF Nil(1) ty save_line(1), of m] obtain b t where t:
    "read_line m 0 (replicate 256 0) (printf ''> '' [] s) = Some (b, t)" "cstr_of b = bytes ''SAVE''"
    "input_ok t" "typed t = rest" "same_rest s t" using save_line(2) by auto
  have "is_arg (cstr_of b) ''SAVE''" using t(2) save_line(3) by (simp add: is_arg_iff)
  then show ?case using t Nil(4) by (subst edit_loop.simps) (auto simp: text_of_def)
next
  case (Cons l ls)
  have l: "fits 255 [] l" "edited [] l \<noteq> bytes ''SAVE''" "edited [] l \<noteq> bytes ''QUIT''"
    using Cons.prems(3) by (simp_all add: line_ok_def)
  have cstr: "is_cstr (edited [] l)" by (rule edited_no_nul [OF _ l(1)]) (simp add: is_cstr_def)
  have ty: "typed s = l @ 10 # session ls rest" using Cons.prems(2) by (simp add: session_def)
  from prompt_line [OF Cons.prems(1) ty l(1), of m] obtain b t where t:
    "read_line m 0 (replicate 256 0) (printf ''> '' [] s) = Some (b, t)" "cstr_of b = edited [] l"
    "input_ok t" "typed t = session ls rest" "same_rest s t" by blast
  let ?l = "edited [] l"
  have tx: "text_of (l # ls) = ?l @ 10 # text_of ls" by (simp add: text_of_def)
  then have room: "n + length ?l + 2 < 4096 \<and> int n + int (length ?l) + 2 < int MAX_FILE_SIZE"
    using Cons.prems(5) by (simp add: MAX_FILE_SIZE_def)
  then obtain buf1 where b1: "append_line buf (int n) ?l = Some (buf1, int (n + length ?l + 1))" "length buf1 = 4096"
    "take (n + length ?l + 1) buf1 = take n buf @ ?l @ [10]" using append_line_ok [OF Cons.prems(4)] by blast
  have step: "edit_loop m fn buf (int n) s = edit_loop m fn buf1 (int (n + length ?l + 1)) t"
    using t(1,2) l(2,3) cstr save_line(3,4) room b1(1)
    by (subst edit_loop.simps) (simp add: is_arg_iff del: of_nat_add)
  have len: "n + length ?l + 1 + length (text_of ls) = n + length (text_of (l # ls))" using tx by simp
  have "n + length ?l + 1 + length (text_of ls) + 1 < 4096" using Cons.prems(5) len by simp
  from Cons.IH [OF t(3,4) _ b1(2) this] Cons.prems(3) obtain buf' u where u:
    "edit_loop m fn buf1 (int (n + length ?l + 1)) t = do {
        (result, v) \<leftarrow> ramfs_write_file (m_env m) fn buf' (of_nat (n + length (text_of (l # ls)))) u;
        Some (if result \<ge> 0 then printf ''File '%s' saved (%d bytes)\<newline>'' [VS fn, VI (of_int result)] v
              else printf ''Error saving file: %d\<newline>'' [VI (of_int result)] v) }"
    "length buf' = 4096" "take (n + length (text_of (l # ls))) buf' = take (n + length ?l + 1) buf1 @ text_of ls"
    "input_ok u" "typed u = rest" "same_rest t u"
    unfolding len by (auto simp del: of_nat_add)
  have "take (n + length (text_of (l # ls))) buf' = take n buf @ text_of (l # ls)" using u(3) b1(3) tx by simp
  with u(1,2,4,5) same_rest_trans [OF t(5) u(6)] show ?case unfolding step by blast
qed

text \<open>The buffer that the session starts from: the old content.\<close>

lemma edit_buffer_start:
  assumes "length v \<le> 4095"
  shows "\<exists>b. (if int (length v) > 0 then do {
            b \<leftarrow> shell_memcpy_arr (replicate MAX_FILE_SIZE 0) 0 (v @ 0 # r) (nat (int (length v)));
            Some (b, int (length v)) }
          else Some (replicate MAX_FILE_SIZE 0, 0)) = Some (b, int (length v)) \<and>
      length b = 4096 \<and> take (length v) b = v"
proof (cases "v = []")
  case True
  then show ?thesis by (simp add: MAX_FILE_SIZE_def)
next
  case False
  have "shell_memcpy_arr (replicate 4096 0) (int 0) (v @ 0 # r) (length v) =
      Some (take 0 (replicate 4096 0) @ take (length v) (v @ 0 # r) @ drop (0 + length v) (replicate 4096 0))"
    by (rule memcpy_arr_ok) (use assms in simp_all)
  then show ?thesis using False assms by (simp add: MAX_FILE_SIZE_def)
qed

lemma same_tree_console:
  assumes "ram_files t = ram_files s" "ram_current_dir t = ram_current_dir s" "\<And>j. file_bytes t j = file_bytes s j"
    "same_tree k t u"
  shows "same_tree k s u"
  using assms by (simp add: same_tree_def others_same_def)

text \<open>
  A whole session on an existing file.  It saves exactly when the file's block is large enough or the
  heap has a free block that is; otherwise the file is as before, and the last message says so.
\<close>

lemma cmd_edit_session:
  assumes ok: "input_ok s" "ramfs_ok s" and argv: "length argv \<ge> 2" "is_cstr (argv ! 1)"
    and k: "text_file (argv ! 1) s = Some k" and keys: "typed s = session ls rest" "list_all line_ok ls"
    and small: "length (file_view s k @ text_of ls) < 4095"
    and new: "new = file_view s k @ text_of ls" "new = [] \<or> length new mod 256 \<noteq> 0"
  shows "\<exists>s' u. cmd_edit m argv s = Some (0, s') \<and> ramfs_ok s' \<and> same_tree k s s' \<and>
    (if room_for k (length new) s
     then file_bytes s' k = new \<and> s' = printf ''File '%s' saved (%d bytes)\<newline>'' [VS (argv ! 1), VI (of_nat (length new))] u
     else file_bytes s' k = file_bytes s k \<and> s' = printf ''Error saving file: %d\<newline>'' [VI (- 3)] u)"
proof -
  let ?v = "file_view s k" and ?n = "length (file_view s k)" and ?fn = "argv ! 1"
  have load: "load_file ?fn s = Some (int ?n, ?v @ 0 # replicate (4095 - ?n) 0)"
    using load_file_ok [OF ok(2) argv(2)] k by simp
  have n: "?n \<le> 4095" by (simp add: file_view_def)
  from edit_buffer_start [OF n, of "replicate (4095 - ?n) 0"] obtain b where b:
    "(if int ?n > 0 then do {
            b \<leftarrow> shell_memcpy_arr (replicate MAX_FILE_SIZE 0) 0 (?v @ 0 # replicate (4095 - ?n) 0) (nat (int ?n));
            Some (b, int ?n) }
          else Some (replicate MAX_FILE_SIZE 0, 0)) = Some (b, int ?n)" "length b = 4096" "take ?n b = ?v" by blast
  have "\<exists>tx. cmd_edit m argv s = do { s \<leftarrow> edit_loop m ?fn b (int ?n) (say tx s); Some (0, s) }"
    using argv(1) ok(2) load b(1) by (simp add: cmd_edit_def arr_str_view printf_say not_less) blast
  then obtain tx where cmd: "cmd_edit m argv s = do { s \<leftarrow> edit_loop m ?fn b (int ?n) (say tx s); Some (0, s) }" by blast
  let ?s = "say tx s"
  note i = input_say [OF ok(1), of tx]
  have "?n + length (text_of ls) + 1 < 4096" using small by simp
  from edit_loop_typed [OF i(1) _ keys(2) b(2) this, of rest m ?fn] i(2) keys(1) obtain buf t where t:
    "edit_loop m ?fn b (int ?n) ?s = do {
        (result, u) \<leftarrow> ramfs_write_file (m_env m) ?fn buf (of_nat (?n + length (text_of ls))) t;
        Some (if result \<ge> 0 then printf ''File '%s' saved (%d bytes)\<newline>'' [VS ?fn, VI (of_int result)] u
              else printf ''Error saving file: %d\<newline>'' [VI (of_int result)] u) }"
    "length buf = 4096" "take (?n + length (text_of ls)) buf = ?v @ text_of ls" "input_ok t" "same_rest ?s t"
    unfolding b(3) by (auto simp del: of_nat_add)
  have rest: "same_rest s t" by (rule same_rest_trans [OF i(3) t(5)])
  have kt: "kernel_ok t" using t(4) by (simp add: input_ok_def)
  note r = same_rest_ramfs [OF rest ok(2) kt]
  have f: "ramfs_find_file ?fn (ram_current_dir s) s = Some k" "k \<notin> dirs (ram_files s)"
    using k by (auto simp: text_file_def split: option.splits if_splits)
  have ft: "ramfs_find_file ?fn (ram_current_dir t) t = Some k" using f(1) by (simp add: find_file_cong [OF r(2)] r(3))
  let ?sz = "of_nat (?n + length (text_of ls)) :: u32"
  have sz: "unat ?sz = length new" using small new(1) by (simp add: unat_of_nat del: of_nat_add)
  have "good_size ?sz" using sz small new
    by (auto simp: good_size_def unat_eq_zero [symmetric] simp del: of_nat_add)
  moreover have "unat ?sz \<le> length buf" using sz t(2) small new(1) by simp
  ultimately obtain u where u: "ramfs_write_file (m_env m) ?fn buf ?sz t = Some (if room_for k (unat ?sz) t then int (unat ?sz) else - 3, u)"
    "ramfs_ok u" "same_tree k t u" "file_bytes u k = (if room_for k (unat ?sz) t then take (unat ?sz) buf else file_bytes t k)"
    using write_file_room [OF r(1) argv(2) ft, of ?sz buf "m_env m"] f(2) r(2) by auto
  have "kbd.more (t\<lparr>scancodes := scancodes s\<rparr>) = kbd.more s" using rest by (simp add: same_rest_def)
  from heap_room_cong [OF kbd_more_kheap(1-3) [OF this]] have room: "room_for k (length new) t = room_for k (length new) s"
    using r(2) by (simp add: room_for_def heap_room_def heap_rel_def)
  have tk: "take (unat ?sz) buf = new" using t(3) sz new(1) by simp
  have tree: "same_tree k s u" by (rule same_tree_console [OF r(2,3,4) u(3)])
  define s' where "s' = (if room_for k (length new) s
    then printf ''File '%s' saved (%d bytes)\<newline>'' [VS ?fn, VI (of_nat (length new))] u
    else printf ''Error saving file: %d\<newline>'' [VI (- 3)] u)"
  have "cmd_edit m argv s = Some (0, s')" using cmd t(1) u(1) unfolding s'_def sz room by simp
  moreover have "\<exists>x. s' = say x u" by (auto simp: s'_def printf_say)
  then have "ramfs_ok s'" "same_tree k s s' = same_tree k s u" "file_bytes s' k = file_bytes u k"
    using u(2) by (auto simp: ramfs_ok_say same_tree_def others_same_def file_bytes_def)
  ultimately show ?thesis using tree u(4) unfolding tk [unfolded sz] sz room r(4) by (intro exI [of _ s'] exI [of _ u]) (auto simp: s'_def)
qed

end
