(* ===== verification/Shell.thy ===== *)
theory Shell
  imports FsCommands
begin

text \<open>
  The shell (\<open>src/src/kernel/shell/shell.c\<close>): its command line, the loop that takes characters
  from the keyboard's ring buffer, the split of a line into arguments and the call of a command.
\<close>

section \<open>State\<close>

definition SHELL_BUFFER_SIZE :: nat where "SHELL_BUFFER_SIZE = 256"
definition SHELL_MAX_ARGS :: nat where "SHELL_MAX_ARGS = 16"
definition SHELL_PROMPT :: string where "SHELL_PROMPT = ''MiqOs> ''"

text \<open>\<open>cursor_position\<close> of \<open>shell.c\<close> is \<open>sh_cursor\<close>; \<open>cursor_pos\<close> is the keyboard driver's.\<close>

record shell = console +
  command_buffer :: "u8 list"
  command_pos :: int
  sh_cursor :: int
  shell_running :: bool

section \<open>The command line on the screen\<close>

definition prompt_len :: s32 where "prompt_len = of_nat (length SHELL_PROMPT)"

text \<open>\<open>g_ScreenX = x; VGA_setcursor(g_ScreenX, g_ScreenY);\<close>\<close>

definition goto_x :: "s32 \<Rightarrow> 'a vga_scheme \<Rightarrow> 'a vga_scheme" where
  "goto_x x s = VGA_setcursor x (g_ScreenY s) (s\<lparr>g_ScreenX := x\<rparr>)"

text \<open>\<open>printf("%s", &command_buffer[i])\<close>: the string must end inside the buffer.\<close>

definition print_from :: "int \<Rightarrow> 'a shell_scheme \<Rightarrow> 'a shell_scheme option" where
  "print_from i s =
     (if 0 \<le> i \<and> i \<le> int (length (command_buffer s)) then do {
        text \<leftarrow> arr_str (drop (nat i) (command_buffer s));
        Some (printf ''%s'' [VS text] s) }
      else None)"

definition shell_print_prompt :: "'a kbd_scheme \<Rightarrow> 'a kbd_scheme option" where
  "shell_print_prompt s = do {
     let s = printf SHELL_PROMPT [] s;
     let y = sint (VGA_get_cursor_y s);
     let s = s\<lparr>cursor_line := y, cursor_pos := sint (VGA_get_cursor_x s), total_lines_used := y + 1\<rparr>;
     lens \<leftarrow> arr_set (line_lengths s) y 0;
     Some (s\<lparr>line_lengths := lens\<rparr>) }"

definition shell_redraw_screen :: "'a shell_scheme \<Rightarrow> 'a shell_scheme option" where
  "shell_redraw_screen s = do {
     s \<leftarrow> shell_print_prompt (VGA_clrscr s);
     s \<leftarrow> print_from 0 s;
     let s = s\<lparr>g_ScreenX := prompt_len + of_int (sh_cursor s), g_ScreenY := SCREEN_HEIGHT - 1\<rparr>;
     Some (VGA_setcursor (g_ScreenX s) (g_ScreenY s) s) }"

definition shell_clear_line :: "'a shell_scheme \<Rightarrow> 'a shell_scheme" where
  "shell_clear_line s =
     goto_x prompt_len (fold (\<lambda>i. printf '' '' []) [0..command_pos s - 1] (goto_x prompt_len s))"

definition shell_display_command :: "u8 list \<Rightarrow> 'a shell_scheme \<Rightarrow> 'a shell_scheme option" where
  "shell_display_command cmd s = do {
     let s = shell_clear_line s;
     buf \<leftarrow> shell_strncpy (command_buffer s) cmd (int SHELL_BUFFER_SIZE - 1);
     buf \<leftarrow> arr_set buf (int SHELL_BUFFER_SIZE - 1) 0;
     len \<leftarrow> shell_strlen buf;
     print_from 0 (s\<lparr>command_buffer := buf, command_pos := len\<rparr>) }"

definition shell_move_cursor_left :: "'a shell_scheme \<Rightarrow> 'a shell_scheme" where
  "shell_move_cursor_left s =
     (if sh_cursor s > 0 then
        (let s = s\<lparr>sh_cursor := sh_cursor s - 1\<rparr>
         in if sint (g_ScreenX s) > sint prompt_len then goto_x (g_ScreenX s - 1) s else s)
      else s)"

definition shell_move_cursor_right :: "'a shell_scheme \<Rightarrow> 'a shell_scheme" where
  "shell_move_cursor_right s =
     (if sh_cursor s < command_pos s then goto_x (g_ScreenX s + 1) (s\<lparr>sh_cursor := sh_cursor s + 1\<rparr>) else s)"

definition shell_get_current_line :: "'a shell_scheme \<Rightarrow> u8 list" where
  "shell_get_current_line s = command_buffer s"

definition shell_init :: "'a shell_scheme \<Rightarrow> 'a shell_scheme option" where
  "shell_init s = do {
     let s = s\<lparr>command_buffer := replicate SHELL_BUFFER_SIZE 0, command_pos := 0, sh_cursor := 0, shell_running := True\<rparr>;
     let s = keyboard_set_shell_mode True s;
     let s = printf ''Type 'help' for a list of available commands.\<newline>'' [] s;
     let s = printf ''Total commands available: %d\<newline>'' [VI (of_nat get_shell_command_count)] s;
     let s = printf ''\<newline>'' [] s;
     let y = sint (VGA_get_cursor_y s);
     let s = s\<lparr>cursor_line := y, cursor_pos := sint (VGA_get_cursor_x s), total_lines_used := y + 1\<rparr>;
     lens \<leftarrow> arr_set (line_lengths s) y 0;
     shell_print_prompt (s\<lparr>line_lengths := lens\<rparr>) }"

section \<open>Splitting a line\<close>

text \<open>
  The scan over \<open>local_buffer\<close>.  An argument is a pointer into the buffer, here its index; the
  buffer afterwards has a NUL behind every word that a blank ends.
\<close>

fun parse_loop :: "nat \<Rightarrow> u8 list \<Rightarrow> nat \<Rightarrow> bool \<Rightarrow> nat list \<Rightarrow> nat list \<times> u8 list" where
  "parse_loop 0 buf i in_word argv = (argv, buf)"
| "parse_loop (Suc left) buf i in_word argv =
     (if buf ! i = 0 \<or> length argv \<ge> SHELL_MAX_ARGS - 1 then (argv, buf)
      else if buf ! i \<noteq> 32 \<and> buf ! i \<noteq> 9 then
        (if in_word then parse_loop left buf (Suc i) True argv else parse_loop left buf (Suc i) True (argv @ [i]))
      else if in_word then parse_loop left (buf[i := 0]) (Suc i) False argv
      else parse_loop left buf (Suc i) False argv)"

text \<open>\<open>input\<close> is the string that is copied, cut to 255 characters.\<close>

definition shell_parse_command :: "u8 list \<Rightarrow> u8 list list" where
  "shell_parse_command input =
     (let str = take (SHELL_BUFFER_SIZE - 1) input;
          (argv, buf) = parse_loop (length str) (str @ [0]) 0 False []
      in map (\<lambda>i. cstr_of (drop i buf)) argv)"

section \<open>Running a command\<close>

definition run_command ::
    "command \<Rightarrow> machine \<Rightarrow> u8 list list \<Rightarrow> 'a console_scheme \<Rightarrow> (int \<times> 'a console_scheme) option" where
  "run_command c m argv s =
     (case c of
        CMD_help \<Rightarrow> cmd_help m argv s
      | CMD_clear \<Rightarrow> Some (cmd_clear argv s)
      | CMD_echo \<Rightarrow> Some (cmd_echo argv s)
      | CMD_version \<Rightarrow> Some (cmd_version argv s)
      | CMD_memory \<Rightarrow> cmd_memory m argv s
      | CMD_uptime \<Rightarrow> cmd_uptime m argv s
      | CMD_cpuinfo \<Rightarrow> Some (cmd_cpuinfo argv s)
      | CMD_cpuid \<Rightarrow> Some (cmd_cpuid m argv s)
      | CMD_dmesg \<Rightarrow> cmd_dmesg argv s
      | CMD_ls \<Rightarrow> cmd_ls m argv s
      | CMD_cd \<Rightarrow> cmd_cd m argv s
      | CMD_pwd \<Rightarrow> cmd_pwd m argv s
      | CMD_mkdir \<Rightarrow> cmd_mkdir m argv s
      | CMD_rm \<Rightarrow> cmd_rm m argv s
      | CMD_cat \<Rightarrow> cmd_cat m argv s
      | CMD_edit \<Rightarrow> cmd_edit m argv s
      | CMD_touch \<Rightarrow> cmd_touch m argv s
      | CMD_find \<Rightarrow> cmd_find m argv s
      | CMD_grep \<Rightarrow> cmd_grep m argv s
      | CMD_wc \<Rightarrow> cmd_wc m argv s
      | CMD_memtest \<Rightarrow> Some (cmd_memtest argv s)
      | CMD_interrupt \<Rightarrow> Some (cmd_interrupt m argv s)
      | CMD_hexdump \<Rightarrow> cmd_hexdump m argv s
      | CMD_keytest \<Rightarrow> cmd_keytest m argv s
      | CMD_benchmark \<Rightarrow> Some (cmd_benchmark argv s)
      | CMD_registers \<Rightarrow> Some (cmd_registers m argv s)
      | CMD_syscall_test \<Rightarrow> cmd_syscall_test m argv s
      | CMD_malloc_test \<Rightarrow> cmd_malloc_test m argv s
      | CMD_heap_info \<Rightarrow> cmd_heap_info m argv s
      | CMD_sleep_test \<Rightarrow> cmd_sleep_test m argv s
      | CMD_reboot \<Rightarrow> Some (cmd_reboot m argv s)
      | CMD_panic \<Rightarrow> Some (cmd_panic argv s)
      | CMD_exit \<Rightarrow> Some (cmd_exit argv s))"

text \<open>A command that halts the machine does not come back, so nothing is printed after it.\<close>

definition shell_process_command :: "machine \<Rightarrow> u8 list \<Rightarrow> 'a console_scheme \<Rightarrow> 'a console_scheme option" where
  "shell_process_command m input s =
     (let argv = shell_parse_command input
      in if argv = [] then Some s
         else (case find_shell_command (argv ! 0) of
             Some cmd \<Rightarrow> do {
               (result, s) \<leftarrow> run_command (sc_function cmd) m argv s;
               Some (if \<not> halted s \<and> result \<noteq> 0
                 then printf ''Command '%s' returned error code %d\<newline>'' [VS (argv ! 0), VI (of_int result)] s
                 else s) }
           | None \<Rightarrow>
               Some (printf ''Type 'help' for a list of available commands.\<newline>'' []
                 (printf ''Unknown command: %s\<newline>'' [VS (argv ! 0)] s))))"

section \<open>Characters\<close>

definition shell_enter :: "machine \<Rightarrow> 'a shell_scheme \<Rightarrow> 'a shell_scheme option" where
  "shell_enter m s = do {
     let s = printf ''\<newline>'' [] s;
     buf \<leftarrow> arr_set (command_buffer s) (command_pos s) 0;
     let s = s\<lparr>command_buffer := buf\<rparr>;
     s \<leftarrow> (if command_pos s > 0 then shell_process_command m (cstr_of (command_buffer s)) s else Some s);
     if halted s then Some s
     else shell_print_prompt
       (s\<lparr>command_buffer := replicate SHELL_BUFFER_SIZE 0, command_pos := 0, sh_cursor := 0\<rparr>) }"

text \<open>Deleting in the buffer, and drawing the line again.\<close>

definition shell_delete :: "'a shell_scheme \<Rightarrow> 'a shell_scheme option" where
  "shell_delete s =
     (if sh_cursor s > 0 \<and> command_pos s > 0 then do {
        buf \<leftarrow> (if sh_cursor s < command_pos s then shift_left (sh_cursor s - 1) (command_pos s - 1) (command_buffer s)
                else Some (command_buffer s));
        buf \<leftarrow> arr_set buf (command_pos s - 1) 0;
        Some (s\<lparr>command_buffer := buf, command_pos := command_pos s - 1, sh_cursor := sh_cursor s - 1\<rparr>) }
      else Some s)"

definition shell_backspace :: "'a shell_scheme \<Rightarrow> 'a shell_scheme option" where
  "shell_backspace s =
     (if sh_cursor s > 0 \<and> command_pos s > 0 then do {
        s \<leftarrow> shell_delete s;
        let s = fold (\<lambda>i. printf '' '' []) [0..command_pos s + 1] (goto_x prompt_len s);
        s \<leftarrow> print_from 0 (goto_x prompt_len s);
        Some (goto_x (prompt_len + of_int (sh_cursor s)) s) }
      else Some s)"

text \<open>Insertion at the cursor, shared by the two branches that do it.\<close>

definition shell_insert :: "u8 \<Rightarrow> 'a shell_scheme \<Rightarrow> 'a shell_scheme option" where
  "shell_insert c s =
     (if command_pos s < int SHELL_BUFFER_SIZE - 1 then do {
        buf \<leftarrow> (if sh_cursor s < command_pos s then shift_right (command_pos s) (sh_cursor s) (command_buffer s)
                else Some (command_buffer s));
        buf \<leftarrow> arr_set buf (sh_cursor s) c;
        Some (s\<lparr>command_buffer := buf, command_pos := command_pos s + 1, sh_cursor := sh_cursor s + 1\<rparr>) }
      else Some s)"

definition shell_char :: "machine \<Rightarrow> u8 \<Rightarrow> 'a shell_scheme \<Rightarrow> 'a shell_scheme option" where
  "shell_char m c s =
     (if c = 10 then shell_enter m s
      else if c = 8 then shell_backspace s
      else if c = 1 \<or> c = 2 then Some s
      else if c = 3 then Some (shell_move_cursor_left s)
      else if c = 4 then Some (shell_move_cursor_right s)
      else if 32 \<le> c \<and> c \<le> 126 then
        (if command_pos s < int SHELL_BUFFER_SIZE - 1 then do {
           s \<leftarrow> shell_insert c s;
           let start_x = g_ScreenX s;
           s \<leftarrow> print_from (sh_cursor s - 1) s;
           Some (goto_x (start_x + 1) s) }
         else Some s)
      else if c \<noteq> 0 then
        (if command_pos s < int SHELL_BUFFER_SIZE - 1 then do {
           s \<leftarrow> shell_insert c s;
           Some (printf ''%c'' [VI (scast c)] s) }
         else Some s)
      else Some s)"

text \<open>
  \<open>shell_run\<close> empties the ring buffer.  A command may bring new characters into it, so the loop has
  no bound of its own.
\<close>

partial_function (option) shell_run :: "machine \<Rightarrow> 'a shell_scheme \<Rightarrow> 'a shell_scheme option" where
  "shell_run m s =
     (case keyboard_buffer_pop s of
        (None, s1) \<Rightarrow> Some s1
      | (Some c, s1) \<Rightarrow> do { s2 \<leftarrow> shell_char m c s1; if halted s2 then Some s2 else shell_run m s2 })"

end
