(* ===== verification/Boot.thy ===== *)
theory Boot
  imports Shell
begin

text \<open>
  The kernel's entry point (\<open>start\<close> in \<open>src/src/kernel/main.c\<close>): every subsystem is brought up in
  turn, with an entry in the message log for each step, and then the shell runs for good.

  \<open>inb\<close> is what a read of a port returns in a state and \<open>isr_addr\<close> the addresses of the 256
  assembly stubs, both as for \<^const>\<open>HAL_Initialize\<close>.  \<open>status n\<close> is what the \<open>n\<close>-th read of the keyboard
  controller's status port returns.  \<open>irqs k\<close> are the interrupts of timer and keyboard that come after
  the \<open>k\<close>-th of the steps that follow \<^const>\<open>HAL_Initialize\<close>, which leaves both lines masked.
\<close>

section \<open>Boot parameters\<close>

record MemoryRegion =
  Begin :: u64
  Length :: u64
  Type :: u32
  ACPI :: u32

record BootParams =
  RegionCount :: int
  Regions :: "MemoryRegion list"
  BootDevice :: u8

section \<open>Interrupts during the boot\<close>

datatype irq_event = Tick | Key u8

text \<open>
  A device interrupts when the processor accepts interrupts and the controller does not mask its line;
  the mask is the last byte written to the controller's data port.  An interrupt that is held back is
  a later one of the list.
\<close>

definition irq_line :: "irq_event \<Rightarrow> nat" where
  "irq_line ev = (case ev of Tick \<Rightarrow> 0 | Key _ \<Rightarrow> 1)"

definition take_irq :: "env \<Rightarrow> irq_event \<Rightarrow> 'a ksys_scheme \<Rightarrow> 'a ksys_scheme option" where
  "take_irq e ev s =
     (if interrupts_on s \<and> \<not> bit (last_out PIC1_DATA_PORT s) (irq_line ev) then do {
        (r, s) \<leftarrow> isr_common e (case ev of Tick \<Rightarrow> 0 | Key sc \<Rightarrow> sc)
          ((env_regs e)\<lparr>r_interrupt := 32 + of_nat (irq_line ev)\<rparr>) s;
        Some s }
      else Some s)"

definition interrupted :: "env \<Rightarrow> irq_event list \<Rightarrow> 'a ksys_scheme \<Rightarrow> 'a ksys_scheme option" where
  "interrupted e evs s = foldM (take_irq e) evs s"

section \<open>Bringing the system up\<close>

definition KEYBOARD_OUTPUT_BUFFER_FULL :: u8 where "KEYBOARD_OUTPUT_BUFFER_FULL = 0x01"

text \<open>
  The loop that discards the bytes that the controller holds.  It goes on for ever when the controller
  never reports an empty buffer.
\<close>

partial_function (option) keyboard_drain :: "(nat \<Rightarrow> u8) \<Rightarrow> nat \<Rightarrow> 'a \<Rightarrow> 'a option" where
  "keyboard_drain status n s =
     (if status n AND KEYBOARD_OUTPUT_BUFFER_FULL \<noteq> 0 then keyboard_drain status (n + 1) s else Some s)"

definition keyboard_init ::
    "(u16 \<Rightarrow> 'a kirq_scheme \<Rightarrow> u8) \<Rightarrow> (nat \<Rightarrow> u8) \<Rightarrow> 'a kirq_scheme \<Rightarrow> 'a kirq_scheme option" where
  "keyboard_init inb status s = keyboard_drain status 0 (i686_outb 0x21 (inb 0x21 s AND NOT (push_bit 1 1)) s)"

definition log_message :: "char \<Rightarrow> string \<Rightarrow> string \<Rightarrow> 'a dmesg_scheme \<Rightarrow> 'a dmesg_scheme option" where
  "log_message level component message s =
     kernel_add_message (of_char level) (Some (bytes component)) (Some (bytes message)) s"

definition log_region :: "BootParams \<Rightarrow> int \<Rightarrow> 'a vga_scheme \<Rightarrow> 'a vga_scheme option" where
  "log_region bp i s = do {
     r \<leftarrow> arr_get (Regions bp) i;
     Some (logf ''Main'' LVL_DEBUG ''MEM: start=0x%llx length=0x%llx type=%x''
       [VLL (Begin r), VLL (Length r), VI (Type r)] s) }"

text \<open>A message, and the interrupts that come after it.\<close>

definition log_irq ::
    "env \<Rightarrow> irq_event list \<Rightarrow> char \<Rightarrow> string \<Rightarrow> string \<Rightarrow> 'a dmesg_scheme \<Rightarrow> 'a dmesg_scheme option" where
  "log_irq e evs level component message s = do {
     s \<leftarrow> log_message level component message s;
     interrupted e evs s }"

text \<open>Steps 1 to 4: hardware, system calls, keyboard.\<close>

definition start_devices ::
    "(u16 \<Rightarrow> 'a shell_scheme \<Rightarrow> u8) \<Rightarrow> (nat \<Rightarrow> u8) \<Rightarrow> (int \<Rightarrow> u32) \<Rightarrow> env \<Rightarrow> (nat \<Rightarrow> irq_event list) \<Rightarrow> 'a shell_scheme \<Rightarrow>
       'a shell_scheme option" where
  "start_devices inb status isr_addr e irqs s = do {
     s \<leftarrow> log_message CHR ''I'' ''boot'' ''MiqOSoft kernel starting'' s;
     s \<leftarrow> log_message CHR ''I'' ''hal'' ''Hardware layer init'' s;
     s \<leftarrow> HAL_Initialize inb isr_addr s;
     s \<leftarrow> log_message CHR ''I'' ''hal'' ''Hardware ready'' s;
     let s = logf ''Main'' LVL_DEBUG ''Initializing timer system...'' [] s;
     s \<leftarrow> log_message CHR ''I'' ''timer'' ''Timer ready'' s;
     let s = logf ''Main'' LVL_DEBUG ''Initializing syscall system...'' [] s;
     s \<leftarrow> log_message CHR ''I'' ''syscall'' ''System calls init'' s;
     s \<leftarrow> syscall_initialize s;
     s \<leftarrow> log_message CHR ''I'' ''syscall'' ''27 syscalls registered'' s;
     s \<leftarrow> log_message CHR ''I'' ''keyboard'' ''PS2 keyboard init'' s;
     s \<leftarrow> keyboard_init inb status s;
     s \<leftarrow> interrupted e (irqs 0) s;
     s \<leftarrow> log_irq e (irqs 1) CHR ''D'' ''keyboard'' ''Keyboard driver ready'' s;
     s \<leftarrow> i686_IRQ_RegisterHandler 1 IRQ_keyboard s;
     log_irq e (irqs 2) CHR ''D'' ''irq'' ''Keyboard IRQ registered'' s }"

text \<open>Step 5: interrupts.\<close>

definition start_interrupts :: "env \<Rightarrow> (nat \<Rightarrow> irq_event list) \<Rightarrow> 'a shell_scheme \<Rightarrow> 'a shell_scheme option" where
  "start_interrupts e irqs s = do {
     s \<leftarrow> log_irq e (irqs 3) CHR ''I'' ''pic'' ''Configuring interrupts'' s;
     s \<leftarrow> interrupted e (irqs 4) (i8259_Unmask 0 s);
     s \<leftarrow> log_irq e (irqs 5) CHR ''D'' ''pic'' ''Timer IRQ unmasked'' s;
     s \<leftarrow> interrupted e (irqs 6) (i8259_Unmask 1 s);
     s \<leftarrow> log_irq e (irqs 7) CHR ''D'' ''pic'' ''Keyboard IRQ unmasked'' s;
     s \<leftarrow> log_irq e (irqs 8) CHR ''I'' ''cpu'' ''Enabling interrupts'' s;
     s \<leftarrow> interrupted e (irqs 9) (i686_EnableInterrupts s);
     log_irq e (irqs 10) CHR ''I'' ''cpu'' ''Interrupts enabled'' s }"

text \<open>Steps 6 to 10: boot parameters, console and shell.\<close>

definition start_user :: "env \<Rightarrow> (nat \<Rightarrow> irq_event list) \<Rightarrow> BootParams \<Rightarrow> 'a shell_scheme \<Rightarrow> 'a shell_scheme option" where
  "start_user e irqs bp s = do {
     s \<leftarrow> log_irq e (irqs 11) CHR ''D'' ''boot'' ''Processing boot params'' s;
     let s = logf ''Main'' LVL_DEBUG ''Boot device: %x'' [VI (ucast (BootDevice bp))] s;
     s \<leftarrow> log_irq e (irqs 12) CHR ''I'' ''memory'' ''Scanning memory'' s;
     let s = logf ''Main'' LVL_DEBUG ''Memory region count: %d'' [VI (of_int (RegionCount bp))] s;
     s \<leftarrow> foldM (log_region bp) [0..RegionCount bp - 1] s;
     s \<leftarrow> log_irq e (irqs 13) CHR ''I'' ''memory'' ''Memory scan complete'' s;
     let s = logf ''Main'' LVL_INFO ''This is an info msg!'' [] s;
     let s = logf ''Main'' LVL_WARN ''This is a warning msg!'' [] s;
     let s = logf ''Main'' LVL_ERROR ''This is an error msg!'' [] s;
     let s = logf ''Main'' LVL_CRITICAL ''This is a critical msg!'' [] s;
     s \<leftarrow> log_irq e (irqs 14) CHR ''I'' ''demo'' ''Logging test complete'' s;
     let s = printf ''Welcome to OS MiqOSosft v1.0\<newline>'' [] s;
     let s = printf ''\<newline>'' [] s;
     s \<leftarrow> log_irq e (irqs 15) CHR ''I'' ''ui'' ''Console ready'' s;
     let s = logf ''Main'' LVL_INFO ''Entering main shell loop...'' [] s;
     s \<leftarrow> log_irq e (irqs 16) CHR ''I'' ''shell'' ''Shell starting'' s;
     s \<leftarrow> shell_init s;
     s \<leftarrow> log_irq e (irqs 17) CHR ''I'' ''shell'' ''Shell ready'' s;
     log_irq e (irqs 18) CHR ''I'' ''boot'' ''Init complete'' s }"

definition start ::
    "(u16 \<Rightarrow> 'a shell_scheme \<Rightarrow> u8) \<Rightarrow> (nat \<Rightarrow> u8) \<Rightarrow> (int \<Rightarrow> u32) \<Rightarrow> env \<Rightarrow> (nat \<Rightarrow> irq_event list) \<Rightarrow> BootParams \<Rightarrow>
       'a shell_scheme \<Rightarrow> 'a shell_scheme option" where
  "start inb status isr_addr e irqs bp s = do {
     s \<leftarrow> start_devices inb status isr_addr e irqs s;
     s \<leftarrow> start_interrupts e irqs s;
     start_user e irqs bp s }"

text \<open>
  The loop at the end of \<open>start\<close>: keyboard interrupts between two calls of \<open>shell_run\<close> bring a batch
  of scancodes.
\<close>

fun main_loop :: "machine \<Rightarrow> u8 list list \<Rightarrow> 'a shell_scheme \<Rightarrow> 'a shell_scheme option" where
  "main_loop m [] s = Some s"
| "main_loop m (b # bs) s = do {
     s \<leftarrow> deliver (m_env m) b s;
     s \<leftarrow> shell_run m s;
     if halted s then Some s else main_loop m bs s }"

end
