(* ===== verification/BootIrq.thy ===== *)
theory BootIrq
  imports Boot ConsoleOk
begin

text \<open>
  Interrupts of timer and keyboard while the kernel boots: from the point at which the devices are set up
  every one of them is handled, also a key press before the keyboard's handler is registered, and touches
  only the keyboard driver, the screen and the tick count.
\<close>

section \<open>The keyboard controller\<close>

lemma keyboard_drain_eq:
  "status k AND KEYBOARD_OUTPUT_BUFFER_FULL = 0 \<Longrightarrow> n \<le> k \<Longrightarrow> keyboard_drain status n s = Some s"
proof (induction "k - n" arbitrary: n)
  case (Suc m)
  then show ?case by (subst keyboard_drain.simps) simp
qed (subst keyboard_drain.simps, simp)

lemma keyboard_drain_ends:
  assumes "keyboard_drain status n s = Some s'"
  shows "\<exists>k \<ge> n. status k AND KEYBOARD_OUTPUT_BUFFER_FULL = 0"
proof (rule keyboard_drain.raw_induct [OF _ assms,
    where P = "\<lambda>status n s s'. \<exists>k \<ge> n. status k AND KEYBOARD_OUTPUT_BUFFER_FULL = 0"], goal_cases)
  case (1 drain status n s s')
  show ?case
  proof (cases "status n AND KEYBOARD_OUTPUT_BUFFER_FULL = 0")
    case False
    with 1(2) have "drain status (n + 1) s = Some s'" by simp
    from 1(1) [OF this] show ?thesis by (metis Suc_eq_plus1 Suc_leD)
  qed auto
qed

text \<open>The driver comes up exactly when the controller reports an empty buffer at some time.\<close>

lemma keyboard_init_eq:
  "keyboard_init inb status s = (if \<exists>n. status n AND KEYBOARD_OUTPUT_BUFFER_FULL = 0
     then Some (i686_outb 0x21 (inb 0x21 s AND NOT (push_bit 1 1)) s) else None)"
proof (cases "\<exists>n. status n AND KEYBOARD_OUTPUT_BUFFER_FULL = 0")
  case True
  then show ?thesis using keyboard_drain_eq [of status _ 0] by (auto simp: keyboard_init_def)
next
  case False
  then show ?thesis using keyboard_drain_ends [of status 0] by (fastforce simp: keyboard_init_def)
qed

section \<open>What an interrupt leaves alone\<close>

lemma delete_key_mode:
  assumes "handle_delete_key s = Some s'"
  shows "shell_mode s' = shell_mode s"
  using assms by (auto simp: handle_delete_key_def more_fields(14) [OF redraw_more] dest!: set_line_fields
      split: Option.bind_splits if_splits)

lemma keyboard_handler_mode:
  assumes "keyboard_handler sc s = Some s'" "kbd_wf s"
  shows "shell_mode s' = shell_mode s"
proof -
  have "shell_mode (handle_key sc s) = shell_mode s" using assms(2) by (simp add: handle_key_eq kbd_wf_def)
  then show ?thesis using assms(1) delete_key_mode [of "s\<lparr>extended_key := 0\<rparr>" s']
    by (auto simp: keyboard_handler_def handle_extended_def Let_def split: if_splits)
qed

text \<open>With \<open>q\<close> also the waiting keys stay.\<close>

definition irq_frame :: "bool \<Rightarrow> 'a ksys_scheme \<Rightarrow> 'a ksys_scheme \<Rightarrow> bool" where
  "irq_frame q s s' \<longleftrightarrow> kbd_wf s' \<and> on_screen s' \<and> mem s' = mem s \<and> heap_start s' = heap_start s \<and>
     heap_initialized s' = heap_initialized s \<and> irq_part s' = irq_part s \<and> interrupts_on s' = interrupts_on s \<and>
     kirq.more s' = kirq.more s \<and> shell_mode s' = shell_mode s \<and> (q \<longrightarrow> ring_items s' = ring_items s)"

lemma irq_frame_trans: "irq_frame q s s1 \<Longrightarrow> irq_frame q s1 s2 \<Longrightarrow> irq_frame q s s2"
  by (simp add: irq_frame_def)

lemma irq_frame_refl: "kbd_wf s \<Longrightarrow> on_screen s \<Longrightarrow> irq_frame q s s"
  by (simp add: irq_frame_def)

lemma irq_frame_more:
  fixes s s' :: "'a ksys_scheme"
  assumes "kbd_wf s" "vga.more s' = vga.more s" "on_screen s'"
  shows "irq_frame q s s'"
  using assms more_wf [OF assms(2)] more_kheap [OF assms(2)] more_kirq [OF assms(2)] more_ring [OF assms(2)] more_fields [OF assms(2)]
  by (simp add: irq_frame_def irq_part_def)

lemma irq_frame_tick: "kbd_wf s \<Longrightarrow> on_screen s \<Longrightarrow> irq_frame q s (pit_tick_handler s)"
  by (simp add: irq_frame_def pit_tick_handler_def kbd_wf_def kbd_arrays_def ring_ok_def on_screen_def irq_part_def
      ring_items_def kb_count_def)

lemma irq_frame_key:
  assumes "kbd_wf s" "on_screen s"
  shows "\<exists>s'. keyboard_handler sc s = Some s' \<and> irq_frame False s s'"
proof -
  from keyboard_handler_wf [OF assms(1), of sc] obtain s' where s': "keyboard_handler sc s = Some s'" "kbd_wf s'" by blast
  note k = keyboard_handler_kernel [OF s'(1) assms(1)]
  have "irq_part s' = irq_part s" "mem s' = mem s" "heap_start s' = heap_start s" "heap_initialized s' = heap_initialized s"
    "interrupts_on s' = interrupts_on s" "kirq.more s' = kirq.more s"
    using k(1) by (cases s; cases s'; simp add: irq_part_def)+
  then show ?thesis using s' k(2) assms keyboard_handler_mode [OF s'(1) assms(1)] by (simp add: irq_frame_def)
qed

section \<open>Interrupts are handled\<close>

text \<open>The state from which on they may come.\<close>

definition irq_ready :: "'a ksys_scheme \<Rightarrow> bool" where
  "irq_ready s \<longleftrightarrow> kbd_wf s \<and> on_screen s \<and> \<not> halted s \<and> length (g_ISRHandlers s) = 256 \<and> length (g_IRQHandlers s) = 16 \<and>
     g_ISRHandlers s ! 32 = Some ISR_irq \<and> g_ISRHandlers s ! 33 = Some ISR_irq \<and> g_Driver s \<and>
     g_IRQHandlers s ! 0 = Some IRQ_timer"

lemma irq_ready_frame: "irq_ready s \<Longrightarrow> irq_frame q s s' \<Longrightarrow> irq_ready s'"
  by (simp add: irq_ready_def irq_frame_def irq_part_def)

lemma irq_handled:
  assumes r: "irq_ready s" and k: "k < 2" "k = 0 \<or> \<not> q"
  shows "\<exists>s'. i686_IRQ_Handler (run_irq sc) (r\<lparr>r_interrupt := 32 + of_nat k\<rparr>) s = Some s' \<and> irq_frame q s s'"
proof -
  have wf: "kbd_wf s" "on_screen s" and len: "length (g_IRQHandlers s) = 16" using r by (simp_all add: irq_ready_def)
  have num: "sint (r_interrupt (r\<lparr>r_interrupt := 32 + of_nat k\<rparr>) - of_int PIC_REMAP_OFFSET) = int k"
    using k(1) by (auto simp: PIC_REMAP_OFFSET_def less_2_cases_iff)
  let ?h = "g_IRQHandlers s ! k"
  have "\<exists>t. (case ?h of Some f \<Rightarrow> run_irq sc f (r\<lparr>r_interrupt := 32 + of_nat k\<rparr>) s
      | None \<Rightarrow> Some (logf ''PIC'' LVL_WARN ''Unhandled IRQ %d...'' [VI (of_int (int k))] s)) = Some t \<and> irq_frame q s t"
  proof (cases ?h)
    case None
    have "irq_frame q s (logf ''PIC'' LVL_WARN ''Unhandled IRQ %d...'' [VI (of_int (int k))] s)"
      by (rule irq_frame_more [OF wf(1)]) (simp_all add: wf wf_intros)
    then show ?thesis using None by simp
  next
    case (Some f)
    show ?thesis
    proof (cases f)
      case IRQ_timer
      then show ?thesis using Some irq_frame_tick [OF wf] by (simp add: run_irq_def)
    next
      case IRQ_keyboard
      then have "\<not> q" using Some r k(2) by (auto simp: irq_ready_def)
      with IRQ_keyboard Some irq_frame_key [OF wf, of sc] show ?thesis by (simp add: run_irq_def)
    qed
  qed
  then obtain t where t: "(case ?h of Some f \<Rightarrow> run_irq sc f (r\<lparr>r_interrupt := 32 + of_nat k\<rparr>) s
      | None \<Rightarrow> Some (logf ''PIC'' LVL_WARN ''Unhandled IRQ %d...'' [VI (of_int (int k))] s)) = Some t" "irq_frame q s t" by blast
  have drv: "g_Driver t" "kbd_wf t" "on_screen t" using irq_ready_frame [OF r t(2)] by (simp_all add: irq_ready_def)
  have "irq_frame q t (i8259_SendEndOfInterrupt (int k) t)"
    by (rule irq_frame_more [OF drv(2)]) (use drv(3) in \<open>simp_all add: i8259_SendEndOfInterrupt_def on_screen_def\<close>)
  then have "irq_frame q s (i8259_SendEndOfInterrupt (int k) t)" by (rule irq_frame_trans [OF t(2)])
  moreover have "arr_get (g_IRQHandlers s) (int k) = Some ?h" using len k(1) by simp
  ultimately show ?thesis using t(1) drv(1) unfolding i686_IRQ_Handler_def num Let_def by simp
qed

lemma irq_taken:
  assumes r: "irq_ready s" and q: "q \<Longrightarrow> ev = Tick"
  shows "\<exists>s'. take_irq e ev s = Some s' \<and> irq_frame q s s'"
proof (cases "interrupts_on s \<and> \<not> bit (last_out PIC1_DATA_PORT s) (irq_line ev)")
  case False
  then show ?thesis using r by (auto simp: take_irq_def irq_ready_def intro: irq_frame_refl)
next
  case True
  let ?s = "s\<lparr>interrupts_on := False\<rparr>" and ?k = "irq_line ev" and ?sc = "case ev of Tick \<Rightarrow> 0 | Key sc \<Rightarrow> sc"
  let ?r = "(env_regs e)\<lparr>r_interrupt := 32 + of_nat ?k\<rparr>"
  have k: "?k < 2" "?k = 0 \<or> \<not> q" using q by (auto simp: irq_line_def split: irq_event.split)
  have flag: "kbd_wf (u\<lparr>interrupts_on := b\<rparr>) = kbd_wf u" "on_screen (u\<lparr>interrupts_on := b\<rparr>) = on_screen u"
    "ring_items (u\<lparr>interrupts_on := b\<rparr>) = ring_items u" "irq_part (u\<lparr>interrupts_on := b\<rparr>) = irq_part u" for u :: "'a ksys_scheme" and b
    by (simp_all add: kbd_wf_def kbd_arrays_def ring_ok_def on_screen_def ring_items_def kb_count_def irq_part_def)
  have "irq_ready ?s" using r by (simp add: irq_ready_def flag)
  from irq_handled [OF this k, of ?sc "env_regs e"] obtain t where
    t: "i686_IRQ_Handler (run_irq ?sc) ?r ?s = Some t" "irq_frame q ?s t" by blast
  have "\<not> halted t" using t(2) r by (simp add: irq_frame_def irq_part_def irq_ready_def)
  moreover have "arr_get (g_ISRHandlers s) (uint (r_interrupt ?r)) = Some (Some ISR_irq)"
    using r k(1) by (auto simp: irq_ready_def less_2_cases_iff)
  ultimately have "take_irq e ev s = Some (t\<lparr>interrupts_on := interrupts_on s\<rparr>)"
    using True t(1) by (simp add: take_irq_def isr_common_def i686_ISR_Handler_def run_isr_def del: Registers.simps)
  moreover have "irq_frame q s (t\<lparr>interrupts_on := interrupts_on s\<rparr>)" using t(2) by (simp add: irq_frame_def flag)
  ultimately show ?thesis by blast
qed

lemma irqs_taken:
  "irq_ready s \<Longrightarrow> (q \<Longrightarrow> \<forall>ev \<in> set evs. ev = Tick) \<Longrightarrow> \<exists>s'. interrupted e evs s = Some s' \<and> irq_frame q s s'"
proof (induction evs arbitrary: s)
  case Nil
  then show ?case by (auto simp: interrupted_def irq_ready_def intro: irq_frame_refl)
next
  case (Cons ev evs)
  from irq_taken [OF Cons.prems(1), of q ev e] Cons.prems(2) obtain s1 where s1: "take_irq e ev s = Some s1" "irq_frame q s s1" by auto
  from Cons.IH [OF irq_ready_frame [OF Cons.prems(1) s1(2)]] Cons.prems(2) obtain s' where
    "interrupted e evs s1 = Some s'" "irq_frame q s1 s'" by auto
  with s1 irq_frame_trans show ?case by (fastforce simp: interrupted_def)
qed

section \<open>What follows for the kernel\<close>

lemma irq_frame_fields:
  assumes "irq_frame q s s'"
  shows "heap_live s' = heap_live s" "fs_ok s' = fs_ok s" "virtual_files s' = virtual_files s" "ksys.more s' = ksys.more s"
    "syscall_handlers s' = syscall_handlers s"
proof -
  note f = assms [unfolded irq_frame_def]
  show "virtual_files s' = virtual_files s" "ksys.more s' = ksys.more s" "syscall_handlers s' = syscall_handlers s"
    using f by (cases s; cases s'; simp)+
  show "heap_live s' = heap_live s" by (rule heap_frame(2)) (use f in auto)
  show "fs_ok s' = fs_ok s" by (rule fs_ok_cong(1)) (use f in \<open>cases s; cases s'; simp\<close>)+
qed

lemma irq_frame_kernel:
  assumes "kernel_ok s" "irq_frame q s s'"
  shows "kernel_ok s'"
proof -
  have "tables_set s' = tables_set s" by (rule irq_part_tables) (use assms(2) irq_frame_fields(5) [OF assms(2)] in \<open>simp_all add: irq_frame_def\<close>)
  then show ?thesis using assms irq_frame_fields(2) [OF assms(2)] by (simp add: kernel_ok_def irq_frame_def)
qed

lemma kernel_irq_ready: "kernel_ok s \<Longrightarrow> irq_ready s"
  by (simp add: kernel_ok_def tables_set_def irq_ready_def)

end
