(* ===== verification/ShellOk.thy ===== *)
theory ShellOk
  imports Shell FsCommandsOk ConsoleOk
begin

text \<open>
  The shell's contract.  A line is split into its words (\<open>split_args\<close>, the words of the text as
  long as there are fewer than fifteen); the command line is a line editor of 255 characters; a
  line that is typed and ended with Enter runs its command with its words as arguments.
\<close>

section \<open>Splitting a line\<close>

definition gap :: "u8 \<Rightarrow> bool" where "gap c \<longleftrightarrow> c = 32 \<or> c = 9"

text \<open>At most \<open>n\<close> arguments; the last one keeps the rest of the line.\<close>

primrec split_args :: "nat \<Rightarrow> u8 list \<Rightarrow> u8 list list" where
  "split_args 0 xs = []"
| "split_args (Suc n) xs =
     (let ws = dropWhile gap xs
      in if ws = [] then []
         else if n = 0 then [ws]
         else takeWhile (\<lambda>c. \<not> gap c) ws # split_args n (dropWhile (\<lambda>c. \<not> gap c) ws))"

lemma split_args_Nil [simp]: "split_args n [] = []"
  by (cases n) simp_all

lemma split_args_gap [simp]: "gap c \<Longrightarrow> split_args n (c # xs) = split_args n xs"
  by (cases n) simp_all

lemma split_args_word:
  "\<not> gap c \<Longrightarrow> split_args (Suc n) (c # xs) = (if n = 0 then [c # xs]
    else (c # takeWhile (\<lambda>c. \<not> gap c) xs) # split_args n (dropWhile (\<lambda>c. \<not> gap c) xs))"
  by simp

text \<open>Below the limit these are the words of the line.\<close>

lemma split_args_words: "length (words_by gap xs) < n \<Longrightarrow> split_args n xs = words_by gap xs"
proof (induction xs arbitrary: n rule: words_induct [where sep = gap])
  case (word c xs)
  then show ?case by (cases n) (auto simp: split_args_word)
qed simp_all

lemma split_args_many:
  "n \<le> length (words_by gap xs) \<Longrightarrow> length (split_args n xs) = n \<and>
    take (n - 1) (split_args n xs) = take (n - 1) (words_by gap xs)"
proof (induction xs arbitrary: n rule: words_induct [where sep = gap])
  case (word c xs)
  show ?case
  proof (cases n)
    case (Suc k)
    with word.prems word.hyps(1) word.IH [of k] show ?thesis by (cases k) (auto simp: split_args_word)
  qed simp
qed simp_all

text \<open>With that many words or more, the last argument is the rest of the line behind the words before it.\<close>

lemma split_args_rest:
  "0 < n \<Longrightarrow> n \<le> length (words_by gap xs) \<Longrightarrow>
    \<exists>pre. xs = pre @ split_args n xs ! (n - 1) \<and> words_by gap pre = take (n - 1) (words_by gap xs) \<and>
      split_args n xs ! (n - 1) \<noteq> [] \<and> \<not> gap (hd (split_args n xs ! (n - 1))) \<and> (pre = [] \<or> gap (last pre))"
proof (induction xs arbitrary: n rule: words_induct [where sep = gap])
  case (sep c xs)
  from sep.IH [of n] sep.prems sep.hyps obtain pre where "xs = pre @ split_args n xs ! (n - 1)"
    "words_by gap pre = take (n - 1) (words_by gap xs)" "split_args n xs ! (n - 1) \<noteq> []" "\<not> gap (hd (split_args n xs ! (n - 1)))"
    "pre = [] \<or> gap (last pre)" by auto
  with sep.hyps show ?case by (intro exI [of _ "c # pre"]) auto
next
  case (word c xs)
  let ?w = "takeWhile (\<lambda>c. \<not> gap c) xs" and ?ys = "dropWhile (\<lambda>c. \<not> gap c) xs"
  obtain k where n: "n = Suc k" using word.prems(1) by (cases n) auto
  show ?case
  proof (cases k)
    case 0
    then show ?thesis using word.hyps n by (intro exI [of _ "[]"]) (simp add: split_args_word)
  next
    case (Suc j)
    have "k \<le> length (words_by gap ?ys)" using word.prems(2) word.hyps n by simp
    from word.IH [OF _ this] Suc obtain pre where pre: "?ys = pre @ split_args k ?ys ! j"
      "words_by gap pre = take j (words_by gap ?ys)" "split_args k ?ys ! j \<noteq> []" "\<not> gap (hd (split_args k ?ys ! j))"
      "pre = [] \<or> gap (last pre)" by auto
    have e: "split_args n (c # xs) ! (n - 1) = split_args k ?ys ! j" using word.hyps n Suc by (simp add: split_args_word)
    have "?ys \<noteq> []" using pre(1,3) by (metis append_is_Nil_conv)
    then have g: "gap (hd ?ys)" using hd_dropWhile [of "\<lambda>c. \<not> gap c" xs] by simp
    have ne: "pre \<noteq> []" using g pre(1,4) by (metis append_Nil)
    then have hd: "gap (hd pre)" using g pre(1) by (metis hd_append2)
    have "c # xs = (c # ?w @ pre) @ split_args n (c # xs) ! (n - 1)"
      unfolding e using pre(1) takeWhile_dropWhile_id [of "\<lambda>c. \<not> gap c" xs] by simp
    moreover have "\<forall>d \<in> set (c # ?w). \<not> gap d" using word.hyps set_takeWhileD [of _ "\<lambda>c. \<not> gap c" xs] by auto
    from words_by_append_word [OF this, of pre] hd have "words_by gap (c # ?w @ pre) = (c # ?w) # words_by gap pre" by simp
    moreover have "take (n - 1) (words_by gap (c # xs)) = (c # ?w) # take j (words_by gap ?ys)" using word.hyps n Suc by simp
    ultimately show ?thesis using pre(2-5) ne e by (intro exI [of _ "c # ?w @ pre"]) simp
  qed
qed simp

lemma split_args_full:
  assumes "1 < n" "n \<le> length (words_by gap xs)"
  shows "\<exists>pre rest. xs = pre @ rest \<and> split_args n xs = words_by gap pre @ [rest] \<and>
    words_by gap pre = take (n - 1) (words_by gap xs) \<and> rest \<noteq> [] \<and> \<not> gap (hd rest) \<and> gap (last pre)"
proof -
  let ?r = "split_args n xs ! (n - 1)"
  from split_args_rest [of n xs] assms obtain pre where pre: "xs = pre @ ?r" "words_by gap pre = take (n - 1) (words_by gap xs)"
    "?r \<noteq> []" "\<not> gap (hd ?r)" "pre = [] \<or> gap (last pre)" by auto
  have "words_by gap pre \<noteq> []" using assms pre(2) by auto
  then have "gap (last pre)" using pre(5) by auto
  have m: "length (split_args n xs) = n" "take (n - 1) (split_args n xs) = take (n - 1) (words_by gap xs)"
    using split_args_many [OF assms(2)] by simp_all
  have "split_args n xs = take (n - 1) (split_args n xs) @ [?r]"
    using m(1) assms(1) take_Suc_conv_app_nth [of "n - 1" "split_args n xs"] by simp
  then have "split_args n xs = words_by gap pre @ [?r]" using m(2) pre(2) by simp
  then show ?thesis using pre \<open>gap (last pre)\<close> by blast
qed

text \<open>The scan: an argument that is closed ends at a NUL in the part already scanned.\<close>

definition closed :: "u8 list \<Rightarrow> nat list \<Rightarrow> bool" where
  "closed pre argv \<longleftrightarrow> (\<forall>i \<in> set argv. i \<le> length pre \<and> 0 \<in> set (drop i pre))"

definition arg_strs :: "u8 list \<Rightarrow> nat list \<Rightarrow> u8 list list" where
  "arg_strs buf argv = map (\<lambda>i. cstr_of (drop i buf)) argv"

lemma cstr_of_closed: "0 \<in> set xs \<Longrightarrow> cstr_of (xs @ ys) = cstr_of xs"
  by (simp add: cstr_of_def takeWhile_append1)

lemma closed_more: "closed pre argv \<Longrightarrow> closed (pre @ ys) argv"
  by (auto simp: closed_def)

lemma closed_strs: "closed pre argv \<Longrightarrow> arg_strs (pre @ ys) argv = arg_strs pre argv"
  by (auto simp: closed_def arg_strs_def cstr_of_closed)

lemma arg_strs_append [simp]: "arg_strs buf (xs @ ys) = arg_strs buf xs @ arg_strs buf ys"
  by (simp add: arg_strs_def)

definition scanned :: "u8 list \<Rightarrow> u8 list \<Rightarrow> bool \<Rightarrow> nat list \<Rightarrow> u8 list list" where
  "scanned xs pre in_word argv =
     (case parse_loop (length xs) (pre @ xs @ [0]) (length pre) in_word argv of (argv', buf) \<Rightarrow> arg_strs buf argv')"

lemma parse_loop_ok:
  "is_cstr xs \<Longrightarrow> closed pre argv \<Longrightarrow> length argv \<le> 15 \<Longrightarrow>
    scanned xs pre False argv = arg_strs pre argv @ split_args (15 - length argv) xs"
  "is_cstr xs \<Longrightarrow> closed pre argv \<Longrightarrow> length argv \<le> 14 \<Longrightarrow> i \<le> length pre \<Longrightarrow> is_cstr (drop i pre) \<Longrightarrow>
    scanned xs pre True (argv @ [i]) = arg_strs pre argv @
      (if length argv = 14 then [drop i pre @ xs]
       else (drop i pre @ takeWhile (\<lambda>c. \<not> gap c) xs) # split_args (14 - length argv) (dropWhile (\<lambda>c. \<not> gap c) xs))"
proof (induction xs arbitrary: pre argv i)
  case Nil
  {
    case 1
    then show ?case by (simp add: scanned_def closed_strs)
  next
    case 2
    then show ?case by (simp add: scanned_def closed_strs) (simp add: arg_strs_def cstr_of_pad)
  }
next
  case (Cons c xs)
  have nth: "(pre @ (c # xs) @ [0]) ! length pre = c" for pre by simp
  have step: "(pre @ (c # xs) @ [0]) = (pre @ [c]) @ xs @ [0]" "Suc (length pre) = length (pre @ [c])" for pre by simp_all
  {
    case 1
    have c: "c \<noteq> 0" "is_cstr xs" using 1(1) by simp_all
    show ?case
    proof (cases "length argv = 15")
      case True
      then show ?thesis using closed_strs [OF 1(2), of "c # xs @ [0]"] by (simp add: scanned_def SHELL_MAX_ARGS_def)
    next
      case False
      with 1(3) have l: "length argv \<le> 14" by simp
      note cl = closed_more [OF 1(2), of "[c]"] closed_strs [OF 1(2), of "[c]"]
      show ?thesis
      proof (cases "gap c")
        case True
        have "scanned (c # xs) pre False argv = scanned xs (pre @ [c]) False argv"
          using True c l by (auto simp: scanned_def SHELL_MAX_ARGS_def gap_def nth)
        then show ?thesis using Cons.IH(1) [OF c(2) cl(1) 1(3)] cl(2) True by simp
      next
        case gap: False
        have "scanned (c # xs) pre False argv = scanned xs (pre @ [c]) True (argv @ [length pre])"
          using gap c l by (auto simp: scanned_def SHELL_MAX_ARGS_def gap_def nth)
        moreover have "15 - length argv = Suc (14 - length argv)" using l by simp
        ultimately show ?thesis
          using Cons.IH(2) [OF c(2) cl(1) l, of "length pre"] cl(2) gap c(1) l by (auto simp: Let_def)
      qed
    qed
  next
    case 2
    have c: "c \<noteq> 0" "is_cstr xs" using 2(1) by simp_all
    note cl = closed_more [OF 2(2), of "[c]"] closed_strs [OF 2(2), of "[c]"]
    show ?case
    proof (cases "length argv = 14")
      case True
      have "arg_strs (pre @ c # xs @ [0]) [i] = [drop i pre @ c # xs]"
        using 2(4,5) c cstr_of_pad [of "drop i pre @ c # xs" "[]"] by (simp add: arg_strs_def)
      then show ?thesis using True closed_strs [OF 2(2), of "c # xs @ [0]"] by (simp add: scanned_def SHELL_MAX_ARGS_def)
    next
      case False
      with 2(3) have l: "length argv < 14" by simp
      show ?thesis
      proof (cases "gap c")
        case True
        have "scanned (c # xs) pre True (argv @ [i]) = scanned xs (pre @ [0]) False (argv @ [i])"
          using True c l by (auto simp: scanned_def SHELL_MAX_ARGS_def gap_def nth)
        moreover have "closed (pre @ [0]) (argv @ [i])" using 2(2,4) by (auto simp: closed_def)
        moreover have "arg_strs (pre @ [0]) (argv @ [i]) = arg_strs pre argv @ [drop i pre]"
          using closed_strs [OF 2(2), of "[0]"] 2(4,5) by (simp add: arg_strs_def cstr_of_pad)
        ultimately show ?thesis using Cons.IH(1) [OF c(2), of "pre @ [0]" "argv @ [i]"] l True by simp
      next
        case gap: False
        have "scanned (c # xs) pre True (argv @ [i]) = scanned xs (pre @ [c]) True (argv @ [i])"
          using gap c l by (auto simp: scanned_def SHELL_MAX_ARGS_def gap_def nth)
        then show ?thesis
          using Cons.IH(2) [OF c(2) cl(1) 2(3), of i] 2(4,5) cl(2) gap c(1) l by simp
      qed
    qed
  }
qed

lemma parse_command_ok:
  assumes "is_cstr input"
  shows "shell_parse_command input = split_args 15 (take 255 input)"
proof -
  have "scanned (take 255 input) [] False [] = split_args 15 (take 255 input)"
    using parse_loop_ok(1) [of "take 255 input" "[]" "[]"] is_cstr_take [OF assms]
    by (simp add: closed_def arg_strs_def)
  then show ?thesis by (simp add: shell_parse_command_def scanned_def SHELL_BUFFER_SIZE_def arg_strs_def split: prod.splits)
qed

section \<open>The command line as a line editor\<close>

definition sh_ok :: "'a shell_scheme \<Rightarrow> bool" where
  "sh_ok s \<longleftrightarrow> length (command_buffer s) = 256 \<and> 0 \<le> sh_cursor s \<and> sh_cursor s \<le> command_pos s \<and>
     command_pos s \<le> 255 \<and> drop (nat (command_pos s)) (command_buffer s) = replicate (256 - nat (command_pos s)) 0"

definition sh_line :: "'a shell_scheme \<Rightarrow> u8 list" where
  "sh_line s = take (nat (command_pos s)) (command_buffer s)"

lemma sh_line_length: "sh_ok s \<Longrightarrow> int (length (sh_line s)) = command_pos s"
  by (auto simp: sh_ok_def sh_line_def)

text \<open>The line that \<open>p\<close>, \<open>n\<close> and the buffer make.\<close>

lemma line_ins:
  assumes "length buf = 256" "p \<le> n" "n < 255" "drop n buf = replicate (256 - n) 0"
  shows "\<exists>b. shift_right (int n) (int p) buf = Some b \<and> length b = 256 \<and>
    take (Suc n) (b[p := c]) = take p buf @ c # drop p (take n buf) \<and> drop (Suc n) (b[p := c]) = replicate (255 - n) 0"
proof -
  let ?b = "take (Suc p) buf @ take (n - p) (drop p buf) @ drop (Suc n) buf"
  have b: "shift_right (int n) (int p) buf = Some ?b" using shift_right_Some [of p n buf] assms by simp
  from insert_text [of p n buf c] assms b have t: "take (Suc n) (?b[p := c]) = take p buf @ c # drop p (take n buf)" by auto
  have "drop (Suc n) buf = replicate (255 - n) 0"
    using arg_cong [OF assms(4), of "drop 1"] assms(3) by (simp add: drop_replicate)
  moreover have "drop (Suc n) (?b[p := c]) = drop (Suc n) ?b" using assms(2) by simp
  moreover have "drop (Suc n) ?b = drop (Suc n) buf" using assms by simp
  ultimately show ?thesis using b t assms(1-3) by (intro exI [of _ ?b]) simp
qed

lemma line_del:
  assumes "length buf = 256" "p < n" "n \<le> 255" "drop n buf = replicate (256 - n) 0"
  shows "\<exists>b. shift_left (int p) (int n - 1) buf = Some b \<and> length b = 256 \<and>
    take (n - 1) (b[n - 1 := 0]) = take p buf @ drop (Suc p) (take n buf) \<and>
    drop (n - 1) (b[n - 1 := 0]) = replicate (256 - (n - 1)) 0"
proof -
  let ?b = "take p buf @ take (n - 1 - p) (drop (Suc p) buf) @ drop (n - 1) buf"
  have n: "int (n - 1) = int n - 1" using assms by simp
  have b: "shift_left (int p) (int n - 1) buf = Some ?b"
    using shift_left_Some [of p "n - 1" buf] assms unfolding n by simp
  from delete_text [of p n buf 0] assms b have t: "take (n - 1) (?b[n - 1 := 0]) = take p buf @ drop (Suc p) (take n buf)" by auto
  have len: "length (take p buf @ take (n - 1 - p) (drop (Suc p) buf)) = n - 1" using assms by simp
  then have "drop (n - 1) ?b = drop (n - 1) buf" by (metis append.assoc append_eq_conv_conj)
  moreover have "drop (n - 1) buf = buf ! (n - 1) # drop n buf"
    using assms by (subst Cons_nth_drop_Suc [symmetric]) simp_all
  ultimately have d: "drop (n - 1) ?b = buf ! (n - 1) # drop n buf" by (rule trans)
  have "drop (n - 1) (?b[n - 1 := 0]) = (drop (n - 1) ?b)[0 := 0]" using drop_update_swap [of "n - 1" "n - 1" ?b 0] by simp
  then have "drop (n - 1) (?b[n - 1 := 0]) = 0 # drop n buf" unfolding d by simp
  also have "\<dots> = replicate (256 - (n - 1)) 0" using assms by (simp flip: replicate_Suc)
  finally show ?thesis using b t assms(1-3) by (intro exI [of _ ?b]) simp
qed

lemma nat_Suc_int: "nat (1 + int k) = Suc k"
  by simp

interpretation shell_line: line_editor sh_ok sh_line "\<lambda>s. nat (sh_cursor s)" 255 shell_insert shell_delete
proof unfold_locales
  fix s :: "'a shell_scheme" and c
  assume ok: "sh_ok s"
  define n where "n = nat (command_pos s)"
  define p where "p = nat (sh_cursor s)"
  have np: "command_pos s = int n" "sh_cursor s = int p" "p \<le> n" "n \<le> 255" "length (command_buffer s) = 256"
    "drop n (command_buffer s) = replicate (256 - n) 0" "length (sh_line s) = n" "sh_line s = take n (command_buffer s)"
    using ok by (auto simp: sh_ok_def n_def p_def sh_line_def)
  show "nat (sh_cursor s) \<le> length (sh_line s)" "length (sh_line s) \<le> 255" using np by simp_all
  show "length (sh_line s) = 255 \<Longrightarrow> shell_insert c s = Some s" using np by (simp add: shell_insert_def SHELL_BUFFER_SIZE_def)
  show "nat (sh_cursor s) = 0 \<Longrightarrow> shell_delete s = Some s" using np by (simp add: shell_delete_def)
  show "\<exists>s'. shell_insert c s = Some s' \<and> sh_ok s' \<and> nat (sh_cursor s') = Suc (nat (sh_cursor s)) \<and>
      sh_line s' = take (nat (sh_cursor s)) (sh_line s) @ c # drop (nat (sh_cursor s)) (sh_line s)"
    if "length (sh_line s) < 255"
  proof -
    have n: "n < 255" using that np by simp
    from line_ins [OF np(5,3) n np(6), of c] obtain b where b: "shift_right (int n) (int p) (command_buffer s) = Some b"
      "length b = 256" "take (Suc n) (b[p := c]) = take p (command_buffer s) @ c # drop p (take n (command_buffer s))"
      "drop (Suc n) (b[p := c]) = replicate (255 - n) 0" by blast
    have "(if int p < int n then shift_right (int n) (int p) (command_buffer s) else Some (command_buffer s)) = Some b"
      using b(1) np(3) by (cases "p = n") (simp_all add: shift_right_done)
    then have "shell_insert c s = Some (s\<lparr>command_buffer := b[p := c], command_pos := int (Suc n), sh_cursor := int (Suc p)\<rparr>)"
      using n np(3) b(2) by (simp add: shell_insert_def np(1,2) SHELL_BUFFER_SIZE_def add.commute split del: if_split cong: if_cong)
    moreover note nat_Suc_int
    ultimately show ?thesis using b n np by (simp add: sh_ok_def sh_line_def min_def)
  qed
  show "\<exists>s'. shell_delete s = Some s' \<and> sh_ok s' \<and> nat (sh_cursor s') = nat (sh_cursor s) - 1 \<and>
      sh_line s' = take (nat (sh_cursor s) - 1) (sh_line s) @ drop (nat (sh_cursor s)) (sh_line s)"
    if pos: "0 < nat (sh_cursor s)"
  proof -
    obtain q where q: "p = Suc q" using pos np(2) by (cases p) auto
    obtain k where k: "n = Suc k" using np(3) q by (cases n) auto
    have qk: "q < n" "k < 256" using np(3,4) q k by simp_all
    from line_del [OF np(5) qk(1) np(4,6)] obtain b where b: "shift_left (int q) (int k) (command_buffer s) = Some b"
      "length b = 256" "take k (b[k := 0]) = take q (command_buffer s) @ drop p (take n (command_buffer s))"
      "drop k (b[k := 0]) = replicate (256 - k) 0" by (auto simp: k q)
    have e: "command_pos s - 1 = int k" "sh_cursor s - 1 = int q" "sh_cursor s < command_pos s \<longleftrightarrow> q < k"
      "0 < sh_cursor s" "0 < command_pos s" using np(1,2) q k by simp_all
    have "(if q < k then shift_left (int q) (int k) (command_buffer s) else Some (command_buffer s)) = Some b"
      using b(1) np(3) by (cases "q = k") (simp_all add: shift_left_done q k)
    then have "shell_delete s = Some (s\<lparr>command_buffer := b[k := 0], command_pos := int k, sh_cursor := int q\<rparr>)"
      using b(2) qk(2) by (simp add: shell_delete_def e split del: if_split cong: if_cong)
    moreover have "q \<le> k" using np(3) q k by simp
    moreover note nat_Suc_int
    ultimately show ?thesis using b np(4,5,8) qk by (simp add: sh_ok_def sh_line_def np(1,2) q k)
  qed
qed

section \<open>Typing\<close>

text \<open>States that differ in the command line, the keyboard and the screen only.\<close>

definition sh_same :: "'a shell_scheme \<Rightarrow> 'a shell_scheme \<Rightarrow> bool" where
  "sh_same s t \<longleftrightarrow>
     kbd.more (t\<lparr>command_buffer := command_buffer s, command_pos := command_pos s, sh_cursor := sh_cursor s\<rparr>) = kbd.more s"

lemma sh_same_refl [simp]: "sh_same s s"
  by (simp add: sh_same_def)

lemma sh_same_trans:
  fixes s t u :: "'a shell_scheme"
  shows "sh_same s t \<Longrightarrow> sh_same t u \<Longrightarrow> sh_same s u"
  unfolding sh_same_def by (cases s; cases t; cases u; simp)

lemma sh_upd [simp]:
  fixes s :: "'a shell_scheme"
  shows "kernel_ok (s\<lparr>command_buffer := b\<rparr>) = kernel_ok s" "kernel_ok (s\<lparr>command_pos := n\<rparr>) = kernel_ok s"
    "kernel_ok (s\<lparr>sh_cursor := n\<rparr>) = kernel_ok s" "kernel_ok (s\<lparr>shell_running := r\<rparr>) = kernel_ok s"
    "user_live (s\<lparr>command_buffer := b\<rparr>) = user_live s" "user_live (s\<lparr>command_pos := n\<rparr>) = user_live s"
    "user_live (s\<lparr>sh_cursor := n\<rparr>) = user_live s"
    "ring_items (s\<lparr>command_buffer := b\<rparr>) = ring_items s" "ring_items (s\<lparr>command_pos := n\<rparr>) = ring_items s"
    "ring_items (s\<lparr>sh_cursor := n\<rparr>) = ring_items s"
    "on_screen (s\<lparr>command_buffer := b\<rparr>) = on_screen s" "on_screen (s\<lparr>command_pos := n\<rparr>) = on_screen s"
    "on_screen (s\<lparr>sh_cursor := n\<rparr>) = on_screen s"
  by (simp_all add: kernel_ok_def fs_ok_def tables_ok_def files_ok_def lits_ok_def backed_def is_default_def
      heap_ok_def heap_live_def heap_rel_def kbd_wf_def kbd_arrays_def ring_ok_def on_screen_def tables_set_def
      user_live_def ring_items_def kb_count_def)

lemma sh_same_ramfs:
  fixes s t :: "'a shell_scheme"
  assumes "sh_same s t" "ramfs_ok s" "kernel_ok t"
  shows "ramfs_ok t" "ram_files t = ram_files s" "ram_current_dir t = ram_current_dir s" "file_bytes t k = file_bytes s k"
  using ramfs_ok_kbd(1-3) [of s "t\<lparr>command_buffer := command_buffer s, command_pos := command_pos s, sh_cursor := sh_cursor s\<rparr>"]
    ramfs_ok_kbd(4) [of s "t\<lparr>command_buffer := command_buffer s, command_pos := command_pos s, sh_cursor := sh_cursor s\<rparr>" k] assms
  by (simp_all add: sh_same_def ramfs_ok_def file_bytes_def)

lemma more_shell:
  fixes s t :: "'a shell_scheme"
  assumes "vga.more t = vga.more s"
  shows "command_buffer t = command_buffer s" "command_pos t = command_pos s" "sh_cursor t = sh_cursor s"
    "sh_ok t = sh_ok s" "sh_line t = sh_line s" "sh_same s t"
proof -
  show f: "command_buffer t = command_buffer s" "command_pos t = command_pos s" "sh_cursor t = sh_cursor s" "sh_same s t"
    using assms unfolding sh_same_def by (cases s; cases t; simp)+
  show "sh_ok t = sh_ok s" "sh_line t = sh_line s" by (simp_all add: sh_ok_def sh_line_def f)
qed

lemma insert_frame:
  assumes "shell_insert c s = Some t"
  shows "t = s\<lparr>command_buffer := command_buffer t, command_pos := command_pos t, sh_cursor := sh_cursor t\<rparr>"
proof (cases "command_pos s < int SHELL_BUFFER_SIZE - 1")
  case True
  with assms obtain b where "t = s\<lparr>command_buffer := b, command_pos := command_pos s + 1, sh_cursor := sh_cursor s + 1\<rparr>"
    by (auto simp: shell_insert_def split: Option.bind_splits)
  then show ?thesis by simp
next
  case False
  with assms show ?thesis by (simp add: shell_insert_def)
qed

text \<open>A printable character typed at the end of a line that is still on its first screen row.\<close>

definition at_end :: "'a shell_scheme \<Rightarrow> bool" where
  "at_end s \<longleftrightarrow> kernel_ok s \<and> sh_ok s \<and> sh_cursor s = command_pos s"

lemma print_from_end:
  assumes "sh_ok s" "sh_line s = l @ [c]" "c \<noteq> 0"
  shows "print_from (int (length l)) s = Some (say [c] s)"
proof -
  have p: "command_pos s = int (Suc (length l))" using sh_line_length [OF assms(1)] assms(2) by simp
  then have b: "take (Suc (length l)) (command_buffer s) = l @ [c]" "Suc (length l) \<le> 255"
    "drop (Suc (length l)) (command_buffer s) = replicate (256 - Suc (length l)) 0" "length (command_buffer s) = 256"
    using assms(1,2) by (simp_all add: sh_line_def sh_ok_def nat_add_distrib)
  have "command_buffer s = (l @ [c]) @ replicate (256 - Suc (length l)) 0"
    using append_take_drop_id [of "Suc (length l)" "command_buffer s"] b(1,3) by simp
  moreover have "256 - Suc (length l) = Suc (255 - Suc (length l))" using b(2) by simp
  ultimately have "drop (length l) (command_buffer s) = [c] @ 0 # replicate (255 - Suc (length l)) 0" by simp
  then have "arr_str (drop (length l) (command_buffer s)) = Some [c]"
    using assms(3) by (simp only: arr_str_view) (simp add: cstr_of_def)
  then show ?thesis using b(2,4) by (simp add: print_from_def printf_say fmt)
qed

lemma type_char:
  assumes s: "at_end s" "command_pos s < 255" and c: "32 \<le> c" "c \<le> 126" and x: "g_ScreenX s < 79"
  shows "\<exists>t. shell_char m c s = Some t \<and> at_end t \<and> sh_line t = sh_line s @ [c] \<and> g_ScreenX t = g_ScreenX s + 1 \<and>
    sh_same s t \<and> ring_items t = ring_items s"
proof -
  have ok: "sh_ok s" "kernel_ok s" "sh_cursor s = command_pos s" using s(1) by (simp_all add: at_end_def)
  have n: "length (sh_line s) < 255" "nat (sh_cursor s) = length (sh_line s)"
    using sh_line_length [OF ok(1)] s(2) ok(3) by simp_all
  from shell_line.ins_room [OF ok(1) n(1), of c] obtain u where u: "shell_insert c s = Some u" "sh_ok u"
    "nat (sh_cursor u) = Suc (length (sh_line s))" "sh_line u = sh_line s @ [c]" using n(2) by auto
  note fu = insert_frame [OF u(1)]
  have cu: "sh_cursor u = int (length (sh_line s)) + 1" "command_pos u = int (length (sh_line s)) + 1"
    using u(2,3) sh_line_length [OF u(2)] u(4) by (simp_all add: sh_ok_def)
  have ku: "kernel_ok u" "ring_items u = ring_items s" "g_ScreenX u = g_ScreenX s" "sh_same s u"
    using ok(2) by (subst fu, simp add: sh_same_def)+
  have "c \<noteq> 0" using c(1) by auto
  note p = print_from_end [OF u(2,4) this]
  let ?t = "goto_x (g_ScreenX s + 1) (say [c] u)"
  have more: "vga.more ?t = vga.more u" by (simp add: goto_x_def)
  have on: "on_screen (say [c] u)" using ku(1) by (simp add: kernel_ok_def say_screen)
  have "g_ScreenX s + 1 < 80" using x by unat_arith
  then have "on_screen ?t" using on by (simp add: on_screen_def goto_x_def)
  note kt = kernel_ok_console [OF ku(1) more this]
  have "c \<noteq> 10 \<and> c \<noteq> 8 \<and> c \<noteq> 1 \<and> c \<noteq> 2 \<and> c \<noteq> 3 \<and> c \<noteq> 4" using c(1) by (auto simp: word_le_nat_alt)
  then have "shell_char m c s = Some ?t"
    using c s(2) u(1) p cu by (simp add: shell_char_def SHELL_BUFFER_SIZE_def ku(3) Let_def)
  then show ?thesis
    using kt u(2,4) cu ku(2) more_shell [OF more] sh_same_trans [OF ku(4) more_shell(6) [OF more]] more_ring [OF more]
    by (simp add: at_end_def goto_x_def)
qed

section \<open>A line and Enter\<close>

lemma kbd_upd:
  fixes s :: "'a ksys_scheme"
  assumes "kernel_ok s" "0 \<le> y" "y < 25" "0 \<le> x" "length l = 25" "\<forall>n \<in> set l. 0 \<le> n \<and> n < 80"
  shows "kernel_ok (s\<lparr>cursor_line := y, cursor_pos := x, total_lines_used := z, line_lengths := l\<rparr>)"
  using assms
  by (simp add: kernel_ok_def fs_ok_def tables_ok_def files_ok_def lits_ok_def backed_def is_default_def
      heap_ok_def heap_live_def heap_rel_def kbd_wf_def kbd_arrays_def ring_ok_def on_screen_def tables_set_def)

lemma cursor_range:
  assumes "on_screen s"
  shows "0 \<le> sint (VGA_get_cursor_y s) \<and> sint (VGA_get_cursor_y s) < 25" "0 \<le> sint (VGA_get_cursor_x s)"
proof -
  have "unat (g_ScreenY s) < 25" "unat (g_ScreenX s) < 80" using assms by (simp_all add: on_screen_def word_less_nat_alt)
  then show "0 \<le> sint (VGA_get_cursor_y s) \<and> sint (VGA_get_cursor_y s) < 25" "0 \<le> sint (VGA_get_cursor_x s)"
    using sint_small [of "g_ScreenY s"] sint_small [of "g_ScreenX s"]
    by (simp_all add: VGA_get_cursor_y_def VGA_get_cursor_x_def del: of_nat_unat)
qed

lemma print_prompt_ok:
  fixes s :: "'a ksys_scheme"
  assumes "kernel_ok s"
  shows "\<exists>t. shell_print_prompt s = Some t \<and> kernel_ok t \<and> kbd.more t = kbd.more s \<and> ring_items t = ring_items s \<and>
    shell_mode t = shell_mode s \<and> extended_key t = extended_key s \<and> vram t = vram (say (bytes SHELL_PROMPT) s)"
proof -
  let ?s = "say (bytes SHELL_PROMPT) s"
  have pr: "printf SHELL_PROMPT [] s = ?s" by (simp add: printf_say SHELL_PROMPT_def fmt)
  have ok: "kernel_ok ?s" using assms by (rule kernel_ok_say)
  note c = cursor_range [of ?s]
  have on: "on_screen ?s" using ok by (simp add: kernel_ok_def)
  define y where "y = nat (sint (VGA_get_cursor_y ?s))"
  have y: "sint (VGA_get_cursor_y ?s) = int y" "y < 25" using c(1) [OF on] by (auto simp: y_def nat_less_iff)
  have len: "length (line_lengths ?s) = 25" "\<forall>n \<in> set (line_lengths ?s). 0 \<le> n \<and> n < 80"
    using ok by (simp_all add: kernel_ok_def kbd_wf_def kbd_arrays_def)
  let ?l = "(line_lengths ?s)[y := 0]"
  have l: "length ?l = 25" "\<forall>n \<in> set ?l. 0 \<le> n \<and> n < 80"
    using len set_update_subset_insert [of "line_lengths ?s" y 0] by auto
  let ?x = "sint (VGA_get_cursor_x ?s)"
  let ?t = "?s\<lparr>cursor_line := int y, cursor_pos := ?x, total_lines_used := int y + 1, line_lengths := ?l\<rparr>"
  have "shell_print_prompt s = Some ?t" using y len by (simp add: shell_print_prompt_def pr Let_def)
  moreover have "kernel_ok ?t" by (rule kbd_upd [OF ok]) (use y c(2) [OF on] l in simp_all)
  moreover have "kbd.more ?t = kbd.more s" "shell_mode ?t = shell_mode s" "extended_key ?t = extended_key s"
    using more_fields [OF say_more [of "bytes SHELL_PROMPT" s]] by simp_all
  moreover have "ring_items ?t = ring_items s"
    using more_ring [OF say_more [of "bytes SHELL_PROMPT" s]] by (simp add: ring_items_def kb_count_def)
  ultimately show ?thesis by auto
qed

text \<open>The state after Enter has been handled and the prompt is to come back.\<close>

definition line_done :: "'a shell_scheme \<Rightarrow> 'a shell_scheme" where
  "line_done s = s\<lparr>command_buffer := replicate SHELL_BUFFER_SIZE 0, command_pos := 0, sh_cursor := 0\<rparr>"

lemma enter_runs:
  assumes "at_end s" "is_cstr (sh_line s)" "sh_line s \<noteq> []"
  shows "shell_enter m s = do {
    u \<leftarrow> shell_process_command m (sh_line s) (say [10] s);
    if halted u then Some u else shell_print_prompt (line_done u) }"
proof -
  have ok: "sh_ok s" using assms(1) by (simp add: at_end_def)
  let ?s = "say [10] s" and ?n = "length (sh_line s)"
  note m = more_shell [OF say_more [of "[10]" s]]
  have n: "command_pos s = int ?n" "?n \<le> 255" using sh_line_length [OF ok] ok by (simp_all add: sh_ok_def)
  have b: "command_buffer s = sh_line s @ replicate (256 - ?n) 0" "length (command_buffer s) = 256"
  proof -
    have "drop ?n (command_buffer s) = replicate (256 - ?n) 0" using ok by (auto simp: sh_ok_def sh_line_def min_def)
    moreover have "take ?n (command_buffer s) = sh_line s" using n(1) by (simp add: sh_line_def)
    ultimately show "command_buffer s = sh_line s @ replicate (256 - ?n) 0"
      using append_take_drop_id [of ?n "command_buffer s"] by simp
  qed (use ok in \<open>simp add: sh_ok_def\<close>)
  have "256 - ?n = Suc (255 - ?n)" using n(2) by simp
  then have b': "command_buffer s = sh_line s @ 0 # replicate (255 - ?n) 0" using b(1) by simp
  have "(command_buffer s)[?n := 0] = command_buffer s" by (subst (1 2) b') simp
  moreover have "cstr_of (command_buffer s) = sh_line s" by (subst b') (rule cstr_of_pad [OF assms(2)])
  moreover have "printf ''\<newline>'' [] s = ?s" by (simp add: printf_say fmt)
  moreover have "command_pos s > 0" using n assms(3) by simp
  moreover have upd: "?s\<lparr>command_buffer := command_buffer s\<rparr> = ?s" by (subst m(1) [symmetric]) simp
  ultimately show ?thesis using n b(2) m by (simp add: shell_enter_def line_done_def upd cong: if_cong)
qed

lemma pop_same:
  fixes s :: "'a shell_scheme"
  assumes "keyboard_buffer_pop s = (r, t)" "at_end s"
  shows "at_end t" "sh_line t = sh_line s" "command_pos t = command_pos s" "g_ScreenX t = g_ScreenX s" "sh_same s t"
proof -
  have e: "t = s \<or> t = s\<lparr>kb_tail := (kb_tail s + 1) mod KEYBOARD_BUFFER_SIZE\<rparr>"
    using assms(1) by (auto simp: keyboard_buffer_pop_def split: if_splits)
  show "sh_line t = sh_line s" "command_pos t = command_pos s" "g_ScreenX t = g_ScreenX s" "sh_same s t"
    using e by (auto simp: sh_line_def sh_same_def)
  show "at_end t" using e assms(2) pop_frame(2) [OF assms(1)] by (auto simp: at_end_def sh_ok_def)
qed

lemma at_end_ring: "at_end s \<Longrightarrow> ring_ok s"
  by (simp add: at_end_def kernel_ok_def kbd_wf_def)

lemma same_halted: "sh_same s t \<Longrightarrow> halted t = halted s" for s t :: "'a shell_scheme"
  unfolding sh_same_def by (cases s; cases t; simp)

lemma at_end_running: "at_end s \<Longrightarrow> \<not> halted s"
  by (simp add: at_end_def kernel_ok_def tables_set_def)

text \<open>The characters of a line, one after the other.\<close>

definition printable :: "u8 \<Rightarrow> bool" where "printable c \<longleftrightarrow> 32 \<le> c \<and> c \<le> 126"

lemma printable_cstr: "list_all printable w \<Longrightarrow> is_cstr w"
  by (auto simp: is_cstr_def list_all_iff printable_def)

lemma run_types:
  "at_end s \<Longrightarrow> ring_items s = w @ rest \<Longrightarrow> list_all printable w \<Longrightarrow> unat (g_ScreenX s) + length w < 80 \<Longrightarrow>
    length (sh_line s) + length w \<le> 255 \<Longrightarrow>
    \<exists>t. shell_run m s = shell_run m t \<and> at_end t \<and> sh_line t = sh_line s @ w \<and> ring_items t = rest \<and> sh_same s t"
proof (induction w arbitrary: s)
  case Nil
  then show ?case by auto
next
  case (Cons c w)
  from ring.pop_Cons [OF at_end_ring [OF Cons.prems(1)], of c "w @ rest"] Cons.prems(2) obtain s1
    where s1: "keyboard_buffer_pop s = (Some c, s1)" "ring_items s1 = w @ rest" by auto
  note p = pop_same [OF s1(1) Cons.prems(1)]
  have pos: "command_pos s1 < 255"
    using Cons.prems(1,5) sh_line_length [of s] p(3) by (simp add: at_end_def)
  have c: "32 \<le> c" "c \<le> 126" using Cons.prems(3) by (simp_all add: printable_def)
  have x: "unat (g_ScreenX s1) < 79" using Cons.prems(4) p(4) by simp
  then have "g_ScreenX s1 < 79" by (simp add: word_less_nat_alt)
  from type_char [OF p(1) pos c this, of m] obtain s2 where s2: "shell_char m c s1 = Some s2" "at_end s2"
    "sh_line s2 = sh_line s @ [c]" "g_ScreenX s2 = g_ScreenX s + 1" "sh_same s1 s2" "ring_items s2 = w @ rest"
    using p(2,4) s1(2) by auto
  have "unat (g_ScreenX s2) = unat (g_ScreenX s) + 1" unfolding s2(4) using x p(4) by (simp add: unat_word_ariths)
  then have "\<exists>t. shell_run m s2 = shell_run m t \<and> at_end t \<and> sh_line t = sh_line s2 @ w \<and> ring_items t = rest \<and> sh_same s2 t"
    using Cons.prems(3-5) s2(3) by (intro Cons.IH [OF s2(2,6)]) simp_all
  moreover have "shell_run m s = shell_run m s2"
    using s1(1) s2(1) at_end_running [OF s2(2)] by (subst shell_run.simps) simp
  moreover have "sh_same s s2" by (rule sh_same_trans [OF p(5) s2(5)])
  ultimately show ?case using s2(3) by (auto intro: sh_same_trans)
qed

text \<open>A whole line in the ring buffer: its command runs, then the prompt comes back.\<close>

definition after_line :: "machine \<Rightarrow> 'a shell_scheme \<Rightarrow> 'a shell_scheme option" where
  "after_line m u = (if halted u then Some u else do { v \<leftarrow> shell_print_prompt (line_done u); shell_run m v })"

lemma print_prompt_halted: "shell_print_prompt s = Some t \<Longrightarrow> halted t = halted s" for s :: "'a kirq_scheme"
  by (auto simp: shell_print_prompt_def Let_def split: Option.bind_splits)

lemma run_line:
  assumes s: "at_end s" "sh_line s = []" "ring_items s = w @ 10 # rest"
    and w: "w \<noteq> []" "list_all printable w" "unat (g_ScreenX s) + length w < 80"
  shows "\<exists>t. shell_run m s = do { u \<leftarrow> shell_process_command m w t; after_line m u } \<and>
    kernel_ok t \<and> sh_same s t \<and> ring_items t = rest"
proof -
  from run_types [OF s(1,3) w(2,3), of m] s(2) w(3) obtain t where t: "shell_run m s = shell_run m t" "at_end t"
    "sh_line t = w" "ring_items t = 10 # rest" "sh_same s t" by auto
  from ring.pop_Cons [OF at_end_ring [OF t(2)] t(4)] obtain t1
    where t1: "keyboard_buffer_pop t = (Some 10, t1)" "ring_items t1 = rest" by auto
  note p = pop_same [OF t1(1) t(2)]
  have "is_cstr w" using w(2) by (rule printable_cstr)
  note e = enter_runs [OF p(1), unfolded p(2) t(3), OF this w(1), of m]
  let ?t = "say [10] t1"
  have "shell_run m t = do { u \<leftarrow> shell_process_command m w ?t; after_line m u }"
  proof (cases "shell_process_command m w ?t")
    case None
    then show ?thesis using t1(1) e by (subst shell_run.simps) (simp add: shell_char_def)
  next
    case (Some u)
    show ?thesis
    proof (cases "halted u")
      case True
      then show ?thesis using t1(1) e Some by (subst shell_run.simps) (simp add: shell_char_def after_line_def)
    next
      case False
      then have h: "\<not> halted (line_done u)" by (simp add: line_done_def)
      show ?thesis
      proof (cases "shell_print_prompt (line_done u)")
        case None
        then show ?thesis using t1(1) e Some False by (subst shell_run.simps) (simp add: shell_char_def after_line_def)
      next
        case v: (Some v)
        then show ?thesis using t1(1) e Some False print_prompt_halted [OF v] h
          by (subst shell_run.simps) (simp add: shell_char_def after_line_def)
      qed
    qed
  qed
  moreover have "kernel_ok ?t" using p(1) by (simp add: at_end_def kernel_ok_say)
  moreover have "ring_items ?t = rest" using more_ring [OF say_more [of "[10]" t1]] t1(2) by simp
  moreover have "sh_same s ?t" using sh_same_trans [OF t(5) sh_same_trans [OF p(5) more_shell(6) [OF say_more]]] .
  ultimately show ?thesis using t(1) by auto
qed

section \<open>Finding and running a command\<close>

lemma find_key: "distinct (map f xs) \<Longrightarrow> e \<in> set xs \<Longrightarrow> find (\<lambda>c. f c = f e) xs = Some e"
  by (induction xs) (auto simp: rev_image_eqI)

lemma command_names:
  "distinct (map sc_name shell_commands)" "list_all (\<lambda>e. is_cstr (bytes (sc_name e))) shell_commands"
  by (simp_all add: shell_commands_def entry_def bytes_def)

lemma of_char_byte_inj: "(of_char a :: u8) = of_char b \<longleftrightarrow> a = b"
proof
  assume "(of_char a :: u8) = of_char b"
  then have "(of_nat (of_char a) :: u8) = of_nat (of_char b)" by (simp only: of_nat_of_char)
  then have "of_char a mod (256 :: nat) = of_char b mod 256" by (simp add: word_unat_eq_iff unat_of_nat)
  then show "a = b" by simp
qed simp

lemma bytes_inj: "bytes a = bytes b \<longleftrightarrow> a = b"
proof -
  have "inj (of_char :: char \<Rightarrow> u8)" by (rule injI) (simp add: of_char_byte_inj)
  then show ?thesis by (simp add: bytes_def inj_map_eq_map)
qed

lemma find_command_eq:
  "is_cstr name \<Longrightarrow> find_shell_command name = find (\<lambda>c. bytes (sc_name c) = name) shell_commands"
  unfolding find_shell_command_def
  by (rule find_cong [OF refl]) (use command_names(2) in \<open>simp add: list_all_iff shell_strcmp_eq_0\<close>)

lemma find_command:
  assumes "e \<in> set shell_commands"
  shows "find_shell_command (bytes (sc_name e)) = Some e"
  using find_command_eq [of "bytes (sc_name e)"] command_names assms find_key [OF command_names(1) assms]
  by (simp add: bytes_inj list_all_iff)

lemma find_command_None:
  assumes "is_cstr name"
  shows "find_shell_command name = None \<longleftrightarrow> (\<forall>e \<in> set shell_commands. bytes (sc_name e) \<noteq> name)"
  by (auto simp: find_command_eq [OF assms] find_None_iff)

lemma process_words:
  assumes "is_cstr input" "length input \<le> 255" "length (words_by gap input) < 15" "e \<in> set shell_commands"
    "words_by gap input = bytes (sc_name e) # args"
  shows "shell_process_command m input s = do {
     (r, s) \<leftarrow> run_command (sc_function e) m (bytes (sc_name e) # args) s;
     Some (if \<not> halted s \<and> r \<noteq> 0
       then printf ''Command '%s' returned error code %d\<newline>'' [VS (bytes (sc_name e)), VI (of_int r)] s else s) }"
proof -
  have "shell_parse_command input = bytes (sc_name e) # args"
    using parse_command_ok [OF assms(1)] split_args_words [OF assms(3)] assms(2,5) by simp
  then show ?thesis using find_command [OF assms(4)] by (simp add: shell_process_command_def Let_def cong: if_cong)
qed

lemma process_unknown:
  assumes "is_cstr input" "length input \<le> 255" "length (words_by gap input) < 15" "words_by gap input = w # args"
    "\<forall>e \<in> set shell_commands. bytes (sc_name e) \<noteq> w"
  shows "shell_process_command m input s =
    Some (say (expand (bytes ''Unknown command: %s\<newline>'') [VS w] @
      bytes ''Type 'help' for a list of available commands.\<newline>'') s)"
proof -
  have p: "shell_parse_command input = w # args"
    using parse_command_ok [OF assms(1)] split_args_words [OF assms(3)] assms(2,4) by simp
  have "set w \<subseteq> set input" if "words_by gap xs = w # args" "set xs \<subseteq> set input" for xs
    using that by (induction xs rule: words_induct [where sep = gap]) (auto dest!: set_takeWhileD)
  then have "is_cstr w" using assms(1,4) by (auto simp: is_cstr_def)
  then have "find_shell_command w = None" using assms(5) by (simp add: find_command_None)
  then show ?thesis using p by (simp add: shell_process_command_def printf_say fmt)
qed

lemma process_blank:
  assumes "is_cstr input" "length input \<le> 255" "words_by gap input = []"
  shows "shell_process_command m input s = Some s"
  using parse_command_ok [OF assms(1)] split_args_words [of input 15] assms by (simp add: shell_process_command_def)

section \<open>Typing a command\<close>

text \<open>A word and its argument on the command line.\<close>

lemma two_words:
  assumes "\<forall>c \<in> set a. \<not> gap c" "a \<noteq> []" "\<forall>c \<in> set b. \<not> gap c" "b \<noteq> []"
  shows "words_by gap (a @ 32 # b) = [a, b]"
proof -
  have "gap 32" by (simp add: gap_def)
  then show ?thesis
    using words_by_append_word [OF assms(1,2), of "32 # b"] words_by_append_word [OF assms(3,4), of "[]"] by simp
qed

lemma typed_argument:
  assumes s: "at_end s" "sh_line s = []" "ring_items s = bytes (sc_name e) @ 32 # arg @ 10 # rest"
    and e: "e \<in> set shell_commands"
    and arg: "arg \<noteq> []" "list_all (\<lambda>c. printable c \<and> c \<noteq> 32) arg"
      "unat (g_ScreenX s) + length (sc_name e) + 1 + length arg < 80"
  shows "\<exists>t. shell_run m s = do {
      (r, u) \<leftarrow> run_command (sc_function e) m [bytes (sc_name e), arg] t;
      after_line m (if \<not> halted u \<and> r \<noteq> 0
        then printf ''Command '%s' returned error code %d\<newline>'' [VS (bytes (sc_name e)), VI (of_int r)] u else u) } \<and>
    kernel_ok t \<and> sh_same s t \<and> ring_items t = rest"
proof -
  let ?n = "bytes (sc_name e)" and ?w = "bytes (sc_name e) @ 32 # arg"
  have "list_all (\<lambda>e. sc_name e \<noteq> [] \<and> list_all (\<lambda>c. printable c \<and> c \<noteq> 32) (bytes (sc_name e))) shell_commands"
    by (simp add: shell_commands_def entry_def bytes_def printable_def)
  with e have n: "?n \<noteq> []" "list_all (\<lambda>c. printable c \<and> c \<noteq> 32) ?n" by (auto simp: list_all_iff bytes_def)
  have gap: "\<not> gap c" if "printable c" "c \<noteq> 32" for c
    using that by (auto simp: gap_def printable_def word_le_nat_alt)
  have w: "words_by gap ?w = [?n, arg]" by (rule two_words) (use n arg gap in \<open>auto simp: list_all_iff\<close>)
  have p: "list_all printable ?w" using n(2) arg(2) by (auto simp: list_all_iff printable_def)
  have len: "unat (g_ScreenX s) + length ?w < 80" using arg(3) by (simp add: bytes_def)
  from run_line [of s ?w rest m] s p len obtain t where
    t: "shell_run m s = do { u \<leftarrow> shell_process_command m ?w t; after_line m u }" "kernel_ok t" "sh_same s t" "ring_items t = rest"
    by auto
  have c: "is_cstr ?w" using p by (rule printable_cstr)
  have l: "length ?w \<le> 255" "length (words_by gap ?w) < 15" using len w by simp_all
  note pw = process_words [OF c l e w, of m t]
  show ?thesis using t unfolding pw by (intro exI [of _ t]) (cases "run_command (sc_function e) m [?n, arg] t", auto)
qed

text \<open>\<open>mkdir\<close> leaves the keys that wait in the ring.\<close>

lemma kbd_part_rfile:
  fixes s :: "'a ram_fs_scheme"
  shows "kbd_part (set_rfile i f s) = kbd_part s" "kbd_part (s\<lparr>ram_file_count := n\<rparr>) = kbd_part s"
  by (simp_all add: kbd_part_def set_rfile_def)

lemma kbd_part_say: "kbd_part (say t s) = kbd_part (s :: 'a kbd_scheme)"
  using more_fields [OF say_more [of t s]] by (simp add: kbd_part_def)

lemma create_dir_keys:
  fixes s :: "'a ram_fs_scheme"
  assumes "kernel_ok s" "ram_initialized s \<noteq> 0" "ramfs_create e name 1 s = Some (r, s')"
  shows "kbd_part s' = kbd_part s"
proof -
  have time: "kbd_part t' = kbd_part t" if "syscall_time e t = Some (x, t')" "kernel_ok t" for t t' :: "'a ram_fs_scheme" and x
    using utime_call [OF that(2), of e] that(1) by (auto simp: client_frame_def syscall_frame_def)
  show ?thesis using assms
    by (auto simp: ramfs_create_def create_data_def kbd_part_rfile dest!: time split: option.splits Option.bind_splits)
qed

lemma mkdir_keys:
  fixes s :: "'a ram_fs_scheme"
  assumes "ramfs_ok s" "cmd_mkdir m argv s = Some (r, s')"
  shows "kbd_part s' = kbd_part s"
proof -
  have k: "kernel_ok s" "ram_initialized s \<noteq> 0" using assms(1) by (simp_all add: ramfs_ok_def)
  show ?thesis using assms(2) k create_dir_keys [OF k, of "m_env m" "argv ! 1"]
    by (auto simp: cmd_mkdir_def ensure_init_def printf_say kbd_part_say split: Option.bind_splits if_splits)
qed

text \<open>The prompt after a command.\<close>

lemma prompt_back:
  fixes u :: "'a shell_scheme"
  assumes "ramfs_ok u"
  shows "\<exists>v. after_line m u = shell_run m v \<and> shell_print_prompt (line_done u) = Some v \<and> at_end v \<and> sh_line v = [] \<and>
    ring_items v = ring_items u \<and> sh_same u v \<and> (ring_items u = [] \<longrightarrow> shell_run m v = Some v)"
proof -
  have k: "kernel_ok u" "kernel_ok (line_done u)" using assms by (simp_all add: ramfs_ok_def line_done_def)
  from print_prompt_ok [OF k(2)] obtain v where v: "shell_print_prompt (line_done u) = Some v" "kernel_ok v"
    "kbd.more v = kbd.more (line_done u)" "ring_items v = ring_items (line_done u)" by blast
  have f: "command_buffer v = replicate SHELL_BUFFER_SIZE 0" "command_pos v = 0" "sh_cursor v = 0" "sh_same u v"
    using v(3) unfolding sh_same_def by (cases u; cases v; simp add: line_done_def)+
  have e: "at_end v" "sh_line v = []" using v(2) f by (simp_all add: at_end_def sh_ok_def sh_line_def SHELL_BUFFER_SIZE_def)
  have ring: "ring_items v = ring_items u" using v(4) by (simp add: line_done_def)
  have "shell_run m v = Some v" if "ring_items u = []"
    using ring.pop_Nil [OF at_end_ring [OF e(1)]] ring that by (subst shell_run.simps) simp
  moreover have "\<not> halted u" using k(1) by (simp add: kernel_ok_def tables_set_def)
  ultimately show ?thesis using v(1) e f(4) ring by (auto simp: after_line_def)
qed

lemma typed_mkdir:
  assumes s: "at_end s" "sh_line s = []" "ramfs_ok s" "ring_items s = bytes ''mkdir '' @ name @ 10 # rest"
    and name: "name \<noteq> []" "list_all (\<lambda>c. printable c \<and> c \<noteq> 32) name" "unat (g_ScreenX s) + 6 + length name < 80"
    and new: "ramfs_find_file name (ram_current_dir s) s = None" "ramfs_find_free_slot s = Some k"
  shows "\<exists>u v. shell_print_prompt (line_done u) = Some v \<and> shell_run m s = shell_run m v \<and>
    (rest = [] \<longrightarrow> shell_run m s = Some v) \<and> at_end v \<and> sh_line v = [] \<and> ring_items v = rest \<and>
    ramfs_ok v \<and> others_same k s v \<and> new_entry name 1 (ram_current_dir s) (ram_files v ! k)"
proof -
  let ?e = "entry ''mkdir'' ''Create directory'' CMD_mkdir"
  have e: "?e \<in> set shell_commands" "sc_name ?e = ''mkdir''" "sc_function ?e = CMD_mkdir"
    by (simp_all add: shell_commands_def entry_def)
  have "bytes ''mkdir '' @ name @ 10 # rest = bytes (sc_name ?e) @ 32 # name @ 10 # rest" by (simp add: e bytes_def)
  with s(4) have ring: "ring_items s = bytes (sc_name ?e) @ 32 # name @ 10 # rest" by simp
  have len: "unat (g_ScreenX s) + length (sc_name ?e) + 1 + length name < 80" using name(3) by (simp add: e)
  from typed_argument [OF s(1,2) ring e(1) name(1,2) len, of m] obtain t where t: "shell_run m s = do {
      (r, u) \<leftarrow> cmd_mkdir m [bytes ''mkdir'', name] t;
      after_line m (if \<not> halted u \<and> r \<noteq> 0
        then printf ''Command '%s' returned error code %d\<newline>'' [VS (bytes ''mkdir''), VI (of_int r)] u else u) }"
    "kernel_ok t" "sh_same s t" "ring_items t = rest" unfolding e(2,3) run_command_def command.case by blast
  note r = sh_same_ramfs [OF t(3) s(3) t(2)]
  have c: "is_cstr name" using name(2) by (auto simp: is_cstr_def list_all_iff printable_def)
  have f: "ramfs_find_file name (ram_current_dir t) t = None" "ramfs_find_free_slot t = Some k"
    using new find_file_cong [OF r(2)] r(2,3) by (simp_all add: ramfs_find_free_slot_def)
  from cmd_mkdir_ok [OF r(1), of "[bytes ''mkdir'', name]" m] c f obtain u where u: "cmd_mkdir m [bytes ''mkdir'', name] t = Some (0, u)"
    "ramfs_ok u" "others_same k t u" "new_entry name 1 (ram_current_dir t) (ram_files u ! k)" by auto
  have keys: "ring_items u = rest"
    using mkdir_keys [OF r(1) u(1)] t(4) by (simp add: kbd_part_def ring_items_def kb_count_def)
  from prompt_back [OF u(2), of m] obtain v where v: "after_line m u = shell_run m v" "shell_print_prompt (line_done u) = Some v"
    "at_end v" "sh_line v = []" "ring_items v = rest" "sh_same u v" "rest = [] \<longrightarrow> shell_run m v = Some v" unfolding keys by blast
  have "kernel_ok v" using v(3) by (simp add: at_end_def)
  note q = sh_same_ramfs [OF v(6) u(2) this]
  have "others_same k s v" using u(3) r q by (simp add: others_same_def)
  moreover have "shell_run m s = shell_run m v" using t(1) u(1) v(1) by simp
  ultimately show ?thesis using v q u(4) r(3) by (intro exI [of _ u] exI [of _ v]) simp
qed

section \<open>File commands keep the file system well formed\<close>

definition file_commands :: "command list" where
  "file_commands = [CMD_ls, CMD_cd, CMD_pwd, CMD_mkdir, CMD_rm, CMD_cat, CMD_touch, CMD_find, CMD_grep, CMD_wc]"

lemma pwd_keeps: "ramfs_ok s \<Longrightarrow> cmd_pwd m argv s = Some (r, s') \<Longrightarrow> ramfs_ok s'"
  by (auto simp: cmd_pwd_def wf_intros split: Option.bind_splits)

lemma say_keeps: "ramfs_ok s \<Longrightarrow> s' = say t s \<Longrightarrow> ramfs_ok s'"
  by (simp add: ramfs_ok_say)

lemma readers_keep:
  assumes "ramfs_ok s" "\<forall>a \<in> set argv. is_cstr a"
  shows "cmd_cat m argv s = Some (r, s') \<Longrightarrow> ramfs_ok s'" "cmd_wc m argv s = Some (r, s') \<Longrightarrow> ramfs_ok s'"
    "cmd_grep m argv s = Some (r, s') \<Longrightarrow> ramfs_ok s'" "cmd_find m argv s = Some (r, s') \<Longrightarrow> ramfs_ok s'"
proof -
  note ok = assms(1)
  show "ramfs_ok s'" if "cmd_cat m argv s = Some (r, s')"
  proof (cases "length argv < 2")
    case False
    then have "is_cstr (argv ! 1)" using assms(2) by simp
    with cmd_cat_ok [OF ok _ this, of m] False that ok show ?thesis
      by (cases "text_file (argv ! 1) s") (auto simp: wf_intros)
  qed (use that ok in \<open>auto simp: cmd_cat_def wf_intros\<close>)
  show "ramfs_ok s'" if "cmd_wc m argv s = Some (r, s')"
  proof (cases "length argv < 2")
    case False
    then have "is_cstr (argv ! 1)" using assms(2) by simp
    with cmd_wc_ok [OF ok _ this, of m] False that ok show ?thesis
      by (cases "text_file (argv ! 1) s") (auto simp: wf_intros)
  qed (use that ok in \<open>auto simp: cmd_wc_def wf_intros\<close>)
  show "ramfs_ok s'" if "cmd_grep m argv s = Some (r, s')"
  proof (cases "length argv < 3")
    case False
    then have "is_cstr (argv ! 2)" using assms(2) by simp
    with cmd_grep_ok [OF ok _ this, of m] False that ok show ?thesis
      by (cases "text_file (argv ! 2) s") (auto simp: wf_intros Let_def)
  qed (use that ok in \<open>auto simp: cmd_grep_def wf_intros\<close>)
  show "ramfs_ok s'" if "cmd_find m argv s = Some (r, s')"
  proof (cases "length argv < 2")
    case False
    with cmd_find_ok [OF ok, of argv m] that ok show ?thesis by (auto simp: wf_intros Let_def)
  qed (use that ok in \<open>auto simp: cmd_find_def wf_intros\<close>)
qed

lemma writers_keep:
  assumes "ramfs_ok s" "\<forall>a \<in> set argv. is_cstr a"
  shows "cmd_mkdir m argv s = Some (r, s') \<Longrightarrow> ramfs_ok s'" "cmd_rm m argv s = Some (r, s') \<Longrightarrow> ramfs_ok s'"
    "cmd_touch m argv s = Some (r, s') \<Longrightarrow> ramfs_ok s'" "cmd_cd m argv s = Some (r, s') \<Longrightarrow> ramfs_ok s'"
proof -
  note ok = assms(1)
  have arg: "is_cstr (argv ! 1)" if "\<not> length argv < 2" using assms(2) that by simp
  show "ramfs_ok s'" if "cmd_mkdir m argv s = Some (r, s')"
    using cmd_mkdir_ok [OF ok _ arg, of m] that ok by (cases "length argv < 2") (auto simp: cmd_mkdir_def wf_intros)
  show "ramfs_ok s'" if "cmd_rm m argv s = Some (r, s')"
    using cmd_rm_ok [OF ok _ arg, of m] that ok by (cases "length argv < 2") (auto simp: cmd_rm_def wf_intros)
  show "ramfs_ok s'" if "cmd_touch m argv s = Some (r, s')"
    using cmd_touch_ok [OF ok _ arg, of m] that ok by (cases "length argv < 2") (auto simp: cmd_touch_def wf_intros)
  show "ramfs_ok s'" if "cmd_cd m argv s = Some (r, s')"
    using cmd_cd_ok [OF ok _ arg, of m] that ok by (cases "length argv < 2") (auto simp: cmd_cd_def wf_intros split: Option.bind_splits)
qed

lemma file_command_keeps:
  assumes "c \<in> set file_commands" "ramfs_ok s" "\<forall>a \<in> set argv. is_cstr a" "run_command c m argv s = Some (r, s')"
  shows "ramfs_ok s'"
  using assms(1,4) readers_keep [OF assms(2,3)] writers_keep [OF assms(2,3)] pwd_keeps [OF assms(2)] cmd_ls_keeps [OF assms(2)]
  by (auto simp: file_commands_def run_command_def)

text \<open>The arguments of a command are at most fifteen proper strings, none of them empty.\<close>

lemma split_args_type:
  "is_cstr xs \<Longrightarrow> length (split_args n xs) \<le> n \<and> (\<forall>a \<in> set (split_args n xs). a \<noteq> [] \<and> is_cstr a \<and> length a \<le> length xs)"
proof (induction n arbitrary: xs)
  case (Suc n)
  let ?w = "dropWhile gap xs"
  have len: "length ?w \<le> length xs" "length (takeWhile (\<lambda>c. \<not> gap c) ?w) \<le> length ?w"
    "length (dropWhile (\<lambda>c. \<not> gap c) ?w) \<le> length ?w"
    by (rule length_dropWhile_le length_takeWhile_le)+
  have w: "is_cstr ?w" using Suc.prems by (auto simp: is_cstr_def dest: set_dropWhileD)
  then have d: "is_cstr (dropWhile (\<lambda>c. \<not> gap c) ?w)" "is_cstr (takeWhile (\<lambda>c. \<not> gap c) ?w)"
    by (auto simp: is_cstr_def dest: set_dropWhileD set_takeWhileD)
  have ne: "?w \<noteq> [] \<Longrightarrow> takeWhile (\<lambda>c. \<not> gap c) ?w \<noteq> []" using hd_dropWhile [of gap xs] by (cases ?w) auto
  show ?case
  proof (cases "?w = [] \<or> n = 0")
    case True
    then show ?thesis using w len by (auto simp: Let_def)
  next
    case False
    let ?a = "takeWhile (\<lambda>c. \<not> gap c) ?w" and ?r = "split_args n (dropWhile (\<lambda>c. \<not> gap c) ?w)"
    have e: "split_args (Suc n) xs = ?a # ?r" using False by (simp add: Let_def)
    have "\<forall>a \<in> set ?r. a \<noteq> [] \<and> is_cstr a \<and> length a \<le> length xs" using Suc.IH [OF d(1)] len by force
    moreover have "?a \<noteq> [] \<and> is_cstr ?a \<and> length ?a \<le> length xs" using d(2) ne len False by simp
    ultimately show ?thesis unfolding e using Suc.IH [OF d(1)] by simp
  qed
qed simp

end
