(* ===== verification/BootOk.thy ===== *)
theory BootOk
  imports BootIrq ShellOk
begin

text \<open>
  Booting.  From the zeroed image, \<open>start\<close> brings up every subsystem without leaving an array or a
  table, whatever interrupts arrive meanwhile, establishes the kernel's invariant, ends at an empty
  prompt, and leaves in the message log the first twenty of the messages it writes.
\<close>

section \<open>What the device code leaves alone\<close>

definition dev_frame :: "'a kirq_scheme \<Rightarrow> 'a kirq_scheme \<Rightarrow> bool" where
  "dev_frame s s' \<longleftrightarrow> kbd_part s' = kbd_part s \<and> mem s' = mem s \<and> heap_start s' = heap_start s \<and>
     heap_initialized s' = heap_initialized s \<and> halted s' = halted s \<and> kirq.more s' = kirq.more s \<and>
     (on_screen s \<longrightarrow> on_screen s') \<and> length (g_ISRHandlers s') = length (g_ISRHandlers s) \<and>
     length (g_IDT s') = length (g_IDT s) \<and> length (g_IRQHandlers s') = length (g_IRQHandlers s)"

lemma dev_refl: "dev_frame s s"
  by (simp add: dev_frame_def)

lemma dev_trans: "dev_frame s s1 \<Longrightarrow> dev_frame s1 s2 \<Longrightarrow> dev_frame s s2"
  by (simp add: dev_frame_def)

lemma dev_more:
  fixes s s' :: "'a kirq_scheme"
  assumes "vga.more s' = vga.more s" "on_screen s \<Longrightarrow> on_screen s'"
  shows "dev_frame s s'"
  using assms more_fields [OF assms(1)] more_kirq [OF assms(1)] more_kheap [OF assms(1)]
  by (simp add: dev_frame_def kbd_part_def)

lemma dev_logf: "dev_frame s (logf md l fmt args s)"
  by (rule dev_more) (simp_all add: wf_intros)

lemma dev_outb: "dev_frame s (i686_outb p v s)" "dev_frame s (outb_wait p v s)"
  by (rule dev_more; simp add: outb_wait_def i686_iowait_def i686_outb_def on_screen_def)+

lemma dev_SetMask: "dev_frame s (i8259_SetMask k s)"
proof -
  have "dev_frame s (s\<lparr>g_PicMask := k\<rparr>)" by (simp add: dev_frame_def kbd_part_def on_screen_def)
  then show ?thesis unfolding i8259_SetMask_def Let_def by (rule dev_trans [OF dev_trans]) (rule dev_outb)+
qed

lemma dev_Configure: "dev_frame s (i8259_Configure o1 o2 b s)"
  unfolding i8259_Configure_def Let_def
  by (rule dev_trans [OF _ dev_SetMask], (rule dev_trans [OF _ dev_outb(2)])+, rule dev_SetMask)

lemma dev_foldM:
  assumes "\<And>x s s'. f x s = Some s' \<Longrightarrow> dev_frame s s'"
  shows "foldM f xs s = Some s' \<Longrightarrow> dev_frame s s'"
proof (induction xs arbitrary: s)
  case (Cons x xs)
  then obtain s1 where "f x s = Some s1" "foldM f xs s1 = Some s'" by (auto split: Option.bind_splits)
  with assms Cons.IH dev_trans show ?case by blast
qed (simp add: dev_refl)

lemma dev_gates:
  "i686_IDT_SetGate i b sg fl s = Some s' \<Longrightarrow> dev_frame s s'" "i686_IDT_EnableGate i s = Some s' \<Longrightarrow> dev_frame s s'"
  "i686_IDT_DisableGate i s = Some s' \<Longrightarrow> dev_frame s s'" "i686_ISR_RegisterHandler i h s = Some s' \<Longrightarrow> dev_frame s s'"
  "i686_IRQ_RegisterHandler i q s = Some s' \<Longrightarrow> dev_frame s s'"
  by (auto simp: i686_IDT_SetGate_def i686_IDT_EnableGate_def i686_IDT_DisableGate_def i686_ISR_RegisterHandler_def
      i686_IRQ_RegisterHandler_def dev_frame_def kbd_part_def on_screen_def arr_set_def arr_get_def
      split: Option.bind_splits if_splits)

lemma dev_ISR_Initialize:
  assumes "i686_ISR_Initialize addr s = Some s'"
  shows "dev_frame s s'"
proof -
  from assms obtain s1 s2 where s: "i686_ISR_InitializeGates addr s = Some s1" "foldM i686_IDT_EnableGate [0..255] s1 = Some s2"
    "i686_IDT_DisableGate 0x80 s2 = Some s'" by (auto simp: i686_ISR_Initialize_def split: Option.bind_splits)
  have "dev_frame s s1" using s(1) unfolding i686_ISR_InitializeGates_def by (rule dev_foldM [rotated]) (erule dev_gates(1))
  moreover have "dev_frame s1 s2" using s(2) by (rule dev_foldM [rotated]) (erule dev_gates(2))
  ultimately show ?thesis using dev_gates(3) [OF s(3)] by (blast intro: dev_trans)
qed

lemma foldM_frame:
  assumes "\<And>x s s'. f x s = Some s' \<Longrightarrow> g s' = g s"
  shows "foldM f xs s = Some s' \<Longrightarrow> g s' = g s"
proof (induction xs arbitrary: s)
  case (Cons x xs)
  then obtain s1 where "f x s = Some s1" "foldM f xs s1 = Some s'" by (auto split: Option.bind_splits)
  with assms Cons.IH show ?case by metis
qed simp

lemma RegisterHandler_keeps: "i686_ISR_RegisterHandler i h s = Some s' \<Longrightarrow> g_IRQHandlers s' = g_IRQHandlers s"
  by (auto simp: i686_ISR_RegisterHandler_def i686_IDT_EnableGate_def split: Option.bind_splits)

lemma SetMask_keeps [simp]: "g_IRQHandlers (i8259_SetMask k s) = g_IRQHandlers s"
  by (simp add: i8259_SetMask_def Let_def more_kirq [OF outb_wait_ports(2)])

lemma Configure_keeps [simp]: "g_IRQHandlers (i8259_Configure o1 o2 b s) = g_IRQHandlers s"
  by (simp add: i8259_Configure_def Let_def more_kirq [OF outb_wait_ports(2)])

lemma dev_IRQ_Initialize:
  assumes "i686_IRQ_Initialize inb s = Some s'"
  shows "dev_frame s s'" "g_IRQHandlers s' = g_IRQHandlers s"
proof -
  define s1 where "s1 = snd (i8259_Probe inb s)"
  define s2 where "s2 = (if fst (i8259_Probe inb s) then s1\<lparr>g_Driver := True\<rparr> else s1)"
  have "dev_frame s s1" unfolding s1_def i8259_Probe_def i8259_Disable_def Let_def snd_conv
    by (rule dev_trans [OF dev_SetMask dev_SetMask])
  moreover have "dev_frame s1 s2" by (simp add: s2_def dev_frame_def kbd_part_def on_screen_def)
  ultimately have f: "dev_frame s s2" by (rule dev_trans)
  have k: "g_IRQHandlers s2 = g_IRQHandlers s" by (simp add: s2_def s1_def i8259_Probe_def i8259_Disable_def Let_def)
  have run: "Some s' = (if \<not> g_Driver s2 then Some (logf ''PIC'' LVL_WARN ''No PIC found!'' [] s2) else do {
      s5 \<leftarrow> foldM (\<lambda>i. i686_ISR_RegisterHandler (PIC_REMAP_OFFSET + i) ISR_irq) [0..15]
        (i8259_Configure (of_int PIC_REMAP_OFFSET) (of_int (PIC_REMAP_OFFSET + 8)) False
          (logf ''PIC'' LVL_INFO ''Found %s PIC.'' [VS (bytes ''8259 PIC'')] s2));
      Some (i686_EnableInterrupts s5) })"
    using assms unfolding i686_IRQ_Initialize_def Let_def case_prod_beta s2_def s1_def by (rule sym)
  have "dev_frame s2 s' \<and> g_IRQHandlers s' = g_IRQHandlers s2"
  proof (cases "g_Driver s2")
    case False
    then show ?thesis using run dev_logf by simp
  next
    case True
    let ?s4 = "i8259_Configure (of_int PIC_REMAP_OFFSET) (of_int (PIC_REMAP_OFFSET + 8)) False
          (logf ''PIC'' LVL_INFO ''Found %s PIC.'' [VS (bytes ''8259 PIC'')] s2)"
    from run True obtain s5 where s5: "foldM (\<lambda>i. i686_ISR_RegisterHandler (PIC_REMAP_OFFSET + i) ISR_irq) [0..15] ?s4 = Some s5"
      "s' = i686_EnableInterrupts s5" by (auto split: Option.bind_splits)
    have "dev_frame s2 ?s4" by (rule dev_trans [OF dev_logf dev_Configure])
    moreover have "dev_frame ?s4 s5" using s5(1) by (rule dev_foldM [rotated]) (erule dev_gates(4))
    moreover have "dev_frame s5 s'" by (simp add: s5(2) i686_EnableInterrupts_def dev_frame_def kbd_part_def on_screen_def)
    ultimately have "dev_frame s2 s'" by (blast intro: dev_trans)
    moreover have "g_IRQHandlers s5 = g_IRQHandlers ?s4"
      using s5(1) by (rule foldM_frame [rotated]) (erule RegisterHandler_keeps)
    ultimately show ?thesis by (simp add: s5(2) i686_EnableInterrupts_def)
  qed
  with f k show "dev_frame s s'" "g_IRQHandlers s' = g_IRQHandlers s" by (auto intro: dev_trans)
qed

lemma dev_pit_init: "dev_frame s (pit_init hz s)"
  unfolding pit_init_def Let_def
  by (auto intro!: dev_logf dev_outb dev_trans [OF _ dev_logf] dev_trans [OF _ dev_outb(1)])

lemma time_init_ok:
  assumes "length (g_IRQHandlers s) = 16"
  shows "\<exists>s'. time_init s = Some s' \<and> dev_frame s s' \<and> g_IRQHandlers s' = (g_IRQHandlers s)[0 := Some IRQ_timer] \<and>
    g_ISRHandlers s' = g_ISRHandlers s \<and> g_Driver s' = g_Driver s"
proof -
  let ?s2 = "logf ''Time'' LVL_DEBUG ''Registering PIT handler for IRQ 0'' [] (pit_init HZ
    (logf ''Time'' LVL_DEBUG ''Initializing PIT with frequency %d Hz'' [VI HZ] s))"
  have more: "vga.more ?s2 = vga.more s" by (simp add: pit_init_def Let_def i686_outb_def)
  let ?s3 = "?s2\<lparr>g_IRQHandlers := (g_IRQHandlers s)[0 := Some IRQ_timer]\<rparr>"
  have reg: "i686_IRQ_RegisterHandler 0 IRQ_timer ?s2 = Some ?s3"
    using assms more_kirq [OF more] by (simp add: i686_IRQ_RegisterHandler_def arr_set_def)
  have "dev_frame s ?s2" by (blast intro: dev_trans dev_logf dev_pit_init)
  moreover have "dev_frame ?s2 ?s3" by (rule dev_gates(5) [OF reg])
  ultimately have "dev_frame s ?s3" by (rule dev_trans)
  then have "dev_frame s (logf md l f a (logf md' l' f' a' ?s3))" for md l f a md' l' f' a'
    by (blast intro: dev_trans dev_logf)
  then show ?thesis using reg more_kirq [OF more] by (simp add: time_init_def Let_def)
qed

section \<open>The message log\<close>

definition logged :: "u8 list list \<Rightarrow> 'a dmesg_scheme \<Rightarrow> bool" where
  "logged ts s \<longleftrightarrow> dmesg_ok s \<and> dmesg_texts s = take 20 ts"

definition msg :: "string \<Rightarrow> string \<Rightarrow> u8 list" where
  "msg component message = message_text (Some (bytes component)) (Some (bytes message))"

lemma log_message_ok:
  assumes "logged ts s"
  shows "\<exists>s'. log_message l c m s = Some s' \<and> logged (ts @ [msg c m]) s' \<and> dmesg_frame s s'"
  using kernel_add_message_ok [of s "of_char l" "Some (bytes c)" "Some (bytes m)"] assms
  by (auto simp: logged_def log_message_def msg_def min_def split: if_splits)

lemma logged_more: "ksys.more s' = ksys.more s \<Longrightarrow> logged ts s' = logged ts s" for s s' :: "'a dmesg_scheme"
proof -
  assume "ksys.more s' = ksys.more s"
  then have "ultra_messages s' = ultra_messages s" "ultra_msg_idx s' = ultra_msg_idx s" "ultra_initialized s' = ultra_initialized s"
    by (cases s; cases s'; simp)+
  then show "logged ts s' = logged ts s" by (simp add: logged_def dmesg_ok_def dmesg_texts_def)
qed

section \<open>Before the kernel is up\<close>

definition early :: "u8 list list \<Rightarrow> 'a dmesg_scheme \<Rightarrow> bool" where
  "early ts s \<longleftrightarrow> kbd_wf s \<and> ring_items s = [] \<and> on_screen s \<and> \<not> halted s \<and> heap_initialized s = 0 \<and> fs_initialized s = 0 \<and>
     lits_ok s \<and> length (g_ISRHandlers s) = 256 \<and> length (g_IDT s) = 256 \<and> length (g_IRQHandlers s) = 16 \<and>
     ram_initialized s = 0 \<and> logged ts s"

definition devs :: "'a kirq_scheme \<Rightarrow> bool" where
  "devs s \<longleftrightarrow> (\<forall>i. 32 \<le> i \<and> i < 48 \<longrightarrow> g_ISRHandlers s ! i = Some ISR_irq) \<and> g_Driver s \<and>
     g_IRQHandlers s ! 0 = Some IRQ_timer"

lemma more_early:
  fixes s s' :: "'a dmesg_scheme"
  assumes "kirq.more s' = kirq.more s"
  shows "fs_initialized s' = fs_initialized s" "lits_ok s' = lits_ok s" "ram_initialized s' = ram_initialized s"
    "logged ts s' = logged ts s" "ksys.more s' = ksys.more s"
proof -
  show "fs_initialized s' = fs_initialized s" "ram_initialized s' = ram_initialized s" and m: "ksys.more s' = ksys.more s"
    using assms by (cases s; cases s'; simp)+
  have "lit_welcome s' = lit_welcome s" "lit_info s' = lit_info s" using assms by (cases s; cases s'; simp)+
  then show "lits_ok s' = lits_ok s" by (simp add: lits_ok_def)
  show "logged ts s' = logged ts s" by (rule logged_more [OF m])
qed

lemma kbd_part_ring: "kbd_part s' = kbd_part s \<Longrightarrow> ring_items s' = ring_items s"
  by (simp add: kbd_part_def ring_items_def kb_count_def)

lemma early_dev: "early ts s \<Longrightarrow> dev_frame s s' \<Longrightarrow> early ts s'"
  using more_early [of s' s] kbd_part_wf [of s' s] kbd_part_ring [of s' s] by (simp add: early_def dev_frame_def)

lemma dmesg_frame_fields:
  assumes "dmesg_frame s s'"
  shows "kbd_part s' = kbd_part s" "on_screen s' = on_screen s" "halted s' = halted s" "heap_initialized s' = heap_initialized s"
    "fs_initialized s' = fs_initialized s" "lits_ok s' = lits_ok s" "g_ISRHandlers s' = g_ISRHandlers s"
    "g_IDT s' = g_IDT s" "g_IRQHandlers s' = g_IRQHandlers s" "ram_initialized s' = ram_initialized s"
    "g_Driver s' = g_Driver s" "kernel_ok s' = kernel_ok s" "dmesg.more s' = dmesg.more s" "interrupts_on s' = interrupts_on s"
    "heap_live s' = heap_live s" "user_live s' = user_live s" "shell_mode s' = shell_mode s" "extended_key s' = extended_key s"
    "virtual_files s' = virtual_files s" "vram s' = vram s" "fs_ok s' = fs_ok s" "syscall_handlers s' = syscall_handlers s"
proof -
  from assms obtain ms i n where e: "s' = s\<lparr>ultra_messages := ms, ultra_msg_idx := i, ultra_initialized := n\<rparr>"
    by (auto simp: dmesg_frame_def)
  show "kbd_part s' = kbd_part s" "on_screen s' = on_screen s" "halted s' = halted s" "heap_initialized s' = heap_initialized s"
    "fs_initialized s' = fs_initialized s" "lits_ok s' = lits_ok s" "g_ISRHandlers s' = g_ISRHandlers s"
    "g_IDT s' = g_IDT s" "g_IRQHandlers s' = g_IRQHandlers s" "ram_initialized s' = ram_initialized s"
    "g_Driver s' = g_Driver s" "dmesg.more s' = dmesg.more s" "interrupts_on s' = interrupts_on s"
    "shell_mode s' = shell_mode s" "extended_key s' = extended_key s" "virtual_files s' = virtual_files s" "vram s' = vram s"
    "syscall_handlers s' = syscall_handlers s"
    by (simp_all add: e kbd_part_def on_screen_def lits_ok_def)
  show h: "heap_live s' = heap_live s" by (simp add: e heap_live_def heap_rel_def)
  show "user_live s' = user_live s" by (simp add: user_live_def h) (simp add: e)
  show "fs_ok s' = fs_ok s" "kernel_ok s' = kernel_ok s"
    by (simp_all add: e kernel_ok_def fs_ok_def tables_ok_def files_ok_def lits_ok_def on_screen_def
        backed_def is_default_def heap_ok_def heap_live_def heap_rel_def kbd_wf_def kbd_arrays_def ring_ok_def tables_set_def)
qed

lemma early_log:
  assumes "early ts s"
  shows "\<exists>s'. log_message l c m s = Some s' \<and> early (ts @ [msg c m]) s' \<and> dmesg_frame s s'"
proof -
  from assms log_message_ok [of ts s l c m] obtain s' where s': "log_message l c m s = Some s'"
    "logged (ts @ [msg c m]) s'" "dmesg_frame s s'" by (auto simp: early_def)
  with assms dmesg_frame_fields [OF s'(3)] kbd_part_wf [of s' s] kbd_part_ring [of s' s] show ?thesis by (simp add: early_def)
qed

lemma devs_log: "dmesg_frame s s' \<Longrightarrow> devs s' = devs s"
  by (simp add: devs_def dmesg_frame_fields)

lemma devs_more: "vga.more s' = vga.more s \<Longrightarrow> devs s' = devs s" for s s' :: "'a kirq_scheme"
  using more_kirq [of s' s] by (simp add: devs_def)

lemma clrscr_more [simp]: "vga.more (VGA_clrscr s) = vga.more s"
  by (simp add: VGA_clrscr_def Let_def fold_frame [where f = vga.more])

lemma HAL_ok:
  fixes s :: "'a dmesg_scheme"
  assumes "early ts s" "masks_read_back inb"
  shows "\<exists>s'. HAL_Initialize inb addr s = Some s' \<and> early ts s' \<and> devs s'"
proof -
  let ?s = "VGA_clrscr s"
  have 0: "early ts ?s" by (rule early_dev [OF assms(1) dev_more]) (simp_all add: clrscr_more wf_intros)
  then have "length (g_IDT ?s) = 256" by (simp add: early_def)
  from ISR_Initialize_table [OF this, of addr] obtain s1 where s1: "i686_ISR_Initialize addr ?s = Some s1" by blast
  have 1: "early ts s1" by (rule early_dev [OF 0 dev_ISR_Initialize [OF s1]])
  then have "length (g_ISRHandlers s1) = 256" "length (g_IDT s1) = 256" by (simp_all add: early_def)
  from IRQ_Initialize_ok [OF assms(2) this] obtain s2 where s2: "i686_IRQ_Initialize inb s1 = Some s2" "g_Driver s2"
    "\<forall>i < 256. g_ISRHandlers s2 ! i = (if 32 \<le> i \<and> i < 48 then Some ISR_irq else g_ISRHandlers s1 ! i)" by blast
  have 2: "early ts s2" by (rule early_dev [OF 1 dev_IRQ_Initialize(1) [OF s2(1)]])
  then have len: "length (g_IRQHandlers s2) = 16" by (simp add: early_def)
  from time_init_ok [OF this] obtain s3 where s3: "time_init s2 = Some s3" "dev_frame s2 s3"
    "g_IRQHandlers s3 = (g_IRQHandlers s2)[0 := Some IRQ_timer]" "g_ISRHandlers s3 = g_ISRHandlers s2" "g_Driver s3 = g_Driver s2"
    by blast
  have "early ts s3" by (rule early_dev [OF 2 s3(2)])
  moreover have "devs s3" using s3 s2 len by (simp add: devs_def)
  ultimately show ?thesis using s1 s2(1) s3(1) by (simp add: HAL_Initialize_def)
qed

lemma RegisterHandler_dev:
  assumes "length (g_ISRHandlers s) = 256" "length (g_IDT s) = 256" "k < 256"
    "i686_ISR_RegisterHandler (int k) h s = Some s'"
  shows "g_ISRHandlers s' = (g_ISRHandlers s)[k := Some h]" "g_Driver s' = g_Driver s" "g_IRQHandlers s' = g_IRQHandlers s"
  using RegisterHandler_Some [OF assms(1-3), of h] assms(4) by auto

lemma syscalls_ok:
  fixes s :: "'a dmesg_scheme"
  assumes "early ts s" "devs s"
  shows "\<exists>s'. syscall_initialize s = Some s' \<and> fs_ok s' \<and> heap_live s' = {} \<and> has_file s' (bytes ''welcome.txt'') \<and>
    has_file s' (bytes ''info.txt'') \<and> syscall_handlers s' = handler_table \<and> kbd_part s' = kbd_part s \<and> on_screen s' \<and>
    \<not> halted s' \<and> length (g_ISRHandlers s') = 256 \<and> length (g_IRQHandlers s') = 16 \<and> devs s' \<and>
    g_ISRHandlers s' ! 0x80 = Some ISR_syscall \<and> ram_initialized s' = 0 \<and> logged ts s'"
proof -
  have e: "heap_initialized s = 0" "fs_initialized s = 0" "lits_ok s" "length (g_ISRHandlers s) = 256" "length (g_IDT s) = 256"
    using assms(1) by (simp_all add: early_def)
  from syscall_initialize_ok [OF e] obtain s' where s': "syscall_initialize s = Some s'" "fs_ok s'" "heap_live s' = {}"
    "syscall_handlers s' = handler_table" "g_ISRHandlers s' ! 0x80 = Some ISR_syscall" "has_file s' (bytes ''welcome.txt'')"
    "has_file s' (bytes ''info.txt'')" by blast
  define s1 where "s1 = logf ''Syscall'' LVL_INFO ''Initializing system call interface...'' [] s"
  define s3 where "s3 = s1\<lparr>syscall_handlers := handler_table\<rparr>"
  have reg: "fold (\<lambda>(n, h). syscall_register_handler n h)
      [(0, H_exit), (1, H_print), (2, H_read), (3, H_malloc), (4, H_free), (5, H_open), (6, H_close),
       (7, H_write), (9, H_getpid), (10, H_time), (11, H_sleep), (12, H_yield)]
      (s1\<lparr>syscall_handlers := replicate (unat SYSCALL_COUNT) None\<rparr>) = s3"
    by (subst register_all) (simp_all add: SYSCALL_COUNT_def s3_def)
  have d1: "dev_frame s s1" by (simp add: s1_def dev_logf)
  have d3: "kbd_part s3 = kbd_part s1" "irq_part s3 = irq_part s1" "ksys.more s3 = ksys.more s1" "on_screen s3 = on_screen s1"
    by (simp_all add: s3_def kbd_part_def irq_part_def on_screen_def)
  have more: "vga.more s1 = vga.more s" by (simp add: s1_def)
  have len: "length (g_ISRHandlers s3) = 256" "length (g_IDT s3) = 256" using e more_kirq [OF more] by (simp_all add: s3_def)
  from s'(1) obtain s4 s5 where s4: "i686_ISR_RegisterHandler SYSCALL_INTERRUPT ISR_syscall s3 = Some s4"
    and s5: "vfs_init (heap_init s4) = Some s5"
    and fin: "s' = logf ''Syscall'' LVL_INFO ''Registered %d system calls'' [VI SYSCALL_COUNT]
      (logf ''Syscall'' LVL_INFO ''System call interface initialized successfully'' [] s5)"
    unfolding syscall_initialize_def Let_def s1_def [symmetric] reg by (auto split: Option.bind_splits)
  have "syscall_frame s4 s5" by (rule sframe_trans [OF sframe_heap_init [OF sframe_refl] sframe_vfs_init [OF s5]])
  then have f: "syscall_frame s4 s'" unfolding fin by (intro sframe_console)
  have d4: "dev_frame s3 s4" by (rule dev_gates(4) [OF s4])
  have "i686_ISR_RegisterHandler (int 0x80) ISR_syscall s3 = Some s4" using s4 by (simp add: SYSCALL_INTERRUPT_def)
  note t4 = RegisterHandler_dev [OF len _ this]
  have "on_screen s'" using f d4 d1 d3 assms(1) by (simp add: early_def syscall_frame_def dev_frame_def)
  moreover have "kbd_part s' = kbd_part s" "\<not> halted s'" "length (g_ISRHandlers s') = 256" "length (g_IRQHandlers s') = 16"
    using f d4 d1 d3 assms(1) by (simp_all add: early_def syscall_frame_def dev_frame_def irq_part_def)
  moreover have "devs s'"
    using f t4 assms(2) more_kirq [OF more] e(4)
    by (simp add: devs_def syscall_frame_def irq_part_def s3_def nth_list_update)
  moreover have m: "ksys.more s' = ksys.more s"
    using f d4 d1 d3 more_ksys(7) [OF more_kheap(1) [OF more]] more_early(5) [of s4 s3] by (simp add: syscall_frame_def dev_frame_def)
  then have "logged ts s'" "ram_initialized s' = 0"
    using logged_more [OF m] more_ram(4) [OF m] assms(1) by (simp_all add: early_def)
  ultimately show ?thesis using s' by blast
qed

section \<open>The kernel is up\<close>

text \<open>With \<open>q\<close>, no key is pressed and the ring is empty.\<close>

definition calm :: "bool \<Rightarrow> (nat \<Rightarrow> irq_event list) \<Rightarrow> bool" where
  "calm q irqs \<longleftrightarrow> (q \<longrightarrow> (\<forall>k. \<forall>ev \<in> set (irqs k). ev = Tick))"

definition up :: "bool \<Rightarrow> u8 list list \<Rightarrow> 'a dmesg_scheme \<Rightarrow> bool" where
  "up q ts s \<longleftrightarrow> kernel_ok s \<and> logged ts s \<and> (q \<longrightarrow> ring_items s = []) \<and> heap_live s = {} \<and> ram_initialized s = 0 \<and>
     has_file s (bytes ''welcome.txt'') \<and> has_file s (bytes ''info.txt'')"

lemma up_log:
  assumes "up q ts s"
  shows "\<exists>s'. log_message l c m s = Some s' \<and> up q (ts @ [msg c m]) s' \<and> dmesg_frame s s'"
proof -
  from assms log_message_ok [of ts s l c m] obtain s' where s': "log_message l c m s = Some s'"
    "logged (ts @ [msg c m]) s'" "dmesg_frame s s'" by (auto simp: up_def)
  with assms dmesg_frame_fields [OF s'(3)] kbd_part_ring [of s' s] show ?thesis by (simp add: up_def has_file_def)
qed

lemma up_more:
  fixes s s' :: "'a dmesg_scheme"
  assumes "up q ts s" "vga.more s' = vga.more s" "on_screen s'"
  shows "up q ts s'"
proof -
  note k = kernel_ok_console [OF _ assms(2,3)]
  have "ksys.more s' = ksys.more s" using more_ksys(7) [OF more_kheap(1) [OF assms(2)]] .
  then show ?thesis
    using assms(1) k logged_more [of s' s] more_ram(4) [of s' s] more_ring [OF assms(2)]
      heap_frame(2) [OF more_kheap(2-4) [OF assms(2)]] more_ksys(1) [OF more_kheap(1) [OF assms(2)]]
    by (simp add: up_def has_file_def)
qed

lemma up_out: "up q ts s \<Longrightarrow> up q ts (logf md l fmt args s)" "up q ts s \<Longrightarrow> up q ts (printf fmt args s)"
  by (rule up_more; simp add: up_def kernel_ok_def wf_intros)+

lemma irq_frame_data:
  fixes s s' :: "'a dmesg_scheme"
  assumes "irq_frame q s s'"
  shows "logged ts s' = logged ts s" "ram_initialized s' = ram_initialized s" "has_file s' p = has_file s p"
    "q \<Longrightarrow> ring_items s' = ring_items s" "heap_live s' = heap_live s" "interrupts_on s' = interrupts_on s" "shell_mode s' = shell_mode s"
    "ksys.more s' = ksys.more s"
  using irq_frame_fields [OF assms] logged_more [of s' s] more_ram(4) [of s' s] assms by (simp_all add: has_file_def irq_frame_def)

lemma up_irqs:
  assumes "up q ts s" "calm q irqs"
  shows "\<exists>s'. interrupted e (irqs k) s = Some s' \<and> up q ts s' \<and> irq_frame q s s'"
proof -
  from assms irqs_taken [of s q "irqs k" e] kernel_irq_ready [of s] obtain s' where
    s': "interrupted e (irqs k) s = Some s'" "irq_frame q s s'" by (auto simp: up_def calm_def)
  with assms(1) irq_frame_kernel [OF _ s'(2)] irq_frame_data [OF s'(2)] show ?thesis by (simp add: up_def)
qed

lemma up_log_irq:
  assumes "up q ts s" "calm q irqs"
  shows "\<exists>s'. log_irq e (irqs k) l c m s = Some s' \<and> up q (ts @ [msg c m]) s'"
proof -
  from up_log [OF assms(1)] obtain s1 where s1: "log_message l c m s = Some s1" "up q (ts @ [msg c m]) s1" by blast
  with up_irqs [OF s1(2) assms(2), of e k] show ?thesis by (auto simp: log_irq_def)
qed

text \<open>Between the system calls and the registration of the keyboard's handler.\<close>

definition almost :: "bool \<Rightarrow> u8 list list \<Rightarrow> 'a dmesg_scheme \<Rightarrow> bool" where
  "almost q ts s \<longleftrightarrow> fs_ok s \<and> kbd_wf s \<and> (q \<longrightarrow> ring_items s = []) \<and> on_screen s \<and> \<not> halted s \<and> heap_live s = {} \<and>
     has_file s (bytes ''welcome.txt'') \<and> has_file s (bytes ''info.txt'') \<and> syscall_handlers s = handler_table \<and>
     length (g_ISRHandlers s) = 256 \<and> length (g_IRQHandlers s) = 16 \<and> devs s \<and> g_ISRHandlers s ! 0x80 = Some ISR_syscall \<and>
     ram_initialized s = 0 \<and> logged ts s"

lemma almost_log:
  assumes "almost q ts s"
  shows "\<exists>s'. log_message l c m s = Some s' \<and> almost q (ts @ [msg c m]) s'"
proof -
  from assms log_message_ok [of ts s l c m] obtain s' where s': "log_message l c m s = Some s'"
    "logged (ts @ [msg c m]) s'" "dmesg_frame s s'" by (auto simp: almost_def)
  with assms dmesg_frame_fields [OF s'(3)] kbd_part_wf [of s' s] kbd_part_ring [of s' s] devs_log [OF s'(3)]
  show ?thesis by (simp add: almost_def has_file_def)
qed

lemma almost_irqs:
  assumes "almost q ts s" "calm q irqs"
  shows "\<exists>s'. interrupted e (irqs k) s = Some s' \<and> almost q ts s'"
proof -
  have "irq_ready s" using assms(1) by (simp add: almost_def devs_def irq_ready_def)
  from irqs_taken [OF this, of q "irqs k" e] assms(2) obtain s' where
    s': "interrupted e (irqs k) s = Some s'" "irq_frame q s s'" by (auto simp: calm_def)
  note f = s'(2) [unfolded irq_frame_def irq_part_def]
  show ?thesis using s'(1) assms(1) f irq_frame_fields [OF s'(2)] irq_frame_data [OF s'(2)]
    by (simp add: almost_def devs_def)
qed

lemma almost_log_irq:
  assumes "almost q ts s" "calm q irqs"
  shows "\<exists>s'. log_irq e (irqs k) l c m s = Some s' \<and> almost q (ts @ [msg c m]) s'"
proof -
  from almost_log [OF assms(1)] obtain s1 where s1: "log_message l c m s = Some s1" "almost q (ts @ [msg c m]) s1" by blast
  with almost_irqs [OF s1(2) assms(2), of e k] show ?thesis by (auto simp: log_irq_def)
qed

lemma almost_keyboard:
  assumes "almost q ts s" "\<exists>n. status n AND KEYBOARD_OUTPUT_BUFFER_FULL = 0"
  shows "\<exists>s'. keyboard_init inb status s = Some s' \<and> almost q ts s'"
proof -
  let ?s = "i686_outb 0x21 (inb 0x21 s AND NOT (push_bit 1 1)) s"
  have m: "vga.more ?s = vga.more s" "on_screen ?s = on_screen s"
    by (simp_all add: i686_outb_def on_screen_def)
  note f = more_fields [OF m(1)] more_kirq [OF m(1)] more_kheap [OF m(1)] more_ksys [OF more_kheap(1) [OF m(1)]]
  have "almost q ts ?s"
    using assms fs_ok_console [of s ?s] m more_ring [OF m(1)] logged_more [of ?s s ts] more_ram(4) [of ?s s] devs_more [of ?s s]
      heap_frame(2) [of ?s s] f kbd_part_wf [of ?s s]
    by (simp add: almost_def has_file_def kbd_part_def)
  then show ?thesis using assms(2) by (simp add: keyboard_init_eq)
qed

lemma almost_up:
  assumes "almost q ts s"
  shows "\<exists>s'. i686_IRQ_RegisterHandler 1 IRQ_keyboard s = Some s' \<and> up q ts s'"
proof -
  define h where "h = (g_IRQHandlers s)[1 := Some IRQ_keyboard]"
  let ?s = "s\<lparr>g_IRQHandlers := h\<rparr>"
  have live: "heap_live ?s = heap_live s" by (rule heap_frame(2)) simp_all
  have fs: "fs_ok ?s = fs_ok s" by (rule fs_ok_cong(1)) simp_all
  have f: "kbd_wf ?s = kbd_wf s" "on_screen ?s = on_screen s" "ring_items ?s = ring_items s" "logged ts ?s = logged ts s"
    by (simp_all add: on_screen_def kbd_wf_def kbd_arrays_def ring_ok_def ring_items_def kb_count_def logged_def
        dmesg_ok_def dmesg_texts_def)
  have "length h = 16" "h ! 0 = Some IRQ_timer" "h ! 1 = Some IRQ_keyboard"
    using assms by (simp_all add: h_def almost_def devs_def)
  then have "tables_set ?s" using assms by (simp add: almost_def devs_def tables_set_def)
  then have "kernel_ok ?s" using assms by (simp add: kernel_ok_def fs f almost_def)
  moreover have "i686_IRQ_RegisterHandler 1 IRQ_keyboard s = Some ?s"
    using assms by (simp add: i686_IRQ_RegisterHandler_def arr_set_def almost_def h_def)
  ultimately show ?thesis using assms live f by (simp add: almost_def up_def has_file_def)
qed

lemma almost_syscalls:
  fixes s :: "'a dmesg_scheme"
  assumes "early ts s" "devs s"
  shows "\<exists>s'. syscall_initialize s = Some s' \<and> almost q ts s'"
proof -
  from syscalls_ok [OF assms] obtain s' where s': "syscall_initialize s = Some s'" "kbd_part s' = kbd_part s"
    "fs_ok s' \<and> heap_live s' = {} \<and> has_file s' (bytes ''welcome.txt'') \<and> has_file s' (bytes ''info.txt'') \<and>
     syscall_handlers s' = handler_table \<and> on_screen s' \<and> \<not> halted s' \<and> length (g_ISRHandlers s') = 256 \<and>
     length (g_IRQHandlers s') = 16 \<and> devs s' \<and> g_ISRHandlers s' ! 0x80 = Some ISR_syscall \<and>
     ram_initialized s' = 0 \<and> logged ts s'" by blast
  with kbd_part_wf [OF s'(2)] kbd_part_ring [OF s'(2)] assms(1) show ?thesis by (simp add: almost_def early_def)
qed

definition device_log :: "u8 list list" where
  "device_log = [msg ''boot'' ''MiqOSoft kernel starting'', msg ''hal'' ''Hardware layer init'', msg ''hal'' ''Hardware ready'',
      msg ''timer'' ''Timer ready'', msg ''syscall'' ''System calls init'', msg ''syscall'' ''27 syscalls registered'',
      msg ''keyboard'' ''PS2 keyboard init'', msg ''keyboard'' ''Keyboard driver ready'', msg ''irq'' ''Keyboard IRQ registered'']"

lemma early_logf: "early ts s \<Longrightarrow> early ts (logf md l fmt args s)"
  by (erule early_dev) (rule dev_logf)

lemma early_devs_log:
  assumes "early ts s" "devs s"
  shows "\<exists>s'. log_message l c m (logf md lv fmt args s) = Some s' \<and> early (ts @ [msg c m]) s' \<and> devs s'"
    "\<exists>s'. log_message l c m s = Some s' \<and> early (ts @ [msg c m]) s' \<and> devs s'"
  using early_log [OF early_logf [OF assms(1)], of l c m] early_log [OF assms(1), of l c m] devs_log assms(2)
    devs_more [of "logf md lv fmt args s" s] by (metis stdio_more(6), metis)

lemma devices_ok:
  fixes s :: "'a shell_scheme"
  assumes "early [] s" "masks_read_back inb" "\<exists>n. status n AND KEYBOARD_OUTPUT_BUFFER_FULL = 0" "calm q irqs"
  shows "\<exists>s'. start_devices inb status addr e irqs s = Some s' \<and> up q device_log s'"
proof -
  let ?t1 = "[] @ [msg ''boot'' ''MiqOSoft kernel starting'']"
  from early_log [OF assms(1)] obtain s1 where 1: "log_message CHR ''I'' ''boot'' ''MiqOSoft kernel starting'' s = Some s1"
    "early ?t1 s1" by blast
  let ?t2 = "?t1 @ [msg ''hal'' ''Hardware layer init'']"
  from early_log [OF 1(2)] obtain s2 where 2: "log_message CHR ''I'' ''hal'' ''Hardware layer init'' s1 = Some s2"
    "early ?t2 s2" by blast
  from HAL_ok [OF 2(2) assms(2)] obtain s3 where 3: "HAL_Initialize inb addr s2 = Some s3" "early ?t2 s3" "devs s3"
    by blast
  let ?t3 = "?t2 @ [msg ''hal'' ''Hardware ready'']"
  from early_devs_log(2) [OF 3(2,3)] obtain s4 where 4: "log_message CHR ''I'' ''hal'' ''Hardware ready'' s3 = Some s4"
    "early ?t3 s4" "devs s4" by blast
  let ?t4 = "?t3 @ [msg ''timer'' ''Timer ready'']"
  from early_devs_log(1) [OF 4(2,3)] obtain s5
    where 5: "log_message CHR ''I'' ''timer'' ''Timer ready'' (logf ''Main'' LVL_DEBUG ''Initializing timer system...'' [] s4) = Some s5"
      "early ?t4 s5" "devs s5" by blast
  let ?t5 = "?t4 @ [msg ''syscall'' ''System calls init'']"
  from early_devs_log(1) [OF 5(2,3)] obtain s6
    where 6: "log_message CHR ''I'' ''syscall'' ''System calls init'' (logf ''Main'' LVL_DEBUG ''Initializing syscall system...'' [] s5) = Some s6"
      "early ?t5 s6" "devs s6" by blast
  from almost_syscalls [OF 6(2,3)] obtain s7 where 7: "syscall_initialize s6 = Some s7" "almost q ?t5 s7" by blast
  let ?t6 = "?t5 @ [msg ''syscall'' ''27 syscalls registered'']"
  from almost_log [OF 7(2)] obtain s8 where 8: "log_message CHR ''I'' ''syscall'' ''27 syscalls registered'' s7 = Some s8"
    "almost q ?t6 s8" by blast
  let ?t7 = "?t6 @ [msg ''keyboard'' ''PS2 keyboard init'']"
  from almost_log [OF 8(2)] obtain s9 where 9: "log_message CHR ''I'' ''keyboard'' ''PS2 keyboard init'' s8 = Some s9"
    "almost q ?t7 s9" by blast
  let ?t8 = "?t7 @ [msg ''keyboard'' ''Keyboard driver ready'']"
  from almost_keyboard [OF 9(2) assms(3)] obtain t9 where t9: "keyboard_init inb status s9 = Some t9" "almost q ?t7 t9" by blast
  from almost_irqs [OF t9(2) assms(4)] obtain u9 where u9: "interrupted e (irqs 0) t9 = Some u9" "almost q ?t7 u9" by blast
  from almost_log_irq [OF u9(2) assms(4)] obtain s10
    where 10: "log_irq e (irqs 1) CHR ''D'' ''keyboard'' ''Keyboard driver ready'' u9 = Some s10" "almost q ?t8 s10" by blast
  from almost_up [OF 10(2)] obtain s11 where 11: "i686_IRQ_RegisterHandler 1 IRQ_keyboard s10 = Some s11"
    "up q ?t8 s11" by blast
  from up_log_irq [OF 11(2) assms(4)] obtain s12 where 12: "log_irq e (irqs 2) CHR ''D'' ''irq'' ''Keyboard IRQ registered'' s11 = Some s12"
    "up q (?t8 @ [msg ''irq'' ''Keyboard IRQ registered'']) s12" by blast
  have "start_devices inb status addr e irqs s = Some s12"
    using 1(1) 2(1) 3(1) 4(1) 5(1) 6(1) 7(1) 8(1) 9(1) t9(1) u9(1) 10(1) 11(1) 12(1) by (simp add: start_devices_def Let_def)
  moreover have "up q device_log s12" using 12(2) by (simp add: device_log_def)
  ultimately show ?thesis by blast
qed

section \<open>Interrupts\<close>

lemma up_irq:
  fixes s :: "'a dmesg_scheme"
  assumes "up q ts s"
  shows "up q ts (s\<lparr>g_PicMask := k\<rparr>)" "up q ts (s\<lparr>interrupts_on := b\<rparr>)"
proof -
  let ?s = "s\<lparr>g_PicMask := k\<rparr>" and ?t = "s\<lparr>interrupts_on := b\<rparr>"
  have live: "heap_live ?s = heap_live s" "heap_live ?t = heap_live s" by (rule heap_frame(2); simp)+
  have fs: "fs_ok ?s = fs_ok s" "fs_ok ?t = fs_ok s" by (rule fs_ok_cong(1); simp)+
  have f: "kbd_wf ?s = kbd_wf s" "on_screen ?s = on_screen s" "ring_items ?s = ring_items s" "logged ts ?s = logged ts s"
    "ring_items ?t = ring_items s" "logged ts ?t = logged ts s"
    by (simp_all add: on_screen_def kbd_wf_def kbd_arrays_def ring_ok_def ring_items_def kb_count_def logged_def
        dmesg_ok_def dmesg_texts_def)
  have "tables_set ?s = tables_set s" by (simp add: tables_set_def)
  then have "kernel_ok ?s = kernel_ok s" by (simp add: kernel_ok_def fs f)
  then show "up q ts ?s" "up q ts ?t" using assms live f kernel_ok_upd(1) [where s = s and b = b] by (simp_all add: up_def has_file_def)
qed

lemma up_SetMask: "up q ts s \<Longrightarrow> up q ts (i8259_SetMask k s)" for s :: "'a dmesg_scheme"
proof -
  assume "up q ts s"
  then have u: "up q ts (s\<lparr>g_PicMask := k\<rparr>)" by (rule up_irq)
  have "vga.more (i8259_SetMask k s) = vga.more (s\<lparr>g_PicMask := k\<rparr>)" by (simp add: i8259_SetMask_def Let_def)
  moreover have "on_screen (i8259_SetMask k s)"
    using \<open>up q ts s\<close> dev_SetMask [of s k] by (simp add: up_def kernel_ok_def dev_frame_def)
  ultimately show ?thesis by (rule up_more [OF u])
qed

definition running :: "bool \<Rightarrow> u8 list list \<Rightarrow> 'a dmesg_scheme \<Rightarrow> bool" where
  "running q ts s \<longleftrightarrow> up q ts s \<and> interrupts_on s"

lemma running_log:
  assumes "running q ts s"
  shows "\<exists>s'. log_message l c m s = Some s' \<and> running q (ts @ [msg c m]) s' \<and> dmesg_frame s s'"
proof -
  from assms up_log [of q ts s l c m] obtain s' where s': "log_message l c m s = Some s'"
    "up q (ts @ [msg c m]) s'" "dmesg_frame s s'" by (auto simp: running_def)
  with assms dmesg_frame_fields(14) [OF s'(3)] show ?thesis by (auto simp: running_def)
qed

lemma running_irqs:
  assumes "running q ts s" "calm q irqs"
  shows "\<exists>s'. interrupted e (irqs k) s = Some s' \<and> running q ts s' \<and> irq_frame q s s'"
  using up_irqs [of q ts s irqs e k] assms irq_frame_data(6) by (fastforce simp: running_def)

lemma running_log_irq:
  assumes "running q ts s" "calm q irqs"
  shows "\<exists>s'. log_irq e (irqs k) l c m s = Some s' \<and> running q (ts @ [msg c m]) s'"
proof -
  from running_log [OF assms(1)] obtain s1 where s1: "log_message l c m s = Some s1" "running q (ts @ [msg c m]) s1" by blast
  with running_irqs [OF s1(2) assms(2), of e k] show ?thesis by (auto simp: log_irq_def)
qed

lemma running_out: "running q ts s \<Longrightarrow> running q ts (logf md l fmt args s)" "running q ts s \<Longrightarrow> running q ts (printf fmt args s)"
  by (simp_all add: running_def up_out)

definition interrupt_log :: "u8 list list" where
  "interrupt_log = [msg ''pic'' ''Configuring interrupts'', msg ''pic'' ''Timer IRQ unmasked'', msg ''pic'' ''Keyboard IRQ unmasked'',
     msg ''cpu'' ''Enabling interrupts'', msg ''cpu'' ''Interrupts enabled'']"

lemma interrupts_ok:
  fixes s :: "'a shell_scheme"
  assumes "up q ts s" "calm q irqs"
  shows "\<exists>s'. start_interrupts e irqs s = Some s' \<and> running q (ts @ interrupt_log) s'"
proof -
  note c = assms(2)
  let ?t1 = "ts @ [msg ''pic'' ''Configuring interrupts'']"
  from up_log_irq [OF assms] obtain s1 where 1: "log_irq e (irqs 3) CHR ''I'' ''pic'' ''Configuring interrupts'' s = Some s1" "up q ?t1 s1"
    by blast
  let ?t2 = "?t1 @ [msg ''pic'' ''Timer IRQ unmasked'']"
  from up_irqs [OF up_SetMask [OF 1(2)] c] obtain u1 where u1: "interrupted e (irqs 4) (i8259_Unmask 0 s1) = Some u1" "up q ?t1 u1"
    unfolding i8259_Unmask_def by blast
  from up_log_irq [OF u1(2) c] obtain s2 where 2: "log_irq e (irqs 5) CHR ''D'' ''pic'' ''Timer IRQ unmasked'' u1 = Some s2" "up q ?t2 s2"
    by blast
  let ?t3 = "?t2 @ [msg ''pic'' ''Keyboard IRQ unmasked'']"
  from up_irqs [OF up_SetMask [OF 2(2)] c] obtain u2 where u2: "interrupted e (irqs 6) (i8259_Unmask 1 s2) = Some u2" "up q ?t2 u2"
    unfolding i8259_Unmask_def by blast
  from up_log_irq [OF u2(2) c] obtain s3
    where 3: "log_irq e (irqs 7) CHR ''D'' ''pic'' ''Keyboard IRQ unmasked'' u2 = Some s3" "up q ?t3 s3" by blast
  let ?t4 = "?t3 @ [msg ''cpu'' ''Enabling interrupts'']"
  from up_log_irq [OF 3(2) c] obtain s4 where 4: "log_irq e (irqs 8) CHR ''I'' ''cpu'' ''Enabling interrupts'' s3 = Some s4" "up q ?t4 s4"
    by blast
  have "running q ?t4 (i686_EnableInterrupts s4)" using up_irq(2) [OF 4(2)] by (simp add: running_def i686_EnableInterrupts_def)
  from running_irqs [OF this c] obtain u4
    where u4: "interrupted e (irqs 9) (i686_EnableInterrupts s4) = Some u4" "running q ?t4 u4" by blast
  from running_log_irq [OF u4(2) c] obtain s5
    where 5: "log_irq e (irqs 10) CHR ''I'' ''cpu'' ''Interrupts enabled'' u4 = Some s5"
      "running q (?t4 @ [msg ''cpu'' ''Interrupts enabled'']) s5" by blast
  then show ?thesis using 1(1) u1(1) 2(1) u2(1) 3(1) 4(1) u4(1) by (simp add: start_interrupts_def interrupt_log_def)
qed

section \<open>The shell comes up\<close>

lemma running_kbd:
  fixes s s' :: "'a dmesg_scheme"
  assumes "running q ts s" "kernel_ok s'" "kbd.more s' = kbd.more s" "ring_items s' = ring_items s"
  shows "running q ts s'"
proof -
  note k = kbd_more_kheap [OF assms(3)]
  note l = kbd_more_live(2) [OF assms(3)]
  have "heap_live s' = heap_live s" by (rule heap_frame(2)) (rule k)+
  then show ?thesis using assms(1,2,4) k(5) logged_more [OF l] more_ram(4) [OF l] more_ksys(1) [OF k(4)]
    by (simp add: running_def up_def has_file_def)
qed

lemma running_shell:
  fixes s :: "'a shell_scheme"
  shows "running q ts (s\<lparr>command_buffer := b, command_pos := n, sh_cursor := k, shell_running := r\<rparr>) = running q ts s"
proof -
  let ?s = "s\<lparr>command_buffer := b, command_pos := n, sh_cursor := k, shell_running := r\<rparr>"
  have "heap_live ?s = heap_live s" by (rule heap_frame(2)) simp_all
  moreover have "ring_items ?s = ring_items s" "logged ts ?s = logged ts s"
    by (simp_all add: ring_items_def kb_count_def logged_def dmesg_ok_def dmesg_texts_def)
  ultimately show ?thesis by (simp add: running_def up_def has_file_def)
qed

lemma kernel_ok_mode: "kernel_ok s \<Longrightarrow> kernel_ok (s\<lparr>shell_mode := b\<rparr>)"
proof -
  assume k: "kernel_ok s"
  have "fs_ok (s\<lparr>shell_mode := b\<rparr>) = fs_ok s" by (rule fs_ok_cong(1)) simp_all
  moreover have "kbd_wf (s\<lparr>shell_mode := b\<rparr>) = kbd_wf s" "on_screen (s\<lparr>shell_mode := b\<rparr>) = on_screen s"
    "tables_set (s\<lparr>shell_mode := b\<rparr>) = tables_set s"
    by (simp_all add: kbd_wf_def kbd_arrays_def ring_ok_def on_screen_def tables_set_def)
  ultimately show ?thesis using k by (simp add: kernel_ok_def)
qed

lemma shell_init_ok:
  fixes s :: "'a shell_scheme"
  assumes "running q ts s"
  shows "\<exists>s'. shell_init s = Some s' \<and> running q ts s' \<and> at_end s' \<and> sh_line s' = [] \<and> shell_mode s'"
proof -
  define s0 where "s0 = s\<lparr>command_buffer := replicate SHELL_BUFFER_SIZE 0, command_pos := 0, sh_cursor := 0, shell_running := True\<rparr>"
  define s1 where "s1 = s0\<lparr>shell_mode := True\<rparr>"
  define s2 where "s2 = printf ''\<newline>'' [] (printf ''Total commands available: %d\<newline>'' [VI (of_nat get_shell_command_count)]
    (printf ''Type 'help' for a list of available commands.\<newline>'' [] s1))"
  have 0: "running q ts s0" using assms by (simp add: s0_def running_shell)
  have 1: "running q ts s1" unfolding s1_def
    by (rule running_kbd [OF 0]) (use 0 kernel_ok_mode in \<open>auto simp: running_def up_def ring_items_def kb_count_def\<close>)
  have 2: "running q ts s2" unfolding s2_def by (intro running_out 1)
  then have k2: "kernel_ok s2" "on_screen s2" "length (line_lengths s2) = 25" "\<forall>n \<in> set (line_lengths s2). 0 \<le> n \<and> n < 80"
    by (simp_all add: running_def up_def kernel_ok_def kbd_wf_def kbd_arrays_def)
  note c = cursor_range [OF k2(2)]
  define y where "y = nat (sint (VGA_get_cursor_y s2))"
  have y: "sint (VGA_get_cursor_y s2) = int y" "y < 25" using c(1) by (auto simp: y_def nat_less_iff)
  define l where "l = (line_lengths s2)[y := 0]"
  have l: "length l = 25" "\<forall>n \<in> set l. 0 \<le> n \<and> n < 80"
    using k2(3,4) set_update_subset_insert [of "line_lengths s2" y 0] by (auto simp: l_def)
  define s3 where "s3 = s2\<lparr>cursor_line := int y, cursor_pos := sint (VGA_get_cursor_x s2), total_lines_used := int y + 1,
    line_lengths := l\<rparr>"
  have k3: "kernel_ok s3" unfolding s3_def by (rule kbd_upd [OF k2(1)]) (use y c(2) l in simp_all)
  have 3: "running q ts s3"
    by (rule running_kbd [OF 2 k3]) (simp_all add: s3_def ring_items_def kb_count_def)
  from print_prompt_ok [OF k3] obtain t where t: "shell_print_prompt s3 = Some t" "kernel_ok t" "kbd.more t = kbd.more s3"
    "ring_items t = ring_items s3" "shell_mode t = shell_mode s3" by blast
  have run: "shell_init s = Some t"
    using t(1) y k2(3) by (simp add: shell_init_def keyboard_set_shell_mode_def Let_def s0_def [symmetric] s1_def [symmetric]
        s2_def [symmetric] l_def [symmetric] s3_def [symmetric])
  have "kbd.more s3 = kbd.more s1" using more_fields [of s2 s1] by (simp add: s3_def s2_def)
  then have m: "kbd.more t = kbd.more s0" using t(3) by (simp add: s1_def)
  then have "command_buffer t = command_buffer s0" "command_pos t = command_pos s0" "sh_cursor t = sh_cursor s0"
    by (cases t; cases s0; simp)+
  then have "at_end t" "sh_line t = []" using t(2) by (simp_all add: at_end_def sh_ok_def sh_line_def s0_def SHELL_BUFFER_SIZE_def)
  moreover have "shell_mode t" using t(5) more_fields(14) [of s2 s1] by (simp add: s3_def s2_def s1_def)
  ultimately show ?thesis using run running_kbd [OF 3 t(2-4)] by blast
qed

section \<open>The whole boot\<close>

definition user_log :: "u8 list list" where
  "user_log = [msg ''boot'' ''Processing boot params'', msg ''memory'' ''Scanning memory'', msg ''memory'' ''Memory scan complete'',
     msg ''demo'' ''Logging test complete'', msg ''ui'' ''Console ready'', msg ''shell'' ''Shell starting'',
     msg ''shell'' ''Shell ready'', msg ''boot'' ''Init complete'']"

definition boot_log :: "u8 list list" where
  "boot_log = device_log @ interrupt_log @ user_log"

lemma boot_log_length: "length boot_log = 22"
  by (simp add: boot_log_def device_log_def interrupt_log_def user_log_def)

lemma regions_ok:
  assumes "running q ts s" "RegionCount bp \<le> int (length (Regions bp))"
  shows "\<exists>s'. foldM (log_region bp) [0..RegionCount bp - 1] s = Some s' \<and> running q ts s'"
proof (rule foldM_inv [where P = "running q ts", OF assms(1)])
  fix i s assume "i \<in> set [0..RegionCount bp - 1]" "running q ts s"
  then show "\<exists>s'. log_region bp i s = Some s' \<and> running q ts s'"
    using assms(2) by (simp add: log_region_def arr_get_def running_out)
qed

text \<open>The prompt survives what is logged after it.\<close>

definition prompted :: "bool \<Rightarrow> u8 list list \<Rightarrow> 'a shell_scheme \<Rightarrow> bool" where
  "prompted q ts s \<longleftrightarrow> running q ts s \<and> at_end s \<and> sh_line s = [] \<and> shell_mode s"

lemma prompted_log:
  assumes "prompted q ts s"
  shows "\<exists>s'. log_message l c m s = Some s' \<and> prompted q (ts @ [msg c m]) s'"
proof -
  from assms running_log [of q ts s l c m] obtain s' where s': "log_message l c m s = Some s'"
    "running q (ts @ [msg c m]) s'" "dmesg_frame s s'" by (auto simp: prompted_def)
  have m: "dmesg.more s' = dmesg.more s" "shell_mode s' = shell_mode s" by (rule dmesg_frame_fields [OF s'(3)])+
  have "command_buffer s' = command_buffer s" "command_pos s' = command_pos s" "sh_cursor s' = sh_cursor s"
    using m(1) by (cases s; cases s'; simp)+
  with assms s' m(2) show ?thesis
    by (simp add: prompted_def at_end_def sh_ok_def sh_line_def running_def up_def)
qed

lemma running_log_after:
  assumes "running q ts s" "calm q irqs"
  shows "\<exists>s'. log_irq e (irqs k) l c m (logf md lv fmt args s) = Some s' \<and> running q (ts @ [msg c m]) s'"
  using running_log_irq [OF running_out(1) [OF assms(1)] assms(2)] by blast

lemma prompted_log_irq:
  assumes "prompted q ts s" "calm q irqs"
  shows "\<exists>s'. log_irq e (irqs k) l c m s = Some s' \<and> prompted q (ts @ [msg c m]) s'"
proof -
  from prompted_log [OF assms(1)] obtain s1 where s1: "log_message l c m s = Some s1" "prompted q (ts @ [msg c m]) s1" by blast
  then have "running q (ts @ [msg c m]) s1" by (simp add: prompted_def)
  from running_irqs [OF this assms(2), of e k] obtain s2 where s2: "interrupted e (irqs k) s1 = Some s2"
    "running q (ts @ [msg c m]) s2" "irq_frame q s1 s2" by blast
  note d = irq_frame_data(7,8) [OF s2(3)]
  have "command_buffer s2 = command_buffer s1" "command_pos s2 = command_pos s1" "sh_cursor s2 = sh_cursor s1"
    using d(2) by (cases s1; cases s2; simp)+
  then have "prompted q (ts @ [msg c m]) s2" using s1(2) s2(2) d(1)
    by (simp add: prompted_def at_end_def sh_ok_def sh_line_def running_def up_def)
  then show ?thesis using s1(1) s2(1) by (simp add: log_irq_def)
qed

lemma user_ok:
  fixes s :: "'a shell_scheme"
  assumes "running q ts s" "RegionCount bp \<le> int (length (Regions bp))" "calm q irqs"
  shows "\<exists>s'. start_user e irqs bp s = Some s' \<and> prompted q (ts @ user_log) s'"
proof -
  note c = assms(3)
  let ?t1 = "ts @ [msg ''boot'' ''Processing boot params'']"
  from running_log_irq [OF assms(1) c] obtain s1 where 1: "log_irq e (irqs 11) CHR ''D'' ''boot'' ''Processing boot params'' s = Some s1"
    "running q ?t1 s1" by blast
  let ?t2 = "?t1 @ [msg ''memory'' ''Scanning memory'']"
  from running_log_after [OF 1(2) c] obtain s2 where 2: "log_irq e (irqs 12) CHR ''I'' ''memory'' ''Scanning memory''
    (logf ''Main'' LVL_DEBUG ''Boot device: %x'' [VI (ucast (BootDevice bp))] s1) = Some s2" "running q ?t2 s2" by blast
  from regions_ok [OF running_out(1) [OF 2(2)] assms(2)] obtain s3 where 3: "foldM (log_region bp) [0..RegionCount bp - 1]
    (logf ''Main'' LVL_DEBUG ''Memory region count: %d'' [VI (of_int (RegionCount bp))] s2) = Some s3" "running q ?t2 s3" by blast
  let ?t4 = "?t2 @ [msg ''memory'' ''Memory scan complete'']"
  from running_log_irq [OF 3(2) c] obtain s4 where 4: "log_irq e (irqs 13) CHR ''I'' ''memory'' ''Memory scan complete'' s3 = Some s4"
    "running q ?t4 s4" by blast
  let ?s4 = "logf ''Main'' LVL_CRITICAL ''This is a critical msg!'' [] (logf ''Main'' LVL_ERROR ''This is an error msg!'' []
    (logf ''Main'' LVL_WARN ''This is a warning msg!'' [] (logf ''Main'' LVL_INFO ''This is an info msg!'' [] s4)))"
  have "running q ?t4 ?s4" using 4(2) by (intro running_out)
  let ?t5 = "?t4 @ [msg ''demo'' ''Logging test complete'']"
  from running_log_irq [OF \<open>running q ?t4 ?s4\<close> c] obtain s5 where 5: "log_irq e (irqs 14) CHR ''I'' ''demo'' ''Logging test complete'' ?s4 = Some s5"
    "running q ?t5 s5" by blast
  let ?s5 = "printf ''\<newline>'' [] (printf ''Welcome to OS MiqOSosft v1.0\<newline>'' [] s5)"
  have "running q ?t5 ?s5" using 5(2) by (intro running_out)
  let ?t6 = "?t5 @ [msg ''ui'' ''Console ready'']"
  from running_log_irq [OF \<open>running q ?t5 ?s5\<close> c] obtain s6 where 6: "log_irq e (irqs 15) CHR ''I'' ''ui'' ''Console ready'' ?s5 = Some s6"
    "running q ?t6 s6" by blast
  let ?t7 = "?t6 @ [msg ''shell'' ''Shell starting'']"
  from running_log_after [OF 6(2) c] obtain s7 where 7: "log_irq e (irqs 16) CHR ''I'' ''shell'' ''Shell starting''
    (logf ''Main'' LVL_INFO ''Entering main shell loop...'' [] s6) = Some s7" "running q ?t7 s7" by blast
  from shell_init_ok [OF 7(2)] obtain s8 where 8: "shell_init s7 = Some s8" "prompted q ?t7 s8" by (auto simp: prompted_def)
  let ?t9 = "?t7 @ [msg ''shell'' ''Shell ready'']"
  from prompted_log_irq [OF 8(2) c] obtain s9 where 9: "log_irq e (irqs 17) CHR ''I'' ''shell'' ''Shell ready'' s8 = Some s9" "prompted q ?t9 s9" by blast
  from prompted_log_irq [OF 9(2) c] obtain s10 where 10: "log_irq e (irqs 18) CHR ''I'' ''boot'' ''Init complete'' s9 = Some s10"
    "prompted q (?t9 @ [msg ''boot'' ''Init complete'']) s10" by blast
  have "start_user e irqs bp s = Some s10"
    using 1(1) 2(1) 3(1) 4(1) 5(1) 6(1) 7(1) 8(1) 9(1) 10(1) by (simp add: start_user_def Let_def)
  then show ?thesis using 10(2) by (simp add: user_log_def)
qed

lemma start_ok:
  fixes s :: "'a shell_scheme"
  assumes "early [] s" "masks_read_back inb" "\<exists>n. status n AND KEYBOARD_OUTPUT_BUFFER_FULL = 0"
    "RegionCount bp \<le> int (length (Regions bp))" "calm q irqs"
  shows "\<exists>s'. start inb status addr e irqs bp s = Some s' \<and> prompted q boot_log s'"
proof -
  from devices_ok [OF assms(1,2,3,5)] obtain s1 where 1: "start_devices inb status addr e irqs s = Some s1" "up q device_log s1" by blast
  from interrupts_ok [OF 1(2) assms(5)] obtain s2 where 2: "start_interrupts e irqs s1 = Some s2"
    "running q (device_log @ interrupt_log) s2" by blast
  from user_ok [OF 2(2) assms(4,5)] obtain s3 where 3: "start_user e irqs bp s2 = Some s3"
    "prompted q ((device_log @ interrupt_log) @ user_log) s3" by blast
  then show ?thesis using 1(1) 2(1) by (simp add: start_def boot_log_def)
qed

text \<open>A keyboard controller that always reports a byte keeps the kernel in \<open>keyboard_init\<close>.\<close>

lemma start_hangs:
  assumes "\<nexists>n. status n AND KEYBOARD_OUTPUT_BUFFER_FULL = 0"
  shows "start inb status addr e irqs bp s = None"
proof -
  have "keyboard_init inb status t = None" for t :: "'a shell_scheme" using assms by (auto simp: keyboard_init_eq)
  then have "start_devices inb status addr e irqs s = None" by (simp add: start_devices_def Let_def)
  then show ?thesis by (simp add: start_def)
qed

end
