(* ===== verification/Live.thy ===== *)
theory Live
  imports Example EditOk BootOk
begin

text \<open>
  A concrete state of the whole system, at which the theorems on the file system, the message log and
  the shell are applied: an empty command line, a RAM file system with a directory \<open>d\<close> and a file
  \<open>f\<close> that holds \<open>hello\<close> in the one used block of the heap.
\<close>

lemma length_bytes [simp]: "length (bytes t) = length t"
  by (simp add: bytes_def)

definition live_file :: ram_file where
  "live_file = \<lparr>rf_name = 102 # replicate 31 0, rf_data = 0x40000C, rf_size = 5, rf_capacity = 256,
     rf_is_directory = 0, rf_parent_index = 0, rf_in_use = 1, rf_created_time = 0\<rparr>"

definition live_dir :: "u8 \<Rightarrow> ram_file" where
  "live_dir c = \<lparr>rf_name = c # replicate 31 0, rf_data = 0, rf_size = 0, rf_capacity = 0,
     rf_is_directory = 1, rf_parent_index = 0, rf_in_use = 1, rf_created_time = 0\<rparr>"

definition live_files :: "ram_file list" where
  "live_files = [live_dir 47, live_file, live_dir 100] @ replicate 61 zero_ram_file"

definition live :: shell where
  "live = \<lparr>vram = (\<lambda>_. 0), g_ScreenX = 7, g_ScreenY = 3, ports = [],
     input_lines = replicate 25 (replicate 80 0), line_lengths = replicate 25 0, total_lines_used = 1,
     cursor_line = 2, cursor_pos = 0, shift_pressed = 0, altgr_pressed = 0, caps_lock = 0,
     extended_key = 0, dead_key_state = 0, key_buffer = replicate 256 0, kb_head = 0, kb_tail = 0,
     shell_mode = True,
     mem = demo_mem, heap_start = HEAP_START, heap_initialized = 1,
     s_ticks = 0, g_IDT = g_IDT demo, g_ISRHandlers = g_ISRHandlers demo, g_IRQHandlers = g_IRQHandlers demo,
     g_PicMask = 0xFFFC, g_Driver = True, interrupts_on = True, halted = False,
     virtual_files = replicate 32 zero_file, file_descriptors = replicate 32 zero_desc, fs_initialized = 1,
     syscall_handlers = handler_table, lit_welcome = 0x110000, lit_info = 0x110040,
     ram_files = live_files, ram_file_count = 3, ram_current_dir = 0, ram_initialized = 1,
     ultra_messages = replicate 20 zero_msg, ultra_msg_idx = 0, ultra_initialized = 0,
     scancodes = [], polled = [],
     command_buffer = replicate 256 0, command_pos = 0, sh_cursor = 0, shell_running = True\<rparr>"

lemma live_fields [simp]:
  "ram_files live = live_files" "ram_current_dir live = 0" "ram_initialized live = 1" "ram_file_count live = 3"
  "mem live = demo_mem" "g_ScreenX live = 7" "sh_cursor live = 0" "command_pos live = 0" "scancodes live = []"
  "interrupts_on live" "shell_mode live" "extended_key live = 0" "ultra_initialized live = 0"
  by (simp_all add: live_def)

lemma live_heap: "heap_rel live [(256, False), (0xFFEE8, True)]"
  using demo_heap_rel by (simp add: heap_rel_def live_def demo_fields HEAP_START_def)

lemma live_zero: "k < 32 \<Longrightarrow> virtual_files live ! k = zero_file"
  by (simp add: live_def)

lemma live_user: "user_live live = {(0x40000C, 256)}"
  using heap_live_eq [OF live_heap] live_zero by (auto simp: user_live_def zero_file_def)

lemma live_kernel_ok: "kernel_ok live"
proof -
  have "heap_ok live" using live_heap unfolding heap_ok_def by blast
  moreover have "tables_ok live"
    by (simp add: tables_ok_def live_def zero_file_def zero_desc_def MAX_FILENAME_def)
  moreover have "files_ok live" by (simp add: files_ok_def live_zero) (simp add: zero_file_def)
  ultimately have "fs_ok live" by (simp add: fs_ok_def lits_ok_def live_def)
  moreover have "kbd_wf live" by (simp add: kbd_wf_def kbd_arrays_def ring_ok_def live_def DEAD_NONE_def)
  moreover have "on_screen live" by (simp add: on_screen_def live_def)
  moreover have "tables_set live"
    using demo_kernel_ok by (simp add: kernel_ok_def tables_set_def live_def)
  ultimately show ?thesis by (simp add: kernel_ok_def)
qed

lemma live_nth: "k < 64 \<Longrightarrow> live_files ! k = (if k = 0 then live_dir 47 else if k = 1 then live_file
    else if k = 2 then live_dir 100 else zero_ram_file)"
  by (simp add: live_files_def nth_append nth_Cons' numeral_2_eq_2)

lemma live_taken: "taken live_files = {0, 1, 2}" "dirs live_files = {0, 2}"
proof -
  have len: "length live_files = 64" by (simp add: live_files_def)
  show t: "taken live_files = {0, 1, 2}"
    using len by (auto simp: taken_def live_nth live_dir_def live_file_def zero_ram_file_def split: if_splits)
  show "dirs live_files = {0, 2}" unfolding dirs_def t by (auto simp: live_nth live_dir_def live_file_def)
qed

lemma live_ramfs_ok: "ramfs_ok live"
proof -
  have par: "parent live_files i = 0" if "i < 64" for i
    using that by (auto simp: parent_def live_nth live_dir_def live_file_def zero_ram_file_def)
  have "to_root live_files i" if "i < 64" for i
    by (rule to_root.up) (simp add: par [OF that] to_root.root)
  moreover have "\<forall>i < 64. length (rf_name (live_files ! i)) = 32 \<and> 0 \<in> set (rf_name (live_files ! i))"
    by (simp add: live_nth live_dir_def live_file_def zero_ram_file_def MAX_FILENAME_LEN_def)
  moreover have "length live_files = 64" by (simp add: live_files_def)
  ultimately have "tree_ok live_files" unfolding tree_ok_def live_taken by (simp add: par)
  moreover have "{0, 1, 2} - {0, 2} = {1 :: nat}" by auto
  then have "blocks_ok live_files {(0x40000C, 256)}"
    unfolding blocks_ok_def live_taken by (simp add: live_nth live_file_def live_dir_def)
  ultimately show ?thesis using live_kernel_ok by (simp add: ramfs_ok_def live_user live_taken)
qed

lemma live_find: "ramfs_find_file [102] 0 live = Some 1" "ramfs_find_file [100] 0 live = Some 2"
    "ramfs_find_file [110] 0 live = None" "ramfs_find_free_slot live = Some 3"
proof -
  have e: "rf_in_use (live_files ! i) \<noteq> 0 \<Longrightarrow> i < 64 \<Longrightarrow> i = 0 \<or> i = 1 \<or> i = 2" for i
    by (auto simp: live_nth zero_ram_file_def split: if_splits)
  show "ramfs_find_file [102] 0 live = Some 1" "ramfs_find_file [100] 0 live = Some 2"
    unfolding ramfs_find_file_def MAX_FILES_def live_fields
    by (rule find_upt_SomeI; auto simp: live_nth live_dir_def live_file_def cstr_of_def shell_strcmp_eq_0 less_2_cases_iff)+
  show "ramfs_find_file [110] 0 live = None"
    unfolding ramfs_find_file_def MAX_FILES_def live_fields find_None_iff
  proof (rule notI, elim exE conjE)
    fix i assume i: "i \<in> set [0..<64]" "rf_in_use (live_files ! i) \<noteq> 0"
      "shell_strcmp (cstr_of (rf_name (live_files ! i))) [110] = 0"
    have "i < 64" using i(1) unfolding set_upt by (rule atLeastLessThan_iff [THEN iffD1, THEN conjunct2])
    with e i(2) have "i = 0 \<or> i = 1 \<or> i = 2" by blast
    then show False using i(3)
      by (elim disjE) (simp_all add: live_nth live_dir_def live_file_def cstr_of_def shell_strcmp_eq_0)
  qed
  show "ramfs_find_free_slot live = Some 3"
    unfolding ramfs_find_free_slot_def MAX_FILES_def live_fields
    by (rule find_upt_SomeI) (auto simp: live_nth live_dir_def live_file_def zero_ram_file_def less_Suc_eq numeral_3_eq_3)
qed

lemma live_text: "text_file [102] live = Some 1" "file_bytes live 1 = bytes ''hello''"
proof -
  show "text_file [102] live = Some 1" by (simp add: text_file_def live_find live_taken)
  show "file_bytes live 1 = bytes ''hello''"
    by (simp add: file_bytes_def live_nth live_file_def bytes_at_def bytes_def upt_rec demo_mem_def set_size_def
        set_is_free_def set_next_def st32_outside region_4)
qed

lemma live_at_end: "at_end live" "sh_line live = []"
  using live_kernel_ok by (simp_all add: at_end_def sh_ok_def sh_line_def live_def)

text \<open>Characters wait in the key ring.\<close>

definition live_typed :: "u8 list \<Rightarrow> shell" where
  "live_typed w = live\<lparr>key_buffer := w @ replicate (256 - length w) 0, kb_head := length w\<rparr>"

lemma live_typed_fields [simp]:
  "ram_files (live_typed w) = live_files" "ram_current_dir (live_typed w) = 0" "mem (live_typed w) = demo_mem"
  "g_ScreenX (live_typed w) = 7" "scancodes (live_typed w) = []" "interrupts_on (live_typed w)" "shell_mode (live_typed w)"
  "extended_key (live_typed w) = 0" "virtual_files (live_typed w) = virtual_files live"
  "heap_live (live_typed w) = heap_live live" "ram_file_count (live_typed w) = 3" "ram_initialized (live_typed w) = 1" "ultra_initialized (live_typed w) = 0"
  by (simp_all add: live_typed_def heap_live_def heap_rel_def)

lemma live_typed_ring: "length w < 256 \<Longrightarrow> ring_items (live_typed w) = w"
  by (auto simp: ring_items_def kb_count_def live_typed_def live_def KEYBOARD_BUFFER_SIZE_def nth_append intro!: nth_equalityI)

lemma live_typed_kernel: "length w < 256 \<Longrightarrow> kernel_ok (live_typed w)"
  using live_kernel_ok fs_ok_cong(1) [of "live_typed w" live]
  by (simp add: live_typed_def kernel_ok_def kbd_wf_def kbd_arrays_def ring_ok_def on_screen_def tables_set_def live_def)

lemma live_typed_ramfs: "length w < 256 \<Longrightarrow> ramfs_ok (live_typed w)"
  using live_ramfs_ok live_typed_kernel [of w] by (simp add: ramfs_ok_def user_live_def)

lemma live_typed_end: "length w < 256 \<Longrightarrow> at_end (live_typed w)" "sh_line (live_typed w) = []"
  using live_typed_kernel [of w] by (simp_all add: at_end_def sh_ok_def sh_line_def live_typed_def live_def)

lemma live_typed_find:
  "ramfs_find_file nm d (live_typed w) = ramfs_find_file nm d live" "ramfs_find_free_slot (live_typed w) = Some 3"
  "text_file nm (live_typed w) = text_file nm live" "file_view (live_typed w) k = file_view live k"
proof -
  show f: "ramfs_find_file nm d (live_typed w) = ramfs_find_file nm d live" for nm d by (simp add: ramfs_find_file_def)
  show "ramfs_find_free_slot (live_typed w) = Some 3" using live_find(4) by (simp add: ramfs_find_free_slot_def)
  show "text_file nm (live_typed w) = text_file nm live" by (simp add: text_file_def f del: live_typed_fields(2)) (simp only: live_typed_fields live_fields)
  show "file_view (live_typed w) k = file_view live k" by (simp add: file_view_def file_bytes_def)
qed

lemma live_typed_input: "length w < 256 \<Longrightarrow> input_ok (live_typed w)" "length w < 256 \<Longrightarrow> typed (live_typed w) = w"
  using live_typed_kernel [of w] live_typed_ring [of w] by (simp_all add: input_ok_def typed_def chars_of_def)

text \<open>The machine that the commands run on, with one byte of slack behind the shell's path buffer.\<close>

definition live_machine :: machine where
  "live_machine = \<lparr>m_env = \<lparr>env_irqs = (\<lambda>_. 0), env_regs = no_regs\<rparr>, m_cpuid = (\<lambda>_. (0, 0, 0, 0)), m_regs = no_regs,
     m_behind = [0], m_resets = False,
     m_tests = \<lparr>ta_hello = 0x110100, ta_welcome = 0x110140, ta_test_file = 0x110180, ta_test_data = 0x1101C0,
       ta_buffer = 0x110200, ta_read_buffer = 0x110300, ta_filename = 0x110400, ta_data = 0x110440\<rparr>,
     m_hello = 0x110480\<rparr>"

section \<open>Before the boot\<close>

text \<open>The kernel image as the loader leaves it: all of its variables are zero.\<close>

definition image :: shell where
  "image = \<lparr>vram = (\<lambda>_. 0), g_ScreenX = 0, g_ScreenY = 0, ports = [],
     input_lines = replicate 25 (replicate 80 0), line_lengths = replicate 25 0, total_lines_used = 1,
     cursor_line = 0, cursor_pos = 0, shift_pressed = 0, altgr_pressed = 0, caps_lock = 0,
     extended_key = 0, dead_key_state = 0, key_buffer = replicate 256 0, kb_head = 0, kb_tail = 0,
     shell_mode = False,
     mem = (\<lambda>_. 0), heap_start = 0, heap_initialized = 0,
     s_ticks = 0, g_IDT = g_IDT boot, g_ISRHandlers = replicate 256 None, g_IRQHandlers = replicate 16 None,
     g_PicMask = 0xFFFF, g_Driver = False, interrupts_on = False, halted = False,
     virtual_files = replicate 32 zero_file, file_descriptors = replicate 32 zero_desc, fs_initialized = 0,
     syscall_handlers = handler_table, lit_welcome = 0x110000, lit_info = 0x110040,
     ram_files = replicate 64 zero_ram_file, ram_file_count = 0, ram_current_dir = 0, ram_initialized = 0,
     ultra_messages = replicate 20 zero_msg, ultra_msg_idx = 0, ultra_initialized = 0,
     scancodes = [], polled = [],
     command_buffer = replicate 256 0, command_pos = 0, sh_cursor = 0, shell_running = False\<rparr>"

lemma image_early: "early [] image"
  using boot_tables by (simp add: early_def image_def kbd_wf_def kbd_arrays_def ring_ok_def DEAD_NONE_def ring_items_def
      kb_count_def on_screen_def lits_ok_def logged_def dmesg_ok_def dmesg_texts_def)

end
