(* ===== verification/LoaderIo.thy ===== *)
theory LoaderIo
  imports Stdio
begin

text \<open>
  The freestanding helpers of the boot loader's second stage: its console
  (\<open>src/src/bootloader/stage2/stdio.c\<close>), strings (\<open>string.c\<close>), memory (\<open>memory.c\<close>), character classes
  (\<open>ctype.c\<close>) and \<open>qsort\<close> (\<open>stdlib.c\<close>).  They are copies of the kernel's with differences, and carry the
  prefix \<open>s2\<close> where the kernel has a function of the same name.

  A text is an array of bytes; a function that walks to its NUL is \<^const>\<open>None\<close> when there is none.
\<close>

section \<open>The console\<close>

definition x86_outb :: "u16 \<Rightarrow> u8 \<Rightarrow> 'a vga_scheme \<Rightarrow> 'a vga_scheme" where
  "x86_outb port val s = s\<lparr>ports := ports s @ [(port, val)]\<rparr>"

definition s2_putchr :: "s32 \<Rightarrow> s32 \<Rightarrow> u8 \<Rightarrow> 'a vga_scheme \<Rightarrow> 'a vga_scheme" where
  "s2_putchr x y c s = s\<lparr>vram := (vram s)(2 * (y * SCREEN_WIDTH + x) := c)\<rparr>"

definition s2_putcolor :: "s32 \<Rightarrow> s32 \<Rightarrow> u8 \<Rightarrow> 'a vga_scheme \<Rightarrow> 'a vga_scheme" where
  "s2_putcolor x y color s = s\<lparr>vram := (vram s)(2 * (y * SCREEN_WIDTH + x) + 1 := color)\<rparr>"

definition s2_getchr :: "s32 \<Rightarrow> s32 \<Rightarrow> 'a vga_scheme \<Rightarrow> u8" where
  "s2_getchr x y s = vram s (2 * (y * SCREEN_WIDTH + x))"

definition s2_getcolor :: "s32 \<Rightarrow> s32 \<Rightarrow> 'a vga_scheme \<Rightarrow> u8" where
  "s2_getcolor x y s = vram s (2 * (y * SCREEN_WIDTH + x) + 1)"

definition s2_setcursor :: "s32 \<Rightarrow> s32 \<Rightarrow> 'a vga_scheme \<Rightarrow> 'a vga_scheme" where
  "s2_setcursor x y s =
     (let pos = y * SCREEN_WIDTH + x
      in x86_outb 0x3D5 (ucast (signed_drop_bit 8 pos AND 0xFF)) (x86_outb 0x3D4 0x0E
           (x86_outb 0x3D5 (ucast (pos AND 0xFF)) (x86_outb 0x3D4 0x0F s))))"

definition s2_blank_row :: "u32 \<Rightarrow> 'a vga_scheme \<Rightarrow> 'a vga_scheme" where
  "s2_blank_row y = fold (\<lambda>x s. s2_putcolor (of_nat x) y DEFAULT_COLOR (s2_putchr (of_nat x) y 0 s)) [0..<unat SCREEN_WIDTH]"

definition s2_copy_row :: "u32 \<Rightarrow> u32 \<Rightarrow> 'a vga_scheme \<Rightarrow> 'a vga_scheme" where
  "s2_copy_row lines y = fold (\<lambda>x s.
       let s1 = s2_putchr (of_nat x) (y - lines) (s2_getchr (of_nat x) y s) s
       in s2_putcolor (of_nat x) (y - lines) (s2_getcolor (of_nat x) y s1) s1) [0..<unat SCREEN_WIDTH]"

definition s2_clrscr :: "'a vga_scheme \<Rightarrow> 'a vga_scheme" where
  "s2_clrscr s =
     (let s1 = (fold (\<lambda>y. s2_blank_row (of_nat y)) [0..<unat SCREEN_HEIGHT] s)\<lparr>g_ScreenX := 0, g_ScreenY := 0\<rparr>
      in s2_setcursor (g_ScreenX s1) (g_ScreenY s1) s1)"

definition s2_scrollback :: "s32 \<Rightarrow> 'a vga_scheme \<Rightarrow> 'a vga_scheme" where
  "s2_scrollback lines s =
     (let s1 = fold (\<lambda>y. s2_copy_row lines (of_nat y)) [unat lines..<unat SCREEN_HEIGHT] s;
          s2 = fold (\<lambda>y. s2_blank_row (of_nat y)) [unat (SCREEN_HEIGHT - lines)..<unat SCREEN_HEIGHT] s1
      in s2\<lparr>g_ScreenY := g_ScreenY s2 - lines\<rparr>)"

text \<open>The end of \<open>putc\<close>, its default branch, and the loop of its tab branch, which calls \<open>putc(' ')\<close>.\<close>

definition s2_putc_finish :: "'a vga_scheme \<Rightarrow> 'a vga_scheme" where
  "s2_putc_finish s =
     (let s1 = (if g_ScreenX s \<ge> SCREEN_WIDTH then s\<lparr>g_ScreenY := g_ScreenY s + 1, g_ScreenX := 0\<rparr> else s);
          s2 = (if g_ScreenY s1 \<ge> SCREEN_HEIGHT then s2_scrollback 1 s1 else s1)
      in s2_setcursor (g_ScreenX s2) (g_ScreenY s2) s2)"

definition s2_putc_default :: "u8 \<Rightarrow> 'a vga_scheme \<Rightarrow> 'a vga_scheme" where
  "s2_putc_default c s =
     (let s1 = s2_putchr (g_ScreenX s) (g_ScreenY s) c s in s2_putc_finish (s1\<lparr>g_ScreenX := g_ScreenX s1 + 1\<rparr>))"

function s2_putc_tab :: "nat \<Rightarrow> 'a vga_scheme \<Rightarrow> 'a vga_scheme" where
  "s2_putc_tab i s =
     (if i < 8 \<and> int i < 4 - (sint (g_ScreenX s) smod 4)
      then s2_putc_tab (Suc i) (s2_putc_default 32 (x86_outb 0xE9 32 s)) else s)"
  by pat_completeness auto
termination
  by (relation "measure (\<lambda>(i, s). 8 - i)") auto

declare s2_putc_tab.simps [simp del]

definition s2_putc :: "u8 \<Rightarrow> 'a vga_scheme \<Rightarrow> 'a vga_scheme" where
  "s2_putc c s =
     (let s = x86_outb 0xE9 c s
      in if c = 10 then s2_putc_finish (s\<lparr>g_ScreenX := 0, g_ScreenY := g_ScreenY s + 1\<rparr>)
         else if c = 9 then s2_putc_finish (s2_putc_tab 0 s)
         else if c = 13 then s2_putc_finish (s\<lparr>g_ScreenX := 0\<rparr>)
         else s2_putc_default c s)"

definition s2_puts :: "u8 list \<Rightarrow> 'a vga_scheme \<Rightarrow> 'a vga_scheme" where
  "s2_puts str s = fold s2_putc str s"

definition s2_printf_unsigned :: "u64 \<Rightarrow> nat \<Rightarrow> 'a vga_scheme \<Rightarrow> 'a vga_scheme" where
  "s2_printf_unsigned number radix s = fold s2_putc (rev (digit_loop (unat number) radix)) s"

definition s2_printf_signed :: "u64 \<Rightarrow> nat \<Rightarrow> 'a vga_scheme \<Rightarrow> 'a vga_scheme" where
  "s2_printf_signed number radix s =
     (if number <s 0 then s2_printf_unsigned (- number) radix (s2_putc 45 s) else s2_printf_unsigned number radix s)"

text \<open>The format interpreter is the kernel's, with this \<open>putc\<close> for its output.\<close>

definition s2_printf :: "string \<Rightarrow> va list \<Rightarrow> 'a vga_scheme \<Rightarrow> 'a vga_scheme" where
  "s2_printf fmt args s = vprintf_core s2_putc ST_NORMAL LEN_DEFAULT (bytes fmt) args s"

definition s2_print_buffer :: "u8 list \<Rightarrow> mem \<Rightarrow> u32 \<Rightarrow> u32 \<Rightarrow> 'a vga_scheme \<Rightarrow> 'a vga_scheme option" where
  "s2_print_buffer msg m buffer count s =
     (if unat count \<ge> 2 ^ 16 then None
      else Some (s2_puts [10] (fold (\<lambda>i s.
          let b = m (buffer + of_nat i)
          in s2_putc (g_HexChars ! unat (b AND 0xF)) (s2_putc (g_HexChars ! unat (drop_bit 4 b)) s))
        [0..<unat count] (s2_puts msg s))))"

section \<open>Strings\<close>

text \<open>\<open>strchr\<close>: the index of the first such character before the NUL; NULL is \<^term>\<open>Some None\<close>.\<close>

fun s2_strchr :: "u8 list \<Rightarrow> u8 \<Rightarrow> nat option option" where
  "s2_strchr [] chr = None"
| "s2_strchr (c # cs) chr =
     (if c = 0 then Some None
      else if c = chr then Some (Some 0)
      else map_option (map_option Suc) (s2_strchr cs chr))"

fun s2_strlen :: "u8 list \<Rightarrow> nat option" where
  "s2_strlen [] = None"
| "s2_strlen (c # cs) = (if c = 0 then Some 0 else map_option Suc (s2_strlen cs))"

fun s2_strcpy :: "u8 list \<Rightarrow> u8 list \<Rightarrow> u8 list option" where
  "s2_strcpy [] src = None"
| "s2_strcpy dst [] = None"
| "s2_strcpy (d # ds) (c # cs) = (if c = 0 then Some (0 # ds) else map_option ((#) c) (s2_strcpy ds cs))"

fun s2_strcmp :: "u8 list \<Rightarrow> u8 list \<Rightarrow> s32 option" where
  "s2_strcmp [] bs = None"
| "s2_strcmp as [] = None"
| "s2_strcmp (a # as) (b # bs) =
     (if a \<noteq> 0 \<and> b \<noteq> 0 \<and> a = b then s2_strcmp as bs else Some (scast a - scast b))"

text \<open>
  \<open>utf16_to_codepoint\<close>: how many units are consumed, and the code point.  The value computed for a
  surrogate pair is overwritten by its first unit.
\<close>

definition utf16_to_codepoint :: "u32 list \<Rightarrow> (nat \<times> u32) option" where
  "utf16_to_codepoint string = do {
     c1 \<leftarrow> arr_get string 0;
     if 0xD800 \<le>s c1 \<and> c1 <s 0xDC00 then do { c2 \<leftarrow> arr_get string 1; Some (2, c1) } else Some (1, c1) }"

text \<open>
  \<open>codepoint_to_utf8\<close>: the bytes stored and by how much the output pointer moves; for one byte it
  does not.
\<close>

definition codepoint_to_utf8 :: "u32 \<Rightarrow> u8 list \<times> nat" where
  "codepoint_to_utf8 cp =
     (let tail = (\<lambda>k. 0x80 OR ucast (signed_drop_bit k cp AND 0x3F) :: u8)
      in if cp \<le>s 0x7F then ([ucast cp], 0)
         else if cp \<le>s 0x7FF then ([0xC0 OR ucast (signed_drop_bit 6 cp AND 0x1F), tail 0], 2)
         else if cp \<le>s 0xFFFF then ([0xE0 OR ucast (signed_drop_bit 12 cp AND 0xF), tail 6, tail 0], 3)
         else if cp \<le>s 0x1FFFFF then ([0xF0 OR ucast (signed_drop_bit 18 cp AND 7), tail 12, tail 6, tail 0], 4)
         else ([], 0))"

section \<open>Memory and character classes\<close>

definition s2_memcpy :: "mem \<Rightarrow> u32 \<Rightarrow> u32 \<Rightarrow> u16 \<Rightarrow> mem" where
  "s2_memcpy m dst src num = fold (\<lambda>i m. m(dst + of_nat i := m (src + of_nat i))) [0..<unat num] m"

definition s2_memset :: "mem \<Rightarrow> u32 \<Rightarrow> u32 \<Rightarrow> u32 \<Rightarrow> mem" where
  "s2_memset m p c n = fold (\<lambda>i m. m(p + of_nat i := ucast c)) [0..<unat n] m"

fun s2_memcmp :: "u8 list \<Rightarrow> u8 list \<Rightarrow> nat \<Rightarrow> s32 option" where
  "s2_memcmp as bs 0 = Some 0"
| "s2_memcmp (a # as) (b # bs) (Suc n) = (if a \<noteq> b then Some 1 else s2_memcmp as bs n)"
| "s2_memcmp as bs (Suc n) = None"

definition segoffset_to_linear :: "u32 \<Rightarrow> u32" where
  "segoffset_to_linear addr = (let offset = addr AND 0xFFFF; segment = drop_bit 16 addr in segment * 16 + offset)"

definition s2_islower :: "u8 \<Rightarrow> bool" where
  "s2_islower chr \<longleftrightarrow> 97 \<le>s chr \<and> chr \<le>s 122"

definition s2_toupper :: "u8 \<Rightarrow> u8" where
  "s2_toupper chr = (if s2_islower chr then chr - 97 + 65 else chr)"

section \<open>qsort\<close>

text \<open>
  The elements are the list; \<open>compar\<close> is the comparison on their values.  \<open>pivot\<close> points at an
  element, so an exchange of that element changes it.  \<open>left\<close> and \<open>right\<close> are of type \<open>size_t\<close>, \<open>i\<close> and
  \<open>j\<close> of type \<open>int\<close>.
\<close>

partial_function (option) scan_up :: "('a \<Rightarrow> 'a \<Rightarrow> int) \<Rightarrow> 'a list \<Rightarrow> nat \<Rightarrow> int \<Rightarrow> int option" where
  "scan_up compar xs p i = do {
     a \<leftarrow> arr_get xs i;
     v \<leftarrow> arr_get xs (int p);
     if compar a v < 0 then scan_up compar xs p (i + 1) else Some i }"

partial_function (option) scan_down :: "('a \<Rightarrow> 'a \<Rightarrow> int) \<Rightarrow> 'a list \<Rightarrow> nat \<Rightarrow> int \<Rightarrow> int option" where
  "scan_down compar xs p j = do {
     v \<leftarrow> arr_get xs (int p);
     a \<leftarrow> arr_get xs j;
     if compar v a < 0 then scan_down compar xs p (j - 1) else Some j }"

partial_function (option) partition_loop ::
    "('a \<Rightarrow> 'a \<Rightarrow> int) \<Rightarrow> nat \<Rightarrow> 'a list \<Rightarrow> int \<Rightarrow> int \<Rightarrow> ('a list \<times> int \<times> int) option" where
  "partition_loop compar p xs i j = do {
     i \<leftarrow> scan_up compar xs p i;
     j \<leftarrow> scan_down compar xs p j;
     if i \<ge> j then Some (xs, i, j)
     else do {
       a \<leftarrow> arr_get xs i;
       b \<leftarrow> arr_get xs j;
       xs \<leftarrow> arr_set xs i b;
       xs \<leftarrow> arr_set xs j a;
       partition_loop compar p xs (i + 1) (j - 1) } }"

partial_function (option) qsort_internal ::
    "('a \<Rightarrow> 'a \<Rightarrow> int) \<Rightarrow> u32 \<Rightarrow> u32 \<Rightarrow> 'a list \<Rightarrow> 'a list option" where
  "qsort_internal compar left right xs =
     (if left \<ge> right then Some xs
      else do {
        (xs, i, j) \<leftarrow> partition_loop compar (unat left) xs (sint left) (sint right);
        xs \<leftarrow> qsort_internal compar left (of_int (i - 1)) xs;
        qsort_internal compar (of_int (j + 1)) right xs })"

definition s2_qsort :: "('a \<Rightarrow> 'a \<Rightarrow> int) \<Rightarrow> u32 \<Rightarrow> 'a list \<Rightarrow> 'a list option" where
  "s2_qsort compar num xs = qsort_internal compar 0 (num - 1) xs"

section \<open>The console as the kernel's\<close>

lemma s2_cells: "s2_putchr = VGA_putchr" "s2_putcolor = VGA_putcolor" "s2_getchr = VGA_getchr" "s2_getcolor = VGA_getcolor"
  "x86_outb = i686_outb" "s2_setcursor = VGA_setcursor"
  by (simp_all add: fun_eq_iff s2_putchr_def VGA_putchr_def s2_putcolor_def VGA_putcolor_def s2_getchr_def VGA_getchr_def
      s2_getcolor_def VGA_getcolor_def x86_outb_def i686_outb_def s2_setcursor_def VGA_setcursor_def Let_def)

lemma s2_rows: "s2_blank_row = blank_row" "s2_copy_row = copy_row" "s2_scrollback = VGA_scrollback" "s2_clrscr = VGA_clrscr"
proof -
  show r: "s2_blank_row = blank_row" "s2_copy_row = copy_row"
    by (simp_all add: fun_eq_iff s2_blank_row_def blank_row_def s2_copy_row_def copy_row_def s2_cells)
  show "s2_scrollback = VGA_scrollback" "s2_clrscr = VGA_clrscr"
    by (simp_all add: fun_eq_iff s2_scrollback_def VGA_scrollback_def s2_clrscr_def VGA_clrscr_def r s2_cells Let_def)
qed

lemma s2_default: "s2_putc_finish = putc_finish" "s2_putc_default = putc_default"
proof -
  show f: "s2_putc_finish = putc_finish"
    by (simp add: fun_eq_iff s2_putc_finish_def putc_finish_def s2_rows s2_cells Let_def)
  show "s2_putc_default = putc_default"
    by (simp add: fun_eq_iff s2_putc_default_def putc_default_def f s2_cells Let_def)
qed

text \<open>Two states that look the same, whatever was sent to the ports.\<close>

definition same_screen :: "'a vga_scheme \<Rightarrow> 'a vga_scheme \<Rightarrow> bool" where
  "same_screen s t \<longleftrightarrow> vram s = vram t \<and> g_ScreenX s = g_ScreenX t \<and> g_ScreenY s = g_ScreenY t \<and> vga.more s = vga.more t"

lemma same_screen_refl [simp]: "same_screen s s"
  by (simp add: same_screen_def)

lemma fold_same:
  assumes "\<And>x s t. same_screen s t \<Longrightarrow> same_screen (f x s) (g x t)" "same_screen s t"
  shows "same_screen (fold f xs s) (fold g xs t)"
  using assms(2) by (induction xs arbitrary: s t) (simp_all add: assms(1))

lemma cells_same:
  assumes "same_screen s t"
  shows "same_screen (VGA_putchr x y c s) (VGA_putchr x y c t)" "same_screen (VGA_putcolor x y k s) (VGA_putcolor x y k t)"
    "VGA_getchr x y s = VGA_getchr x y t" "VGA_getcolor x y s = VGA_getcolor x y t"
    "same_screen (i686_outb p v s) t" "same_screen s (i686_outb p v t)" "same_screen (VGA_setcursor a b s) (VGA_setcursor a b t)"
    "same_screen (s\<lparr>g_ScreenX := a\<rparr>) (t\<lparr>g_ScreenX := a\<rparr>)" "same_screen (s\<lparr>g_ScreenY := a\<rparr>) (t\<lparr>g_ScreenY := a\<rparr>)"
    "g_ScreenX s = g_ScreenX t" "g_ScreenY s = g_ScreenY t"
  using assms by (simp_all add: same_screen_def VGA_putchr_def VGA_putcolor_def VGA_getchr_def VGA_getcolor_def
      i686_outb_def VGA_setcursor_def Let_def)

lemma rows_same:
  assumes "same_screen s t"
  shows "same_screen (blank_row y s) (blank_row y t)" "same_screen (copy_row n y s) (copy_row n y t)"
    "same_screen (VGA_scrollback n s) (VGA_scrollback n t)"
proof -
  have b: "same_screen (blank_row y s) (blank_row y t)" if "same_screen s t" for y and s t :: "'a vga_scheme"
    unfolding blank_row_def by (rule fold_same [OF _ that]) (intro cells_same(1,2))
  have c: "same_screen (copy_row n y s) (copy_row n y t)" if "same_screen s t" for y and s t :: "'a vga_scheme"
    unfolding copy_row_def Let_def
  proof (rule fold_same [OF _ that])
    fix x and u v :: "'a vga_scheme"
    assume uv: "same_screen u v"
    have w: "same_screen (VGA_putchr (of_nat x) (y - n) (VGA_getchr (of_nat x) y u) u)
        (VGA_putchr (of_nat x) (y - n) (VGA_getchr (of_nat x) y v) v)"
      by (simp only: cells_same(3) [OF uv] cells_same(1) [OF uv])
    show "same_screen (VGA_putcolor (of_nat x) (y - n) (VGA_getcolor (of_nat x) y (VGA_putchr (of_nat x) (y - n) (VGA_getchr (of_nat x) y u) u))
          (VGA_putchr (of_nat x) (y - n) (VGA_getchr (of_nat x) y u) u))
        (VGA_putcolor (of_nat x) (y - n) (VGA_getcolor (of_nat x) y (VGA_putchr (of_nat x) (y - n) (VGA_getchr (of_nat x) y v) v))
          (VGA_putchr (of_nat x) (y - n) (VGA_getchr (of_nat x) y v) v))"
      by (simp only: cells_same(4) [OF w] cells_same(2) [OF w])
  qed
  show "same_screen (blank_row y s) (blank_row y t)" "same_screen (copy_row n y s) (copy_row n y t)"
    using assms by (rule b c)+
  show "same_screen (VGA_scrollback n s) (VGA_scrollback n t)"
  proof -
    have "same_screen (fold (\<lambda>y. copy_row n (of_nat y)) [unat n..<unat SCREEN_HEIGHT] s)
        (fold (\<lambda>y. copy_row n (of_nat y)) [unat n..<unat SCREEN_HEIGHT] t)"
      by (rule fold_same [OF c assms])
    then have "same_screen (fold (\<lambda>y. blank_row (of_nat y)) [unat (SCREEN_HEIGHT - n)..<unat SCREEN_HEIGHT]
          (fold (\<lambda>y. copy_row n (of_nat y)) [unat n..<unat SCREEN_HEIGHT] s))
        (fold (\<lambda>y. blank_row (of_nat y)) [unat (SCREEN_HEIGHT - n)..<unat SCREEN_HEIGHT]
          (fold (\<lambda>y. copy_row n (of_nat y)) [unat n..<unat SCREEN_HEIGHT] t))"
      by (rule fold_same [rotated]) (rule b)
    then show ?thesis unfolding VGA_scrollback_def Let_def by (simp add: same_screen_def)
  qed
qed

lemma finish_same:
  assumes "same_screen s t"
  shows "same_screen (putc_finish s) (putc_finish t)" "same_screen (putc_default c s) (putc_default c t)"
proof -
  have f: "same_screen (putc_finish s) (putc_finish t)" if st: "same_screen s t" for s t :: "'a vga_scheme"
  proof -
    define wrap where "wrap u = (if g_ScreenX u \<ge> SCREEN_WIDTH
      then u\<lparr>g_ScreenY := g_ScreenY u + 1, g_ScreenX := 0\<rparr> else u)" for u :: "'a vga_scheme"
    define scroll where "scroll u = (if g_ScreenY u \<ge> SCREEN_HEIGHT then VGA_scrollback 1 u else u)" for u :: "'a vga_scheme"
    have "same_screen (wrap s) (wrap t)" using st by (simp add: wrap_def same_screen_def)
    then have "same_screen (scroll (wrap s)) (scroll (wrap t))"
      using rows_same(3) [of "wrap s" "wrap t" 1] by (simp add: scroll_def cells_same(11))
    moreover have "putc_finish u = VGA_setcursor (g_ScreenX (scroll (wrap u))) (g_ScreenY (scroll (wrap u))) (scroll (wrap u))" for u
      by (simp only: putc_finish_def Let_def wrap_def scroll_def)
    ultimately show ?thesis by (simp add: cells_same(7,10,11))
  qed
  show "same_screen (putc_finish s) (putc_finish t)" using assms by (rule f)
  show "same_screen (putc_default c s) (putc_default c t)"
    unfolding putc_default_def Let_def
    by (rule f) (use assms in \<open>simp add: same_screen_def VGA_putchr_def\<close>)
qed

lemma tab_same: "same_screen s t \<Longrightarrow> same_screen (s2_putc_tab i s) (putc_tab i t)"
proof (induction i s arbitrary: t rule: s2_putc_tab.induct)
  case (1 i s)
  have "same_screen (putc_default 32 (i686_outb 0xE9 32 s)) (putc_default 32 t)"
    by (rule finish_same(2) [OF cells_same(5) [OF 1(2)]])
  then show ?case using 1 cells_same(10) [OF 1(2)]
    by (subst s2_putc_tab.simps, subst putc_tab.simps) (simp add: s2_default s2_cells)
qed

text \<open>The loader draws every character as the kernel does; it also sends it to the debug port.\<close>

lemma putc_same: "same_screen s t \<Longrightarrow> same_screen (s2_putc c s) (VGA_putc c t)"
proof -
  assume st: "same_screen s t"
  let ?s = "i686_outb 0xE9 c s"
  have s: "same_screen ?s t" by (rule cells_same(5) [OF st])
  have "same_screen (?s\<lparr>g_ScreenX := 0, g_ScreenY := g_ScreenY ?s + 1\<rparr>) (t\<lparr>g_ScreenX := 0, g_ScreenY := g_ScreenY t + 1\<rparr>)"
    "same_screen (?s\<lparr>g_ScreenX := 0\<rparr>) (t\<lparr>g_ScreenX := 0\<rparr>)" using s by (simp_all add: same_screen_def)
  note f = this [THEN finish_same(1)] finish_same(2) [OF s] finish_same(1) [OF tab_same [OF s, of 0]]
  show ?thesis using f by (auto simp: s2_putc_def VGA_putc_def s2_default s2_cells Let_def)
qed

lemma puts_same: "same_screen s t \<Longrightarrow> same_screen (s2_puts str s) (fold VGA_putc str t)"
  unfolding s2_puts_def by (rule fold_same) (rule putc_same)

lemma printf_same: "same_screen s t \<Longrightarrow> same_screen (s2_printf fmt args s) (printf fmt args t)"
proof -
  assume st: "same_screen s t"
  have "s2_printf fmt args s = s2_puts (expand (bytes fmt) args) s"
    unfolding s2_printf_def s2_puts_def expand_def by (rule vprintf_core_fold)
  moreover have "printf fmt args t = fold VGA_putc (expand (bytes fmt) args) t"
    by (simp add: printf_def vfprintf_expand fputs_def fputc_cases [abs_def])
  ultimately show ?thesis using puts_same [OF st] by simp
qed

lemma s2_printf_more [simp]: "vga.more (s2_printf fmt args s) = vga.more s"
  using printf_same [of s s fmt args] by (simp add: same_screen_def printf_def vfprintf_expand fputs_def fputc_cases [abs_def]
      fold_inv [of "\<lambda>u. vga.more u = vga.more s"])

end
