(* ===== verification/LoaderDisk.thy ===== *)
theory LoaderDisk
  imports LoaderIo
begin

text \<open>
  Sector access of the boot loader: \<open>disk.c\<close>, \<open>mbr.c\<close> and the BIOS calls of \<open>x86.asm\<close>
  (\<open>src/src/bootloader/stage2\<close>).

  The BIOS is a parameter, the record \<open>bios\<close>: what \<open>int 13h\<close> and \<open>int 15h\<close> answer.  A disk read may
  fail and then succeed when it is repeated, so its answer may depend on how many requests there
  were before (\<open>bios_calls\<close>).  What it answers is whether the carry flag is clear and the bytes that
  it stored at the address given, also when it failed.
\<close>

section \<open>The BIOS\<close>

record E820MemoryBlock =
  e820_Base :: u64
  e820_Length :: u64
  e820_Type :: u32
  e820_ACPI :: u32

text \<open>
  \<open>int13_params dl\<close>: the registers \<open>bl\<close>, \<open>ch\<close>, \<open>cl\<close> and \<open>dh\<close>.  \<open>int13_read n dl ch cl dh al\<close>.
  \<open>int15_e820 ebx\<close>: the block, \<open>ecx\<close> and the next \<open>ebx\<close>, when \<open>eax\<close> is the signature.
\<close>

record bios =
  int13_params :: "u8 \<Rightarrow> (u8 \<times> u8 \<times> u8 \<times> u8) option"
  int13_read :: "nat \<Rightarrow> u8 \<Rightarrow> u8 \<Rightarrow> u8 \<Rightarrow> u8 \<Rightarrow> u8 \<Rightarrow> bool \<times> u8 list"
  int15_e820 :: "u32 \<Rightarrow> (E820MemoryBlock \<times> u32 \<times> u32) option"

record disk_io = vga +
  bios_calls :: nat

text \<open>Drive type, cylinders, sectors, heads; \<^const>\<open>None\<close> is the result false.\<close>

definition x86_Disk_GetDriveParams :: "bios \<Rightarrow> u8 \<Rightarrow> (u8 \<times> u16 \<times> u16 \<times> u16) option" where
  "x86_Disk_GetDriveParams B drive =
     map_option (\<lambda>(bl, ch, cl, dh).
       (bl, (push_bit 8 (ucast (drop_bit 6 cl)) OR ucast ch) + 1, ucast (cl AND 0x3F), ucast dh + 1)) (int13_params B drive)"

definition x86_Disk_Reset :: "u8 \<Rightarrow> 'a disk_io_scheme \<Rightarrow> 'a disk_io_scheme" where
  "x86_Disk_Reset drive s = s\<lparr>bios_calls := bios_calls s + 1\<rparr>"

text \<open>\<open>data\<close> is the memory at the address given, an array of the caller; it is returned updated.\<close>

definition x86_Disk_Read ::
    "bios \<Rightarrow> u8 \<Rightarrow> u16 \<Rightarrow> u16 \<Rightarrow> u16 \<Rightarrow> u8 \<Rightarrow> u8 list \<Rightarrow> 'a disk_io_scheme \<Rightarrow> (bool \<times> u8 list \<times> 'a disk_io_scheme) option" where
  "x86_Disk_Read B drive cylinder sector head count data s =
     (let ch = ucast cylinder;
          cl = push_bit 6 (ucast (drop_bit 8 cylinder)) OR (ucast sector AND 0x3F);
          (ok, out) = int13_read B (bios_calls s) drive ch cl (ucast head) count
      in if length out \<le> length data
         then Some (ok, out @ drop (length out) data, s\<lparr>bios_calls := bios_calls s + 1\<rparr>) else None)"

text \<open>An answer of less than 24 bytes has no \<open>ACPI\<close> field: that of the caller's \<open>block\<close> stays.\<close>

definition x86_E820GetNextBlock :: "bios \<Rightarrow> E820MemoryBlock \<Rightarrow> u32 \<Rightarrow> s32 \<times> E820MemoryBlock \<times> u32" where
  "x86_E820GetNextBlock B block continuation =
     (case int15_e820 B continuation of
        Some (answer, ecx, ebx) \<Rightarrow>
          (ecx, if unat ecx < 24 then answer\<lparr>e820_ACPI := e820_ACPI block\<rparr> else answer, ebx)
      | None \<Rightarrow> (- 1, block, continuation))"

section \<open>disk.c\<close>

record DISK =
  disk_id :: u8
  disk_cylinders :: u16
  disk_sectors :: u16
  disk_heads :: u16

text \<open>\<^const>\<open>None\<close> is the result false.\<close>

definition DISK_Initialize :: "bios \<Rightarrow> u8 \<Rightarrow> DISK option" where
  "DISK_Initialize B driveNumber =
     map_option (\<lambda>(ty, cyl, sec, hd). \<lparr>disk_id = driveNumber, disk_cylinders = cyl, disk_sectors = sec, disk_heads = hd\<rparr>)
       (x86_Disk_GetDriveParams B driveNumber)"

text \<open>Cylinder, sector and head.  A disk without sectors or heads is a division by zero.\<close>

definition DISK_LBA2CHS :: "DISK \<Rightarrow> u32 \<Rightarrow> (u16 \<times> u16 \<times> u16) option" where
  "DISK_LBA2CHS disk lba =
     (let spt = ucast (disk_sectors disk); hds = ucast (disk_heads disk)
      in if spt = 0 \<or> hds = 0 then None
         else Some (ucast (lba div spt div hds), ucast (lba mod spt + 1), ucast (lba div spt mod hds)))"

fun read_attempts ::
    "nat \<Rightarrow> bios \<Rightarrow> DISK \<Rightarrow> u16 \<times> u16 \<times> u16 \<Rightarrow> u8 \<Rightarrow> u8 list \<Rightarrow> 'a disk_io_scheme \<Rightarrow>
       (bool \<times> u8 list \<times> 'a disk_io_scheme) option" where
  "read_attempts 0 B disk chs count data s = Some (False, data, s)"
| "read_attempts (Suc n) B disk (cylinder, sector, head) count data s = do {
     (ok, data, s) \<leftarrow> x86_Disk_Read B (disk_id disk) cylinder sector head count data s;
     if ok then Some (True, data, s)
     else read_attempts n B disk (cylinder, sector, head) count data (x86_Disk_Reset (disk_id disk) s) }"

definition DISK_ReadSectors ::
    "bios \<Rightarrow> DISK \<Rightarrow> u32 \<Rightarrow> u8 \<Rightarrow> u8 list \<Rightarrow> 'a disk_io_scheme \<Rightarrow> (bool \<times> u8 list \<times> 'a disk_io_scheme) option" where
  "DISK_ReadSectors B disk lba count data s = do {
     chs \<leftarrow> DISK_LBA2CHS disk lba;
     read_attempts 3 B disk chs count data s }"

section \<open>mbr.c\<close>

record Partition =
  part_disk :: DISK
  partitionOffset :: u32
  partitionSize :: u32

text \<open>The partition entry lies in the memory \<open>m\<close>: its start at byte 8, its size at byte 12.\<close>

definition MBR_DetectPartition :: "DISK \<Rightarrow> mem \<Rightarrow> u32 \<Rightarrow> Partition" where
  "MBR_DetectPartition disk m entry_ptr =
     (if disk_id disk < 0x80 then
        \<lparr>part_disk = disk, partitionOffset = 0,
          partitionSize = ucast (disk_cylinders disk) * ucast (disk_heads disk) * ucast (disk_sectors disk)\<rparr>
      else
        (let entry = segoffset_to_linear entry_ptr
         in \<lparr>part_disk = disk, partitionOffset = ld32 m (entry + 8), partitionSize = ld32 m (entry + 12)\<rparr>))"

definition Partition_ReadSectors ::
    "bios \<Rightarrow> Partition \<Rightarrow> u32 \<Rightarrow> u8 \<Rightarrow> u8 list \<Rightarrow> 'a disk_io_scheme \<Rightarrow> (bool \<times> u8 list \<times> 'a disk_io_scheme) option" where
  "Partition_ReadSectors B part lba count data s =
     DISK_ReadSectors B (part_disk part) (lba + partitionOffset part) count data s"

section \<open>Addressing\<close>

text \<open>
  The geometry that the BIOS interface can express: ten bits for the cylinder, six for the sector,
  eight for the head; and the number of sectors of such a disk.
\<close>

definition chs_ok :: "DISK \<Rightarrow> bool" where
  "chs_ok d \<longleftrightarrow> 0 < disk_sectors d \<and> disk_sectors d \<le> 63 \<and> 0 < disk_heads d \<and> disk_heads d \<le> 256 \<and>
     disk_cylinders d \<le> 1024"

definition chs_limit :: "DISK \<Rightarrow> nat" where
  "chs_limit d = unat (disk_cylinders d) * unat (disk_heads d) * unat (disk_sectors d)"

text \<open>The sector that the BIOS reads for the values of \<open>ch\<close>, \<open>cl\<close> and \<open>dh\<close>.\<close>

definition chs_sector :: "DISK \<Rightarrow> u8 \<Rightarrow> u8 \<Rightarrow> u8 \<Rightarrow> nat" where
  "chs_sector d ch cl dh =
     ((unat ch + 256 * unat (drop_bit 6 cl)) * unat (disk_heads d) + unat dh) * unat (disk_sectors d) + unat (cl AND 0x3F) - 1"

text \<open>
  A request that makes sense to the BIOS: a cylinder, head and sector of the disk, and 1 to 128 sectors
  from there that the disk has.
\<close>

definition request_ok :: "DISK \<Rightarrow> u8 \<Rightarrow> u8 \<Rightarrow> u8 \<Rightarrow> u8 \<Rightarrow> bool" where
  "request_ok d ch cl dh count \<longleftrightarrow> unat ch + 256 * unat (drop_bit 6 cl) < unat (disk_cylinders d) \<and> unat dh < unat (disk_heads d) \<and>
     1 \<le> unat (cl AND 0x3F) \<and> unat (cl AND 0x3F) \<le> unat (disk_sectors d) \<and> 1 \<le> unat count \<and> unat count \<le> 128 \<and>
     chs_sector d ch cl dh + unat count \<le> chs_limit d"

lemma u16_of_u32: "unat (w :: u32) < 2 ^ 16 \<Longrightarrow> unat (ucast w :: u16) = unat w"
  by (simp add: unsigned_ucast_eq take_bit_nat_eq_self)

lemma u16_less: "unat (w :: u16) < 65536"
  using unsigned_less [of w] by simp

lemma unat_u16_u32: "unat (ucast (w :: u16) :: u32) = unat w"
  using u16_less [of w] by (simp add: unsigned_ucast_eq take_bit_nat_eq_self)

text \<open>The registers hold the cylinder, head and sector.\<close>

lemma mask_6: "(0x3F :: u8) = mask 6"
  by (simp add: mask_eq_exp_minus_1)

lemma pack_cylinder:
  fixes c :: u16
  assumes "unat c < 1024"
  shows "unat (ucast c :: u8) + 256 * unat (drop_bit 6 (push_bit 6 (ucast (drop_bit 8 c)) OR (x AND 0x3F)) :: u8) = unat c"
proof -
  have "drop_bit 6 (push_bit 6 (ucast (drop_bit 8 c)) OR (x AND 0x3F)) = (take_bit 2 (ucast (drop_bit 8 c)) :: u8)"
    unfolding mask_6 by (rule bit_word_eqI) (auto simp: bit_simps)
  moreover have "unat (take_bit 2 (ucast (drop_bit 8 c)) :: u8) = unat c div 256 mod 4"
    using u16_less [of c] by (simp only: unsigned_take_bit_eq unsigned_ucast_eq unsigned_drop_bit_eq)
      (simp add: take_bit_eq_mod drop_bit_eq_div mod_mod_cancel)
  moreover have "unat (ucast c :: u8) = unat c mod 256"
    by (simp add: unsigned_ucast_eq take_bit_eq_mod)
  moreover have "unat c div 256 < 4" using assms by simp
  ultimately show ?thesis by simp
qed

lemma pack_sector: "unat ((push_bit 6 y OR (ucast (c :: u16) AND 0x3F)) AND 0x3F :: u8) = unat c mod 64"
proof -
  have "(push_bit 6 y OR (ucast c AND 0x3F)) AND 0x3F = (take_bit 6 (ucast c) :: u8)"
    unfolding mask_6 by (rule bit_word_eqI) (auto simp: bit_simps)
  moreover have "unat (take_bit 6 (ucast c) :: u8) = unat c mod 64"
    by (simp only: unsigned_take_bit_eq unsigned_ucast_eq) (simp add: take_bit_eq_mod mod_mod_cancel)
  ultimately show ?thesis by simp
qed

text \<open>An address on the disk comes back from its cylinder, head and sector, and these fit the registers.\<close>

lemma LBA2CHS_ok:
  assumes d: "chs_ok d" and lba: "unat lba < chs_limit d"
  shows "\<exists>c sec hd. DISK_LBA2CHS d lba = Some (c, sec, hd) \<and>
    (unat c * unat (disk_heads d) + unat hd) * unat (disk_sectors d) + unat sec - 1 = unat lba \<and>
    unat c < unat (disk_cylinders d) \<and> unat c < 1024 \<and> 1 \<le> unat sec \<and> unat sec \<le> unat (disk_sectors d) \<and> unat hd < unat (disk_heads d)"
proof -
  define S H C L where "S = unat (disk_sectors d)" and "H = unat (disk_heads d)" and "C = unat (disk_cylinders d)" and "L = unat lba"
  have S: "0 < S" "S \<le> 63" and H: "0 < H" "H \<le> 256" and C: "C \<le> 1024"
    using d by (simp_all add: chs_ok_def S_def H_def C_def word_less_nat_alt word_le_nat_alt)
  have L: "L < C * H * S" using lba by (simp add: chs_limit_def L_def H_def S_def C_def)
  let ?c = "L div S div H" and ?h = "L div S mod H" and ?s = "L mod S + 1"
  have "L div S < C * H" using L S(1) by (simp add: less_mult_imp_div_less)
  then have cC: "?c < C" by (simp add: less_mult_imp_div_less)
  with C have c: "?c < 1024" by simp
  have h: "?h < H" "?h < 256" and s: "?s \<le> S" using S H by (simp_all add: Suc_le_eq) (meson H less_le_trans mod_less_divisor)
  have nz: "(ucast (disk_sectors d) :: u32) \<noteq> 0" "(ucast (disk_heads d) :: u32) \<noteq> 0"
    using S(1) H(1) unfolding S_def H_def by (metis unat_u16_u32 unat_0 less_numeral_extra(3))+
  have u: "unat (ucast (lba div ucast (disk_sectors d) div ucast (disk_heads d)) :: u16) = ?c"
      "unat (ucast (lba mod ucast (disk_sectors d) + 1) :: u16) = ?s"
      "unat (ucast (lba div ucast (disk_sectors d) mod ucast (disk_heads d)) :: u16) = ?h"
  proof -
    have e: "unat (lba div ucast (disk_sectors d) div ucast (disk_heads d)) = ?c"
        "unat (lba div ucast (disk_sectors d) mod ucast (disk_heads d)) = ?h"
        "unat (lba mod ucast (disk_sectors d)) = L mod S"
      by (simp_all add: unat_div_distrib unat_mod_distrib unat_u16_u32 S_def H_def L_def)
    have "unat (lba mod ucast (disk_sectors d) + 1) = ?s"
      using e(3) s S by (simp add: unat_word_ariths)
    then show "unat (ucast (lba mod ucast (disk_sectors d) + 1) :: u16) = ?s" using s S by (simp add: u16_of_u32)
    show "unat (ucast (lba div ucast (disk_sectors d) div ucast (disk_heads d)) :: u16) = ?c" using c e(1) by (simp add: u16_of_u32)
    show "unat (ucast (lba div ucast (disk_sectors d) mod ucast (disk_heads d)) :: u16) = ?h" using h e(2) by (simp add: u16_of_u32)
  qed
  have "(?c * H + ?h) * S + ?s - 1 = L" by simp
  then show ?thesis using u c cC h(1) s nz unfolding S_def [symmetric] H_def [symmetric] C_def [symmetric] L_def [symmetric]
    by (simp add: DISK_LBA2CHS_def Let_def S_def H_def)
qed

section \<open>A disk that works in the end\<close>

text \<open>
  What the loader relies on, for the requests that make sense: one that succeeds stores exactly the
  sectors asked for (also those behind the end of a track), one that fails stores no more than these,
  and of three attempts (each but the last followed by a reset) one succeeds.  \<open>img l\<close> is the
  content of sector \<open>l\<close> of the disk.
\<close>

definition sectors_of :: "(nat \<Rightarrow> u8 list) \<Rightarrow> nat \<Rightarrow> nat \<Rightarrow> u8 list" where
  "sectors_of img l n = concat (map img [l..<l + n])"

definition serves :: "bios \<Rightarrow> DISK \<Rightarrow> (nat \<Rightarrow> u8 list) \<Rightarrow> bool" where
  "serves B d img \<longleftrightarrow> (\<forall>l. length (img l) = 512) \<and>
     (\<forall>n ch cl dh count. request_ok d ch cl dh count \<longrightarrow> length (snd (int13_read B n (disk_id d) ch cl dh count)) \<le> 512 * unat count \<and>
       (fst (int13_read B n (disk_id d) ch cl dh count) \<longrightarrow>
          snd (int13_read B n (disk_id d) ch cl dh count) = sectors_of img (chs_sector d ch cl dh) (unat count)) \<and>
       (\<exists>k < 3. fst (int13_read B (n + 2 * k) (disk_id d) ch cl dh count)))"

lemma length_sectors [simp]: "serves B d img \<Longrightarrow> length (sectors_of img l n) = 512 * n"
  by (induction n) (simp_all add: sectors_of_def serves_def)

lemma sectors_Suc: "sectors_of img l (Suc n) = sectors_of img l n @ img (l + n)"
  by (simp add: sectors_of_def)

lemma sectors_1 [simp]: "sectors_of img l 1 = img l" "sectors_of img l (Suc 0) = img l"
  by (simp_all add: sectors_of_def)

lemma attempts_ok:
  assumes B: "serves B d img" and data: "512 * unat count \<le> length data"
    and ok: "request_ok d (ucast c) (push_bit 6 (ucast (drop_bit 8 c)) OR (ucast sec AND 0x3F)) (ucast h) count"
    and at: "chs_sector d (ucast c) (push_bit 6 (ucast (drop_bit 8 c)) OR (ucast sec AND 0x3F)) (ucast h) = L"
    and goes: "\<exists>k < m. fst (int13_read B (bios_calls s + 2 * k) (disk_id d) (ucast c)
      (push_bit 6 (ucast (drop_bit 8 c)) OR (ucast sec AND 0x3F)) (ucast h) count)"
  shows "\<exists>n. read_attempts m B d (c, sec, h) count data s =
    Some (True, sectors_of img L (unat count) @ drop (512 * unat count) data, s\<lparr>bios_calls := n\<rparr>)"
  using data goes
proof (induction m arbitrary: data s)
  case (Suc m)
  let ?r = "\<lambda>n. int13_read B n (disk_id d) (ucast c) (push_bit 6 (ucast (drop_bit 8 c)) OR (ucast sec AND 0x3F)) (ucast h) count"
  obtain fine out where r: "?r (bios_calls s) = (fine, out)" by force
  have len: "length out \<le> 512 * unat count" using B ok r unfolding serves_def by (metis snd_conv)
  have rd: "x86_Disk_Read B (disk_id d) c sec h count data s =
      Some (fine, out @ drop (length out) data, s\<lparr>bios_calls := bios_calls s + 1\<rparr>)"
    using r len Suc.prems(1) by (simp add: x86_Disk_Read_def)
  show ?case
  proof (cases fine)
    case True
    then have "out = sectors_of img L (unat count)" using B ok r at unfolding serves_def by (metis fst_conv snd_conv)
    then show ?thesis using rd True B by auto
  next
    case False
    let ?data = "out @ drop (length out) data" and ?s = "x86_Disk_Reset (disk_id d) (s\<lparr>bios_calls := bios_calls s + 1\<rparr>)"
    from Suc.prems(2) obtain k where k: "k < Suc m" "fst (?r (bios_calls s + 2 * k))" by blast
    with r False have "k \<noteq> 0" by (cases k) auto
    then obtain j where j: "k = Suc j" by (cases k) auto
    have "\<exists>k < m. fst (?r (bios_calls ?s + 2 * k))"
      using k j by (intro exI [of _ j]) (simp add: x86_Disk_Reset_def)
    moreover have "512 * unat count \<le> length ?data" using Suc.prems(1) len by simp
    moreover have "drop (512 * unat count) ?data = drop (512 * unat count) data" using len by simp
    ultimately show ?thesis using Suc.IH [of ?data ?s] rd False by (auto simp: x86_Disk_Reset_def)
  qed
qed simp

lemma Disk_read_ok:
  assumes "serves B d img" "chs_ok d" "count \<noteq> 0" "count \<le> 128" "unat lba + unat count \<le> chs_limit d" "512 * unat count \<le> length data"
  shows "\<exists>n. DISK_ReadSectors B d lba count data s =
    Some (True, sectors_of img (unat lba) (unat count) @ drop (512 * unat count) data, s\<lparr>bios_calls := n\<rparr>)"
proof -
  have n: "1 \<le> unat count" "unat count \<le> 128" using assms(3,4) unsigned_eq_0_iff [of count] by (auto simp: word_le_nat_alt Suc_le_eq)
  have "unat lba < chs_limit d" using assms(5) n(1) by simp
  from LBA2CHS_ok [OF assms(2) this] obtain c sec h where chs: "DISK_LBA2CHS d lba = Some (c, sec, h)"
    "(unat c * unat (disk_heads d) + unat h) * unat (disk_sectors d) + unat sec - 1 = unat lba"
    "unat c < unat (disk_cylinders d)" "unat c < 1024" "1 \<le> unat sec" "unat sec \<le> unat (disk_sectors d)" "unat h < unat (disk_heads d)" by blast
  have "unat (disk_sectors d) \<le> 63" "unat (disk_heads d) \<le> 256"
    using assms(2) by (simp_all add: chs_ok_def word_le_nat_alt)
  with chs(6,7) have b: "unat sec mod 64 = unat sec" "unat (ucast h :: u8) = unat h"
    by (simp_all add: unsigned_ucast_eq take_bit_eq_mod)
  let ?cl = "push_bit 6 (ucast (drop_bit 8 c)) OR (ucast sec AND 0x3F) :: u8"
  have at: "chs_sector d (ucast c) ?cl (ucast h) = unat lba"
    unfolding chs_sector_def pack_cylinder [OF chs(4)] pack_sector b by (rule chs(2))
  have ok: "request_ok d (ucast c) ?cl (ucast h) count"
    unfolding request_ok_def at pack_cylinder [OF chs(4)] pack_sector b using chs(3,5,6,7) n assms(5) by simp
  then have "\<exists>k < 3. fst (int13_read B (bios_calls s + 2 * k) (disk_id d) (ucast c) ?cl (ucast h) count)"
    using assms(1) unfolding serves_def by blast
  from attempts_ok [OF assms(1,6) ok at this] show ?thesis by (simp add: DISK_ReadSectors_def chs(1))
qed

text \<open>The sectors of a partition, and what a read through it delivers.\<close>

definition part_image :: "Partition \<Rightarrow> (nat \<Rightarrow> u8 list) \<Rightarrow> nat \<Rightarrow> u8 list" where
  "part_image part img l = img (l + unat (partitionOffset part))"

definition part_ok :: "bios \<Rightarrow> Partition \<Rightarrow> (nat \<Rightarrow> u8 list) \<Rightarrow> bool" where
  "part_ok B part img \<longleftrightarrow> serves B (part_disk part) img \<and> chs_ok (part_disk part)"

definition in_part :: "Partition \<Rightarrow> nat \<Rightarrow> bool" where
  "in_part part l \<longleftrightarrow> l + unat (partitionOffset part) < chs_limit (part_disk part)"

lemma sectors_part: "sectors_of img (l + unat (partitionOffset part)) n = sectors_of (part_image part img) l n"
  by (induction n) (simp_all add: sectors_of_def part_image_def ac_simps)

lemma in_part_mono: "in_part part l \<Longrightarrow> k \<le> l \<Longrightarrow> in_part part k"
  by (simp add: in_part_def)

lemma chs_limit_less: "chs_ok d \<Longrightarrow> chs_limit d < 2 ^ 32"
proof -
  assume "chs_ok d"
  then have "unat (disk_sectors d) \<le> 63" "unat (disk_heads d) \<le> 256" "unat (disk_cylinders d) \<le> 1024"
    by (simp_all add: chs_ok_def word_le_nat_alt)
  then have "unat (disk_cylinders d) * unat (disk_heads d) * unat (disk_sectors d) \<le> 1024 * 256 * 63" by (intro mult_le_mono)
  then show ?thesis by (simp add: chs_limit_def)
qed

lemma Partition_read_ok:
  assumes "part_ok B part img" "count \<noteq> 0" "count \<le> 128" "in_part part (unat lba + unat count - 1)" "512 * unat count \<le> length data"
  shows "\<exists>n. Partition_ReadSectors B part lba count data s =
    Some (True, sectors_of (part_image part img) (unat lba) (unat count) @ drop (512 * unat count) data, s\<lparr>bios_calls := n\<rparr>)"
proof -
  let ?d = "part_disk part"
  have ok: "serves B ?d img" "chs_ok ?d" using assms(1) by (simp_all add: part_ok_def)
  have "0 < unat count" using assms(2) unsigned_eq_0_iff [of count] by auto
  then have lim: "unat lba + unat (partitionOffset part) + unat count \<le> chs_limit ?d" using assms(4) by (simp add: in_part_def)
  then have "unat lba + unat (partitionOffset part) < 2 ^ 32"
    using chs_limit_less [OF ok(2)] by simp
  then have u: "unat (lba + partitionOffset part) = unat lba + unat (partitionOffset part)"
    by (simp add: unat_word_ariths)
  from Disk_read_ok [OF ok assms(2,3) _ assms(5), of "lba + partitionOffset part"] lim show ?thesis
    unfolding Partition_ReadSectors_def u sectors_part by blast
qed

text \<open>One sector.\<close>

lemma Partition_read_1:
  assumes "part_ok B part img" "in_part part (unat lba)" "512 * unat (1 :: u8) \<le> length data"
  shows "\<exists>n. Partition_ReadSectors B part lba 1 data s =
    Some (True, sectors_of (part_image part img) (unat lba) (unat (1 :: u8)) @ drop (512 * unat (1 :: u8)) data, s\<lparr>bios_calls := n\<rparr>)"
  using assms by (intro Partition_read_ok) simp_all

lemma length_part_image: "part_ok B part img \<Longrightarrow> length (part_image part img l) = 512"
  by (simp add: part_ok_def serves_def part_image_def)

lemma length_part_sectors: "part_ok B part img \<Longrightarrow> length (sectors_of (part_image part img) l n) = 512 * n"
  using length_sectors [of B "part_disk part" img] by (simp add: part_ok_def flip: sectors_part)

end
