(* ===== verification/LoaderFat.thy ===== *)
theory LoaderFat
  imports LoaderDisk
begin

text \<open>
  The boot loader's FAT driver (\<open>src/src/bootloader/stage2/fat.c\<close>): the boot sector, the cached part of
  the file allocation table, the root directory and up to ten open files.  An open file holds the
  sector of its current position.  A \<open>FAT_File*\<close> is the handle of the file, and NULL is
  \<^const>\<open>None\<close> inside the result.
\<close>

definition SECTOR_SIZE :: nat where "SECTOR_SIZE = 512"
definition MAX_PATH_SIZE :: nat where "MAX_PATH_SIZE = 256"
definition MAX_FILE_HANDLES :: nat where "MAX_FILE_HANDLES = 10"
definition ROOT_DIRECTORY_HANDLE :: int where "ROOT_DIRECTORY_HANDLE = - 1"
definition FAT_CACHE_SIZE :: nat where "FAT_CACHE_SIZE = 5"
definition FAT_ATTRIBUTE_DIRECTORY :: u8 where "FAT_ATTRIBUTE_DIRECTORY = 0x10"

definition crlf :: string where "crlf = [CHR 0x0D, CHR 0x0A]"

section \<open>Data\<close>

definition le16 :: "u8 list \<Rightarrow> nat \<Rightarrow> u16" where
  "le16 xs i = ucast (xs ! i) OR push_bit 8 (ucast (xs ! (i + 1)))"

definition le32 :: "u8 list \<Rightarrow> nat \<Rightarrow> u32" where
  "le32 xs i = ucast (le16 xs i) OR push_bit 16 (ucast (le16 xs (i + 2)))"

record FAT_DirectoryEntry =
  de_Name :: "u8 list"
  de_Attributes :: u8
  de_Reserved :: u8
  de_CreatedTimeTenths :: u8
  de_CreatedTime :: u16
  de_CreatedDate :: u16
  de_AccessedDate :: u16
  de_FirstClusterHigh :: u16
  de_ModifiedTime :: u16
  de_ModifiedDate :: u16
  de_FirstClusterLow :: u16
  de_Size :: u32

text \<open>The packed layout of an entry.\<close>

definition dir_entry :: "u8 list \<Rightarrow> FAT_DirectoryEntry" where
  "dir_entry xs = \<lparr>de_Name = take 11 xs, de_Attributes = xs ! 11, de_Reserved = xs ! 12, de_CreatedTimeTenths = xs ! 13,
     de_CreatedTime = le16 xs 14, de_CreatedDate = le16 xs 16, de_AccessedDate = le16 xs 18, de_FirstClusterHigh = le16 xs 20,
     de_ModifiedTime = le16 xs 22, de_ModifiedDate = le16 xs 24, de_FirstClusterLow = le16 xs 26, de_Size = le32 xs 28\<rparr>"

record FAT_FileData =
  ff_Buffer :: "u8 list"
  ff_Handle :: int
  ff_IsDirectory :: bool
  ff_Position :: u32
  ff_Size :: u32
  ff_Opened :: bool
  ff_FirstCluster :: u32
  ff_CurrentCluster :: u32
  ff_CurrentSectorInCluster :: u32

record FAT_LFNBlock =
  lfn_Order :: u8
  lfn_Chars :: "u16 list"

record fat_data = disk_io +
  BootSectorBytes :: "u8 list"
  RootDirectory :: FAT_FileData
  OpenedFiles :: "FAT_FileData list"
  FatCache :: "u8 list"
  FatCachePosition :: u32
  LFNCount :: int
  g_DataSectionLba :: u32
  g_FatType :: u8
  g_TotalSectors :: u32
  g_SectorsPerFat :: u32

text \<open>Fields of the boot sector, at the offsets of the packed \<open>FAT_BootSector\<close>.\<close>

definition bs_BytesPerSector :: "'a fat_data_scheme \<Rightarrow> u16" where "bs_BytesPerSector s = le16 (BootSectorBytes s) 11"
definition bs_SectorsPerCluster :: "'a fat_data_scheme \<Rightarrow> u8" where "bs_SectorsPerCluster s = BootSectorBytes s ! 13"
definition bs_ReservedSectors :: "'a fat_data_scheme \<Rightarrow> u16" where "bs_ReservedSectors s = le16 (BootSectorBytes s) 14"
definition bs_FatCount :: "'a fat_data_scheme \<Rightarrow> u8" where "bs_FatCount s = BootSectorBytes s ! 16"
definition bs_DirEntryCount :: "'a fat_data_scheme \<Rightarrow> u16" where "bs_DirEntryCount s = le16 (BootSectorBytes s) 17"
definition bs_TotalSectors :: "'a fat_data_scheme \<Rightarrow> u16" where "bs_TotalSectors s = le16 (BootSectorBytes s) 19"
definition bs_SectorsPerFat :: "'a fat_data_scheme \<Rightarrow> u16" where "bs_SectorsPerFat s = le16 (BootSectorBytes s) 22"
definition bs_LargeSectorCount :: "'a fat_data_scheme \<Rightarrow> u32" where "bs_LargeSectorCount s = le32 (BootSectorBytes s) 32"
definition ebr32_SectorsPerFat :: "'a fat_data_scheme \<Rightarrow> u32" where "ebr32_SectorsPerFat s = le32 (BootSectorBytes s) 36"
definition ebr32_RootDirectoryCluster :: "'a fat_data_scheme \<Rightarrow> u32" where
  "ebr32_RootDirectoryCluster s = le32 (BootSectorBytes s) 44"

definition FAT_CompareLFNBlocks :: "FAT_LFNBlock \<Rightarrow> FAT_LFNBlock \<Rightarrow> int" where
  "FAT_CompareLFNBlocks a b = int (unat (lfn_Order a)) - int (unat (lfn_Order b))"

section \<open>Reading the volume's tables\<close>

definition FAT_ReadBootSector :: "bios \<Rightarrow> Partition \<Rightarrow> 'a fat_data_scheme \<Rightarrow> (bool \<times> 'a fat_data_scheme) option" where
  "FAT_ReadBootSector B disk s = do {
     (ok, data, s) \<leftarrow> Partition_ReadSectors B disk 0 1 (BootSectorBytes s) s;
     Some (ok, s\<lparr>BootSectorBytes := data\<rparr>) }"

definition FAT_ReadFat :: "bios \<Rightarrow> Partition \<Rightarrow> u32 \<Rightarrow> 'a fat_data_scheme \<Rightarrow> (bool \<times> 'a fat_data_scheme) option" where
  "FAT_ReadFat B disk lbaIndex s = do {
     (ok, data, s) \<leftarrow> Partition_ReadSectors B disk (ucast (bs_ReservedSectors s) + lbaIndex) (of_nat FAT_CACHE_SIZE) (FatCache s) s;
     Some (ok, s\<lparr>FatCache := data\<rparr>) }"

definition FAT_ClusterToLba :: "u32 \<Rightarrow> 'a fat_data_scheme \<Rightarrow> u32" where
  "FAT_ClusterToLba cluster s = g_DataSectionLba s + (cluster - 2) * ucast (bs_SectorsPerCluster s)"

definition FAT_Detect :: "'a fat_data_scheme \<Rightarrow> 'a fat_data_scheme option" where
  "FAT_Detect s =
     (if bs_SectorsPerCluster s = 0 then None
      else
        (let dataClusters = (g_TotalSectors s - g_DataSectionLba s) div ucast (bs_SectorsPerCluster s)
         in Some (s\<lparr>g_FatType := (if dataClusters < 0xFF5 then 12 else if bs_SectorsPerFat s \<noteq> 0 then 16 else 32)\<rparr>)))"

text \<open>Where the root directory and the data start, from the boot sector.\<close>

definition root_location :: "'a fat_data_scheme \<Rightarrow> (u32 \<times> 'a fat_data_scheme) option" where
  "root_location s =
     (let isFat32 = (bs_SectorsPerFat s = 0);
          s = s\<lparr>g_TotalSectors := (if bs_TotalSectors s = 0 then bs_LargeSectorCount s else ucast (bs_TotalSectors s)),
                g_SectorsPerFat := (if isFat32 then ebr32_SectorsPerFat s else ucast (bs_SectorsPerFat s))\<rparr>;
          tables = ucast (bs_ReservedSectors s) + g_SectorsPerFat s * ucast (bs_FatCount s)
      in if isFat32 then
           (let s = s\<lparr>g_DataSectionLba := tables\<rparr> in Some (FAT_ClusterToLba (ebr32_RootDirectoryCluster s) s, s))
         else if bs_BytesPerSector s = 0 then None
         else
           (let rootDirSize = 32 * ucast (bs_DirEntryCount s);
                rootDirSectors = (rootDirSize + ucast (bs_BytesPerSector s) - 1) div ucast (bs_BytesPerSector s)
            in Some (tables, s\<lparr>g_DataSectionLba := tables + rootDirSectors\<rparr>)))"

definition FAT_Initialize :: "bios \<Rightarrow> Partition \<Rightarrow> 'a fat_data_scheme \<Rightarrow> (bool \<times> 'a fat_data_scheme) option" where
  "FAT_Initialize B disk s = do {
     (ok, s) \<leftarrow> FAT_ReadBootSector B disk s;
     if \<not> ok then Some (False, s2_printf (''FAT: read boot sector failed'' @ crlf) [] s)
     else do {
       (rootDirLba, s) \<leftarrow> root_location (s\<lparr>FatCachePosition := 0xFFFFFFFF\<rparr>);
       let s = s\<lparr>RootDirectory := (RootDirectory s)\<lparr>ff_Handle := ROOT_DIRECTORY_HANDLE, ff_IsDirectory := True,
         ff_Position := 0, ff_Size := 32 * ucast (bs_DirEntryCount s), ff_Opened := True, ff_FirstCluster := rootDirLba,
         ff_CurrentCluster := rootDirLba, ff_CurrentSectorInCluster := 0\<rparr>\<rparr>;
       (ok, data, s) \<leftarrow> Partition_ReadSectors B disk rootDirLba 1 (ff_Buffer (RootDirectory s)) s;
       let s = s\<lparr>RootDirectory := (RootDirectory s)\<lparr>ff_Buffer := data\<rparr>\<rparr>;
       if \<not> ok then Some (False, s2_printf (''FAT: read root directory failed'' @ crlf) [] s)
       else do {
         s \<leftarrow> FAT_Detect s;
         Some (True, s\<lparr>OpenedFiles := map (\<lambda>f. f\<lparr>ff_Opened := False\<rparr>) (OpenedFiles s), LFNCount := 0\<rparr>) } } }"

section \<open>Open files\<close>

definition get_file :: "int \<Rightarrow> 'a fat_data_scheme \<Rightarrow> FAT_FileData option" where
  "get_file h s = (if h = ROOT_DIRECTORY_HANDLE then Some (RootDirectory s) else arr_get (OpenedFiles s) h)"

definition put_file :: "int \<Rightarrow> FAT_FileData \<Rightarrow> 'a fat_data_scheme \<Rightarrow> 'a fat_data_scheme" where
  "put_file h f s =
     (if h = ROOT_DIRECTORY_HANDLE then s\<lparr>RootDirectory := f\<rparr> else s\<lparr>OpenedFiles := (OpenedFiles s)[nat h := f]\<rparr>)"

text \<open>A read of one sector into the buffer of file \<open>h\<close>.\<close>

definition load_sector :: "bios \<Rightarrow> Partition \<Rightarrow> int \<Rightarrow> u32 \<Rightarrow> 'a fat_data_scheme \<Rightarrow> (bool \<times> 'a fat_data_scheme) option" where
  "load_sector B disk h lba s = do {
     fd \<leftarrow> get_file h s;
     (ok, data, s) \<leftarrow> Partition_ReadSectors B disk lba 1 (ff_Buffer fd) s;
     Some (ok, put_file h (fd\<lparr>ff_Buffer := data\<rparr>) s) }"

definition FAT_OpenEntry ::
    "bios \<Rightarrow> Partition \<Rightarrow> FAT_DirectoryEntry \<Rightarrow> 'a fat_data_scheme \<Rightarrow> (int option \<times> 'a fat_data_scheme) option" where
  "FAT_OpenEntry B disk entry s =
     (case find (\<lambda>i. \<not> ff_Opened (OpenedFiles s ! i)) [0..<MAX_FILE_HANDLES] of
        None \<Rightarrow> Some (None, s2_printf (''FAT: out of file handles'' @ crlf) [] s)
      | Some i \<Rightarrow> do {
          let h = int i;
          fd \<leftarrow> get_file h s;
          let first = ucast (de_FirstClusterLow entry) + push_bit 16 (ucast (de_FirstClusterHigh entry));
          let s = put_file h (fd\<lparr>ff_Handle := h, ff_IsDirectory := (de_Attributes entry AND FAT_ATTRIBUTE_DIRECTORY \<noteq> 0),
            ff_Position := 0, ff_Size := de_Size entry, ff_FirstCluster := first, ff_CurrentCluster := first,
            ff_CurrentSectorInCluster := 0\<rparr>) s;
          (ok, s) \<leftarrow> load_sector B disk h (FAT_ClusterToLba first s) s;
          if \<not> ok then
            Some (None, s2_printf ''\<newline>'' [] (fold (\<lambda>c. s2_printf ''%c'' [VI (ucast c)]) (de_Name entry)
              (s2_printf ''FAT: open entry failed - read error cluster=%u lba=%u\<newline>'' [VI first, VI (FAT_ClusterToLba first s)] s)))
          else do {
            fd \<leftarrow> get_file h s;
            Some (Some h, put_file h (fd\<lparr>ff_Opened := True\<rparr>) s) } })"

text \<open>
  The 16 bits at byte \<open>i\<close> of the cache.  The entry of a FAT12 table may lie across the end of the
  cache, and is then read from what follows it.
\<close>

definition cache16 :: "'a fat_data_scheme \<Rightarrow> u32 \<Rightarrow> u16 option" where
  "cache16 s i = (if unat i + 1 < length (FatCache s) then Some (le16 (FatCache s) (unat i)) else None)"

definition FAT_NextCluster :: "bios \<Rightarrow> Partition \<Rightarrow> u32 \<Rightarrow> 'a fat_data_scheme \<Rightarrow> (u32 \<times> 'a fat_data_scheme) option" where
  "FAT_NextCluster B disk currentCluster s =
     (let fatIndex = (if g_FatType s = 12 then currentCluster * 3 div 2
                      else if g_FatType s = 16 then currentCluster * 2 else currentCluster * 4);
          fatIndexSector = fatIndex div of_nat SECTOR_SIZE
      in do {
        s \<leftarrow> (if fatIndexSector < FatCachePosition s \<or> fatIndexSector \<ge> FatCachePosition s + of_nat FAT_CACHE_SIZE
             then do { (ok, s) \<leftarrow> FAT_ReadFat B disk fatIndexSector s; Some (s\<lparr>FatCachePosition := fatIndexSector\<rparr>) }
             else Some s);
        let fatIndex = fatIndex - FatCachePosition s * of_nat SECTOR_SIZE;
        lo \<leftarrow> cache16 s fatIndex;
        if g_FatType s = 12 then
          (let n = (if currentCluster mod 2 = 0 then lo AND 0x0FFF else drop_bit 4 lo) :: u16
           in Some (if n \<ge> 0xFF8 then ucast n OR 0xFFFFF000 else ucast n, s))
        else if g_FatType s = 16 then Some (if lo \<ge> 0xFFF8 then ucast lo OR 0xFFFF0000 else ucast lo, s)
        else do { hi \<leftarrow> cache16 s (fatIndex + 2); Some (ucast lo OR push_bit 16 (ucast hi), s) } })"

section \<open>Reading\<close>

text \<open>
  What follows when the buffer is used up: the next sector of the root directory, or of the cluster,
  or of the next cluster.  The result is false where the loop of \<open>FAT_Read\<close> is left.
\<close>

definition next_sector :: "bios \<Rightarrow> Partition \<Rightarrow> int \<Rightarrow> 'a fat_data_scheme \<Rightarrow> (bool \<times> 'a fat_data_scheme) option" where
  "next_sector B disk h s = do {
     fd \<leftarrow> get_file h s;
     if ff_Handle fd = ROOT_DIRECTORY_HANDLE then do {
       let c = ff_CurrentCluster fd + 1;
       (ok, s) \<leftarrow> load_sector B disk h c (put_file h (fd\<lparr>ff_CurrentCluster := c\<rparr>) s);
       Some (ok, if ok then s else s2_printf (''FAT: read error!'' @ crlf) [] s) }
     else do {
       let k = ff_CurrentSectorInCluster fd + 1;
       (k, c, s) \<leftarrow> (if k \<ge> ucast (bs_SectorsPerCluster s)
                    then do { (c, s) \<leftarrow> FAT_NextCluster B disk (ff_CurrentCluster fd) s; Some (0, c, s) }
                    else Some (k, ff_CurrentCluster fd, s));
       let fd = fd\<lparr>ff_CurrentSectorInCluster := k, ff_CurrentCluster := c\<rparr>;
       if c \<ge> 0xFFFFFFF8 then Some (False, put_file h (fd\<lparr>ff_Size := ff_Position fd\<rparr>) s)
       else do {
         (ok, s) \<leftarrow> load_sector B disk h (FAT_ClusterToLba c s + k) (put_file h fd s);
         Some (ok, if ok then s else s2_printf (''FAT: read error!'' @ crlf) [] s) } } }"

definition left_in_buffer :: "FAT_FileData \<Rightarrow> nat" where
  "left_in_buffer fd = SECTOR_SIZE - unat (ff_Position fd) mod SECTOR_SIZE"

lemma left_in_buffer_pos: "0 < left_in_buffer fd"
  by (simp add: left_in_buffer_def SECTOR_SIZE_def)

text \<open>\<open>take = min(byteCount, leftInBuffer)\<close>.\<close>

definition chunk_size :: "nat \<Rightarrow> FAT_FileData \<Rightarrow> nat" where
  "chunk_size n fd = min n (left_in_buffer fd)"

lemma chunk_size_less: "n \<noteq> 0 \<Longrightarrow> n - chunk_size n fd < n"
  using left_in_buffer_pos [of fd] by (simp add: chunk_size_def)

text \<open>The loop of \<open>FAT_Read\<close>: \<open>n\<close> bytes are wanted; \<open>out\<close> are those delivered so far.\<close>

function read_loop ::
    "bios \<Rightarrow> Partition \<Rightarrow> int \<Rightarrow> nat \<Rightarrow> u8 list \<Rightarrow> 'a fat_data_scheme \<Rightarrow> (u8 list \<times> 'a fat_data_scheme) option" where
  "read_loop B disk h n out s =
     (if n = 0 then Some (out, s)
      else do {
        fd \<leftarrow> get_file h s;
        let k = chunk_size n fd;
        let out = out @ take k (drop (unat (ff_Position fd) mod SECTOR_SIZE) (ff_Buffer fd));
        let s = put_file h (fd\<lparr>ff_Position := ff_Position fd + of_nat k\<rparr>) s;
        if left_in_buffer fd = k then do {
          (more, s) \<leftarrow> next_sector B disk h s;
          if more then read_loop B disk h (n - k) out s else Some (out, s) }
        else read_loop B disk h (n - k) out s })"
  by pat_completeness auto
termination
  by (relation "measure (\<lambda>(B, disk, h, n, out, s). n)") (auto simp: chunk_size_less)

declare read_loop.simps [simp del]

definition FAT_Read ::
    "bios \<Rightarrow> Partition \<Rightarrow> int \<Rightarrow> u32 \<Rightarrow> 'a fat_data_scheme \<Rightarrow> (u8 list \<times> 'a fat_data_scheme) option" where
  "FAT_Read B disk h byteCount s = do {
     fd \<leftarrow> get_file h s;
     let rest = ff_Size fd - ff_Position fd;
     let n = (if \<not> ff_IsDirectory fd \<or> ff_Size fd \<noteq> 0 then min byteCount rest else byteCount);
     read_loop B disk h (unat n) [] s }"

definition FAT_ReadEntry ::
    "bios \<Rightarrow> Partition \<Rightarrow> int \<Rightarrow> 'a fat_data_scheme \<Rightarrow> (FAT_DirectoryEntry option \<times> 'a fat_data_scheme) option" where
  "FAT_ReadEntry B disk h s = do {
     (data, s) \<leftarrow> FAT_Read B disk h 32 s;
     Some (if length data = 32 then Some (dir_entry data) else None, s) }"

definition FAT_Close :: "int \<Rightarrow> 'a fat_data_scheme \<Rightarrow> 'a fat_data_scheme" where
  "FAT_Close h s =
     (if h = ROOT_DIRECTORY_HANDLE
      then s\<lparr>RootDirectory := (RootDirectory s)\<lparr>ff_Position := 0, ff_CurrentCluster := ff_FirstCluster (RootDirectory s)\<rparr>\<rparr>
      else s\<lparr>OpenedFiles := (OpenedFiles s)[nat h := (OpenedFiles s ! nat h)\<lparr>ff_Opened := False\<rparr>]\<rparr>)"

section \<open>Names and paths\<close>

definition padded :: "nat \<Rightarrow> u8 list \<Rightarrow> u8 list" where
  "padded n xs = xs @ replicate (n - length xs) 32"

text \<open>
  The first dot ends the name; without one, \<open>ext\<close> is \<open>name + 11\<close>, and so is an extension that
  starts at index 11 ignored.
\<close>

definition FAT_GetShortName :: "u8 list \<Rightarrow> u8 list option" where
  "FAT_GetShortName name = do {
     dot \<leftarrow> s2_strchr name 46;
     let ext = (case dot of Some i \<Rightarrow> i | None \<Rightarrow> 11);
     let str = cstr_of name;
     let base = map s2_toupper (take (min 8 ext) str);
     let suffix = (if ext \<noteq> 11 then map s2_toupper (take 3 (drop (ext + 1) str)) else []);
     Some (padded 8 base @ padded 3 suffix @ [0]) }"

partial_function (option) find_loop ::
    "bios \<Rightarrow> Partition \<Rightarrow> int \<Rightarrow> u8 list \<Rightarrow> 'a fat_data_scheme \<Rightarrow> (FAT_DirectoryEntry option \<times> 'a fat_data_scheme) option" where
  "find_loop B disk h shortName s = do {
     (e, s) \<leftarrow> FAT_ReadEntry B disk h s;
     (case e of
        None \<Rightarrow> Some (None, s)
      | Some entry \<Rightarrow> do {
          d \<leftarrow> s2_memcmp shortName (de_Name entry) 11;
          if d = 0 then Some (Some entry, s) else find_loop B disk h shortName s }) }"

definition FAT_FindFile ::
    "bios \<Rightarrow> Partition \<Rightarrow> int \<Rightarrow> u8 list \<Rightarrow> 'a fat_data_scheme \<Rightarrow> (FAT_DirectoryEntry option \<times> 'a fat_data_scheme) option" where
  "FAT_FindFile B disk h name s = do {
     shortName \<leftarrow> FAT_GetShortName name;
     find_loop B disk h shortName s }"

text \<open>
  The next component of the path in the array \<open>name\<close>, whether it is the last, and the rest.  After
  the last component the NUL is stored one cell too far, so \<open>name\<close> keeps what was in the cell before.
\<close>

definition next_component :: "u8 list \<Rightarrow> u8 list \<Rightarrow> (u8 list \<times> bool \<times> u8 list) option" where
  "next_component name path =
     (let comp = takeWhile (\<lambda>c. c \<noteq> 47) path; n = length comp
      in if n \<le> length name then do {
           let name = comp @ drop n name;
           if n < length path then do { name \<leftarrow> arr_set name (int n) 0; Some (name, False, drop (n + 1) path) }
           else do { name \<leftarrow> arr_set name (int n + 1) 0; Some (name, True, []) } }
         else None)"

lemma next_component_shorter: "next_component name path = Some (name', b, rest) \<Longrightarrow> path \<noteq> [] \<Longrightarrow> length rest < length path"
  by (auto simp: next_component_def Let_def split: if_splits Option.bind_splits)

text \<open>
  The test for a directory reads \<open>Attributes & (FAT_ATTRIBUTE_DIRECTORY == 0)\<close>, because \<open>==\<close> binds
  tighter than \<open>&\<close>.
\<close>

definition not_a_directory :: "FAT_DirectoryEntry \<Rightarrow> bool" where
  "not_a_directory entry \<longleftrightarrow> de_Attributes entry AND (if FAT_ATTRIBUTE_DIRECTORY = 0 then 1 else 0) \<noteq> 0"

function open_loop ::
    "bios \<Rightarrow> Partition \<Rightarrow> int \<Rightarrow> u8 list \<Rightarrow> u8 list \<Rightarrow> 'a fat_data_scheme \<Rightarrow> (int option \<times> 'a fat_data_scheme) option" where
  "open_loop B disk current name path s =
     (if path = [] then Some (Some current, s)
      else case next_component name path of
        None \<Rightarrow> None
      | Some (name, isLast, rest) \<Rightarrow>
          (case FAT_FindFile B disk current name s of
             None \<Rightarrow> None
           | Some (None, s) \<Rightarrow>
               Some (None, s2_printf (''FAT: %s not found'' @ crlf) [VS (cstr_of name)] (FAT_Close current s))
           | Some (Some entry, s) \<Rightarrow>
               (let s = FAT_Close current s
                in if \<not> isLast \<and> not_a_directory entry
                   then Some (None, s2_printf (''FAT: %s not a directory'' @ crlf) [VS (cstr_of name)] s)
                   else case FAT_OpenEntry B disk entry s of
                     None \<Rightarrow> None
                   | Some (None, s) \<Rightarrow> if rest = [] then Some (None, s) else None
                   | Some (Some h, s) \<Rightarrow> open_loop B disk h name rest s)))"
  by pat_completeness auto
termination
  by (relation "measure (\<lambda>(B, disk, current, name, path, s). length path)") (auto dest: next_component_shorter)

declare open_loop.simps [simp del]

text \<open>\<open>name\<close> is the uninitialised local array.\<close>

definition FAT_Open ::
    "bios \<Rightarrow> Partition \<Rightarrow> u8 list \<Rightarrow> u8 list \<Rightarrow> 'a fat_data_scheme \<Rightarrow> (int option \<times> 'a fat_data_scheme) option" where
  "FAT_Open B disk name path s =
     open_loop B disk ROOT_DIRECTORY_HANDLE name (if path \<noteq> [] \<and> hd path = 47 then tl path else path) s"

end
