(* ===== verification/HostFat.thy ===== *)
theory HostFat
  imports LoaderFat
begin

text \<open>
  The host program \<open>src/tools/fat\<close>, which lists a directory or reads a file of a FAT12 image
  (\<open>fat.c\<close>, \<open>disk.c\<close>, \<open>main.c\<close>).  It is an older version of the loader's driver: the whole allocation
  table is in memory.  Entries, open files and their packed layout are those of \<open>LoaderFat\<close>.  The host's
  \<open>fopen\<close> (\<open>fs\<close>: the content of a file by its name) and \<open>malloc\<close> (\<open>alloc\<close>: the array that it returns) are
  parameters.  Every read seeks first, so the position of the image file is not part of the state.
\<close>

record fat_tool =
  image_file :: "u8 list"
  tool_boot :: "u8 list"
  tool_root :: FAT_FileData
  tool_files :: "FAT_FileData list"
  g_Fat :: "u8 list option"
  tool_data_lba :: u32
  host_out :: "u8 list"

definition MEMORY_FAT_SIZE :: nat where "MEMORY_FAT_SIZE = 0x10000"

text \<open>The sizes that the compiler gives \<open>FAT_FileData\<close> and, with the boot sector, \<open>FAT_Data\<close>.\<close>

definition SIZEOF_FAT_Data :: nat where "SIZEOF_FAT_Data = 512 + (1 + MAX_FILE_HANDLES) * 544"

abbreviation BytesPerSector :: "fat_tool \<Rightarrow> u16" where "BytesPerSector s \<equiv> le16 (tool_boot s) 11"
abbreviation SectorsPerCluster :: "fat_tool \<Rightarrow> u8" where "SectorsPerCluster s \<equiv> tool_boot s ! 13"
abbreviation ReservedSectors :: "fat_tool \<Rightarrow> u16" where "ReservedSectors s \<equiv> le16 (tool_boot s) 14"
abbreviation FatCount :: "fat_tool \<Rightarrow> u8" where "FatCount s \<equiv> tool_boot s ! 16"
abbreviation DirEntryCount :: "fat_tool \<Rightarrow> u16" where "DirEntryCount s \<equiv> le16 (tool_boot s) 17"
abbreviation SectorsPerFat :: "fat_tool \<Rightarrow> u16" where "SectorsPerFat s \<equiv> le16 (tool_boot s) 22"

section \<open>Output and the image file\<close>

fun decimal :: "nat \<Rightarrow> u8 list" where
  "decimal n = (if n < 10 then [of_nat (48 + n)] else decimal (n div 10) @ [of_nat (48 + n mod 10)])"

declare decimal.simps [simp del]

definition tool_print :: "u8 list \<Rightarrow> fat_tool \<Rightarrow> fat_tool" where
  "tool_print t s = s\<lparr>host_out := host_out s @ t\<rparr>"

definition DISK_Initialize_tool :: "(u8 list \<Rightarrow> u8 list option) \<Rightarrow> u8 list \<Rightarrow> u8 list option" where
  "DISK_Initialize_tool fs input_file = fs input_file"

text \<open>
  \<open>lba * SECTOR_SIZE\<close> is a product of 32 bits.  \<open>fread\<close> stores what the file has and counts whole sectors.
\<close>

definition DISK_ReadSectors_tool :: "u8 list \<Rightarrow> u32 \<Rightarrow> u8 \<Rightarrow> u8 list \<Rightarrow> (bool \<times> u8 list) option" where
  "DISK_ReadSectors_tool img lba sectors data =
     (let got = take (SECTOR_SIZE * unat sectors) (drop (unat (lba * of_nat SECTOR_SIZE)) img)
      in if length got \<le> length data then Some (length got div SECTOR_SIZE > 0, got @ drop (length got) data) else None)"

section \<open>The volume\<close>

definition FAT_ReadBootSector_tool :: "fat_tool \<Rightarrow> (bool \<times> fat_tool) option" where
  "FAT_ReadBootSector_tool s = do {
     (ok, data) \<leftarrow> DISK_ReadSectors_tool (image_file s) 0 1 (tool_boot s);
     Some (ok, s\<lparr>tool_boot := data\<rparr>) }"

text \<open>The number of sectors is cut to 8 bits.\<close>

definition FAT_ReadFat_tool :: "fat_tool \<Rightarrow> (bool \<times> fat_tool) option" where
  "FAT_ReadFat_tool s = do {
     fat \<leftarrow> g_Fat s;
     (ok, data) \<leftarrow> DISK_ReadSectors_tool (image_file s) (ucast (ReservedSectors s)) (ucast (SectorsPerFat s)) fat;
     Some (ok, s\<lparr>g_Fat := Some data\<rparr>) }"

text \<open>\<open>BytesPerSector * SectorsPerFat\<close> is an \<open>int\<close>; where it overflows nothing is known.\<close>

definition FAT_Initialize_tool :: "(nat \<Rightarrow> u8 list option) \<Rightarrow> fat_tool \<Rightarrow> (bool \<times> fat_tool) option" where
  "FAT_Initialize_tool alloc s = do {
     (ok, s) \<leftarrow> FAT_ReadBootSector_tool s;
     if \<not> ok then Some (False, tool_print (bytes (''FAT: read boot sector failed'' @ crlf)) s)
     else if unat (BytesPerSector s) * unat (SectorsPerFat s) \<ge> 2 ^ 31 then None
     else do {
       let fatSize = unat (BytesPerSector s) * unat (SectorsPerFat s);
       let s = s\<lparr>g_Fat := alloc (fatSize + SECTOR_SIZE)\<rparr>;
       if SIZEOF_FAT_Data + fatSize \<ge> MEMORY_FAT_SIZE then
         Some (False, tool_print (bytes ''FAT: not enough memory to read FAT! Required '' @ decimal (SIZEOF_FAT_Data + fatSize) @
           bytes '', only have '' @ decimal MEMORY_FAT_SIZE @ bytes crlf) s)
       else do {
         (ok, s) \<leftarrow> FAT_ReadFat_tool s;
         if \<not> ok then Some (False, tool_print (bytes (''FAT: read FAT failed'' @ crlf)) s)
         else do {
           let rootDirLba = ucast (ReservedSectors s) + ucast (SectorsPerFat s) * ucast (FatCount s);
           let rootDirSize = 32 * ucast (DirEntryCount s);
           let root = (tool_root s)\<lparr>ff_Handle := ROOT_DIRECTORY_HANDLE, ff_IsDirectory := True, ff_Position := 0,
             ff_Size := 32 * ucast (DirEntryCount s), ff_Opened := True, ff_FirstCluster := 0, ff_CurrentCluster := 0,
             ff_CurrentSectorInCluster := 0\<rparr>;
           (ok, data) \<leftarrow> DISK_ReadSectors_tool (image_file s) rootDirLba 1 (ff_Buffer root);
           let s = s\<lparr>tool_root := root\<lparr>ff_Buffer := data\<rparr>\<rparr>;
           if \<not> ok then Some (False, tool_print (bytes (''FAT: read root directory failed'' @ crlf)) s)
           else if BytesPerSector s = 0 then None
           else do {
             let rootDirSectors = (rootDirSize + ucast (BytesPerSector s) - 1) div ucast (BytesPerSector s);
             Some (True, s\<lparr>tool_data_lba := rootDirLba + rootDirSectors,
               tool_files := map (\<lambda>f. f\<lparr>ff_Opened := False\<rparr>) (tool_files s)\<rparr>) } } } } }"

definition FAT_ClusterToLba_tool :: "u32 \<Rightarrow> fat_tool \<Rightarrow> u32" where
  "FAT_ClusterToLba_tool cluster s = tool_data_lba s + (cluster - 2) * ucast (SectorsPerCluster s)"

section \<open>Open files\<close>

definition tool_get :: "int \<Rightarrow> fat_tool \<Rightarrow> FAT_FileData option" where
  "tool_get h s = (if h = ROOT_DIRECTORY_HANDLE then Some (tool_root s) else arr_get (tool_files s) h)"

definition tool_put :: "int \<Rightarrow> FAT_FileData \<Rightarrow> fat_tool \<Rightarrow> fat_tool" where
  "tool_put h f s =
     (if h = ROOT_DIRECTORY_HANDLE then s\<lparr>tool_root := f\<rparr> else s\<lparr>tool_files := (tool_files s)[nat h := f]\<rparr>)"

text \<open>A read of one sector into the buffer of file \<open>h\<close>, with the message on failure.\<close>

definition tool_load :: "string \<Rightarrow> int \<Rightarrow> u32 \<Rightarrow> fat_tool \<Rightarrow> (bool \<times> fat_tool) option" where
  "tool_load t h lba s = do {
     fd \<leftarrow> tool_get h s;
     (ok, data) \<leftarrow> DISK_ReadSectors_tool (image_file s) lba 1 (ff_Buffer fd);
     let s = tool_put h (fd\<lparr>ff_Buffer := data\<rparr>) s;
     Some (ok, if ok then s else tool_print (bytes t) s) }"

definition FAT_OpenEntry_tool :: "FAT_DirectoryEntry \<Rightarrow> fat_tool \<Rightarrow> (int option \<times> fat_tool) option" where
  "FAT_OpenEntry_tool entry s =
     (case find (\<lambda>i. \<not> ff_Opened (tool_files s ! i)) [0..<MAX_FILE_HANDLES] of
        None \<Rightarrow> Some (None, tool_print (bytes (''FAT: out of file handles'' @ crlf)) s)
      | Some i \<Rightarrow> do {
          let h = int i;
          fd \<leftarrow> tool_get h s;
          let first = ucast (de_FirstClusterLow entry) + push_bit 16 (ucast (de_FirstClusterHigh entry));
          let s = tool_put h (fd\<lparr>ff_Handle := h, ff_IsDirectory := (de_Attributes entry AND FAT_ATTRIBUTE_DIRECTORY \<noteq> 0),
            ff_Position := 0, ff_Size := de_Size entry, ff_FirstCluster := first, ff_CurrentCluster := first,
            ff_CurrentSectorInCluster := 0\<rparr>) s;
          (ok, s) \<leftarrow> tool_load (''FAT: read error'' @ crlf) h (FAT_ClusterToLba_tool first s) s;
          if \<not> ok then Some (None, s)
          else do { fd \<leftarrow> tool_get h s; Some (Some h, tool_put h (fd\<lparr>ff_Opened := True\<rparr>) s) } })"

text \<open>The table is read past its end where a cluster lies outside it.\<close>

definition FAT_NextCluster_tool :: "u32 \<Rightarrow> fat_tool \<Rightarrow> u32 option" where
  "FAT_NextCluster_tool currentCluster s = do {
     fat \<leftarrow> g_Fat s;
     let fatIndex = unat (currentCluster * 3 div 2);
     if fatIndex + 1 < length fat then
       Some (ucast (if currentCluster mod 2 = 0 then le16 fat fatIndex AND 0x0FFF else drop_bit 4 (le16 fat fatIndex)))
     else None }"

section \<open>Reading\<close>

text \<open>What follows when the buffer is used up, as in the loader; false where the loop of \<open>FAT_Read\<close> is left.\<close>

definition next_sector_tool :: "int \<Rightarrow> fat_tool \<Rightarrow> (bool \<times> fat_tool) option" where
  "next_sector_tool h s = do {
     fd \<leftarrow> tool_get h s;
     if ff_Handle fd = ROOT_DIRECTORY_HANDLE then
       (let c = ff_CurrentCluster fd + 1
        in tool_load (''FAT: read error!'' @ crlf) h c (tool_put h (fd\<lparr>ff_CurrentCluster := c\<rparr>) s))
     else do {
       let k = ff_CurrentSectorInCluster fd + 1;
       (k, c) \<leftarrow> (if k \<ge> ucast (SectorsPerCluster s)
                 then map_option (Pair 0) (FAT_NextCluster_tool (ff_CurrentCluster fd) s)
                 else Some (k, ff_CurrentCluster fd));
       let fd = fd\<lparr>ff_CurrentSectorInCluster := k, ff_CurrentCluster := c\<rparr>;
       if c \<ge> 0xFF8 then Some (False, tool_put h (fd\<lparr>ff_Size := ff_Position fd\<rparr>) s)
       else tool_load (''FAT: read error!'' @ crlf) h (FAT_ClusterToLba_tool c s + k) (tool_put h fd s) } }"

text \<open>\<open>n\<close> bytes are wanted, \<open>out\<close> are those delivered so far.\<close>

function read_loop_tool :: "int \<Rightarrow> nat \<Rightarrow> u8 list \<Rightarrow> fat_tool \<Rightarrow> (u8 list \<times> fat_tool) option" where
  "read_loop_tool h n out s =
     (if n = 0 then Some (out, s)
      else do {
        fd \<leftarrow> tool_get h s;
        let k = chunk_size n fd;
        let out = out @ take k (drop (unat (ff_Position fd) mod SECTOR_SIZE) (ff_Buffer fd));
        let s = tool_put h (fd\<lparr>ff_Position := ff_Position fd + of_nat k\<rparr>) s;
        if left_in_buffer fd = k then do {
          (more, s) \<leftarrow> next_sector_tool h s;
          if more then read_loop_tool h (n - k) out s else Some (out, s) }
        else read_loop_tool h (n - k) out s })"
  by pat_completeness auto
termination
  by (relation "measure (\<lambda>(h, n, out, s). n)") (auto simp: chunk_size_less)

declare read_loop_tool.simps [simp del]

definition FAT_Read_tool :: "int \<Rightarrow> u32 \<Rightarrow> fat_tool \<Rightarrow> (u8 list \<times> fat_tool) option" where
  "FAT_Read_tool h byteCount s = do {
     fd \<leftarrow> tool_get h s;
     let n = (if ff_IsDirectory fd then byteCount else min byteCount (ff_Size fd - ff_Position fd));
     read_loop_tool h (unat n) [] s }"

definition FAT_ReadEntry_tool :: "int \<Rightarrow> fat_tool \<Rightarrow> (FAT_DirectoryEntry option \<times> fat_tool) option" where
  "FAT_ReadEntry_tool h s = do {
     (data, s) \<leftarrow> FAT_Read_tool h 32 s;
     Some (if length data = 32 then Some (dir_entry data) else None, s) }"

definition FAT_Close_tool :: "int \<Rightarrow> fat_tool \<Rightarrow> fat_tool" where
  "FAT_Close_tool h s =
     (if h = ROOT_DIRECTORY_HANDLE
      then s\<lparr>tool_root := (tool_root s)\<lparr>ff_Position := 0, ff_CurrentCluster := ff_FirstCluster (tool_root s)\<rparr>\<rparr>
      else s\<lparr>tool_files := (tool_files s)[nat h := (tool_files s ! nat h)\<lparr>ff_Opened := False\<rparr>]\<rparr>)"

section \<open>Names and paths\<close>

text \<open>The bytes up to the first NUL, \<open>n\<close> at most; none may lie outside the array.\<close>

fun upto_nul :: "nat \<Rightarrow> u8 list \<Rightarrow> u8 list option" where
  "upto_nul 0 xs = Some []"
| "upto_nul (Suc n) [] = None"
| "upto_nul (Suc n) (c # cs) = (if c = 0 then Some [] else map_option ((#) c) (upto_nul n cs))"

definition host_toupper :: "u8 \<Rightarrow> u8" where
  "host_toupper c = (if 97 \<le> c \<and> c \<le> 122 then c - 32 else c)"

text \<open>
  The conversion of a name.  Without a dot \<open>ext\<close> is \<open>name + 11\<close>, and the extension is taken from the
  array \<open>name\<close> behind it, whatever is there.
\<close>

definition fat_name_tool :: "u8 list \<Rightarrow> u8 list option" where
  "fat_name_tool name = do {
     dot \<leftarrow> s2_strchr name 46;
     let ext = (case dot of Some i \<Rightarrow> i | None \<Rightarrow> 11);
     base \<leftarrow> upto_nul (min 8 ext) name;
     suffix \<leftarrow> upto_nul 3 (drop (ext + 1) name);
     Some (padded 8 (map host_toupper base) @ padded 3 (map host_toupper suffix)) }"

partial_function (option) find_loop_tool :: "int \<Rightarrow> u8 list \<Rightarrow> fat_tool \<Rightarrow> (FAT_DirectoryEntry option \<times> fat_tool) option" where
  "find_loop_tool h fatName s = do {
     (e, s) \<leftarrow> FAT_ReadEntry_tool h s;
     (case e of
        None \<Rightarrow> Some (None, s)
      | Some entry \<Rightarrow> if fatName = de_Name entry then Some (Some entry, s) else find_loop_tool h fatName s) }"

definition FAT_FindFile_tool :: "int \<Rightarrow> u8 list \<Rightarrow> fat_tool \<Rightarrow> (FAT_DirectoryEntry option \<times> fat_tool) option" where
  "FAT_FindFile_tool h name s = do { fatName \<leftarrow> fat_name_tool name; find_loop_tool h fatName s }"

text \<open>
  The next component of the path in the array \<open>name\<close>, whether it is the last, and the rest.  The NUL is
  always stored one cell too far.
\<close>

definition next_component_tool :: "u8 list \<Rightarrow> u8 list \<Rightarrow> (u8 list \<times> bool \<times> u8 list) option" where
  "next_component_tool name path =
     (let comp = takeWhile (\<lambda>c. c \<noteq> 47) path; n = length comp
      in if n \<le> length name
         then map_option (\<lambda>name. (name, n = length path, drop (n + 1) path)) (arr_set (comp @ drop n name) (int n + 1) 0)
         else None)"

lemma next_component_tool_shorter:
  "next_component_tool name path = Some (name', b, rest) \<Longrightarrow> path \<noteq> [] \<Longrightarrow> length rest < length path"
  by (auto simp: next_component_tool_def Let_def split: if_splits)

text \<open>\<open>FAT_OpenEntry\<close> may return NULL, which the next turn of the loop dereferences.\<close>

function open_loop_tool :: "int \<Rightarrow> u8 list \<Rightarrow> u8 list \<Rightarrow> fat_tool \<Rightarrow> (int option \<times> fat_tool) option" where
  "open_loop_tool current name path s =
     (if path = [] then Some (Some current, s)
      else case next_component_tool name path of
        None \<Rightarrow> None
      | Some (name, isLast, rest) \<Rightarrow>
          (case FAT_FindFile_tool current name s of
             None \<Rightarrow> None
           | Some (None, s) \<Rightarrow>
               Some (None, tool_print (bytes ''FAT: '' @ cstr_of name @ bytes ('' not found'' @ crlf)) (FAT_Close_tool current s))
           | Some (Some entry, s) \<Rightarrow>
               (let s = FAT_Close_tool current s
                in if \<not> isLast \<and> not_a_directory entry
                   then Some (None, tool_print (bytes ''FAT: '' @ cstr_of name @ bytes ('' not a directory'' @ crlf)) s)
                   else case FAT_OpenEntry_tool entry s of
                     None \<Rightarrow> None
                   | Some (None, s) \<Rightarrow> if rest = [] then Some (None, s) else None
                   | Some (Some h, s) \<Rightarrow> open_loop_tool h name rest s)))"
  by pat_completeness auto
termination
  by (relation "measure (\<lambda>(current, name, path, s). length path)") (auto dest: next_component_tool_shorter)

declare open_loop_tool.simps [simp del]

text \<open>\<open>name\<close> is the uninitialised local array.\<close>

definition FAT_Open_tool :: "u8 list \<Rightarrow> u8 list \<Rightarrow> fat_tool \<Rightarrow> (int option \<times> fat_tool) option" where
  "FAT_Open_tool name path s =
     open_loop_tool ROOT_DIRECTORY_HANDLE name (if path \<noteq> [] \<and> hd path = 47 then tl path else path) s"

section \<open>main\<close>

text \<open>The listing of a directory: \<open>n\<close> lines at most, and one more entry is read before the count is tested.\<close>

fun list_entries :: "nat \<Rightarrow> int \<Rightarrow> fat_tool \<Rightarrow> fat_tool option" where
  "list_entries n h s = do {
     (e, s) \<leftarrow> FAT_ReadEntry_tool h s;
     (case (e, n) of
        (Some entry, Suc m) \<Rightarrow> list_entries m h (tool_print (bytes ''  '' @ de_Name entry @ bytes crlf) s)
      | _ \<Rightarrow> Some s) }"

declare list_entries.simps [simp del]

partial_function (option) read_all :: "int \<Rightarrow> fat_tool \<Rightarrow> fat_tool option" where
  "read_all h s = do { (data, s) \<leftarrow> FAT_Read_tool h 100 s; if data = [] then Some s else read_all h s }"

text \<open>\<open>argv\<close> are the arguments with the program's name; a missing one is a null pointer.\<close>

definition tool_main ::
    "(u8 list \<Rightarrow> u8 list option) \<Rightarrow> (nat \<Rightarrow> u8 list option) \<Rightarrow> u8 list \<Rightarrow> u8 list list \<Rightarrow> fat_tool \<Rightarrow> (int \<times> fat_tool) option" where
  "tool_main fs alloc name argv s = do {
     prog \<leftarrow> arr_get argv 0;
     let s = (if length argv < 3 then tool_print (bytes ''Syntax: '' @ prog @ bytes '' <image> <file_path>'') s else s);
     input_file \<leftarrow> arr_get argv 1;
     (case DISK_Initialize_tool fs input_file of
        None \<Rightarrow> Some (- 1, tool_print (bytes ''Disk init error\<newline>'') s)
      | Some img \<Rightarrow> do {
          (ok, s) \<leftarrow> FAT_Initialize_tool alloc (s\<lparr>image_file := img\<rparr>);
          if \<not> ok then Some (- 1, tool_print (bytes ''FAT init error\<newline>'') s)
          else do {
            path \<leftarrow> arr_get argv 2;
            (f, s) \<leftarrow> FAT_Open_tool name path s;
            h \<leftarrow> f;
            fd \<leftarrow> tool_get h s;
            s \<leftarrow> (if ff_IsDirectory fd then list_entries 10 h s else read_all h s);
            Some (0, FAT_Close_tool h s) } }) }"

end
