(* ===== verification/SectorLoop.thy ===== *)
theory SectorLoop
  imports LoaderFat
begin

text \<open>
  A file as a stream of sectors, and the loop of \<open>FAT_Read\<close> over it: what it delivers, and where it
  leaves the file.  The locale is interpreted by the boot loader's files and by those of the host tool.
\<close>

text \<open>A read that stops at the end of a file, unless the size is not known.\<close>

definition wanted :: "u32 \<Rightarrow> FAT_FileData \<Rightarrow> u32" where
  "wanted c fd = (if \<not> ff_IsDirectory fd \<or> ff_Size fd \<noteq> 0 then min c (ff_Size fd - ff_Position fd) else c)"

text \<open>
  A file is at sector \<open>q\<close> (\<open>here s q\<close>) or behind its last one (\<open>gone s\<close>); \<open>advance\<close> goes from one
  to the next, and \<open>loop\<close> reads as the loop of \<open>FAT_Read\<close> does.  Behind the last sector of a stream that \<open>ends\<close>, reading stops and the size of the file
  becomes known.
\<close>

locale sector_loop =
  fixes get :: "'s \<Rightarrow> FAT_FileData option" and put :: "FAT_FileData \<Rightarrow> 's \<Rightarrow> 's"
    and advance :: "'s \<Rightarrow> (bool \<times> 's) option" and loop :: "nat \<Rightarrow> u8 list \<Rightarrow> 's \<Rightarrow> (u8 list \<times> 's) option"
    and here :: "'s \<Rightarrow> nat \<Rightarrow> bool" and gone :: "'s \<Rightarrow> bool" and sector :: "nat \<Rightarrow> u8 list" and n :: nat and ends :: bool
  assumes loop_law: "loop w out s =
     (if w = 0 then Some (out, s)
      else do {
        fd \<leftarrow> get s;
        let k = chunk_size w fd;
        let out = out @ take k (drop (unat (ff_Position fd) mod SECTOR_SIZE) (ff_Buffer fd));
        let s = put (fd\<lparr>ff_Position := ff_Position fd + of_nat k\<rparr>) s;
        if left_in_buffer fd = k then do {
          (more, s) \<leftarrow> advance s;
          if more then loop (w - k) out s else Some (out, s) }
        else loop (w - k) out s })"
    and buffer: "here s q \<Longrightarrow> get s = Some fd \<Longrightarrow> ff_Buffer fd = sector q"
    and move: "here s q \<Longrightarrow> get s = Some fd \<Longrightarrow>
      here (put (fd\<lparr>ff_Position := p\<rparr>) s) q \<and> get (put (fd\<lparr>ff_Position := p\<rparr>) s) = Some (fd\<lparr>ff_Position := p\<rparr>)"
    and step: "here s q \<Longrightarrow> Suc q < n \<Longrightarrow> get s = Some fd \<Longrightarrow>
      \<exists>s' fd'. advance s = Some (True, s') \<and> here s' (Suc q) \<and> get s' = Some fd' \<and>
        ff_Position fd' = ff_Position fd \<and> ff_Size fd' = ff_Size fd \<and> ff_IsDirectory fd' = ff_IsDirectory fd"
    and leave: "here s q \<Longrightarrow> Suc q = n \<Longrightarrow> get s = Some fd \<Longrightarrow>
      \<exists>s' fd'. advance s = Some (\<not> ends, s') \<and> gone s' \<and> get s' = Some fd' \<and>
        ff_Position fd' = ff_Position fd \<and> ff_Size fd' = (if ends then ff_Position fd else ff_Size fd) \<and>
        ff_IsDirectory fd' = ff_IsDirectory fd"
begin

definition stream_bytes :: "u8 list" where
  "stream_bytes = concat (map sector [0..<n])"

definition placed :: "'s \<Rightarrow> nat \<Rightarrow> FAT_FileData \<Rightarrow> bool" where
  "placed s p fd \<longleftrightarrow> get s = Some fd \<and> unat (ff_Position fd) = p \<and> p \<le> 512 * n \<and> 512 * n < 2 ^ 32 \<and>
     (p < 512 * n \<longrightarrow> here s (p div 512)) \<and> (p = 512 * n \<longrightarrow> gone s) \<and> (\<forall>j. length (sector j) = 512)"

lemma length_stream: "placed s p fd \<Longrightarrow> length stream_bytes = 512 * n"
proof -
  assume "placed s p fd"
  then have len: "\<forall>j. length (sector j) = 512" by (simp add: placed_def)
  have "length (concat (map sector [0..<m])) = 512 * m" for m
    by (induction m) (simp_all add: len)
  then show ?thesis by (simp add: stream_bytes_def)
qed

lemma drop_stream:
  assumes "\<forall>j. length (sector j) = 512" "p < 512 * n"
  shows "drop p stream_bytes = drop (p mod 512) (sector (p div 512)) @ drop (512 * Suc (p div 512)) stream_bytes"
proof -
  let ?q = "p div 512"
  have q: "?q < n" using assms(2) by (simp add: less_mult_imp_div_less mult.commute)
  have len: "length (concat (map sector [a..<b])) = 512 * (b - a)" for a b
    by (induction b) (auto simp: assms(1) Suc_diff_le)
  have "[0..<n] = [0..<?q] @ ?q # [Suc ?q..<n]" using q by (metis le0 le_add_same_cancel1 upt_conv_Cons upt_add_eq_append less_imp_le_nat le_Suc_ex)
  then have s: "stream_bytes = concat (map sector [0..<?q]) @ sector ?q @ concat (map sector [Suc ?q..<n])"
    by (simp add: stream_bytes_def)
  have p: "p - 512 * ?q = p mod 512" "\<not> p < 512 * ?q" by (simp_all add: minus_mult_div_eq_mod)
  show ?thesis unfolding s using len [of 0 ?q] p assms(1) by simp
qed

lemma loop_ok:
  "placed s p fd \<Longrightarrow> ends \<or> p + w \<le> 512 * n \<Longrightarrow> w = 0 \<or> p < 512 * n \<Longrightarrow>
    \<exists>s' fd'. loop w out s = Some (out @ take w (drop p stream_bytes), s') \<and>
      placed s' (min (p + w) (512 * n)) fd' \<and> ff_IsDirectory fd' = ff_IsDirectory fd \<and>
      ff_Size fd' = (if ends \<and> 0 < w \<and> 512 * n \<le> p + w then of_nat (512 * n) else ff_Size fd)"
proof (induction w arbitrary: s p fd out rule: less_induct)
  case (less w)
  show ?case
  proof (cases "w = 0")
    case True
    then show ?thesis using less.prems(1) by (subst loop_law) (auto simp: placed_def)
  next
    case False
    note pl = less.prems(1) [unfolded placed_def]
    define q where "q = p div 512"
    define k where "k = min w (512 - p mod 512)"
    define chunk where "chunk = take k (drop (p mod 512) (sector q))"
    have p: "p < 512 * n" using less.prems(3) False by simp
    have h: "here s q" "get s = Some fd" "length (sector q) = 512" using pl p by (simp_all add: q_def)
    have k: "0 < k" "k \<le> w" "p + k \<le> 512 * n" "chunk_size w fd = k" "left_in_buffer fd = 512 - p mod 512"
    proof -
      have "p mod 512 < 512" by simp
      then show "0 < k" "k \<le> w" using False by (simp_all add: k_def)
      have "k \<le> 512 - p mod 512" by (simp add: k_def)
      moreover have "p div 512 < n" using p by (simp add: less_mult_imp_div_less mult.commute)
      then have "512 * (p div 512) + 512 \<le> 512 * n" by (metis Suc_leI mult_Suc_right mult_le_mono2 add.commute)
      moreover have "p = 512 * (p div 512) + p mod 512" by simp
      ultimately show "p + k \<le> 512 * n" using \<open>p mod 512 < 512\<close> by linarith
      show "left_in_buffer fd = 512 - p mod 512" using pl by (simp add: left_in_buffer_def SECTOR_SIZE_def)
      then show "chunk_size w fd = k" by (simp add: chunk_size_def k_def)
    qed
    have pu: "unat (ff_Position fd) = p" using pl by blast
    define fd1 where "fd1 = fd\<lparr>ff_Position := ff_Position fd + of_nat k\<rparr>"
    define s1 where "s1 = put fd1 s"
    have m: "here s1 q" "get s1 = Some fd1" using move [OF h(1,2)] by (simp_all add: s1_def fd1_def)
    have pos: "unat (ff_Position fd1) = p + k"
    proof -
      have u: "unat (ff_Position fd) = p" "512 * n < 2 ^ 32" using pl by blast+
      have "ff_Position fd1 = of_nat (p + k)" by (simp add: fd1_def flip: u(1))
      then show ?thesis using k(3) u(2) unat_of_nat_u32 [of "p + k"] by (simp only:)
    qed
    have buf: "ff_Buffer fd = sector q" by (rule buffer [OF h(1,2)])
    have unfold: "loop w out s = (if 512 - p mod 512 = k
        then do { (more, s') \<leftarrow> advance s1; if more then loop (w - k) (out @ chunk) s' else Some (out @ chunk, s') }
        else loop (w - k) (out @ chunk) s1)"
      unfolding loop_law [of w] h(2) by (simp add: False k(4,5) pu buf chunk_def fd1_def s1_def SECTOR_SIZE_def Let_def cong: if_cong)
    have all: "\<forall>j. length (sector j) = 512" "512 * n < 2 ^ 32" using pl by blast+
    note drop_p = drop_stream [OF all(1) p, folded q_def]
    have r: "p = 512 * q + p mod 512" "p mod 512 < 512" by (simp_all add: q_def)
    have qn: "Suc q \<le> n" using p by (simp add: q_def Suc_le_eq less_mult_imp_div_less mult.commute)
    have sizes: "ff_Size fd1 = ff_Size fd" "ff_IsDirectory fd1 = ff_IsDirectory fd" by (simp_all add: fd1_def)
    show ?thesis
    proof (cases "512 - p mod 512 = k")
      case False
      then have w: "k = w" "p mod 512 + k < 512" by (auto simp: k_def)
      have "p + k < 512 * Suc q" using r(1) w(2) by simp
      also have "\<dots> \<le> 512 * n" using qn by (rule mult_le_mono2)
      finally have lt: "p + k < 512 * n" .
      have "(p + k) div 512 = q" using r(1) w(2) by (intro div_nat_eqI) simp_all
      then have "placed s1 (p + k) fd1" using m pos lt all by (simp add: placed_def)
      moreover have "take w (drop p stream_bytes) = chunk" using w all(1) by (simp add: drop_p chunk_def)
      moreover have "loop w out s = Some (out @ chunk, s1)"
        using unfold False w(1) by (simp add: loop_law [of 0])
      ultimately show ?thesis using w(1) lt sizes by (intro exI [of _ s1] exI [of _ fd1]) simp
    next
      case True
      then have pk: "p + k = 512 * Suc q" using r by simp
      have chunk: "chunk = drop (p mod 512) (sector q)" "length chunk = k" using True all(1) by (simp_all add: chunk_def)
      have rest: "take w (drop p stream_bytes) = chunk @ take (w - k) (drop (p + k) stream_bytes)"
      proof -
        have "drop p stream_bytes = chunk @ drop (p + k) stream_bytes" unfolding drop_p pk chunk(1) ..
        then show ?thesis using chunk(2) k(2) by simp
      qed
      show ?thesis
      proof (cases "Suc q < n")
        case True
        from step [OF m(1) this m(2)] obtain s2 fd2 where s2: "advance s1 = Some (True, s2)" "here s2 (Suc q)"
          "get s2 = Some fd2" "ff_Position fd2 = ff_Position fd1" "ff_Size fd2 = ff_Size fd1"
          "ff_IsDirectory fd2 = ff_IsDirectory fd1" by blast
        have "p + k < 512 * n" using True unfolding pk by simp
        moreover have "(p + k) div 512 = Suc q" unfolding pk by simp
        ultimately have pl2: "placed s2 (p + k) fd2" using s2 pos all by (simp add: placed_def)
        have "ends \<or> p + k + (w - k) \<le> 512 * n" using less.prems(2) k(2) by simp
        from less.IH [OF _ pl2 this, of "out @ chunk"] k(1,2) \<open>p + k < 512 * n\<close> obtain s' fd' where s3:
          "loop (w - k) (out @ chunk) s2 = Some ((out @ chunk) @ take (w - k) (drop (p + k) stream_bytes), s')"
          "placed s' (min (p + k + (w - k)) (512 * n)) fd'" "ff_IsDirectory fd' = ff_IsDirectory fd2"
          "ff_Size fd' = (if ends \<and> 0 < w - k \<and> 512 * n \<le> p + k + (w - k) then of_nat (512 * n) else ff_Size fd2)"
          by auto
        have e: "p + k + (w - k) = p + w" using k(2) by simp
        have "(0 < w - k \<and> 512 * n \<le> p + w) \<longleftrightarrow> (0 < w \<and> 512 * n \<le> p + w)"
          using \<open>p + k < 512 * n\<close> k(1) by linarith
        then have "ff_Size fd' = (if ends \<and> 0 < w \<and> 512 * n \<le> p + w then of_nat (512 * n) else ff_Size fd)"
          using s3(4) s2(5) sizes(1) unfolding e by metis
        moreover have "loop w out s = Some (out @ take w (drop p stream_bytes), s')"
          using unfold s2(1) s3(1) \<open>512 - p mod 512 = k\<close> by (simp add: rest)
        ultimately show ?thesis using s3(2,3) s2(6) sizes(2) unfolding e by metis
      next
        case last: False
        then have n: "Suc q = n" using qn by simp
        from leave [OF m(1) n m(2)] obtain s2 fd2 where s2: "advance s1 = Some (\<not> ends, s2)" "gone s2"
          "get s2 = Some fd2" "ff_Position fd2 = ff_Position fd1"
          "ff_Size fd2 = (if ends then ff_Position fd1 else ff_Size fd1)" "ff_IsDirectory fd2 = ff_IsDirectory fd1" by blast
        have fin: "p + k = 512 * n" using pk n by simp
        have pl2: "placed s2 (512 * n) fd2" using s2 pos all fin by (simp add: placed_def)
        have none: "drop (p + k) stream_bytes = []" using length_stream [OF less.prems(1)] fin by simp
        have at_end: "ff_Position fd1 = of_nat (512 * n)" using pos fin by (metis of_nat_unat ucast_id)
        have ge: "512 * n \<le> p + w" using fin k(2) by simp
        show ?thesis
        proof (cases ends)
          case True
          then have "loop w out s = Some (out @ chunk, s2)" using unfold s2(1) \<open>512 - p mod 512 = k\<close> by simp
          then show ?thesis using pl2 rest none s2 sizes True at_end ge \<open>w \<noteq> 0\<close>
            by (intro exI [of _ s2] exI [of _ fd2]) (simp add: min_absorb2)
        next
          case no_end: False
          then have "w = k" using less.prems(2) fin k(2) by simp
          then have "loop w out s = Some (out @ chunk, s2)"
            using unfold s2(1) \<open>512 - p mod 512 = k\<close> no_end by (simp add: loop_law [of 0])
          then show ?thesis using pl2 rest none s2 sizes no_end ge
            by (intro exI [of _ s2] exI [of _ fd2]) (simp add: min_absorb2)
        qed
      qed
    qed
  qed
qed

text \<open>
  The file is open at position \<open>p\<close> and holds the bytes \<open>xs\<close>.  The size of a directory that is reached
  through a cluster is zero until its end has been read.
\<close>

definition opened_at :: "'s \<Rightarrow> nat \<Rightarrow> u8 list \<Rightarrow> bool" where
  "opened_at s p xs \<longleftrightarrow> (\<exists>fd. placed s p fd \<and>
     (if ff_IsDirectory fd \<and> ff_Size fd = 0 then ends \<and> xs = stream_bytes \<and> p < 512 * n
      else unat (ff_Size fd) \<le> 512 * n \<and> p \<le> unat (ff_Size fd) \<and> xs = take (unat (ff_Size fd)) stream_bytes))"

lemma opened_at_length: "opened_at s p xs \<Longrightarrow> p \<le> length xs"
  using length_stream by (auto simp: opened_at_def split: if_splits)

lemma reads_wanted:
  assumes "opened_at s p xs"
  shows "\<exists>s' fd fd'. get s = Some fd \<and> loop (unat (wanted c fd)) [] s = Some (take (unat c) (drop p xs), s') \<and>
    opened_at s' (min (p + unat c) (length xs)) xs \<and> get s' = Some fd' \<and> ff_IsDirectory fd' = ff_IsDirectory fd"
proof -
  from assms obtain fd where pl: "placed s p fd" and sz: "if ff_IsDirectory fd \<and> ff_Size fd = 0 then ends \<and> xs = stream_bytes \<and> p < 512 * n
      else unat (ff_Size fd) \<le> 512 * n \<and> p \<le> unat (ff_Size fd) \<and> xs = take (unat (ff_Size fd)) stream_bytes"
    by (auto simp: opened_at_def)
  note len = length_stream [OF pl]
  have get: "get s = Some fd" "unat (ff_Position fd) = p" "512 * n < 2 ^ 32" using pl by (simp_all add: placed_def)
  show ?thesis
  proof (cases "ff_IsDirectory fd \<and> ff_Size fd = 0")
    case True
    with sz have e: "ends" "xs = stream_bytes" "p < 512 * n" by simp_all
    from loop_ok [OF pl, of "unat c" "[]"] e obtain s' fd' where r: "loop (unat c) [] s = Some (take (unat c) (drop p xs), s')"
      "placed s' (min (p + unat c) (512 * n)) fd'" "ff_IsDirectory fd'"
      "ff_Size fd' = (if 0 < unat c \<and> 512 * n \<le> p + unat c then of_nat (512 * n) else 0)" using True by auto
    have "loop (unat (wanted c fd)) [] s = Some (take (unat c) (drop p xs), s')" using True r(1) by (simp add: wanted_def)
    moreover have "opened_at s' (min (p + unat c) (512 * n)) xs"
    proof (cases "512 * n \<le> p + unat c")
      case True
      then have "0 < unat c" using e(3) by linarith
      then have "unat (ff_Size fd') = 512 * n" using r(4) True get(3) by (simp add: unat_of_nat_u32 del: of_nat_mult)
      moreover have "0 < 512 * n" using e(3) by linarith
      ultimately have "ff_Size fd' \<noteq> 0" "unat (ff_Size fd') = 512 * n" by auto
      then show ?thesis using r(2) True len e(2) unfolding opened_at_def by (intro exI [of _ fd']) (simp add: min_absorb2)
    next
      case False
      then have "ff_Size fd' = 0" using r(4) by simp
      then show ?thesis using r(2,3) False e unfolding opened_at_def by (intro exI [of _ fd']) simp
    qed
    moreover have "get s' = Some fd'" using r(2) by (simp add: placed_def)
    ultimately show ?thesis using len e(2) get(1) r(3) True by simp
  next
    case lim: False
    with sz have e: "unat (ff_Size fd) \<le> 512 * n" "p \<le> unat (ff_Size fd)" "xs = take (unat (ff_Size fd)) stream_bytes" by auto
    define w where "w = unat (min c (ff_Size fd - ff_Position fd))"
    have w: "w = min (unat c) (unat (ff_Size fd) - p)"
      using e(2) get(2) by (simp add: w_def min_def word_le_nat_alt unat_sub)
    have "ends \<or> p + w \<le> 512 * n" "w = 0 \<or> p < 512 * n" using e w by auto
    from loop_ok [OF pl this, of "[]"] obtain s' fd' where r: "loop w [] s = Some (take w (drop p stream_bytes), s')"
      "placed s' (min (p + w) (512 * n)) fd'" "ff_IsDirectory fd' = ff_IsDirectory fd"
      "ff_Size fd' = (if ends \<and> 0 < w \<and> 512 * n \<le> p + w then of_nat (512 * n) else ff_Size fd)" by auto
    have "loop (unat (wanted c fd)) [] s = loop w [] s" using lim by (auto simp: wanted_def w_def)
    moreover have "take w (drop p stream_bytes) = take (unat c) (drop p xs)"
      using w by (simp add: e(3) drop_take)
    moreover have size: "ff_Size fd' = ff_Size fd"
    proof (cases "ends \<and> 0 < w \<and> 512 * n \<le> p + w")
      case True
      then have "unat (ff_Size fd) = 512 * n" using e w by auto
      then have "of_nat (512 * n) = ff_Size fd" by (metis of_nat_unat ucast_id)
      with True r(4) show ?thesis by simp
    qed (use r(4) in auto)
    moreover have "length xs = unat (ff_Size fd)" using e(1,3) len by simp
    then have "min (p + w) (512 * n) = min (p + unat c) (length xs)" using e(1,2) w by auto
    then have "opened_at s' (min (p + unat c) (length xs)) xs"
      using r(2,3) size e lim w \<open>length xs = unat (ff_Size fd)\<close> unfolding opened_at_def by (intro exI [of _ fd']) auto
    moreover have "get s' = Some fd'" using r(2) by (simp add: placed_def)
    ultimately show ?thesis using r(1,3) get(1) by simp
  qed
qed

end

end
