(* ===== verification/LoaderFatOk.thy ===== *)
theory LoaderFatOk
  imports SectorLoop
begin

text \<open>
  What the boot loader's FAT driver delivers on a disk that works: the entries of the allocation table
  through the cache, and the bytes of a file.  A file is a stream of sectors, the locale
  \<open>sector_stream\<close>; it is interpreted by the root directory, whose sectors follow one another, and by a
  file or directory whose sectors are those of a chain of clusters.
\<close>

section \<open>The volume\<close>

definition same_volume :: "'a fat_data_scheme \<Rightarrow> 'a fat_data_scheme \<Rightarrow> bool" where
  "same_volume s0 s \<longleftrightarrow> BootSectorBytes s = BootSectorBytes s0 \<and> g_DataSectionLba s = g_DataSectionLba s0 \<and> g_FatType s = g_FatType s0"

lemma same_volume_refl [simp]: "same_volume s s"
  by (simp add: same_volume_def)

lemma same_volume_trans: "same_volume s t \<Longrightarrow> same_volume t u \<Longrightarrow> same_volume s u"
  by (simp add: same_volume_def)

lemma same_volume_bs:
  assumes "same_volume s0 s"
  shows "bs_ReservedSectors s = bs_ReservedSectors s0" "bs_SectorsPerCluster s = bs_SectorsPerCluster s0"
    "FAT_ClusterToLba c s = FAT_ClusterToLba c s0" "g_FatType s = g_FatType s0"
  using assms by (simp_all add: same_volume_def bs_ReservedSectors_def bs_SectorsPerCluster_def FAT_ClusterToLba_def)

text \<open>The first sector of the allocation table, and the cache: empty, or five sectors of the table.\<close>

definition table_lba :: "'a fat_data_scheme \<Rightarrow> nat" where
  "table_lba s = unat (bs_ReservedSectors s)"

definition cache_ok :: "Partition \<Rightarrow> (nat \<Rightarrow> u8 list) \<Rightarrow> 'a fat_data_scheme \<Rightarrow> bool" where
  "cache_ok part img s \<longleftrightarrow> length (FatCache s) = 2560 \<and>
     (FatCachePosition s = 0xFFFFFFFF \<or>
      FatCache s = sectors_of (part_image part img) (table_lba s + unat (FatCachePosition s)) 5)"

text \<open>The 16 bits at byte \<open>i\<close> of the table on the disk, and the entry of a cluster.\<close>

definition table_byte :: "Partition \<Rightarrow> (nat \<Rightarrow> u8 list) \<Rightarrow> 'a fat_data_scheme \<Rightarrow> nat \<Rightarrow> u8" where
  "table_byte part img s i = part_image part img (table_lba s + i div 512) ! (i mod 512)"

definition table16 :: "Partition \<Rightarrow> (nat \<Rightarrow> u8 list) \<Rightarrow> 'a fat_data_scheme \<Rightarrow> nat \<Rightarrow> u16" where
  "table16 part img s i = ucast (table_byte part img s i) OR push_bit 8 (ucast (table_byte part img s (i + 1)))"

definition table_index :: "'a fat_data_scheme \<Rightarrow> u32 \<Rightarrow> nat" where
  "table_index s c = (if g_FatType s = 12 then unat c * 3 div 2 else if g_FatType s = 16 then unat c * 2 else unat c * 4)"

definition table_entry :: "Partition \<Rightarrow> (nat \<Rightarrow> u8 list) \<Rightarrow> 'a fat_data_scheme \<Rightarrow> u32 \<Rightarrow> u32" where
  "table_entry part img s c =
     (let lo = table16 part img s (table_index s c)
      in if g_FatType s = 12 then
           (let n = (if even (unat c) then lo AND 0xFFF else drop_bit 4 lo)
            in if n \<ge> 0xFF8 then ucast n OR 0xFFFFF000 else ucast n)
         else if g_FatType s = 16 then (if lo \<ge> 0xFFF8 then ucast lo OR 0xFFFF0000 else ucast lo)
         else ucast lo OR push_bit 16 (ucast (table16 part img s (table_index s c + 2))))"

text \<open>
  An entry that the driver can read: no overflow in its index, five sectors of the disk from its own on
  (the driver fills the whole cache), and in a FAT12 table not one that lies across the end of a sector.
\<close>

definition entry_ok :: "Partition \<Rightarrow> 'a fat_data_scheme \<Rightarrow> u32 \<Rightarrow> bool" where
  "entry_ok part s c \<longleftrightarrow> 4 * unat c < 2 ^ 32 \<and> in_part part (table_lba s + table_index s c div 512 + 4) \<and>
     (g_FatType s = 12 \<longrightarrow> table_index s c mod 512 \<noteq> 511)"

lemma nth_sectors:
  assumes "\<And>l. length (f l) = 512" "i < 512 * n"
  shows "sectors_of f l n ! i = f (l + i div 512) ! (i mod 512)"
  using assms(2)
proof (induction n)
  case (Suc n)
  have len: "length (sectors_of f l k) = 512 * k" for k
    by (induction k) (simp_all add: sectors_of_def assms(1))
  show ?case
  proof (cases "i < 512 * n")
    case True
    then show ?thesis using Suc.IH by (simp add: sectors_Suc nth_append len)
  next
    case False
    then have d: "i div 512 = n" using Suc.prems by (simp add: div_nat_eqI)
    then have "i mod 512 = i - 512 * n" by (simp add: modulo_nat_def mult.commute)
    with d show ?thesis using False by (simp add: sectors_Suc nth_append len)
  qed
qed simp

lemma cache16_ok:
  assumes p: "part_ok B part img" and c: "FatCache s = sectors_of (part_image part img) (table_lba s + q) 5"
    and i: "512 * q \<le> i" "i + 1 < 512 * q + 2560" "unat w = i - 512 * q"
  shows "cache16 s w = Some (table16 part img s i)"
proof -
  note len = length_part_image [OF p]
  have b: "FatCache s ! (i - 512 * q) = table_byte part img s i" if "512 * q \<le> i" "i < 512 * q + 2560" for i
  proof -
    have e: "i = 512 * q + (i - 512 * q)" using that by simp
    have "FatCache s ! (i - 512 * q) = part_image part img (table_lba s + q + (i - 512 * q) div 512) ! ((i - 512 * q) mod 512)"
      unfolding c by (rule nth_sectors [OF len]) (use that in simp)
    moreover have "i div 512 = q + (i - 512 * q) div 512" "i mod 512 = (i - 512 * q) mod 512"
      by (subst e, simp)+
    ultimately show ?thesis by (simp add: table_byte_def add.assoc)
  qed
  have "length (FatCache s) = 2560" unfolding c by (simp add: length_part_sectors [OF p])
  moreover have "i + 1 - 512 * q = Suc (i - 512 * q)" using i(1) by simp
  ultimately show ?thesis using i b [of i] b [of "i + 1"]
    by (simp add: cache16_def le16_def table16_def)
qed

text \<open>What looking up an entry may change.\<close>

definition cache_frame :: "'a fat_data_scheme \<Rightarrow> 'a fat_data_scheme \<Rightarrow> bool" where
  "cache_frame s s' \<longleftrightarrow> s' = s\<lparr>bios_calls := bios_calls s', FatCache := FatCache s', FatCachePosition := FatCachePosition s'\<rparr>"

lemma cache_frame_refl [simp]: "cache_frame s s"
  by (simp add: cache_frame_def)

lemma cache_frame_volume:
  assumes "cache_frame s s'"
  shows "same_volume s s'" "OpenedFiles s' = OpenedFiles s" "RootDirectory s' = RootDirectory s" "table_lba s' = table_lba s"
proof -
  have e: "s' = s\<lparr>bios_calls := bios_calls s', FatCache := FatCache s', FatCachePosition := FatCachePosition s'\<rparr>"
    using assms by (simp add: cache_frame_def)
  show "same_volume s s'" "OpenedFiles s' = OpenedFiles s" "RootDirectory s' = RootDirectory s" "table_lba s' = table_lba s"
    by (subst e, simp add: same_volume_def table_lba_def bs_ReservedSectors_def)+
qed

lemma in_part_unat:
  assumes "part_ok B part img" "in_part part L"
  shows "unat (of_nat L :: u32) = L"
  using assms chs_limit_less [of "part_disk part"] by (intro unat_of_nat_u32) (simp add: in_part_def part_ok_def)

lemma cache_filled:
  fixes k :: u32
  assumes p: "part_ok B part img" and c: "cache_ok part img s" and k: "unat k < 2 ^ 23" "in_part part (table_lba s + unat k + 4)"
  shows "\<exists>s'. (if k < FatCachePosition s \<or> k \<ge> FatCachePosition s + of_nat FAT_CACHE_SIZE
      then do { (ok, s) \<leftarrow> FAT_ReadFat B part k s; Some (s\<lparr>FatCachePosition := k\<rparr>) } else Some s) = Some s' \<and>
    cache_frame s s' \<and> FatCache s' = sectors_of (part_image part img) (table_lba s + unat (FatCachePosition s')) 5 \<and>
    unat (FatCachePosition s') \<le> unat k \<and> unat k < unat (FatCachePosition s') + 5"
proof (cases "k < FatCachePosition s \<or> k \<ge> FatCachePosition s + of_nat FAT_CACHE_SIZE")
  case True
  have "ucast (bs_ReservedSectors s) + k = of_nat (table_lba s + unat k)" by (simp add: table_lba_def)
  then have u: "unat (ucast (bs_ReservedSectors s) + k) = table_lba s + unat k" using in_part_unat [OF p in_part_mono [OF k(2)], of "table_lba s + unat k"]
    by (simp only: trans_le_add1 le_refl)
  have five: "unat (of_nat FAT_CACHE_SIZE :: u8) = 5" by (simp add: FAT_CACHE_SIZE_def)
  have "512 * unat (of_nat FAT_CACHE_SIZE :: u8) \<le> length (FatCache s)" unfolding five using c by (simp add: cache_ok_def)
  moreover have "of_nat FAT_CACHE_SIZE \<noteq> (0 :: u8)" "of_nat FAT_CACHE_SIZE \<le> (128 :: u8)" by (simp_all add: FAT_CACHE_SIZE_def)
  moreover have "in_part part (unat (ucast (bs_ReservedSectors s) + k) + unat (of_nat FAT_CACHE_SIZE :: u8) - 1)"
    unfolding u five using k(2) by (simp add: add.commute)
  ultimately obtain n where
    "Partition_ReadSectors B part (ucast (bs_ReservedSectors s) + k) (of_nat FAT_CACHE_SIZE) (FatCache s) s =
      Some (True, sectors_of (part_image part img) (table_lba s + unat k) 5 @ drop 2560 (FatCache s), s\<lparr>bios_calls := n\<rparr>)"
    using Partition_read_ok [OF p, of "of_nat FAT_CACHE_SIZE" "ucast (bs_ReservedSectors s) + k" "FatCache s" s]
    unfolding u five by auto
  moreover have "drop 2560 (FatCache s) = []" using c by (simp add: cache_ok_def)
  ultimately show ?thesis using True by (auto simp: FAT_ReadFat_def cache_frame_def)
next
  case False
  have "unat (FatCachePosition s + 5) \<le> unat (FatCachePosition s) + 5" by (simp add: unat_word_ariths)
  moreover have "k < FatCachePosition s + 5" "FatCachePosition s \<le> k" using False by (auto simp: FAT_CACHE_SIZE_def)
  ultimately have le: "unat (FatCachePosition s) \<le> unat k" "unat k < unat (FatCachePosition s) + 5"
    by (simp_all add: word_le_nat_alt word_less_nat_alt)
  have "FatCachePosition s \<noteq> 0xFFFFFFFF" using le(1) k(1) by auto
  then show ?thesis using False le c by (simp add: cache_ok_def)
qed

lemma u32_mult: "unat (w :: u32) * n < 2 ^ 32 \<Longrightarrow> unat (w * of_nat n) = unat w * n"
  using unat_of_nat_u32 [of "unat w * n"] by simp

lemma table_index_word:
  assumes "4 * unat c < 2 ^ 32"
  shows "unat (if g_FatType s = 12 then c * 3 div 2 else if g_FatType s = 16 then c * 2 else c * 4) = table_index s c"
  using u32_mult [of c 2] u32_mult [of c 3] u32_mult [of c 4] assms by (simp add: table_index_def unat_div_distrib)

lemma NextCluster_ok:
  assumes p: "part_ok B part img" and c: "cache_ok part img s" and e: "entry_ok part s cl"
  shows "\<exists>s'. FAT_NextCluster B part cl s = Some (table_entry part img s cl, s') \<and> cache_frame s s' \<and> cache_ok part img s'"
proof -
  define w where "w = (if g_FatType s = 12 then cl * 3 div 2 else if g_FatType s = 16 then cl * 2 else cl * 4)"
  define i where "i = table_index s cl"
  have w: "unat w = i" using e table_index_word [of cl s] by (simp add: entry_ok_def w_def i_def)
  have k: "unat (w div of_nat SECTOR_SIZE) = i div 512" by (simp add: unat_div_distrib w SECTOR_SIZE_def)
  have "i < 2 ^ 32" using unat_u32_less [of w] by (simp add: w)
  then have "i div 512 < 2 ^ 23" by (simp add: less_mult_imp_div_less)
  with cache_filled [OF p c, of "w div of_nat SECTOR_SIZE"] e obtain s1 where s1:
    "(if w div of_nat SECTOR_SIZE < FatCachePosition s \<or> w div of_nat SECTOR_SIZE \<ge> FatCachePosition s + of_nat FAT_CACHE_SIZE
      then do { (ok, s) \<leftarrow> FAT_ReadFat B part (w div of_nat SECTOR_SIZE) s; Some (s\<lparr>FatCachePosition := w div of_nat SECTOR_SIZE\<rparr>) }
      else Some s) = Some s1" "cache_frame s s1"
    "FatCache s1 = sectors_of (part_image part img) (table_lba s + unat (FatCachePosition s1)) 5"
    "unat (FatCachePosition s1) \<le> i div 512" "i div 512 < unat (FatCachePosition s1) + 5"
    unfolding k by (auto simp: entry_ok_def i_def)
  note v = cache_frame_volume [OF s1(2)]
  define q where "q = unat (FatCachePosition s1)"
  have q: "512 * q \<le> i" "i < 512 * q + 2560" using s1(4,5) by (simp_all add: q_def)
  have c1: "FatCache s1 = sectors_of (part_image part img) (table_lba s1 + q) 5" using s1(3) v(4) by (simp add: q_def)
  have "unat (FatCachePosition s1) * 512 < 2 ^ 32" using q(1) \<open>i < 2 ^ 32\<close> by (simp add: q_def)
  from u32_mult [OF this] have pos: "unat (FatCachePosition s1 * of_nat SECTOR_SIZE) = 512 * q" by (simp add: SECTOR_SIZE_def q_def)
  then have idx: "unat (w - FatCachePosition s1 * of_nat SECTOR_SIZE) = i - 512 * q"
    using q(1) w by (simp add: unat_sub word_le_nat_alt)
  have next_in: "i + 1 < 512 * q + 2560"
  proof (rule ccontr)
    assume "\<not> ?thesis"
    with q(2) have last: "i = 512 * (q + 4) + 511" by simp
    then have "i mod 512 = 511" "odd i" by (simp_all only: mod_mult_self4) simp_all
    then show False using e by (auto simp: entry_ok_def i_def table_index_def split: if_splits)
  qed
  have t16: "table16 part img s1 j = table16 part img s j" for j by (simp add: table16_def table_byte_def v(4))
  have lo: "cache16 s1 (w - FatCachePosition s1 * of_nat SECTOR_SIZE) = Some (table16 part img s i)"
    using cache16_ok [OF p c1 q(1) next_in idx] by (simp add: t16)
  have hi: "cache16 s1 (w - FatCachePosition s1 * of_nat SECTOR_SIZE + 2) = Some (table16 part img s (i + 2))"
    if ty: "g_FatType s \<noteq> 12" "g_FatType s \<noteq> 16"
  proof -
    have "4 dvd i" using ty by (simp add: i_def table_index_def)
    then obtain j where j: "i = 4 * j" by (rule dvdE)
    then have "j < 128 * q + 640" using q(2) by simp
    then have b: "i + 2 + 1 < 512 * q + 2560" unfolding j by linarith
    have "unat (w - FatCachePosition s1 * of_nat SECTOR_SIZE + 2) = i + 2 - 512 * q"
      using idx q b by (simp add: unat_word_ariths)
    from cache16_ok [OF p c1 _ b this] q(1) show ?thesis by (simp add: t16)
  qed
  have ev: "cl mod 2 = 0 \<longleftrightarrow> even (unat cl)" by (simp add: word_unat_eq_iff unat_mod_distrib even_iff_mod_2_eq_zero)
  have "FAT_NextCluster B part cl s = Some (table_entry part img s cl, s1)"
    unfolding FAT_NextCluster_def Let_def w_def [symmetric] s1(1)
    using lo hi v(1) ev by (simp add: table_entry_def i_def same_volume_def Let_def)
  moreover have "cache_ok part img s1" using c1 length_part_sectors [OF p] by (simp add: cache_ok_def q_def)
  ultimately show ?thesis using s1(2) by blast
qed

section \<open>Directories\<close>

text \<open>The first entry of a directory's bytes whose name matches.\<close>

function fat_find :: "u8 list \<Rightarrow> u8 list \<Rightarrow> FAT_DirectoryEntry option" where
  "fat_find nm xs =
     (if length xs < 32 then None
      else if take 11 xs = take 11 nm then Some (dir_entry (take 32 xs))
      else fat_find nm (drop 32 xs))"
  by pat_completeness auto
termination
  by (relation "measure (\<lambda>(nm, xs). length xs)") auto

declare fat_find.simps [simp del]

text \<open>How many entries stand before it.\<close>

function fat_index :: "u8 list \<Rightarrow> u8 list \<Rightarrow> nat" where
  "fat_index nm xs = (if length xs < 32 \<or> take 11 xs = take 11 nm then 0 else Suc (fat_index nm (drop 32 xs)))"
  by pat_completeness auto
termination
  by (relation "measure (\<lambda>(nm, xs). length xs)") auto

declare fat_index.simps [simp del]

lemma memcmp_take:
  "n \<le> length as \<Longrightarrow> n \<le> length bs \<Longrightarrow> s2_memcmp as bs n = Some (if take n as = take n bs then 0 else 1)"
  by (induction as bs n rule: s2_memcmp.induct) auto

section \<open>A stream of sectors\<close>

text \<open>The loop of the boot loader's \<open>FAT_Read\<close>.\<close>

locale sector_stream = sector_loop "get_file h" "put_file h" "next_sector B part h" "read_loop B part h" here gone sector n ends
  for B :: bios and part :: Partition and h :: int
    and here :: "'a fat_data_scheme \<Rightarrow> nat \<Rightarrow> bool" and gone :: "'a fat_data_scheme \<Rightarrow> bool"
    and sector :: "nat \<Rightarrow> u8 list" and n :: nat and ends :: bool
begin

lemma FAT_Read_ok:
  assumes "opened_at s p xs"
  shows "\<exists>s'. FAT_Read B part h c s = Some (take (unat c) (drop p xs), s') \<and> opened_at s' (min (p + unat c) (length xs)) xs"
  using reads_wanted [OF assms, of c] by (auto simp: FAT_Read_def wanted_def)

lemma FAT_ReadEntry_ok:
  assumes "opened_at s p xs"
  shows "\<exists>s'. FAT_ReadEntry B part h s = Some (if p + 32 \<le> length xs then Some (dir_entry (take 32 (drop p xs))) else None, s') \<and>
    opened_at s' (min (p + 32) (length xs)) xs"
proof -
  from FAT_Read_ok [OF assms, of 32] obtain s' where "FAT_Read B part h 32 s = Some (take 32 (drop p xs), s')"
    "opened_at s' (min (p + 32) (length xs)) xs" by auto
  moreover have "length (take 32 (drop p xs)) = 32 \<longleftrightarrow> p + 32 \<le> length xs" using opened_at_length [OF assms] by auto
  ultimately show ?thesis by (simp add: FAT_ReadEntry_def)
qed

lemma find_loop_ok:
  "opened_at s p xs \<Longrightarrow> 11 \<le> length nm \<Longrightarrow>
    \<exists>s' p'. find_loop B part h nm s = Some (fat_find nm (drop p xs), s') \<and> opened_at s' p' xs \<and>
      (fat_find nm (drop p xs) \<noteq> None \<longrightarrow> p' = p + 32 * Suc (fat_index nm (drop p xs)))"
proof (induction "length xs - p" arbitrary: s p rule: less_induct)
  case less
  from FAT_ReadEntry_ok [OF less.prems(1)] obtain s1 where s1:
    "FAT_ReadEntry B part h s = Some (if p + 32 \<le> length xs then Some (dir_entry (take 32 (drop p xs))) else None, s1)"
    "opened_at s1 (min (p + 32) (length xs)) xs" by blast
  show ?case
  proof (cases "p + 32 \<le> length xs")
    case False
    then have "fat_find nm (drop p xs) = None" by (subst fat_find.simps) auto
    then show ?thesis using s1 False by (subst find_loop.simps) auto
  next
    case True
    let ?e = "dir_entry (take 32 (drop p xs))" and ?same = "take 11 (drop p xs) = take 11 nm"
    have nm: "de_Name ?e = take 11 (drop p xs)" using True by (simp add: dir_entry_def)
    have cmp: "s2_memcmp nm (de_Name ?e) 11 = Some (if ?same then 0 else 1)"
      unfolding nm using memcmp_take [of 11 nm "take 11 (drop p xs)"] True less.prems(2) by auto
    have long: "\<not> length (drop p xs) < 32" using True by simp
    then have entry: "fat_find nm (drop p xs) = (if ?same then Some ?e else fat_find nm (drop (p + 32) xs))"
      by (subst fat_find.simps) (simp add: add.commute)
    from long have idx: "fat_index nm (drop p xs) = (if ?same then 0 else Suc (fat_index nm (drop (p + 32) xs)))"
      by (subst fat_index.simps) (simp add: add.commute)
    have op: "opened_at s1 (p + 32) xs" using s1(2) True by (simp add: min_absorb1)
    show ?thesis
    proof (cases ?same)
      case same: True
      have "find_loop B part h nm s = Some (Some ?e, s1)"
        using s1(1) cmp True same by (subst find_loop.simps) simp
      then show ?thesis using entry idx same op by auto
    next
      case diff: False
      have "find_loop B part h nm s = find_loop B part h nm s1"
        using s1(1) cmp True diff by (subst find_loop.simps) simp
      moreover have "length xs - (p + 32) < length xs - p" using True by simp
      from less.hyps [OF this op less.prems(2)] obtain s2 p2 where
        "find_loop B part h nm s1 = Some (fat_find nm (drop (p + 32) xs), s2)" "opened_at s2 p2 xs"
        "fat_find nm (drop (p + 32) xs) \<noteq> None \<longrightarrow> p2 = p + 32 + 32 * Suc (fat_index nm (drop (p + 32) xs))" by blast
      moreover have "fat_find nm (drop p xs) = fat_find nm (drop (p + 32) xs)"
        "fat_index nm (drop p xs) = Suc (fat_index nm (drop (p + 32) xs))" using entry idx diff by simp_all
      ultimately show ?thesis by auto
    qed
  qed
qed

end

section \<open>Loading sectors\<close>

text \<open>
  State \<open>s\<close> is on the volume of \<open>s0\<close>, its cache and its buffers are sound, and the same handles are in use.
\<close>

definition vol_ok :: "bios \<Rightarrow> Partition \<Rightarrow> (nat \<Rightarrow> u8 list) \<Rightarrow> 'a fat_data_scheme \<Rightarrow> 'a fat_data_scheme \<Rightarrow> bool" where
  "vol_ok B part img s0 s \<longleftrightarrow> part_ok B part img \<and> same_volume s0 s \<and> cache_ok part img s \<and>
     length (OpenedFiles s) = 10 \<and> (\<forall>f \<in> set (OpenedFiles s). length (ff_Buffer f) = 512) \<and>
     length (ff_Buffer (RootDirectory s)) = 512 \<and> map ff_Opened (OpenedFiles s) = map ff_Opened (OpenedFiles s0)"

definition handle_ok :: "int \<Rightarrow> bool" where
  "handle_ok h \<longleftrightarrow> h = ROOT_DIRECTORY_HANDLE \<or> 0 \<le> h \<and> h < 10"

lemma get_file_handle:
  assumes "length (OpenedFiles s) = 10" "get_file h s = Some fd"
  shows "handle_ok h" "h \<noteq> ROOT_DIRECTORY_HANDLE \<Longrightarrow> nat h < 10 \<and> 0 \<le> h \<and> OpenedFiles s ! nat h = fd"
    "h = ROOT_DIRECTORY_HANDLE \<Longrightarrow> RootDirectory s = fd"
  using assms by (auto simp: get_file_def handle_ok_def arr_get_def split: if_splits)

lemma get_put_file:
  "length (OpenedFiles s) = 10 \<Longrightarrow> handle_ok h \<Longrightarrow> get_file h (put_file h f s) = Some f"
  by (auto simp: get_file_def put_file_def handle_ok_def arr_get_def ROOT_DIRECTORY_HANDLE_def)

lemma put_file_volume [simp]:
  "same_volume s0 (put_file h f s) = same_volume s0 s" "cache_ok part img (put_file h f s) = cache_ok part img s"
  "length (OpenedFiles (put_file h f s)) = length (OpenedFiles s)"
  by (simp_all add: put_file_def same_volume_def cache_ok_def table_lba_def bs_ReservedSectors_def)

lemma put_file_fields:
  "OpenedFiles (put_file h f s) = (if h = ROOT_DIRECTORY_HANDLE then OpenedFiles s else (OpenedFiles s)[nat h := f])"
  "RootDirectory (put_file h f s) = (if h = ROOT_DIRECTORY_HANDLE then f else RootDirectory s)"
  by (simp_all add: put_file_def)

lemma vol_ok_bios [simp]:
  "vol_ok B part img s0 (s\<lparr>bios_calls := n\<rparr>) = vol_ok B part img s0 s" "get_file h (s\<lparr>bios_calls := n\<rparr>) = get_file h s"
  "same_volume s0 (s\<lparr>bios_calls := n\<rparr>) = same_volume s0 s"
  by (simp_all add: vol_ok_def same_volume_def cache_ok_def table_lba_def bs_ReservedSectors_def get_file_def)

lemma vol_ok_set:
  assumes v: "vol_ok B part img s0 s" and g: "get_file h s = Some fd"
    and f: "length (ff_Buffer f) = 512" "ff_Opened f = ff_Opened fd"
  shows "vol_ok B part img s0 (put_file h f s)"
proof -
  have len: "length (OpenedFiles s) = 10" using v by (simp add: vol_ok_def)
  have "map ff_Opened ((OpenedFiles s)[nat h := f]) = map ff_Opened (OpenedFiles s)" if "h \<noteq> ROOT_DIRECTORY_HANDLE"
    using get_file_handle(2) [OF len g that] f(2) by (simp add: map_update list_update_same_conv len)
  moreover have "\<forall>x \<in> set ((OpenedFiles s)[nat h := f]). length (ff_Buffer x) = 512"
    using v f(1) set_update_subset_insert [of "OpenedFiles s" "nat h" f] by (auto simp: vol_ok_def)
  ultimately show ?thesis using v f(1)
    by (cases "h = ROOT_DIRECTORY_HANDLE") (simp_all add: vol_ok_def put_file_fields)
qed

lemma vol_ok_buffer: "vol_ok B part img s0 s \<Longrightarrow> get_file h s = Some fd \<Longrightarrow> length (ff_Buffer fd) = 512"
  by (auto simp: vol_ok_def get_file_def arr_get_def split: if_splits)

lemma vol_ok_cache:
  assumes "vol_ok B part img s0 s" "cache_frame s s'" "cache_ok part img s'"
  shows "vol_ok B part img s0 s'" "get_file h s' = get_file h s"
proof -
  note f = cache_frame_volume [OF assms(2)]
  show "vol_ok B part img s0 s'" using assms f same_volume_trans [of s0 s s'] by (simp add: vol_ok_def)
  show "get_file h s' = get_file h s" by (simp add: get_file_def f)
qed

lemma load_sector_ok:
  assumes v: "vol_ok B part img s0 s" and g: "get_file h s = Some fd" and L: "in_part part L"
  shows "\<exists>s'. load_sector B part h (of_nat L) s = Some (True, s') \<and> vol_ok B part img s0 s' \<and>
    get_file h s' = Some (fd\<lparr>ff_Buffer := part_image part img L\<rparr>)"
proof -
  have p: "part_ok B part img" and len: "length (OpenedFiles s) = 10" using v by (simp_all add: vol_ok_def)
  have u: "unat (of_nat L :: u32) = L" by (rule in_part_unat [OF p L])
  have "in_part part (unat (of_nat L :: u32))" "512 * unat (1 :: u8) \<le> length (ff_Buffer fd)"
    using L vol_ok_buffer [OF v g] by (simp_all add: u)
  from Partition_read_1 [OF p this, of s] obtain n where "Partition_ReadSectors B part (of_nat L) 1 (ff_Buffer fd) s =
      Some (True, part_image part img L, s\<lparr>bios_calls := n\<rparr>)"
    using vol_ok_buffer [OF v g] unfolding u by auto
  then have "load_sector B part h (of_nat L) s =
      Some (True, put_file h (fd\<lparr>ff_Buffer := part_image part img L\<rparr>) (s\<lparr>bios_calls := n\<rparr>))"
    by (simp add: load_sector_def g)
  moreover have "vol_ok B part img s0 (put_file h (fd\<lparr>ff_Buffer := part_image part img L\<rparr>) (s\<lparr>bios_calls := n\<rparr>))"
    using length_part_image [OF p] v g by (intro vol_ok_set [of _ _ _ _ _ _ fd]) simp_all
  moreover have "get_file h (put_file h (fd\<lparr>ff_Buffer := part_image part img L\<rparr>) (s\<lparr>bios_calls := n\<rparr>)) =
      Some (fd\<lparr>ff_Buffer := part_image part img L\<rparr>)"
    using get_file_handle(1) [OF len g] len by (intro get_put_file) simp_all
  ultimately show ?thesis by blast
qed

section \<open>The root directory\<close>

text \<open>Its \<open>n\<close> sectors start at \<open>first\<close>; one more can be read behind them.\<close>

definition root_here ::
    "bios \<Rightarrow> Partition \<Rightarrow> (nat \<Rightarrow> u8 list) \<Rightarrow> 'a fat_data_scheme \<Rightarrow> nat \<Rightarrow> nat \<Rightarrow> 'a fat_data_scheme \<Rightarrow> nat \<Rightarrow> bool" where
  "root_here B part img s0 first n s q \<longleftrightarrow> vol_ok B part img s0 s \<and> (\<forall>k \<le> n. in_part part (first + k)) \<and> q < n \<and>
     ff_Handle (RootDirectory s) = ROOT_DIRECTORY_HANDLE \<and> ff_Buffer (RootDirectory s) = part_image part img (first + q) \<and>
     ff_CurrentCluster (RootDirectory s) = of_nat (first + q) \<and> ff_FirstCluster (RootDirectory s) = of_nat first"

lemma root_next:
  assumes "root_here B part img s0 first n s q" "get_file ROOT_DIRECTORY_HANDLE s = Some fd"
  shows "\<exists>s'. next_sector B part ROOT_DIRECTORY_HANDLE s = Some (True, s') \<and> vol_ok B part img s0 s' \<and>
    get_file ROOT_DIRECTORY_HANDLE s' = Some (fd\<lparr>ff_CurrentCluster := of_nat (first + Suc q),
      ff_Buffer := part_image part img (first + Suc q)\<rparr>)"
proof -
  note a = assms(1) [unfolded root_here_def]
  have fd: "fd = RootDirectory s" using assms(2) by (simp add: get_file_def)
  define c where "c = (of_nat (first + Suc q) :: u32)"
  have c: "ff_CurrentCluster fd + 1 = c" using a by (simp add: fd c_def)
  let ?s = "put_file ROOT_DIRECTORY_HANDLE (fd\<lparr>ff_CurrentCluster := c\<rparr>) s"
  have v: "vol_ok B part img s0 ?s" using a assms(2) vol_ok_buffer [of B part img s0 s ROOT_DIRECTORY_HANDLE fd]
    by (intro vol_ok_set [of _ _ _ _ _ _ fd]) simp_all
  have g: "get_file ROOT_DIRECTORY_HANDLE ?s = Some (fd\<lparr>ff_CurrentCluster := c\<rparr>)" by (simp add: get_file_def put_file_def)
  have "in_part part (first + Suc q)" using a by (metis Suc_leI)
  from load_sector_ok [OF v g this] obtain s' where "load_sector B part ROOT_DIRECTORY_HANDLE c ?s = Some (True, s')"
    "vol_ok B part img s0 s'" "get_file ROOT_DIRECTORY_HANDLE s' = Some (fd\<lparr>ff_CurrentCluster := c, ff_Buffer := part_image part img (first + Suc q)\<rparr>)"
    unfolding c_def by blast
  moreover have "ff_Handle fd = ROOT_DIRECTORY_HANDLE" using a by (simp add: fd)
  ultimately show ?thesis unfolding c_def [symmetric] using assms(2) by (simp add: next_sector_def c Let_def)
qed

interpretation root_dir: sector_stream B part ROOT_DIRECTORY_HANDLE "root_here B part img s0 first n" "vol_ok B part img s0"
  "\<lambda>q. part_image part img (first + q)" n False for B part img s0 first n
proof (unfold_locales, rule read_loop.simps)
  fix s :: "'a fat_data_scheme" and q fd p
  assume h: "root_here B part img s0 first n s q" and g: "get_file ROOT_DIRECTORY_HANDLE s = Some fd"
  note a = h [unfolded root_here_def]
  have fd: "fd = RootDirectory s" using g by (simp add: get_file_def)
  show "ff_Buffer fd = part_image part img (first + q)" using a by (simp add: fd)
  show "root_here B part img s0 first n (put_file ROOT_DIRECTORY_HANDLE (fd\<lparr>ff_Position := p\<rparr>) s) q \<and>
      get_file ROOT_DIRECTORY_HANDLE (put_file ROOT_DIRECTORY_HANDLE (fd\<lparr>ff_Position := p\<rparr>) s) = Some (fd\<lparr>ff_Position := p\<rparr>)"
  proof -
    have "vol_ok B part img s0 (put_file ROOT_DIRECTORY_HANDLE (fd\<lparr>ff_Position := p\<rparr>) s)"
      using a g vol_ok_buffer [of B part img s0 s ROOT_DIRECTORY_HANDLE fd] by (intro vol_ok_set [of _ _ _ _ _ _ fd]) simp_all
    then show ?thesis using a by (simp add: root_here_def) (simp add: put_file_def get_file_def fd)
  qed
  from root_next [OF h g] obtain s' where s': "next_sector B part ROOT_DIRECTORY_HANDLE s = Some (True, s')" "vol_ok B part img s0 s'"
    "get_file ROOT_DIRECTORY_HANDLE s' = Some (fd\<lparr>ff_CurrentCluster := of_nat (first + Suc q), ff_Buffer := part_image part img (first + Suc q)\<rparr>)"
    by blast
  show "\<exists>s' fd'. next_sector B part ROOT_DIRECTORY_HANDLE s = Some (True, s') \<and> root_here B part img s0 first n s' (Suc q) \<and>
      get_file ROOT_DIRECTORY_HANDLE s' = Some fd' \<and> ff_Position fd' = ff_Position fd \<and> ff_Size fd' = ff_Size fd \<and>
      ff_IsDirectory fd' = ff_IsDirectory fd" if "Suc q < n"
  proof -
    have "RootDirectory s' = fd\<lparr>ff_CurrentCluster := of_nat (first + Suc q), ff_Buffer := part_image part img (first + Suc q)\<rparr>"
      using s'(3) by (simp add: get_file_def)
    then have "root_here B part img s0 first n s' (Suc q)" using a s'(2) that by (simp add: root_here_def fd)
    then show ?thesis using s' by auto
  qed
  show "\<exists>s' fd'. next_sector B part ROOT_DIRECTORY_HANDLE s = Some (\<not> False, s') \<and> vol_ok B part img s0 s' \<and>
      get_file ROOT_DIRECTORY_HANDLE s' = Some fd' \<and> ff_Position fd' = ff_Position fd \<and>
      ff_Size fd' = (if False then ff_Position fd else ff_Size fd) \<and> ff_IsDirectory fd' = ff_IsDirectory fd" if "Suc q = n"
    using s' by auto
qed

section \<open>A chain of clusters\<close>

definition cluster_size :: "'a fat_data_scheme \<Rightarrow> nat" where
  "cluster_size s = unat (bs_SectorsPerCluster s)"

definition cluster_lba :: "'a fat_data_scheme \<Rightarrow> u32 \<Rightarrow> nat" where
  "cluster_lba s c = unat (g_DataSectionLba s) + (unat c - 2) * cluster_size s"

definition cluster_ok :: "Partition \<Rightarrow> 'a fat_data_scheme \<Rightarrow> u32 \<Rightarrow> bool" where
  "cluster_ok part s c \<longleftrightarrow> 2 \<le> unat c \<and> entry_ok part s c \<and> (\<forall>k < cluster_size s. in_part part (cluster_lba s c + k))"

text \<open>The clusters \<open>cs\<close> follow one another in the table of the disk, and the last one is marked as such.\<close>

definition chain_ok :: "Partition \<Rightarrow> (nat \<Rightarrow> u8 list) \<Rightarrow> 'a fat_data_scheme \<Rightarrow> u32 list \<Rightarrow> bool" where
  "chain_ok part img s cs \<longleftrightarrow> (\<forall>c \<in> set cs. cluster_ok part s c) \<and>
     (\<forall>i. Suc i < length cs \<longrightarrow> table_entry part img s (cs ! i) = cs ! Suc i) \<and>
     (cs \<noteq> [] \<longrightarrow> 0xFFFFFFF8 \<le> table_entry part img s (last cs))"

definition chain_sector :: "Partition \<Rightarrow> (nat \<Rightarrow> u8 list) \<Rightarrow> 'a fat_data_scheme \<Rightarrow> u32 list \<Rightarrow> nat \<Rightarrow> u8 list" where
  "chain_sector part img s cs q = part_image part img (cluster_lba s (cs ! (q div cluster_size s)) + q mod cluster_size s)"

definition chain_here ::
    "bios \<Rightarrow> Partition \<Rightarrow> (nat \<Rightarrow> u8 list) \<Rightarrow> 'a fat_data_scheme \<Rightarrow> u32 list \<Rightarrow> int \<Rightarrow> 'a fat_data_scheme \<Rightarrow> nat \<Rightarrow> bool" where
  "chain_here B part img s0 cs h s q \<longleftrightarrow> vol_ok B part img s0 s \<and> chain_ok part img s0 cs \<and> 0 \<le> h \<and> h < 10 \<and>
     q < cluster_size s0 * length cs \<and>
     (let fd = OpenedFiles s ! nat h
      in ff_Handle fd = h \<and> ff_Buffer fd = chain_sector part img s0 cs q \<and>
         ff_CurrentCluster fd = cs ! (q div cluster_size s0) \<and> unat (ff_CurrentSectorInCluster fd) = q mod cluster_size s0)"

lemma cluster_lba_word: "2 \<le> unat c \<Longrightarrow> of_nat (cluster_lba s c) = FAT_ClusterToLba c s"
proof -
  assume "2 \<le> unat c"
  then have "of_nat (unat c - 2) = c - 2" by (simp add: of_nat_diff)
  moreover have "of_nat (cluster_size s) = (ucast (bs_SectorsPerCluster s) :: u32)" by (simp add: cluster_size_def)
  ultimately show ?thesis by (simp add: cluster_lba_def FAT_ClusterToLba_def)
qed

lemma volume_table:
  assumes "same_volume s0 s"
  shows "table_entry part img s c = table_entry part img s0 c" "entry_ok part s c = entry_ok part s0 c"
proof -
  have t: "table_lba s = table_lba s0" "g_FatType s = g_FatType s0" by (simp_all add: table_lba_def same_volume_bs [OF assms])
  then show "table_entry part img s c = table_entry part img s0 c" "entry_ok part s c = entry_ok part s0 c"
    by (simp_all add: table_entry_def table16_def table_byte_def table_index_def entry_ok_def Let_def)
qed

text \<open>Where \<open>next_sector\<close> leads: the next sector of the cluster, or the next cluster.\<close>

lemma chain_next:
  assumes h: "chain_here B part img s0 cs h s q" and g: "get_file h s = Some fd"
  shows "if Suc q < cluster_size s0 * length cs
    then \<exists>s' k. next_sector B part h s = Some (True, s') \<and> vol_ok B part img s0 s' \<and>
      get_file h s' = Some (fd\<lparr>ff_CurrentSectorInCluster := k, ff_CurrentCluster := cs ! (Suc q div cluster_size s0),
        ff_Buffer := chain_sector part img s0 cs (Suc q)\<rparr>) \<and> unat k = Suc q mod cluster_size s0
    else \<exists>s' fd'. next_sector B part h s = Some (False, s') \<and> vol_ok B part img s0 s' \<and> get_file h s' = Some fd' \<and>
      ff_Position fd' = ff_Position fd \<and> ff_Size fd' = ff_Position fd \<and> ff_IsDirectory fd' = ff_IsDirectory fd"
proof -
  define N where "N = cluster_size s0"
  note a = h [unfolded chain_here_def, folded N_def]
  have v: "vol_ok B part img s0 s" and ch: "chain_ok part img s0 cs" and hr: "0 \<le> h" "h < 10" "h \<noteq> ROOT_DIRECTORY_HANDLE"
    and q: "q < N * length cs" using a by (simp_all add: ROOT_DIRECTORY_HANDLE_def)
  have len: "length (OpenedFiles s) = 10" and sv: "same_volume s0 s" and p: "part_ok B part img" using v by (simp_all add: vol_ok_def)
  have fd: "OpenedFiles s ! nat h = fd" by (rule get_file_handle(2) [OF len g hr(3), THEN conjunct2, THEN conjunct2])
  have f: "ff_Handle fd = h" "ff_CurrentCluster fd = cs ! (q div N)" "unat (ff_CurrentSectorInCluster fd) = q mod N"
    using a fd by (simp_all add: Let_def)
  have N: "0 < N" "N < 256" using q u8_less_256 [of "bs_SectorsPerCluster s0"] by (auto simp: N_def cluster_size_def intro: Nat.gr0I)
  have qc: "q div N < length cs" using q by (simp add: less_mult_imp_div_less mult.commute)
  have cl: "cluster_ok part s0 (cs ! (q div N))" if "q div N < length cs" for q
    using ch that by (simp add: chain_ok_def)
  define k where "k = ff_CurrentSectorInCluster fd + 1"
  have k: "unat k = q mod N + 1"
  proof -
    have "q mod N < N" using N by simp
    then show ?thesis using f(3) N(2) by (simp add: k_def unat_word_ariths)
  qed
  have spc: "ucast (bs_SectorsPerCluster s) \<le> k \<longleftrightarrow> N \<le> q mod N + 1"
    using k same_volume_bs(2) [OF sv] by (simp add: word_le_nat_alt N_def cluster_size_def unsigned_ucast_eq take_bit_nat_eq_self u8_less_256 less_trans [OF u8_less_256])
  have go: "\<exists>s'. next_sector B part h s = Some (True, s') \<and> vol_ok B part img s0 s' \<and>
      get_file h s' = Some (fd\<lparr>ff_CurrentSectorInCluster := j, ff_CurrentCluster := cs ! (Suc q div N),
        ff_Buffer := chain_sector part img s0 cs (Suc q)\<rparr>)"
    if t: "vol_ok B part img s0 t" "get_file h t = Some fd" and j: "unat j = Suc q mod N" and lt: "Suc q < N * length cs"
      and e: "(if ucast (bs_SectorsPerCluster s) \<le> k
               then do { (c, s) \<leftarrow> FAT_NextCluster B part (ff_CurrentCluster fd) s; Some (0, c, s) }
               else Some (k, ff_CurrentCluster fd, s)) = Some (j, cs ! (Suc q div N), t)" for t j
  proof -
    let ?c = "cs ! (Suc q div N)" and ?L = "cluster_lba s0 (cs ! (Suc q div N)) + Suc q mod N"
    let ?fd = "fd\<lparr>ff_CurrentSectorInCluster := j, ff_CurrentCluster := ?c\<rparr>"
    have cok: "cluster_ok part s0 ?c" using lt by (intro cl) (simp add: less_mult_imp_div_less mult.commute)
    then have c: "2 \<le> unat ?c" "unat ?c < 2 ^ 30" "in_part part ?L"
      using N by (auto simp: cluster_ok_def entry_ok_def N_def)
    have "\<not> 0xFFFFFFF8 \<le> ?c" using c(2) by (simp add: word_le_nat_alt)
    moreover have tv: "same_volume s0 t" using t(1) by (simp add: vol_ok_def)
    have "FAT_ClusterToLba ?c t + j = of_nat ?L"
    proof -
      have "(of_nat (Suc q mod N) :: u32) = j" using j by (metis of_nat_unat ucast_id)
      then show ?thesis using cluster_lba_word [OF c(1), of s0] same_volume_bs(3) [OF tv] by simp
    qed
    moreover have tl: "length (OpenedFiles t) = 10" using t(1) by (simp add: vol_ok_def)
    have v1: "vol_ok B part img s0 (put_file h ?fd t)"
      using t vol_ok_buffer [OF t] by (intro vol_ok_set [of _ _ _ _ _ _ fd]) simp_all
    have g1: "get_file h (put_file h ?fd t) = Some ?fd" using tl hr by (intro get_put_file) (simp_all add: handle_ok_def)
    from load_sector_ok [OF v1 g1 c(3)] obtain s' where "load_sector B part h (of_nat ?L) (put_file h ?fd t) = Some (True, s')"
      "vol_ok B part img s0 s'" "get_file h s' = Some (?fd\<lparr>ff_Buffer := part_image part img ?L\<rparr>)" by blast
    ultimately show ?thesis
      using g f(1) hr(3) e by (simp add: next_sector_def Let_def k_def [symmetric] chain_sector_def N_def [symmetric])
  qed
  show ?thesis
  proof (cases "q mod N + 1 < N")
    case True
    have dm: "Suc q div N = q div N" "Suc q mod N = q mod N + 1"
      using True by (simp_all add: mod_Suc div_Suc)
    then have lt: "Suc q < N * length cs" using qc N(1) by (simp flip: dm(1) add: div_less_iff_less_mult mult.commute)
    have "(if ucast (bs_SectorsPerCluster s) \<le> k
        then do { (c, s) \<leftarrow> FAT_NextCluster B part (ff_CurrentCluster fd) s; Some (0, c, s) }
        else Some (k, ff_CurrentCluster fd, s)) = Some (k, cs ! (Suc q div N), s)" using True spc f(2) dm(1) by simp
    from go [OF v g _ lt this] k dm(2) lt show ?thesis unfolding N_def [symmetric] by auto
  next
    case False
    moreover have "q mod N < N" using N by simp
    ultimately have full: "q mod N + 1 = N" by simp
    then have dm: "Suc q div N = Suc (q div N)" "Suc q mod N = 0" by (simp_all add: mod_Suc div_Suc)
    have "entry_ok part s (cs ! (q div N))" "cache_ok part img s"
      using cl [OF qc] v volume_table(2) [OF sv] by (simp_all add: cluster_ok_def vol_ok_def)
    from NextCluster_ok [OF p this(2,1)] obtain t where t: "FAT_NextCluster B part (cs ! (q div N)) s =
        Some (table_entry part img s0 (cs ! (q div N)), t)" "cache_frame s t" "cache_ok part img t"
      unfolding volume_table(1) [OF sv] by blast
    note vt = vol_ok_cache(1) [OF v t(2,3)] and gt = vol_ok_cache(2) [OF v t(2,3), of h, unfolded g]
    have e: "(if ucast (bs_SectorsPerCluster s) \<le> k
        then do { (c, s) \<leftarrow> FAT_NextCluster B part (ff_CurrentCluster fd) s; Some (0, c, s) }
        else Some (k, ff_CurrentCluster fd, s)) = Some (0, table_entry part img s0 (cs ! (q div N)), t)"
      using full spc f(2) t(1) by simp
    show ?thesis
    proof (cases "Suc (q div N) < length cs")
      case True
      then have lt: "Suc q < N * length cs" using N(1) by (simp flip: dm(1) add: div_less_iff_less_mult mult.commute)
      have "table_entry part img s0 (cs ! (q div N)) = cs ! (Suc q div N)" using ch True dm(1) by (simp add: chain_ok_def)
      with go [OF vt gt _ lt, of 0] e dm(2) obtain s' where s': "next_sector B part h s = Some (True, s')" "vol_ok B part img s0 s'"
        "get_file h s' = Some (fd\<lparr>ff_CurrentSectorInCluster := 0, ff_CurrentCluster := cs ! (Suc q div N),
          ff_Buffer := chain_sector part img s0 cs (Suc q)\<rparr>)" by auto
      have "\<exists>s' j. next_sector B part h s = Some (True, s') \<and> vol_ok B part img s0 s' \<and>
          get_file h s' = Some (fd\<lparr>ff_CurrentSectorInCluster := j, ff_CurrentCluster := cs ! (Suc q div N),
            ff_Buffer := chain_sector part img s0 cs (Suc q)\<rparr>) \<and> unat j = Suc q mod N"
        by (rule exI [of _ s'], rule exI [of _ 0]) (simp add: s' dm(2))
      then show ?thesis using lt unfolding N_def [symmetric] by simp
    next
      case last: False
      then have "\<not> Suc q < N * length cs" using N(1) by (simp flip: dm(1) add: div_less_iff_less_mult mult.commute)
      have "q div N = length cs - 1" using last qc by simp
      moreover have "cs \<noteq> []" using qc by auto
      ultimately have "cs ! (q div N) = last cs" by (simp add: last_conv_nth)
      then have eoc: "0xFFFFFFF8 \<le> table_entry part img s0 (cs ! (q div N))" using ch qc by (auto simp: chain_ok_def)
      let ?fd = "fd\<lparr>ff_CurrentSectorInCluster := 0, ff_CurrentCluster := table_entry part img s0 (cs ! (q div N)), ff_Size := ff_Position fd\<rparr>"
      have "next_sector B part h s = Some (False, put_file h ?fd t)"
        using g f(1) hr(3) e eoc by (simp add: next_sector_def Let_def k_def [symmetric])
      moreover have "vol_ok B part img s0 (put_file h ?fd t)"
        using vt gt vol_ok_buffer [OF vt gt] by (intro vol_ok_set [of _ _ _ _ _ _ fd]) simp_all
      moreover have "get_file h (put_file h ?fd t) = Some ?fd"
        using vt hr by (intro get_put_file) (simp_all add: handle_ok_def vol_ok_def)
      ultimately show ?thesis using \<open>\<not> Suc q < N * length cs\<close> unfolding N_def [symmetric] by auto
    qed
  qed
qed

interpretation chain_file: sector_stream B part h "chain_here B part img s0 cs h" "vol_ok B part img s0"
  "chain_sector part img s0 cs" "cluster_size s0 * length cs" True for B part h img s0 cs
proof (unfold_locales, rule read_loop.simps)
  fix s :: "'a fat_data_scheme" and q fd p
  assume h: "chain_here B part img s0 cs h s q" and g: "get_file h s = Some fd"
  note a = h [unfolded chain_here_def]
  have hr: "0 \<le> h" "h < 10" "h \<noteq> ROOT_DIRECTORY_HANDLE" "handle_ok h" using a by (simp_all add: ROOT_DIRECTORY_HANDLE_def handle_ok_def)
  have len: "length (OpenedFiles s) = 10" using a by (simp add: vol_ok_def)
  have fd: "OpenedFiles s ! nat h = fd" by (rule get_file_handle(2) [OF len g hr(3), THEN conjunct2, THEN conjunct2])
  have put: "chain_here B part img s0 cs h t r" if "vol_ok B part img s0 t" "get_file h t = Some f" "r < cluster_size s0 * length cs"
    "ff_Handle f = h" "ff_Buffer f = chain_sector part img s0 cs r" "ff_CurrentCluster f = cs ! (r div cluster_size s0)"
    "unat (ff_CurrentSectorInCluster f) = r mod cluster_size s0" for t r f
  proof -
    have "length (OpenedFiles t) = 10" using that(1) by (simp add: vol_ok_def)
    from get_file_handle(2) [OF this that(2) hr(3)] show ?thesis using a that by (simp add: chain_here_def Let_def)
  qed
  show "ff_Buffer fd = chain_sector part img s0 cs q" using a fd by (simp add: Let_def)
  show "chain_here B part img s0 cs h (put_file h (fd\<lparr>ff_Position := p\<rparr>) s) q \<and>
      get_file h (put_file h (fd\<lparr>ff_Position := p\<rparr>) s) = Some (fd\<lparr>ff_Position := p\<rparr>)"
  proof -
    have "vol_ok B part img s0 (put_file h (fd\<lparr>ff_Position := p\<rparr>) s)"
      using a g vol_ok_buffer [of B part img s0 s h fd] by (intro vol_ok_set [of _ _ _ _ _ _ fd]) simp_all
    moreover have "get_file h (put_file h (fd\<lparr>ff_Position := p\<rparr>) s) = Some (fd\<lparr>ff_Position := p\<rparr>)"
      by (rule get_put_file [OF len hr(4)])
    ultimately show ?thesis using put a fd by (simp add: Let_def)
  qed
  note n = chain_next [OF h g]
  show "\<exists>s' fd'. next_sector B part h s = Some (True, s') \<and> chain_here B part img s0 cs h s' (Suc q) \<and>
      get_file h s' = Some fd' \<and> ff_Position fd' = ff_Position fd \<and> ff_Size fd' = ff_Size fd \<and>
      ff_IsDirectory fd' = ff_IsDirectory fd" if "Suc q < cluster_size s0 * length cs"
  proof -
    from n that obtain s' k where s': "next_sector B part h s = Some (True, s')" "vol_ok B part img s0 s'"
      "get_file h s' = Some (fd\<lparr>ff_CurrentSectorInCluster := k, ff_CurrentCluster := cs ! (Suc q div cluster_size s0),
        ff_Buffer := chain_sector part img s0 cs (Suc q)\<rparr>)" "unat k = Suc q mod cluster_size s0" by auto
    have "chain_here B part img s0 cs h s' (Suc q)" by (rule put [OF s'(2,3) that]) (use a fd s'(4) in \<open>simp_all add: Let_def\<close>)
    then show ?thesis using s' by auto
  qed
  show "\<exists>s' fd'. next_sector B part h s = Some (\<not> True, s') \<and> vol_ok B part img s0 s' \<and> get_file h s' = Some fd' \<and>
      ff_Position fd' = ff_Position fd \<and> ff_Size fd' = (if True then ff_Position fd else ff_Size fd) \<and>
      ff_IsDirectory fd' = ff_IsDirectory fd" if "Suc q = cluster_size s0 * length cs"
    using n that by simp
qed

end
