(* ===== verification/LoaderOpenOk.thy ===== *)
theory LoaderOpenOk
  imports LoaderFatOk
begin

text \<open>
  Opening files: mounting a FAT12 or FAT16 volume, opening a directory entry, and walking a path.  A
  directory or file is its \<open>source\<close>: the run of sectors of the root directory, or a chain of clusters.
  Tree of directories: \<open>entry_file\<close> says which bytes a directory entry stands for, \<open>fat_path\<close> follows a list
  of short names down from the bytes of a directory.
\<close>

section \<open>Open files and their bytes\<close>

datatype source = Root nat nat | Chain "u32 list"

text \<open>
  State \<open>s\<close> has file \<open>h\<close> open at position \<open>p\<close>, with the bytes \<open>xs\<close>; \<open>s0\<close> is a state with the same
  volume and the same handles in use.
\<close>

definition root_open where
  "root_open B part img s0 first n s p xs \<longleftrightarrow>
     sector_loop.opened_at (get_file ROOT_DIRECTORY_HANDLE) (root_here B part img s0 first n) (vol_ok B part img s0)
       (\<lambda>q. part_image part img (first + q)) n False s p xs"

definition chain_open where
  "chain_open B part img s0 cs h s p xs \<longleftrightarrow> h \<noteq> ROOT_DIRECTORY_HANDLE \<and>
     sector_loop.opened_at (get_file h) (chain_here B part img s0 cs h) (vol_ok B part img s0)
       (chain_sector part img s0 cs) (cluster_size s0 * length cs) True s p xs"

definition open_at where
  "open_at B part img s0 src h s p xs \<longleftrightarrow>
     (case src of Root first n \<Rightarrow> h = ROOT_DIRECTORY_HANDLE \<and> root_open B part img s0 first n s p xs
      | Chain cs \<Rightarrow> chain_open B part img s0 cs h s p xs)"

lemma open_read:
  assumes "open_at B part img s0 src h s p xs"
  shows "\<exists>s'. FAT_Read B part h c s = Some (take (unat c) (drop p xs), s') \<and>
    open_at B part img s0 src h s' (min (p + unat c) (length xs)) xs"
proof (cases src)
  case (Root first n)
  with assms have r: "h = ROOT_DIRECTORY_HANDLE" "root_open B part img s0 first n s p xs" by (auto simp: open_at_def)
  from root_dir.FAT_Read_ok [OF r(2) [unfolded root_open_def]] show ?thesis
    unfolding open_at_def root_open_def Root source.case r(1) by blast
next
  case (Chain cs)
  with assms have r: "chain_open B part img s0 cs h s p xs" by (simp add: open_at_def)
  then show ?thesis using chain_file.FAT_Read_ok [OF r [unfolded chain_open_def, THEN conjunct2]]
    unfolding open_at_def chain_open_def Chain source.case by blast
qed

lemma open_find:
  assumes "open_at B part img s0 src h s p xs" "11 \<le> length nm"
  shows "\<exists>s' q. find_loop B part h nm s = Some (fat_find nm (drop p xs), s') \<and> open_at B part img s0 src h s' q xs \<and>
    (fat_find nm (drop p xs) \<noteq> None \<longrightarrow> q = p + 32 * Suc (fat_index nm (drop p xs)))"
proof (cases src)
  case (Root first n)
  with assms have r: "h = ROOT_DIRECTORY_HANDLE" "root_open B part img s0 first n s p xs" by (auto simp: open_at_def)
  from root_dir.find_loop_ok [OF r(2) [unfolded root_open_def] assms(2)] show ?thesis
    unfolding open_at_def root_open_def Root source.case r(1) by blast
next
  case (Chain cs)
  with assms have r: "chain_open B part img s0 cs h s p xs" by (simp add: open_at_def)
  then show ?thesis using chain_file.find_loop_ok [OF r [unfolded chain_open_def, THEN conjunct2] assms(2)]
    unfolding open_at_def chain_open_def Chain source.case by blast
qed

lemma open_position: "open_at B part img s0 src h s p xs \<Longrightarrow> p \<le> length xs"
  using root_dir.opened_at_length chain_file.opened_at_length
  by (cases src) (auto simp: open_at_def root_open_def chain_open_def)

lemma open_vol_ok: "open_at B part img s0 src h s p xs \<Longrightarrow> vol_ok B part img s0 s"
  by (cases src) (auto simp: open_at_def root_open_def chain_open_def root_dir.opened_at_def chain_file.opened_at_def
    root_dir.placed_def chain_file.placed_def root_here_def chain_here_def le_less)

section \<open>A volume at rest\<close>

lemma vol_ok_self: "vol_ok B part img s0 s \<Longrightarrow> vol_ok B part img s s"
  by (simp add: vol_ok_def)

lemma vol_ok_put:
  assumes "vol_ok B part img s s" "handle_ok h" "length (ff_Buffer f) = 512"
  shows "vol_ok B part img (put_file h f s) (put_file h f s)" "same_volume s (put_file h f s)"
proof -
  have "\<forall>x \<in> set ((OpenedFiles s)[nat h := f]). length (ff_Buffer x) = 512"
    using assms set_update_subset_insert [of "OpenedFiles s" "nat h" f] by (auto simp: vol_ok_def)
  then show "vol_ok B part img (put_file h f s) (put_file h f s)" "same_volume s (put_file h f s)"
    using assms by (simp_all add: vol_ok_def put_file_fields)
qed

lemma close_as_set:
  "FAT_Close h s = (if h = ROOT_DIRECTORY_HANDLE
     then put_file h ((RootDirectory s)\<lparr>ff_Position := 0, ff_CurrentCluster := ff_FirstCluster (RootDirectory s)\<rparr>) s
     else put_file h ((OpenedFiles s ! nat h)\<lparr>ff_Opened := False\<rparr>) s)"
  by (simp add: FAT_Close_def put_file_def)

lemma vol_ok_close:
  assumes "vol_ok B part img s s" "handle_ok h"
  shows "vol_ok B part img (FAT_Close h s) (FAT_Close h s)" "same_volume s (FAT_Close h s)"
proof -
  have "length (ff_Buffer (OpenedFiles s ! nat h)) = 512" if "h \<noteq> ROOT_DIRECTORY_HANDLE"
    using assms that by (auto simp: vol_ok_def handle_ok_def nat_less_iff)
  moreover have "length (ff_Buffer (RootDirectory s)) = 512" using assms by (simp add: vol_ok_def)
  ultimately show "vol_ok B part img (FAT_Close h s) (FAT_Close h s)" "same_volume s (FAT_Close h s)"
    using vol_ok_put [OF assms] by (cases "h = ROOT_DIRECTORY_HANDLE"; simp add: close_as_set)+
qed

text \<open>What the data on the disk means depends on the volume alone.\<close>

lemma volume_chain:
  assumes "same_volume s0 s"
  shows "cluster_size s = cluster_size s0" "chain_ok part img s cs = chain_ok part img s0 cs"
    "chain_sector part img s cs q = chain_sector part img s0 cs q"
proof -
  show c: "cluster_size s = cluster_size s0" using same_volume_bs(2) [OF assms] by (simp add: cluster_size_def)
  have "cluster_lba s d = cluster_lba s0 d" for d using assms c by (simp add: cluster_lba_def same_volume_def)
  then show "chain_ok part img s cs = chain_ok part img s0 cs" "chain_sector part img s cs q = chain_sector part img s0 cs q"
    using c volume_table [OF assms] by (simp_all add: chain_ok_def cluster_ok_def chain_sector_def)
qed

section \<open>Opening an entry\<close>

text \<open>Which handles are in use, and the first that is not.\<close>

definition in_use :: "'a fat_data_scheme \<Rightarrow> bool list" where
  "in_use s = map ff_Opened (OpenedFiles s)"

definition first_free :: "bool list \<Rightarrow> nat option" where
  "first_free us = find (\<lambda>i. \<not> us ! i) [0..<10]"

lemma first_free_less: "first_free us = Some i \<Longrightarrow> i < 10 \<and> \<not> us ! i"
  by (auto simp: first_free_def find_Some_iff)

lemma free_handle:
  assumes "vol_ok B part img s s"
  shows "find (\<lambda>i. \<not> ff_Opened (OpenedFiles s ! i)) [0..<MAX_FILE_HANDLES] = first_free (in_use s)"
  unfolding first_free_def MAX_FILE_HANDLES_def in_use_def
  using assms by (intro find_cong) (auto simp: vol_ok_def)

definition chain_bytes :: "Partition \<Rightarrow> (nat \<Rightarrow> u8 list) \<Rightarrow> 'a fat_data_scheme \<Rightarrow> u32 list \<Rightarrow> u8 list" where
  "chain_bytes part img s cs = concat (map (chain_sector part img s cs) [0..<cluster_size s * length cs])"

definition entry_cluster :: "FAT_DirectoryEntry \<Rightarrow> u32" where
  "entry_cluster e = ucast (de_FirstClusterLow e) + push_bit 16 (ucast (de_FirstClusterHigh e))"

definition entry_is_dir :: "FAT_DirectoryEntry \<Rightarrow> bool" where
  "entry_is_dir e \<longleftrightarrow> de_Attributes e AND FAT_ATTRIBUTE_DIRECTORY \<noteq> 0"

text \<open>
  The entry stands for the clusters \<open>cs\<close> and the bytes \<open>xs\<close>: as many as its size says, or all of
  them when it is a directory, whose entry has the size zero.
\<close>

definition entry_file ::
    "Partition \<Rightarrow> (nat \<Rightarrow> u8 list) \<Rightarrow> 'a fat_data_scheme \<Rightarrow> FAT_DirectoryEntry \<Rightarrow> u32 list \<Rightarrow> u8 list \<Rightarrow> bool" where
  "entry_file part img s e cs xs \<longleftrightarrow> chain_ok part img s cs \<and> cs \<noteq> [] \<and> hd cs = entry_cluster e \<and> 0 < cluster_size s \<and>
     512 * (cluster_size s * length cs) < 2 ^ 32 \<and>
     (if entry_is_dir e \<and> de_Size e = 0 then xs = chain_bytes part img s cs
      else unat (de_Size e) \<le> 512 * (cluster_size s * length cs) \<and> xs = take (unat (de_Size e)) (chain_bytes part img s cs))"

lemma entry_file_volume:
  assumes "same_volume s0 s"
  shows "entry_file part img s e cs xs = entry_file part img s0 e cs xs"
proof -
  have "chain_sector part img s cs = chain_sector part img s0 cs" by (rule ext) (rule volume_chain(3) [OF assms])
  then show ?thesis using volume_chain [OF assms] by (simp add: entry_file_def chain_bytes_def)
qed

lemma OpenEntry_ok:
  assumes v: "vol_ok B part img s s" and i: "first_free (in_use s) = Some i" and e: "entry_file part img s e cs xs"
  shows "\<exists>s'. FAT_OpenEntry B part e s = Some (Some (int i), s') \<and> same_volume s s' \<and>
    open_at B part img s' (Chain cs) (int i) s' 0 xs \<and> in_use s' = (in_use s)[i := True]"
proof -
  note i10 = first_free_less [OF i]
  let ?c = "entry_cluster e" and ?h = "int i"
  have h: "handle_ok ?h" "?h \<noteq> ROOT_DIRECTORY_HANDLE" using i10 by (simp_all add: handle_ok_def ROOT_DIRECTORY_HANDLE_def)
  have len: "length (OpenedFiles s) = 10" using v by (simp add: vol_ok_def)
  define fd where "fd = OpenedFiles s ! i"
  have g: "get_file ?h s = Some fd" using h i10 len by (simp add: get_file_def arr_get_def fd_def)
  define fd1 where "fd1 = fd\<lparr>ff_Handle := ?h, ff_IsDirectory := entry_is_dir e, ff_Position := 0, ff_Size := de_Size e,
    ff_FirstCluster := ?c, ff_CurrentCluster := ?c, ff_CurrentSectorInCluster := 0\<rparr>"
  define s1 where "s1 = put_file ?h fd1 s"
  have buf: "length (ff_Buffer fd1) = 512" using vol_ok_buffer [OF v g] by (simp add: fd1_def)
  have v1: "vol_ok B part img s1 s1" "same_volume s s1" using vol_ok_put [OF v h(1) buf] by (simp_all add: s1_def)
  have g1: "get_file ?h s1 = Some fd1" unfolding s1_def using get_put_file [OF len h(1)] .
  have cl: "cluster_ok part s1 ?c"
  proof -
    have "chain_ok part img s1 cs" "cs \<noteq> []" "hd cs = ?c" using e volume_chain(2) [OF v1(2)] by (simp_all add: entry_file_def)
    moreover from this(2,3) have "?c \<in> set cs" by (metis hd_in_set)
    ultimately show ?thesis by (simp add: chain_ok_def)
  qed
  have N: "0 < cluster_size s1" "cluster_size s1 = cluster_size s" using e volume_chain(1) [OF v1(2)] by (simp_all add: entry_file_def)
  with cl have L: "2 \<le> unat ?c" "in_part part (cluster_lba s1 ?c)" unfolding cluster_ok_def by (metis add.right_neutral)+
  from load_sector_ok [OF v1(1) g1 L(2)] obtain s2 where s2:
    "load_sector B part ?h (FAT_ClusterToLba ?c s1) s1 = Some (True, s2)" "vol_ok B part img s1 s2"
    "get_file ?h s2 = Some (fd1\<lparr>ff_Buffer := part_image part img (cluster_lba s1 ?c)\<rparr>)"
    unfolding cluster_lba_word [OF L(1)] by blast
  define fd3 where "fd3 = fd1\<lparr>ff_Buffer := part_image part img (cluster_lba s1 ?c), ff_Opened := True\<rparr>"
  define s3 where "s3 = put_file ?h fd3 s2"
  have len2: "length (OpenedFiles s2) = 10" using s2(2) by (simp add: vol_ok_def)
  have g3: "get_file ?h s3 = Some fd3" unfolding s3_def by (rule get_put_file [OF len2 h(1)])
  have p: "part_ok B part img" using v by (simp add: vol_ok_def)
  have v3: "vol_ok B part img s3 s3" "same_volume s s3"
    using vol_ok_put [OF vol_ok_self [OF s2(2)] h(1), of fd3] length_part_image [OF p] v1(2) s2(2)
      same_volume_trans [of s s1 s2] same_volume_trans [of s s2 s3]
    by (simp_all add: s3_def fd3_def vol_ok_def)
  have run: "FAT_OpenEntry B part e s = Some (Some ?h, s3)"
    unfolding FAT_OpenEntry_def free_handle [OF v] i
    using g s2(1,3) by (simp add: Let_def fd1_def [symmetric] entry_cluster_def [symmetric] entry_is_dir_def [symmetric]
      s1_def [symmetric] s3_def fd3_def)
  have use: "in_use s3 = (in_use s)[i := True]"
  proof -
    have "map ff_Opened (OpenedFiles s2) = map ff_Opened (OpenedFiles s1)" using s2(2) by (simp add: vol_ok_def)
    then show ?thesis using h(2) by (simp add: in_use_def s3_def s1_def put_file_fields map_update fd3_def)
  qed
  note vc = volume_chain [OF v3(2)]
  have e3: "entry_file part img s3 e cs xs" using e entry_file_volume [OF v3(2)] by simp
  let ?n = "cluster_size s3 * length cs"
  have pos: "0 < ?n" using e3 by (simp add: entry_file_def)
  have here: "chain_here B part img s3 cs ?h s3 0"
  proof -
    have o: "OpenedFiles s3 ! nat ?h = fd3" using get_file_handle(2) [OF _ g3 h(2)] v3(1) by (simp add: vol_ok_def)
    have hd: "cs ! 0 = ?c" using e3 hd_conv_nth [of cs] by (simp add: entry_file_def)
    have "same_volume s1 s3" using v1(2) v3(2) by (simp add: same_volume_def)
    then have "cluster_lba s3 ?c = cluster_lba s1 ?c"
      using volume_chain(1) [of s1 s3] by (simp add: cluster_lba_def same_volume_def)
    then have "chain_sector part img s3 cs 0 = part_image part img (cluster_lba s1 ?c)"
      using hd by (simp add: chain_sector_def)
    moreover have "chain_ok part img s3 cs" using e3 by (simp add: entry_file_def)
    ultimately show ?thesis using v3(1) pos i10 o hd by (simp add: chain_here_def fd3_def fd1_def)
  qed
  have "chain_file.placed ?h B part img s3 cs s3 0 fd3"
    unfolding chain_file.placed_def using g3 here pos e3 length_part_image [OF p]
    by (simp add: entry_file_def fd3_def fd1_def chain_sector_def)
  then have "chain_file.opened_at ?h B part img s3 cs s3 0 xs"
    unfolding chain_file.opened_at_def using e3 pos by (intro exI [of _ fd3]) (auto simp: entry_file_def fd3_def fd1_def chain_file.stream_bytes_def chain_bytes_def)
  then have "open_at B part img s3 (Chain cs) ?h s3 0 xs" using h(2) by (simp add: open_at_def chain_open_def)
  then show ?thesis using run v3(2) use by blast
qed

section \<open>Short names\<close>

text \<open>The short name of a string that ends with a NUL.\<close>

definition short_name :: "u8 list \<Rightarrow> u8 list" where
  "short_name c = (let ext = (if 46 \<in> set c then length (takeWhile (\<lambda>x. x \<noteq> 46) c) else 11)
     in padded 8 (map s2_toupper (take (min 8 ext) c)) @
        padded 3 (if ext \<noteq> 11 then map s2_toupper (take 3 (drop (ext + 1) c)) else []) @ [0])"

lemma length_short_name: "length (short_name c) = 12"
  by (simp add: short_name_def padded_def Let_def)

lemma strchr_string:
  "0 \<notin> set c \<Longrightarrow> x \<noteq> 0 \<Longrightarrow> s2_strchr (c @ 0 # r) x =
    Some (if x \<in> set c then Some (length (takeWhile (\<lambda>y. y \<noteq> x) c)) else None)"
  by (induction c) auto

lemma cstr_of_string: "0 \<notin> set c \<Longrightarrow> cstr_of (c @ 0 # r) = c"
  by (induction c) (auto simp: cstr_of_def)

lemma GetShortName_string:
  assumes "0 \<notin> set c"
  shows "FAT_GetShortName (c @ 0 # r) = Some (short_name c)"
  unfolding FAT_GetShortName_def using assms
  by (simp add: strchr_string cstr_of_string short_name_def Let_def)

text \<open>
  After the last component of a path there may be one more character before the NUL.  A name whose
  extension has three characters has the same short name with it.
\<close>

definition closed_name :: "u8 list \<Rightarrow> bool" where
  "closed_name c \<longleftrightarrow> 0 \<notin> set c \<and> 46 \<in> set c \<and> length (takeWhile (\<lambda>x. x \<noteq> 46) c) + 3 < length c"

lemma short_name_junk:
  assumes "closed_name c" "j \<noteq> 0"
  shows "short_name (c @ [j]) = short_name c"
proof -
  define k where "k = length (takeWhile (\<lambda>x. x \<noteq> 46) c)"
  have k: "46 \<in> set c" "k + 3 < length c" using assms(1) by (simp_all add: closed_name_def k_def)
  have "takeWhile (\<lambda>x. x \<noteq> 46) (c @ [j]) = takeWhile (\<lambda>x. x \<noteq> 46) c"
    using k(1) by (intro takeWhile_append1 [of 46]) simp_all
  moreover have "take (min 8 k) (c @ [j]) = take (min 8 k) c" "take 3 (drop (k + 1) (c @ [j])) = take 3 (drop (k + 1) c)"
    using k(2) by simp_all
  ultimately show ?thesis using k(1) by (simp add: short_name_def Let_def k_def [symmetric] del: take_append drop_append)
qed

lemma GetShortName_junk:
  assumes "closed_name c"
  shows "FAT_GetShortName (c @ j # 0 # r) = Some (short_name c)"
proof (cases "j = 0")
  case True
  then show ?thesis using GetShortName_string [of c "0 # r"] assms by (simp add: closed_name_def)
next
  case False
  then show ?thesis using GetShortName_string [of "c @ [j]" r] short_name_junk [OF assms False] assms
    by (simp add: closed_name_def)
qed

section \<open>Paths\<close>

fun slashed :: "u8 list list \<Rightarrow> u8 list" where
  "slashed [] = []"
| "slashed [c] = c"
| "slashed (c # d # cs) = c @ 47 # slashed (d # cs)"

text \<open>Component names that the array \<open>name\<close> of \<open>n\<close> cells can hold.\<close>

definition components_ok :: "nat \<Rightarrow> u8 list list \<Rightarrow> bool" where
  "components_ok n cs \<longleftrightarrow> cs \<noteq> [] \<and> (\<forall>c \<in> set cs. c \<noteq> [] \<and> 0 \<notin> set c \<and> 47 \<notin> set c \<and> length c + 2 \<le> n) \<and> closed_name (last cs)"

text \<open>Following the names \<open>cs\<close> from the directory with the bytes \<open>xs\<close> leads to the bytes \<open>ys\<close>.\<close>

inductive fat_path ::
    "Partition \<Rightarrow> (nat \<Rightarrow> u8 list) \<Rightarrow> 'a fat_data_scheme \<Rightarrow> u8 list \<Rightarrow> u8 list list \<Rightarrow> u8 list \<Rightarrow> bool"
  for part img s where
  here: "fat_find (short_name c) xs = Some e \<Longrightarrow> entry_file part img s e cs ys \<Longrightarrow> fat_path part img s xs [c] ys"
| below: "fat_find (short_name c) xs = Some e \<Longrightarrow> entry_file part img s e cs ys \<Longrightarrow> fat_path part img s ys (d # ds) zs \<Longrightarrow>
    fat_path part img s xs (c # d # ds) zs"

lemma fat_path_volume:
  assumes "same_volume s0 s" "fat_path part img s0 xs cs ys"
  shows "fat_path part img s xs cs ys"
  using assms(2) by induction (use entry_file_volume [OF assms(1)] in \<open>auto intro: fat_path.intros\<close>)

text \<open>One turn of the loop: find the entry, close the directory, open the entry.\<close>

lemma open_turn:
  assumes o: "open_at B part img s0 src h s 0 xs" and e: "fat_find (short_name c) xs = Some e" "entry_file part img s0 e cs ys"
    and n: "FAT_GetShortName nm = Some (short_name c)"
    and free: "in_use s0 = us" "first_free (if h = ROOT_DIRECTORY_HANDLE then us else us[nat h := False]) = Some i"
  shows "\<exists>s1 s2. FAT_FindFile B part h nm s = Some (Some e, s1) \<and>
    open_at B part img s0 src h s1 (32 * Suc (fat_index (short_name c) xs)) xs \<and>
    FAT_OpenEntry B part e (FAT_Close h s1) = Some (Some (int i), s2) \<and> same_volume s s2 \<and>
    open_at B part img s2 (Chain cs) (int i) s2 0 ys \<and>
    in_use s2 = (if h = ROOT_DIRECTORY_HANDLE then us else us[nat h := False])[i := True]"
proof -
  from open_find [OF o, of "short_name c"] e(1) obtain s1 where s1: "find_loop B part h (short_name c) s = Some (Some e, s1)"
    "open_at B part img s0 src h s1 (32 * Suc (fat_index (short_name c) xs)) xs" by (auto simp: length_short_name)
  note v = open_vol_ok [OF o] and v1 = open_vol_ok [OF s1(2)]
  have hok: "handle_ok h"
    using o by (cases src) (auto simp: open_at_def handle_ok_def chain_open_def chain_file.opened_at_def chain_file.placed_def
      get_file_def arr_get_def v [unfolded vol_ok_def] split: if_splits)
  let ?t = "FAT_Close h s1" and ?us = "if h = ROOT_DIRECTORY_HANDLE then us else us[nat h := False]"
  note vt = vol_ok_close [OF vol_ok_self [OF v1] hok]
  have sv: "same_volume s ?t" "same_volume s0 ?t" using v v1 vt(2) by (simp_all add: vol_ok_def same_volume_def)
  have use: "in_use ?t = ?us"
    using v1 free(1) by (auto simp: in_use_def vol_ok_def FAT_Close_def map_update)
  have "entry_file part img ?t e cs ys" using e(2) entry_file_volume [OF sv(2)] by simp
  from OpenEntry_ok [OF vt(1) _ this, of i] free(2) obtain s2 where
    "FAT_OpenEntry B part e ?t = Some (Some (int i), s2)" "same_volume ?t s2"
    "open_at B part img s2 (Chain cs) (int i) s2 0 ys" "in_use s2 = ?us[i := True]" unfolding use by blast
  moreover have "FAT_FindFile B part h nm s = Some (Some e, s1)" using n s1(1) by (simp add: FAT_FindFile_def)
  ultimately show ?thesis using s1(2) same_volume_trans [OF sv(1)] by blast
qed

text \<open>The next component of a path, and what it leaves in the array.\<close>

lemma next_component_last:
  assumes "47 \<notin> set c" "length c + 2 \<le> length name"
  shows "\<exists>j r. next_component name c = Some (c @ j # 0 # r, True, []) \<and> length (c @ j # 0 # r) = length name"
proof -
  have t: "takeWhile (\<lambda>x. x \<noteq> 47) c = c" using assms(1) by (auto simp: takeWhile_eq_all_conv)
  obtain j k r where r: "drop (length c) name = j # k # r" "length name = length c + 2 + length r"
  proof -
    have "length (drop (length c) name) = Suc (Suc (length name - length c - 2))" using assms(2) by simp
    then obtain j k r where "drop (length c) name = j # k # r" by (metis length_Suc_conv)
    moreover from this have "length name - length c = 2 + length r" by (metis length_drop length_Cons add_2_eq_Suc)
    ultimately show ?thesis using that assms(2) by simp
  qed
  have "arr_set (c @ j # k # r) (int (length c) + 1) 0 = Some (c @ j # 0 # r)"
    by (simp add: arr_set_def nat_add_distrib list_update_append)
  then show ?thesis using r assms(2) unfolding next_component_def Let_def t by simp
qed

lemma next_component_more:
  assumes "47 \<notin> set c" "length c + 2 \<le> length name"
  shows "\<exists>r. next_component name (c @ 47 # rest) = Some (c @ 0 # r, False, rest) \<and> length (c @ 0 # r) = length name"
proof -
  have t: "takeWhile (\<lambda>x. x \<noteq> 47) (c @ 47 # rest) = c" using assms(1) by (induction c) auto
  obtain j r where r: "drop (length c) name = j # r" "length name = length c + 1 + length r"
  proof -
    have "length (drop (length c) name) = Suc (length name - length c - 1)" using assms(2) by simp
    then obtain j r where "drop (length c) name = j # r" by (metis length_Suc_conv)
    moreover from this have "length name - length c = 1 + length r" by (metis length_drop length_Cons plus_1_eq_Suc)
    ultimately show ?thesis using that assms(2) by simp
  qed
  have "arr_set (c @ j # r) (int (length c)) 0 = Some (c @ 0 # r)" by (simp add: arr_set_def list_update_append)
  then show ?thesis using t r assms(2) by (simp add: next_component_def Let_def)
qed

lemma not_a_directory_never: "\<not> not_a_directory e"
  by (simp add: not_a_directory_def FAT_ATTRIBUTE_DIRECTORY_def)

lemma open_step:
  assumes o: "open_at B part img s0 src h s 0 xs" and c: "components_ok (length name) (c # cs)"
    and e: "fat_find (short_name c) xs = Some e" "entry_file part img s0 e cl ys"
    and us: "us = (if h = ROOT_DIRECTORY_HANDLE then in_use s0 else (in_use s0)[nat h := False])" and free: "first_free us = Some i"
  shows "\<exists>nm s1 s2 name'. length name' = length name \<and> FAT_FindFile B part h nm s = Some (Some e, s1) \<and>
    open_at B part img s0 src h s1 (32 * Suc (fat_index (short_name c) xs)) xs \<and>
    FAT_OpenEntry B part e (FAT_Close h s1) = Some (Some (int i), s2) \<and>
    open_loop B part h name (slashed (c # cs)) s = open_loop B part (int i) name' (slashed cs) s2 \<and>
    same_volume s s2 \<and> open_at B part img s2 (Chain cl) (int i) s2 0 ys \<and> in_use s2 = us[i := True]"
proof -
  have ok: "c \<noteq> []" "0 \<notin> set c" "47 \<notin> set c" "length c + 2 \<le> length name" using c by (simp_all add: components_ok_def)
  note fr = free [unfolded us]
  obtain name' isLast where n: "next_component name (slashed (c # cs)) = Some (name', isLast, slashed cs)"
    "length name' = length name" "FAT_GetShortName name' = Some (short_name c)" "slashed (c # cs) \<noteq> []"
  proof (cases cs)
    case Nil
    from next_component_last [OF ok(3,4)] obtain j r where "next_component name c = Some (c @ j # 0 # r, True, [])"
      "length (c @ j # 0 # r) = length name" by blast
    moreover have "closed_name c" using c Nil by (simp add: components_ok_def)
    ultimately show ?thesis using that [of "c @ j # 0 # r" True] GetShortName_junk ok(1) Nil by simp
  next
    case (Cons d ds)
    from next_component_more [OF ok(3,4), of "slashed cs"] obtain r where
      "next_component name (c @ 47 # slashed cs) = Some (c @ 0 # r, False, slashed cs)" "length (c @ 0 # r) = length name" by blast
    then show ?thesis using that [of "c @ 0 # r" False] GetShortName_string [OF ok(2), of r] Cons by simp
  qed
  from open_turn [OF o e n(3) refl fr, folded us] obtain s1 s2 where t: "FAT_FindFile B part h name' s = Some (Some e, s1)"
    "open_at B part img s0 src h s1 (32 * Suc (fat_index (short_name c) xs)) xs"
    "FAT_OpenEntry B part e (FAT_Close h s1) = Some (Some (int i), s2)"
    "same_volume s s2" "open_at B part img s2 (Chain cl) (int i) s2 0 ys" "in_use s2 = us[i := True]" by blast
  have "open_loop B part h name (slashed (c # cs)) s = open_loop B part (int i) name' (slashed cs) s2"
    using n(1,4) t(1,3) by (subst open_loop.simps) (simp add: not_a_directory_never Let_def)
  then show ?thesis using n(2) t by blast
qed

lemma open_loop_ok:
  assumes "fat_path part img s0 xs cs ys"
  shows "open_at B part img s0 src h s 0 xs \<Longrightarrow> components_ok (length name) cs \<Longrightarrow>
    us = (if h = ROOT_DIRECTORY_HANDLE then in_use s0 else (in_use s0)[nat h := False]) \<Longrightarrow> first_free us = Some i \<Longrightarrow>
    \<exists>s' cl. open_loop B part h name (slashed cs) s = Some (Some (int i), s') \<and> same_volume s s' \<and>
      open_at B part img s' (Chain cl) (int i) s' 0 ys \<and> in_use s' = us[i := True]"
  using assms
proof (induction cs arbitrary: s0 xs src h s name)
  case Nil
  then show ?case by (simp add: components_ok_def)
next
  case (Cons c cs)
  note p = Cons.prems
  from p(5) obtain e cl zs where e: "fat_find (short_name c) xs = Some e" "entry_file part img s0 e cl zs"
    and rest: "if cs = [] then ys = zs else fat_path part img s0 zs cs ys" by cases auto
  from open_step [OF p(1,2) e p(3,4)] obtain s2 name' where t: "length name' = length name"
    "open_loop B part h name (slashed (c # cs)) s = open_loop B part (int i) name' (slashed cs) s2"
    "same_volume s s2" "open_at B part img s2 (Chain cl) (int i) s2 0 zs" "in_use s2 = us[i := True]" by blast
  show ?case
  proof (cases cs)
    case Nil
    then show ?thesis using t rest by (auto simp: open_loop.simps [of B part "int i" _ "[]"])
  next
    case more: (Cons d ds)
    have sv: "same_volume s0 s2" using open_vol_ok [OF p(1)] t(3) by (simp add: vol_ok_def same_volume_def)
    have "us = (in_use s2)[nat (int i) := False]"
      using t(5) first_free_less [OF p(4)] list_update_id [of us i] by simp
    moreover have "components_ok (length name') cs" using p(2) more unfolding t(1) by (simp add: components_ok_def)
    moreover have "fat_path part img s2 zs cs ys" using rest more fat_path_volume [OF sv] by simp
    ultimately obtain s' cl' where "open_loop B part (int i) name' (slashed cs) s2 = Some (Some (int i), s')"
      "same_volume s2 s'" "open_at B part img s' (Chain cl') (int i) s' 0 ys" "in_use s' = us[i := True]"
      using Cons.IH [OF t(4), of name'] p(4) by (auto simp: ROOT_DIRECTORY_HANDLE_def)
    then show ?thesis using t(2) same_volume_trans [OF t(3)] by auto
  qed
qed

section \<open>Mounting\<close>

text \<open>
  A FAT12 or FAT16 volume by its boot sector: the first sector of the root directory, the number of
  its sectors, its bytes, and the type of the table.
\<close>

definition root_first :: "u8 list \<Rightarrow> nat" where
  "root_first bs = unat (le16 bs 14) + unat (le16 bs 22) * unat (bs ! 16)"

definition root_count :: "u8 list \<Rightarrow> nat" where
  "root_count bs = (32 * unat (le16 bs 17) + 511) div 512"

definition root_bytes :: "Partition \<Rightarrow> (nat \<Rightarrow> u8 list) \<Rightarrow> u8 list" where
  "root_bytes part img = (let bs = part_image part img 0
     in take (32 * unat (le16 bs 17)) (concat (map (\<lambda>q. part_image part img (root_first bs + q)) [0..<root_count bs])))"

definition fat_kind :: "u8 list \<Rightarrow> u8" where
  "fat_kind bs = (let total = (if le16 bs 19 = 0 then le32 bs 32 else ucast (le16 bs 19))
     in if (total - of_nat (root_first bs + root_count bs)) div ucast (bs ! 13) < 0xFF5 then 12 else 16)"

definition fat_volume :: "Partition \<Rightarrow> (nat \<Rightarrow> u8 list) \<Rightarrow> bool" where
  "fat_volume part img \<longleftrightarrow> (let bs = part_image part img 0
     in le16 bs 11 = 512 \<and> le16 bs 22 \<noteq> 0 \<and> bs ! 13 \<noteq> 0 \<and> le16 bs 17 \<noteq> 0 \<and> in_part part 0 \<and>
        (\<forall>k \<le> root_count bs. in_part part (root_first bs + k)))"

definition volume_of :: "Partition \<Rightarrow> (nat \<Rightarrow> u8 list) \<Rightarrow> 'a fat_data_scheme \<Rightarrow> 'a fat_data_scheme" where
  "volume_of part img s = (let bs = part_image part img 0
     in s\<lparr>BootSectorBytes := bs, g_DataSectionLba := of_nat (root_first bs + root_count bs), g_FatType := fat_kind bs\<rparr>)"

text \<open>The sizes of the arrays in \<open>FAT_Data\<close>.\<close>

definition fat_memory :: "'a fat_data_scheme \<Rightarrow> bool" where
  "fat_memory s \<longleftrightarrow> length (BootSectorBytes s) = 512 \<and> length (FatCache s) = 2560 \<and> length (OpenedFiles s) = 10 \<and>
     (\<forall>f \<in> set (OpenedFiles s). length (ff_Buffer f) = 512) \<and> length (ff_Buffer (RootDirectory s)) = 512"

lemma u16_products: "unat (a :: u16) + unat (b :: u16) * unat (c :: u8) < 2 ^ 25"
proof -
  have "unat b * unat c \<le> 65535 * 255"
    using u16_less [of b] u8_less_256 [of c] by (intro mult_le_mono) simp_all
  then show ?thesis using u16_less [of a] by simp
qed

lemma root_words:
  fixes d :: u16
  shows "(32 * ucast d + 511) div 512 = (of_nat ((32 * unat d + 511) div 512) :: u32)"
    "unat (32 * ucast d :: u32) = 32 * unat d"
proof -
  have b: "32 * unat d + 511 < 2 ^ 32" using u16_less [of d] by simp
  have w: "32 * ucast d + 511 = (of_nat (32 * unat d + 511) :: u32)" by simp
  then have u: "unat (32 * ucast d + 511 :: u32) = 32 * unat d + 511" using unat_of_nat_u32 [OF b] by (simp only:)
  have "unat ((32 * ucast d + 511) div 512 :: u32) = (32 * unat d + 511) div 512" by (simp only: unat_div_distrib u) simp
  then show "(32 * ucast d + 511) div 512 = (of_nat ((32 * unat d + 511) div 512) :: u32)" by (metis of_nat_unat ucast_id)
  have "32 * ucast d = (of_nat (32 * unat d) :: u32)" by simp
  then show "unat (32 * ucast d :: u32) = 32 * unat d" using unat_of_nat_u32 [of "32 * unat d"] b by (simp only:)
qed

lemma root_location_ok:
  assumes bs: "BootSectorBytes s = bs" and v: "le16 bs 11 = 512" "le16 bs 22 \<noteq> 0"
  shows "root_location s = Some (of_nat (root_first bs), s\<lparr>
    g_TotalSectors := (if le16 bs 19 = 0 then le32 bs 32 else ucast (le16 bs 19)),
    g_SectorsPerFat := ucast (le16 bs 22), g_DataSectionLba := of_nat (root_first bs + root_count bs)\<rparr>)"
proof -
  have f: "ucast (le16 bs 14) + ucast (le16 bs 22) * ucast (bs ! 16) = (of_nat (root_first bs) :: u32)"
    by (simp add: root_first_def)
  have c: "(32 * ucast (le16 bs 17) + 511) div 512 = (of_nat (root_count bs) :: u32)"
    unfolding root_count_def by (rule root_words)
  have e: "32 * ucast (le16 bs 17) + 512 - 1 = (32 * ucast (le16 bs 17) + 511 :: u32)" by simp
  show ?thesis unfolding root_location_def Let_def
    by (simp add: bs v bs_ReservedSectors_def bs_FatCount_def bs_SectorsPerFat_def bs_BytesPerSector_def bs_TotalSectors_def
        bs_LargeSectorCount_def bs_DirEntryCount_def f e c)
qed

lemma FAT_Initialize_ok:
  assumes m: "fat_memory s" and p: "part_ok B part img" and v: "fat_volume part img"
  shows "\<exists>s'. FAT_Initialize B part s = Some (True, s') \<and> same_volume (volume_of part img s) s' \<and>
    open_at B part img s' (Root (root_first (part_image part img 0)) (root_count (part_image part img 0)))
      ROOT_DIRECTORY_HANDLE s' 0 (root_bytes part img) \<and> in_use s' = replicate 10 False"
proof -
  define bs where "bs = part_image part img 0"
  let ?f = "root_first bs" and ?n = "root_count bs"
  have b: "le16 bs 11 = 512" "le16 bs 22 \<noteq> 0" "bs ! 13 \<noteq> 0" "le16 bs 17 \<noteq> 0" "in_part part 0"
    "\<And>k. k \<le> ?n \<Longrightarrow> in_part part (?f + k)" using v by (simp_all add: fat_volume_def Let_def bs_def)
  note len = length_part_image [OF p]
  have one: "unat (1 :: u8) = 1" by simp
  have "512 * unat (1 :: u8) \<le> length (BootSectorBytes s)" "in_part part (unat (0 :: u32))"
    using m b(5) by (simp_all add: fat_memory_def)
  from Partition_read_1 [OF p this(2,1), of s] obtain k where "Partition_ReadSectors B part 0 1 (BootSectorBytes s) s =
      Some (True, bs, s\<lparr>bios_calls := k\<rparr>)"
    using m by (auto simp: fat_memory_def bs_def sectors_1)
  then have boot: "FAT_ReadBootSector B part s = Some (True, s\<lparr>bios_calls := k, BootSectorBytes := bs\<rparr>)"
    by (simp add: FAT_ReadBootSector_def)
  define s1 where "s1 = s\<lparr>bios_calls := k, BootSectorBytes := bs, FatCachePosition := 0xFFFFFFFF,
    g_TotalSectors := (if le16 bs 19 = 0 then le32 bs 32 else ucast (le16 bs 19)),
    g_SectorsPerFat := ucast (le16 bs 22), g_DataSectionLba := of_nat (?f + ?n)\<rparr>"
  have loc: "root_location (s\<lparr>bios_calls := k, BootSectorBytes := bs, FatCachePosition := 0xFFFFFFFF\<rparr>) =
      Some (of_nat ?f, s1)"
    unfolding s1_def by (subst root_location_ok [of _ bs]) (simp_all add: b)
  define r where "r = (RootDirectory s)\<lparr>ff_Handle := ROOT_DIRECTORY_HANDLE, ff_IsDirectory := True,
         ff_Position := 0, ff_Size := 32 * ucast (le16 bs 17), ff_Opened := True, ff_FirstCluster := of_nat ?f,
         ff_CurrentCluster := of_nat ?f, ff_CurrentSectorInCluster := 0\<rparr>"
  have fp: "in_part part ?f" using b(6) [of 0] by simp
  have uf: "unat (of_nat ?f :: u32) = ?f" by (rule in_part_unat [OF p fp])
  have "in_part part (unat (of_nat ?f :: u32))" "512 * unat (1 :: u8) \<le> length (ff_Buffer r)"
    using fp m by (simp_all add: uf r_def fat_memory_def)
  from Partition_read_1 [OF p this, of "s1\<lparr>RootDirectory := r\<rparr>"] obtain j where
    read: "Partition_ReadSectors B part (of_nat ?f) 1 (ff_Buffer r) (s1\<lparr>RootDirectory := r\<rparr>) =
      Some (True, part_image part img ?f, s1\<lparr>RootDirectory := r, bios_calls := j\<rparr>)"
    using m unfolding uf by (auto simp: r_def fat_memory_def)
  define r2 where "r2 = r\<lparr>ff_Buffer := part_image part img ?f\<rparr>"
  define s2 where "s2 = s1\<lparr>RootDirectory := r2, bios_calls := j, g_FatType := fat_kind bs,
    OpenedFiles := map (\<lambda>f. f\<lparr>ff_Opened := False\<rparr>) (OpenedFiles s), LFNCount := 0\<rparr>"
  have det: "FAT_Detect (s1\<lparr>bios_calls := j, RootDirectory := r2\<rparr>) = Some (s1\<lparr>bios_calls := j, RootDirectory := r2, g_FatType := fat_kind bs\<rparr>)"
    using b by (simp add: FAT_Detect_def s1_def bs_SectorsPerCluster_def bs_SectorsPerFat_def fat_kind_def Let_def)
  have run: "FAT_Initialize B part s = Some (True, s2)"
  proof -
    have rd: "RootDirectory s1 = RootDirectory s" "bs_DirEntryCount s1 = le16 bs 17" "OpenedFiles s1 = OpenedFiles s"
      by (simp_all add: s1_def bs_DirEntryCount_def)
    moreover have "ff_Buffer r = ff_Buffer (RootDirectory s)" by (simp add: r_def)
    note read' = read [unfolded this]
    ultimately show ?thesis
      unfolding FAT_Initialize_def boot
      by (simp add: loc r_def [symmetric] read' r2_def [symmetric] det s2_def)
  qed
  have v2: "vol_ok B part img s2 s2"
    using m p len by (auto simp: vol_ok_def fat_memory_def cache_ok_def s2_def s1_def r2_def)
  have here: "root_here B part img s2 ?f ?n s2 0"
  proof -
    have "0 < unat (le16 bs 17)" using b(4) by (simp add: unat_gt_0)
    then have "0 < ?n" by (simp add: root_count_def)
    moreover have "RootDirectory s2 = r2" by (simp add: s2_def)
    ultimately show ?thesis using v2 b(6) by (simp add: root_here_def r2_def r_def)
  qed
  have small: "512 * ?n < 2 ^ 32" using u16_less [of "le16 bs 17"] by (simp add: root_count_def)
  have "root_dir.placed B part img s2 ?f ?n s2 0 r2"
    unfolding root_dir.placed_def using here small len
    by (simp add: get_file_def s2_def r2_def r_def root_here_def)
  moreover have "unat (ff_Size r2) = 32 * unat (le16 bs 17)" "32 * unat (le16 bs 17) \<le> 512 * ?n"
    unfolding r2_def r_def root_count_def using root_words(2) [of "le16 bs 17"] by simp_all
  moreover from this(1) b(4) have "ff_Size r2 \<noteq> 0" by (metis unat_gt_0 mult_pos_pos zero_less_numeral less_irrefl unat_0)
  ultimately have "root_dir.opened_at B part img s2 ?f ?n s2 0 (root_bytes part img)"
    unfolding root_dir.opened_at_def by (intro exI [of _ r2]) (simp add: root_dir.stream_bytes_def root_bytes_def Let_def bs_def)
  then have "open_at B part img s2 (Root ?f ?n) ROOT_DIRECTORY_HANDLE s2 0 (root_bytes part img)"
    by (simp add: open_at_def root_open_def)
  moreover have "same_volume (volume_of part img s) s2"
    by (simp add: same_volume_def volume_of_def Let_def bs_def [symmetric] s2_def s1_def)
  moreover have "in_use s2 = replicate 10 False"
    using m by (intro nth_equalityI) (simp_all add: in_use_def s2_def fat_memory_def)
  ultimately show ?thesis using run unfolding bs_def [symmetric] by blast
qed

section \<open>Reading a file by its path\<close>

lemma FAT_Open_ok:
  assumes "open_at B part img s (Root first n) ROOT_DIRECTORY_HANDLE s 0 xs" "components_ok (length name) cs"
    "fat_path part img s xs cs ys" "first_free (in_use s) = Some i" "path = slashed cs \<or> path = 47 # slashed cs"
  shows "\<exists>s' cl. FAT_Open B part name path s = Some (Some (int i), s') \<and> open_at B part img s' (Chain cl) (int i) s' 0 ys"
proof -
  have "slashed cs = [] \<or> hd (slashed cs) \<noteq> 47"
    using assms(2) by (cases cs rule: slashed.cases) (auto simp: components_ok_def hd_append dest!: hd_in_set)
  moreover have "slashed cs \<noteq> []"
    using assms(2) by (cases cs rule: slashed.cases) (auto simp: components_ok_def closed_name_def)
  ultimately have "FAT_Open B part name path s = open_loop B part ROOT_DIRECTORY_HANDLE name (slashed cs) s"
    using assms(5) by (auto simp: FAT_Open_def)
  then show ?thesis using open_loop_ok [OF assms(3,1,2) _ assms(4)] by auto
qed

lemma file_by_path:
  assumes m: "fat_memory s" "part_ok B part img" "fat_volume part img"
    and f: "fat_path part img (volume_of part img s) (root_bytes part img) cs ys" "components_ok (length name) cs"
  shows "\<exists>s1 s2 s3. FAT_Initialize B part s = Some (True, s1) \<and>
    FAT_Open B part name (47 # slashed cs) s1 = Some (Some 0, s2) \<and> FAT_Read B part 0 c s2 = Some (take (unat c) ys, s3)"
proof -
  from FAT_Initialize_ok [OF m] obtain s1 f n where s1: "FAT_Initialize B part s = Some (True, s1)"
    "same_volume (volume_of part img s) s1" "open_at B part img s1 (Root f n) ROOT_DIRECTORY_HANDLE s1 0 (root_bytes part img)"
    "in_use s1 = replicate 10 False" by blast
  have "first_free (in_use s1) = Some 0" by (simp add: s1(4) first_free_def upt_conv_Cons)
  from FAT_Open_ok [OF s1(3) f(2) fat_path_volume [OF s1(2) f(1)] this, of "47 # slashed cs"] obtain s2 cl where
    s2: "FAT_Open B part name (47 # slashed cs) s1 = Some (Some 0, s2)" "open_at B part img s2 (Chain cl) 0 s2 0 ys" by auto
  from open_read [OF s2(2), of c] s1(1) s2(1) show ?thesis by auto
qed

end
