(* ===== verification/HostFatOk.thy ===== *)
theory HostFatOk
  imports HostFat LoaderOpenOk
begin

text \<open>
  The host tool on a FAT12 image: it delivers the bytes that the boot loader delivers, by the same
  description of the volume (\<open>entry_file\<close>), and where it does not.
\<close>

section \<open>The image file\<close>

text \<open>The first \<open>N\<close> sectors of the partition are those of the file.\<close>

definition image_holds :: "u8 list \<Rightarrow> Partition \<Rightarrow> (nat \<Rightarrow> u8 list) \<Rightarrow> nat \<Rightarrow> bool" where
  "image_holds F part img N \<longleftrightarrow> (\<forall>l. length (part_image part img l) = 512) \<and> 512 * N \<le> length F \<and> length F < 2 ^ 32 \<and>
     (\<forall>l < N. take 512 (drop (512 * l) F) = part_image part img l)"

lemma lba_offset:
  assumes "image_holds F part img N" "l < N"
  shows "unat (of_nat l * of_nat SECTOR_SIZE :: u32) = 512 * l"
proof -
  have "512 * l < 2 ^ 32" using assms by (simp add: image_holds_def)
  then show ?thesis using unat_of_nat_u32 [of "512 * l"] by (simp add: SECTOR_SIZE_def mult.commute)
qed

lemma ReadSectors_tool_ok:
  assumes "image_holds F part img N" "l < N" "length data = 512"
  shows "DISK_ReadSectors_tool F (of_nat l) 1 data = Some (True, part_image part img l)"
proof -
  have "take 512 (drop (512 * l) F) = part_image part img l" "length (part_image part img l) = 512"
    using assms by (simp_all add: image_holds_def)
  then show ?thesis using assms(3) lba_offset [OF assms(1,2)]
    by (simp add: DISK_ReadSectors_tool_def Let_def SECTOR_SIZE_def)
qed

lemma many_sectors:
  assumes F: "image_holds F part img N" "l + n \<le> N"
  shows "take (512 * n) (drop (512 * l) F) = sectors_of (part_image part img) l n"
  using assms(2)
proof (induction n)
  case (Suc n)
  have "512 * Suc n = 512 * n + 512" by simp
  then have "take (512 * Suc n) (drop (512 * l) F) = take (512 * n) (drop (512 * l) F) @ take 512 (drop (512 * n) (drop (512 * l) F))"
    by (simp only: take_add)
  moreover have "drop (512 * n) (drop (512 * l) F) = drop (512 * (l + n)) F" by (simp add: add.commute)
  moreover have "take 512 (drop (512 * (l + n)) F) = part_image part img (l + n)"
    using F(1) Suc.prems unfolding image_holds_def by (metis Suc_le_lessD add_Suc_right)
  ultimately show ?case using Suc by (simp add: sectors_Suc)
qed (simp add: sectors_of_def)

section \<open>The volume\<close>

text \<open>The tool has mounted the volume of \<open>s0\<close>, a FAT12 volume with \<open>nf\<close> sectors of table.\<close>

definition tool_mounted :: "Partition \<Rightarrow> (nat \<Rightarrow> u8 list) \<Rightarrow> 'a fat_data_scheme \<Rightarrow> nat \<Rightarrow> nat \<Rightarrow> fat_tool \<Rightarrow> bool" where
  "tool_mounted part img s0 N nf s \<longleftrightarrow> image_holds (image_file s) part img N \<and> tool_boot s = BootSectorBytes s0 \<and>
     tool_data_lba s = g_DataSectionLba s0 \<and> g_FatType s0 = 12 \<and>
     (\<exists>fat. g_Fat s = Some fat \<and> 512 * nf \<le> length fat \<and> (\<forall>i < 512 * nf. fat ! i = table_byte part img s0 i)) \<and>
     length (tool_files s) = 10 \<and> (\<forall>f \<in> set (tool_files s). length (ff_Buffer f) = 512)"

lemma tool_get_handle: "0 \<le> h \<Longrightarrow> h < 10 \<Longrightarrow> length (tool_files s) = 10 \<Longrightarrow> tool_get h s = Some (tool_files s ! nat h)"
  by (simp add: tool_get_def ROOT_DIRECTORY_HANDLE_def)

lemma tool_get_put: "0 \<le> h \<Longrightarrow> h < 10 \<Longrightarrow> length (tool_files s) = 10 \<Longrightarrow> tool_get h (tool_put h f s) = Some f"
  by (simp add: tool_get_def tool_put_def ROOT_DIRECTORY_HANDLE_def)

lemma tool_put_mounted:
  "tool_mounted part img s0 N nf s \<Longrightarrow> 0 \<le> h \<Longrightarrow> length (ff_Buffer f) = 512 \<Longrightarrow> tool_mounted part img s0 N nf (tool_put h f s)"
  by (auto simp: tool_mounted_def tool_put_def ROOT_DIRECTORY_HANDLE_def dest!: set_update_subset_insert [THEN subsetD])

lemma tool_buffer: "tool_mounted part img s0 N nf s \<Longrightarrow> 0 \<le> h \<Longrightarrow> h < 10 \<Longrightarrow> length (ff_Buffer (tool_files s ! nat h)) = 512"
  by (simp add: tool_mounted_def)

lemma tool_load_ok:
  assumes m: "tool_mounted part img s0 N nf s" and h: "0 \<le> h" "h < 10" and g: "tool_get h s = Some fd" and l: "l < N"
  shows "tool_load t h (of_nat l) s = Some (True, tool_put h (fd\<lparr>ff_Buffer := part_image part img l\<rparr>) s)"
proof -
  have "fd = tool_files s ! nat h" using g h m by (simp add: tool_get_handle tool_mounted_def)
  then have "length (ff_Buffer fd) = 512" using tool_buffer [OF m h] by simp
  moreover have "image_holds (image_file s) part img N" using m by (simp add: tool_mounted_def)
  ultimately show ?thesis using ReadSectors_tool_ok [OF _ l] g by (simp add: tool_load_def)
qed

text \<open>An entry of the table, as twelve bits, and as the loader widens it.\<close>

lemma NextCluster_tool_ok:
  assumes m: "tool_mounted part img s0 N nf s" and e: "entry_ok part s0 c" and b: "unat c * 3 div 2 + 1 < 512 * nf"
  shows "\<exists>v :: u16. FAT_NextCluster_tool c s = Some (ucast v) \<and>
    table_entry part img s0 c = (if v \<ge> 0xFF8 then ucast v OR 0xFFFFF000 else ucast v)"
proof -
  from m obtain fat where fat: "g_Fat s = Some fat" "512 * nf \<le> length fat" "\<forall>i < 512 * nf. fat ! i = table_byte part img s0 i"
    by (auto simp: tool_mounted_def)
  let ?i = "unat c * 3 div 2"
  have ty: "g_FatType s0 = 12" using m by (simp add: tool_mounted_def)
  have "unat c * 3 < 2 ^ 32" using e by (simp add: entry_ok_def)
  then have i: "unat (c * 3 div 2) = ?i" by (simp add: unat_div_distrib unat_word_ariths)
  have le: "le16 fat ?i = table16 part img s0 (table_index s0 c)" using fat b by (simp add: le16_def table16_def table_index_def ty)
  have par: "c mod 2 = 0 \<longleftrightarrow> even (unat c)"
  proof -
    have "unat (c mod 2) = unat c mod 2" by (simp add: unat_mod_distrib)
    then show ?thesis by (metis even_iff_mod_2_eq_zero unat_eq_0)
  qed
  define v where "v = (if even (unat c) then le16 fat ?i AND 0xFFF else drop_bit 4 (le16 fat ?i))"
  have "?i + 1 < length fat" using fat(2) b by simp
  then have "FAT_NextCluster_tool c s = Some (ucast v)" using fat(1) by (simp add: FAT_NextCluster_tool_def i par v_def)
  then show ?thesis by (intro exI [of _ v]) (simp add: table_entry_def Let_def ty le v_def)
qed

lemma tool_successor:
  assumes m: "tool_mounted part img s0 N nf s" and e: "entry_ok part s0 c" and b: "unat c * 3 div 2 + 1 < 512 * nf"
  shows "entry_ok part s0 (table_entry part img s0 c) \<Longrightarrow> FAT_NextCluster_tool c s = Some (table_entry part img s0 c) \<and>
      \<not> 0xFF8 \<le> table_entry part img s0 c"
    and "0xFFFFFFF8 \<le> table_entry part img s0 c \<Longrightarrow> \<exists>d \<ge> 0xFF8. FAT_NextCluster_tool c s = Some d"
proof -
  from NextCluster_tool_ok [OF m e b] obtain v :: u16 where v: "FAT_NextCluster_tool c s = Some (ucast v)"
    "table_entry part img s0 c = (if v \<ge> 0xFF8 then ucast v OR 0xFFFFF000 else ucast v)" by blast
  have w: "(0xFF8 :: u32) \<le> ucast v \<longleftrightarrow> 0xFF8 \<le> v" by (simp add: word_le_nat_alt unat_u16_u32)
  show "FAT_NextCluster_tool c s = Some (table_entry part img s0 c) \<and> \<not> 0xFF8 \<le> table_entry part img s0 c"
    if n: "entry_ok part s0 (table_entry part img s0 c)"
  proof (cases "v \<ge> 0xFF8")
    case True
    have "(0xFFFFF000 :: u32) \<le> ucast v OR 0xFFFFF000" using le_word_or2 [of "0xFFFFF000 :: u32" "ucast v"] by (simp only: or.commute)
    then have "0xFFFFF000 \<le> unat (table_entry part img s0 c)" using v(2) True by (simp add: word_le_nat_alt)
    then show ?thesis using n by (simp add: entry_ok_def)
  next
    case False
    then show ?thesis using v w by simp
  qed
  show "\<exists>d \<ge> 0xFF8. FAT_NextCluster_tool c s = Some d" if n: "0xFFFFFFF8 \<le> table_entry part img s0 c"
  proof -
    have "v \<ge> 0xFF8"
    proof (rule ccontr)
      assume "\<not> ?thesis"
      then show False using n v(2) w u16_less [of v] by (simp add: word_le_nat_alt unat_u16_u32)
    qed
    then show ?thesis using v(1) w by blast
  qed
qed

section \<open>A chain of clusters\<close>

definition tool_chain :: "Partition \<Rightarrow> (nat \<Rightarrow> u8 list) \<Rightarrow> 'a fat_data_scheme \<Rightarrow> nat \<Rightarrow> nat \<Rightarrow> u32 list \<Rightarrow> bool" where
  "tool_chain part img s0 N nf cs \<longleftrightarrow> chain_ok part img s0 cs \<and>
     (\<forall>c \<in> set cs. unat c < 0xFF8 \<and> unat c * 3 div 2 + 1 < 512 * nf \<and> (\<forall>k < cluster_size s0. cluster_lba s0 c + k < N))"

definition tool_here ::
    "Partition \<Rightarrow> (nat \<Rightarrow> u8 list) \<Rightarrow> 'a fat_data_scheme \<Rightarrow> nat \<Rightarrow> nat \<Rightarrow> u32 list \<Rightarrow> int \<Rightarrow> fat_tool \<Rightarrow> nat \<Rightarrow> bool" where
  "tool_here part img s0 N nf cs h s q \<longleftrightarrow> tool_mounted part img s0 N nf s \<and> tool_chain part img s0 N nf cs \<and> 0 \<le> h \<and> h < 10 \<and>
     q < cluster_size s0 * length cs \<and>
     (let fd = tool_files s ! nat h
      in ff_Handle fd = h \<and> ff_Buffer fd = chain_sector part img s0 cs q \<and>
         ff_CurrentCluster fd = cs ! (q div cluster_size s0) \<and> unat (ff_CurrentSectorInCluster fd) = q mod cluster_size s0)"

lemma tool_next:
  assumes h: "tool_here part img s0 N nf cs h s q" and g: "tool_get h s = Some fd"
  shows "if Suc q < cluster_size s0 * length cs
    then \<exists>k. next_sector_tool h s = Some (True, tool_put h (fd\<lparr>ff_CurrentSectorInCluster := k,
        ff_CurrentCluster := cs ! (Suc q div cluster_size s0), ff_Buffer := chain_sector part img s0 cs (Suc q)\<rparr>)
      (tool_put h (fd\<lparr>ff_CurrentSectorInCluster := k, ff_CurrentCluster := cs ! (Suc q div cluster_size s0)\<rparr>) s)) \<and>
      unat k = Suc q mod cluster_size s0
    else \<exists>c. next_sector_tool h s =
      Some (False, tool_put h (fd\<lparr>ff_CurrentSectorInCluster := 0, ff_CurrentCluster := c, ff_Size := ff_Position fd\<rparr>) s)"
proof -
  define S where "S = cluster_size s0"
  note a = h [unfolded tool_here_def, folded S_def]
  have m: "tool_mounted part img s0 N nf s" and ch: "chain_ok part img s0 cs" "tool_chain part img s0 N nf cs" and hr: "0 \<le> h" "h < 10"
    and q: "q < S * length cs" using a by (simp_all add: tool_chain_def)
  have len: "length (tool_files s) = 10" using m by (simp add: tool_mounted_def)
  have fd: "tool_files s ! nat h = fd" using tool_get_handle [OF hr len] g by simp
  have f: "ff_Handle fd \<noteq> ROOT_DIRECTORY_HANDLE" "ff_CurrentCluster fd = cs ! (q div S)" "unat (ff_CurrentSectorInCluster fd) = q mod S"
    using a fd by (simp_all add: Let_def ROOT_DIRECTORY_HANDLE_def)
  have S: "0 < S" "S < 256" using q u8_less_256 [of "bs_SectorsPerCluster s0"] by (auto simp: S_def cluster_size_def intro: Nat.gr0I)
  have qc: "q div S < length cs" using q by (simp add: less_mult_imp_div_less mult.commute)
  have cl: "cluster_ok part s0 (cs ! i)" "\<not> 0xFF8 \<le> cs ! i" "unat (cs ! i) * 3 div 2 + 1 < 512 * nf" "k < S \<Longrightarrow> cluster_lba s0 (cs ! i) + k < N"
    if "i < length cs" for i k using ch that by (auto simp: chain_ok_def tool_chain_def S_def word_le_nat_alt dest!: nth_mem)
  define k where "k = ff_CurrentSectorInCluster fd + 1"
  have mS: "q mod S < S" using S by simp
  have k: "unat k = q mod S + 1" using f(3) S(2) mS by (simp add: k_def unat_word_ariths)
  have "unat (ucast (SectorsPerCluster s) :: u32) = S"
    using m by (simp add: S_def cluster_size_def bs_SectorsPerCluster_def tool_mounted_def unsigned_ucast_eq take_bit_nat_eq_self less_trans [OF u8_less_256])
  then have spc: "ucast (SectorsPerCluster s) \<le> k \<longleftrightarrow> S \<le> q mod S + 1" using k by (simp add: word_le_nat_alt)
  let ?step = "if ucast (SectorsPerCluster s) \<le> k then map_option (Pair 0) (FAT_NextCluster_tool (ff_CurrentCluster fd) s)
    else Some (k, ff_CurrentCluster fd)"
  have go: "next_sector_tool h s = Some (True, tool_put h (fd\<lparr>ff_CurrentSectorInCluster := j,
        ff_CurrentCluster := cs ! (Suc q div S), ff_Buffer := chain_sector part img s0 cs (Suc q)\<rparr>)
      (tool_put h (fd\<lparr>ff_CurrentSectorInCluster := j, ff_CurrentCluster := cs ! (Suc q div S)\<rparr>) s))"
    if j: "unat j = Suc q mod S" "?step = Some (j, cs ! (Suc q div S))" "Suc q < S * length cs" for j
  proof -
    let ?c = "cs ! (Suc q div S)" and ?fd = "fd\<lparr>ff_CurrentSectorInCluster := j, ff_CurrentCluster := cs ! (Suc q div S)\<rparr>"
    have i: "Suc q div S < length cs" using j(3) by (simp add: less_mult_imp_div_less mult.commute)
    have L: "cluster_lba s0 ?c + Suc q mod S < N" using cl(4) [OF i] S by simp
    have "2 \<le> unat ?c" using cl(1) [OF i] by (simp add: cluster_ok_def)
    moreover have "(of_nat (Suc q mod S) :: u32) = j" using j(1) by (metis of_nat_unat ucast_id)
    ultimately have lba: "FAT_ClusterToLba_tool ?c s + j = of_nat (cluster_lba s0 ?c + Suc q mod S)"
      using cluster_lba_word [of ?c s0] m by (simp add: FAT_ClusterToLba_tool_def FAT_ClusterToLba_def bs_SectorsPerCluster_def tool_mounted_def)
    have b: "length (ff_Buffer ?fd) = 512" using tool_buffer [OF m hr] fd by simp
    have "tool_get h (tool_put h ?fd s) = Some ?fd" by (rule tool_get_put [OF hr len])
    from tool_load_ok [OF tool_put_mounted [OF m hr(1) b] hr this L, of "''FAT: read error!'' @ crlf"] show ?thesis
      using g f(1) j(2) cl(2) [OF i] lba by (simp add: next_sector_tool_def k_def [symmetric] chain_sector_def S_def [symmetric])
  qed
  show ?thesis
  proof (cases "q mod S + 1 < S")
    case True
    have dm: "Suc q div S = q div S" "Suc q mod S = q mod S + 1" using True by (simp_all add: mod_Suc div_Suc)
    then have lt: "Suc q < S * length cs" using qc S(1) by (simp flip: dm(1) add: div_less_iff_less_mult mult.commute)
    have step: "?step = Some (k, cs ! (Suc q div S))" using True spc f(2) dm(1) by simp
    show ?thesis using go [OF _ step lt] k dm lt unfolding S_def [symmetric] by auto
  next
    case False
    with mS have full: "q mod S + 1 = S" by simp
    then have dm: "Suc q div S = Suc (q div S)" "Suc q mod S = 0" by (simp_all add: mod_Suc div_Suc)
    have e: "entry_ok part s0 (cs ! (q div S))" using cl(1) [OF qc] by (simp add: cluster_ok_def)
    note suc = tool_successor [OF m e cl(3) [OF qc]]
    show ?thesis
    proof (cases "Suc (q div S) < length cs")
      case True
      then have lt: "Suc q < S * length cs" using S(1) by (simp flip: dm(1) add: div_less_iff_less_mult mult.commute)
      have "table_entry part img s0 (cs ! (q div S)) = cs ! (Suc q div S)" using ch True dm(1) by (simp add: chain_ok_def)
      moreover have "entry_ok part s0 (cs ! (Suc q div S))" using cl(1) [of "Suc q div S"] True dm(1) by (simp add: cluster_ok_def)
      ultimately have "FAT_NextCluster_tool (ff_CurrentCluster fd) s = Some (cs ! (Suc q div S))" using suc(1) f(2) by simp
      then show ?thesis using go [of 0] full spc dm lt unfolding S_def [symmetric] by auto
    next
      case last: False
      then have "\<not> Suc q < S * length cs" using S(1) by (simp flip: dm(1) add: div_less_iff_less_mult mult.commute)
      have "q div S = length cs - 1" using last qc by simp
      moreover have "cs \<noteq> []" using qc by auto
      ultimately have "cs ! (q div S) = last cs" by (simp add: last_conv_nth)
      then have "0xFFFFFFF8 \<le> table_entry part img s0 (cs ! (q div S))" using ch qc by (auto simp: chain_ok_def)
      from suc(2) [OF this] obtain d where d: "d \<ge> 0xFF8" "FAT_NextCluster_tool (ff_CurrentCluster fd) s = Some d" using f(2) by auto
      have "next_sector_tool h s = Some (False, tool_put h (fd\<lparr>ff_CurrentSectorInCluster := 0, ff_CurrentCluster := d, ff_Size := ff_Position fd\<rparr>) s)"
        using g f(1) d full spc by (simp add: next_sector_tool_def k_def [symmetric])
      then show ?thesis using \<open>\<not> Suc q < S * length cs\<close> unfolding S_def [symmetric] by auto
    qed
  qed
qed

interpretation tool_file: sector_loop "tool_get h" "tool_put h" "next_sector_tool h" "read_loop_tool h"
  "tool_here part img s0 N nf cs h" "tool_mounted part img s0 N nf" "chain_sector part img s0 cs" "cluster_size s0 * length cs" True
  for h part img s0 N nf cs
proof (unfold_locales, rule read_loop_tool.simps)
  fix s q fd p
  assume h: "tool_here part img s0 N nf cs h s q" and g: "tool_get h s = Some fd"
  note a = h [unfolded tool_here_def]
  have hr: "0 \<le> h" "h < 10" and m: "tool_mounted part img s0 N nf s" using a by simp_all
  have len: "length (tool_files s) = 10" using m by (simp add: tool_mounted_def)
  have fd: "tool_files s ! nat h = fd" using tool_get_handle [OF hr len] g by simp
  have b: "length (ff_Buffer fd) = 512" using tool_buffer [OF m hr] fd by simp
  have put: "tool_here part img s0 N nf cs h (tool_put h f t) r" if "tool_mounted part img s0 N nf t" "r < cluster_size s0 * length cs"
    "ff_Handle f = h" "ff_Buffer f = chain_sector part img s0 cs r" "ff_CurrentCluster f = cs ! (r div cluster_size s0)"
    "unat (ff_CurrentSectorInCluster f) = r mod cluster_size s0" "length (ff_Buffer f) = 512" for t r f
    using a that tool_put_mounted [OF that(1) hr(1) that(7)]
    by (auto simp: tool_here_def Let_def tool_put_def ROOT_DIRECTORY_HANDLE_def tool_mounted_def nat_less_iff)
  show "ff_Buffer fd = chain_sector part img s0 cs q" using a fd by (simp add: Let_def)
  show "tool_here part img s0 N nf cs h (tool_put h (fd\<lparr>ff_Position := p\<rparr>) s) q \<and>
      tool_get h (tool_put h (fd\<lparr>ff_Position := p\<rparr>) s) = Some (fd\<lparr>ff_Position := p\<rparr>)"
    using put [OF m] tool_get_put [OF hr len] a fd b by (simp add: Let_def)
  note n = tool_next [OF h g]
  have sec: "length (chain_sector part img s0 cs r) = 512" for r
    using m by (simp add: tool_mounted_def image_holds_def chain_sector_def)
  show "\<exists>s' fd'. next_sector_tool h s = Some (True, s') \<and> tool_here part img s0 N nf cs h s' (Suc q) \<and>
      tool_get h s' = Some fd' \<and> ff_Position fd' = ff_Position fd \<and> ff_Size fd' = ff_Size fd \<and>
      ff_IsDirectory fd' = ff_IsDirectory fd" if lt: "Suc q < cluster_size s0 * length cs"
  proof -
    let ?f = "\<lambda>k. fd\<lparr>ff_CurrentSectorInCluster := k, ff_CurrentCluster := cs ! (Suc q div cluster_size s0)\<rparr>"
    from n lt obtain k where k: "next_sector_tool h s = Some (True, tool_put h ((?f k)\<lparr>ff_Buffer := chain_sector part img s0 cs (Suc q)\<rparr>)
      (tool_put h (?f k) s))" "unat k = Suc q mod cluster_size s0" by auto
    have m1: "tool_mounted part img s0 N nf (tool_put h (?f k) s)" by (rule tool_put_mounted [OF m hr(1)]) (simp add: b)
    have l1: "length (tool_files (tool_put h (?f k) s)) = 10" using m1 by (simp add: tool_mounted_def)
    show ?thesis using k(1) put [OF m1 lt, of "(?f k)\<lparr>ff_Buffer := chain_sector part img s0 cs (Suc q)\<rparr>"] k(2) a fd sec
      tool_get_put [OF hr l1] by (simp add: Let_def)
  qed
  show "\<exists>s' fd'. next_sector_tool h s = Some (\<not> True, s') \<and> tool_mounted part img s0 N nf s' \<and> tool_get h s' = Some fd' \<and>
      ff_Position fd' = ff_Position fd \<and> ff_Size fd' = (if True then ff_Position fd else ff_Size fd) \<and>
      ff_IsDirectory fd' = ff_IsDirectory fd" if "Suc q = cluster_size s0 * length cs"
  proof -
    from n that obtain c where c: "next_sector_tool h s =
      Some (False, tool_put h (fd\<lparr>ff_CurrentSectorInCluster := 0, ff_CurrentCluster := c, ff_Size := ff_Position fd\<rparr>) s)" by auto
    have "tool_mounted part img s0 N nf (tool_put h (fd\<lparr>ff_CurrentSectorInCluster := 0, ff_CurrentCluster := c, ff_Size := ff_Position fd\<rparr>) s)"
      by (rule tool_put_mounted [OF m hr(1)]) (simp add: b)
    then show ?thesis using c tool_get_put [OF hr len] by simp
  qed
qed

section \<open>Opening and reading\<close>

definition tool_open where
  "tool_open part img s0 N nf cs h s p xs \<longleftrightarrow> sector_loop.opened_at (tool_get h) (tool_here part img s0 N nf cs h)
     (tool_mounted part img s0 N nf) (chain_sector part img s0 cs) (cluster_size s0 * length cs) True s p xs"

lemma FAT_Read_tool_ok:
  assumes o: "tool_open part img s0 N nf cs h s p xs" and g: "tool_get h s = Some fd" "\<not> ff_IsDirectory fd \<or> ff_Size fd = 0"
  shows "\<exists>s'. FAT_Read_tool h c s = Some (take (unat c) (drop p xs), s') \<and>
    tool_open part img s0 N nf cs h s' (min (p + unat c) (length xs)) xs \<and>
    (\<exists>fd'. tool_get h s' = Some fd' \<and> ff_IsDirectory fd' = ff_IsDirectory fd)"
proof -
  have "(if ff_IsDirectory fd then c else min c (ff_Size fd - ff_Position fd)) = wanted c fd" using g(2) by (auto simp: wanted_def)
  then show ?thesis using tool_file.reads_wanted [OF o [unfolded tool_open_def], of c] g(1) by (auto simp: FAT_Read_tool_def tool_open_def)
qed

lemma OpenEntry_tool_ok:
  assumes m: "tool_mounted part img s0 N nf s" and i: "first_free (map ff_Opened (tool_files s)) = Some i"
    and e: "entry_file part img s0 e cs xs" and c: "tool_chain part img s0 N nf cs"
  shows "\<exists>s' fd. FAT_OpenEntry_tool e s = Some (Some (int i), s') \<and> tool_get (int i) s' = Some fd \<and>
    ff_IsDirectory fd = entry_is_dir e \<and> ff_Size fd = de_Size e \<and> tool_open part img s0 N nf cs (int i) s' 0 xs"
proof -
  let ?h = "int i" and ?c = "entry_cluster e"
  have h: "0 \<le> ?h" "?h < 10" "?h \<noteq> ROOT_DIRECTORY_HANDLE" using first_free_less [OF i] by (simp_all add: ROOT_DIRECTORY_HANDLE_def)
  have len: "length (tool_files s) = 10" using m by (simp add: tool_mounted_def)
  have free: "find (\<lambda>i. \<not> ff_Opened (tool_files s ! i)) [0..<MAX_FILE_HANDLES] = Some i"
  proof -
    have "find (\<lambda>i. \<not> ff_Opened (tool_files s ! i)) [0..<10] = find (\<lambda>i. \<not> map ff_Opened (tool_files s) ! i) [0..<10]"
      using len by (intro find_cong) simp_all
    then show ?thesis using i by (simp add: first_free_def MAX_FILE_HANDLES_def)
  qed
  define fd where "fd = tool_files s ! i"
  have g: "tool_get ?h s = Some fd" using tool_get_handle [OF h(1,2) len] by (simp add: fd_def)
  define fd1 where "fd1 = fd\<lparr>ff_Handle := ?h, ff_IsDirectory := entry_is_dir e, ff_Position := 0, ff_Size := de_Size e,
    ff_FirstCluster := ?c, ff_CurrentCluster := ?c, ff_CurrentSectorInCluster := 0\<rparr>"
  have b1: "length (ff_Buffer fd1) = 512" using tool_buffer [OF m h(1,2)] by (simp add: fd1_def fd_def)
  note m1 = tool_put_mounted [OF m h(1) b1] and g1 = tool_get_put [OF h(1,2) len, of fd1]
  have ce: "cs \<noteq> []" "cs ! 0 = ?c" "?c \<in> set cs" "0 < cluster_size s0" "chain_ok part img s0 cs"
    using e hd_conv_nth [of cs] hd_in_set [of cs] by (auto simp: entry_file_def)
  have L: "cluster_lba s0 ?c < N" using c ce(3,4) unfolding tool_chain_def by (metis add.right_neutral)
  have "2 \<le> unat ?c" using ce(3,5) by (auto simp: chain_ok_def cluster_ok_def)
  then have lba: "FAT_ClusterToLba_tool ?c (tool_put ?h fd1 s) = of_nat (cluster_lba s0 ?c)"
    using cluster_lba_word [of ?c s0] m1 by (simp add: FAT_ClusterToLba_tool_def FAT_ClusterToLba_def bs_SectorsPerCluster_def tool_mounted_def)
  define fd2 where "fd2 = fd1\<lparr>ff_Buffer := part_image part img (cluster_lba s0 ?c)\<rparr>"
  note load = tool_load_ok [OF m1 h(1,2) g1 L, folded fd2_def]
  have i2: "length (part_image part img l) = 512" for l using m by (simp add: tool_mounted_def image_holds_def)
  have b2: "length (ff_Buffer fd2) = 512" "length (ff_Buffer (fd2\<lparr>ff_Opened := True\<rparr>)) = 512" using i2 by (simp_all add: fd2_def)
  note m2 = tool_put_mounted [OF m1 h(1) b2(1)]
  define s' where "s' = tool_put ?h (fd2\<lparr>ff_Opened := True\<rparr>) (tool_put ?h fd2 (tool_put ?h fd1 s))"
  have m3: "tool_mounted part img s0 N nf s'" unfolding s'_def by (rule tool_put_mounted [OF m2 h(1) b2(2)])
  have len2: "length (tool_files (tool_put ?h fd2 (tool_put ?h fd1 s))) = 10" using m2 by (simp add: tool_mounted_def)
  have len1: "length (tool_files (tool_put ?h fd1 s)) = 10" using m1 by (simp add: tool_mounted_def)
  note g2 = tool_get_put [OF h(1,2) len1, of fd2] and g3 = tool_get_put [OF h(1,2) len2, of "fd2\<lparr>ff_Opened := True\<rparr>", folded s'_def]
  have run: "FAT_OpenEntry_tool e s = Some (Some ?h, s')"
    unfolding FAT_OpenEntry_tool_def free
    using g load [of "''FAT: read error'' @ crlf"] g2 lba
    by (simp add: Let_def entry_cluster_def [symmetric] entry_is_dir_def [symmetric] fd1_def [symmetric] s'_def)
  let ?n = "cluster_size s0 * length cs"
  have pos: "0 < ?n" "512 * ?n < 2 ^ 32" using ce e by (simp_all add: entry_file_def)
  have o: "tool_files s' ! i = fd2\<lparr>ff_Opened := True\<rparr>"
  proof -
    have "length (tool_files s') = 10" using m3 by (simp add: tool_mounted_def)
    then show ?thesis using tool_get_handle [OF h(1,2), of s'] g3 by simp
  qed
  have "tool_here part img s0 N nf cs ?h s' 0"
    using m3 c h pos(1) o ce(2) by (simp add: tool_here_def fd2_def fd1_def chain_sector_def)
  then have "tool_open part img s0 N nf cs ?h s' 0 xs"
    unfolding tool_open_def tool_file.opened_at_def tool_file.placed_def tool_file.stream_bytes_def using e pos g3 i2
    by (intro exI [of _ "fd2\<lparr>ff_Opened := True\<rparr>"]) (auto simp: entry_file_def fd2_def fd1_def chain_bytes_def chain_sector_def)
  then show ?thesis using run g3 by (intro exI [of _ s'] exI [of _ "fd2\<lparr>ff_Opened := True\<rparr>"]) (simp add: fd2_def fd1_def)
qed

section \<open>Mounting\<close>

text \<open>A FAT12 image that the tool can mount: its table has at most 115 sectors, so they fit the memory set aside.\<close>

definition tool_image :: "(nat \<Rightarrow> u8 list option) \<Rightarrow> Partition \<Rightarrow> (nat \<Rightarrow> u8 list) \<Rightarrow> nat \<Rightarrow> bool" where
  "tool_image alloc part img N \<longleftrightarrow> (let bs = part_image part img 0; nf = unat (le16 bs 22)
     in le16 bs 11 = 512 \<and> 0 < nf \<and> nf \<le> 115 \<and> fat_kind bs = 12 \<and> unat (le16 bs 14) + nf \<le> N \<and> root_first bs < N \<and>
        (\<exists>xs. alloc (512 * nf + 512) = Some xs \<and> length xs = 512 * nf + 512))"

definition tool_memory :: "fat_tool \<Rightarrow> bool" where
  "tool_memory s \<longleftrightarrow> length (tool_boot s) = 512 \<and> length (ff_Buffer (tool_root s)) = 512 \<and> length (tool_files s) = 10 \<and>
     (\<forall>f \<in> set (tool_files s). length (ff_Buffer f) = 512)"

lemma FAT_Initialize_tool_ok:
  assumes F: "image_holds (image_file s) part img N" and t: "tool_image alloc part img N" and m: "tool_memory s"
  shows "\<exists>s'. FAT_Initialize_tool alloc s = Some (True, s') \<and> map ff_Opened (tool_files s') = replicate 10 False \<and>
    tool_mounted part img (volume_of part img s0) N (unat (le16 (part_image part img 0) 22)) s' \<and>
    ff_Handle (tool_root s') = ROOT_DIRECTORY_HANDLE \<and> ff_IsDirectory (tool_root s') \<and> ff_Position (tool_root s') = 0 \<and>
    ff_CurrentCluster (tool_root s') = 0 \<and>
    ff_Buffer (tool_root s') = part_image part img (root_first (part_image part img 0))"
proof -
  define bs where "bs = part_image part img 0"
  define nf where "nf = unat (le16 bs 22)"
  let ?r = "unat (le16 bs 14)"
  have c: "le16 bs 11 = 512" "0 < nf" "nf \<le> 115" "fat_kind bs = 12" "?r + nf \<le> N" "root_first bs < N" "0 < N"
    using t by (auto simp: tool_image_def Let_def bs_def nf_def)
  from t obtain xs where xs: "alloc (512 * nf + 512) = Some xs" "length xs = 512 * nf + 512"
    by (auto simp: tool_image_def Let_def bs_def nf_def)
  have mem: "length (tool_boot s) = 512" "length (ff_Buffer (tool_root s)) = 512" "length (tool_files s) = 10"
    "\<forall>f \<in> set (tool_files s). length (ff_Buffer f) = 512" using m by (simp_all add: tool_memory_def)
  have len: "length (part_image part img l) = 512" for l using F by (simp add: image_holds_def)
  have boot: "FAT_ReadBootSector_tool s = Some (True, s\<lparr>tool_boot := bs\<rparr>)"
    using ReadSectors_tool_ok [OF F c(7) mem(1)] by (simp add: FAT_ReadBootSector_tool_def bs_def)
  let ?s1 = "s\<lparr>tool_boot := bs, g_Fat := Some xs\<rparr>"
  define fat where "fat = sectors_of (part_image part img) ?r nf @ drop (512 * nf) xs"
  have sl: "length (sectors_of (part_image part img) l k) = 512 * k" for l k
    by (induction k) (simp_all add: sectors_of_def len)
  have read: "FAT_ReadFat_tool ?s1 = Some (True, s\<lparr>tool_boot := bs, g_Fat := Some fat\<rparr>)"
  proof -
    have n8: "unat (ucast (le16 bs 22) :: u8) = nf" using c(3) by (simp add: nf_def unsigned_ucast_eq take_bit_nat_eq_self)
    have "?r < N" using c(2,5) by simp
    from lba_offset [OF F this] have o: "unat (ucast (le16 bs 14) * 512 :: u32) = 512 * ?r" by (simp add: SECTOR_SIZE_def)
    have "512 * N \<le> length (image_file s)" using F by (simp add: image_holds_def)
    then have mn: "min (length (image_file s) - 512 * ?r) (512 * nf) = 512 * nf" using c(5) by simp
    have "DISK_ReadSectors_tool (image_file s) (ucast (le16 bs 14)) (ucast (le16 bs 22)) xs = Some (True, fat)"
      using sl c(2) xs(2) many_sectors [OF F c(5)]
      by (simp add: DISK_ReadSectors_tool_def Let_def n8 SECTOR_SIZE_def o mn fat_def div_greater_zero_iff)
    then show ?thesis by (simp add: FAT_ReadFat_tool_def)
  qed
  have f: "ucast (le16 bs 14) + ucast (le16 bs 22) * ucast (bs ! 16) = (of_nat (root_first bs) :: u32)" by (simp add: root_first_def)
  have rc: "(32 * ucast (le16 bs 17) + 511) div 512 = (of_nat (root_count bs) :: u32)" unfolding root_count_def by (rule root_words)
  define r where "r = (tool_root s)\<lparr>ff_Handle := ROOT_DIRECTORY_HANDLE, ff_IsDirectory := True, ff_Position := 0,
    ff_Size := 32 * ucast (le16 bs 17), ff_Opened := True, ff_FirstCluster := 0, ff_CurrentCluster := 0, ff_CurrentSectorInCluster := 0\<rparr>"
  have root: "DISK_ReadSectors_tool (image_file s) (of_nat (root_first bs)) 1 (ff_Buffer (tool_root s)) = Some (True, part_image part img (root_first bs))"
    using ReadSectors_tool_ok [OF F c(6) mem(2)] .
  define s' where "s' = s\<lparr>tool_boot := bs, g_Fat := Some fat, tool_root := r\<lparr>ff_Buffer := part_image part img (root_first bs)\<rparr>,
    tool_data_lba := of_nat (root_first bs + root_count bs), tool_files := map (\<lambda>f. f\<lparr>ff_Opened := False\<rparr>) (tool_files s)\<rparr>"
  have e: "32 * ucast (le16 bs 17) + 512 - 1 = (32 * ucast (le16 bs 17) + 511 :: u32)" by simp
  have "\<not> 65536 \<le> SIZEOF_FAT_Data + 512 * nf" "\<not> 2 ^ 31 \<le> 512 * nf" using c(3) by (simp_all add: SIZEOF_FAT_Data_def MAX_FILE_HANDLES_def)
  then have run: "FAT_Initialize_tool alloc s = Some (True, s')"
    unfolding FAT_Initialize_tool_def boot
    by (simp add: c(1) nf_def [symmetric] xs(1) SECTOR_SIZE_def MEMORY_FAT_SIZE_def read f root e rc s'_def r_def)
  have tb: "fat ! i = table_byte part img (volume_of part img s0) i" if "i < 512 * nf" for i
  proof -
    have "fat ! i = part_image part img (?r + i div 512) ! (i mod 512)"
      unfolding fat_def using that sl nth_sectors [OF len that] by (simp add: nth_append)
    then show ?thesis by (simp add: table_byte_def table_lba_def bs_ReservedSectors_def volume_of_def Let_def bs_def)
  qed
  have "tool_mounted part img (volume_of part img s0) N nf s'"
    using F c(4) mem(3,4) tb by (auto simp: tool_mounted_def s'_def volume_of_def Let_def bs_def [symmetric] fat_def sl)
  moreover have "map ff_Opened (tool_files s') = replicate 10 False"
    using mem(3) by (intro nth_equalityI) (simp_all add: s'_def)
  moreover have "ff_Handle (tool_root s') = ROOT_DIRECTORY_HANDLE" "ff_IsDirectory (tool_root s')" "ff_Position (tool_root s') = 0"
    "ff_CurrentCluster (tool_root s') = 0" "ff_Buffer (tool_root s') = part_image part img (root_first bs)" by (simp_all add: s'_def r_def)
  ultimately show ?thesis using run unfolding nf_def bs_def by blast
qed

section \<open>What the tool delivers\<close>

lemma tool_reads_entry:
  fixes s0 :: "'a fat_data_scheme"
  assumes F: "image_holds (image_file s) part img N" "tool_image alloc part img N" "tool_memory s"
    and e: "entry_file part img (volume_of part img s0) e cs ys" "\<not> entry_is_dir e"
    and c: "tool_chain part img (volume_of part img s0) N (unat (le16 (part_image part img 0) 22)) cs"
  shows "\<exists>s1 s2. FAT_Initialize_tool alloc s = Some (True, s1) \<and> FAT_OpenEntry_tool e s1 = Some (Some 0, s2) \<and>
    (\<forall>c. \<exists>s3. FAT_Read_tool 0 c s2 = Some (take (unat c) ys, s3)) \<and> (\<exists>s3. read_all 0 s2 = Some s3)"
proof -
  let ?v = "volume_of part img s0" and ?nf = "unat (le16 (part_image part img 0) 22)"
  from FAT_Initialize_tool_ok [OF F, of s0] obtain s1 where s1: "FAT_Initialize_tool alloc s = Some (True, s1)"
    "map ff_Opened (tool_files s1) = replicate 10 False" "tool_mounted part img ?v N ?nf s1" by blast
  have "first_free (map ff_Opened (tool_files s1)) = Some 0" by (simp add: s1(2) first_free_def upt_conv_Cons)
  from OpenEntry_tool_ok [OF s1(3) this e(1) c] obtain s2 fd where s2: "FAT_OpenEntry_tool e s1 = Some (Some 0, s2)"
    "tool_get 0 s2 = Some fd" "\<not> ff_IsDirectory fd" "tool_open part img ?v N ?nf cs 0 s2 0 ys" using e(2) by auto
  have all: "\<exists>s3. read_all 0 t = Some s3"
    if "tool_open part img ?v N ?nf cs 0 t p ys" "tool_get 0 t = Some g" "\<not> ff_IsDirectory g" for t p g
    using that
  proof (induction "length ys - p" arbitrary: t p g rule: less_induct)
    case less
    from FAT_Read_tool_ok [OF less.prems(1,2), of 100] less.prems(3) obtain u g' where
      u: "FAT_Read_tool 0 100 t = Some (take 100 (drop p ys), u)" "tool_open part img ?v N ?nf cs 0 u (min (p + 100) (length ys)) ys"
        "tool_get 0 u = Some g'" "\<not> ff_IsDirectory g'" by auto
    show ?case
    proof (cases "take 100 (drop p ys) = []")
      case True
      then show ?thesis using u(1) by (subst read_all.simps) simp
    next
      case False
      then have "length ys - min (p + 100) (length ys) < length ys - p" by simp
      from less.hyps [OF this u(2-4)] False show ?thesis using u(1) by (subst read_all.simps) simp
    qed
  qed
  from FAT_Read_tool_ok [OF s2(4,2)] s2(3) have "\<forall>c. \<exists>s3. FAT_Read_tool 0 c s2 = Some (take (unat c) ys, s3)" by (metis drop0)
  then show ?thesis using s1(1) s2(1) all [OF s2(4,2,3)] by blast
qed

text \<open>The second sector of the root directory is taken from sector 1 of the image.\<close>

lemma tool_root_loop:
  assumes "tool_root s = f" "n \<noteq> 0"
  shows "read_loop_tool ROOT_DIRECTORY_HANDLE n out s = (let k = chunk_size n f;
      out' = out @ take k (drop (unat (ff_Position f) mod SECTOR_SIZE) (ff_Buffer f)); s' = s\<lparr>tool_root := f\<lparr>ff_Position := ff_Position f + of_nat k\<rparr>\<rparr>
    in if left_in_buffer f = k then do {
         (more, t) \<leftarrow> next_sector_tool ROOT_DIRECTORY_HANDLE s';
         if more then read_loop_tool ROOT_DIRECTORY_HANDLE (n - k) out' t else Some (out', t) }
       else read_loop_tool ROOT_DIRECTORY_HANDLE (n - k) out' s')"
  using assms by (subst read_loop_tool.simps) (simp add: tool_get_def tool_put_def Let_def)

lemma tool_root_next:
  assumes "image_holds (image_file s) part img N" "ff_Handle (tool_root s) = ROOT_DIRECTORY_HANDLE" "length (ff_Buffer (tool_root s)) = 512"
    "ff_CurrentCluster (tool_root s) + 1 = of_nat l" "l < N"
  shows "next_sector_tool ROOT_DIRECTORY_HANDLE s =
    Some (True, s\<lparr>tool_root := (tool_root s)\<lparr>ff_CurrentCluster := of_nat l, ff_Buffer := part_image part img l\<rparr>\<rparr>)"
  using assms ReadSectors_tool_ok [OF assms(1,5), of "ff_Buffer (tool_root s)"]
  by (simp add: next_sector_tool_def tool_get_def tool_put_def tool_load_def)

lemma tool_root_wrong:
  fixes s0 :: "'a fat_data_scheme"
  assumes F: "image_holds (image_file s) part img N" "tool_image alloc part img N" "tool_memory s" and N: "2 < N"
  shows "\<exists>s1 s2. FAT_Initialize_tool alloc s = Some (True, s1) \<and>
    FAT_Read_tool ROOT_DIRECTORY_HANDLE 1024 s1 = Some (part_image part img (root_first (part_image part img 0)) @ part_image part img 1, s2)"
proof -
  let ?R = ROOT_DIRECTORY_HANDLE and ?a = "part_image part img (root_first (part_image part img 0))"
  from FAT_Initialize_tool_ok [OF F, of s0] obtain s1 where s1: "FAT_Initialize_tool alloc s = Some (True, s1)"
    "tool_mounted part img (volume_of part img s0) N (unat (le16 (part_image part img 0) 22)) s1"
    "ff_Handle (tool_root s1) = ROOT_DIRECTORY_HANDLE" "ff_IsDirectory (tool_root s1)" "ff_Position (tool_root s1) = 0"
    "ff_CurrentCluster (tool_root s1) = 0" "ff_Buffer (tool_root s1) = ?a" by blast
  have I: "image_holds (image_file s1) part img N" using s1(2) by (simp add: tool_mounted_def)
  then have len: "length (part_image part img l) = 512" for l by (simp add: image_holds_def)
  define t1 where "t1 = s1\<lparr>tool_root := (tool_root s1)\<lparr>ff_Position := 512\<rparr>\<rparr>"
  define s2 where "s2 = t1\<lparr>tool_root := (tool_root t1)\<lparr>ff_CurrentCluster := 1, ff_Buffer := part_image part img 1\<rparr>\<rparr>"
  have n1: "next_sector_tool ?R t1 = Some (True, s2)"
    using tool_root_next [of t1 part img N 1] I s1 len N by (simp add: t1_def s2_def)
  define t2 where "t2 = s2\<lparr>tool_root := (tool_root s2)\<lparr>ff_Position := 1024\<rparr>\<rparr>"
  define s3 where "s3 = t2\<lparr>tool_root := (tool_root t2)\<lparr>ff_CurrentCluster := 2, ff_Buffer := part_image part img 2\<rparr>\<rparr>"
  have n2: "next_sector_tool ?R t2 = Some (True, s3)"
    using tool_root_next [of t2 part img N 2] I s1 len N by (simp add: t1_def s2_def t2_def s3_def)
  have r1: "tool_root s1 = tool_root s1" and r2: "ff_Position (tool_root s2) = 512" "ff_Buffer (tool_root s2) = part_image part img 1"
    by (simp_all add: s2_def t1_def)
  have "read_loop_tool ?R 512 ?a s2 = Some (?a @ part_image part img 1, s3)"
    using r2 len n2 by (subst tool_root_loop [OF refl]) (simp_all add: chunk_size_def left_in_buffer_def SECTOR_SIZE_def t2_def
      read_loop_tool.simps [of _ 0] Let_def)
  then have "read_loop_tool ?R 1024 [] s1 = Some (?a @ part_image part img 1, s3)"
    using s1(5,7) len n1 by (subst tool_root_loop [OF refl]) (simp_all add: chunk_size_def left_in_buffer_def SECTOR_SIZE_def t1_def Let_def)
  then show ?thesis using s1(1,4) by (auto simp: FAT_Read_tool_def tool_get_def)
qed

text \<open>The boot loader on the same entry.\<close>

lemma loader_reads_entry:
  assumes m: "fat_memory s" "part_ok B part img" "fat_volume part img" and e: "entry_file part img (volume_of part img s) e cs ys"
  shows "\<exists>s1 s2. FAT_Initialize B part s = Some (True, s1) \<and> FAT_OpenEntry B part e s1 = Some (Some 0, s2) \<and>
    (\<forall>c. \<exists>s3. FAT_Read B part 0 c s2 = Some (take (unat c) ys, s3))"
proof -
  from FAT_Initialize_ok [OF m] obtain s1 f n where s1: "FAT_Initialize B part s = Some (True, s1)" "same_volume (volume_of part img s) s1"
    "open_at B part img s1 (Root f n) ROOT_DIRECTORY_HANDLE s1 0 (root_bytes part img)" "in_use s1 = replicate 10 False" by blast
  have "first_free (in_use s1) = Some 0" by (simp add: s1(4) first_free_def upt_conv_Cons)
  moreover have "entry_file part img s1 e cs ys" using e entry_file_volume [OF s1(2)] by simp
  ultimately obtain s2 where s2: "FAT_OpenEntry B part e s1 = Some (Some 0, s2)" "open_at B part img s2 (Chain cs) 0 s2 0 ys"
    using OpenEntry_ok [OF open_vol_ok [OF s1(3)]] by fastforce
  from open_read [OF s2(2)] have "\<forall>c. \<exists>s3. FAT_Read B part 0 c s2 = Some (take (unat c) ys, s3)" by (metis drop0)
  then show ?thesis using s1(1) s2(1) by blast
qed

end
