(* ===== verification/LoaderElf.thy ===== *)
theory LoaderElf
  imports LoaderFat
begin

text \<open>
  Loading the kernel (\<open>src/src/bootloader/stage2/elf.c\<close>): the header and the program headers are read
  to \<open>headerBuffer\<close>, every loadable segment is read in pieces to \<open>loadBuffer\<close> and copied to its address.

  The memory that the loader reads files to and copies segments to is \<open>ldr_mem\<close>.  The loader's own
  variables, which the code keeps below \<open>0x30000\<close>, are fields of the state: a segment that is placed
  over them is outside the model.
\<close>

definition MEMORY_ELF_ADDR :: u32 where "MEMORY_ELF_ADDR = 0x30000"
definition MEMORY_LOAD_KERNEL :: u32 where "MEMORY_LOAD_KERNEL = 0x40000"
definition MEMORY_LOAD_SIZE :: u32 where "MEMORY_LOAD_SIZE = 0x10000"
definition ELF_PROGRAM_TYPE_LOAD :: u32 where "ELF_PROGRAM_TYPE_LOAD = 1"

record loader = fat_data +
  ldr_mem :: mem

definition store_bytes :: "u32 \<Rightarrow> u8 list \<Rightarrow> mem \<Rightarrow> mem" where
  "store_bytes a xs m = fold (\<lambda>i m. m(a + of_nat i := xs ! i)) [0..<length xs] m"

definition ld16 :: "mem \<Rightarrow> u32 \<Rightarrow> u16" where
  "ld16 m a = ucast (m a) OR push_bit 8 (ucast (m (a + 1)))"

text \<open>A read of a file to an address; a NULL file is dereferenced.\<close>

definition read_to ::
    "bios \<Rightarrow> Partition \<Rightarrow> int option \<Rightarrow> u32 \<Rightarrow> u32 \<Rightarrow> 'a loader_scheme \<Rightarrow> (u32 \<times> 'a loader_scheme) option" where
  "read_to B part fd byteCount addr s = do {
     h \<leftarrow> fd;
     (data, s) \<leftarrow> FAT_Read B part h byteCount s;
     Some (of_nat (length data), s\<lparr>ldr_mem := store_bytes addr data (ldr_mem s)\<rparr>) }"

definition close_file :: "int option \<Rightarrow> 'a fat_data_scheme \<Rightarrow> 'a fat_data_scheme option" where
  "close_file fd s = do { h \<leftarrow> fd; Some (FAT_Close h s) }"

section \<open>The header\<close>

text \<open>
  The checks of the header.  Their result is stored in \<open>ok\<close> and never used; the first one also tests
  that the magic number differs.
\<close>

definition elf_header_checks :: "mem \<Rightarrow> bool" where
  "elf_header_checks m \<longleftrightarrow>
     (m MEMORY_ELF_ADDR \<noteq> 0x7F \<or> m (MEMORY_ELF_ADDR + 1) \<noteq> 69 \<or> m (MEMORY_ELF_ADDR + 2) \<noteq> 76 \<or> m (MEMORY_ELF_ADDR + 3) \<noteq> 70) \<and>
     m (MEMORY_ELF_ADDR + 4) = 1 \<and> m (MEMORY_ELF_ADDR + 5) = 1 \<and> m (MEMORY_ELF_ADDR + 6) = 1 \<and>
     ld32 m (MEMORY_ELF_ADDR + 20) = 1 \<and> ld16 m (MEMORY_ELF_ADDR + 16) = 2 \<and> ld16 m (MEMORY_ELF_ADDR + 18) = 3"

definition elf_entry :: "mem \<Rightarrow> u32" where "elf_entry m = ld32 m (MEMORY_ELF_ADDR + 24)"
definition elf_phoff :: "mem \<Rightarrow> u32" where "elf_phoff m = ld32 m (MEMORY_ELF_ADDR + 28)"
definition elf_phentsize :: "mem \<Rightarrow> u32" where "elf_phentsize m = ucast (ld16 m (MEMORY_ELF_ADDR + 42))"
definition elf_phnum :: "mem \<Rightarrow> u32" where "elf_phnum m = ucast (ld16 m (MEMORY_ELF_ADDR + 44))"

text \<open>The fields of a program header at \<open>p\<close>.\<close>

definition ph_Type :: "mem \<Rightarrow> u32 \<Rightarrow> u32" where "ph_Type m p = ld32 m p"
definition ph_Offset :: "mem \<Rightarrow> u32 \<Rightarrow> u32" where "ph_Offset m p = ld32 m (p + 4)"
definition ph_VirtualAddress :: "mem \<Rightarrow> u32 \<Rightarrow> u32" where "ph_VirtualAddress m p = ld32 m (p + 8)"
definition ph_FileSize :: "mem \<Rightarrow> u32 \<Rightarrow> u32" where "ph_FileSize m p = ld32 m (p + 16)"
definition ph_MemorySize :: "mem \<Rightarrow> u32 \<Rightarrow> u32" where "ph_MemorySize m p = ld32 m (p + 20)"

section \<open>A segment\<close>

text \<open>The two loops count the program header's own fields down in memory.  False is a short read.\<close>

partial_function (option) seek_loop ::
    "bios \<Rightarrow> Partition \<Rightarrow> int option \<Rightarrow> u32 \<Rightarrow> 'a loader_scheme \<Rightarrow> (bool \<times> 'a loader_scheme) option" where
  "seek_loop B part fd p s =
     (if ph_Offset (ldr_mem s) p > 0 then do {
        let shouldRead = min (ph_Offset (ldr_mem s) p) MEMORY_LOAD_SIZE;
        (got, s) \<leftarrow> read_to B part fd shouldRead MEMORY_LOAD_KERNEL s;
        if got \<noteq> shouldRead then Some (False, s2_printf ''ELF Load error!\<newline>'' [] s)
        else seek_loop B part fd p (s\<lparr>ldr_mem := st32 (ldr_mem s) (p + 4) (ph_Offset (ldr_mem s) p - got)\<rparr>) }
      else Some (True, s))"

text \<open>\<open>memcpy\<close> takes its length as 16 bits.\<close>

partial_function (option) load_loop ::
    "bios \<Rightarrow> Partition \<Rightarrow> int option \<Rightarrow> u32 \<Rightarrow> u32 \<Rightarrow> 'a loader_scheme \<Rightarrow> (bool \<times> 'a loader_scheme) option" where
  "load_loop B part fd p virtAddress s =
     (if ph_FileSize (ldr_mem s) p > 0 then do {
        let shouldRead = min (ph_FileSize (ldr_mem s) p) MEMORY_LOAD_SIZE;
        (got, s) \<leftarrow> read_to B part fd shouldRead MEMORY_LOAD_KERNEL s;
        if got \<noteq> shouldRead then Some (False, s2_printf ''ELF Load error!\<newline>'' [] s)
        else do {
          let m = st32 (ldr_mem s) (p + 16) (ph_FileSize (ldr_mem s) p - got);
          let s = s\<lparr>ldr_mem := s2_memcpy m virtAddress MEMORY_LOAD_KERNEL (ucast got)\<rparr>;
          load_loop B part fd p (virtAddress + got) s } }
      else Some (True, s))"

definition load_segment ::
    "bios \<Rightarrow> Partition \<Rightarrow> u8 list \<Rightarrow> u8 list \<Rightarrow> u32 \<Rightarrow> 'a loader_scheme \<Rightarrow> (bool \<times> 'a loader_scheme) option" where
  "load_segment B part name path p s =
     (if ph_Type (ldr_mem s) p \<noteq> ELF_PROGRAM_TYPE_LOAD then Some (True, s)
      else do {
        let virtAddress = ph_VirtualAddress (ldr_mem s) p;
        let s = s\<lparr>ldr_mem := s2_memset (ldr_mem s) virtAddress 0 (ph_MemorySize (ldr_mem s) p)\<rparr>;
        (fd, s) \<leftarrow> FAT_Open B part name path s;
        (ok, s) \<leftarrow> seek_loop B part fd p s;
        if \<not> ok then Some (False, s)
        else do {
          (ok, s) \<leftarrow> load_loop B part fd p virtAddress s;
          if \<not> ok then Some (False, s) else do { s \<leftarrow> close_file fd s; Some (True, s) } } })"

fun load_segments ::
    "bios \<Rightarrow> Partition \<Rightarrow> u8 list \<Rightarrow> u8 list \<Rightarrow> u32 \<Rightarrow> nat list \<Rightarrow> 'a loader_scheme \<Rightarrow> (bool \<times> 'a loader_scheme) option" where
  "load_segments B part name path entsize [] s = Some (True, s)"
| "load_segments B part name path entsize (i # is) s = do {
     (ok, s) \<leftarrow> load_segment B part name path (MEMORY_ELF_ADDR + of_nat i * entsize) s;
     if \<not> ok then Some (False, s) else load_segments B part name path entsize is s }"

section \<open>ELF\_Read\<close>

text \<open>The result is the entry point, or \<^const>\<open>None\<close> for false.\<close>

definition ELF_Read ::
    "bios \<Rightarrow> Partition \<Rightarrow> u8 list \<Rightarrow> u8 list \<Rightarrow> 'a loader_scheme \<Rightarrow> (u32 option \<times> 'a loader_scheme) option" where
  "ELF_Read B part name path s = do {
     (fd, s) \<leftarrow> FAT_Open B part name path s;
     (got, s) \<leftarrow> read_to B part fd 52 MEMORY_ELF_ADDR s;
     if got \<noteq> 52 then Some (None, s2_printf ''ELF Load error!\<newline>'' [] s)
     else do {
       let filePos = got;
       let ok = elf_header_checks (ldr_mem s);
       let entryPoint = elf_entry (ldr_mem s);
       let programHeaderOffset = elf_phoff (ldr_mem s);
       let programHeaderTableEntrySize = elf_phentsize (ldr_mem s);
       let programHeaderTableEntryCount = elf_phnum (ldr_mem s);
       let programHeaderSize = programHeaderTableEntrySize * programHeaderTableEntryCount;
       (got, s) \<leftarrow> read_to B part fd (programHeaderOffset - filePos) MEMORY_ELF_ADDR s;
       (got, s) \<leftarrow> read_to B part fd programHeaderSize MEMORY_ELF_ADDR s;
       if got \<noteq> programHeaderSize then Some (None, s2_printf ''ELF Load error!\<newline>'' [] s)
       else do {
         s \<leftarrow> close_file fd s;
         (ok, s) \<leftarrow> load_segments B part name path programHeaderTableEntrySize [0..<unat programHeaderTableEntryCount] s;
         Some (if ok then Some entryPoint else None, s) } } }"

end
