(* ===== verification/LoaderMain.thy ===== *)
theory LoaderMain
  imports LoaderElf Boot
begin

text \<open>
  The second stage's own \<open>start\<close> (\<open>src/src/bootloader/stage2/main.c\<close>) and the memory map that it hands to
  the kernel (\<open>memdetect.c\<close>).  It ends by calling the kernel's entry point or in an endless loop, the
  two constructors of \<open>outcome\<close>.
\<close>

definition MAX_REGIONS :: nat where "MAX_REGIONS = 256"

record loader_main = loader +
  g_MemRegions :: "MemoryRegion list"
  g_MemRegionCount :: int
  memory_detection_done :: int
  g_BootParams :: BootParams
  boot_count :: int

section \<open>The memory map\<close>

definition region_of :: "E820MemoryBlock \<Rightarrow> MemoryRegion" where
  "region_of b = \<lparr>Begin = e820_Base b, Length = e820_Length b, Type = e820_Type b, ACPI = e820_ACPI b\<rparr>"

lemma printf_regions [simp]:
  fixes s :: "'a loader_main_scheme"
  shows "g_MemRegionCount (s2_printf fmt args s) = g_MemRegionCount s" "g_MemRegions (s2_printf fmt args s) = g_MemRegions s"
    "g_BootParams (s2_printf fmt args s) = g_BootParams s" "memory_detection_done (s2_printf fmt args s) = memory_detection_done s"
    "ldr_mem (s2_printf fmt args s) = ldr_mem s"
  using s2_printf_more [of fmt args s] by (cases s; cases "s2_printf fmt args s"; simp)+

text \<open>
  The loop over the blocks.  \<open>block\<close> is the local variable that the answers are stored in.  A pass that
  goes on has stored a region, so the array's bound ends the loop.
\<close>

function detect_loop :: "bios \<Rightarrow> E820MemoryBlock \<Rightarrow> u32 \<Rightarrow> 'a loader_main_scheme \<Rightarrow> 'a loader_main_scheme option" where
  "detect_loop B block continuation s =
     (case x86_E820GetNextBlock B block continuation of
        (ret, block, cont) \<Rightarrow>
          if 0 <s ret then
            (if g_MemRegionCount s \<ge> int MAX_REGIONS
             then Some (s2_printf ''WARNING: Maximum memory regions (%d) exceeded!\<newline>'' [VI (of_nat MAX_REGIONS)] s)
             else case arr_set (g_MemRegions s) (g_MemRegionCount s) (region_of block) of
               None \<Rightarrow> None
             | Some rs \<Rightarrow>
                 (let s = s\<lparr>g_MemRegions := rs, g_MemRegionCount := g_MemRegionCount s + 1\<rparr>;
                      s = (if g_MemRegionCount s < 10
                           then s2_printf ''E820: base=0x%llx length=0x%llx type=0x%x\<newline>''
                             [VLL (e820_Base block), VLL (e820_Length block), VI (e820_Type block)] s else s)
                  in if cont \<noteq> 0 then detect_loop B block cont s else Some s))
          else Some s)"
  by pat_completeness auto

termination
  by (relation "measure (\<lambda>(B, blk, c, s). nat (int MAX_REGIONS - g_MemRegionCount s))") auto

declare detect_loop.simps [simp del]

text \<open>\<open>block\<close> is what the uninitialised variable holds.\<close>

definition Memory_Detect :: "bios \<Rightarrow> E820MemoryBlock \<Rightarrow> 'a loader_main_scheme \<Rightarrow> 'a loader_main_scheme option" where
  "Memory_Detect B block s =
     (if memory_detection_done s \<noteq> 0 then
        (let s = s2_printf ''Memory_Detect: Already executed, returning cached results\<newline>'' [] s
         in Some (s\<lparr>g_BootParams := (g_BootParams s)\<lparr>RegionCount := g_MemRegionCount s, Regions := g_MemRegions s\<rparr>\<rparr>))
      else do {
        let s = s2_printf ''Memory_Detect: First execution, detecting memory...\<newline>'' [] s;
        s \<leftarrow> detect_loop B block 0 (s\<lparr>g_MemRegionCount := 0\<rparr>);
        let s = s2_printf ''Memory detection completed: %d regions found\<newline>'' [VI (of_int (g_MemRegionCount s))] s;
        let s = s\<lparr>memory_detection_done := 1\<rparr>;
        let s = s\<lparr>g_BootParams := (g_BootParams s)\<lparr>RegionCount := g_MemRegionCount s, Regions := g_MemRegions s\<rparr>\<rparr>;
        Some (s2_printf ''Memory_Detect: Function completed, continuing boot...\<newline>'' [] s) })"

section \<open>start\<close>

datatype outcome = Enter u32 | Halted

text \<open>The code at label \<open>end\<close>, with the message before the jump.\<close>

definition give_up :: "string \<Rightarrow> 'a loader_main_scheme \<Rightarrow> (outcome \<times> 'a loader_main_scheme) option" where
  "give_up t s = Some (Halted, s2_printf ''Bootloader ended. System halted.\<newline>'' [] (s2_printf t [] s))"

definition kernel_elf :: "u8 list" where
  "kernel_elf = bytes ''/boot/kernel.elf''"

text \<open>Steps 7 to 9: a look at the first bytes of the kernel, then the call.\<close>

definition enter_kernel :: "u32 \<Rightarrow> 'a loader_main_scheme \<Rightarrow> (outcome \<times> 'a loader_main_scheme) option" where
  "enter_kernel kernelEntry s =
     (let s = s2_printf ''Step 7: Kernel loaded at address: 0x%x\<newline>'' [VI kernelEntry] s;
          s = (if kernelEntry < 0x100000
               then s2_printf ''WARNING: Kernel address 0x%x seems too low! Expected >= 0x100000\<newline>'' [VI kernelEntry] s else s);
          s = s2_printf ''Checking kernel memory at 0x%x:\<newline>'' [VI kernelEntry] s;
          s = s2_printf ''  First 16 bytes: '' [] s;
          s = fold (\<lambda>i s. s2_printf ''0x%x '' [VI (ld32 (ldr_mem s) (kernelEntry + 4 * of_nat i))] s) [0..<4] s;
          s = s2_printf ''\<newline>'' [] s
      in if \<forall>i \<in> set [0..<16]. ldr_mem s (kernelEntry + of_nat i) = 0 then
           (let s = s2_printf ''ERROR: Kernel memory is all zeros! ELF loading failed.\<newline>'' [] s;
                s = s2_printf ''Possible causes:\<newline>'' [] s;
                s = s2_printf ''  1. kernel.elf file is empty or corrupted\<newline>'' [] s;
                s = s2_printf ''  2. ELF_Read() function has a bug\<newline>'' [] s
            in give_up ''  3. Wrong memory address calculation\<newline>'' s)
         else
           (let s = s2_printf ''Step 8: Kernel data looks valid, proceeding...\<newline>'' [] s;
                s = s2_printf ''Step 9: Executing kernel NOW!\<newline>'' [] s
            in Some (Enter kernelEntry, s)))"

text \<open>
  \<open>name\<close> and \<open>block\<close> are what the uninitialised variables of \<open>FAT_Open\<close> and \<open>Memory_Detect\<close> hold; \<open>entry_ptr\<close>
  points at the partition entry.
\<close>

definition loader_start ::
    "bios \<Rightarrow> u8 list \<Rightarrow> E820MemoryBlock \<Rightarrow> u16 \<Rightarrow> u32 \<Rightarrow> 'a loader_main_scheme \<Rightarrow> (outcome \<times> 'a loader_main_scheme) option" where
  "loader_start B name block bootDrive entry_ptr s = do {
     let s = s\<lparr>boot_count := boot_count s + 1\<rparr>;
     let s = s2_printf ''=== BOOTLOADER START (execution #%d) ===\<newline>'' [VI (of_int (boot_count s))] s;
     let s = (if boot_count s > 1
              then s2_printf ''Press any key to continue or wait 5 seconds...\<newline>'' []
                (s2_printf ''WARNING: Bootloader restarted! Previous kernel execution failed.\<newline>'' [] s) else s);
     let s = s2_printf ''Step 1: Initializing disk...\<newline>'' [] (s2_clrscr s);
     (case DISK_Initialize B (ucast bootDrive) of
        None \<Rightarrow> give_up (''Disk init error'' @ crlf) s
      | Some disk \<Rightarrow> do {
          let s = s2_printf ''Step 2: Detecting partition...\<newline>'' [] s;
          let part = MBR_DetectPartition disk (ldr_mem s) entry_ptr;
          let s = s2_printf ''Step 3: Initializing FAT...\<newline>'' [] s;
          (ok, s) \<leftarrow> FAT_Initialize B part s;
          if \<not> ok then give_up (''FAT init error'' @ crlf) s
          else do {
            let s = s2_printf ''Step 4: Preparing boot params...\<newline>'' [] s;
            let s = s\<lparr>g_BootParams := (g_BootParams s)\<lparr>BootDevice := ucast bootDrive\<rparr>\<rparr>;
            let s = s2_printf ''Step 5: Detecting memory...\<newline>'' [] s;
            s \<leftarrow> Memory_Detect B block s;
            let s = s2_printf ''Memory detection completed.\<newline>'' [] s;
            let s = s2_printf ''Step 6: Loading kernel ELF...\<newline>'' [] s;
            (entry, s) \<leftarrow> ELF_Read B part name kernel_elf s;
            (case entry of
               None \<Rightarrow> give_up ''ELF read failed, booting halted!'' s
             | Some kernelEntry \<Rightarrow> enter_kernel kernelEntry s) } }) }"

section \<open>The memory map\<close>

text \<open>The blocks that the BIOS lists from a continuation value, the first \<open>n\<close> at most.\<close>

primrec e820_blocks :: "nat \<Rightarrow> bios \<Rightarrow> E820MemoryBlock \<Rightarrow> u32 \<Rightarrow> E820MemoryBlock list" where
  "e820_blocks 0 B b c = []"
| "e820_blocks (Suc n) B b c =
     (case x86_E820GetNextBlock B b c of
        (ret, b, c') \<Rightarrow> if 0 <s ret then b # (if c' \<noteq> 0 then e820_blocks n B b c' else []) else [])"

lemma e820_blocks_length: "length (e820_blocks n B b c) \<le> n"
  by (induction n arbitrary: b c) (auto split: prod.splits)

definition mapped :: "E820MemoryBlock list \<Rightarrow> 'a loader_main_scheme \<Rightarrow> bool" where
  "mapped bs s \<longleftrightarrow> length (g_MemRegions s) = MAX_REGIONS \<and> g_MemRegionCount s = int (length bs) \<and>
     take (length bs) (g_MemRegions s) = map region_of bs"

lemma detect_loop_ok:
  "mapped bs s \<Longrightarrow> length bs \<le> MAX_REGIONS \<Longrightarrow>
    \<exists>s'. detect_loop B blk c s = Some s' \<and> mapped (bs @ e820_blocks (MAX_REGIONS - length bs) B blk c) s'"
proof (induction B blk c s arbitrary: bs rule: detect_loop.induct)
  case (1 B blk c s)
  note m = 1(2) [unfolded mapped_def]
  obtain ret b cont where g: "x86_E820GetNextBlock B blk c = (ret, b, cont)" by (cases "x86_E820GetNextBlock B blk c")
  show ?case
  proof (cases "\<not> 0 <s ret")
    case True
    have "e820_blocks n B blk c = []" for n using g True by (cases n) auto
    moreover have "detect_loop B blk c s = Some s" using g True by (subst detect_loop.simps) auto
    ultimately show ?thesis using 1(2) by simp
  next
    case False
    then have b: "0 <s ret" by simp
    show ?thesis
    proof (cases "length bs = MAX_REGIONS")
      case True
      have "detect_loop B blk c s = Some (s2_printf ''WARNING: Maximum memory regions (%d) exceeded!\<newline>'' [VI (of_nat MAX_REGIONS)] s)"
        using g b m True by (subst detect_loop.simps) simp
      then show ?thesis using m True by (simp add: mapped_def)
    next
      case False
      with 1(3) have lt: "length bs < MAX_REGIONS" by simp
      then obtain k where k: "MAX_REGIONS - length bs = Suc k" "MAX_REGIONS - Suc (length bs) = k"
        by (cases "MAX_REGIONS - length bs") auto
      have set: "arr_set (g_MemRegions s) (g_MemRegionCount s) (region_of b) = Some ((g_MemRegions s)[length bs := region_of b])"
        using m lt by simp
      define s1 where "s1 = s\<lparr>g_MemRegions := (g_MemRegions s)[length bs := region_of b], g_MemRegionCount := g_MemRegionCount s + 1\<rparr>"
      define s2 where "s2 = (if g_MemRegionCount s1 < 10
        then s2_printf ''E820: base=0x%llx length=0x%llx type=0x%x\<newline>''
          [VLL (e820_Base b), VLL (e820_Length b), VI (e820_Type b)] s1 else s1)"
      have "take (Suc (length bs)) ((g_MemRegions s)[length bs := region_of b]) = map region_of (bs @ [b])"
        using m lt by (simp add: take_Suc_conv_app_nth)
      then have m2: "mapped (bs @ [b]) s2" using m by (simp add: mapped_def s2_def s1_def)
      have step: "detect_loop B blk c s = (if cont \<noteq> 0 then detect_loop B b cont s2 else Some s2)"
        using g b m lt set by (subst detect_loop.simps) (simp add: s1_def s2_def Let_def)
      have bl: "e820_blocks (MAX_REGIONS - length bs) B blk c = b # (if cont \<noteq> 0 then e820_blocks k B b cont else [])"
        using g b by (simp add: k)
      show ?thesis
      proof (cases "cont = 0")
        case True
        then show ?thesis using m2 step bl by auto
      next
        case cont: False
        have "\<exists>s'. detect_loop B b cont s2 = Some s' \<and> mapped ((bs @ [b]) @ e820_blocks (MAX_REGIONS - length (bs @ [b])) B b cont) s'"
          by (rule "1.IH" [OF g [symmetric] refl b _ set s1_def s2_def cont m2]) (use m lt in simp_all)
        then show ?thesis using cont step bl k by simp
      qed
    qed
  qed
qed

lemma Memory_Detect_ok:
  assumes "memory_detection_done s = 0" "length (g_MemRegions s) = MAX_REGIONS"
  shows "\<exists>s'. Memory_Detect B blk s = Some s' \<and> memory_detection_done s' = 1 \<and>
    RegionCount (g_BootParams s') = int (length (e820_blocks MAX_REGIONS B blk 0)) \<and>
    take (length (e820_blocks MAX_REGIONS B blk 0)) (Regions (g_BootParams s')) = map region_of (e820_blocks MAX_REGIONS B blk 0) \<and>
    RegionCount (g_BootParams s') \<le> int (length (Regions (g_BootParams s')))"
proof -
  let ?s = "s2_printf ''Memory_Detect: First execution, detecting memory...\<newline>'' [] s"
  have "mapped [] (?s\<lparr>g_MemRegionCount := 0\<rparr>)" using assms(2) by (simp add: mapped_def)
  from detect_loop_ok [OF this, of B blk 0] obtain s1 where s1: "detect_loop B blk 0 (?s\<lparr>g_MemRegionCount := 0\<rparr>) = Some s1"
    "mapped (e820_blocks MAX_REGIONS B blk 0) s1" by auto
  then show ?thesis using assms(1) e820_blocks_length [of MAX_REGIONS B blk 0] by (simp add: Memory_Detect_def mapped_def)
qed

end
