(* ===== verification/LoaderFrame.thy ===== *)
theory LoaderFrame
  imports LoaderOpenOk
begin

text \<open>
  What the operations on a file of the boot loader leave alone: whatever extends the driver's state, and,
  unless the file is the root directory, the root directory.  With it, that a path can be opened again
  and again, provided that its first name is found in the first sector of the root directory.
\<close>

section \<open>Frames\<close>

definition file_frame :: "int \<Rightarrow> 'a fat_data_scheme \<Rightarrow> 'a fat_data_scheme \<Rightarrow> bool" where
  "file_frame h s s' \<longleftrightarrow> fat_data.more s' = fat_data.more s \<and>
     (h \<noteq> ROOT_DIRECTORY_HANDLE \<longrightarrow> RootDirectory s' = RootDirectory s)"

lemma file_frame_refl [simp]: "file_frame h s s"
  by (simp add: file_frame_def)

lemma file_frame_trans: "file_frame h s t \<Longrightarrow> file_frame h t u \<Longrightarrow> file_frame h s u"
  by (simp add: file_frame_def)

lemma file_frame_printf: "file_frame h s (s2_printf fmt args s)"
  using s2_printf_more [of fmt args s] by (cases s; cases "s2_printf fmt args s") (simp add: file_frame_def del: s2_printf_more)

lemma file_frame_steps [simp]:
  "file_frame h s (s\<lparr>bios_calls := n\<rparr>)" "file_frame h s (put_file h f s)"
  "file_frame h s (s\<lparr>FatCache := c\<rparr>)" "file_frame h s (s\<lparr>FatCachePosition := q\<rparr>)"
  by (simp_all add: file_frame_def put_file_def)

lemma attempts_calls:
  "read_attempts m B d chs c data s = Some (ok, data', s') \<Longrightarrow> \<exists>n. s' = s\<lparr>bios_calls := n\<rparr>"
proof (induction m B d chs c data s arbitrary: ok data' s' rule: read_attempts.induct)
  case (1 B d chs c data s)
  then show ?case by (auto intro: exI [of _ "bios_calls s"])
next
  case (2 m B d cyl sec hd c data s)
  note IH = "2.IH" and run = "2.prems"
  from run obtain ok1 data1 where r: "x86_Disk_Read B (disk_id d) cyl sec hd c data s = Some (ok1, data1, s\<lparr>bios_calls := bios_calls s + 1\<rparr>)"
    by (auto simp: x86_Disk_Read_def Let_def split: prod.splits if_splits)
  show ?case
  proof (cases ok1)
    case True
    then show ?thesis using run r by auto
  next
    case False
    let ?t = "x86_Disk_Reset (disk_id d) (s\<lparr>bios_calls := bios_calls s + 1\<rparr>)"
    have "read_attempts m B d (cyl, sec, hd) c data1 ?t = Some (ok, data', s')" using run r False by simp
    from IH [OF r refl refl False this] show ?thesis by (auto simp: x86_Disk_Reset_def)
  qed
qed

lemma sectors_calls:
  assumes "Partition_ReadSectors B part lba c data s = Some (ok, data', s')"
  shows "\<exists>n. s' = s\<lparr>bios_calls := n\<rparr>"
  using assms by (auto simp: Partition_ReadSectors_def DISK_ReadSectors_def split: Option.bind_splits dest: attempts_calls)

lemma load_sector_frame:
  assumes "load_sector B part h lba s = Some (ok, s')"
  shows "file_frame h s s'"
proof -
  from assms obtain fd data t where "get_file h s = Some fd" "Partition_ReadSectors B part lba 1 (ff_Buffer fd) s = Some (ok, data, t)"
    "s' = put_file h (fd\<lparr>ff_Buffer := data\<rparr>) t" by (auto simp: load_sector_def split: Option.bind_splits)
  then show ?thesis using sectors_calls file_frame_trans by (metis file_frame_steps(1,2))
qed

lemma ReadFat_frame:
  assumes "FAT_ReadFat B part i s = Some (ok, s')"
  shows "file_frame h s s'"
proof -
  from assms obtain data t where t: "Partition_ReadSectors B part (ucast (bs_ReservedSectors s) + i) (of_nat FAT_CACHE_SIZE) (FatCache s) s = Some (ok, data, t)"
    "s' = t\<lparr>FatCache := data\<rparr>" by (auto simp: FAT_ReadFat_def split: Option.bind_splits)
  then show ?thesis using sectors_calls [OF t(1)] by (auto simp: file_frame_def)
qed

lemma NextCluster_frame:
  assumes "FAT_NextCluster B part c s = Some (d, s')"
  shows "file_frame h s s'"
proof -
  define fill where "fill i = (if i < FatCachePosition s \<or> i \<ge> FatCachePosition s + of_nat FAT_CACHE_SIZE
      then do { (ok, s) \<leftarrow> FAT_ReadFat B part i s; Some (s\<lparr>FatCachePosition := i\<rparr>) } else Some s)" for i
  have fill: "file_frame h s t" if f: "fill i = Some t" for i t
  proof (cases "i < FatCachePosition s \<or> i \<ge> FatCachePosition s + of_nat FAT_CACHE_SIZE")
    case True
    with f obtain ok u where "FAT_ReadFat B part i s = Some (ok, u)" "t = u\<lparr>FatCachePosition := i\<rparr>"
      by (auto simp: fill_def split: Option.bind_splits)
    then show ?thesis using ReadFat_frame file_frame_trans file_frame_steps(4) by metis
  next
    case False
    with f show ?thesis unfolding fill_def by (simp only: if_False) simp
  qed
  from assms obtain i where "fill i = Some s'"
    unfolding FAT_NextCluster_def Let_def fill_def [symmetric]
    by (auto simp: bind_eq_Some_conv split: if_splits)
  then show ?thesis by (rule fill)
qed

lemma next_sector_frame:
  assumes "next_sector B part h s = Some (ok, s')"
  shows "file_frame h s s'"
proof -
  have fin: "file_frame h s (if ok then t else s2_printf f [] t)" if "load_sector B part h l u = Some (ok, t)" "file_frame h s u" for l t u f
    using load_sector_frame [OF that(1)] that(2) file_frame_printf file_frame_trans by (metis (full_types))
  from assms obtain fd where fd: "get_file h s = Some fd" by (auto simp: next_sector_def split: Option.bind_splits)
  show ?thesis
  proof (cases "ff_Handle fd = ROOT_DIRECTORY_HANDLE")
    case True
    then show ?thesis using assms fd by (auto simp: next_sector_def Let_def bind_eq_Some_conv dest!: fin)
  next
    case False
    let ?k = "ff_CurrentSectorInCluster fd + 1"
    from assms fd False obtain k c t where n: "(if ucast (bs_SectorsPerCluster s) \<le> ?k
        then do { (c, s) \<leftarrow> FAT_NextCluster B part (ff_CurrentCluster fd) s; Some (0, c, s) }
        else Some (?k, ff_CurrentCluster fd, s)) = Some (k, c, t)"
      and r: "(let fd = fd\<lparr>ff_CurrentSectorInCluster := k, ff_CurrentCluster := c\<rparr>
        in if c \<ge> 0xFFFFFFF8 then Some (False, put_file h (fd\<lparr>ff_Size := ff_Position fd\<rparr>) t)
        else do {
          (ok, s) \<leftarrow> load_sector B part h (FAT_ClusterToLba c t + k) (put_file h fd t);
          Some (ok, if ok then s else s2_printf (''FAT: read error!'' @ crlf) [] s) }) = Some (ok, s')"
      by (simp add: next_sector_def Let_def bind_eq_Some_conv [of "if _ then _ else _"]) blast
    have t: "file_frame h s t" using n by (auto simp: bind_eq_Some_conv split: if_splits dest: NextCluster_frame)
    then have u: "file_frame h s (put_file h f t)" for f using file_frame_trans file_frame_steps(2) by blast
    have l: "file_frame h s w" if "load_sector B part h i (put_file h f t) = Some (b, w)" for i f b w
      using load_sector_frame [OF that] u file_frame_trans by blast
    have m: "file_frame h s (s2_printf f [] w)" if "file_frame h s w" for f w
      using that file_frame_printf file_frame_trans by blast
    show ?thesis using r u by (auto simp: Let_def bind_eq_Some_conv split: if_splits dest!: l intro!: m)
  qed
qed

lemma read_loop_frame: "read_loop B part h n out s = Some (xs, s') \<Longrightarrow> file_frame h s s'"
proof (induction B part h n out s rule: read_loop.induct)
  case (1 B part h n out s)
  show ?case
  proof (cases "n = 0")
    case True
    then show ?thesis using "1.prems" by (simp add: read_loop.simps [of B part h 0])
  next
    case False
    with "1.prems" obtain fd where fd: "get_file h s = Some fd"
      by (auto simp: read_loop.simps [of B part h n] bind_eq_Some_conv)
    define k where "k = chunk_size n fd"
    define chunk where "chunk = out @ take k (drop (unat (ff_Position fd) mod SECTOR_SIZE) (ff_Buffer fd))"
    define t where "t = put_file h (fd\<lparr>ff_Position := ff_Position fd + of_nat k\<rparr>) s"
    have t: "file_frame h s t" by (simp add: t_def)
    have run: "(if left_in_buffer fd = k then do {
          (more, s) \<leftarrow> next_sector B part h t;
          if more then read_loop B part h (n - k) chunk s else Some (chunk, s) }
        else read_loop B part h (n - k) chunk t) = Some (xs, s')"
      using "1.prems" False fd by (simp add: read_loop.simps [of B part h n] Let_def k_def chunk_def t_def cong: if_cong)
    show ?thesis
    proof (cases "left_in_buffer fd = k")
      case True
      with run obtain more u where u: "next_sector B part h t = Some (more, u)"
        "(if more then read_loop B part h (n - k) chunk u else Some (chunk, u)) = Some (xs, s')"
        by (auto simp: bind_eq_Some_conv)
      have "file_frame h s u" using t next_sector_frame [OF u(1)] file_frame_trans by blast
      moreover have "file_frame h u s'"
      proof (cases more)
        case True
        then have "read_loop B part h (n - k) chunk u = Some (xs, s')" using u(2) by simp
        from "1.IH"(1) [OF False fd k_def chunk_def t_def \<open>left_in_buffer fd = k\<close> u(1) refl True this] show ?thesis .
      next
        case False
        then show ?thesis using u(2) by simp
      qed
      ultimately show ?thesis using file_frame_trans by blast
    next
      case more: False
      then have "read_loop B part h (n - k) chunk t = Some (xs, s')" using run by simp
      from "1.IH"(2) [OF False fd k_def chunk_def t_def more this] have "file_frame h t s'" .
      then show ?thesis using t file_frame_trans by blast
    qed
  qed
qed

lemma FAT_Read_frame: "FAT_Read B part h c s = Some (xs, s') \<Longrightarrow> file_frame h s s'"
  by (auto simp: FAT_Read_def Let_def bind_eq_Some_conv dest: read_loop_frame)

lemma FAT_ReadEntry_frame: "FAT_ReadEntry B part h s = Some (e, s') \<Longrightarrow> file_frame h s s'"
  by (auto simp: FAT_ReadEntry_def bind_eq_Some_conv dest: FAT_Read_frame)

lemma find_loop_frame:
  assumes "find_loop B part h nm s = Some r"
  shows "file_frame h s (snd r)"
proof (rule find_loop.raw_induct [OF _ assms, where P = "\<lambda>B part h nm s r. file_frame h s (snd r)"], goal_cases)
  case (1 loop B part h nm s r)
  then obtain e t where t: "FAT_ReadEntry B part h s = Some (e, t)" by (auto simp: bind_eq_Some_conv)
  note f = FAT_ReadEntry_frame [OF t]
  have "snd r = t \<or> loop B part h nm t = Some r"
    using 1(2) t by (auto simp: bind_eq_Some_conv split: option.splits if_splits)
  then show ?case using f 1(1) file_frame_trans by blast
qed

lemma FAT_FindFile_frame: "FAT_FindFile B part h nm s = Some (e, s') \<Longrightarrow> file_frame h s s'"
  using find_loop_frame [of B part h _ s "(e, s')"] by (auto simp: FAT_FindFile_def bind_eq_Some_conv)

lemma FAT_Close_frame: "file_frame h s (FAT_Close h s)"
  by (simp add: file_frame_def FAT_Close_def)

text \<open>Opening an entry uses a handle, so it spares the root directory.\<close>

lemma frame_handle: "file_frame (int i) s s' \<longleftrightarrow> fat_data.more s' = fat_data.more s \<and> RootDirectory s' = RootDirectory s"
  by (auto simp: file_frame_def ROOT_DIRECTORY_HANDLE_def)

lemma OpenEntry_frame:
  assumes "FAT_OpenEntry B part e s = Some (r, s')"
  shows "file_frame 0 s s'" "r = Some h \<Longrightarrow> 0 \<le> h"
proof -
  have z: "file_frame 0 u v \<longleftrightarrow> file_frame (int i) u v" for i and u v :: "'a fat_data_scheme"
    using frame_handle [of 0 u v] frame_handle [of i u v] by simp
  have pr: "file_frame 0 u (s2_printf f a v)" if "file_frame 0 u v" for u v :: "'a fat_data_scheme" and f a
    using that file_frame_printf file_frame_trans by blast
  have fl: "file_frame 0 u (fold (\<lambda>c. s2_printf ''%c'' [VI (ucast c)]) xs v)" if "file_frame 0 u v" for u v :: "'a fat_data_scheme" and xs
    using that by (induction xs arbitrary: v) (simp_all add: pr)
  show "file_frame 0 s s'"
  proof (cases "find (\<lambda>i. \<not> ff_Opened (OpenedFiles s ! i)) [0..<MAX_FILE_HANDLES]")
    case None
    then show ?thesis using assms by (auto simp: FAT_OpenEntry_def intro: pr)
  next
    case (Some i)
    have put: "file_frame 0 u (put_file (int i) f v)" if "file_frame 0 u v" for u v :: "'a fat_data_scheme" and f
      using that file_frame_steps(2) [of "int i" v f] file_frame_trans unfolding z [of _ _ i] by blast
    have ld: "file_frame 0 u w" if "load_sector B part (int i) l v = Some (ok, w)" "file_frame 0 u v"
      for u v w :: "'a fat_data_scheme" and l ok
      using file_frame_trans [OF that(2) [unfolded z [of _ _ i]] load_sector_frame [OF that(1)]] unfolding z [of _ _ i] .
    show ?thesis using assms Some
      by (auto simp: FAT_OpenEntry_def Let_def bind_eq_Some_conv split: if_splits intro!: pr fl put dest!: ld intro: file_frame_refl)
  qed
  show "0 \<le> h" if "r = Some h"
    using assms that by (auto simp: FAT_OpenEntry_def Let_def bind_eq_Some_conv split: option.splits if_splits)
qed

lemma handle_frame_iff: "h \<noteq> ROOT_DIRECTORY_HANDLE \<Longrightarrow> file_frame h s s' \<longleftrightarrow> file_frame 0 s s'"
  by (simp add: file_frame_def ROOT_DIRECTORY_HANDLE_def)

lemma frame_weaken: "file_frame 0 s s' \<Longrightarrow> file_frame h s s'"
  by (simp add: file_frame_def ROOT_DIRECTORY_HANDLE_def)

text \<open>A path that is followed from an open directory other than the root spares the root.\<close>

lemma open_loop_frame: "open_loop B part h name path s = Some (r, s') \<Longrightarrow> file_frame h s s'"
proof (induction B part h name path s rule: open_loop.induct)
  case (1 B part h name path s)
  note run = "1.prems"
  show ?case
  proof (cases "path = []")
    case True
    then show ?thesis using run by (simp add: open_loop.simps [of B part h name "[]"])
  next
    case False
    note body = run [unfolded open_loop.simps [of B part h name path] if_not_P [OF False]]
    have "next_component name path \<noteq> None" using body by (intro notI) simp
    then obtain name' isLast rest where n: "next_component name path = Some (name', isLast, rest)" by auto
    have "FAT_FindFile B part h name' s \<noteq> None" using body n by (intro notI) simp
    then obtain e s1 where f: "FAT_FindFile B part h name' s = Some (e, s1)" by auto
    have c: "file_frame h s (FAT_Close h s1)" by (rule file_frame_trans [OF FAT_FindFile_frame [OF f] FAT_Close_frame])
    have pr: "file_frame h s (s2_printf fmt args t)" if "file_frame h s t" for fmt args t
      using that file_frame_printf file_frame_trans by blast
    show ?thesis
    proof (cases e)
      case None
      then show ?thesis using body n f c by (auto intro: pr)
    next
      case (Some x)
      show ?thesis
      proof (cases "\<not> isLast \<and> not_a_directory x")
        case True
        then show ?thesis by (simp add: not_a_directory_never)
      next
        case dir: False
        have "FAT_OpenEntry B part x (FAT_Close h s1) \<noteq> None"
          using body n f Some by (intro notI) (simp add: Let_def not_a_directory_never)
        then obtain g t where o: "FAT_OpenEntry B part x (FAT_Close h s1) = Some (g, t)" by auto
        have t: "file_frame h s t" using file_frame_trans [OF c frame_weaken [OF OpenEntry_frame(1) [OF o]]] .
        show ?thesis
        proof (cases g)
          case None
          then show ?thesis using body n f Some o t by (auto simp: Let_def not_a_directory_never split: if_splits)
        next
          case (Some k)
          have "open_loop B part k name' rest t = Some (r, s')"
            using body n f \<open>e = Some x\<close> o Some by (simp add: Let_def not_a_directory_never)
          moreover have "k \<noteq> ROOT_DIRECTORY_HANDLE" using OpenEntry_frame(2) [OF o Some] by (simp add: ROOT_DIRECTORY_HANDLE_def)
          ultimately have "file_frame 0 t s'"
            using "1.IH" [OF False n refl refl f] \<open>e = Some x\<close> o Some dir handle_frame_iff [of k t s'] by auto
          then show ?thesis using file_frame_trans [OF t frame_weaken] by blast
        qed
      qed
    qed
  qed
qed

section \<open>The same files\<close>

text \<open>Two states of the driver that differ only in what has nothing to do with files.\<close>

definition same_fat :: "'a fat_data_scheme \<Rightarrow> 'a fat_data_scheme \<Rightarrow> bool" where
  "same_fat s s' \<longleftrightarrow> BootSectorBytes s = BootSectorBytes s' \<and> RootDirectory s = RootDirectory s' \<and> OpenedFiles s = OpenedFiles s' \<and>
     FatCache s = FatCache s' \<and> FatCachePosition s = FatCachePosition s' \<and> g_DataSectionLba s = g_DataSectionLba s' \<and>
     g_FatType s = g_FatType s'"

lemma same_fat_refl [simp]: "same_fat s s"
  by (simp add: same_fat_def)

lemma same_fat_vga:
  assumes "vga.more s = vga.more s'"
  shows "same_fat s s'" "fat_data.more s = fat_data.more s'"
  using assms by (cases s; cases s'; simp add: same_fat_def)+

lemma volume_same:
  assumes "same_fat s s'"
  shows "vol_ok B part img s = vol_ok B part img s'" "vol_ok B part img u s = vol_ok B part img u s'"
    "cluster_size s = cluster_size s'" "same_volume s s'" "same_volume s' s" "in_use s = in_use s'" "get_file h s = get_file h s'"
  using assms by (simp_all add: same_fat_def fun_eq_iff vol_ok_def same_volume_def cluster_size_def bs_SectorsPerCluster_def
      cache_ok_def table_lba_def bs_ReservedSectors_def in_use_def get_file_def)

lemma chain_same:
  assumes "same_fat s s'"
  shows "chain_ok part img s cs = chain_ok part img s' cs" "chain_sector part img s cs = chain_sector part img s' cs"
  by (rule volume_chain(2) [OF volume_same(5) [OF assms]]) (rule ext, rule volume_chain(3) [OF volume_same(5) [OF assms]])

lemma open_at_same:
  assumes 0: "same_fat s0 s0'" and 1: "same_fat s s'"
  shows "open_at B part img s0 src h s p xs = open_at B part img s0' src h s' p xs"
proof -
  note v0 = volume_same [OF 0] and v1 = volume_same [OF 1]
  have f: "RootDirectory s = RootDirectory s'" "OpenedFiles s = OpenedFiles s'" using 1 by (simp_all add: same_fat_def)
  have r: "root_here B part img s0 f n = root_here B part img s0' f n" "root_here B part img u f n s q = root_here B part img u f n s' q" for u f n q
    by (simp_all add: fun_eq_iff root_here_def v0(1) v1(2) f)
  have c: "chain_here B part img s0 cs h = chain_here B part img s0' cs h" "chain_here B part img u cs h s q = chain_here B part img u cs h s' q" for u cs q
    by (simp_all add: fun_eq_iff chain_here_def v0(1,3) v1(2) f chain_same [OF 0])
  have "open_at B part img s0 src h s p xs = open_at B part img s0' src h s p xs"
    by (cases src) (simp_all add: open_at_def root_open_def chain_open_def r(1) c(1) v0(1,3) chain_same [OF 0])
  also have "\<dots> = open_at B part img s0' src h s' p xs"
    by (cases src) (simp_all add: open_at_def root_open_def chain_open_def root_dir.opened_at_def chain_file.opened_at_def
      root_dir.placed_def chain_file.placed_def r(2) c(2) v1(2,7))
  finally show ?thesis .
qed

lemma fat_path_same:
  assumes "same_fat s s'"
  shows "fat_path part img s xs cs ys = fat_path part img s' xs cs ys"
  using fat_path_volume [OF volume_same(4) [OF assms]] fat_path_volume [OF volume_same(5) [OF assms]] by blast

section \<open>Opening the root again\<close>

lemma root_again:
  assumes "open_at B part img s (Root f n) ROOT_DIRECTORY_HANDLE s 0 xs" "vol_ok B part img s' s'" "RootDirectory s' = RootDirectory s"
  shows "open_at B part img s' (Root f n) ROOT_DIRECTORY_HANDLE s' 0 xs"
proof -
  from assms(1) have "root_dir.opened_at B part img s f n s 0 xs" by (simp add: open_at_def root_open_def)
  then obtain fd where pl: "root_dir.placed B part img s f n s 0 fd"
    and sz: "unat (ff_Size fd) \<le> 512 * n" "\<not> (ff_IsDirectory fd \<and> ff_Size fd = 0)"
      "xs = take (unat (ff_Size fd)) (concat (map (\<lambda>q. part_image part img (f + q)) [0..<n]))"
    by (auto simp: root_dir.opened_at_def root_dir.stream_bytes_def split: if_splits)
  have fd: "fd = RootDirectory s" using pl by (simp add: root_dir.placed_def get_file_def)
  have "root_dir.placed B part img s' f n s' 0 fd"
    using pl assms(2,3) unfolding root_dir.placed_def by (auto simp: get_file_def root_here_def fd)
  then have "root_dir.opened_at B part img s' f n s' 0 xs"
    unfolding root_dir.opened_at_def using sz by (intro exI [of _ fd]) (auto simp: root_dir.stream_bytes_def)
  then show ?thesis by (simp add: open_at_def root_open_def)
qed

lemma root_closed:
  assumes o: "open_at B part img s0 (Root f n) ROOT_DIRECTORY_HANDLE s q xs" and q: "q < 512"
  shows "open_at B part img (FAT_Close ROOT_DIRECTORY_HANDLE s) (Root f n) ROOT_DIRECTORY_HANDLE (FAT_Close ROOT_DIRECTORY_HANDLE s) 0 xs"
proof -
  let ?t = "FAT_Close ROOT_DIRECTORY_HANDLE s"
  from o have "root_dir.opened_at B part img s0 f n s q xs" by (simp add: open_at_def root_open_def)
  then obtain fd where pl: "root_dir.placed B part img s0 f n s q fd"
    and sz: "unat (ff_Size fd) \<le> 512 * n" "\<not> (ff_IsDirectory fd \<and> ff_Size fd = 0)"
      "xs = take (unat (ff_Size fd)) (concat (map (\<lambda>q. part_image part img (f + q)) [0..<n]))"
    by (auto simp: root_dir.opened_at_def root_dir.stream_bytes_def split: if_splits)
  have fd: "fd = RootDirectory s" using pl by (simp add: root_dir.placed_def get_file_def)
  have v: "vol_ok B part img ?t ?t" using vol_ok_close(1) [OF vol_ok_self [OF open_vol_ok [OF o]]] by (simp add: handle_ok_def)
  define g where "g = (RootDirectory s)\<lparr>ff_Position := 0, ff_CurrentCluster := ff_FirstCluster (RootDirectory s)\<rparr>"
  have g: "RootDirectory ?t = g" by (simp add: FAT_Close_def g_def)
  have here: "root_here B part img ?t f n ?t 0" if "0 < n"
  proof -
    have "q < 512 * n" using that q by simp
    then have "root_here B part img s0 f n s 0" using pl q by (simp add: root_dir.placed_def)
    then show ?thesis using v by (simp add: root_here_def g) (simp add: g_def)
  qed
  have "root_dir.placed B part img ?t f n ?t 0 g"
    using pl v here g unfolding root_dir.placed_def by (auto simp: get_file_def g_def)
  then have "root_dir.opened_at B part img ?t f n ?t 0 xs"
    unfolding root_dir.opened_at_def using sz by (intro exI [of _ g]) (auto simp: root_dir.stream_bytes_def g_def fd)
  then show ?thesis by (simp add: open_at_def root_open_def)
qed

lemma OpenEntry_volume:
  assumes "open_at B part img s2 (Chain cl) h s2 0 ys" "file_frame 0 s1 s2"
    "open_at B part img s1 (Root f n) ROOT_DIRECTORY_HANDLE s1 0 xs"
  shows "open_at B part img s2 (Root f n) ROOT_DIRECTORY_HANDLE s2 0 xs"
  using root_again [OF assms(3) vol_ok_self [OF open_vol_ok [OF assms(1)]]] assms(2)
  by (simp add: file_frame_def ROOT_DIRECTORY_HANDLE_def)

text \<open>
  A path whose first name is among the first fifteen entries of the root directory: the root is as before
  when the file is open, so that the path can be opened once more.
\<close>

lemma FAT_Open_again:
  assumes o: "open_at B part img s (Root f n) ROOT_DIRECTORY_HANDLE s 0 xs" and c: "components_ok (length name) cs"
    and p: "fat_path part img s xs cs ys" and i: "first_free (in_use s) = Some i" and hd: "fat_index (short_name (hd cs)) xs < 15"
  shows "\<exists>s' cl. FAT_Open B part name (47 # slashed cs) s = Some (Some (int i), s') \<and>
    open_at B part img s' (Chain cl) (int i) s' 0 ys \<and> open_at B part img s' (Root f n) ROOT_DIRECTORY_HANDLE s' 0 xs \<and>
    in_use s' = (in_use s)[i := True] \<and> same_volume s s' \<and> fat_data.more s' = fat_data.more s"
proof -
  obtain d ds where cs: "cs = d # ds" using c by (cases cs) (auto simp: components_ok_def)
  let ?us = "if ROOT_DIRECTORY_HANDLE = ROOT_DIRECTORY_HANDLE then in_use s else (in_use s)[nat ROOT_DIRECTORY_HANDLE := False]"
  from p cs obtain e cl zs where e: "fat_find (short_name d) xs = Some e" "entry_file part img s e cl zs"
    by (auto elim: fat_path.cases)
  have us: "in_use s = ?us" by simp
  from open_step [OF o c [unfolded cs] e us i] obtain nm s1 s2 name' where t: "length name' = length name"
    "FAT_FindFile B part ROOT_DIRECTORY_HANDLE nm s = Some (Some e, s1)"
    "open_at B part img s (Root f n) ROOT_DIRECTORY_HANDLE s1 (32 * Suc (fat_index (short_name d) xs)) xs"
    "FAT_OpenEntry B part e (FAT_Close ROOT_DIRECTORY_HANDLE s1) = Some (Some (int i), s2)"
    "open_loop B part ROOT_DIRECTORY_HANDLE name (slashed (d # ds)) s = open_loop B part (int i) name' (slashed ds) s2"
    "same_volume s s2" "open_at B part img s2 (Chain cl) (int i) s2 0 zs" "in_use s2 = (in_use s)[i := True]" by blast
  have "32 * Suc (fat_index (short_name d) xs) < 512" using hd cs by simp
  note r = root_closed [OF t(3) this]
  note r2 = OpenEntry_volume [OF t(7) OpenEntry_frame(1) [OF t(4)] r]
  have m2: "fat_data.more s2 = fat_data.more s"
    using FAT_FindFile_frame [OF t(2)] FAT_Close_frame [of ROOT_DIRECTORY_HANDLE s1] OpenEntry_frame(1) [OF t(4)] by (simp add: file_frame_def)
  have start: "FAT_Open B part name (47 # slashed cs) s = open_loop B part (int i) name' (slashed ds) s2"
    using t(5) by (simp add: FAT_Open_def cs)
  obtain s' cl' where s': "FAT_Open B part name (47 # slashed cs) s = Some (Some (int i), s')"
    "open_at B part img s' (Chain cl') (int i) s' 0 ys" "in_use s' = (in_use s)[i := True]" "same_volume s s'"
    using open_loop_ok [OF p o c us i] by (auto simp: FAT_Open_def)
  have "file_frame 0 s2 s'"
    using open_loop_frame [OF s'(1) [unfolded start]] handle_frame_iff [of "int i" s2 s'] by (simp add: ROOT_DIRECTORY_HANDLE_def)
  then have "open_at B part img s' (Root f n) ROOT_DIRECTORY_HANDLE s' 0 xs" "fat_data.more s' = fat_data.more s"
    using OpenEntry_volume [OF s'(2) _ r2] m2 by (simp_all add: file_frame_def)
  then show ?thesis using s' by blast
qed

end
