(* ===== verification/LoaderElfOk.thy ===== *)
theory LoaderElfOk
  imports LoaderFrame LoaderElf
begin

text \<open>
  What the ELF loader leaves in memory.  It uses the file system through the locale \<open>kernel_file\<close>: a file
  that can be opened from its start again and again, read and closed, without effect on the memory that
  it loads to.  The interpretation is the FAT driver on a path.
\<close>

section \<open>Memory\<close>

lemma s2_memory: "s2_memcpy = memcpy" "s2_memset = memset"
  by (simp_all add: fun_eq_iff s2_memcpy_def memcpy_def s2_memset_def memset_def)

lemma store_bytes_outside: "b \<notin> region a (length xs) \<Longrightarrow> store_bytes a xs m b = m b"
proof -
  assume b: "b \<notin> region a (length xs)"
  have "fold (\<lambda>i m. m(a + of_nat i := xs ! i)) [0..<k] m b = m b" if "k \<le> length xs" for k
    using that
  proof (induction k)
    case (Suc k)
    then have "a + of_nat k \<in> region a (length xs)" by (intro region_mem) simp
    with Suc b show ?case by auto
  qed simp
  then show ?thesis by (simp add: store_bytes_def)
qed

lemma store_bytes_at: "length xs \<le> 2 ^ 32 \<Longrightarrow> i < length xs \<Longrightarrow> store_bytes a xs m (a + of_nat i) = xs ! i"
proof -
  assume len: "length xs \<le> 2 ^ 32" and i: "i < length xs"
  have "fold (\<lambda>i m. m(a + of_nat i := xs ! i)) [0..<k] m (a + of_nat i) = xs ! i" if "i < k" "k \<le> length xs" for k
    using that
  proof (induction k)
    case (Suc k)
    show ?case
    proof (cases "i = k")
      case False
      then have "(of_nat i :: u32) \<noteq> of_nat k" using Suc.prems len i by (simp add: of_nat_u32_eq_iff)
      then show ?thesis using Suc False by simp
    qed simp
  qed simp
  from this [OF i] show ?thesis by (simp add: store_bytes_def)
qed

lemma region_add: "i + k \<le> n \<Longrightarrow> region (a + of_nat i) k \<subseteq> region a n"
  by (auto simp: region_def add.assoc simp flip: of_nat_add)

text \<open>A value in memory whose bytes are those of a list.\<close>

lemma word_halves:
  fixes a b c d :: u8
  shows "ucast a OR push_bit 8 (ucast b) OR push_bit 16 (ucast c) OR push_bit 24 (ucast d) =
    (ucast (ucast a OR push_bit 8 (ucast b) :: u16) OR push_bit 16 (ucast (ucast c OR push_bit 8 (ucast d) :: u16)) :: u32)"
proof (rule bit_word_eqI)
  fix n assume "n < LENGTH(32)"
  then consider "n < 8" | "8 \<le> n" "n < 16" | "16 \<le> n" "n < 24" | "24 \<le> n" "n < 32" by fastforce
  then show "bit (ucast a OR push_bit 8 (ucast b) OR push_bit 16 (ucast c) OR push_bit 24 (ucast d) :: u32) n =
      bit (ucast (ucast a OR push_bit 8 (ucast b) :: u16) OR push_bit 16 (ucast (ucast c OR push_bit 8 (ucast d) :: u16)) :: u32) n"
    by cases (auto simp: bit_simps dest: bit_imp_le_length)
qed

lemma le32_word: "(\<And>k. k < 4 \<Longrightarrow> m (a + of_nat k) = xs ! (i + k)) \<Longrightarrow> ld32 m a = le32 xs i"
proof -
  assume w: "\<And>k. k < 4 \<Longrightarrow> m (a + of_nat k) = xs ! (i + k)"
  have "m a = xs ! i" "m (a + 1) = xs ! (i + 1)" "m (a + 2) = xs ! (i + 2)" "m (a + 3) = xs ! (i + 3)"
    using w [of 0] w [of 1] w [of 2] w [of 3] by simp_all
  moreover have "i + 2 + 1 = i + 3" by simp
  ultimately show ?thesis unfolding ld32_def le32_def le16_def word_halves by (simp only:)
qed

lemma le16_word: "(\<And>k. k < 2 \<Longrightarrow> m (a + of_nat k) = xs ! (i + k)) \<Longrightarrow> ld16 m a = le16 xs i"
proof -
  assume "\<And>k. k < 2 \<Longrightarrow> m (a + of_nat k) = xs ! (i + k)"
  from this [of 0] this [of 1] show ?thesis by (simp add: ld16_def le16_def)
qed

text \<open>The buffer that pieces of the file are read to, and what lies outside it.\<close>

definition load_buffer :: "u32 set" where
  "load_buffer = region MEMORY_LOAD_KERNEL 0x10000"

lemma store_outside_buffer: "length xs \<le> 0x10000 \<Longrightarrow> b \<notin> load_buffer \<Longrightarrow> store_bytes MEMORY_LOAD_KERNEL xs m b = m b"
  using region_mono [of "length xs" "0x10000" MEMORY_LOAD_KERNEL] by (auto simp: load_buffer_def intro!: store_bytes_outside)

lemma header_field:
  assumes "\<And>b. b \<in> region p 32 \<Longrightarrow> m b = m' b" "i + 4 \<le> 32"
  shows "ld32 m (p + of_nat i) = ld32 m' (p + of_nat i)"
  using assms region_add [OF assms(2), of p] by (intro ld32_cong) auto

lemma buffer_keeps_field:
  assumes "region p 32 \<inter> load_buffer = {}" "length xs \<le> 0x10000" "i + 4 \<le> 32"
  shows "ld32 (store_bytes MEMORY_LOAD_KERNEL xs m) (p + of_nat i) = ld32 m (p + of_nat i)"
  using assms by (intro header_field store_outside_buffer) auto

lemma piece: "unat (min (w :: u32) MEMORY_LOAD_SIZE) = min (unat w) 0x10000"
  by (simp add: min_def MEMORY_LOAD_SIZE_def word_le_nat_alt)

section \<open>Segments\<close>

record segment =
  seg_type :: u32
  seg_offset :: u32
  seg_address :: u32
  seg_fsize :: u32
  seg_msize :: u32

text \<open>The program header at byte \<open>i\<close> of a file, and the same in memory.\<close>

definition segment_at :: "u8 list \<Rightarrow> nat \<Rightarrow> segment" where
  "segment_at xs i = \<lparr>seg_type = le32 xs i, seg_offset = le32 xs (i + 4), seg_address = le32 xs (i + 8),
     seg_fsize = le32 xs (i + 16), seg_msize = le32 xs (i + 20)\<rparr>"

definition header_holds :: "mem \<Rightarrow> u32 \<Rightarrow> segment \<Rightarrow> bool" where
  "header_holds m p g \<longleftrightarrow> ph_Type m p = seg_type g \<and> ph_Offset m p = seg_offset g \<and> ph_VirtualAddress m p = seg_address g \<and>
     ph_FileSize m p = seg_fsize g \<and> ph_MemorySize m p = seg_msize g"

text \<open>Byte \<open>k\<close> of a loaded segment: nothing of a full piece of 64 KiB arrives, the rest of the file's bytes does.\<close>

definition seg_byte :: "u8 list \<Rightarrow> segment \<Rightarrow> nat \<Rightarrow> u8" where
  "seg_byte xs g k = (if unat (seg_fsize g) div 0x10000 * 0x10000 \<le> k \<and> k < unat (seg_fsize g)
     then xs ! (unat (seg_offset g) + k) else 0)"

definition loadable :: "segment \<Rightarrow> bool" where
  "loadable g \<longleftrightarrow> seg_type g = ELF_PROGRAM_TYPE_LOAD"

definition target :: "segment \<Rightarrow> u32 set" where
  "target g = (if loadable g then region (seg_address g) (unat (seg_msize g)) else {})"

text \<open>The loader's two buffers, which no segment may touch.\<close>

definition loader_area :: "u32 set" where
  "loader_area = region MEMORY_ELF_ADDR 0x20000"

definition segment_ok :: "u8 list \<Rightarrow> segment \<Rightarrow> bool" where
  "segment_ok xs g \<longleftrightarrow> loadable g \<longrightarrow> unat (seg_offset g) + unat (seg_fsize g) \<le> length xs \<and>
     seg_fsize g \<le> seg_msize g \<and> target g \<inter> loader_area = {}"

lemma header_holds_cong:
  assumes "\<And>b. b \<in> region p 32 \<Longrightarrow> m b = m' b"
  shows "header_holds m p g = header_holds m' p g"
proof -
  have "ld32 m (p + of_nat i) = ld32 m' (p + of_nat i)" if "i + 4 \<le> 32" for i
    using assms that by (rule header_field)
  from this [of 0] this [of 4] this [of 8] this [of 16] this [of 20] show ?thesis
    by (simp add: header_holds_def ph_Type_def ph_Offset_def ph_VirtualAddress_def ph_FileSize_def ph_MemorySize_def)
qed

lemma header_of_file:
  assumes "\<And>k. k < 32 \<Longrightarrow> m (p + of_nat k) = xs ! (i + k)"
  shows "header_holds m p (segment_at xs i)"
proof -
  have "ld32 m (p + of_nat j) = le32 xs (i + j)" if "j + 4 \<le> 32" for j
  proof (rule le32_word)
    fix k :: nat assume "k < 4"
    then show "m (p + of_nat j + of_nat k) = xs ! (i + j + k)"
      using assms [of "j + k"] that by (simp add: add.assoc)
  qed
  from this [of 0] this [of 4] this [of 8] this [of 16] this [of 20] show ?thesis
    by (simp add: header_holds_def segment_at_def ph_Type_def ph_Offset_def ph_VirtualAddress_def ph_FileSize_def ph_MemorySize_def)
qed

lemma offsets_apart:
  assumes "i + n \<le> j" "j + k \<le> 2 ^ 32"
  shows "region (a + of_nat i) n \<inter> region (a + of_nat j) k = {}"
proof (rule Int_emptyI)
  fix b assume "b \<in> region (a + of_nat i) n" "b \<in> region (a + of_nat j) k"
  then obtain x y where xy: "x < n" "y < k" "b = a + of_nat (i + x)" "b = a + of_nat (j + y)"
    by (auto simp: region_def add.assoc)
  then have "(of_nat (i + x) :: u32) = of_nat (j + y)" by (simp only: add_left_cancel)
  moreover have "i + x < 2 ^ 32" "j + y < 2 ^ 32" using xy(1,2) assms by simp_all
  ultimately have "i + x = j + y" by (simp only: of_nat_u32_eq_iff)
  then show False using xy(1) assms(1) by simp
qed

lemma areas: "load_buffer \<subseteq> loader_area" "region MEMORY_ELF_ADDR 0x10000 \<subseteq> loader_area"
    "region MEMORY_ELF_ADDR 0x10000 \<inter> load_buffer = {}"
proof -
  have k: "MEMORY_LOAD_KERNEL = MEMORY_ELF_ADDR + of_nat 0x10000" by (simp add: MEMORY_LOAD_KERNEL_def MEMORY_ELF_ADDR_def)
  show "load_buffer \<subseteq> loader_area" unfolding load_buffer_def loader_area_def k by (rule region_add) simp
  show "region MEMORY_ELF_ADDR 0x10000 \<subseteq> loader_area" unfolding loader_area_def by (rule region_mono) simp
  show "region MEMORY_ELF_ADDR 0x10000 \<inter> load_buffer = {}"
    unfolding load_buffer_def k using offsets_apart [of 0 "0x10000" "0x10000" "0x10000" MEMORY_ELF_ADDR] by simp
qed

text \<open>
  The segments of an ELF file, by its program headers, and a file that the loader can handle: the table
  of program headers fits its buffer, the segments lie in the file, apart from one another and from the
  loader's buffers.
\<close>

definition elf_segments :: "u8 list \<Rightarrow> segment list" where
  "elf_segments xs = map (\<lambda>i. segment_at xs (unat (le32 xs 28) + i * unat (le16 xs 42))) [0..<unat (le16 xs 44)]"

definition elf_file :: "u8 list \<Rightarrow> bool" where
  "elf_file xs \<longleftrightarrow> 52 \<le> unat (le32 xs 28) \<and> unat (le32 xs 28) \<le> 0x10000 \<and> 32 \<le> unat (le16 xs 42) \<and>
     unat (le16 xs 44) * unat (le16 xs 42) \<le> 0x10000 \<and>
     unat (le32 xs 28) + unat (le16 xs 44) * unat (le16 xs 42) \<le> length xs \<and>
     (\<forall>g \<in> set (elf_segments xs). segment_ok xs g) \<and>
     (\<forall>i j. i < j \<and> j < length (elf_segments xs) \<longrightarrow> target (elf_segments xs ! i) \<inter> target (elf_segments xs ! j) = {})"

section \<open>The interface\<close>

locale kernel_file =
  fixes B :: bios and part :: Partition and name :: "u8 list" and path :: "u8 list" and h :: int
    and ready :: "'a loader_scheme \<Rightarrow> bool" and reading :: "'a loader_scheme \<Rightarrow> nat \<Rightarrow> bool" and ys :: "u8 list"
  assumes open_law: "ready s \<Longrightarrow> \<exists>s'. FAT_Open B part name path s = Some (Some h, s') \<and> reading s' 0 \<and> ldr_mem s' = ldr_mem s"
    and read_law: "reading s q \<Longrightarrow> \<exists>s'. FAT_Read B part h c s = Some (take (unat c) (drop q ys), s') \<and>
      reading s' (min (q + unat c) (length ys)) \<and> ldr_mem s' = ldr_mem s"
    and close_law: "reading s q \<Longrightarrow> ready (FAT_Close h s) \<and> ldr_mem (FAT_Close h s) = ldr_mem s"
    and store_law: "ready (s\<lparr>ldr_mem := m\<rparr>) = ready s" "reading (s\<lparr>ldr_mem := m\<rparr>) q = reading s q"
begin

lemma read_to_ok:
  assumes "reading s q" "q + unat c \<le> length ys"
  shows "\<exists>s'. read_to B part (Some h) c a s = Some (c, s') \<and> reading s' (q + unat c) \<and>
    ldr_mem s' = store_bytes a (take (unat c) (drop q ys)) (ldr_mem s)"
proof -
  from read_law [OF assms(1), of c] assms(2) obtain s1 where s1: "FAT_Read B part h c s = Some (take (unat c) (drop q ys), s1)"
    "reading s1 (q + unat c)" "ldr_mem s1 = ldr_mem s" by (auto simp: min_absorb1)
  have "min (length ys - q) (unat c) = unat c" using assms(2) by simp
  then have "read_to B part (Some h) c a s = Some (c, s1\<lparr>ldr_mem := store_bytes a (take (unat c) (drop q ys)) (ldr_mem s1)\<rparr>)"
    using s1(1) by (simp add: read_to_def)
  then show ?thesis using s1 store_law(2) by auto
qed

lemma seek_loop_ok:
  "reading s q \<Longrightarrow> q + unat (ph_Offset (ldr_mem s) p) \<le> length ys \<Longrightarrow> region p 32 \<inter> load_buffer = {} \<Longrightarrow>
    \<exists>s'. seek_loop B part (Some h) p s = Some (True, s') \<and> reading s' (q + unat (ph_Offset (ldr_mem s) p)) \<and>
      (\<forall>b. b \<notin> load_buffer \<union> region (p + 4) 4 \<longrightarrow> ldr_mem s' b = ldr_mem s b)"
proof (induction "unat (ph_Offset (ldr_mem s) p)" arbitrary: s q rule: less_induct)
  case less
  define off where "off = ph_Offset (ldr_mem s) p"
  show ?case
  proof (cases "off = 0")
    case True
    then show ?thesis using less.prems(1) by (subst seek_loop.simps) (auto simp: off_def)
  next
    case False
    define c where "c = min off MEMORY_LOAD_SIZE"
    have c: "unat c = min (unat off) 0x10000" "c \<le> off" "0 < unat c" using False by (simp_all add: c_def piece unat_gt_0)
    have "q + unat c \<le> length ys" using less.prems(2) c(1) by (simp add: off_def)
    from read_to_ok [OF less.prems(1) this, of MEMORY_LOAD_KERNEL] obtain s1 where
      s1: "read_to B part (Some h) c MEMORY_LOAD_KERNEL s = Some (c, s1)" "reading s1 (q + unat c)"
        "ldr_mem s1 = store_bytes MEMORY_LOAD_KERNEL (take (unat c) (drop q ys)) (ldr_mem s)" by blast
    have len: "length (take (unat c) (drop q ys)) \<le> 0x10000" using c(1) by simp
    have o1: "ph_Offset (ldr_mem s1) p = off"
      using buffer_keeps_field [OF less.prems(3) len, of 4 "ldr_mem s"] by (simp add: ph_Offset_def s1(3) off_def)
    define s2 where "s2 = s1\<lparr>ldr_mem := st32 (ldr_mem s1) (p + 4) (off - c)\<rparr>"
    have o2: "ph_Offset (ldr_mem s2) p = off - c" by (simp add: s2_def ph_Offset_def)
    have u: "unat (off - c) = unat off - unat c" using c(2) by (rule unat_sub)
    have step: "seek_loop B part (Some h) p s = seek_loop B part (Some h) p s2"
      using False s1(1) o1 by (subst seek_loop.simps) (simp add: off_def [symmetric] c_def [symmetric] word_neq_0_conv s2_def Let_def)
    have "reading s2 (q + unat c)" using s1(2) store_law(2) by (simp add: s2_def)
    moreover have "q + unat c + unat (ph_Offset (ldr_mem s2) p) \<le> length ys"
      using less.prems(2) c(1) unfolding o2 u by (simp add: off_def)
    moreover have "unat (ph_Offset (ldr_mem s2) p) < unat off" unfolding o2 u using c(1,3) by simp
    ultimately obtain s' where s': "seek_loop B part (Some h) p s2 = Some (True, s')"
      "reading s' (q + unat c + unat (ph_Offset (ldr_mem s2) p))"
      "\<forall>b. b \<notin> load_buffer \<union> region (p + 4) 4 \<longrightarrow> ldr_mem s' b = ldr_mem s2 b"
      using less.hyps [of s2 "q + unat c"] less.prems(3) unfolding off_def by blast
    have e: "q + unat c + unat (ph_Offset (ldr_mem s2) p) = q + unat off" unfolding o2 u using c(1) by simp
    have "ldr_mem s2 b = ldr_mem s b" if "b \<notin> load_buffer \<union> region (p + 4) 4" for b
      using that len by (simp add: s2_def st32_outside s1(3) store_outside_buffer)
    then show ?thesis using s'(1,3) s'(2) [unfolded e] step unfolding off_def [symmetric] by simp
  qed
qed

text \<open>
  A segment of \<open>F\<close> bytes: what its full pieces of 64 KiB should have become stays as it was, the rest is
  copied.
\<close>

lemma load_loop_ok:
  "reading s q \<Longrightarrow> q + unat (ph_FileSize (ldr_mem s) p) \<le> length ys \<Longrightarrow> region p 32 \<inter> load_buffer = {} \<Longrightarrow>
    region v (unat (ph_FileSize (ldr_mem s) p)) \<inter> (load_buffer \<union> region p 32) = {} \<Longrightarrow>
    \<exists>s'. load_loop B part (Some h) p v s = Some (True, s') \<and> reading s' (q + unat (ph_FileSize (ldr_mem s) p)) \<and>
      (\<forall>k < unat (ph_FileSize (ldr_mem s) p). ldr_mem s' (v + of_nat k) =
        (if unat (ph_FileSize (ldr_mem s) p) div 0x10000 * 0x10000 \<le> k then ys ! (q + k) else ldr_mem s (v + of_nat k))) \<and>
      (\<forall>b. b \<notin> load_buffer \<union> region (p + 16) 4 \<union> region v (unat (ph_FileSize (ldr_mem s) p)) \<longrightarrow> ldr_mem s' b = ldr_mem s b)"
proof (induction "unat (ph_FileSize (ldr_mem s) p)" arbitrary: s q v rule: less_induct)
  case less
  define fs F where "fs = ph_FileSize (ldr_mem s) p" and "F = unat fs"
  have F: "q + F \<le> length ys" "region v F \<inter> (load_buffer \<union> region p 32) = {}" "F < 2 ^ 32"
    using less.prems(2,4) unat_u32_less [of fs] by (simp_all add: fs_def F_def)
  show ?case
  proof (cases "fs = 0")
    case True
    then show ?thesis using less.prems(1) by (subst load_loop.simps) (auto simp: fs_def)
  next
    case False
    define c where "c = min fs MEMORY_LOAD_SIZE"
    have c: "unat c = min F 0x10000" "c \<le> fs" "0 < F" using False by (simp_all add: c_def piece F_def unat_gt_0)
    have "q + unat c \<le> length ys" using F(1) c(1) by simp
    from read_to_ok [OF less.prems(1) this, of MEMORY_LOAD_KERNEL] obtain s1 where
      s1: "read_to B part (Some h) c MEMORY_LOAD_KERNEL s = Some (c, s1)" "reading s1 (q + unat c)"
        "ldr_mem s1 = store_bytes MEMORY_LOAD_KERNEL (take (unat c) (drop q ys)) (ldr_mem s)" by blast
    have len: "length (take (unat c) (drop q ys)) \<le> 0x10000" using c(1) by simp
    have f1: "ph_FileSize (ldr_mem s1) p = fs"
      using buffer_keeps_field [OF less.prems(3) len, of 16 "ldr_mem s"] by (simp add: ph_FileSize_def s1(3) fs_def)
    define m where "m = st32 (ldr_mem s1) (p + 16) (fs - c)"
    define s2 where "s2 = s1\<lparr>ldr_mem := memcpy m v MEMORY_LOAD_KERNEL (ucast c)\<rparr>"
    have sub16: "region (p + 16) 4 \<subseteq> region p 32" using region_add [of 16 4 32 p] by simp
    have m_buf: "m (MEMORY_LOAD_KERNEL + of_nat k) = ys ! (q + k)" if "k < unat c" for k
    proof -
      have "MEMORY_LOAD_KERNEL + of_nat k \<in> load_buffer" using that c(1) by (auto simp: load_buffer_def)
      then have "MEMORY_LOAD_KERNEL + of_nat k \<notin> region (p + 16) 4" using less.prems(3) sub16 by blast
      moreover have "k < length (take (unat c) (drop q ys))" using that F(1) c(1) by simp
      moreover have "length (take (unat c) (drop q ys)) \<le> 2 ^ 32" using len by simp
      ultimately show ?thesis using that F(1) c(1) by (simp add: m_def st32_outside s1(3) store_bytes_at)
    qed
    have m_out: "m b = ldr_mem s b" if "b \<notin> load_buffer \<union> region (p + 16) 4" for b
      using that len by (simp add: m_def st32_outside s1(3) store_outside_buffer)
    have r2: "reading s2 (q + unat c)" using s1(2) store_law(2) by (simp add: s2_def)
    have u: "unat (fs - c) = F - unat c" using c(2) by (simp add: unat_sub F_def)
    have step: "load_loop B part (Some h) p v s = load_loop B part (Some h) p (v + c) s2"
      using False s1(1) f1 by (subst load_loop.simps)
        (simp add: fs_def [symmetric] c_def [symmetric] word_neq_0_conv s2_def m_def s2_memory Let_def)
    show ?thesis
    proof (cases "F < 0x10000")
      case True
      then have cF: "c = fs" "unat c = F" "unat (ucast c :: u16) = F"
        using c(1) u16_of_u32 [of c] by (simp_all add: c_def F_def MEMORY_LOAD_SIZE_def min_def word_le_nat_alt)
      have bF: "region MEMORY_LOAD_KERNEL F \<subseteq> load_buffer" using True by (simp add: load_buffer_def region_mono)
      then have dis: "region v (unat (ucast c :: u16)) \<inter> region MEMORY_LOAD_KERNEL (unat (ucast c :: u16)) = {}" using F(2) cF(3) by auto
      have copied: "ldr_mem s2 (v + of_nat k) = ys ! (q + k)" if "k < F" for k
        using memcpy_at [OF dis, of k m] m_buf [of k] that cF by (simp add: s2_def)
      have other: "ldr_mem s2 b = m b" if "b \<notin> region v F" for b
        using memcpy_outside [of b v "ucast c" m MEMORY_LOAD_KERNEL] that cF(3) by (simp add: s2_def)
      have "p + 16 + of_nat i \<notin> region v F" if "i < 4" for i
        using that F(2) sub16 by blast
      then have "ld32 (ldr_mem s2) (p + 16) = ld32 m (p + 16)"
        by (intro ld32_cong other) (auto simp: region_def)
      then have "ph_FileSize (ldr_mem s2) p = 0" using cF(1) by (simp add: ph_FileSize_def m_def)
      then have "load_loop B part (Some h) p (v + c) s2 = Some (True, s2)" by (subst load_loop.simps) simp
      moreover have "F div 0x10000 = 0" using True by simp
      ultimately show ?thesis using step r2 cF(2) copied other m_out unfolding fs_def [symmetric] F_def [symmetric]
        by (intro exI [of _ s2]) auto
    next
      case big: False
      have cF: "unat c = 0x10000" "c = of_nat 0x10000"
      proof -
        show "unat c = 0x10000" using c(1) big by simp
        then show "c = of_nat 0x10000" by (metis of_nat_unat ucast_id)
      qed
      then have "(ucast c :: u16) = 0" by simp
      then have m2: "ldr_mem s2 = m" by (simp add: s2_def memcpy_def)
      have f2: "ph_FileSize (ldr_mem s2) p = fs - c" by (simp add: m2 m_def ph_FileSize_def)
      let ?F = "F - 0x10000" and ?v = "v + of_nat 0x10000"
      have uF: "unat (ph_FileSize (ldr_mem s2) p) = ?F" unfolding f2 u cF(1) ..
      have sub: "region ?v ?F \<subseteq> region v F" using big by (intro region_add) simp
      have "unat (ph_FileSize (ldr_mem s2) p) < unat (ph_FileSize (ldr_mem s) p)" unfolding uF using c(3) by (simp add: F_def fs_def)
      note IH = less.hyps [OF this r2 [unfolded cF(1)] _ less.prems(3), of ?v, unfolded uF, unfolded m2]
      have "q + 0x10000 + ?F \<le> length ys" "region ?v ?F \<inter> (load_buffer \<union> region p 32) = {}" using F(1,2) big sub by auto
      from IH [OF this] obtain s' where s':
        "load_loop B part (Some h) p ?v s2 = Some (True, s')" "reading s' (q + 0x10000 + ?F)"
        "\<forall>k < ?F. ldr_mem s' (?v + of_nat k) = (if ?F div 0x10000 * 0x10000 \<le> k then ys ! (q + 0x10000 + k) else m (?v + of_nat k))"
        "\<forall>b. b \<notin> load_buffer \<union> region (p + 16) 4 \<union> region ?v ?F \<longrightarrow> ldr_mem s' b = m b"
        by blast
      have outside: "v + of_nat k \<notin> load_buffer \<union> region (p + 16) 4" if "k < F" for k
        using region_mem [OF that, of v] F(2) sub16 by blast
      have "ldr_mem s' (v + of_nat k) = (if F div 0x10000 * 0x10000 \<le> k then ys ! (q + k) else ldr_mem s (v + of_nat k))" if "k < F" for k
      proof (cases "k < 0x10000")
        case True
        have "v + of_nat k \<notin> region ?v ?F"
        proof
          assume "v + of_nat k \<in> region ?v ?F"
          then obtain j where j: "j < ?F" "v + of_nat k = ?v + of_nat j" by (auto simp: region_def)
          then have "(of_nat k :: u32) = of_nat (0x10000 + j)" by (simp only: add.assoc of_nat_add add_left_cancel)
          moreover have "0x10000 + j < 2 ^ 32" "k < 2 ^ 32" using j(1) F(3) True by simp_all
          ultimately have "k = 0x10000 + j" by (simp only: of_nat_u32_eq_iff)
          with True show False by simp
        qed
        then have "ldr_mem s' (v + of_nat k) = ldr_mem s (v + of_nat k)" using s'(4) outside [OF that] m_out [OF outside [OF that]] by simp
        moreover have "\<not> F div 0x10000 * 0x10000 \<le> k" using True big by (simp add: not_le div_greater_zero_iff less_le_trans)
        ultimately show ?thesis by simp
      next
        case False
        define j where "j = k - 0x10000"
        have j: "k = 0x10000 + j" "j < ?F" using False that by (simp_all add: j_def)
        have "v + of_nat k = ?v + of_nat j" by (simp add: j(1) add.assoc)
        moreover have "F div 0x10000 * 0x10000 \<le> k \<longleftrightarrow> ?F div 0x10000 * 0x10000 \<le> j"
        proof -
          have "F div 0x10000 = Suc (?F div 0x10000)" using big by (simp add: le_div_geq)
          then show ?thesis by (simp add: j(1))
        qed
        ultimately show ?thesis using s'(3) j m_out [OF outside [OF that]] by (simp add: add.assoc)
      qed
      then have "\<forall>k < F. ldr_mem s' (v + of_nat k) = (if F div 0x10000 * 0x10000 \<le> k then ys ! (q + k) else ldr_mem s (v + of_nat k))"
        by blast
      moreover have "\<forall>b. b \<notin> load_buffer \<union> region (p + 16) 4 \<union> region v F \<longrightarrow> ldr_mem s' b = ldr_mem s b"
      proof (intro allI impI)
        fix b assume b: "b \<notin> load_buffer \<union> region (p + 16) 4 \<union> region v F"
        then have "b \<notin> load_buffer \<union> region (p + 16) 4 \<union> region ?v ?F" using sub by auto
        then show "ldr_mem s' b = ldr_mem s b" using s'(4) m_out [of b] b by simp
      qed
      moreover have e: "q + 0x10000 + ?F = q + F" using big by simp
      moreover have "load_loop B part (Some h) p v s = Some (True, s')" using step s'(1) by (simp only: cF(2))
      ultimately show ?thesis using s'(2) [unfolded e] unfolding fs_def [symmetric] F_def [symmetric] by blast
    qed
  qed
qed

lemma load_segment_ok:
  assumes r: "ready s" and g: "header_holds (ldr_mem s) p g" "segment_ok ys g" and p: "region p 32 \<subseteq> region MEMORY_ELF_ADDR 0x10000"
  shows "\<exists>s'. load_segment B part name path p s = Some (True, s') \<and> ready s' \<and>
    (loadable g \<longrightarrow> (\<forall>k < unat (seg_msize g). ldr_mem s' (seg_address g + of_nat k) = seg_byte ys g k)) \<and>
    (\<forall>b. b \<notin> load_buffer \<union> region p 32 \<union> target g \<longrightarrow> ldr_mem s' b = ldr_mem s b)"
proof (cases "loadable g")
  case False
  then have "load_segment B part name path p s = Some (True, s)"
    using g(1) by (simp add: load_segment_def header_holds_def loadable_def)
  then show ?thesis using r False by blast
next
  case True
  let ?v = "seg_address g" and ?M = "unat (seg_msize g)" and ?F = "unat (seg_fsize g)"
  have ok: "unat (seg_offset g) + ?F \<le> length ys" "?F \<le> ?M" "region ?v ?M \<inter> loader_area = {}" "target g = region ?v ?M"
    using g(2) True by (simp_all add: segment_ok_def target_def word_le_nat_alt)
  have pb: "region p 32 \<inter> load_buffer = {}" "region p 32 \<subseteq> loader_area" using p areas by blast+
  have sub: "region (p + 4) 4 \<subseteq> region p 32" "region (p + 16) 4 \<subseteq> region p 32"
    using region_add [of 4 4 32 p] region_add [of 16 4 32 p] by simp_all
  have apart: "region (p + 16) 4 \<inter> region (p + 4) 4 = {}" using offsets_apart [of 4 4 16 4 p] by (simp add: Int_commute)
  define m1 where "m1 = memset (ldr_mem s) ?v 0 (seg_msize g)"
  have out1: "m1 b = ldr_mem s b" if "b \<notin> region ?v ?M" for b using that by (simp add: m1_def memset_outside)
  have h1: "header_holds m1 p g"
    using g(1) header_holds_cong [of p m1 "ldr_mem s" g] out1 pb(2) ok(3) by blast
  from open_law [of "s\<lparr>ldr_mem := m1\<rparr>"] r store_law(1) obtain s2 where s2: "FAT_Open B part name path (s\<lparr>ldr_mem := m1\<rparr>) = Some (Some h, s2)"
    "reading s2 0" "ldr_mem s2 = m1" by auto
  have "ph_Offset (ldr_mem s2) p = seg_offset g" using h1 s2(3) by (simp add: header_holds_def)
  with seek_loop_ok [OF s2(2) _ pb(1)] ok(1) obtain s3 where s3: "seek_loop B part (Some h) p s2 = Some (True, s3)"
    "reading s3 (unat (seg_offset g))" "\<forall>b. b \<notin> load_buffer \<union> region (p + 4) 4 \<longrightarrow> ldr_mem s3 b = m1 b"
    unfolding s2(3) by auto
  have "ld32 (ldr_mem s3) (p + 16) = ld32 m1 (p + 16)"
    using s3(3) pb(1) sub(2) apart by (intro ld32_cong) blast
  then have f: "ph_FileSize (ldr_mem s3) p = seg_fsize g" using h1 by (simp add: header_holds_def ph_FileSize_def)
  have dis: "region ?v ?F \<inter> (load_buffer \<union> region p 32) = {}" using ok(3) region_mono [OF ok(2), of ?v] pb(2) areas(1) by blast
  from load_loop_ok [OF s3(2) _ pb(1), where v = ?v, unfolded f, OF ok(1) dis] obtain s4 where
    s4: "load_loop B part (Some h) p ?v s3 = Some (True, s4)" "reading s4 (unat (seg_offset g) + ?F)"
    "\<forall>k < ?F. ldr_mem s4 (?v + of_nat k) = (if ?F div 0x10000 * 0x10000 \<le> k then ys ! (unat (seg_offset g) + k) else ldr_mem s3 (?v + of_nat k))"
    "\<forall>b. b \<notin> load_buffer \<union> region (p + 16) 4 \<union> region ?v ?F \<longrightarrow> ldr_mem s4 b = ldr_mem s3 b" by blast
  note cl = close_law [OF s4(2)]
  have "load_segment B part name path p s = Some (True, FAT_Close h s4)"
    using g(1) True s2(1) s3(1) s4(1) by (simp add: load_segment_def header_holds_def loadable_def s2_memory m1_def close_file_def)
  moreover have "ldr_mem s4 (?v + of_nat k) = seg_byte ys g k" if k: "k < ?M" for k
  proof -
    have inn: "?v + of_nat k \<in> region ?v ?M" using k by blast
    then have nb: "?v + of_nat k \<notin> load_buffer \<union> region p 32" using ok(3) pb(2) areas(1) by blast
    have z: "ldr_mem s3 (?v + of_nat k) = 0" using s3(3) nb sub(1) memset_inside [OF inn, of "ldr_mem s" 0] by (auto simp: m1_def)
    show ?thesis
    proof (cases "k < ?F")
      case True
      then show ?thesis using s4(3) z by (simp add: seg_byte_def)
    next
      case False
      have "?v + of_nat k \<notin> region ?v ?F"
      proof
        assume "?v + of_nat k \<in> region ?v ?F"
        then obtain j where j: "j < ?F" "(of_nat k :: u32) = of_nat j" by (auto simp: region_def)
        moreover have "k < 2 ^ 32" "j < 2 ^ 32" using k j(1) unat_u32_less [of "seg_msize g"] ok(2) by simp_all
        ultimately have "k = j" by (simp only: of_nat_u32_eq_iff)
        with j(1) False show False by simp
      qed
      then have "ldr_mem s4 (?v + of_nat k) = 0" using s4(4) nb sub(2) z by auto
      then show ?thesis using False by (simp add: seg_byte_def)
    qed
  qed
  moreover have "ldr_mem s4 b = ldr_mem s b" if b: "b \<notin> load_buffer \<union> region p 32 \<union> region ?v ?M" for b
  proof -
    have "b \<notin> load_buffer" "b \<notin> region (p + 16) 4" "b \<notin> region (p + 4) 4" "b \<notin> region ?v ?M" "b \<notin> region ?v ?F"
      using b sub region_mono [OF ok(2), of ?v] by auto
    then show ?thesis using s4(4) s3(3) out1 [of b] by simp
  qed
  ultimately show ?thesis using cl ok(4) by auto
qed

text \<open>All segments of a table of program headers.\<close>

lemma load_segments_ok:
  assumes e: "32 \<le> unat e" "length gs * unat e \<le> 0x10000"
    and gs: "\<And>g. g \<in> set gs \<Longrightarrow> segment_ok ys g"
    and dis: "\<And>i j. i < j \<Longrightarrow> j < length gs \<Longrightarrow> target (gs ! i) \<inter> target (gs ! j) = {}"
  shows "j \<le> length gs \<Longrightarrow> ready s \<Longrightarrow>
    (\<And>i. j \<le> i \<Longrightarrow> i < length gs \<Longrightarrow> header_holds (ldr_mem s) (MEMORY_ELF_ADDR + of_nat i * e) (gs ! i)) \<Longrightarrow>
    \<exists>s'. load_segments B part name path e [j..<length gs] s = Some (True, s') \<and> ready s' \<and>
      (\<forall>i k. j \<le> i \<and> i < length gs \<and> loadable (gs ! i) \<and> k < unat (seg_msize (gs ! i)) \<longrightarrow>
        ldr_mem s' (seg_address (gs ! i) + of_nat k) = seg_byte ys (gs ! i) k) \<and>
      (\<forall>b. b \<notin> loader_area \<and> (\<forall>i. j \<le> i \<and> i < length gs \<longrightarrow> b \<notin> target (gs ! i)) \<longrightarrow> ldr_mem s' b = ldr_mem s b)"
proof (induction "length gs - j" arbitrary: j s)
  case 0
  then show ?case by auto
next
  case (Suc n)
  let ?P = "\<lambda>i. MEMORY_ELF_ADDR + of_nat i * e"
  have j: "j < length gs" using Suc.hyps(2) by simp
  have P: "?P i = MEMORY_ELF_ADDR + of_nat (i * unat e)" for i by simp
  have fits: "Suc i * unat e \<le> 0x10000" if "i < length gs" for i
    using that e(2) by (meson Suc_leI le_trans mult_le_mono1)
  have inP: "region (?P i) 32 \<subseteq> region MEMORY_ELF_ADDR 0x10000" if "i < length gs" for i
    unfolding P using fits [OF that] e(1) by (intro region_add) simp
  have g: "segment_ok ys (gs ! j)" using gs j by simp
  have h: "header_holds (ldr_mem s) (?P j) (gs ! j)" using Suc.prems(3) [of j] j by simp
  from load_segment_ok [OF Suc.prems(2) h g inP [OF j]] obtain s1 where
    s1: "load_segment B part name path (?P j) s = Some (True, s1)" "ready s1"
      "loadable (gs ! j) \<longrightarrow> (\<forall>k < unat (seg_msize (gs ! j)). ldr_mem s1 (seg_address (gs ! j) + of_nat k) = seg_byte ys (gs ! j) k)"
      "\<forall>b. b \<notin> load_buffer \<union> region (?P j) 32 \<union> target (gs ! j) \<longrightarrow> ldr_mem s1 b = ldr_mem s b" by blast
  have area: "target (gs ! i) \<inter> loader_area = {}" if "i < length gs" for i
    using gs [OF nth_mem [OF that]] by (auto simp: segment_ok_def target_def)
  have kept: "header_holds (ldr_mem s1) (?P i) (gs ! i)" if i: "Suc j \<le> i" "i < length gs" for i
  proof -
    have "region (?P j) 32 \<inter> region (?P i) 32 = {}"
      unfolding P
    proof (rule offsets_apart)
      have "Suc j * unat e \<le> i * unat e" using i(1) by (rule mult_le_mono1)
      then show "j * unat e + 32 \<le> i * unat e" using e(1) by simp
      show "i * unat e + 32 \<le> 2 ^ 32" using fits [OF i(2)] e(1) by simp
    qed
    then have "ldr_mem s1 b = ldr_mem s b" if "b \<in> region (?P i) 32" for b
      using that s1(4) inP [OF i(2)] areas(2,3) area [OF j] by blast
    then show ?thesis using Suc.prems(3) [of i] i header_holds_cong [of "?P i" "ldr_mem s1" "ldr_mem s"] by simp
  qed
  have "n = length gs - Suc j" "Suc j \<le> length gs" using Suc.hyps(2) j by simp_all
  from Suc.hyps(1) [OF this s1(2) kept] obtain s' where
    s': "load_segments B part name path e [Suc j..<length gs] s1 = Some (True, s')" "ready s'"
      "\<forall>i k. Suc j \<le> i \<and> i < length gs \<and> loadable (gs ! i) \<and> k < unat (seg_msize (gs ! i)) \<longrightarrow>
        ldr_mem s' (seg_address (gs ! i) + of_nat k) = seg_byte ys (gs ! i) k"
      "\<forall>b. b \<notin> loader_area \<and> (\<forall>i. Suc j \<le> i \<and> i < length gs \<longrightarrow> b \<notin> target (gs ! i)) \<longrightarrow> ldr_mem s' b = ldr_mem s1 b" by blast
  have "load_segments B part name path e [j..<length gs] s = Some (True, s')"
    using s1(1) s'(1) j by (simp add: upt_conv_Cons)
  moreover have "ldr_mem s' (seg_address (gs ! i) + of_nat k) = seg_byte ys (gs ! i) k"
    if i: "j \<le> i" "i < length gs" "loadable (gs ! i)" "k < unat (seg_msize (gs ! i))" for i k
  proof (cases "i = j")
    case True
    let ?b = "seg_address (gs ! j) + of_nat k"
    have b: "?b \<in> target (gs ! j)" using i True by (auto simp: target_def)
    then have "?b \<notin> loader_area" using area [OF j] by blast
    moreover have "?b \<notin> target (gs ! l)" if "Suc j \<le> l" "l < length gs" for l
      using dis [of j l] that b by (auto simp: Suc_le_eq)
    ultimately have "ldr_mem s' ?b = ldr_mem s1 ?b" using s'(4) by blast
    then show ?thesis using s1(3) i True by simp
  next
    case False
    then show ?thesis using s'(3) i by simp
  qed
  moreover have "ldr_mem s' b = ldr_mem s b" if b: "b \<notin> loader_area" "\<forall>i. j \<le> i \<and> i < length gs \<longrightarrow> b \<notin> target (gs ! i)" for b
  proof -
    have "b \<notin> load_buffer" "b \<notin> region (?P j) 32" "b \<notin> target (gs ! j)"
      using b j inP [OF j] areas(1,2) by auto
    moreover have "ldr_mem s' b = ldr_mem s1 b" using s'(4) b by (simp add: Suc_le_eq)
    ultimately show ?thesis using s1(4) by simp
  qed
  ultimately show ?case using s'(2) by blast
qed

lemma read_to_header:
  assumes "reading s q" "q + unat c \<le> length ys" "unat c \<le> 0x10000"
  shows "\<exists>s'. read_to B part (Some h) c MEMORY_ELF_ADDR s = Some (c, s') \<and> reading s' (q + unat c) \<and>
    (\<forall>k < unat c. ldr_mem s' (MEMORY_ELF_ADDR + of_nat k) = ys ! (q + k)) \<and>
    (\<forall>b. b \<notin> loader_area \<longrightarrow> ldr_mem s' b = ldr_mem s b)"
proof -
  from read_to_ok [OF assms(1,2)] obtain s' where s': "read_to B part (Some h) c MEMORY_ELF_ADDR s = Some (c, s')" "reading s' (q + unat c)"
    "ldr_mem s' = store_bytes MEMORY_ELF_ADDR (take (unat c) (drop q ys)) (ldr_mem s)" by blast
  have len: "length (take (unat c) (drop q ys)) = unat c" using assms(2) by simp
  have "ldr_mem s' (MEMORY_ELF_ADDR + of_nat k) = ys ! (q + k)" if "k < unat c" for k
    using store_bytes_at [of "take (unat c) (drop q ys)" k] that assms(2,3) unfolding len s'(3) by simp
  moreover have "ldr_mem s' b = ldr_mem s b" if "b \<notin> loader_area" for b
  proof -
    have "region MEMORY_ELF_ADDR (unat c) \<subseteq> loader_area" using region_mono [OF assms(3)] areas(2) by blast
    then have "b \<notin> region MEMORY_ELF_ADDR (length (take (unat c) (drop q ys)))" unfolding len using that by blast
    then show ?thesis unfolding s'(3) by (rule store_bytes_outside)
  qed
  ultimately show ?thesis using s'(1,2) by blast
qed

lemma ELF_Read_ok:
  assumes r: "ready s" and f: "elf_file ys"
  shows "\<exists>s'. ELF_Read B part name path s = Some (Some (le32 ys 24), s') \<and> ready s' \<and>
    (\<forall>g \<in> set (elf_segments ys). loadable g \<longrightarrow>
      (\<forall>k < unat (seg_msize g). ldr_mem s' (seg_address g + of_nat k) = seg_byte ys g k)) \<and>
    (\<forall>b. b \<notin> loader_area \<and> (\<forall>g \<in> set (elf_segments ys). b \<notin> target g) \<longrightarrow> ldr_mem s' b = ldr_mem s b)"
proof -
  define off where "off = unat (le32 ys 28)"
  define e where "e = unat (le16 ys 42)"
  define num where "num = unat (le16 ys 44)"
  have F: "52 \<le> off" "off \<le> 0x10000" "32 \<le> e" "num * e \<le> 0x10000" "off + num * e \<le> length ys"
    using f by (simp_all add: elf_file_def off_def e_def num_def)
  from open_law [OF r] obtain s1 where s1: "FAT_Open B part name path s = Some (Some h, s1)" "reading s1 0" "ldr_mem s1 = ldr_mem s" by blast
  have "0 + unat (52 :: u32) \<le> length ys" "unat (52 :: u32) \<le> 0x10000" using F by simp_all
  from read_to_header [OF s1(2) this] obtain s2 where s2: "read_to B part (Some h) 52 MEMORY_ELF_ADDR s1 = Some (52, s2)" "reading s2 52"
    "\<And>k. k < 52 \<Longrightarrow> ldr_mem s2 (MEMORY_ELF_ADDR + of_nat k) = ys ! k" "\<And>b. b \<notin> loader_area \<Longrightarrow> ldr_mem s2 b = ldr_mem s b"
    by (auto simp: s1(3))
  have w32: "ld32 (ldr_mem s2) (MEMORY_ELF_ADDR + of_nat i) = le32 ys i" if "i + 4 \<le> 52" for i
    by (rule le32_word) (use s2(3) that in \<open>simp add: add.assoc flip: of_nat_add\<close>)
  have w16: "ld16 (ldr_mem s2) (MEMORY_ELF_ADDR + of_nat i) = le16 ys i" if "i + 2 \<le> 52" for i
    by (rule le16_word) (use s2(3) that in \<open>simp add: add.assoc flip: of_nat_add\<close>)
  have fields: "elf_entry (ldr_mem s2) = le32 ys 24" "elf_phoff (ldr_mem s2) = le32 ys 28"
    "elf_phentsize (ldr_mem s2) = ucast (le16 ys 42)" "elf_phnum (ldr_mem s2) = ucast (le16 ys 44)"
    using w32 [of 24] w32 [of 28] w16 [of 42] w16 [of 44]
    by (simp_all add: elf_entry_def elf_phoff_def elf_phentsize_def elf_phnum_def)
  have gap: "unat (le32 ys 28 - 52) = off - 52" using F(1) by (simp add: unat_sub off_def word_le_nat_alt)
  have "52 + unat (le32 ys 28 - 52) \<le> length ys" "unat (le32 ys 28 - 52) \<le> 0x10000" unfolding gap using F by simp_all
  from read_to_header [OF s2(2) this] obtain s3 where s3:
    "read_to B part (Some h) (le32 ys 28 - 52) MEMORY_ELF_ADDR s2 = Some (le32 ys 28 - 52, s3)" "reading s3 off"
    "\<And>b. b \<notin> loader_area \<Longrightarrow> ldr_mem s3 b = ldr_mem s b"
    using F(1) s2(4) by (auto simp: gap)
  let ?e = "ucast (le16 ys 42) :: u32" and ?n = "ucast (le16 ys 44) :: u32"
  have ue: "unat ?e = e" "unat ?n = num" by (simp_all add: unat_u16_u32 e_def num_def)
  have size: "unat (?e * ?n) = num * e"
  proof -
    have "?e * ?n = of_nat (num * e)" by (simp add: e_def num_def mult.commute)
    then show ?thesis using unat_of_nat_u32 [of "num * e"] F(4) by (simp only:) simp
  qed
  have "off + unat (?e * ?n) \<le> length ys" "unat (?e * ?n) \<le> 0x10000" unfolding size using F by simp_all
  from read_to_header [OF s3(2) this] obtain s4 where s4:
    "read_to B part (Some h) (?e * ?n) MEMORY_ELF_ADDR s3 = Some (?e * ?n, s4)" "reading s4 (off + num * e)"
    "\<And>k. k < num * e \<Longrightarrow> ldr_mem s4 (MEMORY_ELF_ADDR + of_nat k) = ys ! (off + k)" "\<And>b. b \<notin> loader_area \<Longrightarrow> ldr_mem s4 b = ldr_mem s b"
    using s3(3) by (auto simp: size)
  note cl = close_law [OF s4(2)]
  let ?gs = "elf_segments ys"
  have gl: "length ?gs = num" "\<And>i. i < num \<Longrightarrow> ?gs ! i = segment_at ys (off + i * e)"
    by (simp_all add: elf_segments_def num_def off_def e_def)
  have held: "header_holds (ldr_mem (FAT_Close h s4)) (MEMORY_ELF_ADDR + of_nat i * ?e) (?gs ! i)" if i: "i < num" for i
  proof -
    have "Suc i * e \<le> num * e" using i by (intro mult_le_mono1) simp
    then have "i * e + k < num * e" if "k < 32" for k using that F(3) by simp
    then have "ldr_mem s4 (MEMORY_ELF_ADDR + of_nat (i * e + k)) = ys ! (off + (i * e + k))" if "k < 32" for k using that s4(3) by blast
    then have "header_holds (ldr_mem s4) (MEMORY_ELF_ADDR + of_nat (i * e)) (segment_at ys (off + i * e))"
      by (intro header_of_file) (simp add: add.assoc)
    moreover have "(of_nat (i * e) :: u32) = of_nat i * ?e" by (simp add: e_def)
    ultimately show ?thesis using gl(2) [OF i] cl by simp
  qed
  have "32 \<le> unat ?e" "length ?gs * unat ?e \<le> 0x10000" using F ue gl(1) by simp_all
  from load_segments_ok [OF this, of 0 "FAT_Close h s4"] f held cl gl(1) obtain s5 where
    s5: "load_segments B part name path ?e [0..<num] (FAT_Close h s4) = Some (True, s5)" "ready s5"
      "\<forall>i k. i < num \<and> loadable (?gs ! i) \<and> k < unat (seg_msize (?gs ! i)) \<longrightarrow>
        ldr_mem s5 (seg_address (?gs ! i) + of_nat k) = seg_byte ys (?gs ! i) k"
      "\<forall>b. b \<notin> loader_area \<and> (\<forall>i. i < num \<longrightarrow> b \<notin> target (?gs ! i)) \<longrightarrow> ldr_mem s5 b = ldr_mem s4 b"
    by (auto simp: elf_file_def)
  have "ELF_Read B part name path s = Some (Some (le32 ys 24), s5)"
    using s1(1) s2(1) s3(1) s4(1) s5(1) by (simp add: ELF_Read_def fields ue close_file_def Let_def)
  moreover have "\<forall>g \<in> set ?gs. loadable g \<longrightarrow> (\<forall>k < unat (seg_msize g). ldr_mem s5 (seg_address g + of_nat k) = seg_byte ys g k)"
    using s5(3) gl(1) by (auto simp: in_set_conv_nth)
  moreover have "ldr_mem s5 b = ldr_mem s b" if "b \<notin> loader_area" "\<forall>g \<in> set ?gs. b \<notin> target g" for b
    using s5(4) s4(4) that gl(1) nth_mem [of _ ?gs] by auto
  ultimately show ?thesis using s5(2) by blast
qed

end

section \<open>The file system as that interface\<close>

lemma more_memory:
  fixes s s' :: "'a loader_scheme"
  assumes "fat_data.more s' = fat_data.more s"
  shows "ldr_mem s' = ldr_mem s"
  using assms by (cases s; cases s') simp

lemma same_fat_memory: "same_fat (s\<lparr>ldr_mem := m\<rparr>) s"
  by (simp add: same_fat_def)

text \<open>The volume is mounted, no position is lost and the first name of the path is in the first sector.\<close>

definition disk_ready where
  "disk_ready B part img f n xs cs ys us i name s \<longleftrightarrow>
     components_ok (length name) cs \<and> first_free us = Some i \<and> fat_index (short_name (hd cs)) xs < 15 \<and> in_use s = us \<and>
     fat_path part img s xs cs ys \<and> open_at B part img s (Root f n) ROOT_DIRECTORY_HANDLE s 0 xs"

definition disk_reading where
  "disk_reading B part img f n xs cs ys us i name s q \<longleftrightarrow>
     components_ok (length name) cs \<and> first_free us = Some i \<and> fat_index (short_name (hd cs)) xs < 15 \<and>
     (\<exists>s0 cl. open_at B part img s0 (Chain cl) (int i) s q ys \<and> open_at B part img s0 (Root f n) ROOT_DIRECTORY_HANDLE s0 0 xs \<and>
       RootDirectory s = RootDirectory s0 \<and> in_use s0 = us[i := True] \<and> fat_path part img s0 xs cs ys)"

lemma disk_ready_same:
  assumes "same_fat s s'"
  shows "disk_ready B part img f n xs cs ys us i name s = disk_ready B part img f n xs cs ys us i name s'"
  using open_at_same [OF assms assms] fat_path_same [OF assms] volume_same(6) [OF assms] by (simp add: disk_ready_def)

lemma disk_reading_same:
  assumes "same_fat s s'"
  shows "disk_reading B part img f n xs cs ys us i name s q = disk_reading B part img f n xs cs ys us i name s' q"
  using open_at_same [OF same_fat_refl assms] assms by (simp add: disk_reading_def same_fat_def)

interpretation disk_file: kernel_file B part name "47 # slashed cs" "int i" "disk_ready B part img f n xs cs ys us i name"
  "disk_reading B part img f n xs cs ys us i name" ys for B part name cs i img f n xs ys us
proof unfold_locales
  fix s :: "'a loader_scheme" and q c m
  note defs = disk_ready_def disk_reading_def
  show "\<exists>s'. FAT_Open B part name (47 # slashed cs) s = Some (Some (int i), s') \<and>
      disk_reading B part img f n xs cs ys us i name s' 0 \<and> ldr_mem s' = ldr_mem s"
    if r: "disk_ready B part img f n xs cs ys us i name s"
  proof -
    have k: "components_ok (length name) cs" "first_free (in_use s) = Some i" "fat_index (short_name (hd cs)) xs < 15" "in_use s = us"
      "fat_path part img s xs cs ys" "open_at B part img s (Root f n) ROOT_DIRECTORY_HANDLE s 0 xs"
      using r by (auto simp: disk_ready_def)
    from FAT_Open_again [OF k(6,1,5,2,3)] obtain s' cl where s': "FAT_Open B part name (47 # slashed cs) s = Some (Some (int i), s')"
      "open_at B part img s' (Chain cl) (int i) s' 0 ys" "open_at B part img s' (Root f n) ROOT_DIRECTORY_HANDLE s' 0 xs"
      "in_use s' = (in_use s)[i := True]" "same_volume s s'" "fat_data.more s' = fat_data.more s" by blast
    then show ?thesis using k fat_path_volume [OF s'(5) k(5)] more_memory [OF s'(6)] by (auto simp: disk_reading_def)
  qed
  show "\<exists>s'. FAT_Read B part (int i) c s = Some (take (unat c) (drop q ys), s') \<and>
      disk_reading B part img f n xs cs ys us i name s' (min (q + unat c) (length ys)) \<and> ldr_mem s' = ldr_mem s"
    if r: "disk_reading B part img f n xs cs ys us i name s q"
  proof -
    from r obtain s0 cl where k: "open_at B part img s0 (Chain cl) (int i) s q ys" "RootDirectory s = RootDirectory s0"
      "open_at B part img s0 (Root f n) ROOT_DIRECTORY_HANDLE s0 0 xs" "in_use s0 = us[i := True]" "fat_path part img s0 xs cs ys"
      by (auto simp: disk_reading_def)
    from open_read [OF k(1), of c] obtain s' where s': "FAT_Read B part (int i) c s = Some (take (unat c) (drop q ys), s')"
      "open_at B part img s0 (Chain cl) (int i) s' (min (q + unat c) (length ys)) ys" by blast
    have "file_frame (int i) s s'" by (rule FAT_Read_frame [OF s'(1)])
    then have f: "RootDirectory s' = RootDirectory s" "fat_data.more s' = fat_data.more s" by (simp_all add: frame_handle)
    have "RootDirectory s' = RootDirectory s0" using f(1) k(2) by simp
    then have "disk_reading B part img f n xs cs ys us i name s' (min (q + unat c) (length ys))"
      using r s'(2) k(3-5) unfolding disk_reading_def by blast
    then show ?thesis using s'(1) more_memory [OF f(2)] by blast
  qed
  show "disk_ready B part img f n xs cs ys us i name (FAT_Close (int i) s) \<and> ldr_mem (FAT_Close (int i) s) = ldr_mem s"
    if r: "disk_reading B part img f n xs cs ys us i name s q"
  proof -
    let ?t = "FAT_Close (int i) s"
    from r obtain s0 cl where k: "open_at B part img s0 (Chain cl) (int i) s q ys" "open_at B part img s0 (Root f n) ROOT_DIRECTORY_HANDLE s0 0 xs"
      "RootDirectory s = RootDirectory s0" "in_use s0 = us[i := True]" "fat_path part img s0 xs cs ys" "first_free us = Some i"
      by (auto simp: disk_reading_def)
    note i = first_free_less [OF k(6)]
    have fr: "RootDirectory ?t = RootDirectory s" "fat_data.more ?t = fat_data.more s"
      using FAT_Close_frame [of "int i" s] by (simp_all add: frame_handle)
    have h: "handle_ok (int i)" using i by (simp add: handle_ok_def)
    note v = open_vol_ok [OF k(1)]
    note vt = vol_ok_close [OF vol_ok_self [OF v] h]
    have "open_at B part img ?t (Root f n) ROOT_DIRECTORY_HANDLE ?t 0 xs" using root_again [OF k(2) vt(1)] fr(1) k(3) by simp
    moreover have "same_volume s0 ?t" using v vt(2) by (simp add: vol_ok_def same_volume_def)
    then have "fat_path part img ?t xs cs ys" using fat_path_volume k(5) by blast
    moreover have "in_use ?t = us"
    proof -
      have "in_use s = us[i := True]" using v k(4) by (simp add: in_use_def vol_ok_def)
      then have "in_use ?t = us[i := False]" by (simp add: in_use_def FAT_Close_def map_update ROOT_DIRECTORY_HANDLE_def)
      then show ?thesis using i list_update_id [of us i] by simp
    qed
    ultimately show ?thesis using r more_memory [OF fr(2)] by (simp add: defs)
  qed
  show "disk_ready B part img f n xs cs ys us i name (s\<lparr>ldr_mem := m\<rparr>) = disk_ready B part img f n xs cs ys us i name s"
    by (rule disk_ready_same [OF same_fat_memory])
  show "disk_reading B part img f n xs cs ys us i name (s\<lparr>ldr_mem := m\<rparr>) q = disk_reading B part img f n xs cs ys us i name s q"
    by (rule disk_reading_same [OF same_fat_memory])
qed

end
