(* ===== verification/LoaderBootOk.thy ===== *)
theory LoaderBootOk
  imports LoaderElfOk LoaderMain BootOk
begin

text \<open>
  The second stage as a whole: from a disk that works and carries a kernel to the call of the kernel's
  entry point, with the kernel's segments and the boot parameters in memory.
\<close>

section \<open>What loading leaves alone\<close>

lemma more_loader:
  fixes s s' :: "'a loader_scheme"
  assumes "fat_data.more s' = fat_data.more s"
  shows "loader.more s' = loader.more s"
  using assms by (cases s; cases s') simp

lemma printf_loader_more: "loader.more (s2_printf fmt args s) = loader.more s"
  by (rule more_loader) (rule same_fat_vga(2) [OF s2_printf_more])

lemma FAT_Open_frame: "FAT_Open B part name path s = Some (r, s') \<Longrightarrow> file_frame ROOT_DIRECTORY_HANDLE s s'"
  unfolding FAT_Open_def by (rule open_loop_frame)

lemma read_to_more:
  assumes "read_to B part fd c a s = Some (k, s')"
  shows "loader.more s' = loader.more s"
proof -
  from assms obtain h data t where t: "FAT_Read B part h c s = Some (data, t)" "s' = t\<lparr>ldr_mem := store_bytes a data (ldr_mem t)\<rparr>"
    by (auto simp: read_to_def bind_eq_Some_conv)
  have "fat_data.more t = fat_data.more s" using FAT_Read_frame [OF t(1)] by (simp add: file_frame_def)
  from more_loader [OF this] show ?thesis by (simp add: t(2))
qed

lemma close_file_more: "close_file fd s = Some s' \<Longrightarrow> loader.more s' = loader.more s"
  using FAT_Close_frame more_loader by (auto simp: close_file_def bind_eq_Some_conv file_frame_def)

lemma seek_loop_more:
  assumes "seek_loop B part fd p s = Some r"
  shows "loader.more (snd r) = loader.more s"
proof (rule seek_loop.raw_induct [OF _ assms, where P = "\<lambda>B part fd p s r. loader.more (snd r) = loader.more s"], goal_cases)
  case (1 loop B part fd p s r)
  show ?case
  proof (cases "ph_Offset (ldr_mem s) p > 0")
    case True
    let ?c = "min (ph_Offset (ldr_mem s) p) MEMORY_LOAD_SIZE"
    from 1(2) True obtain k t where t: "read_to B part fd ?c MEMORY_LOAD_KERNEL s = Some (k, t)"
      by (auto simp: Let_def bind_eq_Some_conv)
    show ?thesis
    proof (cases "k = ?c")
      case False
      then show ?thesis using 1(2) True t read_to_more [OF t] by (auto simp: Let_def printf_loader_more)
    next
      case eq: True
      then have "loop B part fd p (t\<lparr>ldr_mem := st32 (ldr_mem t) (p + 4) (ph_Offset (ldr_mem t) p - k)\<rparr>) = Some r"
        using 1(2) True t by (simp add: Let_def)
      from 1(1) [OF this] read_to_more [OF t] show ?thesis by simp
    qed
  next
    case False
    then show ?thesis using 1(2) by auto
  qed
qed

lemma load_loop_more:
  assumes "load_loop B part fd p v s = Some r"
  shows "loader.more (snd r) = loader.more s"
proof (rule load_loop.raw_induct [OF _ assms, where P = "\<lambda>B part fd p v s r. loader.more (snd r) = loader.more s"], goal_cases)
  case (1 loop B part fd p v s r)
  show ?case
  proof (cases "ph_FileSize (ldr_mem s) p > 0")
    case True
    let ?c = "min (ph_FileSize (ldr_mem s) p) MEMORY_LOAD_SIZE"
    from 1(2) True obtain k t where t: "read_to B part fd ?c MEMORY_LOAD_KERNEL s = Some (k, t)"
      by (auto simp: Let_def bind_eq_Some_conv)
    show ?thesis
    proof (cases "k = ?c")
      case False
      then show ?thesis using 1(2) True t read_to_more [OF t] by (auto simp: Let_def printf_loader_more)
    next
      case eq: True
      then have "loop B part fd p (v + k) (t\<lparr>ldr_mem := s2_memcpy (st32 (ldr_mem t) (p + 16) (ph_FileSize (ldr_mem t) p - k)) v
          MEMORY_LOAD_KERNEL (ucast k)\<rparr>) = Some r"
        using 1(2) True t by (simp add: Let_def)
      from 1(1) [OF this] read_to_more [OF t] show ?thesis by simp
    qed
  next
    case False
    then show ?thesis using 1(2) by auto
  qed
qed

lemma load_segment_more:
  assumes "load_segment B part name path p s = Some (ok, s')"
  shows "loader.more s' = loader.more s"
proof (cases "ph_Type (ldr_mem s) p = ELF_PROGRAM_TYPE_LOAD")
  case False
  then show ?thesis using assms by (simp add: load_segment_def)
next
  case True
  let ?s = "s\<lparr>ldr_mem := s2_memset (ldr_mem s) (ph_VirtualAddress (ldr_mem s) p) 0 (ph_MemorySize (ldr_mem s) p)\<rparr>"
  from assms True obtain fd t ok1 u where t: "FAT_Open B part name path ?s = Some (fd, t)" "seek_loop B part fd p t = Some (ok1, u)"
    by (auto simp: load_segment_def Let_def bind_eq_Some_conv)
  have o: "loader.more t = loader.more s" using more_loader [of t ?s] FAT_Open_frame [OF t(1)] by (simp add: file_frame_def)
  have u: "loader.more u = loader.more s" using seek_loop_more [OF t(2)] o by simp
  show ?thesis
  proof (cases ok1)
    case False
    then show ?thesis using assms True t u by (simp add: load_segment_def Let_def)
  next
    case ok: True
    with assms True t obtain ok2 w where w: "load_loop B part fd p (ph_VirtualAddress (ldr_mem s) p) u = Some (ok2, w)"
      by (auto simp: load_segment_def Let_def bind_eq_Some_conv)
    have "loader.more w = loader.more s" using load_loop_more [OF w] u by simp
    then show ?thesis using assms True t ok w close_file_more [of fd w]
      by (auto simp: load_segment_def Let_def bind_eq_Some_conv split: if_splits)
  qed
qed

lemma load_segments_more:
  "load_segments B part name path e is s = Some (ok, s') \<Longrightarrow> loader.more s' = loader.more s"
  by (induction B part name path e "is" s rule: load_segments.induct)
    (auto simp: bind_eq_Some_conv split: if_splits dest: load_segment_more)

lemma ELF_Read_more:
  assumes "ELF_Read B part name path s = Some (r, s')"
  shows "loader.more s' = loader.more s"
proof -
  from assms obtain fd s1 k s2 where 1: "FAT_Open B part name path s = Some (fd, s1)" "read_to B part fd 52 MEMORY_ELF_ADDR s1 = Some (k, s2)"
    by (auto simp: ELF_Read_def bind_eq_Some_conv)
  have m2: "loader.more s2 = loader.more s"
    using more_loader [of s1 s] FAT_Open_frame [OF 1(1)] read_to_more [OF 1(2)] by (simp add: file_frame_def)
  show ?thesis
  proof (cases "k = 52")
    case False
    then show ?thesis using assms 1 m2 by (auto simp: ELF_Read_def printf_loader_more)
  next
    case True
    with assms 1 obtain c3 k3 s3 c4 k4 s4 where 3: "read_to B part fd c3 MEMORY_ELF_ADDR s2 = Some (k3, s3)"
      "read_to B part fd c4 MEMORY_ELF_ADDR s3 = Some (k4, s4)" and
      rest: "(if k4 \<noteq> c4 then Some (None, s2_printf ''ELF Load error!\<newline>'' [] s4)
       else do {
         s \<leftarrow> close_file fd s4;
         (ok, s) \<leftarrow> load_segments B part name path (elf_phentsize (ldr_mem s2)) [0..<unat (elf_phnum (ldr_mem s2))] s;
         Some (if ok then Some (elf_entry (ldr_mem s2)) else None, s) }) = Some (r, s')"
      by (auto simp: ELF_Read_def Let_def bind_eq_Some_conv)
    have m4: "loader.more s4 = loader.more s" using read_to_more [OF 3(1)] read_to_more [OF 3(2)] m2 by simp
    show ?thesis
    proof (cases "k4 = c4")
      case False
      then show ?thesis using rest m4 by (auto simp: printf_loader_more)
    next
      case True
      then show ?thesis using rest m4 by (auto simp: bind_eq_Some_conv dest!: close_file_more load_segments_more)
    qed
  qed
qed

section \<open>Mounting\<close>

lemma root_location_more: "root_location s = Some (r, s') \<Longrightarrow> fat_data.more s' = fat_data.more s"
  by (auto simp: root_location_def Let_def split: if_splits)

lemma FAT_Detect_more: "FAT_Detect s = Some s' \<Longrightarrow> fat_data.more s' = fat_data.more s"
  by (auto simp: FAT_Detect_def Let_def split: if_splits)

lemma sectors_more: "Partition_ReadSectors B part lba c data s = Some (ok, data', s') \<Longrightarrow> fat_data.more s' = fat_data.more s"
  by (auto dest: sectors_calls)

lemma FAT_Initialize_more:
  assumes "FAT_Initialize B part s = Some (ok, s')"
  shows "fat_data.more s' = fat_data.more s"
  using assms
  by (auto simp: FAT_Initialize_def FAT_ReadBootSector_def Let_def bind_eq_Some_conv same_fat_vga(2) [OF s2_printf_more]
      split: if_splits dest!: sectors_more root_location_more FAT_Detect_more)

lemma volume_of_same: "same_volume (volume_of part img s) (volume_of part img s')"
  by (simp add: same_volume_def volume_of_def Let_def)

text \<open>The bytes of a kernel's segments, in memory.\<close>

definition segments_in :: "mem \<Rightarrow> u8 list \<Rightarrow> bool" where
  "segments_in m xs \<longleftrightarrow> (\<forall>g \<in> set (elf_segments xs). loadable g \<longrightarrow>
     (\<forall>k < unat (seg_msize g). m (seg_address g + of_nat k) = seg_byte xs g k))"

text \<open>A disk that works and holds a kernel under a path.\<close>

definition kernel_disk :: "bios \<Rightarrow> Partition \<Rightarrow> (nat \<Rightarrow> u8 list) \<Rightarrow> u8 list \<Rightarrow> u8 list list \<Rightarrow> u8 list \<Rightarrow> 'a fat_data_scheme \<Rightarrow> bool" where
  "kernel_disk B part img name cs ys s \<longleftrightarrow> part_ok B part img \<and> fat_volume part img \<and>
     fat_path part img (volume_of part img s) (root_bytes part img) cs ys \<and> components_ok (length name) cs \<and>
     fat_index (short_name (hd cs)) (root_bytes part img) < 15 \<and> elf_file ys"

lemma kernel_disk_same:
  fixes s s' :: "'a fat_data_scheme"
  shows "kernel_disk B part img name cs ys s = kernel_disk B part img name cs ys s'"
proof -
  have "fat_path part img (volume_of part img t) xs cs ys" if "fat_path part img (volume_of part img u) xs cs ys"
    for t u :: "'a fat_data_scheme" and xs by (rule fat_path_volume [OF volume_of_same that])
  then show ?thesis by (auto simp: kernel_disk_def)
qed

lemma mounted_ready:
  assumes "fat_memory s" "kernel_disk B part img name cs ys s"
  shows "\<exists>s' f n. FAT_Initialize B part s = Some (True, s') \<and> fat_data.more s' = fat_data.more s \<and>
    disk_ready B part img f n (root_bytes part img) cs ys (replicate 10 False) 0 name s'"
proof -
  note k = assms(2) [unfolded kernel_disk_def]
  from FAT_Initialize_ok [of s B part img] assms(1) k obtain s1 f n where s1: "FAT_Initialize B part s = Some (True, s1)"
    "same_volume (volume_of part img s) s1" "open_at B part img s1 (Root f n) ROOT_DIRECTORY_HANDLE s1 0 (root_bytes part img)"
    "in_use s1 = replicate 10 False" by blast
  have "first_free (replicate 10 False) = Some 0" by (simp add: first_free_def upt_conv_Cons)
  then have "disk_ready B part img f n (root_bytes part img) cs ys (replicate 10 False) 0 name s1"
    using k s1(3,4) fat_path_volume [OF s1(2)] unfolding disk_ready_def by blast
  then show ?thesis using s1(1) FAT_Initialize_more [OF s1(1)] by blast
qed

lemma kernel_segments:
  assumes "disk_ready B part img f n xs cs ys us i name s" "elf_file ys"
  shows "\<exists>s'. ELF_Read B part name (47 # slashed cs) s = Some (Some (le32 ys 24), s') \<and> segments_in (ldr_mem s') ys \<and>
    (\<forall>b. b \<notin> loader_area \<and> (\<forall>g \<in> set (elf_segments ys). b \<notin> target g) \<longrightarrow> ldr_mem s' b = ldr_mem s b)"
  using disk_file.ELF_Read_ok [OF assms] unfolding segments_in_def by blast

section \<open>The memory map and the rest of the loader\<close>

lemma printf_fat: "same_fat (s2_printf fmt args s) s"
  by (rule same_fat_vga(1) [OF s2_printf_more])

lemma same_fat_trans: "same_fat s t \<Longrightarrow> same_fat t u \<Longrightarrow> same_fat s u"
  by (simp add: same_fat_def)

lemma same_fat_sym: "same_fat s t \<Longrightarrow> same_fat t s"
  by (simp add: same_fat_def)

lemma clrscr_more_loader: "vga.more (s2_clrscr s) = vga.more s"
  by (simp add: s2_rows)

lemma fat_memory_same: "same_fat s t \<Longrightarrow> fat_memory s \<Longrightarrow> fat_memory t"
  by (simp add: same_fat_def fat_memory_def)

text \<open>What the detection of memory leaves alone.\<close>

definition quiet :: "'a loader_main_scheme \<Rightarrow> 'a loader_main_scheme \<Rightarrow> bool" where
  "quiet s t \<longleftrightarrow> same_fat s t \<and> ldr_mem t = ldr_mem s \<and> BootDevice (g_BootParams t) = BootDevice (g_BootParams s)"

lemma quiet_refl [simp]: "quiet s s"
  by (simp add: quiet_def)

lemma quiet_trans: "quiet s t \<Longrightarrow> quiet t u \<Longrightarrow> quiet s u"
  by (auto simp: quiet_def intro: same_fat_trans)

lemma quiet_printf: "quiet s (s2_printf fmt args s)"
  by (simp add: quiet_def same_fat_sym [OF printf_fat])

lemma quiet_regions: "quiet s (s\<lparr>g_MemRegions := rs, g_MemRegionCount := n\<rparr>)" "quiet s (s\<lparr>g_MemRegionCount := n\<rparr>)"
    "quiet s (s\<lparr>memory_detection_done := k, g_BootParams := (g_BootParams s)\<lparr>RegionCount := n, Regions := rs\<rparr>\<rparr>)"
  by (simp_all add: quiet_def same_fat_def)

lemma detect_loop_quiet: "detect_loop B blk c s = Some s' \<Longrightarrow> quiet s s'"
proof (induction B blk c s rule: detect_loop.induct)
  case (1 B blk c s)
  obtain ret b cont where g: "x86_E820GetNextBlock B blk c = (ret, b, cont)" by (cases "x86_E820GetNextBlock B blk c")
  note run = 1(2) [unfolded detect_loop.simps [of B blk c s] g]
  show ?case
  proof (cases "\<not> 0 <s ret \<or> g_MemRegionCount s \<ge> int MAX_REGIONS")
    case True
    then show ?thesis using run quiet_printf by (auto split: option.splits if_splits)
  next
    case False
    then have b: "0 <s ret" "\<not> g_MemRegionCount s \<ge> int MAX_REGIONS" by auto
    with run obtain rs where rs: "arr_set (g_MemRegions s) (g_MemRegionCount s) (region_of b) = Some rs"
      by (auto split: option.splits)
    define s1 where "s1 = s\<lparr>g_MemRegions := rs, g_MemRegionCount := g_MemRegionCount s + 1\<rparr>"
    define s2 where "s2 = (if g_MemRegionCount s1 < 10
      then s2_printf ''E820: base=0x%llx length=0x%llx type=0x%x\<newline>''
        [VLL (e820_Base b), VLL (e820_Length b), VI (e820_Type b)] s1 else s1)"
    have q: "quiet s s2" unfolding s2_def s1_def by (simp add: quiet_trans [OF quiet_regions(1) quiet_printf] quiet_regions(1))
    have step: "(if cont \<noteq> 0 then detect_loop B b cont s2 else Some s2) = Some s'"
      using run b rs by (simp add: s1_def s2_def Let_def split: if_splits)
    show ?thesis
    proof (cases "cont = 0")
      case True
      then show ?thesis using step q by simp
    next
      case cont: False
      from step cont have "detect_loop B b cont s2 = Some s'" by simp
      from "1.IH" [OF g [symmetric] refl b rs s1_def s2_def cont this] q show ?thesis by (rule quiet_trans [rotated])
    qed
  qed
qed

lemma Memory_Detect_quiet:
  assumes "Memory_Detect B blk s = Some s'" "memory_detection_done s = 0"
  shows "quiet s s'"
proof -
  let ?s = "(s2_printf ''Memory_Detect: First execution, detecting memory...\<newline>'' [] s)\<lparr>g_MemRegionCount := 0\<rparr>"
  from assms obtain t where t: "detect_loop B blk 0 ?s = Some t" by (auto simp: Memory_Detect_def bind_eq_Some_conv)
  let ?t = "s2_printf ''Memory detection completed: %d regions found\<newline>'' [VI (of_int (g_MemRegionCount t))] t"
  let ?u = "?t\<lparr>memory_detection_done := 1, g_BootParams := (g_BootParams ?t)\<lparr>RegionCount := g_MemRegionCount ?t, Regions := g_MemRegions ?t\<rparr>\<rparr>"
  have s': "s' = s2_printf ''Memory_Detect: Function completed, continuing boot...\<newline>'' [] ?u"
    using assms t by (simp add: Memory_Detect_def)
  have "quiet s ?s" by (rule quiet_trans [OF quiet_printf quiet_regions(2)])
  moreover have "quiet ?s t" by (rule detect_loop_quiet [OF t])
  moreover have "quiet t ?u" by (rule quiet_trans [OF quiet_printf quiet_regions(3)])
  moreover have "quiet ?u s'" unfolding s' by (rule quiet_printf)
  ultimately show ?thesis by (blast intro: quiet_trans)
qed

section \<open>From \<open>start\<close> to the kernel\<close>

lemma enter_kernel_ok:
  assumes "\<exists>i < 16. ldr_mem s (e + of_nat i) \<noteq> 0"
  shows "\<exists>s'. enter_kernel e s = Some (Enter e, s') \<and> vga.more s' = vga.more s"
proof -
  have keep: "vga.more (fold (\<lambda>i s. s2_printf ''0x%x '' [VI (ld32 (ldr_mem s) (e + 4 * of_nat i))] s) is t) = vga.more t" for "is" and t :: "'a loader_main_scheme"
    by (rule fold_frame [where f = vga.more]) (rule s2_printf_more)
  have m: "ldr_mem (fold (\<lambda>i s. s2_printf ''0x%x '' [VI (ld32 (ldr_mem s) (e + 4 * of_nat i))] s) is t) = ldr_mem t" for "is" and t :: "'a loader_main_scheme"
    by (rule fold_frame [where f = ldr_mem]) simp
  have n: "(\<forall>i \<in> {0..<16}. ldr_mem s (e + word_of_nat i) = 0) = False" using assms by auto
  show ?thesis by (simp add: enter_kernel_def Let_def keep m n)
qed

text \<open>What \<open>loader_start\<close> needs: the arrays of the image have their sizes and memory has not been looked at.\<close>

definition fresh :: "'a loader_main_scheme \<Rightarrow> bool" where
  "fresh s \<longleftrightarrow> fat_memory s \<and> memory_detection_done s = 0 \<and> length (g_MemRegions s) = MAX_REGIONS"

text \<open>The first bytes at the entry point, some of which a segment sets.\<close>

definition entry_seen :: "u8 list \<Rightarrow> bool" where
  "entry_seen xs \<longleftrightarrow> (\<exists>i < 16. \<exists>g \<in> set (elf_segments xs). loadable g \<and> (\<exists>k < unat (seg_msize g).
     seg_address g + of_nat k = le32 xs 24 + of_nat i \<and> seg_byte xs g k \<noteq> 0))"

lemma entry_seen_in: "segments_in m xs \<Longrightarrow> entry_seen xs \<Longrightarrow> \<exists>i < 16. m (le32 xs 24 + of_nat i) \<noteq> 0"
  by (auto simp: segments_in_def entry_seen_def) metis

text \<open>The boot parameters that the kernel gets.\<close>

definition boot_params_ok :: "bios \<Rightarrow> E820MemoryBlock \<Rightarrow> u8 \<Rightarrow> BootParams \<Rightarrow> bool" where
  "boot_params_ok B blk drive bp \<longleftrightarrow> BootDevice bp = drive \<and> RegionCount bp = int (length (e820_blocks MAX_REGIONS B blk 0)) \<and>
     take (length (e820_blocks MAX_REGIONS B blk 0)) (Regions bp) = map region_of (e820_blocks MAX_REGIONS B blk 0)"

lemma fresh_more: "vga.more t = vga.more s \<Longrightarrow> fresh t = fresh (s :: 'a loader_main_scheme)"
  by (cases s; cases t) (simp add: fresh_def fat_memory_def)

text \<open>The start up to the mounted volume, and from there to the memory map.\<close>

lemma before_kernel:
  assumes f: "fresh s" and k: "kernel_disk B part img name cs ys s"
  shows "\<exists>s1 s2 f n. FAT_Initialize B part s = Some (True, s1) \<and>
    Memory_Detect B blk (s2_printf ''Step 5: Detecting memory...\<newline>'' []
      ((s2_printf ''Step 4: Preparing boot params...\<newline>'' [] s1)\<lparr>g_BootParams :=
        (g_BootParams (s2_printf ''Step 4: Preparing boot params...\<newline>'' [] s1))\<lparr>BootDevice := d\<rparr>\<rparr>)) = Some s2 \<and>
    boot_params_ok B blk d (g_BootParams s2) \<and> disk_ready B part img f n (root_bytes part img) cs ys (replicate 10 False) 0 name s2"
proof -
  have "fat_memory s" using f by (simp add: fresh_def)
  from mounted_ready [OF this k] obtain s1 f n where s1: "FAT_Initialize B part s = Some (True, s1)" "fat_data.more s1 = fat_data.more s"
    "disk_ready B part img f n (root_bytes part img) cs ys (replicate 10 False) 0 name s1" by blast
  let ?t = "s2_printf ''Step 4: Preparing boot params...\<newline>'' [] s1"
  let ?u = "?t\<lparr>g_BootParams := (g_BootParams ?t)\<lparr>BootDevice := d\<rparr>\<rparr>"
  let ?v = "s2_printf ''Step 5: Detecting memory...\<newline>'' [] ?u"
  have v: "memory_detection_done ?v = 0" "length (g_MemRegions ?v) = MAX_REGIONS" "BootDevice (g_BootParams ?v) = d"
    using f s1(2) by (cases s; cases s1; simp add: fresh_def)+
  from Memory_Detect_ok [OF v(1,2), of B blk] obtain s2 where s2: "Memory_Detect B blk ?v = Some s2"
    "RegionCount (g_BootParams s2) = int (length (e820_blocks MAX_REGIONS B blk 0))"
    "take (length (e820_blocks MAX_REGIONS B blk 0)) (Regions (g_BootParams s2)) = map region_of (e820_blocks MAX_REGIONS B blk 0)" by blast
  note q = Memory_Detect_quiet [OF s2(1) v(1), unfolded quiet_def]
  have "same_fat s1 ?v"
  proof (rule same_fat_trans)
    show "same_fat s1 ?u" using same_fat_sym [OF printf_fat [of _ _ s1]] by (simp add: same_fat_def)
    show "same_fat ?u ?v" by (rule same_fat_sym [OF printf_fat])
  qed
  then have "same_fat s1 s2" using q by (blast intro: same_fat_trans)
  note r = s1(3) [unfolded disk_ready_same [OF this]]
  have "boot_params_ok B blk d (g_BootParams s2)" using s2(2,3) q v(3) by (simp add: boot_params_ok_def)
  then show ?thesis by (intro exI conjI) (rule s1(1) s2(1) r | assumption)+
qed

lemma loader_more_params:
  fixes s t :: "'a loader_main_scheme"
  shows "loader.more t = loader.more s \<Longrightarrow> g_BootParams t = g_BootParams s"
  by (cases s; cases t) simp

lemma loader_reaches_kernel:
  fixes s :: "'a loader_main_scheme"
  assumes f: "fresh s" and d: "DISK_Initialize B (ucast drive) = Some disk" and part: "part = MBR_DetectPartition disk (ldr_mem s) entry_ptr"
    and k: "kernel_disk B part img name cs ys s" and p: "47 # slashed cs = kernel_elf" and e: "entry_seen ys"
  shows "\<exists>s'. loader_start B name blk drive entry_ptr s = Some (Enter (le32 ys 24), s') \<and> segments_in (ldr_mem s') ys \<and>
    boot_params_ok B blk (ucast drive) (g_BootParams s')"
proof -
  define s0 where "s0 = s\<lparr>boot_count := boot_count s + 1\<rparr>"
  define a where "a = s2_printf ''=== BOOTLOADER START (execution #%d) ===\<newline>'' [VI (of_int (boot_count s0))] s0"
  define b where "b = (if boot_count a > 1 then s2_printf ''Press any key to continue or wait 5 seconds...\<newline>'' []
      (s2_printf ''WARNING: Bootloader restarted! Previous kernel execution failed.\<newline>'' [] a) else a)"
  define c where "c = s2_printf ''Step 2: Detecting partition...\<newline>'' [] (s2_printf ''Step 1: Initializing disk...\<newline>'' [] (s2_clrscr b))"
  let ?c = "s2_printf ''Step 3: Initializing FAT...\<newline>'' [] c"
  have bc: "vga.more b = vga.more s0" by (simp add: b_def a_def)
  then have cc: "vga.more c = vga.more s0" "vga.more ?c = vga.more s0"
    by (simp_all add: c_def clrscr_more_loader)
  have "fresh s0" using f by (simp add: s0_def fresh_def fat_memory_def)
  then have fc: "fresh ?c" using fresh_more [OF cc(2)] by simp
  have mc: "ldr_mem c = ldr_mem s" using cc(1) by (cases c; cases s) (simp add: s0_def)
  have kc: "kernel_disk B part img name cs ys ?c" using k kernel_disk_same [of B part img name cs ys s ?c] by simp
  from before_kernel [OF fc kc, of blk "ucast drive"] obtain s1 s2 g n where s1: "FAT_Initialize B part ?c = Some (True, s1)"
    "Memory_Detect B blk (s2_printf ''Step 5: Detecting memory...\<newline>'' []
      ((s2_printf ''Step 4: Preparing boot params...\<newline>'' [] s1)\<lparr>g_BootParams :=
        (g_BootParams (s2_printf ''Step 4: Preparing boot params...\<newline>'' [] s1))\<lparr>BootDevice := ucast drive\<rparr>\<rparr>)) = Some s2"
    "boot_params_ok B blk (ucast drive) (g_BootParams s2)" "disk_ready B part img g n (root_bytes part img) cs ys (replicate 10 False) 0 name s2"
    by blast
  let ?t = "s2_printf ''Step 6: Loading kernel ELF...\<newline>'' [] (s2_printf ''Memory detection completed.\<newline>'' [] s2)"
  have t: "same_fat s2 ?t" by (rule same_fat_sym [OF same_fat_trans [OF printf_fat printf_fat]])
  have y: "elf_file ys" using k by (simp add: kernel_disk_def)
  from kernel_segments [OF s1(4) [unfolded disk_ready_same [OF t]] y] obtain s3 where
    s3: "ELF_Read B part name kernel_elf ?t = Some (Some (le32 ys 24), s3)" "segments_in (ldr_mem s3) ys" unfolding p by blast
  have "g_BootParams s3 = g_BootParams ?t" using loader_more_params [OF ELF_Read_more [OF s3(1)]] .
  then have bp: "g_BootParams s3 = g_BootParams s2" by simp
  from enter_kernel_ok [OF entry_seen_in [OF s3(2) e]] obtain s4 where s4: "enter_kernel (le32 ys 24) s3 = Some (Enter (le32 ys 24), s4)"
    "vga.more s4 = vga.more s3" by blast
  have "ldr_mem s4 = ldr_mem s3" "g_BootParams s4 = g_BootParams s3" using s4(2) by (cases s3; cases s4; simp)+
  moreover have "loader_start B name blk drive entry_ptr s = Some (Enter (le32 ys 24), s4)"
    by (simp only: loader_start_def Let_def s0_def [symmetric] a_def [symmetric] b_def [symmetric] c_def [symmetric] d mc part [symmetric]
        s1(1,2) s3(1) s4(1) option.case Option.bind.simps prod.case not_True_eq_False if_False)
  ultimately show ?thesis using s3(2) s1(3) bp by simp
qed

end
