(* ===== verification/LoaderLive.thy ===== *)
theory LoaderLive
  imports LoaderMain LoaderBootOk
begin

text \<open>
  A disk for the boot loader: a FAT12 volume of 32 sectors with one directory \<open>BOOT\<close> that holds the file
  \<open>KERNEL.ELF\<close> of 600 bytes in two clusters.  The kernel is an ELF file with one segment of 516 bytes, for
  600 bytes of memory at 1 MiB.  The controller fails on every fourth request, and refuses all that name no
  sectors of the disk.
\<close>

section \<open>The disk\<close>

definition sector_with :: "u8 list \<Rightarrow> u8 list" where
  "sector_with xs = take 512 (xs @ replicate 512 0)"

lemma length_sector_with [simp]: "length (sector_with xs) = 512"
  by (simp add: sector_with_def)

definition floppy_boot :: "u8 list" where
  "floppy_boot = [0xEB, 0x3C, 0x90, 77, 73, 81, 79, 83, 79, 70, 84, 0, 2, 1, 1, 0, 1, 16, 0, 32, 0, 0xF8, 1, 0] @ replicate 488 0"

definition floppy_table :: "u8 list" where
  "floppy_table = [0xF8, 0xFF, 0xFF, 0xFF, 0x4F, 0, 0xFF, 0x0F] @ replicate 504 0"

definition floppy_root :: "u8 list" where
  "floppy_root = bytes ''BOOT       '' @ [0x10] @ replicate 14 0 @ [2, 0, 0, 0, 0, 0] @ replicate 480 0"

definition floppy_dir :: "u8 list" where
  "floppy_dir = bytes ''KERNEL  ELF'' @ [0x20] @ replicate 14 0 @ [3, 0, 0x58, 2, 0, 0] @ replicate 480 0"

text \<open>The header of the ELF file and its one program header.\<close>

definition floppy_head :: "u8 list" where
  "floppy_head = [0x7F, 69, 76, 70, 1, 1, 1, 0] @ replicate 8 0 @ [2, 0, 3, 0, 1, 0, 0, 0, 0, 0, 0x10, 0, 52, 0, 0, 0] @
     replicate 8 0 @ [52, 0, 32, 0, 1, 0, 0, 0, 0, 0, 0, 0] @
     [1, 0, 0, 0, 84, 0, 0, 0, 0, 0, 0x10, 0, 0, 0, 0x10, 0, 4, 2, 0, 0, 0x58, 2, 0, 0, 5, 0, 0, 0, 4, 0, 0, 0]"

definition floppy_file :: "u8 list" where
  "floppy_file = floppy_head @ replicate 428 0x90 @ replicate 88 0xC3"

definition floppy_image :: "nat \<Rightarrow> u8 list" where
  "floppy_image l = (if l = 0 then floppy_boot else if l = 1 then floppy_table else if l = 2 then floppy_root else if l = 3 then floppy_dir
     else if l = 4 then floppy_head @ replicate 428 0x90 else if l = 5 then replicate 88 0xC3 @ replicate 424 0 else replicate 512 0)"

definition floppy_disk :: DISK where
  "floppy_disk = \<lparr>disk_id = 0, disk_cylinders = 80, disk_sectors = 18, disk_heads = 2\<rparr>"

definition floppy_part :: Partition where
  "floppy_part = \<lparr>part_disk = floppy_disk, partitionOffset = 0, partitionSize = 2880\<rparr>"

definition floppy_bios :: bios where
  "floppy_bios = \<lparr>int13_params = (\<lambda>dl. Some (4, 79, 18, 1)),
     int13_read = (\<lambda>n dl ch cl dh al. if n mod 4 = 0 \<or> \<not> request_ok floppy_disk ch cl dh al then (False, []) else (True, sectors_of floppy_image (chs_sector floppy_disk ch cl dh) (unat al))),
     int15_e820 = (\<lambda>c. if c = 0 then Some (\<lparr>e820_Base = 0, e820_Length = 0x9FC00, e820_Type = 1, e820_ACPI = 1\<rparr>, 20, 1)
                       else Some (\<lparr>e820_Base = 0x100000, e820_Length = 0x7F00000, e820_Type = 1, e820_ACPI = 1\<rparr>, 20, 0))\<rparr>"

lemma floppy_lengths: "length floppy_boot = 512" "length floppy_table = 512" "length floppy_root = 512" "length floppy_dir = 512"
    "length floppy_head = 84"
  by (simp_all add: floppy_boot_def floppy_table_def floppy_root_def floppy_dir_def floppy_head_def bytes_def)

lemma length_live_image: "length (floppy_image l) = 512"
  by (simp add: floppy_image_def floppy_lengths)

lemma floppy_chs: "chs_ok floppy_disk" and floppy_limit: "chs_limit floppy_disk = 2880"
  by (simp_all add: chs_ok_def chs_limit_def floppy_disk_def)

lemma floppy_part_ok: "part_ok floppy_bios floppy_part floppy_image"
proof -
  have len: "length (sectors_of floppy_image l n) = 512 * n" for l n
    by (induction n) (simp_all add: sectors_of_def length_live_image)
  have "\<exists>k < 3. (n + 2 * k) mod 4 \<noteq> 0" for n :: nat
  proof -
    have "n mod 4 \<noteq> 0 \<or> (n + 2) mod 4 \<noteq> 0" by presburger
    then show ?thesis
    proof
      assume "n mod 4 \<noteq> 0"
      then show ?thesis by (intro exI [of _ 0]) simp
    next
      assume "(n + 2) mod 4 \<noteq> 0"
      then show ?thesis by (intro exI [of _ 1]) simp
    qed
  qed
  then show ?thesis
    by (auto simp: part_ok_def serves_def floppy_part_def floppy_bios_def len length_live_image floppy_chs split: if_splits)
qed

lemma floppy_in_part: "in_part floppy_part l \<longleftrightarrow> l < 2880"
  by (simp add: in_part_def floppy_part_def floppy_limit)

lemma floppy_sector: "part_image floppy_part floppy_image l = floppy_image l"
  by (simp add: part_image_def floppy_part_def)

section \<open>The volume\<close>

lemma floppy_fields: "le16 floppy_boot 11 = 512" "le16 floppy_boot 14 = 1" "le16 floppy_boot 17 = 16" "le16 floppy_boot 19 = 32" "le16 floppy_boot 22 = 1"
  "floppy_boot ! 13 = 1" "floppy_boot ! 16 = 1"
  by (simp_all add: floppy_boot_def le16_def)

lemma floppy_root_place: "root_first floppy_boot = 2" "root_count floppy_boot = 1" "fat_kind floppy_boot = 12"
  by (simp_all add: root_first_def root_count_def fat_kind_def floppy_fields)

lemma floppy_image_0: "floppy_image 0 = floppy_boot"
  by (simp add: floppy_image_def)

lemma floppy_volume: "fat_volume floppy_part floppy_image"
  by (simp add: fat_volume_def floppy_sector floppy_image_0 floppy_fields floppy_root_place floppy_in_part)

lemma floppy_root_bytes: "root_bytes floppy_part floppy_image = floppy_root"
proof -
  have "floppy_image (Suc (Suc 0)) = floppy_root" by (simp add: floppy_image_def)
  then show ?thesis by (simp add: root_bytes_def floppy_sector floppy_image_0 floppy_root_place floppy_fields floppy_lengths)
qed

text \<open>The loader before it starts, with its memory cleared.\<close>

definition empty_file :: FAT_FileData where
  "empty_file = \<lparr>ff_Buffer = replicate 512 0, ff_Handle = 0, ff_IsDirectory = False, ff_Position = 0, ff_Size = 0,
     ff_Opened = False, ff_FirstCluster = 0, ff_CurrentCluster = 0, ff_CurrentSectorInCluster = 0\<rparr>"

definition floppy_loader :: loader_main where
  "floppy_loader = \<lparr>vram = (\<lambda>_. 0), g_ScreenX = 0, g_ScreenY = 0, ports = [], bios_calls = 0,
     BootSectorBytes = replicate 512 0, RootDirectory = empty_file, OpenedFiles = replicate 10 empty_file,
     FatCache = replicate 2560 0, FatCachePosition = 0, LFNCount = 0, g_DataSectionLba = 0, g_FatType = 0,
     g_TotalSectors = 0, g_SectorsPerFat = 0, ldr_mem = (\<lambda>_. 0),
     g_MemRegions = replicate 256 (region_of \<lparr>e820_Base = 0, e820_Length = 0, e820_Type = 0, e820_ACPI = 0\<rparr>),
     g_MemRegionCount = 0, memory_detection_done = 0,
     g_BootParams = \<lparr>RegionCount = 0, Regions = [], BootDevice = 0\<rparr>, boot_count = 0\<rparr>"

lemma floppy_memory: "fat_memory floppy_loader"
  by (simp add: fat_memory_def floppy_loader_def empty_file_def)

text \<open>What the stack holds where \<open>Memory_Detect\<close> has its block.\<close>

definition stack_block :: E820MemoryBlock where
  "stack_block = \<lparr>e820_Base = 0, e820_Length = 0, e820_Type = 0, e820_ACPI = 7\<rparr>"

definition floppy_vol :: loader_main where
  "floppy_vol = volume_of floppy_part floppy_image floppy_loader"

lemma floppy_vol_fields: "cluster_size floppy_vol = 1" "table_lba floppy_vol = 1" "g_FatType floppy_vol = 12" "g_DataSectionLba floppy_vol = 3"
  by (simp_all add: floppy_vol_def volume_of_def Let_def floppy_sector floppy_image_0 floppy_root_place cluster_size_def
      bs_SectorsPerCluster_def table_lba_def bs_ReservedSectors_def floppy_fields)

lemma floppy_table_entries:
  "table_entry floppy_part floppy_image floppy_vol 2 = 0xFFFFFFFF" "table_entry floppy_part floppy_image floppy_vol 3 = 4"
  "table_entry floppy_part floppy_image floppy_vol 4 = 0xFFFFFFFF"
  by (simp_all add: table_entry_def table16_def table_byte_def table_index_def floppy_vol_fields floppy_sector floppy_image_def floppy_table_def)

lemma floppy_cluster: "c = 2 \<or> c = 3 \<or> c = 4 \<Longrightarrow> cluster_ok floppy_part floppy_vol c"
  by (auto simp: cluster_ok_def entry_ok_def cluster_lba_def floppy_vol_fields floppy_in_part table_index_def)

lemma floppy_chains: "chain_ok floppy_part floppy_image floppy_vol [2]" "chain_ok floppy_part floppy_image floppy_vol [3, 4]"
  by (auto simp: chain_ok_def floppy_cluster floppy_table_entries less_Suc_eq)

lemma floppy_chain_bytes:
  "chain_bytes floppy_part floppy_image floppy_vol [2] = floppy_dir"
  "chain_bytes floppy_part floppy_image floppy_vol [3, 4] = floppy_file @ replicate 424 0"
  by (simp_all add: chain_bytes_def chain_sector_def cluster_lba_def floppy_vol_fields floppy_sector floppy_image_def upt_rec floppy_file_def)

definition floppy_path :: "u8 list list" where
  "floppy_path = [bytes ''boot'', bytes ''kernel.elf'']"

lemma replicate_small: "replicate 2 x = [x, x]" "replicate 3 x = [x, x, x]" "replicate 4 x = [x, x, x, x]"
  by (simp_all add: numeral_eq_Suc)

lemma floppy_names: "short_name (bytes ''boot'') = bytes ''BOOT       '' @ [0]" "short_name (bytes ''kernel.elf'') = bytes ''KERNEL  ELF'' @ [0]"
  by (simp_all add: short_name_def bytes_def Let_def padded_def s2_toupper_def s2_islower_def replicate_small)

lemma floppy_entries:
  "fat_find (short_name (bytes ''boot'')) floppy_root = Some (dir_entry (take 32 floppy_root))"
  "fat_find (short_name (bytes ''kernel.elf'')) floppy_dir = Some (dir_entry (take 32 floppy_dir))"
  by (subst fat_find.simps, simp add: floppy_names floppy_lengths, simp add: floppy_root_def floppy_dir_def bytes_def)+

lemma floppy_entry_fields:
  "entry_cluster (dir_entry (take 32 floppy_root)) = 2" "entry_is_dir (dir_entry (take 32 floppy_root))" "de_Size (dir_entry (take 32 floppy_root)) = 0"
  "entry_cluster (dir_entry (take 32 floppy_dir)) = 3" "de_Size (dir_entry (take 32 floppy_dir)) = 600"
  by (simp_all add: dir_entry_def entry_cluster_def entry_is_dir_def FAT_ATTRIBUTE_DIRECTORY_def floppy_root_def floppy_dir_def bytes_def
      le16_def le32_def nth_append)

lemma floppy_kernel_entry: "entry_file floppy_part floppy_image floppy_vol (dir_entry (take 32 floppy_dir)) [3, 4] floppy_file"
  by (simp add: entry_file_def floppy_chains floppy_entry_fields floppy_vol_fields floppy_chain_bytes) (simp add: floppy_file_def floppy_lengths)

lemma floppy_fat_path: "fat_path floppy_part floppy_image floppy_vol (root_bytes floppy_part floppy_image) floppy_path floppy_file"
proof -
  have d: "entry_file floppy_part floppy_image floppy_vol (dir_entry (take 32 floppy_root)) [2] floppy_dir"
    by (simp add: entry_file_def floppy_chains floppy_entry_fields floppy_vol_fields floppy_chain_bytes)
  show ?thesis unfolding floppy_path_def floppy_root_bytes
    by (rule fat_path.below [OF floppy_entries(1) d fat_path.here [OF floppy_entries(2) floppy_kernel_entry]])
qed

lemma floppy_components: "components_ok 256 floppy_path"
  by (simp add: components_ok_def floppy_path_def bytes_def closed_name_def)

lemma floppy_path_text: "47 # slashed floppy_path = kernel_elf"
  by (simp add: floppy_path_def kernel_elf_def bytes_def)

section \<open>Hypotheses of single steps\<close>

lemma floppy_serves: "serves floppy_bios floppy_disk floppy_image"
  using floppy_part_ok by (simp add: part_ok_def floppy_part_def)

lemma floppy_cold_cache: "cache_ok floppy_part floppy_image (floppy_vol\<lparr>FatCachePosition := 0xFFFFFFFF\<rparr>)"
  by (simp add: cache_ok_def floppy_vol_def volume_of_def Let_def floppy_loader_def)

lemma floppy_cold_volume: "same_volume floppy_vol (floppy_vol\<lparr>FatCachePosition := 0xFFFFFFFF\<rparr>)"
  by (simp add: same_volume_def)

lemma floppy_cold_entry: "entry_ok floppy_part (floppy_vol\<lparr>FatCachePosition := 0xFFFFFFFF\<rparr>) 3"
  using volume_table(2) [OF floppy_cold_volume] floppy_cluster [of 3] by (simp add: cluster_ok_def)

lemma floppy_cold_value: "table_entry floppy_part floppy_image (floppy_vol\<lparr>FatCachePosition := 0xFFFFFFFF\<rparr>) 3 = 4"
  using volume_table(1) [OF floppy_cold_volume] floppy_table_entries(2) by simp

lemma floppy_undetected: "memory_detection_done floppy_loader = 0" "length (g_MemRegions floppy_loader) = MAX_REGIONS"
  by (simp_all add: floppy_loader_def MAX_REGIONS_def)

lemma floppy_blocks: "length (e820_blocks MAX_REGIONS floppy_bios b 0) = 2"
proof -
  have "length (e820_blocks (Suc (Suc n)) floppy_bios b 0) = 2" for n
    by (simp add: x86_E820GetNextBlock_def floppy_bios_def word_sless_alt)
  from this [of 254] show ?thesis by (simp add: MAX_REGIONS_def)
qed

section \<open>The kernel\<close>

lemma floppy_elf_fields: "le32 floppy_file 24 = 0x100000" "le32 floppy_file 28 = 52" "le16 floppy_file 42 = 32" "le16 floppy_file 44 = 1"
  by (simp_all add: floppy_file_def floppy_head_def le16_def le32_def nth_append)

definition floppy_segment :: segment where
  "floppy_segment = \<lparr>seg_type = 1, seg_offset = 84, seg_address = 0x100000, seg_fsize = 516, seg_msize = 600\<rparr>"

lemma floppy_segments: "elf_segments floppy_file = [floppy_segment]"
proof -
  have "segment_at floppy_file 52 = floppy_segment"
    by (simp add: segment_at_def floppy_segment_def floppy_file_def floppy_head_def le16_def le32_def nth_append)
  then show ?thesis by (simp add: elf_segments_def floppy_elf_fields)
qed

lemma floppy_loadable: "loadable floppy_segment"
  by (simp add: loadable_def floppy_segment_def ELF_PROGRAM_TYPE_LOAD_def)

lemma floppy_elf: "elf_file floppy_file"
proof -
  have "region 0x100000 600 \<inter> loader_area = {}"
  proof (rule Int_emptyI)
    fix b assume "b \<in> region 0x100000 600" "b \<in> loader_area"
    then obtain i j where ij: "i < 600" "j < 0x20000" "b = 0x100000 + of_nat i" "b = MEMORY_ELF_ADDR + of_nat j"
      by (auto simp: region_def loader_area_def)
    then have "(of_nat (0x100000 + i) :: u32) = of_nat (unat MEMORY_ELF_ADDR + j)" by simp
    moreover have "0x100000 + i < 2 ^ 32" "unat MEMORY_ELF_ADDR + j < 2 ^ 32" "unat MEMORY_ELF_ADDR + j < 0x100000"
      using ij(1,2) by (simp_all add: MEMORY_ELF_ADDR_def)
    ultimately show False by (simp only: of_nat_u32_eq_iff)
  qed
  then have "segment_ok floppy_file floppy_segment"
    using floppy_loadable by (simp add: segment_ok_def target_def) (simp add: floppy_segment_def floppy_file_def floppy_lengths)
  then show ?thesis by (simp add: elf_file_def floppy_elf_fields floppy_segments) (simp add: floppy_file_def floppy_lengths)
qed

lemma floppy_seg_byte: "seg_byte floppy_file floppy_segment k = (if k < 428 then 0x90 else if k < 516 then 0xC3 else 0)"
  by (simp add: seg_byte_def floppy_segment_def floppy_file_def nth_append floppy_lengths)

lemma floppy_entry_seen: "entry_seen floppy_file"
  unfolding entry_seen_def by (rule exI [of _ 0]) (simp add: floppy_segments floppy_loadable floppy_elf_fields,
    intro exI [of _ 0], simp add: floppy_seg_byte, simp add: floppy_segment_def)

lemma floppy_index: "fat_index (short_name (hd floppy_path)) floppy_root = 0"
  by (subst fat_index.simps) (simp add: floppy_path_def floppy_names floppy_lengths, simp add: floppy_root_def bytes_def)

lemma floppy_kernel_disk: "kernel_disk floppy_bios floppy_part floppy_image (replicate 256 0xCC) floppy_path floppy_file floppy_loader"
  using floppy_part_ok floppy_volume floppy_fat_path floppy_components floppy_index floppy_elf
  by (simp add: kernel_disk_def floppy_vol_def floppy_root_bytes)

lemma floppy_fresh: "fresh floppy_loader"
  by (simp add: fresh_def floppy_memory floppy_undetected)

lemma floppy_start: "DISK_Initialize floppy_bios (ucast (0 :: u16)) = Some floppy_disk" "floppy_part = MBR_DetectPartition floppy_disk m e"
  by (simp_all add: DISK_Initialize_def x86_Disk_GetDriveParams_def floppy_bios_def floppy_disk_def MBR_DetectPartition_def floppy_part_def)

lemma floppy_in_memory:
  assumes "segments_in m floppy_file" "k < 600"
  shows "m (0x100000 + of_nat k) = (if k < 428 then 0x90 else if k < 516 then 0xC3 else 0)"
proof -
  have "seg_address floppy_segment = 0x100000" "unat (seg_msize floppy_segment) = 600" by (simp_all add: floppy_segment_def)
  then show ?thesis using assms by (simp add: segments_in_def floppy_segments floppy_loadable floppy_seg_byte)
qed

end
