(* ===== verification/HostLive.thy ===== *)
theory HostLive
  imports HostFatOk LoaderLive
begin

text \<open>The disk of \<open>LoaderLive\<close> as an image file of 32 sectors, for the host tool.\<close>

lemma sector_of_concat:
  assumes "\<And>l. length (f l) = k" "l < n"
  shows "take k (drop (k * l) (concat (map f [0..<n]))) = f l"
proof -
  have len: "length (concat (map f [0..<m])) = k * m" for m by (induction m) (simp_all add: assms(1))
  have "[0..<n] = [0..<l] @ l # [Suc l..<n]"
    using assms(2) by (metis less_imp_add_positive upt_add_eq_append upt_conv_Cons zero_le less_imp_le_nat le_add_diff_inverse)
  then have "concat (map f [0..<n]) = concat (map f [0..<l]) @ f l @ concat (map f [Suc l..<n])" by simp
  then show ?thesis using len [of l] assms(1) by simp
qed

definition floppy_bytes :: "u8 list" where
  "floppy_bytes = concat (map floppy_image [0..<32])"

lemma length_floppy_bytes: "length floppy_bytes = 16384"
proof -
  have "length (concat (map floppy_image [0..<m])) = 512 * m" for m by (induction m) (simp_all add: length_live_image)
  then show ?thesis by (simp add: floppy_bytes_def)
qed

definition host_malloc :: "nat \<Rightarrow> u8 list option" where
  "host_malloc n = Some (replicate n 0)"

definition floppy_tool :: fat_tool where
  "floppy_tool = \<lparr>image_file = floppy_bytes, tool_boot = replicate 512 0, tool_root = empty_file, tool_files = replicate 10 empty_file,
     g_Fat = None, tool_data_lba = 0, host_out = []\<rparr>"

lemma floppy_holds: "image_holds (image_file floppy_tool) floppy_part floppy_image 32"
  using sector_of_concat [of floppy_image 512 _ 32] length_floppy_bytes
  by (simp add: image_holds_def floppy_tool_def floppy_sector length_live_image floppy_bytes_def)

lemma floppy_tool_image: "tool_image host_malloc floppy_part floppy_image 32"
  by (simp add: tool_image_def Let_def floppy_sector floppy_image_0 floppy_fields floppy_root_place host_malloc_def)

lemma floppy_tool_memory: "tool_memory floppy_tool"
  by (simp add: tool_memory_def floppy_tool_def empty_file_def)

lemma floppy_tool_chain: "tool_chain floppy_part floppy_image floppy_vol 32 1 [3, 4]"
  by (simp add: tool_chain_def floppy_chains cluster_lba_def floppy_vol_fields)

lemma floppy_not_dir: "\<not> entry_is_dir (dir_entry (take 32 floppy_dir))"
  by (simp add: dir_entry_def entry_is_dir_def FAT_ATTRIBUTE_DIRECTORY_def floppy_dir_def bytes_def nth_append)

end
