(* ===== verification/CoreText.thy ===== *)
theory CoreText
  imports LoaderIo
begin

text \<open>
  The C++ console library \<open>src/src/libs/core\<close>: the formatter \<open>dev/TextDevice.cpp\<close> over a character device,
  and the two devices \<open>arch/i686/VGATextDevice.cpp\<close> and \<open>E9Device.cpp\<close>.  A device is its \<open>Write\<close>, a function
  from bytes and state to the number of bytes written and the next state.  The object's \<open>m_ScreenX\<close> and
  \<open>m_ScreenY\<close> are the cursor fields of \<open>vga\<close>.
\<close>

type_synonym 's device = "u8 list \<Rightarrow> 's \<Rightarrow> nat \<times> 's"

section \<open>The screen device\<close>

definition core_Out :: "u16 \<Rightarrow> u8 \<Rightarrow> 'a vga_scheme \<Rightarrow> 'a vga_scheme" where
  "core_Out port val s = s\<lparr>ports := ports s @ [(port, val)]\<rparr>"

definition core_PutChar_at :: "s32 \<Rightarrow> s32 \<Rightarrow> u8 \<Rightarrow> 'a vga_scheme \<Rightarrow> 'a vga_scheme" where
  "core_PutChar_at x y c s = s\<lparr>vram := (vram s)(2 * (y * SCREEN_WIDTH + x) := c)\<rparr>"

definition core_PutColor :: "s32 \<Rightarrow> s32 \<Rightarrow> u8 \<Rightarrow> 'a vga_scheme \<Rightarrow> 'a vga_scheme" where
  "core_PutColor x y color s = s\<lparr>vram := (vram s)(2 * (y * SCREEN_WIDTH + x) + 1 := color)\<rparr>"

definition core_GetChar :: "s32 \<Rightarrow> s32 \<Rightarrow> 'a vga_scheme \<Rightarrow> u8" where
  "core_GetChar x y s = vram s (2 * (y * SCREEN_WIDTH + x))"

definition core_GetColor :: "s32 \<Rightarrow> s32 \<Rightarrow> 'a vga_scheme \<Rightarrow> u8" where
  "core_GetColor x y s = vram s (2 * (y * SCREEN_WIDTH + x) + 1)"

definition core_SetCursor :: "s32 \<Rightarrow> s32 \<Rightarrow> 'a vga_scheme \<Rightarrow> 'a vga_scheme" where
  "core_SetCursor x y s =
     (let pos = y * SCREEN_WIDTH + x
      in core_Out 0x3D5 (ucast (signed_drop_bit 8 pos AND 0xFF)) (core_Out 0x3D4 0x0E
           (core_Out 0x3D5 (ucast (pos AND 0xFF)) (core_Out 0x3D4 0x0F s))))"

text \<open>The inner loops of \<open>Clear\<close> and \<open>Scrollback\<close>.\<close>

definition core_blank_row :: "u32 \<Rightarrow> 'a vga_scheme \<Rightarrow> 'a vga_scheme" where
  "core_blank_row y = fold (\<lambda>x s. core_PutColor (of_nat x) y DEFAULT_COLOR (core_PutChar_at (of_nat x) y 0 s)) [0..<unat SCREEN_WIDTH]"

definition core_copy_row :: "u32 \<Rightarrow> u32 \<Rightarrow> 'a vga_scheme \<Rightarrow> 'a vga_scheme" where
  "core_copy_row lines y = fold (\<lambda>x s.
       let s1 = core_PutChar_at (of_nat x) (y - lines) (core_GetChar (of_nat x) y s) s
       in core_PutColor (of_nat x) (y - lines) (core_GetColor (of_nat x) y s1) s1) [0..<unat SCREEN_WIDTH]"

definition core_Clear :: "'a vga_scheme \<Rightarrow> 'a vga_scheme" where
  "core_Clear s =
     (let s1 = (fold (\<lambda>y. core_blank_row (of_nat y)) [0..<unat SCREEN_HEIGHT] s)\<lparr>g_ScreenX := 0, g_ScreenY := 0\<rparr>
      in core_SetCursor (g_ScreenX s1) (g_ScreenY s1) s1)"

definition core_Scrollback :: "s32 \<Rightarrow> 'a vga_scheme \<Rightarrow> 'a vga_scheme" where
  "core_Scrollback lines s =
     (let s1 = fold (\<lambda>y. core_copy_row lines (of_nat y)) [unat lines..<unat SCREEN_HEIGHT] s;
          s2 = fold (\<lambda>y. core_blank_row (of_nat y)) [unat (SCREEN_HEIGHT - lines)..<unat SCREEN_HEIGHT] s1
      in s2\<lparr>g_ScreenY := g_ScreenY s2 - lines\<rparr>)"

text \<open>The end of \<open>PutChar\<close>, its default branch and the loop of its tab branch, which calls \<open>PutChar(' ')\<close>.\<close>

definition core_finish :: "'a vga_scheme \<Rightarrow> 'a vga_scheme" where
  "core_finish s =
     (let s1 = (if g_ScreenX s \<ge> SCREEN_WIDTH then s\<lparr>g_ScreenY := g_ScreenY s + 1, g_ScreenX := 0\<rparr> else s);
          s2 = (if g_ScreenY s1 \<ge> SCREEN_HEIGHT then core_Scrollback 1 s1 else s1)
      in core_SetCursor (g_ScreenX s2) (g_ScreenY s2) s2)"

definition core_default :: "u8 \<Rightarrow> 'a vga_scheme \<Rightarrow> 'a vga_scheme" where
  "core_default c s =
     (let s1 = core_PutChar_at (g_ScreenX s) (g_ScreenY s) c s in core_finish (s1\<lparr>g_ScreenX := g_ScreenX s1 + 1\<rparr>))"

function core_tab :: "nat \<Rightarrow> 'a vga_scheme \<Rightarrow> 'a vga_scheme" where
  "core_tab i s =
     (if i < 8 \<and> int i < 4 - (sint (g_ScreenX s) smod 4) then core_tab (Suc i) (core_default 32 s) else s)"
  by pat_completeness auto
termination
  by (relation "measure (\<lambda>(i, s). 8 - i)") auto

declare core_tab.simps [simp del]

definition core_PutChar :: "u8 \<Rightarrow> 'a vga_scheme \<Rightarrow> 'a vga_scheme" where
  "core_PutChar c s =
     (if c = 10 then core_finish (s\<lparr>g_ScreenX := 0, g_ScreenY := g_ScreenY s + 1\<rparr>)
      else if c = 9 then core_finish (core_tab 0 s)
      else if c = 13 then core_finish (s\<lparr>g_ScreenX := 0\<rparr>)
      else core_default c s)"

definition VGATextDevice_Write :: "'a vga_scheme device" where
  "VGATextDevice_Write data s = (length data, fold core_PutChar data s)"

definition VGATextDevice_Read :: "u8 list \<Rightarrow> 'a vga_scheme \<Rightarrow> nat \<times> 'a vga_scheme" where
  "VGATextDevice_Read data s = (0, s)"

text \<open>The constructor.\<close>

definition VGATextDevice :: "'a vga_scheme \<Rightarrow> 'a vga_scheme" where
  "VGATextDevice s = core_Clear (s\<lparr>g_ScreenX := 0, g_ScreenY := 0\<rparr>)"

definition E9Device_Write :: "'a vga_scheme device" where
  "E9Device_Write data s = (length data, fold (core_Out 0xE9) data s)"

definition E9Device_Read :: "u8 list \<Rightarrow> 'a vga_scheme \<Rightarrow> nat \<times> 'a vga_scheme" where
  "E9Device_Read data s = (0, s)"

section \<open>The formatter\<close>

datatype FormatState = FS_Normal | FS_Length | FS_LengthShort | FS_LengthLong | FS_Spec
datatype FormatLength = FL_Default | FL_ShortShort | FL_Short | FL_Long | FL_LongLong

text \<open>
  A step \<open>ok = ok && Write(...)\<close> maps the pair of \<open>ok\<close> and the state.
\<close>

definition Write_char :: "'s device \<Rightarrow> u8 \<Rightarrow> bool \<times> 's \<Rightarrow> bool \<times> 's" where
  "Write_char dev c t = (if fst t then (case dev [c] (snd t) of (n, s) \<Rightarrow> (n = 1, s)) else t)"

definition Write_str :: "'s device \<Rightarrow> u8 list \<Rightarrow> bool \<times> 's \<Rightarrow> bool \<times> 's" where
  "Write_str dev str t = fold (Write_char dev) str t"

text \<open>
  The loop of \<open>Write(number, radix)\<close>, which divides \<open>number\<close> itself: the remainder of a negative number
  is negative and, made unsigned, lies outside \<open>g_HexChars\<close>.
\<close>

function number_digits :: "int \<Rightarrow> int \<Rightarrow> u8 list option" where
  "number_digits number radix =
     (if radix < 2 \<or> number smod radix < 0 then None
      else map_option ((#) (g_HexChars ! nat (number smod radix)))
        (if number sdiv radix > 0 then number_digits (number sdiv radix) radix else Some []))"
  by pat_completeness auto
termination
proof (relation "measure (\<lambda>(n, r). nat n)")
  fix number radix :: int
  assume a: "\<not> (radix < 2 \<or> number smod radix < 0)" "0 < number sdiv radix"
  then have r: "2 \<le> radix" by simp
  have n: "0 < number"
  proof (rule ccontr)
    assume "\<not> ?thesis"
    moreover have "0 \<le> - number div radix" if "number < 0" using that r by (simp add: pos_imp_zdiv_nonneg_iff)
    ultimately show False using a(2) r by (auto simp: signed_divide_int_def sgn_if split: if_splits)
  qed
  then have "number sdiv radix = number div radix" using r by (simp add: signed_divide_int_def)
  moreover have "number div radix < number" using n r by (intro int_div_less_self) auto
  ultimately show "((number sdiv radix, radix), number, radix) \<in> measure (\<lambda>(n, r). nat n)" using n by simp
qed simp

declare number_digits.simps [simp del]

definition Write_number :: "'s device \<Rightarrow> int \<Rightarrow> int \<Rightarrow> bool \<times> 's \<Rightarrow> (bool \<times> 's) option" where
  "Write_number dev number radix t =
     (if \<not> fst t then Some t
      else do {
        let t = (if number < 0 then Write_char dev 45 t else t);
        ds \<leftarrow> number_digits number radix;
        Some (fold (Write_char dev) (rev ds) t) })"

text \<open>The code at \<open>FormatState_Spec\<close>; an argument is only taken while \<open>ok\<close> holds.\<close>

definition format_arg :: "'s device \<Rightarrow> bool \<Rightarrow> FormatLength \<Rightarrow> int \<Rightarrow> va list \<Rightarrow> bool \<times> 's \<Rightarrow> (va list \<times> bool \<times> 's) option" where
  "format_arg dev sign len radix args t =
     (if len = FL_LongLong
      then (case va_ll args of (w, r) \<Rightarrow> map_option (Pair r) (Write_number dev (if sign then sint w else uint w) radix t))
      else (case va_word args of (w, r) \<Rightarrow> map_option (Pair r) (Write_number dev (if sign then sint w else uint w) radix t)))"

definition format_spec :: "'s device \<Rightarrow> u8 \<Rightarrow> FormatLength \<Rightarrow> va list \<Rightarrow> bool \<times> 's \<Rightarrow> (va list \<times> bool \<times> 's) option" where
  "format_spec dev c len args t =
     (if \<not> fst t then Some (args, t)
      else if c = 99 then (case va_word args of (w, r) \<Rightarrow> Some (r, Write_char dev (ucast w) t))
      else if c = 115 then (case va_str args of (str, r) \<Rightarrow> Some (r, Write_str dev str t))
      else if c = 37 then Some (args, Write_char dev 37 t)
      else if c = 100 \<or> c = 105 then format_arg dev True len 10 args t
      else if c = 117 then format_arg dev False len 10 args t
      else if c = 88 \<or> c = 120 \<or> c = 112 then format_arg dev False len 16 args t
      else if c = 111 then format_arg dev False len 8 args t
      else Some (args, t))"

fun VFormat :: "'s device \<Rightarrow> FormatState \<Rightarrow> FormatLength \<Rightarrow> u8 list \<Rightarrow> va list \<Rightarrow> bool \<times> 's \<Rightarrow> (bool \<times> 's) option" where
  "VFormat dev st len [] args t = Some t"
| "VFormat dev st len (c # fmt) args t =
     (let spec = (case format_spec dev c len args t of
                    None \<Rightarrow> None
                  | Some p \<Rightarrow> VFormat dev FS_Normal FL_Default fmt (fst p) (snd p))
      in case st of
           FS_Normal \<Rightarrow>
             if c = 37 then VFormat dev FS_Length len fmt args t
             else VFormat dev FS_Normal len fmt args (Write_char dev c t)
         | FS_Length \<Rightarrow>
             if c = 104 then VFormat dev FS_LengthShort FL_Short fmt args t
             else if c = 108 then VFormat dev FS_LengthLong FL_Long fmt args t
             else spec
         | FS_LengthShort \<Rightarrow> if c = 104 then VFormat dev FS_Spec FL_ShortShort fmt args t else spec
         | FS_LengthLong \<Rightarrow> if c = 108 then VFormat dev FS_Spec FL_LongLong fmt args t else spec
         | FS_Spec \<Rightarrow> spec)"

definition Format :: "'s device \<Rightarrow> string \<Rightarrow> va list \<Rightarrow> 's \<Rightarrow> (bool \<times> 's) option" where
  "Format dev fmt args s = VFormat dev FS_Normal FL_Default (bytes fmt) args (True, s)"

text \<open>\<open>i\<close> has 16 bits, so a buffer of 64 KiB or more is written for ever.\<close>

definition FormatBuffer :: "'s device \<Rightarrow> u8 list \<Rightarrow> u8 list \<Rightarrow> 's \<Rightarrow> (bool \<times> 's) option" where
  "FormatBuffer dev msg buffer s =
     (if length buffer \<ge> 2 ^ 16 then None
      else Some (Write_str dev [10] (fold (\<lambda>b t. Write_char dev (g_HexChars ! unat (b AND 0xF))
          (Write_char dev (g_HexChars ! unat (drop_bit 4 b)) t)) buffer (Write_str dev msg (True, s)))))"

section \<open>The screen as the kernel's\<close>

lemma core_cells: "core_PutChar_at = VGA_putchr" "core_PutColor = VGA_putcolor" "core_GetChar = VGA_getchr" "core_GetColor = VGA_getcolor"
  "core_Out = i686_outb" "core_SetCursor = VGA_setcursor"
  by (simp_all add: fun_eq_iff core_PutChar_at_def VGA_putchr_def core_PutColor_def VGA_putcolor_def core_GetChar_def VGA_getchr_def
      core_GetColor_def VGA_getcolor_def core_Out_def i686_outb_def core_SetCursor_def VGA_setcursor_def Let_def)

lemma core_screen: "core_Clear = VGA_clrscr" "core_PutChar = VGA_putc"
proof -
  have r: "core_blank_row = blank_row" "core_copy_row = copy_row"
    by (simp_all add: fun_eq_iff core_blank_row_def blank_row_def core_copy_row_def copy_row_def core_cells)
  have b: "core_Scrollback = VGA_scrollback"
    by (simp add: fun_eq_iff core_Scrollback_def VGA_scrollback_def r core_cells Let_def)
  have f: "core_finish = putc_finish"
    by (simp add: fun_eq_iff core_finish_def putc_finish_def b core_cells Let_def)
  have d: "core_default = putc_default"
    by (simp add: fun_eq_iff core_default_def putc_default_def f core_cells Let_def)
  have t: "core_tab i s = putc_tab i s" for i s
    by (induction i s rule: core_tab.induct) (subst core_tab.simps, subst putc_tab.simps, simp add: d)
  show "core_Clear = VGA_clrscr" by (simp add: fun_eq_iff core_Clear_def VGA_clrscr_def r core_cells Let_def)
  show "core_PutChar = VGA_putc" by (simp add: fun_eq_iff core_PutChar_def VGA_putc_def f d t)
qed

section \<open>Formatting as the kernel's\<close>

lemma number_digits_ok: "2 \<le> radix \<Longrightarrow> number_digits (int n) (int radix) = Some (digit_loop n radix)"
proof (induction n radix rule: digit_loop.induct)
  case (1 n radix)
  have m: "int n smod int radix = int (n mod radix)" "int n sdiv int radix = int (n div radix)"
    by (simp_all add: signed_modulo_int_def signed_divide_int_def sgn_if zmod_int zdiv_int)
  have "0 < n div radix \<Longrightarrow> number_digits (int (n div radix)) (int radix) = Some (digit_loop (n div radix) radix)"
    using 1 by simp
  then show ?case using 1(2) by (subst number_digits.simps, subst digit_loop.simps) (simp add: m)
qed

text \<open>A negative number that is no multiple of the radix.\<close>

lemma number_digits_negative: "n < 0 \<Longrightarrow> \<not> radix dvd n \<Longrightarrow> 2 \<le> radix \<Longrightarrow> number_digits n radix = None"
proof -
  assume a: "n < 0" "\<not> radix dvd n" "2 \<le> radix"
  have "n smod radix = - (- n mod radix)"
    using a by (simp add: signed_modulo_int_def signed_divide_int_def sgn_if minus_div_mult_eq_mod [symmetric])
  moreover have "0 < - n mod radix" using a by (simp add: order_less_le dvd_eq_mod_eq_0 [symmetric])
  ultimately show ?thesis by (subst number_digits.simps) simp
qed

text \<open>A device that writes every byte, as both devices do.\<close>

definition writes_all :: "'s device \<Rightarrow> (u8 \<Rightarrow> 's \<Rightarrow> 's) \<Rightarrow> bool" where
  "writes_all dev put \<longleftrightarrow> (\<forall>c s. dev [c] s = (1, put c s))"

lemma devices_write: "writes_all VGATextDevice_Write VGA_putc" "writes_all E9Device_Write (i686_outb 0xE9)"
  by (simp_all add: writes_all_def VGATextDevice_Write_def E9Device_Write_def core_screen core_cells)

lemma Write_all: "writes_all dev put \<Longrightarrow> Write_char dev c (True, s) = (True, put c s)"
    "writes_all dev put \<Longrightarrow> Write_str dev str (True, s) = (True, fold put str s)"
proof -
  show c: "Write_char dev c (True, s) = (True, put c s)" if "writes_all dev put" for c s
    using that by (simp add: Write_char_def writes_all_def)
  show "Write_str dev str (True, s) = (True, fold put str s)" if "writes_all dev put"
    unfolding Write_str_def by (induction str arbitrary: s) (simp_all add: c [OF that])
qed

lemma Write_number_ok:
  assumes "writes_all dev put"
  shows "2 \<le> radix \<Longrightarrow> Write_number dev (int n) (int radix) (True, s) = Some (True, fold put (rev (digit_loop n radix)) s)"
  using Write_all(2) [OF assms, of "rev (digit_loop n radix)" s] by (simp add: Write_number_def number_digits_ok Write_str_def)

text \<open>Arguments without a negative number.\<close>

definition non_negative :: "va \<Rightarrow> bool" where
  "non_negative a = (case a of VI w \<Rightarrow> 0 \<le>s w | VLL w \<Rightarrow> 0 \<le>s w \<and> 0 \<le>s (ucast w :: u32) | VS _ \<Rightarrow> True)"

lemma va_non_negative:
  assumes "list_all non_negative args"
  shows "0 \<le>s fst (va_word args)" "list_all non_negative (snd (va_word args))" "0 \<le>s fst (va_ll args)"
    "list_all non_negative (snd (va_ll args))" "list_all non_negative (snd (va_str args))"
proof -
  have u: "0 \<le>s (ucast w :: u64)" for w :: u32
    using bit_imp_le_length [of w 63] by (auto simp: word_sle_eq sint_uint signed_take_bit_eq_if_positive bit_simps)
  show "0 \<le>s fst (va_word args)" "list_all non_negative (snd (va_word args))" "0 \<le>s fst (va_ll args)"
    "list_all non_negative (snd (va_ll args))" "list_all non_negative (snd (va_str args))"
    using assms by (auto simp: va_word_def va_ll_def va_str_def non_negative_def u split: list.splits va.splits)
qed

lemma sint_non_negative:
  fixes w :: "'a::len word"
  shows "0 \<le>s w \<Longrightarrow> sint w = int (unat w)"
proof -
  assume "0 \<le>s w"
  then have n: "\<not> bit (uint w) (LENGTH('a) - Suc 0)" by (simp add: word_sle_eq sint_uint)
  have "sint w = take_bit (LENGTH('a) - Suc 0) (uint w)" unfolding sint_uint by (rule signed_take_bit_eq_if_positive [OF n])
  also have "\<dots> = uint w"
  proof (rule bit_eqI)
    fix k
    show "bit (take_bit (LENGTH('a) - Suc 0) (uint w)) k = bit (uint w) k"
    proof (cases "k < LENGTH('a) - Suc 0")
      case False
      then have "\<not> bit (uint w) k" using n bit_uint_iff [of w k] by (cases "k = LENGTH('a) - Suc 0") (auto dest: bit_imp_le_length)
      then show ?thesis by (simp add: bit_simps)
    qed (simp add: bit_simps)
  qed
  finally show ?thesis by simp
qed

lemma unat_scast_non_negative: "0 \<le>s (w :: u32) \<Longrightarrow> unat (scast w :: u64) = unat w \<and> 0 \<le>s (scast w :: u64)"
proof -
  assume w: "0 \<le>s w"
  have "sint (scast w :: u64) = sint w" by (simp add: signed_scast_eq signed_take_bit_int_eq_self sint_less [THEN order_less_le_trans] order_trans [OF _ sint_ge])
  then have s: "sint (scast w :: u64) = int (unat w)" using sint_non_negative [OF w] by simp
  then have n: "0 \<le>s (scast w :: u64)" by (simp add: word_sle_eq)
  have "int (unat (scast w :: u64)) = int (unat w)" using sint_non_negative [OF n] s by (rule trans [OF sym])
  then show ?thesis using n by (simp only: of_nat_eq_iff simp_thms)
qed

text \<open>The two states of the interpreter.\<close>

fun kernel_state :: "FormatState \<Rightarrow> pf_state" where
  "kernel_state FS_Normal = ST_NORMAL"
| "kernel_state FS_Length = ST_LENGTH"
| "kernel_state FS_LengthShort = ST_LENGTH_SHORT"
| "kernel_state FS_LengthLong = ST_LENGTH_LONG"
| "kernel_state FS_Spec = ST_SPEC"

fun kernel_length :: "FormatLength \<Rightarrow> pf_length" where
  "kernel_length FL_Default = LEN_DEFAULT"
| "kernel_length FL_ShortShort = LEN_SHORT_SHORT"
| "kernel_length FL_Short = LEN_SHORT"
| "kernel_length FL_Long = LEN_LONG"
| "kernel_length FL_LongLong = LEN_LONG_LONG"

lemma kernel_length_long: "kernel_length len = LEN_LONG_LONG \<longleftrightarrow> len = FL_LongLong"
  by (cases len) simp_all

lemma format_arg_ok:
  assumes d: "writes_all dev put" and a: "list_all non_negative args" and r: "2 \<le> radix"
  shows "format_arg dev sign len (int radix) args (True, s) =
    (case number_arg sign (kernel_length len) args of (n, r) \<Rightarrow>
      Some (r, True, if sign then print_signed put n radix s else print_unsigned put n radix s))"
proof (cases "len = FL_LongLong")
  case True
  obtain w rest where w: "va_ll args = (w, rest)" by force
  then have "0 \<le>s w" using va_non_negative(3) [OF a] by simp
  then show ?thesis using True w r Write_number_ok [OF d r, of "unat w" s]
    by (auto simp: format_arg_def number_arg_def sint_non_negative print_signed_def print_unsigned_def word_sless_alt word_sle_eq)
next
  case False
  obtain w rest where w: "va_word args = (w, rest)" by force
  then have n: "0 \<le>s w" using va_non_negative(1) [OF a] by simp
  note u = unat_scast_non_negative [OF n]
  have uu: "unat (ucast w :: u64) = unat w" using unat_u32_less [of w] by (simp add: unsigned_ucast_eq take_bit_nat_eq_self)
  have "\<not> (scast w :: u64) <s 0" using u by (simp add: word_sless_alt word_sle_eq)
  then show ?thesis using False w r n u Write_number_ok [OF d r, of "unat w" s]
    by (auto simp: format_arg_def number_arg_def kernel_length_long sint_non_negative print_signed_def print_unsigned_def uu)
qed

lemma number_arg_rest: "list_all non_negative args \<Longrightarrow> list_all non_negative (snd (number_arg sign len args))"
  using va_non_negative(2,4) [of args] by (cases "va_word args"; cases "va_ll args") (simp add: number_arg_def)

lemma format_spec_ok:
  assumes d: "writes_all dev put" and a: "list_all non_negative args"
  shows "format_spec dev c len args (True, s) = (case print_spec put c (kernel_length len) args s of (r, s') \<Rightarrow> Some (r, True, s'))"
    "list_all non_negative (fst (print_spec put c (kernel_length len) args s))"
proof -
  have n: "format_arg dev sign len 10 args (True, s) = (case number_arg sign (kernel_length len) args of (n, r) \<Rightarrow>
      Some (r, True, if sign then print_signed put n 10 s else print_unsigned put n 10 s))"
    "format_arg dev sign len 16 args (True, s) = (case number_arg sign (kernel_length len) args of (n, r) \<Rightarrow>
      Some (r, True, if sign then print_signed put n 16 s else print_unsigned put n 16 s))"
    "format_arg dev sign len 8 args (True, s) = (case number_arg sign (kernel_length len) args of (n, r) \<Rightarrow>
      Some (r, True, if sign then print_signed put n 8 s else print_unsigned put n 8 s))" for sign
    using format_arg_ok [OF d a, of 10] format_arg_ok [OF d a, of 16] format_arg_ok [OF d a, of 8] by simp_all
  show "format_spec dev c len args (True, s) = (case print_spec put c (kernel_length len) args s of (r, s') \<Rightarrow> Some (r, True, s'))"
    by (simp add: format_spec_def print_spec_def Write_all [OF d] n split: prod.split)
  show "list_all non_negative (fst (print_spec put c (kernel_length len) args s))"
    using a va_non_negative [OF a] number_arg_rest [OF a, of True "kernel_length len"]
      number_arg_rest [OF a, of False "kernel_length len"] by (auto simp: print_spec_def split: prod.splits)
qed

lemma VFormat_ok:
  assumes d: "writes_all dev put"
  shows "list_all non_negative args \<Longrightarrow>
    VFormat dev st len fmt args (True, s) = Some (True, vprintf_core put (kernel_state st) (kernel_length len) fmt args s)"
proof (induction fmt arbitrary: st len args s)
  case (Cons c fmt)
  obtain r s' where p: "print_spec put c (kernel_length len) args s = (r, s')" by force
  have sp: "format_spec dev c len args (True, s) = Some (r, True, s')" using format_spec_ok(1) [OF d Cons.prems, of c len s] by (simp add: p)
  have r: "list_all non_negative r" using format_spec_ok(2) [OF d Cons.prems, of c len s] by (simp add: p)
  show ?case using Cons.IH [OF r] Cons.IH [OF Cons.prems] Write_all(1) [OF d] by (cases st) (simp_all add: sp p)
qed simp

lemma Format_ok:
  assumes "writes_all dev put" "list_all non_negative args"
  shows "Format dev fmt args s = Some (True, vprintf_core put ST_NORMAL LEN_DEFAULT (bytes fmt) args s)"
  using VFormat_ok [OF assms, of FS_Normal FL_Default] by (simp add: Format_def)

lemma Format_screen: "list_all non_negative args \<Longrightarrow> Format VGATextDevice_Write fmt args s = Some (True, printf fmt args s)"
  using Format_ok [OF devices_write(1), of args fmt s] by (simp add: printf_def vfprintf_def fputc_cases [abs_def])

lemma Format_negative:
  assumes "sint w < 0" "\<not> 10 dvd sint w"
  shows "Format dev ''%d'' [VI w] s = None"
proof -
  have "number_digits (sint w) 10 = None" using assms by (intro number_digits_negative) simp_all
  then show ?thesis
    by (simp add: Format_def bytes_def format_spec_def format_arg_def va_word_def Write_number_def Let_def)
qed

end
