(* ===== verification/ShellPrintf.thy ===== *)
theory ShellPrintf
  imports ShellStr
begin

text \<open>
  \<open>shell_snprintf\<close> of \<open>shell_commands.c\<close>, which knows \<open>%d\<close> and \<open>%s\<close>: what it writes and how much.
\<close>

section \<open>The formatter\<close>

text \<open>
  The digits of \<open>val\<close> behind its sign: the one digit of zero, or those that the loop peels off its
  magnitude.  The least integer stays negative when it is negated and has none.
\<close>

definition snprintf_digits :: "s32 \<Rightarrow> u8 list" where
  "snprintf_digits val = (if val = 0 then [48] else rev (format_digits (nat (sint (if val <s 0 then - val else val)))))"

text \<open>
  The loop: \<open>limit\<close> is \<open>size - 1\<close>, \<open>out\<close> what has been written.  A \<open>%\<close> before the terminator is an ordinary
  character; the sign is written without a look at the limit.
\<close>

fun snprintf_loop :: "nat \<Rightarrow> u8 list \<Rightarrow> va list \<Rightarrow> u8 list \<Rightarrow> u8 list" where
  "snprintf_loop limit [] args out = out"
| "snprintf_loop limit [c] args out = (if length out < limit then out @ [c] else out)"
| "snprintf_loop limit (c # d # fmt) args out =
     (if \<not> length out < limit then out
      else if c \<noteq> 37 then snprintf_loop limit (d # fmt) args (out @ [c])
      else if d = 100 then
        (case va_word args of (val, rest) \<Rightarrow>
           let out = (if val <s 0 then out @ [45] else out)
           in snprintf_loop limit fmt rest (out @ take (limit - length out) (snprintf_digits val)))
      else if d = 115 then
        (case va_str args of (str, rest) \<Rightarrow> snprintf_loop limit fmt rest (out @ take (limit - length out) str))
      else snprintf_loop limit fmt args out)"

text \<open>The number of characters written, and the bytes at \<open>str\<close>; \<open>size - 1\<close> wraps for size 0.\<close>

definition shell_snprintf :: "u32 \<Rightarrow> u8 list \<Rightarrow> va list \<Rightarrow> u32 \<times> u8 list" where
  "shell_snprintf sz fmt args =
     (let out = snprintf_loop (unat (sz - 1)) fmt args [] in (of_nat (length out), out @ [0]))"

section \<open>Its bound\<close>

lemma snprintf_loop_length: "length out \<le> limit \<Longrightarrow> length (snprintf_loop limit fmt args out) \<le> limit"
proof (induction limit fmt args out rule: snprintf_loop.induct)
  case (3 limit c d fmt args out)
  show ?case
  proof (cases "length out < limit \<and> c = 37")
    case True
    obtain val rest where w: "va_word args = (val, rest)" by force
    obtain str rest' where s: "va_str args = (str, rest')" by force
    show ?thesis using True 3 w s by (auto simp: Let_def)
  next
    case False
    then show ?thesis using 3 by auto
  qed
qed auto

text \<open>With room for the terminator nothing is written past the buffer.\<close>

lemma snprintf_fits:
  assumes "sz \<noteq> 0"
  shows "length (snd (shell_snprintf sz fmt args)) \<le> unat sz"
proof -
  have "unat (sz - 1) = unat sz - 1" using assms by (simp add: unat_minus_one)
  moreover have "0 < unat sz" using assms by (simp add: unat_gt_0)
  ultimately show ?thesis using snprintf_loop_length [of "[]" "unat (sz - 1)" fmt args]
    by (simp add: shell_snprintf_def Let_def)
qed

end
