(* ===== verification/Spec2Isabelle.thy ===== *)
theory Spec2Isabelle
  imports Live HostLive CoreText ShellPrintf
begin

text \<open>
MiqOSoft is a small 32-bit x86 operating system in C (\<open>src/src\<close>).  A boot loader reads the kernel
  from a disk and enters \<open>start\<close> (\<open>kernel/main.c\<close>), which brings up the hardware layer, the system
  calls and the keyboard, enables interrupts and then runs a shell for good.  Everything below is one
  program state, a chain of records that grows with the components: the screen and the output ports
  (\<open>vga\<close>), the keyboard driver (\<open>kbd\<close>), heap and memory (\<open>kheap\<close>), interrupt tables (\<open>kirq\<close>), files
  and descriptors (\<open>ksys\<close>), the RAM file system (\<open>ram_fs\<close>), the message log (\<open>dmesg\<close>), future key
  presses (\<open>console\<close>) and the command line (\<open>shell\<close>).  An operation of a component works on every
  extension of its record, and returns \<open>None\<close> where the C code would access an array outside its
  bounds, call through a null or unregistered pointer, or never return.

  \<^bold>\<open>Machine integers\<close> are words of their width (\<open>u8\<close>, \<open>u16\<close>, \<open>u32\<close>, \<open>u64\<close>, \<open>s32\<close>); \<open>int\<close> variables
  that index arrays and stay small are integers.  Memory is a function from 32-bit addresses to bytes.
  Strings are lists of bytes without their terminating NUL, character arrays lists with it.

  \<^bold>\<open>Theories and the code they model\<close> (paths under \<open>src/src\<close>)
  \<^item> \<open>Prelude\<close>, \<open>Words\<close>, \<open>Output\<close>: shared types, arrays with bounds checks, words of a text, printing
    as one operation.
  \<^item> \<open>Memory\<close>, \<open>CString\<close>: \<open>kernel/memory.c\<close>, \<open>kernel/string.c\<close>.
  \<^item> \<open>Vga\<close>, \<open>Stdio\<close>: \<open>kernel/arch/i686/vga_text.c\<close>, \<open>e9.c\<close>, \<open>kernel/stdio.c\<close>, \<open>debug.c\<close>, \<open>hal/vfs.c\<close>.
  \<^item> \<open>LineEdit\<close>, \<open>Keyboard\<close>: \<open>kernel/drivers/keyboard.c\<close>.  \<open>LineEdit\<close> holds the locale of a line editor,
    interpreted by the keyboard's multi-line editor and by the shell's command line.
  \<^item> \<open>Heap\<close>, \<open>Syscall\<close>, \<open>VirtualFs\<close>, \<open>UserHeap\<close>: \<open>kernel/syscall.c\<close>, with the wrappers of
    \<open>include/syscall.h\<close>.  The allocator's contract is a locale, interpreted by the kernel's allocator
    and by \<open>sys_malloc\<close> and \<open>sys_free\<close> through the interrupt gate.
  \<^item> \<open>Interrupts\<close>, \<open>Kernel\<close>: \<open>arch/i686/gdt.c\<close>, \<open>idt.c\<close>, \<open>isr.c\<close>, \<open>irq.c\<close>, \<open>i8259.c\<close>, \<open>pit.c\<close>, \<open>io.c\<close>, \<open>time.c\<close>,
    \<open>hal/hal.c\<close>, \<open>isr_asm.asm\<close>: the path of an interrupt from the gate to its handler and back, and the
    kernel as a step relation (timer, key, system call, store of the program).
  \<^item> \<open>SyscallTest\<close>: \<open>kernel/syscall_test.c\<close>, programs on top of the system calls.
  \<^item> \<open>ShellStr\<close>, \<open>ShellPrintf\<close>, \<open>Ramfs\<close>, \<open>RamfsOps\<close>, \<open>RamfsData\<close>: \<open>kernel/shell/shell_commands.c\<close>, the file system in
    RAM; its entries hold addresses that \<open>sys_malloc\<close> returned.
  \<^item> \<open>Dmesg\<close>, \<open>Boot\<close>: \<open>kernel/main.c\<close>.
  \<^item> \<open>Console\<close>, \<open>Commands\<close>, \<open>FsCommands\<close>, \<open>Shell\<close>: the shell's commands, \<open>kernel/shell/shell.c\<close>.
  \<^item> \<open>ConsoleOk\<close>, \<open>RamfsRoom\<close>, \<open>EditOk\<close>, \<open>FsCommandsOk\<close>, \<open>ShellOk\<close>, \<open>BootIrq\<close>, \<open>BootOk\<close>: what the last group
    promises; \<open>RamfsRoom\<close> when the heap has room for a file, \<open>BootIrq\<close> what interrupts do during the boot.
  \<^item> \<open>LoaderIo\<close>, \<open>LoaderDisk\<close>, \<open>LoaderFat\<close>, \<open>LoaderElf\<close>, \<open>LoaderMain\<close>: the second stage of the boot loader,
    \<open>bootloader/stage2\<close>: its console and helpers, sector access through the BIOS, the FAT driver, the ELF
    loader, memory map and \<open>start\<close>.  Its states extend \<open>vga\<close> on their own: \<open>disk_io\<close>, \<open>fat_data\<close>, \<open>loader\<close>,
    \<open>loader_main\<close>.
  \<^item> \<open>SectorLoop\<close>, \<open>LoaderFatOk\<close>, \<open>LoaderOpenOk\<close>: what the FAT driver delivers.  A file is a stream of sectors,
    a locale (\<open>sector_loop\<close>, extended by \<open>sector_stream\<close>) interpreted by the root directory, by chains of
    clusters and by the files of the host tool.
  \<^item> \<open>LoaderFrame\<close>, \<open>LoaderElfOk\<close>, \<open>LoaderBootOk\<close>: what files leave alone, so that a path can be opened again
    for every segment; the ELF loader over the locale \<open>kernel_file\<close> (a file to open, read and close),
    interpreted by the FAT driver on a path; the loader from \<open>start\<close> to the kernel's entry point.
  \<^item> \<open>HostFat\<close>, \<open>HostFatOk\<close>: the host program \<open>tools/fat\<close> (under \<open>src\<close>), an older version of the driver on an
    image file, and how it agrees with the loader.
  \<^item> \<open>CoreText\<close>: \<open>libs/core\<close>, the C++ version of the console, which no source of the kernel uses yet.
  \<^item> \<open>Example\<close>, \<open>Live\<close>, \<open>LoaderLive\<close>, \<open>HostLive\<close>: concrete states at which the theorems are applied.

  \<^bold>\<open>What the lemmas show\<close>
  \<^item> Invariants: \<open>kernel_ok\<close> (heap chain, tables, keyboard arrays, screen, dispatch) is kept by every
    handler and so holds in all reachable states; \<open>ramfs_ok\<close> (the tree of directories, names inside
    their arrays, a heap block for each file) is kept by every operation and every file command but the
    editor, which goes past a block when it saves a positive multiple of 256 bytes; booting a zeroed image
    establishes the first, if the keyboard controller reports an empty buffer at some time.
  \<^item> Refinement: \<open>malloc\<close> and \<open>free\<close> against first fit and merge on a list of blocks; the key ring against
    a bounded queue; both line editors against a list with a cursor; a FAT volume against the tree of
    files on the disk, the ELF loader against the segments of the file.
  \<^item> Functional contracts of the system calls on files, of the file commands, of the editor, of typing at
    the prompt; formatted output against \<open>expand\<close>; parsing against the words of a line.
  \<^item> Errors and bounds: what fails is a value with its state, and the places where the code itself goes
    past a bound are theorems too (a huge \<open>malloc\<close>, the path buffer).

  \<^bold>\<open>Fuel and bounds.\<close>  Loops are structural recursions, functions with a measure or
  \<open>partial_function (option)\<close>.  A loop that waits for the timer or for a key runs over a stream of
  interrupts: \<open>env\<close> says how many timer interrupts arrive during each iteration of a sleep, and
  \<open>scancodes\<close> lists the key interrupts between two polls; when these are used up a loop that still
  waits is \<open>None\<close>.  The loop in \<open>keyboard_init\<close> runs over a stream of answers of the status port, and is
  \<open>None\<close> when none of them ends it.  No other fuel is used.

  \<^bold>\<open>Hardware\<close> is a parameter: what a port returns (\<open>inb\<close>), the result
  of \<open>cpuid\<close>, the addresses of the assembly stubs and of string literals, the bytes behind
  a stack buffer. Output to ports is a trace. Interrupts arrive between statements: while the kernel
  boots those of timer and keyboard, when they are enabled and their line is not masked
  (\<open>take_irq\<close>), in any number at each of the steps from \<open>keyboard_init\<close> on,
  before which the lines are masked. A keyboard interrupt means that a byte is there, so
  \<open>keyboard_get_scancode\<close> does not wait.

  \<^bold>\<open>Boot loader.\<close>  The BIOS is a parameter: a function that answers disk requests, which may depend on how
  many there were, and one that lists memory blocks.  The theorems assume (\<open>serves\<close>) that a valid request
  (\<open>request_ok\<close>: an existing cylinder, head and sector, 1 to 128 sectors that the disk has) which succeeds
  stores the sectors asked for, that one of three attempts succeeds, and that the BIOS reads on across
  the end of a track, which the loader relies on.  Of other requests nothing is assumed; that the loader
  makes none is part of the proofs.  The uninitialised variable \<open>block\<close> of \<open>Memory_Detect\<close> is an argument.  The memory that files are read to and segments
  are copied to is \<open>ldr_mem\<close>; the loader's own variables are fields, so a segment placed over them is
  outside the model.

  \<^bold>\<open>Not modelled.\<close>  The boot sector and the entry code of stage 2 (assembly); \<open>lgdt\<close>, \<open>lidt\<close> and the 256 assembly stubs
  that push a vector number; the build files.
\<close>

section \<open>The running kernel\<close>

text \<open>C1: In every state that timer interrupts, keyboard interrupts with any scancode, system calls with
  acceptable arguments and the program's own stores can reach from a well-formed kernel, the
  kernel is well formed: heap chain, file and descriptor tables, keyboard driver, screen cursor
  and dispatch tables all satisfy their invariants.\<close>

theorem kernel_invariant:
  assumes "kernel_ok s0" "kreach e s0 s"
  shows "kernel_ok s"
  using assms(2,1) by (rule kreach_ok)

theorem kernel_invariant_witness: "\<exists>s. kreach \<lparr>env_irqs = (\<lambda>_. 0), env_regs = no_regs\<rparr> demo s \<and> s \<noteq> demo \<and> kernel_ok s"
proof -
  let ?s = "set_mem (demo_mem(0x3000 := 7)) demo"
  have "own_stores (demo_mem(0x3000 := 7)) demo" by (simp add: own_stores_def demo_fields)
  then have r: "kreach \<lparr>env_irqs = (\<lambda>_. 0), env_regs = no_regs\<rparr> demo ?s" by (intro kreach.step [OF kreach.start] kstep.store)
  have "demo_mem 0x3000 = 0"
    by (simp add: demo_mem_def set_size_def set_is_free_def set_next_def st32_outside region_4)
  then have "mem ?s 0x3000 \<noteq> mem demo 0x3000" by (simp add: demo_fields)
  then have "?s \<noteq> demo" by metis
  with r kernel_invariant [OF demo_kernel_ok r] show ?thesis by blast
qed

text \<open>C2: A well-formed kernel handles every timer interrupt, every keyboard interrupt and every system
  call with acceptable arguments to the end: no access outside an array or table, no unregistered
  vector, and the result is a well-formed kernel.\<close>

theorem interrupts_never_fault:
  assumes "kernel_ok s"
    "r_interrupt r = 32 \<or> r_interrupt r = 33 \<or>
     r_interrupt r = 0x80 \<and> call_ok (r_eax r) (r_ebx r) (r_ecx r) (r_edx r) s"
  shows "\<exists>r' s'. isr_common e scancode r s = Some (r', s') \<and> kernel_ok s'"
  using assms by (rule isr_common_ok)

theorem interrupts_never_fault_witness:
  "\<exists>r' s'. isr_common \<lparr>env_irqs = (\<lambda>_. 0), env_regs = no_regs\<rparr> 0x1E (no_regs\<lparr>r_interrupt := 33\<rparr>) demo = Some (r', s') \<and>
    kernel_ok s'"
  by (rule interrupts_never_fault [OF demo_kernel_ok]) simp

section \<open>Booting and the shell\<close>

text \<open>C3: Booting a zeroed kernel image on a machine whose interrupt controller keeps its mask registers
  returns exactly when the keyboard controller at some time reports an empty buffer; if it never
  does, the kernel hangs in \<open>keyboard_init\<close>. If it does, then whatever interrupts of
  timer and keyboard arrive between the statements of the boot, the result is a well-formed kernel
  with interrupts on, an empty heap, the two default files and the shell at an empty command line;
  the message log is full and holds the first twenty of the twenty-two boot messages, so the last
  two are lost. Without key presses the key ring is empty.\<close>

theorem boot_reaches_prompt:
  fixes s :: "'a shell_scheme"
  assumes "early [] s" "masks_read_back inb" "RegionCount bp \<le> int (length (Regions bp))"
  shows "if \<exists>n. status n AND KEYBOARD_OUTPUT_BUFFER_FULL = 0
    then \<exists>s'. start inb status addr e irqs bp s = Some s' \<and> kernel_ok s' \<and> interrupts_on s' \<and> heap_live s' = {} \<and>
      has_file s' (bytes ''welcome.txt'') \<and> has_file s' (bytes ''info.txt'') \<and>
      ((\<forall>k. \<forall>ev \<in> set (irqs k). ev = Tick) \<longrightarrow> ring_items s' = []) \<and>
      shell_mode s' \<and> at_end s' \<and> sh_line s' = [] \<and> dmesg_texts s' = take 20 boot_log \<and> length boot_log = 22
    else start inb status addr e irqs bp s = None"
proof (cases "\<exists>n. status n AND KEYBOARD_OUTPUT_BUFFER_FULL = 0")
  case True
  have "calm (\<forall>k. \<forall>ev \<in> set (irqs k). ev = Tick) irqs" by (simp add: calm_def)
  from start_ok [OF assms(1,2) True assms(3) this, of addr e] obtain s' where s': "start inb status addr e irqs bp s = Some s'"
    "prompted (\<forall>k. \<forall>ev \<in> set (irqs k). ev = Tick) boot_log s'" by blast
  show ?thesis using True s'(2) boot_log_length unfolding s'(1)
    by (simp add: prompted_def running_def up_def logged_def)
next
  case False
  then show ?thesis by (simp add: start_hangs)
qed

theorem boot_reaches_prompt_witness:
  "\<exists>s'. start last_out (\<lambda>n. if n < 2 then 1 else 0) of_int \<lparr>env_irqs = (\<lambda>_. 0), env_regs = no_regs\<rparr>
      (\<lambda>k. [Tick, Key 0x1E]) \<lparr>RegionCount = 0, Regions = [], BootDevice = 0x80\<rparr> image = Some s' \<and> kernel_ok s' \<and>
    sh_line s' = [] \<and> length (dmesg_texts s') = 20"
proof -
  let ?st = "\<lambda>n :: nat. if n < 2 then 1 else 0 :: u8"
  have m: "masks_read_back (last_out :: u16 \<Rightarrow> shell \<Rightarrow> u8)" by (simp add: masks_read_back_def)
  have "?st 2 AND KEYBOARD_OUTPUT_BUFFER_FULL = 0" by simp
  then have "\<exists>n. ?st n AND KEYBOARD_OUTPUT_BUFFER_FULL = 0" by blast
  with boot_reaches_prompt [OF image_early m, of "\<lparr>RegionCount = 0, Regions = [], BootDevice = 0x80\<rparr>" ?st of_int
    "\<lparr>env_irqs = (\<lambda>_. 0), env_regs = no_regs\<rparr>" "\<lambda>k. [Tick, Key 0x1E]"]
  show ?thesis by (auto simp: boot_log_length)
qed

text \<open>C4: Typing \<open>mkdir\<close>, a blank, a new name of printable characters that fits the screen
  line, and Enter at the empty command line runs the command to its end: the shell reaches a state
  \<open>v\<close> right after the next prompt, with an empty line and with exactly the keys
  behind the Enter still waiting, and goes on from there (with no such keys
  \<open>shell_run\<close> returns \<open>v\<close>). In \<open>v\<close> a free slot of the file
  table has become a directory of that name (its first 31 characters) in the current directory,
  every other entry and file is as before, and the file system is well formed.\<close>

theorem typed_mkdir_creates:
  fixes s :: "'a shell_scheme"
  assumes "at_end s" "sh_line s = []" "ramfs_ok s" "ring_items s = bytes ''mkdir '' @ name @ 10 # rest"
    "name \<noteq> []" "list_all (\<lambda>c. printable c \<and> c \<noteq> 32) name" "unat (g_ScreenX s) + 6 + length name < 80"
    "ramfs_find_file name (ram_current_dir s) s = None" "ramfs_find_free_slot s = Some k"
  shows "\<exists>u v. shell_print_prompt (line_done u) = Some v \<and> shell_run m s = shell_run m v \<and>
    (rest = [] \<longrightarrow> shell_run m s = Some v) \<and> at_end v \<and> sh_line v = [] \<and> ring_items v = rest \<and>
    ramfs_ok v \<and> others_same k s v \<and> new_entry name 1 (ram_current_dir s) (ram_files v ! k)"
  using assms by (rule typed_mkdir)

theorem typed_mkdir_creates_witness:
  "\<exists>v. shell_run live_machine (live_typed (bytes ''mkdir n'' @ [10])) = Some v \<and> ramfs_ok v \<and> at_end v \<and> sh_line v = [] \<and>
    new_entry [110] 1 0 (ram_files v ! 3)"
proof -
  let ?s = "live_typed (bytes ''mkdir n'' @ [10])"
  have len: "length (bytes ''mkdir n'' @ [10]) < 256" by simp
  have ring: "ring_items ?s = bytes ''mkdir '' @ [110] @ 10 # []" using live_typed_ring [OF len] by (simp add: bytes_def)
  have name: "[110 :: u8] \<noteq> []" "list_all (\<lambda>c. printable c \<and> c \<noteq> 32) [110]" "unat (g_ScreenX ?s) + 6 + length [110 :: u8] < 80"
    "ramfs_find_file [110] (ram_current_dir ?s) ?s = None"
    using live_find(3) by (simp_all add: printable_def live_typed_find)
  from typed_mkdir_creates [OF live_typed_end(1) [OF len] live_typed_end(2) live_typed_ramfs [OF len] ring name live_typed_find(2)]
  show ?thesis by auto
qed

text \<open>C5: A line whose first word is not the name of a command runs nothing: the shell reports the word
  and points to \<open>help\<close>, and changes only the screen.\<close>

theorem unknown_command_reported:
  assumes "is_cstr input" "length input \<le> 255" "length (words_by gap input) < 15" "words_by gap input = w # args"
    "\<forall>e \<in> set shell_commands. bytes (sc_name e) \<noteq> w"
  shows "shell_process_command m input s =
    Some (say (bytes ''Unknown command: '' @ w @ [10] @ bytes ''Type 'help' for a list of available commands.\<newline>'') s)"
  using process_unknown [OF assms, of m s] by (simp add: fmt)

theorem unknown_command_reported_witness:
  "shell_process_command live_machine (bytes ''foo bar'') live = Some (say (bytes ''Unknown command: foo\<newline>'' @
    bytes ''Type 'help' for a list of available commands.\<newline>'') live)"
proof -
  have w: "words_by gap (bytes ''foo bar'') = bytes ''foo'' # [bytes ''bar'']"
    using two_words [of "bytes ''foo''" "bytes ''bar''"] by (simp add: bytes_def gap_def)
  have n: "\<forall>e \<in> set shell_commands. bytes (sc_name e) \<noteq> bytes ''foo''"
    by (simp add: bytes_inj shell_commands_def entry_def)
  have c: "is_cstr (bytes ''foo bar'')" "length (bytes ''foo bar'') \<le> 255" by (simp_all add: is_cstr_def bytes_def)
  have "length (words_by gap (bytes ''foo bar'')) < 15" using w by simp
  from unknown_command_reported [OF c this w n, of live_machine live] show ?thesis by (simp add: bytes_def)
qed

text \<open>C6: Splitting a command line of at most 255 characters in place, as the shell does, yields the words
  of the line as long as there are fewer than fifteen. Of fifteen or more it yields fifteen
  arguments: the first fourteen words, and as the last one the whole rest of the line from the
  start of the fifteenth word on, later words and blanks included.\<close>

theorem parse_is_words:
  assumes "is_cstr input" "length input \<le> 255"
  shows "(length (words_by gap input) < 15 \<longrightarrow> shell_parse_command input = words_by gap input) \<and>
    (15 \<le> length (words_by gap input) \<longrightarrow> (\<exists>pre last_arg. input = pre @ last_arg \<and>
       shell_parse_command input = words_by gap pre @ [last_arg] \<and> words_by gap pre = take 14 (words_by gap input) \<and>
       last_arg \<noteq> [] \<and> \<not> gap (hd last_arg) \<and> gap (last pre)))"
  using parse_command_ok [OF assms(1)] assms(2) split_args_words [of input 15] split_args_full [of 15 input] by simp

theorem parse_is_words_witness: "shell_parse_command (bytes ''cp  a b'') = [bytes ''cp'', bytes ''a'', bytes ''b'']"
proof -
  have w: "words_by gap (bytes ''cp  a b'') = [bytes ''cp'', bytes ''a'', bytes ''b'']" by (simp add: bytes_def gap_def)
  then show ?thesis using parse_is_words [of "bytes ''cp  a b''"] by (simp add: is_cstr_def bytes_def)
qed

text \<open>C7: Whatever line is parsed, a command gets at most fifteen arguments, each a non-empty string
  without a NUL byte that fits the command buffer.\<close>

theorem arguments_typed:
  assumes "is_cstr input"
  shows "length (shell_parse_command input) \<le> 15 \<and>
    (\<forall>a \<in> set (shell_parse_command input). a \<noteq> [] \<and> is_cstr a \<and> length a < SHELL_BUFFER_SIZE)"
proof -
  have "length (take 255 input) < 256" by simp
  then show ?thesis using split_args_type [OF is_cstr_take [OF assms, of 255], of 15]
    unfolding parse_command_ok [OF assms] by (force simp: SHELL_BUFFER_SIZE_def)
qed

theorem arguments_typed_witness: "list_all is_cstr (shell_parse_command (bytes '' ls  -l''))"
  using arguments_typed [of "bytes '' ls  -l''"] by (simp add: is_cstr_def bytes_def list_all_iff)

text \<open>C8: The command line with its cursor is a line editor: typing a word inserts it at the cursor and
  moves the cursor behind it, and a character that is typed and deleted leaves line and cursor as
  they were.\<close>

theorem command_line_edits:
  assumes "sh_ok s" "length (sh_line s) + length w \<le> 255" "length (sh_line s) < 255"
  shows "(\<exists>s'. foldM shell_insert w s = Some s' \<and> sh_ok s' \<and> nat (sh_cursor s') = nat (sh_cursor s) + length w \<and>
      sh_line s' = take (nat (sh_cursor s)) (sh_line s) @ w @ drop (nat (sh_cursor s)) (sh_line s)) \<and>
    (\<exists>s'. do { s1 \<leftarrow> shell_insert c s; shell_delete s1 } = Some s' \<and> sh_ok s' \<and> sh_line s' = sh_line s \<and>
      nat (sh_cursor s') = nat (sh_cursor s))"
  using shell_line.type_word [OF assms(1,2)] shell_line.ins_del [OF assms(1,3)] by blast

theorem command_line_edits_witness:
  "\<exists>s'. foldM shell_insert (bytes ''ls'') live = Some s' \<and> sh_line s' = bytes ''ls'' \<and> nat (sh_cursor s') = 2"
proof -
  have "sh_ok live" using live_at_end(1) by (simp add: at_end_def)
  from command_line_edits [OF this, of "bytes ''ls''" 0] show ?thesis by (auto simp: live_at_end(2))
qed

text \<open>C9: A program that waits for a character returns as soon as one is there: the next of the keys that
  are pressed, whether it is already in the ring or arrives by keyboard interrupts during the
  wait, and the later ones stay to be read in order.\<close>

theorem waiting_gets_next_key:
  assumes "input_ok s" "typed s = c # rest"
  shows "\<exists>t. shell_getc m s = Some (c, t) \<and> input_ok t \<and> typed t = rest"
  using getc_typed(1) [OF assms] by blast

theorem waiting_gets_next_key_witness: "\<exists>t. shell_getc live_machine (live_typed [97, 98]) = Some (97, t) \<and> typed t = [98]"
  using waiting_gets_next_key [OF live_typed_input [of "[97, 98]"]] by auto

section \<open>The boot loader\<close>

text \<open>C10: On a BIOS that answers every valid request (an existing cylinder, head and sector, 1 to 128
  sectors that the disk has) within three attempts, and reads on across the end of a track, and
  with a FAT12 or FAT16 volume (sectors of 512 bytes) that holds a well-formed ELF file under
  \<open>/boot/kernel.elf\<close>, the second stage ends in the call of the file's entry point: it
  neither stops nor ends in an error. The memory then holds of every loadable segment what
  \<open>ELF_Read\<close> puts there: zeros for each full piece of 64 KiB of its bytes in the
  file, the rest of these bytes, and zeros up to its size in memory; the boot parameters hold the
  drive and the BIOS's memory map. Conditions on the disk: \<open>boot\<close> is one of the first
  fifteen entries of the root directory; no cluster of the path has a FAT12 entry that crosses the
  end of a sector of the table, and the five sectors of the table from each entry on are on the
  disk; the segments neither overlap nor reach the loader's buffers; a segment sets a byte that is
  not zero among the first sixteen at the entry point (the loader refuses a kernel that has only
  zeros there).\<close>

theorem loader_enters_kernel:
  assumes "fresh s" "DISK_Initialize B (ucast drive) = Some disk" "part = MBR_DetectPartition disk (ldr_mem s) entry_ptr"
    "part_ok B part img" "fat_volume part img" "fat_path part img (volume_of part img s) (root_bytes part img) cs ys"
    "components_ok (length name) cs" "fat_index (short_name (hd cs)) (root_bytes part img) < 15" "elf_file ys"
    "47 # slashed cs = kernel_elf" "entry_seen ys"
  shows "\<exists>s'. loader_start B name block drive entry_ptr s = Some (Enter (le32 ys 24), s') \<and>
    (\<forall>g \<in> set (elf_segments ys). loadable g \<longrightarrow> (\<forall>k < unat (seg_msize g). ldr_mem s' (seg_address g + of_nat k) =
      (if unat (seg_fsize g) div 0x10000 * 0x10000 \<le> k \<and> k < unat (seg_fsize g) then ys ! (unat (seg_offset g) + k) else 0))) \<and>
    boot_params_ok B block (ucast drive) (g_BootParams s')"
proof -
  have "kernel_disk B part img name cs ys s" using assms by (simp add: kernel_disk_def)
  from loader_reaches_kernel [OF assms(1-3) this assms(10,11)] show ?thesis unfolding segments_in_def seg_byte_def .
qed

theorem loader_enters_kernel_witness:
  "\<exists>s'. loader_start floppy_bios (replicate 256 0xCC) stack_block 0 0 floppy_loader = Some (Enter 0x100000, s') \<and>
    ldr_mem s' 0x100000 = 0x90 \<and> BootDevice (g_BootParams s') = 0 \<and> RegionCount (g_BootParams s') = 2"
proof -
  have c: "components_ok (length (replicate 256 (0xCC :: u8))) floppy_path" using floppy_components by simp
  have i: "fat_index (short_name (hd floppy_path)) (root_bytes floppy_part floppy_image) < 15" by (simp add: floppy_root_bytes floppy_index)
  from loader_enters_kernel [OF floppy_fresh floppy_start floppy_part_ok floppy_volume floppy_fat_path [unfolded floppy_vol_def] c i
    floppy_elf floppy_path_text floppy_entry_seen, of stack_block, folded seg_byte_def segments_in_def]
  obtain s' where s': "loader_start floppy_bios (replicate 256 0xCC) stack_block 0 0 floppy_loader = Some (Enter 0x100000, s')"
    "segments_in (ldr_mem s') floppy_file" "boot_params_ok floppy_bios stack_block 0 (g_BootParams s')"
    by (auto simp: floppy_elf_fields)
  have "ldr_mem s' (0x100000 + of_nat 0) = 0x90" using floppy_in_memory [OF s'(2), of 0] by simp
  then show ?thesis using s' by (simp add: boot_params_ok_def floppy_blocks)
qed

text \<open>C11: After mounting the volume, \<open>ELF_Read\<close> of a path to a well-formed ELF file returns
  the entry point of the file and leaves every loadable segment at its address: the bytes of the
  file from the segment's offset, then zeros up to its size in memory. Of a segment of 64 KiB or
  more the full pieces of 64 KiB are missing, they stay zero, since \<open>memcpy\<close> takes
  its length as 16 bits. Nothing but the segments and the loader's two buffers changes.
  Conditions: a BIOS that answers every valid request (an existing cylinder, head and sector, 1 to
  128 sectors that the disk has) within three attempts, and reads on across the end of a track; a
  FAT12 or FAT16 volume with sectors of 512 bytes; the first name of the path is one of the first
  fifteen entries of the root directory (the path is opened again for every segment) and the last
  name has an extension of at least three characters; no cluster of the path has a FAT12 entry
  that crosses the end of a sector of the table, and the five sectors of the table from each entry
  on are on the disk; the segments neither overlap nor reach the loader's buffers.\<close>

theorem elf_segments_loaded:
  fixes s :: "'a loader_scheme"
  assumes "fat_memory s" "part_ok B part img" "fat_volume part img"
    "fat_path part img (volume_of part img s) (root_bytes part img) cs ys" "components_ok (length name) cs"
    "fat_index (short_name (hd cs)) (root_bytes part img) < 15" "elf_file ys"
  shows "\<exists>s1 s2. FAT_Initialize B part s = Some (True, s1) \<and>
    ELF_Read B part name (47 # slashed cs) s1 = Some (Some (le32 ys 24), s2) \<and>
    (\<forall>g \<in> set (elf_segments ys). loadable g \<longrightarrow> (\<forall>k < unat (seg_msize g). ldr_mem s2 (seg_address g + of_nat k) =
      (if unat (seg_fsize g) div 0x10000 * 0x10000 \<le> k \<and> k < unat (seg_fsize g) then ys ! (unat (seg_offset g) + k) else 0))) \<and>
    (\<forall>b. b \<notin> loader_area \<and> (\<forall>g \<in> set (elf_segments ys). b \<notin> target g) \<longrightarrow> ldr_mem s2 b = ldr_mem s b)"
proof -
  have "kernel_disk B part img name cs ys s" using assms by (simp add: kernel_disk_def)
  from mounted_ready [OF assms(1) this] obtain s1 f n where s1: "FAT_Initialize B part s = Some (True, s1)" "fat_data.more s1 = fat_data.more s"
    "disk_ready B part img f n (root_bytes part img) cs ys (replicate 10 False) 0 name s1" by blast
  from kernel_segments [OF s1(3) assms(7)] s1(1) more_memory [OF s1(2)] show ?thesis
    unfolding segments_in_def seg_byte_def by auto
qed

theorem elf_segments_loaded_witness:
  "\<exists>s1 s2. FAT_Initialize floppy_bios floppy_part floppy_loader = Some (True, s1) \<and>
    ELF_Read floppy_bios floppy_part (replicate 256 0xCC) kernel_elf s1 = Some (Some 0x100000, s2) \<and>
    (\<forall>k < 600. ldr_mem s2 (0x100000 + of_nat k) = (if k < 428 then 0x90 else if k < 516 then 0xC3 else 0))"
proof -
  have c: "components_ok (length (replicate 256 (0xCC :: u8))) floppy_path" using floppy_components by simp
  have i: "fat_index (short_name (hd floppy_path)) (root_bytes floppy_part floppy_image) < 15" by (simp add: floppy_root_bytes floppy_index)
  from elf_segments_loaded [OF floppy_memory floppy_part_ok floppy_volume floppy_fat_path [unfolded floppy_vol_def] c i floppy_elf,
    folded seg_byte_def segments_in_def] obtain s1 s2 where
    r: "FAT_Initialize floppy_bios floppy_part floppy_loader = Some (True, s1)"
    "ELF_Read floppy_bios floppy_part (replicate 256 0xCC) kernel_elf s1 = Some (Some 0x100000, s2)" "segments_in (ldr_mem s2) floppy_file"
    unfolding floppy_path_text floppy_elf_fields by blast
  show ?thesis using r(1,2) floppy_in_memory [OF r(3)] by blast
qed

text \<open>C12: Mounting a FAT12 or FAT16 volume (sectors of 512 bytes), opening a path and reading from the
  file delivers the bytes that the tree of directories on the disk gives for that path: the root
  directory's sectors, then for every name the first entry with that short name and the bytes of
  the chain of clusters that starts in it, as long as the entry's size says. Conditions: a BIOS
  that answers every valid request (an existing cylinder, head and sector, 1 to 128 sectors that
  the disk has) within three attempts, and reads on across the end of a track; the last name has a
  dot and an extension of at least three characters (a shorter one gets a stray character), and
  every name fits the buffer; no cluster of the chains has a FAT12 entry that crosses the end of a
  sector of the table, and the five sectors of the table from each entry on, which the cache
  takes, are on the disk.\<close>

theorem file_read_by_path:
  assumes "fat_memory s" "part_ok B part img" "fat_volume part img"
    "fat_path part img (volume_of part img s) (root_bytes part img) cs ys" "components_ok (length name) cs"
  shows "\<exists>s1 s2 s3. FAT_Initialize B part s = Some (True, s1) \<and>
    FAT_Open B part name (47 # slashed cs) s1 = Some (Some 0, s2) \<and> FAT_Read B part 0 c s2 = Some (take (unat c) ys, s3)"
  using assms by (rule file_by_path)

theorem file_read_by_path_witness:
  "\<exists>s1 s2 s3. FAT_Initialize floppy_bios floppy_part floppy_loader = Some (True, s1) \<and>
    FAT_Open floppy_bios floppy_part (replicate 256 0xCC) kernel_elf s1 = Some (Some 0, s2) \<and>
    FAT_Read floppy_bios floppy_part 0 84 s2 = Some (floppy_head, s3)"
proof -
  have "components_ok (length (replicate 256 (0xCC :: u8))) floppy_path" using floppy_components by simp
  from file_read_by_path [OF floppy_memory floppy_part_ok floppy_volume floppy_fat_path [unfolded floppy_vol_def] this, of 84]
  show ?thesis unfolding floppy_path_text by (simp add: floppy_file_def floppy_lengths)
qed

text \<open>C13: A read of 1 to 128 consecutive sectors that lie on the disk delivers exactly these sectors into
  the caller's array and nothing behind them: the cylinder, head and sector that the address is
  turned into exist on the disk, fit the registers of the BIOS call and name the address again,
  and up to two refused attempts are repeated after a reset. Conditions: at most 1024 cylinders,
  256 heads and 63 sectors; a BIOS that answers every valid request (an existing cylinder, head
  and sector, 1 to 128 sectors that the disk has) within three attempts, and reads on across the
  end of a track.\<close>

theorem disk_read_addressed:
  assumes "serves B d img" "chs_ok d" "count \<noteq> 0" "count \<le> 128" "unat lba + unat count \<le> chs_limit d" "512 * unat count \<le> length data"
  shows "\<exists>n. DISK_ReadSectors B d lba count data s =
    Some (True, sectors_of img (unat lba) (unat count) @ drop (512 * unat count) data, s\<lparr>bios_calls := n\<rparr>)"
  using assms by (rule Disk_read_ok)

theorem disk_read_addressed_witness:
  "\<exists>n. DISK_ReadSectors floppy_bios floppy_disk 2 1 (replicate 512 0) floppy_loader =
    Some (True, floppy_image 2, floppy_loader\<lparr>bios_calls := n\<rparr>)"
  using disk_read_addressed [OF floppy_serves floppy_chs, of 1 2 "replicate 512 0" floppy_loader] floppy_limit by simp

text \<open>C14: The loader's memory map has a region for each block that the BIOS lists, at most 256, in their
  order and inside the array (an answer of less than 24 bytes keeps the ACPI field of the block
  before it, or of the uninitialised variable). A kernel that is booted with this map, on a
  machine whose keyboard controller at some time reports an empty buffer, comes up well formed,
  whatever interrupts arrive meanwhile.\<close>

theorem memory_map_handed_over:
  fixes k :: "'a shell_scheme"
  assumes "memory_detection_done s = 0" "length (g_MemRegions s) = MAX_REGIONS" "early [] k" "masks_read_back inb"
    "\<exists>n. status n AND KEYBOARD_OUTPUT_BUFFER_FULL = 0"
  shows "\<exists>s' k'. Memory_Detect B block s = Some s' \<and> length (e820_blocks MAX_REGIONS B block 0) \<le> 256 \<and>
    RegionCount (g_BootParams s') = int (length (e820_blocks MAX_REGIONS B block 0)) \<and>
    take (length (e820_blocks MAX_REGIONS B block 0)) (Regions (g_BootParams s')) = map region_of (e820_blocks MAX_REGIONS B block 0) \<and>
    start inb status addr e irqs (g_BootParams s') k = Some k' \<and> kernel_ok k'"
proof -
  from Memory_Detect_ok [OF assms(1,2)] obtain s' where s': "Memory_Detect B block s = Some s'"
    "RegionCount (g_BootParams s') = int (length (e820_blocks MAX_REGIONS B block 0))"
    "take (length (e820_blocks MAX_REGIONS B block 0)) (Regions (g_BootParams s')) = map region_of (e820_blocks MAX_REGIONS B block 0)"
    "RegionCount (g_BootParams s') \<le> int (length (Regions (g_BootParams s')))" by blast
  have "calm False irqs" by (simp add: calm_def)
  from start_ok [OF assms(3,4,5) s'(4) this, of addr e] obtain k' where "start inb status addr e irqs (g_BootParams s') k = Some k'"
    "prompted False boot_log k'" by blast
  then show ?thesis
    using s' e820_blocks_length [of MAX_REGIONS B block 0] by (auto simp: prompted_def running_def up_def MAX_REGIONS_def)
qed

theorem memory_map_handed_over_witness:
  "\<exists>s' k'. Memory_Detect floppy_bios stack_block floppy_loader = Some s' \<and> RegionCount (g_BootParams s') = 2 \<and>
    start last_out (\<lambda>_. 0) of_int \<lparr>env_irqs = (\<lambda>_. 0), env_regs = no_regs\<rparr> (\<lambda>_. [Tick]) (g_BootParams s') image = Some k' \<and> kernel_ok k'"
proof -
  have m: "masks_read_back (last_out :: u16 \<Rightarrow> shell \<Rightarrow> u8)" by (simp add: masks_read_back_def)
  have "\<exists>n. (\<lambda>_ :: nat. 0 :: u8) n AND KEYBOARD_OUTPUT_BUFFER_FULL = 0" by simp
  from memory_map_handed_over [OF floppy_undetected image_early m this, of floppy_bios stack_block of_int
    "\<lparr>env_irqs = (\<lambda>_. 0), env_regs = no_regs\<rparr>" "\<lambda>_. [Tick]"] floppy_blocks
  show ?thesis by auto
qed

text \<open>C15: The loader's own \<open>printf\<close> and the kernel's leave the same picture and cursor for
  every format and arguments, on screens that look the same before; they differ only in what they
  send to the ports.\<close>

theorem loader_prints_like_kernel:
  assumes "same_screen s t"
  shows "same_screen (s2_printf fmt args s) (printf fmt args t)"
  using assms by (rule printf_same)

theorem loader_prints_like_kernel_witness:
  "vram (s2_printf ''Boot %d'' [VI 1] (boot\<lparr>ports := [(0x20, 0x20)]\<rparr>)) = vram (printf ''Boot %d'' [VI 1] boot)"
  using loader_prints_like_kernel [of "boot\<lparr>ports := [(0x20, 0x20)]\<rparr>" boot "''Boot %d''" "[VI 1]"] by (simp add: same_screen_def)

section \<open>The host tool\<close>

text \<open>C16: The host tool and the boot loader read the same bytes of a file: on an image of a FAT12 volume
  whose table fits the tool's memory, mounting, opening an entry and reading gives in both
  programs the bytes of the entry's chain of clusters, although one walks the table in memory with
  12-bit end marks and the other a cache with widened ones. Conditions: no cluster of the chain
  has a table entry that crosses the end of a sector (there the loader may read behind its cache,
  the tool does not), and the five sectors of the table from each entry on are on the disk; the
  loader runs on a BIOS that answers every valid request (an existing cylinder, head and sector, 1
  to 128 sectors that the disk has) within three attempts, and reads on across the end of a track.\<close>

theorem image_tool_agrees_with_loader:
  fixes s :: "'a fat_data_scheme"
  assumes "fat_memory s" "part_ok B part img" "fat_volume part img"
    and "image_holds (image_file t) part img N" "tool_image alloc part img N" "tool_memory t"
    and "entry_file part img (volume_of part img s) e cs ys" "\<not> entry_is_dir e"
    and "tool_chain part img (volume_of part img s) N (unat (le16 (part_image part img 0) 22)) cs"
  shows "\<exists>s1 s2 s3 t1 t2 t3. FAT_Initialize B part s = Some (True, s1) \<and> FAT_OpenEntry B part e s1 = Some (Some 0, s2) \<and>
    FAT_Read B part 0 c s2 = Some (take (unat c) ys, s3) \<and>
    FAT_Initialize_tool alloc t = Some (True, t1) \<and> FAT_OpenEntry_tool e t1 = Some (Some 0, t2) \<and>
    FAT_Read_tool 0 c t2 = Some (take (unat c) ys, t3)"
  using loader_reads_entry [OF assms(1-3,7)] tool_reads_entry [OF assms(4-9)] by blast

theorem image_tool_agrees_with_loader_witness:
  "\<exists>s1 s2 s3 t1 t2 t3. FAT_Initialize floppy_bios floppy_part floppy_loader = Some (True, s1) \<and>
    FAT_OpenEntry floppy_bios floppy_part (dir_entry (take 32 floppy_dir)) s1 = Some (Some 0, s2) \<and>
    FAT_Read floppy_bios floppy_part 0 84 s2 = Some (floppy_head, s3) \<and> FAT_Initialize_tool host_malloc floppy_tool = Some (True, t1) \<and>
    FAT_OpenEntry_tool (dir_entry (take 32 floppy_dir)) t1 = Some (Some 0, t2) \<and> FAT_Read_tool 0 84 t2 = Some (floppy_head, t3)"
proof -
  have "unat (le16 (part_image floppy_part floppy_image 0) 22) = 1" by (simp add: floppy_sector floppy_image_0 floppy_fields)
  then have "tool_chain floppy_part floppy_image (volume_of floppy_part floppy_image floppy_loader) 32
      (unat (le16 (part_image floppy_part floppy_image 0) 22)) [3, 4]"
    using floppy_tool_chain by (simp add: floppy_vol_def)
  from image_tool_agrees_with_loader [OF floppy_memory floppy_part_ok floppy_volume floppy_holds floppy_tool_image floppy_tool_memory
    floppy_kernel_entry [unfolded floppy_vol_def] floppy_not_dir this, of 84]
  show ?thesis by (simp add: floppy_file_def floppy_lengths)
qed

text \<open>C17: The loop in \<open>main\<close> that reads a file in pieces of 100 bytes returns: after every
  read the position has moved on, up to the end of the file, where a read delivers nothing. The
  file is one of a FAT12 image whose table fits the tool's memory, with a chain of clusters none
  of whose table entries crosses the end of a sector.\<close>

theorem image_tool_reads_to_the_end:
  fixes s0 :: "'a fat_data_scheme"
  assumes "image_holds (image_file t) part img N" "tool_image alloc part img N" "tool_memory t"
    and "entry_file part img (volume_of part img s0) e cs ys" "\<not> entry_is_dir e"
    and "tool_chain part img (volume_of part img s0) N (unat (le16 (part_image part img 0) 22)) cs"
  shows "\<exists>t1 t2 t3. FAT_Initialize_tool alloc t = Some (True, t1) \<and> FAT_OpenEntry_tool e t1 = Some (Some 0, t2) \<and>
    read_all 0 t2 = Some t3"
  using tool_reads_entry [OF assms] by blast

theorem image_tool_reads_to_the_end_witness:
  "\<exists>t1 t2 t3. FAT_Initialize_tool host_malloc floppy_tool = Some (True, t1) \<and>
    FAT_OpenEntry_tool (dir_entry (take 32 floppy_dir)) t1 = Some (Some 0, t2) \<and> read_all 0 t2 = Some t3"
proof -
  have "unat (le16 (part_image floppy_part floppy_image 0) 22) = 1" by (simp add: floppy_sector floppy_image_0 floppy_fields)
  then have "tool_chain floppy_part floppy_image (volume_of floppy_part floppy_image floppy_loader) 32
      (unat (le16 (part_image floppy_part floppy_image 0) 22)) [3, 4]"
    using floppy_tool_chain by (simp add: floppy_vol_def)
  from image_tool_reads_to_the_end [OF floppy_holds floppy_tool_image floppy_tool_memory floppy_kernel_entry [unfolded floppy_vol_def]
    floppy_not_dir this] show ?thesis by blast
qed

text \<open>C18: In the host tool the root directory goes wrong after its first sector: what follows the first
  512 bytes is sector 1 of the image (part of the reserved area or of the allocation table),
  because \<open>FAT_Initialize\<close> sets the directory's current cluster to 0 and not to the
  sector that it starts at.\<close>

theorem image_tool_root_second_sector:
  assumes "image_holds (image_file t) part img N" "tool_image alloc part img N" "tool_memory t" "2 < N"
  shows "\<exists>t1 t2. FAT_Initialize_tool alloc t = Some (True, t1) \<and>
    FAT_Read_tool ROOT_DIRECTORY_HANDLE 1024 t1 =
      Some (part_image part img (root_first (part_image part img 0)) @ part_image part img 1, t2)"
  using assms by (rule tool_root_wrong)

theorem image_tool_root_second_sector_witness:
  "\<exists>t1 t2. FAT_Initialize_tool host_malloc floppy_tool = Some (True, t1) \<and>
    FAT_Read_tool ROOT_DIRECTORY_HANDLE 1024 t1 = Some (floppy_root @ floppy_table, t2)"
proof -
  have "floppy_image 2 = floppy_root" "floppy_image (Suc 0) = floppy_table" by (simp_all add: floppy_image_def)
  then show ?thesis using image_tool_root_second_sector [OF floppy_holds floppy_tool_image floppy_tool_memory]
    by (simp add: floppy_sector floppy_image_0 floppy_root_place)
qed

section \<open>The heap allocator\<close>

text \<open>C19: \<open>malloc\<close> (syscall 3) implements first-fit allocation on the abstract block list: on
  a well-formed heap it returns the payload address that \<open>a_malloc\<close> computes (NULL
  when no free block is large enough), leaves in memory a header chain for the new block list, and
  changes no byte outside the block headers.\<close>

theorem malloc_refines_first_fit:
  assumes "heap_rel s bs" "n \<noteq> 0" "a_malloc (unat (align_block n)) 0x400000 bs = (p, cs)"
  shows "\<exists>m'. sys_handler_malloc n s = Some (of_nat p, s\<lparr>mem := m'\<rparr>) \<and> heap_rel (s\<lparr>mem := m'\<rparr>) cs \<and>
    (\<forall>b. unat b \<notin> headers 0x400000 cs \<longrightarrow> m' b = mem s b)"
  using assms by (rule malloc_refines)

theorem malloc_refines_first_fit_witness:
  "\<exists>m'. sys_handler_malloc 100 demo = Some (0x400118, demo\<lparr>mem := m'\<rparr>) \<and>
    heap_rel (demo\<lparr>mem := m'\<rparr>) [(256, False), (128, False), (0xFFE5C, True)]"
proof -
  have "a_malloc (unat (align_block 100)) 0x400000 [(256, False), (0xFFEE8, True)] =
    (0x400118, [(256, False), (128, False), (0xFFE5C, True)])"
    by (simp add: align_block_nat)
  from malloc_refines_first_fit [OF demo_heap_rel _ this] show ?thesis by auto
qed

text \<open>C20: \<open>free\<close> (syscall 4) of a block in use marks it free and merges neighbouring free
  blocks, exactly as \<open>a_free\<close> does on the block list, and changes no byte outside the
  headers.\<close>

theorem free_refines_merge:
  assumes "heap_rel s bs" "(p, k) \<in> used 0x400000 bs"
  shows "\<exists>m'. sys_handler_free (of_nat p) s = Some (SYSCALL_OK, s\<lparr>mem := m'\<rparr>) \<and>
    heap_rel (s\<lparr>mem := m'\<rparr>) (a_free p 0x400000 bs) \<and>
    (\<forall>b. unat b \<notin> headers 0x400000 bs \<longrightarrow> m' b = mem s b)"
  using assms by (rule free_refines)

theorem free_refines_merge_witness:
  "\<exists>m'. sys_handler_free 0x40000C demo = Some (SYSCALL_OK, demo\<lparr>mem := m'\<rparr>) \<and>
    heap_rel (demo\<lparr>mem := m'\<rparr>) [(0xFFFF4, True)]"
  using free_refines_merge [OF demo_heap_rel, of "0x40000C" 256] by (auto simp: a_free_def)

text \<open>C21: a \<open>free\<close> right after a successful \<open>malloc\<close> restores the block list the
  heap had.\<close>

theorem malloc_then_free:
  assumes "heap_rel s bs" "n \<noteq> 0" "sys_handler_malloc n s = Some (q, s1)" "q \<noteq> 0"
  shows "\<exists>s2. sys_handler_free q s1 = Some (SYSCALL_OK, s2) \<and> heap_rel s2 bs"
  using assms by (rule malloc_free_undo)

theorem malloc_then_free_witness:
  "\<exists>q s1 s2. sys_handler_malloc 100 demo = Some (q, s1) \<and> sys_handler_free q s1 = Some (SYSCALL_OK, s2) \<and>
    heap_rel s2 [(256, False), (0xFFEE8, True)]"
proof -
  have "a_malloc (unat (align_block 100)) 0x400000 [(256, False), (0xFFEE8, True)] =
    (0x400118, [(256, False), (128, False), (0xFFE5C, True)])"
    by (simp add: align_block_nat)
  from malloc_refines [OF demo_heap_rel _ this] obtain s1 where "sys_handler_malloc 100 demo = Some (0x400118, s1)"
    by auto
  with malloc_then_free [OF demo_heap_rel _ this] show ?thesis by auto
qed

text \<open>C22: On a heap that is uninitialised or well formed, \<open>malloc\<close> of 1 to
  \<open>0xFFFFFFE0\<close> bytes returns, keeps the heap well formed and leaves the bytes of
  every live block and every byte outside the arena unchanged; a non-NULL result is a new block of
  at least the requested size inside the arena that overlaps no live block.\<close>

theorem malloc_fresh_disjoint:
  assumes "heap_ok s" "n \<noteq> 0" "n \<le> 0xFFFFFFE0"
  shows "\<exists>p s'. sys_handler_malloc n s = Some (p, s') \<and> heap_ok s' \<and> same_on (heap_live s) heap_arena (mem s) (mem s') \<and>
    (if p = 0 then heap_live s' = heap_live s
     else (\<exists>k \<ge> unat n. heap_live s' = insert (unat p, k) (heap_live s) \<and> payload (unat p, k) \<subseteq> heap_arena \<and>
       (\<forall>b \<in> heap_live s. payload b \<inter> payload (unat p, k) = {})))"
proof -
  from kmalloc.alloc_spec [OF assms] obtain p s' where r: "sys_handler_malloc n s = Some (p, s')" "heap_ok s'"
    "same_on (heap_live s) heap_arena (mem s) (mem s')"
    "if p = 0 then heap_live s' = heap_live s
     else unat p \<notin> fst ` heap_live s \<and> (\<exists>k \<ge> unat n. heap_live s' = insert (unat p, k) (heap_live s))"
    by blast
  have "\<exists>k \<ge> unat n. heap_live s' = insert (unat p, k) (heap_live s) \<and> payload (unat p, k) \<subseteq> heap_arena \<and>
      (\<forall>b \<in> heap_live s. payload b \<inter> payload (unat p, k) = {})" if p: "p \<noteq> 0"
  proof -
    from r(4) p obtain k where k: "unat n \<le> k" "heap_live s' = insert (unat p, k) (heap_live s)"
      and new: "unat p \<notin> fst ` heap_live s" by auto
    have "payload b \<inter> payload (unat p, k) = {}" if "b \<in> heap_live s" for b
      using kmalloc.live_disjoint [OF r(2), of "fst b" "snd b" "unat p" k] that k(2) new by force
    moreover have "payload (unat p, k) \<subseteq> heap_arena" using kmalloc.live_arena [OF r(2), of "unat p" k] k(2) by simp
    ultimately show ?thesis using k by blast
  qed
  with r show ?thesis by auto
qed

theorem malloc_fresh_disjoint_witness:
  "\<exists>p s'. sys_handler_malloc 100 demo = Some (p, s') \<and> heap_ok s' \<and> same_on {(0x40000C, 256)} heap_arena (mem demo) (mem s')"
  using malloc_fresh_disjoint [OF demo_heap_ok, of 100] demo_live by auto

text \<open>C23: A size above \<open>0xFFFFFFE0\<close> wraps to 0 when it is rounded up to the block size, so on
  a heap with any free block \<open>malloc\<close> does not fail: it returns a non-NULL block that
  is smaller than the requested size.\<close>

theorem malloc_size_wraps:
  assumes "heap_rel s bs" "n > 0xFFFFFFE0" "\<exists>sz. (sz, True) \<in> set bs"
  shows "\<exists>q s' k. sys_handler_malloc n s = Some (q, s') \<and> q \<noteq> 0 \<and> (unat q, k) \<in> heap_live s' \<and> k < unat n"
proof -
  have "unat n + 31 - 2 ^ 32 < 32" "2 ^ 32 \<le> unat n + 31"
    using assms(2) unat_u32_less [of n] by (simp_all add: word_less_nat_alt)
  then have "unat (n + 31) div 32 = 0" by (simp add: unat_word_ariths mod_if)
  moreover have "align_block n = (n + 31) AND NOT 31" by (simp add: align_block_def heap_consts add.commute)
  ultimately have "unat (align_block n) = 0" by (simp only: and_not_31)
  moreover obtain p cs where a: "a_malloc 0 0x400000 bs = (p, cs)" by fastforce
  moreover have "n \<noteq> 0" using assms(2) by auto
  ultimately obtain m' where m': "sys_handler_malloc n s = Some (of_nat p, s\<lparr>mem := m'\<rparr>)" "heap_rel (s\<lparr>mem := m'\<rparr>) cs"
    using malloc_refines [OF assms(1), of n p cs] by auto
  have p: "p \<noteq> 0"
  proof
    assume "p = 0"
    with a_malloc_fail [of 0 "0x400000" bs cs] a have "\<forall>(sz, fr) \<in> set bs. \<not> fr" by simp
    with assms(3) show False by auto
  qed
  from a_malloc_used [OF a this] obtain k where k: "(p, k) \<in> used 0x400000 cs" by auto
  then have rng: "p + k \<le> 0x500000" "0x40000C \<le> p"
    using used_total [of p k cs] m'(2) by (auto simp: heap_rel_def)
  then have u: "unat (of_nat p :: u32) = p" by (simp add: unat_of_nat_u32)
  moreover have "(of_nat p :: u32) \<noteq> 0" using p u by (metis unat_0)
  moreover have "k < unat n" using rng assms(2) by (simp add: word_less_nat_alt)
  ultimately show ?thesis using m' k heap_live_eq [OF m'(2)] by auto
qed

theorem malloc_size_wraps_witness:
  "\<exists>q s' k. sys_handler_malloc 0xFFFFFFF0 demo = Some (q, s') \<and> q \<noteq> 0 \<and> (unat q, k) \<in> heap_live s' \<and> k < 0xFFFFFFF0"
  using malloc_size_wraps [OF demo_heap_rel, of "0xFFFFFFF0"] by simp

section \<open>The virtual file system\<close>

text \<open>C24: \<open>write\<close> of 1 to 65535 bytes from a buffer outside the heap, through a writable
  descriptor whose position is within its file, a file that is stored on the heap (any but the two
  default files, whose data are string literals) and is shorter than 64 KiB, either stores all
  \<open>count\<close> bytes at the descriptor's position, growing the file when needed, and
  advances the position, or reports out-of-memory and leaves the file as it was; no other heap
  file and no other descriptor changes, and the file-system invariant holds afterwards.\<close>

theorem write_overwrites:
  fixes s :: "'a ksys_scheme" and count fd buffer :: u32
  assumes "fs_ok s" "open_file s fd k" "heap_file s k" "fd_flags (file_descriptors s ! unat fd) AND OPEN_WRITE \<noteq> 0"
    "user_buf buffer (unat count)" "count \<noteq> 0" "unat count < 2 ^ 16" "length (content s k) < 2 ^ 16"
  shows "\<exists>r s'. sys_handler_write fd buffer count s = Some (r, s') \<and> fs_ok s' \<and> heap_file s' k \<and>
    (\<forall>j. heap_file s j \<and> j \<noteq> k \<longrightarrow> heap_file s' j \<and> content s' j = content s j) \<and>
    (\<forall>i. i \<noteq> unat fd \<longrightarrow> file_descriptors s' ! i = file_descriptors s ! i) \<and>
    (if r = count
     then content s' k = overwrite (fd_pos s fd) (bytes_at (mem s) buffer (unat count)) (content s k) \<and>
       fd_pos s' fd = fd_pos s fd + unat count \<and> open_file s' fd k
     else r = SYSCALL_OUT_OF_MEMORY \<and> content s' k = content s k \<and> fd_pos s' fd = fd_pos s fd)"
  using assms by (rule write_ok)

theorem write_overwrites_witness:
  "\<exists>r s'. sys_handler_write 3 0x2000 2 demo = Some (r, s') \<and> fs_ok s' \<and>
    (r = 2 \<longrightarrow> fd_pos s' 3 = 2 \<and> content s' 0 = overwrite 0 (bytes_at (mem demo) 0x2000 2) (content demo 0))"
proof -
  have "fd_flags (file_descriptors demo ! unat (3 :: u32)) AND OPEN_WRITE \<noteq> 0" "user_buf 0x2000 (unat (2 :: u32))" "(2 :: u32) \<noteq> 0"
    "unat (2 :: u32) < 2 ^ 16" "length (content demo 0) < 2 ^ 16"
    using demo_flags demo_content by (simp_all add: user_buf_def del: length_content)
  from write_overwrites [OF demo_fs_ok demo_open(1) demo_heap_file this] show ?thesis
    by (auto simp: demo_open)
qed

text \<open>C25: Bytes written successfully through one descriptor are what another descriptor at the same
  position (within the file) of the same file reads back, for 1 to 65535 bytes, buffers outside
  the heap, and a file that is stored on the heap (any but the two default files) and was shorter
  than 64 KiB.\<close>

theorem write_then_read:
  fixes s :: "'a ksys_scheme"
  assumes "fs_ok s" "open_file s fd k" "open_file s fd' k" "fd \<noteq> fd'" "heap_file s k" "fd_pos s fd' = fd_pos s fd"
    "fd_flags (file_descriptors s ! unat fd) AND OPEN_WRITE \<noteq> 0" "count \<noteq> 0" "unat count < 2 ^ 16"
    "length (content s k) < 2 ^ 16" "user_buf src (unat count)" "user_buf dst (unat count)"
    "sys_handler_write fd src count s = Some (count, s1)"
  shows "\<exists>s2. sys_handler_read fd' dst count s1 = Some (count, s2) \<and> fs_ok s2 \<and>
    bytes_at (mem s2) dst (unat count) = bytes_at (mem s) src (unat count)"
  using assms by (rule write_read)

theorem write_then_read_witness:
  "\<exists>s1 s2. sys_handler_write 3 0x2000 2 demo = Some (2, s1) \<and> sys_handler_read 4 0x3000 2 s1 = Some (2, s2) \<and>
    bytes_at (mem s2) 0x3000 2 = bytes_at (mem demo) 0x2000 2"
proof -
  obtain s1 where s1: "sys_handler_write 3 0x2000 2 demo = Some (2, s1)" using demo_write by blast
  have "fd_flags (file_descriptors demo ! unat (3 :: u32)) AND OPEN_WRITE \<noteq> 0" "user_buf 0x2000 (unat (2 :: u32))"
    "user_buf 0x3000 (unat (2 :: u32))" "length (content demo 0) < 2 ^ 16"
    using demo_flags demo_content by (simp_all add: user_buf_def del: length_content)
  with write_then_read [OF demo_fs_ok demo_open(1,2) _ demo_heap_file _ _ _ _ _ _ _ s1, of "0x3000"] s1 show ?thesis
    by (auto simp: demo_open)
qed

text \<open>C26: \<open>open\<close> of a path shorter than 64 bytes either yields a descriptor that was free on
  the file of that name (creating an empty file on the heap when asked to and none exists), or
  fails with not-found without any effect, or with out-of-memory without opening anything; heap
  files stay, with their contents unless truncation was asked for, and the file-system invariant
  holds afterwards.\<close>

theorem open_spec:
  assumes "fs_ok s" "path_ptr \<noteq> 0" "cstr_at (mem s) path_ptr path" "length path < 64"
  shows "\<exists>r s'. sys_handler_open path_ptr flags s = Some (r, s') \<and> fs_ok s' \<and>
    (opened path flags s r s' \<or>
     r = SYSCALL_OUT_OF_MEMORY \<and> file_descriptors s' = file_descriptors s \<or>
     r = SYSCALL_NOT_FOUND \<and> s' = s \<and> \<not> has_file s path) \<and>
    (\<forall>j. heap_file s j \<longrightarrow> heap_file s' j) \<and>
    (flags AND OPEN_TRUNCATE = 0 \<longrightarrow> (\<forall>j. heap_file s j \<longrightarrow> content s' j = content s j))"
  using assms by (rule open_ok)

theorem open_spec_witness: "\<exists>r s'. sys_handler_open 0x1000 1 demo = Some (r, s') \<and> fs_ok s' \<and> heap_file s' 0"
  using open_spec [OF demo_fs_ok _ demo_path, of 1] demo_heap_file by auto

section \<open>The RAM file system and its commands\<close>

text \<open>C27: Each of the file commands \<open>ls\<close>, \<open>cd\<close>, \<open>pwd\<close>,
  \<open>mkdir\<close>, \<open>rm\<close>, \<open>cat\<close>, \<open>touch\<close>,
  \<open>find\<close>, \<open>grep\<close> and \<open>wc\<close> that runs to its end, with any
  arguments, keeps the file system well formed: kernel invariants, a tree of directories under the
  root, names inside their arrays, and each file's data in a heap block of its own that is large
  enough. The one file command not included is \<open>edit\<close>, which breaks this when it
  saves a positive multiple of 256 bytes.\<close>

theorem file_commands_keep_well_formed:
  assumes "c \<in> {CMD_ls, CMD_cd, CMD_pwd, CMD_mkdir, CMD_rm, CMD_cat, CMD_touch, CMD_find, CMD_grep, CMD_wc}"
    "ramfs_ok s" "\<forall>a \<in> set argv. is_cstr a" "run_command c m argv s = Some (r, s')"
  shows "ramfs_ok s'"
  using assms by (intro file_command_keeps [of c s argv m r s']) (auto simp: file_commands_def)

theorem file_commands_keep_well_formed_witness:
  "\<exists>s'. run_command CMD_rm live_machine [bytes ''rm'', [102]] live = Some (0, s') \<and> ramfs_ok s'"
proof -
  have c: "\<forall>a \<in> set [bytes ''rm'', [102]]. is_cstr a" by (simp add: is_cstr_def bytes_def)
  have "\<not> has_child (ram_files live) 1"
    by (simp add: has_child_def live_taken parent_def live_nth live_file_def live_dir_def)
  then obtain s' where "run_command CMD_rm live_machine [bytes ''rm'', [102]] live = Some (0, s')"
    using cmd_rm_ok [OF live_ramfs_ok, of "[bytes ''rm'', [102]]" live_machine] c live_find(1)
    by (auto simp: run_command_def)
  with file_commands_keep_well_formed [OF _ live_ramfs_ok c this] show ?thesis by simp
qed

text \<open>C28: What a successful write stores in a file of the RAM file system, under a name of at most 31
  characters and with a size that is not a positive multiple of 256 (and below 2^31), is what
  reading the file by its name into a buffer of at least that size returns, with its length, and
  the rest of the reader's buffer is untouched.\<close>

theorem ram_write_then_read:
  assumes "ramfs_ok s" "is_cstr name" "length name \<le> 31" "good_size sz" "unat sz \<le> length data"
    "ramfs_write_file e name data sz s = Some (r, s')" "0 \<le> r" "unat sz \<le> unat bs" "unat sz \<le> length buf"
  shows "r = int (unat sz) \<and> ramfs_read_file name buf bs s' = Some (r, take (unat sz) data @ drop (unat sz) buf)"
  using assms by (rule write_file_read_file)

theorem ram_write_then_read_witness:
  "\<exists>s'. ramfs_write_file (m_env live_machine) [102] (bytes ''abc'') 3 live = Some (3, s') \<and>
    ramfs_read_file [102] [0, 0, 0, 7] 4 s' = Some (3, bytes ''abc'' @ [7])"
proof -
  have c: "is_cstr [102]" "length [102 :: u8] \<le> 31" "good_size 3" "unat (3 :: u32) \<le> length (bytes ''abc'')"
    by (simp_all add: is_cstr_def good_size_def)
  from memcpy_out_ok [OF c(4), of demo_mem "0x40000C"] obtain mm where
    m: "shell_memcpy_out demo_mem 0x40000C (bytes ''abc'') 3 = Some mm" by auto
  have "write_expand (m_env live_machine) 1 3 live = Some (True, live)" by (simp add: write_expand_def live_nth live_file_def)
  then have "\<exists>s'. ramfs_write_file (m_env live_machine) [102] (bytes ''abc'') 3 live = Some (3, s')"
    using m live_find(1) by (simp add: ramfs_write_file_def write_data_def live_nth live_file_def)
  then obtain s' where w: "ramfs_write_file (m_env live_machine) [102] (bytes ''abc'') 3 live = Some (3, s')" by blast
  from ram_write_then_read [OF live_ramfs_ok c w, of 4 "[0, 0, 0, 7]"] w show ?thesis by (simp add: bytes_def)
qed

text \<open>C29: An editing session on an existing file, whose keys (at most 255 waiting or still to be pressed)
  are lines as typed, with backspaces, other than \<open>SAVE\<close> and \<open>QUIT\<close> and
  never longer than the line buffer, and then \<open>SAVE\<close>: when the old text followed by
  the lines as edited has a length that is not a positive multiple of 256 and is below 4095, then
  the file holds exactly this text and the message \<open>saved\<close> with its length is
  printed, if the file's block is large enough or the heap has a free block of the size rounded up
  to 256; if there is no such block, the file is as before and the error -3 is printed. Nothing
  else in the file system changes.\<close>

theorem edit_session_saves:
  assumes "input_ok s" "ramfs_ok s" "length argv \<ge> 2" "is_cstr (argv ! 1)" "text_file (argv ! 1) s = Some k"
    "typed s = session ls rest" "list_all line_ok ls" "length (file_view s k @ text_of ls) < 4095"
    "new = file_view s k @ text_of ls" "new = [] \<or> length new mod 256 \<noteq> 0"
  shows "\<exists>s' u. cmd_edit m argv s = Some (0, s') \<and> ramfs_ok s' \<and> same_tree k s s' \<and>
    (if length new \<le> unat (rf_capacity (ram_files s ! k)) \<or> heap_room ((length new + 255) div 256 * 256) s
     then file_bytes s' k = new \<and> s' = printf ''File '%s' saved (%d bytes)\<newline>'' [VS (argv ! 1), VI (of_nat (length new))] u
     else file_bytes s' k = file_bytes s k \<and> s' = printf ''Error saving file: %d\<newline>'' [VI (- 3)] u)"
  using cmd_edit_session [OF assms] unfolding room_for_def .

theorem edit_session_saves_witness:
  "\<exists>s'. cmd_edit live_machine [bytes ''edit'', [102]] (live_typed (session [[97, 98, 8]] [])) = Some (0, s') \<and> ramfs_ok s' \<and>
    file_bytes s' 1 = bytes ''helloa\<newline>''"
proof -
  let ?w = "session [[97, 98, 8]] []" and ?argv = "[bytes ''edit'', [102 :: u8]]"
  have len: "length ?w < 256" by (simp add: session_def)
  have v: "file_view (live_typed ?w) 1 = bytes ''hello''"
    using live_text(2) by (simp add: live_typed_find(4)) (simp add: file_view_def file_bytes_def)
  have t: "text_of [[97, 98, 8]] = [97, 10]" "list_all line_ok [[97, 98, 8]]"
    by (simp_all add: text_of_def line_ok_def bytes_def)
  have new: "bytes ''helloa\<newline>'' = file_view (live_typed ?w) 1 @ text_of [[97, 98, 8]]" unfolding v(1) t(1) by (simp add: bytes_def)
  have f: "text_file (?argv ! 1) (live_typed ?w) = Some 1" by (simp add: live_typed_find live_text)
  have l: "length (file_view (live_typed ?w) 1 @ text_of [[97, 98, 8]]) < 4095" unfolding v(1) t(1) by simp
  have c: "length (bytes ''helloa\<newline>'') \<le> unat (rf_capacity (ram_files (live_typed ?w) ! 1))"
    by (simp add: live_typed_fields live_nth live_file_def)
  from edit_session_saves [OF live_typed_input(1) [OF len] live_typed_ramfs [OF len] _ _ f live_typed_input(2) [OF len] t(2) l new] c
  show ?thesis by (auto simp: is_cstr_def)
qed

text \<open>C30: \<open>rm\<close> fails for a name that is not in the current directory and for a directory that
  still has entries, and then changes no entry; otherwise it frees exactly that entry and leaves
  every other entry and file as it was.\<close>

theorem rm_spares_parents:
  assumes "ramfs_ok s" "length argv \<ge> 2" "is_cstr (argv ! 1)"
  shows "\<exists>r s'. cmd_rm m argv s = Some (r, s') \<and> ramfs_ok s' \<and> ram_current_dir s' = ram_current_dir s \<and>
    (case ramfs_find_file (argv ! 1) (ram_current_dir s) s of
       None \<Rightarrow> r = 1 \<and> ram_files s' = ram_files s
     | Some k \<Rightarrow>
         if has_child (ram_files s) k then r = 1 \<and> ram_files s' = ram_files s
         else r = 0 \<and> others_same k s s' \<and> taken (ram_files s') = taken (ram_files s) - {k})"
  using assms by (rule cmd_rm_ok)

theorem rm_spares_parents_witness:
  "\<exists>s'. cmd_rm live_machine [bytes ''rm'', [100]] live = Some (0, s') \<and> taken (ram_files s') = {0, 1}"
proof -
  have "\<not> has_child (ram_files live) 2"
    by (simp add: has_child_def live_taken parent_def live_nth live_file_def live_dir_def)
  then show ?thesis
    using rm_spares_parents [OF live_ramfs_ok, of "[bytes ''rm'', [100]]" live_machine] live_find(2)
    by (auto simp: live_taken is_cstr_def)
qed

text \<open>C31: \<open>pwd\<close> in any directory whose path is shorter than the 64-byte buffer writes one
  byte past that buffer: with no byte behind it to write to the command faults; with one it prints
  the path.\<close>

theorem pwd_overruns_path_buffer:
  assumes "ramfs_ok s" "path_to (ram_files s) (unat (ram_current_dir s)) ns" "length (path_str ns) < 64"
  shows "cmd_pwd m argv s = (if m_behind m = [] then None else Some (0, say (shown_path ns @ [10]) s))"
  using assms by (rule cmd_pwd_ok)

theorem pwd_overruns_path_buffer_witness:
  "cmd_pwd (live_machine\<lparr>m_behind := []\<rparr>) [bytes ''pwd''] live = None \<and>
    cmd_pwd live_machine [bytes ''pwd''] live = Some (0, say (bytes ''/\<newline>'') live)"
proof -
  have "path_to (ram_files live) (unat (ram_current_dir live)) []" using path_to.root by simp
  from pwd_overruns_path_buffer [OF live_ramfs_ok this] show ?thesis
    by (simp add: path_str_def shown_path_def live_machine_def bytes_def)
qed

text \<open>C32: \<open>grep\<close> on a readable file prints exactly the lines that contain the pattern as a
  substring, with their line numbers, or reports that there is none; on anything else it fails
  with code 1; it changes only the screen.\<close>

theorem grep_finds_lines:
  assumes "ramfs_ok s" "length argv \<ge> 3" "is_cstr (argv ! 2)"
  shows "case text_file (argv ! 2) s of
      None \<Rightarrow> \<exists>t. cmd_grep m argv s = Some (1, say t s)
    | Some k \<Rightarrow>
        (let found = matching_lines (argv ! 1) 1 (lines_of (cstr_of (file_view s k)))
         in cmd_grep m argv s = Some (0, say (if found = []
              then expand (bytes ''Pattern '%s' not found in '%s'\<newline>'') [VS (argv ! 1), VS (argv ! 2)]
              else concat (map numbered found)) s))"
  using assms by (rule cmd_grep_ok)

theorem grep_finds_lines_witness:
  "cmd_grep live_machine [bytes ''grep'', bytes ''ell'', [102]] live = Some (0, say (bytes ''1: hello\<newline>'') live)"
proof -
  have v: "cstr_of (file_view live (Suc 0)) = bytes ''hello''"
    using live_text(2) by (simp add: file_view_def) (simp add: cstr_of_def bytes_def)
  have "sublist (bytes ''ell'') (bytes ''hello'')" by (simp add: sublist_def bytes_def) (metis append_Cons append_Nil)
  moreover have "lines_of (bytes ''hello'') = [bytes ''hello'']" by (rule lines_of_last) (simp_all add: bytes_def)
  ultimately have m: "matching_lines (bytes ''ell'') 1 (lines_of (cstr_of (file_view live (Suc 0)))) = [(1, bytes ''hello'')]" unfolding v by simp
  have t: "numbered (1, bytes ''hello'') = bytes ''1: hello\<newline>''" by code_simp
  show ?thesis using grep_finds_lines [OF live_ramfs_ok, of "[bytes ''grep'', bytes ''ell'', [102]]" live_machine]
    by (simp add: live_text m t is_cstr_def)
qed

section \<open>System calls and boot\<close>

text \<open>C33: \<open>sleep\<close> returns with success at a tick count at least \<open>ms\<close> past the
  one it started at, whenever the timer delivers that many ticks during the first \<open>j\<close>
  of the loop's hundred million passes.\<close>

theorem sleep_long_enough:
  assumes "j \<le> 100000000" "unat ms \<le> sum irqs {0..<j}" "unat (s_ticks s) + sum irqs {0..<j} < 2 ^ 64"
  shows "\<exists>s'. sys_handler_sleep irqs ms s = Some (SYSCALL_OK, s') \<and>
    unat (s_ticks s) + unat ms \<le> unat (s_ticks s')"
  using assms by (rule sleep_waits)

theorem sleep_long_enough_witness:
  "\<exists>s'. sys_handler_sleep (\<lambda>_. 1) 5 demo = Some (SYSCALL_OK, s') \<and> 5 \<le> unat (s_ticks s')"
  using sleep_long_enough [of 10 5 "\<lambda>_. 1" demo] by (auto simp: demo_fields)

section \<open>The keyboard\<close>

text \<open>C34: No sequence of scans makes the keyboard interrupt handler leave defined behaviour: from a well-
  formed driver state it handles every sequence without an out-of-bounds access and keeps the
  state well formed.\<close>

theorem keyboard_handler_safe:
  assumes "kbd_wf s"
  shows "\<exists>s'. foldM keyboard_handler scans s = Some s' \<and> kbd_wf s'"
  using assms by (rule keyboard_handler_sequence)

theorem keyboard_handler_safe_witness:
  "\<exists>s'. foldM keyboard_handler [0x2A, 0x1E, 0xAA, 0xE0, 0x4B, 0x0E, 0x1C] boot = Some s' \<and> kbd_wf s'"
  using keyboard_handler_safe [OF boot_kbd_wf(1)] by blast

text \<open>C35: Presses of ordinary keys append to the input ring, in the order of the presses, exactly the
  characters that the key map gives under the modifiers in force; keys without a character add
  nothing, and characters past the 255th are dropped.\<close>

theorem typed_characters_in_order:
  assumes "kbd_wf s" "extended_key s = 0" "\<forall>sc \<in> set scs. ordinary sc"
  shows "\<exists>s'. foldM keyboard_handler scs s = Some s' \<and> kbd_wf s' \<and>
    ring_items s' = take 255 (ring_items s @ filter (\<lambda>c. c \<noteq> 0) (map (\<lambda>sc. key_char sc s) scs))"
  using assms by (rule typing_order)

theorem typed_characters_in_order_witness:
  "\<exists>s'. foldM keyboard_handler [0x26, 0x1F, 0x1C] boot = Some s' \<and> ring_items s' = [108, 115, 10]"
proof -
  have "\<forall>sc \<in> set [0x26, 0x1F, 0x1C :: u8]. ordinary sc" by (simp add: ordinary_def key_defs)
  from typed_characters_in_order [OF boot_kbd_wf(1,5) this] obtain s' where
    "foldM keyboard_handler [0x26, 0x1F, 0x1C] boot = Some s'"
    "ring_items s' = filter (\<lambda>c. c \<noteq> 0) (map (\<lambda>sc. key_char sc boot) [0x26, 0x1F, 0x1C])"
    by (auto simp: boot_ring)
  moreover have "map (\<lambda>sc. key_char sc boot) [0x26, 0x1F, 0x1C] = [108, 115, 10]" by code_simp
  ultimately show ?thesis by auto
qed

text \<open>C36: The circular input buffer is a bounded queue: popping until it is empty yields the characters in
  the order in which they were pushed, the first 255 of those held and pushed, and no pop ever
  returns anything else.\<close>

theorem ring_is_bounded_fifo:
  assumes "ring_ok s"
  shows "fst (drain keyboard_buffer_pop 255 (fold (\<lambda>c q. snd (keyboard_buffer_push c q)) cs s)) =
    take 255 (ring_items s @ cs)"
  using assms by (rule ring.fifo)

theorem ring_is_bounded_fifo_witness:
  "fst (drain keyboard_buffer_pop 255 (fold (\<lambda>c q. snd (keyboard_buffer_push c q)) [1, 2, 3] boot)) = [1, 2, 3]"
  using ring_is_bounded_fifo [OF boot_ring(1), of "[1, 2, 3]"] by (simp add: boot_ring(2))

text \<open>C37: The loop that feeds the ring to the multi-line editor ends with the ring empty, without any out-
  of-bounds access, and keeps the editor's invariant.\<close>

theorem process_buffer_drains:
  assumes "ring_ok s" "edit_inv s" "\<not> shell_mode s"
  shows "\<exists>s'. keyboard_process_buffer s = Some s' \<and> ring_ok s' \<and> edit_inv s' \<and> ring_items s' = []"
  using process_loop_consumes [OF assms(1,2) order_refl] assms(3) by (auto simp: keyboard_process_buffer_def)

theorem process_buffer_drains_witness:
  "\<exists>s'. keyboard_process_buffer boot = Some s' \<and> ring_ok s' \<and> edit_inv s' \<and> ring_items s' = []"
  using process_buffer_drains [OF boot_ring(1) boot_kbd_wf(2)] by (auto simp: boot_def)

section \<open>The console\<close>

text \<open>C38: The C++ console library prints on the screen what the kernel's \<open>printf\<close> prints, to
  the byte and with the same cursor and port writes, for every format and arguments without a
  negative number.\<close>

theorem core_console_like_kernel:
  assumes "list_all non_negative args"
  shows "Format VGATextDevice_Write fmt args s = Some (True, printf fmt args s)"
  using assms by (rule Format_screen)

theorem core_console_like_kernel_witness:
  "Format VGATextDevice_Write ''%s: %d of %x'' [VS [65, 66], VI 42, VI 255] boot =
    Some (True, printf ''%s: %d of %x'' [VS [65, 66], VI 42, VI 255] boot)"
  by (rule core_console_like_kernel) (simp add: non_negative_def word_sle_eq)

text \<open>C39: Printing any format with any arguments, on the screen or on the debug log, and clearing the
  screen keep the cursor inside the 80 by 25 screen.\<close>

theorem console_stays_on_screen:
  assumes "on_screen s"
  shows "on_screen (printf fmt args s) \<and> on_screen (logf md lvl fmt args s) \<and> on_screen (VGA_clrscr s)"
  using assms by (intro conjI wf_intros)

theorem console_stays_on_screen_witness: "on_screen (printf ''%d %s'' [VI 42, VS [65]] boot)"
  using console_stays_on_screen [OF boot_on_screen] by blast

text \<open>C40: The digits printed for an unsigned 64-bit number in a radix from 2 to 16 read back as that
  number, and in radix 8 and above they fit the 32-byte buffer of the printing routine.\<close>

theorem printed_digits_read_back:
  fixes n :: u64
  assumes "2 \<le> radix" "radix \<le> 16"
  shows "digits_val radix (print_unsigned app n radix []) = unat n \<and> (8 \<le> radix \<longrightarrow> length (print_unsigned app n radix []) \<le> 22)"
proof -
  have e: "print_unsigned app n radix [] = rev (digit_loop (unat n) radix)"
    by (simp add: print_unsigned_def fold_app)
  have "length (digit_loop (unat n) radix) \<le> 22" if "8 \<le> radix"
  proof (rule digit_loop_length)
    have "unat n < 2 ^ 64" using unsigned_less [of n] by simp
    also have "(2 :: nat) ^ 64 \<le> 8 ^ 22" by simp
    also have "(8 :: nat) ^ 22 \<le> radix ^ 22" using that by (rule power_mono) simp
    finally show "unat n < radix ^ 22" .
  qed (use assms in auto)
  with digit_loop_value [OF assms] show ?thesis by (simp add: e)
qed

theorem printed_digits_read_back_witness: "digits_val 10 (print_unsigned app 1234 10 []) = 1234"
  using printed_digits_read_back [of 10 1234] by simp

section \<open>Further facts\<close>

theorem wc_counts: "wc_count xs = (int (count_list xs 10), int (length (words_by (\<lambda>c. c = 32 \<or> c = 9 \<or> c = 10) xs)))"
  using wc_count_ok [of xs] by (simp add: blank_def [abs_def])

theorem close_spec:
  assumes "fs_ok s"
  shows "\<exists>r s'. sys_handler_close fd s = Some (r, s') \<and> fs_ok s' \<and>
    (if fd < 32 \<and> fd_in_use (file_descriptors s ! unat fd) \<noteq> 0
     then r = SYSCALL_OK \<and> file_descriptors s' = (file_descriptors s)[unat fd := zero_desc]
     else r = SYSCALL_INVALID_PARAMS \<and> s' = s)"
  using assms by (rule close_ok)

theorem close_spec_witness:
  "\<exists>s'. sys_handler_close 3 demo = Some (SYSCALL_OK, s') \<and> fs_ok s' \<and> fd_in_use (file_descriptors s' ! 3) = 0"
  using close_spec [OF demo_fs_ok, of 3] by (auto simp: demo_fields demo_desc_def zero_desc_def nth_append)

theorem debug_log_line:
  assumes "on_screen s"
  shows "debug_out (logf m l fmt args s) = debug_out s @ g_LogSeverityColors l @
    expand (bytes ''[%s] '') [VS (bytes m)] @ expand (bytes fmt) args @ g_ColorReset @ [10]"
  using assms by (rule debug_out_logf)

theorem debug_log_line_witness:
  "debug_out (logf ''Main'' LVL_INFO ''n=%d'' [VI 42] boot) =
    [27, 91, 51, 55, 109] @ bytes ''[Main] n=42'' @ [27, 91, 48, 109, 10]"
  using debug_log_line [OF boot_on_screen, of "''Main''" LVL_INFO "''n=%d''" "[VI 42]"] by code_simp

theorem ls_lists_directory:
  assumes "ramfs_ok s" "path_to (ram_files s) (unat (ram_current_dir s)) ns" "length (path_str ns) < 64" "m_behind m \<noteq> []"
  shows "cmd_ls m argv s = Some (0, say (bytes ''Directory listing for '' @ shown_path ns @ bytes '':\<newline>'' @
     bytes ''Type       Name      \<newline>'' @ bytes ''------------------------------------------------------------\<newline>'' @
     (if children (ram_files s) (ram_current_dir s) = [] then bytes ''Directory is empty\<newline>''
      else concat (map (entry_line ''DIR       '' ''FILE      '') (children (ram_files s) (ram_current_dir s))))) s)"
  using cmd_ls_ok [OF assms, of argv] by (simp add: fmt)

theorem ls_lists_directory_witness: "\<exists>t. cmd_ls live_machine [bytes ''ls''] live = Some (0, say t live)"
proof -
  have "path_to (ram_files live) (unat (ram_current_dir live)) []" using path_to.root by simp
  from ls_lists_directory [OF live_ramfs_ok this, of live_machine] show ?thesis
    by (auto simp: path_str_def live_machine_def)
qed

theorem irq_initialize_sequence:
  assumes "masks_read_back inb" "length (g_ISRHandlers s) = 256" "length (g_IDT s) = 256"
  shows "\<exists>s'. i686_IRQ_Initialize inb s = Some s' \<and> g_Driver s' \<and> interrupts_on s' \<and> g_PicMask s' = 0xFFFF \<and>
    (\<forall>i < 256. g_ISRHandlers s' ! i = (if 32 \<le> i \<and> i < 48 then Some ISR_irq else g_ISRHandlers s ! i)) \<and>
    pic_commands s' = pic_commands s @
     [(0x21, 0xFF), (0xA1, 0xFF), (0x21, 0x37), (0xA1, 0x13),
      (0x21, 0xFF), (0xA1, 0xFF), (0x20, 0x11), (0xA0, 0x11), (0x21, 0x20), (0xA1, 0x28),
      (0x21, 4), (0xA1, 2), (0x21, 1), (0xA1, 1), (0x21, 0xFF), (0xA1, 0xFF)]"
  using assms by (rule IRQ_Initialize_ok)

theorem irq_initialize_sequence_witness: "\<exists>s'. i686_IRQ_Initialize last_out boot = Some s' \<and> g_Driver s' \<and> interrupts_on s'"
proof -
  have "masks_read_back (last_out :: u16 \<Rightarrow> ksys \<Rightarrow> u8)" by (simp add: masks_read_back_def)
  from irq_initialize_sequence [OF this boot_tables(1,2)] show ?thesis by blast
qed

theorem message_log_appends:
  assumes "dmesg_ok s"
  shows "\<exists>s'. kernel_add_message level component message s = Some s' \<and> dmesg_ok s' \<and>
    dmesg_texts s' = (if length (dmesg_texts s) < 20 then dmesg_texts s @ [message_text component message] else dmesg_texts s)"
  using kernel_add_message_ok [OF assms] by blast

theorem message_log_appends_witness:
  "\<exists>s'. kernel_add_message 73 None (Some (bytes ''hi'')) live = Some s' \<and> length (dmesg_texts s') = 1"
proof -
  have "dmesg_ok live" "dmesg_texts live = []" by (simp_all add: dmesg_ok_def dmesg_texts_def)
  with message_log_appends [OF this(1), of 73 None "Some (bytes ''hi'')"] show ?thesis by auto
qed

theorem mkdir_then_cd_and_back:
  assumes "ramfs_ok s" "is_cstr name" "length name \<le> 31" "name \<noteq> bytes ''..''" "name \<noteq> bytes ''/''"
    "ramfs_find_file name (ram_current_dir s) s = None" "ramfs_find_free_slot s = Some k"
    "path_to (ram_files s) (unat (ram_current_dir s)) ns"
  shows "\<exists>s1 s2 s3. cmd_mkdir m [a, name] s = Some (0, s1) \<and> cmd_cd m [b, name] s1 = Some (0, s2) \<and>
    cmd_cd m [c, bytes ''..''] s2 = Some (0, s3) \<and> ramfs_ok s3 \<and>
    path_to (ram_files s2) (unat (ram_current_dir s2)) (ns @ [name]) \<and> ram_current_dir s3 = ram_current_dir s"
  using assms by (rule mkdir_then_cd)

theorem mkdir_then_cd_and_back_witness:
  "\<exists>s1 s2 s3. cmd_mkdir live_machine [[], [110]] live = Some (0, s1) \<and> cmd_cd live_machine [[], [110]] s1 = Some (0, s2) \<and>
    cmd_cd live_machine [[], bytes ''..''] s2 = Some (0, s3) \<and> ram_current_dir s3 = 0"
proof -
  have n: "is_cstr [110]" "length [110 :: u8] \<le> 31" "[110] \<noteq> bytes ''..''" "[110] \<noteq> bytes ''/''"
    by (simp_all add: is_cstr_def bytes_def)
  have f: "ramfs_find_file [110] (ram_current_dir live) live = None" "path_to (ram_files live) (unat (ram_current_dir live)) []"
    using live_find(3) path_to.root by simp_all
  from mkdir_then_cd_and_back [OF live_ramfs_ok n f(1) live_find(4) f(2), of live_machine "[]" "[]" "[]"]
  show ?thesis by auto
qed

theorem read_slice:
  fixes s :: "'a ksys_scheme" and count fd :: u32
  assumes "fs_ok s" "open_file s fd k" "heap_file s k" "unat count < 2 ^ 31"
    "n = min (unat count) (unat (vf_size (virtual_files s ! k)) - fd_pos s fd)" "user_buf buffer n" "n < 2 ^ 16"
  shows "\<exists>s'. sys_handler_read fd buffer count s = Some (of_nat n, s') \<and> fs_ok s' \<and>
    bytes_at (mem s') buffer n = take (unat count) (drop (fd_pos s fd) (content s k)) \<and>
    fd_pos s' fd = fd_pos s fd + n \<and> open_file s' fd k \<and>
    (\<forall>j. heap_file s j \<longrightarrow> heap_file s' j \<and> content s' j = content s j)"
  using assms read_ok [of s fd k buffer count] by simp

theorem read_slice_witness:
  "\<exists>s'. sys_handler_read 3 0x2000 4 demo = Some (4, s') \<and> fs_ok s' \<and> fd_pos s' 3 = 4 \<and>
    bytes_at (mem s') 0x2000 4 = take 4 (content demo 0)"
proof -
  have "4 = min (unat (4 :: u32)) (unat (vf_size (virtual_files demo ! 0)) - fd_pos demo 3)"
    by (simp add: demo_open demo_nth_files demo_file_def)
  from read_slice [OF demo_fs_ok demo_open(1) demo_heap_file _ this, of "0x2000"] show ?thesis
    by (auto simp: user_buf_def demo_open)
qed

theorem next_cluster_through_cache:
  assumes "part_ok B part img" "cache_ok part img s" "entry_ok part s cl"
  shows "\<exists>s'. FAT_NextCluster B part cl s = Some (table_entry part img s cl, s') \<and> cache_ok part img s' \<and>
    s' = s\<lparr>bios_calls := bios_calls s', FatCache := FatCache s', FatCachePosition := FatCachePosition s'\<rparr>"
  using NextCluster_ok [OF assms] by (auto simp: cache_frame_def)

theorem next_cluster_through_cache_witness:
  "\<exists>s'. FAT_NextCluster floppy_bios floppy_part 3 (floppy_vol\<lparr>FatCachePosition := 0xFFFFFFFF\<rparr>) = Some (4, s')"
  using next_cluster_through_cache [OF floppy_part_ok floppy_cold_cache floppy_cold_entry] floppy_cold_value by auto

theorem core_negative_number:
  assumes "sint w < 0" "\<not> 10 dvd sint w"
  shows "Format dev ''%d'' [VI w] s = None"
  using assms by (rule Format_negative)

theorem core_negative_number_witness: "Format E9Device_Write ''%d'' [VI (- 5)] boot = None"
  using core_negative_number [of "- 5" E9Device_Write boot] by simp

end
